(* ===== verification/Prelude.thy ===== *)
theory Prelude
  imports Main
begin

text \<open>
  What the theories of the development share: the collections of rules the components extend,
  the result type of code that may throw, list and association-list lemmas, and the JavaScript
  numeric limits the code checks.
\<close>

named_theorems view_defs \<open>definitions of the read surface of log and index views\<close>
named_theorems guard_simps \<open>rewrite rules for the guards of the throwing operations\<close>
named_theorems step_defs \<open>definitions of the state-changing operations\<close>

section \<open>Results of code that may throw\<close>

text \<open>
  A function of the source that may throw (or whose Effect may fail) returns a sum: \<open>Inl e\<close> is
  the thrown error, \<open>Inr x\<close> the value. \<open>try_bind\<close> sequences two such steps, as the source's
  statement order and \<open>yield*\<close> do: the first error ends the computation.
\<close>

fun try_bind :: "'e + 'a \<Rightarrow> ('a \<Rightarrow> 'e + 'b) \<Rightarrow> 'e + 'b" where
  "try_bind (Inl e) f = Inl e"
| "try_bind (Inr x) f = f x"

lemma try_bind_eq_Inr [simp]: "try_bind r f = Inr y \<longleftrightarrow> (\<exists>x. r = Inr x \<and> f x = Inr y)"
  by (cases r) auto

lemma try_bind_eq_Inl [simp]:
  "try_bind r f = Inl e \<longleftrightarrow> r = Inl e \<or> (\<exists>x. r = Inr x \<and> f x = Inl e)"
  by (cases r) auto

lemma try_bind_assoc: "try_bind (try_bind r f) g = try_bind r (\<lambda>x. try_bind (f x) g)"
  by (cases r) simp_all

lemma try_bind_cong [fundef_cong]: "r = r' \<Longrightarrow> (\<And>x. r' = Inr x \<Longrightarrow> f x = g x) \<Longrightarrow> try_bind r f = try_bind r' g"
  by (cases r') simp_all

text \<open>\<open>check b e\<close> is the source's \<open>if (!b) throw e\<close>.\<close>

definition check :: "bool \<Rightarrow> 'e \<Rightarrow> 'e + unit" where
  "check b e = (if b then Inr () else Inl e)"

lemma check_eq_Inr [simp]: "check b e = Inr u \<longleftrightarrow> b"
  by (simp add: check_def)

lemma check_eq_Inl [simp]: "check b e = Inl e' \<longleftrightarrow> \<not> b \<and> e' = e"
  by (auto simp: check_def)

text \<open>\<open>map_try\<close> is \<open>array.map\<close> (or \<open>Effect.forEach\<close>) with a callback that may throw.\<close>

fun map_try :: "('a \<Rightarrow> 'e + 'b) \<Rightarrow> 'a list \<Rightarrow> 'e + 'b list" where
  "map_try f [] = Inr []"
| "map_try f (x # xs) =
     try_bind (f x) (\<lambda>y. try_bind (map_try f xs) (\<lambda>ys. Inr (y # ys)))"

lemma map_try_Inr_iff: "map_try f xs = Inr ys \<longleftrightarrow> map f xs = map Inr ys"
  by (induction xs arbitrary: ys) (auto simp: map_eq_Cons_conv Cons_eq_map_conv)

lemma map_try_total: "(\<And>x. x \<in> set xs \<Longrightarrow> f x = Inr (g x)) \<Longrightarrow> map_try f xs = Inr (map g xs)"
  by (induction xs) auto

text \<open>\<open>fold_try\<close> is a \<open>for\<close> loop over a list whose body may throw.\<close>

fun fold_try :: "('a \<Rightarrow> 's \<Rightarrow> 'e + 's) \<Rightarrow> 'a list \<Rightarrow> 's \<Rightarrow> 'e + 's" where
  "fold_try f [] s = Inr s"
| "fold_try f (x # xs) s = try_bind (f x s) (fold_try f xs)"

lemma fold_try_append: "fold_try f (xs @ ys) s = try_bind (fold_try f xs s) (fold_try f ys)"
proof (induction xs arbitrary: s)
  case (Cons x xs)
  then show ?case by (cases "f x s") simp_all
qed simp

lemma fold_try_invariant:
  "fold_try f xs s = Inr t \<Longrightarrow> P s \<Longrightarrow> (\<And>x s s'. x \<in> set xs \<Longrightarrow> P s \<Longrightarrow> f x s = Inr s' \<Longrightarrow> P s') \<Longrightarrow> P t"
proof (induction xs arbitrary: s)
  case (Cons x xs)
  from Cons.prems(1) obtain s' where step: "f x s = Inr s'" "fold_try f xs s' = Inr t" by auto
  have "P s'" by (rule Cons.prems(3) [OF _ Cons.prems(2) step(1)]) simp
  show ?case by (rule Cons.IH [OF step(2) \<open>P s'\<close>]) (rule Cons.prems(3), auto)
qed simp

section \<open>JavaScript integers\<close>

text \<open>\<open>Number.MAX_SAFE_INTEGER\<close> and the test \<open>Number.isSafeInteger\<close> on integral values.\<close>

definition max_safe_integer :: int where
  "max_safe_integer = 9007199254740991"

definition safe_integer :: "int \<Rightarrow> bool" where
  "safe_integer n \<longleftrightarrow> - max_safe_integer \<le> n \<and> n \<le> max_safe_integer"

section \<open>Lists\<close>

lemma take_append_le [simp]: "n \<le> length xs \<Longrightarrow> take n (xs @ ys) = take n xs"
  by simp

lemma nth_take_drop_hd: "i < length xs \<Longrightarrow> take (Suc 0) (drop i xs) = [xs ! i]"
  by (metis Cons_nth_drop_Suc take0 take_Suc_Cons)

text \<open>The first index from \<open>i\<close> on whose element satisfies the two-argument predicate.\<close>

fun find_index_from :: "('a \<Rightarrow> nat \<Rightarrow> bool) \<Rightarrow> nat \<Rightarrow> 'a list \<Rightarrow> nat option" where
  "find_index_from p i [] = None"
| "find_index_from p i (x # xs) = (if p x i then Some i else find_index_from p (Suc i) xs)"

lemma find_index_from_Some:
  "find_index_from p i xs = Some j \<Longrightarrow> i \<le> j \<and> j < i + length xs \<and> p (xs ! (j - i)) j"
  by (induction p i xs rule: find_index_from.induct)
     (auto split: if_splits simp: nth_Cons' less_Suc_eq_le Suc_le_eq)

lemma find_index_from_None:
  "find_index_from p i xs = None \<longleftrightarrow> (\<forall>k < length xs. \<not> p (xs ! k) (i + k))"
proof (induction p i xs rule: find_index_from.induct)
  case (2 p i x xs)
  have "(\<forall>k < length (x # xs). \<not> p ((x # xs) ! k) (i + k)) \<longleftrightarrow>
      \<not> p x i \<and> (\<forall>k < length xs. \<not> p (xs ! k) (Suc i + k))"
    by (auto simp: nth_Cons' less_Suc_eq_0_disj)
  with "2" show ?case by auto
qed simp

lemma find_index_from_append:
  "find_index_from p i (xs @ ys) =
     (case find_index_from p i xs of Some j \<Rightarrow> Some j | None \<Rightarrow> find_index_from p (i + length xs) ys)"
  by (induction p i xs rule: find_index_from.induct) (auto split: option.split)

text \<open>\<open>array.filter\<close> with a predicate of the element and its index.\<close>

fun filter_index_from :: "('a \<Rightarrow> nat \<Rightarrow> bool) \<Rightarrow> nat \<Rightarrow> 'a list \<Rightarrow> 'a list" where
  "filter_index_from p i [] = []"
| "filter_index_from p i (x # xs) =
     (if p x i then x # filter_index_from p (Suc i) xs else filter_index_from p (Suc i) xs)"

lemma filter_index_from_append:
  "filter_index_from p i (xs @ ys) = filter_index_from p i xs @ filter_index_from p (i + length xs) ys"
  by (induction p i xs rule: filter_index_from.induct) auto

lemma filter_index_from_const: "filter_index_from (\<lambda>x _. q x) i xs = filter q xs"
  by (induction xs arbitrary: i) auto

text \<open>\<open>array.join\<close>.\<close>

definition js_join :: "'a list \<Rightarrow> 'a list list \<Rightarrow> 'a list" where
  "js_join sep xs = (case xs of [] \<Rightarrow> [] | y # ys \<Rightarrow> y @ concat (map (\<lambda>s. sep @ s) ys))"

section \<open>Lists of objects\<close>

text \<open>\<open>list_head\<close> is \<open>array[0]\<close>; \<open>update_first\<close> replaces the object \<open>array.find\<close> returned.\<close>

fun list_head :: "'a list \<Rightarrow> 'a option" where
  "list_head [] = None"
| "list_head (x # xs) = Some x"

fun update_first :: "('a \<Rightarrow> bool) \<Rightarrow> ('a \<Rightarrow> 'a) \<Rightarrow> 'a list \<Rightarrow> 'a list" where
  "update_first P f [] = []"
| "update_first P f (x # xs) = (if P x then f x # xs else x # update_first P f xs)"

definition find_last :: "('a \<Rightarrow> bool) \<Rightarrow> 'a list \<Rightarrow> 'a option" where
  "find_last P xs = find P (rev xs)"

lemma list_head_eq: "list_head xs = (if xs = [] then None else Some (hd xs))"
  by (cases xs) simp_all

lemma find_last_snoc [simp]: "find_last P (xs @ [x]) = (if P x then Some x else find_last P xs)"
  by (simp add: find_last_def)

lemma find_last_Nil [simp]: "find_last P [] = None"
  by (simp add: find_last_def)

lemma length_update_first [simp]: "length (update_first P f xs) = length xs"
  by (induction xs) simp_all

lemma map_update_first: "(\<And>x. g (f x) = g x) \<Longrightarrow> map g (update_first P f xs) = map g xs"
  by (induction xs) simp_all

lemma set_update_first: "y \<in> set (update_first P f xs) \<Longrightarrow> y \<in> set xs \<or> (\<exists>x\<in>set xs. P x \<and> y = f x)"
  by (induction xs) (auto split: if_splits)

lemma find_Some_in: "find P xs = Some x \<Longrightarrow> x \<in> set xs \<and> P x"
  by (auto simp: find_Some_iff)

lemma find_append: "find P (xs @ ys) = (case find P xs of None \<Rightarrow> find P ys | Some x \<Rightarrow> Some x)"
  by (induction xs) auto

section \<open>JavaScript maps\<close>

text \<open>
  A \<open>Map\<close> iterates in insertion order, and \<open>set\<close> on a present key keeps its place: an association
  list with distinct keys. \<open>map_of\<close> is \<open>get\<close>.
\<close>

fun js_set :: "'k \<Rightarrow> 'v \<Rightarrow> ('k \<times> 'v) list \<Rightarrow> ('k \<times> 'v) list" where
  "js_set k v [] = [(k, v)]"
| "js_set k v ((k', v') # xs) = (if k = k' then (k, v) # xs else (k', v') # js_set k v xs)"

definition js_delete :: "'k \<Rightarrow> ('k \<times> 'v) list \<Rightarrow> ('k \<times> 'v) list" where
  "js_delete k xs = filter (\<lambda>(k', _). k' \<noteq> k) xs"

definition js_has :: "('k \<times> 'v) list \<Rightarrow> 'k \<Rightarrow> bool" where
  "js_has xs k \<longleftrightarrow> map_of xs k \<noteq> None"

lemma map_of_js_set [simp]: "map_of (js_set k v xs) = (map_of xs)(k \<mapsto> v)"
  by (induction k v xs rule: js_set.induct) auto

lemma map_of_js_delete [simp]: "map_of (js_delete k xs) = (map_of xs)(k := None)"
  by (induction xs) (auto simp: js_delete_def fun_eq_iff)

lemma fst_js_set: "map fst (js_set k v xs) = map fst xs @ (if k \<in> fst ` set xs then [] else [k])"
  by (induction k v xs rule: js_set.induct) auto

lemma js_set_new: "k \<notin> fst ` set xs \<Longrightarrow> js_set k v xs = xs @ [(k, v)]"
  by (induction k v xs rule: js_set.induct) auto

lemma distinct_js_set [simp]: "distinct (map fst xs) \<Longrightarrow> distinct (map fst (js_set k v xs))"
  by (auto simp: fst_js_set)

lemma distinct_js_delete [simp]: "distinct (map fst xs) \<Longrightarrow> distinct (map fst (js_delete k xs))"
  by (induction xs) (auto simp: js_delete_def)

lemma length_js_set: "length (js_set k v xs) = (if k \<in> fst ` set xs then length xs else Suc (length xs))"
  by (induction k v xs rule: js_set.induct) auto

lemma keys_js_set [simp]: "fst ` set (js_set k v xs) = insert k (fst ` set xs)"
  by (induction k v xs rule: js_set.induct) auto

lemma keys_js_delete [simp]: "fst ` set (js_delete k xs) = fst ` set xs - {k}"
  by (induction xs) (auto simp: js_delete_def)

lemma set_js_set: "set (js_set k v xs) \<subseteq> insert (k, v) (set xs)"
  by (induction k v xs rule: js_set.induct) auto

lemma js_set_same: "map_of xs k = Some v \<Longrightarrow> distinct (map fst xs) \<Longrightarrow> js_set k v xs = xs"
  by (induction k v xs rule: js_set.induct) auto

lemma js_set_map:
  "js_set k (f v) (map (\<lambda>(k, v). (k, f v)) xs) = map (\<lambda>(k, v). (k, f v)) (js_set k v xs)"
  by (induction k v xs rule: js_set.induct) auto

end
