(* ===== verification/Json.thy ===== *)
theory Json
  imports Prelude "HOL-Library.Finite_Map" "HOL-Library.List_Lexorder" "HOL-Library.Char_ord"
begin

text \<open>
  JSON values (\<open>Schema.Json\<close>) and their canonical text (\<open>canonicalInput\<close> of
  \<open>packages/core/src/runtime/input-digest.ts\<close>). An object is a finite map, so HOL equality is
  \<open>isDeepStrictEqual\<close>, which ignores the order of keys. A number is identified with the text
  \<open>Number::toString\<close> gives it: \<open>JInt n\<close> prints as the decimal integer \<open>n\<close>, \<open>JNum t\<close> is any other
  finite number, by its text \<open>t\<close> (which then holds a point or an exponent). Strings are sequences
  of code units below 256, so there are no surrogates and the guards against lone surrogates and
  non-finite numbers never fire. \<open>canonical_inject\<close> shows that the text determines the value.
\<close>

datatype json =
    JNull
  | JBool bool
  | JInt int
  | JNum string
  | JStr string
  | JArr "json list"
  | JObj "(string, json) fmap"

section \<open>Text of numbers and strings\<close>

definition digit_char :: "nat \<Rightarrow> char" where
  "digit_char d = ''0123456789'' ! d"

fun nat_text :: "nat \<Rightarrow> string" where
  "nat_text n = (if n < 10 then [digit_char n] else nat_text (n div 10) @ [digit_char (n mod 10)])"

declare nat_text.simps [simp del]

definition int_text :: "int \<Rightarrow> string" where
  "int_text n = (if n < 0 then CHR ''-'' # nat_text (nat (- n)) else nat_text (nat n))"

definition hex_char :: "nat \<Rightarrow> char" where
  "hex_char d = ''0123456789abcdef'' ! d"

text \<open>\<open>JSON.stringify\<close> of one code unit of a string.\<close>

definition escape_char :: "char \<Rightarrow> string" where
  "escape_char c =
     (if c = CHR 0x22 then [CHR 0x5C, CHR 0x22]
      else if c = CHR 0x5C then [CHR 0x5C, CHR 0x5C]
      else if c = CHR 0x08 then [CHR 0x5C, CHR ''b'']
      else if c = CHR 0x0C then [CHR 0x5C, CHR ''f'']
      else if c = CHR 0x0A then [CHR 0x5C, CHR ''n'']
      else if c = CHR 0x0D then [CHR 0x5C, CHR ''r'']
      else if c = CHR 0x09 then [CHR 0x5C, CHR ''t'']
      else if of_char c < (32 :: nat)
      then CHR 0x5C # ''u00'' @ [hex_char (of_char c div 16), hex_char (of_char c mod 16)]
      else [c])"

definition string_text :: "string \<Rightarrow> string" where
  "string_text s = CHR 0x22 # concat (map escape_char s) @ [CHR 0x22]"

fun join_comma :: "string list \<Rightarrow> string" where
  "join_comma [] = []"
| "join_comma [x] = x"
| "join_comma (x # xs) = x @ CHR '','' # join_comma xs"

text \<open>The members of an object in the order of \<open>Object.keys(input).sort()\<close>, by code units.\<close>

definition object_text :: "(string, string) fmap \<Rightarrow> string" where
  "object_text m =
     CHR ''{'' # join_comma (map (\<lambda>k. string_text k @ CHR '':'' # the (fmlookup m k))
       (sorted_list_of_fset (fmdom m))) @ [CHR ''}'']"

primrec canonicalInput :: "json \<Rightarrow> string" where
  "canonicalInput JNull = ''null''"
| "canonicalInput (JBool b) = (if b then ''true'' else ''false'')"
| "canonicalInput (JInt n) = int_text n"
| "canonicalInput (JNum t) = t"
| "canonicalInput (JStr s) = string_text s"
| "canonicalInput (JArr xs) = CHR ''['' # join_comma (map canonicalInput xs) @ [CHR '']'']"
| "canonicalInput (JObj m) = object_text (fmmap canonicalInput m)"

definition number_chars :: "char set" where
  "number_chars = set ''0123456789.+-e''"

primrec json_ok :: "json \<Rightarrow> bool" where
  "json_ok JNull = True"
| "json_ok (JBool b) = True"
| "json_ok (JInt n) = True"
| "json_ok (JNum t) = (t \<noteq> [] \<and> set t \<subseteq> number_chars \<and> (CHR ''.'' \<in> set t \<or> CHR ''e'' \<in> set t))"
| "json_ok (JStr s) = True"
| "json_ok (JArr xs) = list_all id (map json_ok xs)"
| "json_ok (JObj m) = fmpred (\<lambda>_ b. b) (fmmap json_ok m)"

section \<open>The text determines the value\<close>

subsection \<open>Numbers\<close>

definition digit_value :: "char \<Rightarrow> nat" where
  "digit_value c = of_char c - 48"

lemma less_10_cases: "d < (10 :: nat) \<longleftrightarrow> d \<in> {0, 1, 2, 3, 4, 5, 6, 7, 8, 9}"
  by auto

lemma digit_value_char: "d < 10 \<Longrightarrow> digit_value (digit_char d) = d"
  by (auto simp: less_10_cases digit_value_def digit_char_def)

lemma digit_char_range: "d < 10 \<Longrightarrow> digit_char d \<in> set ''0123456789''"
  by (simp only: digit_char_def) (intro nth_mem, simp)

lemma nat_text_foldl: "foldl (\<lambda>n c. 10 * n + digit_value c) 0 (nat_text n) = n"
proof (induction n rule: nat_text.induct)
  case (1 n)
  then show ?case
    by (subst nat_text.simps) (auto simp: digit_value_char)
qed

lemma nat_text_inject [simp]: "nat_text m = nat_text n \<longleftrightarrow> m = n"
  by (metis nat_text_foldl)

lemma nat_text_chars: "set (nat_text n) \<subseteq> set ''0123456789''"
proof (induction n rule: nat_text.induct)
  case (1 n)
  have "digit_char (n mod 10) \<in> set ''0123456789''" by (rule digit_char_range) simp
  then show ?case using "1" digit_char_range [of n] by (subst nat_text.simps) auto
qed

lemma nat_text_not_Nil [simp]: "nat_text n \<noteq> []"
  by (subst nat_text.simps) simp

lemma nat_text_hd: "hd (nat_text n) \<in> set ''0123456789''"
  using nat_text_chars [of n] hd_in_set [OF nat_text_not_Nil] by blast

lemma int_text_inject [simp]: "int_text m = int_text n \<longleftrightarrow> m = n"
proof
  assume eq: "int_text m = int_text n"
  have minus: "CHR ''-'' # xs \<noteq> nat_text k" for xs k
  proof
    assume "CHR ''-'' # xs = nat_text k"
    then have "hd (nat_text k) = CHR ''-''" by (metis list.sel(1))
    with nat_text_hd [of k] show False by simp
  qed
  from eq show "m = n"
    using minus minus [symmetric] by (auto simp: int_text_def split: if_splits)
qed simp

lemma int_text_chars: "set (int_text n) \<subseteq> set ''0123456789-''"
proof -
  have "set ''0123456789'' \<subseteq> set ''0123456789-''" by simp
  then have "set (nat_text k) \<subseteq> set ''0123456789-''" for k
    using nat_text_chars [of k] by blast
  moreover have "CHR ''-'' \<in> set ''0123456789-''" by simp
  ultimately show ?thesis by (simp only: int_text_def split: if_split) (simp only: list.set insert_subset simp_thms)
qed

lemma int_text_not_Nil [simp]: "int_text n \<noteq> []"
  by (simp add: int_text_def)

subsection \<open>Strings\<close>

definition hex_value :: "char \<Rightarrow> nat" where
  "hex_value c = (if of_char c < (58 :: nat) then of_char c - 48 else of_char c - 87)"

lemma less_16_cases: "d < (16 :: nat) \<longleftrightarrow> d \<in> {0, 1, 2, 3, 4, 5, 6, 7, 8, 9, 10, 11, 12, 13, 14, 15}"
  by (simp, presburger)

lemma hex_value_char: "d < 16 \<Longrightarrow> hex_value (hex_char d) = d"
  by (auto simp: less_16_cases hex_value_def hex_char_def)

text \<open>Reads back one code unit from the front of an escaped text.\<close>

definition unescape_head :: "string \<Rightarrow> (char \<times> string) option" where
  "unescape_head s =
     (case s of [] \<Rightarrow> None
      | x # xs \<Rightarrow>
        if x \<noteq> CHR 0x5C then Some (x, xs)
        else (case xs of [] \<Rightarrow> None
          | y # ys \<Rightarrow>
            if y = CHR ''u''
            then Some (char_of (16 * hex_value (ys ! 2) + hex_value (ys ! 3)), drop 4 ys)
            else Some (if y = CHR ''b'' then CHR 0x08 else if y = CHR ''f'' then CHR 0x0C
                       else if y = CHR ''n'' then CHR 0x0A else if y = CHR ''r'' then CHR 0x0D
                       else if y = CHR ''t'' then CHR 0x09 else y, ys)))"

lemma unescape_escape: "unescape_head (escape_char c @ r) = Some (c, r)"
proof -
  have ctrl: "char_of (16 * hex_value (hex_char (of_char c div 16)) + hex_value (hex_char (of_char c mod 16))) = c"
    if "of_char c < (32 :: nat)"
  proof -
    have "of_char c div 16 < (16 :: nat)" "of_char c mod 16 < (16 :: nat)" using that by auto
    then show ?thesis by (simp only: hex_value_char mult_div_mod_eq char_of_char)
  qed
  show ?thesis
    using ctrl by (simp add: escape_char_def unescape_head_def)
qed

lemma escape_char_not_Nil [simp]: "escape_char c \<noteq> []"
  by (simp add: escape_char_def)

lemma hd_escape_char: "hd (escape_char c) \<noteq> CHR 0x22"
  by (auto simp: escape_char_def)

lemma escape_char_not_quote: "escape_char c @ r \<noteq> CHR 0x22 # r'"
  using hd_escape_char [of c] by (cases "escape_char c") auto

lemma escaped_prefix:
  "concat (map escape_char s) @ CHR 0x22 # r = concat (map escape_char t) @ CHR 0x22 # r' \<Longrightarrow>
     s = t \<and> r = r'"
proof (induction s arbitrary: t)
  case Nil
  then show ?case
    using escape_char_not_quote by (cases t) (auto dest: sym)
next
  case (Cons c s)
  show ?case
  proof (cases t)
    case Nil
    with Cons.prems show ?thesis using escape_char_not_quote by simp
  next
    case (Cons d t')
    with Cons.prems have "unescape_head (escape_char c @ (concat (map escape_char s) @ CHR 0x22 # r)) =
        unescape_head (escape_char d @ (concat (map escape_char t') @ CHR 0x22 # r'))" by simp
    then have "c = d" and "concat (map escape_char s) @ CHR 0x22 # r = concat (map escape_char t') @ CHR 0x22 # r'"
      by (simp_all only: unescape_escape option.inject prod.inject)
    with Cons.IH Cons show ?thesis by blast
  qed
qed

lemma string_text_prefix: "string_text s @ r = string_text t @ r' \<Longrightarrow> s = t \<and> r = r'"
  unfolding string_text_def by (rule escaped_prefix) simp

lemma string_text_inject [simp]: "string_text s = string_text t \<longleftrightarrow> s = t"
  using string_text_prefix [of s "[]" t "[]"] by auto

subsection \<open>Lists and objects\<close>

text \<open>What may follow a value inside a canonical text.\<close>

definition delimited :: "string \<Rightarrow> bool" where
  "delimited r \<longleftrightarrow> r = [] \<or> hd r \<in> {CHR '','', CHR '']'', CHR ''}''}"

definition prefix_free :: "string \<Rightarrow> string \<Rightarrow> bool" where
  "prefix_free x y \<longleftrightarrow> (\<forall>r s. delimited r \<longrightarrow> delimited s \<longrightarrow> x @ r = y @ s \<longrightarrow> x = y \<and> r = s)"

lemma prefix_freeD: "prefix_free x y \<Longrightarrow> delimited r \<Longrightarrow> delimited s \<Longrightarrow> x @ r = y @ s \<Longrightarrow> x = y \<and> r = s"
  by (simp add: prefix_free_def)

definition opens_value :: "string \<Rightarrow> bool" where
  "opens_value x \<longleftrightarrow> x \<noteq> [] \<and> hd x \<notin> {CHR '']'', CHR ''}''}"

lemma opens_value_append:
  "opens_value x \<Longrightarrow> close = CHR '']'' \<or> close = CHR ''}'' \<Longrightarrow> x @ t \<noteq> close # r"
  by (cases x) (auto simp: opens_value_def)

lemma join_prefix_free:
  assumes "\<And>x y. x \<in> set xs \<Longrightarrow> y \<in> set ys \<Longrightarrow> prefix_free x y"
    and "\<And>x. x \<in> set xs \<union> set ys \<Longrightarrow> opens_value x"
    and "close = CHR '']'' \<or> close = CHR ''}''"
    and "join_comma xs @ close # r = join_comma ys @ close # s"
  shows "xs = ys \<and> r = s"
  using assms
proof (induction xs arbitrary: ys rule: join_comma.induct)
  case 1
  then show ?case
    using opens_value_append [of _ close, symmetric] by (cases ys rule: join_comma.cases) auto
next
  case (2 x)
  have d: "delimited (close # t)" for t using "2.prems"(3) by (auto simp: delimited_def)
  show ?case
  proof (cases ys rule: join_comma.cases)
    case 1
    with "2.prems" show ?thesis using opens_value_append [of x close] by auto
  next
    case (2 y)
    with "2.prems" d show ?thesis
      using prefix_freeD [of x y "close # r" "close # s"] by simp
  next
    case (3 y z zs)
    have "delimited (CHR '','' # t)" for t by (simp add: delimited_def)
    with "2.prems" 3 d have "close # r = CHR '','' # join_comma (z # zs) @ close # s"
      using prefix_freeD [of x y "close # r" "CHR '','' # join_comma (z # zs) @ close # s"] by simp
    with "2.prems"(3) show ?thesis by auto
  qed
next
  case (3 x x' xs)
  have d: "delimited (close # t)" "delimited (CHR '','' # t)" for t using "3.prems"(3) by (auto simp: delimited_def)
  show ?case
  proof (cases ys rule: join_comma.cases)
    case 1
    with "3.prems" show ?thesis using opens_value_append [of x close] by auto
  next
    case (2 y)
    with "3.prems" d have "CHR '','' # join_comma (x' # xs) @ close # r = close # s"
      using prefix_freeD [of x y "CHR '','' # join_comma (x' # xs) @ close # r" "close # s"] by simp
    with "3.prems"(3) show ?thesis by auto
  next
    case (3 y z zs)
    with "3.prems" d have "x = y" and "join_comma (x' # xs) @ close # r = join_comma (z # zs) @ close # s"
      using prefix_freeD [of x y "CHR '','' # join_comma (x' # xs) @ close # r" "CHR '','' # join_comma (z # zs) @ close # s"]
      by simp_all
    with "3.IH" [of "z # zs"] "3.prems" 3 show ?thesis by auto
  qed
qed

lemma delimited_Nil [simp]: "delimited []"
  by (simp add: delimited_def)

text \<open>The text of a number ends where the first character that no number has begins.\<close>

lemma number_text_prefix:
  assumes "set x \<subseteq> number_chars" "set y \<subseteq> number_chars" "delimited r" "delimited s" "x @ r = y @ s"
  shows "x = y \<and> r = s"
proof -
  have stop: "takeWhile (\<lambda>c. c \<in> number_chars) (z @ t) = z" if "set z \<subseteq> number_chars" "delimited t" for z t
  proof -
    have "t = [] \<or> hd t \<notin> number_chars" using that(2) by (auto simp: delimited_def number_chars_def)
    then show ?thesis using that(1) by (cases t) (simp_all add: subset_iff takeWhile_append2)
  qed
  from assms(5) have "takeWhile (\<lambda>c. c \<in> number_chars) (x @ r) = takeWhile (\<lambda>c. c \<in> number_chars) (y @ s)"
    by (rule arg_cong)
  then have "x = y" by (simp only: stop [OF assms(1,3)] stop [OF assms(2,4)])
  with assms(5) show ?thesis by simp
qed

primrec starts_number :: "string \<Rightarrow> bool" where
  "starts_number [] = False"
| "starts_number (c # _) = (c \<in> number_chars)"

lemma int_text_number_chars: "set (int_text n) \<subseteq> number_chars"
proof -
  have "set ''0123456789-'' \<subseteq> number_chars" by (simp add: number_chars_def)
  then show ?thesis using int_text_chars by blast
qed

lemma starts_numberI: "set t \<subseteq> number_chars \<Longrightarrow> t \<noteq> [] \<Longrightarrow> starts_number (t @ r)"
  by (cases t) auto

lemma not_starts_number [simp]:
  "\<not> starts_number (CHR ''n'' # r)" "\<not> starts_number (CHR ''t'' # r)" "\<not> starts_number (CHR ''f'' # r)"
  "\<not> starts_number (CHR 0x22 # r)" "\<not> starts_number (CHR ''['' # r)" "\<not> starts_number (CHR ''{'' # r)"
  by (simp_all add: number_chars_def)

lemma number_not_other:
  assumes "json_ok a" "a = JInt n \<or> a = JNum t"
  shows "canonicalInput a @ r \<noteq> CHR ''n'' # q" "canonicalInput a @ r \<noteq> CHR ''t'' # q"
    "canonicalInput a @ r \<noteq> CHR ''f'' # q" "canonicalInput a @ r \<noteq> CHR 0x22 # q"
    "canonicalInput a @ r \<noteq> CHR ''['' # q" "canonicalInput a @ r \<noteq> CHR ''{'' # q"
proof -
  have "starts_number (canonicalInput a @ r)"
    using assms by (auto intro!: starts_numberI dest: subsetD [OF int_text_number_chars])
  then show "canonicalInput a @ r \<noteq> CHR ''n'' # q" "canonicalInput a @ r \<noteq> CHR ''t'' # q"
    "canonicalInput a @ r \<noteq> CHR ''f'' # q" "canonicalInput a @ r \<noteq> CHR 0x22 # q"
    "canonicalInput a @ r \<noteq> CHR ''['' # q" "canonicalInput a @ r \<noteq> CHR ''{'' # q"
    by (metis not_starts_number)+
qed

lemma int_text_no_point: "set (int_text n) \<inter> {CHR ''.'', CHR ''e''} = {}"
  using int_text_chars [of n] by auto

lemma opens_value_string: "opens_value (string_text k @ r)"
  by (simp add: opens_value_def string_text_def)

lemma opens_value_canonical: "json_ok a \<Longrightarrow> opens_value (canonicalInput a)"
proof (cases a)
  case (JInt n)
  have "hd (int_text n) \<in> set (int_text n)" by (rule hd_in_set) simp
  then have "hd (int_text n) \<in> set ''0123456789-''" using int_text_chars by blast
  then show ?thesis using JInt by (auto simp: opens_value_def)
next
  case (JNum t)
  assume "json_ok a"
  with JNum have "t \<noteq> []" "hd t \<in> number_chars" using hd_in_set [of t] by auto
  then show ?thesis using JNum by (auto simp: opens_value_def number_chars_def)
qed (auto simp: opens_value_def string_text_def object_text_def)

lemma json_ok_member: "json_ok (JObj m) \<Longrightarrow> v \<in> fmran' m \<Longrightarrow> json_ok v"
  by (auto simp: fmpred_iff elim!: fmran'E)

lemma canonical_prefix:
  "json_ok a \<Longrightarrow> json_ok b \<Longrightarrow> delimited r \<Longrightarrow> delimited s \<Longrightarrow>
     canonicalInput a @ r = canonicalInput b @ s \<Longrightarrow> a = b \<and> r = s"
proof (induction a arbitrary: b r s)
  case JNull
  then show ?case
    using number_not_other(1) [of b, symmetric]
    by (cases b) (auto simp: string_text_def object_text_def split: if_splits)
next
  case (JBool x)
  then show ?case
    using number_not_other(2,3) [of b, symmetric]
    by (cases b) (auto simp: string_text_def object_text_def split: if_splits)
next
  case (JStr x)
  then show ?case
    using number_not_other(4) [of b, symmetric] string_text_prefix [of x r _ s]
    by (cases b) (auto simp: string_text_def object_text_def split: if_splits)
next
  case (JInt n)
  note other = number_not_other [of "JInt n"]
  show ?case
  proof (cases b)
    case (JInt m)
    with JInt.prems show ?thesis
      using number_text_prefix [OF int_text_number_chars int_text_number_chars, of r s n m] by simp
  next
    case (JNum t)
    with JInt.prems have "int_text n = t"
      using number_text_prefix [OF int_text_number_chars, of t r s n] by simp
    with JInt.prems JNum int_text_no_point [of n] show ?thesis by auto
  qed (use JInt.prems other in \<open>auto simp: string_text_def object_text_def split: if_splits\<close>)
next
  case (JNum t)
  note other = number_not_other [of "JNum t"]
  show ?case
  proof (cases b)
    case (JInt m)
    with JNum.prems have "int_text m = t"
      using number_text_prefix [OF _ int_text_number_chars, of t r s m] by simp
    with JNum.prems int_text_no_point [of m] show ?thesis by auto
  next
    case (JNum u)
    with JNum.prems show ?thesis using number_text_prefix [of t u r s] by simp
  qed (use JNum.prems other in \<open>auto simp: string_text_def object_text_def split: if_splits\<close>)
next
  case (JArr xs)
  show ?case
  proof (cases b)
    case (JArr ys)
    have ok: "\<And>x. x \<in> set xs \<Longrightarrow> json_ok x" "\<And>y. y \<in> set ys \<Longrightarrow> json_ok y"
      using JArr.prems JArr by (auto simp: list_all_iff)
    have "map canonicalInput xs = map canonicalInput ys \<and> r = s"
    proof (rule join_prefix_free)
      show "prefix_free x y" if "x \<in> set (map canonicalInput xs)" "y \<in> set (map canonicalInput ys)" for x y
        using that JArr.IH ok unfolding prefix_free_def by (auto; blast)
      show "opens_value x" if "x \<in> set (map canonicalInput xs) \<union> set (map canonicalInput ys)" for x
        using that ok opens_value_canonical by auto
      show "join_comma (map canonicalInput xs) @ CHR '']'' # r = join_comma (map canonicalInput ys) @ CHR '']'' # s"
        using JArr.prems JArr by simp
    qed simp
    moreover have "xs = ys" if "map canonicalInput xs = map canonicalInput ys"
      using that by (rule list.inj_map_strong [rotated]) (use JArr.IH [of _ _ "[]" "[]"] ok in auto)
    ultimately show ?thesis using JArr by simp
  qed (use JArr.prems number_not_other(5) [of b, symmetric] in \<open>auto simp: string_text_def object_text_def split: if_splits\<close>)
next
  case (JObj m)
  show ?case
  proof (cases b)
    case (JObj m')
    have ok: "\<And>v. v \<in> fmran' m \<Longrightarrow> json_ok v" "\<And>v. v \<in> fmran' m' \<Longrightarrow> json_ok v"
      using JObj.prems(1,2) JObj json_ok_member by blast+
    let ?texts = "\<lambda>m. map (\<lambda>k. string_text k @ CHR '':'' # canonicalInput (the (fmlookup m k)))
      (sorted_list_of_fset (fmdom m))"
    have obj: "object_text (fmmap canonicalInput n) @ t = CHR ''{'' # join_comma (?texts n) @ CHR ''}'' # t" for n t
      by (auto simp: object_text_def fmlookup_dom_iff intro!: arg_cong [where f = join_comma])
    have member: "the (fmlookup n k) \<in> fmran' n" if "k \<in> set (sorted_list_of_fset (fmdom n))" for n :: "(string, json) fmap" and k
      using that by (auto simp: fmlookup_dom_iff intro: fmran'I)
    have entry: "k = k' \<and> the (fmlookup m k) = the (fmlookup m' k') \<and> p = q"
      if "k \<in> set (sorted_list_of_fset (fmdom m))" "k' \<in> set (sorted_list_of_fset (fmdom m'))"
        "delimited p" "delimited q"
        "(string_text k @ CHR '':'' # canonicalInput (the (fmlookup m k))) @ p =
         (string_text k' @ CHR '':'' # canonicalInput (the (fmlookup m' k'))) @ q" for k k' p q
    proof -
      from that(5) have k: "k = k'" and v: "canonicalInput (the (fmlookup m k)) @ p = canonicalInput (the (fmlookup m' k')) @ q"
        using string_text_prefix [of k "CHR '':'' # canonicalInput (the (fmlookup m k)) @ p" k'
            "CHR '':'' # canonicalInput (the (fmlookup m' k')) @ q"] by simp_all
      from JObj.IH [OF member [OF that(1)] ok(1) [OF member [OF that(1)]] ok(2) [OF member [OF that(2)]] that(3,4) v] k
      show ?thesis by blast
    qed
    have "?texts m = ?texts m' \<and> r = s"
    proof (rule join_prefix_free)
      show "prefix_free x y" if "x \<in> set (?texts m)" "y \<in> set (?texts m')" for x y
        using that entry unfolding prefix_free_def by (auto; blast)
      show "opens_value x" if "x \<in> set (?texts m) \<union> set (?texts m')" for x
        using that opens_value_string by auto
      show "join_comma (?texts m) @ CHR ''}'' # r = join_comma (?texts m') @ CHR ''}'' # s"
        using JObj.prems JObj obj [of m r] obj [of m' s] by simp
    qed simp
    moreover have "m = m'" if eq: "?texts m = ?texts m'"
    proof -
      from eq have len: "length (sorted_list_of_fset (fmdom m)) = length (sorted_list_of_fset (fmdom m'))"
        by (rule map_eq_imp_length_eq)
      have at: "sorted_list_of_fset (fmdom m) ! i = sorted_list_of_fset (fmdom m') ! i \<and>
          the (fmlookup m (sorted_list_of_fset (fmdom m) ! i)) = the (fmlookup m' (sorted_list_of_fset (fmdom m') ! i))"
        if "i < length (sorted_list_of_fset (fmdom m))" for i
      proof -
        from that len have "sorted_list_of_fset (fmdom m) ! i \<in> set (sorted_list_of_fset (fmdom m))"
          "sorted_list_of_fset (fmdom m') ! i \<in> set (sorted_list_of_fset (fmdom m'))"
          by (metis nth_mem)+
        moreover have "(string_text (sorted_list_of_fset (fmdom m) ! i) @ CHR '':'' #
              canonicalInput (the (fmlookup m (sorted_list_of_fset (fmdom m) ! i)))) @ [] =
            (string_text (sorted_list_of_fset (fmdom m') ! i) @ CHR '':'' #
              canonicalInput (the (fmlookup m' (sorted_list_of_fset (fmdom m') ! i)))) @ []"
          using that len arg_cong [OF eq, of "\<lambda>l. l ! i"] by simp
        ultimately show ?thesis using entry [OF _ _ delimited_Nil delimited_Nil] by blast
      qed
      with len have keys: "sorted_list_of_fset (fmdom m) = sorted_list_of_fset (fmdom m')"
        by (simp add: list_eq_iff_nth_eq)
      then have dom: "fmdom m = fmdom m'" by (metis sorted_list_of_fset_simps(2))
      have "fmlookup m k = fmlookup m' k" for k
      proof (cases "k |\<in>| fmdom m")
        case True
        then have "k \<in> set (sorted_list_of_fset (fmdom m))" by simp
        then obtain i where "i < length (sorted_list_of_fset (fmdom m))" "sorted_list_of_fset (fmdom m) ! i = k"
          by (metis in_set_conv_nth)
        with at [of i] keys have "the (fmlookup m k) = the (fmlookup m' k)" by simp
        moreover from True dom obtain u v where "fmlookup m k = Some u" "fmlookup m' k = Some v"
          by (metis fmlookup_dom_iff)
        ultimately show ?thesis by simp
      next
        case False
        with dom show ?thesis by (metis fmdom_notD)
      qed
      then show ?thesis by (rule fmap_ext)
    qed
    ultimately show ?thesis using JObj by simp
  qed (use JObj.prems number_not_other(6) [of b, symmetric] in \<open>auto simp: string_text_def object_text_def split: if_splits\<close>)
qed

lemma canonical_inject: "json_ok a \<Longrightarrow> json_ok b \<Longrightarrow> canonicalInput a = canonicalInput b \<longleftrightarrow> a = b"
  using canonical_prefix [of a b "[]" "[]"] by auto

end
