(* ===== verification/Effects.thy ===== *)
theory Effects
  imports Json
begin

text \<open>
  Effect references, handles and results (\<open>packages/core/src/runtime/effects.ts\<close>) and the errors
  the runtime throws. A Schema whose values cross a JSON boundary is a decoder from \<open>json\<close>; a Schema
  of typed data is a predicate \<open>..._ok\<close> on the record that models it.
\<close>

section \<open>References\<close>

record effect_ref =
  ref_seq :: nat
  ref_atom :: string
  ref_act :: string

definition ref_ok :: "effect_ref \<Rightarrow> bool" where
  "ref_ok r \<longleftrightarrow> safe_integer (int (ref_seq r)) \<and> ref_atom r \<noteq> [] \<and> ref_act r \<noteq> []"

definition effectKey :: "effect_ref \<Rightarrow> string" where
  "effectKey r = canonicalInput (JArr [JInt (int (ref_seq r)), JStr (ref_atom r), JStr (ref_act r)])"

lemma effectKey_eq_iff [simp]: "effectKey r = effectKey r' \<longleftrightarrow> r = r'"
proof
  assume "effectKey r = effectKey r'"
  then have "JArr [JInt (int (ref_seq r)), JStr (ref_atom r), JStr (ref_act r)] =
      JArr [JInt (int (ref_seq r')), JStr (ref_atom r'), JStr (ref_act r')]"
    unfolding effectKey_def by (subst (asm) canonical_inject) simp_all
  then show "r = r'" by (cases r; cases r') simp
qed simp

lemma inj_effectKey: "inj_on effectKey A"
  by (simp add: inj_on_def)

section \<open>Errors\<close>

text \<open>
  What the runtime throws: an \<open>Error\<close> with its message, a Schema that does not decode, an
  \<open>ActorReplayError\<close> with its stage, reason and position, and \<open>PromiseNotReady\<close>.
\<close>

datatype replay_stage =
    CheckpointStage bool
  | EventStage
  | EffectRequestStage bool
  | RetainedInputStage

definition decode_failed :: replay_stage where "decode_failed = EventStage"
definition reconstruction_failed :: replay_stage where "reconstruction_failed = EffectRequestStage False"
definition input_mismatch :: replay_stage where "input_mismatch = EffectRequestStage True"
definition retained_input_unavailable :: replay_stage where "retained_input_unavailable = RetainedInputStage"

datatype runtime_error =
    Error string
  | SchemaError
  | ActorReplayError replay_stage nat
  | PromiseNotReady effect_ref

text \<open>\<open>ActorReplayError.wrap\<close> keeps an error that already names its stage.\<close>

definition replay_error_wrap :: "runtime_error \<Rightarrow> replay_stage \<Rightarrow> nat \<Rightarrow> runtime_error" where
  "replay_error_wrap e st pos = (case e of ActorReplayError _ _ \<Rightarrow> e | _ \<Rightarrow> ActorReplayError st pos)"

section \<open>Handles and results\<close>

definition max_deadline :: nat where
  "max_deadline = 8640000000000000"

definition deadline_ok :: "nat \<Rightarrow> bool" where
  "deadline_ok t \<longleftrightarrow> t \<le> max_deadline"

datatype resolve_mode = Poll | Push

record execution_handle =
  eh_executor :: string
  eh_id :: string
  eh_endpoint :: "string option"
  eh_mode :: "resolve_mode option"
  eh_at :: "nat option"
  eh_value :: "json option"

text \<open>\<open>ExecutionResult\<close>: an immediate value, or a handle with its deadline and the unbounded flag.\<close>

datatype execution_result =
    ValueResult json
  | PromiseResult execution_handle "nat option" bool

fun is_promise_result :: "execution_result \<Rightarrow> bool" where
  "is_promise_result (PromiseResult _ _ _) = True"
| "is_promise_result (ValueResult _) = False"

subsection \<open>Decoders\<close>

text \<open>
  \<open>optional m k dec\<close> is \<open>Schema.optionalKey\<close>: an absent key decodes to \<open>None\<close>, a present one must
  decode. Keys a Struct does not name are ignored, the default of \<open>decodeUnknownSync\<close>.
\<close>

definition required_key :: "(string, json) fmap \<Rightarrow> string \<Rightarrow> (json \<Rightarrow> 'a option) \<Rightarrow> 'a option" where
  "required_key m k dec = (case fmlookup m k of None \<Rightarrow> None | Some v \<Rightarrow> dec v)"

definition optional_key :: "(string, json) fmap \<Rightarrow> string \<Rightarrow> (json \<Rightarrow> 'a option) \<Rightarrow> 'a option option" where
  "optional_key m k dec = (case fmlookup m k of None \<Rightarrow> Some None | Some v \<Rightarrow> map_option Some (dec v))"

fun decode_nonempty :: "json \<Rightarrow> string option" where
  "decode_nonempty (JStr s) = (if s = [] then None else Some s)"
| "decode_nonempty _ = None"

fun decode_deadline :: "json \<Rightarrow> nat option" where
  "decode_deadline (JInt n) = (if 0 \<le> n \<and> deadline_ok (nat n) then Some (nat n) else None)"
| "decode_deadline _ = None"

fun decode_mode :: "json \<Rightarrow> resolve_mode option" where
  "decode_mode (JStr s) = (if s = ''poll'' then Some Poll else if s = ''push'' then Some Push else None)"
| "decode_mode _ = None"

definition handle_ok :: "execution_handle \<Rightarrow> bool" where
  "handle_ok h \<longleftrightarrow> eh_executor h \<noteq> ''clock'' \<or> eh_at h \<noteq> None"

fun decode_handle :: "json \<Rightarrow> execution_handle option" where
  "decode_handle (JObj m) =
     Option.bind (required_key m ''executor'' decode_nonempty) (\<lambda>executor.
     Option.bind (required_key m ''id'' decode_nonempty) (\<lambda>id.
     Option.bind (optional_key m ''endpoint'' decode_nonempty) (\<lambda>endpoint.
     Option.bind (optional_key m ''mode'' decode_mode) (\<lambda>mode.
     Option.bind (optional_key m ''at'' decode_deadline) (\<lambda>at.
     Option.bind (optional_key m ''value'' Some) (\<lambda>val.
       let h = \<lparr>eh_executor = executor, eh_id = id, eh_endpoint = endpoint, eh_mode = mode, eh_at = at, eh_value = val\<rparr>
       in if handle_ok h then Some h else None))))))"
| "decode_handle _ = None"

fun decode_true :: "json \<Rightarrow> unit option" where
  "decode_true (JBool True) = Some ()"
| "decode_true _ = None"

definition promise_result_ok :: "execution_handle \<Rightarrow> nat option \<Rightarrow> bool \<Rightarrow> bool" where
  "promise_result_ok h d unbounded \<longleftrightarrow> \<not> unbounded \<or> eh_executor h = ''local'' \<and> d = None"

fun decode_result :: "json \<Rightarrow> execution_result option" where
  "decode_result (JObj m) =
     (if fmlookup m ''type'' = Some (JStr ''value'') then map_option ValueResult (fmlookup m ''value'')
      else if fmlookup m ''type'' = Some (JStr ''promise'') then
        Option.bind (required_key m ''handle'' decode_handle) (\<lambda>h.
        Option.bind (optional_key m ''deadlineAt'' decode_deadline) (\<lambda>d.
        Option.bind (optional_key m ''unbounded'' decode_true) (\<lambda>u.
          if promise_result_ok h d (u \<noteq> None) then Some (PromiseResult h d (u \<noteq> None)) else None)))
      else None)"
| "decode_result _ = None"

text \<open>\<open>Schema.decodeUnknownSync(ExecutionResult)\<close> throws where nothing decodes.\<close>

definition execution_result_of :: "json \<Rightarrow> runtime_error + execution_result" where
  "execution_result_of v = (case decode_result v of None \<Rightarrow> Inl SchemaError | Some r \<Rightarrow> Inr r)"

fun is_promise_timed_out :: "json \<Rightarrow> bool" where
  "is_promise_timed_out (JObj m) \<longleftrightarrow>
     fmlookup m ''_tag'' = Some (JStr ''PromiseTimedOut'') \<and>
     required_key m ''deadlineAt'' decode_deadline \<noteq> None"
| "is_promise_timed_out _ \<longleftrightarrow> False"

fun is_cancelled :: "json \<Rightarrow> bool" where
  "is_cancelled (JObj m) \<longleftrightarrow>
     fmlookup m ''_tag'' = Some (JStr ''Cancelled'') \<and> fmlookup m ''reason'' \<noteq> None"
| "is_cancelled _ \<longleftrightarrow> False"

definition cancelled_json :: "json \<Rightarrow> json" where
  "cancelled_json reason = JObj (fmap_of_list [(''_tag'', JStr ''Cancelled''), (''reason'', reason)])"

subsection \<open>Encoders\<close>

definition encode_mode :: "resolve_mode \<Rightarrow> json" where
  "encode_mode m = JStr (case m of Poll \<Rightarrow> ''poll'' | Push \<Rightarrow> ''push'')"

definition put_optional :: "string \<Rightarrow> ('a \<Rightarrow> json) \<Rightarrow> 'a option \<Rightarrow> (string, json) fmap \<Rightarrow> (string, json) fmap" where
  "put_optional k enc v m = (case v of None \<Rightarrow> m | Some x \<Rightarrow> fmupd k (enc x) m)"

definition encode_handle :: "execution_handle \<Rightarrow> json" where
  "encode_handle h = JObj
     (put_optional ''value'' (\<lambda>v. v) (eh_value h)
     (put_optional ''at'' (\<lambda>t. JInt (int t)) (eh_at h)
     (put_optional ''mode'' encode_mode (eh_mode h)
     (put_optional ''endpoint'' JStr (eh_endpoint h)
     (fmap_of_list [(''executor'', JStr (eh_executor h)), (''id'', JStr (eh_id h))])))))"

definition encode_result :: "execution_result \<Rightarrow> json" where
  "encode_result r = (case r of
     ValueResult v \<Rightarrow> JObj (fmap_of_list [(''type'', JStr ''value''), (''value'', v)])
   | PromiseResult h d u \<Rightarrow> JObj
       (put_optional ''unbounded'' JBool (if u then Some True else None)
       (put_optional ''deadlineAt'' (\<lambda>t. JInt (int t)) d
       (fmap_of_list [(''type'', JStr ''promise''), (''handle'', encode_handle h)]))))"

definition handle_valid :: "execution_handle \<Rightarrow> bool" where
  "handle_valid h \<longleftrightarrow> eh_executor h \<noteq> [] \<and> eh_id h \<noteq> [] \<and> eh_endpoint h \<noteq> Some [] \<and>
     (\<forall>t \<in> set_option (eh_at h). deadline_ok t) \<and> handle_ok h"

definition result_valid :: "execution_result \<Rightarrow> bool" where
  "result_valid r \<longleftrightarrow> (case r of ValueResult _ \<Rightarrow> True
     | PromiseResult h d u \<Rightarrow> handle_valid h \<and> (\<forall>t \<in> set_option d. deadline_ok t) \<and> promise_result_ok h d u)"

lemma lookup_put_optional [simp]:
  "fmlookup (put_optional k enc v m) k' = (if k' = k then (case v of None \<Rightarrow> fmlookup m k | Some x \<Rightarrow> Some (enc x)) else fmlookup m k')"
  by (auto simp: put_optional_def split: option.split)

lemma decode_encode_mode [simp]: "decode_mode (encode_mode m) = Some m"
  by (cases m) (simp_all add: encode_mode_def)

lemma optional_put:
  "optional_key (put_optional k enc v m) k' dec =
     (if k' = k \<and> v \<noteq> None then map_option Some (dec (enc (the v))) else optional_key m k' dec)"
  by (auto simp: optional_key_def split: option.splits)

lemma required_put:
  "required_key (put_optional k enc v m) k' dec =
     (if k' = k \<and> v \<noteq> None then dec (enc (the v)) else required_key m k' dec)"
  by (auto simp: required_key_def split: option.splits)

lemma decode_encode_handle: "handle_valid h \<Longrightarrow> decode_handle (encode_handle h) = Some h"
  by (cases h; cases "eh_endpoint h"; cases "eh_mode h"; cases "eh_at h"; cases "eh_value h")
     (simp_all add: handle_valid_def encode_handle_def optional_put required_put Let_def,
      simp_all add: required_key_def optional_key_def fmlookup_of_list)

lemma decode_encode_result: "result_valid r \<Longrightarrow> decode_result (encode_result r) = Some r"
proof (cases r)
  case (PromiseResult h d u)
  assume "result_valid r"
  with PromiseResult have "handle_valid h" "\<forall>t \<in> set_option d. deadline_ok t" "promise_result_ok h d u"
    by (simp_all add: result_valid_def)
  with PromiseResult show ?thesis
    by (cases d; cases u)
       (simp_all add: encode_result_def optional_put required_put fmlookup_of_list,
        simp_all add: required_key_def optional_key_def fmlookup_of_list decode_encode_handle)
qed (simp add: encode_result_def fmlookup_of_list)

lemma decode_handle_valid: "decode_handle v = Some h \<Longrightarrow> handle_valid h"
proof (cases v)
  case (JObj m)
  have ne: "decode_nonempty x = Some s \<Longrightarrow> s \<noteq> []" for x s by (cases x) (auto split: if_splits)
  have dl: "decode_deadline x = Some t \<Longrightarrow> deadline_ok t" for x t by (cases x) (auto split: if_splits)
  assume "decode_handle v = Some h"
  with JObj show ?thesis
    by (auto simp: bind_eq_Some_conv required_key_def optional_key_def handle_valid_def Let_def
             dest!: ne dl split: option.splits if_splits)
qed auto

lemma decode_result_valid: "decode_result v = Some r \<Longrightarrow> result_valid r"
proof (cases v)
  case (JObj m)
  have dl: "decode_deadline x = Some t \<Longrightarrow> deadline_ok t" for x t by (cases x) (auto split: if_splits)
  assume "decode_result v = Some r"
  with JObj show ?thesis
    by (auto simp: bind_eq_Some_conv required_key_def optional_key_def result_valid_def
             dest!: decode_handle_valid dl split: option.splits if_splits)
qed auto

section \<open>Outcomes\<close>

datatype outcome = Fulfilled json | Rejected json

datatype cleanup_status = CleanupFulfilled | CleanupRejected string

record effect_died =
  died_ref :: effect_ref
  died_diagnostic :: string

record effect_cancelled =
  cancel_ref :: effect_ref
  cancel_reason :: json

datatype cancellation_outcome =
    CancellationSettled effect_ref cleanup_status
  | CancellationDied effect_ref string

fun cancellation_ref :: "cancellation_outcome \<Rightarrow> effect_ref" where
  "cancellation_ref (CancellationSettled r _) = r"
| "cancellation_ref (CancellationDied r _) = r"

end
