(* ===== verification/Events.thy ===== *)
theory Events
  imports Effects
begin

text \<open>
  The records of a journal: thread and message data (\<open>actor/thread.ts\<close>, \<open>actor/message.ts\<close>), stored
  effect requests (\<open>runtime/effect-request.ts\<close>), the core events (\<open>runtime/events.ts\<close>,
  \<open>initialise.ts\<close>), record metadata (\<open>services/journal.ts\<close>) and the two selectors of
  \<open>runtime/record.ts\<close>. A domain event is the JSON object the actor's schema validates.
\<close>

section \<open>Threads and messages\<close>

record thread_coordinate =
  tc_actor :: string
  tc_instance :: string
  tc_thread :: string

definition coordinate_ok :: "thread_coordinate \<Rightarrow> bool" where
  "coordinate_ok c \<longleftrightarrow> tc_actor c \<noteq> [] \<and> tc_instance c \<noteq> [] \<and> tc_thread c \<noteq> []"

datatype child_placement = Colocated | Independent

record thread_created =
  created_address :: thread_coordinate
  created_parent :: "thread_coordinate option"
  created_depth :: nat
  created_placement :: child_placement
  created_version :: "string option"

definition thread_created_ok :: "thread_created \<Rightarrow> bool" where
  "thread_created_ok c \<longleftrightarrow> coordinate_ok (created_address c) \<and> safe_integer (int (created_depth c)) \<and>
     created_version c \<noteq> Some [] \<and>
     (case created_parent c of
        None \<Rightarrow> created_depth c = 0
      | Some p \<Rightarrow> coordinate_ok p \<and> created_depth c > 0 \<and>
          (tc_actor (created_address c) \<noteq> tc_actor p \<or> tc_instance (created_address c) \<noteq> tc_instance p \<or>
           tc_thread (created_address c) \<noteq> tc_thread p))"

datatype message_address =
    ThreadAddress thread_coordinate
  | TransportAddress string json

datatype message_sender =
    SenderAddress message_address
  | ExternalSender string

record method_invocation =
  mi_method :: string
  mi_input :: json

record message_metadata =
  mm_id :: string
  mm_from :: message_sender
  mm_invocation :: "method_invocation option"
  mm_inReplyTo :: "string option"

fun address_ok :: "message_address \<Rightarrow> bool" where
  "address_ok (ThreadAddress c) = coordinate_ok c"
| "address_ok (TransportAddress t _) = (t \<noteq> [])"

fun sender_ok :: "message_sender \<Rightarrow> bool" where
  "sender_ok (SenderAddress a) = address_ok a"
| "sender_ok (ExternalSender i) = (i \<noteq> [])"

definition message_metadata_ok :: "message_metadata \<Rightarrow> bool" where
  "message_metadata_ok m \<longleftrightarrow> mm_id m \<noteq> [] \<and> sender_ok (mm_from m) \<and>
     (case mm_invocation m of None \<Rightarrow> True | Some i \<Rightarrow> mi_method i \<noteq> []) \<and> mm_inReplyTo m \<noteq> Some []"

record message_receipt =
  receipt_id :: string
  receipt_position :: "nat option"

definition receipt_ok :: "message_receipt \<Rightarrow> bool" where
  "receipt_ok r \<longleftrightarrow> receipt_id r \<noteq> [] \<and>
     (case receipt_position r of None \<Rightarrow> True | Some p \<Rightarrow> safe_integer (int p))"

record message_delivered =
  md_id :: string
  md_ref :: effect_ref
  md_receipt :: message_receipt

section \<open>Requests\<close>

record effect_request =
  er_act :: string
  er_input :: json

record input_digest =
  id_sha256 :: string
  id_bytes :: nat

datatype stored_input = InlineInput json | DigestInput input_digest

record stored_request =
  sr_act :: string
  sr_input :: stored_input

record effect_requested =
  rq_ref :: effect_ref
  rq_origin :: "nat option"
  rq_request :: stored_request

text \<open>\<open>EffectAcceptance\<close> exposes identity and act independently of the input.\<close>

record effect_acceptance =
  ac_ref :: effect_ref
  ac_origin :: "nat option"
  ac_act :: string

definition digest_ok :: "input_digest \<Rightarrow> bool" where
  "digest_ok d \<longleftrightarrow> length (id_sha256 d) = 64 \<and> set (id_sha256 d) \<subseteq> set ''0123456789abcdef''"

fun stored_input_ok :: "stored_input \<Rightarrow> bool" where
  "stored_input_ok (InlineInput _) = True"
| "stored_input_ok (DigestInput d) = digest_ok d"

definition origin_ok :: "nat option \<Rightarrow> bool" where
  "origin_ok origin \<longleftrightarrow> (case origin of None \<Rightarrow> True | Some p \<Rightarrow> safe_integer (int p))"

definition requested_ok :: "effect_requested \<Rightarrow> bool" where
  "requested_ok r \<longleftrightarrow> ref_ok (rq_ref r) \<and> origin_ok (rq_origin r) \<and> sr_act (rq_request r) \<noteq> [] \<and>
     stored_input_ok (sr_input (rq_request r)) \<and> ref_act (rq_ref r) = sr_act (rq_request r)"

definition acceptance_ok :: "effect_acceptance \<Rightarrow> bool" where
  "acceptance_ok a \<longleftrightarrow> ref_ok (ac_ref a) \<and> origin_ok (ac_origin a) \<and> ac_act a \<noteq> [] \<and> ref_act (ac_ref a) = ac_act a"

text \<open>\<open>InvocationIdentity\<close>: the atom, the act and the position of the originating event, if any.\<close>

record invocation_identity =
  ii_atom :: string
  ii_act :: string
  ii_origin :: "nat option"

section \<open>Core events\<close>

record effect_settled =
  es_ref :: effect_ref
  es_outcome :: outcome

record promise_settled =
  ps_ref :: effect_ref
  ps_result :: outcome

datatype retry_phase = ExecutionPhase | CancellationPhase

record retry_scheduled =
  rs_ref :: effect_ref
  rs_phase :: "retry_phase option"
  rs_attempt :: nat
  rs_dueAt :: nat
  rs_reason :: json

record state_initialised =
  si_state :: "(string, json) fmap"
  si_source :: "json option"

datatype core_event =
    EffectRequested effect_requested
  | EffectSettled effect_settled
  | EffectDied effect_died
  | CleanupOutcome cancellation_outcome
  | PromiseSettled promise_settled
  | RetryScheduled retry_scheduled
  | EffectCancelled effect_cancelled
  | ThreadCreated thread_created
  | ThreadUpdated string
  | MessageDelivered message_delivered
  | StateInitialised state_initialised

definition retry_ok :: "retry_scheduled \<Rightarrow> bool" where
  "retry_ok r \<longleftrightarrow> ref_ok (rs_ref r) \<and> rs_attempt r > 0 \<and> safe_integer (int (rs_attempt r)) \<and> safe_integer (int (rs_dueAt r))"

text \<open>JavaScript's \<open>trim\<close> removes these code units (those below 256).\<close>

definition js_space :: "char \<Rightarrow> bool" where
  "js_space c \<longleftrightarrow> c \<in> {CHR 0x09, CHR 0x0A, CHR 0x0B, CHR 0x0C, CHR 0x0D, CHR '' '', CHR 0xA0}"

definition initial_state_ok :: "(string, json) fmap \<Rightarrow> bool" where
  "initial_state_ok m \<longleftrightarrow> fBall (fmdom m) (\<lambda>name. \<not> list_all js_space name)"

text \<open>Whether an event satisfies the \<open>CoreEvent\<close> schema.\<close>

fun core_event_ok :: "core_event \<Rightarrow> bool" where
  "core_event_ok (EffectRequested e) = requested_ok e"
| "core_event_ok (EffectSettled e) = ref_ok (es_ref e)"
| "core_event_ok (EffectDied e) = ref_ok (died_ref e)"
| "core_event_ok (CleanupOutcome e) = ref_ok (cancellation_ref e)"
| "core_event_ok (PromiseSettled e) = ref_ok (ps_ref e)"
| "core_event_ok (RetryScheduled e) = retry_ok e"
| "core_event_ok (EffectCancelled e) = ref_ok (cancel_ref e)"
| "core_event_ok (ThreadCreated e) = thread_created_ok e"
| "core_event_ok (ThreadUpdated v) = (v \<noteq> [])"
| "core_event_ok (MessageDelivered e) = (md_id e \<noteq> [] \<and> ref_ok (md_ref e) \<and> receipt_ok (md_receipt e))"
| "core_event_ok (StateInitialised e) = initial_state_ok (si_state e)"

text \<open>\<open>event.ref\<close>, where the event has one.\<close>

fun event_ref :: "core_event \<Rightarrow> effect_ref option" where
  "event_ref (EffectRequested e) = Some (rq_ref e)"
| "event_ref (EffectSettled e) = Some (es_ref e)"
| "event_ref (EffectDied e) = Some (died_ref e)"
| "event_ref (CleanupOutcome e) = Some (cancellation_ref e)"
| "event_ref (PromiseSettled e) = Some (ps_ref e)"
| "event_ref (RetryScheduled e) = Some (rs_ref e)"
| "event_ref (EffectCancelled e) = Some (cancel_ref e)"
| "event_ref (MessageDelivered e) = Some (md_ref e)"
| "event_ref (ThreadCreated _) = None"
| "event_ref (ThreadUpdated _) = None"
| "event_ref (StateInitialised _) = None"

section \<open>Journal records\<close>

text \<open>A journal event is a core event, an inbox message with its body, or a domain event.\<close>

datatype journal_event = Core core_event | MessageReceived json | Domain json

record record_metadata =
  rm_message :: "message_metadata option"
  rm_recordedAt :: "nat option"

record recorded = record_metadata +
  rec_event :: journal_event

definition record_metadata_ok :: "'a record_metadata_scheme \<Rightarrow> bool" where
  "record_metadata_ok r \<longleftrightarrow>
     (case rm_message r of None \<Rightarrow> True | Some m \<Rightarrow> message_metadata_ok m) \<and>
     (case rm_recordedAt r of None \<Rightarrow> True | Some t \<Rightarrow> safe_integer (int t))"

definition recorded_of :: "record_metadata \<Rightarrow> journal_event \<Rightarrow> recorded" where
  "recorded_of m e = \<lparr>rm_message = rm_message m, rm_recordedAt = rm_recordedAt m, rec_event = e\<rparr>"

definition no_metadata :: record_metadata where
  "no_metadata = \<lparr>rm_message = None, rm_recordedAt = None\<rparr>"

fun isMessageReceived :: "journal_event \<Rightarrow> bool" where
  "isMessageReceived (MessageReceived _) = True"
| "isMessageReceived (Core _) = False"
| "isMessageReceived (Domain _) = False"

definition core_event_types :: "string list" where
  "core_event_types =
     [''EffectRequested'', ''EffectSettled'', ''EffectDied'', ''PromiseSettled'', ''RetryScheduled'',
      ''EffectCancelled'', ''CancellationSettled'', ''CancellationDied'', ''ThreadCreated'',
      ''ThreadUpdated'', ''MessageDelivered'', ''StateInitialised'']"

text \<open>\<open>hasCoreEventType\<close> of a raw object: the names reserved for framework records.\<close>

fun hasCoreEventType :: "json \<Rightarrow> bool" where
  "hasCoreEventType (JObj m) =
     (case fmlookup m ''type'' of
        Some (JStr t) \<Rightarrow> t \<in> set core_event_types \<or> t = ''MessageReceived'' \<and> fmlookup m ''body'' \<noteq> None
      | _ \<Rightarrow> False)"
| "hasCoreEventType _ = False"

text \<open>\<open>recordEvent\<close> unwraps inbound messages but keeps reply envelopes; an empty \<open>inReplyTo\<close> is falsy.\<close>

definition is_reply :: "'a record_metadata_scheme \<Rightarrow> bool" where
  "is_reply r = (case rm_message r of None \<Rightarrow> False | Some m \<Rightarrow> mm_inReplyTo m \<noteq> None \<and> mm_inReplyTo m \<noteq> Some [])"

definition recordEvent :: "recorded \<Rightarrow> journal_event" where
  "recordEvent r = (case rec_event r of
     MessageReceived body \<Rightarrow> if is_reply r then MessageReceived body else Domain body
   | e \<Rightarrow> e)"

definition recordMetadata :: "'a record_metadata_scheme option \<Rightarrow> record_metadata" where
  "recordMetadata r = (case r of None \<Rightarrow> no_metadata
     | Some r \<Rightarrow> \<lparr>rm_message = rm_message r, rm_recordedAt = rm_recordedAt r\<rparr>)"

lemma recordMetadata_recorded [simp]: "recordMetadata (Some (recorded_of m e)) = m"
  by (simp add: recordMetadata_def recorded_of_def)

lemma rec_event_recorded_of [simp]: "rec_event (recorded_of m e) = e"
  by (simp add: recorded_of_def)

end
