(* ===== verification/Operation.thy ===== *)
theory Operation
  imports Events
begin

text \<open>
  Operations reconstructed from a journal (\<open>packages/core/src/runtime/operation.ts\<close>): execution and
  cleanup grouped under the accepted request. The \<open>Stored\<close>/\<open>Accepted\<close> types of the source differ
  only in the request they hold, so the record is polymorphic in it. A predicate that decodes an
  \<open>ExecutionResult\<close> throws on a value that does not decode, so it returns a sum.
\<close>

section \<open>Operations\<close>

datatype execution_outcome =
    SettledOutcome effect_settled
  | DiedOutcome effect_died

record execution_facts =
  ex_outcome :: "execution_outcome option"
  ex_deferred :: "effect_settled option"
  ex_promise :: "promise_settled option"
  ex_retry :: "retry_scheduled option"

record cleanup_facts =
  cl_request :: effect_cancelled
  cl_outcome :: "cancellation_outcome option"
  cl_retry :: "retry_scheduled option"

record 'r operation =
  op_ref :: effect_ref
  op_request :: 'r
  op_recordedAt :: "nat option"
  op_execution :: execution_facts
  op_cleanup :: "cleanup_facts option"

type_synonym stored_operation = "effect_requested operation"

definition no_execution :: execution_facts where
  "no_execution = \<lparr>ex_outcome = None, ex_deferred = None, ex_promise = None, ex_retry = None\<rparr>"

definition cleanup_of :: "effect_cancelled \<Rightarrow> cleanup_facts" where
  "cleanup_of c = \<lparr>cl_request = c, cl_outcome = None, cl_retry = None\<rparr>"

definition operationSettlement :: "'r operation option \<Rightarrow> effect_settled option" where
  "operationSettlement op = (case op of None \<Rightarrow> None
     | Some o' \<Rightarrow> (case ex_outcome (op_execution o') of
         Some (SettledOutcome s) \<Rightarrow> Some s
       | _ \<Rightarrow> ex_deferred (op_execution o')))"

definition cleanupSucceeded :: "cancellation_outcome option \<Rightarrow> bool" where
  "cleanupSucceeded outcome = (case outcome of
     Some (CancellationSettled _ CleanupFulfilled) \<Rightarrow> True | _ \<Rightarrow> False)"

definition settlementCompletesExecution :: "effect_settled option \<Rightarrow> runtime_error + bool" where
  "settlementCompletesExecution settlement = (case settlement of
     None \<Rightarrow> Inr False
   | Some s \<Rightarrow> (case es_outcome s of
       Rejected _ \<Rightarrow> Inr True
     | Fulfilled v \<Rightarrow> try_bind (execution_result_of v) (\<lambda>r. Inr (\<not> is_promise_result r))))"

definition cleanupOwed :: "'r operation option \<Rightarrow> bool" where
  "cleanupOwed op = (case Option.bind op op_cleanup of
     None \<Rightarrow> False | Some c \<Rightarrow> \<not> cleanupSucceeded (cl_outcome c))"

definition cleanupRunnable :: "'r operation option \<Rightarrow> bool" where
  "cleanupRunnable op = (case Option.bind op op_cleanup of
     None \<Rightarrow> False | Some c \<Rightarrow> cl_outcome c = None)"

definition cleanupSubmission :: "'r operation option \<Rightarrow> effect_settled \<Rightarrow> runtime_error + bool" where
  "cleanupSubmission op event =
     (if cleanupOwed op
      then (case es_outcome event of
          Rejected _ \<Rightarrow> Inr False
        | Fulfilled v \<Rightarrow> try_bind (execution_result_of v) (\<lambda>r. Inr (is_promise_result r)))
      else Inr False)"

definition operationComplete :: "'r operation \<Rightarrow> runtime_error + bool" where
  "operationComplete op = (case op_cleanup op of
     Some c \<Rightarrow> Inr (cleanupSucceeded (cl_outcome c))
   | None \<Rightarrow>
      (case ex_outcome (op_execution op) of
         Some (DiedOutcome _) \<Rightarrow> Inr True
       | _ \<Rightarrow> if ex_promise (op_execution op) \<noteq> None then Inr True
              else settlementCompletesExecution (operationSettlement (Some op))))"

section \<open>Reconstruction\<close>

definition update_execution :: "(execution_facts \<Rightarrow> execution_facts) \<Rightarrow> 'r operation \<Rightarrow> 'r operation" where
  "update_execution f op = op\<lparr>op_execution := f (op_execution op)\<rparr>"

definition update_cleanup :: "(cleanup_facts \<Rightarrow> cleanup_facts) \<Rightarrow> 'r operation \<Rightarrow> 'r operation" where
  "update_cleanup f op = op\<lparr>op_cleanup := map_option f (op_cleanup op)\<rparr>"

text \<open>One turn of the loop, for an event of the reference and an operation already requested.\<close>

fun operation_event :: "core_event \<Rightarrow> stored_operation \<Rightarrow> stored_operation" where
  "operation_event (EffectSettled e) op = update_execution (\<lambda>x. x\<lparr>ex_outcome := Some (SettledOutcome e)\<rparr>) op"
| "operation_event (EffectDied e) op =
     (let settlement = operationSettlement (Some op) in
      update_execution (\<lambda>x. x\<lparr>ex_outcome := Some (DiedOutcome e),
        ex_deferred := (case settlement of None \<Rightarrow> ex_deferred x | Some s \<Rightarrow> Some s)\<rparr>) op)"
| "operation_event (PromiseSettled e) op = update_execution (\<lambda>x. x\<lparr>ex_promise := Some e\<rparr>) op"
| "operation_event (EffectCancelled e) op = op\<lparr>op_cleanup := Some (cleanup_of e)\<rparr>"
| "operation_event (CleanupOutcome e) op = update_cleanup (\<lambda>c. c\<lparr>cl_outcome := Some e\<rparr>) op"
| "operation_event (RetryScheduled e) op =
     (if rs_phase e = Some CancellationPhase
      then update_cleanup (\<lambda>c. c\<lparr>cl_retry := Some e\<rparr>) op
      else update_execution (\<lambda>x. x\<lparr>ex_retry := Some e\<rparr>) op)"
| "operation_event (EffectRequested _) op = op"
| "operation_event (ThreadCreated _) op = op"
| "operation_event (ThreadUpdated _) op = op"
| "operation_event (MessageDelivered _) op = op"
| "operation_event (StateInitialised _) op = op"

text \<open>The events the loop does not skip.\<close>

definition concerns :: "effect_ref \<Rightarrow> recorded \<Rightarrow> bool" where
  "concerns ref r = (case rec_event r of
     Core e \<Rightarrow> core_event_ok e \<and> (case event_ref e of None \<Rightarrow> False | Some r \<Rightarrow> effectKey r = effectKey ref)
   | _ \<Rightarrow> False)"

definition requested_operation :: "effect_requested \<Rightarrow> nat option \<Rightarrow> stored_operation" where
  "requested_operation e recordedAt =
     \<lparr>op_ref = rq_ref e, op_request = e, op_recordedAt = recordedAt, op_execution = no_execution, op_cleanup = None\<rparr>"

definition operation_record :: "effect_ref \<Rightarrow> recorded \<Rightarrow> stored_operation option \<Rightarrow> stored_operation option" where
  "operation_record ref r op =
     (if \<not> concerns ref r then op
      else (case rec_event r of
        Core (EffectRequested e) \<Rightarrow> Some (requested_operation e (rm_recordedAt r))
      | Core e \<Rightarrow> map_option (operation_event e) op
      | _ \<Rightarrow> op))"

fun recordedOperation_from :: "stored_operation option \<Rightarrow> recorded list \<Rightarrow> effect_ref \<Rightarrow> stored_operation option" where
  "recordedOperation_from op [] ref = op"
| "recordedOperation_from op (r # rs) ref = recordedOperation_from (operation_record ref r op) rs ref"

definition recordedOperation :: "recorded list \<Rightarrow> effect_ref \<Rightarrow> stored_operation option" where
  "recordedOperation rs ref = recordedOperation_from None rs ref"

section \<open>Lemmas\<close>

lemma recordedOperation_from_append:
  "recordedOperation_from op (xs @ ys) ref = recordedOperation_from (recordedOperation_from op xs ref) ys ref"
  by (induction op xs ref rule: recordedOperation_from.induct) auto

lemma recordedOperation_append:
  "recordedOperation (xs @ ys) ref = recordedOperation_from (recordedOperation xs ref) ys ref"
  by (simp add: recordedOperation_def recordedOperation_from_append)

lemma recordedOperation_snoc:
  "recordedOperation (xs @ [r]) ref = operation_record ref r (recordedOperation xs ref)"
  by (simp add: recordedOperation_append)

lemma operation_record_other [simp]: "\<not> concerns ref r \<Longrightarrow> operation_record ref r op = op"
  by (simp add: operation_record_def)

lemma recordedOperation_from_filter:
  "recordedOperation_from op (filter (concerns ref) rs) ref = recordedOperation_from op rs ref"
  by (induction op rs ref rule: recordedOperation_from.induct) auto

lemma recordedOperation_filter: "recordedOperation (filter (concerns ref) rs) ref = recordedOperation rs ref"
  by (simp add: recordedOperation_def recordedOperation_from_filter)

lemma concerns_Core:
  "concerns ref r \<longleftrightarrow> (\<exists>e. rec_event r = Core e \<and> core_event_ok e \<and> event_ref e = Some ref)"
  by (auto simp: concerns_def split: journal_event.splits option.splits)

lemma operation_event_identity [simp]:
  "op_ref (operation_event e op) = op_ref op" "op_request (operation_event e op) = op_request op"
  "op_recordedAt (operation_event e op) = op_recordedAt op"
  by (cases e; simp add: update_execution_def update_cleanup_def Let_def)+

fun is_requested :: "core_event \<Rightarrow> bool" where
  "is_requested (EffectRequested _) = True"
| "is_requested _ = False"

lemma operation_record_cases:
  obtains (other) "\<not> concerns ref r" "\<And>op. operation_record ref r op = op"
  | (requested) e where "concerns ref r" "rec_event r = Core (EffectRequested e)" "rq_ref e = ref"
      "\<And>op. operation_record ref r op = Some (requested_operation e (rm_recordedAt r))"
  | (event) e where "concerns ref r" "rec_event r = Core e" "event_ref e = Some ref" "\<not> is_requested e"
      "\<And>op. operation_record ref r op = map_option (operation_event e) op"
proof (cases "concerns ref r")
  case True
  then obtain e where e: "rec_event r = Core e" "event_ref e = Some ref" by (auto simp: concerns_Core)
  show ?thesis
  proof (cases e)
    case (EffectRequested e')
    with True e show ?thesis by (intro requested [of e']) (simp_all add: operation_record_def)
  qed (use True e in \<open>(rule event [of e]; simp add: operation_record_def)\<close>)+
qed (rule other, simp_all)

text \<open>Whatever the records, the operation found is the one of the reference asked for.\<close>

lemma recordedOperation_ref:
  "recordedOperation rs ref = Some op \<Longrightarrow> op_ref op = ref \<and> rq_ref (op_request op) = ref"
proof (induction rs arbitrary: op rule: rev_induct)
  case (snoc r rs)
  then show ?case
    by (cases rule: operation_record_cases [of ref r]) (auto simp: recordedOperation_snoc requested_operation_def)
qed (simp add: recordedOperation_def)

lemma recordedOperation_None:
  "recordedOperation rs ref = None \<longleftrightarrow>
     (\<forall>r \<in> set rs. \<forall>e. rec_event r = Core (EffectRequested e) \<longrightarrow> \<not> concerns ref r)"
proof (induction rs rule: rev_induct)
  case (snoc r rs)
  then show ?case
    by (cases rule: operation_record_cases [of ref r]) (auto simp: recordedOperation_snoc)
qed (simp add: recordedOperation_def)

text \<open>A settlement is never lost: only a new settlement replaces it and only a new request clears it.\<close>

lemma operationSettlement_event:
  "operationSettlement (Some op) = Some s \<Longrightarrow> (\<And>e'. e \<noteq> EffectSettled e') \<Longrightarrow>
     operationSettlement (Some (operation_event e op)) = Some s"
  by (cases e)
     (auto simp: operationSettlement_def update_execution_def update_cleanup_def Let_def
           split: option.splits execution_outcome.splits)

lemma operationSettlement_record:
  assumes "operationSettlement op = Some s"
    and "\<And>e. rec_event r = Core (EffectRequested e) \<Longrightarrow> \<not> concerns ref r"
    and "\<And>e. rec_event r = Core (EffectSettled e) \<Longrightarrow> \<not> concerns ref r"
  shows "operationSettlement (operation_record ref r op) = Some s"
proof -
  from assms(1) obtain o' where op: "op = Some o'" by (cases op) (auto simp: operationSettlement_def)
  from assms op show ?thesis
    by (cases rule: operation_record_cases [of ref r]) (auto intro!: operationSettlement_event)
qed

end
