(* ===== verification/Lifecycle.thy ===== *)
theory Lifecycle
  imports Operation
begin

text \<open>
  The lifecycle of one accepted operation: the guards \<open>createEngine\<close> applies to a lifecycle event and
  the update it makes (\<open>packages/core/src/runtime/replay.ts\<close>, the branches of \<open>append\<close>), as a
  function of the operation alone. \<open>lifecycle_run\<close> chains it; the lemmas show that the guarded update
  is the one \<open>recordedOperation\<close> makes, and what no admitted history can contain.
\<close>

section \<open>Guards and updates\<close>

text \<open>What a step does to the set \<open>retire\<close>.\<close>

datatype retire_change = RetireAdd | RetireDelete | RetireKeep

definition op_settlement :: "stored_operation \<Rightarrow> effect_settled option" where
  "op_settlement op = operationSettlement (Some op)"

definition op_cancelled :: "stored_operation \<Rightarrow> bool" where
  "op_cancelled op \<longleftrightarrow> op_cleanup op \<noteq> None"

definition op_cleanup_outcome :: "stored_operation \<Rightarrow> cancellation_outcome option" where
  "op_cleanup_outcome op = Option.bind (op_cleanup op) cl_outcome"

definition op_promised :: "stored_operation \<Rightarrow> bool" where
  "op_promised op \<longleftrightarrow> ex_promise (op_execution op) \<noteq> None"

definition op_retry :: "stored_operation \<Rightarrow> retry_phase option \<Rightarrow> retry_scheduled option" where
  "op_retry op phase =
     (if phase = Some CancellationPhase then Option.bind (op_cleanup op) cl_retry else ex_retry (op_execution op))"

definition retry_attempts :: "retry_scheduled option \<Rightarrow> nat" where
  "retry_attempts r = (case r of None \<Rightarrow> 0 | Some e \<Rightarrow> rs_attempt e)"

text \<open>\<open>updateCleanup\<close> keeps what an earlier cleanup recorded under the new request.\<close>

definition request_cleanup :: "effect_cancelled \<Rightarrow> stored_operation \<Rightarrow> stored_operation" where
  "request_cleanup e op = op\<lparr>op_cleanup := Some (case op_cleanup op of
     None \<Rightarrow> cleanup_of e | Some c \<Rightarrow> c\<lparr>cl_request := e\<rparr>)\<rparr>"

definition validatePromise :: "stored_operation option \<Rightarrow> promise_settled \<Rightarrow> runtime_error + unit" where
  "validatePromise op e = (case op of
     None \<Rightarrow> Inl (Error ''Promise settlement requires an accepted effect'')
   | Some op \<Rightarrow> (case op_settlement op of
       None \<Rightarrow> Inl (PromiseNotReady (ps_ref e))
     | Some s \<Rightarrow> (case es_outcome s of
         Fulfilled _ \<Rightarrow> Inr ()
       | Rejected _ \<Rightarrow> Inl (Error ''Promise settlement requires successful effect settlement''))))"

definition unfinished :: "stored_operation \<Rightarrow> string \<Rightarrow> runtime_error + unit" where
  "unfinished op message =
     (if op_cancelled op \<or> op_promised op then Inl (Error message)
      else try_bind (settlementCompletesExecution (op_settlement op)) (\<lambda>b. check (\<not> b) (Error message)))"

definition lifecycle_died :: "stored_operation option \<Rightarrow> effect_died \<Rightarrow> runtime_error + stored_operation \<times> retire_change" where
  "lifecycle_died op e = (case op of
     None \<Rightarrow> Inl (Error ''Defect requires an accepted effect'')
   | Some op \<Rightarrow> try_bind (unfinished op ''Defect requires unfinished work'') (\<lambda>_.
       Inr (operation_event (EffectDied e) op, RetireAdd)))"

definition lifecycle_retry :: "stored_operation option \<Rightarrow> retry_scheduled \<Rightarrow> runtime_error + stored_operation \<times> retire_change" where
  "lifecycle_retry op e = (case op of
     None \<Rightarrow> Inl (Error ''Retry requires accepted work'')
   | Some op \<Rightarrow>
       try_bind
         (if rs_phase e = Some CancellationPhase
          then check (op_cancelled op \<and> op_cleanup_outcome op = None) (Error ''Cleanup retry requires unfinished cancellation'')
          else unfinished op ''Retry requires pending accepted work'') (\<lambda>_.
       try_bind (check (rs_attempt e = retry_attempts (op_retry op (rs_phase e)) + 1) (Error ''Retry attempt must advance by one'')) (\<lambda>_.
       Inr (operation_event (RetryScheduled e) op, RetireKeep))))"

definition lifecycle_cancelled :: "stored_operation option \<Rightarrow> effect_cancelled \<Rightarrow> runtime_error + stored_operation \<times> retire_change" where
  "lifecycle_cancelled op e = (case op of
     None \<Rightarrow> Inl (Error ''Cancellation requires an accepted effect'')
   | Some op \<Rightarrow> Inr (request_cleanup e op, RetireDelete))"

definition lifecycle_cleanup :: "stored_operation option \<Rightarrow> cancellation_outcome \<Rightarrow> runtime_error + stored_operation \<times> retire_change" where
  "lifecycle_cleanup op e = (case op of
     None \<Rightarrow> Inl (Error ''Cleanup acknowledgement requires cancellation'')
   | Some op \<Rightarrow>
       if \<not> op_cancelled op then Inl (Error ''Cleanup acknowledgement requires cancellation'')
       else if op_cleanup_outcome op \<noteq> None then Inl (Error ''Duplicate cleanup acknowledgement'')
       else Inr (operation_event (CleanupOutcome e) op, if cleanupSucceeded (Some e) then RetireAdd else RetireKeep))"

definition lifecycle_settled :: "stored_operation option \<Rightarrow> effect_settled \<Rightarrow> runtime_error + stored_operation \<times> retire_change" where
  "lifecycle_settled op e = (case op of
     None \<Rightarrow> Inl (Error ''Effect must be requested before settlement'')
   | Some op \<Rightarrow>
       if cleanupSucceeded (op_cleanup_outcome op) then Inl (Error ''Acknowledged cleanup cannot accept a new submission'')
       else if op_settlement op \<noteq> None then Inl (Error ''Duplicate core effect settlement'')
       else if op_cancelled op then Inr (operation_event (EffectSettled e) op, RetireKeep)
       else try_bind (settlementCompletesExecution (Some e)) (\<lambda>b.
         Inr (operation_event (EffectSettled e) op, if b then RetireAdd else RetireKeep)))"

definition lifecycle_promise :: "stored_operation option \<Rightarrow> promise_settled \<Rightarrow> runtime_error + stored_operation \<times> retire_change" where
  "lifecycle_promise op e =
     try_bind (validatePromise op e) (\<lambda>_. case op of
       None \<Rightarrow> Inl (Error ''Promise settlement requires an accepted effect'')
     | Some op \<Rightarrow>
         if ex_promise (op_execution op) \<noteq> None \<and> ex_promise (op_execution op) \<noteq> Some e
         then Inl (Error ''Conflicting promise settlement'')
         else Inr (operation_event (PromiseSettled e) op, if op_cancelled op then RetireKeep else RetireAdd))"

text \<open>The events with a branch of their own; \<open>EffectRequested\<close> is admitted by the engine itself.\<close>

fun lifecycle_event :: "stored_operation option \<Rightarrow> core_event \<Rightarrow> runtime_error + stored_operation \<times> retire_change" where
  "lifecycle_event op (EffectDied e) = lifecycle_died op e"
| "lifecycle_event op (RetryScheduled e) = lifecycle_retry op e"
| "lifecycle_event op (EffectCancelled e) = lifecycle_cancelled op e"
| "lifecycle_event op (CleanupOutcome e) = lifecycle_cleanup op e"
| "lifecycle_event op (EffectSettled e) = lifecycle_settled op e"
| "lifecycle_event op (PromiseSettled e) = lifecycle_promise op e"
| "lifecycle_event op (EffectRequested _) = Inl (Error ''Effect request'')"
| "lifecycle_event op (ThreadCreated _) = Inl (Error ''Thread event'')"
| "lifecycle_event op (ThreadUpdated _) = Inl (Error ''Thread event'')"
| "lifecycle_event op (MessageDelivered _) = Inl (Error ''Message event'')"
| "lifecycle_event op (StateInitialised _) = Inl (Error ''State event'')"

fun is_lifecycle :: "core_event \<Rightarrow> bool" where
  "is_lifecycle (EffectDied _) = True"
| "is_lifecycle (RetryScheduled _) = True"
| "is_lifecycle (EffectCancelled _) = True"
| "is_lifecycle (CleanupOutcome _) = True"
| "is_lifecycle (EffectSettled _) = True"
| "is_lifecycle (PromiseSettled _) = True"
| "is_lifecycle (EffectRequested _) = False"
| "is_lifecycle (ThreadCreated _) = False"
| "is_lifecycle (ThreadUpdated _) = False"
| "is_lifecycle (MessageDelivered _) = False"
| "is_lifecycle (StateInitialised _) = False"

lemmas lifecycle_defs = lifecycle_died_def lifecycle_retry_def lifecycle_cancelled_def lifecycle_cleanup_def
  lifecycle_settled_def lifecycle_promise_def validatePromise_def

section \<open>Agreement with the reconstruction\<close>

text \<open>
  The guarded update is the one \<open>recordedOperation\<close> makes, except that a second cancellation would
  keep the first one's cleanup; the live append path drops such an event before the engine sees it.
\<close>

lemma lifecycle_event_Some: "lifecycle_event op e = Inr (op', c) \<Longrightarrow> \<exists>o'. op = Some o'"
  by (cases e; cases op) (auto simp: lifecycle_defs)

lemma lifecycle_event_agrees:
  "lifecycle_event (Some op) e = Inr (op', c) \<Longrightarrow> (\<And>e'. e = EffectCancelled e' \<Longrightarrow> \<not> op_cancelled op) \<Longrightarrow>
     op' = operation_event e op"
  by (cases e) (auto simp: lifecycle_defs request_cleanup_def op_cancelled_def split: if_splits option.splits outcome.splits)

lemma lifecycle_event_identity:
  "lifecycle_event (Some op) e = Inr (op', c) \<Longrightarrow> op_ref op' = op_ref op \<and> op_request op' = op_request op"
  by (cases e)
     (auto simp: lifecycle_defs request_cleanup_def update_execution_def update_cleanup_def Let_def
           split: if_splits option.splits outcome.splits)

section \<open>Histories of an operation\<close>

text \<open>
  The event sequences an accepted operation can go through: a complete operation is released, so it
  takes no further event, and the live append path drops a second cancellation.
\<close>

inductive lifecycle :: "effect_requested \<Rightarrow> nat option \<Rightarrow> core_event list \<Rightarrow> stored_operation \<Rightarrow> bool"
  for r :: effect_requested and recordedAt :: "nat option" where
  lifecycle_start: "lifecycle r recordedAt [] (requested_operation r recordedAt)"
| lifecycle_step: "lifecycle r recordedAt es op \<Longrightarrow> operationComplete op \<noteq> Inr True \<Longrightarrow>
    (\<forall>e'. e = EffectCancelled e' \<longrightarrow> \<not> op_cancelled op) \<Longrightarrow>
    lifecycle_event (Some op) e = Inr (op', c) \<Longrightarrow> lifecycle r recordedAt (es @ [e]) op'"

inductive_cases lifecycle_snocE: "lifecycle r recordedAt (es @ [e]) op"

lemma lifecycle_fold:
  "lifecycle r recordedAt es op \<Longrightarrow> op = foldl (\<lambda>op e. operation_event e op) (requested_operation r recordedAt) es"
  by (induction rule: lifecycle.induct) (auto dest: lifecycle_event_agrees)

lemma lifecycle_all: "lifecycle r recordedAt es op \<Longrightarrow> e \<in> set es \<Longrightarrow> is_lifecycle e"
proof (induction rule: lifecycle.induct)
  case (lifecycle_step es op e' op' c)
  then show ?case by (cases e') auto
qed simp

subsection \<open>What an operation's fields record\<close>

fun is_died :: "core_event \<Rightarrow> bool" where
  "is_died (EffectDied _) = True" | "is_died _ = False"

fun is_settled :: "core_event \<Rightarrow> bool" where
  "is_settled (EffectSettled _) = True" | "is_settled _ = False"

fun is_cancellation :: "core_event \<Rightarrow> bool" where
  "is_cancellation (EffectCancelled _) = True" | "is_cancellation _ = False"

fun is_cleanup :: "core_event \<Rightarrow> bool" where
  "is_cleanup (CleanupOutcome _) = True" | "is_cleanup _ = False"

fun is_promise :: "core_event \<Rightarrow> bool" where
  "is_promise (PromiseSettled _) = True" | "is_promise _ = False"

text \<open>The events of a kind that a history records, against the operation's fields.\<close>

lemma lifecycle_cancellations:
  "lifecycle r recordedAt es op \<Longrightarrow>
     filter is_cancellation es = (case op_cleanup op of None \<Rightarrow> [] | Some c \<Rightarrow> [EffectCancelled (cl_request c)])"
proof (induction rule: lifecycle.induct)
  case (lifecycle_step es op e op' c)
  then show ?case
    by (cases e)
       (auto simp: lifecycle_defs op_cancelled_def request_cleanup_def update_execution_def update_cleanup_def cleanup_of_def Let_def
             split: if_splits option.splits outcome.splits)
qed (simp add: requested_operation_def)

lemma lifecycle_cleanups:
  "lifecycle r recordedAt es op \<Longrightarrow>
     filter is_cleanup es = (case op_cleanup_outcome op of None \<Rightarrow> [] | Some c \<Rightarrow> [CleanupOutcome c])"
proof (induction rule: lifecycle.induct)
  case (lifecycle_step es op e op' c)
  then show ?case
    by (cases e)
       (auto simp: lifecycle_defs op_cancelled_def op_cleanup_outcome_def request_cleanup_def update_execution_def update_cleanup_def
               cleanup_of_def Let_def
             split: if_splits option.splits outcome.splits)
qed (simp add: requested_operation_def op_cleanup_outcome_def)

lemma lifecycle_settlements:
  "lifecycle r recordedAt es op \<Longrightarrow>
     filter is_settled es = (case op_settlement op of None \<Rightarrow> [] | Some s \<Rightarrow> [EffectSettled s])"
proof (induction rule: lifecycle.induct)
  case (lifecycle_step es op e op' c)
  then show ?case
    by (cases e)
       (auto simp: lifecycle_defs op_settlement_def operationSettlement_def request_cleanup_def update_execution_def update_cleanup_def
               cleanup_of_def Let_def
             split: if_splits option.splits outcome.splits execution_outcome.splits)
qed (simp add: requested_operation_def op_settlement_def operationSettlement_def no_execution_def)

text \<open>A defect is only admitted on unfinished work, and nothing follows it.\<close>

lemma lifecycle_died_alone:
  "lifecycle r recordedAt es op \<Longrightarrow>
     (case ex_outcome (op_execution op) of
        Some (DiedOutcome d) \<Rightarrow> op_cleanup op = None \<and> (\<exists>es'. es = es' @ [EffectDied d] \<and> (\<forall>e \<in> set es'. \<not> is_died e))
      | _ \<Rightarrow> \<forall>e \<in> set es. \<not> is_died e)"
proof (induction rule: lifecycle.induct)
  case (lifecycle_step es op e op' c)
  show ?case
  proof (cases "ex_outcome (op_execution op)")
    case None
    with lifecycle_step show ?thesis
      by (cases e)
         (auto simp: lifecycle_defs unfinished_def op_cancelled_def request_cleanup_def update_execution_def update_cleanup_def
                 Let_def split: if_splits option.splits outcome.splits)
  next
    case (Some x)
    show ?thesis
    proof (cases x)
      case (SettledOutcome s)
      with Some lifecycle_step show ?thesis
        by (cases e)
           (auto simp: lifecycle_defs unfinished_def op_cancelled_def request_cleanup_def update_execution_def update_cleanup_def
                   Let_def split: if_splits option.splits outcome.splits)
    next
      case (DiedOutcome d)
      with Some lifecycle_step.IH have "operationComplete op = Inr True" by (simp add: operationComplete_def)
      with lifecycle_step.hyps show ?thesis by simp
    qed
  qed
qed (simp add: requested_operation_def no_execution_def)

text \<open>Retries of a phase are numbered from one without gaps.\<close>

fun retry_of :: "bool \<Rightarrow> core_event \<Rightarrow> nat list" where
  "retry_of cleanup (RetryScheduled e) = (if (rs_phase e = Some CancellationPhase) = cleanup then [rs_attempt e] else [])"
| "retry_of cleanup _ = []"

definition attempts :: "bool \<Rightarrow> core_event list \<Rightarrow> nat list" where
  "attempts cleanup es = concat (map (retry_of cleanup) es)"

definition phase_retry :: "bool \<Rightarrow> stored_operation \<Rightarrow> retry_scheduled option" where
  "phase_retry cleanup op = (if cleanup then Option.bind (op_cleanup op) cl_retry else ex_retry (op_execution op))"

lemma lifecycle_attempts:
  "lifecycle r recordedAt es op \<Longrightarrow> attempts cleanup es = [1..<Suc (retry_attempts (phase_retry cleanup op))]"
proof (induction rule: lifecycle.induct)
  case (lifecycle_step es op e op' c)
  then show ?case
    by (cases e)
       (auto simp: lifecycle_defs attempts_def phase_retry_def op_retry_def retry_attempts_def op_cancelled_def request_cleanup_def
               update_execution_def update_cleanup_def cleanup_of_def Let_def
             split: if_splits option.splits outcome.splits)
qed (simp add: attempts_def phase_retry_def requested_operation_def no_execution_def retry_attempts_def)

end
