(* ===== verification/InputDigest.thy ===== *)
theory InputDigest
  imports Events "HOL-Library.Multiset"
begin

text \<open>
  Digests of effect inputs (\<open>packages/core/src/runtime/input-digest.ts\<close>). The digest of a value is
  SHA-256 of its canonical text with the text's UTF-8 length; \<open>digestInput\<close> computes it as a stream,
  with two module-level caches: the texts of frozen plain data, and the hash states after long
  arrays, from which a later array that extends one of them resumes. SHA-256 is a parameter, a
  \<open>hasher\<close>. Inputs are JSON values with the addresses of their objects and arrays, since both
  caches compare objects by identity; \<open>frozen a = Some v\<close> says that the object at \<open>a\<close> is frozen plain
  data with the contents \<open>v\<close>. \<open>digest_run_correct\<close> shows that the caches never change a digest.
\<close>

section \<open>Hashing\<close>

text \<open>A streaming hash: \<open>createHash\<close>, \<open>update\<close> and \<open>digest\<close>. A state is a value, so \<open>copy\<close> is identity.\<close>

record 's hasher =
  h_init :: 's
  h_update :: "'s \<Rightarrow> string \<Rightarrow> 's"
  h_digest :: "'s \<Rightarrow> string"

definition hasher_ok :: "'s hasher \<Rightarrow> bool" where
  "hasher_ok h \<longleftrightarrow> (\<forall>s. h_update h s [] = s) \<and> (\<forall>s x y. h_update h (h_update h s x) y = h_update h s (x @ y))"

text \<open>\<open>Buffer.byteLength\<close> of code units below 256: UTF-8 takes two bytes from 128 on.\<close>

definition char_bytes :: "char \<Rightarrow> nat" where
  "char_bytes c = (if of_char c < (128 :: nat) then 1 else 2)"

definition byteLength :: "string \<Rightarrow> nat" where
  "byteLength s = sum_list (map char_bytes s)"

lemma byteLength_simps [simp]:
  "byteLength [] = 0" "byteLength (x @ y) = byteLength x + byteLength y"
  by (simp_all add: byteLength_def)

definition digest_text :: "'s hasher \<Rightarrow> string \<Rightarrow> input_digest" where
  "digest_text h t = \<lparr>id_sha256 = h_digest h (h_update h (h_init h) t), id_bytes = byteLength t\<rparr>"

definition digest_json :: "'s hasher \<Rightarrow> json \<Rightarrow> input_digest" where
  "digest_json h v = digest_text h (canonicalInput v)"

section \<open>Inputs with object identity\<close>

type_synonym addr = nat

datatype input =
    Leaf json
  | ArrayAt addr "input list"
  | ObjectAt addr "(string \<times> input) list"

primrec value_of :: "input \<Rightarrow> json" where
  "value_of (Leaf v) = v"
| "value_of (ArrayAt _ xs) = JArr (map value_of xs)"
| "value_of (ObjectAt _ kvs) = JObj (fmap_of_list (map (map_prod id value_of) kvs))"

text \<open>\<open>===\<close>: primitives by value, objects by identity.\<close>

fun same_value :: "input \<Rightarrow> input \<Rightarrow> bool" where
  "same_value (Leaf v) (Leaf w) = (v = w)"
| "same_value (ArrayAt a _) (ArrayAt b _) = (a = b)"
| "same_value (ObjectAt a _) (ObjectAt b _) = (a = b)"
| "same_value (ArrayAt a _) (ObjectAt b _) = (a = b)"
| "same_value (ObjectAt a _) (ArrayAt b _) = (a = b)"
| "same_value (Leaf _) _ = False"
| "same_value _ (Leaf _) = False"

fun is_frozen :: "(addr \<Rightarrow> json option) \<Rightarrow> input \<Rightarrow> bool" where
  "is_frozen frozen (Leaf _) = False"
| "is_frozen frozen (ArrayAt a _) = (frozen a \<noteq> None)"
| "is_frozen frozen (ObjectAt a _) = (frozen a \<noteq> None)"

text \<open>
  A well-formed input: leaves are primitives, an object's keys are distinct, and what it says of a
  frozen address is what the address holds.
\<close>

primrec input_ok :: "(addr \<Rightarrow> json option) \<Rightarrow> input \<Rightarrow> bool" where
  "input_ok frozen (Leaf v) = (case v of JArr _ \<Rightarrow> False | JObj _ \<Rightarrow> False | _ \<Rightarrow> True)"
| "input_ok frozen (ArrayAt a xs) =
     (list_all id (map (input_ok frozen) xs) \<and> (frozen a \<noteq> None \<longrightarrow> frozen a = Some (value_of (ArrayAt a xs))))"
| "input_ok frozen (ObjectAt a kvs) =
     (list_all snd (map (map_prod id (input_ok frozen)) kvs) \<and> distinct (map fst kvs) \<and>
      (frozen a \<noteq> None \<longrightarrow> frozen a = Some (value_of (ObjectAt a kvs))))"

lemma same_frozen_value:
  "same_value x y \<Longrightarrow> is_frozen frozen x \<Longrightarrow> input_ok frozen x \<Longrightarrow> input_ok frozen y \<Longrightarrow> value_of x = value_of y"
  by (cases x; cases y) auto

section \<open>Canonical text with the cache of forms\<close>

type_synonym forms = "addr \<Rightarrow> string option"

definition remember_form :: "(addr \<Rightarrow> json option) \<Rightarrow> addr \<Rightarrow> string \<Rightarrow> forms \<Rightarrow> forms" where
  "remember_form frozen a t f = (if frozen a \<noteq> None then f(a \<mapsto> t) else f)"

lemma size_sort_entries: "size_list g (sort_key fst kvs) = size_list g kvs" for kvs :: "(string \<times> 'b) list"
proof -
  have "size_list g xs = sum_mset (image_mset g (mset xs)) + length xs" for xs
    by (induction xs) auto
  then show ?thesis by simp
qed

function (sequential)
  canonical_form :: "(addr \<Rightarrow> json option) \<Rightarrow> forms \<Rightarrow> input \<Rightarrow> string \<times> forms" and
  canonical_items :: "(addr \<Rightarrow> json option) \<Rightarrow> forms \<Rightarrow> input list \<Rightarrow> string list \<times> forms" and
  canonical_members :: "(addr \<Rightarrow> json option) \<Rightarrow> forms \<Rightarrow> (string \<times> input) list \<Rightarrow> string list \<times> forms"
where
  "canonical_form frozen f (Leaf v) = (canonicalInput v, f)"
| "canonical_form frozen f (ArrayAt a xs) =
     (case f a of Some t \<Rightarrow> (t, f)
      | None \<Rightarrow> (let (ts, f') = canonical_items frozen f xs;
                     t = CHR ''['' # join_comma ts @ [CHR '']'']
                 in (t, remember_form frozen a t f')))"
| "canonical_form frozen f (ObjectAt a kvs) =
     (case f a of Some t \<Rightarrow> (t, f)
      | None \<Rightarrow> (let (ts, f') = canonical_members frozen f (sort_key fst kvs);
                     t = CHR ''{'' # join_comma ts @ [CHR ''}'']
                 in (t, remember_form frozen a t f')))"
| "canonical_items frozen f [] = ([], f)"
| "canonical_items frozen f (x # xs) =
     (let (t, f') = canonical_form frozen f x; (ts, f'') = canonical_items frozen f' xs in (t # ts, f''))"
| "canonical_members frozen f [] = ([], f)"
| "canonical_members frozen f ((k, x) # kvs) =
     (let (t, f') = canonical_form frozen f x; (ts, f'') = canonical_members frozen f' kvs
      in ((string_text k @ CHR '':'' # t) # ts, f''))"
  by pat_completeness auto
termination
  by (relation "measure (\<lambda>a. case a of Inl (_, _, x) \<Rightarrow> size x
        | Inr (Inl (_, _, xs)) \<Rightarrow> size_list size xs
        | Inr (Inr (_, _, kvs)) \<Rightarrow> size_list (\<lambda>kv. size_prod (\<lambda>_. 0) size kv) kvs)")
     (auto simp: size_sort_entries)

definition forms_ok :: "(addr \<Rightarrow> json option) \<Rightarrow> forms \<Rightarrow> bool" where
  "forms_ok frozen f \<longleftrightarrow> (\<forall>a t. f a = Some t \<longrightarrow> (\<exists>v. frozen a = Some v \<and> t = canonicalInput v))"

lemma forms_ok_empty [simp]: "forms_ok frozen (\<lambda>_. None)"
  by (simp add: forms_ok_def)

lemma forms_okD: "forms_ok frozen f \<Longrightarrow> f a = Some t \<Longrightarrow> frozen a = Some v \<Longrightarrow> t = canonicalInput v"
  unfolding forms_ok_def by fastforce

lemma forms_ok_remember:
  "forms_ok frozen f \<Longrightarrow> (frozen a \<noteq> None \<Longrightarrow> frozen a = Some v) \<Longrightarrow> t = canonicalInput v \<Longrightarrow>
     forms_ok frozen (remember_form frozen a t f)"
  by (auto simp: forms_ok_def remember_form_def)

lemma canonical_object:
  assumes "distinct (map fst kvs)"
  shows "canonicalInput (value_of (ObjectAt a kvs)) =
    CHR ''{'' # join_comma (map (\<lambda>(k, x). string_text k @ CHR '':'' # canonicalInput (value_of x)) (sort_key fst kvs)) @ [CHR ''}'']"
proof -
  let ?m = "fmap_of_list (map (map_prod id value_of) kvs)"
  have dom: "fmdom ?m = fset_of_list (map fst kvs)" by (simp add: comp_def)
  have "sorted_list_of_fset (fmdom ?m) = map fst (sort_key fst kvs)"
    unfolding dom by (rule sorted_distinct_set_unique) (use assms in \<open>auto simp: distinct_map fset_of_list.rep_eq sorted_list_of_fset.rep_eq\<close>)
  moreover have "fmlookup ?m k = Some (value_of x)" if "(k, x) \<in> set (sort_key fst kvs)" for k x
  proof -
    have "map_of (map (map_prod id value_of) kvs) k = map_option value_of (map_of kvs k)"
      by (induction kvs) auto
    moreover have "map_of kvs k = Some x" using that assms by simp
    ultimately show ?thesis by (simp add: fmlookup_of_list)
  qed
  ultimately show ?thesis
    by (auto simp: object_text_def intro!: arg_cong [where f = join_comma])
qed

lemma canonical_form_correct:
  "input_ok frozen x \<Longrightarrow> forms_ok frozen f \<Longrightarrow>
     fst (canonical_form frozen f x) = canonicalInput (value_of x) \<and> forms_ok frozen (snd (canonical_form frozen f x))"
  "\<forall>x \<in> set xs. input_ok frozen x \<Longrightarrow> forms_ok frozen f \<Longrightarrow>
     fst (canonical_items frozen f xs) = map (\<lambda>x. canonicalInput (value_of x)) xs \<and> forms_ok frozen (snd (canonical_items frozen f xs))"
  "\<forall>kv \<in> set kvs. input_ok frozen (snd kv) \<Longrightarrow> forms_ok frozen f \<Longrightarrow>
     fst (canonical_members frozen f kvs) = map (\<lambda>(k, x). string_text k @ CHR '':'' # canonicalInput (value_of x)) kvs \<and>
     forms_ok frozen (snd (canonical_members frozen f kvs))"
proof (induction frozen f x and frozen f xs and frozen f kvs rule: canonical_form_canonical_items_canonical_members.induct)
  case (2 frozen f a xs)
  show ?case
  proof (cases "f a")
    case None
    with "2" show ?thesis
      by (auto simp: list_all_iff comp_def Let_def split: prod.splits
          intro!: forms_ok_remember [where v = "value_of (ArrayAt a xs)"])
  next
    case (Some t)
    with "2.prems" have "frozen a = Some (value_of (ArrayAt a xs))"
      by (auto simp: forms_ok_def)
    with Some "2.prems" show ?thesis by (auto dest: forms_okD)
  qed
next
  case (3 frozen f a kvs)
  then have dist: "distinct (map fst kvs)" by simp
  show ?case
  proof (cases "f a")
    case None
    from "3.prems" have "\<forall>kv \<in> set (sort_key fst kvs). input_ok frozen (snd kv)" by (auto simp: list_all_iff)
    with "3.IH" [OF None _ "3.prems"(2)] None "3.prems" show ?thesis
      by (auto simp: Let_def canonical_object [OF dist, of a] simp del: canonicalInput.simps value_of.simps split: prod.splits
          intro!: forms_ok_remember [where v = "value_of (ObjectAt a kvs)"])
  next
    case (Some t)
    with "3.prems" have "frozen a = Some (value_of (ObjectAt a kvs))"
      by (auto simp: forms_ok_def)
    with Some "3.prems" show ?thesis by (auto dest: forms_okD)
  qed
qed (auto split: prod.splits)

section \<open>The streaming digest\<close>

definition ARRAY_PREFIX_SLOTS :: nat where "ARRAY_PREFIX_SLOTS = 8"
definition RESUMABLE_LEAD_CHARS :: nat where "RESUMABLE_LEAD_CHARS = 256"
definition RESUMABLE_ARRAY_ITEMS :: nat where "RESUMABLE_ARRAY_ITEMS = 16"
definition FLUSH_CHARS :: nat where "FLUSH_CHARS = 65536"

record 's array_prefix =
  ap_lead :: string
  ap_items :: "input list"
  ap_state :: 's
  ap_bytes :: nat

text \<open>The locals of \<open>digestInput\<close> (\<open>state\<close>, \<open>bytes\<close>, \<open>pending\<close>, \<open>lead\<close>) and the two module caches.\<close>

record 's digest_run =
  dr_state :: 's
  dr_bytes :: nat
  dr_pending :: string
  dr_lead :: "string option"
  dr_forms :: forms
  dr_prefixes :: "'s array_prefix list"

definition dr_flush :: "'s hasher \<Rightarrow> 's digest_run \<Rightarrow> 's digest_run" where
  "dr_flush h r =
     (if dr_pending r \<noteq> []
      then r\<lparr>dr_state := h_update h (dr_state r) (dr_pending r), dr_bytes := dr_bytes r + byteLength (dr_pending r),
             dr_pending := []\<rparr>
      else r)"

definition extend_lead :: "string option \<Rightarrow> string \<Rightarrow> string option" where
  "extend_lead lead t = (case lead of None \<Rightarrow> None
     | Some l \<Rightarrow> if length l + length t \<le> RESUMABLE_LEAD_CHARS then Some (l @ t) else None)"

definition dr_write :: "'s hasher \<Rightarrow> string \<Rightarrow> 's digest_run \<Rightarrow> 's digest_run" where
  "dr_write h t r =
     (let r = r\<lparr>dr_pending := dr_pending r @ t, dr_lead := extend_lead (dr_lead r) t\<rparr>
      in if length (dr_pending r) \<ge> FLUSH_CHARS then dr_flush h r else r)"

definition dr_canonical :: "'s hasher \<Rightarrow> (addr \<Rightarrow> json option) \<Rightarrow> string \<Rightarrow> input \<Rightarrow> 's digest_run \<Rightarrow> 's digest_run" where
  "dr_canonical h frozen sep x r =
     (let (t, f) = canonical_form frozen (dr_forms r) x in dr_write h (sep @ t) (r\<lparr>dr_forms := f\<rparr>))"

text \<open>The longest cached prefix of the items with the same leading text; the first wins a tie.\<close>

fun find_prefix :: "string \<Rightarrow> input list \<Rightarrow> 's array_prefix list \<Rightarrow> 's array_prefix option \<Rightarrow> 's array_prefix option" where
  "find_prefix before items [] resumed = resumed"
| "find_prefix before items (p # ps) resumed =
     (if ap_lead p \<noteq> before \<or> length (ap_items p) > length items \<or>
         (case resumed of None \<Rightarrow> False | Some q \<Rightarrow> length (ap_items q) \<ge> length (ap_items p))
      then find_prefix before items ps resumed
      else if list_all2 same_value (ap_items p) (take (length (ap_items p)) items)
      then find_prefix before items ps (Some p)
      else find_prefix before items ps resumed)"

fun visit_items :: "'s hasher \<Rightarrow> (addr \<Rightarrow> json option) \<Rightarrow> nat \<Rightarrow> input list \<Rightarrow> bool \<times> 's digest_run \<Rightarrow> bool \<times> 's digest_run" where
  "visit_items h frozen index [] (immutable, r) = (immutable, r)"
| "visit_items h frozen index (x # xs) (immutable, r) =
     visit_items h frozen (Suc index) xs
       (immutable \<and> is_frozen frozen x, dr_canonical h frozen (if index > 0 then '','' else []) x r)"

definition visitArray :: "'s hasher \<Rightarrow> (addr \<Rightarrow> json option) \<Rightarrow> input list \<Rightarrow> string \<Rightarrow> 's digest_run \<Rightarrow> 's digest_run" where
  "visitArray h frozen items before r =
     (let resumed = find_prefix before items (dr_prefixes r) None;
          start = (case resumed of None \<Rightarrow> 0 | Some p \<Rightarrow> length (ap_items p));
          r = (case resumed of
                 None \<Rightarrow> dr_write h ''['' r
               | Some p \<Rightarrow> r\<lparr>dr_state := ap_state p, dr_bytes := ap_bytes p, dr_pending := []\<rparr>);
          (immutable, r) = visit_items h frozen start (drop start items) (True, r\<lparr>dr_lead := None\<rparr>);
          r = (if immutable \<and> (resumed = None \<or> start < length items)
               then (let r = dr_flush h r in
                     r\<lparr>dr_prefixes := take ARRAY_PREFIX_SLOTS
                        (\<lparr>ap_lead = before, ap_items = items, ap_state = dr_state r, ap_bytes = dr_bytes r\<rparr> # dr_prefixes r)\<rparr>)
               else r)
      in dr_write h '']'' r)"

function (sequential)
  visit :: "'s hasher \<Rightarrow> (addr \<Rightarrow> json option) \<Rightarrow> input \<Rightarrow> 's digest_run \<Rightarrow> 's digest_run" and
  visit_members :: "'s hasher \<Rightarrow> (addr \<Rightarrow> json option) \<Rightarrow> nat \<Rightarrow> (string \<times> input) list \<Rightarrow> 's digest_run \<Rightarrow> 's digest_run"
where
  "visit h frozen (Leaf v) r = dr_canonical h frozen [] (Leaf v) r"
| "visit h frozen (ArrayAt a xs) r =
     (case dr_lead r of
        None \<Rightarrow> dr_canonical h frozen [] (ArrayAt a xs) r
      | Some lead \<Rightarrow>
          if length xs \<ge> RESUMABLE_ARRAY_ITEMS then visitArray h frozen xs lead r
          else dr_canonical h frozen [] (ArrayAt a xs) r)"
| "visit h frozen (ObjectAt a kvs) r =
     (if dr_lead r = None then dr_canonical h frozen [] (ObjectAt a kvs) r
      else dr_write h ''}'' (visit_members h frozen 0 (sort_key fst kvs) (dr_write h ''{'' r)))"
| "visit_members h frozen index [] r = r"
| "visit_members h frozen index ((k, x) # kvs) r =
     visit_members h frozen (Suc index) kvs
       (visit h frozen x (dr_write h ((if index > 0 then '','' else []) @ string_text k @ '':'') r))"
  by pat_completeness auto
termination
  by (relation "measure (\<lambda>a. case a of Inl (_, _, x, _) \<Rightarrow> size x
        | Inr (_, _, _, kvs, _) \<Rightarrow> size_list (\<lambda>kv. size_prod (\<lambda>_. 0) size kv) kvs)")
     (auto simp: size_sort_entries)

text \<open>\<open>digestInput\<close>: the digest, and the caches it leaves.\<close>

definition digestInput :: "'s hasher \<Rightarrow> (addr \<Rightarrow> json option) \<Rightarrow> forms \<Rightarrow> 's array_prefix list \<Rightarrow> input \<Rightarrow>
    input_digest \<times> forms \<times> 's array_prefix list" where
  "digestInput h frozen forms prefixes x =
     (let r = visit h frozen x \<lparr>dr_state = h_init h, dr_bytes = 0, dr_pending = [], dr_lead = Some [],
                dr_forms = forms, dr_prefixes = prefixes\<rparr>;
          r = dr_flush h r
      in (\<lparr>id_sha256 = h_digest h (dr_state r), id_bytes = dr_bytes r\<rparr>, dr_forms r, dr_prefixes r))"

subsection \<open>The caches never change a digest\<close>

definition array_open_text :: "input list \<Rightarrow> string" where
  "array_open_text xs = CHR ''['' # join_comma (map (\<lambda>x. canonicalInput (value_of x)) xs)"

definition prefix_ok :: "'s hasher \<Rightarrow> (addr \<Rightarrow> json option) \<Rightarrow> 's array_prefix \<Rightarrow> bool" where
  "prefix_ok h frozen p \<longleftrightarrow>
     (\<forall>x \<in> set (ap_items p). is_frozen frozen x \<and> input_ok frozen x) \<and>
     ap_state p = h_update h (h_init h) (ap_lead p @ array_open_text (ap_items p)) \<and>
     ap_bytes p = byteLength (ap_lead p @ array_open_text (ap_items p))"

definition prefixes_ok :: "'s hasher \<Rightarrow> (addr \<Rightarrow> json option) \<Rightarrow> 's array_prefix list \<Rightarrow> bool" where
  "prefixes_ok h frozen ps \<longleftrightarrow> (\<forall>p \<in> set ps. prefix_ok h frozen p)"

text \<open>The stream has hashed or holds pending exactly the text \<open>t\<close>.\<close>

definition hashed :: "'s hasher \<Rightarrow> string \<Rightarrow> 's digest_run \<Rightarrow> bool" where
  "hashed h t r \<longleftrightarrow> (\<exists>u. t = u @ dr_pending r \<and> dr_state r = h_update h (h_init h) u \<and> dr_bytes r = byteLength u)"

definition run_ok :: "'s hasher \<Rightarrow> (addr \<Rightarrow> json option) \<Rightarrow> string \<Rightarrow> 's digest_run \<Rightarrow> bool" where
  "run_ok h frozen t r \<longleftrightarrow> hashed h t r \<and> (dr_lead r = None \<or> dr_lead r = Some t) \<and>
     forms_ok frozen (dr_forms r) \<and> prefixes_ok h frozen (dr_prefixes r)"

lemma join_comma_snoc: "join_comma (xs @ [y]) = join_comma xs @ (if xs = [] then [] else '','') @ y"
  by (induction xs rule: join_comma.induct) auto

lemma array_open_text_snoc:
  "array_open_text (xs @ [x]) = array_open_text xs @ (if xs = [] then [] else '','') @ canonicalInput (value_of x)"
  by (simp add: array_open_text_def join_comma_snoc)

lemma dr_flush_frame [simp]:
  "dr_lead (dr_flush h r) = dr_lead r" "dr_forms (dr_flush h r) = dr_forms r"
  "dr_prefixes (dr_flush h r) = dr_prefixes r" "dr_pending (dr_flush h r) = []"
  by (simp_all add: dr_flush_def)

lemma hashed_flush: "hasher_ok h \<Longrightarrow> hashed h t r \<Longrightarrow> hashed h t (dr_flush h r)"
  by (auto simp: hashed_def dr_flush_def hasher_ok_def)

lemma hashed_flushed:
  "hasher_ok h \<Longrightarrow> hashed h t r \<Longrightarrow>
     dr_state (dr_flush h r) = h_update h (h_init h) t \<and> dr_bytes (dr_flush h r) = byteLength t"
  using hashed_flush [of h t r] by (simp add: hashed_def)

lemma run_ok_flush: "hasher_ok h \<Longrightarrow> run_ok h frozen t r \<Longrightarrow> run_ok h frozen t (dr_flush h r)"
  by (simp add: run_ok_def hashed_flush)

lemma run_ok_write:
  assumes "hasher_ok h" "run_ok h frozen t r"
  shows "run_ok h frozen (t @ u) (dr_write h u r)"
proof -
  let ?r = "r\<lparr>dr_pending := dr_pending r @ u, dr_lead := extend_lead (dr_lead r) u\<rparr>"
  have "run_ok h frozen (t @ u) ?r"
    using assms(2) by (auto simp: run_ok_def hashed_def extend_lead_def)
  then show ?thesis using run_ok_flush [OF assms(1)] by (simp add: dr_write_def Let_def)
qed

lemma dr_write_prefixes [simp]: "dr_prefixes (dr_write h u r) = dr_prefixes r"
  by (simp add: dr_write_def Let_def)

lemma run_ok_canonical:
  assumes "hasher_ok h" "run_ok h frozen t r" "input_ok frozen x"
  shows "run_ok h frozen (t @ sep @ canonicalInput (value_of x)) (dr_canonical h frozen sep x r)"
proof -
  obtain u f where form: "canonical_form frozen (dr_forms r) x = (u, f)" by fastforce
  with canonical_form_correct(1) [OF assms(3), of "dr_forms r"] assms(2)
  have u: "u = canonicalInput (value_of x)" and "forms_ok frozen f" by (auto simp: run_ok_def)
  with assms(2) have "run_ok h frozen t (r\<lparr>dr_forms := f\<rparr>)" by (simp add: run_ok_def hashed_def)
  from run_ok_write [OF assms(1) this] show ?thesis by (simp add: dr_canonical_def form u)
qed

lemma find_prefix_ok:
  "find_prefix before items ps resumed = Some p \<Longrightarrow>
     (\<And>q. resumed = Some q \<Longrightarrow> q \<in> Q \<and> ap_lead q = before \<and> length (ap_items q) \<le> length items \<and>
        list_all2 same_value (ap_items q) (take (length (ap_items q)) items)) \<Longrightarrow> set ps \<subseteq> Q \<Longrightarrow>
     p \<in> Q \<and> ap_lead p = before \<and> length (ap_items p) \<le> length items \<and>
     list_all2 same_value (ap_items p) (take (length (ap_items p)) items)"
  by (induction before items ps resumed rule: find_prefix.induct) (auto split: if_splits)

lemma visit_items_ok:
  assumes "hasher_ok h"
  shows "run_ok h frozen (t @ array_open_text done) r \<Longrightarrow> \<forall>x \<in> set xs. input_ok frozen x \<Longrightarrow>
    run_ok h frozen (t @ array_open_text (done @ xs)) (snd (visit_items h frozen (length done) xs (immutable, r))) \<and>
    (fst (visit_items h frozen (length done) xs (immutable, r)) \<longleftrightarrow> immutable \<and> list_all (is_frozen frozen) xs)"
proof (induction xs arbitrary: "done" immutable r)
  case (Cons x xs)
  let ?r = "dr_canonical h frozen (if 0 < length done then '','' else []) x r"
  have "run_ok h frozen (t @ array_open_text (done @ [x])) ?r"
    using run_ok_canonical [OF assms Cons.prems(1), of x "if 0 < length done then '','' else []"] Cons.prems(2)
    by (auto simp: array_open_text_snoc)
  from Cons.IH [OF this, of "immutable \<and> is_frozen frozen x"] Cons.prems(2) show ?case by simp
qed simp

lemma run_ok_no_lead: "run_ok h frozen t r \<Longrightarrow> run_ok h frozen t (r\<lparr>dr_lead := None\<rparr>)"
  by (simp add: run_ok_def hashed_def)

lemma prefix_items_equal:
  assumes "prefix_ok h frozen p" "list_all2 same_value (ap_items p) ys" "\<forall>y \<in> set ys. input_ok frozen y"
  shows "map value_of (ap_items p) = map value_of ys"
proof (rule nth_equalityI)
  from assms(2) show "length (map value_of (ap_items p)) = length (map value_of ys)"
    by (simp add: list_all2_lengthD)
  show "map value_of (ap_items p) ! i = map value_of ys ! i" if "i < length (map value_of (ap_items p))" for i
    using that assms same_frozen_value [of "ap_items p ! i" "ys ! i" frozen]
    by (simp add: prefix_ok_def list_all2_conv_all_nth)
qed

text \<open>What the run holds once the opening bracket or the cached prefix is in.\<close>

lemma resume_ok:
  assumes "hasher_ok h" "run_ok h frozen before r" "\<forall>x \<in> set items. input_ok frozen x"
    and "find_prefix before items (dr_prefixes r) None = Some p"
  shows "run_ok h frozen (before @ array_open_text (take (length (ap_items p)) items))
      (r\<lparr>dr_state := ap_state p, dr_bytes := ap_bytes p, dr_pending := [], dr_lead := None\<rparr>)"
    and "length (ap_items p) \<le> length items"
    and "list_all (is_frozen frozen) (take (length (ap_items p)) items)"
proof -
  have found: "p \<in> set (dr_prefixes r)" "ap_lead p = before" "length (ap_items p) \<le> length items"
    "list_all2 same_value (ap_items p) (take (length (ap_items p)) items)"
    using find_prefix_ok [OF assms(4), of "set (dr_prefixes r)"] by auto
  then have ok: "prefix_ok h frozen p" using assms(2) by (simp add: run_ok_def prefixes_ok_def)
  have "map value_of (ap_items p) = map value_of (take (length (ap_items p)) items)"
    using found(4) assms(3) by (intro prefix_items_equal [OF ok]) (auto dest: in_set_takeD)
  then have "map (canonicalInput \<circ> value_of) (ap_items p) = map (canonicalInput \<circ> value_of) (take (length (ap_items p)) items)"
    by (metis map_map)
  then have "array_open_text (ap_items p) = array_open_text (take (length (ap_items p)) items)"
    by (simp add: array_open_text_def comp_def)
  with ok found assms(2) show "run_ok h frozen (before @ array_open_text (take (length (ap_items p)) items))
      (r\<lparr>dr_state := ap_state p, dr_bytes := ap_bytes p, dr_pending := [], dr_lead := None\<rparr>)"
    by (simp add: run_ok_def hashed_def prefix_ok_def)
  show "length (ap_items p) \<le> length items" by (rule found(3))
  have "is_frozen frozen y" if "same_value x y" "is_frozen frozen x" for x y
    using that by (cases x; cases y) auto
  then show "list_all (is_frozen frozen) (take (length (ap_items p)) items)"
    using ok found(4) unfolding prefix_ok_def list_all_iff
    by (auto simp: list_all2_conv_all_nth in_set_conv_nth) (metis nth_mem)
qed

lemma remember_prefix_ok:
  assumes "run_ok h frozen t r" "prefix_ok h frozen p"
  shows "run_ok h frozen t (r\<lparr>dr_prefixes := take n (p # dr_prefixes r)\<rparr>)"
proof -
  have "set (take n (p # dr_prefixes r)) \<subseteq> set (p # dr_prefixes r)" by (rule set_take_subset)
  with assms show ?thesis by (fastforce simp: run_ok_def hashed_def prefixes_ok_def)
qed

lemma visitArray_ok:
  assumes h: "hasher_ok h" and r: "run_ok h frozen before r" and items: "\<forall>x \<in> set items. input_ok frozen x"
  shows "run_ok h frozen (before @ canonicalInput (JArr (map value_of items))) (visitArray h frozen items before r)"
proof -
  define resumed where "resumed = find_prefix before items (dr_prefixes r) None"
  define start where "start = (case resumed of None \<Rightarrow> 0 | Some p \<Rightarrow> length (ap_items p))"
  define r1 where "r1 = (case resumed of None \<Rightarrow> dr_write h ''['' r
      | Some p \<Rightarrow> r\<lparr>dr_state := ap_state p, dr_bytes := ap_bytes p, dr_pending := []\<rparr>)"
  obtain immutable r2 where r2: "visit_items h frozen start (drop start items) (True, r1\<lparr>dr_lead := None\<rparr>) = (immutable, r2)"
    by fastforce
  have opened: "run_ok h frozen (before @ array_open_text (take start items)) (r1\<lparr>dr_lead := None\<rparr>)"
    and le: "start \<le> length items" and froz: "list_all (is_frozen frozen) (take start items)"
  proof (atomize (full), cases resumed)
    case None
    then show "run_ok h frozen (before @ array_open_text (take start items)) (r1\<lparr>dr_lead := None\<rparr>) \<and>
        start \<le> length items \<and> list_all (is_frozen frozen) (take start items)"
      using run_ok_no_lead [OF run_ok_write [OF h r, of "''[''"]]
      by (simp add: start_def r1_def array_open_text_def)
  next
    case (Some p)
    then show "run_ok h frozen (before @ array_open_text (take start items)) (r1\<lparr>dr_lead := None\<rparr>) \<and>
        start \<le> length items \<and> list_all (is_frozen frozen) (take start items)"
      using resume_ok [OF h r items] by (auto simp: start_def r1_def resumed_def)
  qed
  have len: "length (take start items) = start" using le by simp
  have rest: "\<forall>x \<in> set (drop start items). input_ok frozen x" using items by (auto dest: in_set_dropD)
  have r2_ok: "run_ok h frozen (before @ array_open_text items) r2"
    and imm: "immutable \<longleftrightarrow> list_all (is_frozen frozen) (drop start items)"
    using visit_items_ok [OF h opened rest, of True] r2 len by simp_all
  define r3 where "r3 = (if immutable \<and> (resumed = None \<or> start < length items)
      then (let r = dr_flush h r2 in r\<lparr>dr_prefixes := take ARRAY_PREFIX_SLOTS
          (\<lparr>ap_lead = before, ap_items = items, ap_state = dr_state r, ap_bytes = dr_bytes r\<rparr> # dr_prefixes r)\<rparr>)
      else r2)"
  have all_frozen: "\<forall>x \<in> set items. is_frozen frozen x" if immutable
  proof -
    have "list_all (is_frozen frozen) (take start items @ drop start items)"
      using froz imm that unfolding list_all_append by blast
    then show ?thesis by (simp add: list_all_iff)
  qed
  have flushed: "dr_state (dr_flush h r2) = h_update h (h_init h) (before @ array_open_text items)"
    "dr_bytes (dr_flush h r2) = byteLength (before @ array_open_text items)"
    using hashed_flushed [OF h] r2_ok unfolding run_ok_def by blast+
  have "prefix_ok h frozen \<lparr>ap_lead = before, ap_items = items, ap_state = dr_state (dr_flush h r2),
      ap_bytes = dr_bytes (dr_flush h r2)\<rparr>" if immutable
    using all_frozen [OF that] items flushed by (simp add: prefix_ok_def)
  then have "run_ok h frozen (before @ array_open_text items) r3"
    using remember_prefix_ok [OF run_ok_flush [OF h r2_ok]] r2_ok by (simp add: r3_def Let_def)
  from run_ok_write [OF h this, of "'']''"]
  have "run_ok h frozen (before @ canonicalInput (JArr (map value_of items))) (dr_write h '']'' r3)"
    by (simp add: array_open_text_def comp_def)
  then show ?thesis
    by (simp add: visitArray_def Let_def r2 r3_def flip: resumed_def start_def r1_def)
qed

definition member_text :: "string \<times> input \<Rightarrow> string" where
  "member_text kv = string_text (fst kv) @ CHR '':'' # canonicalInput (value_of (snd kv))"

lemma canonical_object_members:
  assumes "distinct (map fst kvs)"
  shows "canonicalInput (value_of (ObjectAt a kvs)) = CHR ''{'' # join_comma (map member_text (sort_key fst kvs)) @ [CHR ''}'']"
proof -
  have "member_text = (\<lambda>(k, x). string_text k @ CHR '':'' # canonicalInput (value_of x))"
    by (auto simp: member_text_def)
  with canonical_object [OF assms, of a] show ?thesis by simp
qed

lemma visit_ok:
  "run_ok h frozen t r \<Longrightarrow> hasher_ok h \<Longrightarrow> input_ok frozen x \<Longrightarrow>
     run_ok h frozen (t @ canonicalInput (value_of x)) (visit h frozen x r)"
  "run_ok h frozen (t @ join_comma (map member_text done)) r \<Longrightarrow> hasher_ok h \<Longrightarrow>
     \<forall>kv \<in> set kvs. input_ok frozen (snd kv) \<Longrightarrow> index = length done \<Longrightarrow>
     run_ok h frozen (t @ join_comma (map member_text (done @ kvs))) (visit_members h frozen index kvs r)"
proof (induction h frozen x r and h frozen index kvs r arbitrary: t and t "done" rule: visit_visit_members.induct)
  case (1 h frozen v r)
  then show ?case using run_ok_canonical [of h frozen t r "Leaf v" "[]"] by simp
next
  case (2 h frozen a xs r)
  then have xs: "\<forall>x \<in> set xs. input_ok frozen x" by (auto simp: list_all_iff)
  have canonical: "run_ok h frozen (t @ canonicalInput (value_of (ArrayAt a xs))) (dr_canonical h frozen [] (ArrayAt a xs) r)"
    using run_ok_canonical [OF "2.prems"(2,1,3), of "[]"] by simp
  show ?case
  proof (cases "dr_lead r")
    case (Some lead)
    with "2.prems" have "lead = t" by (auto simp: run_ok_def)
    with Some show ?thesis using visitArray_ok [OF "2.prems"(2,1) xs] canonical by simp
  qed (use canonical in simp)
next
  case (3 h frozen a kvs r)
  show ?case
  proof (cases "dr_lead r = None")
    case True
    then show ?thesis using run_ok_canonical [OF "3.prems"(2,1,3), of "[]"] by simp
  next
    case False
    have kvs: "\<forall>kv \<in> set (sort_key fst kvs). input_ok frozen (snd kv)" "distinct (map fst kvs)"
      using "3.prems"(3) by (auto simp: list_all_iff)
    have "run_ok h frozen ((t @ ''{'') @ join_comma (map member_text [])) (dr_write h ''{'' r)"
      using run_ok_write [OF "3.prems"(2,1), of "''{''"] by simp
    from run_ok_write [OF "3.prems"(2) "3.IH" [OF False this "3.prems"(2) kvs(1)], of "''}''"] False
    show ?thesis by (auto simp: canonical_object_members [OF kvs(2)] simp del: value_of.simps canonicalInput.simps)
  qed
next
  case (5 h frozen index k x kvs r)
  let ?sep = "if index > 0 then '','' else []"
  have open_member: "run_ok h frozen ((t @ join_comma (map member_text done)) @ ?sep @ string_text k @ '':'')
      (dr_write h (?sep @ string_text k @ '':'') r)"
    by (rule run_ok_write [OF "5.prems"(2,1)])
  have "input_ok frozen x" using "5.prems"(3) by simp
  from "5.IH"(1) [OF open_member "5.prems"(2) this]
  have "run_ok h frozen (t @ join_comma (map member_text (done @ [(k, x)])))
      (visit h frozen x (dr_write h (?sep @ string_text k @ '':'') r))"
    using "5.prems"(4) by (cases "done = []") (simp_all add: join_comma_snoc member_text_def)
  from "5.IH"(2) [OF this "5.prems"(2)] "5.prems" show ?case by simp
qed simp_all

text \<open>\<open>digestInput\<close> hashes the canonical text, whatever valid caches it starts from, and leaves valid caches.\<close>

lemma digest_run_correct:
  assumes "hasher_ok h" "forms_ok frozen forms" "prefixes_ok h frozen prefixes" "input_ok frozen x"
    and "digestInput h frozen forms prefixes x = (d, forms', prefixes')"
  shows "d = digest_json h (value_of x)" "forms_ok frozen forms'" "prefixes_ok h frozen prefixes'"
proof -
  let ?r0 = "\<lparr>dr_state = h_init h, dr_bytes = 0, dr_pending = [], dr_lead = Some [], dr_forms = forms, dr_prefixes = prefixes\<rparr>"
  have "hashed h [] ?r0" using assms(1) by (simp add: hashed_def hasher_ok_def)
  then have "run_ok h frozen [] ?r0" using assms by (simp add: run_ok_def)
  from visit_ok(1) [OF this assms(1,4)]
  have r: "run_ok h frozen (canonicalInput (value_of x)) (visit h frozen x ?r0)" by simp
  then have "dr_state (dr_flush h (visit h frozen x ?r0)) = h_update h (h_init h) (canonicalInput (value_of x)) \<and>
      dr_bytes (dr_flush h (visit h frozen x ?r0)) = byteLength (canonicalInput (value_of x))"
    using hashed_flushed [OF assms(1)] unfolding run_ok_def by blast
  with r assms(5) show "d = digest_json h (value_of x)" "forms_ok frozen forms'" "prefixes_ok h frozen prefixes'"
    by (auto simp: digestInput_def Let_def digest_json_def digest_text_def run_ok_def)
qed

section \<open>Stored requests\<close>

definition DEFAULT_EFFECT_INPUT_DIGEST_MIN_BYTES :: int where
  "DEFAULT_EFFECT_INPUT_DIGEST_MIN_BYTES = 2 * 1024"

definition storeRequest :: "'s hasher \<Rightarrow> effect_request \<Rightarrow> int \<Rightarrow> runtime_error + stored_request" where
  "storeRequest h request minBytes =
     try_bind (check (safe_integer minBytes \<and> 0 \<le> minBytes)
         (Error ''Effect input digest minBytes must be a nonnegative safe integer'')) (\<lambda>_.
       let digest = digest_json h (er_input request) in
       Inr \<lparr>sr_act = er_act request,
            sr_input = (if int (id_bytes digest) < minBytes then InlineInput (er_input request) else DigestInput digest)\<rparr>)"

definition observeRequest :: "effect_requested \<Rightarrow> effect_acceptance" where
  "observeRequest r = \<lparr>ac_ref = rq_ref r, ac_origin = rq_origin r, ac_act = sr_act (rq_request r)\<rparr>"

definition matchesRequest :: "'s hasher \<Rightarrow> stored_request \<Rightarrow> effect_request \<Rightarrow> bool" where
  "matchesRequest h stored proposal =
     (if sr_act stored \<noteq> er_act proposal then False
      else (case sr_input stored of
          InlineInput v \<Rightarrow> canonicalInput v = canonicalInput (er_input proposal)
        | DigestInput d \<Rightarrow> d = digest_json h (er_input proposal)))"

fun stored_digest :: "'s hasher \<Rightarrow> stored_input \<Rightarrow> input_digest" where
  "stored_digest h (InlineInput v) = digest_json h v"
| "stored_digest h (DigestInput d) = d"

definition sameStoredRequest :: "'s hasher \<Rightarrow> stored_request \<Rightarrow> stored_request \<Rightarrow> bool" where
  "sameStoredRequest h left right \<longleftrightarrow>
     sr_act left = sr_act right \<and> stored_digest h (sr_input left) = stored_digest h (sr_input right)"

lemma storeRequest_digest:
  "storeRequest h request m = Inr s \<Longrightarrow> sr_act s = er_act request \<and> stored_digest h (sr_input s) = digest_json h (er_input request)"
  by (auto simp: storeRequest_def Let_def split: if_splits)

lemma matchesRequest_digest:
  "matchesRequest h s request \<Longrightarrow> sr_act s = er_act request \<and> stored_digest h (sr_input s) = digest_json h (er_input request)"
  by (auto simp: matchesRequest_def digest_json_def split: if_splits stored_input.splits)

lemma matches_storeRequest: "storeRequest h request m = Inr s \<Longrightarrow> matchesRequest h s request"
  by (auto simp: storeRequest_def matchesRequest_def Let_def split: if_splits)

lemma sameStoredRequest_equiv:
  "sameStoredRequest h s s"
  "sameStoredRequest h s t \<Longrightarrow> sameStoredRequest h t s"
  "sameStoredRequest h s t \<Longrightarrow> sameStoredRequest h t u \<Longrightarrow> sameStoredRequest h s u"
  by (simp_all add: sameStoredRequest_def)

text \<open>A hash is collision free on a set of values when different canonical texts get different digests.\<close>

definition collision_free :: "'s hasher \<Rightarrow> json set \<Rightarrow> bool" where
  "collision_free h A \<longleftrightarrow> inj_on (digest_text h) (canonicalInput ` A)"

lemma digest_json_inject:
  "collision_free h A \<Longrightarrow> v \<in> A \<Longrightarrow> w \<in> A \<Longrightarrow> json_ok v \<Longrightarrow> json_ok w \<Longrightarrow> digest_json h v = digest_json h w \<longleftrightarrow> v = w"
  unfolding collision_free_def digest_json_def by (auto simp: canonical_inject dest: inj_onD)

end
