(* ===== verification/Engine.thy ===== *)
theory Engine
  imports Lifecycle InputDigest
begin

text \<open>
  The replay engine (\<open>packages/core/src/runtime/replay.ts\<close>, with \<open>runtime/event-source.ts\<close>): it folds a
  journal into the accepted operations, derives the work the actor's atoms propose, and admits the
  next record. Every map is an association list in insertion order, keyed by \<open>effectKey\<close>. The actor
  is a parameter: its schema (\<open>cfg_validate\<close>, and \<open>cfg_read\<close> for historical events) and its atoms
  (\<open>cfg_roots\<close>), a function from what atoms may observe to the proposals of each root. A proposal's
  \<open>execute\<close> closure is represented by the identity of the proposal.
\<close>

section \<open>Observations, proposals and configuration\<close>

datatype observed_event = ObservedAcceptance effect_acceptance | ObservedEvent journal_event

record observed_record = record_metadata +
  ob_event :: observed_event

definition observe_record :: "recorded \<Rightarrow> observed_record" where
  "observe_record r = \<lparr>rm_message = rm_message r, rm_recordedAt = rm_recordedAt r,
     ob_event = (case rec_event r of
        Core (EffectRequested e) \<Rightarrow> if requested_ok e then ObservedAcceptance (observeRequest e) else ObservedEvent (rec_event r)
      | e \<Rightarrow> ObservedEvent e)\<rparr>"

definition observe_operation :: "stored_operation \<Rightarrow> effect_acceptance operation" where
  "observe_operation op = \<lparr>op_ref = op_ref op, op_request = observeRequest (op_request op),
     op_recordedAt = op_recordedAt op, op_execution = op_execution op, op_cleanup = op_cleanup op\<rparr>"

text \<open>
  What atoms may observe: the records since the checkpoint the engine started from (\<open>records\<close>), the
  whole journal through \<open>replay\<close>, the bindings, the active operations and the defect.
\<close>

record observation =
  ob_records :: "observed_record list"
  ob_replay :: "observed_record list"
  ob_bindings :: "(nat \<times> effect_ref) list"
  ob_operations :: "effect_acceptance operation list"
  ob_defect :: "effect_died option"

record act_request =
  pr_identity :: nat
  pr_request :: effect_request
  pr_origin :: "nat option"
  pr_onRequested :: "(effect_ref \<Rightarrow> runtime_error + journal_event list) option"
  pr_onDeferred :: "(execution_handle \<Rightarrow> effect_ref \<Rightarrow> runtime_error + journal_event list) option"
  pr_onSettled :: "(outcome \<Rightarrow> effect_ref \<Rightarrow> execution_handle option \<Rightarrow> runtime_error + journal_event list) option"

datatype proposed =
    EventProposal journal_event
  | CancelProposal core_event
  | ActProposal act_request
  | UnknownProposal

text \<open>
  The value of a root atom: an actor output has a view and at least one of the collections \<open>events\<close>
  and \<open>acts\<close>; any other value proposes nothing.
\<close>

datatype root_value =
    PlainValue
  | ActorOutput "(string \<times> proposed) list option" "(string \<times> proposed) list option"

record 's actor_config =
  cfg_hasher :: "'s hasher"
  cfg_min_bytes :: int
  cfg_validate :: "json \<Rightarrow> json option"
  cfg_read :: "json \<Rightarrow> json option"
  cfg_roots :: "observation \<Rightarrow> runtime_error + (string \<times> root_value) list"

record work =
  wk_atom :: string
  wk_origin :: "nat option"
  wk_request :: effect_request
  wk_source :: string
  wk_ref :: "effect_ref option"
  wk_identity :: nat

definition replies_atom :: string where
  "replies_atom = ''host.message.replies''"

section \<open>Events\<close>

definition is_object :: "json \<Rightarrow> bool" where
  "is_object j \<longleftrightarrow> (case j of JObj _ \<Rightarrow> True | JArr _ \<Rightarrow> True | _ \<Rightarrow> False)"

definition decode_domain :: "'s actor_config \<Rightarrow> bool \<Rightarrow> json \<Rightarrow> runtime_error + json" where
  "decode_domain cfg historical j =
     (case (if historical then Option.bind (cfg_read cfg j) (cfg_validate cfg) else cfg_validate cfg j) of
        None \<Rightarrow> Inl SchemaError | Some v \<Rightarrow> Inr v)"

text \<open>
  \<open>eventOf\<close>. A raw object with a reserved type name is a \<open>Core\<close> event of the model, so a \<open>Domain\<close>
  object that still carries one does not decode.
\<close>

definition eventOf :: "'s actor_config \<Rightarrow> bool \<Rightarrow> bool \<Rightarrow> journal_event \<Rightarrow> runtime_error + journal_event" where
  "eventOf cfg reply historical event = (case event of
     Core e \<Rightarrow> if core_event_ok e then Inr (Core e) else Inl SchemaError
   | MessageReceived body \<Rightarrow>
       if reply then Inr (MessageReceived body)
       else if \<not> is_object body \<or> hasCoreEventType body then Inl (Error ''Actor inputs must be domain events'')
       else try_bind (decode_domain cfg historical body) (\<lambda>v. Inr (MessageReceived v))
   | Domain j \<Rightarrow>
       (case j of
          JObj m \<Rightarrow>
            if fmlookup m ''effect'' \<noteq> None then Inl (Error ''Domain effect metadata is not supported'')
            else if hasCoreEventType j then Inl SchemaError
            else try_bind (decode_domain cfg historical j) (\<lambda>v. Inr (Domain v))
        | _ \<Rightarrow> Inl (Error ''Domain event must be an object'')))"

definition recordOf :: "'s actor_config \<Rightarrow> bool \<Rightarrow> nat \<Rightarrow> recorded \<Rightarrow> runtime_error + recorded" where
  "recordOf cfg historical position r =
     (let result =
        try_bind (check (record_metadata_ok r) SchemaError) (\<lambda>_.
        try_bind (check (isMessageReceived (rec_event r) \<longleftrightarrow> rm_message r \<noteq> None)
            (Error ''Inbox records require message metadata'')) (\<lambda>_.
        try_bind (eventOf cfg (Option.bind (rm_message r) mm_inReplyTo \<noteq> None) historical (rec_event r)) (\<lambda>e.
        Inr (r\<lparr>rec_event := e\<rparr>))))
      in (case result of
            Inl e \<Rightarrow> Inl (if historical then replay_error_wrap e decode_failed position else e)
          | Inr r \<Rightarrow> Inr r))"

section \<open>Requests and inputs\<close>

text \<open>A prepared request is the validated request with its stored form.\<close>

definition prepareRequest :: "'s actor_config \<Rightarrow> effect_request \<Rightarrow> runtime_error + effect_request \<times> stored_request" where
  "prepareRequest cfg source =
     try_bind (check (er_act source \<noteq> []) SchemaError) (\<lambda>_.
     try_bind (storeRequest (cfg_hasher cfg) source (cfg_min_bytes cfg)) (\<lambda>stored. Inr (source, stored)))"

definition matchesPrepared :: "'s actor_config \<Rightarrow> stored_request \<Rightarrow> effect_request \<times> stored_request \<Rightarrow> bool" where
  "matchesPrepared cfg stored prepared =
     (case (sr_input stored, sr_input (snd prepared)) of
        (DigestInput d, DigestInput d') \<Rightarrow> sr_act stored = sr_act (snd prepared) \<and> d = d'
      | _ \<Rightarrow> matchesRequest (cfg_hasher cfg) stored (fst prepared))"

definition acceptedInput :: "'s actor_config \<Rightarrow> effect_requested \<Rightarrow> effect_request \<times> stored_request \<Rightarrow> bool \<Rightarrow>
    (string \<times> effect_request) list \<Rightarrow> runtime_error + effect_request" where
  "acceptedInput cfg r proposed concluded available =
     (case map_of available (effectKey (rq_ref r)) of
        Some persisted \<Rightarrow>
          try_bind (prepareRequest cfg persisted) (\<lambda>prepared.
          if matchesPrepared cfg (rq_request r) prepared then Inr (fst prepared)
          else Inl (ActorReplayError input_mismatch (ref_seq (rq_ref r))))
      | None \<Rightarrow>
          (case sr_input (rq_request r) of
             InlineInput v \<Rightarrow> try_bind (prepareRequest cfg \<lparr>er_act = sr_act (rq_request r), er_input = v\<rparr>) (\<lambda>p. Inr (fst p))
           | DigestInput _ \<Rightarrow>
               if \<not> concluded \<and> \<not> matchesPrepared cfg (rq_request r) proposed
               then Inl (ActorReplayError retained_input_unavailable (ref_seq (rq_ref r)))
               else Inr (fst proposed)))"

section \<open>The engine's state\<close>

record engine =
  en_journal :: "recorded list"
  en_seed :: nat
  en_operations :: "(string \<times> stored_operation) list"
  en_retire :: "string list"
  en_inputs :: "(string \<times> effect_request) list"
  en_available :: "(string \<times> effect_request) list"
  en_origins :: "(string \<times> effect_ref) list"
  en_references :: "(nat \<times> effect_ref) list"
  en_bindings :: "(nat \<times> effect_ref) list"
  en_acts :: "(string \<times> act_request) list"
  en_accepted :: "(string \<times> work) list"
  en_proposals :: "(string \<times> act_request) list"
  en_defect :: "effect_died option"
  en_progress :: nat
  en_deliveries :: "journal_event list"
  en_cancellations :: "effect_cancelled list"
  en_owners :: "(nat \<times> string) list"
  en_declarations :: "(nat \<times> stored_request) list"
  en_recovery :: "recorded list option"

definition position :: "engine \<Rightarrow> nat" where
  "position en = length (en_journal en)"

definition operation_at :: "engine \<Rightarrow> effect_ref \<Rightarrow> stored_operation option" where
  "operation_at en ref = map_of (en_operations en) (effectKey ref)"

definition observation_of :: "engine \<Rightarrow> observation" where
  "observation_of en = \<lparr>ob_records = map observe_record (drop (en_seed en) (en_journal en)),
     ob_replay = map observe_record (en_journal en), ob_bindings = en_bindings en,
     ob_operations = map (observe_operation \<circ> snd) (en_operations en), ob_defect = en_defect en\<rparr>"

text \<open>\<open>journal.readOperation\<close>: a reference's records before a position, found from its request on.\<close>

definition readOperation :: "recorded list \<Rightarrow> effect_ref \<Rightarrow> recorded list" where
  "readOperation journal ref = filter (concerns ref) (drop (ref_seq ref) journal)"

definition is_died_record :: "recorded \<Rightarrow> bool" where
  "is_died_record r \<longleftrightarrow> (case rec_event r of Core (EffectDied d) \<Rightarrow> ref_ok (died_ref d) | _ \<Rightarrow> False)"

text \<open>Whether the whole journal being recovered already concludes the reference.\<close>

definition isConcluded :: "engine \<Rightarrow> effect_ref \<Rightarrow> runtime_error + bool" where
  "isConcluded en ref = (case en_recovery en of
     None \<Rightarrow> Inr False
   | Some history \<Rightarrow>
       (case recordedOperation (readOperation history ref) ref of
          None \<Rightarrow> Inr False
        | Some op \<Rightarrow>
            if cleanupSucceeded (op_cleanup_outcome op) \<or> op_promised op then Inr True
            else try_bind (settlementCompletesExecution (op_settlement op)) (\<lambda>completes.
              Inr (completes \<or> list_ex is_died_record history \<and> ref_atom ref \<noteq> replies_atom \<and> op_cleanup op = None))))"

definition originKey :: "string \<Rightarrow> string \<Rightarrow> nat option \<Rightarrow> string" where
  "originKey atom act origin = canonicalInput (JArr [JStr atom, JStr act,
     case origin of None \<Rightarrow> JNull | Some n \<Rightarrow> JInt (int n)])"

definition rememberOrigin :: "effect_requested \<Rightarrow> engine \<Rightarrow> runtime_error + engine" where
  "rememberOrigin r en =
     try_bind (check (ref_act (rq_ref r) = sr_act (rq_request r)) (Error ''Effect reference differs from its act'')) (\<lambda>_.
     try_bind (check (case rq_origin r of None \<Rightarrow> True | Some p \<Rightarrow> p < ref_seq (rq_ref r))
         (Error ''Effect origin must precede acceptance'')) (\<lambda>_.
     let key = originKey (ref_atom (rq_ref r)) (sr_act (rq_request r)) (rq_origin r) in
     try_bind (check (case map_of (en_origins en) key of None \<Rightarrow> True | Some prior \<Rightarrow> effectKey prior = effectKey (rq_ref r))
         (Error ''Effect origin already has an accepted reference'')) (\<lambda>_.
     Inr (en\<lparr>en_origins := js_set key (rq_ref r) (en_origins en)\<rparr>))))"

text \<open>The identities bound to a reference, other than the one given.\<close>

definition bound_identities :: "effect_ref \<Rightarrow> nat option \<Rightarrow> (nat \<times> effect_ref) list \<Rightarrow> nat list" where
  "bound_identities ref except refs = map fst (filter (\<lambda>(i, r). effectKey r = effectKey ref \<and> Some i \<noteq> except) refs)"

definition unbind :: "nat list \<Rightarrow> (nat \<times> effect_ref) list \<Rightarrow> (nat \<times> effect_ref) list" where
  "unbind ids refs = filter (\<lambda>(i, _). i \<notin> set ids) refs"

definition bind_proposal :: "act_request \<Rightarrow> effect_ref \<Rightarrow> engine \<Rightarrow> runtime_error + engine" where
  "bind_proposal proposal ref en =
     (let prior = map_of (en_acts en) (effectKey ref);
          stale = bound_identities ref (map_option pr_identity prior) (en_references en) in
      if (case prior of None \<Rightarrow> False
          | Some p \<Rightarrow> pr_identity p \<noteq> pr_identity proposal \<and>
              map_of (en_owners en) (pr_identity p) \<noteq> map_of (en_owners en) (pr_identity proposal))
      then Inl (Error ''Duplicate effect binding'')
      else Inr (en\<lparr>
        en_references := js_set (pr_identity proposal) ref (unbind stale (en_references en)),
        en_acts := js_set (effectKey ref) (case prior of None \<Rightarrow> proposal | Some p \<Rightarrow> p) (en_acts en),
        en_bindings := js_set (pr_identity proposal) ref (unbind stale (en_bindings en))\<rparr>))"

section \<open>Proposed work\<close>

subsection \<open>Collecting the proposals\<close>

definition proposal_path :: "string \<Rightarrow> string \<Rightarrow> string \<Rightarrow> string" where
  "proposal_path root collection source = canonicalInput (JArr [JStr root, JStr collection, JStr source])"

fun is_event_proposal :: "proposed \<Rightarrow> bool" where
  "is_event_proposal (EventProposal _) = True" | "is_event_proposal _ = False"

fun is_act_proposal :: "proposed \<Rightarrow> bool" where
  "is_act_proposal (ActProposal _) = True" | "is_act_proposal (CancelProposal _) = True" | "is_act_proposal _ = False"

type_synonym candidate = "string \<times> string \<times> proposed"

text \<open>One collection of a root: its entries with their path and root name.\<close>

definition collect_proposals :: "string \<Rightarrow> bool \<Rightarrow> (string \<times> proposed) list option \<Rightarrow> runtime_error + candidate list" where
  "collect_proposals root events proposals =
     (let collection = (if events then ''events'' else ''acts'') in
      case proposals of
        None \<Rightarrow> Inl (Error ''Invalid collection'')
      | Some entries \<Rightarrow> map_try (\<lambda>(source, p).
          if source = [] then Inl (Error ''Invalid effect source'')
          else if \<not> (if events then is_event_proposal p else is_act_proposal p) then Inl (Error ''Invalid proposal'')
          else Inr (proposal_path root collection source, root, p)) entries)"

definition collect_root :: "string \<times> root_value \<Rightarrow> runtime_error + candidate list" where
  "collect_root r = (case snd r of
     PlainValue \<Rightarrow> Inr []
   | ActorOutput events acts \<Rightarrow>
       if events = None \<and> acts = None then Inr []
       else try_bind (collect_proposals (fst r) True events) (\<lambda>es.
            try_bind (collect_proposals (fst r) False acts) (\<lambda>as. Inr (es @ as))))"

definition collect_candidates :: "bool \<Rightarrow> (string \<times> root_value) list \<Rightarrow> runtime_error + candidate list" where
  "collect_candidates defective roots =
     try_bind (map_try collect_root (filter (\<lambda>(name, _). \<not> defective \<or> name = replies_atom) roots)) (\<lambda>cs. Inr (concat cs))"

subsection \<open>Processing a proposal\<close>

definition propose_event :: "'s actor_config \<Rightarrow> journal_event \<Rightarrow> engine \<Rightarrow> runtime_error + engine" where
  "propose_event cfg event en =
     try_bind (eventOf cfg False False event) (\<lambda>e. case e of
       Domain _ \<Rightarrow> Inr (en\<lparr>en_deliveries := en_deliveries en @ [e]\<rparr>)
     | _ \<Rightarrow> Inl (Error ''Domain event proposals cannot emit core events''))"

text \<open>A cancellation is proposed for unfinished, uncancelled, accepted work only.\<close>

definition propose_cancel :: "core_event \<Rightarrow> engine \<Rightarrow> runtime_error + engine" where
  "propose_cancel event en =
     (if \<not> core_event_ok event then Inl SchemaError
      else (case event of
        EffectCancelled c \<Rightarrow>
          (case operation_at en (cancel_ref c) of
             None \<Rightarrow> Inr en
           | Some op \<Rightarrow>
               try_bind (if op_promised op then Inr True else settlementCompletesExecution (op_settlement op)) (\<lambda>finished.
               Inr (if \<not> op_cancelled op \<and> \<not> finished then en\<lparr>en_cancellations := en_cancellations en @ [c]\<rparr> else en)))
      | _ \<Rightarrow> Inl (Error ''Invalid cancellation proposal'')))"

text \<open>
  Whether the input of a bound proposal has to be loaded: the operation has no successful cleanup,
  and is unsettled, deferred or cancelled.
\<close>

definition needs_input :: "stored_operation \<Rightarrow> runtime_error + bool" where
  "needs_input op =
     try_bind (case op_settlement op of
         None \<Rightarrow> Inr False
       | Some s \<Rightarrow> (case es_outcome s of
           Rejected _ \<Rightarrow> Inr False
         | Fulfilled v \<Rightarrow> try_bind (execution_result_of v) (\<lambda>r. Inr (is_promise_result r \<and> \<not> op_promised op)))) (\<lambda>deferred.
     Inr (\<not> cleanupSucceeded (op_cleanup_outcome op) \<and> (op_settlement op = None \<or> deferred \<or> op_cancelled op)))"

definition bind_accepted :: "'s actor_config \<Rightarrow> act_request \<Rightarrow> effect_request \<times> stored_request \<Rightarrow> effect_ref \<Rightarrow> bool \<Rightarrow>
    engine \<Rightarrow> runtime_error + engine" where
  "bind_accepted cfg proposal prepared ref assigned en =
     (let key = effectKey ref in
      case map_of (en_operations en) key of
        None \<Rightarrow> Inl (ActorReplayError reconstruction_failed (ref_seq ref))
      | Some op \<Rightarrow>
          if rq_origin (op_request op) \<noteq> pr_origin proposal then Inl (ActorReplayError reconstruction_failed (ref_seq ref))
          else
            try_bind (needs_input op) (\<lambda>needed.
            try_bind
              (if map_of (en_inputs en) key = None \<and> needed
               then try_bind (isConcluded en (rq_ref (op_request op))) (\<lambda>concluded.
                    try_bind (acceptedInput cfg (op_request op) prepared concluded (en_available en)) (\<lambda>input.
                    Inr (en\<lparr>en_inputs := js_set key input (en_inputs en)\<rparr>)))
               else Inr en) (\<lambda>en.
            if assigned then Inr en else bind_proposal proposal ref en)))"

definition propose_act :: "'s actor_config \<Rightarrow> string \<Rightarrow> string \<Rightarrow> act_request \<Rightarrow> engine \<Rightarrow> runtime_error + engine \<times> work list" where
  "propose_act cfg path root proposal en =
     (let identity = pr_identity proposal;
          act = er_act (pr_request proposal);
          assigned = map_of (en_references en) identity;
          ref = (case assigned of Some r \<Rightarrow> Some r | None \<Rightarrow> map_of (en_origins en) (originKey root act (pr_origin proposal)))
      in
      try_bind (check (case ref of None \<Rightarrow> True | Some r \<Rightarrow> ref_atom r = root \<and> ref_act r = act)
          (Error ''Accepted reference belongs to a different atom or act'')) (\<lambda>_.
      try_bind (check (map_of (en_owners en) identity \<in> {None, Some path})
          (Error ''An act request must belong to one source'')) (\<lambda>_.
      let en = en\<lparr>en_owners := js_set identity path (en_owners en)\<rparr> in
      try_bind (prepareRequest cfg (pr_request proposal)) (\<lambda>prepared.
      try_bind (check (case map_of (en_declarations en) identity of
            None \<Rightarrow> True | Some previous \<Rightarrow> previous = snd prepared \<or> matchesPrepared cfg previous prepared)
          (Error ''Effect identity reused with a different request'')) (\<lambda>_.
      let en = en\<lparr>en_declarations := js_set identity (snd prepared) (en_declarations en)\<rparr> in
      case ref of
        Some r \<Rightarrow> try_bind (bind_accepted cfg proposal prepared r (assigned \<noteq> None) en) (\<lambda>en. Inr (en, []))
      | None \<Rightarrow> Inr (en\<lparr>en_proposals := js_set path proposal (en_proposals en)\<rparr>,
          [\<lparr>wk_atom = root, wk_origin = pr_origin proposal, wk_request = fst prepared, wk_source = path,
            wk_ref = None, wk_identity = identity\<rparr>]))))))"

definition process_candidate :: "'s actor_config \<Rightarrow> candidate \<Rightarrow> string list \<times> engine \<times> work list \<Rightarrow>
    runtime_error + string list \<times> engine \<times> work list" where
  "process_candidate cfg c st =
     (case (c, st) of ((path, root, p), (names, en, ws)) \<Rightarrow>
        if path \<in> set names then Inl (Error ''Duplicate effect source'')
        else try_bind
          (case p of
             EventProposal e \<Rightarrow> try_bind (propose_event cfg e en) (\<lambda>en. Inr (en, []))
           | CancelProposal e \<Rightarrow> try_bind (propose_cancel e en) (\<lambda>en. Inr (en, []))
           | ActProposal a \<Rightarrow> propose_act cfg path root a en
           | UnknownProposal \<Rightarrow> Inl (Error ''Invalid effect value''))
          (\<lambda>(en, new). Inr (path # names, en, ws @ new)))"

text \<open>\<open>effects\<close>: accepted work first, then what the atoms newly propose.\<close>

definition effects :: "'s actor_config \<Rightarrow> engine \<Rightarrow> runtime_error + engine \<times> work list" where
  "effects cfg en =
     try_bind (cfg_roots cfg (observation_of en)) (\<lambda>roots.
     let en = en\<lparr>en_proposals := [], en_deliveries := [], en_cancellations := []\<rparr> in
     try_bind (collect_candidates (en_defect en \<noteq> None) roots) (\<lambda>candidates.
     try_bind (fold_try (process_candidate cfg) candidates ([], en, [])) (\<lambda>(_, en, new).
     Inr (en, filter (\<lambda>w. en_defect en = None \<or> wk_atom w = replies_atom) (map snd (en_accepted en)) @ new))))"

section \<open>Releasing completed operations\<close>

definition drop_operation :: "string \<Rightarrow> stored_operation \<Rightarrow> engine \<Rightarrow> engine" where
  "drop_operation key op en =
     (let ids = map fst (filter (\<lambda>(_, r). effectKey r = key) (en_references en)) in
      en\<lparr>en_references := unbind ids (en_references en), en_bindings := unbind ids (en_bindings en),
         en_origins := js_delete (originKey (ref_atom (op_ref op)) (sr_act (rq_request (op_request op))) (rq_origin (op_request op))) (en_origins en),
         en_operations := js_delete key (en_operations en), en_inputs := js_delete key (en_inputs en),
         en_available := js_delete key (en_available en), en_acts := js_delete key (en_acts en),
         en_accepted := js_delete key (en_accepted en), en_retire := removeAll key (en_retire en)\<rparr>)"

definition release_key :: "journal_event option \<Rightarrow> string \<Rightarrow> engine \<Rightarrow> runtime_error + engine" where
  "release_key next_event key en =
     (if (case next_event of Some (Core (MessageDelivered m)) \<Rightarrow> key = effectKey (md_ref m) | _ \<Rightarrow> False) then Inr en
      else (case map_of (en_operations en) key of
          None \<Rightarrow> Inr (en\<lparr>en_retire := removeAll key (en_retire en)\<rparr>)
        | Some op \<Rightarrow> try_bind (operationComplete op) (\<lambda>complete.
            Inr (if complete then drop_operation key op en else en\<lparr>en_retire := removeAll key (en_retire en)\<rparr>))))"

definition release :: "journal_event option \<Rightarrow> engine \<Rightarrow> runtime_error + engine" where
  "release next_event en = fold_try (release_key next_event) (en_retire en) en"

definition finish :: "'s actor_config \<Rightarrow> engine \<Rightarrow> runtime_error + engine" where
  "finish cfg en = try_bind (release None en) (\<lambda>en. try_bind (effects cfg en) (\<lambda>(en, _). Inr en))"

section \<open>Admitting a record\<close>

definition put_operation :: "string \<Rightarrow> stored_operation \<Rightarrow> engine \<Rightarrow> engine" where
  "put_operation key op en = en\<lparr>en_operations := js_set key op (en_operations en)\<rparr>"

definition change_retire :: "string \<Rightarrow> retire_change \<Rightarrow> engine \<Rightarrow> engine" where
  "change_retire key c en = (case c of
     RetireAdd \<Rightarrow> en\<lparr>en_retire := (if key \<in> set (en_retire en) then en_retire en else en_retire en @ [key])\<rparr>
   | RetireDelete \<Rightarrow> en\<lparr>en_retire := removeAll key (en_retire en)\<rparr>
   | RetireKeep \<Rightarrow> en)"

definition append_record :: "recorded \<Rightarrow> engine \<Rightarrow> engine" where
  "append_record r en = en\<lparr>en_journal := en_journal en @ [r]\<rparr>"

definition record_appended :: "'s actor_config \<Rightarrow> recorded \<Rightarrow> engine \<Rightarrow> runtime_error + engine" where
  "record_appended cfg r en = try_bind (effects cfg (append_record r en)) (\<lambda>(en, _). Inr en)"

text \<open>A request: redelivered for an active operation, or accepted at its own position from the one proposal that matches.\<close>

definition same_request :: "'s actor_config \<Rightarrow> effect_requested \<Rightarrow> effect_requested \<Rightarrow> bool" where
  "same_request cfg a b \<longleftrightarrow> rq_ref a = rq_ref b \<and> rq_origin a = rq_origin b \<and>
     sameStoredRequest (cfg_hasher cfg) (rq_request a) (rq_request b)"

definition offers :: "effect_requested \<Rightarrow> work \<Rightarrow> bool" where
  "offers e w \<longleftrightarrow> wk_ref w = None \<and> wk_atom w = ref_atom (rq_ref e) \<and>
     er_act (wk_request w) = ref_act (rq_ref e) \<and> wk_origin w = rq_origin e"

definition accept_request :: "'s actor_config \<Rightarrow> recorded \<Rightarrow> effect_requested \<Rightarrow> engine \<Rightarrow> runtime_error + engine" where
  "accept_request cfg r e en =
     (let key = effectKey (rq_ref e) in
      try_bind (check (ref_seq (rq_ref e) = position en) (Error ''Effect reference must match its request position'')) (\<lambda>_.
      try_bind (effects cfg en) (\<lambda>(en, ws).
      case filter (offers e) ws of
        [] \<Rightarrow> Inl (ActorReplayError reconstruction_failed (ref_seq (rq_ref e)))
      | [offered] \<Rightarrow>
          try_bind (prepareRequest cfg (wk_request offered)) (\<lambda>prepared.
          try_bind (isConcluded en (rq_ref e)) (\<lambda>concluded.
          try_bind (acceptedInput cfg e prepared concluded (en_available en)) (\<lambda>input.
          case map_of (en_proposals en) (wk_source offered) of
            None \<Rightarrow> Inl (Error ''Effect proposal is missing'')
          | Some proposal \<Rightarrow>
              try_bind (rememberOrigin e en) (\<lambda>en.
              let en = put_operation key (requested_operation e (rm_recordedAt r)) en;
                  en = en\<lparr>en_inputs := js_set key input (en_inputs en)\<rparr> in
              try_bind (bind_proposal proposal (rq_ref e) en) (\<lambda>en.
              Inr (en\<lparr>en_accepted := js_set key (offered\<lparr>wk_ref := Some (rq_ref e), wk_request := input\<rparr>) (en_accepted en)\<rparr>))))))
      | _ \<Rightarrow> Inl (Error ''Calls to the same act require distinct origins''))))"

fun withdraws_work :: "core_event \<Rightarrow> bool" where
  "withdraws_work (EffectDied _) = True"
| "withdraws_work (EffectCancelled _) = True"
| "withdraws_work (EffectSettled _) = True"
| "withdraws_work _ = False"

definition withdraw_work :: "core_event \<Rightarrow> string \<Rightarrow> engine \<Rightarrow> engine" where
  "withdraw_work e key en = (if withdraws_work e then en\<lparr>en_accepted := js_delete key (en_accepted en)\<rparr> else en)"

text \<open>The first defect is kept.\<close>

definition latch_defect :: "core_event \<Rightarrow> engine \<Rightarrow> engine" where
  "latch_defect e en = (case e of
     EffectDied d \<Rightarrow> en\<lparr>en_defect := (case en_defect en of None \<Rightarrow> Some d | Some d' \<Rightarrow> Some d')\<rparr>
   | _ \<Rightarrow> en)"

definition apply_lifecycle :: "core_event \<Rightarrow> effect_ref \<Rightarrow> engine \<Rightarrow> runtime_error + engine" where
  "apply_lifecycle e ref en =
     try_bind (lifecycle_event (operation_at en ref) e) (\<lambda>(op, c).
     Inr (latch_defect e (withdraw_work e (effectKey ref) (change_retire (effectKey ref) c (put_operation (effectKey ref) op en)))))"

text \<open>A delivery completes the reply effect that was accepted for it.\<close>

definition check_delivery :: "message_delivered \<Rightarrow> engine \<Rightarrow> runtime_error + unit" where
  "check_delivery m en =
     (let key = effectKey (md_ref m);
          settlement = Option.bind (map_of (en_operations en) key) op_settlement;
          refused = Inl (Error ''Delivery completion requires its accepted reply effect'') in
      case map_option er_input (map_of (en_inputs en) key) of
        Some (JObj input) \<Rightarrow>
          if fmlookup input ''inReplyTo'' = Some (JStr (md_id m)) \<and> fmlookup input ''id'' = Some (JStr (receipt_id (md_receipt m)))
          then (case map_option es_outcome settlement of
              Some (Fulfilled v) \<Rightarrow>
                try_bind (execution_result_of v) (\<lambda>result.
                check (result = ValueResult (JObj (put_optional ''position'' (\<lambda>p. JInt (int p)) (receipt_position (md_receipt m))
                    (fmap_of_list [(''id'', JStr (receipt_id (md_receipt m)))]))))
                  (Error ''Delivery receipt differs from effect settlement''))
            | _ \<Rightarrow> refused)
          else refused
      | _ \<Rightarrow> refused)"

fun settles_progress :: "journal_event \<Rightarrow> bool" where
  "settles_progress (Core (EffectSettled _)) = True"
| "settles_progress (Core (PromiseSettled _)) = True"
| "settles_progress (Core (CleanupOutcome _)) = True"
| "settles_progress _ = False"

definition advance_progress :: "journal_event \<Rightarrow> engine \<Rightarrow> engine" where
  "advance_progress e en = (if settles_progress e then en\<lparr>en_progress := position en + 1\<rparr> else en)"

definition is_thread_created :: "recorded \<Rightarrow> bool" where
  "is_thread_created r \<longleftrightarrow> (case rec_event r of Core (ThreadCreated c) \<Rightarrow> thread_created_ok c | _ \<Rightarrow> False)"

text \<open>Creation comes first, and initial state on a journal that holds at most the creation.\<close>

definition check_origin_events :: "journal_event \<Rightarrow> engine \<Rightarrow> runtime_error + unit" where
  "check_origin_events e en = (case e of
     Core (ThreadCreated _) \<Rightarrow> check (position en = 0) (Error ''Thread creation must be the first journal record'')
   | Core (StateInitialised _) \<Rightarrow>
       check (position en \<le> 1 \<and> list_all is_thread_created (en_journal en)) (Error ''State initialisation requires a fresh journal'')
   | _ \<Rightarrow> Inr ())"

definition engine_append :: "'s actor_config \<Rightarrow> recorded \<Rightarrow> engine \<Rightarrow> runtime_error + engine" where
  "engine_append cfg r en =
     try_bind (release (Some (rec_event r)) en) (\<lambda>en.
     try_bind (check_origin_events (rec_event r) en) (\<lambda>_.
     case rec_event r of
       Core (EffectRequested e) \<Rightarrow>
         (case operation_at en (rq_ref e) of
            Some op \<Rightarrow>
              if same_request cfg (op_request op) e then record_appended cfg r en
              else Inl (Error ''Conflicting core effect request'')
          | None \<Rightarrow> try_bind (accept_request cfg r e en) (record_appended cfg r))
     | Core (MessageDelivered m) \<Rightarrow> try_bind (check_delivery m en) (\<lambda>_. record_appended cfg r en)
     | Core e \<Rightarrow>
         try_bind (case event_ref e of
             None \<Rightarrow> Inr en
           | Some ref \<Rightarrow> apply_lifecycle e ref en) (\<lambda>en.
         record_appended cfg r (advance_progress (Core e) en))
     | _ \<Rightarrow> record_appended cfg r en))"

subsection \<open>Replay\<close>

definition new_engine :: "recorded list \<Rightarrow> effect_died option \<Rightarrow> (string \<times> effect_request) list \<Rightarrow> recorded list option \<Rightarrow> engine" where
  "new_engine before defect inputs recovery =
     \<lparr>en_journal = before, en_seed = length before, en_operations = [], en_retire = [], en_inputs = [], en_available = inputs,
      en_origins = [], en_references = [], en_bindings = [], en_acts = [], en_accepted = [], en_proposals = [],
      en_defect = defect, en_progress = length before, en_deliveries = [], en_cancellations = [],
      en_owners = [], en_declarations = [], en_recovery = recovery\<rparr>"

text \<open>
  \<open>createEngine\<close> from a checkpoint: \<open>before\<close> is the journal up to the checkpoint (empty without one),
  which has no active operation and no defect; the history is folded record by record.
\<close>

definition createEngine :: "'s actor_config \<Rightarrow> recorded list \<Rightarrow> (string \<times> effect_request) list \<Rightarrow> recorded list \<Rightarrow> runtime_error + engine" where
  "createEngine cfg before inputs history =
     try_bind (fold_try (\<lambda>(key, request) _. try_bind (prepareRequest cfg request) (\<lambda>_. Inr ())) inputs ()) (\<lambda>_.
     try_bind (effects cfg (new_engine before None inputs (if history = [] then None else Some (before @ history)))) (\<lambda>(en, _).
     try_bind (fold_try (\<lambda>raw en. try_bind (recordOf cfg True (position en) raw) (\<lambda>r. engine_append cfg r en)) history en) (\<lambda>en.
     finish cfg (en\<lparr>en_recovery := None\<rparr>))))"

section \<open>The live append\<close>

definition host_record :: "core_event \<Rightarrow> bool" where
  "host_record e \<longleftrightarrow> \<not> is_lifecycle e \<and> \<not> is_requested e"

text \<open>What a defect still lets in.\<close>

definition admitted_after_defect :: "engine \<Rightarrow> journal_event \<Rightarrow> runtime_error + bool" where
  "admitted_after_defect en e = (case e of
     Core c \<Rightarrow>
       (case event_ref c of
          None \<Rightarrow> Inr False
        | Some ref \<Rightarrow>
            (case c of
               EffectDied _ \<Rightarrow> Inr True
             | EffectCancelled _ \<Rightarrow> Inr True
             | CleanupOutcome _ \<Rightarrow> Inr True
             | EffectSettled s \<Rightarrow>
                 try_bind (cleanupSubmission (operation_at en ref) s) (\<lambda>b. Inr (b \<or> ref_atom ref = replies_atom))
             | RetryScheduled x \<Rightarrow> Inr (rs_phase x = Some CancellationPhase \<or> ref_atom ref = replies_atom)
             | _ \<Rightarrow> Inr (ref_atom ref = replies_atom)))
   | _ \<Rightarrow> Inr False)"

definition known_operation :: "engine \<Rightarrow> effect_ref \<Rightarrow> stored_operation option" where
  "known_operation en ref = (case operation_at en ref of
     Some op \<Rightarrow> Some op
   | None \<Rightarrow> if ref_seq ref < position en then recordedOperation (readOperation (en_journal en) ref) ref else None)"

text \<open>The first guards of the live append: \<open>Inr True\<close> ends it with the snapshot unchanged.\<close>

definition live_guard :: "stored_operation option \<Rightarrow> core_event \<Rightarrow> runtime_error + bool" where
  "live_guard known e = (case e of
     EffectCancelled _ \<Rightarrow>
       (case known of
          None \<Rightarrow> Inl (Error ''Cancellation requires an accepted effect'')
        | Some op \<Rightarrow> if op_cancelled op \<or> op_promised op then Inr True else settlementCompletesExecution (op_settlement op))
   | CleanupOutcome _ \<Rightarrow>
       (case known of
          None \<Rightarrow> Inl (Error ''Cleanup acknowledgement requires cancellation'')
        | Some op \<Rightarrow> if op_cancelled op then Inr False else Inl (Error ''Cleanup acknowledgement requires cancellation''))
   | _ \<Rightarrow>
       (case known of
          None \<Rightarrow> Inr False
        | Some op \<Rightarrow>
            if \<not> op_cancelled op then Inr False
            else (case e of
               EffectSettled s \<Rightarrow>
                 if cleanupSucceeded (op_cleanup_outcome op) \<and> op_settlement op = None
                 then Inl (Error ''Acknowledged cleanup cannot accept a new submission'')
                 else (case es_outcome s of
                     Rejected _ \<Rightarrow> Inr True
                   | Fulfilled v \<Rightarrow> try_bind (execution_result_of v) (\<lambda>r. Inr (\<not> is_promise_result r)))
             | PromiseSettled _ \<Rightarrow> Inr True
             | RetryScheduled x \<Rightarrow> Inr (rs_phase x \<noteq> Some CancellationPhase)
             | _ \<Rightarrow> Inr False)))"

text \<open>The event already recorded in the place of this one, as the core event that recorded it.\<close>

definition prior_event :: "stored_operation option \<Rightarrow> core_event \<Rightarrow> core_event option" where
  "prior_event known e = (case known of
     None \<Rightarrow> None
   | Some op \<Rightarrow> (case e of
       RetryScheduled x \<Rightarrow>
         (case op_retry op (rs_phase x) of
            Some y \<Rightarrow> if rs_attempt y = rs_attempt x then Some (RetryScheduled y) else None
          | None \<Rightarrow> None)
     | EffectRequested _ \<Rightarrow> Some (EffectRequested (op_request op))
     | EffectSettled _ \<Rightarrow> map_option EffectSettled (op_settlement op)
     | EffectCancelled _ \<Rightarrow> map_option (EffectCancelled \<circ> cl_request) (op_cleanup op)
     | CleanupOutcome _ \<Rightarrow> map_option CleanupOutcome (op_cleanup_outcome op)
     | _ \<Rightarrow> map_option PromiseSettled (ex_promise (op_execution op))))"

definition timed_out :: "outcome \<Rightarrow> bool" where
  "timed_out r \<longleftrightarrow> (case r of Rejected reason \<Rightarrow> is_promise_timed_out reason | Fulfilled _ \<Rightarrow> False)"

text \<open>A redelivery: \<open>Inr True\<close> drops it, an error reports a conflict.\<close>

definition redelivery :: "'s actor_config \<Rightarrow> core_event \<Rightarrow> core_event \<Rightarrow> runtime_error + bool" where
  "redelivery cfg prior e =
     (case (prior, e) of
        (PromiseSettled p, PromiseSettled q) \<Rightarrow>
          if timed_out (ps_result q) \<or> timed_out (ps_result p) \<or> p = q then Inr True else Inl (Error ''Conflicting core event delivery'')
      | (EffectRequested p, EffectRequested q) \<Rightarrow>
          if same_request cfg p q then Inr True else Inl (Error ''Conflicting core event delivery'')
      | _ \<Rightarrow> if prior = e then Inr True else Inl (Error ''Conflicting core event delivery''))"

text \<open>Whether a lifecycle event is dropped, admitted (\<open>Inr False\<close>) or refused.\<close>

definition live_check :: "'s actor_config \<Rightarrow> engine \<Rightarrow> core_event \<Rightarrow> runtime_error + bool" where
  "live_check cfg en e = (case event_ref e of
     None \<Rightarrow> Inr False
   | Some ref \<Rightarrow>
       if host_record e then Inr False
       else (let known = known_operation en ref in
         try_bind (live_guard known e) (\<lambda>stop.
         if stop then Inr True
         else (case (e, en_defect en) of
             (EffectDied d, Some prior) \<Rightarrow> if prior = d then Inr True else Inl (Error ''Conflicting terminal defect'')
           | _ \<Rightarrow> (case prior_event known e of
                Some prior \<Rightarrow> redelivery cfg prior e
              | None \<Rightarrow> (case e of
                  PromiseSettled p \<Rightarrow> try_bind (validatePromise (operation_at en ref) p) (\<lambda>_. Inr False)
                | _ \<Rightarrow> Inr False))))))"

text \<open>The domain events an act's callbacks add to the record that settles it.\<close>

definition promise_handle :: "stored_operation option \<Rightarrow> runtime_error + execution_handle option" where
  "promise_handle op = (case Option.bind op op_settlement of
     None \<Rightarrow> Inr None
   | Some s \<Rightarrow> (case es_outcome s of
       Rejected _ \<Rightarrow> Inr None
     | Fulfilled v \<Rightarrow> try_bind (execution_result_of v) (\<lambda>r. Inr (case r of PromiseResult h _ _ \<Rightarrow> Some h | ValueResult _ \<Rightarrow> None))))"

definition settled_callback :: "act_request \<Rightarrow> outcome \<Rightarrow> effect_ref \<Rightarrow> execution_handle option \<Rightarrow> runtime_error + journal_event list" where
  "settled_callback a result ref h = (case pr_onSettled a of None \<Rightarrow> Inr [] | Some f \<Rightarrow> f result ref h)"

definition followups :: "engine \<Rightarrow> journal_event \<Rightarrow> runtime_error + journal_event list" where
  "followups en event = (case event of
     Core e \<Rightarrow>
       (case event_ref e of
          None \<Rightarrow> Inr []
        | Some ref \<Rightarrow>
            if host_record e then Inr []
            else (case map_of (en_acts en) (effectKey ref) of
                None \<Rightarrow> Inr []
              | Some a \<Rightarrow>
                  (let op = operation_at en ref in
                   case e of
                     EffectCancelled c \<Rightarrow>
                       try_bind (promise_handle op) (\<lambda>h. settled_callback a (Rejected (cancelled_json (cancel_reason c))) ref h)
                   | _ \<Rightarrow>
                       if (case op of None \<Rightarrow> False | Some op \<Rightarrow> op_cancelled op) then Inr []
                       else (case e of
                           EffectRequested _ \<Rightarrow> (case pr_onRequested a of None \<Rightarrow> Inr [] | Some f \<Rightarrow> f ref)
                         | PromiseSettled p \<Rightarrow>
                             try_bind (promise_handle op) (\<lambda>h. case h of
                               None \<Rightarrow> Inr [] | Some h \<Rightarrow> settled_callback a (ps_result p) ref (Some h))
                         | EffectSettled s \<Rightarrow>
                             (case es_outcome s of
                                Rejected reason \<Rightarrow> settled_callback a (Rejected reason) ref None
                              | Fulfilled v \<Rightarrow> try_bind (execution_result_of v) (\<lambda>r. case r of
                                  ValueResult value \<Rightarrow> settled_callback a (Fulfilled value) ref None
                                | PromiseResult h _ _ \<Rightarrow> (case pr_onDeferred a of None \<Rightarrow> Inr [] | Some f \<Rightarrow> f h ref)))
                         | _ \<Rightarrow> Inr []))))
   | _ \<Rightarrow> Inr [])"

definition append_followup :: "'s actor_config \<Rightarrow> record_metadata \<Rightarrow> journal_event \<Rightarrow> engine \<Rightarrow> runtime_error + engine" where
  "append_followup cfg metadata domain en =
     try_bind (check (case domain of Core (MessageDelivered _) \<Rightarrow> True | Core _ \<Rightarrow> False | MessageReceived _ \<Rightarrow> False | Domain j \<Rightarrow> \<not> hasCoreEventType j)
         (Error ''Act callbacks must return domain events'')) (\<lambda>_.
     try_bind (eventOf cfg False False domain) (\<lambda>e.
     try_bind (recordOf cfg False 0 (recorded_of metadata e)) (\<lambda>r.
     engine_append cfg r en)))"

text \<open>The event is recorded with its follow-ups, and the engine finishes the batch.\<close>

definition commit_event :: "'s actor_config \<Rightarrow> record_metadata \<Rightarrow> journal_event \<Rightarrow> engine \<Rightarrow> runtime_error + engine" where
  "commit_event cfg metadata e en =
     try_bind (recordOf cfg False 0 (recorded_of metadata e)) (\<lambda>r.
     try_bind (engine_append cfg r en) (\<lambda>en.
     try_bind (followups en e) (\<lambda>domains.
     try_bind (fold_try (append_followup cfg metadata) domains en) (finish cfg))))"

definition live_append :: "'s actor_config \<Rightarrow> record_metadata \<Rightarrow> journal_event \<Rightarrow> engine \<Rightarrow> runtime_error + engine" where
  "live_append cfg metadata event en =
     try_bind (eventOf cfg (Option.bind (rm_message metadata) mm_inReplyTo \<noteq> None) False event) (\<lambda>e.
     try_bind (if en_defect en = None then Inr True else admitted_after_defect en e) (\<lambda>admitted.
     if \<not> admitted then Inr en
     else try_bind (case e of Core c \<Rightarrow> live_check cfg en c | _ \<Rightarrow> Inr False) (\<lambda>dropped.
       if dropped then Inr en else commit_event cfg metadata e en)))"

subsection \<open>Restoring from a frame, and checkpoints\<close>

text \<open>
  \<open>engineOf\<close> rebuilds an engine from its frame without replaying: what a frame does not hold starts
  empty, and nothing is being recovered.
\<close>

definition restoreEngine :: "'s actor_config \<Rightarrow> engine \<Rightarrow> runtime_error + engine" where
  "restoreEngine cfg frame =
     try_bind (effects cfg (frame\<lparr>en_retire := [], en_proposals := [], en_deliveries := [], en_cancellations := [],
       en_recovery := None\<rparr>)) (\<lambda>(en, _). finish cfg en)"

text \<open>The position a checkpoint may be taken at: no defect, and no active operation.\<close>

definition checkpoint :: "engine \<Rightarrow> nat option" where
  "checkpoint en = (if en_defect en \<noteq> None \<or> en_operations en \<noteq> [] then None else Some (position en))"

section \<open>The work a snapshot exposes\<close>

definition inputOf :: "engine \<Rightarrow> string \<Rightarrow> runtime_error + effect_request" where
  "inputOf en key = (case map_of (en_inputs en) key of
     None \<Rightarrow> Inl (ActorReplayError reconstruction_failed (position en)) | Some input \<Rightarrow> Inr input)"

text \<open>Accepted work that is neither settled nor cancelled.\<close>

definition pending :: "engine \<Rightarrow> runtime_error + (effect_ref \<times> effect_request) list" where
  "pending en =
     map_try (\<lambda>(key, op). try_bind (inputOf en key) (\<lambda>input. Inr (rq_ref (op_request op), input)))
       (filter (\<lambda>(_, op). op_settlement op = None \<and> \<not> op_cancelled op \<and>
           (en_defect en = None \<or> ref_atom (rq_ref (op_request op)) = replies_atom)) (en_operations en))"

record deferred_work =
  dw_ref :: effect_ref
  dw_source :: "string option"
  dw_request :: effect_request
  dw_identity :: nat
  dw_handle :: execution_handle
  dw_deadlineAt :: "nat option"
  dw_unbounded :: bool

text \<open>Work settled with a promise that is not yet settled itself.\<close>

definition deferred_of :: "engine \<Rightarrow> string \<times> stored_operation \<Rightarrow> runtime_error + deferred_work list" where
  "deferred_of en entry = (case entry of (key, op) \<Rightarrow>
     (case op_settlement op of
        None \<Rightarrow> Inr []
      | Some s \<Rightarrow>
          (case es_outcome s of
             Rejected _ \<Rightarrow> Inr []
           | Fulfilled v \<Rightarrow>
               if op_cancelled op \<or> op_promised op then Inr []
               else try_bind (execution_result_of v) (\<lambda>result. case result of
                 ValueResult _ \<Rightarrow> Inr []
               | PromiseResult h d u \<Rightarrow>
                   (case map_of (en_acts en) key of
                      None \<Rightarrow> Inl (ActorReplayError reconstruction_failed (ref_seq (es_ref s)))
                    | Some proposal \<Rightarrow> try_bind (inputOf en key) (\<lambda>input.
                        Inr [\<lparr>dw_ref = es_ref s, dw_source = map_of (en_owners en) (pr_identity proposal), dw_request = input,
                          dw_identity = pr_identity proposal, dw_handle = h, dw_deadlineAt = d, dw_unbounded = u\<rparr>]))))))"

definition deferred :: "engine \<Rightarrow> runtime_error + deferred_work list" where
  "deferred en =
     (if en_defect en \<noteq> None then Inr [] else try_bind (map_try (deferred_of en) (en_operations en)) (\<lambda>ws. Inr (concat ws)))"

record act_cancellation =
  acn_request :: effect_request
  acn_ref :: effect_ref
  acn_reason :: json
  acn_handle :: "execution_handle option"

definition cancelled_of :: "engine \<Rightarrow> string \<times> stored_operation \<Rightarrow> runtime_error + act_cancellation list" where
  "cancelled_of en entry = (case entry of (key, op) \<Rightarrow>
     (case op_cleanup op of
        None \<Rightarrow> Inr []
      | Some c \<Rightarrow>
          try_bind (promise_handle (Some op)) (\<lambda>handle.
          try_bind (inputOf en key) (\<lambda>request.
          Inr [\<lparr>acn_request = request, acn_ref = cancel_ref (cl_request c), acn_reason = cancel_reason (cl_request c), acn_handle = handle\<rparr>]))))"

definition cancelled :: "engine \<Rightarrow> runtime_error + act_cancellation list" where
  "cancelled en = try_bind (map_try (cancelled_of en) (en_operations en)) (\<lambda>ws. Inr (concat ws))"

record snapshot =
  sn_engine :: engine
  sn_work :: "work list"
  sn_pending :: "(effect_ref \<times> effect_request) list"
  sn_deferred :: "deferred_work list"
  sn_cancelled :: "act_cancellation list"

definition snapshotOf :: "'s actor_config \<Rightarrow> engine \<Rightarrow> runtime_error + snapshot" where
  "snapshotOf cfg en =
     try_bind (effects cfg en) (\<lambda>(en, ws).
     try_bind (pending en) (\<lambda>p.
     try_bind (deferred en) (\<lambda>d.
     try_bind (cancelled en) (\<lambda>c.
     Inr \<lparr>sn_engine = en, sn_work = ws, sn_pending = p, sn_deferred = d, sn_cancelled = c\<rparr>))))"

end
