(* ===== verification/EngineInvariants.thy ===== *)
theory EngineInvariants
  imports Engine
begin

text \<open>
  Invariants of the replay engine. \<open>engine_ok\<close> relates the active operations, bindings and inputs to the
  journal: an active operation is the one \<open>recordedOperation\<close> finds, an inactive one is complete, and
  the journal's events of every accepted reference form a \<open>lifecycle\<close> history. The lemmas follow the
  code's steps: proposing work, releasing, admitting a record, finishing a batch, the live append.
\<close>

section \<open>What proposing work leaves alone\<close>

definition core_state where
  "core_state en = (en_journal en, en_operations en, en_retire en, en_available en, en_origins en, en_accepted en,
     en_defect en, en_progress en, en_recovery en)"

definition bindings_ok :: "engine \<Rightarrow> bool" where
  "bindings_ok en \<longleftrightarrow> en_bindings en = en_references en \<and> distinct (map fst (en_references en)) \<and>
     (\<forall>(i, r) \<in> set (en_references en). operation_at en r \<noteq> None) \<and>
     fst ` set (en_acts en) \<subseteq> fst ` set (en_operations en) \<and>
     fst ` set (en_inputs en) \<subseteq> fst ` set (en_operations en)"

lemma bindings_ok_frame [simp]:
  "bindings_ok (en\<lparr>en_proposals := a\<rparr>) = bindings_ok en" "bindings_ok (en\<lparr>en_deliveries := b\<rparr>) = bindings_ok en"
  "bindings_ok (en\<lparr>en_cancellations := c\<rparr>) = bindings_ok en" "bindings_ok (en\<lparr>en_owners := d\<rparr>) = bindings_ok en"
  "bindings_ok (en\<lparr>en_declarations := e\<rparr>) = bindings_ok en" "bindings_ok (en\<lparr>en_journal := f\<rparr>) = bindings_ok en"
  "bindings_ok (en\<lparr>en_retire := g\<rparr>) = bindings_ok en" "bindings_ok (en\<lparr>en_available := h\<rparr>) = bindings_ok en"
  "bindings_ok (en\<lparr>en_origins := i\<rparr>) = bindings_ok en" "bindings_ok (en\<lparr>en_accepted := j\<rparr>) = bindings_ok en"
  "bindings_ok (en\<lparr>en_defect := k\<rparr>) = bindings_ok en" "bindings_ok (en\<lparr>en_progress := l\<rparr>) = bindings_ok en"
  "bindings_ok (en\<lparr>en_recovery := m\<rparr>) = bindings_ok en"
  by (simp_all add: bindings_ok_def operation_at_def)

lemma core_state_frame [simp]:
  "core_state (en\<lparr>en_proposals := a\<rparr>) = core_state en" "core_state (en\<lparr>en_deliveries := b\<rparr>) = core_state en"
  "core_state (en\<lparr>en_cancellations := c\<rparr>) = core_state en" "core_state (en\<lparr>en_owners := d\<rparr>) = core_state en"
  "core_state (en\<lparr>en_declarations := e\<rparr>) = core_state en" "core_state (en\<lparr>en_inputs := f\<rparr>) = core_state en"
  by (simp_all add: core_state_def)

lemma bindings_ok_inputs:
  "bindings_ok en \<Longrightarrow> key \<in> fst ` set (en_operations en) \<Longrightarrow> bindings_ok (en\<lparr>en_inputs := js_set key input (en_inputs en)\<rparr>)"
  by (simp add: bindings_ok_def operation_at_def)

lemma distinct_unbind: "distinct (map fst refs) \<Longrightarrow> distinct (map fst (unbind ids refs))"
  by (induction refs) (auto simp: unbind_def)

lemma set_js_delete: "set (js_delete k xs) = {(k', v) \<in> set xs. k' \<noteq> k}"
  by (auto simp: js_delete_def)

lemma map_of_key: "map_of xs k \<noteq> None \<longleftrightarrow> k \<in> fst ` set xs"
  by (auto simp: map_of_eq_None_iff)

lemma bind_proposal_frame:
  assumes "bind_proposal p ref en = Inr en'"
  shows "core_state en' = core_state en"
    and "bindings_ok en \<Longrightarrow> operation_at en ref \<noteq> None \<Longrightarrow> bindings_ok en'"
proof -
  from assms show "core_state en' = core_state en"
    by (auto simp: bind_proposal_def core_state_def Let_def split: if_splits)
  assume ok: "bindings_ok en" and active: "operation_at en ref \<noteq> None"
  define stale where "stale = bound_identities ref (map_option pr_identity (map_of (en_acts en) (effectKey ref))) (en_references en)"
  from assms have en': "en' = en\<lparr>en_references := js_set (pr_identity p) ref (unbind stale (en_references en)),
      en_acts := js_set (effectKey ref) (case map_of (en_acts en) (effectKey ref) of None \<Rightarrow> p | Some q \<Rightarrow> q) (en_acts en),
      en_bindings := js_set (pr_identity p) ref (unbind stale (en_bindings en))\<rparr>"
    by (auto simp: bind_proposal_def Let_def stale_def split: if_splits)
  have "set (js_set (pr_identity p) ref (unbind stale (en_references en))) \<subseteq> insert (pr_identity p, ref) (set (en_references en))"
    using set_js_set [of "pr_identity p" ref "unbind stale (en_references en)"] by (auto simp: unbind_def)
  moreover have "effectKey ref \<in> fst ` set (en_operations en)"
    using active unfolding operation_at_def map_of_key .
  ultimately show "bindings_ok en'"
    using ok active unfolding bindings_ok_def en' by (auto simp: distinct_unbind operation_at_def)
qed

lemma bind_accepted_frame:
  assumes "bind_accepted cfg p prepared ref assigned en = Inr en'"
  shows "core_state en' = core_state en \<and> (bindings_ok en \<longrightarrow> bindings_ok en')"
proof -
  from assms obtain op where op: "map_of (en_operations en) (effectKey ref) = Some op"
    by (auto simp: bind_accepted_def Let_def split: option.splits)
  from assms op obtain en1 where en1: "en1 = en \<or> (\<exists>input. en1 = en\<lparr>en_inputs := js_set (effectKey ref) input (en_inputs en)\<rparr>)"
    and en': "(if assigned then Inr en1 else bind_proposal p ref en1) = Inr en'"
    by (auto simp: bind_accepted_def Let_def split: if_splits)
  have key: "effectKey ref \<in> fst ` set (en_operations en)" using op by (metis map_of_key option.distinct(1))
  have 1: "core_state en1 = core_state en" "bindings_ok en \<Longrightarrow> bindings_ok en1" "operation_at en1 ref \<noteq> None"
    using en1 key op bindings_ok_inputs [of en] by (auto simp: operation_at_def)
  show ?thesis
  proof (cases assigned)
    case True
    with 1 en' show ?thesis by simp
  next
    case False
    with en' have b: "bind_proposal p ref en1 = Inr en'" by simp
    from bind_proposal_frame(1) [OF b] bind_proposal_frame(2) [OF b] 1 show ?thesis by auto
  qed
qed

lemma propose_act_frame:
  assumes "propose_act cfg path root p en = Inr (en', ws)"
  shows "core_state en' = core_state en \<and> (bindings_ok en \<longrightarrow> bindings_ok en')"
proof -
  let ?en = "\<lambda>stored. en\<lparr>en_owners := js_set (pr_identity p) path (en_owners en),
      en_declarations := js_set (pr_identity p) stored (en_declarations en)\<rparr>"
  show ?thesis
  proof (cases "\<exists>stored. en' = (?en stored)\<lparr>en_proposals := js_set path p (en_proposals en)\<rparr>")
    case True
    then show ?thesis by auto
  next
    case False
    with assms obtain r prepared a where "bind_accepted cfg p prepared r a (?en (snd prepared)) = Inr en'"
      by (auto simp: propose_act_def Let_def split: option.splits)
    from bind_accepted_frame [OF this] show ?thesis by simp
  qed
qed

lemma propose_event_frame:
  "propose_event cfg e en = Inr en' \<Longrightarrow> core_state en' = core_state en \<and> (bindings_ok en \<longrightarrow> bindings_ok en')"
  unfolding propose_event_def by (elim try_bind_eq_Inr [THEN iffD1, elim_format] exE conjE) (case_tac x; auto)

lemma propose_cancel_frame:
  "propose_cancel e en = Inr en' \<Longrightarrow> core_state en' = core_state en \<and> (bindings_ok en \<longrightarrow> bindings_ok en')"
  by (cases e) (auto simp: propose_cancel_def split: if_splits option.splits)

lemma process_candidate_frame:
  assumes "process_candidate cfg c (names, en, ws) = Inr (names', en', ws')"
  shows "core_state en' = core_state en \<and> (bindings_ok en \<longrightarrow> bindings_ok en')"
proof -
  obtain path root p where c: "c = (path, root, p)" by (cases c)
  show ?thesis
  proof (cases p)
    case (EventProposal e)
    with assms c have "propose_event cfg e en = Inr en'" by (auto simp: process_candidate_def split: if_splits)
    then show ?thesis by (rule propose_event_frame)
  next
    case (CancelProposal e)
    with assms c have "propose_cancel e en = Inr en'" by (auto simp: process_candidate_def split: if_splits)
    then show ?thesis by (rule propose_cancel_frame)
  next
    case (ActProposal a)
    with assms c obtain new where "propose_act cfg path root a en = Inr (en', new)"
      by (auto simp: process_candidate_def split: if_splits)
    then show ?thesis by (rule propose_act_frame)
  next
    case UnknownProposal
    with assms c show ?thesis by (simp add: process_candidate_def split: if_splits)
  qed
qed

lemma effects_frame:
  assumes "effects cfg en = Inr (en', ws)"
  shows "core_state en' = core_state en" "bindings_ok en \<Longrightarrow> bindings_ok en'"
proof -
  let ?en = "en\<lparr>en_proposals := [], en_deliveries := [], en_cancellations := []\<rparr>"
  from assms obtain candidates names new where
    fold: "fold_try (process_candidate cfg) candidates ([], ?en, []) = Inr (names, en', new)"
    by (auto simp: effects_def Let_def)
  have "core_state en' = core_state ?en \<and> (bindings_ok ?en \<longrightarrow> bindings_ok en')"
    using fold_try_invariant [OF fold, of "\<lambda>(_, en', _). core_state en' = core_state ?en \<and> (bindings_ok ?en \<longrightarrow> bindings_ok en')"]
      process_candidate_frame by fastforce
  then show "core_state en' = core_state en" "bindings_ok en \<Longrightarrow> bindings_ok en'" by auto
qed

lemma core_stateD:
  "core_state en' = core_state en \<Longrightarrow> en_journal en' = en_journal en \<and> en_operations en' = en_operations en \<and>
     en_retire en' = en_retire en \<and> en_available en' = en_available en \<and> en_origins en' = en_origins en \<and>
     en_accepted en' = en_accepted en \<and> en_defect en' = en_defect en \<and> en_progress en' = en_progress en \<and>
     en_recovery en' = en_recovery en"
  by (simp add: core_state_def)

section \<open>The invariant\<close>

text \<open>The lifecycle events of a reference in a journal, in order.\<close>

definition lifecycle_of :: "effect_ref \<Rightarrow> recorded \<Rightarrow> core_event list" where
  "lifecycle_of ref r = (case rec_event r of
     Core e \<Rightarrow> if concerns ref r \<and> is_lifecycle e then [e] else []
   | _ \<Rightarrow> [])"

definition lifecycle_events :: "effect_ref \<Rightarrow> recorded list \<Rightarrow> core_event list" where
  "lifecycle_events ref rs = concat (map (lifecycle_of ref) rs)"

lemma lifecycle_events_snoc: "lifecycle_events ref (rs @ [r]) = lifecycle_events ref rs @ lifecycle_of ref r"
  by (simp add: lifecycle_events_def)

definition journal_ok :: "recorded list \<Rightarrow> bool" where
  "journal_ok js \<longleftrightarrow> (\<forall>ref op. recordedOperation js ref = Some op \<longrightarrow>
     ref_seq ref < length js \<and> lifecycle (op_request op) (op_recordedAt op) (lifecycle_events ref js) op) \<and>
     (\<forall>ref. recordedOperation js ref = None \<longrightarrow> lifecycle_events ref js = []) \<and>
     (\<forall>i e. i < length js \<longrightarrow> rec_event (js ! i) = Core (EffectRequested e) \<longrightarrow> ref_seq (rq_ref e) = i)"

definition complete :: "stored_operation \<Rightarrow> bool" where
  "complete op \<longleftrightarrow> operationComplete op = Inr True"

lemma journal_ok_Some:
  "journal_ok js \<Longrightarrow> recordedOperation js ref = Some op \<Longrightarrow>
     ref_seq ref < length js \<and> lifecycle (op_request op) (op_recordedAt op) (lifecycle_events ref js) op"
  by (simp add: journal_ok_def)

lemma journal_ok_None: "journal_ok js \<Longrightarrow> recordedOperation js ref = None \<Longrightarrow> lifecycle_events ref js = []"
  unfolding journal_ok_def by blast

definition operations_ok :: "engine \<Rightarrow> bool" where
  "operations_ok en \<longleftrightarrow> distinct (map fst (en_operations en)) \<and>
     (\<forall>(k, op) \<in> set (en_operations en). k = effectKey (op_ref op) \<and>
        recordedOperation (en_journal en) (op_ref op) = Some op \<and> (complete op \<longrightarrow> k \<in> set (en_retire en))) \<and>
     (\<forall>ref op. recordedOperation (en_journal en) ref = Some op \<longrightarrow> operation_at en ref = None \<longrightarrow> complete op)"

definition engine_ok :: "engine \<Rightarrow> bool" where
  "engine_ok en \<longleftrightarrow> journal_ok (en_journal en) \<and> operations_ok en \<and> bindings_ok en"

lemma operation_at_ok:
  "operations_ok en \<Longrightarrow> operation_at en ref = Some op \<Longrightarrow>
     op_ref op = ref \<and> recordedOperation (en_journal en) ref = Some op \<and> (complete op \<longrightarrow> effectKey ref \<in> set (en_retire en))"
  by (fastforce simp: operations_ok_def operation_at_def dest!: map_of_SomeD)

lemma operations_ok_core:
  "core_state en' = core_state en \<Longrightarrow> operations_ok en' = operations_ok en"
  by (drule core_stateD) (simp add: operations_ok_def operation_at_def)

lemma engine_ok_effects: "effects cfg en = Inr (en', ws) \<Longrightarrow> engine_ok en \<Longrightarrow> engine_ok en'"
  using effects_frame [of cfg en en' ws] operations_ok_core [of en' en] core_stateD [of en' en]
  by (auto simp: engine_ok_def)

section \<open>Releasing\<close>

lemma drop_operation_frame:
  "en_journal (drop_operation key op en) = en_journal en" "en_defect (drop_operation key op en) = en_defect en"
  "en_operations (drop_operation key op en) = js_delete key (en_operations en)"
  "en_retire (drop_operation key op en) = removeAll key (en_retire en)"
  by (simp_all add: drop_operation_def Let_def)

lemma unbind_key:
  "distinct (map fst refs) \<Longrightarrow>
     set (unbind (map fst (filter (\<lambda>(_, r). effectKey r = key) refs)) refs) = {(i, r) \<in> set refs. effectKey r \<noteq> key}"
  by (auto simp: unbind_def image_iff dest: eq_key_imp_eq_value)

lemma bindings_ok_drop: "bindings_ok en \<Longrightarrow> bindings_ok (drop_operation key op en)"
  by (auto simp: bindings_ok_def drop_operation_def Let_def distinct_unbind unbind_key operation_at_def)

lemma operations_ok_drop:
  assumes ok: "operations_ok en" and op: "map_of (en_operations en) key = Some op" "complete op"
  shows "operations_ok (drop_operation key op en)"
proof -
  have key: "key = effectKey (op_ref op)" "recordedOperation (en_journal en) (op_ref op) = Some op"
    using ok map_of_SomeD [OF op(1)] by (auto simp: operations_ok_def)
  have "complete op'" if "recordedOperation (en_journal en) ref = Some op'" "operation_at (drop_operation key op en) ref = None" for ref op'
  proof (cases "effectKey ref = key")
    case True
    with key that(1) op(2) show ?thesis by simp
  next
    case False
    with that(2) have "operation_at en ref = None" by (simp add: operation_at_def drop_operation_frame)
    with that(1) ok show ?thesis by (auto simp: operations_ok_def)
  qed
  with ok show ?thesis
    by (auto simp: operations_ok_def drop_operation_frame set_js_delete)
qed

lemma operations_ok_retire:
  assumes "operations_ok en" "\<And>op. map_of (en_operations en) key = Some op \<Longrightarrow> \<not> complete op"
  shows "operations_ok (en\<lparr>en_retire := removeAll key (en_retire en)\<rparr>)"
proof -
  have "k \<noteq> key" if "(k, op) \<in> set (en_operations en)" "complete op" for k op
    using that assms by (auto simp: operations_ok_def)
  with assms(1) show ?thesis by (auto simp: operations_ok_def operation_at_def)
qed

lemma release_key_ok:
  assumes "release_key e key en = Inr en'" "engine_ok en"
  shows "engine_ok en' \<and> en_journal en' = en_journal en \<and> en_defect en' = en_defect en \<and>
    (\<forall>ref. operation_at en' ref = operation_at en ref \<or>
       operation_at en' ref = None \<and> effectKey ref = key \<and> (\<exists>op. operation_at en ref = Some op \<and> complete op))"
proof (cases "map_of (en_operations en) key")
  case None
  with assms have "en' = en \<or> en' = en\<lparr>en_retire := removeAll key (en_retire en)\<rparr>"
    by (auto simp: release_key_def split: if_splits)
  with assms(2) None operations_ok_retire [of en key] show ?thesis by (auto simp: engine_ok_def operation_at_def)
next
  case (Some op)
  with assms consider "en' = en" | "complete op" "en' = drop_operation key op en"
    | "\<not> complete op" "en' = en\<lparr>en_retire := removeAll key (en_retire en)\<rparr>"
    by (auto simp: release_key_def complete_def split: if_splits)
  then show ?thesis
  proof cases
    case 2
    with assms(2) Some operations_ok_drop [of en key op] bindings_ok_drop [of en key op] show ?thesis
      by (auto simp: engine_ok_def operation_at_def drop_operation_frame)
  next
    case 3
    with assms(2) Some operations_ok_retire [of en key] show ?thesis by (auto simp: engine_ok_def operation_at_def)
  qed (use assms in simp)
qed

text \<open>What a release leaves: the journal, and every operation but complete ones.\<close>

definition released :: "engine \<Rightarrow> engine \<Rightarrow> bool" where
  "released en en' \<longleftrightarrow> en_journal en' = en_journal en \<and> en_defect en' = en_defect en \<and>
     (\<forall>ref. operation_at en' ref = operation_at en ref \<or>
        operation_at en' ref = None \<and> (\<exists>op. operation_at en ref = Some op \<and> complete op))"

lemma releasedD: "released en en' \<Longrightarrow> operation_at en' ref = Some op \<Longrightarrow> operation_at en ref = Some op"
  unfolding released_def by (metis option.distinct(1))

lemma released_trans: "released a b \<Longrightarrow> released b c \<Longrightarrow> released a c"
  unfolding released_def by metis

lemma release_keys_ok:
  "fold_try (release_key e) keys en = Inr en' \<Longrightarrow> engine_ok en \<Longrightarrow> engine_ok en' \<and> released en en'"
proof (induction keys arbitrary: en)
  case Nil
  then show ?case by (simp add: released_def)
next
  case (Cons key keys)
  then obtain en1 where step: "release_key e key en = Inr en1" "fold_try (release_key e) keys en1 = Inr en'" by auto
  from release_key_ok [OF step(1) Cons.prems(2)] have "engine_ok en1" "released en en1"
    unfolding released_def by blast+
  with Cons.IH [OF step(2)] released_trans show ?case by blast
qed

lemma release_ok: "release e en = Inr en' \<Longrightarrow> engine_ok en \<Longrightarrow> engine_ok en' \<and> released en en'"
  unfolding release_def by (rule release_keys_ok)

text \<open>A key processed is afterwards inactive or incomplete, unless it awaits its delivery.\<close>

definition awaits_delivery :: "journal_event option \<Rightarrow> string \<Rightarrow> bool" where
  "awaits_delivery e key \<longleftrightarrow> (case e of Some (Core (MessageDelivered m)) \<Rightarrow> key = effectKey (md_ref m) | _ \<Rightarrow> False)"

lemma release_key_done:
  assumes "release_key e (effectKey ref) en = Inr en'" "\<not> awaits_delivery e (effectKey ref)" "operation_at en' ref = Some op"
  shows "\<not> complete op"
proof (cases "map_of (en_operations en) (effectKey ref)")
  case None
  with assms show ?thesis
    by (auto simp: release_key_def awaits_delivery_def operation_at_def)
next
  case (Some op')
  then obtain b where b: "operationComplete op' = Inr b"
    and en': "en' = (if b then drop_operation (effectKey ref) op' en else en\<lparr>en_retire := removeAll (effectKey ref) (en_retire en)\<rparr>)"
    using assms(1,2) by (auto simp: release_key_def awaits_delivery_def)
  with Some assms(3) show ?thesis
    by (cases b) (auto simp: operation_at_def drop_operation_frame complete_def)
qed

lemma release_keys_done:
  "fold_try (release_key e) keys en = Inr en' \<Longrightarrow> engine_ok en \<Longrightarrow> effectKey ref \<in> set keys \<Longrightarrow>
     \<not> awaits_delivery e (effectKey ref) \<Longrightarrow> operation_at en' ref = Some op \<Longrightarrow> \<not> complete op"
proof (induction keys arbitrary: en)
  case (Cons key keys)
  then obtain en1 where step: "release_key e key en = Inr en1" "fold_try (release_key e) keys en1 = Inr en'" by auto
  have ok: "engine_ok en1" using release_key_ok [OF step(1) Cons.prems(2)] by blast
  have "operation_at en1 ref = Some op"
    using release_keys_ok [OF step(2) ok] Cons.prems(5) releasedD by blast
  then show ?case
    using Cons step release_key_done [of e ref en en1 op] Cons.IH [OF step(2) ok] by (cases "effectKey ref = key") auto
qed simp

lemma release_done:
  assumes "release e en = Inr en'" "engine_ok en" "\<not> awaits_delivery e (effectKey ref)" "operation_at en' ref = Some op"
  shows "\<not> complete op"
proof (cases "effectKey ref \<in> set (en_retire en)")
  case True
  with assms release_keys_done show ?thesis unfolding release_def by blast
next
  case False
  have "operation_at en ref = Some op" using release_ok [OF assms(1,2)] assms(4) releasedD by blast
  with assms(2) False operation_at_ok show ?thesis unfolding engine_ok_def by blast
qed

section \<open>Lifecycle events\<close>

text \<open>An operation that an admitted event completes is put up for release.\<close>

lemma unfinished_incomplete:
  "unfinished op m = Inr u \<Longrightarrow> op_cleanup op = None \<and> ex_promise (op_execution op) = None \<and>
     settlementCompletesExecution (op_settlement op) = Inr False"
  by (auto simp: unfinished_def op_cancelled_def op_promised_def split: if_splits)

lemma lifecycle_event_complete:
  assumes step: "lifecycle_event (Some op) e = Inr (op', c)" and new: "\<And>e'. e = EffectCancelled e' \<Longrightarrow> \<not> op_cancelled op"
    and incomplete: "\<not> complete op"
  shows "complete op' \<Longrightarrow> c = RetireAdd" "c = RetireDelete \<Longrightarrow> \<not> complete op'"
proof -
  have "(complete op' \<longrightarrow> c = RetireAdd) \<and> (c = RetireDelete \<longrightarrow> \<not> complete op')"
  proof (cases e)
    case (EffectDied d)
    with step show ?thesis by (auto simp: lifecycle_died_def)
  next
    case (RetryScheduled x)
    show ?thesis
    proof (cases "rs_phase x = Some CancellationPhase")
      case True
      with step RetryScheduled incomplete show ?thesis
        by (auto simp: lifecycle_retry_def complete_def operationComplete_def update_cleanup_def op_cancelled_def
                 op_cleanup_outcome_def cleanupSucceeded_def split: option.splits)
    next
      case False
      with step RetryScheduled obtain u where "unfinished op ''Retry requires pending accepted work'' = Inr u"
        and op': "op' = update_execution (\<lambda>f. f\<lparr>ex_retry := Some x\<rparr>) op" and "c = RetireKeep"
        by (auto simp: lifecycle_retry_def)
      moreover have "complete op' = complete op"
        unfolding op' by (auto simp: complete_def operationComplete_def update_execution_def operationSettlement_def split: option.splits execution_outcome.splits)
      ultimately show ?thesis using incomplete by simp
    qed
  next
    case (EffectCancelled x)
    with step new show ?thesis
      by (auto simp: lifecycle_cancelled_def request_cleanup_def complete_def operationComplete_def cleanup_of_def
               cleanupSucceeded_def op_cancelled_def split: option.splits)
  next
    case (CleanupOutcome x)
    with step show ?thesis
      by (auto simp: lifecycle_cleanup_def complete_def operationComplete_def update_cleanup_def op_cancelled_def split: if_splits)
  next
    case (EffectSettled x)
    show ?thesis
    proof (cases "op_cancelled op")
      case True
      with step EffectSettled show ?thesis
        by (auto simp: lifecycle_settled_def complete_def operationComplete_def update_execution_def op_cancelled_def
                 op_cleanup_outcome_def split: if_splits)
    next
      case False
      with step EffectSettled obtain b where b: "settlementCompletesExecution (Some x) = Inr b" "c = (if b then RetireAdd else RetireKeep)"
        and op': "op' = update_execution (\<lambda>f. f\<lparr>ex_outcome := Some (SettledOutcome x)\<rparr>) op"
        by (auto simp: lifecycle_settled_def split: if_splits)
      have "ex_promise (op_execution op) \<noteq> None \<Longrightarrow> complete op"
        using False by (auto simp: complete_def operationComplete_def op_cancelled_def split: option.splits execution_outcome.splits)
      with incomplete have "complete op' \<longleftrightarrow> b"
        using False b by (auto simp: op' complete_def operationComplete_def update_execution_def op_cancelled_def operationSettlement_def)
      with b show ?thesis by auto
    qed
  next
    case (PromiseSettled x)
    show ?thesis
    proof (cases "op_cleanup op")
      case None
      with step PromiseSettled show ?thesis
        by (auto simp: lifecycle_promise_def op_cancelled_def split: if_splits)
    next
      case (Some cl)
      with step PromiseSettled have "op' = update_execution (\<lambda>f. f\<lparr>ex_promise := Some x\<rparr>) op" "c = RetireKeep"
        by (auto simp: lifecycle_promise_def op_cancelled_def split: if_splits)
      with incomplete Some show ?thesis by (auto simp: complete_def operationComplete_def update_execution_def)
    qed
  qed (use step in auto)
  then show "complete op' \<Longrightarrow> c = RetireAdd" "c = RetireDelete \<Longrightarrow> \<not> complete op'" by blast+
qed

subsection \<open>Applying a lifecycle event\<close>

lemma withdraw_work_frame [simp]:
  "en_operations (withdraw_work e key en) = en_operations en" "en_retire (withdraw_work e key en) = en_retire en"
  "en_journal (withdraw_work e key en) = en_journal en" "en_defect (withdraw_work e key en) = en_defect en"
  "bindings_ok (withdraw_work e key en) = bindings_ok en"
  by (simp_all add: withdraw_work_def)

lemma latch_defect_frame [simp]:
  "en_operations (latch_defect e en) = en_operations en" "en_retire (latch_defect e en) = en_retire en"
  "en_journal (latch_defect e en) = en_journal en" "bindings_ok (latch_defect e en) = bindings_ok en"
  by (cases e; simp add: latch_defect_def)+

lemma change_retire_frame [simp]:
  "en_operations (change_retire key c en) = en_operations en" "en_journal (change_retire key c en) = en_journal en"
  "en_defect (change_retire key c en) = en_defect en" "bindings_ok (change_retire key c en) = bindings_ok en"
  by (cases c; simp add: change_retire_def)+

lemma set_change_retire:
  "set (en_retire (change_retire key c en)) = (case c of
     RetireAdd \<Rightarrow> insert key (set (en_retire en)) | RetireDelete \<Rightarrow> set (en_retire en) - {key} | RetireKeep \<Rightarrow> set (en_retire en))"
  by (cases c) (auto simp: change_retire_def)

lemma bindings_ok_put: "bindings_ok en \<Longrightarrow> bindings_ok (put_operation key op en)"
  by (auto simp: bindings_ok_def put_operation_def operation_at_def)

lemma operation_at_put:
  "operation_at (put_operation (effectKey ref) op en) ref' = (if ref' = ref then Some op else operation_at en ref')"
  by (simp add: operation_at_def put_operation_def)

text \<open>The engine with the event applied, together with its record in the journal, is again well-formed.\<close>

definition valid_record :: "recorded \<Rightarrow> bool" where
  "valid_record r \<longleftrightarrow> (case rec_event r of Core e \<Rightarrow> core_event_ok e | _ \<Rightarrow> True)"

lemma lifecycle_of_other [simp]: "\<not> concerns ref r \<Longrightarrow> lifecycle_of ref r = []"
  by (auto simp: lifecycle_of_def split: journal_event.splits)

lemma journal_ok_snoc:
  assumes "journal_ok js"
    and "\<And>ref op. concerns ref r \<Longrightarrow> recordedOperation (js @ [r]) ref = Some op \<Longrightarrow>
      ref_seq ref \<le> length js \<and> lifecycle (op_request op) (op_recordedAt op) (lifecycle_events ref (js @ [r])) op"
    and "\<And>ref. concerns ref r \<Longrightarrow> recordedOperation (js @ [r]) ref = None \<Longrightarrow> lifecycle_events ref (js @ [r]) = []"
    and "\<And>e. rec_event r = Core (EffectRequested e) \<Longrightarrow> ref_seq (rq_ref e) = length js"
  shows "journal_ok (js @ [r])"
proof -
  have "ref_seq ref < length (js @ [r]) \<and> lifecycle (op_request op) (op_recordedAt op) (lifecycle_events ref (js @ [r])) op"
    if op: "recordedOperation (js @ [r]) ref = Some op" for ref op
  proof (cases "concerns ref r")
    case True
    with assms(2) op show ?thesis by (simp add: less_Suc_eq_le)
  next
    case False
    with op have "recordedOperation js ref = Some op" by (simp add: recordedOperation_snoc)
    with False assms(1) show ?thesis by (auto simp: journal_ok_def lifecycle_events_snoc less_Suc_eq)
  qed
  moreover have "lifecycle_events ref (js @ [r]) = []" if "recordedOperation (js @ [r]) ref = None" for ref
  proof (cases "concerns ref r")
    case True
    with assms(3) that show ?thesis by simp
  next
    case False
    with that have "recordedOperation js ref = None" by (simp add: recordedOperation_snoc)
    with False journal_ok_None [OF assms(1)] show ?thesis by (simp add: lifecycle_events_snoc)
  qed
  moreover have "ref_seq (rq_ref e) = i" if "i < length (js @ [r])" "rec_event ((js @ [r]) ! i) = Core (EffectRequested e)" for i e
    using that assms(1,4) by (cases "i < length js") (auto simp: journal_ok_def nth_append less_Suc_eq)
  ultimately show ?thesis unfolding journal_ok_def by blast
qed

lemma journal_ok_lifecycle:
  assumes "journal_ok js" "valid_record r" "rec_event r = Core e" "event_ref e = Some ref"
    and "recordedOperation js ref = Some op" "\<not> complete op"
    and "lifecycle_event (Some op) e = Inr (op', c)" "\<And>e'. e = EffectCancelled e' \<Longrightarrow> \<not> op_cancelled op"
  shows "journal_ok (js @ [r])" "recordedOperation (js @ [r]) ref = Some op'"
proof -
  have kind: "is_lifecycle e" using assms(7) by (cases e) auto
  have con: "concerns ref' r \<longleftrightarrow> ref' = ref" for ref'
    using assms(2-4) by (auto simp: concerns_Core valid_record_def)
  have op': "op' = operation_event e op" using assms(7,8) by (rule lifecycle_event_agrees)
  show rec: "recordedOperation (js @ [r]) ref = Some op'"
    using con assms(3,5) kind unfolding op'
    by (cases e) (simp_all add: recordedOperation_snoc operation_record_def)
  have "ref_seq ref \<le> length js \<and> lifecycle (op_request op') (op_recordedAt op') (lifecycle_events ref (js @ [r])) op'"
  proof -
    from assms(1,5) have "ref_seq ref < length js" and l: "lifecycle (op_request op) (op_recordedAt op) (lifecycle_events ref js) op"
      by (simp_all add: journal_ok_def)
    moreover have "lifecycle_of ref r = [e]" using con assms(3) kind by (simp add: lifecycle_of_def)
    ultimately show ?thesis
      using lifecycle_step [OF l _ _ assms(7)] assms(6,8) by (auto simp: op' lifecycle_events_snoc complete_def)
  qed
  with con rec kind assms(3) show "journal_ok (js @ [r])" by (intro journal_ok_snoc [OF assms(1)]) auto
qed

text \<open>The active operations once a record of the reference is in the journal.\<close>

lemma operations_ok_put:
  assumes ok: "operations_ok en" and ref: "op_ref op = ref"
    and rec: "recordedOperation (en_journal en @ [r]) ref = Some op"
    and other: "\<And>ref'. ref' \<noteq> ref \<Longrightarrow> \<not> concerns ref' r"
    and ops: "en_operations en' = js_set (effectKey ref) op (en_operations en)"
    and journal: "en_journal en' = en_journal en @ [r]"
    and retire: "\<And>key. key \<noteq> effectKey ref \<Longrightarrow> key \<in> set (en_retire en) \<Longrightarrow> key \<in> set (en_retire en')"
    and released: "complete op \<Longrightarrow> effectKey ref \<in> set (en_retire en')"
  shows "operations_ok en'"
proof -
  have same: "recordedOperation (en_journal en @ [r]) ref' = recordedOperation (en_journal en) ref'" if "ref' \<noteq> ref" for ref'
    using other [OF that] by (simp add: recordedOperation_snoc)
  have dist: "distinct (map fst (en_operations en))" using ok by (simp add: operations_ok_def)
  have mem: "(k, o') \<in> set (js_set (effectKey ref) op (en_operations en)) \<Longrightarrow>
      k = effectKey ref \<and> o' = op \<or> k \<noteq> effectKey ref \<and> (k, o') \<in> set (en_operations en)" for k o'
  proof -
    assume "(k, o') \<in> set (js_set (effectKey ref) op (en_operations en))"
    then have "map_of (js_set (effectKey ref) op (en_operations en)) k = Some o'"
      by (rule map_of_is_SomeI [OF distinct_js_set [OF dist]])
    then show ?thesis by (auto split: if_splits dest: map_of_SomeD)
  qed
  have "k = effectKey (op_ref o') \<and> recordedOperation (en_journal en') (op_ref o') = Some o' \<and>
      (complete o' \<longrightarrow> k \<in> set (en_retire en'))" if "(k, o') \<in> set (en_operations en')" for k o'
  proof -
    from mem that consider "k = effectKey ref" "o' = op" | "k \<noteq> effectKey ref" "(k, o') \<in> set (en_operations en)"
      unfolding ops by blast
    then show ?thesis
    proof cases
      case 1
      with ref rec released show ?thesis by (simp add: journal)
    next
      case 2
      with ok have "k = effectKey (op_ref o')" "recordedOperation (en_journal en) (op_ref o') = Some o'"
        "complete o' \<Longrightarrow> k \<in> set (en_retire en)" by (auto simp: operations_ok_def)
      with 2 same [of "op_ref o'"] retire [of k] show ?thesis by (simp add: journal)
    qed
  qed
  moreover have "complete o'" if "recordedOperation (en_journal en') ref' = Some o'" "operation_at en' ref' = None" for ref' o'
  proof -
    from that(2) have "ref' \<noteq> ref" "operation_at en ref' = None"
      by (auto simp: operation_at_def ops split: if_splits)
    with that(1) same ok show ?thesis by (auto simp: journal operations_ok_def)
  qed
  ultimately show ?thesis using dist by (auto simp: operations_ok_def ops)
qed

lemma apply_lifecycle_ok:
  assumes applied: "apply_lifecycle e ref en = Inr en'" and ok: "engine_ok en"
    and r: "valid_record r" "rec_event r = Core e" "event_ref e = Some ref"
    and incomplete: "\<And>op. operation_at en ref = Some op \<Longrightarrow> \<not> complete op"
    and new: "\<And>e' op. e = EffectCancelled e' \<Longrightarrow> operation_at en ref = Some op \<Longrightarrow> \<not> op_cancelled op"
  shows "engine_ok (append_record r en')"
proof -
  from applied obtain op' c where step: "lifecycle_event (operation_at en ref) e = Inr (op', c)"
    and en': "en' = latch_defect e (withdraw_work e (effectKey ref) (change_retire (effectKey ref) c (put_operation (effectKey ref) op' en)))"
    by (auto simp: apply_lifecycle_def)
  then obtain op where op: "operation_at en ref = Some op" using lifecycle_event_Some by blast
  with step have step': "lifecycle_event (Some op) e = Inr (op', c)" by simp
  from ok op have op_ok: "op_ref op = ref" "recordedOperation (en_journal en) ref = Some op" "journal_ok (en_journal en)"
    using operation_at_ok by (auto simp: engine_ok_def)
  have fresh: "\<And>e'. e = EffectCancelled e' \<Longrightarrow> \<not> op_cancelled op" using new op by blast
  note inc = incomplete [OF op]
  have jok: "journal_ok (en_journal en @ [r])" and rec: "recordedOperation (en_journal en @ [r]) ref = Some op'"
    by (rule journal_ok_lifecycle [OF op_ok(3) r op_ok(2) inc step'], erule fresh)+
  have "operations_ok (append_record r en')"
  proof (rule operations_ok_put [of en op' ref r])
    show "operations_ok en" using ok by (simp add: engine_ok_def)
    show "op_ref op' = ref" using lifecycle_event_identity [OF step'] op_ok(1) by simp
    show "recordedOperation (en_journal en @ [r]) ref = Some op'" by (rule rec)
    show "\<not> concerns ref' r" if "ref' \<noteq> ref" for ref' using that r by (auto simp: concerns_Core)
    show "en_operations (append_record r en') = js_set (effectKey ref) op' (en_operations en)"
      by (simp add: append_record_def en' put_operation_def)
    show "en_journal (append_record r en') = en_journal en @ [r]"
      by (simp add: append_record_def en' put_operation_def)
    show "key \<in> set (en_retire (append_record r en'))" if "key \<noteq> effectKey ref" "key \<in> set (en_retire en)" for key
      using that by (cases c) (simp_all add: append_record_def en' set_change_retire put_operation_def)
    show "effectKey ref \<in> set (en_retire (append_record r en'))" if "complete op'"
      using lifecycle_event_complete(1) [OF step' fresh inc that]
      by (simp add: append_record_def en' set_change_retire put_operation_def)
  qed
  moreover have "bindings_ok (append_record r en')"
    using ok bindings_ok_put [of en "effectKey ref" op'] by (simp add: engine_ok_def append_record_def en')
  ultimately show ?thesis using jok by (simp add: engine_ok_def append_record_def en' put_operation_def)
qed

section \<open>Accepting a request\<close>

lemma requested_incomplete: "\<not> complete (requested_operation e t)"
  by (simp add: complete_def operationComplete_def requested_operation_def no_execution_def operationSettlement_def
      settlementCompletesExecution_def)

lemma journal_ok_requested:
  assumes "journal_ok js" "valid_record r" "rec_event r = Core (EffectRequested e)" "ref_seq (rq_ref e) = length js"
  shows "journal_ok (js @ [r])" "recordedOperation (js @ [r]) (rq_ref e) = Some (requested_operation e (rm_recordedAt r))"
proof -
  have con: "concerns ref r \<longleftrightarrow> ref = rq_ref e" for ref using assms(2,3) by (auto simp: concerns_Core valid_record_def)
  show rec: "recordedOperation (js @ [r]) (rq_ref e) = Some (requested_operation e (rm_recordedAt r))"
    using con assms(3) by (simp add: recordedOperation_snoc operation_record_def)
  have "recordedOperation js (rq_ref e) = None"
    using journal_ok_Some [OF assms(1), of "rq_ref e"] assms(4) by (cases "recordedOperation js (rq_ref e)") auto
  then have "lifecycle_events (rq_ref e) js = []" by (rule journal_ok_None [OF assms(1)])
  moreover have "lifecycle_of (rq_ref e) r = []" using assms(3) by (simp add: lifecycle_of_def)
  ultimately have "lifecycle_events (rq_ref e) (js @ [r]) = []" by (simp add: lifecycle_events_snoc)
  with lifecycle_start [of e "rm_recordedAt r"] have "lifecycle (op_request (requested_operation e (rm_recordedAt r)))
      (op_recordedAt (requested_operation e (rm_recordedAt r))) (lifecycle_events (rq_ref e) (js @ [r])) (requested_operation e (rm_recordedAt r))"
    by (simp add: requested_operation_def)
  with con rec assms(3,4) show "journal_ok (js @ [r])" by (intro journal_ok_snoc [OF assms(1)]) auto
qed

lemma rememberOrigin_frame:
  "rememberOrigin e en = Inr en' \<Longrightarrow> \<exists>os. en' = en\<lparr>en_origins := os\<rparr>"
  by (auto simp: rememberOrigin_def Let_def)

lemma accept_request_steps:
  assumes "accept_request cfg r e en = Inr en'"
  obtains en1 ws os input proposal en2 acc where "ref_seq (rq_ref e) = position en" "effects cfg en = Inr (en1, ws)"
    "bind_proposal proposal (rq_ref e)
       (put_operation (effectKey (rq_ref e)) (requested_operation e (rm_recordedAt r)) (en1\<lparr>en_origins := os\<rparr>)
         \<lparr>en_inputs := js_set (effectKey (rq_ref e)) input (en_inputs en1)\<rparr>) = Inr en2"
    "en' = en2\<lparr>en_accepted := acc\<rparr>"
proof -
  from assms obtain en1 ws where seq: "ref_seq (rq_ref e) = position en" and eff: "effects cfg en = Inr (en1, ws)"
    by (auto simp: accept_request_def Let_def)
  with assms obtain offered where "filter (offers e) ws = [offered]"
    by (auto simp: accept_request_def Let_def split: list.splits)
  with assms eff obtain input proposal en2 en3 where "rememberOrigin e en1 = Inr en2"
    "bind_proposal proposal (rq_ref e)
       (put_operation (effectKey (rq_ref e)) (requested_operation e (rm_recordedAt r)) en2
         \<lparr>en_inputs := js_set (effectKey (rq_ref e)) input (en_inputs en2)\<rparr>) = Inr en3"
    and en': "\<exists>acc. en' = en3\<lparr>en_accepted := acc\<rparr>"
    by (auto simp: accept_request_def Let_def put_operation_def split: option.splits) blast
  moreover obtain os where "en2 = en1\<lparr>en_origins := os\<rparr>" using calculation rememberOrigin_frame by blast
  ultimately show ?thesis using that [OF seq eff] by auto
qed

lemma accept_request_ok:
  assumes accepted: "accept_request cfg r e en = Inr en'" and ok: "engine_ok en"
    and r: "valid_record r" "rec_event r = Core (EffectRequested e)"
  shows "engine_ok (append_record r en')"
proof -
  from accepted obtain en1 ws os input proposal en2 acc where seq: "ref_seq (rq_ref e) = position en"
    and eff: "effects cfg en = Inr (en1, ws)"
    and bound: "bind_proposal proposal (rq_ref e)
       (put_operation (effectKey (rq_ref e)) (requested_operation e (rm_recordedAt r)) (en1\<lparr>en_origins := os\<rparr>)
         \<lparr>en_inputs := js_set (effectKey (rq_ref e)) input (en_inputs en1)\<rparr>) = Inr en2"
    and en': "en' = en2\<lparr>en_accepted := acc\<rparr>"
    by (rule accept_request_steps)
  let ?op = "requested_operation e (rm_recordedAt r)"
  let ?en = "put_operation (effectKey (rq_ref e)) ?op (en1\<lparr>en_origins := os\<rparr>)
         \<lparr>en_inputs := js_set (effectKey (rq_ref e)) input (en_inputs en1)\<rparr>"
  from engine_ok_effects [OF eff ok] have ok1: "engine_ok en1" .
  have same: "en_journal en1 = en_journal en" using core_stateD effects_frame(1) [OF eff] by blast
  from core_stateD [OF bind_proposal_frame(1) [OF bound]]
  have frame: "en_journal en2 = en_journal en" "en_operations en2 = js_set (effectKey (rq_ref e)) ?op (en_operations en1)"
    "en_retire en2 = en_retire en1"
    using same by (simp_all add: put_operation_def)
  have jok: "journal_ok (en_journal en @ [r])" and rec: "recordedOperation (en_journal en @ [r]) (rq_ref e) = Some ?op"
    using ok r seq by (auto intro!: journal_ok_requested simp: engine_ok_def position_def)
  have "operations_ok (append_record r en')"
  proof (rule operations_ok_put [of en1 ?op "rq_ref e" r])
    show "operations_ok en1" using ok1 by (simp add: engine_ok_def)
    show "op_ref ?op = rq_ref e" by (simp add: requested_operation_def)
    show "recordedOperation (en_journal en1 @ [r]) (rq_ref e) = Some ?op" using rec same by simp
    show "\<not> concerns ref' r" if "ref' \<noteq> rq_ref e" for ref' using that r by (auto simp: concerns_Core)
    show "en_operations (append_record r en') = js_set (effectKey (rq_ref e)) ?op (en_operations en1)"
      by (simp add: append_record_def en' frame)
    show "en_journal (append_record r en') = en_journal en1 @ [r]" by (simp add: append_record_def en' frame same)
    show "key \<in> set (en_retire (append_record r en'))" if "key \<noteq> effectKey (rq_ref e)" "key \<in> set (en_retire en1)" for key
      using that by (simp add: append_record_def en' frame)
    show "effectKey (rq_ref e) \<in> set (en_retire (append_record r en'))" if "complete ?op"
      using that requested_incomplete by blast
  qed
  moreover have "bindings_ok ?en"
    using ok1 bindings_ok_put [of "en1\<lparr>en_origins := os\<rparr>" "effectKey (rq_ref e)" ?op]
      bindings_ok_inputs [of "put_operation (effectKey (rq_ref e)) ?op (en1\<lparr>en_origins := os\<rparr>)" "effectKey (rq_ref e)" input]
    by (simp add: engine_ok_def put_operation_def)
  then have "bindings_ok en2"
    by (rule bind_proposal_frame(2) [OF bound]) (simp add: operation_at_def put_operation_def)
  then have "bindings_ok (append_record r en')" by (simp add: append_record_def en')
  ultimately show ?thesis using jok by (simp add: engine_ok_def append_record_def en' frame)
qed

section \<open>Admitting a record\<close>

text \<open>A record that neither requests nor moves an operation.\<close>

definition neutral :: "recorded \<Rightarrow> bool" where
  "neutral r \<longleftrightarrow> (\<forall>e. rec_event r = Core e \<longrightarrow> \<not> is_lifecycle e \<and> \<not> is_requested e)"

lemma neutral_operation: "neutral r \<Longrightarrow> operation_record ref r op = op"
proof -
  assume n: "neutral r"
  have "map_option (operation_event e) op = op" if "\<not> is_lifecycle e" "\<not> is_requested e" for e
    using that by (cases e; cases op) auto
  with n show ?thesis
    by (cases rule: operation_record_cases [of ref r]) (auto simp: neutral_def)
qed

lemma neutral_recorded: "neutral r \<Longrightarrow> recordedOperation (js @ [r]) ref = recordedOperation js ref"
  by (simp add: recordedOperation_snoc neutral_operation)

lemma neutral_events: "neutral r \<Longrightarrow> lifecycle_events ref (js @ [r]) = lifecycle_events ref js"
  by (auto simp: lifecycle_events_snoc lifecycle_of_def neutral_def split: journal_event.splits)

lemma journal_ok_neutral: "neutral r \<Longrightarrow> journal_ok js \<Longrightarrow> journal_ok (js @ [r])"
proof (rule journal_ok_snoc)
  assume n: "neutral r" and js: "journal_ok js"
  show "ref_seq ref \<le> length js \<and> lifecycle (op_request op) (op_recordedAt op) (lifecycle_events ref (js @ [r])) op"
    if "recordedOperation (js @ [r]) ref = Some op" for ref op
    using journal_ok_Some [OF js, of ref op] that by (simp add: neutral_recorded [OF n] neutral_events [OF n])
  show "lifecycle_events ref (js @ [r]) = []" if "recordedOperation (js @ [r]) ref = None" for ref
    using journal_ok_None [OF js, of ref] that by (simp add: neutral_recorded [OF n] neutral_events [OF n])
  show "ref_seq (rq_ref e) = length js" if "rec_event r = Core (EffectRequested e)" for e
    using n that by (simp add: neutral_def)
qed

lemma engine_ok_neutral: "neutral r \<Longrightarrow> engine_ok en \<Longrightarrow> engine_ok (append_record r en)"
  by (auto simp: engine_ok_def append_record_def journal_ok_neutral operations_ok_def neutral_recorded operation_at_def)

lemma engine_ok_progress [simp]: "engine_ok (append_record r (advance_progress e en)) = engine_ok (append_record r en)"
  by (simp add: advance_progress_def append_record_def engine_ok_def operations_ok_def operation_at_def)

lemma record_appended_ok:
  "record_appended cfg r en = Inr en' \<Longrightarrow> engine_ok (append_record r en) \<Longrightarrow>
     engine_ok en' \<and> core_state en' = core_state (append_record r en)"
  by (auto simp: record_appended_def engine_ok_effects effects_frame(1))

text \<open>A record that is neither a second request of an active operation nor a second cancellation.\<close>

definition new_record :: "engine \<Rightarrow> recorded \<Rightarrow> bool" where
  "new_record en r \<longleftrightarrow>
     (\<forall>e. rec_event r = Core (EffectRequested e) \<longrightarrow> operation_at en (rq_ref e) = None) \<and>
     (\<forall>e op. rec_event r = Core (EffectCancelled e) \<longrightarrow> operation_at en (cancel_ref e) = Some op \<longrightarrow> \<not> op_cancelled op)"

lemma engine_append_lifecycle:
  assumes "engine_append cfg r en = Inr en'" "rec_event r = Core e" "is_lifecycle e" "event_ref e = Some ref"
  obtains en1 en2 where "release (Some (Core e)) en = Inr en1" "apply_lifecycle e ref en1 = Inr en2"
    "record_appended cfg r (advance_progress (Core e) en2) = Inr en'"
  using assms by (cases e) (auto simp: engine_append_def check_origin_events_def)

lemma engine_append_ok:
  assumes step: "engine_append cfg r en = Inr en'" and ok: "engine_ok en" and r: "valid_record r" "new_record en r"
  shows "engine_ok en' \<and> en_journal en' = en_journal en @ [r]"
proof -
  from step obtain en1 where rel: "release (Some (rec_event r)) en = Inr en1" by (auto simp: engine_append_def)
  from release_ok [OF rel ok] have ok1: "engine_ok en1" and rel': "released en en1" by auto
  then have journal1: "en_journal en1 = en_journal en" by (simp add: released_def)
  have done1: "engine_ok en' \<and> en_journal en' = en_journal en @ [r]"
    if "neutral r" "record_appended cfg r en1 = Inr en'"
    using record_appended_ok [OF that(2) engine_ok_neutral [OF that(1) ok1]] journal1
    by (auto simp: append_record_def dest: core_stateD)
  show ?thesis
  proof (cases "rec_event r")
    case (Core e)
    consider (request) q where "e = EffectRequested q" | (life) ref where "is_lifecycle e" "event_ref e = Some ref"
      | (host) "\<not> is_lifecycle e" "\<not> is_requested e"
      by (cases e) auto
    then show ?thesis
    proof cases
      case request
      with r Core have "operation_at en (rq_ref q) = None" by (simp add: new_record_def)
      with releasedD [OF rel'] have none: "operation_at en1 (rq_ref q) = None"
        by (metis not_None_eq)
      with step rel Core request obtain en2 where acc: "accept_request cfg r q en1 = Inr en2"
        and app: "record_appended cfg r en2 = Inr en'"
        by (auto simp: engine_append_def)
      have ok2: "engine_ok (append_record r en2)"
        using accept_request_ok [OF acc ok1 r(1)] Core request by simp
      have "en_journal en2 = en_journal en1"
      proof -
        from acc obtain en3 ws os input proposal en4 accs where eff: "effects cfg en1 = Inr (en3, ws)"
          and bound: "bind_proposal proposal (rq_ref q) (put_operation (effectKey (rq_ref q)) (requested_operation q (rm_recordedAt r))
             (en3\<lparr>en_origins := os\<rparr>)\<lparr>en_inputs := js_set (effectKey (rq_ref q)) input (en_inputs en3)\<rparr>) = Inr en4"
          and "en2 = en4\<lparr>en_accepted := accs\<rparr>" by (rule accept_request_steps)
        with core_stateD [OF effects_frame(1) [OF eff]] core_stateD [OF bind_proposal_frame(1) [OF bound]] show ?thesis
          by (simp add: put_operation_def)
      qed
      with record_appended_ok [OF app ok2] journal1 show ?thesis by (auto simp: append_record_def dest: core_stateD)
    next
      case life
      from engine_append_lifecycle [OF step Core life] rel Core obtain en2 where
        app: "apply_lifecycle e ref en1 = Inr en2" and rec: "record_appended cfg r (advance_progress (Core e) en2) = Inr en'"
        by auto
      have "\<not> awaits_delivery (Some (rec_event r)) (effectKey ref)"
        using Core life(1) by (cases e) (auto simp: awaits_delivery_def)
      then have inc: "\<And>op. operation_at en1 ref = Some op \<Longrightarrow> \<not> complete op" using release_done [OF rel ok] by blast
      have new: "\<And>e' op. e = EffectCancelled e' \<Longrightarrow> operation_at en1 ref = Some op \<Longrightarrow> \<not> op_cancelled op"
        using r(2) Core life releasedD [OF rel'] by (auto simp: new_record_def)
      have ok2: "engine_ok (append_record r (advance_progress (Core e) en2))"
        using apply_lifecycle_ok [OF app ok1 r(1) Core life(2) inc new] by simp
      have "en_journal (advance_progress (Core e) en2) = en_journal en1"
        using app by (auto simp: apply_lifecycle_def advance_progress_def put_operation_def)
      with record_appended_ok [OF rec ok2] journal1 show ?thesis by (auto simp: append_record_def dest: core_stateD)
    next
      case host
      with step rel Core have "record_appended cfg r en1 = Inr en' \<or> record_appended cfg r (advance_progress (Core e) en1) = Inr en'"
        by (cases e) (auto simp: engine_append_def)
      moreover have "advance_progress (Core e) en1 = en1" using host by (cases e) (auto simp: advance_progress_def)
      moreover have "neutral r" using Core host by (simp add: neutral_def)
      ultimately show ?thesis using done1 by auto
    qed
  next
    case (MessageReceived b)
    with step rel done1 show ?thesis by (auto simp: engine_append_def neutral_def)
  next
    case (Domain j)
    with step rel done1 show ?thesis by (auto simp: engine_append_def neutral_def)
  qed
qed

text \<open>Only a defect changes the defect, and only the first one.\<close>

definition defect_after :: "journal_event \<Rightarrow> effect_died option \<Rightarrow> effect_died option" where
  "defect_after e d = (case (e, d) of (Core (EffectDied d'), None) \<Rightarrow> Some d' | _ \<Rightarrow> d)"

lemma record_appended_defect: "record_appended cfg r en = Inr en' \<Longrightarrow> en_defect en' = en_defect en"
  by (auto simp: record_appended_def append_record_def dest!: effects_frame(1) core_stateD)

lemma accept_request_defect:
  assumes "accept_request cfg r e en = Inr en'"
  shows "en_defect en' = en_defect en"
proof -
  from assms obtain en1 ws os input proposal en2 acc where eff: "effects cfg en = Inr (en1, ws)"
    and bound: "bind_proposal proposal (rq_ref e) (put_operation (effectKey (rq_ref e)) (requested_operation e (rm_recordedAt r))
       (en1\<lparr>en_origins := os\<rparr>)\<lparr>en_inputs := js_set (effectKey (rq_ref e)) input (en_inputs en1)\<rparr>) = Inr en2"
    and "en' = en2\<lparr>en_accepted := acc\<rparr>" by (rule accept_request_steps)
  with core_stateD [OF effects_frame(1) [OF eff]] core_stateD [OF bind_proposal_frame(1) [OF bound]] show ?thesis
    by (simp add: put_operation_def)
qed

lemma release_defect: "release e en = Inr en' \<Longrightarrow> engine_ok en \<Longrightarrow> en_defect en' = en_defect en"
  using release_ok by (auto simp: released_def)

lemma advance_progress_defect [simp]: "en_defect (advance_progress e en) = en_defect en"
  by (simp add: advance_progress_def)

lemma apply_lifecycle_defect: "apply_lifecycle e ref en = Inr en' \<Longrightarrow> en_defect en' = defect_after (Core e) (en_defect en)"
  by (cases e) (auto simp: apply_lifecycle_def latch_defect_def defect_after_def put_operation_def split: option.splits)

lemma engine_append_defect:
  assumes step: "engine_append cfg r en = Inr en'" and ok: "engine_ok en"
  shows "en_defect en' = defect_after (rec_event r) (en_defect en)"
proof -
  from step obtain en1 where rel: "release (Some (rec_event r)) en = Inr en1" by (auto simp: engine_append_def)
  note d1 = release_defect [OF rel ok]
  show ?thesis
  proof (cases "rec_event r")
    case (Core e)
    consider (request) q where "e = EffectRequested q" | (life) ref where "is_lifecycle e" "event_ref e = Some ref"
      | (host) "\<not> is_lifecycle e" "\<not> is_requested e"
      by (cases e) auto
    then show ?thesis
    proof cases
      case request
      with step rel Core have "record_appended cfg r en1 = Inr en' \<or>
          (\<exists>en2. accept_request cfg r q en1 = Inr en2 \<and> record_appended cfg r en2 = Inr en')"
        by (auto simp: engine_append_def split: option.splits if_splits)
      then have "en_defect en' = en_defect en1" using record_appended_defect accept_request_defect by metis
      with d1 Core request show ?thesis by (simp add: defect_after_def)
    next
      case life
      from engine_append_lifecycle [OF step Core life] rel Core obtain en2 where
        "apply_lifecycle e ref en1 = Inr en2" "record_appended cfg r (advance_progress (Core e) en2) = Inr en'" by auto
      with record_appended_defect apply_lifecycle_defect d1 Core show ?thesis by fastforce
    next
      case host
      with step rel Core have "record_appended cfg r en1 = Inr en' \<or> record_appended cfg r (advance_progress (Core e) en1) = Inr en'"
        by (cases e) (auto simp: engine_append_def)
      with record_appended_defect d1 Core host show ?thesis by (cases e) (fastforce simp: defect_after_def)+
    qed
  next
    case (MessageReceived b)
    with step rel d1 show ?thesis by (auto simp: engine_append_def defect_after_def dest!: record_appended_defect)
  next
    case (Domain j)
    with step rel d1 show ?thesis by (auto simp: engine_append_def defect_after_def dest!: record_appended_defect)
  qed
qed

section \<open>Batches and the live append\<close>

text \<open>Between batches no active operation is complete.\<close>

definition settled_engine :: "engine \<Rightarrow> bool" where
  "settled_engine en \<longleftrightarrow> engine_ok en \<and> (\<forall>ref op. operation_at en ref = Some op \<longrightarrow> \<not> complete op)"

lemma finish_ok:
  assumes "finish cfg en = Inr en'" "engine_ok en"
  shows "settled_engine en' \<and> en_journal en' = en_journal en"
proof -
  from assms(1) obtain en1 ws where rel: "release None en = Inr en1" and eff: "effects cfg en1 = Inr (en', ws)"
    by (auto simp: finish_def)
  from release_ok [OF rel assms(2)] have ok1: "engine_ok en1" "en_journal en1 = en_journal en" by (auto simp: released_def)
  note core = core_stateD [OF effects_frame(1) [OF eff]]
  have "\<not> complete op" if "operation_at en' ref = Some op" for ref op
    using release_done [OF rel assms(2)] that core by (simp add: awaits_delivery_def operation_at_def)
  with engine_ok_effects [OF eff ok1(1)] ok1(2) core show ?thesis by (simp add: settled_engine_def)
qed

lemma eventOf_Core: "eventOf cfg reply historical event = Inr (Core e) \<Longrightarrow> event = Core e \<and> core_event_ok e"
  by (auto simp: eventOf_def split: journal_event.splits if_splits json.splits)

lemma eventOf_of_Core: "eventOf cfg reply historical (Core e) = Inr x \<Longrightarrow> x = Core e \<and> core_event_ok e"
  by (auto simp: eventOf_def split: if_splits)

lemma recordOf_cases:
  assumes "recordOf cfg historical pos r = Inr r'"
  shows "rm_message r' = rm_message r" "rm_recordedAt r' = rm_recordedAt r" "valid_record r'"
    "rec_event r = Core e \<longleftrightarrow> rec_event r' = Core e"
proof -
  from assms obtain x reply where x: "eventOf cfg reply historical (rec_event r) = Inr x" and r': "r' = r\<lparr>rec_event := x\<rparr>"
    by (auto simp: recordOf_def Let_def split: sum.splits)
  then show "rm_message r' = rm_message r" "rm_recordedAt r' = rm_recordedAt r" by simp_all
  show "valid_record r'"
    using x r' by (auto simp: valid_record_def dest!: eventOf_Core split: journal_event.split)
  show "rec_event r = Core e \<longleftrightarrow> rec_event r' = Core e"
    using x r' eventOf_Core eventOf_of_Core by fastforce
qed

lemma live_check_new:
  assumes "live_check cfg en e = Inr False" "core_event_ok e" "rec_event r = Core e"
  shows "new_record en r"
  unfolding new_record_def
proof (intro conjI allI impI)
  fix q assume q: "rec_event r = Core (EffectRequested q)"
  show "operation_at en (rq_ref q) = None"
  proof (cases "operation_at en (rq_ref q)")
    case (Some op)
    with assms q show ?thesis
      by (auto simp: live_check_def host_record_def known_operation_def live_guard_def prior_event_def redelivery_def Let_def
          split: if_splits)
  qed
next
  fix q op assume q: "rec_event r = Core (EffectCancelled q)" and op: "operation_at en (cancel_ref q) = Some op"
  with assms show "\<not> op_cancelled op"
    by (auto simp: live_check_def host_record_def known_operation_def live_guard_def Let_def split: if_splits)
qed

text \<open>Follow-ups add neutral records.\<close>

definition extended :: "engine \<Rightarrow> engine \<Rightarrow> bool" where
  "extended en en' \<longleftrightarrow> engine_ok en' \<and> en_defect en' = en_defect en \<and>
     (\<exists>rs. list_all neutral rs \<and> en_journal en' = en_journal en @ rs)"

lemma append_followup_ok:
  assumes "append_followup cfg m domain en = Inr en'" "engine_ok en"
  shows "extended en en'"
proof -
  from assms(1) obtain e r where e: "eventOf cfg False False domain = Inr e" and r: "recordOf cfg False 0 (recorded_of m e) = Inr r"
    and app: "engine_append cfg r en = Inr en'"
    and kind: "\<And>c. domain = Core c \<Longrightarrow> \<exists>x. c = MessageDelivered x"
    by (auto simp: append_followup_def split: journal_event.splits core_event.splits)
  have delivered: "\<exists>x. c = MessageDelivered x" if "rec_event r = Core c" for c
    using that recordOf_cases(4) [OF r, of c] e kind by (auto dest!: eventOf_Core)
  then have "new_record en r" by (auto simp: new_record_def)
  with engine_append_ok [OF app assms(2) recordOf_cases(3) [OF r]]
  have "engine_ok en'" "en_journal en' = en_journal en @ [r]" by blast+
  moreover have "neutral r" using delivered by (auto simp: neutral_def)
  moreover have "en_defect en' = en_defect en"
    using engine_append_defect [OF app assms(2)] delivered
    by (auto simp: defect_after_def split: journal_event.splits core_event.splits)
  ultimately show ?thesis unfolding extended_def by (intro conjI exI [of _ "[r]"]) simp_all
qed

lemma extended_trans: "extended a b \<Longrightarrow> extended b c \<Longrightarrow> extended a c"
  unfolding extended_def by (metis append.assoc list_all_append)

lemma extended_refl: "engine_ok en \<Longrightarrow> extended en en"
  unfolding extended_def by (intro conjI exI [of _ "[]"]) simp_all

lemma followups_extended:
  "fold_try (append_followup cfg m) ds en = Inr en' \<Longrightarrow> engine_ok en \<Longrightarrow> extended en en'"
proof (induction ds arbitrary: en)
  case (Cons d ds)
  then obtain en1 where step: "append_followup cfg m d en = Inr en1" "fold_try (append_followup cfg m) ds en1 = Inr en'" by auto
  from append_followup_ok [OF step(1) Cons.prems(2)] have "extended en en1" "engine_ok en1" by (auto simp: extended_def)
  with Cons.IH [OF step(2)] extended_trans show ?case by blast
qed (simp add: extended_refl)

lemma commit_event_steps:
  assumes commit: "commit_event cfg m e en = Inr en'" and ok: "engine_ok en"
    and new: "\<And>c r. e = Core c \<Longrightarrow> rec_event r = Core c \<Longrightarrow> new_record en r"
  obtains r en1 rs where "engine_append cfg r en = Inr en1" "valid_record r" "new_record en r"
    "\<And>c. e = Core c \<longleftrightarrow> rec_event r = Core c" "rm_recordedAt r = rm_recordedAt m"
    "settled_engine en'" "list_all neutral rs" "en_journal en' = en_journal en @ r # rs"
    "en_defect en' = defect_after (rec_event r) (en_defect en)"
proof -
  from commit obtain r en1 ds en2 where r: "recordOf cfg False 0 (recorded_of m e) = Inr r"
    and app: "engine_append cfg r en = Inr en1"
    and fold: "fold_try (append_followup cfg m) ds en1 = Inr en2" and fin: "finish cfg en2 = Inr en'"
    by (auto simp: commit_event_def)
  have n: "new_record en r"
  proof (cases "rec_event r")
    case (Core c)
    with recordOf_cases(4) [OF r, of c] new show ?thesis by auto
  qed (simp_all add: new_record_def)
  from engine_append_ok [OF app ok recordOf_cases(3) [OF r] n]
  have ok1: "engine_ok en1" and j1: "en_journal en1 = en_journal en @ [r]" by blast+
  from followups_extended [OF fold ok1] obtain rs where ext: "engine_ok en2" "en_defect en2 = en_defect en1"
    and rs: "list_all neutral rs" "en_journal en2 = en_journal en1 @ rs" by (auto simp: extended_def)
  from finish_ok [OF fin ext(1)] have "settled_engine en'" "en_journal en' = en_journal en2" by blast+
  moreover from fin obtain en3 ws where rel: "release None en2 = Inr en3" and eff: "effects cfg en3 = Inr (en', ws)"
    by (auto simp: finish_def)
  have "en_defect en' = en_defect en2"
    using release_defect [OF rel ext(1)] core_stateD [OF effects_frame(1) [OF eff]] by simp
  ultimately show ?thesis
    using that [OF app recordOf_cases(3) [OF r] n _ _ _ rs(1)] recordOf_cases(2,4) [OF r] rs(2) j1 ext(2)
      engine_append_defect [OF app ok]
    by (simp add: recorded_of_def)
qed

text \<open>A live append that changes the engine commits its event, after a check that admitted it.\<close>

lemma live_append_steps:
  assumes "live_append cfg m event en = Inr en'"
  obtains (dropped) "en' = en"
  | (committed) e where "commit_event cfg m e en = Inr en'" "\<And>c. event = Core c \<longleftrightarrow> e = Core c"
      "\<And>c. e = Core c \<Longrightarrow> core_event_ok c \<and> live_check cfg en c = Inr False"
proof -
  from assms obtain e where e: "eventOf cfg (Option.bind (rm_message m) mm_inReplyTo \<noteq> None) False event = Inr e"
    by (auto simp: live_append_def)
  have core: "event = Core c \<longleftrightarrow> e = Core c" for c using e by (auto dest: eventOf_Core eventOf_of_Core)
  from assms e consider "en' = en" | "commit_event cfg m e en = Inr en'" "\<And>c. e = Core c \<Longrightarrow> live_check cfg en c = Inr False"
    by (auto simp: live_append_def split: if_splits journal_event.splits)
  then show ?thesis
  proof cases
    case 2
    show ?thesis by (rule committed [OF 2(1) core]) (use 2(2) e in \<open>auto dest: eventOf_Core\<close>)
  qed (rule dropped)
qed

lemma live_append_ok:
  assumes "live_append cfg m event en = Inr en'" "settled_engine en"
  shows "settled_engine en'"
  using assms(1)
proof (cases rule: live_append_steps)
  case (committed e)
  from assms(2) have ok: "engine_ok en" by (simp add: settled_engine_def)
  have "new_record en r" if "e = Core c" "rec_event r = Core c" for c r
    using live_check_new that committed(3) by blast
  then show ?thesis by (rule commit_event_steps [OF committed(1) ok])
qed (use assms in simp)

end
