(* ===== verification/EngineRecovery.thy ===== *)
theory EngineRecovery
  imports EngineInvariants
begin

text \<open>
  Recovery (\<open>packages/core/src/runtime/replay.ts\<close>, \<open>createEngine\<close>, \<open>engineOf\<close>, \<open>checkpoint\<close>): an engine
  rebuilt from the journal of another, from the start or from a checkpoint, satisfies the invariant
  and holds the same operations. Replay decodes every record again, which may change a domain event
  but no core event. \<open>reaches\<close> closes creation, live appends, observation and recovery.
\<close>

section \<open>What a journal says of operations\<close>

text \<open>The part of a record that the lifecycle of operations depends on.\<close>

definition core_view :: "recorded \<Rightarrow> nat option \<times> core_event option" where
  "core_view r = (rm_recordedAt r, case rec_event r of Core e \<Rightarrow> Some e | _ \<Rightarrow> None)"

definition same_core :: "recorded list \<Rightarrow> recorded list \<Rightarrow> bool" where
  "same_core js js' \<longleftrightarrow> map core_view js = map core_view js'"

lemma core_view_Core: "core_view r = core_view r' \<Longrightarrow> rec_event r = Core e \<longleftrightarrow> rec_event r' = Core e"
  by (auto simp: core_view_def split: journal_event.splits)

lemma core_view_concerns: "core_view r = core_view r' \<Longrightarrow> concerns ref r = concerns ref r'"
  unfolding concerns_Core using core_view_Core by blast

lemma core_view_operation: "core_view r = core_view r' \<Longrightarrow> operation_record ref r op = operation_record ref r' op"
  using core_view_concerns [of r r' ref]
  by (cases "rec_event r"; cases "rec_event r'")
     (auto simp: operation_record_def core_view_def split: core_event.split)

lemma core_view_lifecycle: "core_view r = core_view r' \<Longrightarrow> lifecycle_of ref r = lifecycle_of ref r'"
  using core_view_concerns [of r r' ref]
  by (cases "rec_event r"; cases "rec_event r'") (auto simp: lifecycle_of_def core_view_def)

lemma same_core_length: "same_core js js' \<Longrightarrow> length js = length js'"
  unfolding same_core_def by (rule map_eq_imp_length_eq)

lemma same_core_nth: "same_core js js' \<Longrightarrow> i < length js \<Longrightarrow> core_view (js ! i) = core_view (js' ! i)"
  unfolding same_core_def by (metis length_map nth_map)

lemma same_core_snoc: "same_core js js' \<Longrightarrow> core_view r = core_view r' \<Longrightarrow> same_core (js @ [r]) (js' @ [r'])"
  by (simp add: same_core_def)

lemma same_core_snocE:
  assumes "same_core (js @ [r]) js'"
  obtains ks r' where "js' = ks @ [r']" "same_core js ks" "core_view r = core_view r'"
  using assms by (auto simp: same_core_def append_eq_map_conv Cons_eq_map_conv)

lemma same_core_recorded: "same_core js js' \<Longrightarrow> recordedOperation js ref = recordedOperation js' ref"
proof (induction js arbitrary: js' rule: rev_induct)
  case (snoc r js)
  from snoc.prems obtain r' ks where js': "js' = ks @ [r']" "same_core js ks" "core_view r = core_view r'" by (rule same_core_snocE)
  show ?case unfolding js'(1) recordedOperation_snoc snoc.IH [OF js'(2)] by (rule core_view_operation [OF js'(3)])
qed (simp add: same_core_def)

lemma same_core_lifecycle: "same_core js js' \<Longrightarrow> lifecycle_events ref js = lifecycle_events ref js'"
proof (induction js arbitrary: js' rule: rev_induct)
  case (snoc r js)
  from snoc.prems obtain r' ks where js': "js' = ks @ [r']" "same_core js ks" "core_view r = core_view r'" by (rule same_core_snocE)
  show ?case unfolding js'(1) lifecycle_events_snoc snoc.IH [OF js'(2)] core_view_lifecycle [OF js'(3)] ..
qed (simp add: same_core_def)

lemma same_core_journal_ok:
  assumes "same_core js js'" "journal_ok js'"
  shows "journal_ok js"
proof -
  have "ref_seq (rq_ref e) = i" if "i < length js" "rec_event (js ! i) = Core (EffectRequested e)" for i e
    using that assms same_core_length [OF assms(1)] core_view_Core [OF same_core_nth [OF assms(1) that(1)]]
    by (auto simp: journal_ok_def)
  with assms show ?thesis
    using same_core_recorded [OF assms(1)] same_core_lifecycle [OF assms(1)] same_core_length [OF assms(1)]
    by (simp add: journal_ok_def)
qed

text \<open>A journal written record by record: every prefix satisfies the invariant.\<close>

definition journal_written :: "recorded list \<Rightarrow> bool" where
  "journal_written js \<longleftrightarrow> (\<forall>n. journal_ok (take n js))"

lemma journal_written_ok: "journal_written js \<Longrightarrow> journal_ok js"
  unfolding journal_written_def by (metis order_refl take_all)

lemma journal_written_prefix: "journal_written (js @ ks) \<Longrightarrow> journal_written js"
  unfolding journal_written_def
proof
  fix n
  assume "\<forall>n. journal_ok (take n (js @ ks))"
  then have "journal_ok (take (min n (length js)) (js @ ks))" by blast
  then show "journal_ok (take n js)" by (simp add: min_def split: if_splits)
qed

lemma journal_written_snoc: "journal_written js \<Longrightarrow> journal_ok (js @ [r]) \<Longrightarrow> journal_written (js @ [r])"
  unfolding journal_written_def
proof
  fix n
  assume "\<forall>n. journal_ok (take n js)" "journal_ok (js @ [r])"
  then show "journal_ok (take n (js @ [r]))" by (cases "n \<le> length js") simp_all
qed

lemma journal_ok_Nil: "journal_ok []"
  by (simp add: journal_ok_def recordedOperation_def lifecycle_events_def)

lemma journal_written_neutral: "journal_written js \<Longrightarrow> list_all neutral rs \<Longrightarrow> journal_written (js @ rs)"
proof (induction rs rule: rev_induct)
  case (snoc r rs)
  then have "journal_written (js @ rs)" "neutral r" by simp_all
  with journal_written_snoc [OF this(1) journal_ok_neutral [OF this(2) journal_written_ok]] show ?case by simp
qed simp

subsection \<open>The defect of a journal\<close>

definition defect_of :: "recorded list \<Rightarrow> effect_died option" where
  "defect_of js = foldl (\<lambda>d r. defect_after (rec_event r) d) None js"

lemma defect_of_snoc: "defect_of (js @ [r]) = defect_after (rec_event r) (defect_of js)"
  by (simp add: defect_of_def)

lemma defect_neutral: "neutral r \<Longrightarrow> defect_after (rec_event r) d = d"
  by (auto simp: neutral_def defect_after_def split: journal_event.splits core_event.splits)

lemma defect_of_neutral: "list_all neutral rs \<Longrightarrow> defect_of (js @ rs) = defect_of js"
  by (induction rs rule: rev_induct) (simp_all add: defect_of_snoc defect_neutral flip: append_assoc)

lemma core_view_defect: "core_view r = core_view r' \<Longrightarrow> defect_after (rec_event r) d = defect_after (rec_event r') d"
  by (auto simp: defect_after_def core_view_def split: journal_event.splits)

lemma same_core_defect: "same_core js js' \<Longrightarrow> defect_of js = defect_of js'"
proof (induction js arbitrary: js' rule: rev_induct)
  case (snoc r js)
  from snoc.prems obtain r' ks where js': "js' = ks @ [r']" "same_core js ks" "core_view r = core_view r'" by (rule same_core_snocE)
  show ?case unfolding js'(1) defect_of_snoc snoc.IH [OF js'(2)] by (rule core_view_defect [OF js'(3)])
qed (simp add: same_core_def)

section \<open>Replaying a written journal\<close>

text \<open>A record of a written journal is new to an engine that has folded what precedes it.\<close>

lemma written_new_record:
  assumes ok: "engine_ok en" and next_ok: "journal_ok (en_journal en @ [r])" and r: "valid_record r"
  shows "new_record en r"
  unfolding new_record_def
proof (intro conjI allI impI)
  fix e assume e: "rec_event r = Core (EffectRequested e)"
  with next_ok have seq: "ref_seq (rq_ref e) = length (en_journal en)"
    unfolding journal_ok_def by (metis length_append_singleton lessI nth_append_length)
  show "operation_at en (rq_ref e) = None"
  proof (cases "operation_at en (rq_ref e)")
    case (Some op)
    with ok have "recordedOperation (en_journal en) (rq_ref e) = Some op" "journal_ok (en_journal en)"
      using operation_at_ok by (auto simp: engine_ok_def)
    from journal_ok_Some [OF this(2,1)] seq show ?thesis by simp
  qed
next
  fix e op assume e: "rec_event r = Core (EffectCancelled e)" and op: "operation_at en (cancel_ref e) = Some op"
  let ?ref = "cancel_ref e" and ?js = "en_journal en"
  from ok op have rec: "recordedOperation ?js ?ref = Some op" "journal_ok ?js"
    using operation_at_ok by (auto simp: engine_ok_def)
  have con: "concerns ?ref r" using r e by (simp add: valid_record_def concerns_Core)
  then have rec': "recordedOperation (?js @ [r]) ?ref = Some (operation_event (EffectCancelled e) op)"
    using rec(1) e by (simp add: recordedOperation_snoc operation_record_def)
  have events: "lifecycle_events ?ref (?js @ [r]) = lifecycle_events ?ref ?js @ [EffectCancelled e]"
    using con e by (simp add: lifecycle_events_snoc lifecycle_of_def)
  from lifecycle_cancellations [OF journal_ok_Some [OF next_ok rec', THEN conjunct2]] events
  have "filter is_cancellation (lifecycle_events ?ref ?js) = []" by (simp add: cleanup_of_def)
  with lifecycle_cancellations [OF journal_ok_Some [OF rec(2,1), THEN conjunct2]] show "\<not> op_cancelled op"
    by (simp add: op_cancelled_def split: option.splits)
qed

lemma recordOf_core_view:
  assumes r: "recordOf cfg historical pos raw = Inr r"
  shows "core_view r = core_view raw"
proof (cases "rec_event raw")
  case (Core e)
  with recordOf_cases(4) [OF r, of e] recordOf_cases(2) [OF r] show ?thesis by (simp add: core_view_def)
next
  case (MessageReceived body)
  with recordOf_cases(4) [OF r] recordOf_cases(2) [OF r] show ?thesis by (cases "rec_event r") (auto simp: core_view_def)
next
  case (Domain j)
  with recordOf_cases(4) [OF r] recordOf_cases(2) [OF r] show ?thesis by (cases "rec_event r") (auto simp: core_view_def)
qed

definition replay_record :: "'s actor_config \<Rightarrow> recorded \<Rightarrow> engine \<Rightarrow> runtime_error + engine" where
  "replay_record cfg raw en = try_bind (recordOf cfg True (position en) raw) (\<lambda>r. engine_append cfg r en)"

text \<open>An engine agrees with a journal whose core events it has folded.\<close>

definition agrees :: "engine \<Rightarrow> recorded list \<Rightarrow> bool" where
  "agrees en js \<longleftrightarrow> engine_ok en \<and> same_core (en_journal en) js \<and> en_defect en = defect_of js"

lemma replay_record_agrees:
  assumes step: "replay_record cfg raw en = Inr en'" and ok: "agrees en js" and written: "journal_ok (js @ [raw])"
  shows "agrees en' (js @ [raw])"
proof -
  from step obtain r where r: "recordOf cfg True (position en) raw = Inr r" and app: "engine_append cfg r en = Inr en'"
    by (auto simp: replay_record_def)
  have same: "same_core (en_journal en @ [r]) (js @ [raw])"
    using ok recordOf_core_view [OF r] by (simp add: agrees_def same_core_snoc)
  have "new_record en r"
    using written_new_record same_core_journal_ok [OF same written] ok recordOf_cases(3) [OF r] by (simp add: agrees_def)
  with engine_append_ok [OF app _ recordOf_cases(3) [OF r]] ok have "engine_ok en'" "en_journal en' = en_journal en @ [r]"
    by (simp_all add: agrees_def)
  moreover have "en_defect en' = defect_of (js @ [raw])"
    using engine_append_defect [OF app] ok core_view_defect [OF recordOf_core_view [OF r]] by (simp add: agrees_def defect_of_snoc)
  ultimately show ?thesis using same by (simp add: agrees_def)
qed

lemma replay_records_agree:
  "fold_try (replay_record cfg) hist en = Inr en' \<Longrightarrow> agrees en js \<Longrightarrow> journal_written (js @ hist) \<Longrightarrow> agrees en' (js @ hist)"
proof (induction hist arbitrary: en js)
  case (Cons raw hist)
  then obtain en1 where step: "replay_record cfg raw en = Inr en1" "fold_try (replay_record cfg) hist en1 = Inr en'" by auto
  have written: "journal_written ((js @ [raw]) @ hist)" using Cons.prems(3) by simp
  then have "journal_ok (js @ [raw])" using journal_written_prefix journal_written_ok by blast
  from replay_record_agrees [OF step(1) Cons.prems(2) this] Cons.IH [OF step(2) _ written] show ?case by simp
qed simp

lemma engine_ok_recovery [simp]: "engine_ok (en\<lparr>en_recovery := x\<rparr>) = engine_ok en"
  by (simp add: engine_ok_def operations_ok_def operation_at_def)

lemma effects_agrees: "effects cfg en = Inr (en', ws) \<Longrightarrow> agrees en js \<Longrightarrow> agrees en' js"
  using engine_ok_effects core_stateD [OF effects_frame(1)] by (fastforce simp: agrees_def)

lemma finish_agrees:
  assumes fin: "finish cfg en = Inr en'" and ok: "agrees en js"
  shows "agrees en' js \<and> settled_engine en'"
proof -
  from fin obtain en1 ws where rel: "release None en = Inr en1" and eff: "effects cfg en1 = Inr (en', ws)"
    by (auto simp: finish_def)
  from ok have "agrees en1 js" using release_ok [OF rel] by (simp add: agrees_def released_def)
  from effects_agrees [OF eff this] finish_ok [OF fin] ok show ?thesis by (auto simp: agrees_def)
qed

text \<open>A journal without unfinished work, which a checkpoint stands for.\<close>

definition quiescent :: "recorded list \<Rightarrow> bool" where
  "quiescent js \<longleftrightarrow> (\<forall>ref op. recordedOperation js ref = Some op \<longrightarrow> complete op) \<and> defect_of js = None"

lemma quiescent_Nil: "quiescent []"
  by (simp add: quiescent_def recordedOperation_def defect_of_def)

lemma new_engine_agrees:
  "journal_ok js \<Longrightarrow> quiescent js \<Longrightarrow> agrees (new_engine js None inputs recovery) js"
  by (auto simp: agrees_def engine_ok_def new_engine_def operations_ok_def bindings_ok_def operation_at_def quiescent_def same_core_def)

lemma createEngine_agrees:
  assumes created: "createEngine cfg before inputs history = Inr en" and written: "journal_written (before @ history)"
    and quiet: "quiescent before"
  shows "agrees en (before @ history) \<and> settled_engine en"
proof -
  have body: "(\<lambda>raw en. try_bind (recordOf cfg True (position en) raw) (\<lambda>r. engine_append cfg r en)) = replay_record cfg"
    by (simp add: fun_eq_iff replay_record_def)
  from created obtain en1 ws en2 where
    eff: "effects cfg (new_engine before None inputs (if history = [] then None else Some (before @ history))) = Inr (en1, ws)"
    and fold: "fold_try (replay_record cfg) history en1 = Inr en2" and fin: "finish cfg (en2\<lparr>en_recovery := None\<rparr>) = Inr en"
    by (auto simp: createEngine_def body)
  have "journal_ok before" using written journal_written_prefix journal_written_ok by blast
  from effects_agrees [OF eff new_engine_agrees [OF this quiet]] have "agrees en1 before" .
  from replay_records_agree [OF fold this written] have "agrees (en2\<lparr>en_recovery := None\<rparr>) (before @ history)"
    by (simp add: agrees_def)
  from finish_agrees [OF fin this] show ?thesis .
qed

lemma restoreEngine_agrees:
  assumes "restoreEngine cfg en = Inr en'" "agrees en js" "settled_engine en"
  shows "agrees en' js \<and> settled_engine en'"
proof -
  let ?en = "en\<lparr>en_retire := [], en_proposals := [], en_deliveries := [], en_cancellations := [], en_recovery := None\<rparr>"
  from assms(1) obtain en1 ws where eff: "effects cfg ?en = Inr (en1, ws)" and fin: "finish cfg en1 = Inr en'"
    by (auto simp: restoreEngine_def)
  have "\<not> complete op" if "(k, op) \<in> set (en_operations en)" for k op
  proof -
    have "distinct (map fst (en_operations en))" "k = effectKey (op_ref op)"
      using that assms(2) by (auto simp: agrees_def engine_ok_def operations_ok_def)
    with that have "operation_at en (op_ref op) = Some op" by (simp add: operation_at_def)
    with assms(3) show ?thesis by (simp add: settled_engine_def)
  qed
  with assms(2) have "operations_ok ?en" by (auto simp: agrees_def engine_ok_def operations_ok_def operation_at_def)
  with assms(2) have "agrees ?en js" by (simp add: agrees_def engine_ok_def)
  from finish_agrees [OF fin effects_agrees [OF eff this]] show ?thesis .
qed

section \<open>Reachable engines\<close>

text \<open>
  The engines of an actor: created on a journal that the host has at most initialised, extended by live
  appends, observed, restored from a frame, and recovered from the journal of another one, whole or
  behind a checkpoint taken from an earlier one.
\<close>

inductive reaches :: "'s actor_config \<Rightarrow> engine \<Rightarrow> bool" for cfg :: "'s actor_config" where
  reaches_new: "list_all neutral history \<Longrightarrow> createEngine cfg [] inputs history = Inr en \<Longrightarrow> reaches cfg en"
| reaches_append: "reaches cfg en \<Longrightarrow> live_append cfg m e en = Inr en' \<Longrightarrow> reaches cfg en'"
| reaches_observe: "reaches cfg en \<Longrightarrow> effects cfg en = Inr (en', ws) \<Longrightarrow> reaches cfg en'"
| reaches_restore: "reaches cfg en \<Longrightarrow> restoreEngine cfg en = Inr en' \<Longrightarrow> reaches cfg en'"
| reaches_replay: "reaches cfg en \<Longrightarrow> createEngine cfg [] inputs (en_journal en) = Inr en' \<Longrightarrow> reaches cfg en'"
| reaches_checkpoint: "reaches cfg saved \<Longrightarrow> checkpoint saved \<noteq> None \<Longrightarrow> reaches cfg en \<Longrightarrow>
    en_journal en = en_journal saved @ history \<Longrightarrow> createEngine cfg (en_journal saved) inputs history = Inr en' \<Longrightarrow>
    reaches cfg en'"

definition reachable_ok :: "engine \<Rightarrow> bool" where
  "reachable_ok en \<longleftrightarrow> settled_engine en \<and> journal_written (en_journal en) \<and> en_defect en = defect_of (en_journal en)"

lemma same_core_take: "same_core js js' \<Longrightarrow> same_core (take n js) (take n js')"
  by (simp add: same_core_def flip: take_map)

lemma agrees_reachable:
  assumes "agrees en js" "settled_engine en" "journal_written js"
  shows "reachable_ok en"
  using assms same_core_journal_ok [OF same_core_take] same_core_defect
  by (auto simp: reachable_ok_def agrees_def journal_written_def)

lemma reachable_agrees: "reachable_ok en \<Longrightarrow> agrees en (en_journal en)"
  by (simp add: reachable_ok_def agrees_def settled_engine_def same_core_def)

lemma live_append_reachable:
  assumes "live_append cfg m event en = Inr en'" "reachable_ok en"
  shows "reachable_ok en'"
  using assms(1)
proof (cases rule: live_append_steps)
  case (committed e)
  from assms(2) have ok: "engine_ok en" by (simp add: reachable_ok_def settled_engine_def)
  have new: "new_record en r" if "e = Core c" "rec_event r = Core c" for c r
    using live_check_new that committed(3) by blast
  show ?thesis
  proof (rule commit_event_steps [OF committed(1) ok new])
    fix r en1 rs
    assume app: "engine_append cfg r en = Inr en1" and r: "valid_record r" "new_record en r"
      and en': "settled_engine en'" "list_all neutral rs" "en_journal en' = en_journal en @ r # rs"
        "en_defect en' = defect_after (rec_event r) (en_defect en)"
    from engine_append_ok [OF app ok r] have "journal_ok (en_journal en @ [r])" by (auto simp: engine_ok_def)
    with assms(2) have "journal_written (en_journal en @ [r])" by (simp add: reachable_ok_def journal_written_snoc)
    from journal_written_neutral [OF this en'(2)] defect_of_neutral [OF en'(2), of "en_journal en @ [r]"] assms(2) en'
    show "reachable_ok en'" by (simp add: reachable_ok_def defect_of_snoc)
  qed
qed (use assms in simp)

lemma effects_reachable:
  assumes "effects cfg en = Inr (en', ws)" "reachable_ok en"
  shows "reachable_ok en'"
proof -
  from core_stateD [OF effects_frame(1) [OF assms(1)]] have same: "en_journal en' = en_journal en" "en_operations en' = en_operations en"
    by simp_all
  have "settled_engine en'"
    using engine_ok_effects [OF assms(1)] assms(2) same by (simp add: reachable_ok_def settled_engine_def operation_at_def)
  with agrees_reachable [OF effects_agrees [OF assms(1) reachable_agrees [OF assms(2)]]] assms(2) show ?thesis
    by (simp add: reachable_ok_def)
qed

lemma checkpoint_quiescent:
  assumes "reachable_ok en" "checkpoint en \<noteq> None"
  shows "quiescent (en_journal en)"
proof -
  from assms(2) have none: "en_operations en = []" "en_defect en = None" by (auto simp: checkpoint_def split: if_splits)
  have "complete op" if "recordedOperation (en_journal en) ref = Some op" for ref op
    using that none assms(1) by (auto simp: reachable_ok_def settled_engine_def engine_ok_def operations_ok_def operation_at_def)
  with assms(1) none show ?thesis by (simp add: quiescent_def reachable_ok_def)
qed

lemma reaches_reachable: "reaches cfg en \<Longrightarrow> reachable_ok en"
proof (induction rule: reaches.induct)
  case (reaches_new history inputs en)
  have "journal_written ([] @ history)"
    by (rule journal_written_neutral [OF _ reaches_new(1)]) (simp add: journal_written_def journal_ok_Nil)
  with createEngine_agrees [OF reaches_new(2) this quiescent_Nil] agrees_reachable show ?case by blast
next
  case (reaches_append en m e en')
  then show ?case using live_append_reachable by blast
next
  case (reaches_observe en en' ws)
  then show ?case using effects_reachable by blast
next
  case (reaches_restore en en')
  then have "agrees en (en_journal en)" "settled_engine en" "journal_written (en_journal en)"
    by (simp_all add: reachable_agrees reachable_ok_def [of en])
  with restoreEngine_agrees [OF reaches_restore.hyps(2)] agrees_reachable show ?case by blast
next
  case (reaches_replay en inputs en')
  then have "journal_written ([] @ en_journal en)" by (simp add: reachable_ok_def)
  with createEngine_agrees [OF reaches_replay.hyps(2) this quiescent_Nil] agrees_reachable show ?case by blast
next
  case (reaches_checkpoint saved en history inputs en')
  then have "journal_written (en_journal saved @ history)" by (simp add: reachable_ok_def)
  with createEngine_agrees [OF reaches_checkpoint.hyps(5)] checkpoint_quiescent reaches_checkpoint.IH(1) reaches_checkpoint.hyps(2) agrees_reachable
  show ?case by blast
qed

lemma reaches_settled: "reaches cfg en \<Longrightarrow> settled_engine en"
  using reaches_reachable by (auto simp: reachable_ok_def)

text \<open>Engines that agree with one journal hold the same operations.\<close>

lemma agrees_operations:
  assumes "agrees en js" "settled_engine en" "agrees en' js" "settled_engine en'"
  shows "operation_at en ref = operation_at en' ref"
proof -
  have *: "operation_at a ref = (case recordedOperation js ref of None \<Rightarrow> None | Some op \<Rightarrow> if complete op then None else Some op)"
    if a: "agrees a js" "settled_engine a" for a
  proof (cases "operation_at a ref")
    case None
    with a same_core_recorded [of "en_journal a" js ref] show ?thesis
      by (auto simp: agrees_def engine_ok_def operations_ok_def split: option.splits)
  next
    case (Some op)
    with a operation_at_ok [of a ref op] same_core_recorded [of "en_journal a" js ref] show ?thesis
      by (auto simp: agrees_def engine_ok_def settled_engine_def)
  qed
  from * [OF assms(1,2)] * [OF assms(3,4)] show ?thesis by simp
qed

end
