(* ===== verification/EngineWork.thy ===== *)
theory EngineWork
  imports EngineRecovery
begin

text \<open>
  The work a snapshot exposes (\<open>packages/core/src/runtime/replay.ts\<close>, \<open>pending\<close>, \<open>deferred\<close>,
  \<open>cancelled\<close>, \<open>snapshotOf\<close>): every active operation keeps its input and the act that proposed it, and
  every recorded settlement decodes, so the lists are total, and they divide the active operations.
\<close>

section \<open>Active operations keep their input and act\<close>

definition keys :: "('k \<times> 'v) list \<Rightarrow> 'k set" where
  "keys xs = fst ` set xs"

lemma keys_simps [simp]:
  "keys (js_set k v xs) = insert k (keys xs)" "keys (js_delete k xs) = keys xs - {k}" "keys [] = {}"
  by (simp_all add: keys_def)

lemma keys_map_of: "k \<in> keys xs \<longleftrightarrow> map_of xs k \<noteq> None"
  unfolding keys_def map_of_key ..

definition loaded :: "engine \<Rightarrow> bool" where
  "loaded en \<longleftrightarrow> keys (en_operations en) \<subseteq> keys (en_inputs en) \<and>
     keys (en_operations en) \<subseteq> keys (en_acts en)"

definition grows :: "engine \<Rightarrow> engine \<Rightarrow> bool" where
  "grows en en' \<longleftrightarrow> en_operations en' = en_operations en \<and> keys (en_inputs en) \<subseteq> keys (en_inputs en') \<and>
     keys (en_acts en) \<subseteq> keys (en_acts en')"

lemma grows_loaded: "grows en en' \<Longrightarrow> loaded en \<Longrightarrow> loaded en'"
  by (auto simp: grows_def loaded_def)

lemma grows_refl [simp]: "grows en en"
  by (simp add: grows_def)

lemma grows_trans: "grows a b \<Longrightarrow> grows b c \<Longrightarrow> grows a c"
  by (auto simp: grows_def)

lemma bind_proposal_grows:
  assumes "bind_proposal p ref en = Inr en'"
  shows "grows en en' \<and> effectKey ref \<in> keys (en_acts en') \<and> en_inputs en' = en_inputs en"
proof -
  from assms obtain refs binds where "en' = en\<lparr>en_references := refs, en_acts := js_set (effectKey ref)
      (case map_of (en_acts en) (effectKey ref) of None \<Rightarrow> p | Some q \<Rightarrow> q) (en_acts en), en_bindings := binds\<rparr>"
    by (auto simp: bind_proposal_def Let_def split: if_splits)
  then show ?thesis by (auto simp: grows_def)
qed

lemma bind_accepted_grows:
  assumes "bind_accepted cfg p prepared ref assigned en = Inr en'"
  shows "grows en en'"
proof -
  from assms obtain op where "map_of (en_operations en) (effectKey ref) = Some op"
    by (auto simp: bind_accepted_def Let_def split: option.splits)
  with assms obtain en1 where en1: "en1 = en \<or> (\<exists>input. en1 = en\<lparr>en_inputs := js_set (effectKey ref) input (en_inputs en)\<rparr>)"
    and en': "(if assigned then Inr en1 else bind_proposal p ref en1) = Inr en'"
    by (auto simp: bind_accepted_def Let_def split: if_splits)
  from en1 have "grows en en1" by (auto simp: grows_def)
  with en' bind_proposal_grows [of p ref en1 en'] show ?thesis by (auto split: if_splits intro: grows_trans)
qed

lemma propose_act_grows:
  assumes "propose_act cfg path root p en = Inr (en', ws)"
  shows "grows en en'"
proof -
  let ?en = "\<lambda>stored. en\<lparr>en_owners := js_set (pr_identity p) path (en_owners en),
      en_declarations := js_set (pr_identity p) stored (en_declarations en)\<rparr>"
  show ?thesis
  proof (cases "\<exists>stored. en' = (?en stored)\<lparr>en_proposals := js_set path p (en_proposals en)\<rparr>")
    case True
    then show ?thesis by (auto simp: grows_def)
  next
    case False
    with assms obtain r prepared a where "bind_accepted cfg p prepared r a (?en (snd prepared)) = Inr en'"
      by (auto simp: propose_act_def Let_def split: option.splits)
    from bind_accepted_grows [OF this] show ?thesis by (simp add: grows_def)
  qed
qed

lemma propose_event_grows: "propose_event cfg e en = Inr en' \<Longrightarrow> grows en en'"
  unfolding propose_event_def by (elim try_bind_eq_Inr [THEN iffD1, elim_format] exE conjE) (case_tac x; auto simp: grows_def)

lemma propose_cancel_grows: "propose_cancel e en = Inr en' \<Longrightarrow> grows en en'"
  by (cases e) (auto simp: propose_cancel_def grows_def split: if_splits option.splits)

lemma process_candidate_grows:
  assumes "process_candidate cfg c (names, en, ws) = Inr (names', en', ws')"
  shows "grows en en'"
proof -
  obtain path root p where c: "c = (path, root, p)" by (cases c)
  show ?thesis
  proof (cases p)
    case (EventProposal e)
    with assms c have "propose_event cfg e en = Inr en'" by (auto simp: process_candidate_def split: if_splits)
    then show ?thesis by (rule propose_event_grows)
  next
    case (CancelProposal e)
    with assms c have "propose_cancel e en = Inr en'" by (auto simp: process_candidate_def split: if_splits)
    then show ?thesis by (rule propose_cancel_grows)
  next
    case (ActProposal a)
    with assms c obtain new where "propose_act cfg path root a en = Inr (en', new)"
      by (auto simp: process_candidate_def split: if_splits)
    then show ?thesis by (rule propose_act_grows)
  next
    case UnknownProposal
    with assms c show ?thesis by (simp add: process_candidate_def split: if_splits)
  qed
qed

lemma effects_grows:
  assumes "effects cfg en = Inr (en', ws)"
  shows "grows en en'"
proof -
  let ?en = "en\<lparr>en_proposals := [], en_deliveries := [], en_cancellations := []\<rparr>"
  from assms obtain candidates names new where
    fold: "fold_try (process_candidate cfg) candidates ([], ?en, []) = Inr (names, en', new)"
    by (auto simp: effects_def Let_def)
  have "grows ?en en'"
    using fold_try_invariant [OF fold, of "\<lambda>(_, en', _). grows ?en en'"] process_candidate_grows grows_trans by fastforce
  then show ?thesis by (simp add: grows_def)
qed

lemmas effects_loaded = grows_loaded [OF effects_grows]

lemma release_loaded:
  assumes "release e en = Inr en'" "loaded en"
  shows "loaded en'"
  using assms(1) unfolding release_def
proof (rule fold_try_invariant)
  show "loaded en1'" if "loaded en1" "release_key e key en1 = Inr en1'" for key en1 en1'
    using that by (auto simp: release_key_def loaded_def drop_operation_def Let_def split: if_splits option.splits)
qed (rule assms)

lemma finish_loaded: "finish cfg en = Inr en' \<Longrightarrow> loaded en \<Longrightarrow> loaded en'"
  by (auto simp: finish_def dest!: release_loaded effects_loaded)

lemma record_appended_loaded: "record_appended cfg r en = Inr en' \<Longrightarrow> loaded en \<Longrightarrow> loaded en'"
  by (auto simp: record_appended_def dest!: effects_loaded) (simp add: loaded_def append_record_def)

lemma accept_request_loaded:
  assumes "accept_request cfg r e en = Inr en'" "loaded en"
  shows "loaded en'"
proof -
  from assms(1) obtain en1 ws os input proposal en2 acc where eff: "effects cfg en = Inr (en1, ws)"
    and bound: "bind_proposal proposal (rq_ref e)
       (put_operation (effectKey (rq_ref e)) (requested_operation e (rm_recordedAt r)) (en1\<lparr>en_origins := os\<rparr>)
         \<lparr>en_inputs := js_set (effectKey (rq_ref e)) input (en_inputs en1)\<rparr>) = Inr en2"
    and en': "en' = en2\<lparr>en_accepted := acc\<rparr>"
    by (rule accept_request_steps)
  from effects_loaded [OF eff assms(2)] bind_proposal_grows [OF bound] show ?thesis
    by (auto simp: en' loaded_def grows_def put_operation_def)
qed

lemma apply_lifecycle_loaded:
  assumes "apply_lifecycle e ref en = Inr en'" "loaded en"
  shows "loaded en'"
proof -
  from assms(1) obtain op' c where step: "lifecycle_event (operation_at en ref) e = Inr (op', c)"
    and en': "en' = latch_defect e (withdraw_work e (effectKey ref) (change_retire (effectKey ref) c (put_operation (effectKey ref) op' en)))"
    by (auto simp: apply_lifecycle_def)
  then obtain op where "operation_at en ref = Some op" using lifecycle_event_Some by blast
  then have "effectKey ref \<in> keys (en_operations en)" by (simp add: keys_map_of operation_at_def)
  moreover have "en_operations en' = js_set (effectKey ref) op' (en_operations en)" "en_inputs en' = en_inputs en" "en_acts en' = en_acts en"
    by (cases e; cases c; simp add: en' latch_defect_def withdraw_work_def change_retire_def put_operation_def)+
  ultimately show ?thesis using assms(2) by (auto simp: loaded_def)
qed

lemma advance_progress_loaded [simp]: "loaded (advance_progress e en) = loaded en"
  by (simp add: loaded_def advance_progress_def)

lemma engine_append_loaded:
  assumes step: "engine_append cfg r en = Inr en'" and ok: "loaded en"
  shows "loaded en'"
proof -
  from step obtain en1 where rel: "release (Some (rec_event r)) en = Inr en1" by (auto simp: engine_append_def)
  from release_loaded [OF rel ok] have ok1: "loaded en1" .
  from step rel have "record_appended cfg r en1 = Inr en' \<or>
      (\<exists>e en2. accept_request cfg r e en1 = Inr en2 \<and> record_appended cfg r en2 = Inr en') \<or>
      (\<exists>e. record_appended cfg r (advance_progress (Core e) en1) = Inr en') \<or>
      (\<exists>e ref en2. apply_lifecycle e ref en1 = Inr en2 \<and> record_appended cfg r (advance_progress (Core e) en2) = Inr en')"
    by (auto simp: engine_append_def split: journal_event.splits core_event.splits option.splits if_splits)
  then show ?thesis
  proof (elim disjE exE conjE)
    show "loaded en'" if "record_appended cfg r en1 = Inr en'" using record_appended_loaded [OF that ok1] .
    show "loaded en'" if "accept_request cfg r e en1 = Inr en2" "record_appended cfg r en2 = Inr en'" for e en2
      using record_appended_loaded [OF that(2) accept_request_loaded [OF that(1) ok1]] .
    show "loaded en'" if "record_appended cfg r (advance_progress (Core e) en1) = Inr en'" for e
      using record_appended_loaded [OF that] ok1 by simp
    show "loaded en'" if "apply_lifecycle e ref en1 = Inr en2" "record_appended cfg r (advance_progress (Core e) en2) = Inr en'" for e ref en2
      using record_appended_loaded [OF that(2)] apply_lifecycle_loaded [OF that(1) ok1] by simp
  qed
qed

lemma append_followup_loaded: "append_followup cfg m domain en = Inr en' \<Longrightarrow> loaded en \<Longrightarrow> loaded en'"
  by (auto simp: append_followup_def dest!: engine_append_loaded)

lemma commit_event_loaded:
  assumes "commit_event cfg m e en = Inr en'" "loaded en"
  shows "loaded en'"
proof -
  from assms(1) obtain r en1 ds en2 where app: "engine_append cfg r en = Inr en1"
    and fold: "fold_try (append_followup cfg m) ds en1 = Inr en2" and fin: "finish cfg en2 = Inr en'"
    by (auto simp: commit_event_def)
  have "loaded en2"
    using fold_try_invariant [OF fold, of loaded] engine_append_loaded [OF app assms(2)] append_followup_loaded by blast
  then show ?thesis by (rule finish_loaded [OF fin])
qed

lemma live_append_loaded: "live_append cfg m event en = Inr en' \<Longrightarrow> loaded en \<Longrightarrow> loaded en'"
  by (elim live_append_steps) (auto intro: commit_event_loaded)

lemma createEngine_loaded:
  assumes "createEngine cfg before inputs history = Inr en"
  shows "loaded en"
proof -
  from assms obtain en1 ws en2 where
    eff: "effects cfg (new_engine before None inputs (if history = [] then None else Some (before @ history))) = Inr (en1, ws)"
    and fold: "fold_try (\<lambda>raw en. try_bind (recordOf cfg True (position en) raw) (\<lambda>r. engine_append cfg r en)) history en1 = Inr en2"
    and fin: "finish cfg (en2\<lparr>en_recovery := None\<rparr>) = Inr en"
    by (auto simp: createEngine_def)
  have "loaded en1" by (rule effects_loaded [OF eff]) (simp add: loaded_def new_engine_def)
  with fold_try_invariant [OF fold, of loaded] engine_append_loaded have "loaded en2" by fastforce
  then have "loaded (en2\<lparr>en_recovery := None\<rparr>)" by (simp add: loaded_def)
  then show ?thesis by (rule finish_loaded [OF fin])
qed

lemma restoreEngine_loaded:
  assumes "restoreEngine cfg en = Inr en'" "loaded en"
  shows "loaded en'"
proof -
  let ?en = "en\<lparr>en_retire := [], en_proposals := [], en_deliveries := [], en_cancellations := [], en_recovery := None\<rparr>"
  from assms(1) obtain en1 ws where eff: "effects cfg ?en = Inr (en1, ws)" and fin: "finish cfg en1 = Inr en'"
    by (auto simp: restoreEngine_def)
  have "loaded ?en" using assms(2) by (simp add: loaded_def)
  then show ?thesis by (rule finish_loaded [OF fin effects_loaded [OF eff]])
qed

lemma reaches_loaded: "reaches cfg en \<Longrightarrow> loaded en"
proof (induction rule: reaches.induct)
  case (reaches_append en m e en')
  from live_append_loaded [OF reaches_append(2,3)] show ?case .
next
  case (reaches_observe en en' ws)
  from effects_loaded [OF reaches_observe(2,3)] show ?case .
next
  case (reaches_restore en en')
  from restoreEngine_loaded [OF reaches_restore(2,3)] show ?case .
qed (erule createEngine_loaded)+

section \<open>Recorded settlements decode\<close>

definition settlement_decodes :: "recorded \<Rightarrow> bool" where
  "settlement_decodes r \<longleftrightarrow> (\<forall>s v. rec_event r = Core (EffectSettled s) \<longrightarrow> es_outcome s = Fulfilled v \<longrightarrow> decode_result v \<noteq> None)"

lemma execution_result_of_Inr: "execution_result_of v = Inr r \<longleftrightarrow> decode_result v = Some r"
  by (auto simp: execution_result_of_def split: option.splits)

lemma neutral_decodes: "neutral r \<Longrightarrow> settlement_decodes r"
  by (auto simp: settlement_decodes_def neutral_def)

lemma guarded_settlement_decodes:
  "live_guard (Some op) (EffectSettled s) = Inr b \<Longrightarrow> op_cancelled op \<Longrightarrow> es_outcome s = Fulfilled v \<Longrightarrow> decode_result v \<noteq> None"
  by (auto simp: live_guard_def execution_result_of_Inr split: if_splits)

lemma lifecycle_settlement_decodes:
  "lifecycle_event (Some op) (EffectSettled s) = Inr x \<Longrightarrow> \<not> op_cancelled op \<Longrightarrow> es_outcome s = Fulfilled v \<Longrightarrow> decode_result v \<noteq> None"
  by (auto simp: lifecycle_settled_def settlementCompletesExecution_def execution_result_of_Inr split: if_splits)

lemma live_settlement_decodes:
  assumes live: "live_check cfg en (EffectSettled s) = Inr False" and ok: "engine_ok en"
    and app: "engine_append cfg r en = Inr en'" and r: "rec_event r = Core (EffectSettled s)"
  shows "settlement_decodes r"
proof -
  obtain en1 en2 where
    rel: "release (Some (Core (EffectSettled s))) en = Inr en1" and "apply_lifecycle (EffectSettled s) (es_ref s) en1 = Inr en2"
    by (rule engine_append_lifecycle [OF app r, of "es_ref s"]) simp_all
  then obtain x where step: "lifecycle_event (operation_at en1 (es_ref s)) (EffectSettled s) = Inr x" by (auto simp: apply_lifecycle_def)
  then obtain op where op1: "operation_at en1 (es_ref s) = Some op" using lifecycle_event_Some by (cases x) blast
  then have "operation_at en (es_ref s) = Some op" using release_ok [OF rel ok] releasedD by blast
  then have known: "known_operation en (es_ref s) = Some op" by (simp add: known_operation_def)
  from live known have guard: "\<exists>b. live_guard (Some op) (EffectSettled s) = Inr b"
    by (auto simp: live_check_def host_record_def Let_def)
  show ?thesis
    using guard guarded_settlement_decodes [of op s] lifecycle_settlement_decodes [of op s] step op1 r
    by (cases "op_cancelled op") (auto simp: settlement_decodes_def)
qed

lemma live_append_decodes:
  assumes "live_append cfg m event en = Inr en'" "engine_ok en" "list_all settlement_decodes (en_journal en)"
  shows "list_all settlement_decodes (en_journal en')"
  using assms(1)
proof (cases rule: live_append_steps)
  case (committed e)
  have new: "new_record en r" if "e = Core c" "rec_event r = Core c" for c r
    using live_check_new that committed(3) by blast
  show ?thesis
  proof (rule commit_event_steps [OF committed(1) assms(2) new])
    fix r en1 rs
    assume app: "engine_append cfg r en = Inr en1" and core: "\<And>c. e = Core c \<longleftrightarrow> rec_event r = Core c"
      and rs: "list_all neutral rs" "en_journal en' = en_journal en @ r # rs"
    have "settlement_decodes r"
    proof (cases "\<exists>s. rec_event r = Core (EffectSettled s)")
      case True
      then obtain s where s: "rec_event r = Core (EffectSettled s)" by blast
      with core committed(3) live_settlement_decodes [OF _ assms(2) app s] show ?thesis by blast
    qed (auto simp: settlement_decodes_def)
    moreover have "list_all settlement_decodes rs" using rs(1) neutral_decodes by (auto simp: list_all_iff)
    ultimately show "list_all settlement_decodes (en_journal en')" using assms(3) rs(2) by simp
  qed
qed (use assms in simp)

lemma same_core_decodes:
  assumes "same_core js js'" "list_all settlement_decodes js'"
  shows "list_all settlement_decodes js"
  unfolding list_all_length
proof (intro allI impI)
  fix i assume i: "i < length js"
  with assms have "settlement_decodes (js' ! i)" by (simp add: list_all_length same_core_length)
  with core_view_Core [OF same_core_nth [OF assms(1) i]] show "settlement_decodes (js ! i)" by (simp add: settlement_decodes_def)
qed

lemma reaches_decodes: "reaches cfg en \<Longrightarrow> list_all settlement_decodes (en_journal en)"
proof (induction rule: reaches.induct)
  case (reaches_new history inputs en)
  have "journal_written ([] @ history)"
    by (rule journal_written_neutral [OF _ reaches_new(1)]) (simp add: journal_written_def journal_ok_Nil)
  from createEngine_agrees [OF reaches_new(2) this quiescent_Nil] have "same_core (en_journal en) history" by (simp add: agrees_def)
  moreover have "list_all settlement_decodes history" using reaches_new(1) neutral_decodes by (auto simp: list_all_iff)
  ultimately show ?case by (rule same_core_decodes)
next
  case (reaches_append en m e en')
  from live_append_decodes [OF reaches_append(2) _ reaches_append(3)] reaches_settled [OF reaches_append(1)] show ?case
    by (simp add: settled_engine_def)
next
  case (reaches_observe en en' ws)
  with core_stateD [OF effects_frame(1) [OF reaches_observe(2)]] show ?case by simp
next
  case (reaches_restore en en')
  from reaches_reachable [OF reaches_restore(1)] have "agrees en (en_journal en)" "settled_engine en"
    by (simp_all add: reachable_agrees reachable_ok_def [of en])
  from restoreEngine_agrees [OF reaches_restore(2) this] have "same_core (en_journal en') (en_journal en)" by (simp add: agrees_def)
  from same_core_decodes [OF this reaches_restore(3)] show ?case .
next
  case (reaches_replay en inputs en')
  have "journal_written ([] @ en_journal en)" using reaches_reachable [OF reaches_replay(1)] by (simp add: reachable_ok_def)
  from createEngine_agrees [OF reaches_replay(2) this quiescent_Nil] have "same_core (en_journal en') (en_journal en)" by (simp add: agrees_def)
  from same_core_decodes [OF this reaches_replay(3)] show ?case .
next
  case (reaches_checkpoint saved en history inputs en')
  have "journal_written (en_journal saved @ history)"
    using reaches_reachable [OF reaches_checkpoint.hyps(3)] reaches_checkpoint.hyps(4) by (simp add: reachable_ok_def)
  from createEngine_agrees [OF reaches_checkpoint.hyps(5) this checkpoint_quiescent [OF reaches_reachable [OF reaches_checkpoint.hyps(1)] reaches_checkpoint.hyps(2)]]
  have "same_core (en_journal en') (en_journal en)" using reaches_checkpoint.hyps(4) by (simp add: agrees_def)
  from same_core_decodes [OF this reaches_checkpoint.IH(2)] show ?case .
qed

lemma lifecycle_events_set: "e \<in> set (lifecycle_events ref js) \<Longrightarrow> \<exists>r \<in> set js. rec_event r = Core e"
  by (auto simp: lifecycle_events_def lifecycle_of_def split: journal_event.splits if_splits)

lemma active_settlement_decodes:
  assumes "reaches cfg en" "operation_at en ref = Some op" "op_settlement op = Some s" "es_outcome s = Fulfilled v"
  shows "\<exists>x. decode_result v = Some x"
proof -
  from reaches_settled [OF assms(1)] assms(2) have "recordedOperation (en_journal en) ref = Some op" "journal_ok (en_journal en)"
    using operation_at_ok by (auto simp: settled_engine_def engine_ok_def)
  then have "lifecycle (op_request op) (op_recordedAt op) (lifecycle_events ref (en_journal en)) op" by (simp add: journal_ok_Some)
  from lifecycle_settlements [OF this] assms(3) have "EffectSettled s \<in> set (filter is_settled (lifecycle_events ref (en_journal en)))"
    by simp
  then have "EffectSettled s \<in> set (lifecycle_events ref (en_journal en))" by simp
  then obtain r where "r \<in> set (en_journal en)" "rec_event r = Core (EffectSettled s)" using lifecycle_events_set by blast
  with reaches_decodes [OF assms(1)] assms(4) show ?thesis by (auto simp: list_all_iff settlement_decodes_def)
qed

section \<open>The work lists\<close>

lemma inputOf_total: "loaded en \<Longrightarrow> (key, op) \<in> set (en_operations en) \<Longrightarrow> \<exists>input. inputOf en key = Inr input"
proof -
  assume "loaded en" "(key, op) \<in> set (en_operations en)"
  then have "key \<in> keys (en_inputs en)" by (force simp: loaded_def keys_def)
  then show ?thesis by (auto simp: inputOf_def keys_map_of)
qed

lemma map_try_all: "(\<And>x. x \<in> set xs \<Longrightarrow> \<exists>y. f x = Inr y) \<Longrightarrow> \<exists>ys. map_try f xs = Inr ys"
proof (induction xs)
  case (Cons x xs)
  then obtain y ys where "f x = Inr y" "map_try f xs = Inr ys" by (meson list.set_intros)
  then show ?case by simp
qed simp

lemma operation_entry:
  assumes "engine_ok en" "(key, op) \<in> set (en_operations en)"
  shows "key = effectKey (op_ref op)" "operation_at en (op_ref op) = Some op" "rq_ref (op_request op) = op_ref op"
proof -
  have "distinct (map fst (en_operations en))" and key: "key = effectKey (op_ref op)"
    using assms by (auto simp: engine_ok_def operations_ok_def)
  with assms(2) show "operation_at en (op_ref op) = Some op" by (simp add: operation_at_def)
  with assms(1) have "recordedOperation (en_journal en) (op_ref op) = Some op" using operation_at_ok by (simp add: engine_ok_def)
  with recordedOperation_ref show "rq_ref (op_request op) = op_ref op" by blast
  show "key = effectKey (op_ref op)" by (rule key)
qed

text \<open>The promise an operation's settlement returned, if any.\<close>

definition deferred_handle :: "stored_operation \<Rightarrow> execution_handle option" where
  "deferred_handle op = (case op_settlement op of
     None \<Rightarrow> None
   | Some s \<Rightarrow> (case es_outcome s of
       Rejected _ \<Rightarrow> None
     | Fulfilled v \<Rightarrow> (case decode_result v of Some (PromiseResult h _ _) \<Rightarrow> Some h | _ \<Rightarrow> None)))"

definition is_deferred :: "stored_operation \<Rightarrow> bool" where
  "is_deferred op \<longleftrightarrow> deferred_handle op \<noteq> None \<and> \<not> op_cancelled op \<and> \<not> op_promised op"

text \<open>A settlement names the reference it settles.\<close>

lemma active_settlement_ref:
  assumes "engine_ok en" "operation_at en ref = Some op" "op_settlement op = Some s"
  shows "es_ref s = ref"
proof -
  from assms have "recordedOperation (en_journal en) ref = Some op" "journal_ok (en_journal en)"
    using operation_at_ok by (auto simp: engine_ok_def)
  then have "lifecycle (op_request op) (op_recordedAt op) (lifecycle_events ref (en_journal en)) op" by (simp add: journal_ok_Some)
  from lifecycle_settlements [OF this] assms(3) have "EffectSettled s \<in> set (filter is_settled (lifecycle_events ref (en_journal en)))"
    by simp
  then have "EffectSettled s \<in> set (lifecycle_events ref (en_journal en))" by simp
  then show ?thesis by (auto simp: lifecycle_events_def lifecycle_of_def concerns_Core split: journal_event.splits if_splits)
qed

lemma deferred_of_total:
  assumes reach: "reaches cfg en" and entry: "(key, op) \<in> set (en_operations en)"
  shows "\<exists>ws. deferred_of en (key, op) = Inr ws \<and> map dw_ref ws = (if is_deferred op then [op_ref op] else [])"
proof -
  from reaches_settled [OF reach] have ok: "engine_ok en" by (simp add: settled_engine_def)
  note op = operation_entry [OF ok entry]
  from inputOf_total [OF reaches_loaded [OF reach] entry] obtain input where input: "inputOf en key = Inr input" by blast
  have "key \<in> keys (en_acts en)" using reaches_loaded [OF reach] entry by (force simp: loaded_def keys_def)
  then obtain proposal where proposal: "map_of (en_acts en) key = Some proposal" by (auto simp: keys_map_of)
  show ?thesis
  proof (cases "op_settlement op")
    case (Some s)
    show ?thesis
    proof (cases "es_outcome s")
      case (Fulfilled v)
      from active_settlement_decodes [OF reach op(2) Some Fulfilled] obtain x where "decode_result v = Some x" by blast
      with Some Fulfilled input proposal active_settlement_ref [OF ok op(2) Some] show ?thesis
        by (cases x) (simp_all add: deferred_of_def is_deferred_def deferred_handle_def execution_result_of_def)
    qed (simp add: deferred_of_def is_deferred_def deferred_handle_def Some)
  qed (simp add: deferred_of_def is_deferred_def deferred_handle_def)
qed

lemma cancelled_of_total:
  assumes reach: "reaches cfg en" and entry: "(key, op) \<in> set (en_operations en)"
  shows "\<exists>ws. cancelled_of en (key, op) = Inr ws \<and>
    map (\<lambda>w. (acn_ref w, acn_handle w)) ws = (if op_cancelled op then [(op_ref op, deferred_handle op)] else [])"
proof -
  from reaches_settled [OF reach] have ok: "engine_ok en" by (simp add: settled_engine_def)
  note op = operation_entry [OF ok entry]
  from inputOf_total [OF reaches_loaded [OF reach] entry] obtain input where input: "inputOf en key = Inr input" by blast
  have handle: "promise_handle (Some op) = Inr (deferred_handle op)"
  proof (cases "op_settlement op")
    case (Some s)
    show ?thesis
    proof (cases "es_outcome s")
      case (Fulfilled v)
      from active_settlement_decodes [OF reach op(2) Some Fulfilled] obtain x where "decode_result v = Some x" by blast
      with Some Fulfilled show ?thesis
        by (cases x) (simp_all add: promise_handle_def deferred_handle_def execution_result_of_def)
    qed (simp add: promise_handle_def deferred_handle_def Some)
  qed (simp add: promise_handle_def deferred_handle_def)
  have "cancel_ref (cl_request c) = op_ref op" if c: "op_cleanup op = Some c" for c
  proof -
    from ok op(2) have "recordedOperation (en_journal en) (op_ref op) = Some op" "journal_ok (en_journal en)"
      using operation_at_ok by (auto simp: engine_ok_def)
    then have "lifecycle (op_request op) (op_recordedAt op) (lifecycle_events (op_ref op) (en_journal en)) op"
      by (simp add: journal_ok_Some)
    from lifecycle_cancellations [OF this] c
    have "EffectCancelled (cl_request c) \<in> set (filter is_cancellation (lifecycle_events (op_ref op) (en_journal en)))" by simp
    then have "EffectCancelled (cl_request c) \<in> set (lifecycle_events (op_ref op) (en_journal en))" by simp
    then show ?thesis by (auto simp: lifecycle_events_def lifecycle_of_def concerns_Core split: journal_event.splits if_splits)
  qed
  with handle input show ?thesis
    by (cases "op_cleanup op") (simp_all add: cancelled_of_def op_cancelled_def)
qed

lemma map_try_concat:
  "map_try f xs = Inr yss \<Longrightarrow> (\<And>x. x \<in> set xs \<Longrightarrow> \<exists>ys. f x = Inr ys \<and> map g ys = h x) \<Longrightarrow>
     map g (concat yss) = concat (map h xs)"
proof (induction xs arbitrary: yss)
  case (Cons x xs)
  then obtain ys rest where "f x = Inr ys" "map_try f xs = Inr rest" "yss = ys # rest" by auto
  with Cons show ?case by fastforce
qed simp

lemma concat_singletons: "concat (map (\<lambda>x. if P x then [f x] else []) xs) = map f (filter P xs)"
  by (induction xs) auto

lemma map_try_map:
  "map_try f xs = Inr ys \<Longrightarrow> (\<And>x y. x \<in> set xs \<Longrightarrow> f x = Inr y \<Longrightarrow> g y = h x) \<Longrightarrow> map g ys = map h xs"
proof (induction xs arbitrary: ys)
  case (Cons x xs)
  from Cons.prems(1) obtain y zs where ys: "f x = Inr y" "map_try f xs = Inr zs" "ys = y # zs" by auto
  from Cons.IH [OF ys(2) Cons.prems(2)] Cons.prems(2) [of x, OF _ ys(1)] ys(3) show ?case by simp
qed simp

definition is_pending :: "engine \<Rightarrow> stored_operation \<Rightarrow> bool" where
  "is_pending en op \<longleftrightarrow> op_settlement op = None \<and> \<not> op_cancelled op \<and> (en_defect en = None \<or> ref_atom (op_ref op) = replies_atom)"

lemma pending_total:
  assumes "reaches cfg en"
  shows "\<exists>ws. pending en = Inr ws \<and> map fst ws = map (op_ref \<circ> snd) (filter (is_pending en \<circ> snd) (en_operations en))"
proof -
  let ?f = "\<lambda>(key, op). try_bind (inputOf en key) (\<lambda>input. Inr (rq_ref (op_request op), input))"
  from reaches_settled [OF assms] have ok: "engine_ok en" by (simp add: settled_engine_def)
  have eq: "filter (\<lambda>(_, op). op_settlement op = None \<and> \<not> op_cancelled op \<and>
      (en_defect en = None \<or> ref_atom (rq_ref (op_request op)) = replies_atom)) (en_operations en) =
      filter (is_pending en \<circ> snd) (en_operations en)"
    by (rule filter_cong) (auto simp: operation_entry(3) [OF ok] is_pending_def)
  have 1: "\<exists>y. ?f x = Inr y" if "x \<in> set (filter (is_pending en \<circ> snd) (en_operations en))" for x
    using inputOf_total [OF reaches_loaded [OF assms], of "fst x" "snd x"] that by (cases x) auto
  then obtain ws where ws: "map_try ?f (filter (is_pending en \<circ> snd) (en_operations en)) = Inr ws" using map_try_all [of _ ?f] by blast
  have "map fst ws = map (op_ref \<circ> snd) (filter (is_pending en \<circ> snd) (en_operations en))"
    by (rule map_try_map [OF ws]) (auto simp: operation_entry(3) [OF ok])
  with ws show ?thesis by (auto simp: pending_def eq)
qed

lemma deferred_total:
  assumes "reaches cfg en"
  shows "\<exists>ws. deferred en = Inr ws \<and> map dw_ref ws =
    (if en_defect en = None then map (op_ref \<circ> snd) (filter (is_deferred \<circ> snd) (en_operations en)) else [])"
proof -
  have each: "\<exists>ws. deferred_of en x = Inr ws \<and> map dw_ref ws = (if (is_deferred \<circ> snd) x then [(op_ref \<circ> snd) x] else [])"
    if "x \<in> set (en_operations en)" for x
    using deferred_of_total [OF assms, of "fst x" "snd x"] that unfolding comp_apply prod.collapse by blast
  then obtain wss where wss: "map_try (deferred_of en) (en_operations en) = Inr wss"
    using map_try_all [of "en_operations en" "deferred_of en"] by blast
  from map_try_concat [OF wss each] wss show ?thesis by (simp add: deferred_def concat_singletons comp_def)
qed

lemma cancelled_total:
  assumes "reaches cfg en"
  shows "\<exists>ws. cancelled en = Inr ws \<and>
    map (\<lambda>w. (acn_ref w, acn_handle w)) ws = map (\<lambda>x. (op_ref (snd x), deferred_handle (snd x))) (filter (op_cancelled \<circ> snd) (en_operations en))"
proof -
  let ?h = "\<lambda>x. (op_ref (snd x), deferred_handle (snd x))"
  have each: "\<exists>ws. cancelled_of en x = Inr ws \<and> map (\<lambda>w. (acn_ref w, acn_handle w)) ws = (if (op_cancelled \<circ> snd) x then [?h x] else [])"
    if "x \<in> set (en_operations en)" for x
    using cancelled_of_total [OF assms, of "fst x" "snd x"] that unfolding comp_apply prod.collapse by blast
  then obtain wss where wss: "map_try (cancelled_of en) (en_operations en) = Inr wss"
    using map_try_all [of "en_operations en" "cancelled_of en"] by blast
  from map_try_concat [OF wss each] wss show ?thesis by (simp add: cancelled_def concat_singletons comp_def)
qed

text \<open>Active work is of one kind: unsettled, deferred, or being cleaned up.\<close>

lemma unsettled_or_deferred:
  assumes reach: "reaches cfg en" and op: "operation_at en ref = Some op" and live: "\<not> op_cancelled op"
  shows "op_settlement op \<noteq> None \<longleftrightarrow> is_deferred op"
proof
  assume "op_settlement op \<noteq> None"
  then obtain s where s: "op_settlement op = Some s" by blast
  from reaches_settled [OF reach] op have inc: "\<not> complete op" by (simp add: settled_engine_def)
  then have "ex_promise (op_execution op) = None" "settlementCompletesExecution (op_settlement op) \<noteq> Inr True"
    using live by (auto simp: complete_def operationComplete_def op_cancelled_def op_settlement_def
        split: option.splits execution_outcome.splits if_splits)
  with s obtain v where v: "es_outcome s = Fulfilled v" by (auto simp: settlementCompletesExecution_def split: outcome.splits)
  from active_settlement_decodes [OF reach op s v] obtain x where x: "decode_result v = Some x" by blast
  with s v \<open>settlementCompletesExecution (op_settlement op) \<noteq> Inr True\<close> obtain h d u where "x = PromiseResult h d u"
    by (cases x) (auto simp: settlementCompletesExecution_def execution_result_of_def)
  with s v x live \<open>ex_promise (op_execution op) = None\<close> show "is_deferred op"
    by (simp add: is_deferred_def deferred_handle_def op_promised_def)
qed (auto simp: is_deferred_def deferred_handle_def split: option.splits)

lemma mset_three:
  "(\<And>x. x \<in> set xs \<Longrightarrow> P x \<and> \<not> Q x \<and> \<not> R x \<or> \<not> P x \<and> Q x \<and> \<not> R x \<or> \<not> P x \<and> \<not> Q x \<and> R x) \<Longrightarrow>
     mset (filter P xs) + mset (filter Q xs) + mset (filter R xs) = mset xs"
proof (induction xs)
  case (Cons x xs)
  from Cons.IH [OF Cons.prems] have "mset (filter P xs) + mset (filter Q xs) + mset (filter R xs) = mset xs" by simp
  with Cons.prems [of x] show ?case by auto
qed simp

end
