(* ===== verification/InvocationLookup.thy ===== *)
theory InvocationLookup
  imports Lifecycle
begin

text \<open>
  Admission state of an invocation from its committed records
  (\<open>packages/core/src/services/journal/invocation.ts\<close>): the records of the accepted reference, and
  the loop that classifies them as absent, pending or settled. \<open>lookup_lifecycle\<close> shows that for the
  history of an operation the loop agrees with \<open>operationComplete\<close>.
\<close>

section \<open>Selecting the records\<close>

definition identity_ok :: "invocation_identity \<Rightarrow> bool" where
  "identity_ok i \<longleftrightarrow> ii_atom i \<noteq> [] \<and> ii_act i \<noteq> [] \<and> origin_ok (ii_origin i)"

definition accepts_identity :: "invocation_identity \<Rightarrow> effect_requested \<Rightarrow> bool" where
  "accepts_identity i e \<longleftrightarrow> ref_atom (rq_ref e) = ii_atom i \<and> ref_act (rq_ref e) = ii_act i \<and> rq_origin e = ii_origin i"

fun accepted_keys :: "invocation_identity \<Rightarrow> recorded list \<Rightarrow> string list" where
  "accepted_keys i [] = []"
| "accepted_keys i (r # rs) =
     (case rec_event r of
        Core (EffectRequested e) \<Rightarrow>
          if requested_ok e \<and> accepts_identity i e then effectKey (rq_ref e) # accepted_keys i rs else accepted_keys i rs
      | _ \<Rightarrow> accepted_keys i rs)"

definition selectInvocationRecords :: "recorded list \<Rightarrow> invocation_identity \<Rightarrow> recorded list" where
  "selectInvocationRecords history i =
     (let refs = accepted_keys i history in
      filter (\<lambda>r. case rec_event r of
          Core e \<Rightarrow> core_event_ok e \<and> (case event_ref e of None \<Rightarrow> False | Some ref \<Rightarrow> effectKey ref \<in> set refs)
        | _ \<Rightarrow> False) history)"

section \<open>The lookup\<close>

datatype invocation_lookup = LookupAbsent | LookupPending effect_ref | LookupSettled effect_ref

record lookup_state =
  lk_ref :: "effect_ref option"
  lk_settled :: bool
  lk_cancelled :: bool
  lk_cleaned :: bool

definition lookup_requested :: "invocation_identity \<Rightarrow> effect_requested \<Rightarrow> lookup_state \<Rightarrow> runtime_error + lookup_state" where
  "lookup_requested i e st =
     (if lk_ref st \<noteq> None \<or> \<not> accepts_identity i e then Inl (Error ''Invocation index differs from its acceptance'')
      else Inr (st\<lparr>lk_ref := Some (rq_ref e)\<rparr>))"

fun lookup_lifecycle_event :: "core_event \<Rightarrow> lookup_state \<Rightarrow> runtime_error + lookup_state" where
  "lookup_lifecycle_event (EffectCancelled _) st = Inr (st\<lparr>lk_cancelled := True\<rparr>)"
| "lookup_lifecycle_event (CleanupOutcome c) st =
     Inr (if cleanupSucceeded (Some c) then st\<lparr>lk_cleaned := True\<rparr> else st)"
| "lookup_lifecycle_event (PromiseSettled _) st = Inr (st\<lparr>lk_settled := True\<rparr>)"
| "lookup_lifecycle_event (EffectDied _) st = Inr (st\<lparr>lk_settled := True\<rparr>)"
| "lookup_lifecycle_event (EffectSettled s) st =
     try_bind (settlementCompletesExecution (Some s)) (\<lambda>b. Inr (if b then st\<lparr>lk_settled := True\<rparr> else st))"
| "lookup_lifecycle_event _ st = Inr st"

definition lookup_record :: "invocation_identity \<Rightarrow> recorded \<Rightarrow> lookup_state \<Rightarrow> runtime_error + lookup_state" where
  "lookup_record i r st = (case rec_event r of
     Domain _ \<Rightarrow> Inl SchemaError
   | MessageReceived _ \<Rightarrow> Inl (Error ''Invocation lifecycle differs from its acceptance'')
   | Core e \<Rightarrow>
       if \<not> core_event_ok e then Inl SchemaError
       else (case e of
           EffectRequested q \<Rightarrow> lookup_requested i q st
         | _ \<Rightarrow> if lk_ref st = None \<or> event_ref e \<noteq> lk_ref st
                then Inl (Error ''Invocation lifecycle differs from its acceptance'')
                else lookup_lifecycle_event e st))"

fun lookup_records :: "invocation_identity \<Rightarrow> recorded list \<Rightarrow> lookup_state \<Rightarrow> runtime_error + lookup_state" where
  "lookup_records i [] st = Inr st"
| "lookup_records i (r # rs) st = try_bind (lookup_record i r st) (lookup_records i rs)"

definition lookupInvocation :: "(invocation_identity \<Rightarrow> recorded list) \<Rightarrow> invocation_identity \<Rightarrow> runtime_error + invocation_lookup" where
  "lookupInvocation read i =
     try_bind (check (identity_ok i) SchemaError) (\<lambda>_.
     try_bind (lookup_records i (read i) \<lparr>lk_ref = None, lk_settled = False, lk_cancelled = False, lk_cleaned = False\<rparr>) (\<lambda>st.
     Inr (case lk_ref st of
         None \<Rightarrow> LookupAbsent
       | Some ref \<Rightarrow> if (if lk_cancelled st then lk_cleaned st else lk_settled st) then LookupSettled ref else LookupPending ref)))"

section \<open>Lemmas\<close>

lemma lookup_records_append:
  "lookup_records i (xs @ ys) st = try_bind (lookup_records i xs st) (lookup_records i ys)"
proof (induction xs arbitrary: st)
  case (Cons r xs)
  then show ?case by (cases "lookup_record i r st") simp_all
qed simp

lemma lookup_record_lifecycle:
  "rec_event r = Core e \<Longrightarrow> core_event_ok e \<Longrightarrow> is_lifecycle e \<Longrightarrow> event_ref e = Some ref \<Longrightarrow> lk_ref st = Some ref \<Longrightarrow>
     lookup_record i r st = lookup_lifecycle_event e st"
  by (cases e) (auto simp: lookup_record_def)

text \<open>The decoded completions of a list of events.\<close>

fun completes_event :: "core_event \<Rightarrow> bool" where
  "completes_event (PromiseSettled _) = True"
| "completes_event (EffectDied _) = True"
| "completes_event (EffectSettled s) = (settlementCompletesExecution (Some s) = Inr True)"
| "completes_event _ = False"

fun cleans_event :: "core_event \<Rightarrow> bool" where
  "cleans_event (CleanupOutcome c) = cleanupSucceeded (Some c)"
| "cleans_event _ = False"

fun decodes_event :: "core_event \<Rightarrow> bool" where
  "decodes_event (EffectSettled s) = (\<exists>b. settlementCompletesExecution (Some s) = Inr b)"
| "decodes_event _ = True"

definition with_event :: "core_event \<Rightarrow> lookup_state \<Rightarrow> lookup_state" where
  "with_event e st = st\<lparr>lk_settled := lk_settled st \<or> completes_event e,
     lk_cancelled := lk_cancelled st \<or> is_cancellation e, lk_cleaned := lk_cleaned st \<or> cleans_event e\<rparr>"

lemma lookup_event_flags:
  "is_lifecycle e \<Longrightarrow> decodes_event e \<Longrightarrow> lookup_lifecycle_event e st = Inr (with_event e st)"
proof (cases e)
  case (EffectSettled s)
  assume "decodes_event e"
  with EffectSettled obtain b where "settlementCompletesExecution (Some s) = Inr b" by auto
  with EffectSettled show ?thesis by (simp add: with_event_def)
qed (simp_all add: with_event_def)

lemma with_event_simps [simp]:
  "lk_ref (with_event e st) = lk_ref st" "lk_settled (with_event e st) \<longleftrightarrow> lk_settled st \<or> completes_event e"
  "lk_cancelled (with_event e st) \<longleftrightarrow> lk_cancelled st \<or> is_cancellation e"
  "lk_cleaned (with_event e st) \<longleftrightarrow> lk_cleaned st \<or> cleans_event e"
  by (simp_all add: with_event_def)

text \<open>The records of one reference after its request, as the events they hold.\<close>

definition lifecycle_records :: "effect_ref \<Rightarrow> recorded list \<Rightarrow> core_event list \<Rightarrow> bool" where
  "lifecycle_records ref rs es \<longleftrightarrow> map rec_event rs = map Core es \<and>
     (\<forall>e \<in> set es. core_event_ok e \<and> is_lifecycle e \<and> event_ref e = Some ref)"

lemma lookup_lifecycle_events:
  "lifecycle_records ref rs es \<Longrightarrow> \<forall>e \<in> set es. decodes_event e \<Longrightarrow> lk_ref st = Some ref \<Longrightarrow>
     lookup_records i rs st = Inr (fold with_event es st)"
proof (induction rs arbitrary: es st)
  case Nil
  then show ?case by (simp add: lifecycle_records_def)
next
  case (Cons r rs)
  then obtain e es' where es: "es = e # es'" "rec_event r = Core e" "lifecycle_records ref rs es'"
    and e: "core_event_ok e" "is_lifecycle e" "event_ref e = Some ref" "decodes_event e"
    by (auto simp: lifecycle_records_def Cons_eq_map_conv)
  have "lookup_record i r st = Inr (with_event e st)"
    using lookup_record_lifecycle [OF es(2) e(1-3) Cons.prems(3)] lookup_event_flags [OF e(2,4)] by simp
  with Cons.IH [OF es(3), of "with_event e st"] Cons.prems es(1) show ?case by simp
qed

lemma fold_with_event:
  "lk_ref (fold with_event es st) = lk_ref st"
  "lk_settled (fold with_event es st) \<longleftrightarrow> lk_settled st \<or> list_ex completes_event es"
  "lk_cancelled (fold with_event es st) \<longleftrightarrow> lk_cancelled st \<or> list_ex is_cancellation es"
  "lk_cleaned (fold with_event es st) \<longleftrightarrow> lk_cleaned st \<or> list_ex cleans_event es"
  by (induction es arbitrary: st) auto

section \<open>Agreement with operation completeness\<close>

lemma lifecycle_event_ref:
  "lifecycle r t es op \<Longrightarrow> op_ref op = rq_ref r"
  by (induction rule: lifecycle.induct) (auto dest: lifecycle_event_identity simp: requested_operation_def)

lemma lifecycle_promises:
  "lifecycle r t es op \<Longrightarrow> (ex_promise (op_execution op) \<noteq> None) = list_ex is_promise es"
proof (induction rule: lifecycle.induct)
  case (lifecycle_step es op e op' c)
  then show ?case
    by (cases e)
       (auto simp: lifecycle_defs request_cleanup_def update_execution_def update_cleanup_def Let_def
             split: if_splits option.splits outcome.splits)
qed (simp add: requested_operation_def no_execution_def)

lemma list_ex_filter_eq: "filter p es = xs \<Longrightarrow> (\<And>e. q e \<Longrightarrow> p e) \<Longrightarrow> list_ex q es = list_ex q xs"
  by (auto simp: list_ex_iff)

text \<open>What the loop's flags amount to, on the history of an operation.\<close>

lemma lifecycle_complete:
  assumes "lifecycle r t es op" "\<forall>e \<in> set es. decodes_event e"
  shows "operationComplete op = Inr (if list_ex is_cancellation es then list_ex cleans_event es else list_ex completes_event es)"
proof -
  have cancelled: "list_ex is_cancellation es \<longleftrightarrow> op_cleanup op \<noteq> None"
    using list_ex_filter_eq [OF lifecycle_cancellations [OF assms(1)], of is_cancellation] by (auto split: option.splits)
  have cleaned: "list_ex cleans_event es \<longleftrightarrow> cleanupSucceeded (op_cleanup_outcome op)"
  proof -
    have "cleans_event e \<Longrightarrow> is_cleanup e" for e by (cases e) auto
    from list_ex_filter_eq [OF lifecycle_cleanups [OF assms(1)] this] show ?thesis
      by (auto simp: cleanupSucceeded_def split: option.splits)
  qed
  have settled: "list_ex (\<lambda>e. is_settled e \<and> completes_event e) es \<longleftrightarrow>
      settlementCompletesExecution (op_settlement op) = Inr True"
    using list_ex_filter_eq [OF lifecycle_settlements [OF assms(1)], of "\<lambda>e. is_settled e \<and> completes_event e"]
    by (auto simp: settlementCompletesExecution_def split: option.splits)
  have decodes: "\<exists>b. settlementCompletesExecution (op_settlement op) = Inr b"
  proof (cases "op_settlement op")
    case (Some s)
    then have "EffectSettled s \<in> set (filter is_settled es)" using lifecycle_settlements [OF assms(1)] by simp
    with assms(2) have "decodes_event (EffectSettled s)" by (meson filter_is_subset in_mono)
    with Some show ?thesis by simp
  qed (auto simp: settlementCompletesExecution_def)
  have split_completes: "list_ex completes_event es \<longleftrightarrow>
      list_ex is_died es \<or> list_ex is_promise es \<or> list_ex (\<lambda>e. is_settled e \<and> completes_event e) es"
  proof -
    have "completes_event e \<longleftrightarrow> is_died e \<or> is_promise e \<or> is_settled e \<and> completes_event e" for e by (cases e) auto
    then show ?thesis unfolding list_ex_iff by blast
  qed
  have died: "list_ex is_died es \<longleftrightarrow> (\<exists>d. ex_outcome (op_execution op) = Some (DiedOutcome d))"
    using lifecycle_died_alone [OF assms(1)]
    by (auto simp: list_ex_iff split: option.splits execution_outcome.splits)
  show ?thesis
  proof (cases "op_cleanup op")
    case (Some c)
    with cancelled cleaned show ?thesis by (simp add: operationComplete_def op_cleanup_outcome_def)
  next
    case None
    with cancelled died lifecycle_promises [OF assms(1)] settled decodes split_completes show ?thesis
      by (auto simp: operationComplete_def op_settlement_def split: option.splits execution_outcome.splits)
  qed
qed

text \<open>
  The lookup on the history of an operation: settled exactly when the operation is complete, whether
  its records come from the acceptance on or with unrelated records in between.
\<close>

lemma lookup_lifecycle:
  assumes "lifecycle q t es op" "\<forall>e \<in> set es. decodes_event e"
    and "identity_ok i" "requested_ok q" "accepts_identity i q"
    and "read i = r # rs" "rec_event r = Core (EffectRequested q)" "lifecycle_records (rq_ref q) rs es"
  shows "lookupInvocation read i = Inr (if operationComplete op = Inr True then LookupSettled (rq_ref q) else LookupPending (rq_ref q))"
proof -
  have "lookup_record i r \<lparr>lk_ref = None, lk_settled = False, lk_cancelled = False, lk_cleaned = False\<rparr> =
      Inr \<lparr>lk_ref = Some (rq_ref q), lk_settled = False, lk_cancelled = False, lk_cleaned = False\<rparr>"
    using assms(4,5,7) by (simp add: lookup_record_def lookup_requested_def)
  with assms(2,3,6) lookup_lifecycle_events [OF assms(8), of "\<lparr>lk_ref = Some (rq_ref q), lk_settled = False, lk_cancelled = False, lk_cleaned = False\<rparr>" i]
    lifecycle_complete [OF assms(1,2)]
  show ?thesis by (simp add: lookupInvocation_def fold_with_event)
qed

end
