(* ===== verification/EngineProperties.thy ===== *)
theory EngineProperties
  imports EngineWork InvocationLookup
begin

text \<open>
  What the invariants of the replay engine amount to: the active operations are the unfinished work of
  the journal, every journal written live is a lifecycle history for each reference, redelivered
  events are dropped, and a defect stops everything but reply delivery. A small actor with one act
  runs through the code's steps in the witnesses.
\<close>

section \<open>Reading an operation back\<close>

lemma readOperation_recorded:
  assumes "journal_ok js"
  shows "recordedOperation (readOperation js ref) ref = recordedOperation js ref"
proof -
  have filtered: "recordedOperation (readOperation js ref) ref = recordedOperation (drop (ref_seq ref) js) ref"
    by (simp add: readOperation_def recordedOperation_filter)
  show ?thesis
  proof (cases "recordedOperation js ref")
    case None
    then have "recordedOperation (drop (ref_seq ref) js) ref = None"
      unfolding recordedOperation_None by (meson in_set_dropD)
    with None filtered show ?thesis by simp
  next
    case (Some op)
    then obtain r e where r: "r \<in> set js" "rec_event r = Core (EffectRequested e)" "concerns ref r"
      using recordedOperation_None [of js ref] by auto
    then obtain i where i: "i < length js" "js ! i = r" by (auto simp: in_set_conv_nth)
    with r assms have "rq_ref e = ref" "ref_seq (rq_ref e) = i" by (auto simp: journal_ok_def concerns_Core)
    then have seq: "ref_seq ref = i" by simp
    have split: "js = take i js @ r # drop (Suc i) js" "drop i js = r # drop (Suc i) js"
      using i by (simp_all add: id_take_nth_drop Cons_nth_drop_Suc flip: i(2))
    have "operation_record ref r op' = Some (requested_operation e (rm_recordedAt r))" for op'
      using r(2,3) by (simp add: operation_record_def)
    then have "recordedOperation js ref = recordedOperation (drop i js) ref"
      by (subst split(1), subst split(2)) (simp add: recordedOperation_append, simp add: recordedOperation_def)
    with filtered seq show ?thesis by simp
  qed
qed

lemma known_operation_recorded:
  assumes "settled_engine en"
  shows "known_operation en ref = recordedOperation (en_journal en) ref"
proof (cases "operation_at en ref")
  case (Some op)
  with assms operation_at_ok show ?thesis by (auto simp: known_operation_def settled_engine_def engine_ok_def)
next
  case None
  have js: "journal_ok (en_journal en)" using assms by (simp add: settled_engine_def engine_ok_def)
  show ?thesis
  proof (cases "ref_seq ref < position en")
    case False
    with journal_ok_Some [OF js, of ref] have "recordedOperation (en_journal en) ref = None"
      by (cases "recordedOperation (en_journal en) ref") (auto simp: position_def)
    with None False show ?thesis by (simp add: known_operation_def)
  qed (use None readOperation_recorded [OF js] in \<open>simp add: known_operation_def\<close>)
qed

section \<open>Redelivery\<close>

text \<open>An admitted lifecycle event is recognised in the operation it leaves.\<close>

lemma redelivery_same: "redelivery cfg e e = Inr True"
  if "\<not> is_requested e"
  using that by (cases e) (simp_all add: redelivery_def)

lemma settled_again:
  assumes step: "lifecycle_event (Some op) (EffectSettled s) = Inr (op', c)"
    and admitted: "live_guard (Some op) (EffectSettled s) = Inr False"
  shows "live_guard (Some op') (EffectSettled s) = Inr False \<and> prior_event (Some op') (EffectSettled s) = Some (EffectSettled s)"
proof -
  from step have op': "op' = operation_event (EffectSettled s) op" by (rule lifecycle_event_agrees) simp_all
  then have "op_settlement op' = Some s" "op_cleanup op' = op_cleanup op"
    by (simp_all add: op_settlement_def operationSettlement_def update_execution_def)
  moreover from this have "op_cancelled op' = op_cancelled op" by (simp add: op_cancelled_def)
  ultimately show ?thesis using admitted by (simp add: live_guard_def prior_event_def split: if_splits)
qed

lemma died_again:
  "lifecycle_event (Some op) (EffectDied d) = Inr (op', c) \<Longrightarrow> live_guard (Some op') (EffectDied d) = Inr False"
  by (auto simp: lifecycle_died_def unfinished_def op_cancelled_def live_guard_def update_execution_def Let_def split: if_splits)

lemma cleanup_again:
  "lifecycle_event (Some op) (CleanupOutcome x) = Inr (op', c) \<Longrightarrow>
     live_guard (Some op') (CleanupOutcome x) = Inr False \<and> prior_event (Some op') (CleanupOutcome x) = Some (CleanupOutcome x)"
  by (auto simp: lifecycle_cleanup_def live_guard_def prior_event_def update_cleanup_def op_cancelled_def op_cleanup_outcome_def
           split: if_splits)

lemma promise_again:
  "lifecycle_event (Some op) (PromiseSettled x) = Inr (op', c) \<Longrightarrow> live_guard (Some op) (PromiseSettled x) = Inr False \<Longrightarrow>
     live_guard (Some op') (PromiseSettled x) = Inr False \<and> prior_event (Some op') (PromiseSettled x) = Some (PromiseSettled x)"
  by (auto simp: lifecycle_promise_def live_guard_def prior_event_def update_execution_def op_cancelled_def split: if_splits)

lemma retry_again:
  assumes "lifecycle_event (Some op) (RetryScheduled x) = Inr (op', c)"
  shows "live_guard (Some op') (RetryScheduled x) = Inr False \<and> prior_event (Some op') (RetryScheduled x) = Some (RetryScheduled x)"
proof (cases "rs_phase x = Some CancellationPhase")
  case True
  with assms show ?thesis
    by (auto simp: lifecycle_retry_def live_guard_def prior_event_def update_cleanup_def op_cancelled_def op_retry_def split: if_splits)
next
  case False
  with assms show ?thesis
    by (auto simp: lifecycle_retry_def unfinished_def live_guard_def prior_event_def update_execution_def op_cancelled_def op_retry_def
             split: if_splits)
qed

lemma cancelled_again:
  "lifecycle_event (Some op) (EffectCancelled x) = Inr (op', c) \<Longrightarrow> live_guard (Some op') (EffectCancelled x) = Inr True"
  by (auto simp: lifecycle_cancelled_def live_guard_def request_cleanup_def op_cancelled_def)

lemma redelivered_dropped:
  assumes "lifecycle_event (Some op) e = Inr (op', c)" "live_guard (Some op) e = Inr False"
  shows "live_guard (Some op') e = Inr True \<or>
    live_guard (Some op') e = Inr False \<and> (is_died e \<or> (\<exists>p. prior_event (Some op') e = Some p \<and> redelivery cfg p e = Inr True))"
proof (cases e)
  case (EffectSettled s)
  with assms settled_again [of op s op' c] show ?thesis by (simp add: redelivery_same)
next
  case (EffectDied d)
  with assms died_again [of op d op' c] show ?thesis by simp
next
  case (CleanupOutcome x)
  with assms cleanup_again [of op x op' c] show ?thesis by (simp add: redelivery_same)
next
  case (PromiseSettled x)
  with assms promise_again [of op x op' c] show ?thesis by (simp add: redelivery_same)
next
  case (RetryScheduled x)
  with assms retry_again [of op x op' c] show ?thesis by (simp add: redelivery_same)
next
  case (EffectCancelled x)
  with assms cancelled_again [of op x op' c] show ?thesis by simp
qed (use assms in simp_all)

text \<open>What a committed lifecycle event leaves is recognised, so the live checks drop it.\<close>

lemma neutral_recorded_list: "list_all neutral rs \<Longrightarrow> recordedOperation (js @ rs) ref = recordedOperation js ref"
proof (induction rs rule: rev_induct)
  case (snoc r rs)
  then show ?case using neutral_recorded [of r "js @ rs" ref] by simp
qed simp

lemma live_check_prior:
  "\<not> is_died e \<Longrightarrow> event_ref e = Some ref \<Longrightarrow> \<not> host_record e \<Longrightarrow> live_guard (known_operation en ref) e = Inr False \<Longrightarrow>
     prior_event (known_operation en ref) e = Some p \<Longrightarrow> live_check cfg en e = redelivery cfg p e"
  by (cases e) (simp_all add: live_check_def Let_def)

lemma committed_step:
  assumes commit: "commit_event cfg m (Core e) en = Inr en'" and settled: "settled_engine en"
    and live: "live_check cfg en e = Inr False" "core_event_ok e" and e: "is_lifecycle e" "event_ref e = Some ref"
  obtains op op' c where "operation_at en ref = Some op" "lifecycle_event (Some op) e = Inr (op', c)" "live_guard (Some op) e = Inr False"
    "settled_engine en'" "known_operation en' ref = Some op'" "en_defect en' = defect_after (Core e) (en_defect en)"
proof -
  from settled have ok: "engine_ok en" by (simp add: settled_engine_def)
  have new: "new_record en r" if "Core e = Core c" "rec_event r = Core c" for c r
    using live_check_new live that by blast
  show ?thesis
  proof (rule commit_event_steps [OF commit ok new])
    fix r en1 rs
    assume app: "engine_append cfg r en = Inr en1" and core: "\<And>c. Core e = Core c \<longleftrightarrow> rec_event r = Core c"
      and r: "valid_record r" and settled': "settled_engine en'" and rs: "list_all neutral rs" "en_journal en' = en_journal en @ r # rs"
      and defect: "en_defect en' = defect_after (rec_event r) (en_defect en)"
    from core have rec: "rec_event r = Core e" by blast
    obtain en2 en3 where rel: "release (Some (Core e)) en = Inr en2" and app': "apply_lifecycle e ref en2 = Inr en3"
      using engine_append_lifecycle [OF app rec e] by blast
    then obtain op' c where step: "lifecycle_event (operation_at en2 ref) e = Inr (op', c)" by (auto simp: apply_lifecycle_def)
    then obtain op where op2: "operation_at en2 ref = Some op" using lifecycle_event_Some by blast
    then have op: "operation_at en ref = Some op" using release_ok [OF rel ok] releasedD by blast
    have host: "\<not> host_record e" using e(1) by (simp add: host_record_def)
    have known: "known_operation en ref = Some op" using op by (simp add: known_operation_def)
    with live(1) e host have guard: "live_guard (Some op) e = Inr False"
      by (auto simp: live_check_def Let_def split: if_splits)
    have fresh: "\<not> op_cancelled op" if "e = EffectCancelled x" for x
      using guard that by (auto simp: live_guard_def split: if_splits)
    have con: "concerns ref r" using rec r e by (simp add: concerns_Core valid_record_def)
    have "recordedOperation (en_journal en) ref = Some op" using ok op operation_at_ok by (simp add: engine_ok_def)
    then have "recordedOperation (en_journal en @ [r]) ref = Some (operation_event e op)"
      using con rec e(1) by (cases e) (simp_all add: recordedOperation_snoc operation_record_def)
    then have "known_operation en' ref = Some op'"
      using known_operation_recorded [OF settled'] neutral_recorded_list [OF rs(1), of "en_journal en @ [r]"] rs(2)
        lifecycle_event_agrees [OF step [unfolded op2]] fresh by simp
    with that [OF op step [unfolded op2] guard settled'] defect rec show thesis by simp
  qed
qed

text \<open>Which roots are asked, and who proposes new work.\<close>

lemma map_try_member: "map_try f xs = Inr ys \<Longrightarrow> y \<in> set ys \<Longrightarrow> \<exists>x \<in> set xs. f x = Inr y"
  by (induction xs arbitrary: ys) auto

lemma collected_proposal: "collect_proposals name b ps = Inr cs \<Longrightarrow> (path, root, p) \<in> set cs \<Longrightarrow> root = name"
  by (auto simp: collect_proposals_def Let_def split: option.splits if_splits dest!: map_try_member)

lemma collected_root:
  assumes "collect_candidates True roots = Inr candidates" "(path, root, p) \<in> set candidates"
  shows "root = replies_atom"
proof -
  from assms(1) obtain css where css: "map_try collect_root (filter (\<lambda>(name, _). name = replies_atom) roots) = Inr css"
    "candidates = concat css" by (auto simp: collect_candidates_def)
  with assms(2) obtain cs where cs: "cs \<in> set css" "(path, root, p) \<in> set cs" by auto
  from map_try_member [OF css(1) cs(1)] obtain r where r: "fst r = replies_atom" "collect_root r = Inr cs" by auto
  with cs(2) show ?thesis
    by (auto simp: collect_root_def split: root_value.splits if_splits dest!: collected_proposal)
qed

lemma proposed_atom:
  assumes "process_candidate cfg (path, root, p) (names, en, ws) = Inr (names', en', ws')" "w \<in> set ws'"
  shows "w \<in> set ws \<or> wk_atom w = root"
proof -
  from assms obtain new where new: "ws' = ws @ new"
    "new = [] \<or> (\<exists>a. p = ActProposal a \<and> propose_act cfg path root a en = Inr (en', new))"
    by (cases p) (auto simp: process_candidate_def split: if_splits)
  have "wk_atom w = root" if "propose_act cfg path root a en = Inr (en', new)" "w \<in> set new" for a
    using that by (auto simp: propose_act_def Let_def split: option.splits)
  with new assms(2) show ?thesis by auto
qed

section \<open>A small actor\<close>

text \<open>
  One root proposes one act on an empty journal and withdraws it after two records; its hash is the
  identity. The witnesses run it.
\<close>

definition demo_hasher :: "string hasher" where
  "demo_hasher = \<lparr>h_init = [], h_update = (@), h_digest = (\<lambda>s. s)\<rparr>"

definition demo_request :: act_request where
  "demo_request = \<lparr>pr_identity = 0, pr_request = \<lparr>er_act = ''fetch'', er_input = JInt 7\<rparr>, pr_origin = None,
     pr_onRequested = None, pr_onDeferred = None, pr_onSettled = None\<rparr>"

definition demo_roots :: "observation \<Rightarrow> runtime_error + (string \<times> root_value) list" where
  "demo_roots ob = Inr [(''root'', ActorOutput (Some [])
     (Some (if length (ob_records ob) < 2 then [(''main'', ActProposal demo_request)] else [])))]"

definition demo_config :: "string actor_config" where
  "demo_config = \<lparr>cfg_hasher = demo_hasher, cfg_min_bytes = 2048, cfg_validate = Some, cfg_read = Some, cfg_roots = demo_roots\<rparr>"

definition demo_ref :: effect_ref where
  "demo_ref = \<lparr>ref_seq = 0, ref_atom = ''root'', ref_act = ''fetch''\<rparr>"

definition demo_requested :: effect_requested where
  "demo_requested = \<lparr>rq_ref = demo_ref, rq_origin = None, rq_request = \<lparr>sr_act = ''fetch'', sr_input = InlineInput (JInt 7)\<rparr>\<rparr>"

definition demo_settled :: effect_settled where
  "demo_settled = \<lparr>es_ref = demo_ref, es_outcome = Fulfilled (encode_result (ValueResult (JInt 8)))\<rparr>"

definition demo_died :: effect_died where
  "demo_died = \<lparr>died_ref = demo_ref, died_diagnostic = ''lost''\<rparr>"

definition demo_cancelled :: effect_cancelled where
  "demo_cancelled = \<lparr>cancel_ref = demo_ref, cancel_reason = JNull\<rparr>"

fun run_live :: "'s actor_config \<Rightarrow> journal_event list \<Rightarrow> runtime_error + engine" where
  "run_live cfg es = try_bind (createEngine cfg [] [] []) (fold_try (live_append cfg no_metadata) es)"

lemma run_live_reaches: "run_live cfg es = Inr en \<Longrightarrow> reaches cfg en"
proof -
  assume "run_live cfg es = Inr en"
  then obtain en0 where created: "createEngine cfg [] [] [] = Inr en0" and run: "fold_try (live_append cfg no_metadata) es en0 = Inr en"
    by auto
  show "reaches cfg en"
    by (rule fold_try_invariant [OF run]) (auto intro: reaches_new [OF _ created] reaches_append)
qed

definition demo_engine :: "journal_event list \<Rightarrow> engine" where
  "demo_engine es = (case run_live demo_config es of Inr en \<Rightarrow> en | Inl _ \<Rightarrow> new_engine [] None [] None)"

lemma demo_engine_run: "\<not> isl (run_live demo_config es) \<Longrightarrow> run_live demo_config es = Inr (demo_engine es)"
  by (cases "run_live demo_config es") (simp_all add: demo_engine_def del: run_live.simps)

lemma fold_try_single: "try_bind r (fold_try f []) = r"
  by (cases r) simp_all

lemma run_live_snoc: "run_live cfg (es @ [e]) = try_bind (run_live cfg es) (live_append cfg no_metadata e)"
proof (cases "createEngine cfg [] [] []")
  case (Inr en)
  then show ?thesis
    by (cases "fold_try (live_append cfg no_metadata) es en") (simp_all add: fold_try_append fold_try_single)
qed simp

lemma demo_engine_snoc:
  assumes "\<not> isl (run_live demo_config es)" "\<not> isl (run_live demo_config (es @ [e]))"
  shows "live_append demo_config no_metadata e (demo_engine es) = Inr (demo_engine (es @ [e]))"
  using demo_engine_run [OF assms(2)] run_live_snoc [of demo_config es e] demo_engine_run [OF assms(1)]
  by (simp del: run_live.simps)

lemmas demo_engine_reaches = run_live_reaches [OF demo_engine_run]

text \<open>The actor before and after its act settles.\<close>

definition demo_running :: engine where
  "demo_running = demo_engine [Core (EffectRequested demo_requested)]"

definition demo_finished :: engine where
  "demo_finished = demo_engine [Core (EffectRequested demo_requested), Core (EffectSettled demo_settled)]"

lemma demo_running_reaches: "reaches demo_config demo_running"
  unfolding demo_running_def by (rule demo_engine_reaches) code_simp

lemma demo_finished_reaches: "reaches demo_config demo_finished"
  unfolding demo_finished_def by (rule demo_engine_reaches) code_simp

lemma demo_finishes: "live_append demo_config no_metadata (Core (EffectSettled demo_settled)) demo_running = Inr demo_finished"
  unfolding demo_running_def demo_finished_def
  by (rule demo_engine_snoc [of "[Core (EffectRequested demo_requested)]" "Core (EffectSettled demo_settled)", unfolded append.simps])
     code_simp+

section \<open>Properties of the engine\<close>

text \<open>
  C2. The active operations of a reachable engine are exactly the unfinished work of its journal: the
  operation reconstructed from the records, unless it is complete.
\<close>

theorem active_operations:
  assumes "reaches cfg en"
  shows "operation_at en ref = (case recordedOperation (en_journal en) ref of
    None \<Rightarrow> None | Some op \<Rightarrow> if operationComplete op = Inr True then None else Some op)"
proof (cases "operation_at en ref")
  case None
  with reaches_settled [OF assms] show ?thesis
    by (auto simp: settled_engine_def engine_ok_def operations_ok_def complete_def split: option.splits)
next
  case (Some op)
  with reaches_settled [OF assms] operation_at_ok [of en ref op] show ?thesis
    by (auto simp: settled_engine_def engine_ok_def complete_def)
qed

theorem active_operations_witness:
  "operation_at demo_running demo_ref = Some (requested_operation demo_requested None) \<and>
   (case recordedOperation (en_journal demo_running) demo_ref of
      None \<Rightarrow> None | Some op \<Rightarrow> if operationComplete op = Inr True then None else Some op)
     = Some (requested_operation demo_requested None)"
proof -
  have "operation_at demo_running demo_ref = Some (requested_operation demo_requested None)" by code_simp
  with active_operations [OF demo_running_reaches, of demo_ref] show ?thesis by simp
qed

text \<open>
  C5. The history of an accepted reference in the journal of a reachable engine: at most one settlement,
  one cancellation and one cleanup outcome, retries of each phase numbered from one without a gap, and
  nothing after a defect.
\<close>

theorem lifecycle_exclusive:
  assumes "reaches cfg en" "recordedOperation (en_journal en) ref = Some op"
  shows "length (filter is_settled (lifecycle_events ref (en_journal en))) \<le> 1 \<and>
    length (filter is_cancellation (lifecycle_events ref (en_journal en))) \<le> 1 \<and>
    length (filter is_cleanup (lifecycle_events ref (en_journal en))) \<le> 1 \<and>
    (\<exists>n. attempts False (lifecycle_events ref (en_journal en)) = [1..<n]) \<and>
    (\<exists>n. attempts True (lifecycle_events ref (en_journal en)) = [1..<n]) \<and>
    (\<exists>es d. lifecycle_events ref (en_journal en) = es @ map EffectDied d \<and> length d \<le> 1 \<and> (\<forall>e \<in> set es. \<not> is_died e))"
proof -
  let ?es = "lifecycle_events ref (en_journal en)"
  from reaches_settled [OF assms(1)] have "journal_ok (en_journal en)" by (simp add: settled_engine_def engine_ok_def)
  from journal_ok_Some [OF this assms(2)] have run: "lifecycle (op_request op) (op_recordedAt op) ?es op" by simp
  have "\<exists>es d. ?es = es @ map EffectDied d \<and> length d \<le> 1 \<and> (\<forall>e \<in> set es. \<not> is_died e)"
  proof (cases "\<exists>d. ex_outcome (op_execution op) = Some (DiedOutcome d)")
    case True
    with lifecycle_died_alone [OF run] obtain d es where "?es = es @ map EffectDied [d]" "\<forall>e \<in> set es. \<not> is_died e" by auto
    moreover have "length [d] \<le> 1" by simp
    ultimately show ?thesis by blast
  next
    case False
    with lifecycle_died_alone [OF run] have "\<forall>e \<in> set ?es. \<not> is_died e" by (auto split: option.splits execution_outcome.splits)
    then show ?thesis by (intro exI [of _ ?es] exI [of _ "[]"]) simp
  qed
  moreover have "\<exists>n. attempts phase ?es = [1..<n]" for phase using lifecycle_attempts [OF run] by blast
  ultimately show ?thesis
    using lifecycle_settlements [OF run] lifecycle_cancellations [OF run] lifecycle_cleanups [OF run]
    by (simp split: option.splits)
qed

theorem lifecycle_exclusive_witness:
  "length (filter is_settled (lifecycle_events demo_ref (en_journal demo_finished))) \<le> 1 \<and>
   filter is_settled (lifecycle_events demo_ref (en_journal demo_finished)) \<noteq> []"
proof -
  have "recordedOperation (en_journal demo_finished) demo_ref \<noteq> None" by code_simp
  then have op: "\<exists>op. recordedOperation (en_journal demo_finished) demo_ref = Some op" by blast
  have "filter is_settled (lifecycle_events demo_ref (en_journal demo_finished)) \<noteq> []" by code_simp
  with lifecycle_exclusive [OF demo_finished_reaches] op show ?thesis by blast
qed

text \<open>
  C3. Delivering a lifecycle event again is idempotent: once a live append has admitted it on a
  defect-free engine, a second delivery, whatever its metadata, leaves the engine as it is.
\<close>

theorem redelivery_idempotent:
  assumes reach: "reaches cfg en" and healthy: "en_defect en = None" and e: "is_lifecycle e"
    and first: "live_append cfg m (Core e) en = Inr en'"
  shows "live_append cfg m' (Core e) en' = Inr en'"
proof -
  have settled: "settled_engine en" using reach by (rule reaches_settled)
  from first have ok: "core_event_ok e" by (auto simp: live_append_def dest: eventOf_of_Core)
  then have ev: "eventOf cfg reply False (Core e) = Inr (Core e)" for reply by (simp add: eventOf_def)
  obtain ref where ref: "event_ref e = Some ref" using e by (cases e) auto
  have host: "\<not> host_record e" using e by (simp add: host_record_def)
  from first healthy obtain dropped where live: "live_check cfg en e = Inr dropped"
    and rest: "if dropped then en' = en else commit_event cfg m (Core e) en = Inr en'"
    by (auto simp: live_append_def ev split: if_splits)
  show ?thesis
  proof (cases dropped)
    case True
    with live rest healthy show ?thesis by (simp add: live_append_def ev)
  next
    case False
    with live rest have "commit_event cfg m (Core e) en = Inr en'" "live_check cfg en e = Inr False" by simp_all
    from committed_step [OF this(1) settled this(2) ok e ref] obtain op op' c where
      step: "lifecycle_event (Some op) e = Inr (op', c)" "live_guard (Some op) e = Inr False"
      and known: "known_operation en' ref = Some op'" and defect: "en_defect en' = defect_after (Core e) (en_defect en)" by metis
    have "live_check cfg en' e = Inr True"
      using redelivered_dropped [OF step, of cfg]
    proof (elim disjE conjE exE)
      assume "live_guard (Some op') e = Inr False" "is_died e"
      moreover from this obtain d where "e = EffectDied d" by (cases e) auto
      ultimately show ?thesis using known defect healthy ref host by (simp add: live_check_def defect_after_def)
    next
      fix p
      assume p: "live_guard (Some op') e = Inr False" "prior_event (Some op') e = Some p" "redelivery cfg p e = Inr True"
      show ?thesis
      proof (cases "is_died e")
        case True
        then obtain d where "e = EffectDied d" by (cases e) auto
        then show ?thesis using p(1) known defect healthy ref host by (simp add: live_check_def defect_after_def)
      qed (use live_check_prior [OF _ ref host, of en' p cfg] p known in simp)
    qed (simp add: live_check_def known ref host)
    moreover have "en_defect en' = None \<or> admitted_after_defect en' (Core e) = Inr True"
      using defect healthy ref by (cases e) (auto simp: defect_after_def admitted_after_defect_def)
    ultimately show ?thesis by (cases "en_defect en'") (simp_all add: live_append_def ev ex_bool_eq)
  qed
qed

theorem redelivery_idempotent_witness:
  "en_defect demo_running = None \<and>
   live_append demo_config \<lparr>rm_message = None, rm_recordedAt = Some 5\<rparr> (Core (EffectSettled demo_settled)) demo_finished = Inr demo_finished"
proof -
  have healthy: "en_defect demo_running = None" by code_simp
  from redelivery_idempotent [OF demo_running_reaches healthy _ demo_finishes] healthy show ?thesis by simp
qed


text \<open>
  C1. Crash recovery: replaying the journal of a reachable engine from the start, when the atoms let it
  through, gives an engine with the same active operations and the same defect.
\<close>

theorem recovery_agrees:
  assumes "reaches cfg en" "createEngine cfg [] inputs (en_journal en) = Inr en'"
  shows "operation_at en' ref = operation_at en ref \<and> en_defect en' = en_defect en"
proof -
  note here = reaches_reachable [OF assms(1)]
  have "journal_written ([] @ en_journal en)" using here by (simp add: reachable_ok_def)
  note there = createEngine_agrees [OF assms(2) this quiescent_Nil]
  have a: "agrees en' (en_journal en)" "settled_engine en'" using there by simp_all
  have b: "agrees en (en_journal en)" "settled_engine en" using here reachable_agrees by (simp_all add: reachable_ok_def)
  from agrees_operations [OF a b] a(1) b(1) show ?thesis by (simp add: agrees_def)
qed

theorem recovery_agrees_witness:
  "\<exists>en'. createEngine demo_config [] [] (en_journal demo_running) = Inr en' \<and>
     operation_at en' demo_ref = operation_at demo_running demo_ref"
proof -
  have "\<not> isl (createEngine demo_config [] [] (en_journal demo_running))" by code_simp
  then obtain en' where "createEngine demo_config [] [] (en_journal demo_running) = Inr en'"
    by (cases "createEngine demo_config [] [] (en_journal demo_running)") auto
  with recovery_agrees [OF demo_running_reaches] show ?thesis by blast
qed

text \<open>
  C6. Recovery behind a checkpoint: an engine rebuilt from an earlier engine's checkpoint and the records
  written since holds the same active operations and defect as the engine that wrote them.
\<close>

theorem checkpoint_recovery_agrees:
  assumes "reaches cfg saved" "checkpoint saved = Some pos" "reaches cfg en"
    and suffix: "en_journal en = en_journal saved @ history"
    and created: "createEngine cfg (take pos (en_journal en)) inputs (drop pos (en_journal en)) = Inr en'"
  shows "operation_at en' ref = operation_at en ref \<and> en_defect en' = en_defect en"
proof -
  from assms(2) have pos: "pos = length (en_journal saved)" by (auto simp: checkpoint_def position_def split: if_splits)
  note here = reaches_reachable [OF assms(3)]
  have "journal_written (en_journal saved @ history)" using here suffix by (simp add: reachable_ok_def)
  moreover have "createEngine cfg (en_journal saved) inputs history = Inr en'" using created suffix pos by simp
  ultimately have "agrees en' (en_journal saved @ history) \<and> settled_engine en'"
    using createEngine_agrees checkpoint_quiescent [OF reaches_reachable [OF assms(1)]] assms(2) by blast
  then have a: "agrees en' (en_journal en)" "settled_engine en'" using suffix by simp_all
  have b: "agrees en (en_journal en)" "settled_engine en" using here reachable_agrees by (simp_all add: reachable_ok_def)
  from agrees_operations [OF a b] a(1) b(1) show ?thesis by (simp add: agrees_def)
qed

theorem checkpoint_recovery_agrees_witness:
  "checkpoint demo_finished = Some 2 \<and>
   (\<exists>en'. createEngine demo_config (take 2 (en_journal demo_finished)) [] (drop 2 (en_journal demo_finished)) = Inr en' \<and>
     operation_at en' demo_ref = operation_at demo_finished demo_ref)"
proof -
  let ?c = "createEngine demo_config (take 2 (en_journal demo_finished)) [] (drop 2 (en_journal demo_finished))"
  have cp: "checkpoint demo_finished = Some 2" by code_simp
  have "\<not> isl ?c" by code_simp
  then obtain en' where "?c = Inr en'" by (cases ?c) auto
  with checkpoint_recovery_agrees [OF demo_finished_reaches cp demo_finished_reaches, of "[]"] cp show ?thesis by auto
qed

text \<open>What work is offered of an operation: everything, and after a defect cleanups and replies only.\<close>

definition offered :: "'d option \<Rightarrow> stored_operation \<Rightarrow> bool" where
  "offered defect op \<longleftrightarrow> defect = None \<or> op_cancelled op \<or> op_settlement op = None \<and> ref_atom (op_ref op) = replies_atom"

text \<open>
  C4. The work lists of a reachable engine never fail to be built. Without a defect they name every active
  operation exactly once: pending when unsettled, deferred when settled with an open promise, cancelled
  when its cleanup is owed. After a defect they name exactly once the operations whose cleanup is owed and
  the unsettled ones of the replies, and no other.
\<close>

theorem work_partition:
  assumes reach: "reaches cfg en"
  shows "\<exists>p d c. pending en = Inr p \<and> deferred en = Inr d \<and> cancelled en = Inr c \<and>
    mset (map fst p) + mset (map dw_ref d) + mset (map acn_ref c) =
      mset (map op_ref (filter (offered (en_defect en)) (map snd (en_operations en))))"
proof -
  let ?ref = "op_ref \<circ> snd" and ?offered = "offered (en_defect en) \<circ> snd"
  let ?all = "en_operations en" and ?ops = "filter (offered (en_defect en) \<circ> snd) (en_operations en)"
  let ?deferred = "\<lambda>x. en_defect en = None \<and> is_deferred (snd x)"
  from pending_total [OF reach] obtain p where p: "pending en = Inr p" "map fst p = map ?ref (filter (is_pending en \<circ> snd) ?all)" by blast
  from deferred_total [OF reach] obtain d where d: "deferred en = Inr d" "map dw_ref d = map ?ref (filter ?deferred ?all)"
    by (cases "en_defect en") (auto simp: comp_def)
  from cancelled_total [OF reach] obtain c where c: "cancelled en = Inr c"
    and "map (\<lambda>w. (acn_ref w, acn_handle w)) c = map (\<lambda>x. (op_ref (snd x), deferred_handle (snd x))) (filter (op_cancelled \<circ> snd) ?all)"
    by blast
  from arg_cong [OF this(2), of "map fst"] have c': "map acn_ref c = map ?ref (filter (op_cancelled \<circ> snd) ?all)"
    by (simp add: comp_def)
  have ok: "engine_ok en" using reaches_settled [OF reach] by (simp add: settled_engine_def)
  have each: "(is_pending en \<circ> snd) x \<and> \<not> ?deferred x \<and> \<not> (op_cancelled \<circ> snd) x \<or>
      \<not> (is_pending en \<circ> snd) x \<and> ?deferred x \<and> \<not> (op_cancelled \<circ> snd) x \<or>
      \<not> (is_pending en \<circ> snd) x \<and> \<not> ?deferred x \<and> (op_cancelled \<circ> snd) x" if "x \<in> set ?ops" for x
  proof -
    from that have "operation_at en (op_ref (snd x)) = Some (snd x)" using operation_entry(2) [OF ok, of "fst x" "snd x"] by simp
    from unsettled_or_deferred [OF reach this] that show ?thesis
      by (auto simp: is_pending_def is_deferred_def offered_def)
  qed
  have within: "(is_pending en \<circ> snd) x \<or> ?deferred x \<or> (op_cancelled \<circ> snd) x \<Longrightarrow> ?offered x" for x
    by (auto simp: is_pending_def offered_def)
  have parts: "filter (is_pending en \<circ> snd) ?ops = filter (is_pending en \<circ> snd) ?all" "filter ?deferred ?ops = filter ?deferred ?all"
      "filter (op_cancelled \<circ> snd) ?ops = filter (op_cancelled \<circ> snd) ?all"
    unfolding filter_filter by (rule filter_cong; use within in blast)+
  have "mset (filter (is_pending en \<circ> snd) ?ops) + mset (filter ?deferred ?ops) + mset (filter (op_cancelled \<circ> snd) ?ops) = mset ?ops"
    by (rule mset_three) (rule each)
  then have "mset (map fst p) + mset (map dw_ref d) + mset (map acn_ref c) = mset (map ?ref ?ops)"
    unfolding parts p(2) d(2) c' mset_map image_mset_union [symmetric] by (rule arg_cong)
  with p(1) d(1) c show ?thesis by (auto simp: filter_map comp_def)
qed

theorem work_partition_witness:
  "en_defect demo_running = None \<and>
   (\<exists>p d c. pending demo_running = Inr p \<and> deferred demo_running = Inr d \<and> cancelled demo_running = Inr c \<and>
     mset (map fst p) + mset (map dw_ref d) + mset (map acn_ref c) = {#demo_ref#})"
proof -
  have healthy: "en_defect demo_running = None" by code_simp
  have "map op_ref (filter (offered (en_defect demo_running)) (map snd (en_operations demo_running))) = [demo_ref]" by code_simp
  with work_partition [OF demo_running_reaches] healthy show ?thesis by (simp only: mset.simps)
qed

text \<open>
  Taking a snapshot of a reachable engine fails only when the atoms fail: the inputs, acts and
  settlements it reads are all there.
\<close>

theorem snapshot_total:
  assumes "reaches cfg en" "effects cfg en = Inr (en', ws)"
  shows "\<exists>sn. snapshotOf cfg en = Inr sn \<and> sn_engine sn = en' \<and> sn_work sn = ws"
proof -
  have reach: "reaches cfg en'" using assms by (rule reaches_observe)
  from pending_total [OF reach] deferred_total [OF reach] cancelled_total [OF reach] assms(2) show ?thesis
    by (auto simp: snapshotOf_def)
qed

theorem snapshot_total_witness: "\<exists>sn. snapshotOf demo_config demo_running = Inr sn"
proof -
  have "\<not> isl (effects demo_config demo_running)" by code_simp
  then obtain en' ws where "effects demo_config demo_running = Inr (en', ws)"
    by (cases "effects demo_config demo_running") auto
  with snapshot_total [OF demo_running_reaches] show ?thesis by blast
qed

text \<open>
  A live append leaves the engine as it is or extends its journal by one batch: the event, under the
  metadata given, followed by records that move no operation.
\<close>

theorem append_one_batch:
  assumes "reaches cfg en" "live_append cfg m event en = Inr en'"
  shows "en' = en \<or> (\<exists>r rs. en_journal en' = en_journal en @ r # rs \<and> list_all neutral rs \<and>
    rm_recordedAt r = rm_recordedAt m \<and> (\<forall>e. event = Core e \<longleftrightarrow> rec_event r = Core e))"
  using assms(2)
proof (cases rule: live_append_steps)
  case (committed e)
  have new: "new_record en r" if "e = Core c" "rec_event r = Core c" for c r
    using live_check_new that committed(3) by blast
  have ok: "engine_ok en" using reaches_settled [OF assms(1)] by (simp add: settled_engine_def)
  show ?thesis
  proof (rule commit_event_steps [OF committed(1) ok new])
    fix r en1 rs
    assume "\<And>c. e = Core c \<longleftrightarrow> rec_event r = Core c" "rm_recordedAt r = rm_recordedAt m"
      "list_all neutral rs" "en_journal en' = en_journal en @ r # rs"
    with committed(2) show ?thesis by blast
  qed
qed simp

theorem append_one_batch_witness:
  "\<exists>r rs. en_journal demo_finished = en_journal demo_running @ r # rs \<and> rec_event r = Core (EffectSettled demo_settled)"
proof -
  have "length (en_journal demo_finished) \<noteq> length (en_journal demo_running)" by code_simp
  then have "demo_finished \<noteq> demo_running" by metis
  with append_one_batch [OF demo_running_reaches demo_finishes] show ?thesis by blast
qed

text \<open>
  A request is recorded at the position its reference names, so no two requests of a journal share a
  reference.
\<close>

theorem request_positions:
  assumes "reaches cfg en" "i < length (en_journal en)" "rec_event (en_journal en ! i) = Core (EffectRequested e)"
    and "j < length (en_journal en)" "rec_event (en_journal en ! j) = Core (EffectRequested e')" "rq_ref e = rq_ref e'"
  shows "ref_seq (rq_ref e) = i \<and> i = j"
proof -
  from reaches_settled [OF assms(1)] have "journal_ok (en_journal en)" by (simp add: settled_engine_def engine_ok_def)
  with assms(2-5) have "ref_seq (rq_ref e) = i" "ref_seq (rq_ref e') = j" unfolding journal_ok_def by blast+
  with assms(6) show ?thesis by simp
qed

theorem request_positions_witness: "rec_event (en_journal demo_running ! 0) = Core (EffectRequested demo_requested) \<and> ref_seq (rq_ref demo_requested) = 0"
proof -
  have "rec_event (en_journal demo_running ! 0) = Core (EffectRequested demo_requested)" "0 < length (en_journal demo_running)" by code_simp+
  with request_positions [OF demo_running_reaches this(2,1) this(2,1) refl] show ?thesis by simp
qed

text \<open>
  C28. Settlement and cancellation race for an operation and the first one recorded wins: a cancellation
  that comes after the settlement or the promise is dropped, and so is a value or a failure that comes
  after the cancellation, unless the cleanup was acknowledged, when it is refused.
\<close>

theorem settlement_cancellation_race:
  assumes reach: "reaches cfg en" and healthy: "en_defect en = None" and op: "recordedOperation (en_journal en) ref = Some op"
  shows "(op_cleanup op = None \<and> settlementCompletesExecution (op_settlement op) = Inr True \<and> core_event_ok (EffectCancelled c) \<and>
      cancel_ref c = ref \<longrightarrow> live_append cfg m (Core (EffectCancelled c)) en = Inr en) \<and>
    (op_cleanup op \<noteq> None \<and> core_event_ok (EffectSettled s) \<and> es_ref s = ref \<and>
      settlementCompletesExecution (Some s) = Inr True \<longrightarrow>
      live_append cfg m (Core (EffectSettled s)) en =
        (if cleanupSucceeded (op_cleanup_outcome op) \<and> op_settlement op = None
         then Inl (Error ''Acknowledged cleanup cannot accept a new submission'') else Inr en))"
proof -
  have known: "known_operation en ref = Some op"
    using known_operation_recorded [OF reaches_settled [OF reach]] op by simp
  have "live_append cfg m (Core (EffectCancelled c)) en = Inr en"
    if "op_cleanup op = None" "settlementCompletesExecution (op_settlement op) = Inr True"
      "core_event_ok (EffectCancelled c)" "cancel_ref c = ref"
  proof -
    have "live_guard (Some op) (EffectCancelled c) = Inr True" using that by (simp add: live_guard_def)
    with that known have "live_check cfg en (EffectCancelled c) = Inr True" by (simp add: live_check_def host_record_def)
    with that healthy show ?thesis by (simp add: live_append_def eventOf_def del: core_event_ok.simps)
  qed
  moreover have "live_append cfg m (Core (EffectSettled s)) en =
      (if cleanupSucceeded (op_cleanup_outcome op) \<and> op_settlement op = None
       then Inl (Error ''Acknowledged cleanup cannot accept a new submission'') else Inr en)"
    if s: "op_cleanup op \<noteq> None" "core_event_ok (EffectSettled s)" "es_ref s = ref" "settlementCompletesExecution (Some s) = Inr True"
  proof -
    have "live_guard (Some op) (EffectSettled s) =
      (if cleanupSucceeded (op_cleanup_outcome op) \<and> op_settlement op = None
       then Inl (Error ''Acknowledged cleanup cannot accept a new submission'') else Inr True)"
      using s by (auto simp: live_guard_def op_cancelled_def settlementCompletesExecution_def split: outcome.splits)
    with s known have "live_check cfg en (EffectSettled s) =
      (if cleanupSucceeded (op_cleanup_outcome op) \<and> op_settlement op = None
       then Inl (Error ''Acknowledged cleanup cannot accept a new submission'') else Inr True)"
      by (simp add: live_check_def host_record_def)
    with s(2) healthy show ?thesis by (simp add: live_append_def eventOf_def ex_bool_eq del: core_event_ok.simps)
  qed
  ultimately show ?thesis by blast
qed

theorem settlement_cancellation_race_witness:
  "live_append demo_config no_metadata (Core (EffectCancelled demo_cancelled)) demo_finished = Inr demo_finished"
proof -
  have "recordedOperation (en_journal demo_finished) demo_ref \<noteq> None \<and>
    (case recordedOperation (en_journal demo_finished) demo_ref of None \<Rightarrow> False | Some op \<Rightarrow>
       op_cleanup op = None \<and> settlementCompletesExecution (op_settlement op) = Inr True)"
    "en_defect demo_finished = None" "core_event_ok (EffectCancelled demo_cancelled)" "cancel_ref demo_cancelled = demo_ref" by code_simp+
  then obtain op where "recordedOperation (en_journal demo_finished) demo_ref = Some op" "op_cleanup op = None"
    "settlementCompletesExecution (op_settlement op) = Inr True" by (auto split: option.splits)
  with settlement_cancellation_race [OF demo_finished_reaches \<open>en_defect demo_finished = None\<close> this(1), of demo_cancelled]
    \<open>core_event_ok (EffectCancelled demo_cancelled)\<close> \<open>cancel_ref demo_cancelled = demo_ref\<close> show ?thesis by blast
qed

text \<open>
  C29. A defect stops the actor: whatever the atoms propose afterwards, the only work an engine offers, and
  the only work it lists as pending or deferred, is the delivery of replies.
\<close>

theorem defect_stops_work:
  assumes "en_defect en \<noteq> None" "effects cfg en = Inr (en', ws)"
  shows "(\<forall>w \<in> set ws. wk_atom w = replies_atom) \<and> deferred en' = Inr [] \<and>
    (\<forall>p. pending en' = Inr p \<longrightarrow> (\<forall>x \<in> set p. ref_atom (fst x) = replies_atom))"
proof -
  let ?en = "en\<lparr>en_proposals := [], en_deliveries := [], en_cancellations := []\<rparr>"
  have defect': "en_defect en' = en_defect en" using core_stateD [OF effects_frame(1) [OF assms(2)]] by simp
  from assms obtain roots candidates names new where
    collect: "collect_candidates True roots = Inr candidates"
    and fold: "fold_try (process_candidate cfg) candidates ([], ?en, []) = Inr (names, en', new)"
    and ws: "ws = filter (\<lambda>w. en_defect en' = None \<or> wk_atom w = replies_atom) (map snd (en_accepted en')) @ new"
    by (auto simp: effects_def Let_def)
  have roots: "root = replies_atom" if "(path, root, p) \<in> set candidates" for path root p
    using collected_root [OF collect that] .
  have "\<forall>w \<in> set new. wk_atom w = replies_atom"
    using fold_try_invariant [OF fold, of "\<lambda>(_, _, new). \<forall>w \<in> set new. wk_atom w = replies_atom"] proposed_atom roots by fastforce
  then have 1: "\<forall>w \<in> set ws. wk_atom w = replies_atom" using ws defect' assms(1) by auto
  have 2: "ref_atom (fst x) = replies_atom" if "pending en' = Inr p" "x \<in> set p" for p x
  proof -
    let ?f = "\<lambda>(key, op). try_bind (inputOf en' key) (\<lambda>input. Inr (rq_ref (op_request op), input))"
    let ?P = "\<lambda>(_, op). op_settlement op = None \<and> \<not> op_cancelled op \<and>
      (en_defect en' = None \<or> ref_atom (rq_ref (op_request op)) = replies_atom)"
    from that(1) have "map ?f (filter ?P (en_operations en')) = map Inr p"
      by (simp add: pending_def map_try_Inr_iff)
    then have "map_try ?f (filter ?P (en_operations en')) = Inr p" by (simp only: map_try_Inr_iff)
    from map_try_member [OF this that(2)] obtain e where "e \<in> set (filter ?P (en_operations en'))" "?f e = Inr x" by blast
    with defect' assms(1) show ?thesis by auto
  qed
  from 1 2 assms(1) defect' show ?thesis by (auto simp: deferred_def)
qed

theorem defect_stops_work_witness:
  "en_defect (demo_engine [Core (EffectRequested demo_requested), Core (EffectDied demo_died)]) \<noteq> None \<and>
   (\<exists>en' ws. effects demo_config (demo_engine [Core (EffectRequested demo_requested), Core (EffectDied demo_died)]) = Inr (en', ws) \<and>
     deferred en' = Inr [])"
proof -
  let ?en = "demo_engine [Core (EffectRequested demo_requested), Core (EffectDied demo_died)]"
  have defect: "en_defect ?en \<noteq> None" by code_simp
  have "\<not> isl (effects demo_config ?en)" by code_simp
  then obtain en' ws where "effects demo_config ?en = Inr (en', ws)" by (cases "effects demo_config ?en") auto
  with defect_stops_work [OF defect] defect show ?thesis by blast
qed

text \<open>
  Reading one operation out of the journal, from its request on and only its own records, reconstructs
  the operation the whole journal does.
\<close>

theorem read_operation_complete:
  assumes "reaches cfg en"
  shows "recordedOperation (readOperation (en_journal en) ref) ref = recordedOperation (en_journal en) ref"
  using readOperation_recorded reaches_settled [OF assms] by (simp add: settled_engine_def engine_ok_def)

theorem read_operation_complete_witness:
  "recordedOperation (readOperation (en_journal demo_finished) demo_ref) demo_ref = recordedOperation (en_journal demo_finished) demo_ref"
  using read_operation_complete [OF demo_finished_reaches] .

end
