(* ===== verification/EncodingProperties.thy ===== *)
theory EncodingProperties
  imports InputDigest InvocationLookup
begin

text \<open>
  Properties of what crosses a boundary as text or JSON: keys and canonical inputs are injective, the
  cached and streamed digest is the digest of the canonical text, stored requests match exactly their own
  proposals, execution results survive a round trip, and an invocation is looked up as its lifecycle has it.
\<close>

text \<open>Two effect references share a key only when they are the same reference.\<close>

theorem effect_keys_distinct: "effectKey r = effectKey r' \<longleftrightarrow> r = r'"
  by simp

text \<open>C31. The canonical text of an input determines the input.\<close>

theorem canonical_text_injective:
  assumes "json_ok a" "json_ok b"
  shows "canonicalInput a = canonicalInput b \<longleftrightarrow> a = b"
  using canonical_inject [OF assms] .

theorem canonical_text_injective_witness:
  "canonicalInput (JArr [JInt 1, JStr ''x'']) = canonicalInput (JArr [JInt 1, JStr ''x'']) \<and>
   canonicalInput (JArr [JInt 12]) \<noteq> canonicalInput (JArr [JInt 1, JInt 2])"
  using canonical_text_injective [of "JArr [JInt 12]" "JArr [JInt 1, JInt 2]"] by simp

text \<open>A hash that keeps the text it is given.\<close>

definition text_hasher :: "string hasher" where
  "text_hasher = \<lparr>h_init = [], h_update = (@), h_digest = (\<lambda>s. s)\<rparr>"

lemma text_hasher_ok: "hasher_ok text_hasher"
  by (simp add: hasher_ok_def text_hasher_def)

lemma text_hasher_collision_free: "collision_free text_hasher A"
  by (auto simp: collision_free_def inj_on_def digest_text_def text_hasher_def)

text \<open>
  C30. The incremental digest of an input, with its cached forms and resumed array prefixes, is the digest of
  its canonical text, and leaves caches that are correct for the next run.
\<close>

theorem incremental_digest_correct:
  assumes "hasher_ok h" "forms_ok frozen forms" "prefixes_ok h frozen prefixes" "input_ok frozen x"
    and "digestInput h frozen forms prefixes x = (d, forms', prefixes')"
  shows "d = digest_json h (value_of x) \<and> forms_ok frozen forms' \<and> prefixes_ok h frozen prefixes'"
  using digest_run_correct [OF assms] by simp

definition demo_input :: input where
  "demo_input = ObjectAt 0 [(''b'', Leaf (JInt 2)), (''a'', ArrayAt 1 [Leaf (JInt 1)])]"

theorem incremental_digest_correct_witness:
  "fst (digestInput text_hasher (\<lambda>_. None) (\<lambda>_. None) [] demo_input) = digest_json text_hasher (value_of demo_input)"
proof -
  obtain d forms' prefixes' where "digestInput text_hasher (\<lambda>_. None) (\<lambda>_. None) [] demo_input = (d, forms', prefixes')"
    by (cases "digestInput text_hasher (\<lambda>_. None) (\<lambda>_. None) [] demo_input") auto
  moreover have "forms_ok (\<lambda>_. None) (\<lambda>_. None)" "prefixes_ok text_hasher (\<lambda>_. None) []" "input_ok (\<lambda>_. None) demo_input"
    by (simp_all add: forms_ok_def prefixes_ok_def demo_input_def)
  ultimately show ?thesis using incremental_digest_correct [OF text_hasher_ok] by fastforce
qed

text \<open>
  A stored request, whether it keeps its input or only the digest, matches a proposal exactly when act
  and input are the ones it was stored from, provided the hash does not collide on the two inputs.
\<close>

theorem stored_request_matches:
  assumes "storeRequest h request minBytes = Inr s"
    and "json_ok (er_input request)" "json_ok (er_input proposal)" "collision_free h {er_input request, er_input proposal}"
  shows "matchesRequest h s proposal \<longleftrightarrow> proposal = request"
proof
  assume "matchesRequest h s proposal"
  from matchesRequest_digest [OF this] storeRequest_digest [OF assms(1)]
  have "er_act proposal = er_act request" "digest_json h (er_input proposal) = digest_json h (er_input request)" by simp_all
  with digest_json_inject [OF assms(4)] assms(2,3) show "proposal = request" by simp
qed (use matches_storeRequest [OF assms(1)] in simp)

theorem stored_request_matches_witness:
  "storeRequest text_hasher \<lparr>er_act = ''a'', er_input = JInt 5\<rparr> 1 =
     Inr \<lparr>sr_act = ''a'', sr_input = DigestInput (digest_json text_hasher (JInt 5))\<rparr> \<and>
   \<not> matchesRequest text_hasher \<lparr>sr_act = ''a'', sr_input = DigestInput (digest_json text_hasher (JInt 5))\<rparr> \<lparr>er_act = ''a'', er_input = JInt 6\<rparr>"
proof -
  have "storeRequest text_hasher \<lparr>er_act = ''a'', er_input = JInt 5\<rparr> 1 =
     Inr \<lparr>sr_act = ''a'', sr_input = DigestInput (digest_json text_hasher (JInt 5))\<rparr>" by code_simp
  with stored_request_matches [OF this, of "\<lparr>er_act = ''a'', er_input = JInt 6\<rparr>"] text_hasher_collision_free show ?thesis by simp
qed

text \<open>
  An execution result read from a journal is written back as JSON that reads as the same result, with
  its handle, deadline and unbounded flag.
\<close>

theorem execution_result_round_trip:
  assumes "decode_result v = Some r"
  shows "decode_result (encode_result r) = Some r \<and> result_valid r"
  using decode_encode_result [OF decode_result_valid [OF assms]] decode_result_valid [OF assms] by simp

definition demo_promise :: execution_result where
  "demo_promise = PromiseResult \<lparr>eh_executor = ''clock'', eh_id = ''c1'', eh_endpoint = None, eh_mode = Some Poll, eh_at = Some 9, eh_value = None\<rparr>
     (Some 20) False"

theorem execution_result_round_trip_witness: "decode_result (encode_result demo_promise) = Some demo_promise"
proof -
  have "result_valid demo_promise"
    by (simp add: demo_promise_def result_valid_def handle_valid_def handle_ok_def promise_result_ok_def deadline_ok_def max_deadline_def)
  then have "decode_result (encode_result demo_promise) = Some demo_promise" by (rule decode_encode_result)
  from execution_result_round_trip [OF this] show ?thesis by simp
qed

text \<open>
  C32. Looking an invocation up through its records gives its state in the lifecycle: settled when the
  operation is complete, pending while it is not.
\<close>

theorem invocation_lookup_state:
  assumes "lifecycle q t es op" "\<forall>e \<in> set es. decodes_event e"
    and "identity_ok i" "requested_ok q" "accepts_identity i q"
    and "read i = r # rs" "rec_event r = Core (EffectRequested q)" "lifecycle_records (rq_ref q) rs es"
  shows "lookupInvocation read i = Inr (if operationComplete op = Inr True then LookupSettled (rq_ref q) else LookupPending (rq_ref q))"
  by (rule lookup_lifecycle [of q t es op i read r rs, OF assms])

definition lookup_request :: effect_requested where
  "lookup_request = \<lparr>rq_ref = \<lparr>ref_seq = 0, ref_atom = ''root'', ref_act = ''fetch''\<rparr>, rq_origin = None,
     rq_request = \<lparr>sr_act = ''fetch'', sr_input = InlineInput (JInt 7)\<rparr>\<rparr>"

definition lookup_settlement :: effect_settled where
  "lookup_settlement = \<lparr>es_ref = rq_ref lookup_request, es_outcome = Rejected JNull\<rparr>"

theorem invocation_lookup_state_witness:
  "lookupInvocation (\<lambda>_. map (recorded_of no_metadata) [Core (EffectRequested lookup_request), Core (EffectSettled lookup_settlement)])
     \<lparr>ii_atom = ''root'', ii_act = ''fetch'', ii_origin = None\<rparr> = Inr (LookupSettled (rq_ref lookup_request))"
proof -
  let ?op = "requested_operation lookup_request None" and ?op' = "operation_event (EffectSettled lookup_settlement) (requested_operation lookup_request None)"
  have "lifecycle_event (Some ?op) (EffectSettled lookup_settlement) = Inr (?op', RetireAdd)" "operationComplete ?op \<noteq> Inr True"
    "operationComplete ?op' = Inr True" by code_simp+
  then have "lifecycle lookup_request None ([] @ [EffectSettled lookup_settlement]) ?op'"
    by (intro lifecycle_step [OF lifecycle_start]) simp_all
  from invocation_lookup_state [OF this, where i = "\<lparr>ii_atom = ''root'', ii_act = ''fetch'', ii_origin = None\<rparr>"
      and read = "\<lambda>_. map (recorded_of no_metadata) [Core (EffectRequested lookup_request), Core (EffectSettled lookup_settlement)]"
      and r = "recorded_of no_metadata (Core (EffectRequested lookup_request))" and rs = "[recorded_of no_metadata (Core (EffectSettled lookup_settlement))]"]
    \<open>operationComplete ?op' = Inr True\<close>
  show ?thesis
    by (simp add: settlementCompletesExecution_def lookup_settlement_def lookup_request_def identity_ok_def origin_ok_def requested_ok_def
      accepts_identity_def recorded_of_def lifecycle_records_def no_metadata_def ref_ok_def safe_integer_def max_safe_integer_def ex_bool_eq)
qed

end
