(* ===== verification/ReadonlyLogs.thy ===== *)
theory ReadonlyLogs
  imports Prelude
begin

text \<open>
  The interface \<open>ReadonlyLog\<close> of \<open>packages/core/src/runtime/log-view.ts\<close>: the read surface of an
  append-only sequence. A provider says which list a value denotes; the laws are those of the
  read methods of an array. Readers of histories (\<open>runtime/history.ts\<close>, \<open>initialise.ts\<close>) use
  nothing else.
\<close>

datatype view_error = InvalidPrefixLength | InvalidViewLength | InvalidBatchSize | RangeUnavailable

text \<open>Array indexing and slicing with relative positions, as \<open>Array.prototype\<close> defines them.\<close>

definition array_at :: "'a list \<Rightarrow> int \<Rightarrow> 'a option" where
  "array_at xs i =
     (let position = (if i < 0 then int (length xs) + i else i)
      in if 0 \<le> position \<and> position < int (length xs) then Some (xs ! nat position) else None)"

definition array_bound :: "'a list \<Rightarrow> int \<Rightarrow> nat" where
  "array_bound xs i =
     nat (if i < 0 then max 0 (int (length xs) + i) else min i (int (length xs)))"

definition array_slice :: "'a list \<Rightarrow> int option \<Rightarrow> int option \<Rightarrow> 'a list" where
  "array_slice xs start end =
     (let from = array_bound xs (case start of None \<Rightarrow> 0 | Some s \<Rightarrow> s);
          to = array_bound xs (case end of None \<Rightarrow> int (length xs) | Some e \<Rightarrow> e)
      in drop from (take to xs))"

definition array_findIndex :: "'a list \<Rightarrow> ('a \<Rightarrow> nat \<Rightarrow> bool) \<Rightarrow> int" where
  "array_findIndex xs p = (case find_index_from p 0 xs of None \<Rightarrow> -1 | Some j \<Rightarrow> int j)"

lemma array_slice_all [simp]: "array_slice xs None None = xs"
  by (simp add: array_slice_def array_bound_def Let_def)

lemma array_slice_from [simp]: "array_slice xs (Some (int n)) None = drop n xs"
  by (cases "n \<le> length xs") (simp_all add: array_slice_def array_bound_def Let_def)

lemma array_slice_range [simp]:
  "array_slice xs (Some (int m)) (Some (int n)) = drop m (take n xs)"
  by (cases "m \<le> length xs"; cases "n \<le> length xs")
     (simp_all add: array_slice_def array_bound_def Let_def)

lemma array_at_nat: "array_at xs (int n) = (if n < length xs then Some (xs ! n) else None)"
  by (simp add: array_at_def)

lemma array_findIndex_nonneg: "array_findIndex xs p \<ge> 0 \<longleftrightarrow> (\<exists>k < length xs. p (xs ! k) k)"
  using find_index_from_None [of p 0 xs] find_index_from_Some [of p 0 xs]
  by (fastforce simp: array_findIndex_def split: option.splits)

locale readonly_log =
  fixes valid :: "'v \<Rightarrow> bool"
    and items :: "'v \<Rightarrow> 'a list"
    and len :: "'v \<Rightarrow> nat"
    and at_index :: "'v \<Rightarrow> int \<Rightarrow> view_error + 'a option"
    and slice :: "'v \<Rightarrow> int option \<Rightarrow> int option \<Rightarrow> view_error + 'a list"
    and findIndex :: "'v \<Rightarrow> ('a \<Rightarrow> nat \<Rightarrow> bool) \<Rightarrow> view_error + int"
    and find_item :: "'v \<Rightarrow> ('a \<Rightarrow> nat \<Rightarrow> bool) \<Rightarrow> view_error + 'a option"
    and some_item :: "'v \<Rightarrow> ('a \<Rightarrow> nat \<Rightarrow> bool) \<Rightarrow> view_error + bool"
    and filter_items_by :: "'v \<Rightarrow> ('a \<Rightarrow> nat \<Rightarrow> bool) \<Rightarrow> view_error + 'a list"
    and iterate :: "'v \<Rightarrow> view_error + 'a list"
  assumes len_items: "valid v \<Longrightarrow> len v = length (items v)"
    and at_items: "valid v \<Longrightarrow> at_index v i = Inr (array_at (items v) i)"
    and slice_items: "valid v \<Longrightarrow> slice v s e = Inr (array_slice (items v) s e)"
    and findIndex_items: "valid v \<Longrightarrow> findIndex v p = Inr (array_findIndex (items v) p)"
    and find_items: "valid v \<Longrightarrow> find_item v p =
      Inr (map_option (\<lambda>j. items v ! j) (find_index_from p 0 (items v)))"
    and some_items: "valid v \<Longrightarrow> some_item v p = Inr (array_findIndex (items v) p \<ge> 0)"
    and filter_items: "valid v \<Longrightarrow> filter_items_by v p = Inr (filter_index_from p 0 (items v))"
    and iterate_items: "valid v \<Longrightarrow> iterate v = Inr (items v)"
begin

lemmas read_items = len_items at_items slice_items findIndex_items find_items some_items
  filter_items iterate_items

lemma slice_is_iterate: "valid v \<Longrightarrow> slice v None None = iterate v"
  by (simp add: read_items)

lemma some_iff: "valid v \<Longrightarrow> some_item v p = Inr (\<exists>k < length (items v). p (items v ! k) k)"
  by (simp add: read_items array_findIndex_nonneg)

lemma find_satisfies: "valid v \<Longrightarrow> find_item v p = Inr (Some x) \<Longrightarrow> \<exists>k < len v. x = items v ! k \<and> p x k"
  by (auto simp: read_items dest!: find_index_from_Some)

lemma equal_items_read_equal:
  assumes "valid v" and "valid w" and "items v = items w"
  shows "at_index v i = at_index w i" and "slice v s e = slice w s e" and "find_item v p = find_item w p"
  using assms by (simp_all add: read_items)

end

end
