(* ===== verification/LogViews.thy ===== *)
theory LogViews
  imports ReadonlyLogs
begin

text \<open>
  \<open>LogView\<close> of \<open>packages/core/src/runtime/log-view.ts\<close>. Views share growing backing stores, so the model
  keeps an explicit heap (a list of stores, an address being an index) and a view is an address and a
  length; an operation returns the new heap. The lemmas show that the sharing is invisible: a view
  denotes a plain list, \<open>append\<close> and \<open>take\<close> act as on copies, and no operation changes what any other
  view denotes. Its reads meet the locale \<open>readonly_log\<close>.
\<close>

section \<open>LogView\<close>

record log_view =
  lv_items :: nat
  lv_length :: nat

text \<open>\<open>LogView.empty\<close> is allocated once, when the class is initialised.\<close>

definition lv_initial_heap :: "'a list list" where
  "lv_initial_heap = [[]]"

definition lv_empty :: log_view where
  "lv_empty = \<lparr>lv_items = 0, lv_length = 0\<rparr>"

definition lv_append :: "'a list list \<Rightarrow> log_view \<Rightarrow> 'a list \<Rightarrow> 'a list list \<times> log_view" where
  "lv_append h v batch =
     (if length batch = 0 then (h, v)
      else if lv_length v > 0 \<and> length (h ! lv_items v) = lv_length v
      then let items = h ! lv_items v @ batch
           in (h[lv_items v := items], \<lparr>lv_items = lv_items v, lv_length = length items\<rparr>)
      else let items = take (lv_length v) (h ! lv_items v) @ batch
           in (h @ [items], \<lparr>lv_items = length h, lv_length = length items\<rparr>))"

definition lv_take :: "log_view \<Rightarrow> int \<Rightarrow> view_error + log_view" where
  "lv_take v n =
     (if \<not> safe_integer n \<or> n < 0 \<or> n > int (lv_length v) then Inl InvalidPrefixLength
      else if n = int (lv_length v) then Inr v
      else Inr \<lparr>lv_items = lv_items v, lv_length = nat n\<rparr>)"

text \<open>\<open>position\<close> resolves a relative index and clamps it to the view.\<close>

definition lv_position :: "log_view \<Rightarrow> int \<Rightarrow> int" where
  "lv_position v i = (if i < 0 then max 0 (int (lv_length v) + i) else min i (int (lv_length v)))"

definition lv_at :: "'a list list \<Rightarrow> log_view \<Rightarrow> int \<Rightarrow> 'a option" where
  "lv_at h v i =
     (let position = (if i < 0 then int (lv_length v) + i else i)
      in if 0 \<le> position \<and> position < int (lv_length v)
         then Some ((h ! lv_items v) ! nat position) else None)"

text \<open>The loop of \<open>findIndex\<close> (\<open>-1\<close> when no item satisfies the predicate) and that of \<open>filter\<close>.\<close>

function lv_find_loop :: "('a \<Rightarrow> nat \<Rightarrow> bool) \<Rightarrow> 'a list \<Rightarrow> nat \<Rightarrow> nat \<Rightarrow> int" where
  "lv_find_loop p items n i =
     (if i < n then (if p (items ! i) i then int i else lv_find_loop p items n (Suc i)) else -1)"
  by pat_completeness auto
termination
  by (relation "measure (\<lambda>(p, items, n, i). n - i)") auto

declare lv_find_loop.simps [simp del]

definition lv_findIndex :: "'a list list \<Rightarrow> log_view \<Rightarrow> ('a \<Rightarrow> nat \<Rightarrow> bool) \<Rightarrow> int" where
  "lv_findIndex h v p = lv_find_loop p (h ! lv_items v) (lv_length v) 0"

definition lv_find :: "'a list list \<Rightarrow> log_view \<Rightarrow> ('a \<Rightarrow> nat \<Rightarrow> bool) \<Rightarrow> 'a option" where
  "lv_find h v p =
     (let index = lv_findIndex h v p
      in if index < 0 then None else Some ((h ! lv_items v) ! nat index))"

definition lv_some :: "'a list list \<Rightarrow> log_view \<Rightarrow> ('a \<Rightarrow> nat \<Rightarrow> bool) \<Rightarrow> bool" where
  "lv_some h v p \<longleftrightarrow> lv_findIndex h v p \<ge> 0"

function lv_filter_loop :: "('a \<Rightarrow> nat \<Rightarrow> bool) \<Rightarrow> 'a list \<Rightarrow> nat \<Rightarrow> nat \<Rightarrow> 'a list \<Rightarrow> 'a list" where
  "lv_filter_loop p items n i out =
     (if i < n
      then lv_filter_loop p items n (Suc i) (if p (items ! i) i then out @ [items ! i] else out)
      else out)"
  by pat_completeness auto
termination
  by (relation "measure (\<lambda>(p, items, n, i, out). n - i)") auto

declare lv_filter_loop.simps [simp del]

definition lv_filter :: "'a list list \<Rightarrow> log_view \<Rightarrow> ('a \<Rightarrow> nat \<Rightarrow> bool) \<Rightarrow> 'a list" where
  "lv_filter h v p = lv_filter_loop p (h ! lv_items v) (lv_length v) 0 []"

text \<open>\<open>slice\<close>: an omitted bound is \<open>None\<close>. \<open>toJSON\<close> and \<open>inspect\<close> are \<open>slice()\<close>.\<close>

definition lv_slice :: "'a list list \<Rightarrow> log_view \<Rightarrow> int option \<Rightarrow> int option \<Rightarrow> 'a list" where
  "lv_slice h v start end =
     (let from = lv_position v (case start of None \<Rightarrow> 0 | Some s \<Rightarrow> s);
          to = max from (lv_position v (case end of None \<Rightarrow> int (lv_length v) | Some e \<Rightarrow> e))
      in drop (nat from) (take (nat to) (h ! lv_items v)))"

definition lv_toJSON :: "'a list list \<Rightarrow> log_view \<Rightarrow> 'a list" where
  "lv_toJSON h v = lv_slice h v None None"

definition lv_iterate :: "'a list list \<Rightarrow> log_view \<Rightarrow> 'a list" where
  "lv_iterate h v = map (\<lambda>i. (h ! lv_items v) ! i) [0..<lv_length v]"

subsection \<open>What a view denotes\<close>

definition lv_list :: "'a list list \<Rightarrow> log_view \<Rightarrow> 'a list" where
  "lv_list h v = take (lv_length v) (h ! lv_items v)"

definition lv_ok :: "'a list list \<Rightarrow> log_view \<Rightarrow> bool" where
  "lv_ok h v \<longleftrightarrow> lv_items v < length h \<and> lv_length v \<le> length (h ! lv_items v)"

lemma length_lv_list [simp]: "lv_ok h v \<Longrightarrow> length (lv_list h v) = lv_length v"
  by (simp add: lv_list_def lv_ok_def)

lemma lv_ok_empty: "lv_ok lv_initial_heap lv_empty" "lv_list h lv_empty = []"
  by (simp_all add: lv_ok_def lv_initial_heap_def lv_empty_def lv_list_def)

lemma lv_append_ok:
  assumes "lv_ok h v" and "lv_append h v batch = (h', v')"
  shows "lv_ok h' v'" and "lv_list h' v' = lv_list h v @ batch"
  using assms by (auto simp: lv_append_def lv_ok_def lv_list_def Let_def nth_append split: if_splits)

text \<open>No other view notices: neither its validity nor what it denotes changes.\<close>

lemma lv_append_frame:
  assumes "lv_ok h u" and "lv_append h v batch = (h', v')"
  shows "lv_ok h' u" and "lv_list h' u = lv_list h u"
  using assms
  by (cases "lv_items u = lv_items v";
      auto simp: lv_append_def lv_ok_def lv_list_def Let_def nth_append split: if_splits)+

lemma lv_take_ok:
  assumes "lv_ok h v" and "lv_take v n = Inr v'"
  shows "lv_ok h v'" and "lv_list h v' = take (nat n) (lv_list h v)"
  using assms by (auto simp: lv_take_def lv_ok_def lv_list_def min_def split: if_splits)

lemma lv_find_loop_eq:
  "lv_find_loop p items n i =
     (case find_index_from p i (drop i (take n items)) of None \<Rightarrow> -1 | Some j \<Rightarrow> int j)"
  if "n \<le> length items"
  using that
proof (induction p items n i rule: lv_find_loop.induct)
  case (1 p items n i)
  show ?case
  proof (cases "i < n")
    case True
    with "1.prems" have "drop i (take n items) = items ! i # drop (Suc i) (take n items)"
      by (metis Cons_nth_drop_Suc length_take min.absorb2 nth_take)
    with True "1" show ?thesis by (simp add: lv_find_loop.simps [of p items n i])
  next
    case False
    with "1.prems" show ?thesis by (simp add: lv_find_loop.simps [of p items n i])
  qed
qed

lemma lv_filter_loop_eq:
  "lv_filter_loop p items n i out = out @ filter_index_from p i (drop i (take n items))"
  if "n \<le> length items"
  using that
proof (induction p items n i out rule: lv_filter_loop.induct)
  case (1 p items n i out)
  show ?case
  proof (cases "i < n")
    case True
    with "1.prems" have "drop i (take n items) = items ! i # drop (Suc i) (take n items)"
      by (metis Cons_nth_drop_Suc length_take min.absorb2 nth_take)
    with True "1" show ?thesis by (simp add: lv_filter_loop.simps [of p items n i])
  next
    case False
    with "1.prems" show ?thesis by (simp add: lv_filter_loop.simps [of p items n i])
  qed
qed


subsection \<open>The read surface\<close>

lemma lv_find_index_bound: "lv_ok h v \<Longrightarrow> find_index_from p 0 (lv_list h v) = Some j \<Longrightarrow> j < lv_length v"
  by (metis add_0 find_index_from_Some length_lv_list)

lemma lv_reads:
  assumes "lv_ok h v"
  shows "lv_at h v i = array_at (lv_list h v) i"
    and "lv_slice h v s e = array_slice (lv_list h v) s e"
    and "lv_findIndex h v p = array_findIndex (lv_list h v) p"
    and "lv_find h v p = map_option (\<lambda>j. lv_list h v ! j) (find_index_from p 0 (lv_list h v))"
    and "lv_filter h v p = filter_index_from p 0 (lv_list h v)"
    and "lv_iterate h v = lv_list h v"
proof -
  have len: "length (lv_list h v) = lv_length v" using assms by simp
  have le: "lv_length v \<le> length (h ! lv_items v)" using assms by (simp add: lv_ok_def)
  show find: "lv_findIndex h v p = array_findIndex (lv_list h v) p"
    using le by (simp add: lv_findIndex_def lv_find_loop_eq array_findIndex_def lv_list_def)
  show "lv_at h v i = array_at (lv_list h v) i"
    using len by (simp add: lv_at_def array_at_def lv_list_def Let_def)
  show "lv_slice h v s e = array_slice (lv_list h v) s e"
  proof -
    have "drop (nat f) (take (nat (max f t)) xs) = drop (nat f) (take (nat t) xs)"
      for f t :: int and xs :: "'a list"
      by (cases "f \<le> t") (simp_all add: max_def)
    moreover have "lv_position v j \<le> int (lv_length v)" "nat (lv_position v j) = array_bound (lv_list h v) j" for j
      using len by (auto simp: lv_position_def array_bound_def)
    moreover have "take (nat (lv_position v j)) (h ! lv_items v) = take (nat (lv_position v j)) (lv_list h v)" for j
      by (auto simp: lv_list_def lv_position_def min_def)
    ultimately show ?thesis
      by (cases e) (simp_all add: lv_slice_def array_slice_def Let_def len)
  qed
  show "lv_find h v p = map_option (\<lambda>j. lv_list h v ! j) (find_index_from p 0 (lv_list h v))"
    using lv_find_index_bound [OF assms]
    by (auto simp: lv_find_def Let_def find array_findIndex_def lv_list_def split: option.split)
  show "lv_filter h v p = filter_index_from p 0 (lv_list h v)"
    using le by (simp add: lv_filter_def lv_filter_loop_eq lv_list_def)
  show "lv_iterate h v = lv_list h v"
    using le by (simp add: lv_iterate_def lv_list_def list_eq_iff_nth_eq)
qed

interpretation log_view_reads: readonly_log
  "\<lambda>(h, v). lv_ok h v" "\<lambda>(h, v). lv_list h v" "\<lambda>(h, v). lv_length v"
  "\<lambda>(h, v) i. Inr (lv_at h v i)" "\<lambda>(h, v) s e. Inr (lv_slice h v s e)"
  "\<lambda>(h, v) p. Inr (lv_findIndex h v p)" "\<lambda>(h, v) p. Inr (lv_find h v p)"
  "\<lambda>(h, v) p. Inr (lv_some h v p)" "\<lambda>(h, v) p. Inr (lv_filter h v p)"
  "\<lambda>(h, v). Inr (lv_iterate h v)"
  by unfold_locales (auto simp: lv_reads lv_some_def)

subsection \<open>Histories of views\<close>

text \<open>
  A program holding views appends to, or takes a prefix of, any view it already has; the new view
  joins the others. \<open>lv_run\<close> is such a program over the shared heap, \<open>list_run\<close> the same program
  over plain arrays that are copied.
\<close>

datatype 'a view_op = AppendTo nat "'a list" | TakeFrom nat int

fun lv_step :: "'a list list \<times> log_view list \<Rightarrow> 'a view_op \<Rightarrow> view_error + 'a list list \<times> log_view list" where
  "lv_step (h, vs) (AppendTo i batch) =
     (let (h', v) = lv_append h (vs ! (i mod length vs)) batch in Inr (h', vs @ [v]))"
| "lv_step (h, vs) (TakeFrom i n) =
     try_bind (lv_take (vs ! (i mod length vs)) n) (\<lambda>v. Inr (h, vs @ [v]))"

fun lv_run :: "'a list list \<times> log_view list \<Rightarrow> 'a view_op list \<Rightarrow> view_error + 'a list list \<times> log_view list" where
  "lv_run s [] = Inr s"
| "lv_run s (x # xs) = try_bind (lv_step s x) (\<lambda>s'. lv_run s' xs)"

fun list_step :: "'a list list \<Rightarrow> 'a view_op \<Rightarrow> view_error + 'a list list" where
  "list_step ls (AppendTo i batch) = Inr (ls @ [ls ! (i mod length ls) @ batch])"
| "list_step ls (TakeFrom i n) =
     (let l = ls ! (i mod length ls)
      in if \<not> safe_integer n \<or> n < 0 \<or> n > int (length l) then Inl InvalidPrefixLength
         else Inr (ls @ [take (nat n) l]))"

fun list_run :: "'a list list \<Rightarrow> 'a view_op list \<Rightarrow> view_error + 'a list list" where
  "list_run ls [] = Inr ls"
| "list_run ls (x # xs) = try_bind (list_step ls x) (\<lambda>ls'. list_run ls' xs)"

definition views_ok :: "'a list list \<Rightarrow> log_view list \<Rightarrow> bool" where
  "views_ok h vs \<longleftrightarrow> vs \<noteq> [] \<and> (\<forall>v \<in> set vs. lv_ok h v)"

lemma views_ok_nth: "views_ok h vs \<Longrightarrow> lv_ok h (vs ! (i mod length vs))"
  by (simp add: views_ok_def)

lemma lv_step_simulates:
  assumes ok: "views_ok h vs"
  shows "(\<exists>e. lv_step (h, vs) x = Inl e \<and> list_step (map (lv_list h) vs) x = Inl e) \<or>
    (\<exists>h' vs'. lv_step (h, vs) x = Inr (h', vs') \<and> views_ok h' vs' \<and>
       list_step (map (lv_list h) vs) x = Inr (map (lv_list h') vs'))"
proof (cases x)
  case (AppendTo i batch)
  obtain h' v where step: "lv_append h (vs ! (i mod length vs)) batch = (h', v)"
    by fastforce
  have same: "lv_ok h' u" "lv_list h' u = lv_list h u" if "u \<in> set vs" for u
    using lv_append_frame [OF _ step, of u] ok that by (auto simp: views_ok_def)
  have new: "lv_ok h' v" "lv_list h' v = lv_list h (vs ! (i mod length vs)) @ batch"
    using lv_append_ok [OF views_ok_nth [OF ok] step] .
  have nth: "map (lv_list h) vs ! (i mod length vs) = lv_list h (vs ! (i mod length vs))"
    using ok by (simp add: views_ok_def)
  show ?thesis
    using AppendTo step same new ok by (auto simp: views_ok_def nth simp del: nth_map)
next
  case (TakeFrom i n)
  have v: "lv_ok h (vs ! (i mod length vs))" using ok by (rule views_ok_nth)
  have nth: "map (lv_list h) vs ! (i mod length vs) = lv_list h (vs ! (i mod length vs))"
    using ok by (simp add: views_ok_def)
  show ?thesis
  proof (cases "lv_take (vs ! (i mod length vs)) n")
    case (Inl e)
    then show ?thesis using TakeFrom v
      by (auto simp: nth lv_take_def Let_def simp del: nth_map split: if_splits)
  next
    case (Inr v')
    with v have "lv_ok h v'" and "lv_list h v' = take (nat n) (lv_list h (vs ! (i mod length vs)))"
      by (simp_all add: lv_take_ok)
    moreover have "safe_integer n \<and> 0 \<le> n \<and> n \<le> int (lv_length (vs ! (i mod length vs)))"
      using Inr by (auto simp: lv_take_def split: if_splits)
    ultimately show ?thesis using TakeFrom Inr ok v
      by (auto simp: nth Let_def views_ok_def simp del: nth_map)
  qed
qed

lemma lv_run_simulates:
  assumes "views_ok h vs"
  shows "(\<exists>e. lv_run (h, vs) xs = Inl e \<and> list_run (map (lv_list h) vs) xs = Inl e) \<or>
    (\<exists>h' vs'. lv_run (h, vs) xs = Inr (h', vs') \<and> views_ok h' vs' \<and>
       list_run (map (lv_list h) vs) xs = Inr (map (lv_list h') vs'))"
  using assms
proof (induction xs arbitrary: h vs)
  case (Cons x xs)
  from lv_step_simulates [OF Cons.prems, of x] show ?case
    by (elim disjE exE conjE) (auto dest: Cons.IH)
qed simp

end
