(* ===== verification/RangeLogs.thy ===== *)
theory RangeLogs
  imports ReadonlyLogs
begin

text \<open>
  \<open>RangeLog\<close> of \<open>packages/core/src/runtime/log-view.ts\<close>: a fixed journal interval read on demand, a
  batch at a time, through a function the owner supplies. The function is part of the value; a
  read that returns the wrong number of records throws \<open>RangeUnavailable\<close>. When the reads deliver
  the records of a list, every method acts as on that list (interpretation \<open>range_log_reads\<close>).
\<close>

record 'a range_log =
  rl_length :: nat
  rl_read :: "nat \<Rightarrow> nat \<Rightarrow> 'a list"
  rl_batchSize :: nat

definition default_journal_read_batch_size :: nat where
  "default_journal_read_batch_size = 128"

definition rl_make :: "int \<Rightarrow> (nat \<Rightarrow> nat \<Rightarrow> 'a list) \<Rightarrow> int \<Rightarrow> view_error + 'a range_log" where
  "rl_make n read batch =
     (if \<not> safe_integer n \<or> n < 0 then Inl InvalidViewLength
      else if \<not> safe_integer batch \<or> batch < 1 then Inl InvalidBatchSize
      else Inr \<lparr>rl_length = nat n, rl_read = read, rl_batchSize = nat batch\<rparr>)"

definition rl_range :: "'a range_log \<Rightarrow> nat \<Rightarrow> nat \<Rightarrow> view_error + 'a list" where
  "rl_range r lo hi =
     (let records = rl_read r lo hi
      in if length records \<noteq> hi - lo then Inl RangeUnavailable else Inr records)"

definition rl_at :: "'a range_log \<Rightarrow> int \<Rightarrow> view_error + 'a option" where
  "rl_at r i =
     (let position = (if i < 0 then int (rl_length r) + i else i)
      in if safe_integer position \<and> position \<ge> 0 \<and> position < int (rl_length r)
         then try_bind (rl_range r (nat position) (nat position + 1)) (\<lambda>records. Inr (Some (hd records)))
         else Inr None)"

definition rl_slice :: "'a range_log \<Rightarrow> int option \<Rightarrow> int option \<Rightarrow> view_error + 'a list" where
  "rl_slice r start end =
     (let bound = (\<lambda>position. if position < 0 then max 0 (int (rl_length r) + position)
                             else min position (int (rl_length r)));
          lo = bound (case start of None \<Rightarrow> 0 | Some s \<Rightarrow> s);
          hi = max lo (bound (case end of None \<Rightarrow> int (rl_length r) | Some e \<Rightarrow> e))
      in if lo = hi then Inr [] else rl_range r (nat lo) (nat hi))"

text \<open>
  The iterator reads batch after batch; a consumer that returns early reads no further batch. Each
  loop below is the iterator inlined in its consumer. The constructor refuses a batch size below
  one, which the loops test again so that they are total.
\<close>

function rl_iterate_from :: "'a range_log \<Rightarrow> nat \<Rightarrow> view_error + 'a list" where
  "rl_iterate_from r lo =
     (if lo < rl_length r \<and> 0 < rl_batchSize r
      then let hi = min (rl_length r) (lo + rl_batchSize r)
           in try_bind (rl_range r lo hi)
                (\<lambda>values. try_bind (rl_iterate_from r (lo + rl_batchSize r)) (\<lambda>rest. Inr (values @ rest)))
      else Inr [])"
  by pat_completeness auto
termination
  by (relation "measure (\<lambda>(r, lo). rl_length r - lo)") auto

function rl_find_from :: "'a range_log \<Rightarrow> ('a \<Rightarrow> nat \<Rightarrow> bool) \<Rightarrow> nat \<Rightarrow> nat \<Rightarrow> view_error + (nat \<times> 'a) option" where
  "rl_find_from r p lo index =
     (if lo < rl_length r \<and> 0 < rl_batchSize r
      then let hi = min (rl_length r) (lo + rl_batchSize r)
           in try_bind (rl_range r lo hi)
                (\<lambda>values. case find_index_from p index values of
                   Some j \<Rightarrow> Inr (Some (j, values ! (j - index)))
                 | None \<Rightarrow> rl_find_from r p (lo + rl_batchSize r) (index + length values))
      else Inr None)"
  by pat_completeness auto
termination
  by (relation "measure (\<lambda>(r, p, lo, index). rl_length r - lo)") auto

declare rl_iterate_from.simps [simp del] rl_find_from.simps [simp del]

definition rl_iterate :: "'a range_log \<Rightarrow> view_error + 'a list" where
  "rl_iterate r = rl_iterate_from r 0"

definition rl_findIndex :: "'a range_log \<Rightarrow> ('a \<Rightarrow> nat \<Rightarrow> bool) \<Rightarrow> view_error + int" where
  "rl_findIndex r p =
     try_bind (rl_find_from r p 0 0)
       (\<lambda>found. Inr (case found of None \<Rightarrow> -1 | Some (index, _) \<Rightarrow> int index))"

definition rl_find :: "'a range_log \<Rightarrow> ('a \<Rightarrow> nat \<Rightarrow> bool) \<Rightarrow> view_error + 'a option" where
  "rl_find r p = try_bind (rl_find_from r p 0 0) (\<lambda>found. Inr (map_option snd found))"

definition rl_some :: "'a range_log \<Rightarrow> ('a \<Rightarrow> nat \<Rightarrow> bool) \<Rightarrow> view_error + bool" where
  "rl_some r p = try_bind (rl_findIndex r p) (\<lambda>index. Inr (index \<noteq> -1))"

definition rl_filter :: "'a range_log \<Rightarrow> ('a \<Rightarrow> nat \<Rightarrow> bool) \<Rightarrow> view_error + 'a list" where
  "rl_filter r p = try_bind (rl_iterate r) (\<lambda>values. Inr (filter_index_from p 0 values))"

definition rl_toJSON :: "'a range_log \<Rightarrow> view_error + 'a list" where
  "rl_toJSON r = rl_slice r None None"

section \<open>Reads of an available interval\<close>

definition rl_items :: "'a range_log \<Rightarrow> 'a list" where
  "rl_items r = rl_read r 0 (rl_length r)"

definition rl_available :: "'a range_log \<Rightarrow> bool" where
  "rl_available r \<longleftrightarrow> 0 < rl_batchSize r \<and> int (rl_length r) \<le> max_safe_integer \<and>
     length (rl_items r) = rl_length r \<and>
     (\<forall>lo hi. lo \<le> hi \<and> hi \<le> rl_length r \<longrightarrow> rl_read r lo hi = drop lo (take hi (rl_items r)))"

lemma rl_range_available:
  "rl_available r \<Longrightarrow> lo \<le> hi \<Longrightarrow> hi \<le> rl_length r \<Longrightarrow>
     rl_range r lo hi = Inr (drop lo (take hi (rl_items r)))"
  by (simp add: rl_available_def rl_range_def)

lemma drop_take_split:
  "lo \<le> hi \<Longrightarrow> drop lo xs = drop lo (take hi xs) @ drop hi xs"
  by (metis add_diff_inverse_nat append_take_drop_id drop_drop drop_take linorder_not_less
      ordered_cancel_comm_monoid_diff_class.add_diff_inverse ordered_cancel_comm_monoid_diff_class.diff_add)

lemma rl_iterate_from_available:
  "rl_available r \<Longrightarrow> rl_iterate_from r lo = Inr (drop lo (rl_items r))"
proof (induction r lo rule: rl_iterate_from.induct)
  case (1 r lo)
  let ?hi = "min (rl_length r) (lo + rl_batchSize r)"
  show ?case
  proof (cases "lo < rl_length r")
    case True
    have len: "length (rl_items r) = rl_length r" and b: "0 < rl_batchSize r"
      using "1.prems" by (simp_all add: rl_available_def)
    have range: "rl_range r lo ?hi = Inr (drop lo (take ?hi (rl_items r)))"
      using True "1.prems" by (intro rl_range_available) auto
    have IH: "rl_iterate_from r (lo + rl_batchSize r) = Inr (drop (lo + rl_batchSize r) (rl_items r))"
      using True b "1" range by auto
    have "drop ?hi (rl_items r) = drop (lo + rl_batchSize r) (rl_items r)"
      using len by (simp add: min_def)
    then show ?thesis
      using True b range IH drop_take_split [of lo ?hi "rl_items r"]
      by (simp add: rl_iterate_from.simps [of r lo] Let_def)
  next
    case False
    then show ?thesis using "1.prems"
      by (simp add: rl_iterate_from.simps [of r lo] rl_available_def)
  qed
qed

lemma rl_find_from_available:
  "rl_available r \<Longrightarrow> index = lo \<Longrightarrow> rl_find_from r p lo index =
     Inr (map_option (\<lambda>j. (j, rl_items r ! j)) (find_index_from p lo (drop lo (rl_items r))))"
proof (induction r p lo index rule: rl_find_from.induct)
  case (1 r p lo index)
  let ?hi = "min (rl_length r) (lo + rl_batchSize r)"
  let ?batch = "drop lo (take ?hi (rl_items r))"
  show ?case
  proof (cases "lo < rl_length r")
    case True
    have len: "length (rl_items r) = rl_length r" and b: "0 < rl_batchSize r"
      using "1.prems" by (simp_all add: rl_available_def)
    have range: "rl_range r lo ?hi = Inr ?batch"
      using True "1.prems" by (intro rl_range_available) auto
    have split: "drop lo (rl_items r) = ?batch @ drop ?hi (rl_items r)"
      using True by (intro drop_take_split) auto
    show ?thesis
    proof (cases "find_index_from p lo ?batch")
      case (Some j)
      from find_index_from_Some [OF Some] have "lo \<le> j" "j < lo + length ?batch" by auto
      moreover from this len have "j < ?hi" by auto
      ultimately have "?batch ! (j - lo) = rl_items r ! j" using len by simp
      with Some True b range "1.prems" show ?thesis
        by (simp add: rl_find_from.simps [of r p lo] Let_def split find_index_from_append)
    next
      case None
      have bl: "length ?batch = ?hi - lo" using len by simp
      have IH: "rl_find_from r p (lo + rl_batchSize r) (index + length ?batch) =
          Inr (map_option (\<lambda>j. (j, rl_items r ! j))
            (find_index_from p (lo + length ?batch) (drop ?hi (rl_items r))))"
      proof (cases "lo + rl_batchSize r \<le> rl_length r")
        case le: True
        then have "lo + length ?batch = lo + rl_batchSize r" "?hi = lo + rl_batchSize r"
          using bl by (auto simp: min_def)
        then show ?thesis
          using "1.IH" [OF conjI [OF True b] refl range] None "1.prems" by simp
      next
        case False
        then have "?hi = rl_length r" "\<not> lo + rl_batchSize r < rl_length r" by (auto simp: min_def)
        then show ?thesis using len
          by (simp add: rl_find_from.simps [of r p "lo + rl_batchSize r"])
      qed
      with None True b range "1.prems" show ?thesis
        by (simp add: rl_find_from.simps [of r p lo] Let_def split find_index_from_append)
    qed
  next
    case False
    then show ?thesis using "1.prems"
      by (simp add: rl_find_from.simps [of r p lo] rl_available_def)
  qed
qed

lemma rl_at_available: "rl_available r \<Longrightarrow> rl_at r i = Inr (array_at (rl_items r) i)"
proof -
  assume r: "rl_available r"
  have len: "length (rl_items r) = rl_length r" and max: "int (rl_length r) \<le> max_safe_integer"
    using r by (simp_all add: rl_available_def)
  have safe: "safe_integer position" if "0 \<le> position" "position < int (rl_length r)" for position
    using that max by (simp add: safe_integer_def max_safe_integer_def)
  have "rl_range r (nat position) (nat position + 1) = Inr [rl_items r ! nat position]"
    if "0 \<le> position" "position < int (rl_length r)" for position
    using rl_range_available [OF r, of "nat position" "nat position + 1"] that len
    by (simp add: take_Suc_conv_app_nth)
  then show ?thesis using safe by (auto simp: rl_at_def array_at_def len Let_def)
qed

lemma rl_slice_available: "rl_available r \<Longrightarrow> rl_slice r s e = Inr (array_slice (rl_items r) s e)"
proof -
  assume r: "rl_available r"
  have len: "length (rl_items r) = rl_length r" using r by (simp add: rl_available_def)
  define bound :: "int \<Rightarrow> int" where "bound = (\<lambda>position. if position < 0
    then max 0 (int (rl_length r) + position) else min position (int (rl_length r)))"
  have b: "0 \<le> bound j" "bound j \<le> int (rl_length r)" "nat (bound j) = array_bound (rl_items r) j" for j
    by (auto simp: bound_def array_bound_def len)
  have main: "(if f = max f t then Inr [] else rl_range r (nat f) (nat (max f t))) =
      Inr (drop (nat f) (take (nat t) (rl_items r)))"
    if "0 \<le> f" "f \<le> int (rl_length r)" "0 \<le> t" "t \<le> int (rl_length r)" for f t
    using that rl_range_available [OF r, of "nat f" "nat t"] by (auto simp: max_def)
  show ?thesis
    using main [OF b(1) b(2) b(1) b(2)]
    by (cases e) (simp_all add: rl_slice_def array_slice_def Let_def b(3) len flip: bound_def)
qed

interpretation range_log_reads: readonly_log
  rl_available rl_items rl_length rl_at rl_slice rl_findIndex rl_find rl_some rl_filter rl_iterate
proof unfold_locales
  fix r :: "'a range_log" and p :: "'a \<Rightarrow> nat \<Rightarrow> bool" and i s e
  assume r: "rl_available r"
  have find: "rl_find_from r p 0 0 =
      Inr (map_option (\<lambda>j. (j, rl_items r ! j)) (find_index_from p 0 (rl_items r)))"
    using rl_find_from_available [OF r, of 0 0 p] by simp
  show "rl_length r = length (rl_items r)" using r by (simp add: rl_available_def)
  show "rl_at r i = Inr (array_at (rl_items r) i)" using r by (rule rl_at_available)
  show "rl_slice r s e = Inr (array_slice (rl_items r) s e)" using r by (rule rl_slice_available)
  show "rl_findIndex r p = Inr (array_findIndex (rl_items r) p)"
    by (simp add: rl_findIndex_def find array_findIndex_def split: option.split)
  then show "rl_some r p = Inr (array_findIndex (rl_items r) p \<ge> 0)"
    by (simp add: rl_some_def array_findIndex_def split: option.split)
  show "rl_find r p = Inr (map_option (\<lambda>j. rl_items r ! j) (find_index_from p 0 (rl_items r)))"
    by (simp add: rl_find_def find option.map_comp comp_def)
  show "rl_iterate r = Inr (rl_items r)"
    using rl_iterate_from_available [OF r, of 0] by (simp add: rl_iterate_def)
  then show "rl_filter r p = Inr (filter_index_from p 0 (rl_items r))"
    by (simp add: rl_filter_def)
qed

end
