(* ===== verification/IndexViews.thy ===== *)
theory IndexViews
  imports Prelude
begin

text \<open>
  \<open>IndexView\<close> of \<open>packages/core/src/runtime/log-view.ts\<close>: the first \<open>size\<close> entries of a \<open>Map\<close> that only
  grows, each entry tagged with its insertion position. The heap holds the maps (insertion-ordered
  association lists); a view is an address and a size. The lemmas show that \<open>set\<close> acts as
  \<open>Map.set\<close> on a copy and that no other view changes.
\<close>

record index_view =
  iv_entries :: nat
  iv_size :: nat

type_synonym ('k, 'v) index_heap = "('k \<times> 'v \<times> nat) list list"

definition iv_empty :: "('k, 'v) index_heap \<Rightarrow> ('k, 'v) index_heap \<times> index_view" where
  "iv_empty h = (h @ [[]], \<lparr>iv_entries = length h, iv_size = 0\<rparr>)"

definition iv_entry :: "('k, 'v) index_heap \<Rightarrow> index_view \<Rightarrow> 'k \<Rightarrow> ('v \<times> nat) option" where
  "iv_entry h v k =
     (case map_of (h ! iv_entries v) k of
        Some (value, pos) \<Rightarrow> if pos < iv_size v then Some (value, pos) else None
      | None \<Rightarrow> None)"

definition iv_get :: "('k, 'v) index_heap \<Rightarrow> index_view \<Rightarrow> 'k \<Rightarrow> 'v option" where
  "iv_get h v k = map_option fst (iv_entry h v k)"

definition iv_has :: "('k, 'v) index_heap \<Rightarrow> index_view \<Rightarrow> 'k \<Rightarrow> bool" where
  "iv_has h v k \<longleftrightarrow> iv_entry h v k \<noteq> None"

text \<open>The iterator stops after \<open>size\<close> entries.\<close>

fun iv_iterate_loop :: "nat \<Rightarrow> nat \<Rightarrow> ('k \<times> 'v \<times> nat) list \<Rightarrow> ('k \<times> 'v) list" where
  "iv_iterate_loop n seen [] = []"
| "iv_iterate_loop n seen ((k, value, pos) # es) =
     (if seen \<ge> n then [] else (k, value) # iv_iterate_loop n (Suc seen) es)"

definition iv_iterate :: "('k, 'v) index_heap \<Rightarrow> index_view \<Rightarrow> ('k \<times> 'v) list" where
  "iv_iterate h v = iv_iterate_loop (iv_size v) 0 (h ! iv_entries v)"

fun iv_rebuild :: "('k \<times> 'v \<times> nat) list \<Rightarrow> ('k \<times> 'v) list \<Rightarrow> ('k \<times> 'v \<times> nat) list" where
  "iv_rebuild entries [] = entries"
| "iv_rebuild entries ((k, v) # es) = iv_rebuild (js_set k (v, length entries) entries) es"

definition iv_set :: "('k, 'v) index_heap \<Rightarrow> index_view \<Rightarrow> 'k \<Rightarrow> 'v \<Rightarrow> ('k, 'v) index_heap \<times> index_view" where
  "iv_set h v k value =
     (let current = iv_entry h v k
      in if (case current of Some (old, _) \<Rightarrow> old = value | None \<Rightarrow> False) then (h, v)
         else if current = None \<and> iv_size v > 0 \<and> length (h ! iv_entries v) = iv_size v
         then (h[iv_entries v := js_set k (value, iv_size v) (h ! iv_entries v)],
               v\<lparr>iv_size := iv_size v + 1\<rparr>)
         else let copied = iv_rebuild [] (iv_iterate h v);
                  entries = js_set k (value, case current of Some (_, pos) \<Rightarrow> pos | None \<Rightarrow> length copied) copied
              in (h @ [entries], \<lparr>iv_entries = length h, iv_size = length entries\<rparr>))"

section \<open>What an index view denotes\<close>

definition tagged :: "('k \<times> 'v \<times> nat) list \<Rightarrow> bool" where
  "tagged es \<longleftrightarrow> distinct (map fst es) \<and> map (snd \<circ> snd) es = [0..<length es]"

definition untag :: "('k \<times> 'v \<times> nat) list \<Rightarrow> ('k \<times> 'v) list" where
  "untag es = map (\<lambda>(k, v, _). (k, v)) es"

definition iv_ok :: "('k, 'v) index_heap \<Rightarrow> index_view \<Rightarrow> bool" where
  "iv_ok h v \<longleftrightarrow> iv_entries v < length h \<and> tagged (h ! iv_entries v) \<and>
     iv_size v \<le> length (h ! iv_entries v)"

definition iv_list :: "('k, 'v) index_heap \<Rightarrow> index_view \<Rightarrow> ('k \<times> 'v) list" where
  "iv_list h v = untag (take (iv_size v) (h ! iv_entries v))"

lemma iv_iterate_loop_eq: "iv_iterate_loop n seen es = untag (take (n - seen) es)"
  by (induction n seen es rule: iv_iterate_loop.induct) (auto simp: untag_def take_Cons' )

lemma iv_iterate_eq: "iv_iterate h v = iv_list h v"
  by (simp add: iv_iterate_def iv_list_def iv_iterate_loop_eq)

lemma fst_untag [simp]: "map fst (untag es) = map fst es"
  by (simp add: untag_def split_def comp_def)

lemma length_untag [simp]: "length (untag es) = length es"
  by (simp add: untag_def)

lemma fst_set_untag [simp]: "fst ` set (untag es) = fst ` set es"
  by (metis fst_untag image_set)

lemma tagged_nth: "tagged es \<Longrightarrow> i < length es \<Longrightarrow> snd (snd (es ! i)) = i"
proof -
  assume t: "tagged es" and i: "i < length es"
  have "map (snd \<circ> snd) es ! i = [0..<length es] ! i" using t by (simp only: tagged_def)
  with i show ?thesis by simp
qed

lemma tagged_take: "tagged es \<Longrightarrow> tagged (take n es)"
  by (simp add: tagged_def take_map [symmetric] distinct_take take_upt min_def)

lemma tagged_snoc: "tagged es \<Longrightarrow> k \<notin> fst ` set es \<Longrightarrow> tagged (es @ [(k, v, length es)])"
  by (auto simp: tagged_def)

lemma tagged_map_of:
  assumes "tagged es" and "n \<le> length es"
  shows "map_of (take n es) k = (case map_of es k of
      Some (v, pos) \<Rightarrow> if pos < n then Some (v, pos) else None | None \<Rightarrow> None)"
proof (cases "map_of es k")
  case None
  then have "k \<notin> fst ` set (take n es)"
    by (meson image_mono in_mono map_of_eq_None_iff set_take_subset)
  then have "map_of (take n es) k = None" by (simp add: map_of_eq_None_iff)
  with None show ?thesis by simp
next
  case (Some e)
  obtain v pos where e: "e = (v, pos)" by fastforce
  from Some obtain i where i: "i < length es" "es ! i = (k, v, pos)"
    unfolding e by (meson in_set_conv_nth map_of_SomeD)
  then have pos: "pos = i" using tagged_nth [OF assms(1) i(1)] by simp
  show ?thesis
  proof (cases "i < n")
    case True
    then have "(k, v, pos) \<in> set (take n es)"
      using i by (metis in_set_conv_nth length_take min_less_iff_conj nth_take)
    then have "map_of (take n es) k = Some (v, pos)"
      using tagged_take [OF assms(1), of n] by (simp add: tagged_def map_of_is_SomeI)
    with True Some e pos show ?thesis by simp
  next
    case False
    have "k \<notin> fst ` set (take n es)"
    proof
      assume "k \<in> fst ` set (take n es)"
      then obtain j where j: "j < n" "j < length es" "fst (es ! j) = k"
        by (auto simp: in_set_conv_nth)
      then have "j = i" using assms(1) i
        by (metis distinct_conv_nth fst_conv length_map nth_map tagged_def)
      with j False show False by simp
    qed
    then have "map_of (take n es) k = None" by (simp add: map_of_eq_None_iff)
    with False Some e pos show ?thesis by simp
  qed
qed

lemma map_of_untag: "map_of (untag es) k = map_option fst (map_of es k)"
  by (induction es) (auto simp: untag_def)

lemma iv_entry_eq: "iv_ok h v \<Longrightarrow> iv_entry h v k = map_of (take (iv_size v) (h ! iv_entries v)) k"
  by (simp add: iv_ok_def iv_entry_def tagged_map_of split: option.split)

lemma iv_get_eq: "iv_ok h v \<Longrightarrow> iv_get h v k = map_of (iv_list h v) k"
  by (simp add: iv_get_def iv_entry_eq iv_list_def map_of_untag)

lemma iv_rebuild_eq:
  assumes "tagged es" and "distinct (map fst (untag es @ ps))"
  shows "tagged (iv_rebuild es ps) \<and> untag (iv_rebuild es ps) = untag es @ ps"
  using assms
proof (induction es ps rule: iv_rebuild.induct)
  case (2 es k v ps)
  have new: "k \<notin> fst ` set es" using "2.prems"(2) by auto
  then have "js_set k (v, length es) es = es @ [(k, v, length es)]" by (rule js_set_new)
  with "2" new show ?case by (auto simp: tagged_snoc untag_def)
qed simp

lemma untag_js_set: "untag (js_set k (v, pos) es) = js_set k v (untag es)"
  by (induction k "(v, pos)" es rule: js_set.induct) (auto simp: untag_def)

lemma tagged_js_set:
  assumes "tagged es" and "map_of es k = Some (old, pos)"
  shows "tagged (js_set k (v, pos) es)"
proof -
  have "map (snd \<circ> snd) (js_set k (v, pos) es) = map (snd \<circ> snd) es"
    using assms(2) by (induction k "(v, pos)" es rule: js_set.induct) (auto split: if_splits)
  moreover have "map fst (js_set k (v, pos) es) = map fst es"
  proof -
    from assms(2) have "(k, old, pos) \<in> set es" by (rule map_of_SomeD)
    then have "k \<in> fst ` set es" by force
    then show ?thesis by (simp add: fst_js_set)
  qed
  ultimately show ?thesis using assms(1) unfolding tagged_def by (metis length_map)
qed

lemma iv_ok_empty: "iv_empty h = (h', v) \<Longrightarrow> iv_ok h' v \<and> iv_list h' v = []"
  by (auto simp: iv_empty_def iv_ok_def iv_list_def tagged_def untag_def)

lemma iv_set_cases:
  obtains (same) old pos where "iv_entry h v k = Some (old, pos)" "old = value" "iv_set h v k value = (h, v)"
  | (grow) "iv_entry h v k = None" "iv_size v > 0" "length (h ! iv_entries v) = iv_size v"
      "iv_set h v k value = (h[iv_entries v := js_set k (value, iv_size v) (h ! iv_entries v)],
         v\<lparr>iv_size := iv_size v + 1\<rparr>)"
  | (copy) entries where "iv_set h v k value = (h @ [entries], \<lparr>iv_entries = length h, iv_size = length entries\<rparr>)"
      "entries = js_set k (value, case iv_entry h v k of Some (_, pos) \<Rightarrow> pos
         | None \<Rightarrow> length (iv_rebuild [] (iv_iterate h v))) (iv_rebuild [] (iv_iterate h v))"
proof (cases "iv_entry h v k")
  case None
  show ?thesis
  proof (cases "iv_size v > 0 \<and> length (h ! iv_entries v) = iv_size v")
    case True
    with None show ?thesis by (intro grow) (auto simp: iv_set_def Let_def)
  next
    case False
    with None show ?thesis by (intro copy [OF _ refl]) (auto simp: iv_set_def Let_def)
  qed
next
  case (Some e)
  obtain old pos where e: "e = (old, pos)" by fastforce
  show ?thesis
  proof (cases "old = value")
    case True
    with Some e show ?thesis by (intro same) (auto simp: iv_set_def Let_def)
  next
    case False
    with Some e show ?thesis by (intro copy [OF _ refl]) (auto simp: iv_set_def Let_def)
  qed
qed

lemma iv_set_ok:
  assumes ok: "iv_ok h v" and set: "iv_set h v k value = (h', v')"
  shows "iv_ok h' v' \<and> iv_list h' v' = js_set k value (iv_list h v)"
proof (cases rule: iv_set_cases [of h v k "value"])
  case (same old pos)
  then have "map_of (iv_list h v) k = Some value" using iv_get_eq [OF ok, of k] by (simp add: iv_get_def)
  moreover have "distinct (map fst (iv_list h v))"
    using ok tagged_take [of "h ! iv_entries v" "iv_size v"] by (simp add: iv_list_def iv_ok_def tagged_def)
  ultimately show ?thesis using same set ok by (simp add: js_set_same)
next
  case grow
  have "map_of (h ! iv_entries v) k = None" using grow iv_entry_eq [OF ok, of k] by simp
  then have "k \<notin> fst ` set (h ! iv_entries v)" by (simp add: map_of_eq_None_iff)
  then have app: "js_set k (value, iv_size v) (h ! iv_entries v) = h ! iv_entries v @ [(k, value, iv_size v)]"
    "js_set k value (untag (h ! iv_entries v)) = untag (h ! iv_entries v @ [(k, value, iv_size v)])"
    "tagged (h ! iv_entries v @ [(k, value, iv_size v)])"
    using grow(3) ok tagged_snoc [of "h ! iv_entries v" k "value"] js_set_new [of k "untag (h ! iv_entries v)" "value"]
    by (simp_all add: js_set_new iv_ok_def) (simp add: untag_def)
  with grow ok set show ?thesis
    by (auto simp: iv_ok_def iv_list_def)
next
  case (copy entries)
  let ?copied = "iv_rebuild [] (iv_iterate h v)"
  have dist: "distinct (map fst (iv_list h v))"
    using ok tagged_take [of "h ! iv_entries v" "iv_size v"] by (simp add: iv_list_def iv_ok_def tagged_def)
  then have cop: "tagged ?copied" "untag ?copied = iv_list h v"
    using iv_rebuild_eq [of "[]" "iv_iterate h v"] by (simp_all add: iv_iterate_eq tagged_def untag_def)
  have pre: "?copied = take (iv_size v) (h ! iv_entries v)"
  proof -
    have t: "tagged (take (iv_size v) (h ! iv_entries v))" using ok by (simp add: iv_ok_def tagged_take)
    have "untag ?copied = untag (take (iv_size v) (h ! iv_entries v))" using cop by (simp add: iv_list_def)
    moreover have "es = es'" if "tagged es" "tagged es'" "untag es = untag es'" for es es' :: "('a \<times> 'b \<times> nat) list"
    proof -
      have "length es = length es'" using that(3) by (metis length_untag)
      then show ?thesis using that
        by (intro nth_equalityI) (auto simp: untag_def list_eq_iff_nth_eq tagged_nth split_def prod_eq_iff)
    qed
    ultimately show ?thesis using cop(1) t by blast
  qed
  have "tagged entries"
  proof (cases "iv_entry h v k")
    case None
    then have "k \<notin> fst ` set ?copied" using iv_entry_eq [OF ok, of k] by (simp add: pre map_of_eq_None_iff)
    with None copy cop show ?thesis by (simp add: js_set_new tagged_snoc)
  next
    case (Some e)
    then show ?thesis using copy cop iv_entry_eq [OF ok, of k] pre
      by (cases e) (auto intro: tagged_js_set)
  qed
  moreover have "untag entries = js_set k value (iv_list h v)"
    using copy cop by (simp add: untag_js_set)
  ultimately show ?thesis using copy set by (auto simp: iv_ok_def iv_list_def nth_append)
qed

lemma iv_set_frame:
  assumes "iv_ok h u" and "iv_set h v k value = (h', v')"
  shows "iv_ok h' u \<and> iv_list h' u = iv_list h u"
proof (cases rule: iv_set_cases [of h v k "value"])
  case grow
  show ?thesis
  proof (cases "iv_entries u = iv_entries v")
    case True
    have ok: "iv_ok h v" using True grow assms(1) by (simp add: iv_ok_def)
    have "map_of (h ! iv_entries v) k = None" using grow iv_entry_eq [OF ok, of k] by simp
    then have "k \<notin> fst ` set (h ! iv_entries v)" by (simp add: map_of_eq_None_iff)
    with True grow assms show ?thesis
      by (auto simp: iv_ok_def iv_list_def js_set_new) (metis grow(3) tagged_snoc)
  next
    case False
    with grow assms show ?thesis by (auto simp: iv_ok_def iv_list_def)
  qed
qed (use assms in \<open>auto simp: iv_ok_def iv_list_def nth_append\<close>)

end
