(* ===== verification/FamilyKeys.thy ===== *)
theory FamilyKeys
  imports Prelude "HOL-Library.Word" "HOL-Library.List_Lexorder"
begin

text \<open>
  Keys of journal families (\<open>packages/core/src/services/journal/family.ts\<close>). A key is a JavaScript
  string, a sequence of 16-bit code units; iterating it yields code points, so a surrogate pair is
  one element. \<open>compareFamilyKeys\<close> orders keys by code points, and \<open>collectFamilyKeys\<close> keeps the
  least \<open>limit\<close> keys of a stream, by binary search in a sorted array. The keys are a \<open>linorder\<close>,
  and \<open>collect_all\<close> characterises the page as the first keys of the sorted set.
\<close>

section \<open>Code points\<close>

datatype family_key = FamilyKey (key_units: "16 word list")

definition high_surrogate :: "16 word \<Rightarrow> bool" where
  "high_surrogate u \<longleftrightarrow> 0xD800 \<le> unat u \<and> unat u \<le> 0xDBFF"

definition low_surrogate :: "16 word \<Rightarrow> bool" where
  "low_surrogate u \<longleftrightarrow> 0xDC00 \<le> unat u \<and> unat u \<le> 0xDFFF"

text \<open>\<open>string[Symbol.iterator]\<close> with \<open>codePointAt(0)\<close> of each element.\<close>

fun code_points :: "16 word list \<Rightarrow> nat list" where
  "code_points [] = []"
| "code_points [x] = [unat x]"
| "code_points (x # y # r) =
     (if high_surrogate x \<and> low_surrogate y
      then (0x10000 + (unat x - 0xD800) * 0x400 + (unat y - 0xDC00)) # code_points r
      else unat x # code_points (y # r))"

fun compare_points :: "nat list \<Rightarrow> nat list \<Rightarrow> int" where
  "compare_points [] [] = 0"
| "compare_points [] (_ # _) = -1"
| "compare_points (_ # _) [] = 1"
| "compare_points (x # xs) (y # ys) =
     (let difference = int x - int y in if difference \<noteq> 0 then difference else compare_points xs ys)"

definition compareFamilyKeys :: "family_key \<Rightarrow> family_key \<Rightarrow> int" where
  "compareFamilyKeys l r = compare_points (code_points (key_units l)) (code_points (key_units r))"

lemma unat_16: "unat (u :: 16 word) < 65536"
  using unsigned_less [of u] by simp

lemma unat_16_inject: "unat (u :: 16 word) = unat v \<Longrightarrow> u = v"
  by (rule unsigned_word_eqI)

lemma pair_arith:
  fixes a b c d :: nat
  assumes "a * 1024 + b = c * 1024 + d" "b < 1024" "d < 1024"
  shows "a = c \<and> b = d"
proof -
  have "(a * 1024 + b) div 1024 = a" "(c * 1024 + d) div 1024 = c" using assms(2,3) by simp_all
  with assms(1) have "a = c" by simp
  with assms(1) show ?thesis by simp
qed

lemma pair_inject:
  fixes x y x' y' :: "16 word"
  assumes "high_surrogate x" "low_surrogate y" "high_surrogate x'" "low_surrogate y'"
    and "(unat x - 0xD800) * 0x400 + (unat y - 0xDC00) = (unat x' - 0xD800) * 0x400 + (unat y' - 0xDC00)"
  shows "x = x' \<and> y = y'"
proof -
  have "unat x - 0xD800 = unat x' - 0xD800 \<and> unat y - 0xDC00 = unat y' - 0xDC00"
    using assms by (intro pair_arith) (auto simp: low_surrogate_def)
  with assms have "unat x = unat x'" "unat y = unat y'" by (auto simp: high_surrogate_def low_surrogate_def)
  then show ?thesis by (blast intro: unat_16_inject)
qed

lemma code_points_Cons:
  obtains (pair) y ys where "r = y # ys" "high_surrogate x" "low_surrogate y"
      "code_points (x # r) = (0x10000 + (unat x - 0xD800) * 0x400 + (unat y - 0xDC00)) # code_points ys"
  | (single) "code_points (x # r) = unat x # code_points r"
  by (cases r) (simp_all split: if_splits, metis)

lemma code_points_inject: "code_points xs = code_points ys \<Longrightarrow> xs = ys"
proof (induction "length xs" arbitrary: xs ys rule: less_induct)
  case less
  show ?case
  proof (cases xs)
    case Nil
    with less.prems show ?thesis by (cases ys rule: code_points.cases) (auto split: if_splits)
  next
    case (Cons x r)
    show ?thesis
    proof (cases ys)
      case Nil
      with less.prems Cons show ?thesis by (cases xs rule: code_points.cases) (auto split: if_splits)
    next
      case (Cons x' r')
      show ?thesis
      proof (cases rule: code_points_Cons [of r x])
        case (pair y t)
        show ?thesis
        proof (cases rule: code_points_Cons [of r' x'])
          case pair': (pair y' t')
          with pair \<open>xs = x # r\<close> Cons less.prems
          have "x = x' \<and> y = y'" and "code_points t = code_points t'" using pair_inject [of x y x' y'] by auto
          then show ?thesis using less.hyps [of t t'] pair pair' \<open>xs = x # r\<close> Cons by simp
        next
          case single
          with pair \<open>xs = x # r\<close> Cons less.prems unat_16 [of x'] show ?thesis by auto
        qed
      next
        case single
        show ?thesis
        proof (cases rule: code_points_Cons [of r' x'])
          case (pair y' t')
          with single \<open>xs = x # r\<close> Cons less.prems unat_16 [of x] show ?thesis by auto
        next
          case single': single
          with single \<open>xs = x # r\<close> Cons less.prems have "unat x = unat x'" "code_points r = code_points r'" by auto
          then have "x = x'" "code_points r = code_points r'" by (blast intro: unat_16_inject)+
          then show ?thesis using less.hyps [of r r'] \<open>xs = x # r\<close> Cons by simp
        qed
      qed
    qed
  qed
qed

lemma code_points_eq_iff [simp]: "code_points xs = code_points ys \<longleftrightarrow> xs = ys"
  using code_points_inject by blast

section \<open>The order of keys\<close>

instantiation family_key :: linorder
begin

definition less_eq_family_key :: "family_key \<Rightarrow> family_key \<Rightarrow> bool" where
  "less_eq_family_key a b \<longleftrightarrow> code_points (key_units a) \<le> code_points (key_units b)"

definition less_family_key :: "family_key \<Rightarrow> family_key \<Rightarrow> bool" where
  "less_family_key a b \<longleftrightarrow> code_points (key_units a) < code_points (key_units b)"

instance
proof
  fix a b c :: family_key
  show "a < b \<longleftrightarrow> a \<le> b \<and> \<not> b \<le> a" unfolding less_eq_family_key_def less_family_key_def by (rule less_le_not_le)
  show "a \<le> a" by (simp add: less_eq_family_key_def)
  show "a \<le> b \<Longrightarrow> b \<le> c \<Longrightarrow> a \<le> c" by (auto simp: less_eq_family_key_def)
  show "a \<le> b \<Longrightarrow> b \<le> a \<Longrightarrow> a = b" by (auto simp: less_eq_family_key_def intro: family_key.expand)
  show "a \<le> b \<or> b \<le> a" by (auto simp: less_eq_family_key_def)
qed

end

lemma compare_points_sign:
  "compare_points xs ys < 0 \<longleftrightarrow> xs < ys" "compare_points xs ys = 0 \<longleftrightarrow> xs = ys"
  by (induction xs ys rule: compare_points.induct) (auto simp: Let_def)

lemma compare_sign:
  "compareFamilyKeys a b < 0 \<longleftrightarrow> a < b" "compareFamilyKeys a b = 0 \<longleftrightarrow> a = b" "compareFamilyKeys a b \<le> 0 \<longleftrightarrow> a \<le> b"
proof -
  show less: "compareFamilyKeys a b < 0 \<longleftrightarrow> a < b"
    by (simp add: compareFamilyKeys_def compare_points_sign less_family_key_def)
  show eq: "compareFamilyKeys a b = 0 \<longleftrightarrow> a = b"
    by (cases a; cases b) (simp add: compareFamilyKeys_def compare_points_sign)
  have "compareFamilyKeys a b \<le> 0 \<longleftrightarrow> compareFamilyKeys a b < 0 \<or> compareFamilyKeys a b = 0" by linarith
  then show "compareFamilyKeys a b \<le> 0 \<longleftrightarrow> a \<le> b" unfolding less eq by auto
qed

section \<open>Collecting a page of keys\<close>

text \<open>The binary search for the first index whose key is not below the given one.\<close>

function search_key :: "family_key list \<Rightarrow> family_key \<Rightarrow> nat \<Rightarrow> nat \<Rightarrow> nat" where
  "search_key keys key from_i to_i =
     (if from_i < to_i
      then (let middle = (from_i + to_i) div 2 in
            if compareFamilyKeys (keys ! middle) key < 0 then search_key keys key (middle + 1) to_i
            else search_key keys key from_i middle)
      else from_i)"
  by pat_completeness auto
termination by (relation "measure (\<lambda>(_, _, f, t). t - f)") auto

declare search_key.simps [simp del]

definition collect_key :: "nat \<Rightarrow> family_key \<Rightarrow> family_key list \<Rightarrow> family_key list" where
  "collect_key limit key keys =
     (let i = search_key keys key 0 (length keys) in
      if i < length keys \<and> keys ! i = key \<or> i \<ge> limit then keys
      else (let keys = take i keys @ key # drop i keys in
            if length keys > limit then butlast keys else keys))"

fun collect_from :: "family_key option \<Rightarrow> nat \<Rightarrow> family_key option list \<Rightarrow> family_key list \<Rightarrow> family_key list" where
  "collect_from after limit [] keys = keys"
| "collect_from after limit (None # input) keys = collect_from after limit input keys"
| "collect_from after limit (Some key # input) keys =
     (if after \<noteq> None \<and> compareFamilyKeys key (the after) \<le> 0 then collect_from after limit input keys
      else collect_from after limit input (collect_key limit key keys))"

definition collectFamilyKeys :: "family_key option list \<Rightarrow> family_key option \<Rightarrow> nat \<Rightarrow> family_key list" where
  "collectFamilyKeys input after limit = collect_from after limit input []"

lemma search_key_bound:
  assumes "sorted_wrt (<) keys" "from_i \<le> to_i" "to_i \<le> length keys"
    and "\<forall>j < from_i. keys ! j < key" "\<forall>j. to_i \<le> j \<and> j < length keys \<longrightarrow> key \<le> keys ! j"
  shows "let i = search_key keys key from_i to_i in
    i \<le> length keys \<and> (\<forall>j < i. keys ! j < key) \<and> (\<forall>j. i \<le> j \<and> j < length keys \<longrightarrow> key \<le> keys ! j)"
  using assms
proof (induction keys key from_i to_i rule: search_key.induct)
  case (1 keys key from_i to_i)
  show ?case
  proof (cases "from_i < to_i")
    case True
    define m where "m = (from_i + to_i) div 2"
    have m: "from_i \<le> m" "m < to_i" using True by (auto simp: m_def)
    with "1.prems" have len: "m < length keys" by simp
    show ?thesis
    proof (cases "compareFamilyKeys (keys ! m) key < 0")
      case less: True
      have "\<forall>j < m + 1. keys ! j < key"
      proof (intro allI impI)
        fix j assume "j < m + 1"
        then have "j = m \<or> keys ! j < keys ! m"
          using sorted_wrt_nth_less [OF "1.prems"(1), of j m] len by (cases "j = m") auto
        with less show "keys ! j < key" by (auto simp: compare_sign)
      qed
      with "1.IH"(1) [OF True m_def less] "1.prems" m less True show ?thesis
        by (subst search_key.simps) (simp add: m_def Let_def)
    next
      case ge: False
      have "\<forall>j. m \<le> j \<and> j < length keys \<longrightarrow> key \<le> keys ! j"
      proof (intro allI impI)
        fix j assume "m \<le> j \<and> j < length keys"
        then have "j = m \<or> keys ! m < keys ! j"
          using sorted_wrt_nth_less [OF "1.prems"(1), of m j] by (cases "j = m") auto
        with ge show "key \<le> keys ! j" by (auto simp: compare_sign)
      qed
      with "1.IH"(2) [OF True m_def ge] "1.prems" m ge True show ?thesis
        by (subst search_key.simps) (simp add: m_def Let_def)
    qed
  next
    case False
    with "1.prems" show ?thesis by (subst search_key.simps) simp
  qed
qed

text \<open>One key inserted: the first \<open>limit\<close> keys of the sorted list with the key inserted.\<close>

lemma insort_split:
  assumes "\<forall>j < i. keys ! j < key" "\<forall>j. i \<le> j \<and> j < length keys \<longrightarrow> key \<le> keys ! j" "i \<le> length keys"
  shows "insort key keys = take i keys @ key # drop i keys"
  using assms
proof (induction keys arbitrary: i)
  case (Cons x keys)
  show ?case
  proof (cases i)
    case 0
    with Cons.prems(2) have "key \<le> (x # keys) ! 0" by blast
    with 0 show ?thesis by simp
  next
    case (Suc i')
    with Cons.prems(1) have "x < key" by force
    moreover have "insort key keys = take i' keys @ key # drop i' keys"
    proof (rule Cons.IH)
      show "\<forall>j < i'. keys ! j < key" using Cons.prems(1) Suc by (metis Suc_less_eq nth_Cons_Suc)
      show "\<forall>j. i' \<le> j \<and> j < length keys \<longrightarrow> key \<le> keys ! j"
        using Cons.prems(2) Suc by (metis Suc_le_mono Suc_less_eq length_Cons nth_Cons_Suc)
      show "i' \<le> length keys" using Cons.prems(3) Suc by simp
    qed
    moreover have "\<not> key \<le> x" using \<open>x < key\<close> by simp
    ultimately show ?thesis using Suc by simp
  qed
qed simp

lemma insort_insert_Cons:
  assumes "sorted_wrt (<) (x # xs)"
  shows "insort_insert k (x # xs) = (if k = x then x # xs else if k < x then k # x # xs else x # insort_insert k xs)"
  using assms by (auto simp: insort_insert_key_def)

lemma take_insort:
  "sorted_wrt (<) xs \<Longrightarrow> take n (insort_insert k (take n xs)) = take n (insort_insert k xs)"
proof (induction xs arbitrary: n)
  case (Cons x xs)
  show ?case
  proof (cases n)
    case (Suc m)
    have sorted: "sorted_wrt (<) (x # take m xs)" using Cons.prems by (auto dest: in_set_takeD intro: sorted_wrt_take)
    have "take m (x # take m xs) = take m (x # xs)" by (cases m) (simp_all add: min_def)
    with Cons Suc show ?thesis by (simp add: insort_insert_Cons [OF sorted] insort_insert_Cons [OF Cons.prems])
  qed simp
qed simp

lemma collect_key_correct:
  assumes "sorted_wrt (<) keys" "length keys \<le> limit"
  shows "collect_key limit key keys = take limit (insort_insert key keys)"
proof -
  define i where "i = search_key keys key 0 (length keys)"
  have none: "\<forall>j. length keys \<le> j \<and> j < length keys \<longrightarrow> key \<le> keys ! j" by auto
  have bound: "i \<le> length keys" "\<forall>j < i. keys ! j < key" "\<forall>j. i \<le> j \<and> j < length keys \<longrightarrow> key \<le> keys ! j"
    using search_key_bound [OF assms(1) _ _ _ none, of 0] unfolding i_def Let_def by blast+
  have present: "key \<in> set keys \<longleftrightarrow> i < length keys \<and> keys ! i = key"
  proof
    assume "key \<in> set keys"
    then obtain j where j: "j < length keys" "keys ! j = key" by (auto simp: in_set_conv_nth)
    with bound(2) have "i \<le> j" by (metis less_irrefl not_le)
    moreover have "\<not> i < j"
    proof
      assume "i < j"
      then have "keys ! i < keys ! j" by (rule sorted_wrt_nth_less [OF assms(1)]) (rule j)
      moreover have "key \<le> keys ! i" using bound(3) \<open>i < j\<close> j by simp
      ultimately show False using j by simp
    qed
    ultimately show "i < length keys \<and> keys ! i = key" using j by auto
  qed (auto simp: in_set_conv_nth)
  show ?thesis
  proof (cases "key \<in> set keys")
    case True
    with present assms(2) show ?thesis by (simp add: collect_key_def Let_def insort_insert_key_def flip: i_def)
  next
    case False
    then have ins: "insort_insert key keys = take i keys @ key # drop i keys"
      using insort_split [OF bound(2,3,1)] by (simp add: insort_insert_key_def)
    show ?thesis
      using present False bound(1) assms(2) ins le_antisym [of "length keys" limit]
      by (auto simp: collect_key_def Let_def butlast_conv_take min_def less_Suc_eq_le simp flip: i_def)
  qed
qed

lemma sorted_list_of_set_insert_eq:
  "finite A \<Longrightarrow> insort_insert x (sorted_list_of_set A) = sorted_list_of_set (insert x A)" for A :: "'a::linorder set"
  by (cases "x \<in> A") (simp_all add: insort_insert_key_def insert_absorb)

definition wanted_keys :: "family_key option \<Rightarrow> family_key option list \<Rightarrow> family_key set" where
  "wanted_keys after input = {k. Some k \<in> set input \<and> (\<forall>a. after = Some a \<longrightarrow> a < k)}"

lemma collect_from_correct:
  "finite A \<Longrightarrow> keys = take limit (sorted_list_of_set A) \<Longrightarrow>
     collect_from after limit input keys = take limit (sorted_list_of_set (A \<union> wanted_keys after input))"
proof (induction after limit input keys arbitrary: A rule: collect_from.induct)
  case (1 after limit keys)
  then show ?case by (simp add: wanted_keys_def)
next
  case (2 after limit input keys)
  then show ?case by (simp add: wanted_keys_def)
next
  case (3 after limit key input keys)
  show ?case
  proof (cases "after \<noteq> None \<and> compareFamilyKeys key (the after) \<le> 0")
    case True
    then have "wanted_keys after (Some key # input) = wanted_keys after input"
      by (auto simp: wanted_keys_def compare_sign)
    with 3 True show ?thesis by simp
  next
    case False
    then have "wanted_keys after (Some key # input) = insert key (wanted_keys after input)"
      by (auto simp: wanted_keys_def compare_sign)
    moreover have "collect_key limit key keys = take limit (sorted_list_of_set (insert key A))"
    proof -
      have sorted: "sorted_wrt (<) (sorted_list_of_set A)" by simp
      then have "sorted_wrt (<) keys" using "3.prems"(2) by (auto intro: sorted_wrt_take)
      moreover have "length keys \<le> limit" using "3.prems"(2) by simp
      ultimately show ?thesis
        using collect_key_correct take_insort [OF sorted, of limit key] "3.prems"
        by (simp add: sorted_list_of_set_insert_eq)
    qed
    ultimately show ?thesis using False "3.IH"(2) [of "insert key A"] "3.prems"(1) by auto
  qed
qed

lemma collect_all: "collectFamilyKeys input after limit = take limit (sorted_list_of_set (wanted_keys after input))"
  using collect_from_correct [of "{}" "[]" limit after input] by (simp add: collectFamilyKeys_def)

section \<open>UTF-8\<close>

text \<open>The bytes of a code point below 0x110000, and SQLite's binary collation of the encodings.\<close>

definition utf8_point :: "nat \<Rightarrow> nat list" where
  "utf8_point c =
     (if c < 0x80 then [c]
      else if c < 0x800 then [0xC0 + c div 64, 0x80 + c mod 64]
      else if c < 0x10000 then [0xE0 + c div 4096, 0x80 + c div 64 mod 64, 0x80 + c mod 64]
      else [0xF0 + c div 262144, 0x80 + c div 4096 mod 64, 0x80 + c div 64 mod 64, 0x80 + c mod 64])"

definition utf8 :: "nat list \<Rightarrow> nat list" where
  "utf8 cs = concat (map utf8_point cs)"

lemma div_mod_less:
  assumes "c < (d :: nat)"
  shows "c div k < d div k \<or> c div k = d div k \<and> c mod k < d mod k"
proof -
  have "c div k \<le> d div k" using assms by (intro div_le_mono) simp
  moreover have "c mod k < d mod k" if "c div k = d div k"
    using assms that mult_div_mod_eq [of k c] mult_div_mod_eq [of k d] by (metis nat_add_left_cancel_less)
  ultimately show ?thesis by linarith
qed

lemma lex_2: "x < y \<or> x = y \<and> u < v \<Longrightarrow> [p + x, q + u] @ r < [p + y, q + v] @ s" for x :: nat
  by auto

lemma lex_3:
  "x < y \<or> x = y \<and> (u < v \<or> u = v \<and> m < n) \<Longrightarrow> [p + x, q + u, q + m] @ r < [p + y, q + v, q + n] @ s" for x :: nat
  by auto

lemma lex_4:
  "x < y \<or> x = y \<and> (u < v \<or> u = v \<and> (m < n \<or> m = n \<and> i < j)) \<Longrightarrow>
     [p + x, q + u, q + m, q + i] @ r < [p + y, q + v, q + n, q + j] @ s" for x :: nat
  by auto

lemma div_64: "n div 4096 = n div 64 div 64" "n div 262144 = n div 64 div 64 div 64" for n :: nat
  by (simp_all flip: div_mult2_eq)

lemma utf8_same_2: "c < (d :: nat) \<Longrightarrow> [p + c div 64, q + c mod 64] @ r < [p + d div 64, q + d mod 64] @ s"
  by (rule lex_2) (rule div_mod_less)

lemma utf8_same_3:
  assumes "c < (d :: nat)"
  shows "[p + c div 4096, q + c div 64 mod 64, q + c mod 64] @ r < [p + d div 4096, q + d div 64 mod 64, q + d mod 64] @ s"
  unfolding div_64
  by (rule lex_3) (use div_mod_less [OF assms, of 64] div_mod_less [of "c div 64" "d div 64" 64] in metis)

lemma utf8_same_4:
  assumes "c < (d :: nat)"
  shows "[p + c div 262144, q + c div 4096 mod 64, q + c div 64 mod 64, q + c mod 64] @ r <
    [p + d div 262144, q + d div 4096 mod 64, q + d div 64 mod 64, q + d mod 64] @ s"
  unfolding div_64
  by (rule lex_4) (use div_mod_less [OF assms, of 64] div_mod_less [of "c div 64" "d div 64" 64]
        div_mod_less [of "c div 64 div 64" "d div 64 div 64" 64] in metis)

definition first_byte :: "nat \<Rightarrow> nat" where
  "first_byte c = hd (utf8_point c)"

lemma first_byte_range:
  "c < 0x80 \<Longrightarrow> first_byte c < 0x80"
  "0x80 \<le> c \<Longrightarrow> c < 0x800 \<Longrightarrow> 0xC0 \<le> first_byte c \<and> first_byte c < 0xE0"
  "0x800 \<le> c \<Longrightarrow> c < 0x10000 \<Longrightarrow> 0xE0 \<le> first_byte c \<and> first_byte c < 0xF0"
  "0x10000 \<le> c \<Longrightarrow> 0xF0 \<le> first_byte c"
  by (simp_all add: first_byte_def utf8_point_def)

lemma utf8_point_first: "utf8_point c \<noteq> []"
  by (simp add: utf8_point_def)

lemma first_byte_less: "first_byte c < first_byte d \<Longrightarrow> utf8_point c @ r < utf8_point d @ s"
  using utf8_point_first [of c] utf8_point_first [of d] by (auto simp: first_byte_def neq_Nil_conv)

lemma utf8_point_less:
  assumes "c < d"
  shows "utf8_point c @ r < utf8_point d @ s"
proof -
  consider "d < 0x80" | "0x80 \<le> c" "d < 0x800" | "0x800 \<le> c" "d < 0x10000" | "0x10000 \<le> c"
    | "c < 0x80" "0x80 \<le> d" | "c < 0x800" "0x800 \<le> d" | "c < 0x10000" "0x10000 \<le> d"
    using assms by linarith
  then show ?thesis
  proof cases
    case 1
    with assms show ?thesis by (simp add: utf8_point_def)
  next
    case 2
    with assms utf8_same_2 [of c d, where p = "0xC0" and q = "0x80"] show ?thesis by (simp add: utf8_point_def)
  next
    case 3
    with assms utf8_same_3 [of c d, where p = "0xE0" and q = "0x80"] show ?thesis by (simp add: utf8_point_def)
  next
    case 4
    with assms utf8_same_4 [of c d, where p = "0xF0" and q = "0x80"] show ?thesis by (simp add: utf8_point_def)
  qed (rule first_byte_less; use first_byte_range [of c] first_byte_range [of d] assms in linarith)+
qed

lemma utf8_less: "cs < ds \<Longrightarrow> utf8 cs < utf8 ds"
proof (induction cs ds rule: compare_points.induct)
  case (2 d ds)
  then show ?case using utf8_point_first [of d] by (auto simp: utf8_def neq_Nil_conv)
next
  case (4 c cs d ds)
  have "xs @ r < xs @ s" if "r < s" for xs r s :: "nat list" using that by (induction xs) auto
  with 4 utf8_point_less [of c d] show ?case by (auto simp: utf8_def)
qed (simp_all add: utf8_def)

lemma utf8_less_iff: "utf8 cs < utf8 ds \<longleftrightarrow> cs < ds"
  using utf8_less [of cs ds] utf8_less [of ds cs] by (metis linorder_less_linear order_less_imp_not_less)

end
