(* ===== verification/LogProperties.thy ===== *)
theory LogProperties
  imports LogViews RangeLogs IndexViews FamilyKeys
begin

text \<open>
  Properties of the journal's read surface: views share storage without seeing each other's branches,
  interval reads amount to reading the whole list, and the keys of a journal family are collected in
  the byte order of their text.
\<close>

text \<open>
  C33. A run of appends and prefixes over log views behaves as the same run over plain lists: it fails
  where that one fails, and every view of the result reads as its list.
\<close>

theorem log_views_refine_lists:
  "(case lv_run (lv_initial_heap, [lv_empty]) xs of
     Inl e \<Rightarrow> list_run [[]] xs = Inl e
   | Inr (h, vs) \<Rightarrow> list_run [[]] xs = Inr (map (lv_list h) vs) \<and>
       list_all (\<lambda>v. lv_iterate h v = lv_list h v \<and> lv_at h v i = array_at (lv_list h v) i \<and>
         lv_slice h v s e = array_slice (lv_list h v) s e \<and> lv_findIndex h v p = array_findIndex (lv_list h v) p) vs)"
proof -
  have ok: "views_ok lv_initial_heap [lv_empty]" by (simp add: views_ok_def lv_ok_empty)
  have reads: "lv_iterate h v = lv_list h v \<and> lv_at h v i = array_at (lv_list h v) i \<and>
      lv_slice h v s e = array_slice (lv_list h v) s e \<and> lv_findIndex h v p = array_findIndex (lv_list h v) p" if "lv_ok h v" for h v
    using log_view_reads.iterate_items [of "(h, v)"] log_view_reads.findIndex_items [of "(h, v)" p] lv_reads(1,2) [OF that] that by simp
  have all: "list_all (\<lambda>v. lv_iterate h v = lv_list h v \<and> lv_at h v i = array_at (lv_list h v) i \<and>
      lv_slice h v s e = array_slice (lv_list h v) s e \<and> lv_findIndex h v p = array_findIndex (lv_list h v) p) vs"
    if "views_ok h vs" for h vs
    using that reads unfolding views_ok_def list_all_iff by blast
  have start: "map (lv_list lv_initial_heap) [lv_empty] = [[]]" by (simp add: lv_ok_empty(2))
  from lv_run_simulates [OF ok, of xs] show ?thesis unfolding start
  proof (elim disjE exE conjE)
    fix h vs
    assume "lv_run (lv_initial_heap, [lv_empty]) xs = Inr (h, vs)" "views_ok h vs" "list_run [[]] xs = Inr (map (lv_list h) vs)"
    with all show ?thesis by simp
  qed simp
qed

text \<open>
  Reading a journal interval in batches gives what reading it whole gives: indexing, slicing, searching
  and iterating a range log are the array operations on its records.
\<close>

theorem range_log_reads_list:
  assumes "rl_available r"
  shows "rl_iterate r = Inr (rl_items r) \<and> rl_at r i = Inr (array_at (rl_items r) i) \<and>
    rl_slice r s e = Inr (array_slice (rl_items r) s e) \<and>
    rl_findIndex r p = Inr (array_findIndex (rl_items r) p) \<and> rl_filter r p = Inr (filter_index_from p 0 (rl_items r))"
  using range_log_reads.read_items [OF assms] by simp

definition demo_range :: "nat range_log" where
  "demo_range = \<lparr>rl_length = 3, rl_read = (\<lambda>lo hi. drop lo (take hi [7, 8, 9])), rl_batchSize = 2\<rparr>"

theorem range_log_reads_list_witness:
  "rl_iterate demo_range = Inr [7, 8, 9] \<and> rl_slice demo_range (Some 1) None = Inr [8, 9] \<and>
   rl_findIndex demo_range (\<lambda>x _. x = 9) = Inr 2"
proof -
  have "rl_available demo_range"
    by (auto simp: rl_available_def demo_range_def rl_items_def max_safe_integer_def min_def not_le intro!: arg_cong [of _ _ "drop _"])
  from range_log_reads_list [OF this, of 0 "Some 1" None "\<lambda>x _. x = 9"] show ?thesis
    by (simp add: demo_range_def rl_items_def array_slice_def array_bound_def array_findIndex_def)
qed

text \<open>
  Setting a key of an index view gives the map update on the new view and leaves every other view that
  shares its storage as it was.
\<close>

theorem index_set_branches:
  assumes "iv_ok h v" "iv_ok h u" "iv_set h v k x = (h', v')"
  shows "iv_list h' v' = js_set k x (iv_list h v) \<and> iv_get h' v' q = ((map_of (iv_list h v))(k \<mapsto> x)) q \<and>
    iv_list h' u = iv_list h u \<and> iv_get h' u q = iv_get h u q"
  using iv_set_ok [OF assms(1,3)] iv_set_frame [OF assms(2,3)] assms(2) iv_get_eq by fastforce

definition demo_index :: "(string, nat) index_heap \<times> index_view" where
  "demo_index = (let (h, v) = iv_empty [] in iv_set h v ''a'' 1)"

theorem index_set_branches_witness:
  "iv_get (fst (iv_set (fst demo_index) (snd demo_index) ''a'' 2)) (snd demo_index) ''a'' = Some 1"
proof -
  have empty: "iv_empty [] = ([[]], \<lparr>iv_entries = 0, iv_size = 0\<rparr>)" by (simp add: iv_empty_def)
  obtain h v where hv: "iv_set [[]] \<lparr>iv_entries = 0, iv_size = 0\<rparr> ''a'' (1 :: nat) = (h, v)" by fastforce
  from iv_set_ok [OF iv_ok_empty [OF empty, THEN conjunct1] hv] hv have ok: "iv_ok (fst demo_index) (snd demo_index)"
    by (simp add: demo_index_def empty del: One_nat_def)
  have "iv_get (fst demo_index) (snd demo_index) ''a'' = Some 1" by code_simp
  with index_set_branches [OF ok ok prod.collapse [symmetric], of "''a''" 2 "''a''"] show ?thesis by simp
qed

text \<open>
  Collecting the keys of a family page by page gives the smallest keys after the cursor, in order and
  without duplicates, however the records are ordered.
\<close>

theorem family_page_correct:
  "collectFamilyKeys input after limit = take limit (sorted_list_of_set (wanted_keys after input)) \<and>
   set (collectFamilyKeys input after limit) \<subseteq> {k. Some k \<in> set input} \<and>
   length (collectFamilyKeys input after limit) \<le> limit"
proof -
  have "wanted_keys after input \<subseteq> the ` set input" by (force simp: wanted_keys_def image_iff)
  then have fin: "finite (wanted_keys after input)" by (rule finite_subset) simp
  have "set (collectFamilyKeys input after limit) \<subseteq> set (sorted_list_of_set (wanted_keys after input))"
    unfolding collect_all by (rule set_take_subset)
  with fin show ?thesis by (auto simp: collect_all wanted_keys_def)
qed

text \<open>
  Keys compare as the bytes of their UTF-8 text do, so the order of the memory journal is the binary
  order of a database column.
\<close>

theorem family_keys_byte_order:
  "(compareFamilyKeys a b < 0 \<longleftrightarrow> utf8 (code_points (key_units a)) < utf8 (code_points (key_units b))) \<and>
   (compareFamilyKeys a b = 0 \<longleftrightarrow> a = b) \<and> (compareFamilyKeys a b > 0 \<longleftrightarrow> compareFamilyKeys b a < 0)"
  using compare_sign [of a b] compare_sign [of b a] less_family_key_def [of a b] utf8_less_iff
  by (metis linorder_not_less order_le_less)

end
