(* ===== verification/SupervisorGraph.thy ===== *)
theory SupervisorGraph
  imports Events
begin

text \<open>
  The supervisor of an actor instance (\<open>packages/core/src/services/supervisor/graph.ts\<close>): thread
  allocations, the durable atoms of \<open>familySupervisorActor\<close> (one state per thread and per name)
  and the single directory of \<open>supervisorActor\<close>, with the validation of both. \<open>family_run\<close> and
  \<open>directory_run\<close> replay a list of events, each with its journal position.
\<close>

section \<open>Data\<close>

record allocation =
  al_coordinate :: thread_coordinate
  al_name :: string
  al_parent :: "string option"
  al_depth :: nat
  al_placement :: child_placement
  al_initialState :: "(string, json) fmap option"

definition allocation_ok :: "allocation \<Rightarrow> bool" where
  "allocation_ok a \<longleftrightarrow> coordinate_ok (al_coordinate a) \<and> al_name a \<noteq> [] \<and> al_parent a \<noteq> Some [] \<and>
     safe_integer (int (al_depth a)) \<and>
     (case al_initialState a of None \<Rightarrow> True | Some m \<Rightarrow> initial_state_ok m)"

datatype thread_status = Requested | Registered | Failed

record thread_entry = allocation +
  te_origin :: nat
  te_status :: thread_status
  te_reason :: "string option"

datatype supervisor_event =
    ThreadRequested allocation
  | ThreadRegistered thread_coordinate
  | ThreadFailed thread_coordinate string

fun supervisor_event_ok :: "supervisor_event \<Rightarrow> bool" where
  "supervisor_event_ok (ThreadRequested a) = allocation_ok a"
| "supervisor_event_ok (ThreadRegistered c) = coordinate_ok c"
| "supervisor_event_ok (ThreadFailed c _) = coordinate_ok c"

fun event_coordinate :: "supervisor_event \<Rightarrow> thread_coordinate" where
  "event_coordinate (ThreadRequested a) = al_coordinate a"
| "event_coordinate (ThreadRegistered c) = c"
| "event_coordinate (ThreadFailed c _) = c"

definition al_thread :: "'a allocation_scheme \<Rightarrow> string" where
  "al_thread a = tc_thread (al_coordinate a)"

definition sameAllocation :: "thread_entry \<Rightarrow> allocation \<Rightarrow> bool" where
  "sameAllocation e a \<longleftrightarrow> allocation.truncate e = a"

definition requested_entry :: "nat \<Rightarrow> allocation \<Rightarrow> thread_entry" where
  "requested_entry pos a = allocation.extend a (thread_entry.fields pos Requested None)"

definition threadNameKey :: "string option \<Rightarrow> string \<Rightarrow> string" where
  "threadNameKey parent name =
     canonicalInput (JArr [case parent of None \<Rightarrow> JNull | Some p \<Rightarrow> JStr p, JStr name])"

lemma threadNameKey_inject [simp]: "threadNameKey p n = threadNameKey q m \<longleftrightarrow> p = q \<and> n = m"
  unfolding threadNameKey_def by (subst canonical_inject) (auto split: option.splits)

section \<open>Registration\<close>

definition replayRegistration :: "thread_entry option \<Rightarrow> supervisor_event \<Rightarrow> runtime_error + thread_entry" where
  "replayRegistration state e = (case state of
     None \<Rightarrow> Inl (Error ''Unknown thread registration'')
   | Some s \<Rightarrow>
       if al_coordinate s \<noteq> event_coordinate e then Inl (Error ''Unknown thread registration'')
       else if te_status s \<noteq> Requested then Inr s
       else (case e of
          ThreadFailed _ reason \<Rightarrow> Inr (s\<lparr>te_status := Failed, te_reason := Some reason\<rparr>)
        | _ \<Rightarrow> Inr (s\<lparr>te_status := Registered\<rparr>)))"

definition validateRegistration :: "thread_entry option \<Rightarrow> supervisor_event \<Rightarrow> runtime_error + unit" where
  "validateRegistration state e = (case state of
     None \<Rightarrow> Inl (Error ''Unknown thread registration'')
   | Some s \<Rightarrow> check (te_status s = Requested \<and> al_coordinate s = event_coordinate e) (Error ''Unknown thread registration''))"

section \<open>One atom per thread and name\<close>

text \<open>
  \<open>fs_thread\<close> and \<open>fs_byName\<close> are the states of the members of the two families, by key. An atom
  whose input is \<open>Requested\<close> keeps its state on the other events.
\<close>

record family_state =
  fs_thread :: "string \<Rightarrow> thread_entry option"
  fs_byName :: "string \<Rightarrow> string option"
  fs_pending :: "string list"
  fs_identity :: "(string \<times> string) option"
  fs_latest :: "supervisor_event option"

definition family_empty :: family_state where
  "family_empty = \<lparr>fs_thread = Map.empty, fs_byName = Map.empty, fs_pending = [], fs_identity = None, fs_latest = None\<rparr>"

fun reduce_thread :: "nat \<Rightarrow> thread_entry option \<Rightarrow> supervisor_event \<Rightarrow> runtime_error + thread_entry" where
  "reduce_thread pos state (ThreadRequested a) =
     (if (case state of None \<Rightarrow> False | Some s \<Rightarrow> te_status s \<noteq> Failed \<or> \<not> sameAllocation s a)
      then Inl (Error ''Duplicate thread allocation'')
      else Inr (requested_entry pos a))"
| "reduce_thread pos state e = replayRegistration state e"

definition reduce_byName :: "string option \<Rightarrow> allocation \<Rightarrow> runtime_error + string" where
  "reduce_byName state a =
     (if state \<noteq> None \<and> state \<noteq> Some (al_thread a) then Inl (Error ''Duplicate thread allocation'')
      else Inr (al_thread a))"

fun reduce_pending :: "string list \<Rightarrow> supervisor_event \<Rightarrow> string list" where
  "reduce_pending state (ThreadRequested a) = (if al_thread a \<in> set state then state else state @ [al_thread a])"
| "reduce_pending state e = filter (\<lambda>id. id \<noteq> tc_thread (event_coordinate e)) state"

definition reduce_identity :: "(string \<times> string) option \<Rightarrow> allocation \<Rightarrow> runtime_error + string \<times> string" where
  "reduce_identity state a =
     (let here = (tc_actor (al_coordinate a), tc_instance (al_coordinate a)) in
      case state of
        None \<Rightarrow> Inr here
      | Some s \<Rightarrow> if s \<noteq> here then Inl (Error ''Supervisor instance mismatch'') else Inr s)"

definition validateParent :: "(string \<Rightarrow> thread_entry option) \<Rightarrow> allocation \<Rightarrow> runtime_error + unit" where
  "validateParent threads a =
     (let parent = (case al_parent a of None \<Rightarrow> None | Some p \<Rightarrow> threads p) in
      if al_parent a \<noteq> None \<and> (case parent of None \<Rightarrow> True | Some p \<Rightarrow> te_status p \<noteq> Registered)
      then Inl (Error ''Unknown parent thread'')
      else check (al_depth a = (case parent of None \<Rightarrow> 0 | Some p \<Rightarrow> al_depth p + 1)) (Error ''Invalid thread depth''))"

text \<open>
  Appending an event and reading the view: the atoms the view reads are reduced in the order it
  reads them, and the first that throws fails the read.
\<close>

fun family_step :: "nat \<Rightarrow> supervisor_event \<Rightarrow> family_state \<Rightarrow> runtime_error + family_state" where
  "family_step pos (ThreadRequested a) fs =
     try_bind (reduce_identity (fs_identity fs) a) (\<lambda>scope.
     try_bind (reduce_thread pos (fs_thread fs (al_thread a)) (ThreadRequested a)) (\<lambda>entry.
     try_bind (reduce_byName (fs_byName fs (threadNameKey (al_parent a) (al_name a))) a) (\<lambda>owner.
     let threads = (fs_thread fs)(al_thread a \<mapsto> entry) in
     try_bind (validateParent threads a) (\<lambda>_.
       Inr \<lparr>fs_thread = threads, fs_byName = (fs_byName fs)(threadNameKey (al_parent a) (al_name a) \<mapsto> owner),
            fs_pending = reduce_pending (fs_pending fs) (ThreadRequested a), fs_identity = Some scope,
            fs_latest = Some (ThreadRequested a)\<rparr>))))"
| "family_step pos e fs =
     (let id = tc_thread (event_coordinate e) in
      try_bind (reduce_thread pos (fs_thread fs id) e) (\<lambda>entry.
        Inr (fs\<lparr>fs_thread := (fs_thread fs)(id \<mapsto> entry), fs_pending := reduce_pending (fs_pending fs) e,
                fs_latest := Some e\<rparr>)))"

definition family_run :: "(nat \<times> supervisor_event) list \<Rightarrow> runtime_error + family_state" where
  "family_run evs = fold_try (\<lambda>(pos, e). family_step pos e) evs family_empty"

text \<open>Validation before an event is recorded.\<close>

fun family_validate :: "supervisor_event \<Rightarrow> family_state \<Rightarrow> runtime_error + unit" where
  "family_validate (ThreadRequested a) fs =
     try_bind (validateParent (fs_thread fs) a) (\<lambda>_.
     try_bind (check (case fs_thread fs (al_thread a) of
          None \<Rightarrow> True | Some current \<Rightarrow> te_status current = Failed \<and> sameAllocation current a)
        (Error ''Duplicate thread allocation'')) (\<lambda>_.
     try_bind (check (case fs_byName fs (threadNameKey (al_parent a) (al_name a)) of
          None \<Rightarrow> True | Some owner \<Rightarrow> owner = al_thread a) (Error ''Duplicate thread allocation'')) (\<lambda>_.
     check (case fs_identity fs of
          None \<Rightarrow> True | Some scope \<Rightarrow> scope = (tc_actor (al_coordinate a), tc_instance (al_coordinate a)))
        (Error ''Supervisor instance mismatch''))))"
| "family_validate e fs = validateRegistration (fs_thread fs (tc_thread (event_coordinate e))) e"

text \<open>\<open>threadMetadata\<close> drops the provisioning state.\<close>

record thread_metadata =
  tm_coordinate :: thread_coordinate
  tm_name :: string
  tm_parent :: "string option"
  tm_depth :: nat
  tm_placement :: child_placement
  tm_origin :: nat
  tm_status :: thread_status
  tm_reason :: "string option"

definition threadMetadata :: "family_state \<Rightarrow> string \<Rightarrow> thread_metadata option" where
  "threadMetadata fs key = map_option (\<lambda>e. \<lparr>tm_coordinate = al_coordinate e, tm_name = al_name e,
     tm_parent = al_parent e, tm_depth = al_depth e, tm_placement = al_placement e, tm_origin = te_origin e,
     tm_status = te_status e, tm_reason = te_reason e\<rparr>) (fs_thread fs key)"

text \<open>A page of threads over the keys the family index gives.\<close>

definition threadPages :: "family_state \<Rightarrow> string list \<times> string option \<Rightarrow> runtime_error + thread_metadata list \<times> string option" where
  "threadPages fs page = (case page of (keys, after) \<Rightarrow>
     try_bind (map_try (\<lambda>id. case threadMetadata fs id of
         None \<Rightarrow> Inl (Error ''Indexed thread has no allocation'') | Some m \<Rightarrow> Inr m) keys)
       (\<lambda>ms. Inr (ms, after)))"

section \<open>One directory\<close>

definition same_thread_or_name :: "allocation \<Rightarrow> thread_entry \<Rightarrow> bool" where
  "same_thread_or_name a e \<longleftrightarrow> al_thread e = al_thread a \<or> (al_parent e = al_parent a \<and> al_name e = al_name a)"

fun replace_first :: "('a \<Rightarrow> bool) \<Rightarrow> 'a \<Rightarrow> 'a list \<Rightarrow> 'a list" where
  "replace_first P y [] = []"
| "replace_first P y (x # xs) = (if P x then y # xs else x # replace_first P y xs)"

fun reduce_threads :: "nat \<Rightarrow> supervisor_event \<Rightarrow> thread_entry list \<Rightarrow> runtime_error + thread_entry list" where
  "reduce_threads pos (ThreadRequested next) state =
     (let existing = find (same_thread_or_name next) state;
          parent = (case al_parent next of
             None \<Rightarrow> None | Some p \<Rightarrow> find (\<lambda>e. al_thread e = p \<and> te_status e = Registered) state) in
      if (case existing of None \<Rightarrow> False | Some s \<Rightarrow> te_status s \<noteq> Failed \<or> \<not> sameAllocation s next)
      then Inl (Error ''Duplicate thread allocation'')
      else if al_parent next \<noteq> None \<and> parent = None then Inl (Error ''Unknown parent thread'')
      else if al_depth next \<noteq> (case parent of None \<Rightarrow> 0 | Some p \<Rightarrow> al_depth p + 1) then Inl (Error ''Invalid thread depth'')
      else if list_ex (\<lambda>e. tc_actor (al_coordinate e) \<noteq> tc_actor (al_coordinate next) \<or>
                           tc_instance (al_coordinate e) \<noteq> tc_instance (al_coordinate next)) state
      then Inl (Error ''Supervisor instance mismatch'')
      else Inr (if existing = None then state @ [requested_entry pos next]
                else replace_first (same_thread_or_name next) (requested_entry pos next) state))"
| "reduce_threads pos e state =
     (let here = (\<lambda>s. al_thread s = tc_thread (event_coordinate e)) in
      try_bind (replayRegistration (find here state) e) (\<lambda>next.
        Inr (if find here state = Some next then state else replace_first here next state)))"

definition directory_run :: "(nat \<times> supervisor_event) list \<Rightarrow> runtime_error + thread_entry list" where
  "directory_run evs = fold_try (\<lambda>(pos, e). reduce_threads pos e) evs []"

fun directory_validate :: "supervisor_event \<Rightarrow> thread_entry list \<Rightarrow> runtime_error + unit" where
  "directory_validate (ThreadRequested a) dir = Inr ()"
| "directory_validate e dir = validateRegistration (find (\<lambda>s. al_thread s = tc_thread (event_coordinate e)) dir) e"

section \<open>Provisioning requests\<close>

text \<open>
  A request carries its origin and its allocation; \<open>settled\<close> is its \<open>onSettled\<close> callback. The
  atoms keep the requests they made between reads in a map by thread.
\<close>

record provision_request =
  pr_origin :: nat
  pr_input :: allocation

definition Provision_request :: "thread_entry \<Rightarrow> provision_request" where
  "Provision_request e = \<lparr>pr_origin = te_origin e, pr_input = allocation.truncate e\<rparr>"

fun provision_settled :: "allocation \<Rightarrow> outcome \<Rightarrow> supervisor_event list" where
  "provision_settled a (Rejected reason) =
     [ThreadFailed (al_coordinate a) (case reason of JStr s \<Rightarrow> s | _ \<Rightarrow> canonicalInput reason)]"
| "provision_settled a (Fulfilled _) = [ThreadRegistered (al_coordinate a)]"

type_synonym requests = "(string \<times> provision_request) list"

definition provision_entry :: "thread_entry \<Rightarrow> requests \<Rightarrow> requests \<times> provision_request" where
  "provision_entry e cache =
     (case map_of cache (al_thread e) of
        Some r \<Rightarrow> if pr_origin r = te_origin e then (cache, r)
                  else (js_set (al_thread e) (Provision_request e) cache, Provision_request e)
      | None \<Rightarrow> (js_set (al_thread e) (Provision_request e) cache, Provision_request e))"

fun provision_entries :: "thread_entry list \<Rightarrow> requests \<Rightarrow> requests \<times> requests" where
  "provision_entries [] cache = (cache, [])"
| "provision_entries (e # es) cache =
     (let (cache, r) = provision_entry e cache; (cache, acts) = provision_entries es cache
      in (cache, (al_thread e, r) # acts))"

definition directory_acts :: "thread_entry list \<Rightarrow> requests \<Rightarrow> requests \<times> requests" where
  "directory_acts dir cache = provision_entries (filter (\<lambda>e. te_status e = Requested) dir) cache"

definition pending_entry :: "family_state \<Rightarrow> string \<Rightarrow> runtime_error + thread_entry" where
  "pending_entry fs key = (case fs_thread fs key of
     None \<Rightarrow> Inl (Error (''Pending thread '' @ key @ '' is missing''))
   | Some e \<Rightarrow> if te_status e \<noteq> Requested
       then Inl (Error (''Pending thread '' @ key @ '' is '' @ (if te_status e = Failed then ''failed'' else ''registered'')))
       else Inr e)"

definition family_acts :: "family_state \<Rightarrow> requests \<Rightarrow> runtime_error + requests \<times> requests" where
  "family_acts fs cache =
     try_bind (map_try (pending_entry fs) (fs_pending fs)) (\<lambda>entries.
       Inr (provision_entries entries (filter (\<lambda>(id, _). id \<in> set (fs_pending fs)) cache)))"

section \<open>What a directory is\<close>

definition al_scope :: "'a allocation_scheme \<Rightarrow> string \<times> string" where
  "al_scope a = (tc_actor (al_coordinate a), tc_instance (al_coordinate a))"

definition al_key :: "'a allocation_scheme \<Rightarrow> string option \<times> string" where
  "al_key a = (al_parent a, al_name a)"

definition parent_ok :: "thread_entry list \<Rightarrow> 'a allocation_scheme \<Rightarrow> bool" where
  "parent_ok dir a \<longleftrightarrow> (case al_parent a of
     None \<Rightarrow> al_depth a = 0
   | Some p \<Rightarrow> (\<exists>q\<in>set dir. al_thread q = p \<and> te_status q = Registered \<and> al_depth a = al_depth q + 1))"

text \<open>Threads and names are unique, all in one actor instance, each below its registered parent.\<close>

definition directory_ok :: "thread_entry list \<Rightarrow> bool" where
  "directory_ok dir \<longleftrightarrow> distinct (map al_thread dir) \<and> distinct (map al_key dir) \<and>
     (\<forall>e\<in>set dir. \<forall>e'\<in>set dir. al_scope e = al_scope e') \<and> (\<forall>e\<in>set dir. parent_ok dir e)"

definition dir_map :: "thread_entry list \<Rightarrow> string \<Rightarrow> thread_entry option" where
  "dir_map dir = map_of (map (\<lambda>e. (al_thread e, e)) dir)"

definition name_map :: "thread_entry list \<Rightarrow> string \<Rightarrow> string option" where
  "name_map dir = map_of (map (\<lambda>e. (threadNameKey (al_parent e) (al_name e), al_thread e)) dir)"

definition update_entry :: "thread_entry \<Rightarrow> thread_entry list \<Rightarrow> thread_entry list" where
  "update_entry y dir = map (\<lambda>e. if al_thread e = al_thread y then y else e) dir"

lemma find_thread: "find (\<lambda>e. al_thread e = k) dir = dir_map dir k"
  by (induction dir) (auto simp: dir_map_def)

lemma dir_map_Some: "distinct (map al_thread dir) \<Longrightarrow> dir_map dir k = Some e \<longleftrightarrow> e \<in> set dir \<and> al_thread e = k"
  unfolding dir_map_def by (subst map_of_eq_Some_iff) (auto simp: comp_def)

lemma dir_map_SomeD: "dir_map dir k = Some e \<Longrightarrow> e \<in> set dir \<and> al_thread e = k"
  unfolding dir_map_def by (drule map_of_SomeD) auto

lemma dir_map_None: "dir_map dir k = None \<longleftrightarrow> k \<notin> al_thread ` set dir"
  by (simp add: dir_map_def map_of_eq_None_iff image_image)

lemma name_map_Some:
  "distinct (map al_key dir) \<Longrightarrow> name_map dir (threadNameKey p n) = Some t \<longleftrightarrow> (\<exists>e\<in>set dir. al_key e = (p, n) \<and> al_thread e = t)"
  unfolding name_map_def
  by (subst map_of_eq_Some_iff)
     (auto simp: comp_def distinct_map inj_on_def al_key_def)

lemma name_map_None: "name_map dir (threadNameKey p n) = None \<longleftrightarrow> (p, n) \<notin> al_key ` set dir"
  by (auto simp: name_map_def map_of_eq_None_iff image_image al_key_def)

lemma entry_eqI: "distinct (map f dir) \<Longrightarrow> e \<in> set dir \<Longrightarrow> e' \<in> set dir \<Longrightarrow> f e = f e' \<Longrightarrow> e = e'"
  by (auto simp: distinct_map inj_on_def)

lemma dir_map_all:
  "distinct (map al_thread dir) \<Longrightarrow>
    (\<forall>e\<in>set dir. al_thread e = t \<longrightarrow> P e) \<longleftrightarrow> (case dir_map dir t of None \<Rightarrow> True | Some e \<Rightarrow> P e)"
proof (cases "dir_map dir t")
  case None
  then show ?thesis using dir_map_None [of dir t] by (auto simp: image_iff)
next
  case (Some x)
  assume dist: "distinct (map al_thread dir)"
  from Some have x: "x \<in> set dir" "al_thread x = t" by (auto dest: dir_map_SomeD)
  have "e = x" if "e \<in> set dir" "al_thread e = t" for e
    by (rule entry_eqI [OF dist that(1) x(1)]) (simp add: x(2) that(2))
  with x have "(\<forall>e\<in>set dir. al_thread e = t \<longrightarrow> P e) \<longleftrightarrow> P x" by metis
  with Some show ?thesis by simp
qed

lemma name_map_all:
  "distinct (map al_key dir) \<Longrightarrow>
    (\<forall>e\<in>set dir. al_key e = (p, n) \<longrightarrow> P (al_thread e)) \<longleftrightarrow>
    (case name_map dir (threadNameKey p n) of None \<Rightarrow> True | Some t \<Rightarrow> P t)"
proof (cases "name_map dir (threadNameKey p n)")
  case None
  then show ?thesis using name_map_None [of dir p n] by (auto simp: image_iff)
next
  case (Some t)
  assume dist: "distinct (map al_key dir)"
  then obtain x where x: "x \<in> set dir" "al_key x = (p, n)" "al_thread x = t"
    using Some name_map_Some [OF dist, of p n t] by auto
  have "e = x" if "e \<in> set dir" "al_key e = (p, n)" for e
    by (rule entry_eqI [OF dist that(1) x(1)]) (simp add: x(2) that(2))
  with x have "(\<forall>e\<in>set dir. al_key e = (p, n) \<longrightarrow> P (al_thread e)) \<longleftrightarrow> P t" by metis
  with Some show ?thesis by simp
qed

lemma update_absent: "al_thread y \<notin> al_thread ` set es \<Longrightarrow> update_entry y es = es"
  unfolding update_entry_def by (rule map_idI) (metis image_eqI)

lemma replace_first_update:
  assumes "distinct (map al_thread dir)" and "find P dir = Some x" and "al_thread y = al_thread x"
  shows "replace_first P y dir = update_entry y dir"
  using assms
proof (induction dir)
  case (Cons e es)
  show ?case
  proof (cases "P e")
    case True
    with Cons.prems have "x = e" by simp
    moreover have "update_entry y es = es"
      using Cons.prems(1) \<open>x = e\<close> Cons.prems(3) by (intro update_absent) simp
    ultimately show ?thesis using True Cons.prems(3) by (simp add: update_entry_def)
  next
    case False
    with Cons.prems have "x \<in> set es" by (auto simp: find_Some_iff)
    with Cons.prems have "al_thread e \<noteq> al_thread y" by auto
    with False Cons show ?thesis by (simp add: update_entry_def)
  qed
qed simp

lemma threads_update [simp]: "map al_thread (update_entry y dir) = map al_thread dir"
  by (simp add: update_entry_def comp_def)

lemma set_update: "e \<in> set (update_entry y dir) \<longleftrightarrow> (e = y \<and> al_thread y \<in> al_thread ` set dir) \<or> (e \<in> set dir \<and> al_thread e \<noteq> al_thread y)"
proof
  assume "e \<in> set (update_entry y dir)"
  then obtain x where x: "x \<in> set dir" "e = (if al_thread x = al_thread y then y else x)"
    by (auto simp: update_entry_def)
  then show "(e = y \<and> al_thread y \<in> al_thread ` set dir) \<or> (e \<in> set dir \<and> al_thread e \<noteq> al_thread y)"
    by (cases "al_thread x = al_thread y") (simp_all, metis image_eqI)
next
  assume "(e = y \<and> al_thread y \<in> al_thread ` set dir) \<or> (e \<in> set dir \<and> al_thread e \<noteq> al_thread y)"
  then obtain x where "x \<in> set dir" "e = (if al_thread x = al_thread y then y else x)" by auto
  then show "e \<in> set (update_entry y dir)" by (auto simp: update_entry_def)
qed

lemma dir_map_update:
  "al_thread y \<in> al_thread ` set dir \<Longrightarrow> dir_map (update_entry y dir) = (dir_map dir)(al_thread y \<mapsto> y)"
proof (induction dir)
  case (Cons e es)
  show ?case
  proof (cases "al_thread y \<in> al_thread ` set es")
    case True
    with Cons.IH show ?thesis by (auto simp: dir_map_def update_entry_def fun_eq_iff)
  next
    case False
    then have "update_entry y es = es" by (rule update_absent)
    with False Cons.prems show ?thesis by (auto simp: dir_map_def update_entry_def fun_eq_iff)
  qed
qed simp

lemma name_map_update:
  assumes "distinct (map al_thread dir)" and "x \<in> set dir" and "al_thread x = al_thread y" and "al_key x = al_key y"
  shows "name_map (update_entry y dir) = name_map dir" and "map al_key (update_entry y dir) = map al_key dir"
proof -
  have "e = x" if "e \<in> set dir" "al_thread e = al_thread y" for e
    using assms that by (metis entry_eqI)
  then have same: "f (if al_thread e = al_thread y then y else e) = f e"
    if "e \<in> set dir" "f y = f x" for e and f :: "thread_entry \<Rightarrow> 'b" using that by auto
  show "map al_key (update_entry y dir) = map al_key dir"
    unfolding update_entry_def using assms(4)
    by (simp add: comp_def) (metis (no_types, lifting) \<open>\<And>e. e \<in> set dir \<Longrightarrow> al_thread e = al_thread y \<Longrightarrow> e = x\<close>)
  have "map (\<lambda>e. (threadNameKey (al_parent e) (al_name e), al_thread e)) (update_entry y dir) =
      map (\<lambda>e. (threadNameKey (al_parent e) (al_name e), al_thread e)) dir"
    unfolding update_entry_def using assms(3,4) \<open>\<And>e. e \<in> set dir \<Longrightarrow> al_thread e = al_thread y \<Longrightarrow> e = x\<close>
    by (auto simp: al_key_def)
  then show "name_map (update_entry y dir) = name_map dir" by (simp add: name_map_def)
qed

section \<open>The two supervisors agree\<close>

definition requested :: "thread_entry list \<Rightarrow> string set" where
  "requested dir = {al_thread e | e. e \<in> set dir \<and> te_status e = Requested}"

definition dir_scope :: "thread_entry list \<Rightarrow> (string \<times> string) option" where
  "dir_scope dir = (case dir of [] \<Rightarrow> None | e # _ \<Rightarrow> Some (al_scope e))"

definition refines :: "thread_entry list \<Rightarrow> family_state \<Rightarrow> bool" where
  "refines dir fs \<longleftrightarrow> fs_thread fs = dir_map dir \<and> (\<forall>p n. fs_byName fs (threadNameKey p n) = name_map dir (threadNameKey p n)) \<and>
     distinct (fs_pending fs) \<and> set (fs_pending fs) = requested dir \<and> fs_identity fs = dir_scope dir"

text \<open>The requests a directory admits.\<close>

definition admissible :: "thread_entry list \<Rightarrow> allocation \<Rightarrow> bool" where
  "admissible dir a \<longleftrightarrow>
     (\<forall>e\<in>set dir. same_thread_or_name a e \<longrightarrow> te_status e = Failed \<and> sameAllocation e a) \<and>
     parent_ok dir a \<and> (\<forall>e\<in>set dir. al_scope e = al_scope a)"

lemma truncate_fields [simp]:
  "al_coordinate (allocation.truncate e) = al_coordinate e" "al_name (allocation.truncate e) = al_name e"
  "al_parent (allocation.truncate e) = al_parent e" "al_depth (allocation.truncate e) = al_depth e"
  by (simp_all add: allocation.truncate_def)

lemma sameAllocationD:
  assumes "sameAllocation e a"
  shows "al_thread e = al_thread a" "al_key e = al_key a" "al_scope e = al_scope a" "al_depth e = al_depth a" "al_parent e = al_parent a"
  using assms by (auto simp: sameAllocation_def al_thread_def al_key_def al_scope_def)

lemma admissible_split:
  "admissible dir a \<longleftrightarrow> (\<forall>e\<in>set dir. al_scope e = al_scope a) \<and>
    (\<forall>e\<in>set dir. al_thread e = al_thread a \<longrightarrow> te_status e = Failed \<and> sameAllocation e a) \<and>
    (\<forall>e\<in>set dir. al_key e = (al_parent a, al_name a) \<longrightarrow> al_thread e = al_thread a) \<and> parent_ok dir a"
  using sameAllocationD(1,2) [of _ a]
  unfolding admissible_def same_thread_or_name_def al_key_def prod.inject by blast

lemma requested_entry_fields [simp]:
  "al_thread (requested_entry pos a) = al_thread a" "al_key (requested_entry pos a) = al_key a"
  "al_scope (requested_entry pos a) = al_scope a" "al_depth (requested_entry pos a) = al_depth a"
  "al_parent (requested_entry pos a) = al_parent a" "te_status (requested_entry pos a) = Requested"
  "al_name (requested_entry pos a) = al_name a" "al_coordinate (requested_entry pos a) = al_coordinate a"
  "te_origin (requested_entry pos a) = pos" "allocation.truncate (requested_entry pos a) = a"
  by (simp_all add: requested_entry_def allocation.extend_def thread_entry.fields_def al_thread_def al_key_def
      al_scope_def allocation.truncate_def)

lemma find_registered:
  assumes "distinct (map al_thread dir)"
  shows "find (\<lambda>e. al_thread e = p \<and> te_status e = Registered) dir =
    (case dir_map dir p of None \<Rightarrow> None | Some q \<Rightarrow> if te_status q = Registered then Some q else None)"
  using assms
proof (induction dir)
  case (Cons e es)
  then show ?case
    by (cases "al_thread e = p") (auto simp: dir_map_def map_of_eq_None_iff image_image split: option.splits dest!: map_of_SomeD)
qed (simp add: dir_map_def)

lemma parent_ok_map:
  assumes "distinct (map al_thread dir)"
  shows "parent_ok dir a \<longleftrightarrow> (case al_parent a of None \<Rightarrow> al_depth a = 0 | Some p \<Rightarrow>
    (\<exists>q. dir_map dir p = Some q \<and> te_status q = Registered \<and> al_depth a = al_depth q + 1))"
  using assms by (auto simp: parent_ok_def dir_map_Some split: option.split)

lemma existing_iff:
  assumes "directory_ok dir"
  shows "(case find (same_thread_or_name a) dir of None \<Rightarrow> True | Some s \<Rightarrow> te_status s = Failed \<and> sameAllocation s a) \<longleftrightarrow>
    (\<forall>e\<in>set dir. same_thread_or_name a e \<longrightarrow> te_status e = Failed \<and> sameAllocation e a)"
proof (cases "find (same_thread_or_name a) dir")
  case None
  then have "\<not> same_thread_or_name a e" if "e \<in> set dir" for e using that by (auto simp: find_None_iff)
  with None show ?thesis by simp
next
  case (Some s)
  then have s: "s \<in> set dir" "same_thread_or_name a s" by (auto simp: find_Some_iff)
  have "e = s" if "e \<in> set dir" "same_thread_or_name a e" "sameAllocation s a" for e
  proof -
    have "al_thread e = al_thread s \<or> al_key e = al_key s"
      using that(2) sameAllocationD [OF that(3)] by (auto simp: same_thread_or_name_def al_key_def)
    with assms s(1) that(1) show ?thesis by (auto simp: directory_ok_def dest: entry_eqI)
  qed
  with Some s show ?thesis by auto
qed

lemma reduce_threads_request:
  assumes ok: "directory_ok dir"
  shows "reduce_threads pos (ThreadRequested a) dir = Inr dir' \<longleftrightarrow> admissible dir a \<and>
    dir' = (if al_thread a \<in> al_thread ` set dir then update_entry (requested_entry pos a) dir else dir @ [requested_entry pos a])"
proof -
  have dist: "distinct (map al_thread dir)" using ok by (simp add: directory_ok_def)
  define ex where "ex = find (same_thread_or_name a) dir"
  define par where "par = (case al_parent a of None \<Rightarrow> None | Some p \<Rightarrow> find (\<lambda>e. al_thread e = p \<and> te_status e = Registered) dir)"
  have parent: "(al_parent a \<noteq> None \<and> par = None) \<or> al_depth a \<noteq> (case par of None \<Rightarrow> 0 | Some p \<Rightarrow> al_depth p + 1) \<longleftrightarrow> \<not> parent_ok dir a"
    unfolding par_def by (auto simp: parent_ok_map [OF dist] find_registered [OF dist] split: option.splits if_splits)
  have scope: "list_ex (\<lambda>e. tc_actor (al_coordinate e) \<noteq> tc_actor (al_coordinate a) \<or>
      tc_instance (al_coordinate e) \<noteq> tc_instance (al_coordinate a)) dir \<longleftrightarrow> \<not> (\<forall>e\<in>set dir. al_scope e = al_scope a)"
    by (auto simp: list_ex_iff al_scope_def)
  have result: "(if ex = None then dir @ [requested_entry pos a] else replace_first (same_thread_or_name a) (requested_entry pos a) dir) =
      (if al_thread a \<in> al_thread ` set dir then update_entry (requested_entry pos a) dir else dir @ [requested_entry pos a])"
    if adm: "case ex of None \<Rightarrow> True | Some s \<Rightarrow> te_status s = Failed \<and> sameAllocation s a"
  proof (cases ex)
    case None
    then have "al_thread a \<notin> al_thread ` set dir"
      by (auto simp: ex_def find_None_iff same_thread_or_name_def)
    with None show ?thesis by simp
  next
    case (Some s)
    then have "s \<in> set dir" by (auto simp: ex_def find_Some_iff)
    moreover have same: "al_thread s = al_thread a" using adm Some by (auto dest: sameAllocationD)
    ultimately have "al_thread a \<in> al_thread ` set dir" by (metis imageI)
    moreover have "replace_first (same_thread_or_name a) (requested_entry pos a) dir = update_entry (requested_entry pos a) dir"
      by (rule replace_first_update [OF dist Some [unfolded ex_def]]) (simp add: same)
    ultimately show ?thesis using Some by simp
  qed
  have ex: "(case ex of None \<Rightarrow> False | Some s \<Rightarrow> te_status s \<noteq> Failed \<or> \<not> sameAllocation s a) \<longleftrightarrow>
      \<not> (case ex of None \<Rightarrow> True | Some s \<Rightarrow> te_status s = Failed \<and> sameAllocation s a)"
    by (simp split: option.split)
  show ?thesis
    unfolding admissible_def existing_iff [OF ok, symmetric] ex_def [symmetric]
    using parent scope result ex unfolding ex_def [symmetric] par_def [symmetric]
    by (auto simp: Let_def par_def [symmetric] ex_def [symmetric])
qed

lemma reduce_threads_outcome:
  assumes "\<And>a. e \<noteq> ThreadRequested a"
  shows "reduce_threads pos e dir = try_bind (replayRegistration (dir_map dir (tc_thread (event_coordinate e))) e)
    (\<lambda>next. Inr (if dir_map dir (tc_thread (event_coordinate e)) = Some next then dir
      else replace_first (\<lambda>s. al_thread s = tc_thread (event_coordinate e)) next dir))"
proof (cases e)
  case (ThreadRequested a)
  with assms show ?thesis by blast
qed (simp_all add: find_thread cong: if_cong)

lemma directory_okD:
  assumes "directory_ok dir"
  shows "distinct (map al_thread dir)" "distinct (map al_key dir)"
    "e \<in> set dir \<Longrightarrow> e' \<in> set dir \<Longrightarrow> al_scope e = al_scope e'" "e \<in> set dir \<Longrightarrow> parent_ok dir e"
  using assms unfolding directory_ok_def by blast+

lemma directory_ok_append:
  assumes "directory_ok dir" and "admissible dir a" and "al_thread a \<notin> al_thread ` set dir"
  shows "directory_ok (dir @ [requested_entry pos a])"
proof -
  have "al_thread e = al_thread a" if "e \<in> set dir" "al_key e = al_key a" for e
    using assms(2) that by (auto simp: admissible_def same_thread_or_name_def al_key_def dest: sameAllocationD)
  note same = this
  have "al_key a \<notin> al_key ` set dir"
  proof
    assume "al_key a \<in> al_key ` set dir"
    then obtain e where e: "e \<in> set dir" "al_key e = al_key a" by (auto simp: image_iff)
    from e(1) have "al_thread e \<in> al_thread ` set dir" by (rule imageI)
    with assms(3) same [OF e] show False by simp
  qed
  have extend: "parent_ok (dir @ [requested_entry pos a]) e" if "parent_ok dir e" for e :: thread_entry
    using that by (auto simp: parent_ok_def split: option.splits)
  have new: "parent_ok (dir @ [requested_entry pos a]) (requested_entry pos a)"
    using assms(2) by (auto simp: admissible_def parent_ok_def split: option.splits)
  have "al_scope e = al_scope a" if "e \<in> set dir" for e
    using assms(2) that by (simp add: admissible_def)
  then have "al_scope e = al_scope a" if "e \<in> set (dir @ [requested_entry pos a])" for e
    using that by auto
  then have "al_scope e = al_scope e'"
    if "e \<in> set (dir @ [requested_entry pos a])" "e' \<in> set (dir @ [requested_entry pos a])" for e e'
    using that by metis
  moreover have "parent_ok (dir @ [requested_entry pos a]) e" if "e \<in> set (dir @ [requested_entry pos a])" for e
  proof (cases "e \<in> set dir")
    case True
    then show ?thesis by (rule extend [OF directory_okD(4) [OF assms(1)]])
  next
    case False
    with that new show ?thesis by simp
  qed
  moreover have "distinct (map al_thread (dir @ [requested_entry pos a]))"
    using directory_okD(1) [OF assms(1)] assms(3) by simp
  moreover have "distinct (map al_key (dir @ [requested_entry pos a]))"
    using directory_okD(2) [OF assms(1)] \<open>al_key a \<notin> al_key ` set dir\<close> by simp
  ultimately show ?thesis unfolding directory_ok_def by blast
qed

text \<open>Replacing an entry that keeps its allocation keeps the directory well formed, and registered parents stay registered.\<close>

lemma directory_ok_update:
  assumes ok: "directory_ok dir" and x: "x \<in> set dir" and same: "al_thread y = al_thread x" "al_key y = al_key x"
      "al_scope y = al_scope x" "al_depth y = al_depth x" "al_parent y = al_parent x"
    and status: "te_status x \<noteq> Registered"
  shows "directory_ok (update_entry y dir)"
proof -
  have dist: "distinct (map al_thread dir)" using ok by (simp add: directory_ok_def)
  have parents: "parent_ok (update_entry y dir) e" if "parent_ok dir e" for e :: thread_entry
  proof (cases "al_parent e")
    case (Some p)
    with that obtain q where q: "q \<in> set dir" "al_thread q = p" "te_status q = Registered" "al_depth e = al_depth q + 1"
      by (auto simp: parent_ok_def)
    with status x dist same(1) have "al_thread q \<noteq> al_thread y" by (metis entry_eqI)
    with q have "q \<in> set (update_entry y dir)" by (simp add: set_update)
    with Some q show ?thesis by (auto simp: parent_ok_def)
  qed (use that in \<open>simp add: parent_ok_def\<close>)
  have "parent_ok dir x" using ok x by (simp add: directory_ok_def)
  then have "parent_ok dir y" unfolding parent_ok_def by (simp only: same(4,5))
  then have "parent_ok (update_entry y dir) e" if "e \<in> set (update_entry y dir)" for e
    using that parents directory_okD(4) [OF ok, of e] by (auto simp: set_update)
  moreover have "al_scope e = al_scope x" if "e \<in> set (update_entry y dir)" for e
    using that directory_okD(3) [OF ok, of e x] x same(3) by (auto simp: set_update)
  moreover have "map al_key (update_entry y dir) = map al_key dir"
    by (rule name_map_update(2) [OF dist x]) (simp_all add: same)
  ultimately show ?thesis using ok by (simp add: directory_ok_def)
qed

lemma dir_scope_update:
  assumes "directory_ok dir" and "x \<in> set dir" and "al_scope y = al_scope x"
  shows "dir_scope (update_entry y dir) = dir_scope dir"
proof (cases dir)
  case (Cons d ds)
  have "al_scope d = al_scope x" by (rule directory_okD(3) [OF assms(1) _ assms(2)]) (simp add: Cons)
  with Cons assms(3) show ?thesis by (simp add: dir_scope_def update_entry_def)
qed (simp add: dir_scope_def update_entry_def)

lemma dir_scope_Some:
  assumes "directory_ok dir"
  shows "(case dir_scope dir of None \<Rightarrow> True | Some s \<Rightarrow> s = c) \<longleftrightarrow> (\<forall>e\<in>set dir. al_scope e = c)"
proof (cases dir)
  case (Cons d ds)
  have "al_scope e = al_scope d" if "e \<in> set dir" for e
    by (rule directory_okD(3) [OF assms that]) (simp add: Cons)
  moreover have "d \<in> set dir" by (simp add: Cons)
  ultimately have "(\<forall>e\<in>set dir. al_scope e = c) \<longleftrightarrow> al_scope d = c" by metis
  then show ?thesis by (simp add: dir_scope_def Cons)
qed (simp add: dir_scope_def)

lemma requested_update:
  assumes "x \<in> set dir" and "al_thread y = al_thread x"
  shows "requested (update_entry y dir) = (if te_status y = Requested then insert (al_thread y) (requested dir) else requested dir - {al_thread y})"
proof -
  have present: "al_thread y \<in> al_thread ` set dir" using assms by (metis imageI)
  have "t \<in> requested (update_entry y dir) \<longleftrightarrow>
      (t = al_thread y \<and> te_status y = Requested) \<or> (t \<in> requested dir \<and> t \<noteq> al_thread y)" for t
    unfolding requested_def using present by (auto simp: set_update)
  then show ?thesis by auto
qed

lemma requested_append: "requested (dir @ [requested_entry pos a]) = insert (al_thread a) (requested dir)"
proof -
  have "t \<in> requested (dir @ [requested_entry pos a]) \<longleftrightarrow> t = al_thread a \<or> t \<in> requested dir" for t
    unfolding requested_def by (auto intro: exI [of _ "requested_entry pos a"])
  then show ?thesis by blast
qed

lemma reduce_pending_requested:
  "distinct ps \<Longrightarrow> distinct (reduce_pending ps (ThreadRequested a)) \<and> set (reduce_pending ps (ThreadRequested a)) = insert (al_thread a) (set ps)"
  by auto

lemma family_step_request:
  assumes ok: "directory_ok dir" and ref: "refines dir fs"
  shows "(\<exists>fs'. family_step pos (ThreadRequested a) fs = Inr fs') \<longleftrightarrow> admissible dir a"
proof -
  have dist: "distinct (map al_thread dir)" "distinct (map al_key dir)" using directory_okD [OF ok] by blast+
  have threads: "fs_thread fs = dir_map dir" and identity: "fs_identity fs = dir_scope dir"
    and names: "fs_byName fs (threadNameKey p n) = name_map dir (threadNameKey p n)" for p n
    using ref by (simp_all add: refines_def)
  have scope: "(\<exists>s. reduce_identity (fs_identity fs) a = Inr s) \<longleftrightarrow> (\<forall>e\<in>set dir. al_scope e = al_scope a)"
    using dir_scope_Some [OF ok, of "al_scope a"]
    by (auto simp: reduce_identity_def identity Let_def al_scope_def split: option.splits)
  have thread: "(\<exists>e. reduce_thread pos (fs_thread fs (al_thread a)) (ThreadRequested a) = Inr e) \<longleftrightarrow>
      (\<forall>e\<in>set dir. al_thread e = al_thread a \<longrightarrow> te_status e = Failed \<and> sameAllocation e a)"
    unfolding threads dir_map_all [OF dist(1)] by (simp split: option.split)
  have owner: "(\<exists>n. reduce_byName (fs_byName fs (threadNameKey (al_parent a) (al_name a))) a = Inr n) \<longleftrightarrow>
      (\<forall>e\<in>set dir. al_key e = (al_parent a, al_name a) \<longrightarrow> al_thread e = al_thread a)"
    unfolding names name_map_all [OF dist(2), of _ _ "\<lambda>t. t = al_thread a"] by (auto simp: reduce_byName_def split: option.split)
  have parent: "validateParent ((dir_map dir)(al_thread a \<mapsto> requested_entry pos a)) a = Inr () \<longleftrightarrow> parent_ok dir a"
    if "\<forall>e\<in>set dir. al_thread e = al_thread a \<longrightarrow> te_status e = Failed"
    using that unfolding dir_map_all [OF dist(1)] validateParent_def parent_ok_map [OF dist(1)] Let_def
    by (cases "al_parent a"; cases "dir_map dir (the (al_parent a))") auto
  have entry: "e = requested_entry pos a" if "reduce_thread pos st (ThreadRequested a) = Inr e" for e st
    using that by (auto split: if_splits)
  have "(\<exists>fs'. family_step pos (ThreadRequested a) fs = Inr fs') \<longleftrightarrow>
      (\<exists>s. reduce_identity (fs_identity fs) a = Inr s) \<and>
      (\<exists>e. reduce_thread pos (fs_thread fs (al_thread a)) (ThreadRequested a) = Inr e) \<and>
      (\<exists>n. reduce_byName (fs_byName fs (threadNameKey (al_parent a) (al_name a))) a = Inr n) \<and>
      validateParent ((dir_map dir)(al_thread a \<mapsto> requested_entry pos a)) a = Inr ()"
    using entry by (auto simp: Let_def threads simp del: reduce_thread.simps)
  also have "\<dots> \<longleftrightarrow> admissible dir a"
    unfolding scope thread owner admissible_split using parent by blast
  finally show ?thesis .
qed

lemma name_map_append:
  "al_key e \<notin> al_key ` set dir \<Longrightarrow>
    name_map (dir @ [e]) (threadNameKey p n) = ((name_map dir)(threadNameKey (al_parent e) (al_name e) \<mapsto> al_thread e)) (threadNameKey p n)"
proof (induction dir)
  case (Cons d ds)
  then show ?case by (auto simp: name_map_def al_key_def fun_upd_def)
qed (simp add: name_map_def)

lemma dir_map_append: "al_thread e \<notin> al_thread ` set dir \<Longrightarrow> dir_map (dir @ [e]) = (dir_map dir)(al_thread e \<mapsto> e)"
  by (induction dir) (auto simp: dir_map_def fun_eq_iff)

lemma admissible_key_new:
  assumes "admissible dir a" and "al_thread a \<notin> al_thread ` set dir"
  shows "al_key a \<notin> al_key ` set dir"
proof
  assume "al_key a \<in> al_key ` set dir"
  then obtain e where e: "e \<in> set dir" "al_key e = (al_parent a, al_name a)" by (auto simp: image_iff al_key_def)
  from e(1) have "al_thread e \<in> al_thread ` set dir" by (rule imageI)
  with assms e show False by (auto simp: admissible_split)
qed

definition request_result :: "nat \<Rightarrow> allocation \<Rightarrow> thread_entry list \<Rightarrow> thread_entry list" where
  "request_result pos a dir = (if al_thread a \<in> al_thread ` set dir then update_entry (requested_entry pos a) dir else dir @ [requested_entry pos a])"

lemma admissible_present:
  assumes ok: "directory_ok dir" and adm: "admissible dir a" and "al_thread a \<in> al_thread ` set dir"
  obtains x where "x \<in> set dir" "al_thread x = al_thread a" "al_key x = al_key a" "al_scope x = al_scope a"
    "al_depth x = al_depth a" "al_parent x = al_parent a" "te_status x = Failed"
proof -
  from assms(3) obtain x where x: "x \<in> set dir" "al_thread x = al_thread a" by auto
  with adm have "te_status x = Failed" "sameAllocation x a" by (auto simp: admissible_split)
  with x sameAllocationD [of x a] that show thesis by blast
qed

lemma request_result_ok:
  assumes ok: "directory_ok dir" and adm: "admissible dir a"
  shows "directory_ok (request_result pos a dir)"
proof (cases "al_thread a \<in> al_thread ` set dir")
  case True
  then obtain x where "x \<in> set dir" "al_thread x = al_thread a" "al_key x = al_key a" "al_scope x = al_scope a"
    "al_depth x = al_depth a" "al_parent x = al_parent a" "te_status x = Failed"
    by (rule admissible_present [OF ok adm])
  then have "directory_ok (update_entry (requested_entry pos a) dir)"
    by (intro directory_ok_update [OF ok, of x]) simp_all
  with True show ?thesis by (simp add: request_result_def)
next
  case False
  with directory_ok_append [OF ok adm False] show ?thesis by (simp add: request_result_def)
qed

lemma family_step_request_result:
  assumes ok: "directory_ok dir" and ref: "refines dir fs" and step: "family_step pos (ThreadRequested a) fs = Inr fs'"
  shows "refines (request_result pos a dir) fs'"
proof -
  have adm: "admissible dir a" using family_step_request [OF ok ref] step by blast
  have dist: "distinct (map al_thread dir)" using directory_okD [OF ok] by blast
  have fs': "fs_thread fs' = (fs_thread fs)(al_thread a \<mapsto> requested_entry pos a)"
    "fs_byName fs' = (fs_byName fs)(threadNameKey (al_parent a) (al_name a) \<mapsto> al_thread a)"
    "fs_pending fs' = reduce_pending (fs_pending fs) (ThreadRequested a)" "fs_identity fs' = Some (al_scope a)"
    using step by (auto simp: Let_def reduce_byName_def reduce_identity_def al_scope_def split: if_splits option.splits)
  have ps: "distinct (fs_pending fs')" "set (fs_pending fs') = insert (al_thread a) (requested dir)"
    using ref unfolding fs'(3) refines_def by (auto simp del: reduce_pending.simps simp: reduce_pending_requested)
  show ?thesis
  proof (cases "al_thread a \<in> al_thread ` set dir")
    case True
    then obtain x where x: "x \<in> set dir" "al_thread x = al_thread a" "al_key x = al_key a" "al_scope x = al_scope a"
      by (rule admissible_present [OF ok adm])
    have "name_map dir (threadNameKey (al_parent a) (al_name a)) = Some (al_thread a)"
      using x name_map_Some [OF directory_okD(2) [OF ok], of "al_parent a" "al_name a"] by (auto simp: al_key_def)
    then have names: "fs_byName fs' (threadNameKey p n) = name_map (update_entry (requested_entry pos a) dir) (threadNameKey p n)" for p n
      using ref name_map_update(1) [OF dist x(1), of "requested_entry pos a"] x by (auto simp: refines_def fs'(2))
    have "dir_scope dir = Some (al_scope a)"
      using dir_scope_Some [OF ok, of "al_scope a"] adm x(1) by (cases dir) (auto simp: admissible_def dir_scope_def)
    moreover have "dir_scope (update_entry (requested_entry pos a) dir) = dir_scope dir"
      by (rule dir_scope_update [OF ok x(1)]) (simp add: x)
    moreover have "requested (update_entry (requested_entry pos a) dir) = insert (al_thread a) (requested dir)"
      using requested_update [OF x(1), of "requested_entry pos a"] x by simp
    moreover have "dir_map (update_entry (requested_entry pos a) dir) = (dir_map dir)(al_thread a \<mapsto> requested_entry pos a)"
      using dir_map_update [of "requested_entry pos a" dir] True by simp
    ultimately show ?thesis using True ref names ps fs'(1,4) by (simp add: request_result_def refines_def)
  next
    case False
    have "dir_scope (dir @ [requested_entry pos a]) = Some (al_scope a)"
      using adm by (cases dir) (auto simp: dir_scope_def admissible_def)
    with False ref ps fs' show ?thesis
      using name_map_append [of "requested_entry pos a" dir] dir_map_append [of "requested_entry pos a" dir] admissible_key_new [OF adm False]
      by (auto simp: request_result_def refines_def requested_append)
  qed
qed

text \<open>The registration outcomes.\<close>

lemma replayRegistration_result:
  assumes "replayRegistration (Some x) e = Inr y"
  shows "al_thread y = al_thread x" "al_key y = al_key x" "al_scope y = al_scope x" "al_depth y = al_depth x" "al_parent y = al_parent x"
    "te_origin y = te_origin x" "allocation.truncate y = allocation.truncate x"
    "(te_status x \<noteq> Requested \<and> y = x) \<or> (te_status x = Requested \<and> te_status y \<noteq> Requested)"
    "al_coordinate x = event_coordinate e"
  using assms by (auto simp: replayRegistration_def al_thread_def al_key_def al_scope_def allocation.truncate_def
      split: if_splits supervisor_event.splits)

lemma update_same:
  assumes "distinct (map al_thread dir)" and "x \<in> set dir"
  shows "update_entry x dir = dir"
  unfolding update_entry_def
proof (rule map_idI)
  fix e assume "e \<in> set dir"
  then show "(if al_thread e = al_thread x then x else e) = e" using entry_eqI [OF assms(1) assms(2), of e] by simp
qed

lemma outcome_reduce:
  assumes "\<And>a. e \<noteq> ThreadRequested a" and dist: "distinct (map al_thread dir)"
  shows "reduce_threads pos e dir =
    try_bind (replayRegistration (dir_map dir (tc_thread (event_coordinate e))) e) (\<lambda>y. Inr (update_entry y dir))"
proof (cases "replayRegistration (dir_map dir (tc_thread (event_coordinate e))) e")
  case (Inr y)
  then obtain x where x: "dir_map dir (tc_thread (event_coordinate e)) = Some x"
    by (auto simp: replayRegistration_def split: option.splits)
  note y = replayRegistration_result [OF Inr [unfolded x]]
  have "x \<in> set dir" using x by (simp add: dir_map_Some [OF dist])
  then have "x = y \<Longrightarrow> update_entry y dir = dir" using update_same [OF dist] by simp
  moreover have "replace_first (\<lambda>s. al_thread s = tc_thread (event_coordinate e)) y dir = update_entry y dir"
    by (rule replace_first_update [OF dist]) (simp_all add: find_thread x y(1))
  ultimately show ?thesis using Inr x by (simp add: reduce_threads_outcome [OF assms(1)])
qed (simp add: reduce_threads_outcome [OF assms(1)])

lemma outcome_family:
  assumes "\<And>a. e \<noteq> ThreadRequested a"
  shows "family_step pos e fs = try_bind (replayRegistration (fs_thread fs (tc_thread (event_coordinate e))) e)
    (\<lambda>y. Inr (fs\<lparr>fs_thread := (fs_thread fs)(tc_thread (event_coordinate e) \<mapsto> y),
       fs_pending := filter (\<lambda>t. t \<noteq> tc_thread (event_coordinate e)) (fs_pending fs), fs_latest := Some e\<rparr>))"
proof (cases e)
  case (ThreadRequested a)
  with assms show ?thesis by blast
qed (simp_all add: Let_def)

lemma outcome_step:
  assumes e: "\<And>a. e \<noteq> ThreadRequested a" and ok: "directory_ok dir" and ref: "refines dir fs"
    and y: "replayRegistration (dir_map dir (tc_thread (event_coordinate e))) e = Inr y"
  shows "directory_ok (update_entry y dir)"
    "refines (update_entry y dir) (fs\<lparr>fs_thread := (fs_thread fs)(tc_thread (event_coordinate e) \<mapsto> y),
       fs_pending := filter (\<lambda>t. t \<noteq> tc_thread (event_coordinate e)) (fs_pending fs), fs_latest := Some e\<rparr>)"
proof -
  have dist: "distinct (map al_thread dir)" using directory_okD [OF ok] by blast
  from y obtain x where x: "dir_map dir (tc_thread (event_coordinate e)) = Some x"
    by (auto simp: replayRegistration_def split: option.splits)
  then have xin: "x \<in> set dir" and xt: "al_thread x = tc_thread (event_coordinate e)" by (simp_all add: dir_map_Some [OF dist])
  note y = replayRegistration_result [OF y [unfolded x]]
  show "directory_ok (update_entry y dir)"
  proof (cases "te_status x = Requested")
    case True
    then show ?thesis by (intro directory_ok_update [OF ok xin]) (simp_all add: y)
  next
    case False
    with y(8) have "y = x" by simp
    with update_same [OF dist xin] ok show ?thesis by simp
  qed
  have "dir_map (update_entry y dir) = (dir_map dir)(tc_thread (event_coordinate e) \<mapsto> y)"
    using dir_map_update [of y dir] xin xt y(1) by (metis imageI)
  moreover have "name_map (update_entry y dir) = name_map dir"
    by (rule name_map_update(1) [OF dist xin]) (simp_all add: y)
  moreover have "dir_scope (update_entry y dir) = dir_scope dir" by (rule dir_scope_update [OF ok xin y(3)])
  moreover have "requested (update_entry y dir) = requested dir - {tc_thread (event_coordinate e)}"
    using requested_update [OF xin y(1)] y(8) xt y(1) by auto
  ultimately show "refines (update_entry y dir) (fs\<lparr>fs_thread := (fs_thread fs)(tc_thread (event_coordinate e) \<mapsto> y),
       fs_pending := filter (\<lambda>t. t \<noteq> tc_thread (event_coordinate e)) (fs_pending fs), fs_latest := Some e\<rparr>)"
    using ref by (auto simp: refines_def)
qed

lemma supervisor_step:
  assumes ok: "directory_ok dir" and ref: "refines dir fs"
  shows "case reduce_threads pos e dir of
      Inr dir' \<Rightarrow> directory_ok dir' \<and> (\<exists>fs'. family_step pos e fs = Inr fs' \<and> refines dir' fs')
    | Inl _ \<Rightarrow> \<exists>x. family_step pos e fs = Inl x"
proof (cases "\<exists>a. e = ThreadRequested a")
  case True
  then obtain a where e: "e = ThreadRequested a" by blast
  have iff: "reduce_threads pos e dir = Inr dir' \<longleftrightarrow> admissible dir a \<and> dir' = request_result pos a dir" for dir'
    unfolding e reduce_threads_request [OF ok] request_result_def ..
  show ?thesis
  proof (cases "admissible dir a")
    case True
    then obtain fs' where "family_step pos e fs = Inr fs'" using family_step_request [OF ok ref] e by blast
    moreover from this have "refines (request_result pos a dir) fs'" unfolding e by (rule family_step_request_result [OF ok ref])
    ultimately show ?thesis using iff [of "request_result pos a dir"] True request_result_ok [OF ok True] by auto
  next
    case False
    then have "\<nexists>fs'. family_step pos e fs = Inr fs'" using family_step_request [OF ok ref] e by blast
    with False iff show ?thesis by (cases "reduce_threads pos e dir"; cases "family_step pos e fs") auto
  qed
next
  case False
  then have e: "\<And>a. e \<noteq> ThreadRequested a" by blast
  have dist: "distinct (map al_thread dir)" using directory_okD [OF ok] by blast
  have threads: "fs_thread fs = dir_map dir" using ref by (simp add: refines_def)
  show ?thesis
    by (cases "replayRegistration (dir_map dir (tc_thread (event_coordinate e))) e")
       (use outcome_step [OF e ok ref] in \<open>simp_all add: outcome_reduce [OF e dist] outcome_family [OF e] threads\<close>)
qed

lemma refines_empty: "directory_ok []" "refines [] family_empty"
  by (simp_all add: directory_ok_def refines_def family_empty_def dir_map_def name_map_def requested_def dir_scope_def fun_eq_iff)

lemma supervisor_runs:
  assumes "directory_ok dir" and "refines dir fs"
  shows "case fold_try (\<lambda>(pos, e). reduce_threads pos e) evs dir of
      Inr dir' \<Rightarrow> directory_ok dir' \<and> (\<exists>fs'. fold_try (\<lambda>(pos, e). family_step pos e) evs fs = Inr fs' \<and> refines dir' fs')
    | Inl _ \<Rightarrow> \<exists>x. fold_try (\<lambda>(pos, e). family_step pos e) evs fs = Inl x"
  using assms
proof (induction evs arbitrary: dir fs)
  case (Cons ev evs)
  obtain pos e where ev: "ev = (pos, e)" by (cases ev)
  note step = supervisor_step [OF Cons.prems, of pos e]
  show ?case
  proof (cases "reduce_threads pos e dir")
    case (Inl x)
    with step obtain x' where "family_step pos e fs = Inl x'" by auto
    with Inl ev show ?thesis by simp
  next
    case (Inr dir')
    with step obtain fs' where fs': "directory_ok dir'" "family_step pos e fs = Inr fs'" "refines dir' fs'" by auto
    show ?thesis using Cons.IH [OF fs'(1,3)]
      unfolding ev fold_try.simps prod.case Inr fs'(2) try_bind.simps .
  qed
qed simp

lemma directory_run_ok: "directory_run evs = Inr dir \<Longrightarrow> directory_ok dir"
  using supervisor_runs [OF refines_empty, of evs] by (simp add: directory_run_def)

lemma family_run_refines:
  assumes "family_run evs = Inr fs"
  obtains dir where "directory_run evs = Inr dir" "directory_ok dir" "refines dir fs"
proof (cases "directory_run evs")
  case (Inl x)
  then show ?thesis using supervisor_runs [OF refines_empty, of evs] assms by (simp add: directory_run_def family_run_def)
next
  case (Inr dir)
  then show ?thesis using supervisor_runs [OF refines_empty, of evs] assms that
    by (simp add: directory_run_def family_run_def)
qed

subsection \<open>Validation\<close>

lemma family_validate_request:
  assumes ok: "directory_ok dir" and ref: "refines dir fs"
  shows "family_validate (ThreadRequested a) fs = Inr () \<longleftrightarrow> admissible dir a"
proof -
  have dist: "distinct (map al_thread dir)" "distinct (map al_key dir)" using directory_okD [OF ok] by blast+
  have threads: "fs_thread fs = dir_map dir" and identity: "fs_identity fs = dir_scope dir"
    and names: "fs_byName fs (threadNameKey p n) = name_map dir (threadNameKey p n)" for p n
    using ref by (simp_all add: refines_def)
  have parent: "validateParent (dir_map dir) a = Inr () \<longleftrightarrow> parent_ok dir a"
    unfolding validateParent_def parent_ok_map [OF dist(1)] Let_def
    by (cases "al_parent a"; cases "dir_map dir (the (al_parent a))") auto
  show ?thesis
    unfolding admissible_split dir_map_all [OF dist(1)] name_map_all [OF dist(2), of _ _ "\<lambda>t. t = al_thread a"]
      dir_scope_Some [OF ok, symmetric] al_scope_def [of a]
    by (simp add: threads identity names parent) blast
qed

lemma family_validate_outcome:
  assumes "\<And>a. e \<noteq> ThreadRequested a"
  shows "family_validate e fs = Inr () \<longleftrightarrow>
    (\<exists>x. fs_thread fs (tc_thread (event_coordinate e)) = Some x \<and> te_status x = Requested \<and> al_coordinate x = event_coordinate e)"
proof (cases e)
  case (ThreadRequested a)
  with assms show ?thesis by blast
qed (auto simp: validateRegistration_def split: option.split)

lemma family_validated:
  assumes ok: "directory_ok dir" and ref: "refines dir fs" and valid: "family_validate e fs = Inr ()"
  obtains fs' where "family_step pos e fs = Inr fs'"
proof (cases "\<exists>a. e = ThreadRequested a")
  case True
  then obtain a where e: "e = ThreadRequested a" by blast
  show thesis using family_validate_request [OF ok ref] family_step_request [OF ok ref, of pos a] valid that unfolding e by blast
next
  case False
  then have e: "\<And>a. e \<noteq> ThreadRequested a" by blast
  from valid obtain x where "fs_thread fs (tc_thread (event_coordinate e)) = Some x" "te_status x = Requested"
    "al_coordinate x = event_coordinate e" unfolding family_validate_outcome [OF e] by blast
  then have "\<exists>y. replayRegistration (fs_thread fs (tc_thread (event_coordinate e))) e = Inr y"
    by (auto simp: replayRegistration_def split: supervisor_event.split)
  then show thesis using that by (auto simp: outcome_family [OF e])
qed

subsection \<open>Ancestors\<close>

fun ancestor_at :: "thread_entry list \<Rightarrow> nat \<Rightarrow> thread_entry \<Rightarrow> thread_entry option" where
  "ancestor_at dir 0 e = Some e"
| "ancestor_at dir (Suc n) e = (case al_parent e of
     None \<Rightarrow> None
   | Some p \<Rightarrow> (case dir_map dir p of None \<Rightarrow> None | Some q \<Rightarrow> ancestor_at dir n q))"

lemma ancestor_root:
  assumes "directory_ok dir"
  shows "e \<in> set dir \<Longrightarrow> \<exists>r\<in>set dir. ancestor_at dir (al_depth e) e = Some r \<and> al_parent r = None"
proof (induction "al_depth e" arbitrary: e)
  case 0
  then have "al_parent e = None" using directory_okD(4) [OF assms "0"(2)] by (auto simp: parent_ok_def split: option.splits)
  with "0"(2) show ?case by (simp add: "0"(1) [symmetric])
next
  case (Suc n)
  from directory_okD(4) [OF assms Suc.prems] Suc.hyps(2) obtain q where
    q: "al_parent e = Some (al_thread q)" "q \<in> set dir" "al_depth e = Suc (al_depth q)"
    by (auto simp: parent_ok_def split: option.splits)
  have "dir_map dir (al_thread q) = Some q" using q(2) dir_map_Some [OF directory_okD(1) [OF assms]] by simp
  with Suc.hyps(1) [of q] q Suc.hyps(2) show ?case by (auto simp del: ancestor_at.simps(1))
qed

subsection \<open>Requests kept between reads\<close>

definition cache_ok :: "thread_entry list \<Rightarrow> requests \<Rightarrow> bool" where
  "cache_ok dir cache \<longleftrightarrow> (\<forall>(t, r)\<in>set cache. \<exists>e\<in>set dir. al_thread e = t \<and> pr_input r = allocation.truncate e)"

definition fresh_acts :: "thread_entry list \<Rightarrow> requests" where
  "fresh_acts es = map (\<lambda>e. (al_thread e, Provision_request e)) es"

lemma provision_entry_fresh:
  assumes "distinct (map al_thread dir)" and "cache_ok dir cache" and "e \<in> set dir"
  shows "snd (provision_entry e cache) = Provision_request e \<and> cache_ok dir (fst (provision_entry e cache))"
proof -
  have new: "cache_ok dir (js_set (al_thread e) (Provision_request e) cache)"
    unfolding cache_ok_def using set_js_set [of "al_thread e" "Provision_request e" cache] assms(2,3)
    by (fastforce simp: cache_ok_def Provision_request_def)
  show ?thesis
  proof (cases "map_of cache (al_thread e)")
    case (Some r)
    then have "(al_thread e, r) \<in> set cache" by (rule map_of_SomeD)
    with assms(2) obtain e' where "e' \<in> set dir" "al_thread e' = al_thread e" "pr_input r = allocation.truncate e'"
      by (auto simp: cache_ok_def)
    moreover from this have "e' = e" using entry_eqI [OF assms(1)] assms(3) by metis
    ultimately show ?thesis using Some new assms(2) by (auto simp: provision_entry_def Provision_request_def)
  qed (use new in \<open>simp add: provision_entry_def\<close>)
qed

lemma provision_entries_fresh:
  assumes "distinct (map al_thread dir)"
  shows "cache_ok dir cache \<Longrightarrow> set es \<subseteq> set dir \<Longrightarrow>
    snd (provision_entries es cache) = fresh_acts es \<and> cache_ok dir (fst (provision_entries es cache))"
proof (induction es arbitrary: cache)
  case (Cons e es)
  obtain c r where c: "provision_entry e cache = (c, r)" by fastforce
  with provision_entry_fresh [OF assms Cons.prems(1), of e] Cons.prems(2) have "r = Provision_request e" "cache_ok dir c" by auto
  moreover obtain c' acts where "provision_entries es c = (c', acts)" by fastforce
  ultimately show ?case using Cons.IH [of c] Cons.prems(2) c by (simp add: fresh_acts_def)
qed (simp add: fresh_acts_def)

lemma pending_entries:
  assumes ok: "directory_ok dir" and ref: "refines dir fs"
  shows "map_try (pending_entry fs) (fs_pending fs) = Inr (map (\<lambda>t. the (dir_map dir t)) (fs_pending fs))"
proof (rule map_try_total)
  fix t assume "t \<in> set (fs_pending fs)"
  with ref obtain e where "e \<in> set dir" "al_thread e = t" "te_status e = Requested" by (auto simp: refines_def requested_def)
  then have "dir_map dir t = Some e" "te_status e = Requested" using dir_map_Some [OF directory_okD(1) [OF ok]] by auto
  with ref show "pending_entry fs t = Inr (the (dir_map dir t))" by (simp add: pending_entry_def refines_def)
qed

lemma distinct_map_dir:
  assumes ok: "directory_ok dir" and ref: "refines dir fs"
  shows "\<forall>t\<in>set (fs_pending fs). the (dir_map dir t) \<in> set dir \<and> al_thread (the (dir_map dir t)) = t"
proof
  fix t assume "t \<in> set (fs_pending fs)"
  with ref obtain e where "e \<in> set dir" "al_thread e = t" by (auto simp: refines_def requested_def)
  then have "dir_map dir t = Some e" using dir_map_Some [OF directory_okD(1) [OF ok]] by auto
  with \<open>e \<in> set dir\<close> \<open>al_thread e = t\<close> show "the (dir_map dir t) \<in> set dir \<and> al_thread (the (dir_map dir t)) = t" by simp
qed

text \<open>Reading the acts of the family supervisor never fails, and the kept requests are those made afresh.\<close>

lemma family_acts_fresh:
  assumes ok: "directory_ok dir" and ref: "refines dir fs" and cache: "cache_ok dir cache"
  shows "\<exists>cache'. family_acts fs cache = Inr (cache', map (\<lambda>t. (t, Provision_request (the (fs_thread fs t)))) (fs_pending fs)) \<and>
    cache_ok dir cache'"
proof -
  let ?es = "map (\<lambda>t. the (dir_map dir t)) (fs_pending fs)"
  let ?c = "filter (\<lambda>(id, _). id \<in> set (fs_pending fs)) cache"
  have "cache_ok dir ?c" using cache by (auto simp: cache_ok_def)
  moreover have "set ?es \<subseteq> set dir" using distinct_map_dir [OF ok ref] by auto
  ultimately have es: "snd (provision_entries ?es ?c) = fresh_acts ?es" "cache_ok dir (fst (provision_entries ?es ?c))"
    using provision_entries_fresh [OF directory_okD(1) [OF ok]] by blast+
  moreover have "fresh_acts ?es = map (\<lambda>t. (t, Provision_request (the (fs_thread fs t)))) (fs_pending fs)"
    using distinct_map_dir [OF ok ref] ref by (simp add: fresh_acts_def refines_def)
  ultimately show ?thesis unfolding family_acts_def pending_entries [OF ok ref] try_bind.simps
    by (intro exI [of _ "fst (provision_entries ?es ?c)"]) (simp add: prod_eq_iff)
qed

lemma directory_acts_fresh:
  assumes "directory_ok dir" and "cache_ok dir cache"
  shows "snd (directory_acts dir cache) = fresh_acts (filter (\<lambda>e. te_status e = Requested) dir)"
    "cache_ok dir (fst (directory_acts dir cache))"
  using provision_entries_fresh [OF directory_okD(1) [OF assms(1)] assms(2), of "filter (\<lambda>e. te_status e = Requested) dir"]
  by (auto simp: directory_acts_def)

lemma fresh_acts_agree:
  assumes ok: "directory_ok dir" and ref: "refines dir fs"
  shows "set (map (\<lambda>t. (t, Provision_request (the (fs_thread fs t)))) (fs_pending fs)) = set (fresh_acts (filter (\<lambda>e. te_status e = Requested) dir))"
proof -
  have "dir_map dir (al_thread e) = Some e" if "e \<in> set dir" for e
    using that dir_map_Some [OF directory_okD(1) [OF ok]] by simp
  moreover have "set (fs_pending fs) = al_thread ` {e \<in> set dir. te_status e = Requested}"
    using ref by (auto simp: refines_def requested_def)
  moreover have "fs_thread fs = dir_map dir" using ref by (simp add: refines_def)
  ultimately show ?thesis by (auto simp: fresh_acts_def image_iff)
qed

text \<open>An allocation never changes once its thread is in the directory, so a kept request stays valid.\<close>

lemma cache_kept:
  assumes ok: "directory_ok dir" and step: "reduce_threads pos e dir = Inr dir'" and cache: "cache_ok dir cache"
  shows "cache_ok dir' cache"
proof -
  have kept: "\<exists>e'\<in>set dir'. al_thread e' = al_thread x \<and> allocation.truncate e' = allocation.truncate x" if x: "x \<in> set dir" for x
  proof (cases "\<exists>a. e = ThreadRequested a")
    case True
    then obtain a where e: "e = ThreadRequested a" by blast
    with step reduce_threads_request [OF ok] have adm: "admissible dir a" and dir': "dir' = request_result pos a dir"
      by (auto simp: request_result_def)
    show ?thesis
    proof (cases "al_thread x = al_thread a")
      case True
      with adm x have "sameAllocation x a" by (auto simp: admissible_split)
      moreover have "al_thread a \<in> al_thread ` set dir" using x True by (metis imageI)
      ultimately show ?thesis using True unfolding dir'
        by (intro bexI [of _ "requested_entry pos a"]) (simp_all add: sameAllocation_def request_result_def set_update)
    next
      case False
      with x show ?thesis unfolding dir' by (intro bexI [of _ x]) (simp_all add: request_result_def set_update)
    qed
  next
    case False
    then have e: "\<And>a. e \<noteq> ThreadRequested a" by blast
    have dist: "distinct (map al_thread dir)" using directory_okD [OF ok] by blast
    from step obtain y where y: "replayRegistration (dir_map dir (tc_thread (event_coordinate e))) e = Inr y"
      and dir': "dir' = update_entry y dir" by (auto simp: outcome_reduce [OF e dist])
    then obtain z where z: "dir_map dir (tc_thread (event_coordinate e)) = Some z"
      by (auto simp: replayRegistration_def split: option.splits)
    note yz = replayRegistration_result [OF y [unfolded z]]
    have "z \<in> set dir" using z dir_map_Some [OF dist] by simp
    show ?thesis
    proof (cases "al_thread x = al_thread z")
      case True
      then have "x = z" using entry_eqI [OF dist x \<open>z \<in> set dir\<close>] by simp
      moreover have "al_thread y \<in> al_thread ` set dir" using yz(1) \<open>z \<in> set dir\<close> by (metis imageI)
      ultimately show ?thesis using yz unfolding dir' by (intro bexI [of _ y]) (simp_all add: set_update)
    next
      case False
      with x yz(1) show ?thesis unfolding dir' by (intro bexI [of _ x]) (simp_all add: set_update)
    qed
  qed
  show ?thesis unfolding cache_ok_def
  proof (intro ballI, unfold split_paired_all prod.case)
    fix t r assume "(t, r) \<in> set cache"
    with cache obtain x where "x \<in> set dir" "al_thread x = t" "pr_input r = allocation.truncate x" by (auto simp: cache_ok_def)
    with kept [of x] show "\<exists>e\<in>set dir'. al_thread e = t \<and> pr_input r = allocation.truncate e" by metis
  qed
qed

section \<open>Sessions\<close>

text \<open>A session records events one at a time and reads the acts after each, keeping its requests.\<close>

fun family_read :: "nat \<times> supervisor_event \<Rightarrow> family_state \<times> requests \<times> requests \<Rightarrow> runtime_error + family_state \<times> requests \<times> requests" where
  "family_read (pos, e) (fs, cache, acts) =
     try_bind (family_step pos e fs) (\<lambda>fs. try_bind (family_acts fs cache) (\<lambda>(cache, acts). Inr (fs, cache, acts)))"

fun directory_read :: "nat \<times> supervisor_event \<Rightarrow> thread_entry list \<times> requests \<times> requests \<Rightarrow> runtime_error + thread_entry list \<times> requests \<times> requests" where
  "directory_read (pos, e) (dir, cache, acts) =
     try_bind (reduce_threads pos e dir) (\<lambda>dir. Inr (dir, directory_acts dir cache))"

definition family_session :: "(nat \<times> supervisor_event) list \<Rightarrow> runtime_error + family_state \<times> requests \<times> requests" where
  "family_session evs = fold_try family_read evs (family_empty, [], [])"

definition directory_session :: "(nat \<times> supervisor_event) list \<Rightarrow> runtime_error + thread_entry list \<times> requests \<times> requests" where
  "directory_session evs = fold_try directory_read evs ([], [], [])"

fun session_ok :: "thread_entry list \<times> requests \<times> requests \<Rightarrow> bool" where
  "session_ok (dir, cache, acts) \<longleftrightarrow>
     directory_ok dir \<and> cache_ok dir cache \<and> acts = fresh_acts (filter (\<lambda>e. te_status e = Requested) dir)"

fun sessions_agree :: "thread_entry list \<times> requests \<times> requests \<Rightarrow> family_state \<times> requests \<times> requests \<Rightarrow> bool" where
  "sessions_agree (dir, c, acts) (fs, cache, acts') \<longleftrightarrow> session_ok (dir, c, acts) \<and> refines dir fs \<and> cache_ok dir cache \<and>
     acts' = map (\<lambda>t. (t, Provision_request (the (fs_thread fs t)))) (fs_pending fs)"

lemma session_step:
  assumes "sessions_agree s t"
  shows "case directory_read ev s of
      Inl _ \<Rightarrow> \<exists>x. family_read ev t = Inl x
    | Inr s' \<Rightarrow> \<exists>t'. family_read ev t = Inr t' \<and> sessions_agree s' t'"
proof -
  obtain pos e where ev: "ev = (pos, e)" by fastforce
  obtain dir c acts where s: "s = (dir, c, acts)" by (metis prod_cases3)
  obtain fs cache acts' where t: "t = (fs, cache, acts')" by (metis prod_cases3)
  have ok: "directory_ok dir" "cache_ok dir c" "refines dir fs" "cache_ok dir cache" using assms s t by auto
  note step = supervisor_step [OF ok(1,3), of pos e]
  show ?thesis
  proof (cases "reduce_threads pos e dir")
    case (Inl x)
    with step show ?thesis by (auto simp: ev s t)
  next
    case (Inr dir')
    with step obtain fs' where fs': "directory_ok dir'" "family_step pos e fs = Inr fs'" "refines dir' fs'" by auto
    note kept = cache_kept [OF ok(1) Inr]
    obtain cache' where cache': "family_acts fs' cache = Inr (cache', map (\<lambda>t. (t, Provision_request (the (fs_thread fs' t)))) (fs_pending fs'))"
      "cache_ok dir' cache'" using family_acts_fresh [OF fs'(1,3) kept [OF ok(4)]] by blast
    obtain c' acts2 where c': "directory_acts dir' c = (c', acts2)" by fastforce
    have "sessions_agree (dir', c', acts2) (fs', cache', map (\<lambda>t. (t, Provision_request (the (fs_thread fs' t)))) (fs_pending fs'))"
      using directory_acts_fresh [OF fs'(1) kept [OF ok(2)]] fs' cache' c' by simp
    moreover have "directory_read ev s = Inr (dir', c', acts2)" by (simp add: ev s Inr c')
    moreover have "family_read ev t = Inr (fs', cache', map (\<lambda>t. (t, Provision_request (the (fs_thread fs' t)))) (fs_pending fs'))"
      by (simp add: ev t fs' cache')
    ultimately show ?thesis by auto
  qed
qed

lemma sessions_run:
  assumes "sessions_agree s t"
  shows "case fold_try directory_read evs s of
      Inl _ \<Rightarrow> \<exists>x. fold_try family_read evs t = Inl x
    | Inr s' \<Rightarrow> \<exists>t'. fold_try family_read evs t = Inr t' \<and> sessions_agree s' t'"
  using assms
proof (induction evs arbitrary: s t)
  case (Cons ev evs)
  note step = session_step [OF Cons.prems, of ev]
  show ?case
  proof (cases "directory_read ev s")
    case (Inl x)
    with step show ?thesis by auto
  next
    case (Inr s')
    with step obtain t' where t': "family_read ev t = Inr t'" "sessions_agree s' t'" by auto
    show ?thesis using Cons.IH [OF t'(2)] unfolding fold_try.simps Inr t'(1) try_bind.simps .
  qed
qed simp

lemma sessions_agree_empty: "sessions_agree ([], [], []) (family_empty, [], [])"
  using refines_empty by (simp add: cache_ok_def fresh_acts_def family_empty_def)

lemma sessions_outcome:
  "case directory_session evs of
      Inl _ \<Rightarrow> \<exists>x. family_session evs = Inl x
    | Inr s \<Rightarrow> \<exists>t. family_session evs = Inr t \<and> sessions_agree s t"
  unfolding directory_session_def family_session_def by (rule sessions_run [OF sessions_agree_empty])

end
