(* ===== verification/Supervisor.thy ===== *)
theory Supervisor
  imports SupervisorGraph
begin

text \<open>
  The supervisor service (\<open>packages/core/src/services/supervisor.ts\<close>): which event an allocation
  sends to the directory of its instance, when it has settled, and lookups. The state of the
  directory is the \<open>family_state\<close> of \<open>familySupervisorActor\<close>; \<open>first\<close> and \<open>second\<close> are the pairs
  of integers drawn for random names.
\<close>

record supervisor_options =
  so_actor :: string
  so_validateInitialState :: "((string, json) fmap \<Rightarrow> runtime_error option) option"
  so_generateName :: "(runtime_error + string) option"
  so_defaultChildPlacement :: child_placement
  so_supportedChildPlacements :: "child_placement list"

record thread_request =
  tr_instance :: string
  tr_parent :: "thread_coordinate option"
  tr_name :: "string option"
  tr_placement :: "child_placement option"
  tr_initialState :: "(string, json) fmap option"

text \<open>What an allocation does to the directory: send one event, or resume it.\<close>

datatype allocate_action = Send supervisor_event | Resume

definition createSupervisor :: "supervisor_options \<Rightarrow> runtime_error + unit" where
  "createSupervisor opts = check (so_defaultChildPlacement opts \<in> set (so_supportedChildPlacements opts))
     (Error ''Default child placement is unsupported'')"

definition supervisorFor :: "string \<Rightarrow> runtime_error + unit" where
  "supervisorFor inst = check (inst \<noteq> []) (Error ''Actor instance must be nonempty'')"

definition randomName :: "int \<times> int \<Rightarrow> string" where
  "randomName draw = int_text (fst draw) @ ''-'' @ int_text (snd draw)"

definition placement_text :: "child_placement \<Rightarrow> string" where
  "placement_text p = (case p of Colocated \<Rightarrow> ''colocated'' | Independent \<Rightarrow> ''independent'')"

definition allocate_check :: "supervisor_options \<Rightarrow> thread_request \<Rightarrow> runtime_error + child_placement" where
  "allocate_check opts r =
     try_bind (case tr_initialState r of
         None \<Rightarrow> Inr ()
       | Some st \<Rightarrow> (case so_validateInitialState opts of
             None \<Rightarrow> Inl (Error ''Initial state validation is not configured'')
           | Some valid \<Rightarrow> (case valid st of None \<Rightarrow> Inr () | Some e \<Rightarrow> Inl e))) (\<lambda>_.
     let placement = (case tr_placement r of Some p \<Rightarrow> p | None \<Rightarrow> so_defaultChildPlacement opts) in
     if placement \<notin> set (so_supportedChildPlacements opts)
     then Inl (Error (''Unsupported child placement: '' @ placement_text placement))
     else if (case tr_parent r of None \<Rightarrow> False | Some p \<Rightarrow> tc_actor p \<noteq> so_actor opts \<or> tc_instance p \<noteq> tr_instance r)
     then Inl (Error ''Parent belongs to another actor instance'')
     else Inr placement)"

definition allocate_ancestor :: "thread_request \<Rightarrow> family_state \<Rightarrow> runtime_error + thread_entry option" where
  "allocate_ancestor r fs = (case tr_parent r of
     None \<Rightarrow> Inr None
   | Some p \<Rightarrow> (case fs_thread fs (tc_thread p) of
        None \<Rightarrow> Inl (Error ''Unknown parent thread'')
      | Some e \<Rightarrow> if te_status e \<noteq> Registered then Inl (Error ''Unknown parent thread'') else Inr (Some e)))"

definition allocate_name :: "supervisor_options \<Rightarrow> int \<times> int \<Rightarrow> thread_request \<Rightarrow> runtime_error + string" where
  "allocate_name opts first r =
     try_bind (case tr_name r of
         Some n \<Rightarrow> Inr n
       | None \<Rightarrow> (case so_generateName opts of Some g \<Rightarrow> g | None \<Rightarrow> Inr (randomName first))) (\<lambda>name.
     if name = [] \<or> CHR ''/'' \<in> set name then Inl (Error ''Thread name must be nonempty and contain no slash'')
     else Inr name)"

definition allocate_existing :: "thread_request \<Rightarrow> thread_entry \<Rightarrow> runtime_error + allocate_action" where
  "allocate_existing r existing =
     (if tr_initialState r \<noteq> None \<and> al_initialState existing \<noteq> tr_initialState r
      then Inl (Error ''Named thread already has different initial state'')
      else if tr_placement r \<noteq> None \<and> tr_placement r \<noteq> Some (al_placement existing)
      then Inl (Error ''Named thread already has different placement'')
      else if tr_name r = None
      then Inl (Error ''Generated thread name already exists; supply a different name or generator'')
      else Inr (if te_status existing = Failed then Send (ThreadRequested (allocation.truncate existing)) else Resume))"

definition allocate :: "supervisor_options \<Rightarrow> int \<times> int \<Rightarrow> int \<times> int \<Rightarrow> thread_request \<Rightarrow> family_state
    \<Rightarrow> runtime_error + allocate_action \<times> thread_coordinate" where
  "allocate opts first second r fs =
     try_bind (allocate_check opts r) (\<lambda>placement.
     try_bind (supervisorFor (tr_instance r)) (\<lambda>_.
     try_bind (allocate_ancestor r fs) (\<lambda>ancestor.
     try_bind (allocate_name opts first r) (\<lambda>name.
     let parent = map_option tc_thread (tr_parent r) in
     case fs_byName fs (threadNameKey parent name) of
       Some claimed \<Rightarrow>
         (case fs_thread fs claimed of
            None \<Rightarrow> Inl (Error ''Named thread has no allocation'')
          | Some existing \<Rightarrow> try_bind (allocate_existing r existing) (\<lambda>action. Inr (action, al_coordinate existing)))
     | None \<Rightarrow>
         (let thread = (if fs_thread fs name \<noteq> None then name @ ''-'' @ randomName second else name) in
          if fs_thread fs thread \<noteq> None then Inl (Error ''Thread identity collision'')
          else (let coordinate = \<lparr>tc_actor = so_actor opts, tc_instance = tr_instance r, tc_thread = thread\<rparr> in
            Inr (Send (ThreadRequested \<lparr>al_coordinate = coordinate, al_name = name, al_parent = parent,
                   al_depth = (case ancestor of None \<Rightarrow> 0 | Some a \<Rightarrow> al_depth a + 1), al_placement = placement,
                   al_initialState = tr_initialState r\<rparr>), coordinate)))))))"

text \<open>The outcome of the deferred that \<open>allocate\<close> awaits: none yet, or settled.\<close>

definition allocation_outcome :: "family_state \<Rightarrow> thread_coordinate \<Rightarrow> (runtime_error + unit) option" where
  "allocation_outcome fs c = (case fs_thread fs (tc_thread c) of
     None \<Rightarrow> None
   | Some e \<Rightarrow> (case te_status e of
        Requested \<Rightarrow> None
      | Registered \<Rightarrow> Some (Inr ())
      | Failed \<Rightarrow> Some (Inl (Error (case te_reason e of Some r \<Rightarrow> r | None \<Rightarrow> ''Thread provisioning did not complete'')))))"

text \<open>The result once the supervisor has nothing left to wait for.\<close>

definition allocation_result :: "family_state \<Rightarrow> thread_coordinate \<Rightarrow> runtime_error + thread_coordinate" where
  "allocation_result fs c = (case allocation_outcome fs c of
     None \<Rightarrow> Inl (Error ''Thread provisioning did not complete'')
   | Some result \<Rightarrow> try_bind result (\<lambda>_. Inr c))"

definition lookup_thread :: "supervisor_options \<Rightarrow> thread_coordinate \<Rightarrow> family_state \<Rightarrow> runtime_error + thread_coordinate option" where
  "lookup_thread opts c fs =
     (if tc_actor c \<noteq> so_actor opts then Inl (Error (''Unknown actor: '' @ tc_actor c))
      else try_bind (supervisorFor (tc_instance c)) (\<lambda>_.
        Inr (case fs_thread fs (tc_thread c) of
               Some e \<Rightarrow> if te_status e = Registered then Some (al_coordinate e) else None
             | None \<Rightarrow> None)))"

text \<open>The provision act: what its reply tells the directory.\<close>

definition DEFAULT_PROVISION_RETRY_LIMIT :: nat where
  "DEFAULT_PROVISION_RETRY_LIMIT = 2"

definition DEFAULT_PROVISION_RETRY_INTERVAL_MS :: nat where
  "DEFAULT_PROVISION_RETRY_INTERVAL_MS = 1000"

definition DEFAULT_PROVISION_RETRY :: "string \<Rightarrow> nat \<Rightarrow> (nat \<times> string) option" where
  "DEFAULT_PROVISION_RETRY failure attempt =
     (if attempt < DEFAULT_PROVISION_RETRY_LIMIT then Some (DEFAULT_PROVISION_RETRY_INTERVAL_MS, failure) else None)"

section \<open>An allocation sends what the directory admits\<close>

definition scope_ok :: "supervisor_options \<Rightarrow> string \<Rightarrow> family_state \<Rightarrow> bool" where
  "scope_ok opts inst fs \<longleftrightarrow> fs_identity fs = None \<or> fs_identity fs = Some (so_actor opts, inst)"

lemma allocate_sends:
  assumes ok: "directory_ok dir" and ref: "refines dir fs" and scope: "scope_ok opts (tr_instance r) fs"
    and sends: "allocate opts first second r fs = Inr (Send e, c)"
  shows "family_validate e fs = Inr () \<and> event_coordinate e = c \<and> (\<exists>a. e = ThreadRequested a)"
proof -
  have dist: "distinct (map al_thread dir)" "distinct (map al_key dir)" using directory_okD [OF ok] by blast+
  have threads: "fs_thread fs = dir_map dir" and identity: "fs_identity fs = dir_scope dir"
    and names: "fs_byName fs (threadNameKey p n) = name_map dir (threadNameKey p n)" for p n
    using ref by (simp_all add: refines_def)
  from sends obtain placement ancestor name where
    an: "allocate_ancestor r fs = Inr ancestor" and nm: "allocate_name opts first r = Inr name"
    by (auto simp: allocate_def)
  let ?p = "map_option tc_thread (tr_parent r)"
  show ?thesis
  proof (cases "fs_byName fs (threadNameKey ?p name)")
    case (Some claimed)
    with sends an nm obtain x where x: "fs_thread fs claimed = Some x" "allocate_existing r x = Inr (Send e)" "c = al_coordinate x"
      by (auto simp: allocate_def Let_def split: option.splits)
    then have xd: "x \<in> set dir" "te_status x = Failed" "e = ThreadRequested (allocation.truncate x)"
      using dir_map_SomeD [of dir claimed x] by (auto simp: threads allocate_existing_def split: if_splits)
    have same: "sameAllocation x (allocation.truncate x)" by (simp add: sameAllocation_def)
    note same' = sameAllocationD [OF same]
    have "admissible dir (allocation.truncate x)"
      unfolding admissible_split
    proof (intro conjI ballI impI)
      fix y assume y: "y \<in> set dir"
      show "al_scope y = al_scope (allocation.truncate x)"
        unfolding same'(3) [symmetric] by (rule directory_okD(3) [OF ok y xd(1)])
      assume "al_thread y = al_thread (allocation.truncate x)"
      then have "y = x" by (intro entry_eqI [OF dist(1) y xd(1)]) (simp add: same'(1))
      with xd same show "te_status y = Failed" "sameAllocation y (allocation.truncate x)" by simp_all
    next
      fix y assume y: "y \<in> set dir" "al_key y = (al_parent (allocation.truncate x), al_name (allocation.truncate x))"
      then have "y = x" by (intro entry_eqI [OF dist(2) y(1) xd(1)]) (simp add: al_key_def)
      then show "al_thread y = al_thread (allocation.truncate x)" by (simp add: same'(1))
    next
      have "parent_ok dir x" by (rule directory_okD(4) [OF ok xd(1)])
      then show "parent_ok dir (allocation.truncate x)" by (simp add: parent_ok_def split: option.splits)
    qed
    from iffD2 [OF family_validate_request [OF ok ref] this] show ?thesis unfolding xd(3) using x(3) by simp
  next
    case None
    then obtain a where e: "e = ThreadRequested a" and a: "al_scope a = (so_actor opts, tr_instance r)"
      "al_parent a = ?p" "al_name a = name" "al_depth a = (case ancestor of None \<Rightarrow> 0 | Some q \<Rightarrow> al_depth q + 1)"
      "fs_thread fs (al_thread a) = None" "al_coordinate a = c"
      using sends an nm by (auto simp: allocate_def Let_def al_scope_def al_thread_def split: if_splits)
    have "al_thread a \<notin> al_thread ` set dir" using a(5) by (simp add: threads dir_map_None)
    then have t: "al_thread y \<noteq> al_thread a" if "y \<in> set dir" for y using that by (metis imageI)
    have k: "al_key y \<noteq> (al_parent a, al_name a)" if "y \<in> set dir" for y
      using None that unfolding names name_map_None a(2,3) [symmetric] by (metis imageI)
    have "\<forall>y\<in>set dir. al_scope y = al_scope a"
      using scope dir_scope_Some [OF ok, of "al_scope a"] by (auto simp: scope_ok_def identity a(1))
    moreover have "parent_ok dir a"
      unfolding parent_ok_map [OF dist(1)] using an a(2,4)
      by (auto simp: allocate_ancestor_def threads split: option.splits if_splits)
    ultimately have "admissible dir a" using t k unfolding admissible_split by blast
    from iffD2 [OF family_validate_request [OF ok ref] this] show ?thesis unfolding e using a(6) by simp
  qed
qed

text \<open>Asking again for a named thread that has not failed resumes the same thread.\<close>

lemma allocate_again:
  assumes "allocate_check opts r = Inr placement" "tr_instance r \<noteq> []" "allocate_ancestor r fs = Inr ancestor"
    and "tr_name r = Some name" "name \<noteq> []" "CHR ''/'' \<notin> set name"
    and "fs_byName fs (threadNameKey (map_option tc_thread (tr_parent r)) name) = Some t" "fs_thread fs t = Some x"
    and "te_status x \<noteq> Failed" "tr_initialState r = None \<or> tr_initialState r = al_initialState x"
    and "tr_placement r = None \<or> tr_placement r = Some (al_placement x)"
  shows "allocate opts first second r fs = Inr (Resume, al_coordinate x)"
  using assms by (auto simp: allocate_def supervisorFor_def allocate_name_def allocate_existing_def)

end
