(* ===== verification/ServiceProperties.thy ===== *)
theory ServiceProperties
  imports Supervisor
begin

text \<open>
  The properties of the supervisor, with the concrete inputs their witnesses use.
\<close>

section \<open>A small instance\<close>

definition demo_coordinate :: "string \<Rightarrow> thread_coordinate" where
  "demo_coordinate t = \<lparr>tc_actor = ''agent'', tc_instance = ''one'', tc_thread = t\<rparr>"

definition demo_root :: allocation where
  "demo_root = \<lparr>al_coordinate = demo_coordinate ''root'', al_name = ''root'', al_parent = None, al_depth = 0,
     al_placement = Colocated, al_initialState = None\<rparr>"

definition demo_child :: allocation where
  "demo_child = \<lparr>al_coordinate = demo_coordinate ''child'', al_name = ''child'', al_parent = Some ''root'', al_depth = 1,
     al_placement = Colocated, al_initialState = None\<rparr>"

definition demo_events :: "(nat \<times> supervisor_event) list" where
  "demo_events = [(1, ThreadRequested demo_root), (4, ThreadRegistered (demo_coordinate ''root'')),
     (6, ThreadRequested demo_child)]"

definition demo_options :: supervisor_options where
  "demo_options = \<lparr>so_actor = ''agent'', so_validateInitialState = None, so_generateName = None,
     so_defaultChildPlacement = Colocated, so_supportedChildPlacements = [Colocated]\<rparr>"

definition demo_request :: thread_request where
  "demo_request = \<lparr>tr_instance = ''one'', tr_parent = Some (demo_coordinate ''root''), tr_name = Some ''second'',
     tr_placement = None, tr_initialState = None\<rparr>"

lemmas demo_defs = demo_coordinate_def demo_root_def demo_child_def demo_events_def demo_options_def demo_request_def

text \<open>The decided outcome of a computation, without comparing the states it holds.\<close>

definition succeeds :: "'e + 'a \<Rightarrow> bool" where
  "succeeds r = (case r of Inl _ \<Rightarrow> False | Inr _ \<Rightarrow> True)"

lemma succeedsE: "succeeds r \<Longrightarrow> \<exists>x. r = Inr x"
  by (cases r) (simp_all add: succeeds_def)

section \<open>Supervisor\<close>

text \<open>C8. The two supervisors agree: replaying any events, the one that keeps an atom per thread and
  per name and the one that keeps a single directory fail together, and otherwise hold the same entry
  for every thread and request the same provisioning, whatever requests they kept between reads.\<close>

theorem supervisors_agree:
  "case directory_session evs of
     Inl _ \<Rightarrow> \<exists>x. family_session evs = Inl x
   | Inr (dir, _, acts) \<Rightarrow> \<exists>fs cache acts'. family_session evs = Inr (fs, cache, acts') \<and>
       (\<forall>t. fs_thread fs t = find (\<lambda>e. al_thread e = t) dir) \<and> set acts' = set acts \<and>
       acts = map (\<lambda>e. (al_thread e, Provision_request e)) (filter (\<lambda>e. te_status e = Requested) dir)"
proof (cases "directory_session evs")
  case (Inl x)
  with sessions_outcome [of evs] show ?thesis by simp
next
  case (Inr s)
  obtain dir c acts where s: "s = (dir, c, acts)" by (metis prod_cases3)
  from sessions_outcome [of evs] Inr obtain t where t: "family_session evs = Inr t" "sessions_agree s t" by auto
  obtain fs cache acts' where t': "t = (fs, cache, acts')" by (metis prod_cases3)
  have agree: "directory_ok dir" "refines dir fs" "acts = fresh_acts (filter (\<lambda>e. te_status e = Requested) dir)"
    "acts' = map (\<lambda>t. (t, Provision_request (the (fs_thread fs t)))) (fs_pending fs)"
    using t(2) by (simp_all add: s t')
  have "fs_thread fs t = find (\<lambda>e. al_thread e = t) dir" for t
    using agree(2) by (simp add: refines_def find_thread)
  moreover have "set acts' = set acts" using fresh_acts_agree [OF agree(1,2)] agree(3,4) by simp
  moreover have "acts = map (\<lambda>e. (al_thread e, Provision_request e)) (filter (\<lambda>e. te_status e = Requested) dir)"
    using agree(3) by (simp add: fresh_acts_def)
  ultimately show ?thesis using Inr t(1) s t' by simp
qed

text \<open>C25. A directory is a tree of one actor instance: thread identities are unique, names are unique
  under each parent, and following parents from any thread reaches a root in as many steps as its depth.\<close>

theorem directory_tree:
  assumes "directory_run evs = Inr dir"
  shows "distinct (map al_thread dir) \<and> distinct (map (\<lambda>e. (al_parent e, al_name e)) dir) \<and>
    (\<forall>e\<in>set dir. \<forall>e'\<in>set dir. al_scope e = al_scope e') \<and>
    (\<forall>e\<in>set dir. \<exists>r\<in>set dir. ancestor_at dir (al_depth e) e = Some r \<and> al_parent r = None)"
proof (intro conjI)
  have ok: "directory_ok dir" by (rule directory_run_ok [OF assms])
  show "distinct (map al_thread dir)" "\<forall>e\<in>set dir. \<forall>e'\<in>set dir. al_scope e = al_scope e'"
    using ok unfolding directory_ok_def by blast+
  show "distinct (map (\<lambda>e. (al_parent e, al_name e)) dir)"
    using directory_okD(2) [OF ok] unfolding al_key_def [abs_def] .
  show "\<forall>e\<in>set dir. \<exists>r\<in>set dir. ancestor_at dir (al_depth e) e = Some r \<and> al_parent r = None"
    using ancestor_root [OF ok] by blast
qed

lemma demo_directory_run: "succeeds (directory_run demo_events)"
  by code_simp

lemma demo_family_run: "succeeds (family_run demo_events)"
  by code_simp

theorem directory_tree_witness:
  "\<exists>dir. directory_run demo_events = Inr dir \<and> distinct (map al_thread dir) \<and>
     (\<forall>e\<in>set dir. \<exists>r\<in>set dir. ancestor_at dir (al_depth e) e = Some r \<and> al_parent r = None)"
  using succeedsE [OF demo_directory_run] directory_tree [of demo_events] by blast

text \<open>C35. What validation admits never fails afterwards: an event the family supervisor validates is
  recorded without an error at any position, and so is reading the view and its acts; a request that
  is refused by validation would also have failed there.\<close>

theorem validated_event_recorded:
  assumes "family_run evs = Inr fs"
  shows "(family_validate e fs = Inr () \<longrightarrow> (\<exists>fs' cache acts. family_step pos e fs = Inr fs' \<and> family_acts fs' [] = Inr (cache, acts))) \<and>
    (family_step pos (ThreadRequested a) fs = Inr fs' \<longrightarrow> family_validate (ThreadRequested a) fs = Inr ())"
proof (intro conjI impI)
  obtain dir where ok: "directory_ok dir" "refines dir fs" using family_run_refines [OF assms] by blast
  show "\<exists>fs' cache acts. family_step pos e fs = Inr fs' \<and> family_acts fs' [] = Inr (cache, acts)"
    if valid: "family_validate e fs = Inr ()"
  proof -
    obtain fs' where fs': "family_step pos e fs = Inr fs'" using family_validated [OF ok valid] by blast
    obtain dir' where "directory_ok dir'" "refines dir' fs'"
      using supervisor_step [OF ok, of pos e] fs' by (auto split: sum.splits)
    moreover have "cache_ok dir' []" by (simp add: cache_ok_def)
    ultimately show ?thesis using family_acts_fresh [of dir' fs' "[]"] fs' by blast
  qed
  show "family_validate (ThreadRequested a) fs = Inr ()" if "family_step pos (ThreadRequested a) fs = Inr fs'"
    using that family_step_request [OF ok] family_validate_request [OF ok] by blast
qed

theorem validated_event_recorded_witness:
  "\<exists>fs. family_run demo_events = Inr fs \<and> family_validate (ThreadFailed (demo_coordinate ''child'') ''x'') fs = Inr () \<and>
     (\<exists>fs'. family_step 7 (ThreadFailed (demo_coordinate ''child'') ''x'') fs = Inr fs')"
proof -
  obtain fs where fs: "family_run demo_events = Inr fs" using succeedsE [OF demo_family_run] by blast
  have "succeeds (try_bind (family_run demo_events) (family_validate (ThreadFailed (demo_coordinate ''child'') ''x'')))"
    by code_simp
  with fs have valid: "family_validate (ThreadFailed (demo_coordinate ''child'') ''x'') fs = Inr ()"
    by (auto dest!: succeedsE)
  from validated_event_recorded [OF fs, of "ThreadFailed (demo_coordinate ''child'') ''x''" "7 :: nat"] fs valid show ?thesis by blast
qed

text \<open>An allocation only sends what the directory admits: the event it sends passes validation,
  names the coordinate the caller is given, and once recorded that thread is requested.\<close>

theorem allocation_admitted:
  assumes "family_run evs = Inr fs" and "scope_ok opts (tr_instance r) fs"
    and "allocate opts first second r fs = Inr (Send e, c)"
  shows "family_validate e fs = Inr () \<and>
    (\<exists>fs' x. family_step pos e fs = Inr fs' \<and> fs_thread fs' (tc_thread c) = Some x \<and> te_status x = Requested \<and>
      te_origin x = pos \<and> al_coordinate x = c \<and> allocation_outcome fs' c = None)"
proof -
  obtain dir where ok: "directory_ok dir" "refines dir fs" using family_run_refines [OF assms(1)] by blast
  from allocate_sends [OF ok assms(2,3)] obtain a where
    e: "family_validate e fs = Inr ()" "e = ThreadRequested a" "al_coordinate a = c" by (metis event_coordinate.simps(1))
  obtain fs' where fs': "family_step pos e fs = Inr fs'" using family_validated [OF ok e(1)] by blast
  then have "fs_thread fs' (tc_thread c) = Some (requested_entry pos a)"
    unfolding e(2) by (auto simp: Let_def al_thread_def e(3) split: if_splits)
  then have "fs_thread fs' (tc_thread c) = Some (requested_entry pos a) \<and> al_coordinate (requested_entry pos a) = c \<and>
      allocation_outcome fs' c = None" by (simp add: allocation_outcome_def e(3))
  with e(1) fs' show ?thesis by (metis requested_entry_fields(6,9))
qed

theorem allocation_admitted_witness:
  "\<exists>fs e c. family_run demo_events = Inr fs \<and> allocate demo_options (0, 0) (0, 0) demo_request fs = Inr (Send e, c) \<and>
     family_validate e fs = Inr ()"
proof -
  obtain fs where fs: "family_run demo_events = Inr fs" using succeedsE [OF demo_family_run] by blast
  have "succeeds (try_bind (family_run demo_events) (\<lambda>fs. check (scope_ok demo_options (tr_instance demo_request) fs) SchemaError))"
    by code_simp
  with fs have scope: "scope_ok demo_options (tr_instance demo_request) fs" by (auto dest!: succeedsE)
  have "succeeds (try_bind (family_run demo_events) (\<lambda>fs. try_bind (allocate demo_options (0, 0) (0, 0) demo_request fs)
      (\<lambda>(act, _). case act of Send _ \<Rightarrow> Inr () | Resume \<Rightarrow> Inl SchemaError)))" by code_simp
  with fs obtain act c where act: "allocate demo_options (0, 0) (0, 0) demo_request fs = Inr (act, c)" "act \<noteq> Resume"
    by (auto dest!: succeedsE split: allocate_action.splits) (metis allocate_action.exhaust)
  then obtain e where sends: "allocate demo_options (0, 0) (0, 0) demo_request fs = Inr (Send e, c)"
    by (cases act) simp_all
  show ?thesis using allocation_admitted [OF fs scope sends] fs sends by blast
qed

text \<open>A registration settles once: the first outcome recorded decides the thread; a later one is
  refused by validation and, found on replay, changes no entry.\<close>

theorem registration_settles_once:
  assumes "family_run evs = Inr fs" and "family_validate e fs = Inr ()" and "\<And>a. e \<noteq> ThreadRequested a"
    and "family_step pos e fs = Inr fs'" and "\<And>a. e' \<noteq> ThreadRequested a" and "event_coordinate e' = event_coordinate e"
  shows "(\<exists>x. fs_thread fs' (tc_thread (event_coordinate e)) = Some x \<and>
      te_status x = (case e of ThreadFailed _ _ \<Rightarrow> Failed | _ \<Rightarrow> Registered)) \<and>
    family_validate e' fs' \<noteq> Inr () \<and>
    (\<exists>fs''. family_step pos' e' fs' = Inr fs'' \<and> fs_thread fs'' = fs_thread fs' \<and> fs_pending fs'' = fs_pending fs')"
proof (intro conjI)
  let ?t = "tc_thread (event_coordinate e)"
  from assms(2) obtain x where x: "fs_thread fs ?t = Some x" "te_status x = Requested" "al_coordinate x = event_coordinate e"
    unfolding family_validate_outcome [OF assms(3)] by blast
  from assms(4) obtain y where y: "replayRegistration (Some x) e = Inr y" "fs_thread fs' = (fs_thread fs)(?t \<mapsto> y)"
    "fs_pending fs' = filter (\<lambda>t. t \<noteq> ?t) (fs_pending fs)" by (auto simp: outcome_family [OF assms(3)] x(1))
  have st: "te_status y = (case e of ThreadFailed _ _ \<Rightarrow> Failed | _ \<Rightarrow> Registered)" "al_coordinate y = event_coordinate e"
    using y(1) x assms(3) by (auto simp: replayRegistration_def split: supervisor_event.splits)
  then have settled: "te_status y \<noteq> Requested" by (auto split: supervisor_event.splits)
  show "\<exists>x. fs_thread fs' ?t = Some x \<and> te_status x = (case e of ThreadFailed _ _ \<Rightarrow> Failed | _ \<Rightarrow> Registered)"
    using y(2) st by simp
  show "family_validate e' fs' \<noteq> Inr ()"
    unfolding family_validate_outcome [OF assms(5)] using y(2) settled by (simp add: assms(6))
  have "replayRegistration (Some y) e' = Inr y" using settled st(2) by (simp add: replayRegistration_def assms(6))
  then show "\<exists>fs''. family_step pos' e' fs' = Inr fs'' \<and> fs_thread fs'' = fs_thread fs' \<and> fs_pending fs'' = fs_pending fs'"
    by (simp add: outcome_family [OF assms(5)] assms(6) y fun_eq_iff)
qed

theorem registration_settles_once_witness:
  "\<exists>fs fs'. family_run demo_events = Inr fs \<and> family_step 7 (ThreadRegistered (demo_coordinate ''child'')) fs = Inr fs' \<and>
     family_validate (ThreadFailed (demo_coordinate ''child'') ''late'') fs' \<noteq> Inr ()"
proof -
  obtain fs where fs: "family_run demo_events = Inr fs" using succeedsE [OF demo_family_run] by blast
  have "succeeds (try_bind (family_run demo_events) (family_validate (ThreadRegistered (demo_coordinate ''child''))))"
    by code_simp
  with fs have valid: "family_validate (ThreadRegistered (demo_coordinate ''child'')) fs = Inr ()" by (auto dest!: succeedsE)
  have "succeeds (try_bind (family_run demo_events) (family_step 7 (ThreadRegistered (demo_coordinate ''child''))))"
    by code_simp
  with fs obtain fs' where fs': "family_step 7 (ThreadRegistered (demo_coordinate ''child'')) fs = Inr fs'" by (auto dest!: succeedsE)
  show ?thesis
    using registration_settles_once [OF fs valid _ fs', of "ThreadFailed (demo_coordinate ''child'') ''late''"] fs fs' by auto
qed

end
