(* ===== verification/Scheduler.thy ===== *)
theory Scheduler
  imports Events
begin

text \<open>
  Durable wakes (\<open>packages/core/src/services/scheduler.ts\<close>) over the SQL tables of
  \<open>packages/platform/src/shared/sql-scheduler.ts\<close>. The locale \<open>keyed_store\<close> states what the
  services rely on in a stored collection; it is interpreted on the tables of wakes here and on
  the watchdog's entries in \<open>Watchdog\<close>. Times are milliseconds, as integers.
\<close>

section \<open>Stored collections\<close>

locale keyed_store =
  fixes get :: "'s \<Rightarrow> string \<Rightarrow> 'v option"
    and put :: "string \<Rightarrow> 'v \<Rightarrow> 's \<Rightarrow> 's"
    and remove :: "string \<Rightarrow> 's \<Rightarrow> 's"
    and entries :: "'s \<Rightarrow> (string \<times> 'v) list"
    and valid :: "'s \<Rightarrow> bool"
  assumes get_put: "get (put k v s) k' = (if k' = k then Some v else get s k')"
    and get_remove: "get (remove k s) k' = (if k' = k then None else get s k')"
    and entries_iff: "valid s \<Longrightarrow> (k, v) \<in> set (entries s) \<longleftrightarrow> get s k = Some v"
    and valid_put: "valid s \<Longrightarrow> valid (put k v s)"
    and valid_remove: "valid s \<Longrightarrow> valid (remove k s)"
begin

lemma get_put_same [simp]: "get (put k v s) k = Some v"
  by (simp add: get_put)

lemma get_put_other [simp]: "k' \<noteq> k \<Longrightarrow> get (put k v s) k' = get s k'"
  by (simp add: get_put)

lemma get_remove_same [simp]: "get (remove k s) k = None"
  by (simp add: get_remove)

lemma entries_put:
  "valid s \<Longrightarrow> set (entries (put k v s)) = insert (k, v) {(k', v') \<in> set (entries s). k' \<noteq> k}"
  by (auto simp: entries_iff valid_put get_put split: if_splits)

lemma entries_remove: "valid s \<Longrightarrow> set (entries (remove k s)) = {(k', v') \<in> set (entries s). k' \<noteq> k}"
  by (auto simp: entries_iff valid_remove get_remove split: if_splits)

lemma entries_ex: "valid s \<Longrightarrow> (\<exists>v. get s k = Some v \<and> P v) \<longleftrightarrow> (\<exists>v. (k, v) \<in> set (entries s) \<and> P v)"
  by (auto simp: entries_iff)

text \<open>What holds of every stored value is kept by storing a value of which it holds and by removals.\<close>

lemma all_put: "(\<forall>k v. get s k = Some v \<longrightarrow> P k v) \<Longrightarrow> P k v \<Longrightarrow> \<forall>k' v'. get (put k v s) k' = Some v' \<longrightarrow> P k' v'"
  by (auto simp: get_put)

lemma all_remove: "(\<forall>k v. get s k = Some v \<longrightarrow> P k v) \<Longrightarrow> \<forall>k' v'. get (remove k s) k' = Some v' \<longrightarrow> P k' v'"
  by (auto simp: get_remove)

end

text \<open>Maps with distinct keys are such a collection.\<close>

interpretation js_map: keyed_store map_of js_set js_delete "\<lambda>s. s" "\<lambda>s. distinct (map fst s)"
  by unfold_locales (auto simp: map_of_eq_Some_iff)

section \<open>Wakes\<close>

record scheduled_wake =
  sw_id :: string
  sw_target :: json
  sw_dueAt :: int
  sw_generation :: nat
  sw_nextWakeAt :: int

definition scheduled_wake_ok :: "scheduled_wake \<Rightarrow> bool" where
  "scheduled_wake_ok w \<longleftrightarrow> sw_id w \<noteq> [] \<and> sw_generation w > 0 \<and> int (sw_generation w) \<le> max_safe_integer"

record wake_request =
  wr_id :: string
  wr_target :: json
  wr_dueAt :: int

text \<open>The tables \<open>scheduled_wakes\<close> and \<open>scheduler_generation\<close> and the physical alarm.\<close>

record scheduler_store =
  ss_wakes :: "(string \<times> scheduled_wake) list"
  ss_generation :: nat
  ss_alarm :: "int option"

definition scheduler_empty :: scheduler_store where
  "scheduler_empty = \<lparr>ss_wakes = [], ss_generation = 0, ss_alarm = None\<rparr>"

definition allocateGeneration :: "scheduler_store \<Rightarrow> runtime_error + nat \<times> scheduler_store" where
  "allocateGeneration s =
     (if int (ss_generation s) < max_safe_integer
      then Inr (ss_generation s + 1, s\<lparr>ss_generation := ss_generation s + 1\<rparr>)
      else Inl (Error ''Scheduler generation exhausted''))"

definition wake_get :: "scheduler_store \<Rightarrow> string \<Rightarrow> scheduled_wake option" where
  "wake_get s k = map_of (ss_wakes s) k"

definition wake_put :: "scheduled_wake \<Rightarrow> scheduler_store \<Rightarrow> scheduler_store" where
  "wake_put w s = s\<lparr>ss_wakes := js_set (sw_id w) w (ss_wakes s)\<rparr>"

definition wake_delete :: "string \<Rightarrow> scheduler_store \<Rightarrow> scheduler_store" where
  "wake_delete k s = s\<lparr>ss_wakes := js_delete k (ss_wakes s)\<rparr>"

definition wake_list :: "scheduler_store \<Rightarrow> (string \<times> scheduled_wake) list" where
  "wake_list s = ss_wakes s"

definition wakes_valid :: "scheduler_store \<Rightarrow> bool" where
  "wakes_valid s \<longleftrightarrow> distinct (map fst (ss_wakes s))"

definition wake_store :: "string \<Rightarrow> scheduled_wake \<Rightarrow> scheduler_store \<Rightarrow> scheduler_store" where
  "wake_store k w s = s\<lparr>ss_wakes := js_set k w (ss_wakes s)\<rparr>"

lemmas wake_defs = wake_get_def wake_put_def wake_delete_def wake_list_def wakes_valid_def wake_store_def

interpretation sql: keyed_store wake_get wake_store wake_delete wake_list wakes_valid
  by unfold_locales (auto simp: wake_defs map_of_eq_Some_iff)

lemma wake_put_store: "wake_put w = wake_store (sw_id w) w"
  by (simp add: fun_eq_iff wake_defs)

section \<open>Operations\<close>

fun earliest :: "int option \<Rightarrow> (string \<times> scheduled_wake) list \<Rightarrow> int option" where
  "earliest acc [] = acc"
| "earliest acc ((_, w) # ws) =
     earliest (Some (case acc of None \<Rightarrow> sw_nextWakeAt w | Some t \<Rightarrow> min t (sw_nextWakeAt w))) ws"

definition schedulerAlarm :: "scheduler_store \<Rightarrow> scheduler_store" where
  "schedulerAlarm s = s\<lparr>ss_alarm := earliest None (wake_list s)\<rparr>"

definition scheduleWake :: "wake_request \<Rightarrow> scheduler_store \<Rightarrow> runtime_error + scheduler_store" where
  "scheduleWake r s = try_bind (allocateGeneration s) (\<lambda>(g, s).
     let w = \<lparr>sw_id = wr_id r, sw_target = wr_target r, sw_dueAt = wr_dueAt r, sw_generation = g, sw_nextWakeAt = wr_dueAt r\<rparr> in
     if scheduled_wake_ok w then Inr (wake_put w s) else Inl SchemaError)"

definition cancelWake :: "string \<Rightarrow> scheduler_store \<Rightarrow> scheduler_store" where
  "cancelWake k s = wake_delete k s"

text \<open>A transaction keeps nothing of work that fails, and synchronizes the alarm after work that succeeds.\<close>

definition transaction :: "(scheduler_store \<Rightarrow> runtime_error + 'a \<times> scheduler_store) \<Rightarrow> scheduler_store \<Rightarrow> runtime_error + 'a \<times> scheduler_store" where
  "transaction work s = try_bind (work s) (\<lambda>(v, s). Inr (v, schedulerAlarm s))"

record scheduler_policy =
  deliveryRetryMs :: int
  deliveryTimeoutMs :: int

definition DEFAULT_SCHEDULER_POLICY :: scheduler_policy where
  "DEFAULT_SCHEDULER_POLICY = \<lparr>deliveryRetryMs = 1000, deliveryTimeoutMs = 30000\<rparr>"

definition scheduler_policy_check :: "scheduler_policy \<Rightarrow> runtime_error + scheduler_policy" where
  "scheduler_policy_check p =
     (if \<not> safe_integer (deliveryRetryMs p) \<or> deliveryRetryMs p < 1
      then Inl (Error ''Scheduler deliveryRetryMs must be a positive safe integer'')
      else if \<not> safe_integer (deliveryTimeoutMs p) \<or> deliveryTimeoutMs p < 1
      then Inl (Error ''Scheduler deliveryTimeoutMs must be a positive safe integer'')
      else Inr p)"

definition schedule :: "wake_request \<Rightarrow> scheduler_store \<Rightarrow> runtime_error + unit \<times> scheduler_store" where
  "schedule r = transaction (\<lambda>s. try_bind (scheduleWake r s) (\<lambda>s. Inr ((), s)))"

definition cancel :: "string \<Rightarrow> scheduler_store \<Rightarrow> runtime_error + unit \<times> scheduler_store" where
  "cancel k = transaction (\<lambda>s. Inr ((), cancelWake k s))"

text \<open>
  One wake of the alarm's list: the claim moves it past its retry time, the acknowledgment deletes
  it after a delivery that succeeded, if it is still the generation that was claimed.
\<close>

definition claim_wake :: "scheduler_policy \<Rightarrow> int \<Rightarrow> scheduled_wake \<Rightarrow> scheduler_store \<Rightarrow> runtime_error + scheduled_wake option \<times> scheduler_store" where
  "claim_wake p now entry = transaction (\<lambda>s. case wake_get s (sw_id entry) of
     None \<Rightarrow> Inr (None, s)
   | Some current \<Rightarrow>
       if sw_generation current \<noteq> sw_generation entry \<or> sw_nextWakeAt current > now then Inr (None, s)
       else Inr (Some current, wake_put (current\<lparr>sw_nextWakeAt := now + deliveryRetryMs p\<rparr>) s))"

definition ack_wake :: "bool \<Rightarrow> scheduled_wake \<Rightarrow> scheduler_store \<Rightarrow> runtime_error + unit \<times> scheduler_store" where
  "ack_wake success claimed = transaction (\<lambda>s. Inr ((),
     if success \<and> map_option sw_generation (wake_get s (sw_id claimed)) = Some (sw_generation claimed)
     then wake_delete (sw_id claimed) s else s))"

text \<open>
  The alarm: each listed wake is claimed, delivered and acknowledged in turn. \<open>deliver\<close> is the host's
  delivery: whether it succeeded in time, the store it leaves (it may schedule and cancel wakes) and
  the time it ends.
\<close>

fun alarm_loop :: "scheduler_policy \<Rightarrow> (scheduled_wake \<Rightarrow> int \<Rightarrow> scheduler_store \<Rightarrow> bool \<times> int \<times> scheduler_store) \<Rightarrow> scheduled_wake list
    \<Rightarrow> int \<Rightarrow> scheduler_store \<Rightarrow> runtime_error + int \<times> scheduler_store" where
  "alarm_loop p deliver [] now s = Inr (now, s)"
| "alarm_loop p deliver (entry # es) now s =
     try_bind (claim_wake p now entry s) (\<lambda>(claimed, s).
       case claimed of
         None \<Rightarrow> alarm_loop p deliver es now s
       | Some w \<Rightarrow> (case deliver w now s of (success, now, s) \<Rightarrow>
           try_bind (ack_wake success w s) (\<lambda>(_, s). alarm_loop p deliver es now s)))"

definition scheduler_alarm :: "scheduler_policy \<Rightarrow> (scheduled_wake \<Rightarrow> int \<Rightarrow> scheduler_store \<Rightarrow> bool \<times> int \<times> scheduler_store)
    \<Rightarrow> int \<Rightarrow> scheduler_store \<Rightarrow> runtime_error + int \<times> scheduler_store" where
  "scheduler_alarm p deliver now s = alarm_loop p deliver (map snd (wake_list s)) now s"

section \<open>The alarm is the earliest wake\<close>

lemma earliest_fold:
  "earliest acc ws = (case acc of
     Some t \<Rightarrow> Some (foldl min t (map (sw_nextWakeAt \<circ> snd) ws))
   | None \<Rightarrow> (case ws of [] \<Rightarrow> None | w # ws \<Rightarrow> Some (foldl min (sw_nextWakeAt (snd w)) (map (sw_nextWakeAt \<circ> snd) ws))))"
  by (induction acc ws rule: earliest.induct) (auto simp: comp_def split: option.splits list.splits)

lemma foldl_min: "foldl min t xs = Min (insert (t :: int) (set xs))"
proof (induction xs arbitrary: t)
  case (Cons x xs)
  have "Min (insert (min t x) (set xs)) = Min (insert t (insert x (set xs)))"
    by (cases "set xs = {}") (auto simp: min.assoc)
  with Cons show ?case by simp
qed simp

lemma earliest_None: "earliest None ws = (if ws = [] then None else Some (Min ((sw_nextWakeAt \<circ> snd) ` set ws)))"
  by (cases ws) (auto simp: earliest_fold foldl_min image_comp)

definition alarm_synced :: "scheduler_store \<Rightarrow> bool" where
  "alarm_synced s \<longleftrightarrow> ss_alarm s = (if ss_wakes s = [] then None else Some (Min ((sw_nextWakeAt \<circ> snd) ` set (ss_wakes s))))"

lemma alarm_synced_schedulerAlarm [simp]: "alarm_synced (schedulerAlarm s)"
  by (simp add: alarm_synced_def schedulerAlarm_def wake_list_def earliest_None)

lemma schedulerAlarm_simps [simp]:
  "ss_wakes (schedulerAlarm s) = ss_wakes s" "ss_generation (schedulerAlarm s) = ss_generation s"
  "wake_get (schedulerAlarm s) k = wake_get s k" "wakes_valid (schedulerAlarm s) = wakes_valid s"
  by (simp_all add: schedulerAlarm_def wake_defs)

section \<open>Interleaved transactions\<close>

text \<open>
  The stores any interleaving of transactions reaches, with the wakes claimed so far. A claim may
  start from an entry listed at any earlier time, and an acknowledgment may come at any later time.
\<close>

inductive scheduler_reaches :: "scheduler_policy \<Rightarrow> scheduler_store \<Rightarrow> scheduled_wake list \<Rightarrow> bool" for p where
  empty_store: "scheduler_reaches p scheduler_empty []"
| scheduled: "scheduler_reaches p s cs \<Longrightarrow> schedule r s = Inr ((), s') \<Longrightarrow> scheduler_reaches p s' cs"
| cancelled: "scheduler_reaches p s cs \<Longrightarrow> cancel k s = Inr ((), s') \<Longrightarrow> scheduler_reaches p s' cs"
| refused: "scheduler_reaches p s cs \<Longrightarrow> claim_wake p now entry s = Inr (None, s') \<Longrightarrow> scheduler_reaches p s' cs"
| claimed: "scheduler_reaches p s cs \<Longrightarrow> claim_wake p now entry s = Inr (Some w, s') \<Longrightarrow> scheduler_reaches p s' (w # cs)"
| acked: "scheduler_reaches p s cs \<Longrightarrow> w \<in> set cs \<Longrightarrow> ack_wake success w s = Inr ((), s') \<Longrightarrow> scheduler_reaches p s' cs"

definition scheduler_ok :: "scheduler_store \<Rightarrow> scheduled_wake list \<Rightarrow> bool" where
  "scheduler_ok s cs \<longleftrightarrow> wakes_valid s \<and> alarm_synced s \<and>
     (\<forall>k w. wake_get s k = Some w \<longrightarrow> sw_id w = k \<and> scheduled_wake_ok w \<and> sw_generation w \<le> ss_generation s) \<and>
     (\<forall>c\<in>set cs. sw_generation c \<le> ss_generation s) \<and>
     (\<forall>k w. wake_get s k = Some w \<longrightarrow> (\<forall>c\<in>set cs. sw_generation c = sw_generation w \<longrightarrow>
        sw_id c = k \<and> sw_target c = sw_target w \<and> sw_dueAt c = sw_dueAt w)) \<and>
     (\<forall>k w k' w'. wake_get s k = Some w \<longrightarrow> wake_get s k' = Some w' \<longrightarrow> sw_generation w = sw_generation w' \<longrightarrow> k = k')"

lemma schedule_result:
  assumes "schedule r s = Inr ((), s')"
  obtains w where "s' = schedulerAlarm (wake_store (wr_id r) w (s\<lparr>ss_generation := ss_generation s + 1\<rparr>))"
    "sw_id w = wr_id r" "sw_target w = wr_target r" "sw_dueAt w = wr_dueAt r" "sw_generation w = ss_generation s + 1" "scheduled_wake_ok w"
    "sw_nextWakeAt w = wr_dueAt r"
  using assms by (auto simp: schedule_def transaction_def scheduleWake_def allocateGeneration_def Let_def wake_put_store split: if_splits)

lemma claim_result:
  "claim_wake p now entry s = Inr (c, s') \<longleftrightarrow>
    (case wake_get s (sw_id entry) of
       Some w \<Rightarrow> if sw_generation w = sw_generation entry \<and> sw_nextWakeAt w \<le> now
         then c = Some w \<and> s' = schedulerAlarm (wake_put (w\<lparr>sw_nextWakeAt := now + deliveryRetryMs p\<rparr>) s)
         else c = None \<and> s' = schedulerAlarm s
     | None \<Rightarrow> c = None \<and> s' = schedulerAlarm s)"
  by (auto simp: claim_wake_def transaction_def split: option.splits if_splits)

lemma ack_result:
  "ack_wake success w s = Inr ((), s') \<longleftrightarrow> s' = schedulerAlarm
    (if success \<and> map_option sw_generation (wake_get s (sw_id w)) = Some (sw_generation w) then wake_delete (sw_id w) s else s)"
  by (auto simp: ack_wake_def transaction_def)

lemma wake_get_generation [simp]: "wake_get (s\<lparr>ss_generation := g\<rparr>) k = wake_get s k" "wakes_valid (s\<lparr>ss_generation := g\<rparr>) = wakes_valid s"
  by (simp_all add: wake_defs)

lemma generation_simps [simp]:
  "ss_generation (wake_store k w s) = ss_generation s" "ss_generation (wake_delete k s) = ss_generation s"
  by (simp_all add: wake_defs)

lemma scheduler_ok_alarm: "scheduler_ok s cs \<Longrightarrow> scheduler_ok (schedulerAlarm s) cs"
  by (simp add: scheduler_ok_def)

lemma scheduler_ok_delete: "scheduler_ok s cs \<Longrightarrow> scheduler_ok (schedulerAlarm (wake_delete k s)) cs"
  unfolding scheduler_ok_def by (simp add: sql.get_remove sql.valid_remove)

lemma scheduler_ok_schedule:
  assumes ok: "scheduler_ok s cs" and w: "sw_generation w = ss_generation s + 1" "scheduled_wake_ok w" "sw_id w = k"
  shows "scheduler_ok (schedulerAlarm (wake_store k w (s\<lparr>ss_generation := ss_generation s + 1\<rparr>))) cs"
proof -
  have fresh: "sw_generation v \<noteq> sw_generation w" if "wake_get s k' = Some v" for k' v
    using ok that w(1) by (fastforce simp: scheduler_ok_def)
  have freshc: "sw_generation c \<noteq> sw_generation w" if "c \<in> set cs" for c
    using ok that w(1) by (fastforce simp: scheduler_ok_def)
  have le: "wake_get s k' = Some v \<Longrightarrow> sw_generation v \<le> Suc (ss_generation s)" "c \<in> set cs \<Longrightarrow> sw_generation c \<le> Suc (ss_generation s)" for k' v c
    using ok by (auto simp: scheduler_ok_def intro: le_SucI)
  show ?thesis
    using ok w fresh freshc le unfolding scheduler_ok_def
    by (simp add: sql.get_put sql.valid_put) (metis (no_types, lifting))
qed

lemma scheduler_ok_claim:
  assumes ok: "scheduler_ok s cs" and w: "wake_get s k = Some w"
  shows "scheduler_ok (schedulerAlarm (wake_put (w\<lparr>sw_nextWakeAt := t\<rparr>) s)) (w # cs)"
proof -
  let ?w = "w\<lparr>sw_nextWakeAt := t\<rparr>"
  have k: "sw_id w = k" "scheduled_wake_ok w" "sw_generation w \<le> ss_generation s" using ok w by (auto simp: scheduler_ok_def)
  have one: "wake_get s k' = Some v \<Longrightarrow> sw_generation v = sw_generation w \<Longrightarrow> k' = k" for k' v
    using ok w unfolding scheduler_ok_def by metis
  have claims: "wake_get s k' = Some v \<Longrightarrow> c \<in> set cs \<Longrightarrow> sw_generation c = sw_generation v \<Longrightarrow>
      sw_id c = k' \<and> sw_target c = sw_target v \<and> sw_dueAt c = sw_dueAt v" for k' v c
    using ok unfolding scheduler_ok_def by blast
  have basic: "wakes_valid s" "\<forall>c\<in>set cs. sw_generation c \<le> ss_generation s"
    "\<And>k' v. wake_get s k' = Some v \<Longrightarrow> sw_id v = k' \<and> scheduled_wake_ok v \<and> sw_generation v \<le> ss_generation s"
    "\<And>k1 k2 v1 v2. wake_get s k1 = Some v1 \<Longrightarrow> wake_get s k2 = Some v2 \<Longrightarrow> sw_generation v1 = sw_generation v2 \<Longrightarrow> k1 = k2"
    using ok unfolding scheduler_ok_def by blast+
  have get: "wake_get (schedulerAlarm (wake_put ?w s)) k' = (if k' = k then Some ?w else wake_get s k')" for k'
    by (simp add: wake_put_store sql.get_put k)
  show ?thesis unfolding scheduler_ok_def
  proof (intro conjI allI impI ballI)
    show "wakes_valid (schedulerAlarm (wake_put ?w s))" using basic(1) by (simp add: wake_put_store sql.valid_put)
    show "alarm_synced (schedulerAlarm (wake_put ?w s))" by simp
  next
    fix k' v assume "wake_get (schedulerAlarm (wake_put ?w s)) k' = Some v"
    then have v: "(k' = k \<and> v = ?w) \<or> (k' \<noteq> k \<and> wake_get s k' = Some v)"
      unfolding get by (auto split: if_splits)
    then show "sw_id v = k'" "scheduled_wake_ok v" "sw_generation v \<le> ss_generation (schedulerAlarm (wake_put ?w s))"
      using k basic(3) [of k' v] by (auto simp: scheduled_wake_ok_def wake_put_store)
    fix c assume c: "c \<in> set (w # cs)" "sw_generation c = sw_generation v"
    show "sw_id c = k'" "sw_target c = sw_target v" "sw_dueAt c = sw_dueAt v"
      using v c claims [of k' v c] claims [OF w, of c] one [of k' v] k(1) by auto
  next
    fix c assume "c \<in> set (w # cs)"
    then show "sw_generation c \<le> ss_generation (schedulerAlarm (wake_put ?w s))"
      using basic(2) k(3) by (auto simp: wake_put_store)
  next
    fix k1 v1 k2 v2
    assume "wake_get (schedulerAlarm (wake_put ?w s)) k1 = Some v1" "wake_get (schedulerAlarm (wake_put ?w s)) k2 = Some v2"
      "sw_generation v1 = sw_generation v2"
    then show "k1 = k2" using basic(4) [of k1 v1 k2 v2] one [of k1 v1] one [of k2 v2]
      unfolding get by (auto split: if_splits)
  qed
qed

lemma scheduler_reaches_ok: "scheduler_reaches p s cs \<Longrightarrow> scheduler_ok s cs"
proof (induction rule: scheduler_reaches.induct)
  case empty_store
  show ?case by (simp add: scheduler_ok_def scheduler_empty_def wake_defs alarm_synced_def)
next
  case (scheduled s cs r s')
  from scheduled.hyps(2) obtain w where "s' = schedulerAlarm (wake_store (wr_id r) w (s\<lparr>ss_generation := ss_generation s + 1\<rparr>))"
    "sw_id w = wr_id r" "sw_generation w = ss_generation s + 1" "scheduled_wake_ok w" by (rule schedule_result)
  with scheduler_ok_schedule [OF scheduled.IH] show ?case by simp
next
  case (cancelled s cs k s')
  then show ?case by (auto simp: cancel_def transaction_def cancelWake_def scheduler_ok_delete)
next
  case (refused s cs now entry s')
  then show ?case by (auto simp: claim_result scheduler_ok_alarm split: option.splits if_splits)
next
  case (claimed s cs now entry w s')
  then show ?case by (auto simp: claim_result scheduler_ok_claim split: option.splits if_splits)
next
  case (acked s cs w success s')
  then show ?case by (auto simp: ack_result scheduler_ok_delete scheduler_ok_alarm)
qed

end
