(* ===== verification/Watchdog.thy ===== *)
theory Watchdog
  imports Scheduler
begin

text \<open>
  The watchdog (\<open>packages/core/src/services/watchdog.ts\<close>): durable recovery entries with their
  attempt budgets, the wake they keep scheduled, and each of its transactions. The attempts in
  flight (\<open>active\<close>, in memory only) and the clock are arguments; a recovery's result is a value of
  \<open>recovery_exit\<close>. \<open>Math.log2\<close> in \<open>retryDelay\<close> is taken as the exact logarithm.
\<close>

section \<open>Policy\<close>

record watchdog_policy =
  attemptTimeoutMs :: int
  keepAliveIntervalMs :: int
  retryIntervalMs :: int
  maxRetryIntervalMs :: int
  maxAttempts :: int
  maxNoProgressAttempts :: int

definition DEFAULT_WATCHDOG_POLICY :: watchdog_policy where
  "DEFAULT_WATCHDOG_POLICY = \<lparr>attemptTimeoutMs = 30000, keepAliveIntervalMs = 30000, retryIntervalMs = 1000,
     maxRetryIntervalMs = 30000, maxAttempts = 20, maxNoProgressAttempts = 5\<rparr>"

definition positive_safe :: "int \<Rightarrow> bool" where
  "positive_safe n \<longleftrightarrow> safe_integer n \<and> n \<ge> 1"

definition watchdogPolicy :: "watchdog_policy \<Rightarrow> runtime_error + watchdog_policy" where
  "watchdogPolicy p =
     try_bind (fold_try (\<lambda>(key, n) _. check (positive_safe n) (Error (''Watchdog '' @ key @ '' must be a positive safe integer'')))
       [(''attemptTimeoutMs'', attemptTimeoutMs p), (''keepAliveIntervalMs'', keepAliveIntervalMs p),
        (''retryIntervalMs'', retryIntervalMs p), (''maxRetryIntervalMs'', maxRetryIntervalMs p),
        (''maxAttempts'', maxAttempts p), (''maxNoProgressAttempts'', maxNoProgressAttempts p)] ()) (\<lambda>_.
     if maxRetryIntervalMs p < retryIntervalMs p
     then Inl (Error ''Watchdog maxRetryIntervalMs must be at least retryIntervalMs'') else Inr p)"

text \<open>The least number of doublings that takes the retry interval to its maximum.\<close>

function doublings :: "int \<Rightarrow> int \<Rightarrow> nat" where
  "doublings most step = (if step < 1 \<or> most \<le> step then 0 else Suc (doublings most (2 * step)))"
  by auto
termination by (relation "measure (\<lambda>(most, step). nat (most - step))") auto

declare doublings.simps [simp del]

definition retryDelay :: "watchdog_policy \<Rightarrow> int \<Rightarrow> int" where
  "retryDelay p failures =
     min (maxRetryIntervalMs p)
       (retryIntervalMs p * 2 ^ min (doublings (maxRetryIntervalMs p) (retryIntervalMs p)) (nat (max 0 (failures - 1))))"

section \<open>Entries\<close>

record watchdog_target =
  wt_actor :: string
  wt_instance :: string
  wt_thread :: "string option"

definition target_ok :: "watchdog_target \<Rightarrow> bool" where
  "target_ok t \<longleftrightarrow> wt_actor t \<noteq> [] \<and> wt_instance t \<noteq> [] \<and> wt_thread t \<noteq> Some []"

definition watchdogKey :: "watchdog_target \<Rightarrow> string" where
  "watchdogKey t = canonicalInput (JArr [JStr (wt_actor t), JStr (wt_instance t),
     case wt_thread t of None \<Rightarrow> JNull | Some s \<Rightarrow> JStr s])"

lemma watchdogKey_inject [simp]: "watchdogKey t = watchdogKey u \<longleftrightarrow> t = u"
proof
  assume "watchdogKey t = watchdogKey u"
  then show "t = u" unfolding watchdogKey_def
    by (subst (asm) canonical_inject) (auto split: option.splits intro: watchdog_target.equality)
qed simp

datatype watchdog_status = Pending | Blocked

record watchdog_entry =
  we_target :: watchdog_target
  we_generation :: int
  we_budgetGeneration :: "int option"
  we_recoveryVersion :: "string option"
  we_progressCursor :: int
  we_attempts :: int
  we_consecutiveNoProgress :: int
  we_nextWakeAt :: "int option"
  we_status :: watchdog_status
  we_reason :: "string option"

definition budget :: "watchdog_entry \<Rightarrow> int" where
  "budget e = (case we_budgetGeneration e of None \<Rightarrow> 0 | Some g \<Rightarrow> g)"

record watchdog_store =
  ws_scheduler :: scheduler_store
  ws_entries :: "(string \<times> watchdog_entry) list"

definition wd_get :: "watchdog_store \<Rightarrow> string \<Rightarrow> watchdog_entry option" where
  "wd_get s k = map_of (ws_entries s) k"

definition wd_put :: "string \<Rightarrow> watchdog_entry \<Rightarrow> watchdog_store \<Rightarrow> watchdog_store" where
  "wd_put k e s = s\<lparr>ws_entries := js_set k e (ws_entries s)\<rparr>"

definition wd_delete :: "string \<Rightarrow> watchdog_store \<Rightarrow> watchdog_store" where
  "wd_delete k s = s\<lparr>ws_entries := js_delete k (ws_entries s)\<rparr>"

definition wd_valid :: "watchdog_store \<Rightarrow> bool" where
  "wd_valid s \<longleftrightarrow> distinct (map fst (ws_entries s))"

lemmas wd_defs = wd_get_def wd_put_def wd_delete_def wd_valid_def

interpretation wd: keyed_store wd_get wd_put wd_delete ws_entries wd_valid
  by unfold_locales (auto simp: wd_defs map_of_eq_Some_iff)

section \<open>The wake\<close>

type_synonym active = "string \<Rightarrow> int option"

definition wake_time :: "watchdog_policy \<Rightarrow> active \<Rightarrow> int \<Rightarrow> string \<times> watchdog_entry \<Rightarrow> int option" where
  "wake_time p active now ke = (case ke of (key, entry) \<Rightarrow>
     if we_status entry \<noteq> Pending then None
     else (case we_nextWakeAt entry of
        None \<Rightarrow> None
      | Some next \<Rightarrow> Some (case active key of
          None \<Rightarrow> next
        | Some expires \<Rightarrow> min (if expires > now then expires else now + keepAliveIntervalMs p) (now + keepAliveIntervalMs p))))"

definition watchdog_wake :: "int \<Rightarrow> wake_request" where
  "watchdog_wake due = \<lparr>wr_id = ''watchdog'', wr_target = JObj (fmap_of_list [(''owner'', JStr ''watchdog'')]), wr_dueAt = due\<rparr>"

definition wd_schedule :: "watchdog_policy \<Rightarrow> active \<Rightarrow> int \<Rightarrow> watchdog_store \<Rightarrow> runtime_error + watchdog_store" where
  "wd_schedule p active now s =
     (let times = List.map_filter (wake_time p active now) (ws_entries s) in
      if times \<noteq> [] then try_bind (scheduleWake (watchdog_wake (fold min (tl times) (hd times))) (ws_scheduler s))
        (\<lambda>sch. Inr (s\<lparr>ws_scheduler := sch\<rparr>))
      else Inr (s\<lparr>ws_scheduler := cancelWake ''watchdog'' (ws_scheduler s)\<rparr>))"

section \<open>Transactions\<close>

record watchdog_env =
  wv_policy :: watchdog_policy
  wv_version :: "string option"

definition resetBudget :: "watchdog_env \<Rightarrow> active \<Rightarrow> int \<Rightarrow> watchdog_target \<Rightarrow> string option \<Rightarrow> watchdog_store \<Rightarrow> runtime_error + watchdog_store" where
  "resetBudget env active now target version s = (case wd_get s (watchdogKey target) of
     None \<Rightarrow> Inr s
   | Some current \<Rightarrow>
       if version \<noteq> None \<and> we_recoveryVersion current = version then Inr s
       else wd_schedule (wv_policy env) active now (wd_put (watchdogKey target)
         \<lparr>we_target = we_target current, we_generation = we_generation current + 1, we_budgetGeneration = Some (budget current + 1),
          we_recoveryVersion = (case version of None \<Rightarrow> we_recoveryVersion current | Some v \<Rightarrow> Some v),
          we_progressCursor = we_progressCursor current, we_attempts = 0, we_consecutiveNoProgress = 0,
          we_nextWakeAt = Some now, we_status = Pending, we_reason = None\<rparr> s))"

definition adoptVersion :: "watchdog_env \<Rightarrow> active \<Rightarrow> int \<Rightarrow> watchdog_target \<Rightarrow> string \<Rightarrow> watchdog_store \<Rightarrow> runtime_error + watchdog_store" where
  "adoptVersion env active now target version s =
     (if version \<noteq> [] then resetBudget env active now target (Some version) s
      else Inl (Error ''Watchdog version must be nonempty''))"

definition admit_entry :: "watchdog_env \<Rightarrow> int \<Rightarrow> watchdog_target \<Rightarrow> int \<Rightarrow> bool \<Rightarrow> watchdog_entry option \<Rightarrow> watchdog_entry" where
  "admit_entry env now target progressCursor admission previous = (case previous of
     Some previous \<Rightarrow>
       previous\<lparr>we_generation := we_generation previous + (if admission then 1 else 0),
         we_progressCursor := max (we_progressCursor previous) progressCursor,
         we_consecutiveNoProgress := (if progressCursor > we_progressCursor previous then 0 else we_consecutiveNoProgress previous),
         we_nextWakeAt := (if we_status previous = Blocked then we_nextWakeAt previous
           else Some (let next = (case we_nextWakeAt previous of None \<Rightarrow> now | Some t \<Rightarrow> t) in if admission then min next now else next))\<rparr>
   | None \<Rightarrow> \<lparr>we_target = target, we_generation = 1, we_budgetGeneration = None, we_recoveryVersion = wv_version env,
       we_progressCursor = progressCursor, we_attempts = 0, we_consecutiveNoProgress = 0, we_nextWakeAt = Some now,
       we_status = Pending, we_reason = None\<rparr>)"

definition admit :: "watchdog_env \<Rightarrow> active \<Rightarrow> int \<Rightarrow> watchdog_target \<Rightarrow> int \<Rightarrow> bool \<Rightarrow> bool \<Rightarrow> watchdog_store \<Rightarrow> runtime_error + watchdog_store" where
  "admit env active now target progressCursor admission expired s =
     try_bind (case wd_get s (watchdogKey target) of
         Some previous \<Rightarrow> if expired \<and> we_status previous = Blocked then resetBudget env active now target None s else Inr s
       | None \<Rightarrow> Inr s) (\<lambda>s.
     wd_schedule (wv_policy env) active now (wd_put (watchdogKey target)
       (admit_entry env now target progressCursor admission (wd_get s (watchdogKey target))) s))"

text \<open>What a recovery returns: its state, or a failure with its squashed error.\<close>

datatype recovery_status = Settled | PendingWork | Parked | Running

record recovery_state =
  rv_progressCursor :: int
  rv_status :: recovery_status
  rv_wakeAt :: "int option"

record recovery_failure =
  rf_message :: string
  rf_dies :: bool
  rf_terminal :: bool

datatype recovery_exit = Success recovery_state | Failure recovery_failure

text \<open>Work that runs, or waits for a time ahead, needs no attempt now.\<close>

definition resting :: "recovery_state \<Rightarrow> int \<Rightarrow> bool" where
  "resting st now \<longleftrightarrow>
     (rv_status st = Running \<and> (case rv_wakeAt st of None \<Rightarrow> True | Some t \<Rightarrow> t > now)) \<or>
     (rv_status st = Parked \<and> (case rv_wakeAt st of None \<Rightarrow> False | Some t \<Rightarrow> t > now))"

definition rest_wake :: "watchdog_policy \<Rightarrow> recovery_state \<Rightarrow> int \<Rightarrow> int" where
  "rest_wake p st now =
     (if rv_status st = Running
      then min (case rv_wakeAt st of None \<Rightarrow> now + keepAliveIntervalMs p | Some t \<Rightarrow> t) (now + keepAliveIntervalMs p)
      else the (rv_wakeAt st))"

text \<open>\<open>terminal\<close> is whether the failure ends recovery: a defect, or not retryable.\<close>

definition finish_entry :: "watchdog_policy \<Rightarrow> int \<Rightarrow> watchdog_entry \<Rightarrow> recovery_exit \<Rightarrow> bool \<Rightarrow> watchdog_entry \<Rightarrow> watchdog_entry option" where
  "finish_entry p now covered result charged current = (case result of
     Success st \<Rightarrow>
       (let progressCursor = max (we_progressCursor current) (rv_progressCursor st);
            progress = progressCursor > we_progressCursor covered in
        if rv_status st = Settled \<and> we_generation current = we_generation covered then None
        else if resting st now \<and> we_generation current = we_generation covered then
          Some (current\<lparr>we_progressCursor := progressCursor,
            we_consecutiveNoProgress := (if progress then 0 else max 0 (we_consecutiveNoProgress current - (if charged then 1 else 0))),
            we_nextWakeAt := Some (rest_wake p st now)\<rparr>)
        else if we_attempts current \<ge> maxAttempts p \<or> (\<not> progress \<and> we_consecutiveNoProgress current \<ge> maxNoProgressAttempts p) then
          Some (current\<lparr>we_progressCursor := progressCursor, we_status := Blocked, we_nextWakeAt := None,
            we_reason := Some ''Recovery budget exhausted''\<rparr>)
        else Some (current\<lparr>we_progressCursor := progressCursor,
            we_consecutiveNoProgress := (if progress then 0 else we_consecutiveNoProgress current),
            we_nextWakeAt := Some (now + (if progress then retryIntervalMs p else retryDelay p (we_consecutiveNoProgress current)))\<rparr>))
   | Failure f \<Rightarrow>
       (let terminal = (rf_dies f \<or> rf_terminal f);
            exhausted = (we_attempts current \<ge> maxAttempts p \<or> we_consecutiveNoProgress current \<ge> maxNoProgressAttempts p) in
        Some (current\<lparr>we_status := (if terminal \<or> exhausted then Blocked else Pending),
          we_nextWakeAt := (if terminal \<or> exhausted then None else Some (now + retryDelay p (we_consecutiveNoProgress current))),
          we_reason := Some (rf_message f)\<rparr>)))"

definition wd_finish :: "watchdog_env \<Rightarrow> active \<Rightarrow> int \<Rightarrow> string \<Rightarrow> watchdog_entry \<Rightarrow> recovery_exit \<Rightarrow> bool \<Rightarrow> watchdog_store \<Rightarrow> runtime_error + watchdog_store" where
  "wd_finish env active now key covered result charged s =
     wd_schedule (wv_policy env) active now (case wd_get s key of
       None \<Rightarrow> s
     | Some current \<Rightarrow>
         if we_status current = Blocked \<or> budget current \<noteq> budget covered then s
         else (case finish_entry (wv_policy env) now covered result charged current of
            None \<Rightarrow> wd_delete key s
          | Some e \<Rightarrow> wd_put key e s))"

text \<open>The precharge of an attempt: it is counted before recovery runs.\<close>

definition wd_claim :: "watchdog_env \<Rightarrow> active \<Rightarrow> int \<Rightarrow> string \<Rightarrow> watchdog_entry \<Rightarrow> watchdog_store
    \<Rightarrow> runtime_error + watchdog_entry option \<times> watchdog_store" where
  "wd_claim env active now key entry s =
     (let p = wv_policy env;
          rescheduled = (\<lambda>s e. try_bind (wd_schedule p active now s) (\<lambda>s. Inr (e, s))) in
      case wd_get s key of
        None \<Rightarrow> rescheduled s None
      | Some latest \<Rightarrow>
          if budget latest \<noteq> budget entry \<or> (wv_version env \<noteq> None \<and> we_recoveryVersion latest \<noteq> wv_version env)
          then rescheduled s None
          else if we_status latest \<noteq> Pending \<or> (case we_nextWakeAt latest of None \<Rightarrow> True | Some t \<Rightarrow> t > now)
          then rescheduled s None
          else if we_attempts latest \<ge> maxAttempts p \<or> we_consecutiveNoProgress latest \<ge> maxNoProgressAttempts p
          then rescheduled (wd_put key (latest\<lparr>we_status := Blocked, we_nextWakeAt := None,
                 we_reason := Some ''Recovery budget exhausted''\<rparr>) s) None
          else (let next = latest\<lparr>we_attempts := we_attempts latest + 1,
                  we_consecutiveNoProgress := we_consecutiveNoProgress latest + 1,
                  we_nextWakeAt := Some (now + attemptTimeoutMs p)\<rparr>
                in rescheduled (wd_put key next s) (Some next)))"

text \<open>\<open>restore\<close> adopts the interpreter's version in every entry once, then schedules.\<close>

definition wd_restore :: "watchdog_env \<Rightarrow> active \<Rightarrow> int \<Rightarrow> bool \<Rightarrow> watchdog_store \<Rightarrow> runtime_error + watchdog_store" where
  "wd_restore env active now versionAdopted s =
     try_bind (case wv_version env of
         Some v \<Rightarrow> if versionAdopted then Inr s
           else fold_try (\<lambda>(_, entry) s. adoptVersion env active now (we_target entry) v s) (ws_entries s) s
       | None \<Rightarrow> Inr s) (wd_schedule (wv_policy env) active now)"

definition resume :: "watchdog_env \<Rightarrow> active \<Rightarrow> int \<Rightarrow> watchdog_target \<Rightarrow> watchdog_store \<Rightarrow> runtime_error + watchdog_store" where
  "resume env active now target s = resetBudget env active now target None s"

definition blocked :: "watchdog_target \<Rightarrow> watchdog_store \<Rightarrow> bool" where
  "blocked target s = (case wd_get s (watchdogKey target) of Some e \<Rightarrow> we_status e = Blocked | None \<Rightarrow> False)"

definition createWatchdog :: "watchdog_policy \<Rightarrow> string option \<Rightarrow> runtime_error + watchdog_env" where
  "createWatchdog p version =
     try_bind (watchdogPolicy p) (\<lambda>p.
       if version = Some [] then Inl (Error ''Watchdog version must be nonempty'')
       else Inr \<lparr>wv_policy = p, wv_version = version\<rparr>)"

text \<open>
  What the alarm does with one entry of its list: pass it over, take a state the probe observed as
  the result of a free attempt, or claim an attempt.
\<close>

datatype alarm_action = Skip | Reschedule | FinishObserved recovery_state | Attempt

definition alarm_action :: "watchdog_env \<Rightarrow> active \<Rightarrow> int \<Rightarrow> string \<Rightarrow> watchdog_entry \<Rightarrow> recovery_exit option \<Rightarrow> alarm_action" where
  "alarm_action env active now key entry observed =
     (if wv_version env \<noteq> None \<and> we_recoveryVersion entry \<noteq> wv_version env then Skip
      else if active key \<noteq> None then Reschedule
      else if we_status entry \<noteq> Pending \<or> (case we_nextWakeAt entry of None \<Rightarrow> True | Some t \<Rightarrow> t > now) then Skip
      else (case observed of
          Some (Success st) \<Rightarrow> if rv_status st = Settled \<or> resting st now then FinishObserved st else Attempt
        | _ \<Rightarrow> Attempt))"

text \<open>Whether a failed attempt invalidates what it recovered.\<close>

definition invalidates :: "string \<Rightarrow> watchdog_entry \<Rightarrow> recovery_exit \<Rightarrow> watchdog_store \<Rightarrow> bool" where
  "invalidates key covered result s =
     ((case result of Success _ \<Rightarrow> False | Failure _ \<Rightarrow> True) \<and>
      (case wd_get s key of None \<Rightarrow> False | Some current \<Rightarrow> budget current = budget covered))"

text \<open>
  One entry of an alarm without \<open>launch\<close>: the attempt runs within the alarm, with \<open>recover\<close> giving
  its result, the time it ends and the store it leaves. A probe that failed is the attempt's result.
\<close>

definition alarm_entry :: "watchdog_env \<Rightarrow> (watchdog_target \<Rightarrow> int \<Rightarrow> watchdog_store \<Rightarrow> recovery_exit \<times> int \<times> watchdog_store) \<Rightarrow> int
    \<Rightarrow> string \<Rightarrow> watchdog_entry \<Rightarrow> recovery_exit option \<Rightarrow> watchdog_store \<Rightarrow> runtime_error + watchdog_store" where
  "alarm_entry env recover now key entry observed s =
     (case alarm_action env Map.empty now key entry observed of
        Skip \<Rightarrow> Inr s
      | Reschedule \<Rightarrow> wd_schedule (wv_policy env) Map.empty now s
      | FinishObserved st \<Rightarrow> wd_finish env Map.empty now key entry (Success st) False s
      | Attempt \<Rightarrow> try_bind (wd_claim env Map.empty now key entry s) (\<lambda>(covered, s).
          case covered of
            None \<Rightarrow> Inr s
          | Some c \<Rightarrow> (case (case observed of Some (Failure f) \<Rightarrow> (Failure f, now, s) | _ \<Rightarrow> recover (we_target c) now s) of
              (result, ended, s) \<Rightarrow> wd_finish env Map.empty ended key c result True s)))"

section \<open>The retry delay\<close>

lemma doublings_reach: "1 \<le> step \<Longrightarrow> most \<le> step * 2 ^ doublings most step"
proof (induction most step rule: doublings.induct)
  case (1 most step)
  show ?case
  proof (cases "most \<le> step")
    case True
    then show ?thesis using "1.prems" by (simp add: doublings.simps [of most step])
  next
    case False
    with 1 show ?thesis by (simp add: doublings.simps [of most step] algebra_simps)
  qed
qed

lemma retryDelay_bounds:
  assumes "watchdogPolicy p = Inr p"
  shows "retryIntervalMs p \<le> retryDelay p n \<and> retryDelay p n \<le> maxRetryIntervalMs p"
proof -
  have "1 \<le> retryIntervalMs p" "retryIntervalMs p \<le> maxRetryIntervalMs p"
    using assms by (auto simp: watchdogPolicy_def positive_safe_def split: if_splits)
  moreover have "retryIntervalMs p * 1 \<le> retryIntervalMs p * 2 ^ k" for k
    using calculation by (intro mult_left_mono) simp_all
  ultimately show ?thesis by (simp add: retryDelay_def)
qed

lemma retryDelay_mono:
  assumes "watchdogPolicy p = Inr p" and "m \<le> n"
  shows "retryDelay p m \<le> retryDelay p n"
proof -
  have "1 \<le> retryIntervalMs p" using assms(1) by (auto simp: watchdogPolicy_def positive_safe_def split: if_splits)
  then have "retryIntervalMs p * 2 ^ a \<le> retryIntervalMs p * 2 ^ b" if "a \<le> b" for a b :: nat
    using that by (intro mult_left_mono power_increasing) simp_all
  moreover have "nat (max 0 (m - 1)) \<le> nat (max 0 (n - 1))" using assms(2) by (intro nat_mono) simp
  ultimately show ?thesis unfolding retryDelay_def by (intro min.mono order_refl) (simp add: min.coboundedI2)
qed

lemma retryDelay_double:
  assumes "watchdogPolicy p = Inr p" and "1 \<le> n"
  shows "retryDelay p (n + 1) = min (maxRetryIntervalMs p) (2 * retryDelay p n)"
proof -
  have pos: "1 \<le> retryIntervalMs p" using assms(1) by (auto simp: watchdogPolicy_def positive_safe_def split: if_splits)
  let ?d = "doublings (maxRetryIntervalMs p) (retryIntervalMs p)"
  define k where "k = nat (n - 1)"
  have k: "n = int k + 1" using assms(2) by (simp add: k_def)
  have delay: "retryDelay p (int i + 1) = min (maxRetryIntervalMs p) (retryIntervalMs p * 2 ^ min ?d i)" for i
    by (simp add: retryDelay_def)
  have most: "0 \<le> maxRetryIntervalMs p" using retryDelay_bounds [OF assms(1)] pos by (meson order_trans zero_le_one)
  have double: "min m (2 * min m x) = min m (2 * x)" if "0 \<le> m" for m x :: int
    using that by (simp add: min_def)
  have next_k: "n + 1 = int (Suc k) + 1" by (simp add: k)
  show ?thesis
  proof (cases "k < ?d")
    case True
    then show ?thesis unfolding next_k delay unfolding k delay double [OF most] by (simp add: min_absorb2 algebra_simps)
  next
    case False
    have "maxRetryIntervalMs p \<le> retryIntervalMs p * 2 ^ ?d" by (rule doublings_reach [OF pos])
    then show ?thesis unfolding next_k delay unfolding k delay double [OF most] using False most by (simp add: min_absorb1)
  qed
qed

section \<open>What scheduling leaves\<close>

lemma wd_schedule_entries:
  assumes "wd_schedule p active now s = Inr s'"
  shows "ws_entries s' = ws_entries s"
  using assms by (auto simp: wd_schedule_def Let_def split: if_splits)

lemma wd_schedule_get:
  assumes "wd_schedule p active now s = Inr s'"
  shows "wd_get s' k = wd_get s k" "wd_valid s' = wd_valid s"
  using wd_schedule_entries [OF assms] by (simp_all add: wd_defs)

lemma fold_min: "xs \<noteq> [] \<Longrightarrow> fold min (tl xs) (hd xs) = Min (set xs)" for xs :: "int list"
  using Min.set_eq_fold [of "hd xs" "tl xs"] by (cases xs) simp_all

lemma set_map_filter: "set (List.map_filter f xs) = {y. \<exists>x\<in>set xs. f x = Some y}"
  by (induction xs) (auto simp: List.map_filter_simps split: option.splits)

lemma wd_schedule_wake:
  assumes "wd_schedule p active now s = Inr s'"
  shows "(\<forall>k e. (k, e) \<in> set (ws_entries s) \<longrightarrow> wake_time p active now (k, e) = None) \<and> wake_get (ws_scheduler s') ''watchdog'' = None \<or>
    (\<exists>w. wake_get (ws_scheduler s') ''watchdog'' = Some w \<and> sw_generation w = ss_generation (ws_scheduler s) + 1 \<and>
      sw_nextWakeAt w = sw_dueAt w \<and>
      (\<exists>k e. (k, e) \<in> set (ws_entries s) \<and> wake_time p active now (k, e) = Some (sw_dueAt w)) \<and>
      (\<forall>k e t. (k, e) \<in> set (ws_entries s) \<longrightarrow> wake_time p active now (k, e) = Some t \<longrightarrow> sw_dueAt w \<le> t))"
proof (cases "List.map_filter (wake_time p active now) (ws_entries s) = []")
  case True
  have "wake_time p active now (k, e) = None" if "(k, e) \<in> set (ws_entries s)" for k e
  proof (rule ccontr)
    assume "wake_time p active now (k, e) \<noteq> None"
    then obtain t where "wake_time p active now (k, e) = Some t" by auto
    with that have "t \<in> set (List.map_filter (wake_time p active now) (ws_entries s))" by (auto simp: set_map_filter)
    with True show False by simp
  qed
  moreover have "wake_get (ws_scheduler s') ''watchdog'' = None"
    using True assms by (auto simp: wd_schedule_def cancelWake_def)
  ultimately show ?thesis by blast
next
  case False
  let ?times = "List.map_filter (wake_time p active now) (ws_entries s)"
  from assms False obtain sch where sch: "scheduleWake (watchdog_wake (Min (set ?times))) (ws_scheduler s) = Inr sch" "s' = s\<lparr>ws_scheduler := sch\<rparr>"
    by (auto simp: wd_schedule_def Let_def fold_min)
  then obtain w where w: "wake_get sch ''watchdog'' = Some w" "sw_generation w = ss_generation (ws_scheduler s) + 1"
    "sw_dueAt w = Min (set ?times)" "sw_nextWakeAt w = sw_dueAt w"
    by (auto simp: scheduleWake_def allocateGeneration_def Let_def wake_put_store watchdog_wake_def split: if_splits)
  have "Min (set ?times) \<in> set ?times" using False by (intro Min_in) auto
  then have "\<exists>k e. (k, e) \<in> set (ws_entries s) \<and> wake_time p active now (k, e) = Some (sw_dueAt w)"
    unfolding w(3) by (auto simp: set_map_filter)
  moreover have "sw_dueAt w \<le> t" if "(k, e) \<in> set (ws_entries s)" "wake_time p active now (k, e) = Some t" for k e t
    unfolding w(3) using that by (intro Min_le finite_set) (auto simp: set_map_filter)
  ultimately show ?thesis using w sch(2) by auto
qed

section \<open>Interleaved transactions\<close>

text \<open>
  The stores any interleaving of the watchdog's transactions reaches, each at any time and with any
  attempts in flight. The trace remembers, newest first, when an attempt was charged to a key
  (\<open>True\<close>) and when the key's budget was renewed, created or deleted (\<open>False\<close>).
\<close>

definition renewed :: "string \<Rightarrow> watchdog_store \<Rightarrow> watchdog_store \<Rightarrow> (string \<times> bool) list" where
  "renewed key s s' = (if map_option budget (wd_get s key) = map_option budget (wd_get s' key) then [] else [(key, False)])"

inductive watchdog_reaches :: "watchdog_env \<Rightarrow> watchdog_store \<Rightarrow> (string \<times> bool) list \<Rightarrow> bool" for env where
  wd_empty: "watchdog_reaches env \<lparr>ws_scheduler = scheduler_empty, ws_entries = []\<rparr> []"
| wd_admitted: "watchdog_reaches env s tr \<Longrightarrow> admit env active now target cursor admission expired s = Inr s' \<Longrightarrow>
    watchdog_reaches env s' (renewed (watchdogKey target) s s' @ tr)"
| wd_renewed: "watchdog_reaches env s tr \<Longrightarrow> resetBudget env active now target version s = Inr s' \<Longrightarrow>
    watchdog_reaches env s' (renewed (watchdogKey target) s s' @ tr)"
| wd_charged: "watchdog_reaches env s tr \<Longrightarrow> wd_claim env active now key entry s = Inr (Some covered, s') \<Longrightarrow>
    watchdog_reaches env s' ((key, True) # tr)"
| wd_uncharged: "watchdog_reaches env s tr \<Longrightarrow> wd_claim env active now key entry s = Inr (None, s') \<Longrightarrow>
    watchdog_reaches env s' tr"
| wd_finished: "watchdog_reaches env s tr \<Longrightarrow> wd_finish env active now key covered result charged s = Inr s' \<Longrightarrow>
    watchdog_reaches env s' (renewed key s s' @ tr)"

text \<open>The attempts charged to a key since its budget was last renewed.\<close>

definition charges :: "string \<Rightarrow> (string \<times> bool) list \<Rightarrow> nat" where
  "charges key tr = length (takeWhile snd (filter (\<lambda>(k, _). k = key) tr))"

lemma charges_Nil [simp]: "charges key [] = 0"
  by (simp add: charges_def)

lemma charges_Cons [simp]: "charges key ((k, b) # tr) = (if k = key then if b then Suc (charges key tr) else 0 else charges key tr)"
  by (simp add: charges_def)

lemma charges_renewed [simp]:
  "charges key (renewed k s s' @ tr) = (if k = key \<and> map_option budget (wd_get s k) \<noteq> map_option budget (wd_get s' k) then 0 else charges key tr)"
  by (simp add: renewed_def)

definition entry_ok :: "watchdog_policy \<Rightarrow> string \<Rightarrow> watchdog_entry \<Rightarrow> bool" where
  "entry_ok p k e \<longleftrightarrow> watchdogKey (we_target e) = k \<and> 0 \<le> we_attempts e \<and> we_attempts e \<le> maxAttempts p \<and>
     0 \<le> we_consecutiveNoProgress e \<and> we_consecutiveNoProgress e \<le> maxNoProgressAttempts p \<and>
     we_generation e \<ge> 1 \<and> budget e \<ge> 0 \<and> (we_status e = Blocked \<longleftrightarrow> we_nextWakeAt e = None)"

definition watchdog_ok :: "watchdog_env \<Rightarrow> watchdog_store \<Rightarrow> (string \<times> bool) list \<Rightarrow> bool" where
  "watchdog_ok env s tr \<longleftrightarrow> wd_valid s \<and>
     (\<forall>k e. wd_get s k = Some e \<longrightarrow> entry_ok (wv_policy env) k e \<and> we_attempts e = int (charges k tr)) \<and>
     (\<forall>k. wd_get s k = None \<longrightarrow> charges k tr = 0)"

text \<open>Changing one entry, with the trace of that change.\<close>

lemma watchdog_ok_put:
  assumes ok: "watchdog_ok env s tr" and e: "entry_ok (wv_policy env) k e"
    and keys: "\<And>k'. k' \<noteq> k \<Longrightarrow> charges k' tr' = charges k' tr" and count: "we_attempts e = int (charges k tr')"
    and s': "ws_entries s' = ws_entries (wd_put k e s)"
  shows "watchdog_ok env s' tr'"
proof -
  have get: "wd_get s' k' = (if k' = k then Some e else wd_get s k')" for k'
    using wd.get_put [of k e s k'] s' by (simp add: wd_get_def)
  have "wd_valid s'" using wd.valid_put [of s k e] ok s' by (simp add: wd_valid_def watchdog_ok_def)
  then show ?thesis using ok e count keys unfolding watchdog_ok_def get by (metis option.inject option.distinct(1))
qed

lemma watchdog_ok_delete:
  assumes ok: "watchdog_ok env s tr"
    and keys: "\<And>k'. k' \<noteq> k \<Longrightarrow> charges k' tr' = charges k' tr" and count: "charges k tr' = 0"
    and s': "ws_entries s' = ws_entries (wd_delete k s)"
  shows "watchdog_ok env s' tr'"
proof -
  have get: "wd_get s' k' = (if k' = k then None else wd_get s k')" for k'
    using wd.get_remove [of k s k'] s' by (simp add: wd_get_def)
  have "wd_valid s'" using wd.valid_remove [of s k] ok s' by (simp add: wd_valid_def watchdog_ok_def)
  then show ?thesis using ok count keys unfolding watchdog_ok_def get by (metis option.distinct(1))
qed

lemma watchdog_ok_same:
  assumes "watchdog_ok env s tr" and "ws_entries s' = ws_entries s" and "\<And>k. charges k tr' = charges k tr"
  shows "watchdog_ok env s' tr'"
  using assms by (simp add: watchdog_ok_def wd_defs)

lemma resetBudget_cases:
  assumes "resetBudget env active now target version s = Inr s'"
  obtains (same) "ws_entries s' = ws_entries s"
  | (renewed) cur e where "wd_get s (watchdogKey target) = Some cur" "ws_entries s' = ws_entries (wd_put (watchdogKey target) e s)"
    "we_target e = we_target cur" "we_generation e = we_generation cur + 1" "budget e = budget cur + 1" "we_attempts e = 0"
    "we_consecutiveNoProgress e = 0" "we_status e = Pending" "we_nextWakeAt e = Some now"
proof (cases "wd_get s (watchdogKey target)")
  case None
  with assms same show thesis by (simp add: resetBudget_def)
next
  case (Some cur)
  show thesis
  proof (cases "version \<noteq> None \<and> we_recoveryVersion cur = version")
    case True
    with assms Some same show thesis by (simp add: resetBudget_def)
  next
    case False
    with assms Some have "wd_schedule (wv_policy env) active now (wd_put (watchdogKey target)
      \<lparr>we_target = we_target cur, we_generation = we_generation cur + 1, we_budgetGeneration = Some (budget cur + 1),
          we_recoveryVersion = (case version of None \<Rightarrow> we_recoveryVersion cur | Some v \<Rightarrow> Some v),
          we_progressCursor = we_progressCursor cur, we_attempts = 0, we_consecutiveNoProgress = 0,
          we_nextWakeAt = Some now, we_status = Pending, we_reason = None\<rparr> s) = Inr s'"
      unfolding resetBudget_def by (auto split: if_splits)
    from renewed [OF Some wd_schedule_entries [OF this]] show thesis by (simp add: budget_def)
  qed
qed

lemma get_put_entries: "ws_entries s' = ws_entries (wd_put k e s) \<Longrightarrow> wd_get s' k' = (if k' = k then Some e else wd_get s k')"
  using wd.get_put [of k e s k'] by (simp add: wd_get_def)

lemma resetBudget_ok:
  assumes ok: "watchdog_ok env s tr" and step: "resetBudget env active now target version s = Inr s'"
    and p: "0 \<le> maxAttempts (wv_policy env)" "0 \<le> maxNoProgressAttempts (wv_policy env)"
  shows "watchdog_ok env s' (renewed (watchdogKey target) s s' @ tr)"
  using step
proof (cases rule: resetBudget_cases)
  case same
  then have "renewed (watchdogKey target) s s' = []" by (simp add: renewed_def wd_get_def)
  with same ok show ?thesis by (simp add: watchdog_ok_def wd_defs)
next
  case (renewed cur e)
  have "entry_ok (wv_policy env) (watchdogKey target) cur" using ok renewed(1) by (simp add: watchdog_ok_def)
  with renewed p have e: "entry_ok (wv_policy env) (watchdogKey target) e" by (simp add: entry_ok_def)
  have "charges (watchdogKey target) (renewed (watchdogKey target) s s' @ tr) = 0"
    using renewed(1,5) get_put_entries [OF renewed(2), of "watchdogKey target"] by simp
  with watchdog_ok_put [OF ok e _ _ renewed(2)] renewed(6) show ?thesis by simp
qed

lemma admit_entry_ok:
  assumes "case previous of None \<Rightarrow> True | Some e \<Rightarrow> entry_ok p (watchdogKey target) e"
    and "0 \<le> maxAttempts p" "0 \<le> maxNoProgressAttempts p"
  shows "entry_ok p (watchdogKey target) (admit_entry env now target cursor admission previous)"
    and "we_attempts (admit_entry env now target cursor admission previous) = (case previous of None \<Rightarrow> 0 | Some e \<Rightarrow> we_attempts e)"
    and "budget (admit_entry env now target cursor admission previous) = (case previous of None \<Rightarrow> 0 | Some e \<Rightarrow> budget e)"
  using assms by (auto simp: admit_entry_def entry_ok_def budget_def split: option.split)

lemma admit_ok:
  assumes ok: "watchdog_ok env s tr" and step: "admit env active now target cursor admission expired s = Inr s'"
    and p: "0 \<le> maxAttempts (wv_policy env)" "0 \<le> maxNoProgressAttempts (wv_policy env)"
  shows "watchdog_ok env s' (renewed (watchdogKey target) s s' @ tr)"
proof -
  let ?k = "watchdogKey target"
  obtain s1 where s1: "watchdog_ok env s1 (renewed ?k s s1 @ tr)"
    and put: "ws_entries s' = ws_entries (wd_put ?k (admit_entry env now target cursor admission (wd_get s1 ?k)) s1)"
    and keep: "wd_get s ?k = None \<longleftrightarrow> wd_get s1 ?k = None"
  proof (cases "\<exists>previous. wd_get s ?k = Some previous \<and> expired \<and> we_status previous = Blocked")
    case True
    then obtain previous where previous: "wd_get s ?k = Some previous" "expired" "we_status previous = Blocked" by blast
    with step obtain s1 where s1: "resetBudget env active now target None s = Inr s1"
      "wd_schedule (wv_policy env) active now (wd_put ?k (admit_entry env now target cursor admission (wd_get s1 ?k)) s1) = Inr s'"
      by (auto simp: admit_def)
    have "wd_get s1 ?k \<noteq> None"
      using s1(1) previous(1) get_put_entries by (cases rule: resetBudget_cases) (auto simp: wd_get_def)
    with that [OF resetBudget_ok [OF ok s1(1) p] wd_schedule_entries [OF s1(2)]] previous(1) show thesis by simp
  next
    case False
    with step have "wd_schedule (wv_policy env) active now (wd_put ?k (admit_entry env now target cursor admission (wd_get s ?k)) s) = Inr s'"
      by (auto simp: admit_def split: option.splits if_splits)
    from that [OF _ wd_schedule_entries [OF this]] ok show thesis by (simp add: renewed_def)
  qed
  let ?e = "admit_entry env now target cursor admission (wd_get s1 ?k)"
  have prev: "case wd_get s1 ?k of None \<Rightarrow> True | Some e \<Rightarrow> entry_ok (wv_policy env) ?k e"
    using s1 by (auto simp: watchdog_ok_def split: option.split)
  note e = admit_entry_ok [OF prev p, of env now cursor admission]
  have budgets: "map_option budget (wd_get s' ?k) = Some (case wd_get s1 ?k of None \<Rightarrow> 0 | Some e \<Rightarrow> budget e)"
    using get_put_entries [OF put, of ?k] e(3) by simp
  have count: "we_attempts ?e = int (charges ?k (renewed ?k s s' @ tr))"
  proof (cases "wd_get s1 ?k")
    case None
    with keep budgets have "charges ?k (renewed ?k s s' @ tr) = 0" by auto
    with None e(2) show ?thesis by simp
  next
    case (Some e1)
    have e1: "we_attempts e1 = int (charges ?k (renewed ?k s s1 @ tr))" using s1 Some by (simp add: watchdog_ok_def)
    have same: "map_option budget (wd_get s' ?k) = map_option budget (wd_get s1 ?k)" using budgets Some by simp
    have "charges ?k (renewed ?k s s' @ tr) = charges ?k (renewed ?k s s1 @ tr)" unfolding charges_renewed same ..
    with Some e(2) e1 show ?thesis by simp
  qed
  show ?thesis by (rule watchdog_ok_put [OF s1 e(1) _ count put]) simp
qed

lemma claim_cases:
  assumes "wd_claim env active now key entry s = Inr (c, s')"
  obtains (passed) "c = None" "ws_entries s' = ws_entries s"
  | (exhausted) latest where "c = None" "wd_get s key = Some latest" "we_status latest = Pending"
    "ws_entries s' = ws_entries (wd_put key (latest\<lparr>we_status := Blocked, we_nextWakeAt := None, we_reason := Some ''Recovery budget exhausted''\<rparr>) s)"
  | (charged) latest nxt where "c = Some nxt" "wd_get s key = Some latest" "we_status latest = Pending"
    "we_attempts latest < maxAttempts (wv_policy env)" "we_consecutiveNoProgress latest < maxNoProgressAttempts (wv_policy env)"
    "nxt = latest\<lparr>we_attempts := we_attempts latest + 1, we_consecutiveNoProgress := we_consecutiveNoProgress latest + 1,
       we_nextWakeAt := Some (now + attemptTimeoutMs (wv_policy env))\<rparr>"
    "ws_entries s' = ws_entries (wd_put key nxt s)" "budget latest = budget entry"
    "\<exists>t. we_nextWakeAt latest = Some t \<and> t \<le> now"
proof -
  let ?p = "wv_policy env"
  consider (a) "wd_get s key = None"
    | (b) latest where "wd_get s key = Some latest" "budget latest \<noteq> budget entry \<or> (wv_version env \<noteq> None \<and> we_recoveryVersion latest \<noteq> wv_version env) \<or>
        we_status latest \<noteq> Pending \<or> (case we_nextWakeAt latest of None \<Rightarrow> True | Some t \<Rightarrow> t > now)"
    | (c) latest where "wd_get s key = Some latest" "\<not> (budget latest \<noteq> budget entry \<or> (wv_version env \<noteq> None \<and> we_recoveryVersion latest \<noteq> wv_version env))"
        "\<not> (we_status latest \<noteq> Pending \<or> (case we_nextWakeAt latest of None \<Rightarrow> True | Some t \<Rightarrow> t > now))"
        "we_attempts latest \<ge> maxAttempts ?p \<or> we_consecutiveNoProgress latest \<ge> maxNoProgressAttempts ?p"
    | (d) latest where "wd_get s key = Some latest" "\<not> (budget latest \<noteq> budget entry \<or> (wv_version env \<noteq> None \<and> we_recoveryVersion latest \<noteq> wv_version env))"
        "\<not> (we_status latest \<noteq> Pending \<or> (case we_nextWakeAt latest of None \<Rightarrow> True | Some t \<Rightarrow> t > now))"
        "\<not> (we_attempts latest \<ge> maxAttempts ?p \<or> we_consecutiveNoProgress latest \<ge> maxNoProgressAttempts ?p)"
    by (cases "wd_get s key") blast+
  then show thesis
  proof cases
    case a
    with assms have "wd_schedule ?p active now s = Inr s'" "c = None" by (auto simp: wd_claim_def Let_def)
    with passed wd_schedule_entries show thesis by blast
  next
    case (b latest)
    with assms have "wd_schedule ?p active now s = Inr s'" "c = None"
      by (auto simp: wd_claim_def Let_def split: if_splits)
    with passed wd_schedule_entries show thesis by blast
  next
    case (c latest)
    with assms have "wd_schedule ?p active now (wd_put key (latest\<lparr>we_status := Blocked, we_nextWakeAt := None,
        we_reason := Some ''Recovery budget exhausted''\<rparr>) s) = Inr s'" "c = None"
      unfolding wd_claim_def Let_def c(1) option.case if_not_P [OF c(2)] if_not_P [OF c(3)] if_P [OF c(4)] by auto
    note step = this
    have "we_status latest = Pending" using c(3) by blast
    from exhausted [OF step(2) c(1) this wd_schedule_entries [OF step(1)]] show thesis .
  next
    case (d latest)
    with assms have step: "wd_schedule ?p active now (wd_put key (latest\<lparr>we_attempts := we_attempts latest + 1,
        we_consecutiveNoProgress := we_consecutiveNoProgress latest + 1, we_nextWakeAt := Some (now + attemptTimeoutMs ?p)\<rparr>) s) = Inr s'"
      "c = Some (latest\<lparr>we_attempts := we_attempts latest + 1,
        we_consecutiveNoProgress := we_consecutiveNoProgress latest + 1, we_nextWakeAt := Some (now + attemptTimeoutMs ?p)\<rparr>)"
      unfolding wd_claim_def Let_def d(1) option.case if_not_P [OF d(2)] if_not_P [OF d(3)] if_not_P [OF d(4)] by auto
    have "\<exists>t. we_nextWakeAt latest = Some t \<and> t \<le> now" using d(3) by (cases "we_nextWakeAt latest") auto
    moreover have "we_status latest = Pending" "we_attempts latest < maxAttempts ?p"
      "we_consecutiveNoProgress latest < maxNoProgressAttempts ?p" "budget latest = budget entry"
      using d(2,3,4) by (simp_all add: not_le)
    ultimately show thesis using charged [OF step(2) d(1) _ _ _ refl wd_schedule_entries [OF step(1)]] by blast
  qed
qed

lemma claim_ok:
  assumes ok: "watchdog_ok env s tr" and step: "wd_claim env active now key entry s = Inr (c, s')"
  shows "watchdog_ok env s' (if c = None then tr else (key, True) # tr)"
  using step
proof (cases rule: claim_cases)
  case passed
  with ok show ?thesis by (simp add: watchdog_ok_def wd_defs)
next
  case (exhausted latest)
  have l: "entry_ok (wv_policy env) key latest" "we_attempts latest = int (charges key tr)"
    using ok exhausted(2) by (auto simp: watchdog_ok_def)
  then have "entry_ok (wv_policy env) key (latest\<lparr>we_status := Blocked, we_nextWakeAt := None, we_reason := Some ''Recovery budget exhausted''\<rparr>)"
    by (simp add: entry_ok_def budget_def)
  from watchdog_ok_put [OF ok this _ _ exhausted(4)] l(2) exhausted(1) show ?thesis by simp
next
  case (charged latest nxt)
  have l: "entry_ok (wv_policy env) key latest" "we_attempts latest = int (charges key tr)"
    using ok charged(2) by (auto simp: watchdog_ok_def)
  then have "entry_ok (wv_policy env) key nxt"
    unfolding charged(6) using charged(3-5) by (simp add: entry_ok_def budget_def)
  from watchdog_ok_put [OF ok this _ _ charged(7), of "(key, True) # tr"] l(2) charged(1,6) show ?thesis by simp
qed

lemma finish_entry_keeps:
  assumes "finish_entry p now covered result charged current = Some e" and "entry_ok p k current" and "we_status current \<noteq> Blocked"
  shows "entry_ok p k e" "we_attempts e = we_attempts current" "budget e = budget current" "we_generation e = we_generation current"
  using assms by (auto simp: finish_entry_def Let_def entry_ok_def budget_def split: recovery_exit.splits if_splits)

lemma wd_finish_ok:
  assumes ok: "watchdog_ok env s tr" and step: "wd_finish env active now key covered result charged s = Inr s'"
  shows "watchdog_ok env s' (renewed key s s' @ tr)"
proof (cases "\<exists>current. wd_get s key = Some current \<and> we_status current \<noteq> Blocked \<and> budget current = budget covered")
  case False
  with step have "wd_schedule (wv_policy env) active now s = Inr s'" by (auto simp: wd_finish_def split: option.splits if_splits)
  note entries = wd_schedule_entries [OF this]
  then have "renewed key s s' = []" by (simp add: renewed_def wd_get_def)
  with entries ok show ?thesis by (simp add: watchdog_ok_def wd_defs)
next
  case True
  then obtain current where current: "wd_get s key = Some current" "we_status current \<noteq> Blocked" "budget current = budget covered" by blast
  have l: "entry_ok (wv_policy env) key current" "we_attempts current = int (charges key tr)"
    using ok current(1) by (auto simp: watchdog_ok_def)
  show ?thesis
  proof (cases "finish_entry (wv_policy env) now covered result charged current")
    case None
    with step current have "wd_schedule (wv_policy env) active now (wd_delete key s) = Inr s'" by (simp add: wd_finish_def)
    note entries = wd_schedule_entries [OF this]
    have "wd_get s' key = None" using wd.get_remove_same [of key s] entries by (simp add: wd_get_def)
    with current(1) show ?thesis by (intro watchdog_ok_delete [OF ok _ _ entries]) simp_all
  next
    case (Some e)
    with step current have "wd_schedule (wv_policy env) active now (wd_put key e s) = Inr s'" by (simp add: wd_finish_def)
    note entries = wd_schedule_entries [OF this]
    note e = finish_entry_keeps [OF Some l(1) current(2)]
    from e current(1) l(2) show ?thesis
      by (intro watchdog_ok_put [OF ok e(1) _ _ entries]) (simp_all add: get_put_entries [OF entries])
  qed
qed

lemma watchdog_reaches_ok:
  assumes "watchdog_reaches env s tr" and p: "0 \<le> maxAttempts (wv_policy env)" "0 \<le> maxNoProgressAttempts (wv_policy env)"
  shows "watchdog_ok env s tr"
  using assms(1)
proof (induction rule: watchdog_reaches.induct)
  case wd_empty
  show ?case by (simp add: watchdog_ok_def wd_defs)
next
  case (wd_admitted s tr active now target cursor admission expired s')
  then show ?case by (intro admit_ok [OF _ _ p])
next
  case (wd_renewed s tr active now target version s')
  then show ?case by (intro resetBudget_ok [OF _ _ p])
next
  case (wd_charged s tr active now key entry covered s')
  from claim_ok [OF wd_charged(3,2)] show ?case by simp
next
  case (wd_uncharged s tr active now key entry s')
  from claim_ok [OF wd_uncharged(3,2)] show ?case by simp
next
  case (wd_finished s tr active now key covered result charged s')
  then show ?case by (intro wd_finish_ok)
qed

end
