(* ===== verification/RecoveryProperties.thy ===== *)
theory RecoveryProperties
  imports Watchdog
begin

text \<open>
  The properties of durable wakes and of the watchdog's recovery budgets.
\<close>

section \<open>Wakes\<close>

definition demo_policy :: scheduler_policy where
  "demo_policy = DEFAULT_SCHEDULER_POLICY"

definition demo_wake :: wake_request where
  "demo_wake = \<lparr>wr_id = ''w'', wr_target = JNull, wr_dueAt = 5\<rparr>"

text \<open>A store with one wake scheduled, claimed at time 7 and scheduled again meanwhile.\<close>

definition demo_scheduled :: scheduler_store where
  "demo_scheduled = snd (projr (schedule demo_wake scheduler_empty))"

definition demo_entry :: scheduled_wake where
  "demo_entry = \<lparr>sw_id = ''w'', sw_target = JNull, sw_dueAt = 5, sw_generation = 1, sw_nextWakeAt = 5\<rparr>"

definition demo_claimed :: scheduler_store where
  "demo_claimed = snd (projr (claim_wake demo_policy 7 demo_entry demo_scheduled))"

definition demo_replaced :: scheduler_store where
  "demo_replaced = snd (projr (schedule demo_wake demo_claimed))"

lemma demo_schedule: "schedule demo_wake scheduler_empty = Inr ((), demo_scheduled)"
  by (simp add: demo_scheduled_def schedule_def transaction_def scheduleWake_def allocateGeneration_def scheduler_empty_def
      max_safe_integer_def demo_wake_def scheduled_wake_ok_def Let_def)

lemma demo_scheduled_get: "wake_get demo_scheduled ''w'' = Some demo_entry"
  by (simp add: demo_scheduled_def schedule_def transaction_def scheduleWake_def allocateGeneration_def scheduler_empty_def
      max_safe_integer_def demo_wake_def scheduled_wake_ok_def Let_def wake_put_store demo_entry_def)

lemma demo_claim: "claim_wake demo_policy 7 demo_entry demo_scheduled = Inr (Some demo_entry, demo_claimed)"
  using demo_scheduled_get
  by (simp add: demo_claimed_def claim_wake_def transaction_def demo_entry_def)

lemma demo_claimed_reaches: "scheduler_reaches demo_policy demo_claimed [demo_entry]"
  by (rule scheduler_reaches.claimed [OF scheduler_reaches.scheduled [OF scheduler_reaches.empty_store demo_schedule] demo_claim])

text \<open>C24. An acknowledgment deletes only what was delivered: over any interleaving of schedules,
  cancellations, claims and acknowledgments, acknowledging a claimed wake removes at most the wake of
  that claim (same identity, target and due time), and only when its delivery succeeded; every other
  wake, a replacement under the same identity included, keeps its entry.\<close>

theorem acknowledgment_exact:
  assumes "scheduler_reaches p s cs" and "w \<in> set cs" and "ack_wake success w s = Inr ((), s')"
  shows "wake_get s' k = wake_get s k \<or>
    (success \<and> k = sw_id w \<and> wake_get s' k = None \<and>
      (\<exists>v. wake_get s k = Some v \<and> sw_generation v = sw_generation w \<and> sw_target v = sw_target w \<and> sw_dueAt v = sw_dueAt w))"
proof (cases "success \<and> map_option sw_generation (wake_get s (sw_id w)) = Some (sw_generation w)")
  case True
  then obtain v where v: "wake_get s (sw_id w) = Some v" "sw_generation v = sw_generation w" by auto
  then have "sw_target w = sw_target v \<and> sw_dueAt w = sw_dueAt v"
    using scheduler_reaches_ok [OF assms(1)] assms(2) unfolding scheduler_ok_def by metis
  with True v assms(3) show ?thesis by (auto simp: ack_result sql.get_remove)
next
  case False
  with assms(3) show ?thesis unfolding ack_result by (simp only: if_False) simp
qed

theorem acknowledgment_exact_witness:
  "scheduler_reaches demo_policy demo_claimed [demo_entry] \<and>
    (\<exists>s'. ack_wake True demo_entry demo_claimed = Inr ((), s') \<and> (wake_get s' ''w'' = wake_get demo_claimed ''w'' \<or> wake_get s' ''w'' = None))"
  using acknowledgment_exact [OF demo_claimed_reaches, of demo_entry True _ "''w''"] demo_claimed_reaches
  by (auto simp: ack_result)

text \<open>C34. No wake is lost: in any reachable store the physical alarm is set, no later than the next
  wake time of each entry, and it is clear when there is none; and a claimed wake whose delivery fails
  is still there after its acknowledgment, unless another transaction replaced or cancelled it.\<close>

theorem wakes_retained:
  assumes "scheduler_reaches p s cs"
  shows "(wake_get s k = Some w \<longrightarrow> (\<exists>t. ss_alarm s = Some t \<and> t \<le> sw_nextWakeAt w)) \<and>
    ((\<forall>k. wake_get s k = None) \<longrightarrow> ss_alarm s = None) \<and>
    (claim_wake p now entry s = Inr (Some c, s1) \<longrightarrow> ack_wake False c s1 = Inr ((), s2) \<longrightarrow>
      wake_get s2 (sw_id c) = Some (c\<lparr>sw_nextWakeAt := now + deliveryRetryMs p\<rparr>))"
proof (intro conjI impI)
  have ok: "wakes_valid s" "alarm_synced s" using scheduler_reaches_ok [OF assms] by (simp_all add: scheduler_ok_def)
  { assume "wake_get s k = Some w"
    then have mem: "(k, w) \<in> set (ss_wakes s)" using sql.entries_iff [OF ok(1), of k w] by (simp add: wake_list_def)
    then have "Min ((sw_nextWakeAt \<circ> snd) ` set (ss_wakes s)) \<le> sw_nextWakeAt w"
      by (intro Min_le) (force simp: image_iff)+
    with mem ok(2) show "\<exists>t. ss_alarm s = Some t \<and> t \<le> sw_nextWakeAt w" by (auto simp: alarm_synced_def) }
  { assume "\<forall>k. wake_get s k = None"
    then have "kw \<notin> set (wake_list s)" for kw using sql.entries_iff [OF ok(1)] by (cases kw) simp
    then have "wake_list s = []" by (metis list.set_intros(1) neq_Nil_conv)
    with ok(2) show "ss_alarm s = None" by (simp add: alarm_synced_def wake_list_def) }
  { assume steps: "claim_wake p now entry s = Inr (Some c, s1)" "ack_wake False c s1 = Inr ((), s2)"
    then have c: "wake_get s (sw_id entry) = Some c" "s1 = schedulerAlarm (wake_put (c\<lparr>sw_nextWakeAt := now + deliveryRetryMs p\<rparr>) s)"
      by (auto simp: claim_result split: option.splits if_splits)
    then show "wake_get s2 (sw_id c) = Some (c\<lparr>sw_nextWakeAt := now + deliveryRetryMs p\<rparr>)"
      using steps(2) by (simp add: ack_result wake_put_store) }
qed

lemma demo_claimed_get: "wake_get demo_claimed ''w'' = Some (demo_entry\<lparr>sw_nextWakeAt := 1007\<rparr>)"
proof -
  have w: "sw_id demo_entry = ''w''" by (simp add: demo_entry_def)
  have c: "demo_claimed = schedulerAlarm (wake_put (demo_entry\<lparr>sw_nextWakeAt := 7 + deliveryRetryMs demo_policy\<rparr>) demo_scheduled)"
    using demo_claim by (simp add: claim_result w demo_scheduled_get split: if_splits)
  show ?thesis unfolding c by (simp add: wake_put_store demo_policy_def DEFAULT_SCHEDULER_POLICY_def w)
qed

theorem wakes_retained_witness:
  "scheduler_reaches demo_policy demo_claimed [demo_entry] \<and> (\<exists>t. ss_alarm demo_claimed = Some t \<and> t \<le> 1007)"
  using wakes_retained [OF demo_claimed_reaches, of "''w''" "demo_entry\<lparr>sw_nextWakeAt := 1007\<rparr>"] demo_claimed_reaches demo_claimed_get
  by simp

section \<open>Recovery budgets\<close>

definition demo_env :: watchdog_env where
  "demo_env = \<lparr>wv_policy = DEFAULT_WATCHDOG_POLICY, wv_version = None\<rparr>"

definition demo_target :: watchdog_target where
  "demo_target = \<lparr>wt_actor = ''agent'', wt_instance = ''one'', wt_thread = None\<rparr>"

definition watchdog_empty :: watchdog_store where
  "watchdog_empty = \<lparr>ws_scheduler = scheduler_empty, ws_entries = []\<rparr>"

definition demo_admitted :: watchdog_store where
  "demo_admitted = projr (admit demo_env Map.empty 10 demo_target 0 True False watchdog_empty)"

lemma demo_policy_ok: "watchdogPolicy DEFAULT_WATCHDOG_POLICY = Inr DEFAULT_WATCHDOG_POLICY"
  by code_simp

lemma demo_admit: "admit demo_env Map.empty 10 demo_target 0 True False watchdog_empty = Inr demo_admitted"
  by (simp add: demo_admitted_def admit_def watchdog_empty_def wd_defs wd_schedule_def admit_entry_def demo_env_def
      List.map_filter_simps wake_time_def scheduleWake_def allocateGeneration_def scheduler_empty_def max_safe_integer_def
      watchdog_wake_def scheduled_wake_ok_def Let_def)

lemma demo_admitted_reaches: "watchdog_reaches demo_env demo_admitted (renewed (watchdogKey demo_target) watchdog_empty demo_admitted @ [])"
  by (rule wd_admitted [OF wd_empty [folded watchdog_empty_def] demo_admit])

lemma demo_admitted_get:
  "wd_get demo_admitted (watchdogKey demo_target) = Some \<lparr>we_target = demo_target, we_generation = 1, we_budgetGeneration = None,
     we_recoveryVersion = None, we_progressCursor = 0, we_attempts = 0, we_consecutiveNoProgress = 0, we_nextWakeAt = Some 10,
     we_status = Pending, we_reason = None\<rparr>"
  by (simp add: demo_admitted_def admit_def watchdog_empty_def wd_defs wd_schedule_def admit_entry_def demo_env_def
      List.map_filter_simps wake_time_def scheduleWake_def allocateGeneration_def scheduler_empty_def max_safe_integer_def
      watchdog_wake_def scheduled_wake_ok_def Let_def)

text \<open>C7. Recovery attempts are bounded: over any interleaving of admissions, claims, completions (stale
  ones included) and renewals, an entry's attempt count is the number of attempts charged to it since
  its budget was last renewed, which never exceeds the policy's maximum; neither do the attempts
  without progress.\<close>

theorem attempts_bounded:
  assumes "watchdog_reaches env s tr" and "watchdogPolicy (wv_policy env) = Inr (wv_policy env)"
  shows "int (charges k tr) \<le> maxAttempts (wv_policy env) \<and>
    (wd_get s k = Some e \<longrightarrow> we_attempts e = int (charges k tr) \<and> 0 \<le> we_consecutiveNoProgress e \<and>
      we_consecutiveNoProgress e \<le> maxNoProgressAttempts (wv_policy env) \<and> (we_status e = Blocked \<longleftrightarrow> we_nextWakeAt e = None))"
proof -
  have p: "0 \<le> maxAttempts (wv_policy env)" "0 \<le> maxNoProgressAttempts (wv_policy env)"
    using assms(2) by (auto simp: watchdogPolicy_def positive_safe_def split: if_splits)
  have ok: "watchdog_ok env s tr" by (rule watchdog_reaches_ok [OF assms(1) p])
  have "int (charges k tr) \<le> maxAttempts (wv_policy env)"
  proof (cases "wd_get s k")
    case None
    with ok p show ?thesis by (simp add: watchdog_ok_def)
  next
    case (Some e)
    with ok have "entry_ok (wv_policy env) k e \<and> we_attempts e = int (charges k tr)" by (simp add: watchdog_ok_def)
    then show ?thesis by (simp add: entry_ok_def)
  qed
  with ok show ?thesis by (auto simp: watchdog_ok_def entry_ok_def)
qed

theorem attempts_bounded_witness:
  "watchdog_reaches demo_env demo_admitted (renewed (watchdogKey demo_target) watchdog_empty demo_admitted @ []) \<and>
    int (charges (watchdogKey demo_target) (renewed (watchdogKey demo_target) watchdog_empty demo_admitted @ [])) \<le> 20"
proof -
  have policy: "watchdogPolicy (wv_policy demo_env) = Inr (wv_policy demo_env)" by (simp add: demo_env_def demo_policy_ok)
  have "maxAttempts (wv_policy demo_env) = 20" by (simp add: demo_env_def DEFAULT_WATCHDOG_POLICY_def)
  with attempts_bounded [OF demo_admitted_reaches policy] demo_admitted_reaches show ?thesis by metis
qed

text \<open>Only a renewal unblocks: claims, completions and admissions without expiry leave a blocked
  entry blocked with no wake time, and every attempt granted was pending, due and within its budget.\<close>

theorem blocked_until_renewed:
  assumes "wd_get s key = Some e" and "we_status e = Blocked" and "we_nextWakeAt e = None"
  shows "(wd_claim env active now k entry s = Inr (c, s') \<longrightarrow> wd_get s' key = Some e \<and> (k = key \<longrightarrow> c = None)) \<and>
    (wd_finish env active now k covered result charged s = Inr s' \<longrightarrow> wd_get s' key = Some e) \<and>
    (admit env active now target cursor admission False s = Inr s' \<longrightarrow>
      (\<exists>e'. wd_get s' key = Some e' \<and> we_status e' = Blocked \<and> we_nextWakeAt e' = None))"
proof (intro conjI impI)
  { assume "wd_claim env active now k entry s = Inr (c, s')"
    then have "wd_get s' key = Some e \<and> (k = key \<longrightarrow> c = None)"
    proof (cases rule: claim_cases)
      case passed
      with assms(1) show ?thesis by (simp add: wd_get_def)
    next
      case (exhausted latest)
      with assms have "k \<noteq> key" by auto
      with exhausted(1) get_put_entries [OF exhausted(4), of key] assms(1) show ?thesis by simp
    next
      case (charged latest nxt)
      with assms have "k \<noteq> key" by auto
      with get_put_entries [OF charged(7), of key] assms(1) show ?thesis by simp
    qed }
  then show "wd_claim env active now k entry s = Inr (c, s') \<Longrightarrow> wd_get s' key = Some e"
    "wd_claim env active now k entry s = Inr (c, s') \<Longrightarrow> k = key \<Longrightarrow> c = None" by blast+
next
  assume step: "wd_finish env active now k covered result charged s = Inr s'"
  show "wd_get s' key = Some e"
  proof (cases "k = key")
    case True
    with step assms have "wd_schedule (wv_policy env) active now s = Inr s'" by (simp add: wd_finish_def)
    with wd_schedule_get(1) assms(1) show ?thesis by simp
  next
    case False
    define s1 where "s1 = (case wd_get s k of None \<Rightarrow> s | Some current \<Rightarrow>
         if we_status current = Blocked \<or> budget current \<noteq> budget covered then s
         else (case finish_entry (wv_policy env) now covered result charged current of
            None \<Rightarrow> wd_delete k s | Some e \<Rightarrow> wd_put k e s))"
    have "wd_get s1 key = wd_get s key"
      using False by (simp add: s1_def wd.get_put wd.get_remove split: option.split)
    moreover have "wd_schedule (wv_policy env) active now s1 = Inr s'" using step by (simp add: wd_finish_def s1_def)
    ultimately show ?thesis using wd_schedule_get(1) assms(1) by simp
  qed
next
  assume "admit env active now target cursor admission False s = Inr s'"
  then have "wd_schedule (wv_policy env) active now
      (wd_put (watchdogKey target) (admit_entry env now target cursor admission (wd_get s (watchdogKey target))) s) = Inr s'"
    by (simp add: admit_def split: option.splits)
  note get = get_put_entries [OF wd_schedule_entries [OF this], of key]
  show "\<exists>e'. wd_get s' key = Some e' \<and> we_status e' = Blocked \<and> we_nextWakeAt e' = None"
    using assms get by (cases "key = watchdogKey target") (auto simp: admit_entry_def)
qed

definition demo_blocked_entry :: watchdog_entry where
  "demo_blocked_entry = \<lparr>we_target = demo_target, we_generation = 4, we_budgetGeneration = None, we_recoveryVersion = None,
     we_progressCursor = 0, we_attempts = 20, we_consecutiveNoProgress = 2, we_nextWakeAt = None, we_status = Blocked,
     we_reason = Some ''Recovery budget exhausted''\<rparr>"

definition demo_blocked :: watchdog_store where
  "demo_blocked = \<lparr>ws_scheduler = scheduler_empty, ws_entries = [(watchdogKey demo_target, demo_blocked_entry)]\<rparr>"

theorem blocked_until_renewed_witness:
  "\<exists>s'. wd_claim demo_env Map.empty 99 (watchdogKey demo_target) demo_blocked_entry demo_blocked = Inr (None, s') \<and>
     wd_get s' (watchdogKey demo_target) = Some demo_blocked_entry"
proof -
  have get: "wd_get demo_blocked (watchdogKey demo_target) = Some demo_blocked_entry" by (simp add: demo_blocked_def wd_get_def)
  have st: "we_status demo_blocked_entry = Blocked" "we_nextWakeAt demo_blocked_entry = None" by (simp_all add: demo_blocked_entry_def)
  have "List.map_filter (wake_time (wv_policy demo_env) Map.empty 99) (ws_entries demo_blocked) = []"
    by (simp add: demo_blocked_def List.map_filter_simps wake_time_def st)
  then obtain t where "wd_schedule (wv_policy demo_env) Map.empty 99 demo_blocked = Inr t" by (simp add: wd_schedule_def)
  then have "wd_claim demo_env Map.empty 99 (watchdogKey demo_target) demo_blocked_entry demo_blocked = Inr (None, t)"
    by (simp add: wd_claim_def get st Let_def)
  then obtain c s' where step: "wd_claim demo_env Map.empty 99 (watchdogKey demo_target) demo_blocked_entry demo_blocked = Inr (c, s')" by blast
  with blocked_until_renewed [OF get st] have "wd_get s' (watchdogKey demo_target) = Some demo_blocked_entry" "c = None" by blast+
  with step show ?thesis by blast
qed

text \<open>A stale completion changes nothing and a completion never swallows newer work: once an entry's
  budget is renewed, finishing an attempt of the old budget leaves it alone; an entry is deleted only
  by a settled recovery that covered its current generation, so an admission that arrives while an
  attempt runs keeps the entry, to be recovered again or blocked with its budget spent.\<close>

theorem completion_fenced:
  assumes "wd_get s key = Some current" and "wd_finish env active now key covered result charged s = Inr s'"
  shows "(budget current \<noteq> budget covered \<longrightarrow> wd_get s' key = Some current) \<and>
    (wd_get s' key = None \<longrightarrow> (\<exists>st. result = Success st \<and> rv_status st = Settled) \<and>
       we_generation current = we_generation covered \<and> budget current = budget covered) \<and>
    (\<forall>st. result = Success st \<longrightarrow> we_generation current \<noteq> we_generation covered \<longrightarrow> we_status current = Pending \<longrightarrow>
       (\<exists>e. wd_get s' key = Some e \<and> we_generation e = we_generation current \<and>
         (we_status e = Pending \<or> we_attempts e \<ge> maxAttempts (wv_policy env) \<or>
          we_consecutiveNoProgress e \<ge> maxNoProgressAttempts (wv_policy env))))"
proof (cases "we_status current = Blocked \<or> budget current \<noteq> budget covered")
  case True
  with assms have "wd_schedule (wv_policy env) active now s = Inr s'" by (auto simp: wd_finish_def)
  with True assms(1) show ?thesis by (auto simp: wd_schedule_get(1))
next
  case False
  let ?next = "finish_entry (wv_policy env) now covered result charged current"
  let ?s1 = "case ?next of None \<Rightarrow> wd_delete key s | Some e \<Rightarrow> wd_put key e s"
  have "wd_schedule (wv_policy env) active now ?s1 = Inr s'" using assms False by (simp add: wd_finish_def)
  then have get: "wd_get s' key = ?next" by (simp add: wd_schedule_get(1) split: option.split)
  have none: "?next = None \<Longrightarrow> (\<exists>st. result = Success st \<and> rv_status st = Settled) \<and> we_generation current = we_generation covered"
    by (auto simp: finish_entry_def Let_def split: recovery_exit.splits if_splits)
  have newer: "\<exists>e. ?next = Some e \<and> we_generation e = we_generation current \<and>
         (we_status e = Pending \<or> we_attempts e \<ge> maxAttempts (wv_policy env) \<or>
          we_consecutiveNoProgress e \<ge> maxNoProgressAttempts (wv_policy env))"
    if "result = Success st" "we_generation current \<noteq> we_generation covered" "we_status current = Pending" for st
    using that by (auto simp: finish_entry_def Let_def)
  show ?thesis unfolding get using none newer False by blast
qed

definition demo_covered :: watchdog_entry where
  "demo_covered = the (wd_get demo_admitted (watchdogKey demo_target))"

definition demo_state :: recovery_state where
  "demo_state = \<lparr>rv_progressCursor = 3, rv_status = Settled, rv_wakeAt = None\<rparr>"

definition demo_done :: watchdog_store where
  "demo_done = projr (wd_finish demo_env Map.empty 20 (watchdogKey demo_target) (demo_covered\<lparr>we_generation := 0\<rparr>) (Success demo_state) True demo_admitted)"

lemma demo_admitted_entries: "ws_entries demo_admitted = [(watchdogKey demo_target, demo_covered)]"
  by (simp add: demo_covered_def demo_admitted_get)
     (simp add: demo_admitted_def admit_def watchdog_empty_def wd_defs wd_schedule_def admit_entry_def demo_env_def
      List.map_filter_simps wake_time_def scheduleWake_def allocateGeneration_def scheduler_empty_def max_safe_integer_def
      watchdog_wake_def scheduled_wake_ok_def Let_def)

lemma demo_admitted_generation: "ss_generation (ws_scheduler demo_admitted) = 1"
  by (simp add: demo_admitted_def admit_def watchdog_empty_def wd_defs wd_schedule_def admit_entry_def demo_env_def
      List.map_filter_simps wake_time_def scheduleWake_def allocateGeneration_def scheduler_empty_def max_safe_integer_def
      watchdog_wake_def scheduled_wake_ok_def Let_def wake_put_def)

lemma demo_schedules: "\<exists>s'. wd_schedule DEFAULT_WATCHDOG_POLICY Map.empty now (wd_put (watchdogKey demo_target) e demo_admitted) = Inr s'"
  by (simp add: wd_schedule_def wd_put_def Let_def scheduleWake_def allocateGeneration_def demo_admitted_generation max_safe_integer_def
      watchdog_wake_def scheduled_wake_ok_def)

theorem completion_fenced_witness:
  "\<exists>s' e. wd_finish demo_env Map.empty 20 (watchdogKey demo_target) (demo_covered\<lparr>we_generation := 0\<rparr>) (Success demo_state) True demo_admitted = Inr s' \<and>
     wd_get s' (watchdogKey demo_target) = Some e \<and> we_generation e = 1"
proof -
  let ?c = "demo_covered\<lparr>we_generation := 0\<rparr>"
  have get: "wd_get demo_admitted (watchdogKey demo_target) = Some demo_covered" by (simp add: demo_covered_def demo_admitted_get)
  have c: "we_status demo_covered = Pending" "we_generation demo_covered = 1" "budget demo_covered = budget ?c"
    by (simp_all add: demo_covered_def demo_admitted_get budget_def)
  have p: "wv_policy demo_env = DEFAULT_WATCHDOG_POLICY" by (simp add: demo_env_def)
  have "finish_entry DEFAULT_WATCHDOG_POLICY 20 ?c (Success demo_state) True demo_covered \<noteq> None"
    by (simp add: finish_entry_def c Let_def)
  then obtain e where "finish_entry DEFAULT_WATCHDOG_POLICY 20 ?c (Success demo_state) True demo_covered = Some e" by blast
  with demo_schedules [of 20 e] obtain s' where
    step: "wd_finish demo_env Map.empty 20 (watchdogKey demo_target) ?c (Success demo_state) True demo_admitted = Inr s'"
    using c by (auto simp: wd_finish_def get p)
  from completion_fenced [OF get step] c step show ?thesis by auto
qed

text \<open>The retry delay lies between the retry interval and its maximum, never shrinks, and doubles
  with each further failure until the maximum.\<close>

theorem retry_delay_doubles:
  assumes "watchdogPolicy p = Inr p" and "1 \<le> n"
  shows "retryIntervalMs p \<le> retryDelay p n \<and> retryDelay p n \<le> maxRetryIntervalMs p \<and>
    retryDelay p n \<le> retryDelay p (n + 1) \<and> retryDelay p (n + 1) = min (maxRetryIntervalMs p) (2 * retryDelay p n) \<and>
    retryDelay p 1 = retryIntervalMs p"
proof -
  have "retryDelay p 1 = min (maxRetryIntervalMs p) (retryIntervalMs p)" by (simp add: retryDelay_def)
  moreover have "retryIntervalMs p \<le> maxRetryIntervalMs p" using retryDelay_bounds [OF assms(1), of n] by linarith
  ultimately show ?thesis
    using retryDelay_bounds [OF assms(1), of n] retryDelay_mono [OF assms(1), of n "n + 1"] retryDelay_double [OF assms] by simp
qed

theorem retry_delay_doubles_witness:
  "retryDelay DEFAULT_WATCHDOG_POLICY 1 = 1000 \<and> retryDelay DEFAULT_WATCHDOG_POLICY 2 = 2000 \<and>
    retryDelay DEFAULT_WATCHDOG_POLICY 7 \<le> 30000"
proof -
  have "retryIntervalMs DEFAULT_WATCHDOG_POLICY = 1000" "maxRetryIntervalMs DEFAULT_WATCHDOG_POLICY = 30000"
    by (simp_all add: DEFAULT_WATCHDOG_POLICY_def)
  with retry_delay_doubles [OF demo_policy_ok, of 1] retry_delay_doubles [OF demo_policy_ok, of 7] show ?thesis by simp
qed

section \<open>The watchdog's wake\<close>

lemma wd_schedule_generation: "wd_schedule p active now s = Inr s' \<Longrightarrow> ss_generation (ws_scheduler s) \<le> ss_generation (ws_scheduler s')"
  by (auto simp: wd_schedule_def scheduleWake_def allocateGeneration_def cancelWake_def wake_put_store Let_def split: if_splits)

lemma wd_put_scheduler [simp]: "ws_scheduler (wd_put k e s) = ws_scheduler s" "ws_scheduler (wd_delete k s) = ws_scheduler s"
  by (simp_all add: wd_defs)

lemma resetBudget_generation:
  "resetBudget env active now target version s = Inr s' \<Longrightarrow> ss_generation (ws_scheduler s) \<le> ss_generation (ws_scheduler s')"
  by (auto simp: resetBudget_def dest: wd_schedule_generation split: option.splits if_splits)

text \<open>Claims, completions and admissions end by scheduling.\<close>

lemma finish_schedules:
  assumes "wd_finish env active now key covered result charged s = Inr s'"
  obtains s1 where "wd_schedule (wv_policy env) active now s1 = Inr s'" "ss_generation (ws_scheduler s) \<le> ss_generation (ws_scheduler s1)"
  using assms that unfolding wd_finish_def by (force split: option.splits if_splits)

lemma claim_schedules:
  assumes "wd_claim env active now key entry s = Inr (c, s')"
  obtains s1 where "wd_schedule (wv_policy env) active now s1 = Inr s'" "ss_generation (ws_scheduler s) \<le> ss_generation (ws_scheduler s1)"
  using assms that unfolding wd_claim_def Let_def by (force split: option.splits if_splits)

lemma admit_schedules:
  assumes "admit env active now target cursor admission expired s = Inr s'"
  obtains s1 where "wd_schedule (wv_policy env) active now s1 = Inr s'" "ss_generation (ws_scheduler s) \<le> ss_generation (ws_scheduler s1)"
proof -
  from assms obtain s0 where s0: "(case wd_get s (watchdogKey target) of
         Some previous \<Rightarrow> if expired \<and> we_status previous = Blocked then resetBudget env active now target None s else Inr s
       | None \<Rightarrow> Inr s) = Inr s0" "wd_schedule (wv_policy env) active now (wd_put (watchdogKey target)
       (admit_entry env now target cursor admission (wd_get s0 (watchdogKey target))) s0) = Inr s'"
    by (auto simp: admit_def)
  then have "ss_generation (ws_scheduler s) \<le> ss_generation (ws_scheduler s0)"
    by (auto dest: resetBudget_generation split: option.splits if_splits)
  with that [OF s0(2)] show thesis by simp
qed

lemma scheduled_covers:
  assumes sch: "wd_schedule p active now s1 = Inr s'" and ok: "wd_valid s'"
    and wake: "\<forall>k e. wd_get s' k = Some e \<longrightarrow> we_status e = Pending \<longrightarrow> we_nextWakeAt e \<noteq> None"
    and e: "wd_get s' k = Some e" "we_status e = Pending"
  obtains w t where "wake_get (ws_scheduler s') ''watchdog'' = Some w" "we_nextWakeAt e = Some t"
    "sw_nextWakeAt w \<le> (if active k = None then t else now + keepAliveIntervalMs p)"
    "sw_generation w = ss_generation (ws_scheduler s1) + 1"
proof -
  from wake e obtain t where t: "we_nextWakeAt e = Some t" by auto
  have mem: "(k, e) \<in> set (ws_entries s1)"
    using wd.entries_iff [OF ok, of k e] e(1) wd_schedule_entries [OF sch] by simp
  obtain u where u: "wake_time p active now (k, e) = Some u" "u \<le> (if active k = None then t else now + keepAliveIntervalMs p)"
    using t e(2) by (auto simp: wake_time_def split: option.split)
  from wd_schedule_wake [OF sch] mem u(1) obtain w where
    "wake_get (ws_scheduler s') ''watchdog'' = Some w" "sw_generation w = ss_generation (ws_scheduler s1) + 1"
    "sw_nextWakeAt w = sw_dueAt w" "sw_dueAt w \<le> u" by fastforce
  with that t u(2) show thesis by (metis order_trans)
qed

text \<open>C9. Pending recovery is never left without a wake: after an admission, a claim or a completion,
  every pending entry is covered by the watchdog's wake, due no later than the entry's own wake time
  (or the keep-alive interval while an attempt runs), and acknowledging any wake claimed before that
  transaction, even a successful delivery, does not delete it.\<close>

theorem pending_work_wakes:
  assumes "watchdog_reaches env s' tr" and "watchdogPolicy (wv_policy env) = Inr (wv_policy env)"
    and "wd_claim env active now key entry s = Inr (c, s') \<or> wd_finish env active now key covered result charged s = Inr s' \<or>
      admit env active now target cursor admission expired s = Inr s'"
    and "wd_get s' k = Some e" and "we_status e = Pending"
    and "sw_generation old \<le> ss_generation (ws_scheduler s)" and "ack_wake success old (ws_scheduler s') = Inr ((), sch)"
  shows "\<exists>w t. wake_get sch ''watchdog'' = Some w \<and> we_nextWakeAt e = Some t \<and>
    sw_nextWakeAt w \<le> (if active k = None then t else now + keepAliveIntervalMs (wv_policy env))"
proof -
  have p: "0 \<le> maxAttempts (wv_policy env)" "0 \<le> maxNoProgressAttempts (wv_policy env)"
    using assms(2) by (auto simp: watchdogPolicy_def positive_safe_def split: if_splits)
  have ok: "watchdog_ok env s' tr" by (rule watchdog_reaches_ok [OF assms(1) p])
  have wakes: "\<forall>k e. wd_get s' k = Some e \<longrightarrow> we_status e = Pending \<longrightarrow> we_nextWakeAt e \<noteq> None"
    using ok unfolding watchdog_ok_def entry_ok_def by (metis watchdog_status.distinct(1))
  obtain s1 where s1: "wd_schedule (wv_policy env) active now s1 = Inr s'" "ss_generation (ws_scheduler s) \<le> ss_generation (ws_scheduler s1)"
    using assms(3) claim_schedules finish_schedules admit_schedules by metis
  have valid: "wd_valid s'" using ok by (simp add: watchdog_ok_def)
  obtain w t where w: "wake_get (ws_scheduler s') ''watchdog'' = Some w" "we_nextWakeAt e = Some t"
    "sw_nextWakeAt w \<le> (if active k = None then t else now + keepAliveIntervalMs (wv_policy env))"
    "sw_generation w = ss_generation (ws_scheduler s1) + 1"
    by (rule scheduled_covers [OF s1(1) valid wakes assms(4,5)])
  have "sw_generation old \<noteq> sw_generation w" using w(4) s1(2) assms(6) by simp
  then have "wake_get sch ''watchdog'' = Some w"
    using assms(7) w(1) by (auto simp: ack_result sql.get_remove)
  with w show ?thesis by blast
qed

theorem pending_work_wakes_witness:
  "\<exists>sch w. ack_wake True (demo_entry\<lparr>sw_generation := 0\<rparr>) (ws_scheduler demo_admitted) = Inr ((), sch) \<and>
     wake_get sch ''watchdog'' = Some w \<and> sw_nextWakeAt w \<le> 10"
proof -
  have policy: "watchdogPolicy (wv_policy demo_env) = Inr (wv_policy demo_env)" by (simp add: demo_env_def demo_policy_ok)
  let ?old = "demo_entry\<lparr>sw_generation := 0\<rparr>"
  obtain sch where ack: "ack_wake True ?old (ws_scheduler demo_admitted) = Inr ((), sch)" by (simp add: ack_result)
  have get: "wd_get demo_admitted (watchdogKey demo_target) = Some demo_covered" by (simp add: demo_covered_def demo_admitted_get)
  have pending: "we_status demo_covered = Pending" "we_nextWakeAt demo_covered = Some 10"
    by (simp_all add: demo_covered_def demo_admitted_get)
  have "sw_generation ?old \<le> ss_generation (ws_scheduler watchdog_empty)" by simp
  from pending_work_wakes [OF demo_admitted_reaches policy disjI2 [OF disjI2 [OF demo_admit]] get pending(1) this ack]
  have "\<exists>w. wake_get sch ''watchdog'' = Some w \<and> sw_nextWakeAt w \<le> 10" by (simp add: pending(2))
  with ack show ?thesis by blast
qed

end
