(* ===== verification/AgentEvents.thy ===== *)
theory AgentEvents
  imports Complex_Main Events
begin

text \<open>
  The events of the agent (\<open>packages/agent/src/contracts/events.ts\<close>) and the message content they
  carry. Amounts of money and of budgets are exact rationals: a \<open>Schema.Finite\<close> that is not an
  integer is not rounded. An observed core event is represented by the core event it observes.
\<close>

section \<open>Content and messages\<close>

datatype content_part =
    TextPart string
  | FilePart string "string option" "nat option" json

fun content_part_ok :: "content_part \<Rightarrow> bool" where
  "content_part_ok (TextPart _) = True"
| "content_part_ok (FilePart media _ bytes _) = (media \<noteq> [] \<and> (case bytes of None \<Rightarrow> True | Some n \<Rightarrow> safe_integer (int n)))"

record tool_call =
  tk_callId :: string
  tk_name :: string
  tk_input :: json
  tk_providerId :: string

record provider_tool_call =
  pk_callId :: string
  pk_name :: string
  pk_input :: json

record model_usage =
  mu_input :: "nat option"
  mu_output :: "nat option"
  mu_cacheRead :: "nat option"
  mu_cacheWrite :: "nat option"
  mu_usd :: "rat option"

definition token_count_ok :: "nat option \<Rightarrow> bool" where
  "token_count_ok n \<longleftrightarrow> (case n of None \<Rightarrow> True | Some n \<Rightarrow> safe_integer (int n))"

definition model_usage_ok :: "model_usage \<Rightarrow> bool" where
  "model_usage_ok u \<longleftrightarrow> token_count_ok (mu_input u) \<and> token_count_ok (mu_output u) \<and> token_count_ok (mu_cacheRead u) \<and>
     token_count_ok (mu_cacheWrite u) \<and> (case mu_usd u of None \<Rightarrow> True | Some c \<Rightarrow> c \<ge> 0)"

record provider_continuation =
  pc_provider :: string
  pc_protocol :: string
  pc_model :: string
  pc_payload :: json

record model_reply =
  mr_reasoning :: "string option"
  mr_continuation :: "provider_continuation option"
  mr_text :: string
  mr_toolCalls :: "provider_tool_call list"
  mr_usage :: "model_usage option"
  mr_outputErrors :: "string list option"

record model_ref =
  ml_provider :: string
  ml_model_id :: string

definition model_ref_ok :: "model_ref \<Rightarrow> bool" where
  "model_ref_ok m \<longleftrightarrow> ml_provider m \<noteq> [] \<and> ml_model_id m \<noteq> []"

record model_configuration =
  mc_model :: model_ref
  mc_contextWindowTokens :: nat

definition model_configuration_ok :: "model_configuration \<Rightarrow> bool" where
  "model_configuration_ok c \<longleftrightarrow> model_ref_ok (mc_model c) \<and> mc_contextWindowTokens c > 0 \<and> safe_integer (int (mc_contextWindowTokens c))"

section \<open>Permissions and budgets\<close>

record decision =
  dc_allowed :: bool
  dc_reason :: string

datatype permission_mode = Allow | Deny | Ask

record permission_rule =
  pm_default :: "permission_mode option"
  pm_resources :: "(string \<times> permission_mode) list"
  pm_readOnly :: "permission_mode option"

record permission_policy =
  pp_default :: permission_mode
  pp_actions :: "(string \<times> permission_rule) list"

datatype exhausted_mode = WaitExhausted | DenyExhausted

record budget_policy =
  bp_limit :: rat
  bp_requestTool :: "string option"
  bp_onExhausted :: "exhausted_mode option"

definition budget_policy_ok :: "budget_policy \<Rightarrow> bool" where
  "budget_policy_ok p \<longleftrightarrow> bp_limit p \<ge> 0 \<and> bp_requestTool p \<noteq> Some []"

datatype budget_decision = Granted rat | Refused string

fun budget_decision_ok :: "budget_decision \<Rightarrow> bool" where
  "budget_decision_ok (Granted additional) = (additional > 0)"
| "budget_decision_ok (Refused _) = True"

section \<open>Turns\<close>

record invocation_ref =
  iv_method :: string
  iv_id :: string

datatype turn_source = FromUser | FromAgent | FromTool

datatype turn_outcome = Completed | FailedTurn | CancelledTurn

record turn_requested =
  tq_turnId :: string
  tq_text :: string
  tq_content :: "content_part list option"
  tq_invocationRef :: "invocation_ref option"
  tq_source :: "turn_source option"
  tq_promiseRef :: "effect_ref option"
  tq_outcome :: "turn_outcome option"

record tool_called =
  tc_callId :: string
  tc_codeMode :: "string option"
  tc_counted :: bool

record tool_returned =
  tr_callId :: string
  tr_tool :: "(string \<times> string) option"
  tr_turnId :: "string option"
  tr_content :: "content_part list"
  tr_error :: "string option"
  tr_promise :: "(effect_ref \<times> execution_handle) option"

record inference_returned =
  ir_turnId :: "string option"
  ir_callId :: string
  ir_reasoning :: "string option"
  ir_continuation :: "provider_continuation option"
  ir_text :: string
  ir_toolCalls :: "tool_call list"
  ir_usage :: "model_usage option"

record compaction_returned =
  cr_callId :: string
  cr_reasoning :: "string option"
  cr_continuation :: "provider_continuation option"
  cr_text :: string
  cr_usage :: "model_usage option"

record output_rejected =
  or_turnId :: string
  or_callId :: string
  or_contract :: string
  or_text :: string
  or_errors :: "string list"
  or_attempt :: int
  or_maxCorrections :: int

datatype turn_settled =
    CompletedCall string string
  | CompletedOutput string string
  | EndedTurn string turn_outcome string

fun settled_turn :: "turn_settled \<Rightarrow> string" where
  "settled_turn (CompletedCall t _) = t"
| "settled_turn (CompletedOutput t _) = t"
| "settled_turn (EndedTurn t _ _) = t"

fun settled_outcome :: "turn_settled \<Rightarrow> turn_outcome" where
  "settled_outcome (EndedTurn _ out _) = out"
| "settled_outcome _ = Completed"

fun turn_settled_ok :: "turn_settled \<Rightarrow> bool" where
  "turn_settled_ok (EndedTurn _ out _) = (out \<noteq> Completed)"
| "turn_settled_ok _ = True"

datatype agent_event =
    BudgetConfigured string budget_policy
  | BudgetUpdated string budget_policy
  | PermissionConfigured permission_policy
  | PermissionUpdated permission_policy
  | BudgetResolved string string budget_decision
  | PermissionResolved string string decision
  | ToolCalled tool_called
  | ToolReturned tool_returned
  | TurnRequested turn_requested
  | ActorRequestReceived execution_handle json
  | ActorReplyReceived execution_handle string json
  | ModelConfigured model_configuration
  | ModelUpdated model_configuration
  | InferenceCalled model_configuration string string
  | CompactionCalled model_configuration string int "nat option"
  | ModelFailed string string
  | OutputRejected output_rejected
  | AbortRequested invocation_ref string
  | CompactionFailed string string
  | InferenceReturned inference_returned
  | CompactionReturned compaction_returned
  | TurnSettled turn_settled
  | Observed core_event

fun agent_event_ok :: "agent_event \<Rightarrow> bool" where
  "agent_event_ok (BudgetConfigured m p) = (m \<noteq> [] \<and> budget_policy_ok p)"
| "agent_event_ok (BudgetUpdated m p) = (m \<noteq> [] \<and> budget_policy_ok p)"
| "agent_event_ok (BudgetResolved m _ d) = (m \<noteq> [] \<and> budget_decision_ok d)"
| "agent_event_ok (PermissionResolved a r _) = (a \<noteq> [] \<and> r \<noteq> [])"
| "agent_event_ok (ToolCalled c) = (tc_codeMode c \<noteq> Some [])"
| "agent_event_ok (ModelConfigured c) = model_configuration_ok c"
| "agent_event_ok (ModelUpdated c) = model_configuration_ok c"
| "agent_event_ok (InferenceCalled c _ _) = model_configuration_ok c"
| "agent_event_ok (CompactionCalled c _ _ _) = model_configuration_ok c"
| "agent_event_ok (InferenceReturned r) = (case ir_usage r of None \<Rightarrow> True | Some u \<Rightarrow> model_usage_ok u)"
| "agent_event_ok (CompactionReturned r) = (case cr_usage r of None \<Rightarrow> True | Some u \<Rightarrow> model_usage_ok u)"
| "agent_event_ok (TurnSettled s) = turn_settled_ok s"
| "agent_event_ok (Observed e) = core_event_ok e"
| "agent_event_ok _ = True"

definition turnSource :: "turn_requested \<Rightarrow> turn_source" where
  "turnSource e = (case tq_source e of None \<Rightarrow> FromUser | Some s \<Rightarrow> s)"

text \<open>\<open>requestTurn\<close>: \<open>fresh\<close> is the identifier drawn when the input names none.\<close>

definition requestTurn :: "string \<Rightarrow> string \<Rightarrow> string option \<Rightarrow> invocation_ref option \<Rightarrow> turn_requested" where
  "requestTurn fresh message turnId invocationRef =
     \<lparr>tq_turnId = (case turnId of None \<Rightarrow> fresh | Some t \<Rightarrow> t), tq_text = message, tq_content = None,
      tq_invocationRef = invocationRef, tq_source = Some FromUser, tq_promiseRef = None, tq_outcome = None\<rparr>"

definition failureMessage :: "json \<Rightarrow> string" where
  "failureMessage reason = (case reason of JStr s \<Rightarrow> s | _ \<Rightarrow> canonicalInput reason)"

end
