(* ===== verification/Inference.thy ===== *)
theory Inference
  imports AgentEvents
begin

text \<open>
  The inference state of an agent (\<open>packages/agent/src/atoms/durable/inference.ts\<close>) and what the
  inference component proposes from it (\<open>packages/agent/src/atoms/infer.ts\<close>). A reducer branch that
  leaves the array of turns as it was returns \<open>None\<close>.
\<close>

section \<open>State\<close>

record turn_call =
  tl_callId :: string
  tl_returned :: bool

record turn_effect =
  tf_ref :: effect_ref
  tf_pending :: bool

record turn_rejection =
  tj_contract :: string
  tj_errors :: "string list"
  tj_attempt :: int
  tj_maxCorrections :: int

record turn =
  tn_turnId :: string
  tn_invocationRef :: "invocation_ref option"
  tn_settlement :: "turn_outcome option"
  tn_answer :: "string option"
  tn_answerCallId :: "string option"
  tn_rejection :: "turn_rejection option"
  tn_calls :: "turn_call list"
  tn_outstanding :: "string list"
  tn_effects :: "turn_effect list"
  tn_failure :: "string option"
  tn_cancellation :: "string option"

record inference_state =
  is_turns :: "turn list"
  is_turnId :: string
  is_callId :: string
  is_origin :: "nat option"
  is_needsReply :: bool
  is_running :: bool
  is_waiting :: bool

definition initialInference :: inference_state where
  "initialInference = \<lparr>is_turns = [], is_turnId = [], is_callId = ''model::0'', is_origin = None,
     is_needsReply = False, is_running = False, is_waiting = False\<rparr>"

text \<open>\<open>updateTurn\<close> replaces the last turn that matches.\<close>

fun updateTurn :: "(turn \<Rightarrow> bool) \<Rightarrow> (turn \<Rightarrow> turn) \<Rightarrow> turn list \<Rightarrow> turn list option" where
  "updateTurn P f [] = None"
| "updateTurn P f (t # ts) = (case updateTurn P f ts of
     Some ts' \<Rightarrow> Some (t # ts')
   | None \<Rightarrow> if P t then Some (f t # ts) else None)"

definition new_turn :: "turn_requested \<Rightarrow> turn" where
  "new_turn e = \<lparr>tn_turnId = tq_turnId e, tn_invocationRef = tq_invocationRef e, tn_settlement = None, tn_answer = None,
     tn_answerCallId = None, tn_rejection = None, tn_calls = [], tn_outstanding = [], tn_effects = [], tn_failure = None,
     tn_cancellation = None\<rparr>"

definition mark_returned :: "string \<Rightarrow> turn_call list \<Rightarrow> turn_call list" where
  "mark_returned callId calls = map (\<lambda>c. if tl_callId c = callId then c\<lparr>tl_returned := True\<rparr> else c) calls"

definition has_call :: "string \<Rightarrow> turn \<Rightarrow> bool" where
  "has_call callId t \<longleftrightarrow> list_ex (\<lambda>c. tl_callId c = callId) (tn_calls t)"

section \<open>The reducer\<close>

definition DeliverMessage_name :: string where
  "DeliverMessage_name = ''host.message.deliver''"

definition unit_text :: "int \<Rightarrow> string" where
  "unit_text n = (if n = 1 then [] else ''s'')"

definition correction_failure :: "string \<Rightarrow> int \<Rightarrow> string" where
  "correction_failure contract n = ''The response did not satisfy output contract '' @ [CHR 0x22] @ contract @ [CHR 0x22] @
     '' after '' @ int_text n @ '' correction'' @ unit_text n"

text \<open>Whether an observed event ends the work of a turn's effect.\<close>

fun settles_effect :: "core_event \<Rightarrow> runtime_error + effect_ref option" where
  "settles_effect (EffectCancelled e) = Inr (Some (cancel_ref e))"
| "settles_effect (PromiseSettled e) = Inr (Some (ps_ref e))"
| "settles_effect (EffectSettled e) = (case es_outcome e of
     Rejected _ \<Rightarrow> Inr (Some (es_ref e))
   | Fulfilled v \<Rightarrow> try_bind (execution_result_of v) (\<lambda>r. Inr (if is_promise_result r then None else Some (es_ref e))))"
| "settles_effect _ = Inr None"

definition settle_effect :: "effect_ref \<Rightarrow> turn list \<Rightarrow> turn list option" where
  "settle_effect ref turns =
     updateTurn (\<lambda>t. list_ex (\<lambda>w. tf_pending w \<and> tf_ref w = ref) (tn_effects t))
       (\<lambda>t. t\<lparr>tn_effects := map (\<lambda>w. if tf_ref w = ref then w\<lparr>tf_pending := False\<rparr> else w) (tn_effects t)\<rparr>) turns"

fun settle_turn :: "inference_state \<Rightarrow> turn_settled \<Rightarrow> turn \<Rightarrow> runtime_error + turn" where
  "settle_turn st (CompletedCall tid callId) t =
     (if tn_answer t = None \<or> tn_answerCallId t \<noteq> Some callId \<or> is_running st \<or> is_waiting st
      then Inl (Error (''Turn has no final answer: '' @ tid)) else Inr (t\<lparr>tn_settlement := Some Completed\<rparr>))"
| "settle_turn st (CompletedOutput tid output) t =
     (if tn_answer t = None \<or> tn_answer t \<noteq> Some output \<or> is_running st \<or> is_waiting st
      then Inl (Error (''Turn has no final answer: '' @ tid)) else Inr (t\<lparr>tn_settlement := Some Completed\<rparr>))"
| "settle_turn st (EndedTurn tid out reason) t =
     (if tn_outstanding t \<noteq> [] then Inl (Error ''Outstanding tools must settle before ending a turn'')
      else if out = CancelledTurn \<and> (tn_cancellation t = None \<or> list_ex tf_pending (tn_effects t))
      then Inl (Error ''Turn cancellation must drain accepted work before settlement'')
      else Inr (if out = FailedTurn then t\<lparr>tn_settlement := Some out, tn_failure := Some reason\<rparr>
                else if out = CancelledTurn then t\<lparr>tn_settlement := Some out, tn_cancellation := Some reason\<rparr>
                else t\<lparr>tn_settlement := Some out\<rparr>))"

fun infer_turns :: "inference_state \<Rightarrow> agent_event \<Rightarrow> runtime_error + turn list option" where
  "infer_turns st (TurnRequested e) =
     (if list_ex (\<lambda>t. tn_turnId t = tq_turnId e) (is_turns st) then Inl (Error (''Duplicate turn: '' @ tq_turnId e))
      else (case tq_invocationRef e of
         Some ref \<Rightarrow> if list_ex (\<lambda>t. tn_invocationRef t = Some ref) (is_turns st)
           then Inl (Error (''Duplicate turn for invocation: '' @ iv_method ref @ '':'' @ iv_id ref))
           else Inr (Some (is_turns st @ [new_turn e]))
       | None \<Rightarrow> Inr (Some (is_turns st @ [new_turn e]))))"
| "infer_turns st (AbortRequested ref reason) =
     Inr (updateTurn (\<lambda>t. tn_invocationRef t = Some ref \<and> tn_settlement t = None \<and> tn_cancellation t = None)
       (\<lambda>t. t\<lparr>tn_cancellation := Some reason\<rparr>) (is_turns st))"
| "infer_turns st (Observed (EffectRequested e)) =
     Inr (if sr_act (rq_request e) = DeliverMessage_name then None
          else updateTurn (\<lambda>t. tn_turnId t = is_turnId st)
            (\<lambda>t. t\<lparr>tn_effects := tn_effects t @ [\<lparr>tf_ref = rq_ref e, tf_pending = True\<rparr>]\<rparr>) (is_turns st))"
| "infer_turns st (Observed e) =
     try_bind (settles_effect e) (\<lambda>ref. Inr (case ref of None \<Rightarrow> None | Some ref \<Rightarrow> settle_effect ref (is_turns st)))"
| "infer_turns st (InferenceCalled mc turnId callId) =
     (if \<not> is_needsReply st \<or> is_running st \<or> is_waiting st \<or> turnId \<noteq> is_turnId st \<or> callId \<noteq> is_callId st
      then Inl (Error (''Model call is unavailable: '' @ callId))
      else Inr (updateTurn (\<lambda>t. tn_turnId t = turnId)
        (\<lambda>t. t\<lparr>tn_calls := tn_calls t @ [\<lparr>tl_callId = callId, tl_returned = False\<rparr>]\<rparr>) (is_turns st)))"
| "infer_turns st (InferenceReturned e) =
     (if \<not> is_running st \<or> ir_callId e \<noteq> is_callId st then Inl (Error (''No matching running model call: '' @ ir_callId e))
      else if \<not> distinct (map tk_callId (ir_toolCalls e)) then Inl (Error ''Duplicate tool call IDs in model reply'')
      else Inr (updateTurn (has_call (ir_callId e))
        (\<lambda>t. t\<lparr>tn_answer := (if ir_toolCalls e = [] then Some (ir_text e) else None), tn_rejection := None,
           tn_answerCallId := (if ir_toolCalls e = [] then Some (ir_callId e) else None),
           tn_calls := mark_returned (ir_callId e) (tn_calls t),
           tn_outstanding := map tk_callId (ir_toolCalls e)\<rparr>) (is_turns st)))"
| "infer_turns st (ModelFailed callId reason) =
     (if \<not> is_running st \<or> callId \<noteq> is_callId st then Inl (Error (''No matching running model call: '' @ callId))
      else Inr (updateTurn (has_call callId)
        (\<lambda>t. t\<lparr>tn_failure := Some reason, tn_calls := mark_returned callId (tn_calls t)\<rparr>) (is_turns st)))"
| "infer_turns st (OutputRejected e) =
     (if \<not> is_running st \<or> or_callId e \<noteq> is_callId st then Inl (Error (''No matching running model call: '' @ or_callId e))
      else Inr (Some (map (\<lambda>t. if tn_turnId t = or_turnId e
        then t\<lparr>tn_rejection := Some \<lparr>tj_contract = or_contract e, tj_errors = or_errors e, tj_attempt = or_attempt e,
                 tj_maxCorrections = or_maxCorrections e\<rparr>,
               tn_failure := (if or_attempt e \<ge> or_maxCorrections e
                 then Some (correction_failure (or_contract e) (or_maxCorrections e)) else tn_failure t),
               tn_calls := mark_returned (or_callId e) (tn_calls t)\<rparr>
        else t) (is_turns st))))"
| "infer_turns st (TurnSettled e) =
     (case find (\<lambda>t. tn_turnId t = settled_turn e) (is_turns st) of
        None \<Rightarrow> Inl (Error (''No matching active turn: '' @ settled_turn e))
      | Some t \<Rightarrow>
          if tn_settlement t \<noteq> None \<or> settled_turn e \<noteq> is_turnId st
          then Inl (Error (''No matching active turn: '' @ settled_turn e))
          else try_bind (settle_turn st e t) (\<lambda>t'.
            Inr (Some (map (\<lambda>v. if v = t then t' else v) (is_turns st)))))"
| "infer_turns st (ToolReturned e) =
     Inr (updateTurn (\<lambda>t. tr_callId e \<in> set (tn_outstanding t))
       (\<lambda>t. t\<lparr>tn_outstanding := filter (\<lambda>c. c \<noteq> tr_callId e) (tn_outstanding t)\<rparr>) (is_turns st))"
| "infer_turns st _ = Inr None"

definition active_turn :: "turn list \<Rightarrow> turn option" where
  "active_turn turns = find (\<lambda>t. tn_settlement t = None) turns"

definition running_call :: "turn \<Rightarrow> turn_call option" where
  "running_call t = find (\<lambda>c. \<not> tl_returned c) (tn_calls t)"

definition next_call :: "turn option \<Rightarrow> string" where
  "next_call t = (case t of
     None \<Rightarrow> ''model::0''
   | Some t \<Rightarrow> (case running_call t of
        Some c \<Rightarrow> tl_callId c
      | None \<Rightarrow> ''model:'' @ tn_turnId t @ '':'' @ nat_text (length (tn_calls t))))"

definition derive :: "inference_state \<Rightarrow> nat \<Rightarrow> turn list \<Rightarrow> inference_state" where
  "derive st position turns =
     (let t = active_turn turns; callId = next_call t in
      \<lparr>is_turns = turns, is_turnId = (case t of None \<Rightarrow> [] | Some t \<Rightarrow> tn_turnId t), is_callId = callId,
       is_origin = (if callId = is_callId st then is_origin st else Some position),
       is_needsReply = (case t of None \<Rightarrow> False | Some t \<Rightarrow> tn_answer t = None),
       is_running = (case t of None \<Rightarrow> False | Some t \<Rightarrow> running_call t \<noteq> None),
       is_waiting = (case t of None \<Rightarrow> False | Some t \<Rightarrow> tn_outstanding t \<noteq> [])\<rparr>)"

definition inferState :: "nat \<Rightarrow> inference_state \<Rightarrow> agent_event \<Rightarrow> runtime_error + inference_state" where
  "inferState position st e =
     try_bind (infer_turns st e) (\<lambda>r. Inr (case r of None \<Rightarrow> st | Some turns \<Rightarrow> derive st position turns))"

text \<open>\<open>turnOutput\<close> reads the answer of a completed turn.\<close>

definition turnOutput :: "agent_event list \<Rightarrow> turn_settled \<Rightarrow> runtime_error + string" where
  "turnOutput events settlement = (case settlement of
     EndedTurn _ _ reason \<Rightarrow> Inl (Error reason)
   | CompletedOutput _ output \<Rightarrow> Inr output
   | CompletedCall turnId callId \<Rightarrow>
       if \<not> list_ex (\<lambda>e. case e of InferenceCalled _ t c \<Rightarrow> c = callId \<and> t = turnId | _ \<Rightarrow> False) events
       then Inl (Error (''No matching model call for turn: '' @ turnId))
       else (case find (\<lambda>e. case e of InferenceReturned r \<Rightarrow> ir_callId r = callId | _ \<Rightarrow> False) events of
          Some (InferenceReturned r) \<Rightarrow>
            if ir_toolCalls r \<noteq> [] then Inl (Error (''Model result still requests tools: '' @ callId)) else Inr (ir_text r)
        | _ \<Rightarrow> Inl (Error (''Missing model result: '' @ callId))))"

section \<open>What the component proposes\<close>

text \<open>
  \<open>infer\<close> reads the state, the selected model and what the context and the tools of the agent show
  and propose. Names of proposals are not URI encoded.
\<close>

datatype context_position = ContextConfiguring | ContextCompacting | ContextFailed string | ContextReady

record infer_input =
  in_system :: string
  in_context :: context_position
  in_contextEvents :: "(string \<times> agent_event) list"
  in_toolEvents :: "(string \<times> agent_event) list"
  in_acts :: "string list"
  in_outputName :: "string option"
  in_corrections :: "int option"

datatype infer_position = Stopping | Configuring | RunningCall | Settling | Idle | Waiting | ReadyToCall

record inference_request =
  nr_callId :: string
  nr_turnId :: string
  nr_origin :: "nat option"
  nr_configuration :: model_configuration
  nr_system :: string
  nr_attempt :: int

record infer_view =
  vw_position :: infer_position
  vw_events :: "(string \<times> agent_event) list"
  vw_acts :: "string list"
  vw_cancels :: "(effect_ref \<times> string) list"
  vw_request :: "inference_request option"

fun spread :: "('k \<times> 'v) list \<Rightarrow> ('k \<times> 'v) list \<Rightarrow> ('k \<times> 'v) list" where
  "spread xs [] = xs"
| "spread xs ((k, v) # ys) = spread (js_set k v xs) ys"

definition cancelled_refs :: "inference_state \<Rightarrow> effect_ref list" where
  "cancelled_refs st = concat (map (\<lambda>t. map tf_ref (tn_effects t)) (filter (\<lambda>t. tn_cancellation t \<noteq> None) (is_turns st)))"

definition proposed_events :: "infer_input \<Rightarrow> inference_state \<Rightarrow> (string \<times> agent_event) list" where
  "proposed_events inp st = filter (\<lambda>(_, e). case e of
       TurnRequested r \<Rightarrow> (case tq_promiseRef r of None \<Rightarrow> True | Some ref \<Rightarrow> ref \<notin> set (cancelled_refs st))
     | _ \<Rightarrow> True) (spread (in_contextEvents inp) (in_toolEvents inp))"

definition correction_system :: "turn option \<Rightarrow> string" where
  "correction_system t = (case t of
     None \<Rightarrow> []
   | Some t \<Rightarrow> (case tn_rejection t of
        None \<Rightarrow> []
      | Some r \<Rightarrow> if tj_attempt r \<ge> tj_maxCorrections r then []
          else [CHR 0x0A, CHR 0x0A] @ ''Your previous response did not satisfy the declared output contract '' @ [CHR 0x22] @ tj_contract r @
            [CHR 0x22] @ ''.'' @ [CHR 0x0A] @ ''Validation errors:'' @ [CHR 0x0A] @
            concat (map (\<lambda>e. ''- '' @ e @ [CHR 0x0A]) (tj_errors r)) @ ''Return only a corrected response matching the contract.''))"

definition infer :: "model_configuration \<Rightarrow> model_configuration option \<Rightarrow> infer_input \<Rightarrow> inference_state \<Rightarrow> infer_view" where
  "infer current selection inp st =
     (let t = find (\<lambda>t. tn_turnId t = is_turnId st) (is_turns st);
          events = proposed_events inp st;
          acts = (if is_turnId st \<noteq> [] then in_acts inp else []);
          view = (\<lambda>pos evs acts. \<lparr>vw_position = pos, vw_events = evs, vw_acts = acts, vw_cancels = [], vw_request = None\<rparr>);
          settling = (\<lambda>e. view Settling (js_set ''inference'' (TurnSettled e) events) acts) in
      case (t, map_option tn_cancellation t) of
        (Some t, Some (Some reason)) \<Rightarrow>
          (let pending = filter tf_pending (tn_effects t) in
           \<lparr>vw_position = Stopping,
            vw_events = (if pending \<noteq> [] then []
              else if tn_outstanding t \<noteq> []
              then map (\<lambda>c. (c, ToolReturned \<lparr>tr_callId = c, tr_tool = None, tr_turnId = None, tr_content = [], tr_error = Some reason, tr_promise = None\<rparr>)) (tn_outstanding t)
              else [(''inference'', TurnSettled (EndedTurn (tn_turnId t) CancelledTurn reason))]),
            vw_acts = [], vw_cancels = map (\<lambda>w. (tf_ref w, reason)) pending, vw_request = None\<rparr>)
      | _ \<Rightarrow> (case selection of
          None \<Rightarrow> view Configuring (js_set ''model'' (ModelConfigured current) events) []
        | Some selection \<Rightarrow>
            if is_running st then view RunningCall events acts
            else (case (t, Option.bind t tn_failure) of
                (Some t, Some reason) \<Rightarrow> settling (EndedTurn (tn_turnId t) FailedTurn reason)
              | _ \<Rightarrow>
                if is_turnId st \<noteq> [] \<and> \<not> is_needsReply st then settling (CompletedCall (is_turnId st) (the (tn_answerCallId (the t))))
                else if \<not> is_needsReply st then view Idle events acts
                else (case (is_waiting st, in_context inp) of
                    (False, ContextFailed reason) \<Rightarrow> settling (EndedTurn (is_turnId st) FailedTurn reason)
                  | (False, ContextReady) \<Rightarrow>
                      \<lparr>vw_position = ReadyToCall, vw_events = events, vw_acts = acts, vw_cancels = [],
                       vw_request = Some \<lparr>nr_callId = is_callId st, nr_turnId = is_turnId st, nr_origin = is_origin st,
                         nr_configuration = selection, nr_system = in_system inp @ correction_system t,
                         nr_attempt = (case t of None \<Rightarrow> 0 | Some t \<Rightarrow> int (length (tn_calls t)))\<rparr>\<rparr>
                  | _ \<Rightarrow> view Waiting events acts))))"

text \<open>The callbacks of the request.\<close>

definition on_requested :: "inference_request \<Rightarrow> agent_event list" where
  "on_requested r = [InferenceCalled (nr_configuration r) (nr_turnId r) (nr_callId r)]"

definition tool_call_id :: "effect_ref \<Rightarrow> nat \<Rightarrow> string" where
  "tool_call_id ref i = canonicalInput (JArr [JInt (int (ref_seq ref)), JStr (ref_atom ref), JStr (ref_act ref), JInt (int i)])"

definition numbered_calls :: "effect_ref \<Rightarrow> provider_tool_call list \<Rightarrow> tool_call list" where
  "numbered_calls ref calls = map (\<lambda>(i, c). \<lparr>tk_callId = tool_call_id ref i, tk_name = pk_name c, tk_input = pk_input c, tk_providerId = pk_callId c\<rparr>)
     (zip [0..<length calls] calls)"

datatype reply_outcome = Replied model_reply | ReplyRejected json

definition on_settled :: "infer_input \<Rightarrow> inference_request \<Rightarrow> effect_ref \<Rightarrow> reply_outcome \<Rightarrow> agent_event list" where
  "on_settled inp r ref result = (case result of
     ReplyRejected reason \<Rightarrow> [ModelFailed (nr_callId r) (failureMessage reason)]
   | Replied v \<Rightarrow> (case mr_outputErrors v of
        Some errors \<Rightarrow> [OutputRejected \<lparr>or_turnId = nr_turnId r, or_callId = nr_callId r,
          or_contract = (case in_outputName inp of None \<Rightarrow> ''output'' | Some n \<Rightarrow> n), or_text = mr_text v, or_errors = errors,
          or_attempt = nr_attempt r, or_maxCorrections = (case in_corrections inp of None \<Rightarrow> 0 | Some n \<Rightarrow> n)\<rparr>]
      | None \<Rightarrow>
          if \<not> distinct (map pk_callId (mr_toolCalls v)) then [ModelFailed (nr_callId r) ''Duplicate provider tool call IDs'']
          else [InferenceReturned \<lparr>ir_turnId = Some (nr_turnId r), ir_callId = nr_callId r, ir_reasoning = mr_reasoning v,
            ir_continuation = mr_continuation v, ir_text = mr_text v, ir_toolCalls = numbered_calls ref (mr_toolCalls v),
            ir_usage = mr_usage v\<rparr>]))"

lemma tool_call_id_inject [simp]: "tool_call_id ref i = tool_call_id ref' j \<longleftrightarrow> ref = ref' \<and> i = j"
proof
  assume "tool_call_id ref i = tool_call_id ref' j"
  then show "ref = ref' \<and> i = j" unfolding tool_call_id_def
    by (subst (asm) canonical_inject) (auto intro: effect_ref.equality)
qed simp

lemma numbered_calls_distinct: "distinct (map tk_callId (numbered_calls ref calls))"
proof -
  have "map tk_callId (numbered_calls ref calls) = map (tool_call_id ref) [0..<length calls]"
    by (rule nth_equalityI) (simp_all add: numbered_calls_def)
  then show ?thesis by (simp add: distinct_map inj_on_def)
qed

end
