(* ===== verification/InferenceLoop.thy ===== *)
theory InferenceLoop
  imports Inference
begin

text \<open>
  The inference component in a closed loop with its state. A step records what the component
  proposes, what the settlement of its model request derives, or an event of the environment; the
  request in flight is kept with the reference it was accepted under. \<open>loop_ok\<close> is the invariant that
  makes every proposal acceptable to the reducer.
\<close>

section \<open>Updating a turn\<close>

lemma updateTurn_None: "updateTurn P f ts = None \<longleftrightarrow> (\<forall>t\<in>set ts. \<not> P t)"
  by (induction ts) (auto split: option.splits)

lemma updateTurn_Some:
  assumes "updateTurn P f ts = Some ts'"
  obtains i where "i < length ts" "P (ts ! i)" "ts' = ts[i := f (ts ! i)]" "\<forall>j < length ts. i < j \<longrightarrow> \<not> P (ts ! j)"
  using assms
proof (induction ts arbitrary: ts' thesis)
  case (Cons t ts)
  show ?case
  proof (cases "updateTurn P f ts")
    case None
    with Cons.prems(2) have "P t" "ts' = f t # ts" by (auto split: if_splits)
    moreover have "\<not> P ((t # ts) ! j)" if "j < length (t # ts)" "0 < j" for j
      using None that by (cases j) (auto simp: updateTurn_None)
    ultimately show thesis by (intro Cons.prems(1) [of 0]) simp_all
  next
    case (Some us)
    then obtain i where i: "i < length ts" "P (ts ! i)" "us = ts[i := f (ts ! i)]" "\<forall>j < length ts. i < j \<longrightarrow> \<not> P (ts ! j)"
      using Cons.IH by blast
    with Some Cons.prems show thesis by (intro Cons.prems(1) [of "Suc i"]) (auto simp: less_Suc_eq_0_disj)
  qed
qed simp

lemma updateTurn_rel:
  assumes "updateTurn P f ts = Some ts'" and "\<And>t. t \<in> set ts \<Longrightarrow> P t \<Longrightarrow> R t (f t)" and "\<And>t. t \<in> set ts \<Longrightarrow> R t t"
  shows "list_all2 R ts ts'"
proof -
  obtain i where i: "i < length ts" "P (ts ! i)" "ts' = ts[i := f (ts ! i)]" using updateTurn_Some [OF assms(1)] by metis
  show ?thesis unfolding list_all2_conv_all_nth i(3)
    using assms(2) [of "ts ! i"] assms(3) i(1,2) by (auto simp: nth_list_update)
qed

lemma map_rel: "(\<And>t. t \<in> set ts \<Longrightarrow> R t (f t)) \<Longrightarrow> list_all2 R ts (map f ts)"
  by (simp add: list_all2_conv_all_nth)

lemma list_all2_set1: "list_all2 R xs ys \<Longrightarrow> x \<in> set xs \<Longrightarrow> \<exists>y\<in>set ys. R x y"
  by (induction rule: list_all2_induct) auto

lemma list_all2_set2: "list_all2 R xs ys \<Longrightarrow> y \<in> set ys \<Longrightarrow> \<exists>x\<in>set xs. R x y"
  by (induction rule: list_all2_induct) auto

lemma list_all2_map_eq: "list_all2 R xs ys \<Longrightarrow> (\<And>x y. R x y \<Longrightarrow> f y = f x) \<Longrightarrow> map f ys = map f xs"
  by (induction rule: list_all2_induct) auto

lemma active_turn_rel:
  assumes "list_all2 R ts ts'" and "\<And>t t'. R t t' \<Longrightarrow> tn_settlement t' = tn_settlement t \<and> tn_turnId t' = tn_turnId t"
  shows "(case active_turn ts of None \<Rightarrow> active_turn ts' = None | Some t \<Rightarrow> \<exists>t'. active_turn ts' = Some t' \<and> R t t')"
  using assms(1)
proof (induction rule: list_all2_induct)
  case (Cons t ts t' ts')
  with assms(2) [of t t'] show ?case by (auto simp: active_turn_def split: option.splits)
qed (simp add: active_turn_def)

section \<open>The loop\<close>

type_synonym flight = "(effect_ref \<times> inference_request) option"

definition active_id :: "turn list \<Rightarrow> string" where
  "active_id turns = (case active_turn turns of None \<Rightarrow> [] | Some t \<Rightarrow> tn_turnId t)"

fun run_events :: "nat \<Rightarrow> agent_event list \<Rightarrow> inference_state \<Rightarrow> runtime_error + inference_state" where
  "run_events pos [] st = Inr st"
| "run_events pos (e # es) st = try_bind (inferState pos st e) (run_events (Suc pos) es)"

text \<open>
  What the environment may record: requests for turns with a name, aborts, tool results, and core
  events other than those about the effect of the model request in flight.
\<close>

fun environment :: "inference_state \<Rightarrow> flight \<Rightarrow> agent_event \<Rightarrow> bool" where
  "environment st flight (TurnRequested e) \<longleftrightarrow> tq_turnId e \<noteq> []"
| "environment st flight (AbortRequested _ _) \<longleftrightarrow> True"
| "environment st flight (ToolReturned _) \<longleftrightarrow> True"
| "environment st flight (Observed (EffectRequested e)) \<longleftrightarrow> True"
| "environment st flight (Observed e) \<longleftrightarrow> (case flight of None \<Rightarrow> True | Some (ref, _) \<Rightarrow> event_ref e \<noteq> Some ref)"
| "environment st flight _ \<longleftrightarrow> False"

text \<open>The lifecycle event that settles the model request: its rejection, its value or its cancellation.\<close>

definition settlement_of :: "effect_ref \<Rightarrow> core_event \<Rightarrow> bool" where
  "settlement_of ref e \<longleftrightarrow> settles_effect e = Inr (Some ref)"

definition names_inference :: "infer_input \<Rightarrow> bool" where
  "names_inference inp \<longleftrightarrow> ''inference'' \<in> fst ` set (in_contextEvents inp) \<or> ''inference'' \<in> fst ` set (in_toolEvents inp)"

inductive inference_reaches :: "inference_state \<Rightarrow> flight \<Rightarrow> bool" where
  inference_start: "inference_reaches initialInference None"
| inference_environment: "inference_reaches st flight \<Longrightarrow> environment st flight e \<Longrightarrow> inferState pos st e = Inr st' \<Longrightarrow>
    inference_reaches st' flight"
| inference_proposed: "inference_reaches st flight \<Longrightarrow>
    (''inference'', TurnSettled e) \<in> set (vw_events (infer current selection inp st)) \<Longrightarrow>
    \<not> names_inference inp \<Longrightarrow>
    inferState pos st (TurnSettled e) = Inr st' \<Longrightarrow> inference_reaches st' flight"
| inference_requested: "inference_reaches st flight \<Longrightarrow> vw_request (infer current selection inp st) = Some r \<Longrightarrow>
    sr_act (rq_request q) \<noteq> DeliverMessage_name \<Longrightarrow>
    run_events pos (Observed (EffectRequested q) # on_requested r) st = Inr st' \<Longrightarrow>
    inference_reaches st' (Some (rq_ref q, r))"
| inference_settled: "inference_reaches st (Some (ref, r)) \<Longrightarrow> settlement_of ref e \<Longrightarrow>
    run_events pos (Observed e # on_settled inp r ref result) st = Inr st' \<Longrightarrow> inference_reaches st' None"

section \<open>The invariant\<close>

definition call_id :: "string \<Rightarrow> nat \<Rightarrow> string" where
  "call_id turnId i = ''model:'' @ turnId @ '':'' @ nat_text i"

definition calls_ok :: "turn \<Rightarrow> bool" where
  "calls_ok t \<longleftrightarrow> map tl_callId (tn_calls t) = map (call_id (tn_turnId t)) [0..<length (tn_calls t)]"

definition fresh_turn :: "turn \<Rightarrow> bool" where
  "fresh_turn t \<longleftrightarrow> tn_calls t = [] \<and> tn_outstanding t = [] \<and> tn_failure t = None \<and> tn_answer t = None"

definition active_core :: "inference_request option \<Rightarrow> turn \<Rightarrow> bool" where
  "active_core r t \<longleftrightarrow> (tn_answer t \<noteq> None \<longrightarrow> tn_outstanding t = [] \<and> tn_answerCallId t \<noteq> None) \<and>
     (tn_failure t \<noteq> None \<longrightarrow> tn_outstanding t = []) \<and>
     (case r of
        None \<Rightarrow> running_call t = None
      | Some r \<Rightarrow> tn_outstanding t = [] \<and> tn_answer t = None \<and> tn_failure t = None \<and> nr_turnId r = tn_turnId t \<and>
          (\<exists>cs. tn_calls t = cs @ [\<lparr>tl_callId = nr_callId r, tl_returned = False\<rparr>] \<and> list_all tl_returned cs))"

definition turns_core :: "inference_request option \<Rightarrow> turn list \<Rightarrow> bool" where
  "turns_core r turns \<longleftrightarrow> distinct (map tn_turnId turns) \<and>
     (\<forall>t\<in>set turns. tn_turnId t \<noteq> [] \<and> calls_ok t \<and> (tn_settlement t = None \<longrightarrow> tn_turnId t \<noteq> active_id turns \<longrightarrow> fresh_turn t)) \<and>
     (case active_turn turns of None \<Rightarrow> r = None | Some t \<Rightarrow> active_core r t)"

definition awaits :: "effect_ref \<Rightarrow> turn \<Rightarrow> bool" where
  "awaits ref t \<longleftrightarrow> list_ex (\<lambda>w. tf_ref w = ref \<and> tf_pending w) (tn_effects t)"

definition work_pending :: "flight \<Rightarrow> turn list \<Rightarrow> bool" where
  "work_pending flight turns \<longleftrightarrow> (case flight of None \<Rightarrow> True
     | Some (ref, _) \<Rightarrow> (case active_turn turns of None \<Rightarrow> False | Some t \<Rightarrow> awaits ref t))"

definition derived :: "inference_state \<Rightarrow> bool" where
  "derived st \<longleftrightarrow> (\<exists>pos. derive st pos (is_turns st) = st)"

definition loop_ok :: "inference_state \<Rightarrow> flight \<Rightarrow> bool" where
  "loop_ok st flight \<longleftrightarrow> derived st \<and> turns_core (map_option snd flight) (is_turns st) \<and> work_pending flight (is_turns st)"

lemma derive_turns [simp]: "is_turns (derive st pos turns) = turns"
  by (simp add: derive_def Let_def)

lemma derive_fields [simp]:
  "is_turnId (derive st pos turns) = active_id turns" "is_callId (derive st pos turns) = next_call (active_turn turns)"
  "is_needsReply (derive st pos turns) = (case active_turn turns of None \<Rightarrow> False | Some t \<Rightarrow> tn_answer t = None)"
  "is_running (derive st pos turns) = (case active_turn turns of None \<Rightarrow> False | Some t \<Rightarrow> running_call t \<noteq> None)"
  "is_waiting (derive st pos turns) = (case active_turn turns of None \<Rightarrow> False | Some t \<Rightarrow> tn_outstanding t \<noteq> [])"
  by (simp_all add: derive_def Let_def active_id_def)

lemma derived_derive [simp]: "derived (derive st pos turns)"
  unfolding derived_def by (rule exI) (simp add: derive_def Let_def)

lemma derivedD:
  assumes "derived st"
  shows "is_turnId st = active_id (is_turns st)" "is_callId st = next_call (active_turn (is_turns st))"
    "is_needsReply st = (case active_turn (is_turns st) of None \<Rightarrow> False | Some t \<Rightarrow> tn_answer t = None)"
    "is_running st = (case active_turn (is_turns st) of None \<Rightarrow> False | Some t \<Rightarrow> running_call t \<noteq> None)"
    "is_waiting st = (case active_turn (is_turns st) of None \<Rightarrow> False | Some t \<Rightarrow> tn_outstanding t \<noteq> [])"
  using assms unfolding derived_def by (metis derive_fields)+

section \<open>Call identifiers\<close>

lemma last_separator: "c \<notin> set ys \<Longrightarrow> c \<notin> set ys' \<Longrightarrow> xs @ c # ys = xs' @ c # ys' \<Longrightarrow> xs = xs' \<and> ys = ys'"
proof (induction xs arbitrary: xs')
  case Nil
  then show ?case by (cases xs') auto
next
  case (Cons x xs)
  then show ?case by (cases xs') auto
qed

lemma call_id_inject [simp]: "call_id t i = call_id u j \<longleftrightarrow> t = u \<and> i = j"
proof
  assume eq: "call_id t i = call_id u j"
  have no: "CHR '':'' \<notin> set (nat_text n)" for n using nat_text_chars [of n] by auto
  from eq have "t @ CHR '':'' # nat_text i = u @ CHR '':'' # nat_text j" by (simp add: call_id_def)
  then have "t = u \<and> nat_text i = nat_text j" by (rule last_separator [OF no no])
  then show "t = u \<and> i = j" by simp
qed simp

lemma calls_ok_id:
  assumes "calls_ok t" and "c \<in> set (tn_calls t)"
  obtains i where "i < length (tn_calls t)" "tl_callId c = call_id (tn_turnId t) i"
proof -
  from assms(2) obtain i where i: "i < length (tn_calls t)" "c = tn_calls t ! i" by (auto simp: in_set_conv_nth)
  with assms(1) have "map tl_callId (tn_calls t) ! i = call_id (tn_turnId t) i" by (simp add: calls_ok_def)
  with i that show thesis by simp
qed

lemma calls_ok_owner:
  "calls_ok t \<Longrightarrow> calls_ok u \<Longrightarrow> has_call c t \<Longrightarrow> has_call c u \<Longrightarrow> tn_turnId t = tn_turnId u"
  by (auto simp: has_call_def list_ex_iff elim!: calls_ok_id)

lemma calls_ok_append:
  "calls_ok t \<Longrightarrow> calls_ok (t\<lparr>tn_calls := tn_calls t @ [\<lparr>tl_callId = call_id (tn_turnId t) (length (tn_calls t)), tl_returned = b\<rparr>]\<rparr>)"
  by (simp add: calls_ok_def)

lemma mark_returned_ids [simp]: "map tl_callId (mark_returned c calls) = map tl_callId calls"
  by (simp add: mark_returned_def)

lemma mark_returned_length [simp]: "length (mark_returned c calls) = length calls"
  by (simp add: mark_returned_def)

lemma mark_returned_all:
  assumes "list_all tl_returned cs"
  shows "list_all tl_returned (mark_returned c (cs @ [\<lparr>tl_callId = c, tl_returned = b\<rparr>]))"
  using assms by (auto simp: mark_returned_def list_all_iff)

lemma running_None: "running_call t = None \<longleftrightarrow> list_all tl_returned (tn_calls t)"
  by (auto simp: running_call_def find_None_iff list_all_iff)

lemma find_skip: "list_all (\<lambda>x. \<not> P x) xs \<Longrightarrow> find P (xs @ ys) = find P ys"
  by (induction xs) auto

lemma running_last: "list_all tl_returned cs \<Longrightarrow> tn_calls t = cs @ [\<lparr>tl_callId = c, tl_returned = False\<rparr>] \<Longrightarrow>
    running_call t = Some \<lparr>tl_callId = c, tl_returned = False\<rparr>"
  by (simp add: running_call_def find_skip)

section \<open>Changing one turn\<close>

lemma active_turnD: "active_turn ts = Some t \<Longrightarrow> t \<in> set ts \<and> tn_settlement t = None"
  by (auto simp: active_turn_def find_Some_iff)

lemma active_turn_append: "active_turn (ts @ us) = (case active_turn ts of None \<Rightarrow> active_turn us | Some t \<Rightarrow> Some t)"
  by (induction ts) (simp_all add: active_turn_def)

lemma distinct_id: "distinct (map tn_turnId ts) \<Longrightarrow> t \<in> set ts \<Longrightarrow> u \<in> set ts \<Longrightarrow> tn_turnId t = tn_turnId u \<Longrightarrow> t = u"
  by (simp add: distinct_map inj_on_def)

lemma find_id: "distinct (map tn_turnId ts) \<Longrightarrow> t \<in> set ts \<Longrightarrow> find (\<lambda>u. tn_turnId u = tn_turnId t) ts = Some t"
proof (induction ts)
  case (Cons u us)
  then show ?case by (cases "u = t") force+
qed simp

definition replace_turn :: "turn \<Rightarrow> turn \<Rightarrow> turn list \<Rightarrow> turn list" where
  "replace_turn t t' ts = map (\<lambda>u. if u = t then t' else u) ts"

lemma replace_ids [simp]: "tn_turnId t' = tn_turnId t \<Longrightarrow> map tn_turnId (replace_turn t t' ts) = map tn_turnId ts"
  by (simp add: replace_turn_def)

lemma updateTurn_unique:
  "distinct ts \<Longrightarrow> t \<in> set ts \<Longrightarrow> P t \<Longrightarrow> (\<And>u. u \<in> set ts \<Longrightarrow> P u \<Longrightarrow> u = t) \<Longrightarrow> updateTurn P f ts = Some (replace_turn t (f t) ts)"
proof (induction ts)
  case (Cons u us)
  show ?case
  proof (cases "u = t")
    case True
    with Cons.prems(1) have t: "t \<notin> set us" by simp
    then have "updateTurn P f us = None" unfolding updateTurn_None using Cons.prems(4) by (metis list.set_intros(2))
    moreover from t have "map (\<lambda>u. if u = t then f t else u) us = us" by (induction us) auto
    ultimately show ?thesis using True Cons.prems(3) by (simp add: replace_turn_def)
  next
    case False
    have "updateTurn P f us = Some (replace_turn t (f t) us)"
    proof (rule Cons.IH)
      show "t \<in> set us" using Cons.prems(2) False by simp
      show "v = t" if "v \<in> set us" "P v" for v using Cons.prems(4) [of v] that by simp
    qed (use Cons.prems(1,3) in simp_all)
    with False show ?thesis by (simp add: replace_turn_def)
  qed
qed simp

lemma active_turn_replace:
  assumes "active_turn ts = Some t" and "tn_settlement t' = None"
  shows "active_turn (replace_turn t t' ts) = Some t'"
  using assms by (induction ts) (auto simp: active_turn_def replace_turn_def split: if_splits)

lemma turns_coreD:
  assumes "turns_core r ts"
  shows "distinct (map tn_turnId ts)" "distinct ts" "t \<in> set ts \<Longrightarrow> tn_turnId t \<noteq> []" "t \<in> set ts \<Longrightarrow> calls_ok t"
    "t \<in> set ts \<Longrightarrow> tn_settlement t = None \<Longrightarrow> tn_turnId t \<noteq> active_id ts \<Longrightarrow> fresh_turn t"
    "active_turn ts = Some t \<Longrightarrow> active_core r t" "active_turn ts = None \<Longrightarrow> r = None"
  using assms by (auto simp: turns_core_def distinct_map)

lemma active_id_not_Nil: "turns_core r ts \<Longrightarrow> active_id ts \<noteq> [] \<longleftrightarrow> active_turn ts \<noteq> None"
  using turns_coreD(3) active_turnD by (fastforce simp: active_id_def split: option.splits)

lemma update_active:
  assumes "turns_core r ts" and "active_turn ts = Some t"
  shows "updateTurn (\<lambda>u. tn_turnId u = tn_turnId t) f ts = Some (replace_turn t (f t) ts)"
  using turns_coreD(1,2) [OF assms(1)] active_turnD [OF assms(2)] by (intro updateTurn_unique) (auto intro: distinct_id)

lemma update_inactive:
  assumes "turns_core r ts" and "active_turn ts = None"
  shows "updateTurn (\<lambda>u. tn_turnId u = active_id ts) f ts = None"
  using turns_coreD(3) [OF assms(1)] assms(2) by (auto simp: updateTurn_None active_id_def)

lemma update_call:
  assumes "turns_core r ts" and "t \<in> set ts" and "has_call c t"
  shows "updateTurn (has_call c) f ts = Some (replace_turn t (f t) ts)"
  using turns_coreD(1,2,4) [OF assms(1)] assms(2,3) by (intro updateTurn_unique) (auto intro: distinct_id calls_ok_owner)

text \<open>The active turn takes a step of its own; the others stay as they are.\<close>

lemma turns_core_replace:
  assumes "turns_core r ts" "active_turn ts = Some t" "tn_turnId t' = tn_turnId t" "tn_settlement t' = None" "calls_ok t'" "active_core r' t'"
  shows "turns_core r' (replace_turn t t' ts)"
proof -
  have act: "active_turn (replace_turn t t' ts) = Some t'" by (rule active_turn_replace [OF assms(2,4)])
  then have same: "active_id (replace_turn t t' ts) = active_id ts" using assms(2,3) by (simp add: active_id_def)
  have old: "tn_turnId t \<noteq> []" using turns_coreD(3) [OF assms(1)] active_turnD [OF assms(2)] by blast
  have "tn_turnId u \<noteq> [] \<and> calls_ok u \<and> (tn_settlement u = None \<longrightarrow> tn_turnId u \<noteq> active_id ts \<longrightarrow> fresh_turn u)"
    if "u \<in> set (replace_turn t t' ts)" for u
  proof (cases "u = t'")
    case True
    with assms(2,3,5) old show ?thesis by (simp add: active_id_def)
  next
    case False
    with that have "u \<in> set ts" by (auto simp: replace_turn_def split: if_splits)
    with turns_coreD(3,4,5) [OF assms(1)] show ?thesis by blast
  qed
  with act same assms(3,6) turns_coreD(1) [OF assms(1)] show ?thesis by (simp add: turns_core_def)
qed

text \<open>The active turn is settled; the next one, if any, is fresh.\<close>

lemma fresh_active: "fresh_turn t \<Longrightarrow> active_core None t"
  by (simp add: fresh_turn_def active_core_def running_None)

lemma turns_core_settle:
  assumes "turns_core None ts" "active_turn ts = Some t" "tn_turnId t' = tn_turnId t" "tn_settlement t' \<noteq> None" "calls_ok t'"
  shows "turns_core None (replace_turn t t' ts)"
proof -
  have others: "u \<in> set ts \<and> u \<noteq> t" if "u \<in> set (replace_turn t t' ts)" "u \<noteq> t'" for u
    using that by (auto simp: replace_turn_def split: if_splits)
  have fresh: "fresh_turn u" if "u \<in> set (replace_turn t t' ts)" "tn_settlement u = None" for u
  proof -
    from that(2) assms(4) have "u \<noteq> t'" by auto
    with others [OF that(1)] have u: "u \<in> set ts" "u \<noteq> t" by blast+
    with turns_coreD(1) [OF assms(1)] active_turnD [OF assms(2)] have "tn_turnId u \<noteq> tn_turnId t" by (metis distinct_id)
    with u that(2) assms(2) turns_coreD(5) [OF assms(1)] show ?thesis by (simp add: active_id_def)
  qed
  have "tn_turnId u \<noteq> [] \<and> calls_ok u" if "u \<in> set (replace_turn t t' ts)" for u
    using others [OF that] turns_coreD(3,4) [OF assms(1)] assms(3,5) active_turnD [OF assms(2)] by (cases "u = t'") metis+
  moreover have "active_core None u" if "active_turn (replace_turn t t' ts) = Some u" for u
    using fresh_active fresh active_turnD [OF that] by blast
  ultimately show ?thesis
    using fresh assms(3) turns_coreD(1) [OF assms(1)] by (simp add: turns_core_def split: option.splits)
qed

lemma turns_core_append:
  assumes "turns_core r ts" "tn_turnId t \<noteq> []" "tn_turnId t \<notin> tn_turnId ` set ts" "fresh_turn t" "tn_settlement t = None"
  shows "turns_core r (ts @ [t])"
proof -
  have c: "calls_ok t" using assms(4) by (simp add: calls_ok_def fresh_turn_def)
  show ?thesis
  proof (cases "active_turn ts")
    case None
    then have act: "active_turn (ts @ [t]) = Some t" using assms(5) by (simp add: active_turn_append) (simp add: active_turn_def)
    have "tn_settlement u \<noteq> None" if "u \<in> set ts" for u using None that by (auto simp: active_turn_def find_None_iff)
    then show ?thesis using act assms c turns_coreD [OF assms(1)] None fresh_active [OF assms(4)]
      by (auto simp: turns_core_def active_id_def)
  next
    case (Some u)
    then have act: "active_turn (ts @ [t]) = Some u" by (simp add: active_turn_append)
    then show ?thesis using assms c turns_coreD(1,3,4,5) [OF assms(1)] turns_coreD(6) [OF assms(1) Some] Some
      by (auto simp: turns_core_def active_id_def)
  qed
qed


section \<open>Steps that leave the calls alone\<close>

definition quiet :: "turn \<Rightarrow> turn \<Rightarrow> bool" where
  "quiet t t' \<longleftrightarrow> tn_turnId t' = tn_turnId t \<and> tn_settlement t' = tn_settlement t \<and> tn_answer t' = tn_answer t \<and>
     tn_answerCallId t' = tn_answerCallId t \<and> tn_failure t' = tn_failure t \<and> tn_calls t' = tn_calls t \<and>
     set (tn_outstanding t') \<subseteq> set (tn_outstanding t)"

lemma quiet_refl [simp]: "quiet t t"
  by (simp add: quiet_def)

lemma quiet_core:
  assumes "quiet t t'"
  shows "calls_ok t \<Longrightarrow> calls_ok t'" "fresh_turn t \<Longrightarrow> fresh_turn t'" "active_core r t \<Longrightarrow> active_core r t'"
  using assms by (auto simp: quiet_def calls_ok_def fresh_turn_def active_core_def running_None split: option.splits)

lemma turns_core_quiet:
  assumes "turns_core r ts" and "list_all2 quiet ts ts'"
  shows "turns_core r ts'"
proof -
  have act: "case active_turn ts of None \<Rightarrow> active_turn ts' = None | Some t \<Rightarrow> \<exists>t'. active_turn ts' = Some t' \<and> quiet t t'"
    by (rule active_turn_rel [OF assms(2)]) (simp add: quiet_def)
  then have same: "active_id ts' = active_id ts" by (auto simp: active_id_def quiet_def split: option.splits)
  have ids: "map tn_turnId ts' = map tn_turnId ts" by (rule list_all2_map_eq [OF assms(2)]) (simp add: quiet_def)
  have "tn_turnId u \<noteq> [] \<and> calls_ok u \<and> (tn_settlement u = None \<longrightarrow> tn_turnId u \<noteq> active_id ts \<longrightarrow> fresh_turn u)" if "u \<in> set ts'" for u
  proof -
    from list_all2_set2 [OF assms(2) that] obtain t where t: "t \<in> set ts" "quiet t u" by blast
    then have "tn_turnId u = tn_turnId t" "tn_settlement u = tn_settlement t" by (simp_all add: quiet_def)
    with turns_coreD(3,4,5) [OF assms(1) t(1)] quiet_core(1,2) [OF t(2)] show ?thesis by metis
  qed
  moreover have "case active_turn ts' of None \<Rightarrow> r = None | Some t \<Rightarrow> active_core r t"
    using act turns_coreD(6,7) [OF assms(1)] quiet_core(3) by (fastforce split: option.splits)
  ultimately show ?thesis using ids same turns_coreD(1) [OF assms(1)] by (simp add: turns_core_def)
qed

definition still_awaits :: "flight \<Rightarrow> turn \<Rightarrow> turn \<Rightarrow> bool" where
  "still_awaits flight t t' \<longleftrightarrow> (case flight of None \<Rightarrow> True | Some (ref, _) \<Rightarrow> awaits ref t \<longrightarrow> awaits ref t')"

lemma loop_quiet:
  assumes "turns_core (map_option snd flight) ts" "work_pending flight ts"
    and rel: "list_all2 (\<lambda>t t'. quiet t t' \<and> still_awaits flight t t') ts ts'"
  shows "turns_core (map_option snd flight) ts' \<and> work_pending flight ts'"
proof
  show "turns_core (map_option snd flight) ts'" using rel by (auto intro: turns_core_quiet [OF assms(1)] elim: list_all2_mono)
  have "case active_turn ts of None \<Rightarrow> active_turn ts' = None
      | Some t \<Rightarrow> \<exists>t'. active_turn ts' = Some t' \<and> (quiet t t' \<and> still_awaits flight t t')"
    by (rule active_turn_rel [OF rel]) (simp add: quiet_def)
  with assms(2) show "work_pending flight ts'"
    by (auto simp: work_pending_def still_awaits_def split: option.splits)
qed

lemma updateTurn_quiet:
  assumes "updateTurn P f ts = Some ts'" and "\<And>t. t \<in> set ts \<Longrightarrow> P t \<Longrightarrow> quiet t (f t) \<and> still_awaits flight t (f t)"
  shows "list_all2 (\<lambda>t t'. quiet t t' \<and> still_awaits flight t t') ts ts'"
  by (rule updateTurn_rel [OF assms(1)]) (use assms(2) in \<open>auto simp: still_awaits_def split: option.splits\<close>)

lemma loop_okD:
  assumes "loop_ok st flight"
  shows "derived st" "turns_core (map_option snd flight) (is_turns st)" "work_pending flight (is_turns st)"
  using assms by (simp_all add: loop_ok_def)

lemma inferState_result:
  "inferState pos st e = Inr st' \<longleftrightarrow> (\<exists>r. infer_turns st e = Inr r \<and> st' = (case r of None \<Rightarrow> st | Some ts \<Rightarrow> derive st pos ts))"
  by (auto simp: inferState_def split: sum.splits)

text \<open>A step whose array of turns is quiet keeps the invariant; so does a step that leaves it.\<close>

lemma loop_step:
  assumes "loop_ok st flight" "infer_turns st e = Inr r" "inferState pos st e = Inr st'"
    and "\<And>ts. r = Some ts \<Longrightarrow> turns_core (map_option snd flight') ts \<and> work_pending flight' ts"
    and "r = None \<Longrightarrow> flight' = flight"
  shows "loop_ok st' flight'"
  using assms by (cases r) (auto simp: inferState_result loop_ok_def)

lemma loop_step_quiet:
  assumes "loop_ok st flight" "infer_turns st e = Inr r" "inferState pos st e = Inr st'"
    and "\<And>ts. r = Some ts \<Longrightarrow> list_all2 (\<lambda>t t'. quiet t t' \<and> still_awaits flight t t') (is_turns st) ts"
  shows "loop_ok st' flight"
  using loop_quiet [OF loop_okD(2,3) [OF assms(1)]] assms(4) by (intro loop_step [OF assms(1-3)]) blast+

lemma settle_effect_quiet:
  assumes "settle_effect ref ts = Some ts'" and "case flight of None \<Rightarrow> True | Some (mine, _) \<Rightarrow> mine \<noteq> ref"
  shows "list_all2 (\<lambda>t t'. quiet t t' \<and> still_awaits flight t t') ts ts'"
  using assms(2) by (intro updateTurn_quiet [OF assms(1) [unfolded settle_effect_def]])
    (auto simp: quiet_def still_awaits_def awaits_def list_ex_iff split: option.splits)

lemma settles_effect_ref: "settles_effect e = Inr (Some ref) \<Longrightarrow> event_ref e = Some ref"
  by (cases e) (auto split: outcome.splits sum.splits if_splits)

lemma request_quiet:
  assumes "updateTurn P (\<lambda>t. t\<lparr>tn_effects := tn_effects t @ [w]\<rparr>) ts = Some ts'"
  shows "list_all2 (\<lambda>t t'. quiet t t' \<and> still_awaits flight t t') ts ts'"
  by (rule updateTurn_quiet [OF assms]) (simp add: quiet_def still_awaits_def awaits_def split: option.splits)

section \<open>The environment\<close>

lemma loop_environment:
  assumes ok: "loop_ok st flight" and env: "environment st flight e" and step: "inferState pos st e = Inr st'"
  shows "loop_ok st' flight"
proof -
  note core = loop_okD(2) [OF ok] and work = loop_okD(3) [OF ok]
  from step obtain r where r: "infer_turns st e = Inr r" by (auto simp: inferState_result)
  show ?thesis
  proof (cases e)
    case (TurnRequested q)
    with r have r': "r = Some (is_turns st @ [new_turn q])" and new: "tq_turnId q \<notin> tn_turnId ` set (is_turns st)"
      by (auto simp: list_ex_iff split: if_splits option.splits)
    have "turns_core (map_option snd flight) (is_turns st @ [new_turn q])"
      by (rule turns_core_append [OF core]) (use env TurnRequested new in \<open>auto simp: new_turn_def fresh_turn_def\<close>)
    moreover have "work_pending flight (is_turns st @ [new_turn q])"
      using work by (auto simp: work_pending_def active_turn_append split: option.splits)
    ultimately show ?thesis using r' by (intro loop_step [OF ok r step]) auto
  next
    case (AbortRequested ref reason)
    show ?thesis
    proof (rule loop_step_quiet [OF ok r step])
      show "r = Some ts \<Longrightarrow> list_all2 (\<lambda>t t'. quiet t t' \<and> still_awaits flight t t') (is_turns st) ts" for ts
        using AbortRequested r by simp (erule updateTurn_quiet, auto simp: quiet_def still_awaits_def awaits_def split: option.splits)
    qed
  next
    case (ToolReturned tr)
    show ?thesis
    proof (rule loop_step_quiet [OF ok r step])
      show "r = Some ts \<Longrightarrow> list_all2 (\<lambda>t t'. quiet t t' \<and> still_awaits flight t t') (is_turns st) ts" for ts
        using ToolReturned r by simp (erule updateTurn_quiet, auto simp: quiet_def still_awaits_def awaits_def split: option.splits)
    qed
  next
    case (Observed c)
    show ?thesis
    proof (cases "\<exists>q. c = EffectRequested q")
      case True
      then obtain q where "c = EffectRequested q" by blast
      show ?thesis
      proof (rule loop_step_quiet [OF ok r step])
        show "r = Some ts \<Longrightarrow> list_all2 (\<lambda>t t'. quiet t t' \<and> still_awaits flight t t') (is_turns st) ts" for ts
          using \<open>c = _\<close> Observed r by (simp split: if_splits) (erule request_quiet)
      qed
    next
      case False
      with Observed r have settle: "try_bind (settles_effect c) (\<lambda>ref. Inr (case ref of None \<Rightarrow> None | Some ref \<Rightarrow> settle_effect ref (is_turns st))) = Inr r"
        by (cases c) auto
      have other: "case flight of None \<Rightarrow> True | Some (mine, _) \<Rightarrow> event_ref c \<noteq> Some mine"
        using env Observed False by (cases c) auto
      have "list_all2 (\<lambda>t t'. quiet t t' \<and> still_awaits flight t t') (is_turns st) ts" if ts: "r = Some ts" for ts
      proof -
        from settle ts obtain ref where ref: "settles_effect c = Inr (Some ref)" "settle_effect ref (is_turns st) = Some ts"
          by (auto split: option.splits)
        show ?thesis by (rule settle_effect_quiet [OF ref(2)])
          (use other settles_effect_ref [OF ref(1)] in \<open>auto split: option.splits\<close>)
      qed
      then show ?thesis by (rule loop_step_quiet [OF ok r step])
    qed
  qed (use env in auto)
qed

section \<open>The component's own steps\<close>

lemma current_turn:
  assumes "loop_ok st flight"
  shows "find (\<lambda>t. tn_turnId t = is_turnId st) (is_turns st) = active_turn (is_turns st)"
proof (cases "active_turn (is_turns st)")
  case None
  then show ?thesis using turns_coreD(3) [OF loop_okD(2) [OF assms]] derivedD(1) [OF loop_okD(1) [OF assms]]
    by (auto simp: active_id_def find_None_iff)
next
  case (Some t)
  then show ?thesis using derivedD(1) [OF loop_okD(1) [OF assms]] active_turnD [OF Some]
      find_id [OF turns_coreD(1) [OF loop_okD(2) [OF assms]]] by (simp add: active_id_def)
qed

lemma spread_keys: "fst ` set (spread xs ys) \<subseteq> fst ` set xs \<union> fst ` set ys"
  by (induction xs ys rule: spread.induct) auto

lemma proposed_key: "(k, e) \<in> set (proposed_events inp st) \<Longrightarrow> k \<in> fst ` set (in_contextEvents inp) \<union> fst ` set (in_toolEvents inp)"
  using spread_keys [of "in_contextEvents inp" "in_toolEvents inp"] by (force simp: proposed_events_def)

lemma proposed_inference: "\<not> names_inference inp \<Longrightarrow> (''inference'', e) \<notin> set (proposed_events inp st)"
  unfolding names_inference_def using proposed_key by blast

lemma settle_turn_keeps:
  assumes "settle_turn st e t = Inr t'"
  shows "tn_turnId t' = tn_turnId t \<and> tn_settlement t' = Some (settled_outcome e) \<and> tn_calls t' = tn_calls t"
  using assms by (cases e) (auto split: if_splits)

lemma requested_view:
  assumes "vw_request (infer current selection inp st) = Some r"
  defines "t \<equiv> find (\<lambda>t. tn_turnId t = is_turnId st) (is_turns st)"
  shows "\<not> is_running st \<and> is_needsReply st \<and> \<not> is_waiting st \<and>
    (\<forall>v. t = Some v \<longrightarrow> tn_cancellation v = None \<and> tn_failure v = None) \<and>
    nr_callId r = is_callId st \<and> nr_turnId r = is_turnId st \<and> selection = Some (nr_configuration r)"
  using assms(1) unfolding infer_def Let_def t_def [symmetric]
  by (cases t; cases selection; cases "in_context inp") (auto split: if_split_asm option.split_asm bool.split_asm)

lemma settled_view:
  assumes "(''inference'', TurnSettled e) \<in> set (vw_events (infer current selection inp st))" and "\<not> names_inference inp"
  defines "t \<equiv> find (\<lambda>t. tn_turnId t = is_turnId st) (is_turns st)"
  shows "(\<exists>v reason. t = Some v \<and> tn_cancellation v = Some reason \<and> \<not> list_ex tf_pending (tn_effects v) \<and> tn_outstanding v = [] \<and>
      e = EndedTurn (tn_turnId v) CancelledTurn reason) \<or>
    \<not> is_running st \<and>
    ((\<exists>v reason. t = Some v \<and> tn_failure v = Some reason \<and> e = EndedTurn (tn_turnId v) FailedTurn reason) \<or>
     is_turnId st \<noteq> [] \<and> \<not> is_needsReply st \<and> e = CompletedCall (is_turnId st) (the (tn_answerCallId (the t))) \<or>
     is_needsReply st \<and> \<not> is_waiting st \<and> (\<exists>reason. e = EndedTurn (is_turnId st) FailedTurn reason))"
proof -
  have no: "(''inference'', x) \<notin> set (proposed_events inp st)" for x by (rule proposed_inference [OF assms(2)])
  have only: "(''inference'', TurnSettled e) \<in> set (js_set ''inference'' (TurnSettled e') (proposed_events inp st)) \<Longrightarrow> e = e'" for e'
    using set_js_set [of "''inference''" "TurnSettled e'" "proposed_events inp st"] no by auto
  have model: "(''inference'', TurnSettled e) \<notin> set (js_set ''model'' (ModelConfigured current) (proposed_events inp st))"
    using set_js_set [of "''model''" "ModelConfigured current" "proposed_events inp st"] no by auto
  show ?thesis
  proof (cases "\<exists>v reason. t = Some v \<and> tn_cancellation v = Some reason")
    case True
    then obtain v reason where v: "t = Some v" "tn_cancellation v = Some reason" by blast
    with assms(1) show ?thesis unfolding infer_def Let_def t_def [symmetric]
      by (auto split: if_splits simp: list_ex_iff filter_empty_conv)
  next
    case False
    then have "vw_events (infer current selection inp st) = vw_events (infer current selection inp st)" and
      nc: "t = None \<or> (\<exists>v. t = Some v \<and> tn_cancellation v = None)" by (cases t; auto)+
    with assms(1) show ?thesis unfolding infer_def Let_def t_def [symmetric]
      by (cases t) (auto split: option.splits if_splits bool.splits context_position.splits dest: only simp: no model)
  qed
qed

lemma loop_active:
  assumes "loop_ok st flight"
  shows "active_turn (is_turns st) = Some t \<Longrightarrow> is_turnId st = tn_turnId t \<and> is_callId st = next_call (Some t) \<and>
      (is_needsReply st \<longleftrightarrow> tn_answer t = None) \<and> (is_running st \<longleftrightarrow> running_call t \<noteq> None) \<and> (is_waiting st \<longleftrightarrow> tn_outstanding t \<noteq> [])"
    and "active_turn (is_turns st) = None \<Longrightarrow> is_turnId st = [] \<and> \<not> is_needsReply st \<and> \<not> is_running st \<and> \<not> is_waiting st"
  using derivedD [OF loop_okD(1) [OF assms]] by (simp_all add: active_id_def)

lemma loop_core:
  assumes "loop_ok st flight" "active_turn (is_turns st) = Some t"
  shows "active_core (map_option snd flight) t"
  by (rule turns_coreD(6) [OF loop_okD(2) [OF assms(1)] assms(2)])

lemma loop_flight:
  assumes "loop_ok st flight" "\<not> is_running st"
  shows "flight = None"
proof (cases "active_turn (is_turns st)")
  case None
  then show ?thesis using turns_coreD(7) [OF loop_okD(2) [OF assms(1)]] by simp
next
  case (Some t)
  have "running_call t = None" using loop_active(1) [OF assms(1) Some] assms(2) by simp
  then show ?thesis using loop_core [OF assms(1) Some]
    by (cases flight) (auto simp: active_core_def running_None)
qed

text \<open>Every settlement the component proposes is accepted, and keeps the invariant.\<close>

lemma proposed_accepted:
  assumes ok: "loop_ok st flight" and mem: "(''inference'', TurnSettled e) \<in> set (vw_events (infer current selection inp st))"
    and names: "\<not> names_inference inp"
  obtains t t' where "flight = None" "active_turn (is_turns st) = Some t" "settled_turn e = tn_turnId t" "settle_turn st e t = Inr t'"
    "infer_turns st (TurnSettled e) = Inr (Some (replace_turn t t' (is_turns st)))"
proof -
  note view = settled_view [OF mem names, unfolded current_turn [OF ok]]
  obtain t where t: "active_turn (is_turns st) = Some t"
    using view loop_active(2) [OF ok] by (cases "active_turn (is_turns st)") auto
  note act = loop_active(1) [OF ok t] and core = loop_core [OF ok t]
  have none: "flight = None"
  proof (cases "is_running st")
    case True
    then have "\<not> list_ex tf_pending (tn_effects t)" using view t by auto
    then show ?thesis using loop_okD(3) [OF ok] t by (cases flight) (auto simp: work_pending_def awaits_def list_ex_iff)
  qed (rule loop_flight [OF ok])
  then have idle: "\<not> is_running st" using core act by (simp add: active_core_def)
  have turn: "settled_turn e = tn_turnId t" using view t act by auto
  have "\<exists>t'. settle_turn st e t = Inr t'"
    using view t act core idle none by (auto simp: active_core_def)
  then obtain t' where t': "settle_turn st e t = Inr t'" by blast
  have "infer_turns st (TurnSettled e) = Inr (Some (replace_turn t t' (is_turns st)))"
    using find_id [OF turns_coreD(1) [OF loop_okD(2) [OF ok]], of t] active_turnD [OF t] turn t' act by (simp add: replace_turn_def)
  with that none t turn t' show thesis by blast
qed

lemma loop_proposed:
  assumes ok: "loop_ok st flight" and mem: "(''inference'', TurnSettled e) \<in> set (vw_events (infer current selection inp st))"
    and names: "\<not> names_inference inp" and step: "inferState pos st (TurnSettled e) = Inr st'"
  shows "loop_ok st' flight"
proof -
  obtain t t' where t: "flight = None" "active_turn (is_turns st) = Some t" "settle_turn st e t = Inr t'"
    "infer_turns st (TurnSettled e) = Inr (Some (replace_turn t t' (is_turns st)))" by (rule proposed_accepted [OF ok mem names])
  have "turns_core None (replace_turn t t' (is_turns st))"
    using loop_okD(2) [OF ok] t settle_turn_keeps [OF t(3)] turns_coreD(4) [OF loop_okD(2) [OF ok]] active_turnD [OF t(2)]
    by (intro turns_core_settle) (auto simp: calls_ok_def)
  with t(1) show ?thesis by (intro loop_step [OF ok t(4) step]) (auto simp: work_pending_def)
qed

text \<open>The model call that the acceptance of the request records is accepted.\<close>

lemma request_accepted:
  assumes ok: "loop_ok st flight" and req: "vw_request (infer current selection inp st) = Some r"
    and act: "sr_act (rq_request q) \<noteq> DeliverMessage_name"
  shows "\<exists>st'. run_events pos (Observed (EffectRequested q) # on_requested r) st = Inr st' \<and> loop_ok st' (Some (rq_ref q, r))"
proof -
  note view = requested_view [OF req, unfolded current_turn [OF ok]]
  obtain t where t: "active_turn (is_turns st) = Some t" using view loop_active(2) [OF ok] by (cases "active_turn (is_turns st)") auto
  note a = loop_active(1) [OF ok t] and tcore = loop_core [OF ok t] and core = loop_okD(2) [OF ok]
  have none: "flight = None" by (rule loop_flight [OF ok]) (use view in simp)
  have run: "running_call t = None" using view a by simp
  have call: "is_callId st = call_id (tn_turnId t) (length (tn_calls t))" using a run by (simp add: next_call_def call_id_def)
  have calls: "calls_ok t" using turns_coreD(4) [OF core] active_turnD [OF t] by blast
  define t1 where "t1 = t\<lparr>tn_effects := tn_effects t @ [\<lparr>tf_ref = rq_ref q, tf_pending = True\<rparr>]\<rparr>"
  define ts1 where "ts1 = replace_turn t t1 (is_turns st)"
  have act1: "active_turn ts1 = Some t1" unfolding ts1_def
    by (rule active_turn_replace [OF t]) (use active_turnD [OF t] in \<open>simp add: t1_def\<close>)
  have q1: "quiet t t1" by (simp add: quiet_def t1_def)
  have core1: "turns_core None ts1" unfolding ts1_def
    by (rule turns_core_replace [OF _ t]) (use core none tcore quiet_core [OF q1] calls active_turnD [OF t] in \<open>auto simp: t1_def\<close>)
  have first: "inferState pos st (Observed (EffectRequested q)) = Inr (derive st pos ts1)"
    using act update_active [OF core t, of "\<lambda>t. t\<lparr>tn_effects := tn_effects t @ [\<lparr>tf_ref = rq_ref q, tf_pending = True\<rparr>]\<rparr>"] a
    by (simp add: inferState_def ts1_def t1_def)
  have next1: "next_call (active_turn ts1) = is_callId st" using act1 a by (simp add: next_call_def t1_def running_call_def split: option.split)
  define t2 where "t2 = t1\<lparr>tn_calls := tn_calls t1 @ [\<lparr>tl_callId = is_callId st, tl_returned = False\<rparr>]\<rparr>"
  have "inferState (Suc pos) (derive st pos ts1) (InferenceCalled (nr_configuration r) (nr_turnId r) (nr_callId r)) =
      Inr (derive (derive st pos ts1) (Suc pos) (replace_turn t1 t2 ts1))"
    using view a act1 next1 run update_active [OF core1 act1, of "\<lambda>t. t\<lparr>tn_calls := tn_calls t @ [\<lparr>tl_callId = is_callId st, tl_returned = False\<rparr>]\<rparr>"]
    by (simp add: inferState_def t2_def active_id_def t1_def running_call_def)
  moreover have "turns_core (Some r) (replace_turn t1 t2 ts1)"
  proof (rule turns_core_replace [OF core1 act1])
    show "calls_ok t2" using calls_ok_append [of t1] quiet_core(1) [OF q1 calls] call by (simp add: t2_def t1_def)
    show "active_core (Some r) t2" using view t a tcore run none by (auto simp: active_core_def t2_def t1_def running_None)
  qed (use active_turnD [OF t] in \<open>simp_all add: t2_def t1_def\<close>)
  moreover have "work_pending (Some (rq_ref q, r)) (replace_turn t1 t2 ts1)"
    using active_turn_replace [OF act1, of t2] active_turnD [OF t]
    by (simp add: work_pending_def awaits_def t2_def t1_def)
  ultimately show ?thesis using first by (simp add: on_requested_def loop_ok_def)
qed

text \<open>What the settlement of the request derives is accepted.\<close>

lemma finish_call:
  assumes "turns_core (Some r) ts" "active_turn ts = Some t" "tn_turnId t' = tn_turnId t" "tn_settlement t' = None"
    "tn_calls t' = mark_returned (nr_callId r) (tn_calls t)" "tn_answer t' \<noteq> None \<Longrightarrow> tn_outstanding t' = [] \<and> tn_answerCallId t' \<noteq> None"
    "tn_failure t' \<noteq> None \<Longrightarrow> tn_outstanding t' = []"
  shows "turns_core None (replace_turn t t' ts)"
proof (rule turns_core_replace [OF assms(1-4)])
  show "calls_ok t'"
    using turns_coreD(4) [OF assms(1)] active_turnD [OF assms(2)] assms(3,5) by (simp add: calls_ok_def)
  show "active_core None t'"
    using turns_coreD(6) [OF assms(1,2)] assms(5-7) by (auto simp: active_core_def running_None mark_returned_all)
qed

lemma on_settled_cases:
  obtains (failed) reason where "on_settled inp r ref result = [ModelFailed (nr_callId r) reason]"
    | (rejected) e where "on_settled inp r ref result = [OutputRejected e]" "or_callId e = nr_callId r" "or_turnId e = nr_turnId r"
    | (returned) e where "on_settled inp r ref result = [InferenceReturned e]" "ir_callId e = nr_callId r"
        "distinct (map tk_callId (ir_toolCalls e))"
proof (cases result)
  case (Replied v)
  show thesis
  proof (cases "mr_outputErrors v")
    case None
    then show thesis using Replied returned failed numbered_calls_distinct
      by (cases "distinct (map pk_callId (mr_toolCalls v))") (auto simp: on_settled_def)
  qed (use Replied rejected in \<open>auto simp: on_settled_def\<close>)
qed (use failed in \<open>auto simp: on_settled_def\<close>)

lemma settlement_accepted:
  assumes ok: "loop_ok st (Some (ref, r))" and settles: "settlement_of ref e"
  shows "\<exists>st'. run_events pos (Observed e # on_settled inp r ref result) st = Inr st' \<and> loop_ok st' None"
proof -
  note core = loop_okD(2) [OF ok]
  obtain x where x: "infer_turns st (Observed e) = Inr x" and xs: "x = settle_effect ref (is_turns st)"
    using settles by (cases e) (auto simp: settlement_of_def)
  define st1 where "st1 = (case x of None \<Rightarrow> st | Some ts \<Rightarrow> derive st pos ts)"
  have first: "inferState pos st (Observed e) = Inr st1" using x by (simp add: inferState_def st1_def)
  have "list_all2 quiet (is_turns st) ts" if "x = Some ts" for ts
    using settle_effect_quiet [of ref "is_turns st" ts None] that xs by (auto elim: list_all2_mono)
  then have core1: "turns_core (Some r) (is_turns st1)" and der1: "derived st1"
    using core turns_core_quiet loop_okD(1) [OF ok] by (auto simp: st1_def split: option.splits)
  obtain t where t: "active_turn (is_turns st1) = Some t" using turns_coreD(7) [OF core1] by (cases "active_turn (is_turns st1)") auto
  have open1: "tn_settlement t = None" "t \<in> set (is_turns st1)" using active_turnD [OF t] by simp_all
  from turns_coreD(6) [OF core1 t] obtain cs where c: "tn_outstanding t = []" "tn_answer t = None" "tn_failure t = None" "nr_turnId r = tn_turnId t"
    "tn_calls t = cs @ [\<lparr>tl_callId = nr_callId r, tl_returned = False\<rparr>]" "list_all tl_returned cs" by (auto simp: active_core_def)
  have run: "is_running st1" "is_callId st1 = nr_callId r"
    using derivedD(2,4) [OF der1] t running_last [OF c(6,5)] by (simp_all add: next_call_def)
  have "has_call (nr_callId r) t" using c(5) by (simp add: has_call_def)
  note upd = update_call [OF core1 open1(2) this]
  have second: "\<exists>st2. inferState (Suc pos) st1 d = Inr st2 \<and> loop_ok st2 None"
    if d: "infer_turns st1 d = Inr (Some (replace_turn t t' (is_turns st1)))" and "turns_core None (replace_turn t t' (is_turns st1))" for d t'
    using that by (auto simp: inferState_def loop_ok_def work_pending_def)
  have "\<exists>d. on_settled inp r ref result = [d] \<and> (\<exists>st2. inferState (Suc pos) st1 d = Inr st2 \<and> loop_ok st2 None)"
  proof (cases rule: on_settled_cases [of inp r ref result])
    case (failed reason)
    then show ?thesis using run upd c open1
      by (auto intro!: second finish_call [OF core1 t])
  next
    case (rejected o')
    have "map (\<lambda>u. if tn_turnId u = or_turnId o' then f u else u) (is_turns st1) = replace_turn t (f t) (is_turns st1)" for f
      using distinct_id [OF turns_coreD(1) [OF core1] _ open1(2)] rejected(3) c(4) by (auto simp: replace_turn_def)
    then show ?thesis using run rejected c open1
      by (auto intro!: second finish_call [OF core1 t])
  next
    case (returned v)
    then show ?thesis using run upd c open1
      by (auto intro!: second finish_call [OF core1 t] split: if_split_asm)
  qed
  then show ?thesis using first by auto
qed

section \<open>Reachable states\<close>

lemma loop_start: "loop_ok initialInference None"
  by (simp add: loop_ok_def derived_def turns_core_def work_pending_def initialInference_def derive_def active_turn_def next_call_def)

lemma inference_reaches_ok: "inference_reaches st flight \<Longrightarrow> loop_ok st flight"
proof (induction rule: inference_reaches.induct)
  case inference_start
  show ?case by (rule loop_start)
next
  case (inference_environment st flight e pos st')
  then show ?case using loop_environment by blast
next
  case (inference_proposed st flight e current selection inp pos st')
  then show ?case using loop_proposed by blast
next
  case (inference_requested st flight current selection inp r q pos st')
  then show ?case using request_accepted by (metis sum.inject(2))
next
  case (inference_settled st ref r e pos inp result st')
  then show ?case using settlement_accepted by (metis sum.inject(2))
qed

end
