(* ===== verification/AgentProperties.thy ===== *)
theory AgentProperties
  imports InferenceLoop
begin

text \<open>
  What the inference component promises: whatever turns are requested and aborted, whatever the tools
  return and whatever becomes of the model requests, what it proposes and what its callbacks derive is
  accepted by its own state.
\<close>

section \<open>A concrete run\<close>

definition agent_model :: model_configuration where
  "agent_model = \<lparr>mc_model = \<lparr>ml_provider = ''p'', ml_model_id = ''m''\<rparr>, mc_contextWindowTokens = 1000\<rparr>"

definition agent_turn :: turn_requested where
  "agent_turn = \<lparr>tq_turnId = ''t'', tq_text = ''hi'', tq_content = None, tq_invocationRef = None, tq_source = None,
     tq_promiseRef = None, tq_outcome = None\<rparr>"

definition agent_input :: infer_input where
  "agent_input = \<lparr>in_system = [], in_context = ContextReady, in_contextEvents = [], in_toolEvents = [], in_acts = [],
     in_outputName = None, in_corrections = None\<rparr>"

definition agent_asked :: inference_state where
  "agent_asked = projr (inferState 0 initialInference (TurnRequested agent_turn))"

definition agent_call :: inference_request where
  "agent_call = the (vw_request (infer agent_model (Some agent_model) agent_input agent_asked))"

definition agent_ref :: effect_ref where
  "agent_ref = \<lparr>ref_seq = 2, ref_atom = ''agent'', ref_act = ''inference''\<rparr>"

definition agent_effect :: effect_requested where
  "agent_effect = \<lparr>rq_ref = agent_ref, rq_origin = None, rq_request = \<lparr>sr_act = ''model.infer'', sr_input = InlineInput JNull\<rparr>\<rparr>"

definition agent_running :: inference_state where
  "agent_running = projr (run_events 2 (Observed (EffectRequested agent_effect) # on_requested agent_call) agent_asked)"

definition agent_reply :: reply_outcome where
  "agent_reply = Replied \<lparr>mr_reasoning = None, mr_continuation = None, mr_text = ''hello'', mr_toolCalls = [], mr_usage = None,
     mr_outputErrors = None\<rparr>"

definition agent_settled :: core_event where
  "agent_settled = EffectSettled \<lparr>es_ref = agent_ref, es_outcome = Rejected JNull\<rparr>"

definition agent_answered :: inference_state where
  "agent_answered = projr (run_events 4 (Observed agent_settled # on_settled agent_input agent_call agent_ref agent_reply) agent_running)"

lemma agent_asked_reaches: "inference_reaches agent_asked None"
proof (rule inference_environment [OF inference_start])
  show "environment initialInference None (TurnRequested agent_turn)" by (simp add: agent_turn_def)
  show "inferState 0 initialInference (TurnRequested agent_turn) = Inr agent_asked"
    by (simp add: agent_asked_def inferState_def initialInference_def agent_turn_def)
qed

lemma agent_request: "vw_request (infer agent_model (Some agent_model) agent_input agent_asked) = Some agent_call"
  by code_simp

lemma agent_running_reaches: "inference_reaches agent_running (Some (agent_ref, agent_call))"
proof -
  have "run_events 2 (Observed (EffectRequested agent_effect) # on_requested agent_call) agent_asked = Inr agent_running"
    by code_simp
  moreover have "sr_act (rq_request agent_effect) \<noteq> DeliverMessage_name" by code_simp
  ultimately show ?thesis using inference_requested [OF agent_asked_reaches agent_request, of agent_effect 2]
    by (simp add: agent_effect_def)
qed

lemma agent_answered_reaches: "inference_reaches agent_answered None"
proof (rule inference_settled [OF agent_running_reaches])
  show "settlement_of agent_ref agent_settled" by (simp add: settlement_of_def agent_settled_def)
  show "run_events 4 (Observed agent_settled # on_settled agent_input agent_call agent_ref agent_reply) agent_running = Inr agent_answered"
    by code_simp
qed

section \<open>Acceptance\<close>

text \<open>C26. In every reachable state of the inference component, the settlement of a turn it proposes (the
  turn completed, failed, or cancelled after its work drained) is accepted by its state, and settles
  that turn with the outcome it names; it is never proposed while a model call is in flight.\<close>

theorem settlement_proposal_accepted:
  assumes "inference_reaches st flight" and "(''inference'', TurnSettled e) \<in> set (vw_events (infer current selection inp st))"
    and "\<not> names_inference inp"
  shows "flight = None \<and> (\<exists>st'. inferState pos st (TurnSettled e) = Inr st' \<and>
    (\<exists>t \<in> set (is_turns st'). tn_turnId t = settled_turn e \<and> tn_settlement t = Some (settled_outcome e)))"
proof -
  obtain t t' where t: "flight = None" "active_turn (is_turns st) = Some t" "settled_turn e = tn_turnId t" "settle_turn st e t = Inr t'"
    "infer_turns st (TurnSettled e) = Inr (Some (replace_turn t t' (is_turns st)))"
    by (rule proposed_accepted [OF inference_reaches_ok [OF assms(1)] assms(2,3)])
  have "t' \<in> set (replace_turn t t' (is_turns st))" using active_turnD [OF t(2)] by (force simp: replace_turn_def)
  with t(1,3,5) settle_turn_keeps [OF t(4)] show ?thesis
    by (simp add: inferState_def del: infer_turns.simps) metis
qed

theorem settlement_proposal_accepted_witness:
  "inference_reaches agent_answered None \<and> (\<exists>st'. inferState 9 agent_answered (TurnSettled (CompletedCall ''t'' ''model:t:0'')) = Inr st' \<and>
    (\<exists>t \<in> set (is_turns st'). tn_turnId t = ''t'' \<and> tn_settlement t = Some Completed))"
proof -
  have "(''inference'', TurnSettled (CompletedCall ''t'' ''model:t:0'')) \<in>
      set (vw_events (infer agent_model (Some agent_model) agent_input agent_answered))" by code_simp
  moreover have "\<not> names_inference agent_input" by (simp add: names_inference_def agent_input_def)
  ultimately show ?thesis
    using settlement_proposal_accepted [OF agent_answered_reaches, of "CompletedCall ''t'' ''model:t:0''" agent_model "Some agent_model" agent_input 9]
      agent_answered_reaches by simp
qed

text \<open>C27. In every reachable state of the inference component, recording the acceptance of the model
  request it proposes with the model call its callback derives is accepted; and so is recording the
  settlement of the request in flight with what its callback derives from any result, whatever was
  recorded in between: a reply, a rejected output, or a failure.\<close>

theorem model_call_accepted:
  assumes "inference_reaches st flight"
  shows "(vw_request (infer current selection inp st) = Some r \<longrightarrow> sr_act (rq_request q) \<noteq> DeliverMessage_name \<longrightarrow>
      (\<exists>st'. run_events pos (Observed (EffectRequested q) # on_requested r) st = Inr st' \<and> is_running st')) \<and>
    (flight = Some (ref, r) \<longrightarrow> settlement_of ref e \<longrightarrow>
      (\<exists>st'. run_events pos (Observed e # on_settled inp r ref result) st = Inr st' \<and> \<not> is_running st'))"
proof (intro conjI impI)
  assume "vw_request (infer current selection inp st) = Some r" "sr_act (rq_request q) \<noteq> DeliverMessage_name"
  from request_accepted [OF inference_reaches_ok [OF assms] this, of pos]
  show "\<exists>st'. run_events pos (Observed (EffectRequested q) # on_requested r) st = Inr st' \<and> is_running st'"
    using loop_flight by (metis option.distinct(1))
next
  assume f: "flight = Some (ref, r)" "settlement_of ref e"
  have "loop_ok st (Some (ref, r))" using inference_reaches_ok [OF assms] f(1) by simp
  from settlement_accepted [OF this f(2), of pos inp result] obtain st' where
    st': "run_events pos (Observed e # on_settled inp r ref result) st = Inr st'" "loop_ok st' None" by blast
  have "\<not> is_running st'" using loop_core [OF st'(2)] loop_active [OF st'(2)]
    by (cases "active_turn (is_turns st')") (auto simp: active_core_def)
  with st'(1) show "\<exists>st'. run_events pos (Observed e # on_settled inp r ref result) st = Inr st' \<and> \<not> is_running st'" by blast
qed

theorem model_call_accepted_witness:
  "inference_reaches agent_running (Some (agent_ref, agent_call)) \<and>
    (\<exists>st'. run_events 4 (Observed agent_settled # on_settled agent_input agent_call agent_ref agent_reply) agent_running = Inr st' \<and> \<not> is_running st')"
  using model_call_accepted [OF agent_running_reaches, of agent_model None agent_input agent_call agent_effect 4 agent_ref agent_settled agent_reply]
    agent_running_reaches
  by (simp add: settlement_of_def agent_settled_def del: run_events.simps)

end
