(* ===== verification/CodeEvents.thy ===== *)
theory CodeEvents
  imports Effects
begin

text \<open>
  The events of the code thread (\<open>packages/code/src/execution/events.ts\<close>), the fields its
  projections read (\<open>turns.ts\<close>), the policies (\<open>policy.ts\<close>, \<open>ids.ts\<close>) and the store of bounded
  values (\<open>storage/store.ts\<close>). A log event is open: a type and any JSON fields; an absent field is
  \<open>undefined\<close>.
\<close>

record log_event =
  le_type :: string
  le_fields :: "(string, json) fmap"

definition ev_field :: "log_event \<Rightarrow> string \<Rightarrow> json option" where
  "ev_field e k = fmlookup (le_fields e) k"

section \<open>Conversions\<close>

text \<open>\<open>String(v)\<close>; an array joins its elements, a null element counting as the empty text.\<close>

fun js_string :: "json \<Rightarrow> string" where
  "js_string JNull = ''null''"
| "js_string (JBool b) = (if b then ''true'' else ''false'')"
| "js_string (JInt n) = int_text n"
| "js_string (JNum t) = t"
| "js_string (JStr s) = s"
| "js_string (JArr vs) = join_comma (map (\<lambda>v. if v = JNull then [] else js_string v) vs)"
| "js_string (JObj m) = ''[object Object]''"

text \<open>\<open>String(v ?? "")\<close>.\<close>

definition text_or_empty :: "json option \<Rightarrow> string" where
  "text_or_empty v = (case v of None \<Rightarrow> [] | Some JNull \<Rightarrow> [] | Some v \<Rightarrow> js_string v)"

text \<open>
  \<open>Number(v ?? 0)\<close>, where only an integer matters to the callers: they compare it with an integer.
  The schemas of the fields it reads admit numbers only; a text is read as \<open>NaN\<close>.
\<close>

definition number_or_zero :: "json option \<Rightarrow> int option" where
  "number_or_zero v = (case v of
     None \<Rightarrow> Some 0 | Some JNull \<Rightarrow> Some 0 | Some (JInt n) \<Rightarrow> Some n | Some (JBool b) \<Rightarrow> Some (if b then 1 else 0) | Some _ \<Rightarrow> None)"

section \<open>Identities\<close>

record transition_ref =
  tn_seq :: int
  tn_component :: string
  tn_tag :: string

fun decode_transition :: "json \<Rightarrow> transition_ref option" where
  "decode_transition (JObj m) =
     Option.bind (required_key m ''seq'' (\<lambda>v. case v of JInt n \<Rightarrow> if 0 < n \<and> n \<le> max_safe_integer then Some n else None | _ \<Rightarrow> None)) (\<lambda>n.
     Option.bind (required_key m ''component'' decode_nonempty) (\<lambda>component.
     Option.bind (required_key m ''tag'' decode_nonempty) (\<lambda>tag.
       Some \<lparr>tn_seq = n, tn_component = component, tn_tag = tag\<rparr>)))"
| "decode_transition _ = None"

definition executionRefOf :: "log_event \<Rightarrow> runtime_error + transition_ref option" where
  "executionRefOf e = (case ev_field e (if le_type e = ''CodeDispatched'' then ''transitionRef'' else ''executionRef'') of
     None \<Rightarrow> Inr None
   | Some v \<Rightarrow> (case decode_transition v of None \<Rightarrow> Inl SchemaError | Some r \<Rightarrow> Inr (Some r)))"

definition transition_text :: "transition_ref \<Rightarrow> string" where
  "transition_text r = canonicalInput (JArr [JInt (tn_seq r), JStr (tn_component r), JStr (tn_tag r)])"

definition package_text :: "transition_ref \<Rightarrow> int \<Rightarrow> string" where
  "package_text r n = canonicalInput (JArr [JInt (tn_seq r), JStr (tn_component r), JStr (tn_tag r), JInt n])"

lemma transition_text_inject [simp]: "transition_text r = transition_text r' \<longleftrightarrow> r = r'"
proof
  assume "transition_text r = transition_text r'"
  then show "r = r'" unfolding transition_text_def
    by (subst (asm) canonical_inject) (auto intro: transition_ref.equality)
qed simp

lemma package_text_inject [simp]: "package_text r n = package_text r' n' \<longleftrightarrow> r = r' \<and> n = n'"
proof
  assume "package_text r n = package_text r' n'"
  then show "r = r' \<and> n = n'" unfolding package_text_def
    by (subst (asm) canonical_inject) (auto intro: transition_ref.equality)
qed simp

definition executionKeyOf :: "log_event \<Rightarrow> runtime_error + string" where
  "executionKeyOf e = try_bind (executionRefOf e) (\<lambda>r. Inr (case r of
     None \<Rightarrow> text_or_empty (ev_field e ''execId'')
   | Some r \<Rightarrow> transition_text r))"

fun ordinal_of :: "json option \<Rightarrow> int option" where
  "ordinal_of (Some (JInt n)) = (if safe_integer n \<and> 0 \<le> n then Some n else None)"
| "ordinal_of _ = None"

definition packageKeyOf :: "log_event \<Rightarrow> runtime_error + string" where
  "packageKeyOf e = try_bind (executionRefOf e) (\<lambda>r. case r of
     None \<Rightarrow> Inr (text_or_empty (ev_field e ''callId''))
   | Some r \<Rightarrow> (case ordinal_of (ev_field e ''ordinal'') of
       None \<Rightarrow> Inl (Error ''package call needs a non-negative ordinal'')
     | Some n \<Rightarrow> Inr (package_text r n)))"

definition code_key_of :: "log_event \<Rightarrow> runtime_error + string option" where
  "code_key_of e =
     (if le_type e = ''CodeDispatched'' then try_bind (executionKeyOf e) (\<lambda>k. Inr (Some (''cd:'' @ k)))
      else if le_type e = ''CodeSettled'' then try_bind (executionKeyOf e) (\<lambda>k. Inr (Some (''cs:'' @ k)))
      else if le_type e = ''PackageReturned'' then try_bind (packageKeyOf e) (\<lambda>k. Inr (Some (''pr:'' @ k)))
      else if le_type e = ''BlockedOn'' then try_bind (packageKeyOf e) (\<lambda>k. Inr (Some (''bk:'' @ k)))
      else Inr None)"

definition code_prefixes :: "string list" where
  "code_prefixes = [''cd:'', ''cs:'', ''pr:'', ''bk:'']"

text \<open>The schemas of the code thread's events; fields they do not name are not looked at.\<close>

fun is_text :: "json \<Rightarrow> bool" where
  "is_text (JStr _) = True" | "is_text _ = False"

fun is_number :: "json \<Rightarrow> bool" where
  "is_number (JInt _) = True" | "is_number (JNum _) = True" | "is_number _ = False"

definition has_field :: "log_event \<Rightarrow> string \<Rightarrow> (json \<Rightarrow> bool) \<Rightarrow> bool" where
  "has_field e k P \<longleftrightarrow> (case ev_field e k of None \<Rightarrow> False | Some v \<Rightarrow> P v)"

definition may_have :: "log_event \<Rightarrow> string \<Rightarrow> (json \<Rightarrow> bool) \<Rightarrow> bool" where
  "may_have e k P \<longleftrightarrow> (case ev_field e k of None \<Rightarrow> True | Some v \<Rightarrow> P v)"

definition json_with :: "(string \<times> (json \<Rightarrow> bool)) list \<Rightarrow> json \<Rightarrow> bool" where
  "json_with fs v \<longleftrightarrow> (case v of JObj m \<Rightarrow> list_all (\<lambda>(k, P). case fmlookup m k of None \<Rightarrow> False | Some w \<Rightarrow> P w) fs | _ \<Rightarrow> False)"

definition is_list_of :: "(json \<Rightarrow> bool) \<Rightarrow> json \<Rightarrow> bool" where
  "is_list_of P v \<longleftrightarrow> (case v of JArr vs \<Rightarrow> list_all P vs | _ \<Rightarrow> False)"

definition call_policy_json :: "json \<Rightarrow> bool" where
  "call_policy_json = json_with
     [(''call'', json_with [(''attemptTimeoutMs'', is_number), (''retryDelaysMs'', is_list_of is_number)]),
      (''spill'', json_with [(''spillBytes'', is_number), (''previewChars'', is_number), (''note'', is_text)]),
      (''shadow'', \<lambda>v. case v of JBool _ \<Rightarrow> True | _ \<Rightarrow> False)]"

definition code_event_ok :: "log_event \<Rightarrow> bool" where
  "code_event_ok e \<longleftrightarrow> has_field e ''at'' is_number \<and>
     (if le_type e = ''CodeDispatched'' then has_field e ''execId'' is_text \<and> has_field e ''code'' is_text \<and> may_have e ''epoch'' is_number
      else if le_type e = ''PackageCalled'' then has_field e ''callId'' is_text \<and> has_field e ''name'' is_text \<and> may_have e ''policy'' call_policy_json
      else if le_type e = ''PackageReturned'' then has_field e ''callId'' is_text
      else if le_type e = ''BlockedOn'' then has_field e ''callId'' is_text \<and> has_field e ''awaiting'' is_text \<and> may_have e ''turn'' is_text
      else le_type e = ''CodeSettled'' \<and> has_field e ''execId'' is_text \<and> may_have e ''error'' is_text \<and> may_have e ''logs'' (is_list_of is_text))"

section \<open>Constructors\<close>

record code_stamp =
  cp_owner :: "json option"
  cp_execution :: "transition_ref option"
  cp_ordinal :: "nat option"
  cp_turn :: "string option"
  cp_epoch :: "nat option"
  cp_at :: int

definition transition_json :: "transition_ref \<Rightarrow> json" where
  "transition_json r = JObj (fmap_of_list [(''seq'', JInt (tn_seq r)), (''component'', JStr (tn_component r)), (''tag'', JStr (tn_tag r))])"

definition opt_field :: "string \<Rightarrow> ('a \<Rightarrow> json) \<Rightarrow> 'a option \<Rightarrow> (string \<times> json) list" where
  "opt_field k f v = (case v of None \<Rightarrow> [] | Some x \<Rightarrow> [(k, f x)])"

definition stamp_fields :: "code_stamp \<Rightarrow> (string \<times> json) list" where
  "stamp_fields s = opt_field ''ownerRef'' (\<lambda>v. v) (cp_owner s) @ opt_field ''executionRef'' transition_json (cp_execution s) @
     opt_field ''ordinal'' (\<lambda>n. JInt (int n)) (cp_ordinal s) @ opt_field ''turn'' JStr (cp_turn s) @
     opt_field ''epoch'' (\<lambda>n. JInt (int n)) (cp_epoch s) @ [(''at'', JInt (cp_at s))]"

definition code_event :: "string \<Rightarrow> (string \<times> json) list \<Rightarrow> log_event" where
  "code_event t fs = \<lparr>le_type = t, le_fields = fmap_of_list fs\<rparr>"

definition codeDispatched :: "string \<Rightarrow> string \<Rightarrow> code_stamp \<Rightarrow> log_event" where
  "codeDispatched execId code s = code_event ''CodeDispatched'' ([(''execId'', JStr execId), (''code'', JStr code)] @ stamp_fields s)"

definition codeSettled :: "string \<Rightarrow> (string \<times> json) list \<Rightarrow> code_stamp \<Rightarrow> log_event" where
  "codeSettled execId outcome s = code_event ''CodeSettled'' ([(''execId'', JStr execId)] @ outcome @ stamp_fields s)"

definition packageCalled :: "string \<Rightarrow> string \<Rightarrow> json option \<Rightarrow> json \<Rightarrow> code_stamp \<Rightarrow> log_event" where
  "packageCalled callId name args policy s = code_event ''PackageCalled''
     ([(''callId'', JStr callId), (''name'', JStr name)] @ opt_field ''arguments'' (\<lambda>v. v) args @ [(''policy'', policy)] @ stamp_fields s)"

definition packageReturned :: "string \<Rightarrow> (string \<times> json) list \<Rightarrow> code_stamp \<Rightarrow> log_event" where
  "packageReturned callId outcome s = code_event ''PackageReturned'' ([(''callId'', JStr callId)] @ outcome @ stamp_fields s)"

definition blockedOn :: "string \<Rightarrow> string \<Rightarrow> code_stamp \<Rightarrow> log_event" where
  "blockedOn callId awaiting s = code_event ''BlockedOn'' ([(''callId'', JStr callId), (''awaiting'', JStr awaiting)] @ stamp_fields s)"

definition mintedRunId :: "string \<Rightarrow> string" where
  "mintedRunId mint = ''run-'' @ mint"

definition call_id_of :: "string \<Rightarrow> nat \<Rightarrow> string" where
  "call_id_of execId n = execId @ ''.'' @ nat_text n"

section \<open>Attribution to turns\<close>

definition idOf :: "log_event \<Rightarrow> string" where
  "idOf e = text_or_empty (ev_field e ''id'')"

definition turnOf :: "log_event \<Rightarrow> string option" where
  "turnOf e = map_option js_string (ev_field e ''turn'')"

definition eventEpochOf :: "log_event \<Rightarrow> int" where
  "eventEpochOf e = (case ordinal_of (ev_field e ''epoch'') of None \<Rightarrow> 0 | Some n \<Rightarrow> n)"

definition failedEpochOf :: "log_event \<Rightarrow> int option" where
  "failedEpochOf e = number_or_zero (ev_field e ''failedEpoch'')"

definition isTerminal :: "log_event \<Rightarrow> bool" where
  "isTerminal e \<longleftrightarrow> le_type e = ''TurnCompleted'' \<or> le_type e = ''TurnFailed'' \<or> le_type e = ''TurnCancelled''"

section \<open>Policies and bounded values\<close>

record package_call_policy =
  pl_attemptTimeoutMs :: int
  pl_retryDelaysMs :: "int list"

definition DEFAULT_PACKAGE_CALL_POLICY :: package_call_policy where
  "DEFAULT_PACKAGE_CALL_POLICY = \<lparr>pl_attemptTimeoutMs = 30000, pl_retryDelaysMs = [250, 1000, 4000]\<rparr>"

fun check_delays :: "nat \<Rightarrow> int list \<Rightarrow> runtime_error + unit" where
  "check_delays i [] = Inr ()"
| "check_delays i (d # ds) = (if \<not> safe_integer d \<or> d < 0
     then Inl (Error (''package call retryDelaysMs['' @ nat_text i @ ''] must be a non-negative safe integer''))
     else check_delays (Suc i) ds)"

definition packageCallPolicyOf :: "int option \<Rightarrow> int list option \<Rightarrow> runtime_error + package_call_policy" where
  "packageCallPolicyOf timeoutMs delays =
     (let timeoutMs = (case timeoutMs of None \<Rightarrow> pl_attemptTimeoutMs DEFAULT_PACKAGE_CALL_POLICY | Some t \<Rightarrow> t) in
      if \<not> safe_integer timeoutMs \<or> timeoutMs < 1
      then Inl (Error ''package call attemptTimeoutMs must be a positive safe integer'')
      else (let delays = (case delays of None \<Rightarrow> pl_retryDelaysMs DEFAULT_PACKAGE_CALL_POLICY | Some ds \<Rightarrow> ds) in
        try_bind (check_delays 0 delays) (\<lambda>_. Inr \<lparr>pl_attemptTimeoutMs = timeoutMs, pl_retryDelaysMs = delays\<rparr>)))"

record spill_policy =
  sy_spillBytes :: nat
  sy_previewChars :: nat
  sy_note :: "string \<Rightarrow> string"

definition quoted :: "string \<Rightarrow> string" where
  "quoted s = [CHR 0x27] @ s @ [CHR 0x27]"

definition WORKSPACE_SPILL_NOTE :: "string \<Rightarrow> string" where
  "WORKSPACE_SPILL_NOTE ref = ''full value: workspace.read({ref: '' @ quoted ref @ ''}), search it: workspace.grep({pattern, ref: '' @ quoted ref @ ''})''"

definition BARE_SPILL_NOTE :: "string \<Rightarrow> string" where
  "BARE_SPILL_NOTE ref = ''full value stored under ref '' @ quoted ref @ ''; this scope mounts no reader for it, so work from the preview''"

definition DEFAULT_SPILL_POLICY :: spill_policy where
  "DEFAULT_SPILL_POLICY = \<lparr>sy_spillBytes = 8192, sy_previewChars = 500, sy_note = WORKSPACE_SPILL_NOTE\<rparr>"

definition spillPolicyOf :: "nat option \<Rightarrow> nat option \<Rightarrow> (string \<Rightarrow> string) option \<Rightarrow> spill_policy" where
  "spillPolicyOf bytes chars note =
     \<lparr>sy_spillBytes = (case bytes of None \<Rightarrow> sy_spillBytes DEFAULT_SPILL_POLICY | Some n \<Rightarrow> n),
      sy_previewChars = (case chars of None \<Rightarrow> sy_previewChars DEFAULT_SPILL_POLICY | Some n \<Rightarrow> n),
      sy_note = (case note of None \<Rightarrow> sy_note DEFAULT_SPILL_POLICY | Some f \<Rightarrow> f)\<rparr>"

definition spillPointer :: "string \<Rightarrow> nat \<Rightarrow> string \<Rightarrow> (string \<Rightarrow> string) \<Rightarrow> (string \<times> json) list" where
  "spillPointer ref bytes preview note =
     [(''tmp'', JStr ref), (''size'', JInt (int bytes)), (''preview'', JStr preview), (''note'', JStr (note ref))]"

text \<open>
  The key-value store holds texts; the manifest under \<open>WORKSPACE_REFS\<close> is the text of a JSON array.
  \<open>parse\<close> is \<open>JSON.parse\<close>, \<open>None\<close> where it throws.
\<close>

type_synonym kv_store = "string \<Rightarrow> string option"

definition WORKSPACE_REFS :: string where
  "WORKSPACE_REFS = ''ws:refs''"

definition decodeRefs :: "(string \<Rightarrow> json option) \<Rightarrow> string option \<Rightarrow> string list" where
  "decodeRefs parse raw = (case raw of
     None \<Rightarrow> []
   | Some t \<Rightarrow> (case parse t of
       Some (JArr vs) \<Rightarrow> List.map_filter (\<lambda>v. case v of JStr s \<Rightarrow> Some s | _ \<Rightarrow> None) vs
     | _ \<Rightarrow> []))"

definition refs_text :: "string list \<Rightarrow> string" where
  "refs_text rs = canonicalInput (JArr (map JStr rs))"

definition spill :: "(string \<Rightarrow> json option) \<Rightarrow> string \<Rightarrow> string \<Rightarrow> kv_store \<Rightarrow> kv_store" where
  "spill parse ref text store =
     (let store = store(ref \<mapsto> text) in
      case store WORKSPACE_REFS of
        None \<Rightarrow> store(WORKSPACE_REFS \<mapsto> refs_text [ref])
      | Some current \<Rightarrow>
          let held = decodeRefs parse (Some current) in
          store(WORKSPACE_REFS \<mapsto> (if ref \<in> set held then current else refs_text (held @ [ref]))))"

definition hydrate :: "string \<Rightarrow> kv_store \<Rightarrow> string option" where
  "hydrate ref store = store ref"

definition refs_of :: "(string \<Rightarrow> json option) \<Rightarrow> kv_store \<Rightarrow> string list" where
  "refs_of parse store = decodeRefs parse (store WORKSPACE_REFS)"

end
