(* ===== verification/Turns.thy ===== *)
theory Turns
  imports CodeEvents
begin

text \<open>
  Turn attribution (\<open>packages/code/src/execution/turns.ts\<close>): the epoch and the terminal of a turn, the
  index that resolves them in one pass, the current turn and the conversation as served. A JavaScript
  \<open>Set\<close> is the list of its elements in insertion order.
\<close>

section \<open>Epochs\<close>

definition stamped :: "log_event list \<Rightarrow> string \<Rightarrow> log_event list" where
  "stamped log turn = filter (\<lambda>e. turnOf e = Some turn) log"

definition fails_at :: "string \<Rightarrow> int \<Rightarrow> log_event \<Rightarrow> bool" where
  "fails_at turn epoch e \<longleftrightarrow> le_type e = ''TurnFailed'' \<and> turnOf e = Some turn \<and> eventEpochOf e = epoch"

definition resumes_at :: "string \<Rightarrow> int \<Rightarrow> log_event \<Rightarrow> bool" where
  "resumes_at turn epoch e \<longleftrightarrow> le_type e = ''TurnResumed'' \<and> turnOf e = Some turn \<and>
     failedEpochOf e = Some epoch \<and> eventEpochOf e = epoch + 1"

definition continues :: "log_event list \<Rightarrow> string \<Rightarrow> int \<Rightarrow> bool" where
  "continues log turn epoch \<longleftrightarrow> list_ex (fails_at turn epoch) log \<and> list_ex (resumes_at turn epoch) log"

text \<open>
  The loop of \<open>turnEpochOf\<close>. Each round passes an epoch that some event failed, and none is passed
  twice, so it ends.
\<close>

definition failed_epochs :: "log_event list \<Rightarrow> int \<Rightarrow> int set" where
  "failed_epochs log epoch = {k \<in> eventEpochOf ` set log. epoch \<le> k}"

lemma failed_epochs_less: "continues log turn epoch \<Longrightarrow> card (failed_epochs log (epoch + 1)) < card (failed_epochs log epoch)"
  by (rule psubset_card_mono) (force simp: failed_epochs_def continues_def list_ex_iff fails_at_def)+

function epoch_loop :: "log_event list \<Rightarrow> string \<Rightarrow> int \<Rightarrow> int" where
  "epoch_loop log turn epoch = (if continues log turn epoch then epoch_loop log turn (epoch + 1) else epoch)"
  by pat_completeness auto
termination by (relation "measure (\<lambda>(log, turn, epoch). card (failed_epochs log epoch))") (auto intro: failed_epochs_less)

declare epoch_loop.simps [simp del]

definition turnEpochOf :: "log_event list \<Rightarrow> string \<Rightarrow> int" where
  "turnEpochOf log turn = epoch_loop log turn 0"

definition turnTerminalOf :: "log_event list \<Rightarrow> string \<Rightarrow> log_event option" where
  "turnTerminalOf log turn = (let epoch = turnEpochOf log turn in
     find (\<lambda>e. isTerminal e \<and> turnOf e = Some turn \<and> eventEpochOf e = epoch) log)"

definition activeStamped :: "log_event list \<Rightarrow> string \<Rightarrow> log_event list" where
  "activeStamped log turn = (let epoch = turnEpochOf log turn in
     filter (\<lambda>e. \<not> isTerminal e \<or> eventEpochOf e = epoch) (stamped log turn))"

section \<open>The index\<close>

definition set_add :: "'a \<Rightarrow> 'a list \<Rightarrow> 'a list" where
  "set_add x xs = (if x \<in> set xs then xs else xs @ [x])"

lemma set_set_add [simp]: "set (set_add x xs) = insert x (set xs)"
  by (auto simp: set_add_def)

type_synonym epoch_sets = "(string \<times> int list) list"

definition members :: "epoch_sets \<Rightarrow> string \<Rightarrow> int set" where
  "members index turn = (case map_of index turn of None \<Rightarrow> {} | Some epochs \<Rightarrow> set epochs)"

definition note_epoch :: "string \<Rightarrow> int \<Rightarrow> epoch_sets \<Rightarrow> epoch_sets" where
  "note_epoch turn epoch index = (case map_of index turn of
     None \<Rightarrow> js_set turn [epoch] index
   | Some epochs \<Rightarrow> js_set turn (set_add epoch epochs) index)"

lemma members_note [simp]: "members (note_epoch turn epoch index) t = (if t = turn then insert epoch (members index t) else members index t)"
  by (auto simp: members_def note_epoch_def split: option.splits)

text \<open>The loop over a turn's failures and resumes: \<open>while (failures.has(epoch) && resumes?.has(epoch))\<close>.\<close>

function advance :: "int list \<Rightarrow> int list \<Rightarrow> int \<Rightarrow> int" where
  "advance failures resumes epoch =
     (if epoch \<in> set failures \<and> epoch \<in> set resumes then advance failures resumes (epoch + 1) else epoch)"
  by pat_completeness auto
termination
proof (relation "measure (\<lambda>(failures, resumes, epoch). card {k \<in> set failures. epoch \<le> k})", goal_cases)
  case (2 failures resumes epoch)
  then have "{k \<in> set failures. epoch + 1 \<le> k} \<subset> {k \<in> set failures. epoch \<le> k}" by force
  then show ?case by (auto intro: psubset_card_mono)
qed simp

declare advance.simps [simp del]

record turn_index =
  ti_epochs :: "(string \<times> int) list"
  ti_terminals :: epoch_sets
  ti_heads :: "log_event list"
  ti_headsById :: "(string \<times> log_event) list"

record turn_scan =
  sn_terminals :: epoch_sets
  sn_heads :: "log_event list"
  sn_headsById :: "(string \<times> log_event) list"
  sn_failed :: epoch_sets
  sn_resumed :: epoch_sets

definition scan_start :: turn_scan where
  "scan_start = \<lparr>sn_terminals = [], sn_heads = [], sn_headsById = [], sn_failed = [], sn_resumed = []\<rparr>"

definition scan_event :: "log_event \<Rightarrow> turn_scan \<Rightarrow> turn_scan" where
  "scan_event e s =
     (if le_type e = ''MessageReceived'' then s\<lparr>sn_heads := sn_heads s @ [e], sn_headsById := js_set (idOf e) e (sn_headsById s)\<rparr>
      else if \<not> isTerminal e \<and> le_type e \<noteq> ''TurnResumed'' then s
      else (case turnOf e of
        None \<Rightarrow> s
      | Some turn \<Rightarrow>
          let epoch = eventEpochOf e;
              s = (if le_type e = ''TurnFailed'' then s\<lparr>sn_failed := note_epoch turn epoch (sn_failed s)\<rparr> else s);
              s = (if le_type e = ''TurnResumed'' then (case failedEpochOf e of
                     Some k \<Rightarrow> if epoch = k + 1 then s\<lparr>sn_resumed := note_epoch turn k (sn_resumed s)\<rparr> else s
                   | None \<Rightarrow> s) else s)
          in if isTerminal e then s\<lparr>sn_terminals := note_epoch turn epoch (sn_terminals s)\<rparr> else s))"

definition resolve_epochs :: "turn_scan \<Rightarrow> (string \<times> int) list" where
  "resolve_epochs s = fold (\<lambda>(turn, failures). js_set turn
     (advance failures (case map_of (sn_resumed s) turn of None \<Rightarrow> [] | Some ks \<Rightarrow> ks) 0)) (sn_failed s) []"

definition turnIndexOf :: "log_event list \<Rightarrow> turn_index" where
  "turnIndexOf log = (let s = fold scan_event log scan_start in
     \<lparr>ti_epochs = resolve_epochs s, ti_terminals = sn_terminals s, ti_heads = sn_heads s, ti_headsById = sn_headsById s\<rparr>)"

definition index_epoch :: "turn_index \<Rightarrow> string \<Rightarrow> int" where
  "index_epoch index turn = (case map_of (ti_epochs index) turn of None \<Rightarrow> 0 | Some epoch \<Rightarrow> epoch)"

definition indexedHead :: "turn_index \<Rightarrow> log_event option" where
  "indexedHead index = find (\<lambda>head. index_epoch index (idOf head) \<notin> members (ti_terminals index) (idOf head)) (ti_heads index)"

definition turnHead :: "log_event list \<Rightarrow> log_event option" where
  "turnHead log = indexedHead (turnIndexOf log)"

definition turnView :: "log_event list \<Rightarrow> log_event list" where
  "turnView log = (case turnHead log of None \<Rightarrow> [] | Some head \<Rightarrow> head # activeStamped log (idOf head))"

text \<open>\<open>trajectoryOf\<close>: the pass over the log, with the turns emitted so far.\<close>

definition superseded :: "turn_index \<Rightarrow> log_event \<Rightarrow> bool" where
  "superseded index e \<longleftrightarrow> (case turnOf e of None \<Rightarrow> False | Some turn \<Rightarrow> isTerminal e \<and> eventEpochOf e \<noteq> index_epoch index turn)"

definition trajectory_event :: "turn_index \<Rightarrow> log_event \<Rightarrow> string list \<times> log_event list \<Rightarrow> string list \<times> log_event list" where
  "trajectory_event index e = (\<lambda>(emitted, out).
     if le_type e = ''MessageReceived'' \<or> superseded index e then (emitted, out)
     else (case turnOf e of
       None \<Rightarrow> (emitted, out @ [e])
     | Some turn \<Rightarrow> if turn \<in> set emitted then (emitted, out @ [e])
         else (set_add turn emitted, out @ (case map_of (ti_headsById index) turn of None \<Rightarrow> [] | Some head \<Rightarrow> [head]) @ [e])))"

definition trajectoryOf :: "log_event list \<Rightarrow> log_event list" where
  "trajectoryOf log = (let index = turnIndexOf log; (emitted, out) = fold (trajectory_event index) log ([], []) in
     case indexedHead index of
       None \<Rightarrow> out
     | Some current \<Rightarrow> if idOf current \<in> set emitted then out else out @ [current])"

section \<open>The loops\<close>

lemma epoch_loop_least:
  "epoch \<le> epoch_loop log turn epoch \<and> (\<forall>k. epoch \<le> k \<and> k < epoch_loop log turn epoch \<longrightarrow> continues log turn k) \<and>
    \<not> continues log turn (epoch_loop log turn epoch)"
proof (induction log turn epoch rule: epoch_loop.induct)
  case (1 log turn epoch)
  show ?case
  proof (cases "continues log turn epoch")
    case True
    then have step: "epoch_loop log turn epoch = epoch_loop log turn (epoch + 1)" by (simp add: epoch_loop.simps [of log turn epoch])
    show ?thesis unfolding step using "1.IH" [OF True] True
      by (metis add.commute linorder_not_le order_le_less zle_add1_eq_le zless_add1_eq)
  next
    case False
    then have "epoch_loop log turn epoch = epoch" by (simp add: epoch_loop.simps [of log turn epoch])
    with False show ?thesis by auto
  qed
qed

lemma advance_epoch_loop:
  assumes "\<And>k. k \<in> set failures \<and> k \<in> set resumes \<longleftrightarrow> continues log turn k"
  shows "advance failures resumes epoch = epoch_loop log turn epoch"
  using assms
proof (induction log turn epoch rule: epoch_loop.induct)
  case (1 log turn epoch)
  show ?case
    by (subst advance.simps, subst epoch_loop.simps) (simp add: "1.prems" "1.IH" [OF _ "1.prems"])
qed

lemma turnEpochOf_nonneg [simp]: "0 \<le> turnEpochOf log turn"
  using epoch_loop_least by (simp add: turnEpochOf_def)

lemma turnEpochOf_unfailed: "\<not> list_ex (fails_at turn 0) log \<Longrightarrow> turnEpochOf log turn = 0"
  by (simp add: turnEpochOf_def epoch_loop.simps [of log turn 0] continues_def)

section \<open>What the index holds\<close>

definition terminal_at :: "string \<Rightarrow> int \<Rightarrow> log_event \<Rightarrow> bool" where
  "terminal_at turn epoch e \<longleftrightarrow> isTerminal e \<and> turnOf e = Some turn \<and> eventEpochOf e = epoch"

lemma fails_type [simp]: "fails_at t k e \<Longrightarrow> isTerminal e"
  by (simp add: fails_at_def isTerminal_def)

lemma types_disjoint [simp]:
  "isTerminal e \<Longrightarrow> le_type e \<noteq> ''MessageReceived''" "isTerminal e \<Longrightarrow> le_type e \<noteq> ''TurnResumed''"
  by (auto simp: isTerminal_def)

definition scan_log :: "log_event list \<Rightarrow> turn_scan" where
  "scan_log log = fold scan_event log scan_start"

lemma scan_snoc: "scan_log (log @ [e]) = scan_event e (scan_log log)"
  by (simp add: scan_log_def)

lemma scan_heads: "sn_heads (scan_log log) = filter (\<lambda>e. le_type e = ''MessageReceived'') log"
  by (induction log rule: rev_induct)
    (simp add: scan_log_def scan_start_def, auto simp: scan_snoc scan_event_def Let_def split: option.split)

lemma scan_headsById:
  "map_of (sn_headsById (scan_log log)) i = find (\<lambda>e. le_type e = ''MessageReceived'' \<and> idOf e = i) (rev log)"
  by (induction log rule: rev_induct)
    (simp add: scan_log_def scan_start_def, auto simp: scan_snoc scan_event_def Let_def split: option.split)

lemma scan_failed: "members (sn_failed (scan_log log)) t = {k. list_ex (fails_at t k) log}"
proof (induction log rule: rev_induct)
  case Nil
  show ?case by (simp add: scan_log_def scan_start_def members_def)
next
  case (snoc e log)
  then show ?case
    by (cases "turnOf e") (auto simp: scan_snoc scan_event_def Let_def fails_at_def isTerminal_def split: option.split)
qed

lemma scan_resumed: "members (sn_resumed (scan_log log)) t = {k. list_ex (resumes_at t k) log}"
proof (induction log rule: rev_induct)
  case Nil
  show ?case by (simp add: scan_log_def scan_start_def members_def)
next
  case (snoc e log)
  then show ?case
    by (cases "turnOf e") (auto simp: scan_snoc scan_event_def Let_def resumes_at_def isTerminal_def split: option.split)
qed

lemma scan_terminals: "members (sn_terminals (scan_log log)) t = {k. list_ex (terminal_at t k) log}"
proof (induction log rule: rev_induct)
  case Nil
  show ?case by (simp add: scan_log_def scan_start_def members_def)
next
  case (snoc e log)
  then show ?case
    by (cases "turnOf e") (auto simp: scan_snoc scan_event_def Let_def terminal_at_def isTerminal_def split: option.split)
qed

lemma scan_failed_distinct: "distinct (map fst (sn_failed (scan_log log)))"
proof (induction log rule: rev_induct)
  case Nil
  show ?case by (simp add: scan_log_def scan_start_def)
next
  case (snoc e log)
  then show ?case
    by (cases "turnOf e") (auto simp: scan_snoc scan_event_def Let_def note_epoch_def split: option.split)
qed

lemma map_of_fold_js_set:
  "distinct (map fst xs) \<Longrightarrow> map_of (fold (\<lambda>(k, v). js_set k (f k v)) xs ys) t =
    (case map_of xs t of Some v \<Rightarrow> Some (f t v) | None \<Rightarrow> map_of ys t)"
proof (induction xs arbitrary: ys)
  case (Cons x xs)
  obtain k v where x: "x = (k, v)" by (cases x)
  with Cons.prems have "map_of xs k = None" by (simp add: map_of_eq_None_iff)
  then show ?case using Cons.IH [of "js_set k (f k v) ys"] Cons.prems x by (cases "k = t") (simp_all split: option.split)
qed simp

lemma index_epoch_turnIndexOf: "index_epoch (turnIndexOf log) turn = turnEpochOf log turn"
proof -
  let ?s = "scan_log log"
  let ?f = "\<lambda>t failures. advance failures (case map_of (sn_resumed ?s) t of None \<Rightarrow> [] | Some ks \<Rightarrow> ks) 0"
  have eps: "map_of (ti_epochs (turnIndexOf log)) turn = map_option (?f turn) (map_of (sn_failed ?s) turn)"
    using map_of_fold_js_set [OF scan_failed_distinct, of ?f log "[]" turn]
    by (simp add: turnIndexOf_def resolve_epochs_def scan_log_def Let_def case_prod_unfold split: option.splits)
  show ?thesis
  proof (cases "map_of (sn_failed ?s) turn")
    case None
    then have "members (sn_failed ?s) turn = {}" by (simp add: members_def)
    then have "\<not> list_ex (fails_at turn 0) log" by (auto simp: scan_failed)
    with None eps show ?thesis by (simp add: index_epoch_def turnEpochOf_unfailed)
  next
    case (Some failures)
    have f: "k \<in> set failures \<longleftrightarrow> list_ex (fails_at turn k) log" for k
      using scan_failed [of log turn] Some by (auto simp: members_def)
    have r: "k \<in> set (case map_of (sn_resumed ?s) turn of None \<Rightarrow> [] | Some ks \<Rightarrow> ks) \<longleftrightarrow> list_ex (resumes_at turn k) log" for k
      using scan_resumed [of log turn] by (auto simp: members_def split: option.splits)
    have "?f turn failures = epoch_loop log turn 0" by (rule advance_epoch_loop) (simp only: f r continues_def)
    with Some eps show ?thesis by (simp add: index_epoch_def turnEpochOf_def)
  qed
qed

lemma turnTerminalOf_None: "turnTerminalOf log turn = None \<longleftrightarrow> \<not> list_ex (terminal_at turn (turnEpochOf log turn)) log"
  by (auto simp: turnTerminalOf_def Let_def find_None_iff list_ex_iff terminal_at_def)

lemma index_terminals: "epoch \<in> members (ti_terminals (turnIndexOf log)) turn \<longleftrightarrow> list_ex (terminal_at turn epoch) log"
  using scan_terminals [of log turn] by (simp add: turnIndexOf_def scan_log_def Let_def)

lemma index_heads:
  "ti_heads (turnIndexOf log) = filter (\<lambda>e. le_type e = ''MessageReceived'') log"
  "map_of (ti_headsById (turnIndexOf log)) i = find (\<lambda>e. le_type e = ''MessageReceived'' \<and> idOf e = i) (rev log)"
  using scan_heads [of log] scan_headsById [of log i] by (simp_all add: turnIndexOf_def scan_log_def Let_def)

lemma find_filter: "find P (filter Q xs) = find (\<lambda>x. Q x \<and> P x) xs"
  by (induction xs) auto

text \<open>The current turn is headed by the first message that is not served.\<close>

lemma turnHead_eq: "turnHead log = find (\<lambda>e. le_type e = ''MessageReceived'' \<and> turnTerminalOf log (idOf e) = None) log"
  by (simp add: turnHead_def indexedHead_def index_heads find_filter index_epoch_turnIndexOf index_terminals turnTerminalOf_None)

end
