(* ===== verification/TurnProjection.thy ===== *)
theory TurnProjection
  imports Turns
begin

text \<open>
  The incremental projection of turns (\<open>packages/code/src/execution/turn-projection.ts\<close>): one state
  advanced per event, from which the current turn, the conversation and a turn's terminal are read.
  A \<open>HashMap\<close> is an association list with distinct keys, a \<open>HashSet\<close> or \<open>Chunk\<close> a list; nothing read
  from the state depends on the order of a map's entries. The lemmas relate the state after a log to
  the functions of \<open>turns.ts\<close> on that log.
\<close>

section \<open>State\<close>

record turn_record =
  tc_events :: "log_event list"
  tc_failed :: "int list"
  tc_resumed :: "int list"
  tc_terminals :: "(int \<times> log_event) list"
  tc_epoch :: int

type_synonym turn_head = "log_event \<times> nat"

record turn_projection =
  tp_nextHead :: nat
  tp_heads :: "(string \<times> turn_head) list"
  tp_open :: "(string \<times> nat) list"
  tp_turns :: "(string \<times> turn_record) list"
  tp_served :: "string list"
  tp_trajectory :: "log_event list"

definition emptyTurn :: turn_record where
  "emptyTurn = \<lparr>tc_events = [], tc_failed = [], tc_resumed = [], tc_terminals = [], tc_epoch = 0\<rparr>"

definition initialTurnProjection :: turn_projection where
  "initialTurnProjection = \<lparr>tp_nextHead = 0, tp_heads = [], tp_open = [], tp_turns = [], tp_served = [], tp_trajectory = []\<rparr>"

definition turn_rec :: "turn_projection \<Rightarrow> string \<Rightarrow> turn_record" where
  "turn_rec s turn = (case map_of (tp_turns s) turn of None \<Rightarrow> emptyTurn | Some r \<Rightarrow> r)"

section \<open>Reduction\<close>

definition advanceEpoch :: "turn_record \<Rightarrow> int" where
  "advanceEpoch r = advance (tc_failed r) (tc_resumed r) (tc_epoch r)"

definition ended :: "turn_record \<Rightarrow> bool" where
  "ended r \<longleftrightarrow> js_has (tc_terminals r) (tc_epoch r)"

definition reduceHead :: "log_event \<Rightarrow> turn_projection \<Rightarrow> turn_projection" where
  "reduceHead e s =
     (if le_type e \<noteq> ''MessageReceived'' then s
      else if js_has (tp_heads s) (idOf e) then s
      else s\<lparr>tp_nextHead := tp_nextHead s + 1, tp_heads := js_set (idOf e) (e, tp_nextHead s) (tp_heads s),
             tp_open := (if ended (turn_rec s (idOf e)) then tp_open s else js_set (idOf e) (tp_nextHead s) (tp_open s))\<rparr>)"

definition reduce_record :: "log_event \<Rightarrow> turn_record \<Rightarrow> turn_record" where
  "reduce_record e r =
     (let epoch = eventEpochOf e;
          failed = (if le_type e = ''TurnFailed'' then set_add epoch (tc_failed r) else tc_failed r);
          resumed = (if le_type e = ''TurnResumed'' then (case failedEpochOf e of
                       Some k \<Rightarrow> if epoch \<noteq> k + 1 then tc_resumed r else set_add k (tc_resumed r)
                     | None \<Rightarrow> tc_resumed r) else tc_resumed r);
          terminals = (if isTerminal e then js_set epoch e (tc_terminals r) else tc_terminals r)
      in \<lparr>tc_events = tc_events r @ [e], tc_failed = failed, tc_resumed = resumed, tc_terminals = terminals,
          tc_epoch = advanceEpoch (r\<lparr>tc_failed := failed, tc_resumed := resumed, tc_terminals := terminals\<rparr>)\<rparr>)"

definition reduceTurn :: "log_event \<Rightarrow> turn_projection \<Rightarrow> turn_projection" where
  "reduceTurn e s = (case turnOf e of
     None \<Rightarrow> s
   | Some turn \<Rightarrow>
       let r = reduce_record e (turn_rec s turn);
           s' = s\<lparr>tp_turns := js_set turn r (tp_turns s)\<rparr>
       in case map_of (tp_heads s) turn of
            None \<Rightarrow> s'
          | Some (head, order) \<Rightarrow> s'\<lparr>tp_open := (if ended r then js_delete turn (tp_open s) else js_set turn order (tp_open s))\<rparr>)"

definition reduceTrajectory :: "log_event \<Rightarrow> turn_projection \<Rightarrow> turn_projection" where
  "reduceTrajectory e s =
     (if le_type e = ''MessageReceived'' then s
      else (case turnOf e of
        None \<Rightarrow> s\<lparr>tp_trajectory := tp_trajectory s @ [e]\<rparr>
      | Some turn \<Rightarrow>
          if turn \<in> set (tp_served s) then s\<lparr>tp_trajectory := tp_trajectory s @ [e]\<rparr>
          else s\<lparr>tp_served := set_add turn (tp_served s),
                 tp_trajectory := tp_trajectory s @ (case map_of (tp_heads s) turn of None \<Rightarrow> [e] | Some (head, _) \<Rightarrow> [head, e])\<rparr>))"

definition reduceTurnProjection :: "log_event \<Rightarrow> turn_projection \<Rightarrow> turn_projection" where
  "reduceTurnProjection e s = reduceTrajectory e (reduceTurn e (reduceHead e s))"

section \<open>Readers\<close>

definition currentHead :: "turn_projection \<Rightarrow> (string \<times> turn_head) option" where
  "currentHead s = fold (\<lambda>(turn, order) current. case map_of (tp_heads s) turn of
       None \<Rightarrow> current
     | Some head \<Rightarrow> (case current of
         None \<Rightarrow> Some (turn, head)
       | Some (_, _, least) \<Rightarrow> if order < least then Some (turn, head) else current)) (tp_open s) None"

definition turnViewFrom :: "turn_projection \<Rightarrow> log_event list" where
  "turnViewFrom s = (case currentHead s of
     None \<Rightarrow> []
   | Some (turn, head, _) \<Rightarrow> let r = turn_rec s turn in head # filter (\<lambda>e. \<not> isTerminal e \<or> eventEpochOf e = tc_epoch r) (tc_events r))"

definition trajectoryFrom :: "turn_projection \<Rightarrow> log_event list" where
  "trajectoryFrom s =
     (let projected = filter (\<lambda>e. case turnOf e of
            None \<Rightarrow> True
          | Some turn \<Rightarrow> \<not> isTerminal e \<or> eventEpochOf e = tc_epoch (turn_rec s turn)) (tp_trajectory s)
      in case currentHead s of
        None \<Rightarrow> projected
      | Some (turn, head, _) \<Rightarrow> if turn \<in> set (tp_served s) then projected else projected @ [head])"

definition turnTerminalAtFrom :: "turn_projection \<Rightarrow> string \<Rightarrow> int \<Rightarrow> log_event option" where
  "turnTerminalAtFrom s turn epoch = map_of (tc_terminals (turn_rec s turn)) epoch"

definition turnEpochFrom :: "turn_projection \<Rightarrow> string \<Rightarrow> int" where
  "turnEpochFrom s turn = tc_epoch (turn_rec s turn)"

definition turnTerminalFrom :: "turn_projection \<Rightarrow> string \<Rightarrow> log_event option" where
  "turnTerminalFrom s turn = (let r = turn_rec s turn in map_of (tc_terminals r) (tc_epoch r))"

definition turnHeadFrom :: "turn_projection \<Rightarrow> string \<Rightarrow> log_event option" where
  "turnHeadFrom s turn = map_option fst (map_of (tp_heads s) turn)"

definition projected_turns :: "log_event list \<Rightarrow> turn_projection" where
  "projected_turns log = fold reduceTurnProjection log initialTurnProjection"

text \<open>Each stage owns its fields.\<close>

lemma reduceHead_keeps [simp]:
  "tp_turns (reduceHead e s) = tp_turns s" "turn_rec (reduceHead e s) = turn_rec s"
  "tp_served (reduceHead e s) = tp_served s" "tp_trajectory (reduceHead e s) = tp_trajectory s"
  by (simp_all add: reduceHead_def turn_rec_def fun_eq_iff)

lemma reduceTurn_keeps [simp]:
  "tp_heads (reduceTurn e s) = tp_heads s" "tp_nextHead (reduceTurn e s) = tp_nextHead s"
  "tp_served (reduceTurn e s) = tp_served s" "tp_trajectory (reduceTurn e s) = tp_trajectory s"
  by (simp_all add: reduceTurn_def Let_def split: option.split)

lemma reduceTrajectory_keeps [simp]:
  "tp_heads (reduceTrajectory e s) = tp_heads s" "tp_nextHead (reduceTrajectory e s) = tp_nextHead s"
  "tp_open (reduceTrajectory e s) = tp_open s" "tp_turns (reduceTrajectory e s) = tp_turns s"
  by (simp_all add: reduceTrajectory_def split: option.split)

lemma projected_snoc:
  "projected_turns (log @ [e]) = reduceTrajectory e (reduceTurn e (reduceHead e (projected_turns log)))"
  by (simp add: projected_turns_def reduceTurnProjection_def)

section \<open>Records of turns\<close>

definition record_matches :: "log_event list \<Rightarrow> string \<Rightarrow> turn_record \<Rightarrow> bool" where
  "record_matches log turn r \<longleftrightarrow> tc_events r = stamped log turn \<and> set (tc_failed r) = {k. list_ex (fails_at turn k) log} \<and>
     set (tc_resumed r) = {k. list_ex (resumes_at turn k) log} \<and>
     (\<forall>k. map_of (tc_terminals r) k = find (terminal_at turn k) (rev log)) \<and> tc_epoch r = turnEpochOf log turn"

lemma continues_mono: "continues log turn k \<Longrightarrow> continues (log @ log') turn k"
  by (auto simp: continues_def)

lemma epoch_loop_from:
  assumes "0 \<le> epoch" and "\<And>k. 0 \<le> k \<Longrightarrow> k < epoch \<Longrightarrow> continues log turn k"
  shows "epoch_loop log turn epoch = turnEpochOf log turn"
proof -
  let ?a = "epoch_loop log turn epoch" and ?b = "epoch_loop log turn 0"
  note a = epoch_loop_least [of epoch log turn] and b = epoch_loop_least [of 0 log turn]
  have "\<not> ?a < ?b" using a b assms(1) by (meson order_trans)
  moreover have "\<not> ?b < ?a" using a b assms by (metis not_le)
  ultimately show ?thesis by (simp add: turnEpochOf_def)
qed

lemma record_matches_snoc:
  assumes "record_matches log turn r" and "turnOf e = Some turn"
  shows "record_matches (log @ [e]) turn (reduce_record e r)"
proof -
  let ?r = "reduce_record e r"
  have m: "tc_events r = stamped log turn" "set (tc_failed r) = {k. list_ex (fails_at turn k) log}"
    "set (tc_resumed r) = {k. list_ex (resumes_at turn k) log}" "map_of (tc_terminals r) k = find (terminal_at turn k) (rev log)"
    "tc_epoch r = turnEpochOf log turn" for k
    using assms(1) by (auto simp: record_matches_def)
  have f: "set (tc_failed ?r) = {k. list_ex (fails_at turn k) (log @ [e])}"
    using assms(2) m(2) by (auto simp: reduce_record_def Let_def fails_at_def)
  have s: "set (tc_resumed ?r) = {k. list_ex (resumes_at turn k) (log @ [e])}"
    using assms(2) m(3) by (auto simp: reduce_record_def Let_def resumes_at_def split: option.splits)
  have t: "map_of (tc_terminals ?r) k = find (terminal_at turn k) (rev (log @ [e]))" for k
    using assms(2) m(4) by (auto simp: reduce_record_def Let_def terminal_at_def)
  have "tc_epoch ?r = advance (tc_failed ?r) (tc_resumed ?r) (tc_epoch r)"
    by (simp add: reduce_record_def advanceEpoch_def Let_def)
  also have "\<dots> = epoch_loop (log @ [e]) turn (tc_epoch r)"
    by (rule advance_epoch_loop) (simp add: f s continues_def)
  also have "\<dots> = turnEpochOf (log @ [e]) turn"
    by (rule epoch_loop_from) (use m(5) epoch_loop_least [of 0 log turn] continues_mono in \<open>auto simp: turnEpochOf_def\<close>)
  finally show ?thesis using f s t m(1) assms(2) by (simp add: record_matches_def reduce_record_def Let_def stamped_def)
qed

lemma other_turn:
  assumes "turnOf e \<noteq> Some turn"
  shows "list_ex (fails_at turn k) (log @ [e]) = list_ex (fails_at turn k) log"
    "list_ex (resumes_at turn k) (log @ [e]) = list_ex (resumes_at turn k) log"
    "find (terminal_at turn k) (rev (log @ [e])) = find (terminal_at turn k) (rev log)"
    "stamped (log @ [e]) turn = stamped log turn" "turnEpochOf (log @ [e]) turn = turnEpochOf log turn"
proof -
  show f: "list_ex (fails_at turn k) (log @ [e]) = list_ex (fails_at turn k) log" for k using assms by (auto simp: fails_at_def)
  show r: "list_ex (resumes_at turn k) (log @ [e]) = list_ex (resumes_at turn k) log" for k using assms by (auto simp: resumes_at_def)
  show "find (terminal_at turn k) (rev (log @ [e])) = find (terminal_at turn k) (rev log)" using assms by (auto simp: terminal_at_def)
  show "stamped (log @ [e]) turn = stamped log turn" using assms by (auto simp: stamped_def)
  have "continues (log @ [e]) turn k = continues log turn k" for k by (simp only: continues_def f r)
  then show "turnEpochOf (log @ [e]) turn = turnEpochOf log turn"
    using epoch_loop_least [of 0 log turn] epoch_loop_from [of "epoch_loop log turn 0" "log @ [e]" turn]
    by (simp add: turnEpochOf_def epoch_loop.simps [of "log @ [e]" turn "epoch_loop log turn 0"])
qed

lemma record_matches_other:
  assumes "record_matches log turn r" and "turnOf e \<noteq> Some turn"
  shows "record_matches (log @ [e]) turn r"
  using assms(1) unfolding record_matches_def other_turn [OF assms(2)] .

lemma turns_match: "record_matches log turn (turn_rec (projected_turns log) turn)"
proof (induction log arbitrary: turn rule: rev_induct)
  case Nil
  have "turnEpochOf [] turn = 0" by (rule turnEpochOf_unfailed) simp
  then show ?case by (simp add: record_matches_def projected_turns_def initialTurnProjection_def turn_rec_def emptyTurn_def stamped_def)
next
  case (snoc e log)
  let ?s = "projected_turns log"
  have turns: "tp_turns (projected_turns (log @ [e])) =
      (case turnOf e of None \<Rightarrow> tp_turns ?s | Some t \<Rightarrow> js_set t (reduce_record e (turn_rec ?s t)) (tp_turns ?s))"
    by (simp add: projected_snoc) (simp add: reduceTurn_def Let_def split: option.split)
  show ?case
  proof (cases "turnOf e = Some turn")
    case True
    then have "turn_rec (projected_turns (log @ [e])) turn = reduce_record e (turn_rec ?s turn)"
      by (simp add: turn_rec_def turns)
    with record_matches_snoc [OF snoc.IH True] show ?thesis by simp
  next
    case False
    then have "turn_rec (projected_turns (log @ [e])) turn = turn_rec ?s turn"
      by (auto simp: turn_rec_def turns split: option.split)
    with record_matches_other [OF snoc.IH False] show ?thesis by simp
  qed
qed

lemma turns_matchD:
  "tc_events (turn_rec (projected_turns log) turn) = stamped log turn"
  "tc_epoch (turn_rec (projected_turns log) turn) = turnEpochOf log turn"
  "map_of (tc_terminals (turn_rec (projected_turns log) turn)) k = find (terminal_at turn k) (rev log)"
  using turns_match [of log turn] by (simp_all add: record_matches_def)

lemma ended_match:
  assumes "record_matches log turn r"
  shows "ended r \<longleftrightarrow> turnTerminalOf log turn \<noteq> None"
proof -
  have "map_of (tc_terminals r) (tc_epoch r) = find (terminal_at turn (turnEpochOf log turn)) (rev log)"
    using assms by (simp add: record_matches_def)
  then show ?thesis
    unfolding ended_def js_has_def turnTerminalOf_None by (auto simp: find_None_iff list_ex_iff simp del: not_None_eq)
qed

lemmas ended_iff = ended_match [OF turns_match]

section \<open>Heads\<close>

text \<open>The messages of a log that bring a new identifier.\<close>

definition add_first :: "log_event \<Rightarrow> log_event list \<Rightarrow> log_event list" where
  "add_first e ms = (if le_type e = ''MessageReceived'' \<and> idOf e \<notin> idOf ` set ms then ms @ [e] else ms)"

definition firsts :: "log_event list \<Rightarrow> log_event list" where
  "firsts log = fold add_first log []"

lemma firsts_snoc: "firsts (log @ [e]) = add_first e (firsts log)"
  by (simp add: firsts_def)

lemma firsts_ids: "idOf ` set (firsts log) = idOf ` {e \<in> set log. le_type e = ''MessageReceived''}"
  by (induction log rule: rev_induct) (simp add: firsts_def, auto simp: firsts_snoc add_first_def)

lemma firsts_distinct: "distinct (map idOf (firsts log))"
  by (induction log rule: rev_induct) (simp add: firsts_def, auto simp: firsts_snoc add_first_def)

text \<open>A search by identifier among the messages finds the first of its identifier.\<close>

lemma find_firsts: "find (\<lambda>e. le_type e = ''MessageReceived'' \<and> Q (idOf e)) log = find (\<lambda>e. Q (idOf e)) (firsts log)"
proof (induction log rule: rev_induct)
  case Nil
  show ?case by (simp add: firsts_def)
next
  case (snoc e log)
  show ?case
  proof (cases "find (\<lambda>e. Q (idOf e)) (firsts log)")
    case None
    then have "\<not> Q (idOf e)" if "idOf e \<in> idOf ` set (firsts log)" using that by (auto simp: find_None_iff)
    with None show ?thesis by (auto simp: find_append snoc.IH firsts_snoc add_first_def)
  next
    case (Some m)
    then show ?thesis by (simp add: find_append snoc.IH firsts_snoc add_first_def)
  qed
qed

definition head_entries :: "log_event list \<Rightarrow> (string \<times> turn_head) list" where
  "head_entries log = map (\<lambda>n. (idOf (firsts log ! n), (firsts log ! n, n))) [0..<length (firsts log)]"

lemma head_entries_keys: "map fst (head_entries log) = map idOf (firsts log)"
  by (rule nth_equalityI) (simp_all add: head_entries_def)

lemma head_entries_snoc: "firsts log' = firsts log @ [e] \<Longrightarrow> head_entries log' = head_entries log @ [(idOf e, (e, length (firsts log)))]"
  by (simp add: head_entries_def nth_append)

lemma head_entries_iff: "map_of (head_entries log) turn = Some (e, n) \<longleftrightarrow> n < length (firsts log) \<and> e = firsts log ! n \<and> idOf e = turn"
proof -
  have "distinct (map fst (head_entries log))" by (simp only: head_entries_keys firsts_distinct)
  then have "map_of (head_entries log) turn = Some (e, n) \<longleftrightarrow> (turn, e, n) \<in> set (head_entries log)" by simp
  also have "\<dots> \<longleftrightarrow> n < length (firsts log) \<and> e = firsts log ! n \<and> idOf e = turn"
    by (auto simp: head_entries_def)
  finally show ?thesis .
qed

lemma heads_match: "tp_heads (projected_turns log) = head_entries log \<and> tp_nextHead (projected_turns log) = length (firsts log)"
proof (induction log rule: rev_induct)
  case Nil
  show ?case by (simp add: projected_turns_def initialTurnProjection_def head_entries_def firsts_def)
next
  case (snoc e log)
  let ?s = "projected_turns log"
  have keys: "fst ` set (head_entries log) = idOf ` set (firsts log)" by (metis head_entries_keys list.set_map)
  have step: "tp_heads (projected_turns (log @ [e])) = tp_heads (reduceHead e ?s)"
    "tp_nextHead (projected_turns (log @ [e])) = tp_nextHead (reduceHead e ?s)"
    by (simp_all add: projected_snoc)
  have has: "js_has (head_entries log) i \<longleftrightarrow> i \<in> idOf ` set (firsts log)" for i
    using keys by (auto simp: js_has_def map_of_eq_None_iff)
  show ?case
  proof (cases "le_type e = ''MessageReceived'' \<and> idOf e \<notin> idOf ` set (firsts log)")
    case True
    then have "firsts (log @ [e]) = firsts log @ [e]" by (simp add: firsts_snoc add_first_def)
    with True snoc.IH keys show ?thesis by (simp add: step reduceHead_def has js_set_new head_entries_snoc)
  next
    case False
    then have "firsts (log @ [e]) = firsts log" by (auto simp: firsts_snoc add_first_def)
    moreover from this have "head_entries (log @ [e]) = head_entries log" by (simp add: head_entries_def)
    ultimately show ?thesis using False snoc.IH by (auto simp: step reduceHead_def has)
  qed
qed

section \<open>Open turns\<close>

lemma terminal_other:
  assumes "turnOf e \<noteq> Some turn"
  shows "turnTerminalOf (log @ [e]) turn = None \<longleftrightarrow> turnTerminalOf log turn = None"
  unfolding turnTerminalOf_None other_turn(5) [OF assms] using assms by (auto simp: terminal_at_def)

definition open_order :: "log_event list \<Rightarrow> log_event list \<Rightarrow> string \<Rightarrow> nat option" where
  "open_order heads log turn = (case map_of (head_entries heads) turn of
     None \<Rightarrow> None | Some (e, n) \<Rightarrow> if turnTerminalOf log turn = None then Some n else None)"

lemma reduceHead_open:
  assumes "map_of (tp_open (projected_turns log)) = open_order log log"
  shows "map_of (tp_open (reduceHead e (projected_turns log))) = open_order (log @ [e]) log"
proof -
  let ?s = "projected_turns log"
  note h = heads_match [of log, THEN conjunct1] and n = heads_match [of log, THEN conjunct2]
  have keys: "fst ` set (head_entries log) = idOf ` set (firsts log)" by (metis head_entries_keys list.set_map)
  have has: "js_has (head_entries log) i \<longleftrightarrow> i \<in> idOf ` set (firsts log)" for i
    using keys by (auto simp: js_has_def map_of_eq_None_iff)
  show ?thesis
  proof (cases "le_type e = ''MessageReceived'' \<and> idOf e \<notin> idOf ` set (firsts log)")
    case True
    then have new: "firsts (log @ [e]) = firsts log @ [e]" by (simp add: firsts_snoc add_first_def)
    from True keys have none: "map_of (head_entries log) (idOf e) = None" by (simp add: map_of_eq_None_iff)
    then have old: "open_order log log (idOf e) = None" by (simp add: open_order_def)
    have "map_of (tp_open (reduceHead e ?s)) = (if turnTerminalOf log (idOf e) = None
        then (map_of (tp_open ?s))(idOf e \<mapsto> length (firsts log)) else map_of (tp_open ?s))"
      using True by (simp add: reduceHead_def has h n ended_iff)
    moreover have "map_of (head_entries (log @ [e])) = (map_of (head_entries log))(idOf e \<mapsto> (e, length (firsts log)))"
      using none by (simp add: head_entries_snoc [OF new] map_add_def fun_eq_iff split: option.split)
    ultimately show ?thesis using old assms by (auto simp: open_order_def fun_eq_iff)
  next
    case False
    then have "firsts (log @ [e]) = firsts log" by (auto simp: firsts_snoc add_first_def)
    then have "head_entries (log @ [e]) = head_entries log" by (simp add: head_entries_def)
    with False assms show ?thesis by (auto simp: reduceHead_def has h open_order_def fun_eq_iff)
  qed
qed

lemma open_other: "turnOf e \<noteq> Some turn \<Longrightarrow> open_order heads (log @ [e]) turn = open_order heads log turn"
  by (simp add: open_order_def terminal_other split: option.split)

lemma open_match: "map_of (tp_open (projected_turns log)) = open_order log log"
proof (induction log rule: rev_induct)
  case Nil
  show ?case by (simp add: projected_turns_def initialTurnProjection_def open_order_def head_entries_def firsts_def fun_eq_iff)
next
  case (snoc e log)
  let ?s = "projected_turns log" and ?log = "log @ [e]"
  note first = reduceHead_open [OF snoc.IH, of e]
  have heads: "tp_heads (reduceHead e ?s) = head_entries ?log"
    using heads_match [of ?log] by (simp add: projected_snoc)
  have next_open: "tp_open (projected_turns ?log) = tp_open (reduceTurn e (reduceHead e ?s))"
    by (simp add: projected_snoc)
  show ?case
  proof (cases "turnOf e")
    case None
    with first show ?thesis by (simp add: next_open reduceTurn_def fun_eq_iff open_other)
  next
    case (Some turn)
    have r: "record_matches ?log turn (reduce_record e (turn_rec ?s turn))" by (rule record_matches_snoc [OF turns_match Some])
    have "ended (reduce_record e (turn_rec ?s turn)) \<longleftrightarrow> turnTerminalOf ?log turn \<noteq> None" by (rule ended_match [OF r])
    then have "map_of (tp_open (projected_turns ?log)) t = open_order ?log ?log t" for t
      using first [THEN fun_cong, of t] open_other [of e t ?log log] Some
      by (cases "t = turn"; cases "map_of (head_entries ?log) turn")
        (auto simp: next_open reduceTurn_def heads Let_def open_order_def)
    then show ?thesis by blast
  qed
qed

lemma open_distinct: "distinct (map fst (tp_open (projected_turns log)))"
proof (induction log rule: rev_induct)
  case (snoc e log)
  then show ?case
    by (auto simp: projected_snoc reduceTurn_def reduceHead_def Let_def split: option.splits)
qed (simp add: projected_turns_def initialTurnProjection_def)

section \<open>The current turn\<close>

definition pick_head :: "(string \<times> turn_head) list \<Rightarrow> string \<times> nat \<Rightarrow> (string \<times> turn_head) option \<Rightarrow> (string \<times> turn_head) option" where
  "pick_head heads = (\<lambda>(turn, order) current. case map_of heads turn of
       None \<Rightarrow> current
     | Some head \<Rightarrow> (case current of
         None \<Rightarrow> Some (turn, head)
       | Some (_, _, least) \<Rightarrow> if order < least then Some (turn, head) else current))"

lemma pick_head_least:
  assumes "\<And>t n. (t, n) \<in> set xs \<Longrightarrow> \<exists>e. map_of heads t = Some (e, n)"
    and "case current of None \<Rightarrow> True | Some (t, e, n) \<Rightarrow> map_of heads t = Some (e, n)"
  shows "case fold (pick_head heads) xs current of
      None \<Rightarrow> xs = [] \<and> current = None
    | Some (t, e, n) \<Rightarrow> map_of heads t = Some (e, n) \<and> ((t, n) \<in> set xs \<or> current = Some (t, e, n)) \<and>
        (\<forall>(u, m) \<in> set xs. n \<le> m) \<and> (\<forall>u f m. current = Some (u, f, m) \<longrightarrow> n \<le> m)"
  using assms
proof (induction xs arbitrary: current)
  case Nil
  then show ?case by (auto split: option.split)
next
  case (Cons x xs)
  obtain t n where x: "x = (t, n)" by (cases x)
  with Cons.prems(1) obtain e where e: "map_of heads t = Some (e, n)" by (metis list.set_intros(1))
  define mid where "mid = pick_head heads x current"
  have mid: "mid = (case current of None \<Rightarrow> Some (t, e, n) | Some (_, _, least) \<Rightarrow> if n < least then Some (t, e, n) else current)"
    by (simp add: mid_def pick_head_def x e split: option.split)
  have "case mid of None \<Rightarrow> True | Some (t, e, n) \<Rightarrow> map_of heads t = Some (e, n)"
    using e Cons.prems(2) by (auto simp: mid split: option.splits)
  note IH = Cons.IH [OF Cons.prems(1) this]
  show ?case using IH unfolding fold.simps comp_def mid_def [symmetric]
    by (auto simp: x mid split: option.splits if_splits; fastforce)
qed

lemma find_least:
  assumes "n < length xs" "P (xs ! n)" "\<And>m. m < n \<Longrightarrow> \<not> P (xs ! m)"
  shows "find P xs = Some (xs ! n)"
  using assms by (auto simp: find_Some_iff intro!: exI [of _ n])

lemma currentHead_eq:
  "currentHead (projected_turns log) =
    map_option (\<lambda>e. (idOf e, the (map_of (head_entries log) (idOf e)))) (turnHead log) \<and>
   (\<forall>e. turnHead log = Some e \<longrightarrow> (\<exists>n. map_of (head_entries log) (idOf e) = Some (e, n)))"
proof -
  let ?s = "projected_turns log" and ?P = "\<lambda>i. turnTerminalOf log i = None"
  have heads: "tp_heads ?s = head_entries log" using heads_match by blast
  have opens: "(t, n) \<in> set (tp_open ?s) \<longleftrightarrow> ?P t \<and> (\<exists>e. map_of (head_entries log) t = Some (e, n))" for t n
    using open_distinct [of log] open_match [of log]
    by (auto simp: open_order_def split: option.split simp flip: map_of_eq_Some_iff)
  have th: "turnHead log = find (\<lambda>e. ?P (idOf e)) (firsts log)"
    unfolding turnHead_eq by (rule find_firsts)
  have pick: "currentHead ?s = fold (pick_head (head_entries log)) (tp_open ?s) None"
    by (simp add: currentHead_def pick_head_def heads)
  note least = pick_head_least [of "tp_open ?s" "head_entries log" None, folded pick]
  show ?thesis
  proof (cases "currentHead ?s")
    case None
    then have "tp_open ?s = []" using least opens by auto
    then have no: "\<not> ?P t" if "map_of (head_entries log) t = Some (e, n)" for t e n using opens that by auto
    have "\<not> ?P (idOf e)" if "e \<in> set (firsts log)" for e
    proof -
      from that obtain n where "n < length (firsts log)" "e = firsts log ! n" by (auto simp: in_set_conv_nth)
      then have "map_of (head_entries log) (idOf e) = Some (e, n)" by (simp add: head_entries_iff)
      then show ?thesis by (rule no)
    qed
    then have "turnHead log = None" by (auto simp: th find_None_iff)
    with None show ?thesis by simp
  next
    case (Some h)
    then obtain t e n where h: "currentHead ?s = Some (t, e, n)" by (cases h) auto
    with least opens have e: "map_of (head_entries log) t = Some (e, n)" "(t, n) \<in> set (tp_open ?s)"
      and min: "\<forall>(u, m)\<in>set (tp_open ?s). n \<le> m" by auto
    then have n: "n < length (firsts log)" "e = firsts log ! n" "idOf e = t" unfolding head_entries_iff by blast+
    have "\<not> ?P (idOf (firsts log ! m))" if "m < n" for m
    proof
      assume "?P (idOf (firsts log ! m))"
      moreover have "map_of (head_entries log) (idOf (firsts log ! m)) = Some (firsts log ! m, m)"
        using that n(1) by (simp add: head_entries_iff)
      ultimately have "(idOf (firsts log ! m), m) \<in> set (tp_open ?s)" by (simp add: opens)
      with min that show False by auto
    qed
    moreover have "?P (idOf e)" using e(2) n(3) by (simp add: opens)
    ultimately have "turnHead log = Some e" unfolding th n(2) using n by (intro find_least) auto
    with h e(1) n(3) show ?thesis by simp
  qed
qed

text \<open>The current turn, the epochs and the terminals read from the state are those of the whole log.\<close>

lemma view_match: "turnViewFrom (projected_turns log) = turnView log"
  using currentHead_eq [of log]
  by (auto simp: turnViewFrom_def turnView_def turns_matchD activeStamped_def Let_def split: option.split)

lemma terminal_match:
  "turnTerminalFrom (projected_turns log) turn = find (terminal_at turn (turnEpochOf log turn)) (rev log)"
  by (simp add: turnTerminalFrom_def turns_matchD Let_def)

section \<open>The conversation\<close>

text \<open>
  A log is orderly when messages have identifiers of their own, a message precedes what serves it, and
  the first event that serves a turn is not a terminal of an epoch the turn has left.
\<close>

abbreviation is_message :: "log_event \<Rightarrow> bool" where
  "is_message e \<equiv> le_type e = ''MessageReceived''"

definition orderly_at :: "log_event list \<Rightarrow> nat \<Rightarrow> string \<Rightarrow> bool" where
  "orderly_at log i turn \<longleftrightarrow> list_all (\<lambda>e. \<not> (is_message e \<and> idOf e = turn)) (drop i log) \<and>
     (list_ex (\<lambda>e. \<not> is_message e \<and> turnOf e = Some turn) (take i log) \<or> \<not> superseded (turnIndexOf log) (log ! i))"

definition orderly :: "log_event list \<Rightarrow> bool" where
  "orderly log \<longleftrightarrow> distinct (map idOf (filter is_message log)) \<and>
     list_all (\<lambda>i. is_message (log ! i) \<or> (case turnOf (log ! i) of None \<Rightarrow> True | Some turn \<Rightarrow> orderly_at log i turn)) [0..<length log]"

lemma head_entry_find: "map_option fst (map_of (head_entries log) turn) = find (\<lambda>e. is_message e \<and> idOf e = turn) log"
proof -
  have "find (\<lambda>e. is_message e \<and> idOf e = turn) log = find (\<lambda>e. idOf e = turn) (firsts log)" by (rule find_firsts)
  also have "\<dots> = map_option fst (map_of (head_entries log) turn)"
  proof (cases "map_of (head_entries log) turn")
    case None
    then have "turn \<notin> idOf ` set (firsts log)" by (metis head_entries_keys list.set_map map_of_eq_None_iff)
    then show ?thesis using None by (auto simp: find_None_iff)
  next
    case (Some h)
    then obtain e n where h: "h = (e, n)" "n < length (firsts log)" "e = firsts log ! n" "idOf e = turn"
      by (cases h) (auto simp: head_entries_iff)
    have "find (\<lambda>e. idOf e = turn) (firsts log) = Some (firsts log ! n)"
    proof (rule find_least)
      show "idOf (firsts log ! m) \<noteq> turn" if "m < n" for m
        using nth_eq_iff_index_eq [OF firsts_distinct [of log], of m n] that h(2,4) unfolding h(3) by auto
    qed (use h in auto)
    with Some h(1,3) show ?thesis by simp
  qed
  finally show ?thesis ..
qed

lemma find_SomeD: "find P xs = Some x \<Longrightarrow> x \<in> set xs \<and> P x"
  by (auto simp: find_Some_iff)

lemma find_unique:
  assumes "x \<in> set xs" "P x" "\<And>y. y \<in> set xs \<Longrightarrow> P y \<Longrightarrow> y = x"
  shows "find P xs = Some x"
proof (cases "find P xs")
  case None
  with assms(1,2) show ?thesis by (auto simp: find_None_iff)
next
  case (Some y)
  with assms(3) find_SomeD [OF Some] show ?thesis by metis
qed

lemma message_before:
  assumes dist: "distinct (map idOf (filter is_message log))" and before: "list_all (\<lambda>e. \<not> (is_message e \<and> idOf e = turn)) (drop n log)"
  shows "find (\<lambda>e. is_message e \<and> idOf e = turn) (take (Suc n) log) = find (\<lambda>e. is_message e \<and> idOf e = turn) (rev log)"
proof (cases "\<exists>m \<in> set log. is_message m \<and> idOf m = turn")
  case False
  then have "find (\<lambda>e. is_message e \<and> idOf e = turn) (rev log) = None"
    "find (\<lambda>e. is_message e \<and> idOf e = turn) (take (Suc n) log) = None"
    unfolding find_None_iff by (auto dest: in_set_takeD)
  then show ?thesis by simp
next
  case True
  then obtain m where m: "m \<in> set log" "is_message m" "idOf m = turn" by blast
  have same: "y = m" if "y \<in> set log" "is_message y \<and> idOf y = turn" for y
    using dist m that by (auto simp: distinct_map inj_on_def)
  have "m \<in> set (take n log) \<union> set (drop n log)" using m(1) by (metis append_take_drop_id set_append)
  with before m have "m \<in> set (take (Suc n) log)"
    using set_take_subset_set_take [of n "Suc n" log] by (auto simp: list_all_iff)
  then have "find (\<lambda>e. is_message e \<and> idOf e = turn) (take (Suc n) log) = Some m"
    by (rule find_unique) (use m in simp, rule same, auto dest: in_set_takeD)
  moreover have "find (\<lambda>e. is_message e \<and> idOf e = turn) (rev log) = Some m"
    by (rule find_unique) (use m in simp, use m in simp, rule same, auto)
  ultimately show ?thesis by simp
qed

lemma is_message_kept: "is_message e \<Longrightarrow> \<not> superseded index e"
  by (auto simp: superseded_def dest: types_disjoint split: option.split)

lemma trajectory_prefix:
  assumes "orderly log" and "n \<le> length log"
  defines "f \<equiv> fold (trajectory_event (turnIndexOf log)) (take n log) ([], [])" and "s \<equiv> projected_turns (take n log)"
  shows "set (fst f) = set (tp_served s) \<and>
    set (tp_served s) = {t. list_ex (\<lambda>e. \<not> is_message e \<and> turnOf e = Some t) (take n log)} \<and>
    snd f = filter (\<lambda>e. \<not> superseded (turnIndexOf log) e) (tp_trajectory s)"
  using assms(2) unfolding f_def s_def
proof (induction n)
  case 0
  show ?case by (simp add: projected_turns_def initialTurnProjection_def)
next
  case (Suc n)
  let ?idx = "turnIndexOf log" and ?e = "log ! n" and ?p = "projected_turns (take n log)"
  let ?f = "fold (trajectory_event ?idx) (take n log) ([], [])"
  have n: "n < length log" and take: "take (Suc n) log = take n log @ [?e]" using Suc.prems by (simp_all add: take_Suc_conv_app_nth)
  obtain emitted out where f: "?f = (emitted, out)" by (cases ?f)
  have IH: "set emitted = set (tp_served ?p)"
    "set (tp_served ?p) = {t. list_ex (\<lambda>e. \<not> is_message e \<and> turnOf e = Some t) (take n log)}"
    "out = filter (\<lambda>e. \<not> superseded ?idx e) (tp_trajectory ?p)"
    using Suc.IH [OF less_imp_le [OF n]] unfolding f by simp_all
  have heads: "tp_heads (reduceHead ?e ?p) = head_entries (take (Suc n) log)"
    using heads_match [of "take (Suc n) log"] by (simp add: take projected_snoc)
  have at: "orderly_at log n t" if "\<not> is_message ?e" "turnOf ?e = Some t" for t
    using assms(1) n that by (auto simp: orderly_def list_all_iff)
  have head: "map_of (ti_headsById ?idx) t = map_option fst (map_of (head_entries (take (Suc n) log)) t)"
    if "\<not> is_message ?e" "turnOf ?e = Some t" for t
    unfolding head_entry_find index_heads
    by (rule message_before [symmetric]) (use assms(1) at [OF that] in \<open>simp_all add: orderly_def orderly_at_def\<close>)
  have kept: "\<not> superseded ?idx h" if "map_of (head_entries (take (Suc n) log)) t = Some (h, k)" for t h k
  proof -
    have "find (\<lambda>e. is_message e \<and> idOf e = t) (take (Suc n) log) = Some h" using that by (simp flip: head_entry_find)
    then have "is_message h" by (auto simp: find_Some_iff)
    then show ?thesis by (rule is_message_kept)
  qed
  have step: "fold (trajectory_event ?idx) (take (Suc n) log) ([], []) = trajectory_event ?idx ?e (emitted, out)"
    using f by (simp add: take)
  show ?case
  proof (cases "is_message ?e")
    case True
    then show ?thesis using IH unfolding step unfolding take projected_snoc
      by (simp add: trajectory_event_def reduceTrajectory_def)
  next
    case False
    show ?thesis
    proof (cases "turnOf ?e")
      case None
      then show ?thesis using False IH unfolding step unfolding take projected_snoc
        by (auto simp: trajectory_event_def reduceTrajectory_def superseded_def)
    next
      case (Some t)
      have first: "\<not> superseded ?idx ?e" if "t \<notin> set (tp_served ?p)"
        using at [OF False Some] that IH by (simp add: orderly_at_def)
      show ?thesis
      proof (cases "t \<in> set (tp_served ?p)")
        case True
        then show ?thesis using False Some IH unfolding step unfolding take projected_snoc
          by (auto simp: trajectory_event_def reduceTrajectory_def)
      next
        case new: False
        have "map_of (ti_headsById ?idx) t = map_option fst (map_of (head_entries (take (Suc n) log)) t)" by (rule head [OF False Some])
        then show ?thesis using False Some IH new first [OF new] kept [of t] unfolding step unfolding take projected_snoc
          by (auto simp: trajectory_event_def reduceTrajectory_def heads [unfolded take] split: option.split)
      qed
    qed
  qed
qed

lemma trajectory_match:
  assumes "orderly log"
  shows "trajectoryFrom (projected_turns log) = trajectoryOf log"
proof -
  let ?s = "projected_turns log" and ?idx = "turnIndexOf log"
  obtain emitted out where f: "fold (trajectory_event ?idx) log ([], []) = (emitted, out)" by (cases "fold (trajectory_event ?idx) log ([], [])")
  have pre: "set emitted = set (tp_served ?s)" "out = filter (\<lambda>e. \<not> superseded ?idx e) (tp_trajectory ?s)"
    using trajectory_prefix [OF assms, of "length log"] f by simp_all
  have keep: "(case turnOf e of None \<Rightarrow> True | Some turn \<Rightarrow> \<not> isTerminal e \<or> eventEpochOf e = tc_epoch (turn_rec ?s turn)) \<longleftrightarrow>
      \<not> superseded ?idx e" for e
    by (simp add: superseded_def index_epoch_turnIndexOf turns_matchD split: option.split)
  have head: "indexedHead ?idx = turnHead log" by (simp add: turnHead_def)
  show ?thesis using currentHead_eq [of log]
    by (auto simp: trajectoryFrom_def trajectoryOf_def f keep pre head Let_def split: option.split)
qed

end
