(* ===== verification/CodeFacts.thy ===== *)
theory CodeFacts
  imports Turns "HOL-Library.Product_Lexorder" "HOL-Library.Multiset"
begin

text \<open>
  The projections of the code thread (\<open>packages/code/src/execution/projections.ts\<close>): the facts of each
  execution, whether it can move, and the work the thread owes. An event is first read as the fact it
  states, then the facts are collected; a \<open>Set\<close> is a set, a \<open>Map\<close> an association list. A time is a
  whole number of milliseconds.
\<close>

section \<open>Facts\<close>

datatype code_fact =
    DispatchFact string int "string option"
  | SettleFact string
  | CallFact string "string option"
  | BlockFact string string
  | ReturnFact string
  | ReplyFact string
  | NoFact

definition at_of :: "log_event \<Rightarrow> int" where
  "at_of e = (case ev_field e ''at'' of Some (JInt n) \<Rightarrow> n | _ \<Rightarrow> 0)"

definition fact_of :: "log_event \<Rightarrow> runtime_error + code_fact" where
  "fact_of e =
     (if le_type e = ''CodeDispatched'' then try_bind (executionKeyOf e) (\<lambda>execId.
        Inr (DispatchFact execId (at_of e) (map_option (\<lambda>v. text_or_empty (Some v)) (ev_field e ''turn''))))
      else if le_type e = ''CodeSettled'' then try_bind (executionKeyOf e) (\<lambda>execId. Inr (SettleFact execId))
      else if le_type e = ''PackageCalled'' then try_bind (packageKeyOf e) (\<lambda>callId.
        try_bind (executionRefOf e) (\<lambda>ref. case ref of
          None \<Rightarrow> Inr (CallFact callId None)
        | Some _ \<Rightarrow> try_bind (executionKeyOf e) (\<lambda>owner. Inr (CallFact callId (Some owner)))))
      else if le_type e = ''BlockedOn'' then try_bind (packageKeyOf e) (\<lambda>callId.
        Inr (BlockFact callId (text_or_empty (ev_field e ''awaiting''))))
      else if le_type e = ''PackageReturned'' then try_bind (packageKeyOf e) (\<lambda>callId. Inr (ReturnFact callId))
      else if le_type e = ''MessageReceived'' \<or> le_type e = ''ResponseReceived'' then Inr (ReplyFact (text_or_empty (ev_field e ''id'')))
      else Inr NoFact)"

record fact_store =
  fs_dispatched :: "(string \<times> int \<times> string option) list"
  fs_settled :: "string set"
  fs_awaiting :: "(string \<times> string) list"
  fs_calls :: "string set"
  fs_returned :: "string set"
  fs_replies :: "string set"
  fs_owners :: "(string \<times> string) list"

definition no_facts :: fact_store where
  "no_facts = \<lparr>fs_dispatched = [], fs_settled = {}, fs_awaiting = [], fs_calls = {}, fs_returned = {}, fs_replies = {}, fs_owners = []\<rparr>"

fun collect_fact :: "code_fact \<Rightarrow> fact_store \<Rightarrow> fact_store" where
  "collect_fact (DispatchFact k time turn) s = (case map_of (fs_dispatched s) k of
     None \<Rightarrow> s\<lparr>fs_dispatched := js_set k (time, turn) (fs_dispatched s)\<rparr>
   | Some (prior, _) \<Rightarrow> if time < prior then s\<lparr>fs_dispatched := js_set k (time, turn) (fs_dispatched s)\<rparr> else s)"
| "collect_fact (SettleFact k) s = s\<lparr>fs_settled := insert k (fs_settled s)\<rparr>"
| "collect_fact (CallFact k owner) s = (case owner of
     None \<Rightarrow> s\<lparr>fs_calls := insert k (fs_calls s)\<rparr>
   | Some owner \<Rightarrow> s\<lparr>fs_calls := insert k (fs_calls s), fs_owners := js_set k owner (fs_owners s)\<rparr>)"
| "collect_fact (BlockFact k awaiting) s = s\<lparr>fs_awaiting := js_set k awaiting (fs_awaiting s)\<rparr>"
| "collect_fact (ReturnFact k) s = s\<lparr>fs_returned := insert k (fs_returned s)\<rparr>"
| "collect_fact (ReplyFact k) s = s\<lparr>fs_replies := insert k (fs_replies s)\<rparr>"
| "collect_fact NoFact s = s"

text \<open>A call belongs to the execution recorded with it, or to the longest execution id that prefixes its id.\<close>

definition owns_prefix :: "string \<Rightarrow> string \<Rightarrow> bool" where
  "owns_prefix callId execId \<longleftrightarrow> take (length execId + 1) callId = execId @ ''.''"

definition longer_owner :: "string \<Rightarrow> string \<Rightarrow> string \<Rightarrow> string" where
  "longer_owner callId execId owner = (if owns_prefix callId execId \<and> length execId > length owner then execId else owner)"

definition longest_owner :: "string \<Rightarrow> string list \<Rightarrow> string" where
  "longest_owner callId execIds = fold (longer_owner callId) execIds []"

definition call_owner :: "fact_store \<Rightarrow> string \<Rightarrow> string" where
  "call_owner s callId = (case map_of (fs_owners s) callId of
     Some owner \<Rightarrow> owner | None \<Rightarrow> longest_owner callId (map fst (fs_dispatched s)))"

record exec_facts =
  ef_execId :: string
  ef_turn :: "string option"
  ef_open :: "string set"
  ef_home :: "string set"
  ef_called :: bool
  ef_settled :: bool

definition exec_calls :: "fact_store \<Rightarrow> string \<Rightarrow> string set" where
  "exec_calls s execId = Set.filter (\<lambda>callId. call_owner s callId = execId) (fs_calls s)"

definition exec_open :: "fact_store \<Rightarrow> string \<Rightarrow> string set" where
  "exec_open s execId = Set.filter (\<lambda>callId. map_of (fs_awaiting s) callId \<noteq> None \<and> callId \<notin> fs_returned s) (exec_calls s execId)"

definition exec_facts_of :: "fact_store \<Rightarrow> string \<Rightarrow> exec_facts" where
  "exec_facts_of s execId =
     \<lparr>ef_execId = execId, ef_turn = Option.bind (map_of (fs_dispatched s) execId) snd, ef_open = exec_open s execId,
      ef_home = Set.filter (\<lambda>callId. case map_of (fs_awaiting s) callId of None \<Rightarrow> False | Some reply \<Rightarrow> reply \<in> fs_replies s) (exec_open s execId),
      ef_called = (exec_calls s execId \<noteq> {}), ef_settled = (execId \<in> fs_settled s)\<rparr>"

definition dispatch_order :: "fact_store \<Rightarrow> string \<Rightarrow> int \<times> string" where
  "dispatch_order s execId = ((case map_of (fs_dispatched s) execId of None \<Rightarrow> 0 | Some (time, _) \<Rightarrow> time), execId)"

definition facts_in_order :: "fact_store \<Rightarrow> exec_facts list" where
  "facts_in_order s = map (exec_facts_of s) (sort_key (dispatch_order s) (map fst (fs_dispatched s)))"

definition factsOf :: "log_event list \<Rightarrow> runtime_error + exec_facts list" where
  "factsOf events = try_bind (map_try fact_of events) (\<lambda>fs. Inr (facts_in_order (fold collect_fact fs no_facts)))"

definition canProgress :: "exec_facts \<Rightarrow> bool" where
  "canProgress f \<longleftrightarrow> \<not> ef_settled f \<and> (\<not> ef_called f \<or> ef_home f \<noteq> {} \<or> ef_open f = {})"

definition unsettled_exec :: "log_event list \<Rightarrow> exec_facts \<Rightarrow> bool" where
  "unsettled_exec events f \<longleftrightarrow> \<not> ef_settled f \<and> (case ef_turn f of None \<Rightarrow> True | Some turn \<Rightarrow> turnTerminalOf events turn = None)"

definition workOwed :: "log_event list \<Rightarrow> runtime_error + exec_facts option" where
  "workOwed events = try_bind (factsOf events) (\<lambda>fs.
     case find (unsettled_exec events) fs of
       Some head \<Rightarrow> Inr (if canProgress head then Some head else None)
     | None \<Rightarrow> Inr None)"

definition restingThread :: "log_event list \<Rightarrow> runtime_error + bool" where
  "restingThread events = try_bind (workOwed events) (\<lambda>w. Inr (w = None))"

section \<open>The bag law\<close>

text \<open>
  Facts agree when an execution is dispatched with one time and turn, a call awaits one reply and has
  one owner. The dedup keys of a journal give the first two, the form of the keys the last.
\<close>

definition facts_agree :: "code_fact set \<Rightarrow> bool" where
  "facts_agree fs \<longleftrightarrow> (\<forall>k a t a' t'. DispatchFact k a t \<in> fs \<longrightarrow> DispatchFact k a' t' \<in> fs \<longrightarrow> a = a' \<and> t = t') \<and>
     (\<forall>k w w'. BlockFact k w \<in> fs \<longrightarrow> BlockFact k w' \<in> fs \<longrightarrow> w = w') \<and>
     (\<forall>k v v'. CallFact k (Some v) \<in> fs \<longrightarrow> CallFact k (Some v') \<in> fs \<longrightarrow> v = v')"

lemma facts_agree_subset: "facts_agree fs \<Longrightarrow> gs \<subseteq> fs \<Longrightarrow> facts_agree gs"
  unfolding facts_agree_def by blast

definition stored :: "code_fact set \<Rightarrow> fact_store \<Rightarrow> bool" where
  "stored fs s \<longleftrightarrow> fs_settled s = {k. SettleFact k \<in> fs} \<and> fs_calls s = {k. \<exists>v. CallFact k v \<in> fs} \<and>
     fs_returned s = {k. ReturnFact k \<in> fs} \<and> fs_replies s = {k. ReplyFact k \<in> fs} \<and>
     (\<forall>k w. map_of (fs_awaiting s) k = Some w \<longleftrightarrow> BlockFact k w \<in> fs) \<and>
     (\<forall>k v. map_of (fs_owners s) k = Some v \<longleftrightarrow> CallFact k (Some v) \<in> fs) \<and>
     (\<forall>k a t. map_of (fs_dispatched s) k = Some (a, t) \<longleftrightarrow> DispatchFact k a t \<in> fs) \<and> distinct (map fst (fs_dispatched s))"

lemma stored_step:
  assumes "stored fs s" and "facts_agree (insert f fs)"
  shows "stored (insert f fs) (collect_fact f s)"
proof (cases f)
  case (DispatchFact k time turn)
  with assms(2) have same: "a = time \<and> t = turn" if "DispatchFact k a t \<in> fs" for a t
    using that unfolding facts_agree_def by blast
  show ?thesis
  proof (cases "map_of (fs_dispatched s) k")
    case None
    with assms(1) have "DispatchFact k a t \<notin> fs" for a t unfolding stored_def by (metis option.distinct(1))
    with None DispatchFact assms(1) show ?thesis by (auto simp: stored_def)
  next
    case (Some v)
    obtain a t where v: "v = (a, t)" by (cases v)
    with Some assms(1) have "DispatchFact k a t \<in> fs" by (simp add: stored_def)
    with same have "a = time" "t = turn" "insert f fs = fs" using DispatchFact by auto
    with Some v DispatchFact assms(1) show ?thesis by simp
  qed
next
  case (BlockFact k w)
  with assms(2) have "w' = w" if "BlockFact k w' \<in> fs" for w'
    using that unfolding facts_agree_def by blast
  with BlockFact assms(1) show ?thesis by (auto simp: stored_def)
next
  case (CallFact k v)
  show ?thesis
  proof (cases v)
    case None
    with CallFact assms(1) show ?thesis by (auto simp: stored_def)
  next
    case (Some u)
    with CallFact assms(2) have "u' = u" if "CallFact k (Some u') \<in> fs" for u'
      using that unfolding facts_agree_def by blast
    with Some CallFact assms(1) show ?thesis by (auto simp: stored_def)
  qed
qed (use assms(1) in \<open>auto simp: stored_def\<close>)

lemma stored_fold: "facts_agree (set fs) \<Longrightarrow> stored (set fs) (fold collect_fact fs no_facts)"
proof (induction fs rule: rev_induct)
  case Nil
  show ?case by (simp add: stored_def no_facts_def)
next
  case (snoc f fs)
  then have "facts_agree (insert f (set fs))" by simp
  moreover from this have "facts_agree (set fs)" by (rule facts_agree_subset) auto
  ultimately show ?case using stored_step [OF snoc.IH] by simp
qed

text \<open>Executions that prefix the same call id have ids of different lengths, so the longest is unique.\<close>

lemma owns_prefix_length: "owns_prefix c x \<Longrightarrow> owns_prefix c y \<Longrightarrow> length x = length y \<Longrightarrow> x = y"
  by (simp add: owns_prefix_def)

lemma longest_fold:
  "(fold (longer_owner c) xs w = w \<or> fold (longer_owner c) xs w \<in> set xs \<and> owns_prefix c (fold (longer_owner c) xs w)) \<and>
    length w \<le> length (fold (longer_owner c) xs w) \<and>
    (\<forall>x\<in>set xs. owns_prefix c x \<longrightarrow> length x \<le> length (fold (longer_owner c) xs w))"
proof (induction xs arbitrary: w)
  case (Cons x xs)
  let ?m = "longer_owner c x w"
  let ?r = "fold (longer_owner c) xs ?m"
  have m: "length w \<le> length ?m" "?m = w \<or> ?m = x \<and> owns_prefix c x" "owns_prefix c x \<Longrightarrow> length x \<le> length ?m"
    by (auto simp: longer_owner_def)
  have r: "?r = ?m \<or> ?r \<in> set xs \<and> owns_prefix c ?r" "length ?m \<le> length ?r" "\<forall>x\<in>set xs. owns_prefix c x \<longrightarrow> length x \<le> length ?r"
    using Cons.IH [of ?m] by simp_all
  have "?r = w \<or> ?r \<in> set (x # xs) \<and> owns_prefix c ?r" using m(2) r(1) by (metis list.set_intros)
  moreover have "length w \<le> length ?r" using m(1) r(2) by (rule order_trans)
  moreover have "\<forall>x'\<in>set (x # xs). owns_prefix c x' \<longrightarrow> length x' \<le> length ?r"
    using r(3) order_trans [OF m(3) r(2)] by simp
  ultimately show ?case by simp
qed simp

lemma longest_owner_set:
  assumes "set xs = set ys"
  shows "longest_owner c xs = longest_owner c ys"
proof -
  have *: "longest_owner c xs = longest_owner c ys" if eq: "set xs = set ys" and len: "length (longest_owner c ys) \<le> length (longest_owner c xs)" for xs ys
  proof -
    note a = longest_fold [of c xs "[]", folded longest_owner_def] and b = longest_fold [of c ys "[]", folded longest_owner_def]
    show ?thesis
    proof (cases "longest_owner c xs = []")
      case True
      with len show ?thesis by simp
    next
      case False
      with a have x: "longest_owner c xs \<in> set ys" "owns_prefix c (longest_owner c xs)" using eq by auto
      with b len have l: "length (longest_owner c xs) = length (longest_owner c ys)" by fastforce
      with False have "longest_owner c ys \<noteq> []" by auto
      with b have "owns_prefix c (longest_owner c ys)" by auto
      with x(2) l show ?thesis by (intro owns_prefix_length)
    qed
  qed
  show ?thesis using * [of xs ys] * [of ys xs] assms by (metis nat_le_linear)
qed

lemma facts_in_order_stored:
  assumes "stored fs s" and "stored fs s'"
  shows "facts_in_order s = facts_in_order s'"
proof -
  have maps: "map_of (fs_awaiting s) = map_of (fs_awaiting s')" "map_of (fs_owners s) = map_of (fs_owners s')"
    using assms unfolding stored_def by (intro ext; metis option.exhaust)+
  have disp: "map_of (fs_dispatched s) = map_of (fs_dispatched s')"
  proof
    show "map_of (fs_dispatched s) k = map_of (fs_dispatched s') k" for k
      using assms unfolding stored_def by (metis option.exhaust surj_pair)
  qed
  then have keys: "set (map fst (fs_dispatched s)) = set (map fst (fs_dispatched s'))" by (metis dom_map_of_conv_image_fst list.set_map)
  have sets: "fs_settled s = fs_settled s'" "fs_calls s = fs_calls s'" "fs_returned s = fs_returned s'" "fs_replies s = fs_replies s'"
    using assms unfolding stored_def by simp_all
  have owner: "call_owner s = call_owner s'"
    by (simp add: call_owner_def maps longest_owner_set [OF keys] fun_eq_iff split: option.split)
  have order: "dispatch_order s = dispatch_order s'" by (simp add: dispatch_order_def disp fun_eq_iff)
  have mset: "mset (map fst (fs_dispatched s)) = mset (map fst (fs_dispatched s'))"
  proof (rule iffD1 [OF set_eq_iff_mset_eq_distinct keys])
    show "distinct (map fst (fs_dispatched s))" "distinct (map fst (fs_dispatched s'))" using assms unfolding stored_def by blast+
  qed
  have "sort_key (dispatch_order s) (map fst (fs_dispatched s)) = sort_key (dispatch_order s) (map fst (fs_dispatched s'))"
  proof (rule sort_key_inj_key_eq)
    show "inj_on (dispatch_order s) (set (map fst (fs_dispatched s)))" by (simp add: inj_on_def dispatch_order_def)
    show "mset (map fst (fs_dispatched s)) = mset (sort_key (dispatch_order s) (map fst (fs_dispatched s')))" unfolding mset_sort by (rule mset)
  qed (rule sorted_sort_key)
  moreover have "exec_facts_of s = exec_facts_of s'"
    unfolding exec_facts_of_def exec_open_def exec_calls_def owner maps disp sets ..
  ultimately show ?thesis by (simp add: facts_in_order_def order)
qed

text \<open>Logs whose events with a dedup key are told apart by it state facts that agree.\<close>

definition keyed :: "log_event list \<Rightarrow> bool" where
  "keyed log \<longleftrightarrow> list_all (\<lambda>e. list_all (\<lambda>e'. e = e' \<or> code_key_of e \<noteq> code_key_of e' \<or>
     (case code_key_of e of Inr (Some _) \<Rightarrow> False | _ \<Rightarrow> True)) log) log"

lemma keyedD: "keyed log \<Longrightarrow> e \<in> set log \<Longrightarrow> e' \<in> set log \<Longrightarrow> code_key_of e = Inr (Some k) \<Longrightarrow> code_key_of e' = Inr (Some k) \<Longrightarrow> e = e'"
  by (force simp: keyed_def list_all_iff)

lemma fact_of_dispatch: "fact_of e = Inr (DispatchFact k a t) \<Longrightarrow> code_key_of e = Inr (Some (''cd:'' @ k))"
  by (auto simp: fact_of_def code_key_of_def split: if_splits option.splits)

lemma fact_of_block: "fact_of e = Inr (BlockFact k w) \<Longrightarrow> code_key_of e = Inr (Some (''bk:'' @ k))"
  by (auto simp: fact_of_def code_key_of_def split: if_splits option.splits)

lemma fact_of_call: "fact_of e = Inr (CallFact k (Some v)) \<Longrightarrow> \<exists>r n. k = package_text r n \<and> v = transition_text r"
  by (auto simp: fact_of_def packageKeyOf_def executionKeyOf_def split: if_splits option.splits)

lemma keyed_facts_agree:
  assumes "keyed log" and "\<And>f. f \<in> fs \<Longrightarrow> \<exists>e\<in>set log. fact_of e = Inr f"
  shows "facts_agree fs"
  unfolding facts_agree_def
proof (intro conjI allI impI)
  fix k a t a' t' assume "DispatchFact k a t \<in> fs" "DispatchFact k a' t' \<in> fs"
  with assms(2) obtain e e' where "e \<in> set log" "e' \<in> set log" "fact_of e = Inr (DispatchFact k a t)" "fact_of e' = Inr (DispatchFact k a' t')"
    by metis
  moreover from this have "e = e'" by (intro keyedD [OF assms(1)]) (auto intro: fact_of_dispatch)
  ultimately show "a = a'" "t = t'" by simp_all
next
  fix k w w' assume "BlockFact k w \<in> fs" "BlockFact k w' \<in> fs"
  with assms(2) obtain e e' where "e \<in> set log" "e' \<in> set log" "fact_of e = Inr (BlockFact k w)" "fact_of e' = Inr (BlockFact k w')" by metis
  moreover from this have "e = e'" by (intro keyedD [OF assms(1)]) (auto intro: fact_of_block)
  ultimately show "w = w'" by simp
next
  fix k v v' assume "CallFact k (Some v) \<in> fs" "CallFact k (Some v') \<in> fs"
  with assms(2) obtain e e' where "fact_of e = Inr (CallFact k (Some v))" "fact_of e' = Inr (CallFact k (Some v'))" by metis
  from fact_of_call [OF this(1)] fact_of_call [OF this(2)] show "v = v'" by auto
qed

lemma map_try_set: "map_try f xs = Inr ys \<longleftrightarrow> (\<forall>x\<in>set xs. \<exists>y. f x = Inr y) \<and> ys = map (\<lambda>x. projr (f x)) xs"
  by (induction xs arbitrary: ys) auto

lemma factsOf_set:
  assumes "set log = set log'" "keyed log" "factsOf log = Inr r"
  shows "factsOf log' = Inr r"
proof -
  from assms(3) obtain fs where fs: "map_try fact_of log = Inr fs" "r = facts_in_order (fold collect_fact fs no_facts)"
    by (auto simp: factsOf_def)
  define fs' where "fs' = map (\<lambda>e. projr (fact_of e)) log'"
  have fs': "map_try fact_of log' = Inr fs'" using fs(1) assms(1) by (simp add: map_try_set fs'_def)
  have same: "set fs' = set fs" using fs(1) assms(1) by (simp add: map_try_set fs'_def)
  have "facts_agree (set fs)"
  proof (rule keyed_facts_agree [OF assms(2)])
    fix f assume "f \<in> set fs"
    with fs(1) obtain e where e: "e \<in> set log" "f = projr (fact_of e)" by (auto simp: map_try_set)
    with fs(1) obtain g where "fact_of e = Inr g" by (auto simp: map_try_set)
    with e(2) have "fact_of e = Inr f" by simp
    with e(1) show "\<exists>e\<in>set log. fact_of e = Inr f" by blast
  qed
  then have "stored (set fs) (fold collect_fact fs no_facts)" "stored (set fs) (fold collect_fact fs' no_facts)"
    using stored_fold [of fs] stored_fold [of fs'] same by simp_all
  then have "facts_in_order (fold collect_fact fs no_facts) = facts_in_order (fold collect_fact fs' no_facts)"
    by (rule facts_in_order_stored)
  with fs(2) fs' show ?thesis by (simp add: factsOf_def)
qed

lemma turnEpochOf_set: "set log = set log' \<Longrightarrow> turnEpochOf log turn = turnEpochOf log' turn"
proof -
  assume eq: "set log = set log'"
  have "epoch_loop log turn epoch = epoch_loop log' turn epoch" for epoch
    using eq
  proof (induction log turn epoch rule: epoch_loop.induct)
    case (1 log turn epoch)
    have "continues log turn epoch = continues log' turn epoch" using "1.prems" by (simp add: continues_def list_ex_iff)
    with "1.IH" [OF _ "1.prems"] show ?case by (subst (1 2) epoch_loop.simps) simp
  qed
  then show ?thesis by (simp add: turnEpochOf_def)
qed

lemma turnTerminalOf_set: "set log = set log' \<Longrightarrow> turnTerminalOf log turn = None \<longleftrightarrow> turnTerminalOf log' turn = None"
  using turnEpochOf_set [of log log' turn] by (simp add: turnTerminalOf_None list_ex_iff)

lemma workOwed_set:
  assumes "set log = set log'" "keyed log" "workOwed log = Inr w"
  shows "workOwed log' = Inr w"
proof -
  have "unsettled_exec log f = unsettled_exec log' f" for f
    using turnTerminalOf_set [OF assms(1)] by (simp add: unsettled_exec_def split: option.split)
  then have "unsettled_exec log = unsettled_exec log'" by (rule ext)
  with assms(3) factsOf_set [OF assms(1,2)] show ?thesis by (auto simp: workOwed_def)
qed

end
