(* ===== verification/PackageContract.thy ===== *)
theory PackageContract
  imports Effects
begin

text \<open>
  The contract of a package method (\<open>packages/code/src/execution/contract.ts\<close>): the signature rendered
  from its declared schema, and the check of a call's arguments. A node holds the keywords the subset
  reads, its properties in enumeration order. A field is an own property of the object, and objects
  listed in an \<open>enum\<close> are compared without the order of their keys. \<open>conforms\<close> is the reference
  reading of a schema; a value is listed when it is written as the listed one.
\<close>

datatype schema_node = SchemaNode
  (nd_type: "string option")
  (nd_properties: "(string \<times> schema_node) list option")
  (nd_required: "string list option")
  (nd_enum: "json list option")
  (nd_items: "schema_node option")

definition enum_values :: "schema_node \<Rightarrow> json list" where
  "enum_values n = (case nd_enum n of None \<Rightarrow> [] | Some vs \<Rightarrow> vs)"

definition enum_text :: "string \<Rightarrow> schema_node \<Rightarrow> string" where
  "enum_text sep n = js_join sep (map canonicalInput (enum_values n))"

section \<open>Signatures\<close>

definition DEFAULT_SIGNATURE_DEPTH :: int where
  "DEFAULT_SIGNATURE_DEPTH = 2"

fun typeName :: "schema_node \<Rightarrow> int \<Rightarrow> string" where
  "typeName (SchemaNode ty props req en items) depth =
     (if enum_values (SchemaNode ty props req en items) \<noteq> [] then enum_text '' | '' (SchemaNode ty props req en items)
      else case ty of
        None \<Rightarrow> ''unknown''
      | Some t \<Rightarrow>
          if t \<in> {''string'', ''boolean'', ''null''} then t
          else if t \<in> {''number'', ''integer''} then ''number''
          else if t = ''array'' then (case items of None \<Rightarrow> ''array'' | Some item \<Rightarrow> typeName item depth @ ''[]'')
          else if t = ''object'' then
            (if props = None \<or> depth \<le> 0 then ''object''
             else ''{'' @ js_join '', '' (map (\<lambda>(name, child).
               name @ (if name \<in> set (case req of None \<Rightarrow> [] | Some rs \<Rightarrow> rs) then [] else ''?'') @ '': '' @ typeName child (depth - 1))
               (case props of None \<Rightarrow> [] | Some ps \<Rightarrow> ps)) @ ''}'')
          else ''unknown'')"

definition objectBody :: "schema_node \<Rightarrow> int \<Rightarrow> string" where
  "objectBody n depth =
     ''{'' @ js_join '', '' (map (\<lambda>(name, child).
       name @ (if name \<in> set (case nd_required n of None \<Rightarrow> [] | Some rs \<Rightarrow> rs) then [] else ''?'') @ '': '' @ typeName child (depth - 1))
       (case nd_properties n of None \<Rightarrow> [] | Some ps \<Rightarrow> ps)) @ ''}''"

lemma typeName_object:
  "enum_values n = [] \<Longrightarrow> nd_type n = Some ''object'' \<Longrightarrow> nd_properties n \<noteq> None \<Longrightarrow> 0 < depth \<Longrightarrow> typeName n depth = objectBody n depth"
  by (cases n) (simp add: objectBody_def)

definition renderShape :: "schema_node option \<Rightarrow> int \<Rightarrow> string" where
  "renderShape schema depth = (case schema of None \<Rightarrow> ''unknown'' | Some n \<Rightarrow> typeName n depth)"

definition renderSignature :: "string \<Rightarrow> schema_node option \<Rightarrow> int \<Rightarrow> string" where
  "renderSignature name schema depth = (case schema of
     None \<Rightarrow> name @ ''()''
   | Some n \<Rightarrow> if nd_type n \<noteq> Some ''object'' \<or> nd_properties n = None then name @ ''()''
       else (let body = objectBody n depth in if body = ''{}'' then name @ ''()'' else name @ ''('' @ body @ '')''))"

section \<open>Checking arguments\<close>

fun typeOf :: "json \<Rightarrow> string" where
  "typeOf JNull = ''null''"
| "typeOf (JArr _) = ''array''"
| "typeOf (JBool _) = ''boolean''"
| "typeOf (JInt _) = ''number''"
| "typeOf (JNum _) = ''number''"
| "typeOf (JStr _) = ''string''"
| "typeOf (JObj _) = ''object''"

text \<open>
  \<open>Number.isInteger\<close>: of the numbers not written as decimal integers, those from \<open>1e21\<close> on are
  integers, and exactly these are written with a positive exponent.
\<close>

definition large_integer :: "string \<Rightarrow> bool" where
  "large_integer t \<longleftrightarrow> (case dropWhile (\<lambda>c. c \<noteq> CHR ''+'') t of [] \<Rightarrow> False | _ \<Rightarrow> True)"

fun is_integer :: "json \<Rightarrow> bool" where
  "is_integer (JInt _) = True"
| "is_integer (JNum t) = large_integer t"
| "is_integer _ = False"

definition matchesType :: "json \<Rightarrow> string \<Rightarrow> bool" where
  "matchesType v declared = (if declared = ''integer'' then typeOf v = ''number'' \<and> is_integer v else typeOf v = declared)"

definition js_field :: "json \<Rightarrow> string \<Rightarrow> json option" where
  "js_field v k = (case v of JObj m \<Rightarrow> fmlookup m k | _ \<Rightarrow> None)"

definition field_path :: "string \<Rightarrow> string \<Rightarrow> string" where
  "field_path path k = (if path = ''args'' then k else path @ ''.'' @ k)"

definition item_path :: "string \<Rightarrow> nat \<Rightarrow> string" where
  "item_path path i = path @ ''['' @ nat_text i @ '']''"

definition array_items :: "json \<Rightarrow> json list" where
  "array_items v = (case v of JArr vs \<Rightarrow> vs | _ \<Rightarrow> [])"

definition missing_fields :: "json \<Rightarrow> string \<Rightarrow> string list \<Rightarrow> string list" where
  "missing_fields v path ks = map (\<lambda>k. ''missing required field '' @ [CHR 0x27] @ field_path path k @ [CHR 0x27])
     (filter (\<lambda>k. js_field v k = None) ks)"

lemma missing_fields_Nil: "missing_fields v path ks = [] \<longleftrightarrow> (\<forall>k \<in> set ks. js_field v k \<noteq> None)"
  by (simp add: missing_fields_def filter_empty_conv)

fun check_node :: "json \<Rightarrow> schema_node \<Rightarrow> string \<Rightarrow> string list" where
  "check_node v (SchemaNode ty props req en items) path =
     (if enum_values (SchemaNode ty props req en items) \<noteq> [] then
        (if list_ex (\<lambda>w. canonicalInput w = canonicalInput v) (enum_values (SchemaNode ty props req en items)) then []
         else [path @ '' must be one of '' @ enum_text '', '' (SchemaNode ty props req en items)])
      else (case ty of
        None \<Rightarrow> []
      | Some t \<Rightarrow>
          if \<not> matchesType v t then [path @ '' must be '' @ t @ '', got '' @ typeOf v]
          else if t = ''object'' then
            missing_fields v path (case req of None \<Rightarrow> [] | Some rs \<Rightarrow> rs) @
            concat (map (\<lambda>(k, child). case js_field v k of None \<Rightarrow> [] | Some w \<Rightarrow> check_node w child (field_path path k))
              (case props of None \<Rightarrow> [] | Some ps \<Rightarrow> ps))
          else if t = ''array'' then
            (case items of
               None \<Rightarrow> []
             | Some item \<Rightarrow> concat (map (\<lambda>(i, w). check_node w item (item_path path i)) (zip [0..<length (array_items v)] (array_items v))))
          else []))"

definition checkInput :: "json option \<Rightarrow> schema_node option \<Rightarrow> string list" where
  "checkInput args schema = (case schema of
     None \<Rightarrow> []
   | Some n \<Rightarrow> check_node (case args of None \<Rightarrow> JObj fmempty | Some v \<Rightarrow> v) n ''args'')"

section \<open>The reference reading\<close>

inductive conforms :: "json \<Rightarrow> schema_node \<Rightarrow> bool" where
  conforms_enum: "w \<in> set (enum_values n) \<Longrightarrow> canonicalInput w = canonicalInput v \<Longrightarrow> conforms v n"
| conforms_open: "enum_values n = [] \<Longrightarrow> nd_type n = None \<Longrightarrow> conforms v n"
| conforms_typed: "enum_values n = [] \<Longrightarrow> nd_type n = Some t \<Longrightarrow> matchesType v t \<Longrightarrow>
    (\<And>k rs. t = ''object'' \<Longrightarrow> nd_required n = Some rs \<Longrightarrow> k \<in> set rs \<Longrightarrow> js_field v k \<noteq> None) \<Longrightarrow>
    (\<And>ps k child w. t = ''object'' \<Longrightarrow> nd_properties n = Some ps \<Longrightarrow> (k, child) \<in> set ps \<Longrightarrow> js_field v k = Some w \<Longrightarrow> conforms w child) \<Longrightarrow>
    (\<And>item w. t = ''array'' \<Longrightarrow> nd_items n = Some item \<Longrightarrow> w \<in> set (array_items v) \<Longrightarrow> conforms w item) \<Longrightarrow>
    conforms v n"

inductive_simps conforms_iff: "conforms v n"

lemma conforms_unfold:
  "conforms v (SchemaNode ty props req en items) \<longleftrightarrow>
     (\<exists>w \<in> set (case en of None \<Rightarrow> [] | Some vs \<Rightarrow> vs). canonicalInput w = canonicalInput v) \<or>
     (case en of None \<Rightarrow> [] | Some vs \<Rightarrow> vs) = [] \<and>
       (case ty of None \<Rightarrow> True
        | Some t \<Rightarrow> matchesType v t \<and>
           (t = ''object'' \<longrightarrow> (\<forall>k \<in> set (case req of None \<Rightarrow> [] | Some rs \<Rightarrow> rs). js_field v k \<noteq> None) \<and>
              (\<forall>(k, child) \<in> set (case props of None \<Rightarrow> [] | Some ps \<Rightarrow> ps). \<forall>w. js_field v k = Some w \<longrightarrow> conforms w child)) \<and>
           (t = ''array'' \<longrightarrow> (\<forall>item. items = Some item \<longrightarrow> (\<forall>w \<in> set (array_items v). conforms w item))))"
  by (subst conforms_iff) (auto simp: enum_values_def split: option.splits)

lemma indexed_all: "(\<forall>(i, x) \<in> set (zip [0..<length xs] xs). Q x) \<longleftrightarrow> (\<forall>x \<in> set xs. Q x)"
proof
  assume all: "\<forall>(i, x) \<in> set (zip [0..<length xs] xs). Q x"
  show "\<forall>x \<in> set xs. Q x"
  proof
    fix x assume "x \<in> set xs"
    then obtain i where "i < length xs" "x = xs ! i" by (auto simp: in_set_conv_nth)
    then have "(i, x) \<in> set (zip [0..<length xs] xs)" by (force simp: set_zip)
    with all show "Q x" by blast
  qed
qed (auto dest: set_zip_rightD)

lemma check_node_conforms: "check_node v n path = [] \<longleftrightarrow> conforms v n"
proof (induction v n path rule: check_node.induct)
  case (1 v ty props req en items path)
  show ?case
  proof (cases "enum_values (SchemaNode ty props req en items) = []")
    case False
    then show ?thesis by (auto simp: conforms_unfold enum_values_def list_ex_iff split: option.splits)
  next
    case True
    show ?thesis
    proof (cases ty)
      case None
      with True show ?thesis by (simp add: conforms_unfold enum_values_def)
    next
      case (Some t)
      have items: "(\<forall>(i, w) \<in> set (zip [0..<length (array_items v)] (array_items v)). check_node w item (item_path path i) = []) \<longleftrightarrow>
          (\<forall>w \<in> set (array_items v). conforms w item)" if "t = ''array''" "matchesType v t" "items = Some item" for item
      proof -
        have "check_node w item (item_path path i) = [] \<longleftrightarrow> conforms w item"
          if "(i, w) \<in> set (zip [0..<length (array_items v)] (array_items v))" for i w
          using 1(2) [OF _ Some] True \<open>t = _\<close> \<open>matchesType v t\<close> \<open>items = _\<close> that by simp
        then show ?thesis using indexed_all [of "array_items v" "\<lambda>w. conforms w item"] by (auto simp: case_prod_unfold)
      qed
      let ?ps = "case props of None \<Rightarrow> [] | Some ps \<Rightarrow> ps" and ?rs = "case req of None \<Rightarrow> [] | Some rs \<Rightarrow> rs"
      have props: "(\<forall>(k, child) \<in> set ?ps. (case js_field v k of None \<Rightarrow> [] | Some w \<Rightarrow> check_node w child (field_path path k)) = []) \<longleftrightarrow>
          (\<forall>(k, child) \<in> set ?ps. \<forall>w. js_field v k = Some w \<longrightarrow> conforms w child)" if "t = ''object''" "matchesType v t"
      proof -
        have "(case js_field v k of None \<Rightarrow> [] | Some w \<Rightarrow> check_node w child (field_path path k)) = [] \<longleftrightarrow>
            (\<forall>w. js_field v k = Some w \<longrightarrow> conforms w child)" if "(k, child) \<in> set ?ps" for k child
          using 1(1) [OF _ Some] True \<open>t = _\<close> \<open>matchesType v t\<close> that by (simp split: option.split)
        then show ?thesis by blast
      qed
      have en: "(case en of None \<Rightarrow> [] | Some vs \<Rightarrow> vs) = []" using True by (simp add: enum_values_def)
      consider "\<not> matchesType v t" | "matchesType v t" "t = ''object''" | "matchesType v t" "t = ''array''"
        | "matchesType v t" "t \<noteq> ''object''" "t \<noteq> ''array''" by blast
      then show ?thesis
      proof cases
        case 2
        then show ?thesis using props True by (simp add: conforms_unfold en Some case_prod_unfold missing_fields_Nil)
      next
        case 3
        then show ?thesis using items True by (cases items) (simp_all add: conforms_unfold en Some case_prod_unfold)
      qed (use True in \<open>simp_all add: conforms_unfold en Some\<close>)
    qed
  qed
qed

lemma checkInput_conforms:
  "checkInput args (Some n) = [] \<longleftrightarrow> conforms (case args of None \<Rightarrow> JObj fmempty | Some v \<Rightarrow> v) n"
  by (simp add: checkInput_def check_node_conforms)

end
