(* ===== verification/PackageCalls.thy ===== *)
theory PackageCalls
  imports Turns PackageContract
begin

text \<open>
  Package calls (\<open>packages/code/src/package/calls.ts\<close>, \<open>definition.ts\<close>): the events a package keeps, the
  calls it owes, the check of a call, its attempts with their retries, and the event that records the
  answer. What a method does is a parameter: the outcome of each of its attempts. Ordinals and epochs
  are recorded as whole numbers, and identifiers as texts.
\<close>

section \<open>Declarations\<close>

record method_annotations =
  an_readOnlyHint :: "bool option"
  an_destructiveHint :: "bool option"
  an_idempotentHint :: "bool option"
  an_openWorldHint :: "bool option"

definition ANNOTATION_DEFAULTS :: method_annotations where
  "ANNOTATION_DEFAULTS = \<lparr>an_readOnlyHint = Some False, an_destructiveHint = Some True, an_idempotentHint = Some False, an_openWorldHint = Some True\<rparr>"

record package_definition =
  pd_name :: string
  pd_description :: string
  pd_methods :: "string list"
  pd_inputs :: "(string \<times> schema_node) list"
  pd_annotations :: "(string \<times> method_annotations) list"

definition or_default :: "'a option \<Rightarrow> 'a option \<Rightarrow> 'a option" where
  "or_default x d = (case x of None \<Rightarrow> d | Some _ \<Rightarrow> x)"

definition annotationsOf :: "package_definition \<Rightarrow> string \<Rightarrow> method_annotations" where
  "annotationsOf pkg m = (case map_of (pd_annotations pkg) m of
     None \<Rightarrow> ANNOTATION_DEFAULTS
   | Some a \<Rightarrow> \<lparr>an_readOnlyHint = or_default (an_readOnlyHint a) (an_readOnlyHint ANNOTATION_DEFAULTS),
       an_destructiveHint = or_default (an_destructiveHint a) (an_destructiveHint ANNOTATION_DEFAULTS),
       an_idempotentHint = or_default (an_idempotentHint a) (an_idempotentHint ANNOTATION_DEFAULTS),
       an_openWorldHint = or_default (an_openWorldHint a) (an_openWorldHint ANNOTATION_DEFAULTS)\<rparr>)"

record package_call =
  pk_key :: transition_ref
  pk_method :: string
  pk_arguments :: "json option"

record code_view =
  cw_packages :: "package_definition list"
  cw_calls :: "package_call list"
  cw_pendingCalls :: "package_call list"

definition code_view_empty :: code_view where
  "code_view_empty = \<lparr>cw_packages = [], cw_calls = [], cw_pendingCalls = []\<rparr>"

definition code_view_combine :: "code_view \<Rightarrow> code_view \<Rightarrow> code_view" where
  "code_view_combine l r = \<lparr>cw_packages = cw_packages l @ cw_packages r, cw_calls = cw_calls l @ cw_calls r,
     cw_pendingCalls = cw_pendingCalls l @ cw_pendingCalls r\<rparr>"

section \<open>The events a package keeps\<close>

text \<open>\<open>String(v)\<close> of a field that may be absent.\<close>

definition js_text :: "json option \<Rightarrow> string" where
  "js_text v = (case v of None \<Rightarrow> ''undefined'' | Some v \<Rightarrow> js_string v)"

definition starts_with :: "string \<Rightarrow> string \<Rightarrow> bool" where
  "starts_with prefix s \<longleftrightarrow> take (length prefix) s = prefix"

definition serving_types :: "string list" where
  "serving_types = [''PackageCalled'', ''PackageReturned'', ''CodeSettled'', ''BlockedOn'', ''MessageReceived'', ''ResponseReceived'',
     ''TurnCompleted'', ''TurnFailed'', ''TurnCancelled'', ''TurnResumed'']"

definition servingEvent :: "log_event \<Rightarrow> bool" where
  "servingEvent e \<longleftrightarrow> le_type e \<in> set serving_types"

definition addressed :: "string \<Rightarrow> log_event \<Rightarrow> bool" where
  "addressed name e \<longleftrightarrow> le_type e = ''PackageCalled'' \<and> starts_with (name @ ''.'') (js_text (ev_field e ''name''))"

definition belongs_to_turn :: "string \<Rightarrow> log_event \<Rightarrow> bool" where
  "belongs_to_turn turn e \<longleftrightarrow> turnOf e = Some turn \<or> le_type e = ''MessageReceived'' \<and> idOf e = turn"

definition package_step :: "string \<Rightarrow> log_event \<Rightarrow> log_event list \<Rightarrow> log_event list" where
  "package_step name e log =
     (if le_type e = ''TurnCompleted'' \<or> le_type e = ''TurnCancelled'' then (case turnOf e of
        None \<Rightarrow> log
      | Some turn \<Rightarrow>
          if list_ex (fails_at turn (eventEpochOf e)) log \<or> eventEpochOf e \<noteq> turnEpochOf log turn then log @ [e]
          else filter (\<lambda>x. \<not> belongs_to_turn turn x) log)
      else if \<not> servingEvent e \<or> le_type e = ''PackageCalled'' \<and> \<not> addressed name e then log
      else log @ [e])"

section \<open>The calls it owes\<close>

fun filter_try :: "('a \<Rightarrow> 'e + bool) \<Rightarrow> 'a list \<Rightarrow> 'e + 'a list" where
  "filter_try p [] = Inr []"
| "filter_try p (x # xs) = try_bind (p x) (\<lambda>b. try_bind (filter_try p xs) (\<lambda>ys. Inr (if b then x # ys else ys)))"

text \<open>\<open>some\<close> and \<open>find\<close> stop at the first element that answers.\<close>

fun find_try :: "('a \<Rightarrow> 'e + bool) \<Rightarrow> 'a list \<Rightarrow> 'e + 'a option" where
  "find_try p [] = Inr None"
| "find_try p (x # xs) = try_bind (p x) (\<lambda>b. if b then Inr (Some x) else find_try p xs)"

definition same_package_key :: "string \<Rightarrow> log_event \<Rightarrow> log_event \<Rightarrow> runtime_error + bool" where
  "same_package_key t event e = (if le_type e \<noteq> t then Inr False
     else try_bind (packageKeyOf e) (\<lambda>k. try_bind (packageKeyOf event) (\<lambda>k'. Inr (k = k'))))"

definition settles_execution :: "log_event \<Rightarrow> log_event \<Rightarrow> runtime_error + bool" where
  "settles_execution event e = (if le_type e \<noteq> ''CodeSettled'' then Inr False
     else try_bind (executionKeyOf e) (\<lambda>k. try_bind (executionKeyOf event) (\<lambda>k'.
       Inr (k = k' \<and> ev_field event ''executionRef'' \<noteq> None))))"

definition ends_turn_of :: "log_event \<Rightarrow> log_event \<Rightarrow> bool" where
  "ends_turn_of event e \<longleftrightarrow> isTerminal e \<and> turnOf e = turnOf event \<and> eventEpochOf e = eventEpochOf event"

definition replies_to :: "log_event \<Rightarrow> log_event \<Rightarrow> bool" where
  "replies_to blocked e \<longleftrightarrow> (le_type e = ''MessageReceived'' \<or> le_type e = ''ResponseReceived'') \<and> ev_field e ''id'' = ev_field blocked ''awaiting''"

definition pending_call :: "log_event list \<Rightarrow> string list \<Rightarrow> log_event \<Rightarrow> runtime_error + bool" where
  "pending_call log returned event = try_bind (packageKeyOf event) (\<lambda>key.
     if key \<in> set returned then Inr False
     else try_bind (find_try (settles_execution event) log) (\<lambda>settled.
       if settled \<noteq> None then Inr False
       else if turnOf event \<noteq> None \<and> list_ex (ends_turn_of event) log then Inr False
       else try_bind (find_try (same_package_key ''BlockedOn'' event) log) (\<lambda>blocked. Inr (case blocked of
         None \<Rightarrow> True
       | Some b \<Rightarrow> list_ex (replies_to b) log))))"

definition pendingCalls :: "string \<Rightarrow> log_event list \<Rightarrow> runtime_error + log_event list" where
  "pendingCalls name log = try_bind (map_try packageKeyOf (filter (\<lambda>e. le_type e = ''PackageReturned'') log)) (\<lambda>returned.
     filter_try (pending_call log returned) (filter (addressed name) log))"

definition currentCalls :: "string \<Rightarrow> log_event list \<Rightarrow> log_event list" where
  "currentCalls name log = filter (\<lambda>e. turnOf e = map_option (\<lambda>h. js_text (ev_field h ''id'')) (turnHead log)) (filter (addressed name) log)"

section \<open>A call\<close>

definition call_method :: "package_definition \<Rightarrow> log_event \<Rightarrow> string" where
  "call_method pkg event = drop (length (pd_name pkg) + 1) (js_text (ev_field event ''name''))"

text \<open>\<open>shadow\<close> is the shadow flag recorded with the call, or that of the head of the turn.\<close>

definition call_shadow :: "bool option \<Rightarrow> log_event list \<Rightarrow> bool" where
  "call_shadow recorded log = (case recorded of
     Some b \<Rightarrow> b
   | None \<Rightarrow> (case turnHead log of None \<Rightarrow> False | Some h \<Rightarrow> ev_field h ''shadow'' = Some (JBool True)))"

definition call_error :: "package_definition \<Rightarrow> bool \<Rightarrow> log_event \<Rightarrow> string option" where
  "call_error pkg shadow event =
     (let name = js_text (ev_field event ''name''); m = call_method pkg event;
          annotations = map_of (pd_annotations pkg) m;
          schema = map_of (pd_inputs pkg) m;
          issues = (case schema of None \<Rightarrow> [] | Some _ \<Rightarrow> checkInput (ev_field event ''arguments'') schema)
      in if m \<notin> set (pd_methods pkg) then Some (''Unknown method '' @ name)
         else if shadow \<and> Option.bind annotations an_readOnlyHint \<noteq> Some True \<and> Option.bind annotations an_openWorldHint \<noteq> Some False
         then Some (''shadow run: '' @ name @ '' is an open-world write and does not execute in a shadow run'')
         else if issues = [] then None
         else Some (name @ '': '' @ js_join ''; '' issues @ ''. Signature: '' @ renderSignature m schema DEFAULT_SIGNATURE_DEPTH))"

datatype attempt = AttemptResult "json option" | AttemptPark "string option" | AttemptTimeout | AttemptDefect string

datatype call_outcome = CallParked "string option" | CallResult "json option"

definition policy_json :: "package_call_policy \<Rightarrow> json" where
  "policy_json p = JObj (fmap_of_list [(''attemptTimeoutMs'', JInt (pl_attemptTimeoutMs p)), (''retryDelaysMs'', JArr (map JInt (pl_retryDelaysMs p)))])"

definition failed_result :: "package_call_policy \<Rightarrow> string \<Rightarrow> nat \<Rightarrow> string \<Rightarrow> json" where
  "failed_result p name n reason = JObj (fmap_of_list
     [(''error'', JStr (name @ '' failed after '' @ nat_text (n + 1) @ '' attempts: '' @ reason)), (''attempts'', JInt (int n + 1)), (''policy'', policy_json p)])"

definition attempt_failure :: "package_call_policy \<Rightarrow> attempt \<Rightarrow> string option" where
  "attempt_failure p a = (case a of
     AttemptTimeout \<Rightarrow> Some (''timed out after '' @ int_text (pl_attemptTimeoutMs p) @ ''ms'')
   | AttemptDefect reason \<Rightarrow> Some reason
   | _ \<Rightarrow> None)"

fun attempt_outcome :: "attempt \<Rightarrow> call_outcome" where
  "attempt_outcome (AttemptResult r) = CallResult r"
| "attempt_outcome (AttemptPark w) = CallParked w"
| "attempt_outcome _ = CallResult None"

text \<open>Each failed attempt consumes a delay of the policy, so the attempts end.\<close>

function invoke :: "package_call_policy \<Rightarrow> string \<Rightarrow> (nat \<Rightarrow> attempt) \<Rightarrow> nat \<Rightarrow> call_outcome" where
  "invoke p name attempts n = (case attempt_failure p (attempts n) of
     None \<Rightarrow> attempt_outcome (attempts n)
   | Some reason \<Rightarrow> if n < length (pl_retryDelaysMs p) then invoke p name attempts (n + 1)
       else CallResult (Some (failed_result p name n reason)))"
  by pat_completeness auto
termination by (relation "measure (\<lambda>(p, name, attempts, n). length (pl_retryDelaysMs p) - n)") auto

declare invoke.simps [simp del]

definition call_result :: "package_definition \<Rightarrow> package_call_policy \<Rightarrow> bool \<Rightarrow> (nat \<Rightarrow> attempt) \<Rightarrow> log_event \<Rightarrow> call_outcome" where
  "call_result pkg p shadow attempts event = (case call_error pkg shadow event of
     None \<Rightarrow> invoke p (js_text (ev_field event ''name'')) attempts 0
   | Some error \<Rightarrow> CallResult (Some (JObj (fmap_of_list [(''error'', JStr error)]))))"

definition stampOf :: "log_event \<Rightarrow> int \<Rightarrow> runtime_error + code_stamp" where
  "stampOf event time = try_bind (if ev_field event ''executionRef'' = None then Inr None else executionRefOf event) (\<lambda>ref.
     Inr \<lparr>cp_owner = None, cp_execution = ref, cp_ordinal = map_option nat (ordinal_of (ev_field event ''ordinal'')), cp_turn = turnOf event,
       cp_epoch = map_option nat (ordinal_of (ev_field event ''epoch'')), cp_at = time\<rparr>)"

datatype call_record = AppendBlocked log_event | NothingRecorded | RecordReturn log_event | SpillReturn string string log_event

definition result_text :: "json option \<Rightarrow> string" where
  "result_text r = canonicalInput (case r of None \<Rightarrow> JNull | Some v \<Rightarrow> v)"

definition record_call :: "spill_policy \<Rightarrow> log_event \<Rightarrow> int \<Rightarrow> call_outcome \<Rightarrow> runtime_error + call_record" where
  "record_call sp event time out = try_bind (stampOf event time) (\<lambda>s.
     let callId = js_text (ev_field event ''callId'') in
     case out of
       CallParked None \<Rightarrow> Inr NothingRecorded
     | CallParked (Some w) \<Rightarrow> Inr (AppendBlocked (blockedOn callId w s))
     | CallResult r \<Rightarrow> (let text = result_text r in
         if length text > sy_spillBytes sp
         then try_bind (packageKeyOf event) (\<lambda>key. Inr (SpillReturn key text
           (packageReturned callId (spillPointer key (length text) (take (sy_previewChars sp) text) (sy_note sp)) s)))
         else Inr (RecordReturn (packageReturned callId (opt_field ''result'' (\<lambda>v. v) r) s))))"

section \<open>Attempts\<close>

lemma invoke_attempts:
  "n \<le> length (pl_retryDelaysMs p) \<Longrightarrow>
    (\<exists>k. n \<le> k \<and> k \<le> length (pl_retryDelaysMs p) \<and> (\<forall>i. n \<le> i \<and> i < k \<longrightarrow> attempt_failure p (attempts i) \<noteq> None) \<and>
      (case attempt_failure p (attempts k) of
         None \<Rightarrow> invoke p name attempts n = attempt_outcome (attempts k)
       | Some reason \<Rightarrow> k = length (pl_retryDelaysMs p) \<and> invoke p name attempts n = CallResult (Some (failed_result p name k reason))))"
proof (induction p name attempts n rule: invoke.induct)
  case (1 p name attempts n)
  show ?case
  proof (cases "\<exists>reason. attempt_failure p (attempts n) = Some reason \<and> n < length (pl_retryDelaysMs p)")
    case True
    then obtain reason where fail: "attempt_failure p (attempts n) = Some reason" and n: "n < length (pl_retryDelaysMs p)" by blast
    then have step: "invoke p name attempts n = invoke p name attempts (n + 1)" by (simp add: invoke.simps [of p name attempts n])
    from "1.IH" [OF fail n] n obtain k where k: "n + 1 \<le> k" "k \<le> length (pl_retryDelaysMs p)"
      "\<forall>i. n + 1 \<le> i \<and> i < k \<longrightarrow> attempt_failure p (attempts i) \<noteq> None"
      "case attempt_failure p (attempts k) of
         None \<Rightarrow> invoke p name attempts (n + 1) = attempt_outcome (attempts k)
       | Some reason \<Rightarrow> k = length (pl_retryDelaysMs p) \<and> invoke p name attempts (n + 1) = CallResult (Some (failed_result p name k reason))"
      by auto
    have "\<forall>i. n \<le> i \<and> i < k \<longrightarrow> attempt_failure p (attempts i) \<noteq> None"
      using k(3) fail by (metis Suc_eq_plus1 le_antisym not_less_eq_eq option.distinct(1))
    with k(1,2,4) show ?thesis unfolding step by (intro exI [of _ k]) (simp only: conj_assoc add_leD1 simp_thms)
  next
    case False
    with "1.prems" show ?thesis
      by (intro exI [of _ n]) (auto simp: invoke.simps [of p name attempts n] split: option.split)
  qed
qed

end
