(* ===== verification/CodeExecution.thy ===== *)
theory CodeExecution
  imports TurnProjection CodeFacts PackageCalls
begin

text \<open>
  The execution of code (\<open>packages/code/src/execution/code.ts\<close>): the scope's checks, the state that
  selects the execution to run, what a call from inside the body finds in the log, and the event an
  attempt settles with; attempts themselves are in \<open>CodeAttempts\<close>. \<open>parse\<close> is \<open>JSON.parse\<close> of a text the
  store holds, \<open>None\<close> where it throws.
\<close>

section \<open>Scope\<close>

fun duplicate_package :: "string list \<Rightarrow> package_definition list \<Rightarrow> string option" where
  "duplicate_package named [] = None"
| "duplicate_package named (pkg # pkgs) = (if pd_name pkg \<in> set named then Some (pd_name pkg)
     else duplicate_package (pd_name pkg # named) pkgs)"

definition answers_with :: "package_definition \<Rightarrow> string \<Rightarrow> string list \<Rightarrow> bool" where
  "answers_with workspace m names \<longleftrightarrow> m \<in> set (pd_methods workspace) \<and>
     (case Option.bind (map_of (pd_inputs workspace) m) nd_properties of
        None \<Rightarrow> True | Some ps \<Rightarrow> list_all (\<lambda>f. f \<in> fst ` set ps) names)"

definition workspace_refusal :: string where
  "workspace_refusal = ''package '' @ [CHR 0x22] @ ''workspace'' @ [CHR 0x22] @ '' cannot answer the spill pointer: a bounded result tells the model '' @
     [CHR 0x60] @ ''workspace.read({ref})'' @ [CHR 0x60] @ '' and '' @ [CHR 0x60] @ ''workspace.grep({pattern, ref})'' @ [CHR 0x60] @
     ''. Provide both methods with matching input contracts, mount the package under another name, or state the pointer through the spill policy note (CodePolicy.spill.note).''"

record code_policy =
  cy_spillBytes :: "nat option"
  cy_previewChars :: "nat option"
  cy_note :: "(string \<Rightarrow> string) option"
  cy_timeout :: "int option"
  cy_delays :: "int list option"

definition code_scope :: "code_policy \<Rightarrow> package_definition list \<Rightarrow> runtime_error + spill_policy \<times> package_call_policy" where
  "code_scope policy packages = (case duplicate_package [] packages of
     Some name \<Rightarrow> Inl (Error (''package '' @ [CHR 0x22] @ name @ [CHR 0x22] @ '' declared twice''))
   | None \<Rightarrow>
       let workspace = find (\<lambda>p. pd_name p = ''workspace'') packages in
       if cy_note policy = None \<and> (case workspace of None \<Rightarrow> False
            | Some w \<Rightarrow> \<not> answers_with w ''read'' [''ref''] \<or> \<not> answers_with w ''grep'' [''pattern'', ''ref''])
       then Inl (Error workspace_refusal)
       else let note = (case cy_note policy of Some f \<Rightarrow> f
              | None \<Rightarrow> if workspace = None then BARE_SPILL_NOTE else WORKSPACE_SPILL_NOTE) in
         try_bind (packageCallPolicyOf (cy_timeout policy) (cy_delays policy)) (\<lambda>call.
           Inr (spillPolicyOf (cy_spillBytes policy) (cy_previewChars policy) (Some note), call)))"

section \<open>State\<close>

record code_state =
  cs_turns :: turn_projection
  cs_dispatches :: "(string \<times> log_event) list"
  cs_settled :: "string list"
  cs_calls :: "(string \<times> string) list"
  cs_returned :: "string list"

definition initialCode :: code_state where
  "initialCode = \<lparr>cs_turns = initialTurnProjection, cs_dispatches = [], cs_settled = [], cs_calls = [], cs_returned = []\<rparr>"

text \<open>A time is a number: \<open>Number(at ?? 0)\<close>.\<close>

definition time_of :: "log_event \<Rightarrow> int" where
  "time_of e = (case number_or_zero (ev_field e ''at'') of None \<Rightarrow> 0 | Some n \<Rightarrow> n)"

definition code_step :: "log_event \<Rightarrow> code_state \<Rightarrow> runtime_error + code_state" where
  "code_step e s =
     try_bind
       (if le_type e = ''CodeDispatched'' then try_bind (executionKeyOf e) (\<lambda>execId. Inr (case map_of (cs_dispatches s) execId of
          None \<Rightarrow> s\<lparr>cs_dispatches := js_set execId e (cs_dispatches s)\<rparr>
        | Some prior \<Rightarrow> if time_of e < time_of prior then s\<lparr>cs_dispatches := js_set execId e (cs_dispatches s)\<rparr> else s))
        else if le_type e = ''CodeSettled'' then try_bind (executionKeyOf e) (\<lambda>k. Inr (s\<lparr>cs_settled := set_add k (cs_settled s)\<rparr>))
        else if le_type e = ''PackageCalled'' then try_bind (packageKeyOf e) (\<lambda>callId. try_bind (executionRefOf e) (\<lambda>ref.
          try_bind (if ref = None then Inr (longest_owner callId (map fst (cs_dispatches s))) else executionKeyOf e) (\<lambda>owner.
            Inr (s\<lparr>cs_calls := js_set callId owner (cs_calls s)\<rparr>))))
        else if le_type e = ''PackageReturned'' then try_bind (packageKeyOf e) (\<lambda>k. Inr (s\<lparr>cs_returned := set_add k (cs_returned s)\<rparr>))
        else Inr s)
       (\<lambda>s. Inr (s\<lparr>cs_turns := reduceTurnProjection e (cs_turns s)\<rparr>))"

definition open_calls :: "code_state \<Rightarrow> string \<Rightarrow> string list" where
  "open_calls s execId = map fst (filter (\<lambda>(callId, owner). owner = execId \<and> callId \<notin> set (cs_returned s)) (cs_calls s))"

definition waits :: "code_state \<Rightarrow> string \<times> log_event \<Rightarrow> bool" where
  "waits s = (\<lambda>(execId, dispatch). execId \<notin> set (cs_settled s) \<and>
     (case turnOf dispatch of None \<Rightarrow> True | Some turn \<Rightarrow> turnTerminalFrom (cs_turns s) turn = None))"

text \<open>The loop breaks at the first dispatch that is not passed over.\<close>

definition select_dispatch :: "code_state \<Rightarrow> (string \<times> log_event) option" where
  "select_dispatch s = (case find (waits s) (sort_key (\<lambda>(execId, e). (time_of e, execId)) (cs_dispatches s)) of
     None \<Rightarrow> None
   | Some (execId, dispatch) \<Rightarrow> if open_calls s execId = [] then Some (execId, dispatch) else None)"

record execution_input =
  xi_execId :: string
  xi_executionRef :: "transition_ref option"
  xi_code :: string
  xi_turn :: "string option"
  xi_epoch :: int
  xi_at :: "json option"

definition execute_effect :: "code_state \<Rightarrow> runtime_error + execution_input option" where
  "execute_effect s = (case select_dispatch s of
     None \<Rightarrow> Inr None
   | Some (_, dispatch) \<Rightarrow> try_bind (executionRefOf dispatch) (\<lambda>ref. Inr (Some
       \<lparr>xi_execId = text_or_empty (ev_field dispatch ''execId''), xi_executionRef = ref, xi_code = text_or_empty (ev_field dispatch ''code''),
        xi_turn = turnOf dispatch, xi_epoch = eventEpochOf dispatch,
        xi_at = (case ev_field dispatch ''at'' of Some (JInt n) \<Rightarrow> Some (JInt n) | Some (JNum t) \<Rightarrow> Some (JNum t) | _ \<Rightarrow> None)\<rparr>)))"

text \<open>What cancelling a turn settles: the first of its open executions.\<close>

definition cancel_settlement :: "code_state \<Rightarrow> string \<Rightarrow> int \<Rightarrow> string option \<Rightarrow> int \<Rightarrow> runtime_error + log_event option" where
  "cancel_settlement s turn epoch reason time =
     (case find (\<lambda>(key, d). key \<notin> set (cs_settled s) \<and> turnOf d = Some turn \<and> eventEpochOf d = epoch) (cs_dispatches s) of
        None \<Rightarrow> Inr None
      | Some (_, d) \<Rightarrow> try_bind (executionRefOf d) (\<lambda>ref. Inr (Some (codeSettled (js_text (ev_field d ''execId''))
          [(''error'', JStr (case reason of None \<Rightarrow> ''cancelled'' | Some r \<Rightarrow> ''cancelled: '' @ r))]
          \<lparr>cp_owner = None, cp_execution = ref, cp_ordinal = None, cp_turn = Some turn, cp_epoch = Some (nat epoch), cp_at = time\<rparr>))))"

section \<open>An attempt\<close>

text \<open>What a call finds in the log: \<open>key\<close> identifies it, \<open>called\<close> is the event that would record it.\<close>

datatype call_step =
    Drifted string
  | ReturnFound log_event
  | RequestMissing log_event
  | Waiting

definition drift_message :: "string \<Rightarrow> string \<Rightarrow> string" where
  "drift_message callId drift = ''nondeterministic body: call '' @ callId @ '' '' @ drift @
     ''. A body must make the same calls in the same order on every attempt; derive every call from the brief, the input, and recorded returns only.''"

definition call_drift :: "string \<Rightarrow> json option \<Rightarrow> log_event \<Rightarrow> string option" where
  "call_drift asked args sent =
     (if js_text (ev_field sent ''name'') \<noteq> asked
      then Some (''asked '' @ asked @ '' where the log recorded '' @ js_text (ev_field sent ''name''))
      else if map_option canonicalInput (ev_field sent ''arguments'') \<noteq> map_option canonicalInput args
      then Some (''asked '' @ asked @ '' with different arguments than the log recorded'')
      else None)"

definition keyed_as :: "string \<Rightarrow> string \<Rightarrow> log_event \<Rightarrow> runtime_error + bool" where
  "keyed_as t key e = (if le_type e \<noteq> t then Inr False else try_bind (packageKeyOf e) (\<lambda>k. Inr (k = key)))"

definition recorded_answer :: "(string \<Rightarrow> json option) \<Rightarrow> kv_store \<Rightarrow> log_event \<Rightarrow> runtime_error + json option" where
  "recorded_answer parse store e = (case ev_field e ''tmp'' of
     None \<Rightarrow> Inr (ev_field e ''result'')
   | Some tmp \<Rightarrow> (case hydrate (js_string tmp) store of
       None \<Rightarrow> Inr (ev_field e ''result'')
     | Some content \<Rightarrow> (case parse content of None \<Rightarrow> Inl (Error ''SyntaxError'') | Some v \<Rightarrow> Inr (Some v))))"

definition request_call :: "log_event list \<Rightarrow> string \<Rightarrow> string \<Rightarrow> string \<Rightarrow> json option \<Rightarrow> log_event \<Rightarrow> runtime_error + call_step" where
  "request_call log callId key asked args called =
     try_bind (find_try (keyed_as ''PackageCalled'' key) log) (\<lambda>sent.
       case Option.bind sent (call_drift asked args) of
         Some drift \<Rightarrow> Inr (Drifted (drift_message callId drift))
       | None \<Rightarrow> try_bind (find_try (keyed_as ''PackageReturned'' key) log) (\<lambda>returned. Inr (case returned of
           Some r \<Rightarrow> ReturnFound r
         | None \<Rightarrow> if sent = None then RequestMissing called else Waiting)))"

text \<open>What the body's end settles with; a large result goes to the store.\<close>

datatype body_result = BodyReturned "json option" | BodyFailed string

definition logs_field :: "string list \<Rightarrow> (string \<times> json) list" where
  "logs_field logs = (if logs = [] then [] else [(''logs'', JArr (map JStr logs))])"

definition settle_body :: "spill_policy \<Rightarrow> string \<Rightarrow> string \<Rightarrow> body_result \<Rightarrow> string list \<Rightarrow> code_stamp \<Rightarrow> (string \<times> string) option \<times> log_event" where
  "settle_body sp execId key result logs stamp = (case result of
     BodyFailed error \<Rightarrow> (None, codeSettled execId ([(''error'', JStr error)] @ logs_field logs) stamp)
   | BodyReturned r \<Rightarrow> (let text = result_text r in
       if length text > sy_spillBytes sp then
         (let ref = key @ ''.result'' in (Some (ref, text),
           codeSettled execId (spillPointer ref (length text) (take (sy_previewChars sp) text) (sy_note sp) @ logs_field logs) stamp))
       else (None, codeSettled execId (opt_field ''result'' (\<lambda>v. v) r @ logs_field logs) stamp)))"

section \<open>The events of an execution\<close>

record execution_scope =
  xs_execId :: string
  xs_ref :: transition_ref
  xs_turn :: "string option"
  xs_epoch :: "nat option"
  xs_policy :: json

definition call_stamp :: "execution_scope \<Rightarrow> nat \<Rightarrow> int \<Rightarrow> code_stamp" where
  "call_stamp x n time = \<lparr>cp_owner = None, cp_execution = Some (xs_ref x), cp_ordinal = Some n, cp_turn = xs_turn x, cp_epoch = xs_epoch x, cp_at = time\<rparr>"

definition called_event :: "execution_scope \<Rightarrow> nat \<Rightarrow> string \<Rightarrow> json option \<Rightarrow> int \<Rightarrow> log_event" where
  "called_event x n asked args time = packageCalled (call_id_of (transition_text (xs_ref x)) n) asked args (xs_policy x) (call_stamp x n time)"

lemma find_try_append: "find_try p (xs @ ys) = (case find_try p xs of Inr None \<Rightarrow> find_try p ys | r \<Rightarrow> r)"
proof (induction xs)
  case (Cons a xs)
  then show ?case by (cases "p a") auto
qed simp

lemma find_try_Some: "find_try p xs = Inr (Some x) \<Longrightarrow> x \<in> set xs \<and> p x = Inr True"
  by (induction xs) (auto split: if_splits)

lemma find_try_None: "find_try p xs = Inr None \<Longrightarrow> y \<in> set xs \<Longrightarrow> p y = Inr False"
  by (induction xs) (auto split: if_splits)

lemma find_try_total: "(\<And>x. x \<in> set xs \<Longrightarrow> \<exists>b. p x = Inr b) \<Longrightarrow> \<exists>r. find_try p xs = Inr r"
proof (induction xs)
  case (Cons x xs)
  from Cons.prems obtain b where "p x = Inr b" by force
  with Cons show ?case by (cases b) simp_all
qed simp

lemma keyed_as_True: "keyed_as t key e = Inr True \<longleftrightarrow> le_type e = t \<and> packageKeyOf e = Inr key"
  by (auto simp: keyed_as_def)

lemma called_no_drift: "call_drift asked args (called_event x n asked args time) = None"
  by (simp add: call_drift_def called_event_def packageCalled_def code_event_def ev_field_def stamp_fields_def call_stamp_def opt_field_def
      fmlookup_of_list js_text_def split: option.split)

lemma called_event_fields: "le_type (called_event x n asked args time) = ''PackageCalled''"
    "ev_field (called_event x n asked args time) ''executionRef'' = Some (transition_json (xs_ref x))"
    "ev_field (called_event x n asked args time) ''ordinal'' = Some (JInt (int n))"
  by (simp_all add: called_event_def packageCalled_def code_event_def ev_field_def stamp_fields_def call_stamp_def opt_field_def
      fmlookup_of_list split: option.split)

text \<open>The key of a call is determined by the execution and the ordinal; it is the text of both where it can be formed.\<close>

definition call_key :: "execution_scope \<Rightarrow> nat \<Rightarrow> runtime_error + string" where
  "call_key x n = packageKeyOf (called_event x n [] None 0)"

lemma called_key [simp]: "packageKeyOf (called_event x n asked args time) = call_key x n"
  by (cases "decode_transition (transition_json (xs_ref x))")
    (simp_all add: call_key_def packageKeyOf_def executionRefOf_def called_event_fields)

lemma call_key_Inr: "call_key x n = Inr key \<Longrightarrow> key = package_text (xs_ref x) (int n)"
proof -
  have "decode_transition (transition_json (xs_ref x)) = Some r \<Longrightarrow> r = xs_ref x" for r
    by (auto simp: transition_json_def required_key_def fmlookup_of_list bind_eq_Some_conv split: if_splits elim: decode_nonempty.elims)
  then show "call_key x n = Inr key \<Longrightarrow> key = package_text (xs_ref x) (int n)"
    by (auto simp: call_key_def packageKeyOf_def executionRefOf_def called_event_fields split: option.splits if_splits)
qed

end
