(* ===== verification/CodeAttempts.thy ===== *)
theory CodeAttempts
  imports CodeExecution "HOL-Library.Sublist"
begin

text \<open>
  The attempts of an execution (\<open>executeRecorded\<close> of \<open>packages/code/src/execution/code.ts\<close>): calls in
  flight together, each reading the log and recording its request in separate steps, the flags that close
  an attempt, and attempts that overlap. The body runs in the sandbox, which numbers its calls
  (\<open>guestBindings\<close> of \<open>sandbox/service.ts\<close>); it is a parameter, told by the answers it has received so
  far: the calls it has asked for, in order, and what it ended with. An answer is a value or the error the
  guest's promise is rejected with.
\<close>

section \<open>Bodies\<close>

type_synonym answer = "runtime_error + json option"

record guest =
  gb_asks :: "(nat \<Rightarrow> answer option) \<Rightarrow> (string \<times> json option) list"
  gb_ends :: "(nat \<Rightarrow> answer option) \<Rightarrow> body_result option"

text \<open>
  What the code asks of a body: it derives every call from the answers it has received, so that more
  answers only add calls after those it made, and leave the end it reached.
\<close>

definition deterministic :: "guest \<Rightarrow> bool" where
  "deterministic g \<longleftrightarrow> (\<forall>got got'. got \<subseteq>\<^sub>m got' \<longrightarrow> prefix (gb_asks g got) (gb_asks g got') \<and>
     (\<forall>r. gb_ends g got = Some r \<longrightarrow> gb_ends g got' = Some r))"

lemma asks_mono: "deterministic g \<Longrightarrow> got \<subseteq>\<^sub>m got' \<Longrightarrow> prefix (gb_asks g got) (gb_asks g got')"
  by (simp add: deterministic_def)

lemma ends_mono: "deterministic g \<Longrightarrow> got \<subseteq>\<^sub>m got' \<Longrightarrow> gb_ends g got = Some r \<Longrightarrow> gb_ends g got' = Some r"
  by (simp add: deterministic_def)

text \<open>A body that asks for calls together, as \<open>Promise.all\<close> does, and goes on when all are answered.\<close>

datatype script = Finish body_result | AskAll "(string \<times> json option) list" "answer list \<Rightarrow> script"

definition all_answers :: "(nat \<Rightarrow> answer option) \<Rightarrow> nat \<Rightarrow> nat \<Rightarrow> answer list option" where
  "all_answers got n k = those (map got [n..<n + k])"

primrec script_asks :: "script \<Rightarrow> nat \<Rightarrow> (nat \<Rightarrow> answer option) \<Rightarrow> (string \<times> json option) list" where
  "script_asks (Finish r) n got = []"
| "script_asks (AskAll calls continue) n got = calls @ (case all_answers got n (length calls) of
     None \<Rightarrow> [] | Some vs \<Rightarrow> script_asks (continue vs) (n + length calls) got)"

primrec script_ends :: "script \<Rightarrow> nat \<Rightarrow> (nat \<Rightarrow> answer option) \<Rightarrow> body_result option" where
  "script_ends (Finish r) n got = Some r"
| "script_ends (AskAll calls continue) n got = (case all_answers got n (length calls) of
     None \<Rightarrow> None | Some vs \<Rightarrow> script_ends (continue vs) (n + length calls) got)"

definition script_guest :: "script \<Rightarrow> guest" where
  "script_guest b = \<lparr>gb_asks = script_asks b 0, gb_ends = script_ends b 0\<rparr>"

lemma those_mono: "those (map got ns) = Some vs \<Longrightarrow> got \<subseteq>\<^sub>m got' \<Longrightarrow> those (map got' ns) = Some vs"
proof (induction ns arbitrary: vs)
  case (Cons n ns)
  from Cons.prems(1) obtain v us where "got n = Some v" "those (map got ns) = Some us" "vs = v # us" by (auto split: option.splits)
  moreover from this Cons.prems(2) have "got' n = Some v" by (auto simp: map_le_def dom_def)
  ultimately show ?case using Cons by simp
qed simp

lemma all_answers_mono: "all_answers got n k = Some vs \<Longrightarrow> got \<subseteq>\<^sub>m got' \<Longrightarrow> all_answers got' n k = Some vs"
  unfolding all_answers_def by (rule those_mono)

lemma script_deterministic: "deterministic (script_guest b)"
proof -
  have "prefix (script_asks b n got) (script_asks b n got') \<and> (script_ends b n got = Some r \<longrightarrow> script_ends b n got' = Some r)"
    if le: "got \<subseteq>\<^sub>m got'" for n got got' r
  proof (induction b arbitrary: n)
    case (AskAll calls continue)
    show ?case
    proof (cases "all_answers got n (length calls)")
      case (Some vs)
      with all_answers_mono [OF Some le] AskAll [of "continue vs"] show ?thesis by simp
    qed simp
  qed simp
  then show ?thesis by (auto simp: deterministic_def script_guest_def)
qed

section \<open>An attempt\<close>

text \<open>
  A call of an attempt: asked, about to read the log, with a recorded return to deliver, with a request
  to record, with its request recorded, told to wait, answered, or left hanging after a drift.
\<close>

datatype call_status =
    CallQueued string "json option"
  | CallReading string "json option"
  | CallReturning log_event
  | CallRequesting log_event
  | CallRequested
  | CallHeld
  | CallAnswered answer
  | CallStuck

datatype attempt_end = AttemptDrifted string | AttemptParked | AttemptDone body_result

record body_attempt =
  at_calls :: "call_status list"
  at_accepting :: bool
  at_inFlight :: int
  at_body :: "body_result option"
  at_parked :: bool
  at_drifted :: "string option"
  at_gate :: bool
  at_end :: "attempt_end option"

definition new_attempt :: body_attempt where
  "new_attempt = \<lparr>at_calls = [], at_accepting = True, at_inFlight = 0, at_body = None, at_parked = False, at_drifted = None, at_gate = False, at_end = None\<rparr>"

text \<open>The answers the body has received.\<close>

definition received :: "body_attempt \<Rightarrow> nat \<Rightarrow> answer option" where
  "received a n = (if n < length (at_calls a) then (case at_calls a ! n of CallAnswered v \<Rightarrow> Some v | _ \<Rightarrow> None) else None)"

definition set_call :: "nat \<Rightarrow> call_status \<Rightarrow> body_attempt \<Rightarrow> body_attempt" where
  "set_call n st a = a\<lparr>at_calls := (at_calls a)[n := st]\<rparr>"

definition finish_call :: "body_attempt \<Rightarrow> body_attempt" where
  "finish_call a = (let a = a\<lparr>at_inFlight := at_inFlight a - 1\<rparr> in
     if (at_parked a \<or> at_body a \<noteq> None) \<and> at_inFlight a = 0 then a\<lparr>at_accepting := False, at_gate := True\<rparr> else a)"

text \<open>The binding of a method; the sandbox gives the calls their ordinals as the body makes them.\<close>

definition ask_call :: "execution_scope \<Rightarrow> string \<Rightarrow> json option \<Rightarrow> body_attempt \<Rightarrow> body_attempt" where
  "ask_call x name args a =
     (if \<not> at_accepting a then a\<lparr>at_calls := at_calls a @ [CallHeld]\<rparr>
      else case call_key x (length (at_calls a)) of
        Inl e \<Rightarrow> a\<lparr>at_calls := at_calls a @ [CallAnswered (Inl e)]\<rparr>
      | Inr _ \<Rightarrow> a\<lparr>at_calls := at_calls a @ [CallQueued name args], at_inFlight := at_inFlight a + 1\<rparr>)"

definition enter_call :: "nat \<Rightarrow> string \<Rightarrow> json option \<Rightarrow> body_attempt \<Rightarrow> body_attempt" where
  "enter_call n name args a = (if \<not> at_accepting a then finish_call (set_call n CallHeld a) else set_call n (CallReading name args) a)"

definition read_call :: "execution_scope \<Rightarrow> log_event list \<Rightarrow> int \<Rightarrow> nat \<Rightarrow> string \<Rightarrow> json option \<Rightarrow> body_attempt \<Rightarrow> body_attempt" where
  "read_call x log time n name args a =
     (case try_bind (call_key x n) (\<lambda>key. request_call log (call_id_of (transition_text (xs_ref x)) n) key name args (called_event x n name args time)) of
        Inl e \<Rightarrow> finish_call (set_call n (CallAnswered (Inl e)) a)
      | Inr (Drifted message) \<Rightarrow> set_call n CallStuck (a\<lparr>at_drifted := Some message, at_gate := True\<rparr>)
      | Inr (ReturnFound r) \<Rightarrow> set_call n (CallReturning r) a
      | Inr (RequestMissing called) \<Rightarrow> set_call n (CallRequesting called) a
      | Inr Waiting \<Rightarrow> finish_call (set_call n CallHeld (a\<lparr>at_parked := True\<rparr>)))"

definition deliver_call :: "(string \<Rightarrow> json option) \<Rightarrow> kv_store \<Rightarrow> nat \<Rightarrow> log_event \<Rightarrow> body_attempt \<Rightarrow> body_attempt" where
  "deliver_call parse store n r a = finish_call (set_call n (CallAnswered (recorded_answer parse store r)) a)"

definition requested_call :: "nat \<Rightarrow> body_attempt \<Rightarrow> body_attempt" where
  "requested_call n a = finish_call (set_call n CallRequested (a\<lparr>at_parked := True\<rparr>))"

text \<open>
  The main fiber waits for the body or the gate, and for the gate while calls are in flight; then it
  decides. Without a drift and a parked call it needs the body's end.
\<close>

definition attempt_ending :: "body_attempt \<Rightarrow> attempt_end option" where
  "attempt_ending a =
     (if at_body a = None \<and> \<not> at_gate a \<or> 0 < at_inFlight a \<and> \<not> at_gate a then None
      else case at_drifted a of
        Some message \<Rightarrow> Some (AttemptDrifted message)
      | None \<Rightarrow> if at_parked a then Some AttemptParked else map_option AttemptDone (at_body a))"

definition attempt_events :: "spill_policy \<Rightarrow> string \<Rightarrow> string \<Rightarrow> string list \<Rightarrow> code_stamp \<Rightarrow> attempt_end \<Rightarrow> (string \<times> string) option \<times> log_event list" where
  "attempt_events sp execId key logs stamp outcome = (case outcome of
     AttemptDrifted message \<Rightarrow> (None, [codeSettled execId [(''error'', JStr message)] stamp])
   | AttemptParked \<Rightarrow> (None, [])
   | AttemptDone r \<Rightarrow> (let (spilled, e) = settle_body sp execId key r logs stamp in (spilled, [e])))"

section \<open>Attempts that overlap\<close>

text \<open>
  The log, the store and every attempt that was started. An attempt whose process dies takes no more
  steps; one that is interrupted is closed, and its calls in flight go on.
\<close>

record exec_world =
  ew_log :: "log_event list"
  ew_store :: kv_store
  ew_attempts :: "body_attempt list"

datatype exec_move =
    StartAttempt
  | AskCall nat
  | EnterCall nat nat
  | ReadCall nat nat int
  | DeliverCall nat nat
  | RecordRequest nat nat
  | EndBody nat
  | CloseAttempt nat
  | EndAttempt nat
  | RecordOther log_event
  | WriteStore string string

definition on_attempt :: "nat \<Rightarrow> (body_attempt \<Rightarrow> body_attempt option) \<Rightarrow> exec_world \<Rightarrow> exec_world option" where
  "on_attempt i f w = (if i < length (ew_attempts w)
     then map_option (\<lambda>a. w\<lparr>ew_attempts := (ew_attempts w)[i := a]\<rparr>) (f (ew_attempts w ! i)) else None)"

definition status_of :: "nat \<Rightarrow> body_attempt \<Rightarrow> call_status option" where
  "status_of n a = (if n < length (at_calls a) then Some (at_calls a ! n) else None)"

fun exec_do :: "guest \<Rightarrow> (string \<Rightarrow> json option) \<Rightarrow> execution_scope \<Rightarrow> exec_move \<Rightarrow> exec_world \<Rightarrow> exec_world option" where
  "exec_do g parse x StartAttempt w = Some (w\<lparr>ew_attempts := ew_attempts w @ [new_attempt]\<rparr>)"
| "exec_do g parse x (AskCall i) w = on_attempt i (\<lambda>a. case drop (length (at_calls a)) (gb_asks g (received a)) of
     [] \<Rightarrow> None | (name, args) # _ \<Rightarrow> Some (ask_call x name args a)) w"
| "exec_do g parse x (EnterCall i n) w = on_attempt i (\<lambda>a. case status_of n a of
     Some (CallQueued name args) \<Rightarrow> Some (enter_call n name args a) | _ \<Rightarrow> None) w"
| "exec_do g parse x (ReadCall i n time) w = on_attempt i (\<lambda>a. case status_of n a of
     Some (CallReading name args) \<Rightarrow> Some (read_call x (ew_log w) time n name args a) | _ \<Rightarrow> None) w"
| "exec_do g parse x (DeliverCall i n) w = on_attempt i (\<lambda>a. case status_of n a of
     Some (CallReturning r) \<Rightarrow> Some (deliver_call parse (ew_store w) n r a) | _ \<Rightarrow> None) w"
| "exec_do g parse x (RecordRequest i n) w = (case (if i < length (ew_attempts w) then status_of n (ew_attempts w ! i) else None) of
     Some (CallRequesting e) \<Rightarrow> on_attempt i (\<lambda>a. Some (requested_call n a)) (w\<lparr>ew_log := ew_log w @ [e]\<rparr>) | _ \<Rightarrow> None)"
| "exec_do g parse x (EndBody i) w = on_attempt i (\<lambda>a. if at_body a \<noteq> None then None
     else map_option (\<lambda>r. a\<lparr>at_body := Some r\<rparr>) (gb_ends g (received a))) w"
| "exec_do g parse x (CloseAttempt i) w = on_attempt i (\<lambda>a. Some (a\<lparr>at_accepting := False\<rparr>)) w"
| "exec_do g parse x (EndAttempt i) w = on_attempt i (\<lambda>a. if at_end a \<noteq> None then None
     else map_option (\<lambda>out. a\<lparr>at_accepting := False, at_end := Some out\<rparr>) (attempt_ending a)) w"
| "exec_do g parse x (RecordOther e) w = Some (w\<lparr>ew_log := ew_log w @ [e]\<rparr>)"
| "exec_do g parse x (WriteStore ref content) w = Some (w\<lparr>ew_store := (ew_store w)(ref \<mapsto> content)\<rparr>)"

text \<open>
  What others do meanwhile: they record events whose keys can be read and which are not requests of this
  execution, and they write to the store only before a recorded return points at it.
\<close>

definition points_at :: "string \<Rightarrow> log_event \<Rightarrow> bool" where
  "points_at ref e \<longleftrightarrow> le_type e = ''PackageReturned'' \<and> map_option js_string (ev_field e ''tmp'') = Some ref"

definition requests_of :: "transition_ref \<Rightarrow> log_event \<Rightarrow> bool" where
  "requests_of ref e \<longleftrightarrow> le_type e = ''PackageCalled'' \<and> (\<exists>n. packageKeyOf e = Inr (package_text ref n))"

definition readable :: "log_event \<Rightarrow> bool" where
  "readable e \<longleftrightarrow> (le_type e = ''PackageCalled'' \<or> le_type e = ''PackageReturned'' \<longrightarrow> \<not> isl (packageKeyOf e))"

fun exec_allowed :: "execution_scope \<Rightarrow> exec_world \<Rightarrow> exec_move \<Rightarrow> bool" where
  "exec_allowed x w (RecordOther e) \<longleftrightarrow> readable e \<and> \<not> requests_of (xs_ref x) e"
| "exec_allowed x w (WriteStore ref content) \<longleftrightarrow> list_all (\<lambda>e. \<not> points_at ref e) (ew_log w)"
| "exec_allowed x w _ \<longleftrightarrow> True"

inductive exec_reaches :: "guest \<Rightarrow> (string \<Rightarrow> json option) \<Rightarrow> execution_scope \<Rightarrow> exec_world \<Rightarrow> bool"
  for g parse x where
  exec_start: "list_all (\<lambda>e. readable e \<and> \<not> requests_of (xs_ref x) e) log \<Longrightarrow>
    exec_reaches g parse x \<lparr>ew_log = log, ew_store = store, ew_attempts = []\<rparr>"
| exec_step: "exec_reaches g parse x w \<Longrightarrow> exec_allowed x w m \<Longrightarrow> exec_do g parse x m w = Some w' \<Longrightarrow> exec_reaches g parse x w'"

end
