(* ===== verification/CodeReplay.thy ===== *)
theory CodeReplay
  imports CodeAttempts
begin

text \<open>
  What every interleaving of the attempts of an execution keeps: the answers an attempt has received are
  recorded ones, the requests in the log and in flight are those the body asks for, and the flags of an
  attempt count its calls in flight.
\<close>

section \<open>Recorded answers\<close>

definition answers_at :: "(string \<Rightarrow> json option) \<Rightarrow> kv_store \<Rightarrow> execution_scope \<Rightarrow> log_event list \<Rightarrow> nat \<Rightarrow> answer option" where
  "answers_at parse store x log n = (case call_key x n of
     Inl e \<Rightarrow> Some (Inl e)
   | Inr key \<Rightarrow> (case find_try (keyed_as ''PackageReturned'' key) log of
       Inr (Some r) \<Rightarrow> Some (recorded_answer parse store r) | _ \<Rightarrow> None))"

lemma answers_at_append: "answers_at parse store x log \<subseteq>\<^sub>m answers_at parse store x (log @ [e])"
  by (auto simp: map_le_def dom_def answers_at_def find_try_append split: sum.splits option.splits)

lemma answers_at_write:
  assumes "list_all (\<lambda>e. \<not> points_at ref e) log"
  shows "answers_at parse (store(ref \<mapsto> content)) x log = answers_at parse store x log"
proof
  fix n
  have "recorded_answer parse (store(ref \<mapsto> content)) r = recorded_answer parse store r"
    if found: "find_try (keyed_as ''PackageReturned'' key) log = Inr (Some r)" for r key
  proof -
    from find_try_Some [OF found] have "r \<in> set log" "le_type r = ''PackageReturned''" by (simp_all add: keyed_as_True)
    with assms have "map_option js_string (ev_field r ''tmp'') \<noteq> Some ref" by (auto simp: points_at_def list_all_iff)
    then show ?thesis by (auto simp: recorded_answer_def hydrate_def split: option.split)
  qed
  then show "answers_at parse (store(ref \<mapsto> content)) x log n = answers_at parse store x log n"
    by (simp add: answers_at_def split: sum.split option.split)
qed

section \<open>A log whose requests are the body's\<close>

definition asks_for :: "(string \<times> json option) list \<Rightarrow> nat \<Rightarrow> log_event \<Rightarrow> bool" where
  "asks_for qs n e \<longleftrightarrow> n < length qs \<and> call_drift (fst (qs ! n)) (snd (qs ! n)) e = None"

lemma asks_for_prefix: "prefix qs qs' \<Longrightarrow> asks_for qs n e \<Longrightarrow> asks_for qs' n e"
  by (auto simp: asks_for_def prefix_def nth_append)

definition log_ok :: "guest \<Rightarrow> (string \<Rightarrow> json option) \<Rightarrow> execution_scope \<Rightarrow> kv_store \<Rightarrow> log_event list \<Rightarrow> bool" where
  "log_ok g parse x store log \<longleftrightarrow> list_all readable log \<and>
     (\<forall>e\<in>set log. \<forall>n. le_type e = ''PackageCalled'' \<and> packageKeyOf e = Inr (package_text (xs_ref x) n) \<longrightarrow>
       (\<exists>m. n = int m \<and> asks_for (gb_asks g (answers_at parse store x log)) m e))"

lemma keyed_total: "readable e \<Longrightarrow> t = ''PackageCalled'' \<or> t = ''PackageReturned'' \<Longrightarrow> \<exists>b. keyed_as t key e = Inr b"
  by (cases "packageKeyOf e") (auto simp: keyed_as_def readable_def)

lemma find_keyed_total: "list_all readable log \<Longrightarrow> t = ''PackageCalled'' \<or> t = ''PackageReturned'' \<Longrightarrow> \<exists>r. find_try (keyed_as t key) log = Inr r"
  by (rule find_try_total) (use keyed_total in \<open>auto simp: list_all_iff\<close>)

text \<open>A call of a deterministic body finds no drift, and reading never fails.\<close>

lemma request_call_ok:
  assumes "log_ok g parse x store log" "deterministic g" "got \<subseteq>\<^sub>m answers_at parse store x log" "n < length (gb_asks g got)"
    "gb_asks g got ! n = (name, args)" "call_key x n = Inr key"
  obtains (found) r where "request_call log callId key name args called = Inr (ReturnFound r)" "find_try (keyed_as ''PackageReturned'' key) log = Inr (Some r)"
  | (missing) "request_call log callId key name args called = Inr (RequestMissing called)"
  | (sent) "request_call log callId key name args called = Inr Waiting"
proof -
  let ?all = "gb_asks g (answers_at parse store x log)"
  have logs: "list_all readable log" using assms(1) by (simp add: log_ok_def)
  obtain sent where sent: "find_try (keyed_as ''PackageCalled'' key) log = Inr sent" using find_keyed_total [OF logs] by blast
  obtain returned where returned: "find_try (keyed_as ''PackageReturned'' key) log = Inr returned" using find_keyed_total [OF logs] by blast
  have "prefix (gb_asks g got) ?all" by (rule asks_mono [OF assms(2,3)])
  with assms(4,5) have nth: "?all ! n = (name, args)" by (auto simp: prefix_def nth_append)
  have "Option.bind sent (call_drift name args) = None"
  proof (cases sent)
    case (Some e)
    from find_try_Some [OF sent [unfolded Some]] have e: "e \<in> set log" "le_type e = ''PackageCalled''" "packageKeyOf e = Inr key"
      by (simp_all add: keyed_as_True)
    moreover have "key = package_text (xs_ref x) (int n)" by (rule call_key_Inr [OF assms(6)])
    ultimately obtain m where "int n = int m" "asks_for ?all m e" using assms(1) unfolding log_ok_def by blast
    with Some nth show ?thesis by (simp add: asks_for_def)
  qed simp
  with sent returned have "request_call log callId key name args called =
      Inr (case returned of Some r \<Rightarrow> ReturnFound r | None \<Rightarrow> if sent = None then RequestMissing called else Waiting)"
    by (simp add: request_call_def)
  with returned found missing that(3) show thesis by (cases returned; cases sent) auto
qed

section \<open>Attempts\<close>

definition call_ok :: "execution_scope \<Rightarrow> log_event list \<Rightarrow> (string \<times> json option) list \<Rightarrow> nat \<Rightarrow> call_status \<Rightarrow> bool" where
  "call_ok x log qs n st \<longleftrightarrow> (case st of
     CallQueued name args \<Rightarrow> qs ! n = (name, args) \<and> (\<exists>key. call_key x n = Inr key)
   | CallReading name args \<Rightarrow> qs ! n = (name, args) \<and> (\<exists>key. call_key x n = Inr key)
   | CallReturning r \<Rightarrow> (\<exists>key. call_key x n = Inr key \<and> find_try (keyed_as ''PackageReturned'' key) log = Inr (Some r))
   | CallRequesting e \<Rightarrow> (\<exists>time. e = called_event x n (fst (qs ! n)) (snd (qs ! n)) time) \<and> (\<exists>key. call_key x n = Inr key)
   | CallStuck \<Rightarrow> False
   | _ \<Rightarrow> True)"

lemma call_ok_mono:
  assumes "call_ok x log qs n st" "n < length qs" "prefix qs qs'"
    "\<And>key r. find_try (keyed_as ''PackageReturned'' key) log = Inr (Some r) \<Longrightarrow> find_try (keyed_as ''PackageReturned'' key) log' = Inr (Some r)"
  shows "call_ok x log' qs' n st"
proof -
  have "qs' ! n = qs ! n" using assms(2,3) by (auto simp: prefix_def nth_append)
  with assms(1,4) show ?thesis by (auto simp: call_ok_def split: call_status.splits)
qed

definition attempt_ok :: "guest \<Rightarrow> (string \<Rightarrow> json option) \<Rightarrow> execution_scope \<Rightarrow> kv_store \<Rightarrow> log_event list \<Rightarrow> body_attempt \<Rightarrow> bool" where
  "attempt_ok g parse x store log a \<longleftrightarrow> received a \<subseteq>\<^sub>m answers_at parse store x log \<and>
     length (at_calls a) \<le> length (gb_asks g (received a)) \<and>
     (\<forall>n < length (at_calls a). call_ok x log (gb_asks g (received a)) n (at_calls a ! n)) \<and>
     at_drifted a = None \<and>
     (\<forall>r. at_body a = Some r \<longrightarrow> gb_ends g (received a) = Some r) \<and>
     (\<forall>r. at_end a = Some (AttemptDone r) \<longrightarrow> at_body a = Some r) \<and> (\<forall>message. at_end a \<noteq> Some (AttemptDrifted message))"

lemma attempt_ok_new: "attempt_ok g parse x store log new_attempt"
  by (simp add: attempt_ok_def new_attempt_def received_def map_le_def dom_def)

lemma attempt_ok_mono:
  assumes "attempt_ok g parse x store log a" "answers_at parse store x log \<subseteq>\<^sub>m answers_at parse store' x log'"
    "\<And>key r. find_try (keyed_as ''PackageReturned'' key) log = Inr (Some r) \<Longrightarrow> find_try (keyed_as ''PackageReturned'' key) log' = Inr (Some r)"
  shows "attempt_ok g parse x store' log' a"
proof -
  have "received a \<subseteq>\<^sub>m answers_at parse store' x log'" using assms(1,2) map_le_trans unfolding attempt_ok_def by blast
  moreover have "call_ok x log' (gb_asks g (received a)) n (at_calls a ! n)" if "n < length (at_calls a)" for n
    using assms(1) that by (intro call_ok_mono [OF _ _ _ assms(3)]) (auto simp: attempt_ok_def)
  ultimately show ?thesis using assms(1) by (simp add: attempt_ok_def)
qed

lemma attempt_ok_append: "attempt_ok g parse x store log a \<Longrightarrow> attempt_ok g parse x store (log @ [e]) a"
  by (erule attempt_ok_mono [OF _ answers_at_append]) (simp add: find_try_append)

lemma attempt_ok_flags:
  "at_calls a' = at_calls a \<Longrightarrow> at_drifted a' = at_drifted a \<Longrightarrow> at_body a' = at_body a \<Longrightarrow> at_end a' = at_end a \<Longrightarrow>
    attempt_ok g parse x store log a' = attempt_ok g parse x store log a"
proof -
  assume same: "at_calls a' = at_calls a" "at_drifted a' = at_drifted a" "at_body a' = at_body a" "at_end a' = at_end a"
  then have "received a' = received a" by (simp add: received_def fun_eq_iff)
  with same show ?thesis by (simp add: attempt_ok_def)
qed

text \<open>A call that changes its status.\<close>

lemma received_set: "n < length (at_calls a) \<Longrightarrow> received (set_call n st a) = (received a)(n := (case st of CallAnswered v \<Rightarrow> Some v | _ \<Rightarrow> None))"
  by (auto simp: received_def set_call_def fun_eq_iff nth_list_update split: call_status.split)

lemma attempt_ok_set:
  assumes "attempt_ok g parse x store log a" "deterministic g" "n < length (at_calls a)" "received a n = None"
    "case st of CallAnswered v \<Rightarrow> answers_at parse store x log n = Some v | _ \<Rightarrow> call_ok x log (gb_asks g (received a)) n st"
  shows "attempt_ok g parse x store log (set_call n st a)"
proof -
  let ?a = "set_call n st a"
  have same: "at_drifted ?a = at_drifted a" "at_body ?a = at_body a" "at_end ?a = at_end a" "at_calls ?a = (at_calls a)[n := st]"
    by (simp_all add: set_call_def)
  have ok: "received a \<subseteq>\<^sub>m answers_at parse store x log" "length (at_calls a) \<le> length (gb_asks g (received a))"
    using assms(1) by (simp_all add: attempt_ok_def)
  have more: "received a \<subseteq>\<^sub>m received ?a" using assms(4) by (auto simp: received_set [OF assms(3)] map_le_def dom_def)
  then have asks: "prefix (gb_asks g (received a)) (gb_asks g (received ?a))" by (rule asks_mono [OF assms(2)])
  have "received ?a \<subseteq>\<^sub>m answers_at parse store x log"
    using ok(1) assms(5) by (auto simp: received_set [OF assms(3)] map_le_def dom_def split: call_status.splits)
  moreover have "length (at_calls ?a) \<le> length (gb_asks g (received ?a))" using ok(2) prefix_length_le [OF asks] by (simp add: same)
  moreover have "call_ok x log (gb_asks g (received ?a)) m (at_calls ?a ! m)" if "m < length (at_calls ?a)" for m
  proof (rule call_ok_mono [OF _ _ asks])
    show "m < length (gb_asks g (received a))" using that ok(2) by (simp add: same)
    have "call_ok x log (gb_asks g (received a)) n st" using assms(5) by (auto simp: call_ok_def split: call_status.splits)
    then show "call_ok x log (gb_asks g (received a)) m (at_calls ?a ! m)"
      using assms(1) that by (cases "m = n") (simp_all add: same attempt_ok_def)
  qed
  moreover have "gb_ends g (received ?a) = Some r" if "at_body a = Some r" for r
    using ends_mono [OF assms(2) more] assms(1) that by (simp add: attempt_ok_def)
  ultimately show ?thesis using assms(1) by (simp add: attempt_ok_def same)
qed

lemma attempt_ok_ask:
  assumes "attempt_ok g parse x store log a" "deterministic g" "length (at_calls a) < length (gb_asks g (received a))"
    "at_calls a' = at_calls a @ [st]" "at_drifted a' = at_drifted a" "at_body a' = at_body a" "at_end a' = at_end a"
    "case st of CallAnswered v \<Rightarrow> answers_at parse store x log (length (at_calls a)) = Some v | _ \<Rightarrow> call_ok x log (gb_asks g (received a)) (length (at_calls a)) st"
  shows "attempt_ok g parse x store log a'"
proof -
  let ?n = "length (at_calls a)" and ?b = "a\<lparr>at_calls := at_calls a @ [CallHeld]\<rparr>"
  have same: "received ?b = received a" by (auto simp: received_def fun_eq_iff nth_append)
  with assms(1,3) have b: "attempt_ok g parse x store log ?b" by (auto simp: attempt_ok_def nth_append less_Suc_eq call_ok_def)
  have "attempt_ok g parse x store log (set_call ?n st ?b)"
    by (rule attempt_ok_set [OF b assms(2)]; (unfold same)?) (use assms(8) in \<open>simp_all add: received_def\<close>)
  then show ?thesis using assms(4-7) by (subst attempt_ok_flags) (simp_all add: set_call_def)
qed

lemma finish_call_simps [simp]: "at_calls (finish_call a) = at_calls a" "at_drifted (finish_call a) = at_drifted a" "at_body (finish_call a) = at_body a"
    "at_end (finish_call a) = at_end a" "at_inFlight (finish_call a) = at_inFlight a - 1" "at_parked (finish_call a) = at_parked a"
  by (simp_all add: finish_call_def Let_def)

lemma attempt_ok_finish [simp]: "attempt_ok g parse x store log (finish_call a) = attempt_ok g parse x store log a"
  by (rule attempt_ok_flags) simp_all

lemma attempt_ok_parked [simp]: "attempt_ok g parse x store log (a\<lparr>at_parked := p\<rparr>) = attempt_ok g parse x store log a"
  by (rule attempt_ok_flags) simp_all

lemma received_flags [simp]: "received (a\<lparr>at_parked := p\<rparr>) = received a" "received (finish_call a) = received a"
  by (simp_all add: received_def fun_eq_iff)

lemma status_ofD: "status_of n a = Some st \<Longrightarrow> n < length (at_calls a) \<and> at_calls a ! n = st"
  by (simp add: status_of_def split: if_splits)

section \<open>The flags of an attempt\<close>

fun in_flight :: "call_status \<Rightarrow> bool" where
  "in_flight (CallQueued _ _) \<longleftrightarrow> True"
| "in_flight (CallReading _ _) \<longleftrightarrow> True"
| "in_flight (CallReturning _) \<longleftrightarrow> True"
| "in_flight (CallRequesting _) \<longleftrightarrow> True"
| "in_flight CallStuck \<longleftrightarrow> True"
| "in_flight _ \<longleftrightarrow> False"

definition barrier_ok :: "body_attempt \<Rightarrow> bool" where
  "barrier_ok a \<longleftrightarrow> at_inFlight a = int (length (filter in_flight (at_calls a))) \<and>
     (at_parked a \<and> at_inFlight a = 0 \<longrightarrow> at_gate a) \<and> (at_gate a \<longrightarrow> \<not> at_accepting a)"

lemma length_filter_update:
  "i < length xs \<Longrightarrow> length (filter P (xs[i := y])) + (if P (xs ! i) then 1 else 0) = length (filter P xs) + (if P y then 1 else 0)"
proof (induction xs arbitrary: i)
  case (Cons x xs)
  then show ?case by (cases i) auto
qed simp

lemma barrier_finish:
  assumes "barrier_ok a" "status_of n a = Some st0" "in_flight st0" "\<not> in_flight st"
  shows "barrier_ok (finish_call (set_call n st (a\<lparr>at_parked := p\<rparr>)))"
proof -
  have n: "n < length (at_calls a)" "at_calls a ! n = st0" using status_ofD [OF assms(2)] by simp_all
  have "int (length (filter in_flight ((at_calls a)[n := st]))) = int (length (filter in_flight (at_calls a))) - 1"
    using length_filter_update [OF n(1), of in_flight st] assms(3,4) n(2) by simp
  with assms(1) show ?thesis by (auto simp: barrier_ok_def finish_call_def set_call_def Let_def)
qed

lemma barrier_finish': "barrier_ok a \<Longrightarrow> status_of n a = Some st0 \<Longrightarrow> in_flight st0 \<Longrightarrow> \<not> in_flight st \<Longrightarrow> barrier_ok (finish_call (set_call n st a))"
  using barrier_finish [of a n st0 st "at_parked a"] by simp

lemma barrier_set: "barrier_ok a \<Longrightarrow> status_of n a = Some st0 \<Longrightarrow> in_flight st0 \<Longrightarrow> in_flight st \<Longrightarrow> barrier_ok (set_call n st a)"
  using length_filter_update [of n "at_calls a" in_flight st] by (auto simp: barrier_ok_def set_call_def dest: status_ofD)

lemma barrier_ask: "barrier_ok a \<Longrightarrow> barrier_ok (ask_call x name args a)"
  by (auto simp: barrier_ok_def ask_call_def split: sum.split)

text \<open>With no call in flight, an attempt that has a parked call or whose body has ended can end.\<close>

lemma attempt_released:
  "barrier_ok a \<Longrightarrow> filter in_flight (at_calls a) = [] \<Longrightarrow> at_parked a \<or> at_body a \<noteq> None \<Longrightarrow> attempt_ending a \<noteq> None"
  by (auto simp: barrier_ok_def attempt_ending_def split: option.split)

section \<open>Every interleaving\<close>

definition requested :: "nat \<Rightarrow> body_attempt \<Rightarrow> bool" where
  "requested m a \<longleftrightarrow> status_of m a = Some CallRequested"

definition requests_at :: "execution_scope \<Rightarrow> nat \<Rightarrow> log_event \<Rightarrow> bool" where
  "requests_at x m e \<longleftrightarrow> le_type e = ''PackageCalled'' \<and> packageKeyOf e = Inr (package_text (xs_ref x) (int m))"

definition world_ok :: "guest \<Rightarrow> (string \<Rightarrow> json option) \<Rightarrow> execution_scope \<Rightarrow> exec_world \<Rightarrow> bool" where
  "world_ok g parse x w \<longleftrightarrow> log_ok g parse x (ew_store w) (ew_log w) \<and>
     (\<forall>a\<in>set (ew_attempts w). attempt_ok g parse x (ew_store w) (ew_log w) a \<and> barrier_ok a) \<and>
     (\<forall>m. length (filter (requests_at x m) (ew_log w)) = length (filter (requested m) (ew_attempts w)))"

lemma status_simps [simp]: "status_of m (finish_call a) = status_of m a" "status_of m (a\<lparr>at_parked := p\<rparr>) = status_of m a"
  by (simp_all add: status_of_def)

lemma status_set: "status_of n a = Some st0 \<Longrightarrow> status_of m (set_call n st a) = (if m = n then Some st else status_of m a)"
  by (auto simp: status_of_def set_call_def split: if_splits)

lemma received_none: "status_of n a = Some st \<Longrightarrow> (\<And>v. st \<noteq> CallAnswered v) \<Longrightarrow> received a n = None"
  by (auto simp: status_of_def received_def split: if_splits call_status.split)

lemma world_ok_local:
  assumes "world_ok g parse x w" "i < length (ew_attempts w)" "attempt_ok g parse x (ew_store w) (ew_log w) a'" "barrier_ok a'"
    "\<And>m. requested m a' = requested m (ew_attempts w ! i)"
  shows "world_ok g parse x (w\<lparr>ew_attempts := (ew_attempts w)[i := a']\<rparr>)"
proof -
  have "length (filter (requested m) ((ew_attempts w)[i := a'])) = length (filter (requested m) (ew_attempts w))" for m
    using length_filter_update [OF assms(2), of "requested m" a'] assms(5) by (simp split: if_splits)
  moreover have "a \<in> set ((ew_attempts w)[i := a']) \<Longrightarrow> a = a' \<or> a \<in> set (ew_attempts w)" for a
    using set_update_subset_insert [of "ew_attempts w" i a'] by blast
  ultimately show ?thesis using assms(1,3,4) unfolding world_ok_def by auto
qed

lemma log_ok_append:
  assumes "log_ok g parse x store log" "deterministic g" "readable e"
    "\<And>n. le_type e = ''PackageCalled'' \<Longrightarrow> packageKeyOf e = Inr (package_text (xs_ref x) n) \<Longrightarrow>
      \<exists>m. n = int m \<and> asks_for (gb_asks g (answers_at parse store x log)) m e"
  shows "log_ok g parse x store (log @ [e])"
proof -
  let ?now = "gb_asks g (answers_at parse store x log)" and ?then = "gb_asks g (answers_at parse store x (log @ [e]))"
  have more: "asks_for ?now m d \<Longrightarrow> asks_for ?then m d" for m d
    by (rule asks_for_prefix [OF asks_mono [OF assms(2) answers_at_append]])
  have "\<exists>m. n = int m \<and> asks_for ?then m d"
    if "d \<in> set (log @ [e])" "le_type d = ''PackageCalled''" "packageKeyOf d = Inr (package_text (xs_ref x) n)" for d n
  proof -
    have "\<exists>m. n = int m \<and> asks_for ?now m d"
      using that assms(1,4) unfolding log_ok_def by (cases "d = e") auto
    with more show ?thesis by blast
  qed
  with assms(1,3) show ?thesis unfolding log_ok_def by simp
qed

lemma world_ok_write:
  assumes "world_ok g parse x w" "list_all (\<lambda>e. \<not> points_at ref e) (ew_log w)"
  shows "world_ok g parse x (w\<lparr>ew_store := (ew_store w)(ref \<mapsto> content)\<rparr>)"
  using assms(1) answers_at_write [OF assms(2), of parse "ew_store w" content x] by (simp add: world_ok_def log_ok_def attempt_ok_def)

text \<open>An event that is not a request of the execution.\<close>

lemma world_ok_other:
  assumes "world_ok g parse x w" "deterministic g" "readable e" "\<not> requests_of (xs_ref x) e"
  shows "world_ok g parse x (w\<lparr>ew_log := ew_log w @ [e]\<rparr>)"
proof -
  have "log_ok g parse x (ew_store w) (ew_log w @ [e])"
    by (rule log_ok_append) (use assms in \<open>auto simp: world_ok_def requests_of_def\<close>)
  moreover have "\<not> requests_at x m e" for m using assms(4) by (auto simp: requests_at_def requests_of_def)
  ultimately show ?thesis using assms(1) attempt_ok_append by (simp add: world_ok_def)
qed

text \<open>A request that an attempt records.\<close>

lemma world_ok_request:
  assumes "world_ok g parse x w" "deterministic g" "i < length (ew_attempts w)" "status_of n (ew_attempts w ! i) = Some (CallRequesting e)"
  shows "world_ok g parse x (w\<lparr>ew_log := ew_log w @ [e], ew_attempts := (ew_attempts w)[i := requested_call n (ew_attempts w ! i)]\<rparr>)"
proof -
  let ?a = "ew_attempts w ! i" and ?log = "ew_log w @ [e]"
  let ?asks = "gb_asks g (received ?a)" and ?all = "gb_asks g (answers_at parse (ew_store w) x (ew_log w))"
  have a: "attempt_ok g parse x (ew_store w) (ew_log w) ?a" "barrier_ok ?a" using assms(1,3) by (simp_all add: world_ok_def)
  note n = status_ofD [OF assms(4)]
  with a(1) have len: "n < length ?asks" by (simp add: attempt_ok_def)
  have "call_ok x (ew_log w) ?asks n (CallRequesting e)" using a(1) n by (auto simp: attempt_ok_def)
  then obtain time key where e: "e = called_event x n (fst (?asks ! n)) (snd (?asks ! n)) time" and "call_key x n = Inr key"
    by (auto simp: call_ok_def)
  with call_key_Inr have key: "packageKeyOf e = Inr (package_text (xs_ref x) (int n))" by (metis called_key)
  have kind: "le_type e = ''PackageCalled''" by (simp add: e called_event_fields)
  have "asks_for ?asks n e" using len called_no_drift by (simp add: asks_for_def e)
  moreover have "prefix ?asks ?all" using asks_mono [OF assms(2)] a(1) by (simp add: attempt_ok_def)
  ultimately have asked: "asks_for ?all n e" using asks_for_prefix by blast
  have log: "log_ok g parse x (ew_store w) ?log"
    by (rule log_ok_append [OF _ assms(2)]) (use assms(1) key asked in \<open>auto simp: world_ok_def readable_def\<close>)
  have others: "attempt_ok g parse x (ew_store w) ?log b" if "b \<in> set (ew_attempts w)" for b
    using assms(1) that attempt_ok_append by (simp add: world_ok_def)
  have "attempt_ok g parse x (ew_store w) ?log (requested_call n ?a)"
    unfolding requested_call_def attempt_ok_finish
    by (rule attempt_ok_set [OF _ assms(2)])
      (use others [of ?a] assms(3,4) n received_none [OF assms(4)] in \<open>simp_all add: call_ok_def\<close>)
  moreover have "barrier_ok (requested_call n ?a)" unfolding requested_call_def by (rule barrier_finish [OF a(2) assms(4)]) simp_all
  moreover have "b \<in> set ((ew_attempts w)[i := requested_call n ?a]) \<Longrightarrow> b = requested_call n ?a \<or> b \<in> set (ew_attempts w)" for b
    using set_update_subset_insert [of "ew_attempts w" i "requested_call n ?a"] by blast
  ultimately have attempts: "\<forall>b\<in>set ((ew_attempts w)[i := requested_call n ?a]). attempt_ok g parse x (ew_store w) ?log b \<and> barrier_ok b"
    using others assms(1) unfolding world_ok_def by blast
  have "length (filter (requests_at x m) ?log) = length (filter (requested m) ((ew_attempts w)[i := requested_call n ?a]))" for m
  proof -
    have before: "status_of m (requested_call n ?a) = (if m = n then Some CallRequested else status_of m ?a)"
      using status_set [of n "?a\<lparr>at_parked := True\<rparr>" "CallRequesting e" m CallRequested] assms(4) by (simp add: requested_call_def)
    have "requests_at x m e \<longleftrightarrow> m = n" using kind key by (auto simp: requests_at_def)
    moreover have "requested m (requested_call n ?a) \<longleftrightarrow> m = n \<or> requested m ?a" "\<not> requested n ?a"
      using before assms(4) by (auto simp: requested_def)
    ultimately show ?thesis
      using length_filter_update [OF assms(3), of "requested m" "requested_call n ?a"] assms(1) unfolding world_ok_def by (auto split: if_splits)
  qed
  with log attempts show ?thesis by (simp add: world_ok_def)
qed

text \<open>A call that enters, and its read: without a drift, whatever the log has become.\<close>

lemma enter_call_ok:
  assumes "attempt_ok g parse x store log a" "barrier_ok a" "deterministic g" "status_of n a = Some (CallQueued name args)"
  shows "attempt_ok g parse x store log (enter_call n name args a) \<and> barrier_ok (enter_call n name args a) \<and>
    (\<forall>m. requested m (enter_call n name args a) = requested m a)"
proof -
  note n = status_ofD [OF assms(4)]
  have none: "received a n = None" by (rule received_none [OF assms(4)]) simp
  have queued: "call_ok x log (gb_asks g (received a)) n (CallQueued name args)" using assms(1) n by (auto simp: attempt_ok_def)
  have put: "attempt_ok g parse x store log (set_call n st a)" if "call_ok x log (gb_asks g (received a)) n st" "\<And>v. st \<noteq> CallAnswered v" for st
    by (rule attempt_ok_set [OF assms(1,3) _ none]) (use n that in \<open>auto split: call_status.split\<close>)
  have keep: "requested m (set_call n st a) = requested m a" if "st \<noteq> CallRequested" for m st
    using status_set [OF assms(4), of m st] assms(4) that by (auto simp: requested_def)
  show ?thesis
  proof (cases "at_accepting a")
    case False
    with put [of CallHeld] keep [of CallHeld] barrier_finish' [OF assms(2,4), of CallHeld] show ?thesis
      by (simp add: enter_call_def call_ok_def requested_def)
  next
    case True
    with put [of "CallReading name args"] keep [of "CallReading name args"] barrier_set [OF assms(2,4), of "CallReading name args"] queued show ?thesis
      by (simp add: enter_call_def call_ok_def)
  qed
qed

lemma read_call_ok:
  assumes "world_ok g parse x w" "deterministic g" "i < length (ew_attempts w)" "status_of n (ew_attempts w ! i) = Some (CallReading name args)"
  defines "a \<equiv> ew_attempts w ! i"
  shows "attempt_ok g parse x (ew_store w) (ew_log w) (read_call x (ew_log w) time n name args a) \<and>
    barrier_ok (read_call x (ew_log w) time n name args a) \<and> (\<forall>m. requested m (read_call x (ew_log w) time n name args a) = requested m a)"
proof -
  let ?log = "ew_log w"
  have a: "attempt_ok g parse x (ew_store w) ?log a" "barrier_ok a" using assms(1,3) by (simp_all add: world_ok_def a_def)
  have status: "status_of n a = Some (CallReading name args)" using assms(4) by (simp add: a_def)
  note n = status_ofD [OF status]
  have none: "received a n = None" by (rule received_none [OF status]) simp
  have len: "n < length (gb_asks g (received a))" using a(1) n by (simp add: attempt_ok_def)
  have "call_ok x ?log (gb_asks g (received a)) n (CallReading name args)" using a(1) n by (auto simp: attempt_ok_def)
  then obtain key where asked: "gb_asks g (received a) ! n = (name, args)" and key: "call_key x n = Inr key"
    by (auto simp: call_ok_def)
  have put: "attempt_ok g parse x (ew_store w) ?log (set_call n st a)" if "call_ok x ?log (gb_asks g (received a)) n st" "\<And>v. st \<noteq> CallAnswered v" for st
    by (rule attempt_ok_set [OF a(1) assms(2) _ none]) (use n that in \<open>auto split: call_status.split\<close>)
  have keep: "requested m (set_call n st a) = requested m a" if "st \<noteq> CallRequested" for m st
    using status_set [OF status, of m st] status that by (auto simp: requested_def)
  have parked: "set_call n st (a\<lparr>at_parked := p\<rparr>) = set_call n st a\<lparr>at_parked := p\<rparr>" for st p by (simp add: set_call_def)
  have logs: "log_ok g parse x (ew_store w) ?log" "received a \<subseteq>\<^sub>m answers_at parse (ew_store w) x ?log"
    using assms(1) a(1) by (simp_all add: world_ok_def attempt_ok_def)
  let ?request = "request_call ?log (call_id_of (transition_text (xs_ref x)) n) key name args (called_event x n name args time)"
  consider (found) r where "?request = Inr (ReturnFound r)" "find_try (keyed_as ''PackageReturned'' key) ?log = Inr (Some r)"
    | (missing) "?request = Inr (RequestMissing (called_event x n name args time))" | (sent) "?request = Inr Waiting"
    using request_call_ok [OF logs(1) assms(2) logs(2) len asked key] by blast
  then show ?thesis
  proof cases
    case (found r)
    with key have "read_call x ?log time n name args a = set_call n (CallReturning r) a" by (simp add: read_call_def)
    with put [of "CallReturning r"] keep [of "CallReturning r"] barrier_set [OF a(2) status, of "CallReturning r"] found(2) key
    show ?thesis by (simp add: call_ok_def)
  next
    case missing
    let ?e = "called_event x n name args time"
    from missing key have "read_call x ?log time n name args a = set_call n (CallRequesting ?e) a" by (simp add: read_call_def)
    with put [of "CallRequesting ?e"] keep [of "CallRequesting ?e"] barrier_set [OF a(2) status, of "CallRequesting ?e"] asked key
    show ?thesis by (auto simp: call_ok_def)
  next
    case sent
    with key have "read_call x ?log time n name args a = finish_call (set_call n CallHeld (a\<lparr>at_parked := True\<rparr>))" by (simp add: read_call_def)
    with put [of CallHeld] keep [of CallHeld] barrier_finish [OF a(2) status, of CallHeld True]
    show ?thesis by (simp add: call_ok_def parked requested_def)
  qed
qed

text \<open>Delivering a recorded return, and asking.\<close>

lemma deliver_call_ok:
  assumes "world_ok g parse x w" "deterministic g" "i < length (ew_attempts w)" "status_of n (ew_attempts w ! i) = Some (CallReturning r)"
  defines "a \<equiv> ew_attempts w ! i"
  shows "attempt_ok g parse x (ew_store w) (ew_log w) (deliver_call parse (ew_store w) n r a) \<and>
    barrier_ok (deliver_call parse (ew_store w) n r a) \<and> (\<forall>m. requested m (deliver_call parse (ew_store w) n r a) = requested m a)"
proof -
  let ?v = "recorded_answer parse (ew_store w) r"
  have a: "attempt_ok g parse x (ew_store w) (ew_log w) a" "barrier_ok a" using assms(1,3) by (simp_all add: world_ok_def a_def)
  have status: "status_of n a = Some (CallReturning r)" using assms(4) by (simp add: a_def)
  note n = status_ofD [OF status]
  have "call_ok x (ew_log w) (gb_asks g (received a)) n (CallReturning r)" using a(1) n by (auto simp: attempt_ok_def)
  then have "answers_at parse (ew_store w) x (ew_log w) n = Some ?v" by (auto simp: call_ok_def answers_at_def)
  then have "attempt_ok g parse x (ew_store w) (ew_log w) (set_call n (CallAnswered ?v) a)"
    by (intro attempt_ok_set [OF a(1) assms(2)]) (use n received_none [OF status] in simp_all)
  moreover have "requested m (set_call n (CallAnswered ?v) a) = requested m a" for m
    using status_set [OF status, of m "CallAnswered ?v"] status by (auto simp: requested_def)
  ultimately show ?thesis using barrier_finish' [OF a(2) status, of "CallAnswered ?v"] by (simp add: deliver_call_def requested_def)
qed

lemma ask_call_ok:
  assumes "attempt_ok g parse x store log a" "deterministic g" "drop (length (at_calls a)) (gb_asks g (received a)) = (name, args) # rest"
  shows "attempt_ok g parse x store log (ask_call x name args a) \<and> (\<forall>m. requested m (ask_call x name args a) = requested m a)"
proof -
  let ?n = "length (at_calls a)" and ?asks = "gb_asks g (received a)"
  have len: "?n < length ?asks" using assms(3) by (metis drop_all leI list.distinct(1))
  then have nth: "?asks ! ?n = (name, args)" using assms(3) by (metis Cons_nth_drop_Suc list.inject)
  obtain st where calls: "at_calls (ask_call x name args a) = at_calls a @ [st]" and st: "st \<noteq> CallRequested"
      "case st of CallAnswered v \<Rightarrow> answers_at parse store x log ?n = Some v | _ \<Rightarrow> call_ok x log ?asks ?n st"
    using nth by (cases "call_key x ?n"; cases "at_accepting a") (force simp: ask_call_def call_ok_def answers_at_def)+
  have same: "at_drifted (ask_call x name args a) = at_drifted a" "at_body (ask_call x name args a) = at_body a" "at_end (ask_call x name args a) = at_end a"
    by (simp_all add: ask_call_def split: sum.split)
  have "attempt_ok g parse x store log (ask_call x name args a)" by (rule attempt_ok_ask [OF assms(1,2) len calls same st(2)])
  moreover have "requested m (ask_call x name args a) = requested m a" for m
    using st(1) by (auto simp: requested_def status_of_def calls nth_append less_Suc_eq)
  ultimately show ?thesis by blast
qed

lemma on_attempt_Some: "on_attempt i f w = Some w' \<longleftrightarrow> i < length (ew_attempts w) \<and>
    (\<exists>a. f (ew_attempts w ! i) = Some a \<and> w' = w\<lparr>ew_attempts := (ew_attempts w)[i := a]\<rparr>)"
  by (auto simp: on_attempt_def)

lemma exec_do_ok:
  assumes ok: "world_ok g parse x w" and det: "deterministic g" and allowed: "exec_allowed x w m" and step: "exec_do g parse x m w = Some w'"
  shows "world_ok g parse x w'"
proof -
  have each: "attempt_ok g parse x (ew_store w) (ew_log w) (ew_attempts w ! i) \<and> barrier_ok (ew_attempts w ! i)" if "i < length (ew_attempts w)" for i
    using ok that by (simp add: world_ok_def)
  show ?thesis
  proof (cases m)
    case StartAttempt
    with step ok attempt_ok_new show ?thesis by (auto simp: world_ok_def barrier_ok_def new_attempt_def requested_def status_of_def)
  next
    case (AskCall i)
    with step obtain name args rest where i: "i < length (ew_attempts w)" and
      asked: "drop (length (at_calls (ew_attempts w ! i))) (gb_asks g (received (ew_attempts w ! i))) = (name, args) # rest" and
      w': "w' = w\<lparr>ew_attempts := (ew_attempts w)[i := ask_call x name args (ew_attempts w ! i)]\<rparr>"
      by (auto simp: on_attempt_Some split: list.splits)
    from ask_call_ok [OF conjunct1 [OF each [OF i]] det asked] barrier_ask each [OF i] show ?thesis
      unfolding w' by (intro world_ok_local [OF ok i]) blast+
  next
    case (EnterCall i n)
    with step obtain name args where i: "i < length (ew_attempts w)" and status: "status_of n (ew_attempts w ! i) = Some (CallQueued name args)" and
      w': "w' = w\<lparr>ew_attempts := (ew_attempts w)[i := enter_call n name args (ew_attempts w ! i)]\<rparr>"
      by (auto simp: on_attempt_Some split: option.splits call_status.splits)
    from enter_call_ok [OF conjunct1 [OF each [OF i]] conjunct2 [OF each [OF i]] det status] show ?thesis
      unfolding w' by (intro world_ok_local [OF ok i]) blast+
  next
    case (ReadCall i n time)
    with step obtain name args where i: "i < length (ew_attempts w)" and status: "status_of n (ew_attempts w ! i) = Some (CallReading name args)" and
      w': "w' = w\<lparr>ew_attempts := (ew_attempts w)[i := read_call x (ew_log w) time n name args (ew_attempts w ! i)]\<rparr>"
      by (auto simp: on_attempt_Some split: option.splits call_status.splits)
    from read_call_ok [OF ok det i status] show ?thesis unfolding w' by (intro world_ok_local [OF ok i]) blast+
  next
    case (DeliverCall i n)
    with step obtain r where i: "i < length (ew_attempts w)" and status: "status_of n (ew_attempts w ! i) = Some (CallReturning r)" and
      w': "w' = w\<lparr>ew_attempts := (ew_attempts w)[i := deliver_call parse (ew_store w) n r (ew_attempts w ! i)]\<rparr>"
      by (auto simp: on_attempt_Some split: option.splits call_status.splits)
    from deliver_call_ok [OF ok det i status] show ?thesis unfolding w' by (intro world_ok_local [OF ok i]) blast+
  next
    case (RecordRequest i n)
    with step obtain e where i: "i < length (ew_attempts w)" and status: "status_of n (ew_attempts w ! i) = Some (CallRequesting e)" and
      w': "w' = w\<lparr>ew_log := ew_log w @ [e], ew_attempts := (ew_attempts w)[i := requested_call n (ew_attempts w ! i)]\<rparr>"
      by (auto simp: on_attempt_Some split: option.splits call_status.splits if_splits)
    show ?thesis unfolding w' by (rule world_ok_request [OF ok det i status])
  next
    case (EndBody i)
    with step obtain r where i: "i < length (ew_attempts w)" and r: "at_body (ew_attempts w ! i) = None" "gb_ends g (received (ew_attempts w ! i)) = Some r" and
      w': "w' = w\<lparr>ew_attempts := (ew_attempts w)[i := (ew_attempts w ! i)\<lparr>at_body := Some r\<rparr>]\<rparr>"
      by (auto simp: on_attempt_Some split: if_splits)
    have "received ((ew_attempts w ! i)\<lparr>at_body := Some r\<rparr>) = received (ew_attempts w ! i)" by (simp add: received_def fun_eq_iff)
    with each [OF i] r show ?thesis unfolding w'
      by (intro world_ok_local [OF ok i]) (auto simp: attempt_ok_def barrier_ok_def requested_def status_of_def)
  next
    case (CloseAttempt i)
    with step have i: "i < length (ew_attempts w)" and
      w': "w' = w\<lparr>ew_attempts := (ew_attempts w)[i := (ew_attempts w ! i)\<lparr>at_accepting := False\<rparr>]\<rparr>" by (auto simp: on_attempt_Some)
    have "attempt_ok g parse x (ew_store w) (ew_log w) ((ew_attempts w ! i)\<lparr>at_accepting := False\<rparr>)" 
      using each [OF i] attempt_ok_flags [of "(ew_attempts w ! i)\<lparr>at_accepting := False\<rparr>" "ew_attempts w ! i"] by simp
    with each [OF i] show ?thesis unfolding w' by (intro world_ok_local [OF ok i]) (auto simp: barrier_ok_def requested_def status_of_def)
  next
    case (EndAttempt i)
    with step obtain out where i: "i < length (ew_attempts w)" and out: "attempt_ending (ew_attempts w ! i) = Some out" and
      w': "w' = w\<lparr>ew_attempts := (ew_attempts w)[i := (ew_attempts w ! i)\<lparr>at_accepting := False, at_end := Some out\<rparr>]\<rparr>"
      by (auto simp: on_attempt_Some split: if_splits)
    have "received ((ew_attempts w ! i)\<lparr>at_accepting := False, at_end := Some out\<rparr>) = received (ew_attempts w ! i)" by (simp add: received_def fun_eq_iff)
    with each [OF i] out show ?thesis unfolding w'
      by (intro world_ok_local [OF ok i]) (auto simp: attempt_ok_def attempt_ending_def barrier_ok_def requested_def status_of_def split: if_splits option.splits)
  next
    case (RecordOther e)
    with step allowed world_ok_other [OF ok det] show ?thesis by auto
  next
    case (WriteStore ref content)
    with step allowed world_ok_write [OF ok] show ?thesis by auto
  qed
qed

lemma exec_reaches_ok: "exec_reaches g parse x w \<Longrightarrow> deterministic g \<Longrightarrow> world_ok g parse x w"
proof (induction rule: exec_reaches.induct)
  case (exec_start log store)
  then have "filter (requests_at x m) log = []" for m by (auto simp: filter_empty_conv requests_at_def requests_of_def list_all_iff)
  with exec_start show ?case by (auto simp: world_ok_def log_ok_def requests_of_def list_all_iff)
next
  case (exec_step w m w')
  then show ?case using exec_do_ok by blast
qed

text \<open>Runs of the moves of the attempts alone.\<close>

fun exec_run :: "guest \<Rightarrow> (string \<Rightarrow> json option) \<Rightarrow> execution_scope \<Rightarrow> exec_move list \<Rightarrow> exec_world \<Rightarrow> exec_world option" where
  "exec_run g parse x [] w = Some w"
| "exec_run g parse x (m # ms) w = (case exec_do g parse x m w of None \<Rightarrow> None | Some w' \<Rightarrow> exec_run g parse x ms w')"

fun own_move :: "exec_move \<Rightarrow> bool" where
  "own_move (RecordOther e) \<longleftrightarrow> False"
| "own_move (WriteStore ref content) \<longleftrightarrow> False"
| "own_move _ \<longleftrightarrow> True"

lemma exec_run_reaches: "exec_run g parse x ms w = Some w' \<Longrightarrow> list_all own_move ms \<Longrightarrow> exec_reaches g parse x w \<Longrightarrow> exec_reaches g parse x w'"
proof (induction ms arbitrary: w)
  case (Cons m ms)
  from Cons.prems(1) obtain u where u: "exec_do g parse x m w = Some u" "exec_run g parse x ms u = Some w'" by (auto split: option.splits)
  have "exec_allowed x w m" using Cons.prems(2) by (cases m) auto
  from Cons.IH [OF u(2) _ exec_step [OF Cons.prems(3) this u(1)]] Cons.prems(2) show ?case by simp
qed simp

text \<open>Two requests for the same call ask the same.\<close>

definition asks_same :: "log_event \<Rightarrow> log_event \<Rightarrow> bool" where
  "asks_same e d \<longleftrightarrow> js_text (ev_field e ''name'') = js_text (ev_field d ''name'') \<and>
     map_option canonicalInput (ev_field e ''arguments'') = map_option canonicalInput (ev_field d ''arguments'')"

lemma asks_for_same: "asks_for qs n e \<Longrightarrow> asks_for qs n d \<Longrightarrow> asks_same e d"
  by (auto simp: asks_for_def call_drift_def asks_same_def split: if_splits)

end
