(* ===== verification/CodeProperties.thy ===== *)
theory CodeProperties
  imports CodeReplay
begin

text \<open>
  What the code thread promises: the incremental projection of turns is the replay of the log, the
  owed work depends on the set of events only, the attempts of a deterministic body never drift however
  they overlap, the retries of a call are bounded, and the argument check decides the declared schema.
\<close>

section \<open>Turns\<close>

definition demo_event :: "string \<Rightarrow> (string \<times> json) list \<Rightarrow> log_event" where
  "demo_event t fs = \<lparr>le_type = t, le_fields = fmap_of_list fs\<rparr>"

definition resumed_log :: "log_event list" where
  "resumed_log = [demo_event ''MessageReceived'' [(''id'', JStr ''m0'')], demo_event ''ModelCalled'' [(''turn'', JStr ''m0'')],
     demo_event ''TurnFailed'' [(''turn'', JStr ''m0'')],
     demo_event ''TurnResumed'' [(''turn'', JStr ''m0''), (''failedEpoch'', JInt 0), (''epoch'', JInt 1)]]"

text \<open>
  Without the last condition the two disagree: a turn that fails before it is served otherwise, and is
  resumed after another was served, comes first in one conversation and last in the other.
\<close>

definition overtaken_log :: "log_event list" where
  "overtaken_log = [demo_event ''MessageReceived'' [(''id'', JStr ''m0'')], demo_event ''MessageReceived'' [(''id'', JStr ''m1'')],
     demo_event ''TurnFailed'' [(''turn'', JStr ''m0'')], demo_event ''ModelCalled'' [(''turn'', JStr ''m1'')],
     demo_event ''TurnResumed'' [(''turn'', JStr ''m0''), (''failedEpoch'', JInt 0), (''epoch'', JInt 1)]]"

lemma demo_event_fields [simp]: "le_type (demo_event t fs) = t" "ev_field (demo_event t fs) k = map_of fs k"
  by (simp_all add: demo_event_def ev_field_def fmlookup_of_list)

lemma epoch_loop_stop [simp]: "\<not> continues log turn epoch \<Longrightarrow> epoch_loop log turn epoch = epoch"
  by (simp add: epoch_loop.simps)

lemmas turn_eval = turnOf_def idOf_def eventEpochOf_def failedEpochOf_def number_or_zero_def text_or_empty_def isTerminal_def
  safe_integer_def max_safe_integer_def

lemma resumed_epoch: "turnEpochOf resumed_log ''m0'' = 1"
proof -
  have "continues resumed_log ''m0'' 0" "\<not> continues resumed_log ''m0'' 1"
    by (simp_all add: continues_def resumed_log_def fails_at_def resumes_at_def turn_eval)
  then show ?thesis by (simp add: turnEpochOf_def epoch_loop.simps [of resumed_log "''m0''" 0])
qed

lemma resumed_orderly: "orderly resumed_log"
proof -
  have "superseded (turnIndexOf resumed_log) e \<longleftrightarrow> (case turnOf e of None \<Rightarrow> False | Some turn \<Rightarrow>
      isTerminal e \<and> eventEpochOf e \<noteq> turnEpochOf resumed_log turn)" for e
    by (simp add: superseded_def index_epoch_turnIndexOf split: option.split)
  then show ?thesis unfolding orderly_def orderly_at_def
    by (simp add: resumed_log_def turn_eval upt_rec)
qed

lemma find_rev_unique: "length (filter P xs) \<le> 1 \<Longrightarrow> find P (rev xs) = find P xs"
proof -
  have eq: "find P ys = (case filter P ys of [] \<Rightarrow> None | y # _ \<Rightarrow> Some y)" for ys by (induction ys) auto
  assume "length (filter P xs) \<le> 1"
  then show ?thesis unfolding eq rev_filter [symmetric] by (cases "filter P xs") auto
qed

text \<open>C36. For every log, the current turn and the epoch of a turn read from the incrementally reduced
  state are those computed from the whole log. Where the log has several terminals of a turn in its epoch
  the state keeps the last and the whole log gives the first; so the two agree on whether the turn has
  ended, and on the terminal when it is the only one. The conversations agree when the log is orderly:
  messages have identifiers of their own and precede the events that serve them, and no turn is first
  served by a terminal of an epoch it has left. Without that they can differ (\<open>conversations_differ\<close>).\<close>

theorem turn_projection_replays:
  "turnViewFrom (projected_turns log) = turnView log \<and> turnEpochFrom (projected_turns log) turn = turnEpochOf log turn \<and>
    turnTerminalFrom (projected_turns log) turn = find (terminal_at turn (turnEpochOf log turn)) (rev log) \<and>
    turnTerminalOf log turn = find (terminal_at turn (turnEpochOf log turn)) log \<and>
    (turnTerminalFrom (projected_turns log) turn = None) = (turnTerminalOf log turn = None) \<and>
    (length (filter (terminal_at turn (turnEpochOf log turn)) log) \<le> 1 \<longrightarrow> turnTerminalFrom (projected_turns log) turn = turnTerminalOf log turn) \<and>
    (orderly log \<longrightarrow> trajectoryFrom (projected_turns log) = trajectoryOf log)"
proof -
  have of_log: "turnTerminalOf log turn = find (terminal_at turn (turnEpochOf log turn)) log"
    by (simp add: turnTerminalOf_def terminal_at_def [abs_def] Let_def)
  then show ?thesis
    using find_rev_unique [of "terminal_at turn (turnEpochOf log turn)" log]
    by (simp add: view_match turnEpochFrom_def turns_matchD terminal_match turnTerminalOf_None find_None_iff list_ex_iff trajectory_match)
qed

theorem turn_projection_replays_witness:
  "trajectoryFrom (projected_turns resumed_log) = trajectoryOf resumed_log \<and> turnEpochFrom (projected_turns resumed_log) ''m0'' = 1"
  using turn_projection_replays [of resumed_log "''m0''"] resumed_orderly resumed_epoch by simp

text \<open>The epoch of a turn is always found: it is the first that is not both failed and resumed, and
  no more epochs are passed than the log has failures of the turn.\<close>

theorem turn_epoch_found:
  "0 \<le> turnEpochOf log turn \<and> turnEpochOf log turn \<le> int (length (filter (\<lambda>e. le_type e = ''TurnFailed'' \<and> turnOf e = Some turn) log)) \<and>
    \<not> continues log turn (turnEpochOf log turn) \<and> (0 \<le> k \<and> k < turnEpochOf log turn \<longrightarrow> continues log turn k)"
proof -
  let ?n = "turnEpochOf log turn" and ?failed = "filter (\<lambda>e. le_type e = ''TurnFailed'' \<and> turnOf e = Some turn) log"
  have least: "\<not> continues log turn ?n" "0 \<le> k \<Longrightarrow> k < ?n \<Longrightarrow> continues log turn k" for k
    using epoch_loop_least [of 0 log turn] by (simp_all add: turnEpochOf_def)
  have "{0..<?n} \<subseteq> eventEpochOf ` set ?failed"
  proof
    fix k assume "k \<in> {0..<?n}"
    with least(2) obtain e where "e \<in> set log" "fails_at turn k e" by (auto simp: continues_def list_ex_iff)
    then show "k \<in> eventEpochOf ` set ?failed" by (intro image_eqI [of _ _ e]) (simp_all add: fails_at_def)
  qed
  then have "card {0..<?n} \<le> card (eventEpochOf ` set ?failed)" by (intro card_mono) simp_all
  also have "\<dots> \<le> card (set ?failed)" by (rule card_image_le) simp
  also have "\<dots> \<le> length ?failed" by (rule card_length)
  finally show ?thesis using least by simp
qed

theorem turn_epoch_found_witness: "turnEpochOf resumed_log ''m0'' = 1 \<and> continues resumed_log ''m0'' 0"
  using turn_epoch_found [of resumed_log "''m0''" 0] resumed_epoch by simp

theorem conversations_differ: "trajectoryFrom (projected_turns overtaken_log) \<noteq> trajectoryOf overtaken_log"
  by code_simp

section \<open>Owed work\<close>

text \<open>C37. The facts of the executions and the work owed depend on the set of events only, not on their
  order or repetition, when events that share a dedup key are equal.\<close>

theorem owed_work_bag_law:
  assumes "set log = set log'" and "keyed log" and "workOwed log = Inr w"
  shows "workOwed log' = Inr w \<and> factsOf log' = factsOf log"
proof
  show "workOwed log' = Inr w" by (rule workOwed_set [OF assms])
  from assms(3) obtain fs where "factsOf log = Inr fs" by (auto simp: workOwed_def)
  with factsOf_set [OF assms(1,2)] show "factsOf log' = factsOf log" by simp
qed

definition blocked_log :: "log_event list" where
  "blocked_log = [demo_event ''CodeDispatched'' [(''execId'', JStr ''x''), (''at'', JInt 1)],
     demo_event ''PackageCalled'' [(''callId'', JStr ''x.0'')], demo_event ''BlockedOn'' [(''callId'', JStr ''x.0''), (''awaiting'', JStr ''r'')]]"

theorem owed_work_bag_law_witness:
  "workOwed (rev blocked_log @ blocked_log) = Inr None \<and> set blocked_log = set (rev blocked_log @ blocked_log)"
proof -
  have "keyed blocked_log" "workOwed blocked_log = Inr None" by code_simp+
  then show ?thesis using owed_work_bag_law [of blocked_log "rev blocked_log @ blocked_log" None] by auto
qed

section \<open>Executions\<close>

text \<open>C38. However the attempts of an execution with a deterministic body overlap, with calls in flight
  together, each reading the log and recording its request in separate steps, and with events of others
  and store writes in between: no attempt drifts; requests recorded for the same call have the same name
  and arguments, one for each attempt that recorded one and no other; attempts that end with a result end
  with the same one; and an attempt that has a parked call, or whose body has ended, can end once none of
  its calls is in flight.\<close>

theorem replay_never_drifts:
  assumes "deterministic g" "exec_reaches g parse x w" "a \<in> set (ew_attempts w)"
  shows "at_drifted a = None \<and> at_end a \<noteq> Some (AttemptDrifted message) \<and>
    (\<forall>e\<in>set (ew_log w). \<forall>d\<in>set (ew_log w). requests_at x n e \<and> requests_at x n d \<longrightarrow> asks_same e d) \<and>
    length (filter (requests_at x n) (ew_log w)) = length (filter (\<lambda>b. status_of n b = Some CallRequested) (ew_attempts w)) \<and>
    (\<forall>b\<in>set (ew_attempts w). \<forall>r r'. at_end a = Some (AttemptDone r) \<and> at_end b = Some (AttemptDone r') \<longrightarrow> r = r') \<and>
    (filter in_flight (at_calls a) = [] \<and> (at_parked a \<or> at_body a \<noteq> None) \<longrightarrow> attempt_ending a \<noteq> None)"
proof -
  let ?answers = "answers_at parse (ew_store w) x (ew_log w)"
  have ok: "world_ok g parse x w" by (rule exec_reaches_ok [OF assms(2,1)])
  have ends: "gb_ends g ?answers = Some r" if "b \<in> set (ew_attempts w)" "at_end b = Some (AttemptDone r)" for b r
  proof -
    have "gb_ends g (received b) = Some r" "received b \<subseteq>\<^sub>m ?answers" using ok that by (simp_all add: world_ok_def attempt_ok_def)
    then show ?thesis using ends_mono [OF assms(1)] by blast
  qed
  have asks: "asks_for (gb_asks g ?answers) n e" if "e \<in> set (ew_log w)" "requests_at x n e" for e
    using ok that unfolding world_ok_def log_ok_def requests_at_def by force
  have a: "attempt_ok g parse x (ew_store w) (ew_log w) a" "barrier_ok a" using ok assms(3) by (simp_all add: world_ok_def)
  show ?thesis
  proof (intro conjI)
    show "at_drifted a = None" "at_end a \<noteq> Some (AttemptDrifted message)" using a(1) by (simp_all add: attempt_ok_def)
    show "\<forall>e\<in>set (ew_log w). \<forall>d\<in>set (ew_log w). requests_at x n e \<and> requests_at x n d \<longrightarrow> asks_same e d"
      using asks asks_for_same by blast
    show "length (filter (requests_at x n) (ew_log w)) = length (filter (\<lambda>b. status_of n b = Some CallRequested) (ew_attempts w))"
      using ok by (simp add: world_ok_def requested_def [abs_def])
    show "\<forall>b\<in>set (ew_attempts w). \<forall>r r'. at_end a = Some (AttemptDone r) \<and> at_end b = Some (AttemptDone r') \<longrightarrow> r = r'"
      using ends [OF assms(3)] ends by fastforce
    show "filter in_flight (at_calls a) = [] \<and> (at_parked a \<or> at_body a \<noteq> None) \<longrightarrow> attempt_ending a \<noteq> None"
      using attempt_released [OF a(2)] by blast
  qed
qed

definition demo_scope :: execution_scope where
  "demo_scope = \<lparr>xs_execId = ''x'', xs_ref = \<lparr>tn_seq = 1, tn_component = ''code'', tn_tag = ''execute''\<rparr>, xs_turn = None, xs_epoch = None, xs_policy = JNull\<rparr>"

text \<open>A body that asks for two calls together, and two attempts that both record the request of the first.\<close>

definition demo_body :: guest where
  "demo_body = script_guest (AskAll [(''ws.read'', Some (JStr ''a'')), (''ws.grep'', None)] (\<lambda>vs. Finish (BodyReturned None)))"

definition demo_moves :: "exec_move list" where
  "demo_moves = [StartAttempt, StartAttempt, AskCall 0, AskCall 0, AskCall 1, EnterCall 0 0, EnterCall 0 1, EnterCall 1 0, ReadCall 0 0 5, ReadCall 1 0 6, ReadCall 0 1 5,
     RecordRequest 0 0, RecordRequest 1 0, RecordRequest 0 1, EndAttempt 0]"

definition demo_idle :: exec_world where
  "demo_idle = \<lparr>ew_log = [], ew_store = Map.empty, ew_attempts = []\<rparr>"

lemma demo_run: "case exec_run demo_body (\<lambda>_. None) demo_scope demo_moves demo_idle of None \<Rightarrow> False | Some w \<Rightarrow>
    map at_end (ew_attempts w) = [Some AttemptParked, None] \<and> length (filter (requests_at demo_scope 0) (ew_log w)) = 2"
  by code_simp

theorem replay_never_drifts_witness:
  "\<exists>w. exec_reaches demo_body (\<lambda>_. None) demo_scope w \<and> map at_end (ew_attempts w) = [Some AttemptParked, None] \<and>
     length (filter (\<lambda>b. status_of 0 b = Some CallRequested) (ew_attempts w)) = 2 \<and> map at_drifted (ew_attempts w) = [None, None]"
proof -
  from demo_run obtain w where w: "exec_run demo_body (\<lambda>_. None) demo_scope demo_moves demo_idle = Some w"
    "map at_end (ew_attempts w) = [Some AttemptParked, None]" "length (filter (requests_at demo_scope 0) (ew_log w)) = 2" by (auto split: option.splits)
  have "list_all own_move demo_moves" by (simp add: demo_moves_def)
  moreover have "exec_reaches demo_body (\<lambda>_. None) demo_scope demo_idle" unfolding demo_idle_def by (rule exec_start) simp
  ultimately have reach: "exec_reaches demo_body (\<lambda>_. None) demo_scope w" by (rule exec_run_reaches [OF w(1)])
  have "deterministic demo_body" unfolding demo_body_def by (rule script_deterministic)
  note holds = replay_never_drifts [OF this reach, of _ _ 0]
  obtain a b where "ew_attempts w = [a, b]" using w(2) by (cases "ew_attempts w"; cases "tl (ew_attempts w)"; auto)
  with holds [of a] holds [of b] w(2,3) reach show ?thesis by auto
qed

section \<open>Calls\<close>

text \<open>C39. A call makes at most one attempt more than its policy has delays: its outcome is that of the
  first attempt that does not fail, or a recorded error naming the number of attempts when all fail.\<close>

theorem retries_bounded:
  "\<exists>k \<le> length (pl_retryDelaysMs p). list_all (\<lambda>i. attempt_failure p (attempts i) \<noteq> None) [0..<k] \<and>
    (case attempt_failure p (attempts k) of
       None \<Rightarrow> invoke p name attempts 0 = attempt_outcome (attempts k)
     | Some reason \<Rightarrow> k = length (pl_retryDelaysMs p) \<and> invoke p name attempts 0 = CallResult (Some (failed_result p name k reason)))"
  using invoke_attempts [of 0 p attempts name] by (auto simp: list_all_iff)

text \<open>The check of a call's arguments reports nothing exactly when they conform to the declared
  schema, absent arguments counting as an empty object.\<close>

theorem arguments_checked:
  "checkInput args (Some n) = [] \<longleftrightarrow> conforms (case args of None \<Rightarrow> JObj fmempty | Some v \<Rightarrow> v) n"
  by (rule checkInput_conforms)

end
