(* ===== verification/AgentState.thy ===== *)
theory AgentState
  imports AgentEvents
begin

text \<open>
  The durable states of an agent beside its inference (\<open>packages/agent/src/atoms/durable/\<close>: model.ts,
  tools.ts, permissions.ts, budget.ts, spend.ts, and the submissions of \<open>atoms/tool-promises.ts\<close>). Each
  is folded over the journal by a reducer; a reducer that throws returns \<open>Inl\<close>. The bounds a schema
  puts on a state are checked by the durable atom and are not part of the reducers.
\<close>

section \<open>Model configuration\<close>

fun modelState :: "model_configuration option \<Rightarrow> agent_event \<Rightarrow> runtime_error + model_configuration option" where
  "modelState st (ModelConfigured c) =
     (if st \<noteq> None then Inl (Error ''Model is already configured'') else Inr (Some c))"
| "modelState st (ModelUpdated c) =
     (if st = None then Inl (Error ''Model is not configured'') else Inr (Some c))"
| "modelState st _ = Inr st"

section \<open>Pending tool calls\<close>

record queued_tool =
  qt_call :: tool_call
  qt_turnId :: "string option"
  qt_running :: bool

record tool_state =
  to_queue :: "queued_tool list"
  to_turnId :: "string option"
  to_pending :: "tool_call option"
  to_origin :: "nat option"
  to_running :: bool

definition initialTools :: tool_state where
  "initialTools = \<lparr>to_queue = [], to_turnId = None, to_pending = None, to_origin = None, to_running = False\<rparr>"

text \<open>The queue after an event, \<open>None\<close> when it stays the same array.\<close>

fun tool_queue :: "queued_tool list \<Rightarrow> agent_event \<Rightarrow> queued_tool list option" where
  "tool_queue queue (InferenceReturned r) =
     (if ir_toolCalls r \<noteq> []
      then Some (queue @ map (\<lambda>c. \<lparr>qt_call = c, qt_turnId = ir_turnId r, qt_running = False\<rparr>) (ir_toolCalls r)) else None)"
| "tool_queue queue (ToolCalled e) =
     (if list_ex (\<lambda>q. tk_callId (qt_call q) = tc_callId e \<and> \<not> qt_running q) queue
      then Some (map (\<lambda>q. if tk_callId (qt_call q) = tc_callId e \<and> \<not> qt_running q then q\<lparr>qt_running := True\<rparr> else q) queue) else None)"
| "tool_queue queue (ToolReturned e) =
     (if list_ex (\<lambda>q. tk_callId (qt_call q) = tr_callId e) queue
      then Some (filter (\<lambda>q. tk_callId (qt_call q) \<noteq> tr_callId e) queue) else None)"
| "tool_queue queue _ = None"

definition toolState :: "nat option \<Rightarrow> tool_state \<Rightarrow> agent_event \<Rightarrow> tool_state" where
  "toolState position st e = (case tool_queue (to_queue st) e of
     None \<Rightarrow> st
   | Some queue \<Rightarrow> \<lparr>to_queue = queue, to_turnId = Option.bind (list_head queue) qt_turnId, to_pending = map_option qt_call (list_head queue),
       to_origin = (if map_option (\<lambda>q. tk_callId (qt_call q)) (list_head queue) = map_option tk_callId (to_pending st)
         then to_origin st else position),
       to_running = (case list_head queue of None \<Rightarrow> False | Some q \<Rightarrow> qt_running q)\<rparr>)"

section \<open>Permission decisions\<close>

record permission_decision =
  pd_action :: string
  pd_requestId :: string
  pd_decision :: decision

record permission_state =
  pz_policy :: "permission_policy option"
  pz_decisions :: "permission_decision list"

definition initialPermissions :: permission_state where
  "initialPermissions = \<lparr>pz_policy = None, pz_decisions = []\<rparr>"

definition latest_decision :: "string \<Rightarrow> string \<Rightarrow> permission_decision list \<Rightarrow> decision option" where
  "latest_decision action requestId ds =
     map_option pd_decision (find_last (\<lambda>d. pd_action d = action \<and> pd_requestId d = requestId) ds)"

fun reducePermissions :: "permission_state \<Rightarrow> agent_event \<Rightarrow> runtime_error + permission_state" where
  "reducePermissions st (PermissionConfigured p) =
     (if pz_policy st \<noteq> None then Inl (Error ''Permission policy is already configured'') else Inr (st\<lparr>pz_policy := Some p\<rparr>))"
| "reducePermissions st (PermissionUpdated p) =
     (if pz_policy st = None then Inl (Error ''Permission policy is not configured'') else Inr (st\<lparr>pz_policy := Some p\<rparr>))"
| "reducePermissions st (PermissionResolved action requestId d) =
     (if latest_decision action requestId (pz_decisions st) = Some d then Inr st
      else Inr (st\<lparr>pz_decisions := pz_decisions st @ [\<lparr>pd_action = action, pd_requestId = requestId, pd_decision = d\<rparr>]\<rparr>))"
| "reducePermissions st _ = Inr st"

section \<open>Budgets\<close>

record budget_resolution =
  br_callId :: string
  br_decision :: budget_decision

record budget_entry =
  be_metric :: string
  be_turnId :: "string option"
  be_policy :: budget_policy
  be_granted :: rat
  be_decisions :: "budget_resolution list"

text \<open>
  \<open>Number.isFinite\<close> of the exact value: a sum overflows to \<open>Infinity\<close> from halfway between the
  largest double and the next power of two. \<open>safe_amount\<close> is \<open>Number.isSafeInteger\<close>.
\<close>

definition finite_amount :: "rat \<Rightarrow> bool" where
  "finite_amount x \<longleftrightarrow> \<bar>x\<bar> < 2 ^ 1024 - 2 ^ 970"

definition safe_amount :: "rat \<Rightarrow> bool" where
  "safe_amount x \<longleftrightarrow> of_int \<lfloor>x\<rfloor> = x \<and> safe_integer \<lfloor>x\<rfloor>"

definition valid_amount :: "string \<Rightarrow> rat \<Rightarrow> bool" where
  "valid_amount metric amount \<longleftrightarrow> finite_amount amount \<and> (metric = ''toolCalls'' \<longrightarrow> safe_amount amount)"

definition validateBudgetAmount :: "string \<Rightarrow> rat \<Rightarrow> runtime_error + unit" where
  "validateBudgetAmount metric amount =
     check (valid_amount metric amount) (Error (''Invalid budget amount for '' @ metric))"

definition find_budget :: "string \<Rightarrow> budget_entry list \<Rightarrow> budget_entry option" where
  "find_budget metric st = find (\<lambda>e. be_metric e = metric) st"

definition amount_of :: "budget_decision \<Rightarrow> rat" where
  "amount_of d = (case d of Granted n \<Rightarrow> n | Refused _ \<Rightarrow> 0)"

definition reset_entry :: "string option \<Rightarrow> budget_entry \<Rightarrow> budget_entry" where
  "reset_entry turnId e = e\<lparr>be_turnId := turnId, be_granted := 0, be_decisions := []\<rparr>"

definition grant_entry :: "string \<Rightarrow> budget_decision \<Rightarrow> budget_entry \<Rightarrow> budget_entry" where
  "grant_entry callId d e = e\<lparr>be_granted := be_granted e + amount_of d,
     be_decisions := be_decisions e @ [\<lparr>br_callId = callId, br_decision = d\<rparr>]\<rparr>"

fun reduceBudget :: "budget_entry list \<Rightarrow> agent_event \<Rightarrow> runtime_error + budget_entry list" where
  "reduceBudget st (BudgetConfigured metric policy) =
     (case find_budget metric st of
        Some _ \<Rightarrow> Inl (Error (''Budget policy is already configured: '' @ metric))
      | None \<Rightarrow> try_bind (validateBudgetAmount metric (bp_limit policy)) (\<lambda>_.
          Inr (st @ [\<lparr>be_metric = metric, be_turnId = None, be_policy = policy, be_granted = 0, be_decisions = []\<rparr>])))"
| "reduceBudget st (BudgetUpdated metric policy) =
     (case find_budget metric st of
        None \<Rightarrow> Inl (Error (''Budget policy is not configured: '' @ metric))
      | Some prior \<Rightarrow> try_bind (validateBudgetAmount metric (bp_limit policy)) (\<lambda>_.
          try_bind (validateBudgetAmount metric (bp_limit policy + be_granted prior)) (\<lambda>_.
          Inr (update_first (\<lambda>e. be_metric e = metric) (\<lambda>e. e\<lparr>be_policy := policy\<rparr>) st))))"
| "reduceBudget st (InferenceCalled _ turnId _) =
     Inr (if \<not> list_ex (\<lambda>e. be_turnId e \<noteq> Some turnId) st then st
          else map (\<lambda>e. if be_turnId e \<noteq> Some turnId then reset_entry (Some turnId) e else e) st)"
| "reduceBudget st (TurnSettled s) =
     Inr (if \<not> list_ex (\<lambda>e. be_turnId e = Some (settled_turn s)) st then st
          else map (\<lambda>e. if be_turnId e \<noteq> Some (settled_turn s) then e else reset_entry None e) st)"
| "reduceBudget st (BudgetResolved metric callId d) =
     (case find_budget metric st of
        None \<Rightarrow> Inl (Error (''Budget policy is not configured: '' @ metric))
      | Some budget \<Rightarrow> (case find (\<lambda>r. br_callId r = callId) (be_decisions budget) of
          Some prior \<Rightarrow>
            if br_decision prior = d then Inr st
            else Inl (Error (''Conflicting budget resolution: '' @ metric @ '':'' @ callId))
        | None \<Rightarrow>
            try_bind (case d of Granted additional \<Rightarrow> validateBudgetAmount metric additional | Refused _ \<Rightarrow> Inr ()) (\<lambda>_.
            try_bind (validateBudgetAmount metric (be_granted budget + amount_of d)) (\<lambda>_.
            try_bind (validateBudgetAmount metric (be_granted budget + amount_of d + bp_limit (be_policy budget))) (\<lambda>_.
            Inr (update_first (\<lambda>e. be_metric e = metric) (grant_entry callId d) st))))))"
| "reduceBudget st _ = Inr st"

section \<open>Spend\<close>

record tool_spend =
  sp_turnId :: string
  sp_count :: nat

record token_spend =
  st_turnId :: string
  st_input :: nat
  st_output :: nat

record usd_spend =
  su_turnId :: string
  su_usd :: "rat option"

record time_spend =
  sm_turnId :: string
  sm_ms :: "int option"

record spend_timer =
  tm_turnId :: string
  tm_index :: nat
  tm_startedAt :: "nat option"

record spend_call =
  sc_callId :: string
  sc_turnId :: string

record spend_state =
  ss_toolSpend :: "tool_spend list"
  ss_tokenSpend :: "token_spend list"
  ss_usdSpend :: "usd_spend list"
  ss_timeSpend :: "time_spend list"
  ss_timers :: "spend_timer list"
  ss_turns :: "string list"
  ss_models :: "spend_call list"
  ss_tools :: "spend_call list"

definition initialSpend :: spend_state where
  "initialSpend = \<lparr>ss_toolSpend = [], ss_tokenSpend = [], ss_usdSpend = [], ss_timeSpend = [], ss_timers = [], ss_turns = [],
     ss_models = [], ss_tools = []\<rparr>"

text \<open>A timer whose index leaves the list makes the access to its turn throw a \<open>TypeError\<close>.\<close>

definition missing_turn :: runtime_error where
  "missing_turn = Error ''Cannot read properties of undefined''"

definition advance_timer :: "int \<Rightarrow> time_spend list \<Rightarrow> spend_timer \<Rightarrow> time_spend list \<Rightarrow> runtime_error + time_spend list" where
  "advance_timer now original tm acc = (case tm_startedAt tm of
     None \<Rightarrow> Inr acc
   | Some started \<Rightarrow> if \<not> tm_index tm < length original then Inl missing_turn
       else let turn = original ! tm_index tm; ms = max 0 (now - int started) in
         Inr (if sm_ms turn = Some ms then acc else acc[tm_index tm := turn\<lparr>sm_ms := Some ms\<rparr>]))"

definition advance_timers :: "nat option \<Rightarrow> spend_state \<Rightarrow> runtime_error + spend_state" where
  "advance_timers recordedAt st = (case recordedAt of
     None \<Rightarrow> Inr st
   | Some now \<Rightarrow> try_bind (fold_try (advance_timer (int now) (ss_timeSpend st)) (ss_timers st) (ss_timeSpend st))
       (\<lambda>updated. Inr (st\<lparr>ss_timeSpend := updated\<rparr>)))"

definition count_of :: "nat option \<Rightarrow> nat" where
  "count_of n = (case n of None \<Rightarrow> 0 | Some n \<Rightarrow> n)"

definition add_tokens :: "string \<Rightarrow> model_usage option \<Rightarrow> token_spend list \<Rightarrow> token_spend list" where
  "add_tokens turnId usage ts = (case usage of
     None \<Rightarrow> ts
   | Some u \<Rightarrow> map (\<lambda>t. if st_turnId t = turnId
       then t\<lparr>st_input := st_input t + count_of (mu_input u), st_output := st_output t + count_of (mu_output u)\<rparr> else t) ts)"

definition add_usd :: "string \<Rightarrow> model_usage option \<Rightarrow> usd_spend list \<Rightarrow> usd_spend list" where
  "add_usd turnId usage us = map (\<lambda>t. if su_turnId t = turnId
     then t\<lparr>su_usd := (case (su_usd t, Option.bind usage mu_usd) of (Some u, Some cost) \<Rightarrow> Some (u + cost) | _ \<Rightarrow> None)\<rparr> else t) us"

definition unknown_usd :: "string \<Rightarrow> usd_spend list \<Rightarrow> usd_spend list" where
  "unknown_usd turnId us = map (\<lambda>t. if su_turnId t = turnId then t\<lparr>su_usd := None\<rparr> else t) us"

definition find_call :: "string \<Rightarrow> spend_call list \<Rightarrow> spend_call option" where
  "find_call callId cs = find (\<lambda>c. sc_callId c = callId) cs"

definition spend_model_called :: "string option \<Rightarrow> string \<Rightarrow> spend_state \<Rightarrow> spend_state" where
  "spend_model_called turnId callId st = (case turnId of
     None \<Rightarrow> st
   | Some t \<Rightarrow> if list_ex (\<lambda>c. sc_callId c = callId) (ss_models st) then st
       else st\<lparr>ss_models := ss_models st @ [\<lparr>sc_callId = callId, sc_turnId = t\<rparr>]\<rparr>)"

definition spend_model_returned :: "string \<Rightarrow> tool_call list \<Rightarrow> model_usage option \<Rightarrow> spend_state \<Rightarrow> spend_state" where
  "spend_model_returned callId toolCalls usage st = (case find_call callId (ss_models st) of
     None \<Rightarrow> st
   | Some call \<Rightarrow> st\<lparr>ss_models := remove1 call (ss_models st),
       ss_tools := ss_tools st @ map (\<lambda>c. \<lparr>sc_callId = tk_callId c, sc_turnId = sc_turnId call\<rparr>) toolCalls,
       ss_tokenSpend := add_tokens (sc_turnId call) usage (ss_tokenSpend st),
       ss_usdSpend := add_usd (sc_turnId call) usage (ss_usdSpend st)\<rparr>)"

definition count_tool :: "string \<Rightarrow> tool_spend list \<Rightarrow> tool_spend list" where
  "count_tool turnId ts = map (\<lambda>t. if sp_turnId t = turnId then t\<lparr>sp_count := sp_count t + 1\<rparr> else t) ts"

definition spend_tool :: "string \<Rightarrow> bool \<Rightarrow> spend_state \<Rightarrow> spend_state" where
  "spend_tool callId counted st = (case find_call callId (ss_tools st) of
     None \<Rightarrow> st
   | Some call \<Rightarrow> st\<lparr>ss_tools := remove1 call (ss_tools st),
       ss_toolSpend := (if counted then count_tool (sc_turnId call) (ss_toolSpend st) else ss_toolSpend st)\<rparr>)"

definition spend_model_failed :: "string \<Rightarrow> spend_state \<Rightarrow> spend_state" where
  "spend_model_failed callId st = (case find_call callId (ss_models st) of
     None \<Rightarrow> st
   | Some call \<Rightarrow> st\<lparr>ss_models := remove1 call (ss_models st), ss_usdSpend := unknown_usd (sc_turnId call) (ss_usdSpend st)\<rparr>)"

definition spend_requested :: "nat option \<Rightarrow> string \<Rightarrow> spend_state \<Rightarrow> spend_state" where
  "spend_requested recordedAt turnId st =
     (if list_ex (\<lambda>t. sp_turnId t = turnId) (ss_toolSpend st) then st
      else \<lparr>ss_toolSpend = ss_toolSpend st @ [\<lparr>sp_turnId = turnId, sp_count = 0\<rparr>],
        ss_tokenSpend = ss_tokenSpend st @ [\<lparr>st_turnId = turnId, st_input = 0, st_output = 0\<rparr>],
        ss_usdSpend = ss_usdSpend st @ [\<lparr>su_turnId = turnId, su_usd = Some 0\<rparr>],
        ss_timeSpend = ss_timeSpend st @ [\<lparr>sm_turnId = turnId, sm_ms = (case recordedAt of None \<Rightarrow> None | Some _ \<Rightarrow> Some 0)\<rparr>],
        ss_timers = ss_timers st @ [\<lparr>tm_turnId = turnId, tm_index = length (ss_timeSpend st), tm_startedAt = recordedAt\<rparr>],
        ss_turns = ss_turns st @ [turnId], ss_models = ss_models st, ss_tools = ss_tools st\<rparr>)"

definition stop_timer :: "nat option \<Rightarrow> string \<Rightarrow> spend_state \<Rightarrow> runtime_error + spend_state" where
  "stop_timer recordedAt turnId st = (case find (\<lambda>t. tm_turnId t = turnId) (ss_timers st) of
     None \<Rightarrow> Inr st
   | Some tm \<Rightarrow>
       if recordedAt = None \<or> tm_startedAt tm = None
       then (if \<not> tm_index tm < length (ss_timeSpend st) then Inl missing_turn
             else if sm_ms (ss_timeSpend st ! tm_index tm) \<noteq> None
             then Inr (st\<lparr>ss_timeSpend := (ss_timeSpend st)[tm_index tm := \<lparr>sm_turnId = turnId, sm_ms = None\<rparr>]\<rparr>)
             else Inr st)
       else Inr st)"

definition spend_settled :: "string \<Rightarrow> spend_state \<Rightarrow> spend_state" where
  "spend_settled turnId st = st\<lparr>ss_turns := filter (\<lambda>t. t \<noteq> turnId) (ss_turns st),
     ss_timers := filter (\<lambda>t. tm_turnId t \<noteq> turnId) (ss_timers st),
     ss_models := filter (\<lambda>c. sc_turnId c \<noteq> turnId) (ss_models st),
     ss_tools := filter (\<lambda>c. sc_turnId c \<noteq> turnId) (ss_tools st),
     ss_usdSpend := (if list_ex (\<lambda>c. sc_turnId c = turnId) (ss_models st) then unknown_usd turnId (ss_usdSpend st) else ss_usdSpend st)\<rparr>"

fun spend_event :: "nat option \<Rightarrow> spend_state \<Rightarrow> agent_event \<Rightarrow> runtime_error + spend_state" where
  "spend_event now st (TurnRequested e) = Inr (spend_requested now (tq_turnId e) st)"
| "spend_event now st (InferenceCalled _ turnId callId) = Inr (spend_model_called (Some turnId) callId st)"
| "spend_event now st (CompactionCalled _ callId _ _) = Inr (spend_model_called (list_head (ss_turns st)) callId st)"
| "spend_event now st (InferenceReturned r) = Inr (spend_model_returned (ir_callId r) (ir_toolCalls r) (ir_usage r) st)"
| "spend_event now st (CompactionReturned r) = Inr (spend_model_returned (cr_callId r) [] (cr_usage r) st)"
| "spend_event now st (ToolCalled e) = Inr (spend_tool (tc_callId e) (tc_counted e) st)"
| "spend_event now st (ToolReturned e) = Inr (spend_tool (tr_callId e) False st)"
| "spend_event now st (CompactionFailed callId _) = Inr (spend_model_failed callId st)"
| "spend_event now st (ModelFailed callId _) = Inr (spend_model_failed callId st)"
| "spend_event now st (TurnSettled s) = try_bind (stop_timer now (settled_turn s) st) (\<lambda>st. Inr (spend_settled (settled_turn s) st))"
| "spend_event now st _ = Inr st"

definition reduceSpend :: "nat option \<Rightarrow> spend_state \<Rightarrow> agent_event \<Rightarrow> runtime_error + spend_state" where
  "reduceSpend recordedAt st e = try_bind (advance_timers recordedAt st) (\<lambda>st. spend_event recordedAt st e)"

section \<open>Promised tool results\<close>

record tool_submission =
  tb_callId :: string
  tb_ref :: effect_ref
  tb_handle :: execution_handle

definition promise_turn :: "string \<Rightarrow> string" where
  "promise_turn callId = ''promise:'' @ callId"

fun reduceSubmissions :: "tool_submission list \<Rightarrow> agent_event \<Rightarrow> tool_submission list" where
  "reduceSubmissions st (ToolReturned e) = (case tr_promise e of
     Some (ref, handle) \<Rightarrow> st @ [\<lparr>tb_callId = tr_callId e, tb_ref = ref, tb_handle = handle\<rparr>]
   | None \<Rightarrow> st)"
| "reduceSubmissions st (Observed (EffectCancelled e)) = filter (\<lambda>s. effectKey (tb_ref s) \<noteq> effectKey (cancel_ref e)) st"
| "reduceSubmissions st (TurnRequested e) = filter (\<lambda>s. tq_turnId e \<noteq> promise_turn (tb_callId s)) st"
| "reduceSubmissions st _ = st"

section \<open>The tool queue\<close>

definition tool_state_ok :: "tool_state \<Rightarrow> bool" where
  "tool_state_ok st \<longleftrightarrow> to_pending st = map_option qt_call (list_head (to_queue st)) \<and>
     to_turnId st = Option.bind (list_head (to_queue st)) qt_turnId \<and>
     to_running st = (case list_head (to_queue st) of None \<Rightarrow> False | Some q \<Rightarrow> qt_running q)"

lemma tool_state_initial [simp]: "tool_state_ok initialTools"
  by (simp add: tool_state_ok_def initialTools_def)

lemma tool_state_step: "tool_state_ok st \<Longrightarrow> tool_state_ok (toolState p st e)"
  by (simp add: tool_state_ok_def toolState_def split: option.split)

fun returns_call :: "string \<Rightarrow> agent_event \<Rightarrow> bool" where
  "returns_call callId (ToolReturned e) = (tr_callId e = callId)"
| "returns_call callId _ = False"

fun replied_calls :: "agent_event \<Rightarrow> tool_call list" where
  "replied_calls (InferenceReturned r) = ir_toolCalls r"
| "replied_calls _ = []"

text \<open>The calls of a log's model replies, in order, that no later event of the log returns.\<close>

fun pending_calls :: "agent_event list \<Rightarrow> tool_call list" where
  "pending_calls [] = []"
| "pending_calls (e # es) = filter (\<lambda>c. \<not> list_ex (returns_call (tk_callId c)) es) (replied_calls e) @ pending_calls es"

definition replay_tools :: "nat \<Rightarrow> agent_event list \<Rightarrow> tool_state \<Rightarrow> tool_state" where
  "replay_tools n evs st = fold (\<lambda>(p, e) st. toolState (Some p) st e) (enumerate n evs) st"

lemma replay_tools_simps [simp]:
  "replay_tools n [] st = st"
  "replay_tools n (e # es) st = replay_tools (Suc n) es (toolState (Some n) st e)"
  by (simp_all add: replay_tools_def)

lemma map_call_running [simp]: "map qt_call (map (\<lambda>q. if P q then q\<lparr>qt_running := b\<rparr> else q) qs) = map qt_call qs"
  by (induction qs) simp_all

lemma filter_none: "\<not> list_ex P xs \<Longrightarrow> filter (\<lambda>x. \<not> P x) xs = xs"
  by (induction xs) auto

lemma queue_of_toolState: "to_queue (toolState p st e) = (case tool_queue (to_queue st) e of None \<Rightarrow> to_queue st | Some q \<Rightarrow> q)"
  by (simp add: toolState_def split: option.split)

lemma map_filter_call: "map qt_call (filter (\<lambda>q. P (qt_call q)) qs) = filter P (map qt_call qs)"
  by (induction qs) simp_all

lemma queue_step:
  "map qt_call (to_queue (toolState p st e)) =
     filter (\<lambda>c. \<not> returns_call (tk_callId c) e) (map qt_call (to_queue st)) @ replied_calls e"
proof (cases e)
  case (ToolReturned r)
  have "filter (\<lambda>q. tk_callId (qt_call q) \<noteq> tr_callId r) (to_queue st) = to_queue st"
    if "\<not> list_ex (\<lambda>q. tk_callId (qt_call q) = tr_callId r) (to_queue st)"
    using filter_none [OF that] by simp
  with ToolReturned show ?thesis
    by (simp add: queue_of_toolState map_filter_call [symmetric] eq_commute)
qed (simp_all add: queue_of_toolState comp_def)

lemma queue_is_pending:
  "map qt_call (to_queue (replay_tools n evs st)) =
     filter (\<lambda>c. \<not> list_ex (returns_call (tk_callId c)) evs) (map qt_call (to_queue st)) @ pending_calls evs"
proof (induction evs arbitrary: n st)
  case (Cons e evs)
  show ?case by (simp add: Cons queue_step conj_commute)
qed simp

lemma replay_tools_ok: "tool_state_ok st \<Longrightarrow> tool_state_ok (replay_tools n evs st)"
  by (induction evs arbitrary: n st) (simp_all add: tool_state_step)

text \<open>A pending call has the position at which it became the head of the queue as its origin.\<close>

definition origin_set :: "nat \<Rightarrow> tool_state \<Rightarrow> bool" where
  "origin_set n st \<longleftrightarrow> (to_pending st = None \<or> (\<exists>p. to_origin st = Some p \<and> p < n))"

lemma origin_set_step: "origin_set n st \<Longrightarrow> origin_set (Suc n) (toolState (Some n) st e)"
  by (auto simp: origin_set_def toolState_def less_Suc_eq split: option.split)

lemma replay_tools_origin: "origin_set n st \<Longrightarrow> origin_set (n + length evs) (replay_tools n evs st)"
proof (induction evs arbitrary: n st)
  case (Cons e evs)
  from Cons.IH [OF origin_set_step [OF Cons.prems]] show ?case by simp
qed simp

section \<open>Budget entries\<close>

definition resolved_total :: "budget_entry \<Rightarrow> rat" where
  "resolved_total e = sum_list (map (\<lambda>r. amount_of (br_decision r)) (be_decisions e))"

definition budget_entry_ok :: "budget_entry \<Rightarrow> bool" where
  "budget_entry_ok e \<longleftrightarrow> valid_amount (be_metric e) (bp_limit (be_policy e)) \<and>
     valid_amount (be_metric e) (bp_limit (be_policy e) + be_granted e) \<and> be_granted e = resolved_total e \<and>
     0 \<le> be_granted e \<and> distinct (map br_callId (be_decisions e)) \<and> list_all (\<lambda>r. budget_decision_ok (br_decision r)) (be_decisions e)"

definition budget_ok :: "budget_entry list \<Rightarrow> bool" where
  "budget_ok st \<longleftrightarrow> list_all budget_entry_ok st \<and> distinct (map be_metric st)"

lemma budget_ok_Nil [simp]: "budget_ok []"
  by (simp add: budget_ok_def)

lemma amount_of_nonneg: "budget_decision_ok d \<Longrightarrow> 0 \<le> amount_of d"
  by (cases d) (simp_all add: amount_of_def)

lemma validate_Inr [simp]: "validateBudgetAmount m x = Inr u \<longleftrightarrow> valid_amount m x"
  by (simp add: validateBudgetAmount_def)

lemma find_budget_metric: "find_budget m st = Some e \<Longrightarrow> e \<in> set st \<and> be_metric e = m"
  unfolding find_budget_def by (rule find_Some_in)

lemma find_budget_None: "find_budget m st = None \<longleftrightarrow> m \<notin> set (map be_metric st)"
  by (auto simp: find_budget_def find_None_iff)

lemma reset_entry_ok: "budget_entry_ok e \<Longrightarrow> budget_entry_ok (reset_entry t e)"
  by (simp add: budget_entry_ok_def reset_entry_def resolved_total_def)

lemma reset_entry_metric [simp]: "be_metric (reset_entry t e) = be_metric e"
  by (simp add: reset_entry_def)

lemma grant_entry_metric [simp]: "be_metric (grant_entry c d e) = be_metric e"
  by (simp add: grant_entry_def)

lemma budget_ok_map:
  "budget_ok st \<Longrightarrow> (\<And>e. e \<in> set st \<Longrightarrow> budget_entry_ok e \<Longrightarrow> budget_entry_ok (f e) \<and> be_metric (f e) = be_metric e) \<Longrightarrow>
     budget_ok (map f st)"
  by (simp add: budget_ok_def list_all_iff comp_def cong: map_cong)

lemma unique_metric: "distinct (map be_metric st) \<Longrightarrow> x \<in> set st \<Longrightarrow> y \<in> set st \<Longrightarrow> be_metric x = be_metric y \<Longrightarrow> x = y"
  by (metis distinct_map inj_onD)

lemma budget_ok_update:
  assumes "budget_ok st" "find_budget m st = Some e" "budget_entry_ok (f e)" "\<And>e. be_metric (f e) = be_metric e"
  shows "budget_ok (update_first (\<lambda>e. be_metric e = m) f st)"
  unfolding budget_ok_def
proof
  show "distinct (map be_metric (update_first (\<lambda>e. be_metric e = m) f st))"
    using assms(1,4) by (simp add: map_update_first budget_ok_def)
  show "list_all budget_entry_ok (update_first (\<lambda>e. be_metric e = m) f st)"
    unfolding list_all_iff
  proof
    fix y
    assume "y \<in> set (update_first (\<lambda>e. be_metric e = m) f st)"
    then consider "y \<in> set st" | x where "x \<in> set st" "be_metric x = m" "y = f x"
      by (blast dest: set_update_first)
    then show "budget_entry_ok y"
    proof cases
      case 1
      with assms(1) show ?thesis by (simp add: budget_ok_def list_all_iff)
    next
      case 2
      have "x = e"
        using assms(1) "2"(1,2) find_budget_metric [OF assms(2)] by (intro unique_metric [of st]) (simp_all add: budget_ok_def)
      with "2"(3) assms(3) show ?thesis by simp
    qed
  qed
qed

lemma budget_configure: "budget_ok st \<Longrightarrow> agent_event_ok (BudgetConfigured m p) \<Longrightarrow>
    reduceBudget st (BudgetConfigured m p) = Inr st' \<Longrightarrow> budget_ok st'"
  by (auto simp: find_budget_None budget_ok_def budget_entry_ok_def resolved_total_def split: option.splits)

lemma budget_update:
  assumes "budget_ok st" "reduceBudget st (BudgetUpdated m p) = Inr st'"
  shows "budget_ok st'"
proof -
  from assms(2) obtain e where e: "find_budget m st = Some e" "valid_amount m (bp_limit p)" "valid_amount m (bp_limit p + be_granted e)"
    "st' = update_first (\<lambda>e. be_metric e = m) (\<lambda>e. e\<lparr>be_policy := p\<rparr>) st"
    by (auto split: option.splits)
  have "budget_entry_ok (e\<lparr>be_policy := p\<rparr>)"
    using assms(1) e(2,3) find_budget_metric [OF e(1)] by (auto simp: budget_ok_def list_all_iff budget_entry_ok_def resolved_total_def)
  then show ?thesis unfolding e(4) by (intro budget_ok_update [OF assms(1) e(1)]) simp_all
qed

lemma grant_entry_ok:
  assumes "budget_entry_ok e" "budget_decision_ok d" "find (\<lambda>r. br_callId r = c) (be_decisions e) = None"
    "valid_amount (be_metric e) (be_granted e + amount_of d + bp_limit (be_policy e))"
  shows "budget_entry_ok (grant_entry c d e)"
  using assms amount_of_nonneg [OF assms(2)]
  by (auto simp: budget_entry_ok_def grant_entry_def resolved_total_def find_None_iff add.commute add.left_commute)

lemma budget_resolve:
  assumes "budget_ok st" "agent_event_ok (BudgetResolved m c d)" "reduceBudget st (BudgetResolved m c d) = Inr st'"
  shows "budget_ok st'"
proof -
  from assms(3) obtain e where e: "find_budget m st = Some e" by (auto split: option.splits)
  show ?thesis
  proof (cases "find (\<lambda>r. br_callId r = c) (be_decisions e)")
    case None
    with assms(3) e have st': "st' = update_first (\<lambda>e. be_metric e = m) (grant_entry c d) st"
      and valid: "valid_amount m (be_granted e + amount_of d + bp_limit (be_policy e))" by (auto split: budget_decision.splits)
    have "budget_entry_ok (grant_entry c d e)"
      using assms(1,2) None valid find_budget_metric [OF e] by (intro grant_entry_ok) (auto simp: budget_ok_def list_all_iff)
    then show ?thesis unfolding st' by (intro budget_ok_update [OF assms(1) e]) simp_all
  next
    case (Some prior)
    with assms(1,3) e show ?thesis by (auto split: if_splits)
  qed
qed

lemma budget_step: "budget_ok st \<Longrightarrow> agent_event_ok e \<Longrightarrow> reduceBudget st e = Inr st' \<Longrightarrow> budget_ok st'"
proof (cases e)
  case (InferenceCalled c t i)
  assume st: "budget_ok st" and r: "reduceBudget st e = Inr st'"
  have "budget_ok (map (\<lambda>e. if be_turnId e \<noteq> Some t then reset_entry (Some t) e else e) st)"
    using st by (rule budget_ok_map) (simp add: reset_entry_ok)
  with st r InferenceCalled show ?thesis by (simp split: if_splits)
next
  case (TurnSettled s)
  assume st: "budget_ok st" and r: "reduceBudget st e = Inr st'"
  have "budget_ok (map (\<lambda>e. if be_turnId e \<noteq> Some (settled_turn s) then e else reset_entry None e) st)"
    using st by (rule budget_ok_map) (simp add: reset_entry_ok)
  with st r TurnSettled show ?thesis by (simp split: if_splits)
next
  case (BudgetConfigured m p)
  then show "budget_ok st \<Longrightarrow> agent_event_ok e \<Longrightarrow> reduceBudget st e = Inr st' \<Longrightarrow> ?thesis"
    using budget_configure by blast
next
  case (BudgetUpdated m p)
  then show "budget_ok st \<Longrightarrow> agent_event_ok e \<Longrightarrow> reduceBudget st e = Inr st' \<Longrightarrow> ?thesis"
    using budget_update by blast
next
  case (BudgetResolved m c d)
  then show "budget_ok st \<Longrightarrow> agent_event_ok e \<Longrightarrow> reduceBudget st e = Inr st' \<Longrightarrow> ?thesis"
    using budget_resolve by blast
qed (simp_all del: agent_event_ok.simps)

definition replay_budget :: "agent_event list \<Rightarrow> runtime_error + budget_entry list" where
  "replay_budget evs = fold_try (\<lambda>e st. reduceBudget st e) evs []"

lemma replay_budget_ok: "list_all agent_event_ok evs \<Longrightarrow> replay_budget evs = Inr st \<Longrightarrow> budget_ok st"
  unfolding replay_budget_def
  by (erule fold_try_invariant [where P = budget_ok]) (auto simp: list_all_iff intro: budget_step)

lemma budget_resolved_again:
  assumes "reduceBudget st (BudgetResolved m c d) = Inr st'" "distinct (map be_metric st)"
  shows "reduceBudget st' (BudgetResolved m c d) = Inr st'"
proof -
  from assms(1) obtain e where e: "find_budget m st = Some e" by (auto split: option.splits)
  show ?thesis
  proof (cases "find (\<lambda>r. br_callId r = c) (be_decisions e)")
    case None
    with assms(1) e have st': "st' = update_first (\<lambda>e. be_metric e = m) (grant_entry c d) st" by (auto split: budget_decision.splits)
    have "find_budget m st' = Some (grant_entry c d e)"
      using e unfolding st' find_budget_def by (induction st) (auto split: if_splits)
    moreover have "find (\<lambda>r. br_callId r = c) (be_decisions (grant_entry c d e)) = Some \<lparr>br_callId = c, br_decision = d\<rparr>"
      using None by (simp add: grant_entry_def find_append)
    ultimately show ?thesis by simp
  next
    case (Some prior)
    with assms(1) e show ?thesis by (auto split: if_splits)
  qed
qed

section \<open>Totals of turns\<close>

text \<open>
  The five lists of a spend state name the same turns, and every timer's index is the place of its
  turn: no access of the reducer misses.
\<close>

definition timer_ok :: "time_spend list \<Rightarrow> spend_timer \<Rightarrow> bool" where
  "timer_ok ts tm \<longleftrightarrow> tm_index tm < length ts \<and> sm_turnId (ts ! tm_index tm) = tm_turnId tm"

definition spend_ok :: "spend_state \<Rightarrow> bool" where
  "spend_ok st \<longleftrightarrow> map st_turnId (ss_tokenSpend st) = map sp_turnId (ss_toolSpend st) \<and>
     map su_turnId (ss_usdSpend st) = map sp_turnId (ss_toolSpend st) \<and>
     map sm_turnId (ss_timeSpend st) = map sp_turnId (ss_toolSpend st) \<and>
     distinct (map sp_turnId (ss_toolSpend st)) \<and> map tm_turnId (ss_timers st) = ss_turns st \<and> distinct (ss_turns st) \<and>
     set (ss_turns st) \<subseteq> set (map sp_turnId (ss_toolSpend st)) \<and> list_all (timer_ok (ss_timeSpend st)) (ss_timers st) \<and>
     distinct (map sc_callId (ss_models st))"

lemma spend_ok_initial [simp]: "spend_ok initialSpend"
  by (simp add: spend_ok_def initialSpend_def)

lemma timer_ok_same: "map sm_turnId ts = map sm_turnId ts' \<Longrightarrow> timer_ok ts tm = timer_ok ts' tm"
  unfolding timer_ok_def by (metis length_map nth_map)

lemma timer_ok_append: "timer_ok ts tm \<Longrightarrow> timer_ok (ts @ us) tm"
  by (simp add: timer_ok_def nth_append)

lemma distinct_indexes:
  assumes "spend_ok st"
  shows "distinct (map tm_index (ss_timers st))"
proof -
  have "inj_on tm_index (set (ss_timers st))"
  proof (rule inj_onI)
    fix x y
    assume *: "x \<in> set (ss_timers st)" "y \<in> set (ss_timers st)" "tm_index x = tm_index y"
    from assms *(1,2) have "timer_ok (ss_timeSpend st) x" "timer_ok (ss_timeSpend st) y" by (auto simp: spend_ok_def list_all_iff)
    with *(3) have "tm_turnId x = tm_turnId y" by (simp add: timer_ok_def)
    moreover from assms have "distinct (map tm_turnId (ss_timers st))" by (simp add: spend_ok_def)
    ultimately show "x = y" using *(1,2) by (metis distinct_map inj_onD)
  qed
  moreover from assms have "distinct (ss_timers st)" by (metis spend_ok_def distinct_map)
  ultimately show ?thesis by (simp add: distinct_map)
qed

definition elapsed :: "int \<Rightarrow> nat \<Rightarrow> int" where
  "elapsed now started = max 0 (now - int started)"

definition ticked :: "int \<Rightarrow> spend_timer list \<Rightarrow> nat \<Rightarrow> time_spend \<Rightarrow> time_spend" where
  "ticked now timers i t = (case find (\<lambda>tm. tm_index tm = i) timers of
     Some tm \<Rightarrow> (case tm_startedAt tm of Some s \<Rightarrow> t\<lparr>sm_ms := Some (elapsed now s)\<rparr> | None \<Rightarrow> t)
   | None \<Rightarrow> t)"

lemma ticked_turn [simp]: "sm_turnId (ticked now timers i t) = sm_turnId t"
  by (simp add: ticked_def split: option.split)

lemma advance_fold:
  "list_all (timer_ok original) timers \<Longrightarrow> distinct (map tm_index timers) \<Longrightarrow> length acc = length original \<Longrightarrow>
   (\<And>tm. tm \<in> set timers \<Longrightarrow> acc ! tm_index tm = original ! tm_index tm) \<Longrightarrow>
   \<exists>r. fold_try (advance_timer now original) timers acc = Inr r \<and> length r = length original \<and>
     (\<forall>i < length original. r ! i = ticked now timers i (acc ! i))"
proof (induction timers arbitrary: acc)
  case (Cons tm timers)
  define acc' where "acc' = (case tm_startedAt tm of None \<Rightarrow> acc
    | Some s \<Rightarrow> acc[tm_index tm := (original ! tm_index tm)\<lparr>sm_ms := Some (elapsed now s)\<rparr>])"
  have i: "tm_index tm < length original" "acc ! tm_index tm = original ! tm_index tm"
    using Cons.prems(1,4) by (simp_all add: timer_ok_def)
  have same: "acc[tm_index tm := original ! tm_index tm] = acc"
    using i by (metis list_update_id)
  have step: "advance_timer now original tm acc = Inr acc'"
    using i same by (cases "original ! tm_index tm")
      (auto simp: advance_timer_def acc'_def elapsed_def Let_def split: option.split)
  have others: "acc' ! j = acc ! j" if "j \<noteq> tm_index tm" for j
    using that by (simp add: acc'_def split: option.split)
  have new: "tm_index x \<noteq> tm_index tm" if "x \<in> set timers" for x
    using Cons.prems(2) that by (metis distinct.simps(2) image_eqI list.set_map list.simps(9))
  have "\<exists>r. fold_try (advance_timer now original) timers acc' = Inr r \<and> length r = length original \<and>
     (\<forall>i < length original. r ! i = ticked now timers i (acc' ! i))"
  proof (rule Cons.IH)
    show "list_all (timer_ok original) timers" "distinct (map tm_index timers)" using Cons.prems(1,2) by simp_all
    show "length acc' = length original" using Cons.prems(3) by (simp add: acc'_def split: option.split)
    fix x
    assume x: "x \<in> set timers"
    with Cons.prems(4) have "acc ! tm_index x = original ! tm_index x" by simp
    with others [OF new [OF x]] show "acc' ! tm_index x = original ! tm_index x" by simp
  qed
  then obtain r where r: "fold_try (advance_timer now original) timers acc' = Inr r" "length r = length original"
    "\<forall>i < length original. r ! i = ticked now timers i (acc' ! i)" by blast
  have "r ! j = ticked now (tm # timers) j (acc ! j)" if j: "j < length original" for j
  proof (cases "j = tm_index tm")
    case True
    have "find (\<lambda>x. tm_index x = j) timers = None" using new True by (auto simp: find_None_iff)
    with True r(3) j Cons.prems(3) i(2) show ?thesis
      by (auto simp: ticked_def acc'_def split: option.split)
  next
    case False
    with others have "acc' ! j = acc ! j" by blast
    moreover have "ticked now (tm # timers) j t = ticked now timers j t" for t
      using False by (simp add: ticked_def)
    ultimately show ?thesis using r(3) j by simp
  qed
  with step r(1,2) show ?case by auto
qed (auto simp: ticked_def)

text \<open>The state once the timers have advanced: the time of each open turn is that of its timer.\<close>

definition tick_list :: "int \<Rightarrow> spend_timer list \<Rightarrow> time_spend list \<Rightarrow> time_spend list" where
  "tick_list now timers ts = map (\<lambda>(i, t). ticked now timers i t) (enumerate 0 ts)"

lemma length_tick_list [simp]: "length (tick_list now timers ts) = length ts"
  by (simp add: tick_list_def)

lemma nth_tick_list [simp]: "i < length ts \<Longrightarrow> tick_list now timers ts ! i = ticked now timers i (ts ! i)"
  by (simp add: tick_list_def nth_enumerate_eq)

lemma tick_list_turns [simp]: "map sm_turnId (tick_list now timers ts) = map sm_turnId ts"
  by (simp add: list_eq_iff_nth_eq)

lemma advance_timers_total:
  assumes "spend_ok st"
  shows "advance_timers now st = Inr (case now of None \<Rightarrow> st
    | Some n \<Rightarrow> st\<lparr>ss_timeSpend := tick_list (int n) (ss_timers st) (ss_timeSpend st)\<rparr>)"
proof (cases now)
  case (Some n)
  have "\<exists>r. fold_try (advance_timer (int n) (ss_timeSpend st)) (ss_timers st) (ss_timeSpend st) = Inr r \<and>
      length r = length (ss_timeSpend st) \<and>
      (\<forall>i < length (ss_timeSpend st). r ! i = ticked (int n) (ss_timers st) i (ss_timeSpend st ! i))"
    using assms distinct_indexes [OF assms] by (intro advance_fold) (simp_all add: spend_ok_def)
  then obtain r where r: "fold_try (advance_timer (int n) (ss_timeSpend st)) (ss_timers st) (ss_timeSpend st) = Inr r"
    and "r = tick_list (int n) (ss_timers st) (ss_timeSpend st)"
    by (metis length_tick_list nth_equalityI nth_tick_list)
  with Some show ?thesis by (simp add: advance_timers_def)
qed (simp add: advance_timers_def)

lemma tick_spend_ok:
  assumes "spend_ok st"
  shows "spend_ok (st\<lparr>ss_timeSpend := tick_list now (ss_timers st) (ss_timeSpend st)\<rparr>)"
proof -
  have "timer_ok (tick_list now (ss_timers st) (ss_timeSpend st)) tm = timer_ok (ss_timeSpend st) tm" for tm
    by (rule timer_ok_same) simp
  with assms show ?thesis by (simp add: spend_ok_def cong: list.pred_cong)
qed

lemma map_turn_if:
  "map sp_turnId (count_tool t xs) = map sp_turnId xs"
  "map st_turnId (add_tokens t u ys) = map st_turnId ys"
  "map su_turnId (add_usd t u zs) = map su_turnId zs"
  "map su_turnId (unknown_usd t zs) = map su_turnId zs"
  by (auto simp: count_tool_def add_tokens_def add_usd_def unknown_usd_def split: option.split)

lemma set_count_tool [simp]: "sp_turnId ` set (count_tool t xs) = sp_turnId ` set xs"
  by (metis map_turn_if(1) set_map)

lemma distinct_remove1_map: "distinct (map f xs) \<Longrightarrow> distinct (map f (remove1 x xs))"
  by (induction xs) (auto dest: subsetD [OF set_remove1_subset])

lemma spend_requested_ok:
  assumes "spend_ok st"
  shows "spend_ok (spend_requested now t st)"
proof (cases "list_ex (\<lambda>u. sp_turnId u = t) (ss_toolSpend st)")
  case False
  then have new: "t \<notin> set (map sp_turnId (ss_toolSpend st))" by (auto simp: list_ex_iff)
  moreover from assms new have "t \<notin> set (ss_turns st)" by (auto simp: spend_ok_def)
  moreover have "list_all (timer_ok (ss_timeSpend st @ us)) (ss_timers st)" for us
    using assms timer_ok_append by (fastforce simp: spend_ok_def list_all_iff)
  ultimately show ?thesis using assms False by (auto simp: spend_ok_def spend_requested_def timer_ok_def)
qed (use assms in \<open>simp add: spend_requested_def\<close>)

lemma stop_timer_total:
  assumes "spend_ok st"
  shows "\<exists>st'. stop_timer now t st = Inr st' \<and> spend_ok st'"
proof (cases "find (\<lambda>x. tm_turnId x = t) (ss_timers st)")
  case None
  with assms show ?thesis by (simp add: stop_timer_def)
next
  case (Some tm)
  then have "tm \<in> set (ss_timers st)" "tm_turnId tm = t" by (auto dest: find_Some_in)
  with assms have tm: "tm_index tm < length (ss_timeSpend st)" "sm_turnId (ss_timeSpend st ! tm_index tm) = t"
    by (auto simp: spend_ok_def list_all_iff timer_ok_def)
  define ts where "ts = (ss_timeSpend st)[tm_index tm := \<lparr>sm_turnId = t, sm_ms = None\<rparr>]"
  have turns: "map sm_turnId ts = map sm_turnId (ss_timeSpend st)"
    using tm by (simp add: ts_def map_update list_update_same_conv)
  have "timer_ok ts x = timer_ok (ss_timeSpend st) x" for x
    by (rule timer_ok_same [OF turns])
  with assms turns have "spend_ok (st\<lparr>ss_timeSpend := ts\<rparr>)" by (simp add: spend_ok_def cong: list.pred_cong)
  with assms tm Some show ?thesis by (auto simp: stop_timer_def ts_def)
qed

lemma spend_settled_ok:
  assumes "spend_ok st"
  shows "spend_ok (spend_settled t st)"
proof -
  have "map tm_turnId (filter (\<lambda>x. tm_turnId x \<noteq> t) (ss_timers st)) = filter (\<lambda>u. u \<noteq> t) (ss_turns st)"
    using assms filter_map [of "\<lambda>u. u \<noteq> t" tm_turnId "ss_timers st"] by (simp add: spend_ok_def comp_def)
  with assms show ?thesis
    by (auto simp: spend_ok_def spend_settled_def map_turn_if list_all_iff distinct_map_filter)
qed

lemma spend_event_total:
  assumes "spend_ok st"
  shows "\<exists>st'. spend_event now st e = Inr st' \<and> spend_ok st'"
proof (cases e)
  case (TurnSettled s)
  from stop_timer_total [OF assms] obtain st' where "stop_timer now (settled_turn s) st = Inr st'" "spend_ok st'" by blast
  then show ?thesis using TurnSettled spend_settled_ok by auto
next
  case (TurnRequested r)
  then show ?thesis using assms spend_requested_ok by auto
qed (use assms in \<open>auto simp: spend_ok_def spend_model_called_def spend_model_returned_def spend_tool_def spend_model_failed_def
       map_turn_if distinct_remove1_map list_ex_iff split: option.split\<close>)

lemma reduceSpend_total:
  assumes "spend_ok st"
  shows "\<exists>st'. reduceSpend now st e = Inr st' \<and> spend_ok st'"
proof -
  define mid where "mid = (case now of None \<Rightarrow> st | Some n \<Rightarrow> st\<lparr>ss_timeSpend := tick_list (int n) (ss_timers st) (ss_timeSpend st)\<rparr>)"
  have "spend_ok mid" using assms tick_spend_ok by (simp add: mid_def split: option.split)
  from spend_event_total [OF this] show ?thesis
    by (simp add: reduceSpend_def advance_timers_total [OF assms] flip: mid_def)
qed

section \<open>The time of a turn\<close>

text \<open>
  What the time of a turn should be, read off a log of times and events: from the event that requests
  the turn to the first later event that settles it, or to the end of the log.
\<close>

fun requests_turn :: "string \<Rightarrow> agent_event \<Rightarrow> bool" where
  "requests_turn t (TurnRequested r) = (tq_turnId r = t)"
| "requests_turn t _ = False"

fun settles_turn :: "string \<Rightarrow> agent_event \<Rightarrow> bool" where
  "settles_turn t (TurnSettled s) = (settled_turn s = t)"
| "settles_turn t _ = False"

fun requested_ids :: "agent_event \<Rightarrow> string list" where
  "requested_ids (TurnRequested r) = [tq_turnId r]"
| "requested_ids _ = []"

type_synonym timed_log = "(nat \<times> agent_event) list"

definition requested_turns :: "timed_log \<Rightarrow> string list" where
  "requested_turns evs = rev (remdups (rev (concat (map (\<lambda>(_, e). requested_ids e) evs))))"

definition turn_start :: "timed_log \<Rightarrow> string \<Rightarrow> nat option" where
  "turn_start evs t = map_option fst (find (\<lambda>(_, e). requests_turn t e) evs)"

definition turn_stop :: "timed_log \<Rightarrow> string \<Rightarrow> nat option" where
  "turn_stop evs t = map_option fst (find (\<lambda>(_, e). settles_turn t e) (dropWhile (\<lambda>(_, e). \<not> requests_turn t e) evs))"

definition turn_time :: "timed_log \<Rightarrow> string \<Rightarrow> int" where
  "turn_time evs t = elapsed (int (case turn_stop evs t of Some stop \<Rightarrow> stop | None \<Rightarrow> fst (last evs))) (the (turn_start evs t))"

definition replay_spend :: "timed_log \<Rightarrow> spend_state \<Rightarrow> runtime_error + spend_state" where
  "replay_spend evs st = fold_try (\<lambda>(now, e) st. reduceSpend (Some now) st e) evs st"

lemma requested_turns_Nil [simp]: "requested_turns [] = []"
  by (simp add: requested_turns_def)

lemma requested_ids_iff: "t \<in> set (requested_ids e) \<longleftrightarrow> requests_turn t e"
  by (cases e) auto

lemma set_requested: "t \<in> set (requested_turns evs) \<longleftrightarrow> (\<exists>x\<in>set evs. requests_turn t (snd x))"
  by (auto simp: requested_turns_def requested_ids_iff split_beta)

lemma requested_snoc: "requested_turns (evs @ [(now, e)]) = requested_turns evs @ (case e of
    TurnRequested r \<Rightarrow> if tq_turnId r \<in> set (requested_turns evs) then [] else [tq_turnId r] | _ \<Rightarrow> [])"
  by (cases e) (auto simp: requested_turns_def)

lemma turn_start_None: "turn_start evs t = None \<longleftrightarrow> t \<notin> set (requested_turns evs)"
  by (auto simp: turn_start_def set_requested find_None_iff split_beta)

lemma turn_start_snoc: "turn_start (evs @ [(now, e)]) t =
    (if t \<in> set (requested_turns evs) then turn_start evs t else if requests_turn t e then Some now else None)"
  using turn_start_None [of evs t] by (auto simp: turn_start_def find_append split: option.splits)

lemma turn_stop_snoc: "turn_stop (evs @ [(now, e)]) t =
    (if t \<in> set (requested_turns evs)
     then (case turn_stop evs t of Some s \<Rightarrow> Some s | None \<Rightarrow> if settles_turn t e then Some now else None) else None)"
proof (cases "t \<in> set (requested_turns evs)")
  case True
  then obtain x where "x \<in> set evs" "requests_turn t (snd x)" by (auto simp: set_requested)
  then have "dropWhile (\<lambda>(_, e). \<not> requests_turn t e) (evs @ [(now, e)]) = dropWhile (\<lambda>(_, e). \<not> requests_turn t e) evs @ [(now, e)]"
    by (intro dropWhile_append1 [of x]) (auto simp: split_beta)
  with True show ?thesis by (auto simp: turn_stop_def find_append split: option.split)
next
  case False
  then have "dropWhile (\<lambda>(_, e). \<not> requests_turn t e) (evs @ [(now, e)]) = dropWhile (\<lambda>(_, e). \<not> requests_turn t e) [(now, e)]"
    by (intro dropWhile_append2) (auto simp: set_requested split_beta)
  moreover have "requests_turn t e \<Longrightarrow> \<not> settles_turn t e" by (cases e) auto
  ultimately show ?thesis using False by (auto simp: turn_stop_def)
qed

lemma turn_time_snoc:
  "t \<in> set (requested_turns evs) \<Longrightarrow> turn_time (evs @ [(now, e)]) t =
     (if turn_stop evs t = None then elapsed (int now) (the (turn_start evs t)) else turn_time evs t)"
  by (auto simp: turn_time_def turn_start_snoc turn_stop_snoc split: option.split)

lemma turn_time_new: "t \<notin> set (requested_turns evs) \<Longrightarrow> requests_turn t e \<Longrightarrow> turn_time (evs @ [(now, e)]) t = 0"
  by (simp add: turn_time_def turn_start_snoc turn_stop_snoc elapsed_def)

definition clock_ok :: "timed_log \<Rightarrow> spend_state \<Rightarrow> bool" where
  "clock_ok evs st \<longleftrightarrow> spend_ok st \<and>
     map (\<lambda>t. (sm_turnId t, sm_ms t)) (ss_timeSpend st) = map (\<lambda>t. (t, Some (turn_time evs t))) (requested_turns evs) \<and>
     (\<forall>tm\<in>set (ss_timers st). tm_startedAt tm = turn_start evs (tm_turnId tm)) \<and>
     set (ss_turns st) = {t \<in> set (requested_turns evs). turn_stop evs t = None}"

lemma clock_turns: "clock_ok evs st \<Longrightarrow> map sm_turnId (ss_timeSpend st) = requested_turns evs"
proof -
  assume "clock_ok evs st"
  then have "map fst (map (\<lambda>t. (sm_turnId t, sm_ms t)) (ss_timeSpend st)) = map fst (map (\<lambda>t. (t, Some (turn_time evs t))) (requested_turns evs))"
    by (simp add: clock_ok_def)
  then show ?thesis by (simp add: comp_def)
qed

text \<open>Advancing the timers brings every turn to the time of the event about to be recorded.\<close>

lemma clock_tick:
  assumes "clock_ok evs st" "i < length (ss_timeSpend st)"
  shows "sm_ms (ticked (int now) (ss_timers st) i (ss_timeSpend st ! i)) =
    Some (turn_time (evs @ [(now, e)]) (sm_turnId (ss_timeSpend st ! i)))"
proof -
  define t where "t = sm_turnId (ss_timeSpend st ! i)"
  have turns: "map sm_turnId (ss_timeSpend st) = requested_turns evs" using assms(1) by (rule clock_turns)
  have t: "t \<in> set (requested_turns evs)" using assms(2) unfolding turns [symmetric] t_def by simp
  have distinct: "distinct (map sm_turnId (ss_timeSpend st))" using assms(1) by (simp add: clock_ok_def spend_ok_def)
  have ms: "sm_ms (ss_timeSpend st ! i) = Some (turn_time evs t)"
  proof -
    have "map (\<lambda>t. (sm_turnId t, sm_ms t)) (ss_timeSpend st) ! i = map (\<lambda>t. (t, Some (turn_time evs t))) (requested_turns evs) ! i"
      using assms(1) by (simp add: clock_ok_def)
    moreover have "requested_turns evs ! i = t" using turns assms(2) by (metis nth_map t_def)
    moreover have "i < length (requested_turns evs)" using turns assms(2) by (metis length_map)
    ultimately show ?thesis using assms(2) by simp
  qed
  have timer: "tm_turnId tm = t \<longleftrightarrow> tm_index tm = i" if "tm \<in> set (ss_timers st)" for tm
  proof -
    from assms(1) that have *: "tm_index tm < length (ss_timeSpend st)" "sm_turnId (ss_timeSpend st ! tm_index tm) = tm_turnId tm"
      by (auto simp: clock_ok_def spend_ok_def list_all_iff timer_ok_def)
    with distinct assms(2) show ?thesis unfolding t_def by (metis length_map nth_eq_iff_index_eq nth_map)
  qed
  show ?thesis
  proof (cases "turn_stop evs t = None")
    case True
    with assms(1) t have "t \<in> set (map tm_turnId (ss_timers st))" by (simp add: clock_ok_def spend_ok_def)
    then obtain tm where tm: "find (\<lambda>tm. tm_index tm = i) (ss_timers st) = Some tm"
      using timer by (cases "find (\<lambda>tm. tm_index tm = i) (ss_timers st)") (auto simp: find_None_iff)
    then have "tm \<in> set (ss_timers st)" "tm_turnId tm = t" using timer by (auto dest: find_Some_in)
    with assms(1) have "tm_startedAt tm = turn_start evs t" by (auto simp: clock_ok_def)
    moreover have "turn_start evs t \<noteq> None" using t by (simp add: turn_start_None)
    ultimately show ?thesis using tm t True by (auto simp: ticked_def turn_time_snoc simp flip: t_def)
  next
    case False
    with assms(1) have "t \<notin> set (map tm_turnId (ss_timers st))" by (simp add: clock_ok_def spend_ok_def)
    with timer have "find (\<lambda>tm. tm_index tm = i) (ss_timers st) = None" by (auto simp: find_None_iff)
    with False t ms show ?thesis by (auto simp: ticked_def turn_time_snoc simp flip: t_def)
  qed
qed

definition clock_mid :: "timed_log \<Rightarrow> timed_log \<Rightarrow> spend_state \<Rightarrow> bool" where
  "clock_mid evs evs' st \<longleftrightarrow> spend_ok st \<and>
     map (\<lambda>t. (sm_turnId t, sm_ms t)) (ss_timeSpend st) = map (\<lambda>t. (t, Some (turn_time evs' t))) (requested_turns evs) \<and>
     (\<forall>tm\<in>set (ss_timers st). tm_startedAt tm = turn_start evs (tm_turnId tm)) \<and>
     set (ss_turns st) = {t \<in> set (requested_turns evs). turn_stop evs t = None}"

lemma clock_mid_tick:
  assumes "clock_ok evs st"
  shows "clock_mid evs (evs @ [(now, e)]) (st\<lparr>ss_timeSpend := tick_list (int now) (ss_timers st) (ss_timeSpend st)\<rparr>)"
proof -
  let ?ts = "tick_list (int now) (ss_timers st) (ss_timeSpend st)"
  have turns: "map sm_turnId (ss_timeSpend st) = requested_turns evs" using assms by (rule clock_turns)
  have "map (\<lambda>t. (sm_turnId t, sm_ms t)) ?ts = map (\<lambda>t. (t, Some (turn_time (evs @ [(now, e)]) t))) (requested_turns evs)"
  proof (rule nth_equalityI)
    show "length (map (\<lambda>t. (sm_turnId t, sm_ms t)) ?ts) = length (map (\<lambda>t. (t, Some (turn_time (evs @ [(now, e)]) t))) (requested_turns evs))"
      using turns by (metis length_map length_tick_list)
    fix i
    assume "i < length (map (\<lambda>t. (sm_turnId t, sm_ms t)) ?ts)"
    then have i: "i < length (ss_timeSpend st)" by simp
    moreover have "requested_turns evs ! i = sm_turnId (ss_timeSpend st ! i)" "i < length (requested_turns evs)"
      using turns i by (metis nth_map, metis length_map)
    ultimately show "map (\<lambda>t. (sm_turnId t, sm_ms t)) ?ts ! i = map (\<lambda>t. (t, Some (turn_time (evs @ [(now, e)]) t))) (requested_turns evs) ! i"
      using clock_tick [OF assms i] by simp
  qed
  with assms tick_spend_ok show ?thesis by (simp add: clock_mid_def clock_ok_def)
qed

lemma clock_open_timers: "spend_ok st \<Longrightarrow> tm \<in> set (ss_timers st) \<Longrightarrow> tm_turnId tm \<in> set (ss_turns st)"
  by (metis image_eqI list.set_map spend_ok_def)

text \<open>An event that neither requests nor settles a turn leaves what the clock reads alone.\<close>

lemma clock_other:
  assumes "clock_mid evs (evs @ [(now, e)]) st" "\<And>t. \<not> requests_turn t e" "\<And>t. \<not> settles_turn t e" "spend_ok st'"
    "ss_timeSpend st' = ss_timeSpend st" "ss_timers st' = ss_timers st" "ss_turns st' = ss_turns st"
  shows "clock_ok (evs @ [(now, e)]) st'"
proof -
  have "requested_turns (evs @ [(now, e)]) = requested_turns evs"
    using assms(2) by (cases e) (auto simp: requested_snoc)
  moreover have "turn_stop (evs @ [(now, e)]) t = turn_stop evs t" if "t \<in> set (requested_turns evs)" for t
    using that assms(3) by (simp add: turn_stop_snoc split: option.split)
  moreover have "turn_start (evs @ [(now, e)]) (tm_turnId tm) = turn_start evs (tm_turnId tm)" if "tm \<in> set (ss_timers st)" for tm
  proof -
    from assms(1) that have "tm_turnId tm \<in> set (requested_turns evs)"
      using clock_open_timers by (fastforce simp: clock_mid_def)
    then show ?thesis by (simp add: turn_start_snoc)
  qed
  ultimately show ?thesis using assms(1,4-7) by (auto simp: clock_mid_def clock_ok_def)
qed

lemma clock_requested:
  assumes "clock_mid evs (evs @ [(now, TurnRequested r)]) st"
  shows "clock_ok (evs @ [(now, TurnRequested r)]) (spend_requested (Some now) (tq_turnId r) st)"
proof -
  let ?t = "tq_turnId r" and ?evs = "evs @ [(now, TurnRequested r)]"
  have ok: "spend_ok st" and tools: "map sp_turnId (ss_toolSpend st) = requested_turns evs"
  proof -
    show ok: "spend_ok st" using assms by (simp add: clock_mid_def)
    have "map fst (map (\<lambda>t. (sm_turnId t, sm_ms t)) (ss_timeSpend st)) = requested_turns evs"
      using assms by (simp add: clock_mid_def comp_def)
    with ok show "map sp_turnId (ss_toolSpend st) = requested_turns evs" by (simp add: spend_ok_def comp_def)
  qed
  have known: "list_ex (\<lambda>u. sp_turnId u = ?t) (ss_toolSpend st) \<longleftrightarrow> ?t \<in> set (requested_turns evs)"
    unfolding tools [symmetric] by (force simp: list_ex_iff)
  have stop: "turn_stop ?evs t = turn_stop evs t" if "t \<in> set (requested_turns evs)" for t
    using that by (simp add: turn_stop_snoc split: option.split)
  have start: "turn_start ?evs (tm_turnId tm) = turn_start evs (tm_turnId tm)" if "tm \<in> set (ss_timers st)" for tm
  proof -
    from assms that have "tm_turnId tm \<in> set (requested_turns evs)"
      using clock_open_timers by (fastforce simp: clock_mid_def)
    then show ?thesis by (simp add: turn_start_snoc)
  qed
  show ?thesis
  proof (cases "?t \<in> set (requested_turns evs)")
    case True
    then have "requested_turns ?evs = requested_turns evs" by (simp add: requested_snoc)
    moreover have "spend_requested (Some now) ?t st = st" using known True by (simp add: spend_requested_def)
    ultimately show ?thesis using assms stop start by (auto simp: clock_mid_def clock_ok_def)
  next
    case False
    have "requested_turns ?evs = requested_turns evs @ [?t]" using False by (simp add: requested_snoc)
    moreover have "turn_start ?evs ?t = Some now" "turn_stop ?evs ?t = None" "turn_time ?evs ?t = 0"
      using False by (simp_all add: turn_start_snoc turn_stop_snoc turn_time_new)
    moreover have "spend_ok (spend_requested (Some now) ?t st)" using ok by (rule spend_requested_ok)
    ultimately show ?thesis using assms stop start known False
      by (auto simp: clock_mid_def clock_ok_def spend_requested_def)
  qed
qed

lemma clock_settled:
  assumes "clock_mid evs (evs @ [(now, TurnSettled s)]) st"
  shows "stop_timer (Some now) (settled_turn s) st = Inr st \<and> clock_ok (evs @ [(now, TurnSettled s)]) (spend_settled (settled_turn s) st)"
proof
  let ?t = "settled_turn s" and ?evs = "evs @ [(now, TurnSettled s)]"
  have open_turn: "tm_turnId tm \<in> set (requested_turns evs)" if "tm \<in> set (ss_timers st)" for tm
    using assms that clock_open_timers by (fastforce simp: clock_mid_def)
  show "stop_timer (Some now) ?t st = Inr st"
  proof (cases "find (\<lambda>t. tm_turnId t = ?t) (ss_timers st)")
    case (Some tm)
    then have tm: "tm \<in> set (ss_timers st)" by (auto dest: find_Some_in)
    with assms have "tm_startedAt tm = turn_start evs (tm_turnId tm)" by (simp add: clock_mid_def)
    moreover have "turn_start evs (tm_turnId tm) \<noteq> None" using open_turn [OF tm] by (simp add: turn_start_None)
    ultimately show ?thesis using Some by (auto simp: stop_timer_def)
  qed (simp add: stop_timer_def)
  have "requested_turns ?evs = requested_turns evs" by (simp add: requested_snoc)
  moreover have "turn_start ?evs (tm_turnId tm) = turn_start evs (tm_turnId tm)" if "tm \<in> set (ss_timers st)" for tm
    using open_turn [OF that] by (simp add: turn_start_snoc)
  moreover have "turn_stop ?evs t = None \<longleftrightarrow> turn_stop evs t = None \<and> t \<noteq> ?t" if "t \<in> set (requested_turns evs)" for t
    using that by (auto simp: turn_stop_snoc split: option.split)
  moreover have "spend_ok (spend_settled ?t st)" using assms by (intro spend_settled_ok) (simp add: clock_mid_def)
  ultimately show "clock_ok ?evs (spend_settled ?t st)" using assms by (auto simp: clock_mid_def clock_ok_def spend_settled_def)
qed

lemma spend_event_other:
  "spend_event now st e = Inr st' \<Longrightarrow> (\<And>t. \<not> requests_turn t e) \<Longrightarrow> (\<And>t. \<not> settles_turn t e) \<Longrightarrow>
     ss_timeSpend st' = ss_timeSpend st \<and> ss_timers st' = ss_timers st \<and> ss_turns st' = ss_turns st"
  by (cases e) (auto simp: spend_model_called_def spend_model_returned_def spend_tool_def spend_model_failed_def
      split: option.splits if_splits)

lemma clock_step:
  assumes "clock_ok evs st"
  shows "\<exists>st'. reduceSpend (Some now) st e = Inr st' \<and> clock_ok (evs @ [(now, e)]) st'"
proof -
  define mid where "mid = st\<lparr>ss_timeSpend := tick_list (int now) (ss_timers st) (ss_timeSpend st)\<rparr>"
  have ok: "spend_ok st" using assms by (simp add: clock_ok_def)
  have run: "reduceSpend (Some now) st e = spend_event (Some now) mid e"
    by (simp add: reduceSpend_def advance_timers_total [OF ok] mid_def)
  have mid: "clock_mid evs (evs @ [(now, e)]) mid" unfolding mid_def by (rule clock_mid_tick [OF assms])
  then have "spend_ok mid" by (simp add: clock_mid_def)
  then obtain st' where st': "spend_event (Some now) mid e = Inr st'" "spend_ok st'" using spend_event_total by blast
  show ?thesis
  proof (cases "(\<forall>t. \<not> requests_turn t e) \<and> (\<forall>t. \<not> settles_turn t e)")
    case True
    with spend_event_other [OF st'(1)] clock_other [OF mid _ _ st'(2)] st'(1) run show ?thesis by simp
  next
    case False
    then show ?thesis using run mid clock_requested clock_settled by (cases e) simp_all
  qed
qed

lemma clock_initial: "clock_ok [] initialSpend"
  by (simp add: clock_ok_def) (simp add: initialSpend_def)

lemma clock_replay: "\<exists>st. replay_spend evs initialSpend = Inr st \<and> clock_ok evs st"
proof (induction evs rule: rev_induct)
  case (snoc x evs)
  then obtain st where st: "replay_spend evs initialSpend = Inr st" "clock_ok evs st" by blast
  obtain now e where x: "x = (now, e)" by (cases x)
  from clock_step [OF st(2)] obtain st' where "reduceSpend (Some now) st e = Inr st'" "clock_ok (evs @ [(now, e)]) st'" by blast
  with st(1) x show ?case by (simp add: replay_spend_def fold_try_append)
qed (simp add: replay_spend_def clock_initial)

end
