(* ===== verification/Governance.thy ===== *)
theory Governance
  imports AgentState Inference
begin

text \<open>
  How an agent's tool calls are governed: the permission component
  (\<open>packages/agent/src/atoms/permission-request.ts\<close>), the tool budget (\<open>atoms/budget-request.ts\<close>), the
  tools with their two wrappers (\<open>atoms/tools.ts\<close>), the library selection (\<open>contracts/libraries.ts\<close>) and
  the request cache (\<open>contracts/acts.ts\<close>). A component is a function of the states it reads; \<open>events\<close>
  and \<open>acts\<close> are objects, association lists in insertion order. A tool specification is reduced to its
  name and its hints. A request handle is the data it is created from, and its callbacks are functions
  of that data.
\<close>

section \<open>Requests and libraries\<close>

text \<open>\<open>requests\<close> keeps the value created first under a key.\<close>

definition requests :: "bool \<Rightarrow> ('k \<times> 'v) list \<Rightarrow> 'k \<Rightarrow> 'v \<Rightarrow> 'v \<times> ('k \<times> 'v) list" where
  "requests latestOnly cache key created = (case map_of cache key of
     Some existing \<Rightarrow> (existing, cache)
   | None \<Rightarrow> (created, (if latestOnly then [] else cache) @ [(key, created)]))"

record tool_hints =
  th_readOnly :: "bool option"
  th_destructive :: "bool option"
  th_idempotent :: "bool option"
  th_openWorld :: "bool option"

record tool_spec =
  ts_name :: string
  ts_hints :: "tool_hints option"

record library_method =
  lm_method :: string
  lm_spec :: tool_spec
  lm_background :: bool

record library_contract =
  lc_name :: string
  lc_specs :: "library_method list"

definition find_library :: "library_contract list \<Rightarrow> string \<Rightarrow> runtime_error + library_contract" where
  "find_library configured name = (case find (\<lambda>l. lc_name l = name) configured of
     None \<Rightarrow> Inl (Error (''Library is not configured in host services: '' @ name))
   | Some l \<Rightarrow> Inr l)"

definition selectLibraries :: "string list \<Rightarrow> library_contract list \<Rightarrow> runtime_error + library_contract list" where
  "selectLibraries names configured =
     (if \<not> distinct names then Inl (Error ''Duplicate library name'') else map_try (find_library configured) names)"

text \<open>The behaviour hints of the code mode tool, and the libraries it refuses.\<close>

definition hint :: "(tool_hints \<Rightarrow> bool option) \<Rightarrow> library_method \<Rightarrow> bool option" where
  "hint h m = Option.bind (ts_hints (lm_spec m)) h"

definition code_mode_hints :: "library_method list \<Rightarrow> tool_hints" where
  "code_mode_hints methods = \<lparr>
     th_readOnly = Some (list_all (\<lambda>m. hint th_readOnly m = Some True) methods),
     th_destructive = Some (list_ex (\<lambda>m. hint th_readOnly m \<noteq> Some True \<and> hint th_destructive m \<noteq> Some False) methods),
     th_idempotent = Some (list_all (\<lambda>m. hint th_readOnly m = Some True \<or> hint th_idempotent m = Some True) methods),
     th_openWorld = Some (list_ex (\<lambda>m. hint th_openWorld m \<noteq> Some False) methods)\<rparr>"

definition code_library :: "library_contract \<Rightarrow> unit \<Rightarrow> runtime_error + unit" where
  "code_library l u =
     (if lc_name l \<in> {''console'', ''Date'', ''Math''} then Inl (Error (''Reserved code binding: '' @ lc_name l))
      else (case find lm_background (lc_specs l) of
         Some m \<Rightarrow> Inl (Error (''Code mode requires foreground methods: '' @ lc_name l @ ''.'' @ lm_method m))
       | None \<Rightarrow> Inr ()))"

definition codeModeSpec :: "library_contract list \<Rightarrow> runtime_error + tool_spec" where
  "codeModeSpec libraries = try_bind (fold_try code_library libraries ()) (\<lambda>_.
     Inr \<lparr>ts_name = ''execute'', ts_hints = Some (code_mode_hints (concat (map lc_specs libraries)))\<rparr>)"

section \<open>Acts\<close>

record tool_input =
  ti_call :: tool_call
  ti_counted :: bool
  ti_value :: "json option"
  ti_error :: "string option"

record tool_execution =
  tx_origin :: "nat option"
  tx_input :: tool_input
  tx_turnId :: "string option"

record permission_request =
  pq_origin :: "nat option"
  pq_action :: string
  pq_requestId :: string
  pq_resource :: string
  pq_input :: json
  pq_readOnly :: "bool option"

record budget_request =
  bq_origin :: "nat option"
  bq_callId :: string
  bq_amount :: nat
  bq_reason :: string
  bq_used :: nat
  bq_limit :: rat

datatype agent_act = ExecuteToolAct tool_execution | AskPermissionAct permission_request | AskBudgetAct budget_request

text \<open>The settlement of a request: a decoded value, or the reason of its rejection.\<close>

datatype 'a act_result = ActFulfilled 'a | ActRejected json

section \<open>Permissions\<close>

datatype permission_position = PermissionConfiguring | PermissionReady | PermissionChecking

record permissions_output =
  po_state :: permission_state
  po_position :: permission_position
  po_events :: "(string \<times> agent_event) list"
  po_acts :: "(string \<times> agent_act) list"

definition DEFAULT_PERMISSION_POLICY :: permission_policy where
  "DEFAULT_PERMISSION_POLICY = \<lparr>pp_default = Ask, pp_actions = []\<rparr>"

fun mode_text :: "permission_mode \<Rightarrow> string" where
  "mode_text Allow = ''allow''"
| "mode_text Deny = ''deny''"
| "mode_text Ask = ''ask''"

definition permission_mode_for :: "permission_policy \<Rightarrow> string \<Rightarrow> bool option \<Rightarrow> permission_mode" where
  "permission_mode_for policy resource readOnly = (let rule = map_of (pp_actions policy) ''tool.execute'' in
     case Option.bind rule (\<lambda>r. map_of (pm_resources r) resource) of
       Some mode \<Rightarrow> mode
     | None \<Rightarrow> (case (readOnly, Option.bind rule pm_readOnly) of
          (Some True, Some mode) \<Rightarrow> mode
        | _ \<Rightarrow> (case Option.bind rule pm_default of Some mode \<Rightarrow> mode | None \<Rightarrow> pp_default policy)))"

definition read_only_hint :: "tool_spec list \<Rightarrow> string \<Rightarrow> bool option" where
  "read_only_hint specs name = Option.bind (Option.bind (find (\<lambda>s. ts_name s = name) specs) ts_hints) th_readOnly"

definition permission_key :: "tool_call \<Rightarrow> string \<times> string" where
  "permission_key call = (''tool.execute'', tk_callId call)"

definition permissions :: "permission_policy option \<Rightarrow> tool_spec list option \<Rightarrow> ((string \<times> string) \<times> permission_request) list \<Rightarrow>
    permission_state \<Rightarrow> tool_state \<Rightarrow> permissions_output" where
  "permissions configured tools cache st pending =
     (let out = (\<lambda>pos events acts. \<lparr>po_state = st, po_position = pos, po_events = events, po_acts = acts\<rparr>) in
      case pz_policy st of
        None \<Rightarrow> out PermissionConfiguring
          [(''permission'', PermissionConfigured (case configured of None \<Rightarrow> DEFAULT_PERMISSION_POLICY | Some p \<Rightarrow> p))] []
      | Some policy \<Rightarrow> (case to_pending pending of
          None \<Rightarrow> out PermissionReady [] []
        | Some call \<Rightarrow>
            if list_ex (\<lambda>d. pd_action d = ''tool.execute'' \<and> pd_requestId d = tk_callId call) (pz_decisions st)
            then out PermissionReady [] []
            else let readOnly = Option.bind tools (\<lambda>specs. read_only_hint specs (tk_name call));
                     mode = permission_mode_for policy (tk_name call) readOnly in
              if mode \<noteq> Ask
              then out PermissionChecking [(''permission'', PermissionResolved ''tool.execute'' (tk_callId call)
                     \<lparr>dc_allowed = (mode = Allow), dc_reason = ''Permission policy: '' @ mode_text mode\<rparr>)] []
              else out PermissionChecking [] [(''permission'', AskPermissionAct (fst (requests False cache (permission_key call)
                     \<lparr>pq_origin = to_origin pending, pq_action = ''tool.execute'', pq_requestId = tk_callId call,
                      pq_resource = tk_name call, pq_input = tk_input call, pq_readOnly = readOnly\<rparr>)))]))"

definition permission_settled :: "permission_request \<Rightarrow> decision act_result \<Rightarrow> agent_event list" where
  "permission_settled r result = [PermissionResolved ''tool.execute'' (pq_requestId r) (case result of
     ActFulfilled d \<Rightarrow> d
   | ActRejected reason \<Rightarrow> \<lparr>dc_allowed = False, dc_reason = ''Permission request failed: '' @ failureMessage reason\<rparr>)]"

section \<open>Tool budget\<close>

datatype budget_response = DecidedResponse budget_decision | ErrorResponse string

record budget_view =
  bv_requestTool :: "string option"
  bv_exhausted :: bool
  bv_configured :: bool
  bv_used :: nat
  bv_limit :: rat
  bv_remaining :: rat
  bv_decision :: "decision option"
  bv_request :: "(string \<times> string) option"
  bv_response :: "budget_response option"

record budget_output =
  bo_view :: budget_view
  bo_events :: "(string \<times> agent_event) list"
  bo_acts :: "(string \<times> agent_act) list"

text \<open>\<open>ToolBudgetRequestInput\<close> (\<open>contracts/budget.ts\<close>) decoded with excess properties refused.\<close>

fun decode_amount :: "json \<Rightarrow> nat option" where
  "decode_amount (JInt n) = (if 1 \<le> n \<and> n \<le> max_safe_integer then Some (nat n) else None)"
| "decode_amount _ = None"

fun decode_budget_input :: "json \<Rightarrow> (nat \<times> string) option" where
  "decode_budget_input (JObj m) =
     (if fset (fmdom m) \<subseteq> {''amount'', ''reason''}
      then Option.bind (required_key m ''amount'' decode_amount) (\<lambda>amount.
           Option.bind (required_key m ''reason'' decode_nonempty) (\<lambda>reason. Some (amount, reason)))
      else None)"
| "decode_budget_input _ = None"

definition spend_used :: "string option \<Rightarrow> tool_spend list \<Rightarrow> nat" where
  "spend_used turnId spend = (case turnId of
     None \<Rightarrow> 0
   | Some t \<Rightarrow> (case find (\<lambda>s. sp_turnId s = t) spend of None \<Rightarrow> 0 | Some s \<Rightarrow> sp_count s))"

definition amount_text :: "rat \<Rightarrow> string" where
  "amount_text x = int_text \<lfloor>x\<rfloor>"

definition exhausted_reason :: "nat \<Rightarrow> rat \<Rightarrow> string" where
  "exhausted_reason used limit = ''Tool budget exhausted: '' @ nat_text used @ ''/'' @ amount_text limit @ '' calls''"

text \<open>
  \<open>initial_budget\<close> is the policy of the options; without \<open>maxCalls\<close> (\<open>None\<close>) the component configures
  nothing. \<open>schema_error\<close> renders the issue of an input that does not decode.
\<close>

definition initial_budget :: "(int \<times> string option) option \<Rightarrow> runtime_error + budget_policy option" where
  "initial_budget options = (case options of
     None \<Rightarrow> Inr None
   | Some (maxCalls, requestTool) \<Rightarrow>
       if \<not> safe_integer maxCalls \<or> maxCalls < 0 then Inl (Error ''maxCalls must be a nonnegative safe integer'')
       else Inr (Some \<lparr>bp_limit = of_int maxCalls, bp_requestTool = (if requestTool = Some [] then None else requestTool),
                       bp_onExhausted = None\<rparr>))"

definition base_view :: "budget_policy \<Rightarrow> nat \<Rightarrow> rat \<Rightarrow> budget_view" where
  "base_view policy used limit = (let remaining = max 0 (limit - of_nat used) in
     \<lparr>bv_requestTool = bp_requestTool policy, bv_exhausted = (remaining = 0 \<and> bp_onExhausted policy = Some DenyExhausted),
      bv_configured = True, bv_used = used, bv_limit = limit, bv_remaining = remaining,
      bv_decision = None, bv_request = None, bv_response = None\<rparr>)"

definition request_tool_output :: "(json \<Rightarrow> string) \<Rightarrow> (string \<times> budget_request) list \<Rightarrow> tool_state \<Rightarrow> budget_view \<Rightarrow>
    budget_decision option \<Rightarrow> tool_call \<Rightarrow> budget_output" where
  "request_tool_output schema_error cache tools base resolution call =
     (let out = (\<lambda>view acts. \<lparr>bo_view = view, bo_events = [], bo_acts = acts\<rparr>) in
      case resolution of
        Some d \<Rightarrow> out (base\<lparr>bv_response := Some (DecidedResponse d)\<rparr>) []
      | None \<Rightarrow>
          if bv_remaining base > 0 then out (base\<lparr>bv_response := Some (ErrorResponse ''Tool budget is not exhausted'')\<rparr>) []
          else (case decode_budget_input (tk_input call) of
             None \<Rightarrow> out (base\<lparr>bv_response := Some (ErrorResponse (schema_error (tk_input call)))\<rparr>) []
           | Some (amount, reason) \<Rightarrow>
               out (base\<lparr>bv_request := Some (tk_callId call, ''Waiting for budget decision'')\<rparr>)
                 [(''budget'', AskBudgetAct (fst (requests False cache (tk_callId call)
                   \<lparr>bq_origin = to_origin tools, bq_callId = tk_callId call, bq_amount = amount, bq_reason = reason,
                    bq_used = bv_used base, bq_limit = bv_limit base\<rparr>)))]))"

definition toolBudget :: "(json \<Rightarrow> string) \<Rightarrow> budget_policy option \<Rightarrow> (string \<times> budget_request) list \<Rightarrow> tool_state \<Rightarrow>
    budget_entry list \<Rightarrow> tool_spend list \<Rightarrow> runtime_error + budget_output" where
  "toolBudget schema_error initial cache tools budgets spend =
     (let st = find_budget ''toolCalls'' budgets; used = spend_used (Option.bind st be_turnId) spend in
      case st of
        None \<Rightarrow> Inr \<lparr>bo_view = \<lparr>bv_requestTool = None, bv_exhausted = False, bv_configured = False, bv_used = used, bv_limit = 0,
            bv_remaining = 0, bv_decision = None, bv_request = None, bv_response = None\<rparr>,
          bo_events = (case initial of None \<Rightarrow> [] | Some p \<Rightarrow> [(''budget'', BudgetConfigured ''toolCalls'' p)]), bo_acts = []\<rparr>
      | Some entry \<Rightarrow>
         (let policy = be_policy entry; limit = bp_limit policy + be_granted entry; base = base_view policy used limit;
              resolution = Option.bind (to_pending tools) (\<lambda>call.
                map_option br_decision (find (\<lambda>r. br_callId r = tk_callId call) (be_decisions entry)));
              decided = (\<lambda>d. Inr \<lparr>bo_view = base\<lparr>bv_decision := Some d\<rparr>, bo_events = [], bo_acts = []\<rparr>) in
          if \<not> safe_amount limit then Inl (Error ''Tool budget exceeds safe integer range'')
          else (case to_pending tools of
             Some call \<Rightarrow>
               if Some (tk_name call) = bp_requestTool policy
               then Inr (request_tool_output schema_error cache tools base resolution call)
               else (case resolution of
                  Some (Refused reason) \<Rightarrow> decided \<lparr>dc_allowed = False, dc_reason = reason\<rparr>
                | _ \<Rightarrow>
                    if bv_exhausted base then decided \<lparr>dc_allowed = False, dc_reason = exhausted_reason used limit\<rparr>
                    else if to_running tools \<or> bv_remaining base > 0
                    then decided \<lparr>dc_allowed = True, dc_reason = ''Tool budget available''\<rparr>
                    else Inr \<lparr>bo_view = base\<lparr>bv_request := Some (tk_callId call, exhausted_reason used limit)\<rparr>, bo_events = [], bo_acts = []\<rparr>)
           | None \<Rightarrow>
               if bv_exhausted base then decided \<lparr>dc_allowed = False, dc_reason = exhausted_reason used limit\<rparr>
               else decided \<lparr>dc_allowed = True, dc_reason = ''Tool budget available''\<rparr>)))"

definition budget_settled :: "budget_request \<Rightarrow> budget_decision act_result \<Rightarrow> agent_event list" where
  "budget_settled r result = (let d = (case result of
       ActFulfilled d \<Rightarrow> d
     | ActRejected reason \<Rightarrow> Refused (''Budget request failed: '' @ failureMessage reason)) in
     case d of
       Granted additional \<Rightarrow>
         if \<not> safe_amount (bq_limit r + additional)
         then [BudgetResolved ''toolCalls'' (bq_callId r) (Refused ''Total tool budget exceeds safe integer range'')]
         else [BudgetResolved ''toolCalls'' (bq_callId r) d]
     | Refused _ \<Rightarrow> [BudgetResolved ''toolCalls'' (bq_callId r) d])"

definition budgetInstructions :: "budget_view \<Rightarrow> string" where
  "budgetInstructions view =
     (if \<not> bv_configured view then []
      else ''Tool calls remaining: '' @ amount_text (bv_remaining view) @ ''/'' @ amount_text (bv_limit view) @ ''.'' @
        (if bv_remaining view > 0 then []
         else if bv_exhausted view then '' Answer without tools.''
         else (case bv_requestTool view of
            Some tool \<Rightarrow> '' Request additional calls with '' @ tool @ ''.''
          | None \<Rightarrow> '' Further tool execution is waiting for additional budget.'')))"

section \<open>Tools and their wrappers\<close>

datatype tool_plan =
    PlanWaiting string
  | PlanBlocked string
  | PlanReady bool "json option" "string option"

record tools_output =
  tv_events :: "(string \<times> agent_event) list"
  tv_acts :: "(string \<times> agent_act) list"
  tv_specs :: "tool_spec list"
  tv_prepare :: "tool_call \<Rightarrow> tool_plan"

fun counted_plan :: "tool_plan \<Rightarrow> bool" where
  "counted_plan (PlanReady counted _ _) = counted"
| "counted_plan _ = False"

type_synonym execution_cache = "((string \<times> tool_input) \<times> tool_execution) list"

definition toolValue :: "execution_cache \<Rightarrow> tool_state \<Rightarrow> tools_output \<Rightarrow> tools_output" where
  "toolValue cache st tools =
     (let acts = filter (\<lambda>(k, _). k \<noteq> ''execution'') (tv_acts tools) in
      case to_pending st of
        None \<Rightarrow> tools\<lparr>tv_acts := acts\<rparr>
      | Some call \<Rightarrow>
          if to_running st then tools\<lparr>tv_acts := acts\<rparr>
          else (case tv_prepare tools call of
             PlanReady counted val err \<Rightarrow>
               (let input = \<lparr>ti_call = call, ti_counted = counted, ti_value = val, ti_error = err\<rparr>;
                    turnId = Option.bind (find (\<lambda>q. tk_callId (qt_call q) = tk_callId call) (to_queue st)) qt_turnId in
                tools\<lparr>tv_acts := js_set ''execution'' (ExecuteToolAct (fst (requests False cache (tk_callId call, input)
                  \<lparr>tx_origin = to_origin st, tx_input = input, tx_turnId = turnId\<rparr>))) acts\<rparr>)
           | _ \<Rightarrow> tools\<lparr>tv_acts := acts\<rparr>))"

definition tool_names :: "library_contract list \<Rightarrow> string list" where
  "tool_names libraries = concat (map (\<lambda>l. concat (map (\<lambda>m. [ts_name (lm_spec m), lc_name l @ ''__'' @ lm_method m]) (lc_specs l))) libraries)"

text \<open>
  \<open>tools_for\<close> is the constructor \<open>tools\<close>: the specs offered and the names known, either those of the
  selected libraries or the whole catalog.
\<close>

definition tools_for :: "library_contract list option \<Rightarrow> tool_spec list \<Rightarrow> string list \<Rightarrow> tool_spec list \<times> string list" where
  "tools_for libraries catalog_specs catalog_names = (case libraries of
     None \<Rightarrow> (catalog_specs, catalog_names)
   | Some ls \<Rightarrow> (filter (\<lambda>s. ts_name s \<in> set (concat (map (\<lambda>l. map (\<lambda>m. ts_name (lm_spec m)) (lc_specs l)) ls))) catalog_specs, tool_names ls))"

definition prepare_tool :: "string list \<Rightarrow> tool_call \<Rightarrow> tool_plan" where
  "prepare_tool names call =
     (if tk_name call \<in> set names then PlanReady True None None
      else PlanReady False None (Some (''Unknown tool: '' @ tk_name call)))"

definition tools :: "execution_cache \<Rightarrow> tool_spec list \<Rightarrow> string list \<Rightarrow> (string \<times> agent_event) list \<Rightarrow> tool_state \<Rightarrow> tools_output" where
  "tools cache specs names promises st =
     toolValue cache st \<lparr>tv_events = promises, tv_acts = [], tv_specs = specs, tv_prepare = prepare_tool names\<rparr>"

definition permitted :: "permission_state \<Rightarrow> (tool_call \<Rightarrow> tool_plan) \<Rightarrow> tool_call \<Rightarrow> tool_plan" where
  "permitted ps prepare call = (let plan = prepare call in
     if \<not> counted_plan plan then plan
     else (case latest_decision ''tool.execute'' (tk_callId call) (pz_decisions ps) of
        None \<Rightarrow> PlanWaiting ''Waiting for tool permission''
      | Some d \<Rightarrow> if dc_allowed d then plan else PlanReady False None (Some (dc_reason d))))"

definition withPermissions :: "execution_cache \<Rightarrow> tool_state \<Rightarrow> permissions_output \<Rightarrow> tools_output \<Rightarrow> tools_output" where
  "withPermissions cache st permission inner =
     toolValue cache st \<lparr>tv_events = spread (tv_events inner) (po_events permission),
       tv_acts = spread (tv_acts inner) (po_acts permission), tv_specs = tv_specs inner,
       tv_prepare = permitted (po_state permission) (tv_prepare inner)\<rparr>"

fun decision_json :: "budget_decision \<Rightarrow> json" where
  "decision_json (Granted additional) = JObj (fmap_of_list [(''allowed'', JBool True), (''additional'', JInt \<lfloor>additional\<rfloor>)])"
| "decision_json (Refused reason) = JObj (fmap_of_list [(''allowed'', JBool False), (''reason'', JStr reason)])"

definition budgeted :: "budget_view \<Rightarrow> string list \<Rightarrow> (tool_call \<Rightarrow> tool_plan) \<Rightarrow> tool_call \<Rightarrow> tool_plan" where
  "budgeted allowance exempt prepare call = (let plan = prepare call in
     if \<not> counted_plan plan then plan
     else if Some (tk_name call) = bv_requestTool allowance
     then (case bv_response allowance of
        None \<Rightarrow> PlanWaiting ''Waiting for budget decision''
      | Some (ErrorResponse e) \<Rightarrow> PlanReady False None (Some e)
      | Some (DecidedResponse d) \<Rightarrow> PlanReady False (Some (decision_json d)) None)
     else if bv_requestTool allowance \<noteq> None \<and> bv_remaining allowance = 0
     then PlanReady False None (Some (''Tool budget exhausted. Only '' @ the (bv_requestTool allowance) @ '' is available.''))
     else if tk_name call \<in> set exempt
     then (case plan of PlanReady _ val err \<Rightarrow> PlanReady False val err | _ \<Rightarrow> plan)
     else (case bv_decision allowance of
        None \<Rightarrow> PlanBlocked (case bv_request allowance of Some (_, reason) \<Rightarrow> reason | None \<Rightarrow> ''Waiting for tool budget'')
      | Some d \<Rightarrow> if dc_allowed d then plan else PlanReady False None (Some (dc_reason d))))"

definition offered_specs :: "budget_view \<Rightarrow> tool_spec list \<Rightarrow> tool_spec list" where
  "offered_specs allowance specs =
     (if bv_exhausted allowance then []
      else (case bv_requestTool allowance of
         Some tool \<Rightarrow> if bv_remaining allowance = 0 then filter (\<lambda>s. ts_name s = tool) specs else specs
       | None \<Rightarrow> specs))"

definition withBudget :: "execution_cache \<Rightarrow> tool_state \<Rightarrow> budget_output \<Rightarrow> string list \<Rightarrow> tools_output \<Rightarrow> tools_output" where
  "withBudget cache st budget exempt inner =
     (let allowance = bo_view budget in
      if \<not> bv_configured allowance
      then inner\<lparr>tv_events := spread (tv_events inner) (bo_events budget), tv_acts := spread (tv_acts inner) (bo_acts budget)\<rparr>
      else let authorized = (case to_pending st of None \<Rightarrow> False | Some call \<Rightarrow> counted_plan (tv_prepare inner call)) in
        toolValue cache st \<lparr>tv_events = spread (tv_events inner) (if authorized then bo_events budget else []),
          tv_acts = spread (tv_acts inner) (if authorized then bo_acts budget else []),
          tv_specs = offered_specs allowance (tv_specs inner),
          tv_prepare = budgeted allowance exempt (tv_prepare inner)\<rparr>)"

text \<open>The constraint \<open>withBudget\<close> puts on the events of its input.\<close>

fun budget_validate :: "budget_view \<Rightarrow> agent_event \<Rightarrow> runtime_error + unit" where
  "budget_validate allowance (BudgetResolved metric callId _) =
     check (\<not> (bv_configured allowance \<and> metric = ''toolCalls'' \<and> map_option fst (bv_request allowance) \<noteq> Some callId))
       (Error ''No matching pending budget request'')"
| "budget_validate allowance _ = Inr ()"

section \<open>Callbacks of an execution\<close>

definition owner_tool :: "tool_call \<Rightarrow> (string \<times> string) option" where
  "owner_tool call = Some (tk_name call, tk_providerId call)"

text \<open>
  \<open>toolReturnedOutput\<close>: \<open>stored\<close> reads the content of a stored tool result, \<open>None\<close> when the value is
  not one.
\<close>

definition toolReturnedOutput :: "(json \<Rightarrow> content_part list option) \<Rightarrow> json \<Rightarrow> content_part list" where
  "toolReturnedOutput stored val = (case stored val of Some content \<Rightarrow> content | None \<Rightarrow> [TextPart (canonicalInput val)])"

definition execution_requested :: "tool_execution \<Rightarrow> agent_event list" where
  "execution_requested x = [ToolCalled \<lparr>tc_callId = tk_callId (ti_call (tx_input x)), tc_codeMode = None, tc_counted = ti_counted (tx_input x)\<rparr>]"

definition promise_json :: "effect_ref \<Rightarrow> execution_handle \<Rightarrow> json" where
  "promise_json ref handle = JObj (fmap_of_list [(''type'', JStr ''promise''),
     (''ref'', JObj (fmap_of_list [(''seq'', JInt (int (ref_seq ref))), (''atom'', JStr (ref_atom ref)), (''act'', JStr (ref_act ref))])),
     (''handle'', encode_handle handle)])"

definition execution_deferred :: "(json \<Rightarrow> content_part list option) \<Rightarrow> tool_execution \<Rightarrow> execution_handle \<Rightarrow> effect_ref \<Rightarrow> agent_event list" where
  "execution_deferred stored x handle ref = [ToolReturned \<lparr>tr_callId = tk_callId (ti_call (tx_input x)),
     tr_tool = owner_tool (ti_call (tx_input x)), tr_turnId = tx_turnId x, tr_content = toolReturnedOutput stored (promise_json ref handle),
     tr_error = None, tr_promise = Some (ref, handle)\<rparr>]"

definition execution_settled :: "(json \<Rightarrow> content_part list option) \<Rightarrow> tool_execution \<Rightarrow> json act_result \<Rightarrow> execution_handle option \<Rightarrow> agent_event list" where
  "execution_settled stored x result handle = (if handle \<noteq> None then [] else
     [ToolReturned \<lparr>tr_callId = tk_callId (ti_call (tx_input x)), tr_tool = owner_tool (ti_call (tx_input x)), tr_turnId = tx_turnId x,
       tr_content = (case result of ActFulfilled v \<Rightarrow> toolReturnedOutput stored v | ActRejected _ \<Rightarrow> []),
       tr_error = (case result of ActFulfilled _ \<Rightarrow> None | ActRejected reason \<Rightarrow> Some (failureMessage reason)),
       tr_promise = None\<rparr>])"

end
