(* ===== verification/ToolProperties.thy ===== *)
theory ToolProperties
  imports Governance
begin

text \<open>
  Properties of an agent's tool calls: the queue of pending calls, the decisions and the budget that
  gate their execution, and the measured time of turns.
\<close>

section \<open>Lemmas\<close>

text \<open>A cached execution was created for the input of its key.\<close>

definition execution_cache_ok :: "execution_cache \<Rightarrow> bool" where
  "execution_cache_ok cache \<longleftrightarrow> list_all (\<lambda>((callId, input), x). tx_input x = input) cache"

lemma cached_input:
  assumes "execution_cache_ok cache" "tx_input x = input"
  shows "tx_input (fst (requests b cache (callId, input) x)) = input"
  using assms by (fastforce simp: requests_def execution_cache_ok_def list_all_iff dest: map_of_SomeD split: option.split)

lemma requests_cache_ok:
  "execution_cache_ok cache \<Longrightarrow> tx_input x = input \<Longrightarrow> execution_cache_ok (snd (requests b cache (callId, input) x))"
  by (simp add: requests_def execution_cache_ok_def split: option.split)

lemma map_of_filter_key: "map_of (filter (\<lambda>(k, _). k \<noteq> key) xs) key = None"
  by (auto simp: map_of_eq_None_iff)

lemma governed_execution:
  assumes "execution_cache_ok cache" "map_of (tv_acts (toolValue cache st out)) ''execution'' = Some (ExecuteToolAct x)"
  shows "to_pending st = Some (ti_call (tx_input x)) \<and> \<not> to_running st \<and>
    tv_prepare out (ti_call (tx_input x)) = PlanReady (ti_counted (tx_input x)) (ti_value (tx_input x)) (ti_error (tx_input x))"
proof (cases "to_pending st")
  case None
  with assms(2) show ?thesis by (simp add: toolValue_def map_of_filter_key)
next
  case (Some call)
  show ?thesis
  proof (cases "to_running st")
    case True
    with assms(2) Some show ?thesis by (simp add: toolValue_def map_of_filter_key)
  next
    case False
    show ?thesis
    proof (cases "tv_prepare out call")
      case (PlanReady counted val err)
      let ?input = "\<lparr>ti_call = call, ti_counted = counted, ti_value = val, ti_error = err\<rparr>"
      from assms(2) Some False PlanReady have "tx_input x = ?input"
        using cached_input [OF assms(1), of _ ?input False "tk_callId call"] by (auto simp: toolValue_def Let_def)
      with Some False PlanReady show ?thesis by simp
    qed (use assms(2) Some False in \<open>simp_all add: toolValue_def map_of_filter_key\<close>)
  qed
qed

lemma budgeted_counted:
  assumes "counted_plan (budgeted allowance exempt prepare call)"
  shows "counted_plan (prepare call) \<and> (\<exists>d. bv_decision allowance = Some d \<and> dc_allowed d)"
  using assms by (auto simp: budgeted_def Let_def split: if_splits option.splits budget_response.splits tool_plan.splits)

lemma permitted_counted:
  assumes "counted_plan (permitted ps prepare call)"
  shows "counted_plan (prepare call) \<and> (\<exists>d. latest_decision ''tool.execute'' (tk_callId call) (pz_decisions ps) = Some d \<and> dc_allowed d)"
  using assms by (auto simp: permitted_def Let_def split: if_splits option.splits)

lemma permissions_state [simp]: "po_state (permissions configured specs cache st queue) = st"
  by (simp add: permissions_def Let_def split: option.split)

lemma toolValue_prepare [simp]: "tv_prepare (toolValue cache st out) = tv_prepare out"
  by (simp add: toolValue_def Let_def split: option.split tool_plan.split)

text \<open>When the budget lets a waiting call through, the calls counted so far are below the limit.\<close>

lemma request_tool_undecided: "bv_decision base = None \<Longrightarrow>
    bv_decision (bo_view (request_tool_output schema_error cache queue base resolution call)) = None"
  by (simp add: request_tool_output_def Let_def split: option.split)

lemma base_view_sel [simp]:
  "bv_decision (base_view p u l) = None" "bv_remaining (base_view p u l) = max 0 (l - of_nat u)" "bv_configured (base_view p u l)"
  "bv_limit (base_view p u l) = l" "bv_used (base_view p u l) = u" "bv_requestTool (base_view p u l) = bp_requestTool p"
  by (simp_all add: base_view_def Let_def)

lemma budget_allows:
  assumes "toolBudget schema_error initial cache queue budgets spend = Inr out" "bv_configured (bo_view out)"
    "bv_decision (bo_view out) = Some d" "dc_allowed d" "to_pending queue = Some call" "\<not> to_running queue"
  obtains entry where "find_budget ''toolCalls'' budgets = Some entry" "safe_amount (bp_limit (be_policy entry) + be_granted entry)"
    "of_nat (spend_used (be_turnId entry) spend) < bp_limit (be_policy entry) + be_granted entry"
proof (cases "find_budget ''toolCalls'' budgets")
  case None
  with assms(1,2) show ?thesis by (auto simp: toolBudget_def Let_def)
next
  case (Some entry)
  have safe: "safe_amount (bp_limit (be_policy entry) + be_granted entry)"
    using assms(1) Some by (auto simp: toolBudget_def Let_def split: if_splits)
  have "of_nat (spend_used (be_turnId entry) spend) < bp_limit (be_policy entry) + be_granted entry"
    using assms Some safe
    by (auto simp: toolBudget_def Let_def request_tool_undecided max_def split: if_splits option.splits budget_decision.splits)
  with that Some safe show ?thesis by blast
qed
lemma find_count_tool: "find (\<lambda>s. sp_turnId s = t) (count_tool u xs) =
    map_option (\<lambda>s. if sp_turnId s = u then s\<lparr>sp_count := sp_count s + 1\<rparr> else s) (find (\<lambda>s. sp_turnId s = t) xs)"
  by (induction xs) (simp_all add: count_tool_def)

lemma spend_used_count: "spend_used t (count_tool u xs) \<le> spend_used t xs + 1"
  by (simp add: spend_used_def find_count_tool split: option.split)

lemma spend_used_tool: "spend_used t (ss_toolSpend (spend_tool c counted st)) \<le> spend_used t (ss_toolSpend st) + 1"
  using spend_used_count by (simp add: spend_tool_def split: option.split)

lemma advance_keeps_tools: "advance_timers now st = Inr st' \<Longrightarrow> ss_toolSpend st' = ss_toolSpend st"
  by (auto simp: advance_timers_def split: option.splits)

lemma below_whole: "safe_amount x \<Longrightarrow> of_nat n < x \<Longrightarrow> m \<le> n + 1 \<Longrightarrow> of_nat m \<le> x"
proof -
  assume *: "safe_amount x" "of_nat n < x" "m \<le> n + 1"
  then have "x = of_int \<lfloor>x\<rfloor>" by (metis safe_amount_def)
  with *(2) have "int n < \<lfloor>x\<rfloor>" by (metis of_int_less_iff of_int_of_nat_eq)
  with *(3) have "int m \<le> \<lfloor>x\<rfloor>" by simp
  then show "of_nat m \<le> x" by (metis le_floor_iff of_int_of_nat_eq)
qed

section \<open>Execution\<close>

definition governed_tools :: "execution_cache \<Rightarrow> tool_state \<Rightarrow> budget_output \<Rightarrow> string list \<Rightarrow> permissions_output \<Rightarrow> tools_output \<Rightarrow> tools_output" where
  "governed_tools cache queue budget exempt permission inner = withBudget cache queue budget exempt (withPermissions cache queue permission inner)"

lemma withPermissions_prepare [simp]:
  "tv_prepare (withPermissions cache queue permission inner) = permitted (po_state permission) (tv_prepare inner)"
  by (simp add: withPermissions_def)

text \<open>
  C10. A counted tool execution is proposed only for the call at the head of the queue while it is not
  running, once the latest decision on it allows it, and while the calls counted for the budget's turn
  are fewer than the limit with what was granted; recording the call, at any time and in any spend
  state with these counts, leaves the count within that limit.
\<close>

theorem counted_call_within_budget:
  assumes "execution_cache_ok cache"
    "toolBudget schema_error initial budget_cache queue budgets (ss_toolSpend spend) = Inr budget" "bv_configured (bo_view budget)"
    "map_of (tv_acts (governed_tools cache queue budget exempt permission inner)) ''execution'' = Some (ExecuteToolAct x)"
    "ti_counted (tx_input x)" "execution_requested x = [called]" "reduceSpend now spend called = Inr spend'"
  shows "\<exists>entry d. to_pending queue = Some (ti_call (tx_input x)) \<and> \<not> to_running queue \<and>
    latest_decision ''tool.execute'' (tk_callId (ti_call (tx_input x))) (pz_decisions (po_state permission)) = Some d \<and> dc_allowed d \<and>
    find_budget ''toolCalls'' budgets = Some entry \<and>
    of_nat (spend_used (be_turnId entry) (ss_toolSpend spend)) < bp_limit (be_policy entry) + be_granted entry \<and>
    of_nat (spend_used (be_turnId entry) (ss_toolSpend spend')) \<le> bp_limit (be_policy entry) + be_granted entry"
proof -
  let ?call = "ti_call (tx_input x)"
  from assms(3,4) obtain out where out: "map_of (tv_acts (toolValue cache queue out)) ''execution'' = Some (ExecuteToolAct x)"
    "tv_prepare out = budgeted (bo_view budget) exempt (permitted (po_state permission) (tv_prepare inner))"
    by (fastforce simp: governed_tools_def withBudget_def Let_def)
  note run = governed_execution [OF assms(1) out(1)]
  with out(2) assms(5) have "counted_plan (budgeted (bo_view budget) exempt (permitted (po_state permission) (tv_prepare inner)) ?call)" by simp
  then obtain d b where d: "latest_decision ''tool.execute'' (tk_callId ?call) (pz_decisions (po_state permission)) = Some d" "dc_allowed d"
    and b: "bv_decision (bo_view budget) = Some b" "dc_allowed b"
    by (metis budgeted_counted permitted_counted)
  from run obtain entry where entry: "find_budget ''toolCalls'' budgets = Some entry" "safe_amount (bp_limit (be_policy entry) + be_granted entry)"
    "of_nat (spend_used (be_turnId entry) (ss_toolSpend spend)) < bp_limit (be_policy entry) + be_granted entry"
    using budget_allows [OF assms(2,3) b] by blast
  have "spend_used (be_turnId entry) (ss_toolSpend spend') \<le> spend_used (be_turnId entry) (ss_toolSpend spend) + 1"
  proof -
    from assms(6,7) obtain mid where "advance_timers now spend = Inr mid"
      "spend' = spend_tool (tk_callId ?call) (ti_counted (tx_input x)) mid" by (auto simp: reduceSpend_def execution_requested_def)
    with spend_used_tool [of "be_turnId entry" "tk_callId ?call" "ti_counted (tx_input x)" mid] advance_keeps_tools show ?thesis by simp
  qed
  with below_whole [OF entry(2,3)] run d entry show ?thesis by blast
qed

section \<open>The queue\<close>

text \<open>
  After any log, the queue of tool calls holds, in the order of the model's replies, the calls no
  later event returned; the pending call is the first of them, it runs exactly when its entry does, and
  its origin is a position of the log.
\<close>

theorem tool_queue_fifo:
  "map qt_call (to_queue (replay_tools 0 evs initialTools)) = pending_calls evs \<and>
   to_pending (replay_tools 0 evs initialTools) = list_head (pending_calls evs) \<and>
   to_running (replay_tools 0 evs initialTools) = (case list_head (to_queue (replay_tools 0 evs initialTools)) of None \<Rightarrow> False | Some q \<Rightarrow> qt_running q) \<and>
   (to_pending (replay_tools 0 evs initialTools) = None \<or> (\<exists>p < length evs. to_origin (replay_tools 0 evs initialTools) = Some p))"
proof -
  let ?st = "replay_tools 0 evs initialTools"
  have queue: "map qt_call (to_queue ?st) = pending_calls evs"
    by (simp add: queue_is_pending) (simp add: initialTools_def)
  have ok: "tool_state_ok ?st" by (rule replay_tools_ok) simp
  then have "to_pending ?st = list_head (pending_calls evs)"
    unfolding queue [symmetric] by (simp add: tool_state_ok_def list_head_eq hd_map)
  moreover have "origin_set (0 + length evs) ?st" by (rule replay_tools_origin) (simp add: origin_set_def initialTools_def)
  ultimately show ?thesis using queue ok by (auto simp: tool_state_ok_def origin_set_def)
qed

section \<open>Budgets and time\<close>

text \<open>
  After any accepted log of valid events, each metric has one entry, what an entry grants is the sum
  of its resolutions, one per call, none negative, its limit with what is granted is a valid amount, and
  reading the tool budget does not fail.
\<close>

theorem budget_ledger:
  assumes "list_all agent_event_ok evs" "replay_budget evs = Inr st"
  shows "list_all budget_entry_ok st \<and> distinct (map be_metric st) \<and>
    (\<exists>out. toolBudget schema_error initial cache queue st spend = Inr out)"
proof -
  have ok: "budget_ok st" by (rule replay_budget_ok [OF assms])
  have "safe_amount (bp_limit (be_policy e) + be_granted e)" if "find_budget ''toolCalls'' st = Some e" for e
    using ok find_budget_metric [OF that] by (auto simp: budget_ok_def list_all_iff budget_entry_ok_def valid_amount_def)
  then have "\<exists>out. toolBudget schema_error initial cache queue st spend = Inr out"
    by (cases "find_budget ''toolCalls'' st")
       (auto simp: toolBudget_def Let_def split: option.split budget_decision.split)
  with ok show ?thesis by (simp add: budget_ok_def)
qed

text \<open>
  The reducer of spend accepts every log with recorded times, and its time list holds each requested
  turn once, in order, with the time from its request to its first later settlement, or to the last
  event while it is not settled.
\<close>

theorem turn_time_measured:
  "\<exists>st. replay_spend evs initialSpend = Inr st \<and>
     map (\<lambda>t. (sm_turnId t, sm_ms t)) (ss_timeSpend st) = map (\<lambda>t. (t, Some (turn_time evs t))) (requested_turns evs)"
  using clock_replay [of evs] by (auto simp: clock_ok_def)

section \<open>Permissions\<close>

fun permission_answer :: "permissions_output \<Rightarrow> decision act_result \<Rightarrow> agent_event list" where
  "permission_answer out result = (case (po_events out, po_acts out) of
     ([(_, e)], []) \<Rightarrow> [e]
   | ([], [(_, AskPermissionAct r)]) \<Rightarrow> permission_settled r result
   | _ \<Rightarrow> [])"

definition permission_cache_ok :: "((string \<times> string) \<times> permission_request) list \<Rightarrow> bool" where
  "permission_cache_ok cache \<longleftrightarrow> list_all (\<lambda>((_, callId), r). pq_requestId r = callId) cache"

definition undecided :: "permission_state \<Rightarrow> tool_call \<Rightarrow> bool" where
  "undecided st call \<longleftrightarrow> \<not> list_ex (\<lambda>d. pd_action d = ''tool.execute'' \<and> pd_requestId d = tk_callId call) (pz_decisions st)"

lemma cached_request:
  "permission_cache_ok cache \<Longrightarrow> pq_requestId r = callId \<Longrightarrow> pq_requestId (fst (requests b cache (a, callId) r)) = callId"
  by (fastforce simp: requests_def permission_cache_ok_def list_all_iff dest: map_of_SomeD split: option.split)

lemma permission_answered:
  assumes "permission_cache_ok cache" "pz_policy st = Some policy" "to_pending queue = Some call" "undecided st call"
  shows "\<exists>d. permission_answer (permissions configured specs cache st queue) result = [PermissionResolved ''tool.execute'' (tk_callId call) d]"
  using assms(2-4) cached_request [OF assms(1)]
  by (simp add: permissions_def undecided_def Let_def permission_key_def permission_settled_def)

lemma undecided_latest: "undecided st call \<Longrightarrow> latest_decision ''tool.execute'' (tk_callId call) (pz_decisions st) = None"
  by (auto simp: undecided_def latest_decision_def find_last_def find_None_iff list_ex_iff)

text \<open>
  For a pending call without a decision the permission component proposes exactly one thing, a
  decision by policy or a request for one; once the decision, or what the settlement of the request
  derives, is recorded, the call has that latest decision and nothing more is proposed for it.
\<close>

theorem permission_decided_once:
  assumes "permission_cache_ok cache" "pz_policy st = Some policy" "to_pending queue = Some call" "undecided st call"
  shows "\<exists>d st'. permission_answer (permissions configured specs cache st queue) result = [PermissionResolved ''tool.execute'' (tk_callId call) d] \<and>
    reducePermissions st (PermissionResolved ''tool.execute'' (tk_callId call) d) = Inr st' \<and>
    latest_decision ''tool.execute'' (tk_callId call) (pz_decisions st') = Some d \<and>
    po_position (permissions configured specs cache st' queue) = PermissionReady \<and>
    po_events (permissions configured specs cache st' queue) = [] \<and> po_acts (permissions configured specs cache st' queue) = []"
proof -
  obtain d where d: "permission_answer (permissions configured specs cache st queue) result = [PermissionResolved ''tool.execute'' (tk_callId call) d]"
    using permission_answered [OF assms] by blast
  define st' where "st' = st\<lparr>pz_decisions := pz_decisions st @ [\<lparr>pd_action = ''tool.execute'', pd_requestId = tk_callId call, pd_decision = d\<rparr>]\<rparr>"
  have step: "reducePermissions st (PermissionResolved ''tool.execute'' (tk_callId call) d) = Inr st'"
    using undecided_latest [OF assms(4)] by (simp add: st'_def)
  have "latest_decision ''tool.execute'' (tk_callId call) (pz_decisions st') = Some d"
    by (simp add: st'_def latest_decision_def)
  moreover have "permissions configured specs cache st' queue =
      \<lparr>po_state = st', po_position = PermissionReady, po_events = [], po_acts = []\<rparr>"
    using assms(2,3) by (simp add: permissions_def st'_def)
  ultimately show ?thesis using d step by (metis permissions_output.select_convs(2-4))
qed

section \<open>Witnesses\<close>

definition tool_demo_call :: tool_call where
  "tool_demo_call = \<lparr>tk_callId = ''c1'', tk_name = ''search'', tk_input = JNull, tk_providerId = ''p1''\<rparr>"

definition tool_demo_reply :: agent_event where
  "tool_demo_reply = InferenceReturned \<lparr>ir_turnId = Some ''t'', ir_callId = ''m'', ir_reasoning = None, ir_continuation = None,
     ir_text = [], ir_toolCalls = [tool_demo_call], ir_usage = None\<rparr>"

definition tool_demo_queue :: tool_state where
  "tool_demo_queue = replay_tools 0 [tool_demo_reply] initialTools"

definition tool_demo_budget :: "agent_event list" where
  "tool_demo_budget = [BudgetConfigured ''toolCalls'' \<lparr>bp_limit = 2, bp_requestTool = None, bp_onExhausted = None\<rparr>,
     InferenceCalled \<lparr>mc_model = \<lparr>ml_provider = ''a'', ml_model_id = ''b''\<rparr>, mc_contextWindowTokens = 100\<rparr> ''t'' ''m'']"

definition tool_demo_entries :: "budget_entry list" where
  "tool_demo_entries = [\<lparr>be_metric = ''toolCalls'', be_turnId = Some ''t'',
     be_policy = \<lparr>bp_limit = 2, bp_requestTool = None, bp_onExhausted = None\<rparr>, be_granted = 0, be_decisions = []\<rparr>]"

definition tool_demo_spend :: spend_state where
  "tool_demo_spend = initialSpend\<lparr>ss_toolSpend := [\<lparr>sp_turnId = ''t'', sp_count = 1\<rparr>], ss_tools := [\<lparr>sc_callId = ''c1'', sc_turnId = ''t''\<rparr>]\<rparr>"

definition tool_demo_permissions :: permission_state where
  "tool_demo_permissions = \<lparr>pz_policy = Some DEFAULT_PERMISSION_POLICY,
     pz_decisions = [\<lparr>pd_action = ''tool.execute'', pd_requestId = ''c1'', pd_decision = \<lparr>dc_allowed = True, dc_reason = ''yes''\<rparr>\<rparr>]\<rparr>"

definition tool_demo_allowance :: budget_output where
  "tool_demo_allowance = \<lparr>bo_view = (base_view \<lparr>bp_limit = 2, bp_requestTool = None, bp_onExhausted = None\<rparr> 1 2)
     \<lparr>bv_decision := Some \<lparr>dc_allowed = True, dc_reason = ''Tool budget available''\<rparr>\<rparr>, bo_events = [], bo_acts = []\<rparr>"

definition tool_demo_execution :: tool_execution where
  "tool_demo_execution = \<lparr>tx_origin = Some 0, tx_input = \<lparr>ti_call = tool_demo_call, ti_counted = True, ti_value = None, ti_error = None\<rparr>,
     tx_turnId = Some ''t''\<rparr>"

lemma tool_demo_queue_eq: "tool_demo_queue = \<lparr>to_queue = [\<lparr>qt_call = tool_demo_call, qt_turnId = Some ''t'', qt_running = False\<rparr>],
    to_turnId = Some ''t'', to_pending = Some tool_demo_call, to_origin = Some 0, to_running = False\<rparr>"
  by (simp add: tool_demo_queue_def toolState_def tool_demo_reply_def initialTools_def)

lemma tool_demo_used: "spend_used (Some ''t'') (ss_toolSpend tool_demo_spend) = 1"
  by (simp add: spend_used_def tool_demo_spend_def)

lemma tool_demo_allowed:
  "toolBudget (\<lambda>_. []) None [] tool_demo_queue tool_demo_entries (ss_toolSpend tool_demo_spend) = Inr tool_demo_allowance"
  using tool_demo_used
  by (simp add: toolBudget_def tool_demo_queue_eq tool_demo_entries_def find_budget_def tool_demo_allowance_def Let_def
      safe_amount_def safe_integer_def max_safe_integer_def tool_demo_call_def base_view_def)

lemma tool_demo_proposed: "map_of (tv_acts (governed_tools [] tool_demo_queue tool_demo_allowance []
    (permissions None None [] tool_demo_permissions tool_demo_queue) (tools [] [] [''search''] [] tool_demo_queue))) ''execution'' =
    Some (ExecuteToolAct tool_demo_execution)"
  by (simp add: governed_tools_def withBudget_def withPermissions_def tools_def tool_demo_allowance_def tool_demo_queue_eq toolValue_def Let_def
      budgeted_def permitted_def prepare_tool_def latest_decision_def tool_demo_permissions_def find_last_def tool_demo_call_def
      requests_def tool_demo_execution_def base_view_def permissions_def)

lemma tool_demo_recorded: "reduceSpend None tool_demo_spend (ToolCalled \<lparr>tc_callId = ''c1'', tc_codeMode = None, tc_counted = True\<rparr>) =
    Inr (tool_demo_spend\<lparr>ss_toolSpend := [\<lparr>sp_turnId = ''t'', sp_count = 2\<rparr>], ss_tools := []\<rparr>)"
  by (simp add: reduceSpend_def advance_timers_def tool_demo_spend_def initialSpend_def spend_tool_def find_call_def count_tool_def)

theorem counted_call_within_budget_witness:
  "\<exists>entry d. to_pending tool_demo_queue = Some tool_demo_call \<and> \<not> to_running tool_demo_queue \<and>
    latest_decision ''tool.execute'' ''c1'' (pz_decisions tool_demo_permissions) = Some d \<and> dc_allowed d \<and>
    find_budget ''toolCalls'' tool_demo_entries = Some entry \<and>
    of_nat (spend_used (be_turnId entry) (ss_toolSpend tool_demo_spend)) < bp_limit (be_policy entry) + be_granted entry \<and>
    of_nat (spend_used (be_turnId entry) [\<lparr>sp_turnId = ''t'', sp_count = 2\<rparr>]) \<le> bp_limit (be_policy entry) + be_granted entry"
  using counted_call_within_budget [OF _ tool_demo_allowed _ tool_demo_proposed _ _ tool_demo_recorded]
  by (simp add: execution_cache_ok_def tool_demo_allowance_def tool_demo_execution_def execution_requested_def tool_demo_call_def)

lemma tool_demo_replayed: "replay_budget tool_demo_budget = Inr tool_demo_entries"
  by (simp add: replay_budget_def tool_demo_budget_def tool_demo_entries_def find_budget_def validateBudgetAmount_def check_def
      valid_amount_def finite_amount_def safe_amount_def safe_integer_def max_safe_integer_def reset_entry_def)

theorem budget_ledger_witness: "list_all budget_entry_ok tool_demo_entries"
  using budget_ledger [OF _ tool_demo_replayed]
  by (simp add: tool_demo_budget_def budget_policy_ok_def model_configuration_ok_def model_ref_ok_def safe_integer_def max_safe_integer_def)

definition tool_demo_asking :: permission_state where
  "tool_demo_asking = \<lparr>pz_policy = Some DEFAULT_PERMISSION_POLICY, pz_decisions = []\<rparr>"

lemma tool_demo_asked:
  "permission_cache_ok []" "pz_policy tool_demo_asking = Some DEFAULT_PERMISSION_POLICY"
  "to_pending tool_demo_queue = Some tool_demo_call" "undecided tool_demo_asking tool_demo_call"
  by (simp_all add: permission_cache_ok_def tool_demo_asking_def tool_demo_queue_eq undecided_def)

theorem permission_decided_once_witness:
  "\<exists>d st'. permission_answer (permissions None None [] tool_demo_asking tool_demo_queue) (ActRejected JNull) =
      [PermissionResolved ''tool.execute'' (tk_callId tool_demo_call) d] \<and>
    reducePermissions tool_demo_asking (PermissionResolved ''tool.execute'' (tk_callId tool_demo_call) d) = Inr st' \<and>
    latest_decision ''tool.execute'' (tk_callId tool_demo_call) (pz_decisions st') = Some d \<and>
    po_position (permissions None None [] st' tool_demo_queue) = PermissionReady \<and>
    po_events (permissions None None [] st' tool_demo_queue) = [] \<and> po_acts (permissions None None [] st' tool_demo_queue) = []"
  by (rule permission_decided_once [OF tool_demo_asked])

end
