(* ===== verification/DurableAtoms.thy ===== *)
theory DurableAtoms
  imports Events
begin

text \<open>
  Durable atoms (\<open>packages/core/src/atoms/durable.ts\<close>), their families
  (\<open>experimental/durable-atom-family.ts\<close>) and the seeds they start from (\<open>initialise.ts\<close>,
  \<open>runtime/atom-replay.ts\<close>, \<open>services/checkpoint/schema/reference.ts\<close>). An atom keeps a frame, the state
  folded up to a position of a source, and brings it to the source's position: from its previous frame,
  from a state carried over a fork of the registry, from a checkpoint, or from the start of the journal.
  A codec decodes a stored state and validates it; how it does is a parameter. Sources have an identity,
  a number. Freezing, idle retention and the registry are not modelled.
\<close>

section \<open>Seeds\<close>

record atom_identity =
  ai_name :: string
  ai_family :: "string option"
  ai_version :: "string option"

text \<open>\<open>atomCheckpointKey\<close> is the JSON text of the three parts, \<open>null\<close> for an absent one.\<close>

definition nullable :: "string option \<Rightarrow> json" where
  "nullable v = (case v of None \<Rightarrow> JNull | Some s \<Rightarrow> JStr s)"

definition atomCheckpointKey :: "atom_identity \<Rightarrow> string" where
  "atomCheckpointKey i = canonicalInput (JArr [nullable (ai_family i), nullable (ai_version i), JStr (ai_name i)])"

record checkpoint_entry =
  ce_identity :: atom_identity
  ce_position :: "nat option"
  ce_state :: json

record state_seed =
  sd_position :: nat
  sd_state :: "(string \<times> json) list"
  sd_atoms :: "(string \<times> (json \<times> nat)) list"

text \<open>\<open>new Map(entries)\<close>: a later entry replaces the value of an earlier one with the same key.\<close>

definition map_from :: "('k \<times> 'v) list \<Rightarrow> ('k \<times> 'v) list" where
  "map_from entries = fold (\<lambda>(k, v) m. js_set k v m) entries []"

definition checkpointSeed :: "nat \<Rightarrow> checkpoint_entry list \<Rightarrow> state_seed" where
  "checkpointSeed position durable = \<lparr>sd_position = position,
     sd_state = map_from (map (\<lambda>e. (ai_name (ce_identity e), ce_state e)) (filter (\<lambda>e. ai_family (ce_identity e) = None) durable)),
     sd_atoms = map_from (map (\<lambda>e. (atomCheckpointKey (ce_identity e),
       (ce_state e, case ce_position e of None \<Rightarrow> position | Some p \<Rightarrow> p))) durable)\<rparr>"

fun is_created :: "journal_event \<Rightarrow> bool" where
  "is_created (Core (ThreadCreated _)) = True"
| "is_created _ = False"

definition marker_index :: "recorded list \<Rightarrow> nat" where
  "marker_index records = (case records of r # _ \<Rightarrow> if is_created (rec_event r) then 1 else 0 | [] \<Rightarrow> 0)"

fun initial_marker :: "journal_event \<Rightarrow> (string, json) fmap option" where
  "initial_marker (Core (StateInitialised e)) = Some (si_state e)"
| "initial_marker _ = None"

text \<open>
  \<open>initialStateSeed\<close> without a checkpoint: the marker of a fresh journal and the position after it.
  \<open>entries\<close> lists the marker's object.
\<close>

definition initialStateSeed :: "recorded list \<Rightarrow> (nat \<times> (string, json) fmap) option" where
  "initialStateSeed records = (let i = marker_index records in
     if i < length records then map_option (\<lambda>m. (Suc i, m)) (initial_marker (rec_event (records ! i))) else None)"

text \<open>\<open>validateCheckpointReferences\<close>: the references of a checkpoint at a position, of layout 4 or 5.\<close>

definition reference_position :: "nat \<Rightarrow> checkpoint_entry \<Rightarrow> nat" where
  "reference_position position e = (case ce_position e of None \<Rightarrow> position | Some p \<Rightarrow> p)"

definition validateCheckpointReferences :: "nat \<Rightarrow> checkpoint_entry list \<Rightarrow> bool \<Rightarrow> runtime_error + unit" where
  "validateCheckpointReferences position entries legacy =
     (if legacy \<and> list_ex (\<lambda>e. ai_family (ce_identity e) \<noteq> None) entries then Inl (Error ''Legacy checkpoint cannot contain family members'')
      else if legacy \<and> list_ex (\<lambda>e. reference_position position e \<noteq> position) entries
      then Inl (Error ''Durable entry position differs from checkpoint position'')
      else if \<not> legacy \<and> list_ex (\<lambda>e. position < reference_position position e) entries
      then Inl (Error ''Atom checkpoint exceeds actor position'')
      else if \<not> distinct (map (\<lambda>e. atomCheckpointKey (ce_identity e)) entries) then Inl (Error ''Duplicate durable atom checkpoint name'')
      else Inr ())"

section \<open>Atoms and their replay\<close>

record 's durable =
  da_identity :: atom_identity
  da_name :: string
  da_member :: bool
  da_initial :: 's
  da_accepts :: "journal_event \<Rightarrow> bool"
  da_reduce :: "'s \<Rightarrow> journal_event \<Rightarrow> record_metadata \<Rightarrow> nat \<Rightarrow> runtime_error + 's"
  da_valid :: "'s \<Rightarrow> bool"
  da_decode :: "json \<Rightarrow> 's option"

record 's frame =
  fr_source :: nat
  fr_position :: nat
  fr_state :: 's

record atom_checkpoint =
  ac_identity :: atom_identity
  ac_position :: int
  ac_state :: json

text \<open>
  What a replay source supplies. \<open>ry_states\<close> is the state carried for this atom's codec,
  \<open>ry_checkpoint\<close> the answer of \<open>readAtomCheckpoint\<close> for its identity, \<open>ry_family\<close> the records indexed
  under a member's key from a position on.
\<close>

record 's atom_replay =
  ry_source :: nat
  ry_position :: nat
  ry_seed :: "state_seed option"
  ry_originSeed :: "(nat \<times> (string, json) fmap) option option"
  ry_states :: "(nat \<times> 's) option"
  ry_read :: "nat \<Rightarrow> recorded list"
  ry_family :: "(nat \<Rightarrow> (nat \<times> recorded) list) option"
  ry_checkpoint :: "atom_checkpoint option"

definition check_state :: "'s durable \<Rightarrow> 's \<Rightarrow> runtime_error + 's" where
  "check_state d s = (if da_valid d s then Inr s else Inl SchemaError)"

definition restore_state :: "'s durable \<Rightarrow> json \<Rightarrow> runtime_error + 's" where
  "restore_state d j = (case da_decode d j of None \<Rightarrow> Inl SchemaError | Some s \<Rightarrow> Inr s)"

definition durable_fold :: "'s durable \<Rightarrow> 's \<Rightarrow> recorded \<Rightarrow> nat \<Rightarrow> runtime_error + 's" where
  "durable_fold d s r p =
     (if \<not> da_accepts d (recordEvent r) then Inr s
      else try_bind (da_reduce d s (recordEvent r) (recordMetadata (Some r)) p) (\<lambda>n. if n = s then Inr s else check_state d n))"

definition consume :: "'s durable \<Rightarrow> nat \<Rightarrow> nat \<Rightarrow> nat \<times> recorded \<Rightarrow> 's \<times> int \<Rightarrow> runtime_error + 's \<times> int" where
  "consume d start position entry acc = (case (entry, acc) of ((p, r), (s, cursor)) \<Rightarrow>
     if \<not> safe_integer (int p) \<or> p < start \<or> position \<le> p \<or> int p \<le> cursor
     then Inl (Error (''Durable atom replay position is invalid: '' @ da_name d))
     else try_bind (durable_fold d s r p) (\<lambda>n. Inr (n, int p)))"

definition seeded_state :: "'s durable \<Rightarrow> state_seed option \<Rightarrow> (json \<times> nat) option" where
  "seeded_state d seed = (case seed of
     None \<Rightarrow> None
   | Some sd \<Rightarrow> (case map_of (sd_atoms sd) (atomCheckpointKey (da_identity d)) of
        Some entry \<Rightarrow> Some entry
      | None \<Rightarrow> if da_member d then None else map_option (\<lambda>j. (j, sd_position sd)) (map_of (sd_state sd) (da_name d))))"

definition checkpoint_matches :: "'s durable \<Rightarrow> nat \<Rightarrow> atom_checkpoint \<Rightarrow> bool" where
  "checkpoint_matches d position ck \<longleftrightarrow>
     ac_identity ck = da_identity d \<and> safe_integer (ac_position ck) \<and> 0 \<le> ac_position ck \<and> ac_position ck \<le> int position"

text \<open>The state and position the fold starts from, before the journal is read.\<close>

definition frame_start :: "'s durable \<Rightarrow> 's atom_replay \<Rightarrow> (json \<times> nat) option \<Rightarrow> 's frame option \<Rightarrow> (nat \<times> 's) option \<Rightarrow> runtime_error + 's \<times> nat" where
  "frame_start d ry seeded continued retained = (case continued of
     Some f \<Rightarrow> Inr (fr_state f, fr_position f)
   | None \<Rightarrow> (case retained of
        Some (p, s) \<Rightarrow> try_bind (check_state d s) (\<lambda>s. Inr (s, p))
      | None \<Rightarrow> try_bind (case seeded of
            Some (j, p) \<Rightarrow> try_bind (restore_state d j) (\<lambda>s. Inr (s, p))
          | None \<Rightarrow> try_bind (check_state d (da_initial d)) (\<lambda>s. Inr (s, 0))) (\<lambda>(s, start).
          case ry_checkpoint ry of
            None \<Rightarrow> Inr (s, start)
          | Some ck \<Rightarrow>
              if \<not> checkpoint_matches d (ry_position ry) ck then Inl (Error ''Invalid atom checkpoint'')
              else if int start \<le> ac_position ck then try_bind (restore_state d (ac_state ck)) (\<lambda>s. Inr (s, nat (ac_position ck)))
              else Inr (s, start))))"

text \<open>Reading the journal from there. \<open>fresh\<close> holds when no state was continued or retained.\<close>

definition marker_start :: "'s durable \<Rightarrow> (nat \<times> (string, json) fmap) option \<Rightarrow> 's \<Rightarrow> runtime_error + 's \<times> nat" where
  "marker_start d marker s = (case marker of
     None \<Rightarrow> Inr (s, 0)
   | Some (p, m) \<Rightarrow> try_bind (case fmlookup m (da_name d) of Some j \<Rightarrow> restore_state d j | None \<Rightarrow> Inr s) (\<lambda>s. Inr (s, p)))"

definition read_on :: "'s durable \<Rightarrow> 's atom_replay \<Rightarrow> bool \<Rightarrow> 's \<Rightarrow> nat \<Rightarrow> runtime_error + 's" where
  "read_on d ry fresh s start =
     (let position = ry_position ry; indexed = (if da_member d then ry_family ry else None) in
      if \<not> (start < position \<or> indexed \<noteq> None) then Inr s
      else if indexed = None \<and> length (ry_read ry start) \<noteq> position - start
      then Inl (Error (''Durable atom replay range is unavailable: '' @ da_name d))
      else try_bind (if fresh \<and> start = 0
          then marker_start d (case ry_originSeed ry of Some m \<Rightarrow> m | None \<Rightarrow> initialStateSeed (ry_read ry 0)) s
          else Inr (s, start)) (\<lambda>(s, first).
        try_bind (fold_try (consume d first position)
            (case indexed of
               Some family \<Rightarrow> family first
             | None \<Rightarrow> filter (\<lambda>(p, _). first \<le> p) (enumerate start (ry_read ry start)))
            (s, int first - 1)) (\<lambda>(s, _). Inr s)))"

definition seed_floor :: "(json \<times> nat) option \<Rightarrow> nat" where
  "seed_floor seeded = (case seeded of None \<Rightarrow> 0 | Some (_, p) \<Rightarrow> p)"

definition same_source :: "'s atom_replay \<Rightarrow> 's frame option \<Rightarrow> 's frame option" where
  "same_source ry previous = (case previous of None \<Rightarrow> None | Some f \<Rightarrow> if fr_source f = ry_source ry then Some f else None)"

definition continued_frame :: "'s durable \<Rightarrow> 's atom_replay \<Rightarrow> 's frame option \<Rightarrow> 's frame option" where
  "continued_frame d ry previous = (case same_source ry previous of None \<Rightarrow> None
     | Some f \<Rightarrow> if seed_floor (seeded_state d (ry_seed ry)) \<le> fr_position f then Some f else None)"

definition retained_state :: "'s durable \<Rightarrow> 's atom_replay \<Rightarrow> (nat \<times> 's) option" where
  "retained_state d ry = (case ry_states ry of None \<Rightarrow> None
     | Some (p, s) \<Rightarrow> if seed_floor (seeded_state d (ry_seed ry)) \<le> p then Some (p, s) else None)"

definition read_frame :: "'s durable \<Rightarrow> 's atom_replay \<Rightarrow> 's frame option \<Rightarrow> runtime_error + 's frame" where
  "read_frame d ry previous =
     (if (case same_source ry previous of None \<Rightarrow> False | Some f \<Rightarrow> ry_position ry < fr_position f)
      then Inl (Error ''EventLog source must be append-only'')
      else if (case ry_seed ry of None \<Rightarrow> False | Some sd \<Rightarrow> ry_position ry < sd_position sd)
      then Inl (Error (''Atom seed position is outside the event source: '' @ da_name d))
      else try_bind (frame_start d ry (seeded_state d (ry_seed ry)) (continued_frame d ry previous) (retained_state d ry)) (\<lambda>(s, start).
        try_bind (read_on d ry (continued_frame d ry previous = None \<and> retained_state d ry = None) s start) (\<lambda>s.
        Inr \<lparr>fr_source = ry_source ry, fr_position = ry_position ry, fr_state = s\<rparr>)))"

section \<open>Families\<close>

text \<open>
  A member of a family folds the events of its key; \<open>event_key\<close> may throw. \<open>familyMember\<close> wraps the
  family's reducer, \<open>family_key\<close> is the key its index files a record under.
\<close>

definition familyMember :: "(journal_event \<Rightarrow> runtime_error + string option) \<Rightarrow> string \<Rightarrow> 's durable \<Rightarrow> 's durable" where
  "familyMember event_key memberKey d = d\<lparr>da_member := True,
     da_reduce := (\<lambda>s e m p. try_bind (event_key e) (\<lambda>k. if k = Some memberKey then da_reduce d s e m p else Inr s))\<rparr>"

definition record_key :: "'s durable \<Rightarrow> (journal_event \<Rightarrow> runtime_error + string option) \<Rightarrow> recorded \<Rightarrow> runtime_error + string option" where
  "record_key d event_key r = (if da_accepts d (recordEvent r) then event_key (recordEvent r) else Inr None)"

section \<open>What a frame should hold\<close>

text \<open>\<open>full_replay\<close> folds a whole journal: the initial state, the marker if there is one, and every record after it.\<close>

definition replay_from :: "'s durable \<Rightarrow> 's \<Rightarrow> nat \<Rightarrow> recorded list \<Rightarrow> runtime_error + 's" where
  "replay_from d s p rs = fold_try (\<lambda>(q, r) s. durable_fold d s r q) (enumerate p rs) s"

definition full_replay :: "'s durable \<Rightarrow> recorded list \<Rightarrow> runtime_error + 's" where
  "full_replay d records = try_bind (check_state d (da_initial d)) (\<lambda>s.
     try_bind (marker_start d (initialStateSeed records) s) (\<lambda>(s, p). replay_from d s p (drop p records)))"

definition after_marker :: "recorded list \<Rightarrow> nat \<Rightarrow> bool" where
  "after_marker records p \<longleftrightarrow> (case initialStateSeed records of None \<Rightarrow> True | Some (q, _) \<Rightarrow> q \<le> p)"

definition sound_state :: "'s durable \<Rightarrow> recorded list \<Rightarrow> nat \<Rightarrow> 's \<Rightarrow> bool" where
  "sound_state d records p s \<longleftrightarrow> p \<le> length records \<and> after_marker records p \<and> full_replay d (take p records) = Inr s"

definition codec_ok :: "'s durable \<Rightarrow> bool" where
  "codec_ok d \<longleftrightarrow> (\<forall>j s. da_decode d j = Some s \<longrightarrow> da_valid d s)"

lemma replay_from_append: "replay_from d s p (xs @ ys) = try_bind (replay_from d s p xs) (\<lambda>s. replay_from d s (p + length xs) ys)"
  by (simp add: replay_from_def enumerate_append_eq fold_try_append)

lemma marker_index_bound: "initialStateSeed rs = Some (q, m) \<Longrightarrow> q = Suc (marker_index rs) \<and> q \<le> length rs"
  by (auto simp: initialStateSeed_def Let_def split: if_splits)

lemma marker_index_take: "0 < p \<Longrightarrow> marker_index (take p rs) = marker_index rs"
  by (cases rs; cases p) (simp_all add: marker_index_def)

lemma initialStateSeed_take: "after_marker rs p \<Longrightarrow> initialStateSeed (take p rs) = initialStateSeed rs"
proof (cases "initialStateSeed rs")
  case None
  then show ?thesis
    by (cases "p = 0") (auto simp: initialStateSeed_def Let_def marker_index_take split: if_splits)
next
  case (Some qm)
  obtain q m where qm: "qm = (q, m)" by (cases qm)
  assume "after_marker rs p"
  with Some qm have "q \<le> p" by (simp add: after_marker_def)
  moreover from Some qm have "q = Suc (marker_index rs)" using marker_index_bound by blast
  ultimately show ?thesis using Some qm by (auto simp: initialStateSeed_def Let_def marker_index_take split: if_splits)
qed

lemma marker_start_position: "marker_start d marker s = Inr (s', p) \<Longrightarrow> p = (case marker of None \<Rightarrow> 0 | Some (q, _) \<Rightarrow> q)"
  by (auto simp: marker_start_def split: option.splits prod.splits)

lemma full_replay_InrD:
  assumes "full_replay d rs = Inr s"
  obtains s0 q where "da_valid d (da_initial d)" "marker_start d (initialStateSeed rs) (da_initial d) = Inr (s0, q)"
    "replay_from d s0 q (drop q rs) = Inr s"
proof -
  have valid: "da_valid d (da_initial d)" using assms by (simp add: full_replay_def check_state_def split: if_splits)
  show thesis
  proof (cases "marker_start d (initialStateSeed rs) (da_initial d)")
    case (Inl e)
    with assms valid show ?thesis by (simp add: full_replay_def check_state_def)
  next
    case (Inr sq)
    obtain s0 q where "sq = (s0, q)" by (cases sq)
    with assms valid Inr show ?thesis by (intro that [of s0 q]) (simp_all add: full_replay_def check_state_def)
  qed
qed

text \<open>The fold of a journal goes on from any sound state.\<close>

lemma replay_resumes:
  assumes "sound_state d rs p s"
  shows "full_replay d rs = replay_from d s p (drop p rs)"
proof -
  have p: "p \<le> length rs" and after: "after_marker rs p" and run: "full_replay d (take p rs) = Inr s"
    using assms by (simp_all add: sound_state_def)
  note same = initialStateSeed_take [OF after]
  obtain s0 q where s0: "da_valid d (da_initial d)"
    "marker_start d (initialStateSeed rs) (da_initial d) = Inr (s0, q)" "replay_from d s0 q (drop q (take p rs)) = Inr s"
    by (rule full_replay_InrD [OF run, unfolded same])
  have q: "q \<le> p" using marker_start_position [OF s0(2)] after by (auto simp: after_marker_def split: option.splits)
  have "drop q rs = drop q (take p rs) @ drop p rs"
    using p q by (metis append_take_drop_id drop_append drop_take length_take min.absorb2 diff_is_0_eq drop_0)
  moreover have "q + length (drop q (take p rs)) = p" using p q by simp
  ultimately have "replay_from d s0 q (drop q rs) = replay_from d s p (drop p rs)"
    using s0(3) by (simp add: replay_from_append)
  with s0 show ?thesis by (simp add: full_replay_def check_state_def)
qed

lemma fold_valid: "durable_fold d s r p = Inr s' \<Longrightarrow> da_valid d s \<Longrightarrow> da_valid d s'"
  by (auto simp: durable_fold_def check_state_def split: if_splits)

lemma replay_from_valid: "replay_from d s p rs = Inr s' \<Longrightarrow> da_valid d s \<Longrightarrow> da_valid d s'"
  unfolding replay_from_def by (erule fold_try_invariant) (auto intro: fold_valid)

lemma marker_start_valid: "codec_ok d \<Longrightarrow> da_valid d s \<Longrightarrow> marker_start d marker s = Inr (s', p) \<Longrightarrow> da_valid d s'"
  by (auto simp: marker_start_def codec_ok_def restore_state_def split: option.splits prod.splits)

lemma full_replay_valid: "codec_ok d \<Longrightarrow> full_replay d rs = Inr s \<Longrightarrow> da_valid d s"
  by (erule full_replay_InrD) (rule replay_from_valid, assumption, rule marker_start_valid)

lemma sound_valid: "codec_ok d \<Longrightarrow> sound_state d rs p s \<Longrightarrow> da_valid d s"
  unfolding sound_state_def by (blast intro: full_replay_valid)

lemma sound_end: "full_replay d rs = Inr s \<Longrightarrow> sound_state d rs (length rs) s"
  using marker_index_bound by (fastforce simp: sound_state_def after_marker_def split: option.split)

text \<open>A sound state stays sound when records are appended that do not bring the marker with them.\<close>

lemma sound_append:
  assumes "sound_state d rs p s" "initialStateSeed (rs @ later) = initialStateSeed rs"
  shows "sound_state d (rs @ later) p s"
  using assms by (simp add: sound_state_def after_marker_def)

text \<open>Consuming records at increasing positions is the fold.\<close>

lemma consume_fold:
  "first \<le> p \<Longrightarrow> cursor < int p \<Longrightarrow> position = p + length rs \<Longrightarrow> safe_integer (int position) \<Longrightarrow>
   try_bind (fold_try (consume d first position) (enumerate p rs) (s, cursor)) (\<lambda>(s, _). Inr s) = replay_from d s p rs"
proof (induction rs arbitrary: p s cursor)
  case (Cons r rs)
  have ok: "consume d first position (p, r) (s, cursor) = try_bind (durable_fold d s r p) (\<lambda>n. Inr (n, int p))"
    using Cons.prems by (auto simp: consume_def safe_integer_def)
  show ?case
  proof (cases "durable_fold d s r p")
    case (Inl e)
    with ok show ?thesis by (simp add: replay_from_def)
  next
    case (Inr n)
    have "try_bind (fold_try (consume d first position) (enumerate (Suc p) rs) (n, int p)) (\<lambda>(s, _). Inr s) = replay_from d n (Suc p) rs"
      using Cons.prems by (intro Cons.IH) simp_all
    with ok Inr show ?thesis by (simp add: replay_from_def)
  qed
qed (simp add: replay_from_def)

lemma consume_filter:
  assumes "\<forall>x\<in>set es. \<not> keep (snd x) \<longrightarrow> (\<forall>s. durable_fold d s (snd x) (fst x) = Inr s)"
    "sorted_wrt (\<lambda>x y. fst x < fst y) es" "\<forall>x\<in>set es. cursor < int (fst x)"
    "\<forall>x\<in>set es. first \<le> fst x \<and> fst x < position \<and> safe_integer (int (fst x))"
  shows "try_bind (fold_try (consume d first position) (filter (\<lambda>x. keep (snd x)) es) (s, cursor)) (\<lambda>(s, _). Inr s) =
    fold_try (\<lambda>(q, r) s. durable_fold d s r q) es s"
  using assms
proof (induction es arbitrary: s cursor)
  case (Cons e es)
  obtain p r where e: "e = (p, r)" by (cases e)
  have rest: "try_bind (fold_try (consume d first position) (filter (\<lambda>x. keep (snd x)) es) (t, c)) (\<lambda>(s, _). Inr s) =
      fold_try (\<lambda>(q, r) s. durable_fold d s r q) es t" if "c = cursor \<or> c = int p" for t c
    using Cons.prems e that by (intro Cons.IH) auto
  show ?case
  proof (cases "keep r")
    case False
    with Cons.prems(1) e have "durable_fold d s r p = Inr s" by simp
    with rest [of cursor s] False e show ?thesis by simp
  next
    case True
    have ok: "consume d first position (p, r) (s, cursor) = try_bind (durable_fold d s r p) (\<lambda>n. Inr (n, int p))"
      using Cons.prems(3,4) e by (auto simp: consume_def)
    show ?thesis
    proof (cases "durable_fold d s r p")
      case (Inl x)
      with ok True e show ?thesis by simp
    next
      case (Inr n)
      with ok True e rest [of "int p" n] show ?thesis by simp
    qed
  qed
qed simp

section \<open>Frames hold the full replay\<close>

text \<open>
  A source of a journal: it reads the journal, what it caches of the marker is the marker, and every
  state it or the previous frame offers is the replay of the prefix it is offered for. An index may
  leave out records that do not change the atom.
\<close>

definition index_ok :: "'s durable \<Rightarrow> recorded list \<Rightarrow> 's atom_replay \<Rightarrow> bool" where
  "index_ok d rs ry \<longleftrightarrow> (case ry_family ry of None \<Rightarrow> True
     | Some family \<Rightarrow> \<not> da_member d \<or>
         (\<exists>keep. (\<forall>n. family n = filter (\<lambda>x. keep (snd x)) (enumerate n (drop n rs))) \<and>
           (\<forall>r\<in>set rs. \<not> keep r \<longrightarrow> (\<forall>s p. durable_fold d s r p = Inr s))))"

definition offers_sound :: "'s durable \<Rightarrow> recorded list \<Rightarrow> 's atom_replay \<Rightarrow> 's frame option \<Rightarrow> bool" where
  "offers_sound d rs ry previous \<longleftrightarrow>
     (\<forall>j p. seeded_state d (ry_seed ry) = Some (j, p) \<longrightarrow> (\<exists>s. da_decode d j = Some s \<and> sound_state d rs p s)) \<and>
     (\<forall>p s. ry_states ry = Some (p, s) \<longrightarrow> sound_state d rs p s) \<and>
     (\<forall>ck. ry_checkpoint ry = Some ck \<longrightarrow> checkpoint_matches d (length rs) ck \<and>
        (\<exists>s. da_decode d (ac_state ck) = Some s \<and> sound_state d rs (nat (ac_position ck)) s)) \<and>
     (\<forall>f. previous = Some f \<longrightarrow> fr_source f = ry_source ry \<longrightarrow> sound_state d rs (fr_position f) (fr_state f))"

definition replay_ok :: "'s durable \<Rightarrow> recorded list \<Rightarrow> 's atom_replay \<Rightarrow> 's frame option \<Rightarrow> bool" where
  "replay_ok d rs ry previous \<longleftrightarrow> safe_integer (int (length rs)) \<and> codec_ok d \<and> ry_position ry = length rs \<and>
     (\<forall>n. ry_read ry n = drop n rs) \<and> (ry_originSeed ry = None \<or> ry_originSeed ry = Some (initialStateSeed rs)) \<and>
     (case ry_seed ry of None \<Rightarrow> True | Some sd \<Rightarrow> sd_position sd \<le> length rs) \<and>
     offers_sound d rs ry previous \<and> index_ok d rs ry"

lemma enumerate_from:
  assumes "start \<le> first" "first \<le> length rs"
  shows "filter (\<lambda>(p, _). first \<le> p) (enumerate start (drop start rs)) = enumerate first (drop first rs)"
proof -
  let ?a = "take (first - start) (drop start rs)"
  have "drop start rs = ?a @ drop first rs"
    using assms(1) by (metis append_take_drop_id drop_drop le_add_diff_inverse2 add.commute)
  moreover have "start + length ?a = first" using assms by simp
  ultimately have "enumerate start (drop start rs) = enumerate start ?a @ enumerate first (drop first rs)"
    by (metis enumerate_append_eq)
  moreover have "filter (\<lambda>(p, _). first \<le> p) (enumerate start ?a) = []"
    using assms by (auto simp: filter_empty_conv in_set_enumerate_eq)
  moreover have "filter (\<lambda>(p, _). first \<le> p) (enumerate first (drop first rs)) = enumerate first (drop first rs)"
    by (auto simp: filter_id_conv in_set_enumerate_eq)
  ultimately show ?thesis by simp
qed

lemma read_fold:
  assumes "replay_ok d rs ry previous" "start \<le> first" "first \<le> length rs"
  shows "try_bind (fold_try (consume d first (length rs))
      (case if da_member d then ry_family ry else None of
         Some family \<Rightarrow> family first | None \<Rightarrow> filter (\<lambda>(p, _). first \<le> p) (enumerate start (ry_read ry start)))
      (s, int first - 1)) (\<lambda>(s, _). Inr s) = replay_from d s first (drop first rs)"
proof (cases "if da_member d then ry_family ry else None")
  case None
  from assms(1) have "ry_read ry start = drop start rs" "safe_integer (int (length rs))" by (simp_all add: replay_ok_def)
  moreover have "try_bind (fold_try (consume d first (length rs)) (enumerate first (drop first rs)) (s, int first - 1)) (\<lambda>(s, _). Inr s) =
      replay_from d s first (drop first rs)"
    using assms(3) \<open>safe_integer (int (length rs))\<close> by (intro consume_fold) simp_all
  ultimately show ?thesis using None enumerate_from [OF assms(2,3)] by simp
next
  case (Some family)
  with assms(1) obtain keep where keep: "\<And>n. family n = filter (\<lambda>x. keep (snd x)) (enumerate n (drop n rs))"
    "\<And>r s p. r \<in> set rs \<Longrightarrow> \<not> keep r \<Longrightarrow> durable_fold d s r p = Inr s"
    by (fastforce simp: replay_ok_def index_ok_def split: if_splits)
  have safe: "safe_integer (int (length rs))" using assms(1) by (simp add: replay_ok_def)
  have "try_bind (fold_try (consume d first (length rs)) (filter (\<lambda>x. keep (snd x)) (enumerate first (drop first rs))) (s, int first - 1)) (\<lambda>(s, _). Inr s) =
      fold_try (\<lambda>(q, r) s. durable_fold d s r q) (enumerate first (drop first rs)) s"
  proof (rule consume_filter)
    show "\<forall>x\<in>set (enumerate first (drop first rs)). \<not> keep (snd x) \<longrightarrow> (\<forall>s. durable_fold d s (snd x) (fst x) = Inr s)"
      using keep(2) by (auto simp: in_set_enumerate_eq)
    show "sorted_wrt (\<lambda>x y. fst x < fst y) (enumerate first (drop first rs))"
      by (simp add: sorted_wrt_iff_nth_less nth_enumerate_eq)
  qed (use assms(3) safe in \<open>auto simp: in_set_enumerate_eq safe_integer_def\<close>)
  with Some keep(1) show ?thesis by (simp add: replay_from_def)
qed

lemma read_on_sound:
  assumes "replay_ok d rs ry previous" "sound_state d rs start s"
  shows "read_on d ry fresh s start = full_replay d rs"
proof -
  have start: "start \<le> length rs" using assms(2) by (simp add: sound_state_def)
  have pos: "ry_position ry = length rs" "length (ry_read ry start) = length rs - start" using assms(1) by (simp_all add: replay_ok_def)
  have marker: "initialStateSeed rs = None" if "start = 0"
    using assms(2) that marker_index_bound by (fastforce simp: sound_state_def after_marker_def split: option.splits)
  have origin: "(case ry_originSeed ry of Some m \<Rightarrow> m | None \<Rightarrow> initialStateSeed (ry_read ry 0)) = initialStateSeed rs"
    using assms(1) by (auto simp: replay_ok_def split: option.splits)
  have "(if fresh \<and> start = 0 then marker_start d (case ry_originSeed ry of Some m \<Rightarrow> m | None \<Rightarrow> initialStateSeed (ry_read ry 0)) s
      else Inr (s, start)) = Inr (s, start)"
    unfolding origin using marker by (simp add: marker_start_def)
  moreover have "full_replay d rs = Inr s" if "\<not> start < length rs"
    using assms(2) that start by (simp add: sound_state_def)
  ultimately show ?thesis
    using replay_resumes [OF assms(2)] read_fold [OF assms(1) order_refl start, of s] pos
    by (simp add: read_on_def Let_def)
qed

lemma read_on_origin:
  assumes "replay_ok d rs ry previous" "da_valid d (da_initial d)"
  shows "read_on d ry True (da_initial d) 0 = full_replay d rs"
proof -
  have pos: "ry_position ry = length rs" "length (ry_read ry 0) = length rs" using assms(1) by (simp_all add: replay_ok_def)
  have origin: "(case ry_originSeed ry of Some m \<Rightarrow> m | None \<Rightarrow> initialStateSeed (ry_read ry 0)) = initialStateSeed rs"
    using assms(1) by (auto simp: replay_ok_def split: option.splits)
  have full: "full_replay d rs = try_bind (marker_start d (initialStateSeed rs) (da_initial d)) (\<lambda>(s, p). replay_from d s p (drop p rs))"
    using assms(2) by (simp add: full_replay_def check_state_def)
  have empty: "full_replay d rs = Inr (da_initial d)" if "rs = []"
    using that assms(2) by (simp add: full_replay_def check_state_def initialStateSeed_def marker_start_def replay_from_def)
  show ?thesis
  proof (cases "marker_start d (initialStateSeed rs) (da_initial d)")
    case (Inl e)
    then have "rs \<noteq> []" by (auto simp: initialStateSeed_def marker_start_def)
    with Inl full pos show ?thesis by (simp add: read_on_def Let_def origin)
  next
    case (Inr sp)
    obtain s p where sp: "sp = (s, p)" by (cases sp)
    have "p \<le> length rs"
      using marker_start_position [OF Inr [unfolded sp]] marker_index_bound by (fastforce split: option.splits)
    with Inr sp full pos empty read_fold [OF assms(1) le0, of p s] show ?thesis by (auto simp: read_on_def Let_def origin)
  qed
qed

lemma frame_start_cases:
  assumes "replay_ok d rs ry previous" "continued \<noteq> None \<Longrightarrow> continued = previous \<and> fr_source (the continued) = ry_source ry"
    "retained \<noteq> None \<Longrightarrow> retained = ry_states ry" "seeded = seeded_state d (ry_seed ry)"
  shows "frame_start d ry seeded continued retained = Inl SchemaError \<and> \<not> da_valid d (da_initial d) \<or>
    (\<exists>s start. frame_start d ry seeded continued retained = Inr (s, start) \<and>
      (sound_state d rs start s \<or> continued = None \<and> retained = None \<and> start = 0 \<and> s = da_initial d \<and> da_valid d (da_initial d)))"
proof (cases continued)
  case (Some f)
  with assms show ?thesis by (auto simp: frame_start_def replay_ok_def offers_sound_def)
next
  case None
  note continued = None
  have codec: "codec_ok d" using assms(1) by (simp add: replay_ok_def)
  show ?thesis
  proof (cases retained)
    case (Some ps)
    obtain p s where ps: "ps = (p, s)" by (cases ps)
    with assms(1,3) Some have sound: "sound_state d rs p s" by (simp add: replay_ok_def offers_sound_def)
    with sound_valid [OF codec sound] show ?thesis using continued Some ps by (simp add: frame_start_def check_state_def)
  next
    case None
    show ?thesis
    proof (cases "seeded = None \<and> \<not> da_valid d (da_initial d)")
      case True
      with continued None show ?thesis by (simp add: frame_start_def check_state_def)
    next
      case False
      let ?base = "case seeded of Some (j, p) \<Rightarrow> try_bind (restore_state d j) (\<lambda>s. Inr (s, p))
          | None \<Rightarrow> try_bind (check_state d (da_initial d)) (\<lambda>s. Inr (s, 0))"
      obtain s start where base: "?base = Inr (s, start)"
        "sound_state d rs start s \<or> start = 0 \<and> s = da_initial d \<and> da_valid d (da_initial d)"
      proof (cases seeded)
        case None
        with False that [of "da_initial d" 0] show ?thesis by (simp add: check_state_def)
      next
        case (Some jp)
        obtain j p where jp: "jp = (j, p)" by (cases jp)
        have "offers_sound d rs ry previous" using assms(1) by (simp add: replay_ok_def)
        moreover have "seeded_state d (ry_seed ry) = Some (j, p)" using Some jp assms(4) by simp
        ultimately obtain s where "da_decode d j = Some s" "sound_state d rs p s" unfolding offers_sound_def by blast
        with that [of s p] Some jp show ?thesis by (simp add: restore_state_def)
      qed
      show ?thesis
      proof (cases "ry_checkpoint ry")
        case None
        with base continued \<open>retained = None\<close> show ?thesis by (simp add: frame_start_def)
      next
        case (Some ck)
        with assms(1) obtain t where "checkpoint_matches d (ry_position ry) ck" "da_decode d (ac_state ck) = Some t"
          "sound_state d rs (nat (ac_position ck)) t" by (auto simp: replay_ok_def offers_sound_def)
        with base continued \<open>retained = None\<close> Some show ?thesis by (auto simp: frame_start_def restore_state_def)
      qed
    qed
  qed
qed

lemma read_frame_full:
  assumes "replay_ok d rs ry previous"
  shows "read_frame d ry previous =
    try_bind (full_replay d rs) (\<lambda>s. Inr \<lparr>fr_source = ry_source ry, fr_position = length rs, fr_state = s\<rparr>)"
proof -
  define continued where "continued = continued_frame d ry previous"
  define retained where "retained = retained_state d ry"
  have pos: "ry_position ry = length rs" using assms by (simp add: replay_ok_def)
  have same_ok: "\<not> (case same_source ry previous of None \<Rightarrow> False | Some f \<Rightarrow> ry_position ry < fr_position f)"
    using assms by (auto simp: same_source_def replay_ok_def offers_sound_def sound_state_def split: option.splits)
  have seed_ok: "\<not> (case ry_seed ry of None \<Rightarrow> False | Some sd \<Rightarrow> ry_position ry < sd_position sd)"
    using assms by (auto simp: replay_ok_def split: option.splits)
  have run: "read_frame d ry previous = try_bind (frame_start d ry (seeded_state d (ry_seed ry)) continued retained) (\<lambda>(s, start).
      try_bind (read_on d ry (continued = None \<and> retained = None) s start) (\<lambda>s. Inr \<lparr>fr_source = ry_source ry, fr_position = length rs, fr_state = s\<rparr>))"
    unfolding read_frame_def if_not_P [OF same_ok] if_not_P [OF seed_ok] continued_def retained_def by (simp add: pos)
  have "continued \<noteq> None \<Longrightarrow> continued = previous \<and> fr_source (the continued) = ry_source ry"
    by (auto simp: continued_def continued_frame_def same_source_def split: option.splits if_splits)
  moreover have "retained \<noteq> None \<Longrightarrow> retained = ry_states ry"
    by (auto simp: retained_def retained_state_def split: option.splits if_splits)
  ultimately consider "frame_start d ry (seeded_state d (ry_seed ry)) continued retained = Inl SchemaError" "\<not> da_valid d (da_initial d)"
    | s start where "frame_start d ry (seeded_state d (ry_seed ry)) continued retained = Inr (s, start)" "sound_state d rs start s"
    | "frame_start d ry (seeded_state d (ry_seed ry)) continued retained = Inr (da_initial d, 0)" "continued = None" "retained = None" "da_valid d (da_initial d)"
    using frame_start_cases [OF assms, of continued retained "seeded_state d (ry_seed ry)"] by blast
  then show ?thesis
  proof cases
    case 1
    with run show ?thesis by (simp add: full_replay_def check_state_def)
  next
    case (2 s start)
    with run read_on_sound [OF assms "2"(2)] show ?thesis by simp
  next
    case 3
    with run read_on_origin [OF assms "3"(4)] show ?thesis by simp
  qed
qed

lemma familyMember_skips:
  assumes "record_key d event_key r = Inr k" "k \<noteq> Some memberKey"
  shows "durable_fold (familyMember event_key memberKey d) s r p = Inr s"
  using assms by (auto simp: durable_fold_def familyMember_def record_key_def split: if_splits)

text \<open>The index of a family files the records by key, which leaves a member only records it ignores.\<close>

lemma family_index_ok:
  assumes "ry_family ry = Some (\<lambda>n. filter (\<lambda>x. record_key d event_key (snd x) = Inr (Some memberKey)) (enumerate n (drop n rs)))"
    "\<forall>r\<in>set rs. \<exists>k. record_key d event_key r = Inr k"
  shows "index_ok (familyMember event_key memberKey d) rs ry"
proof -
  have "durable_fold (familyMember event_key memberKey d) s r p = Inr s"
    if "r \<in> set rs" "record_key d event_key r \<noteq> Inr (Some memberKey)" for r s p
    using assms(2) that familyMember_skips by (metis)
  with assms(1) show ?thesis by (auto simp: index_ok_def intro!: exI [of _ "\<lambda>r. record_key d event_key r = Inr (Some memberKey)"])
qed

text \<open>
  C12. Reading a durable atom gives the fold of the whole journal, or its first error, whatever it
  starts from: its previous frame, a state carried over a fork, a seed or a checkpoint, each the replay
  of its prefix, and whether it reads all records or an index of those that concern it. The frame it
  leaves is again such a start for any longer journal whose marker is the same.
\<close>

theorem durable_atom_replays:
  assumes "replay_ok d rs ry previous"
  shows "read_frame d ry previous =
      try_bind (full_replay d rs) (\<lambda>s. Inr \<lparr>fr_source = ry_source ry, fr_position = length rs, fr_state = s\<rparr>) \<and>
    (read_frame d ry previous = Inr f \<and> initialStateSeed (rs @ later) = initialStateSeed rs \<longrightarrow>
      sound_state d (rs @ later) (fr_position f) (fr_state f))"
  using read_frame_full [OF assms] sound_append [OF sound_end] by auto

section \<open>Example\<close>

text \<open>A counter of domain events, started from a marker and resumed from a checkpoint.\<close>

definition counter_atom :: "nat durable" where
  "counter_atom = \<lparr>da_identity = \<lparr>ai_name = ''count'', ai_family = None, ai_version = None\<rparr>, da_name = ''count'', da_member = False,
     da_initial = 0, da_accepts = (\<lambda>e. case e of Domain _ \<Rightarrow> True | _ \<Rightarrow> False), da_reduce = (\<lambda>s e m p. Inr (Suc s)),
     da_valid = (\<lambda>_. True), da_decode = (\<lambda>j. case j of JInt n \<Rightarrow> if 0 \<le> n then Some (nat n) else None | _ \<Rightarrow> None)\<rparr>"

definition counter_journal :: "recorded list" where
  "counter_journal = map (recorded_of no_metadata)
     [Core (StateInitialised \<lparr>si_state = fmap_of_list [(''count'', JInt 5)], si_source = None\<rparr>), Domain JNull, Domain JNull]"

definition counter_replay :: "nat atom_replay" where
  "counter_replay = \<lparr>ry_source = 1, ry_position = 3, ry_seed = None, ry_originSeed = None, ry_states = None,
     ry_read = (\<lambda>n. drop n counter_journal), ry_family = None,
     ry_checkpoint = Some \<lparr>ac_identity = \<lparr>ai_name = ''count'', ai_family = None, ai_version = None\<rparr>, ac_position = 2, ac_state = JInt 6\<rparr>\<rparr>"

lemma counter_marker: "initialStateSeed counter_journal = Some (1, fmap_of_list [(''count'', JInt 5)])"
  by (simp add: counter_journal_def initialStateSeed_def marker_index_def Let_def)

lemma counter_event: "recordEvent (recorded_of no_metadata (Domain JNull)) = Domain JNull"
  by (simp add: recordEvent_def)

lemma counter_full: "full_replay counter_atom counter_journal = Inr 7" "sound_state counter_atom counter_journal 2 6"
proof -
  have taken: "take 2 counter_journal = map (recorded_of no_metadata)
     [Core (StateInitialised \<lparr>si_state = fmap_of_list [(''count'', JInt 5)], si_source = None\<rparr>), Domain JNull]"
    by (simp add: counter_journal_def)
  then have seed: "initialStateSeed (take 2 counter_journal) = Some (1, fmap_of_list [(''count'', JInt 5)])"
    by (simp add: initialStateSeed_def marker_index_def Let_def)
  show "full_replay counter_atom counter_journal = Inr 7"
    by (simp add: full_replay_def counter_marker check_state_def marker_start_def restore_state_def replay_from_def durable_fold_def
        counter_atom_def fmlookup_of_list) (simp add: counter_journal_def counter_event check_state_def)
  have "full_replay counter_atom (take 2 counter_journal) = Inr 6"
    by (simp add: full_replay_def seed check_state_def marker_start_def restore_state_def replay_from_def durable_fold_def
        counter_atom_def fmlookup_of_list) (simp add: taken counter_event check_state_def)
  then show "sound_state counter_atom counter_journal 2 6"
    by (simp add: sound_state_def after_marker_def counter_marker) (simp add: counter_journal_def)
qed

lemma counter_ok: "replay_ok counter_atom counter_journal counter_replay None"
  using counter_full(2)
  by (auto simp: replay_ok_def counter_replay_def offers_sound_def index_ok_def seeded_state_def checkpoint_matches_def safe_integer_def
      max_safe_integer_def codec_ok_def) (simp_all add: counter_journal_def counter_atom_def)

theorem durable_atom_replays_witness:
  "read_frame counter_atom counter_replay None = Inr \<lparr>fr_source = 1, fr_position = 3, fr_state = 7\<rparr>"
  using durable_atom_replays [OF counter_ok] by (simp add: counter_full(1)) (simp add: counter_replay_def counter_journal_def)

end
