(* ===== verification/PagedLogs.thy ===== *)
theory PagedLogs
  imports Events
begin

text \<open>
  Paged reads of a journal: the typed logs of \<open>packages/core/src/experimental/log.ts\<close>, their atoms
  (\<open>experimental/log-atom.ts\<close>) and the projected logs of \<open>experimental/durable-atom-log.ts\<close>. A source
  reads ranges of records in batches or, when the journal is indexed, the records of each event type; a
  generator is the list of what it yields, an error being the last. \<open>desc\<close> stands for the order
  \<open>desc\<close>. The theorems give a page as a slice of the matching records and show that following the
  cursors reads each of them once.
\<close>

section \<open>Selections, cursors and pages\<close>

record log_selection =
  ls_events :: "string list"
  ls_lower :: nat
  ls_upper :: nat

record log_cursor =
  lk_events :: "string list"
  lk_lower :: nat
  lk_upper :: nat
  lk_desc :: bool
  lk_position :: nat

record log_query =
  lq_limit :: "int option"
  lq_desc :: "bool option"
  lq_after :: "log_cursor option"

record ('c, 'v) log_page =
  lp_rows :: "(nat \<times> 'v) list"
  lp_snapshot :: nat
  lp_next :: "'c option"

record 'r log_source =
  so_position :: int
  so_range :: "nat \<Rightarrow> nat \<Rightarrow> 'r list"
  so_family :: "(string \<Rightarrow> nat \<Rightarrow> nat \<Rightarrow> bool \<Rightarrow> (nat \<times> 'r) list) option"

record ('r, 'v) typed_log =
  tl_keys :: "string list"
  tl_pageSize :: int
  tl_batch :: int
  tl_type :: "'r \<Rightarrow> string option"
  tl_decode :: "'r \<Rightarrow> runtime_error + 'v"

definition DEFAULT_LOG_PAGE_SIZE :: int where
  "DEFAULT_LOG_PAGE_SIZE = 100"

definition DEFAULT_LOG_READ_BATCH_SIZE :: int where
  "DEFAULT_LOG_READ_BATCH_SIZE = 128"

definition position_ok :: "nat \<Rightarrow> bool" where
  "position_ok p \<longleftrightarrow> safe_integer (int p)"

definition events_ok :: "string list \<Rightarrow> bool" where
  "events_ok events \<longleftrightarrow> list_all (\<lambda>e. e \<noteq> []) events \<and> events \<noteq> [] \<and> sorted_wrt (<) events"

definition selection_ok :: "log_selection \<Rightarrow> bool" where
  "selection_ok s \<longleftrightarrow> events_ok (ls_events s) \<and> position_ok (ls_lower s) \<and> position_ok (ls_upper s) \<and> ls_lower s \<le> ls_upper s"

definition cursor_ok :: "log_cursor \<Rightarrow> bool" where
  "cursor_ok c \<longleftrightarrow> events_ok (lk_events c) \<and> position_ok (lk_lower c) \<and> position_ok (lk_upper c) \<and> position_ok (lk_position c)"

definition limit_ok :: "int \<Rightarrow> bool" where
  "limit_ok n \<longleftrightarrow> safe_integer n \<and> 1 \<le> n \<and> n < max_safe_integer"

definition createLog :: "int option \<Rightarrow> int option \<Rightarrow> string list \<Rightarrow> ('r \<Rightarrow> string option) \<Rightarrow> ('r \<Rightarrow> runtime_error + 'v) \<Rightarrow>
    runtime_error + ('r, 'v) typed_log" where
  "createLog pageSize batch keys type_of decode =
     (let pageSize = (case pageSize of None \<Rightarrow> DEFAULT_LOG_PAGE_SIZE | Some n \<Rightarrow> n);
          batch = (case batch of None \<Rightarrow> DEFAULT_LOG_READ_BATCH_SIZE | Some n \<Rightarrow> n) in
      if \<not> limit_ok pageSize then Inl (Error ''Log page size must be a positive safe integer with room for lookahead'')
      else if \<not> safe_integer batch \<or> batch < 1 then Inl (Error ''Log readBatchSize must be a positive safe integer'')
      else Inr \<lparr>tl_keys = remdups keys, tl_pageSize = pageSize, tl_batch = batch, tl_type = type_of, tl_decode = decode\<rparr>)"

text \<open>\<open>log.view\<close>: the sorted distinct keys of a view; \<open>view.range\<close> checks the bounds.\<close>

definition view_keys :: "('r, 'v) typed_log \<Rightarrow> string list \<Rightarrow> runtime_error + string list" where
  "view_keys log events = (let selected = sort (remdups events) in
     if selected = [] \<or> list_ex (\<lambda>k. k \<notin> set (tl_keys log)) selected then Inl (Error ''Unknown log event key'') else Inr selected)"

definition view_range :: "string list \<Rightarrow> nat \<Rightarrow> nat \<Rightarrow> runtime_error + log_selection" where
  "view_range events lower upper = (let s = \<lparr>ls_events = events, ls_lower = lower, ls_upper = upper\<rparr> in
     if selection_ok s then Inr s else Inl SchemaError)"

definition log_accepts :: "('r, 'v) typed_log \<Rightarrow> log_selection \<Rightarrow> bool" where
  "log_accepts log s \<longleftrightarrow> selection_ok s \<and> list_all (\<lambda>k. k \<in> set (tl_keys log)) (ls_events s)"

section \<open>Reading entries\<close>

text \<open>The merge of the iterators of an index: the entry of the least (greatest) position is yielded next.\<close>

definition before :: "bool \<Rightarrow> nat \<Rightarrow> nat \<Rightarrow> bool" where
  "before desc p q \<longleftrightarrow> (if desc then q < p else p < q)"

fun best_head :: "bool \<Rightarrow> nat \<Rightarrow> (nat \<times> 'r) list list \<Rightarrow> (nat \<times> nat) option \<Rightarrow> nat option" where
  "best_head desc i [] acc = map_option fst acc"
| "best_head desc i (h # hs) acc = best_head desc (Suc i) hs (case h of
     [] \<Rightarrow> acc
   | (p, _) # _ \<Rightarrow> (case acc of None \<Rightarrow> Some (i, p) | Some (j, q) \<Rightarrow> if before desc p q then Some (i, p) else acc))"

lemma best_head_Some:
  assumes "best_head desc i hs acc = Some k"
  shows "(\<exists>p. acc = Some (k, p)) \<or> i \<le> k \<and> k < i + length hs \<and> hs ! (k - i) \<noteq> []"
  using assms
proof (induction hs arbitrary: i acc)
  case (Cons h hs)
  show ?case
  proof (cases h)
    case Nil
    with Cons.IH [of "Suc i" acc] Cons.prems show ?thesis by (auto simp: nth_Cons')
  next
    case (Cons e es)
    obtain p r where e: "e = (p, r)" by (cases e)
    define acc' where "acc' = (case acc of None \<Rightarrow> Some (i, p) | Some (j, q) \<Rightarrow> if before desc p q then Some (i, p) else acc)"
    from Cons.prems Cons e have "best_head desc (Suc i) hs acc' = Some k" by (simp add: acc'_def)
    from Cons.IH [OF this] consider "\<exists>p. acc' = Some (k, p)" | "Suc i \<le> k" "k < Suc i + length hs" "hs ! (k - Suc i) \<noteq> []" by blast
    then show ?thesis
    proof cases
      case 1
      then show ?thesis using Cons by (auto simp: acc'_def split: option.splits if_splits)
    next
      case 2
      then show ?thesis by (auto simp: nth_Cons')
    qed
  qed
qed auto

function merge_heads :: "bool \<Rightarrow> (nat \<times> 'r) list list \<Rightarrow> (nat \<times> 'r) list" where
  "merge_heads desc hs = (case best_head desc 0 hs None of
     None \<Rightarrow> []
   | Some i \<Rightarrow> hd (hs ! i) # merge_heads desc (hs[i := tl (hs ! i)]))"
  by auto
termination
proof (relation "measure (\<lambda>(_, hs). sum_list (map length hs))")
  fix desc :: bool and hs :: "(nat \<times> 'r) list list" and i
  assume "best_head desc 0 hs None = Some i"
  then have i: "i < length hs" "hs ! i \<noteq> []" using best_head_Some [of desc 0 hs None i] by auto
  have "sum_list (map length (hs[i := tl (hs ! i)])) < sum_list (map length hs)"
  proof -
    have "sum_list (map length hs) = sum_list (map length (take i hs)) + length (hs ! i) + sum_list (map length (drop (Suc i) hs))"
      using i(1) by (metis add.assoc id_take_nth_drop list.simps(9) map_append sum_list.Cons sum_list.append)
    moreover have "sum_list (map length (hs[i := tl (hs ! i)])) =
        sum_list (map length (take i hs)) + length (tl (hs ! i)) + sum_list (map length (drop (Suc i) hs))"
      using i(1) by (simp add: upd_conv_take_nth_drop)
    moreover have "length (tl (hs ! i)) < length (hs ! i)" using i(2) by (cases "hs ! i") simp_all
    ultimately show ?thesis by simp
  qed
  then show "((desc, hs[i := tl (hs ! i)]), (desc, hs)) \<in> measure (\<lambda>(_, hs). sum_list (map length hs))" by simp
qed simp

declare merge_heads.simps [simp del]

text \<open>Batches of at most \<open>b\<close> records; a batch of the wrong length ends the generator with an error.\<close>

definition unavailable :: runtime_error where
  "unavailable = Error ''Log history is unavailable''"

function range_asc :: "nat \<Rightarrow> (nat \<Rightarrow> nat \<Rightarrow> 'r list) \<Rightarrow> ('r \<Rightarrow> bool) \<Rightarrow> nat \<Rightarrow> nat \<Rightarrow> (runtime_error + nat \<times> 'r) list" where
  "range_asc b rd keep p upper =
     (if p < upper \<and> 0 < b
      then let hi = min upper (p + b); batch = rd p hi in
        if length batch \<noteq> hi - p then [Inl unavailable]
        else map Inr (filter (\<lambda>x. keep (snd x)) (enumerate p batch)) @ range_asc b rd keep hi upper
      else [])"
  by auto
termination by (relation "measure (\<lambda>(b, rd, keep, p, upper). upper - p)") auto

function range_desc :: "nat \<Rightarrow> (nat \<Rightarrow> nat \<Rightarrow> 'r list) \<Rightarrow> ('r \<Rightarrow> bool) \<Rightarrow> nat \<Rightarrow> nat \<Rightarrow> (runtime_error + nat \<times> 'r) list" where
  "range_desc b rd keep lower p =
     (if lower < p \<and> 0 < b
      then let lo = max lower (p - b); batch = rd lo p in
        if length batch \<noteq> p - lo then [Inl unavailable]
        else map Inr (rev (filter (\<lambda>x. keep (snd x)) (enumerate lo batch))) @ range_desc b rd keep lower lo
      else [])"
  by auto
termination by (relation "measure (\<lambda>(b, rd, keep, lower, p). p - lower)") auto

declare range_asc.simps [simp del] range_desc.simps [simp del]

text \<open>
  The loop both readers run over the entries: an entry out of order or out of the bounds, or one that
  is not selected, throws; the entry after the limit ends the page before it is decoded.
\<close>

definition entry_ok :: "bool \<Rightarrow> nat \<Rightarrow> nat \<Rightarrow> int \<Rightarrow> nat \<Rightarrow> bool" where
  "entry_ok desc lower upper previous p \<longleftrightarrow>
     position_ok p \<and> lower \<le> p \<and> p < upper \<and> (if desc then int p < previous else previous < int p)"

fun row_loop :: "runtime_error \<Rightarrow> runtime_error \<Rightarrow> ('r \<Rightarrow> bool) \<Rightarrow> (nat \<Rightarrow> 'r \<Rightarrow> runtime_error + 'v) \<Rightarrow> nat \<Rightarrow> bool \<Rightarrow> nat \<Rightarrow> nat \<Rightarrow>
    (runtime_error + nat \<times> 'r) list \<Rightarrow> int \<Rightarrow> (nat \<times> 'v) list \<Rightarrow> runtime_error + (nat \<times> 'v) list \<times> bool" where
  "row_loop pe se sel dec limit desc lower upper [] previous rows = Inr (rows, False)"
| "row_loop pe se sel dec limit desc lower upper (Inl e # es) previous rows = Inl e"
| "row_loop pe se sel dec limit desc lower upper (Inr (p, r) # es) previous rows =
     (if \<not> entry_ok desc lower upper previous p then Inl pe
      else if \<not> sel r then Inl se
      else if length rows = limit then Inr (rows, True)
      else try_bind (dec p r) (\<lambda>v. row_loop pe se sel dec limit desc lower upper es (int p) (rows @ [(p, v)])))"

definition bounds_after :: "bool \<Rightarrow> nat option \<Rightarrow> nat \<Rightarrow> nat \<Rightarrow> nat \<times> nat" where
  "bounds_after desc cursor lower upper = (case cursor of
     None \<Rightarrow> (lower, upper)
   | Some p \<Rightarrow> if desc then (lower, p) else (Suc p, upper))"

definition first_previous :: "bool \<Rightarrow> nat \<Rightarrow> nat \<Rightarrow> int" where
  "first_previous desc lower upper = (if desc then int upper else int lower - 1)"

section \<open>Typed logs\<close>

definition selected_type :: "('r, 'v) typed_log \<Rightarrow> string list \<Rightarrow> 'r \<Rightarrow> bool" where
  "selected_type log events r \<longleftrightarrow> (case tl_type log r of None \<Rightarrow> False | Some t \<Rightarrow> t \<in> set events)"

definition log_entries :: "('r, 'v) typed_log \<Rightarrow> 'r log_source \<Rightarrow> string list \<Rightarrow> bool \<Rightarrow> nat \<Rightarrow> nat \<Rightarrow> (runtime_error + nat \<times> 'r) list" where
  "log_entries log source events desc lower upper = (case so_family source of
     Some family \<Rightarrow> map Inr (merge_heads desc (map (\<lambda>k. family k lower upper desc) events))
   | None \<Rightarrow> if desc then range_desc (nat (tl_batch log)) (so_range source) (selected_type log events) lower upper
       else range_asc (nat (tl_batch log)) (so_range source) (selected_type log events) lower upper)"

definition cursor_belongs :: "log_selection \<Rightarrow> bool \<Rightarrow> log_cursor \<Rightarrow> bool" where
  "cursor_belongs s desc c \<longleftrightarrow> cursor_ok c \<and> lk_events c = ls_events s \<and> lk_lower c = ls_lower s \<and> lk_upper c = ls_upper s \<and>
     lk_desc c = desc \<and> ls_lower s \<le> lk_position c \<and> lk_position c < ls_upper s"

definition query_order :: "log_query \<Rightarrow> bool" where
  "query_order q = (case lq_desc q of Some desc \<Rightarrow> desc | None \<Rightarrow> (case lq_after q of Some c \<Rightarrow> lk_desc c | None \<Rightarrow> False))"

definition page_of :: "log_selection \<Rightarrow> bool \<Rightarrow> (nat \<times> 'v) list \<times> bool \<Rightarrow> (log_cursor, 'v) log_page" where
  "page_of s desc result = (case result of (rows, further) \<Rightarrow> \<lparr>lp_rows = rows, lp_snapshot = ls_upper s,
     lp_next = (if further then Some \<lparr>lk_events = ls_events s, lk_lower = ls_lower s, lk_upper = ls_upper s, lk_desc = desc,
       lk_position = fst (last rows)\<rparr> else None)\<rparr>)"

definition invalid_records :: runtime_error where
  "invalid_records = Error ''Log index returned invalid records''"

definition read_log :: "('r, 'v) typed_log \<Rightarrow> 'r log_source \<Rightarrow> log_selection \<Rightarrow> log_query \<Rightarrow> runtime_error + (log_cursor, 'v) log_page" where
  "read_log log source s q =
     (let limit = (case lq_limit q of None \<Rightarrow> tl_pageSize log | Some n \<Rightarrow> n); desc = query_order q in
      if \<not> log_accepts log s then Inl (Error ''Invalid log selection or unknown event key'')
      else if \<not> limit_ok limit then Inl (Error ''Log page limit must be a positive safe integer with room for lookahead'')
      else if \<not> (safe_integer (so_position source) \<and> 0 \<le> so_position source) \<or> so_position source < int (ls_upper s)
      then Inl (Error ''Log selection is outside its source prefix'')
      else if (case lq_after q of None \<Rightarrow> False | Some c \<Rightarrow> \<not> cursor_belongs s desc c)
      then Inl (Error ''Log cursor does not belong to this selection'')
      else let (lower, upper) = bounds_after desc (map_option lk_position (lq_after q)) (ls_lower s) (ls_upper s) in
        try_bind (row_loop invalid_records invalid_records (selected_type log (ls_events s)) (\<lambda>_ r. tl_decode log r) (nat limit) desc lower upper
            (log_entries log source (ls_events s) desc lower upper) (first_previous desc lower upper) [])
          (\<lambda>result. Inr (page_of s desc result)))"

text \<open>\<open>readLogViewPage\<close> and the page of an atom view, whose bounds default to the cursor's and the source's.\<close>

definition readLogViewPage :: "('r, 'v) typed_log \<Rightarrow> string list \<Rightarrow> 'r log_source \<Rightarrow> log_selection \<Rightarrow> log_query \<Rightarrow>
    runtime_error + (log_cursor, 'v) log_page" where
  "readLogViewPage log view source s q =
     (if view \<noteq> ls_events s then Inl (Error ''Unknown log view or mismatched selection'') else read_log log source s q)"

definition bound_from :: "nat option \<Rightarrow> nat option \<Rightarrow> nat \<Rightarrow> nat" where
  "bound_from cursor given otherwise = (case cursor of Some b \<Rightarrow> b | None \<Rightarrow> (case given of Some b \<Rightarrow> b | None \<Rightarrow> otherwise))"

definition atom_log_page :: "('r, 'v) typed_log \<Rightarrow> string list \<Rightarrow> 'r log_source \<Rightarrow> nat option \<Rightarrow> nat option \<Rightarrow> log_query \<Rightarrow>
    runtime_error + (log_cursor, 'v) log_page" where
  "atom_log_page log view source lower upper q =
     try_bind (view_range view (bound_from (map_option lk_lower (lq_after q)) lower 0)
         (bound_from (map_option lk_upper (lq_after q)) upper (nat (so_position source)))) (\<lambda>s.
       if (case lower of None \<Rightarrow> False | Some b \<Rightarrow> b \<noteq> ls_lower s) \<or> (case upper of None \<Rightarrow> False | Some b \<Rightarrow> b \<noteq> ls_upper s)
       then Inl (Error ''Log cursor does not belong to this range'')
       else readLogViewPage log view source s q)"

section \<open>Projected logs\<close>

record row_cursor =
  rk_log :: string
  rk_version :: string
  rk_snapshot :: nat
  rk_lower :: nat
  rk_upper :: nat
  rk_desc :: bool
  rk_position :: nat

record row_query =
  rq_lower :: "nat option"
  rq_upper :: "nat option"
  rq_desc :: "bool option"
  rq_after :: "row_cursor option"
  rq_limit :: "int option"

record ('r, 'v) row_log =
  rl_name :: string
  rl_version :: string
  rl_pageSize :: int
  rl_accepts :: "'r \<Rightarrow> bool"
  rl_project :: "nat \<Rightarrow> 'r \<Rightarrow> runtime_error + 'v"

text \<open>
  A replay of \<open>position\<close> records: all of them, and the index of the rows when there is one. \<open>row_range\<close>
  holds the checks of \<open>range\<close>, \<open>row_page\<close> the read of a page.
\<close>

record 'r row_source =
  ro_position :: nat
  ro_records :: "'r list"
  ro_family :: "(nat \<Rightarrow> nat \<Rightarrow> bool \<Rightarrow> (nat \<times> 'r) list) option"

definition row_positions :: "bool \<Rightarrow> nat \<Rightarrow> nat \<Rightarrow> nat list" where
  "row_positions desc lower upper = (if desc then rev [lower..<upper] else [lower..<upper])"

definition row_entries :: "('r, 'v) row_log \<Rightarrow> 'r row_source \<Rightarrow> bool \<Rightarrow> nat \<Rightarrow> nat \<Rightarrow> (nat \<times> 'r) list" where
  "row_entries l source desc lower upper = (case ro_family source of
     Some family \<Rightarrow> family lower upper desc
   | None \<Rightarrow> filter (\<lambda>x. rl_accepts l (snd x)) (map (\<lambda>p. (p, ro_records source ! p)) (row_positions desc lower upper)))"

definition query_bound :: "(row_cursor \<Rightarrow> 'a) \<Rightarrow> 'a option \<Rightarrow> 'a \<Rightarrow> row_query \<Rightarrow> 'a" where
  "query_bound sel given otherwise q = (case rq_after q of
     Some c \<Rightarrow> sel c
   | None \<Rightarrow> (case given of Some b \<Rightarrow> b | None \<Rightarrow> otherwise))"

definition row_cursor_belongs :: "('r, 'v) row_log \<Rightarrow> row_query \<Rightarrow> nat \<Rightarrow> nat \<Rightarrow> bool \<Rightarrow> row_cursor \<Rightarrow> bool" where
  "row_cursor_belongs l q lower upper desc c \<longleftrightarrow>
     rk_log c = rl_name l \<and> rk_version c = rl_version l \<and> position_ok (rk_position c) \<and> lower \<le> rk_position c \<and> rk_position c < upper \<and>
     (rq_lower q = None \<or> rq_lower q = Some lower) \<and> (rq_upper q = None \<or> rq_upper q = Some upper) \<and> (rq_desc q = None \<or> rq_desc q = Some desc)"

definition row_page :: "('r, 'v) row_log \<Rightarrow> 'r row_source \<Rightarrow> row_query \<Rightarrow> runtime_error + (row_cursor, 'v) log_page" where
  "row_page l source q =
     (let snapshot = query_bound rk_snapshot None (ro_position source) q; lower = query_bound rk_lower (rq_lower q) 0 q;
          upper = query_bound rk_upper (rq_upper q) snapshot q; desc = query_bound rk_desc (rq_desc q) False q;
          limit = (case rq_limit q of None \<Rightarrow> rl_pageSize l | Some n \<Rightarrow> n) in
      if \<not> position_ok snapshot \<or> ro_position source < snapshot \<or> \<not> position_ok lower \<or> \<not> position_ok upper \<or> upper < lower \<or> snapshot < upper
      then Inl (Error ''Log range is outside its journal prefix'')
      else if (case rq_after q of None \<Rightarrow> False | Some c \<Rightarrow> \<not> row_cursor_belongs l q lower upper desc c)
      then Inl (Error ''Log cursor does not belong to this range'')
      else let (lo, hi) = bounds_after desc (map_option rk_position (rq_after q)) lower upper in
        try_bind (row_loop (Error ''Log index returned invalid row positions'') (Error ''Log index differs from its journal record'')
            (rl_accepts l) (rl_project l) (nat limit) desc lo hi (map Inr (row_entries l source desc lo hi)) (first_previous desc lo hi) [])
          (\<lambda>(rows, further). Inr \<lparr>lp_rows = rows, lp_snapshot = snapshot,
             lp_next = (if further then Some \<lparr>rk_log = rl_name l, rk_version = rl_version l, rk_snapshot = snapshot, rk_lower = lower,
               rk_upper = upper, rk_desc = desc, rk_position = fst (last rows)\<rparr> else None)\<rparr>))"

definition row_range :: "('r, 'v) row_log \<Rightarrow> 'r row_source \<Rightarrow> row_query \<Rightarrow> runtime_error + (row_cursor, 'v) log_page" where
  "row_range l source q =
     (let bound_ok = (\<lambda>b. case b of None \<Rightarrow> True | Some p \<Rightarrow> position_ok p) in
      if \<not> bound_ok (rq_lower q) \<or> \<not> bound_ok (rq_upper q) then Inl (Error ''Log bounds must be nonnegative safe integers'')
      else if (case rq_after q of None \<Rightarrow> False | Some c \<Rightarrow>
        \<not> (position_ok (rk_snapshot c) \<and> position_ok (rk_lower c) \<and> position_ok (rk_upper c) \<and> position_ok (rk_position c)) \<or>
        rk_log c \<noteq> rl_name l \<or> rk_version c \<noteq> rl_version l)
      then Inl (Error ''Log cursor does not belong to this range'')
      else if \<not> limit_ok (case rq_limit q of None \<Rightarrow> rl_pageSize l | Some n \<Rightarrow> n)
      then Inl (Error ''Log page limit must be a positive safe integer with room for lookahead'')
      else row_page l source q)"

definition row_at :: "('r, 'v) row_log \<Rightarrow> 'r row_source \<Rightarrow> nat \<Rightarrow> runtime_error + 'v option" where
  "row_at l source p =
     (if \<not> position_ok p \<or> max_safe_integer \<le> int p
      then Inl (Error ''Log row position must be a nonnegative safe integer with room for its upper bound'')
      else if ro_position source \<le> p then Inr None
      else try_bind (row_range l source \<lparr>rq_lower = Some p, rq_upper = Some (Suc p), rq_desc = None, rq_after = None, rq_limit = Some 1\<rparr>)
        (\<lambda>page. Inr (case lp_rows page of [] \<Rightarrow> None | (_, v) # _ \<Rightarrow> Some v)))"

section \<open>What a page should hold\<close>

text \<open>\<open>matching\<close> lists the records of a prefix that are kept, in the order of the read.\<close>

definition matching :: "('r \<Rightarrow> bool) \<Rightarrow> 'r list \<Rightarrow> bool \<Rightarrow> nat \<Rightarrow> nat \<Rightarrow> (nat \<times> 'r) list" where
  "matching keep rs desc lower upper = map (\<lambda>p. (p, rs ! p)) (filter (\<lambda>p. keep (rs ! p)) (row_positions desc lower upper))"

lemma set_positions [simp]: "set (row_positions desc lower upper) = {lower..<upper}"
  by (simp add: row_positions_def)

lemma positions_sorted: "sorted_wrt (before desc) (row_positions desc lower upper)"
proof (cases desc)
  case False
  then have "before desc = (<)" by (simp add: before_def fun_eq_iff)
  with False show ?thesis by (simp add: row_positions_def)
next
  case True
  then have "before desc = (\<lambda>p q. q < p)" by (simp add: before_def fun_eq_iff)
  with True show ?thesis by (simp add: row_positions_def sorted_wrt_rev)
qed

lemma before_trans: "transp (before desc)"
  by (auto simp: transp_def before_def split: if_splits)

lemma before_irrefl [simp]: "\<not> before desc p p"
  by (simp add: before_def)

lemma matching_sorted: "sorted_wrt (\<lambda>x y. before desc (fst x) (fst y)) (matching keep rs desc lower upper)"
  using positions_sorted [of desc lower upper] by (auto simp: matching_def sorted_wrt_map intro: sorted_wrt_filter)

lemma set_matching: "(p, r) \<in> set (matching keep rs desc lower upper) \<longleftrightarrow> lower \<le> p \<and> p < upper \<and> r = rs ! p \<and> keep r"
  by (auto simp: matching_def)

lemma batch_enumerate:
  "p \<le> hi \<Longrightarrow> hi \<le> length rs \<Longrightarrow> enumerate p (take (hi - p) (drop p rs)) = map (\<lambda>q. (q, rs ! q)) [p..<hi]"
  by (rule nth_equalityI) (simp_all add: nth_enumerate_eq)

lemma filter_map_positions: "filter (\<lambda>x. keep (snd x)) (map (\<lambda>q. (q, rs ! q)) qs) = map (\<lambda>q. (q, rs ! q)) (filter (\<lambda>q. keep (rs ! q)) qs)"
  by (simp add: filter_map comp_def)

lemma upt_split: "lower \<le> m \<Longrightarrow> m \<le> upper \<Longrightarrow> [lower..<upper] = [lower..<m] @ [m..<upper]"
  by (metis le_add_diff_inverse upt_add_eq_append)

definition reads_range :: "(nat \<Rightarrow> nat \<Rightarrow> 'r list) \<Rightarrow> 'r list \<Rightarrow> bool" where
  "reads_range rd rs \<longleftrightarrow> (\<forall>lo hi. lo \<le> hi \<longrightarrow> hi \<le> length rs \<longrightarrow> rd lo hi = take (hi - lo) (drop lo rs))"

lemma range_asc_matching:
  assumes "reads_range rd rs" "upper \<le> length rs" "0 < b"
  shows "range_asc b rd keep p upper = map Inr (matching keep rs False p upper)"
proof (induction "upper - p" arbitrary: p rule: less_induct)
  case less
  show ?case
  proof (cases "p < upper")
    case True
    let ?hi = "min upper (p + b)"
    have hi: "p < ?hi" "?hi \<le> upper" using True assms(3) by simp_all
    have batch: "rd p ?hi = take (?hi - p) (drop p rs)" using assms(1,2) hi by (simp add: reads_range_def)
    then have "filter (\<lambda>x. keep (snd x)) (enumerate p (rd p ?hi)) = matching keep rs False p ?hi"
      using hi assms(2) by (simp add: batch_enumerate filter_map_positions matching_def row_positions_def)
    moreover have "length (rd p ?hi) = ?hi - p" using batch hi assms(2) by simp
    moreover have "range_asc b rd keep ?hi upper = map Inr (matching keep rs False ?hi upper)"
      using hi True by (intro less) simp
    moreover have "[p..<upper] = [p..<?hi] @ [?hi..<upper]" using hi by (intro upt_split) simp_all
    ultimately show ?thesis using True assms(3)
      by (subst range_asc.simps) (simp add: Let_def matching_def row_positions_def)
  qed (simp add: range_asc.simps matching_def row_positions_def)
qed

lemma range_desc_matching:
  assumes "reads_range rd rs" "0 < b"
  shows "p \<le> length rs \<Longrightarrow> range_desc b rd keep lower p = map Inr (matching keep rs True lower p)"
proof (induction "p - lower" arbitrary: p rule: less_induct)
  case less
  show ?case
  proof (cases "lower < p")
    case True
    let ?lo = "max lower (p - b)"
    have lo: "?lo < p" "lower \<le> ?lo" using True assms(2) by simp_all
    have batch: "rd ?lo p = take (p - ?lo) (drop ?lo rs)" using assms(1) lo less.prems by (simp add: reads_range_def)
    then have "rev (filter (\<lambda>x. keep (snd x)) (enumerate ?lo (rd ?lo p))) = matching keep rs True ?lo p"
      using lo less.prems by (simp add: batch_enumerate filter_map_positions matching_def row_positions_def rev_map rev_filter)
    moreover have "length (rd ?lo p) = p - ?lo" using batch lo less.prems by simp
    moreover have "range_desc b rd keep lower ?lo = map Inr (matching keep rs True lower ?lo)"
      using lo True less.prems by (intro less.hyps) simp_all
    moreover have "[lower..<p] = [lower..<?lo] @ [?lo..<p]" using lo by (intro upt_split) simp_all
    ultimately show ?thesis using True assms(2)
      by (subst range_desc.simps) (simp add: Let_def matching_def row_positions_def)
  qed (simp add: range_desc.simps matching_def row_positions_def)
qed

text \<open>The merge of ordered lists is their ordered union.\<close>

lemma best_head_None: "best_head desc i hs acc = None \<longleftrightarrow> acc = None \<and> (\<forall>h\<in>set hs. h = [])"
proof (induction hs arbitrary: i acc)
  case (Cons h hs)
  show ?case
  proof (cases h)
    case (Cons e es)
    obtain p r where "e = (p, r)" by (cases e)
    with Cons Cons.IH show ?thesis by (auto split: option.splits)
  qed (use Cons.IH in simp)
qed simp

definition heads_before :: "bool \<Rightarrow> nat \<Rightarrow> (nat \<times> 'r) list list \<Rightarrow> bool" where
  "heads_before desc p hs \<longleftrightarrow> (\<forall>h\<in>set hs. h = [] \<or> fst (hd h) = p \<or> before desc p (fst (hd h)))"

text \<open>\<open>chosen\<close> is what the loop over the heads ends with: the entry it was started with, or a head.\<close>

definition chosen :: "nat \<Rightarrow> (nat \<times> 'r) list list \<Rightarrow> (nat \<times> nat) option \<Rightarrow> nat \<Rightarrow> nat \<Rightarrow> bool" where
  "chosen i hs acc k m \<longleftrightarrow> acc = Some (k, m) \<or> (\<exists>j < length hs. k = i + j \<and> hs ! j \<noteq> [] \<and> m = fst (hd (hs ! j)))"

lemma chosen_Cons: "chosen (Suc i) hs acc k m \<Longrightarrow> chosen i (h # hs) acc k m"
  unfolding chosen_def by (metis add_Suc add_Suc_right length_Cons Suc_less_eq nth_Cons_Suc)

lemma before_total: "before desc p q \<or> p = q \<or> before desc q p"
  by (auto simp: before_def)

lemma best_head_least:
  assumes "best_head desc i hs acc = Some k"
  shows "\<exists>m. chosen i hs acc k m \<and> heads_before desc m hs \<and> (\<forall>j q. acc = Some (j, q) \<longrightarrow> q = m \<or> before desc m q)"
  using assms
proof (induction hs arbitrary: i acc)
  case Nil
  then show ?case by (auto simp: heads_before_def chosen_def)
next
  case (Cons h hs)
  show ?case
  proof (cases h)
    case Nil
    with Cons.prems have "best_head desc (Suc i) hs acc = Some k" by simp
    from Cons.IH [OF this] obtain m where m: "chosen (Suc i) hs acc k m" "heads_before desc m hs"
      "\<forall>j q. acc = Some (j, q) \<longrightarrow> q = m \<or> before desc m q" by blast
    from m(2) Nil have "heads_before desc m (h # hs)" by (simp add: heads_before_def)
    with chosen_Cons [OF m(1)] m(3) show ?thesis by blast
  next
    case (Cons e es)
    obtain p r where e: "e = (p, r)" by (cases e)
    define acc' where "acc' = (case acc of None \<Rightarrow> Some (i, p) | Some (j, q) \<Rightarrow> if before desc p q then Some (i, p) else acc)"
    from Cons.prems Cons e have run: "best_head desc (Suc i) hs acc' = Some k" by (simp add: acc'_def)
    from Cons.IH [OF run] obtain m where m: "chosen (Suc i) hs acc' k m" "heads_before desc m hs"
      "\<forall>j q. acc' = Some (j, q) \<longrightarrow> q = m \<or> before desc m q" by blast
    have here: "chosen i (h # hs) acc i p" using Cons e by (auto simp: chosen_def)
    show ?thesis
    proof (cases "acc' = Some (i, p)")
      case True
      then have p: "p = m \<or> before desc m p" using m(3) by blast
      have "chosen i (h # hs) acc k m"
        using m(1) True here chosen_Cons [of i hs None k m h] by (auto simp: chosen_def)
      moreover have "heads_before desc m (h # hs)" using m(2) p Cons e by (simp add: heads_before_def)
      moreover have "q = m \<or> before desc m q" if "acc = Some (j, q)" for j q
      proof -
        have "before desc p q \<or> q = p" using True that by (auto simp: acc'_def split: if_splits)
        with p show ?thesis using transpD [OF before_trans] by blast
      qed
      ultimately show ?thesis by blast
    next
      case False
      then obtain j q where acc: "acc = Some (j, q)" "\<not> before desc p q" "acc' = acc"
        by (auto simp: acc'_def split: option.splits if_splits)
      have "q = m \<or> before desc m q" using m(3) acc by blast
      moreover have "q = p \<or> before desc q p" using acc(2) before_total by blast
      ultimately have "p = m \<or> before desc m p" using transpD [OF before_trans] by blast
      then have "heads_before desc m (h # hs)" using m(2) Cons e by (simp add: heads_before_def)
      moreover have "chosen i (h # hs) acc k m" using m(1) chosen_Cons acc(3) by metis
      ultimately show ?thesis using m(3) acc(3) by metis
    qed
  qed
qed

lemma merge_heads_None: "best_head desc 0 hs None = None \<Longrightarrow> merge_heads desc hs = []"
  by (simp add: merge_heads.simps)

lemma merge_heads_Some: "best_head desc 0 hs None = Some i \<Longrightarrow> merge_heads desc hs = hd (hs ! i) # merge_heads desc (hs[i := tl (hs ! i)])"
  by (simp add: merge_heads.simps)

definition heads_ok :: "bool \<Rightarrow> (nat \<times> 'r) list list \<Rightarrow> bool" where
  "heads_ok desc hs \<longleftrightarrow> (\<forall>h\<in>set hs. sorted_wrt (\<lambda>x y. before desc (fst x) (fst y)) h) \<and>
     (\<forall>i < length hs. \<forall>j < length hs. i \<noteq> j \<longrightarrow> fst ` set (hs ! i) \<inter> fst ` set (hs ! j) = {})"

lemma heads_ok_tl:
  assumes "heads_ok desc hs" "i < length hs"
  shows "heads_ok desc (hs[i := tl (hs ! i)])"
proof -
  have sub: "set (hs[i := tl (hs ! i)] ! j) \<subseteq> set (hs ! j)" if "j < length hs" for j
    using that assms(2) by (cases "hs ! i") (auto simp: nth_list_update split: if_splits)
  let ?R = "\<lambda>x y. before desc (fst x) (fst y)"
  have each: "\<forall>h\<in>set hs. sorted_wrt ?R h" using assms(1) unfolding heads_ok_def by (rule conjunct1)
  have tails: "sorted_wrt ?R h \<Longrightarrow> sorted_wrt ?R (tl h)" for h :: "(nat \<times> 'a) list"
    by (cases h) simp_all
  have sorted: "sorted_wrt ?R (hs[i := tl (hs ! i)] ! j)" if j: "j < length hs" for j
  proof (cases "j = i")
    case True
    have eq: "hs[i := tl (hs ! i)] ! j = tl (hs ! i)" unfolding True using assms(2) by (rule nth_list_update_eq)
    have "sorted_wrt ?R (hs ! i)" using each nth_mem [OF assms(2)] by (rule bspec)
    then show ?thesis unfolding eq by (rule tails)
  next
    case False
    then have eq: "hs[i := tl (hs ! i)] ! j = hs ! j" by simp
    show ?thesis unfolding eq using each nth_mem [OF j] by (rule bspec)
  qed
  have "fst ` set (hs[i := tl (hs ! i)] ! j) \<inter> fst ` set (hs[i := tl (hs ! i)] ! k) = {}" if "j < length hs" "k < length hs" "j \<noteq> k" for j k
  proof -
    have "fst ` set (hs ! j) \<inter> fst ` set (hs ! k) = {}" using assms(1) that unfolding heads_ok_def by blast
    with sub [OF that(1)] sub [OF that(2)] show ?thesis by blast
  qed
  moreover have "\<forall>h\<in>set (hs[i := tl (hs ! i)]). sorted_wrt ?R h"
    using sorted by (metis in_set_conv_nth length_list_update)
  ultimately show ?thesis unfolding heads_ok_def length_list_update by blast
qed

lemma merge_heads_set: "set (merge_heads desc hs) = (\<Union>h\<in>set hs. set h)"
proof (induction desc hs rule: merge_heads.induct)
  case (1 desc hs)
  show ?case
  proof (cases "best_head desc 0 hs None")
    case None
    then show ?thesis by (simp add: merge_heads_None best_head_None)
  next
    case (Some i)
    then have i: "i < length hs" "hs ! i \<noteq> []" using best_head_Some [of desc 0 hs None i] by auto
    have "(\<Union>h\<in>set hs. set h) = insert (hd (hs ! i)) (\<Union>h\<in>set (hs[i := tl (hs ! i)]). set h)"
    proof -
      have "set hs = set (take i hs) \<union> {hs ! i} \<union> set (drop (Suc i) hs)"
        using i(1) by (metis Un_insert_right id_take_nth_drop list.simps(15) set_append sup_bot_right Un_insert_left)
      moreover have "set (hs[i := tl (hs ! i)]) = set (take i hs) \<union> {tl (hs ! i)} \<union> set (drop (Suc i) hs)"
        using i(1) by (simp add: upd_conv_take_nth_drop)
      moreover have "set (hs ! i) = insert (hd (hs ! i)) (set (tl (hs ! i)))" using i(2) by (cases "hs ! i") simp_all
      ultimately show ?thesis by auto
    qed
    with "1" [OF Some] merge_heads_Some [OF Some] show ?thesis by simp
  qed
qed

lemma merge_heads_sorted: "heads_ok desc hs \<Longrightarrow> sorted_wrt (\<lambda>x y. before desc (fst x) (fst y)) (merge_heads desc hs)"
proof (induction desc hs rule: merge_heads.induct)
  case (1 desc hs)
  show ?case
  proof (cases "best_head desc 0 hs None")
    case None
    then show ?thesis by (simp add: merge_heads_None)
  next
    case (Some i)
    obtain m where m: "chosen 0 hs None i m" "heads_before desc m hs" using best_head_least [OF Some] by blast
    then have i: "i < length hs" "hs ! i \<noteq> []" "m = fst (hd (hs ! i))" by (auto simp: chosen_def)
    have "before desc m (fst y)" if y: "y \<in> set h" "h \<in> set (hs[i := tl (hs ! i)])" for y h
    proof -
      from y(2) obtain j where j: "j < length hs" "h = hs[i := tl (hs ! i)] ! j" by (metis in_set_conv_nth length_list_update)
      have sorted: "sorted_wrt (\<lambda>x y. before desc (fst x) (fst y)) (hs ! j)"
        using conjunct1 [OF "1.prems" [unfolded heads_ok_def]] nth_mem [OF j(1)] by (rule bspec)
      show ?thesis
      proof (cases "j = i")
        case True
        with j y(1) i(1) have "y \<in> set (tl (hs ! i))" by simp
        with sorted True i(2,3) show ?thesis by (cases "hs ! i") auto
      next
        case False
        with j y(1) have mem: "y \<in> set (hs ! j)" by simp
        then have "fst (hd (hs ! j)) = m \<or> before desc m (fst (hd (hs ! j)))"
          using m(2) j(1) unfolding heads_before_def by (metis empty_iff list.set(1) nth_mem)
        moreover have "fst y = fst (hd (hs ! j)) \<or> before desc (fst (hd (hs ! j))) (fst y)" using mem sorted by (cases "hs ! j") auto
        moreover have "fst y \<noteq> m"
        proof -
          have "fst ` set (hs ! j) \<inter> fst ` set (hs ! i) = {}" using "1.prems" j(1) i(1) False unfolding heads_ok_def by blast
          moreover have "m \<in> fst ` set (hs ! i)" using i(2,3) by simp
          ultimately show ?thesis using mem by (metis disjoint_iff image_eqI)
        qed
        ultimately show ?thesis using transpD [OF before_trans] by metis
      qed
    qed
    then have "\<forall>y\<in>set (merge_heads desc (hs[i := tl (hs ! i)])). before desc m (fst y)" by (auto simp: merge_heads_set)
    with "1.IH" [OF Some heads_ok_tl [OF "1.prems" i(1)]] merge_heads_Some [OF Some] i(3) show ?thesis by simp
  qed
qed

lemma sorted_positions_unique:
  assumes "sorted_wrt (before desc) ps" "sorted_wrt (before desc) qs" "set ps = set qs"
  shows "ps = qs"
proof (cases desc)
  case False
  then have "before desc = (<)" by (simp add: before_def fun_eq_iff)
  with assms show ?thesis by (metis strict_sorted_equal)
next
  case True
  then have "before desc = (\<lambda>p q. q < p)" by (simp add: before_def fun_eq_iff)
  with assms have "sorted_wrt (<) (rev ps)" "sorted_wrt (<) (rev qs)" "set (rev ps) = set (rev qs)"
    by (simp_all add: sorted_wrt_rev)
  then have "rev ps = rev qs" by (metis strict_sorted_equal)
  then show ?thesis by simp
qed

lemma matching_unique:
  assumes "sorted_wrt (\<lambda>x y. before desc (fst x) (fst y)) es" "\<And>p r. (p, r) \<in> set es \<longleftrightarrow> (p, r) \<in> set (matching keep rs desc lower upper)"
  shows "es = matching keep rs desc lower upper"
proof -
  have same: "set es = set (matching keep rs desc lower upper)" using assms(2) by auto
  have "map fst es = map fst (matching keep rs desc lower upper)"
    using assms(1) matching_sorted [of desc keep rs lower upper]
    by (intro sorted_positions_unique [of desc]) (simp_all add: sorted_wrt_map same)
  moreover have "xs = map (\<lambda>p. (p, rs ! p)) (map fst xs)" if "set xs = set (matching keep rs desc lower upper)" for xs
  proof -
    have "\<forall>x\<in>set xs. (fst x, rs ! fst x) = x" using that by (auto simp: set_matching)
    then show ?thesis by (simp add: map_idI comp_def)
  qed
  ultimately show ?thesis using same by metis
qed

text \<open>An index that files each record under its type gives the same entries as the records themselves.\<close>

definition reads_family :: "('r \<Rightarrow> string option) \<Rightarrow> (string \<Rightarrow> nat \<Rightarrow> nat \<Rightarrow> bool \<Rightarrow> (nat \<times> 'r) list) \<Rightarrow> 'r list \<Rightarrow> bool" where
  "reads_family type_of family rs \<longleftrightarrow> (\<forall>k lower upper desc. upper \<le> length rs \<longrightarrow>
     family k lower upper desc = matching (\<lambda>r. type_of r = Some k) rs desc lower upper)"

definition source_ok :: "('r, 'v) typed_log \<Rightarrow> 'r log_source \<Rightarrow> 'r list \<Rightarrow> bool" where
  "source_ok log source rs \<longleftrightarrow> so_position source = int (length rs) \<and> safe_integer (int (length rs)) \<and> reads_range (so_range source) rs \<and>
     (case so_family source of None \<Rightarrow> True | Some family \<Rightarrow> reads_family (tl_type log) family rs)"

lemma merged_types:
  assumes "reads_family type_of family rs" "distinct events" "upper \<le> length rs"
  shows "merge_heads desc (map (\<lambda>k. family k lower upper desc) events) =
    matching (\<lambda>r. case type_of r of None \<Rightarrow> False | Some t \<Rightarrow> t \<in> set events) rs desc lower upper"
proof (rule matching_unique)
  have heads: "family k lower upper desc = matching (\<lambda>r. type_of r = Some k) rs desc lower upper" for k
    using assms(1,3) by (simp add: reads_family_def)
  have "heads_ok desc (map (\<lambda>k. family k lower upper desc) events)"
    using assms(2) by (auto simp: heads_ok_def heads matching_sorted set_matching nth_eq_iff_index_eq)
  then show "sorted_wrt (\<lambda>x y. before desc (fst x) (fst y)) (merge_heads desc (map (\<lambda>k. family k lower upper desc) events))"
    by (rule merge_heads_sorted)
  fix p r
  show "(p, r) \<in> set (merge_heads desc (map (\<lambda>k. family k lower upper desc) events)) \<longleftrightarrow>
      (p, r) \<in> set (matching (\<lambda>r. case type_of r of None \<Rightarrow> False | Some t \<Rightarrow> t \<in> set events) rs desc lower upper)"
    by (auto simp: merge_heads_set heads set_matching split: option.splits)
qed

lemma entries_matching:
  assumes "source_ok log source rs" "distinct events" "upper \<le> length rs" "0 < nat (tl_batch log)"
  shows "log_entries log source events desc lower upper = map Inr (matching (selected_type log events) rs desc lower upper)"
proof -
  have keep: "selected_type log events = (\<lambda>r. case tl_type log r of None \<Rightarrow> False | Some t \<Rightarrow> t \<in> set events)"
    by (simp add: selected_type_def fun_eq_iff)
  show ?thesis
  proof (cases "so_family source")
    case None
    from assms(1) have "reads_range (so_range source) rs" by (simp add: source_ok_def)
    with None assms(3,4) show ?thesis by (simp add: log_entries_def range_asc_matching range_desc_matching)
  next
    case (Some family)
    with assms(1) have "reads_family (tl_type log) family rs" by (simp add: source_ok_def)
    with Some merged_types [OF _ assms(2,3)] keep show ?thesis by (simp add: log_entries_def)
  qed
qed

section \<open>Pages\<close>

definition decoded :: "(nat \<Rightarrow> 'r \<Rightarrow> runtime_error + 'v) \<Rightarrow> (nat \<times> 'r) list \<Rightarrow> runtime_error + (nat \<times> 'v) list" where
  "decoded dec es = map_try (\<lambda>(p, r). try_bind (dec p r) (\<lambda>v. Inr (p, v))) es"

lemma decoded_positions: "decoded dec es = Inr rows \<Longrightarrow> map fst rows = map fst es"
  unfolding decoded_def by (induction es arbitrary: rows) auto

lemma decoded_append: "decoded dec (xs @ ys) = try_bind (decoded dec xs) (\<lambda>a. try_bind (decoded dec ys) (\<lambda>b. Inr (a @ b)))"
proof (induction xs)
  case Nil
  then show ?case by (cases "decoded dec ys") (simp_all add: decoded_def)
next
  case (Cons x xs)
  obtain p r where x: "x = (p, r)" by (cases x)
  show ?case
  proof (cases "dec p r")
    case (Inr v)
    with x Cons show ?thesis
      by (cases "decoded dec xs"; cases "decoded dec ys") (simp_all add: decoded_def)
  qed (simp add: decoded_def x)
qed

lemma row_loop_page:
  assumes "sorted_wrt (\<lambda>x y. before desc (fst x) (fst y)) es" "\<forall>x\<in>set es. lower \<le> fst x \<and> fst x < upper \<and> position_ok (fst x) \<and> sel (snd x)"
    "\<forall>x\<in>set es. if desc then int (fst x) < previous else previous < int (fst x)" "length rows \<le> limit"
  shows "row_loop pe se sel dec limit desc lower upper (map Inr es) previous rows =
    try_bind (decoded dec (take (limit - length rows) es)) (\<lambda>vs. Inr (rows @ vs, limit - length rows < length es))"
  using assms
proof (induction es arbitrary: previous rows)
  case (Cons e es)
  obtain p r where e: "e = (p, r)" by (cases e)
  have ok: "entry_ok desc lower upper previous p" "sel r" using Cons.prems(2,3) e by (auto simp: entry_ok_def split: if_splits)
  show ?case
  proof (cases "length rows = limit")
    case True
    with ok e show ?thesis by (simp add: decoded_def)
  next
    case False
    then obtain n where n: "limit - length rows = Suc n" using Cons.prems(4) by (metis Suc_diff_Suc le_neq_implies_less)
    show ?thesis
    proof (cases "dec p r")
      case (Inr v)
      have "row_loop pe se sel dec limit desc lower upper (map Inr es) (int p) (rows @ [(p, v)]) =
          try_bind (decoded dec (take (limit - length (rows @ [(p, v)])) es)) (\<lambda>vs. Inr ((rows @ [(p, v)]) @ vs, limit - length (rows @ [(p, v)]) < length es))"
        using Cons.prems e False by (intro Cons.IH) (auto simp: before_def split: if_splits)
      moreover have "limit - length (rows @ [(p, v)]) = n" using n by simp
      ultimately show ?thesis using ok e False Inr n
        by (cases "decoded dec (take n es)") (simp_all add: decoded_def)
    qed (use ok e False n in \<open>simp add: decoded_def\<close>)
  qed
qed (simp add: decoded_def)

text \<open>What follows an entry of the matching records is what matches after its position.\<close>

lemma matching_after:
  assumes "i < length (matching keep rs desc lower upper)" "p = fst (matching keep rs desc lower upper ! i)"
  shows "drop (Suc i) (matching keep rs desc lower upper) =
    (case bounds_after desc (Some p) lower upper of (lo, hi) \<Rightarrow> matching keep rs desc lo hi)"
proof (rule matching_unique [of desc, THEN trans])
  let ?m = "matching keep rs desc lower upper"
  have sorted: "sorted_wrt (\<lambda>x y. before desc (fst x) (fst y)) ?m" by (rule matching_sorted)
  show "sorted_wrt (\<lambda>x y. before desc (fst x) (fst y)) (drop (Suc i) ?m)" using sorted by (rule sorted_wrt_drop)
  have split: "?m = take i ?m @ ?m ! i # drop (Suc i) ?m" using assms(1) by (rule id_take_nth_drop)
  with sorted have parts: "sorted_wrt (\<lambda>x y. before desc (fst x) (fst y)) (take i ?m @ ?m ! i # drop (Suc i) ?m)" by simp
  have "fst x \<noteq> p \<and> \<not> before desc p (fst x)" if "x \<in> set (take i ?m)" for x
  proof -
    have "before desc (fst x) p" using parts that assms(2) unfolding sorted_wrt_append by simp
    then show ?thesis by (auto simp: before_def split: if_splits)
  qed
  moreover have "before desc p (fst x)" if "x \<in> set (drop (Suc i) ?m)" for x
    using parts that assms(2) unfolding sorted_wrt_append by simp
  moreover have "set ?m = set (take i ?m) \<union> {?m ! i} \<union> set (drop (Suc i) ?m)"
    using assms(1) by (metis Un_insert_right id_take_nth_drop list.simps(15) set_append sup_bot_right Un_insert_left)
  moreover have "x = ?m ! i \<Longrightarrow> \<not> before desc p (fst x)" for x using assms(2) by simp
  ultimately have after: "x \<in> set (drop (Suc i) ?m) \<longleftrightarrow> x \<in> set ?m \<and> before desc p (fst x)" for x
    by blast
  show "(q, r) \<in> set (drop (Suc i) ?m) \<longleftrightarrow>
      (q, r) \<in> set (matching keep rs desc (fst (bounds_after desc (Some p) lower upper)) (snd (bounds_after desc (Some p) lower upper)))" for q r
  proof -
    have "lower \<le> p \<and> p < upper" using assms nth_mem [OF assms(1)] by (metis prod.collapse set_matching)
    then show ?thesis unfolding after by (auto simp: set_matching bounds_after_def before_def)
  qed
qed (simp add: split_beta)

definition log_limit :: "('r, 'v) typed_log \<Rightarrow> log_query \<Rightarrow> int" where
  "log_limit log q = (case lq_limit q of None \<Rightarrow> tl_pageSize log | Some n \<Rightarrow> n)"

definition cursor_fits :: "log_selection \<Rightarrow> log_query \<Rightarrow> bool" where
  "cursor_fits s q \<longleftrightarrow> (case lq_after q of None \<Rightarrow> True | Some c \<Rightarrow> cursor_belongs s (query_order q) c)"

definition query_bounds :: "log_selection \<Rightarrow> log_query \<Rightarrow> nat \<times> nat" where
  "query_bounds s q = bounds_after (query_order q) (map_option lk_position (lq_after q)) (ls_lower s) (ls_upper s)"

definition query_matches :: "('r, 'v) typed_log \<Rightarrow> 'r list \<Rightarrow> log_selection \<Rightarrow> log_query \<Rightarrow> (nat \<times> 'r) list" where
  "query_matches log rs s q = matching (selected_type log (ls_events s)) rs (query_order q) (fst (query_bounds s q)) (snd (query_bounds s q))"

definition read_ready :: "('r, 'v) typed_log \<Rightarrow> 'r log_source \<Rightarrow> 'r list \<Rightarrow> log_selection \<Rightarrow> log_query \<Rightarrow> bool" where
  "read_ready log source rs s q \<longleftrightarrow> source_ok log source rs \<and> log_accepts log s \<and> ls_upper s \<le> length rs \<and> limit_ok (log_limit log q) \<and>
     cursor_fits s q \<and> 0 < tl_batch log"

lemma query_bounds_le: "cursor_fits s q \<Longrightarrow> ls_lower s \<le> ls_upper s \<Longrightarrow> ls_lower s \<le> fst (query_bounds s q) \<and> snd (query_bounds s q) \<le> ls_upper s"
  by (auto simp: query_bounds_def bounds_after_def cursor_fits_def cursor_belongs_def split: option.split)

lemma matching_entries_ok:
  assumes "upper \<le> length rs" "safe_integer (int (length rs))" "x \<in> set (matching keep rs desc lower upper)"
  shows "lower \<le> fst x \<and> fst x < upper \<and> position_ok (fst x) \<and> keep (snd x)"
  using assms by (cases x) (auto simp: set_matching position_ok_def safe_integer_def)

lemma read_log_page:
  assumes "read_ready log source rs s q"
  shows "read_log log source s q = try_bind (decoded (\<lambda>_. tl_decode log) (take (nat (log_limit log q)) (query_matches log rs s q)))
    (\<lambda>rows. Inr (page_of s (query_order q) (rows, nat (log_limit log q) < length (query_matches log rs s q))))"
proof -
  let ?m = "query_matches log rs s q" and ?lo = "fst (query_bounds s q)" and ?hi = "snd (query_bounds s q)" and ?desc = "query_order q"
  have bounds: "ls_lower s \<le> ?lo" "?hi \<le> ls_upper s" "ls_lower s \<le> ls_upper s"
    using assms query_bounds_le [of s q] by (auto simp: read_ready_def log_accepts_def selection_ok_def)
  have ready: "source_ok log source rs" "ls_upper s \<le> length rs" "safe_integer (int (length rs))"
    using assms by (simp_all add: read_ready_def source_ok_def)
  have distinct: "distinct (ls_events s)"
    using assms by (auto simp: read_ready_def log_accepts_def selection_ok_def events_ok_def strict_sorted_iff)
  have entries: "log_entries log source (ls_events s) ?desc ?lo ?hi = map Inr ?m"
    using ready bounds(2) distinct assms by (simp add: entries_matching query_matches_def read_ready_def)
  have within: "?lo \<le> fst x \<and> fst x < ?hi \<and> position_ok (fst x) \<and> selected_type log (ls_events s) (snd x)" if "x \<in> set ?m" for x
    using that ready(2,3) bounds(2) unfolding query_matches_def by (intro matching_entries_ok) simp_all
  have loop: "row_loop invalid_records invalid_records (selected_type log (ls_events s)) (\<lambda>_ r. tl_decode log r) (nat (log_limit log q)) ?desc ?lo ?hi
      (map Inr ?m) (first_previous ?desc ?lo ?hi) [] =
      try_bind (decoded (\<lambda>_. tl_decode log) (take (nat (log_limit log q) - length ([] :: (nat \<times> 'b) list)) ?m))
        (\<lambda>vs. Inr ([] @ vs, nat (log_limit log q) - length ([] :: (nat \<times> 'b) list) < length ?m))"
  proof (rule row_loop_page)
    show "sorted_wrt (\<lambda>x y. before ?desc (fst x) (fst y)) ?m" unfolding query_matches_def by (rule matching_sorted)
    show "\<forall>x\<in>set ?m. if ?desc then int (fst x) < first_previous ?desc ?lo ?hi else first_previous ?desc ?lo ?hi < int (fst x)"
    proof
      fix x
      assume "x \<in> set ?m"
      from within [OF this] have "?lo \<le> fst x" "fst x < ?hi" by blast+
      then show "if ?desc then int (fst x) < first_previous ?desc ?lo ?hi else first_previous ?desc ?lo ?hi < int (fst x)"
        by (simp add: first_previous_def)
    qed
  qed (use within in simp_all)
  have fits: "\<not> (case lq_after q of None \<Rightarrow> False | Some c \<Rightarrow> \<not> cursor_belongs s ?desc c)"
    using assms by (auto simp: read_ready_def cursor_fits_def split: option.splits)
  have source: "\<not> (\<not> (safe_integer (so_position source) \<and> 0 \<le> so_position source) \<or> so_position source < int (ls_upper s))"
    using ready by (simp add: source_ok_def)
  have "read_log log source s q = try_bind (row_loop invalid_records invalid_records (selected_type log (ls_events s)) (\<lambda>_ r. tl_decode log r)
      (nat (log_limit log q)) ?desc ?lo ?hi (log_entries log source (ls_events s) ?desc ?lo ?hi) (first_previous ?desc ?lo ?hi) [])
      (\<lambda>result. Inr (page_of s ?desc result))"
    using assms unfolding read_log_def Let_def if_not_P [OF fits] if_not_P [OF source]
    by (simp add: read_ready_def log_limit_def query_bounds_def split_beta)
  then show ?thesis unfolding entries loop
    by (cases "decoded (\<lambda>_. tl_decode log) (take (nat (log_limit log q)) ?m)") simp_all
qed

text \<open>\<open>read_pages\<close> follows the cursors, at most \<open>n\<close> pages.\<close>

fun read_pages :: "nat \<Rightarrow> ('r, 'v) typed_log \<Rightarrow> 'r log_source \<Rightarrow> log_selection \<Rightarrow> log_query \<Rightarrow> runtime_error + (nat \<times> 'v) list" where
  "read_pages 0 log source s q = Inr []"
| "read_pages (Suc n) log source s q = try_bind (read_log log source s q) (\<lambda>page. case lp_next page of
     None \<Rightarrow> Inr (lp_rows page)
   | Some c \<Rightarrow> try_bind (read_pages n log source s (q\<lparr>lq_after := Some c\<rparr>)) (\<lambda>rows. Inr (lp_rows page @ rows)))"

lemma next_query:
  assumes "read_ready log source rs s q" "i < length (query_matches log rs s q)"
    "c = \<lparr>lk_events = ls_events s, lk_lower = ls_lower s, lk_upper = ls_upper s, lk_desc = query_order q,
       lk_position = fst (query_matches log rs s q ! i)\<rparr>"
  shows "read_ready log source rs s (q\<lparr>lq_after := Some c\<rparr>) \<and>
    query_matches log rs s (q\<lparr>lq_after := Some c\<rparr>) = drop (Suc i) (query_matches log rs s q)"
proof -
  let ?p = "fst (query_matches log rs s q ! i)"
  have bounds: "ls_lower s \<le> fst (query_bounds s q)" "snd (query_bounds s q) \<le> ls_upper s"
    using assms(1) query_bounds_le [of s q] by (auto simp: read_ready_def log_accepts_def selection_ok_def)
  have ready: "ls_upper s \<le> length rs" "safe_integer (int (length rs))" "selection_ok s"
    using assms(1) by (simp_all add: read_ready_def source_ok_def log_accepts_def)
  have p: "fst (query_bounds s q) \<le> ?p \<and> ?p < snd (query_bounds s q) \<and> position_ok ?p"
    using matching_entries_ok [OF _ ready(2) nth_mem [OF assms(2) [unfolded query_matches_def]]] ready(1) bounds(2)
    by (simp add: query_matches_def)
  have order: "query_order (q\<lparr>lq_after := Some c\<rparr>) = query_order q"
    by (simp add: query_order_def assms(3) split: option.split)
  have "cursor_fits s (q\<lparr>lq_after := Some c\<rparr>)"
    unfolding cursor_fits_def order using ready(3) p bounds assms(3)
    by (simp add: cursor_belongs_def cursor_ok_def selection_ok_def)
  with assms(1) have "read_ready log source rs s (q\<lparr>lq_after := Some c\<rparr>)" by (simp add: read_ready_def log_limit_def)
  moreover have "query_bounds s (q\<lparr>lq_after := Some c\<rparr>) = bounds_after (query_order q) (Some ?p) (fst (query_bounds s q)) (snd (query_bounds s q))"
    using assms(3) order by (auto simp: query_bounds_def bounds_after_def split: option.split)
  ultimately show ?thesis
    using matching_after [OF assms(2) [unfolded query_matches_def] refl] order by (simp add: query_matches_def split_beta)
qed

lemma read_pages_matches:
  "read_ready log source rs s q \<Longrightarrow> length (query_matches log rs s q) < n \<Longrightarrow>
   read_pages n log source s q = decoded (\<lambda>_. tl_decode log) (query_matches log rs s q)"
proof (induction n arbitrary: q)
  case (Suc n)
  let ?m = "query_matches log rs s q" and ?l = "nat (log_limit log q)" and ?dec = "\<lambda>_ :: nat. tl_decode log"
  have limit: "0 < ?l" using Suc.prems(1) by (simp add: read_ready_def limit_ok_def)
  show ?case
  proof (cases "decoded ?dec (take ?l ?m)")
    case (Inl e)
    have "decoded ?dec ?m = Inl e" using decoded_append [of ?dec "take ?l ?m" "drop ?l ?m"] Inl by simp
    with Inl show ?thesis by (simp add: read_log_page [OF Suc.prems(1)])
  next
    case (Inr rows)
    show ?thesis
    proof (cases "?l < length ?m")
      case False
      with Inr show ?thesis by (simp add: read_log_page [OF Suc.prems(1)] page_of_def)
    next
      case True
      have positions: "map fst rows = map fst (take ?l ?m)" using decoded_positions [OF Inr] .
      moreover have nonempty: "take ?l ?m \<noteq> []" using limit True by (cases ?m) simp_all
      moreover have "last (take ?l ?m) = ?m ! (?l - 1)" using True last_conv_nth [OF nonempty] limit by (simp add: min_def)
      ultimately have lastp: "fst (last rows) = fst (?m ! (?l - 1))" by (metis last_map list.map_disc_iff)
      define c where "c = \<lparr>lk_events = ls_events s, lk_lower = ls_lower s, lk_upper = ls_upper s, lk_desc = query_order q,
        lk_position = fst (?m ! (?l - 1))\<rparr>"
      have i: "?l - 1 < length ?m" using True by simp
      have "read_ready log source rs s (q\<lparr>lq_after := Some c\<rparr>) \<and> query_matches log rs s (q\<lparr>lq_after := Some c\<rparr>) = drop (Suc (?l - 1)) ?m"
        using next_query [OF Suc.prems(1) i c_def] .
      moreover have "Suc (?l - 1) = ?l" using limit by simp
      ultimately have nextq: "read_ready log source rs s (q\<lparr>lq_after := Some c\<rparr>)" "query_matches log rs s (q\<lparr>lq_after := Some c\<rparr>) = drop ?l ?m"
        by simp_all
      have "read_pages n log source s (q\<lparr>lq_after := Some c\<rparr>) = decoded ?dec (drop ?l ?m)"
        using Suc.IH [OF nextq(1)] nextq(2) Suc.prems(2) limit True by simp
      moreover have "read_log log source s q = Inr (page_of s (query_order q) (rows, True))"
        using Inr True by (simp add: read_log_page [OF Suc.prems(1)])
      moreover have "lp_next (page_of s (query_order q) (rows, True)) = Some c" "lp_rows (page_of s (query_order q) (rows, True)) = rows"
        by (simp_all add: page_of_def c_def lastp)
      ultimately show ?thesis using decoded_append [of ?dec "take ?l ?m" "drop ?l ?m"] Inr by simp
    qed
  qed
qed simp

section \<open>Properties\<close>

text \<open>
  C13. Following the cursors of a typed log from its first page reads each matching record of the
  selection once and in order, in either order and from batches as from the index of types; a record
  that does not decode fails the read. One page more than the source has records is enough.
\<close>

theorem log_pages_cover:
  assumes "source_ok log source rs" "log_accepts log s" "ls_upper s \<le> length rs" "limit_ok (log_limit log q)" "0 < tl_batch log"
    "lq_after q = None" "length rs < n"
  shows "read_pages n log source s q =
    decoded (\<lambda>_. tl_decode log) (matching (selected_type log (ls_events s)) rs (query_order q) (ls_lower s) (ls_upper s))"
proof -
  have "read_ready log source rs s q" using assms by (simp add: read_ready_def cursor_fits_def)
  moreover have "query_matches log rs s q = matching (selected_type log (ls_events s)) rs (query_order q) (ls_lower s) (ls_upper s)"
    using assms(6) by (simp add: query_matches_def query_bounds_def bounds_after_def)
  moreover have "length (matching (selected_type log (ls_events s)) rs (query_order q) (ls_lower s) (ls_upper s)) \<le> ls_upper s - ls_lower s"
    unfolding matching_def by (simp add: row_positions_def) (metis length_filter_le length_rev length_upt)
  ultimately show ?thesis using read_pages_matches [of log source rs s q n] assms(3,7) by simp
qed

text \<open>The page of a projected log, when its source reads the journal it replays.\<close>

definition row_source_ok :: "('r, 'v) row_log \<Rightarrow> 'r row_source \<Rightarrow> bool" where
  "row_source_ok l source \<longleftrightarrow> ro_position source = length (ro_records source) \<and> safe_integer (int (length (ro_records source))) \<and>
     (case ro_family source of None \<Rightarrow> True
      | Some family \<Rightarrow> \<forall>lower upper desc. upper \<le> length (ro_records source) \<longrightarrow>
          family lower upper desc = matching (rl_accepts l) (ro_records source) desc lower upper)"

lemma row_entries_matching:
  "row_source_ok l source \<Longrightarrow> upper \<le> length (ro_records source) \<Longrightarrow>
     row_entries l source desc lower upper = matching (rl_accepts l) (ro_records source) desc lower upper"
  by (auto simp: row_entries_def row_source_ok_def matching_def filter_map comp_def split: option.splits)

lemma row_loop_matching:
  assumes "upper \<le> length rs" "safe_integer (int (length rs))"
  shows "row_loop pe se sel dec limit desc lower upper (map Inr (matching sel rs desc lower upper)) (first_previous desc lower upper) [] =
    try_bind (decoded dec (take limit (matching sel rs desc lower upper))) (\<lambda>rows. Inr (rows, limit < length (matching sel rs desc lower upper)))"
proof -
  have within: "lower \<le> fst x \<and> fst x < upper \<and> position_ok (fst x) \<and> sel (snd x)" if "x \<in> set (matching sel rs desc lower upper)" for x
    using matching_entries_ok [OF assms that] .
  have "row_loop pe se sel dec limit desc lower upper (map Inr (matching sel rs desc lower upper)) (first_previous desc lower upper) [] =
    try_bind (decoded dec (take (limit - length ([] :: (nat \<times> 'b) list)) (matching sel rs desc lower upper)))
      (\<lambda>vs. Inr ([] @ vs, limit - length ([] :: (nat \<times> 'b) list) < length (matching sel rs desc lower upper)))"
  proof (rule row_loop_page)
    show "\<forall>x\<in>set (matching sel rs desc lower upper). if desc then int (fst x) < first_previous desc lower upper else first_previous desc lower upper < int (fst x)"
    proof
      fix x
      assume "x \<in> set (matching sel rs desc lower upper)"
      from within [OF this] have "lower \<le> fst x" "fst x < upper" by blast+
      then show "if desc then int (fst x) < first_previous desc lower upper else first_previous desc lower upper < int (fst x)"
        by (simp add: first_previous_def)
    qed
  qed (use within matching_sorted in auto)
  then show ?thesis by simp
qed

text \<open>
  A page of a projected log, with or without an index, is the projection of the first matching
  records of its range, or the first error of projecting them, and it has a cursor exactly when more
  records match.
\<close>

theorem row_page_slice:
  assumes "row_source_ok l source" "rq_after q = None" "limit_ok (case rq_limit q of None \<Rightarrow> rl_pageSize l | Some n \<Rightarrow> n)"
    "rq_lower q = Some lower" "rq_upper q = Some upper" "lower \<le> upper" "upper \<le> length (ro_records source)"
    "rows = matching (rl_accepts l) (ro_records source) (rq_desc q = Some True) lower upper"
    "limit = nat (case rq_limit q of None \<Rightarrow> rl_pageSize l | Some n \<Rightarrow> n)"
  shows "try_bind (row_range l source q) (\<lambda>page. Inr (lp_rows page, lp_next page \<noteq> None)) =
    try_bind (decoded (rl_project l) (take limit rows)) (\<lambda>vs. Inr (vs, limit < length rows))"
proof -
  have safe: "position_ok lower" "position_ok upper" "position_ok (length (ro_records source))"
    using assms(1,6,7) by (auto simp: row_source_ok_def position_ok_def safe_integer_def)
  have desc: "query_bound rk_desc (rq_desc q) False q = (rq_desc q = Some True)"
    using assms(2) by (auto simp: query_bound_def split: option.split)
  have loop: "row_loop pe se (rl_accepts l) (rl_project l) limit (rq_desc q = Some True) lower upper
      (map Inr (row_entries l source (rq_desc q = Some True) lower upper)) (first_previous (rq_desc q = Some True) lower upper) [] =
    try_bind (decoded (rl_project l) (take limit rows)) (\<lambda>vs. Inr (vs, limit < length rows))" for pe se
    using row_loop_matching [OF assms(7)] assms(1) unfolding assms(8)
    by (simp add: row_entries_matching [OF assms(1,7)] row_source_ok_def)
  have "ro_position source = length (ro_records source)" using assms(1) by (simp add: row_source_ok_def)
  then have "row_range l source q = row_page l source q"
    using assms(2-5) safe by (simp add: row_range_def)
  with assms(2,4-7,9) safe desc loop \<open>ro_position source = length (ro_records source)\<close> show ?thesis
    by (cases "decoded (rl_project l) (take limit rows)") (simp_all add: row_page_def Let_def query_bound_def bounds_after_def)
qed

section \<open>Example\<close>

text \<open>A journal of strings, each its own type; one type is not selected.\<close>

definition demo_log :: "(string, nat) typed_log" where
  "demo_log = \<lparr>tl_keys = [''a'', ''b''], tl_pageSize = 1, tl_batch = 2, tl_type = Some, tl_decode = (\<lambda>r. Inr (length r))\<rparr>"

definition demo_records :: "string list" where
  "demo_records = [''b'', ''c'', ''a'']"

definition demo_source :: "string log_source" where
  "demo_source = \<lparr>so_position = 3, so_range = (\<lambda>lo hi. take (hi - lo) (drop lo demo_records)), so_family = None\<rparr>"

definition demo_selection :: log_selection where
  "demo_selection = \<lparr>ls_events = [''a'', ''b''], ls_lower = 0, ls_upper = 3\<rparr>"

definition demo_query :: log_query where
  "demo_query = \<lparr>lq_limit = None, lq_desc = Some True, lq_after = None\<rparr>"

lemma demo_log_ok: "source_ok demo_log demo_source demo_records" "log_accepts demo_log demo_selection"
  "ls_upper demo_selection \<le> length demo_records" "limit_ok (log_limit demo_log demo_query)" "0 < tl_batch demo_log"
  "lq_after demo_query = None" "length demo_records < 4"
  by (simp_all add: source_ok_def demo_log_def demo_source_def demo_records_def reads_range_def safe_integer_def max_safe_integer_def
      log_accepts_def selection_ok_def events_ok_def demo_selection_def position_ok_def limit_ok_def log_limit_def demo_query_def less_char_def)

theorem log_pages_cover_witness: "read_pages 4 demo_log demo_source demo_selection demo_query = Inr [(2, 1), (0, 1)]"
  using log_pages_cover [OF demo_log_ok]
  by (simp add: decoded_def matching_def row_positions_def query_order_def demo_query_def demo_selection_def demo_records_def demo_log_def
      selected_type_def upt_rec)

definition demo_rows :: "(string, nat) row_log" where
  "demo_rows = \<lparr>rl_name = ''rows'', rl_version = ''1'', rl_pageSize = 1, rl_accepts = (\<lambda>r. r \<noteq> ''c''), rl_project = (\<lambda>p r. Inr p)\<rparr>"

theorem row_page_slice_witness:
  "try_bind (row_range demo_rows \<lparr>ro_position = 3, ro_records = demo_records, ro_family = None\<rparr>
     \<lparr>rq_lower = Some 0, rq_upper = Some 3, rq_desc = None, rq_after = None, rq_limit = None\<rparr>) (\<lambda>page. Inr (lp_rows page, lp_next page \<noteq> None)) =
   Inr ([(0, 0)], True)"
  using row_page_slice [of demo_rows "\<lparr>ro_position = 3, ro_records = demo_records, ro_family = None\<rparr>"
      "\<lparr>rq_lower = Some 0, rq_upper = Some 3, rq_desc = None, rq_after = None, rq_limit = None\<rparr>" 0 3 _ 1, OF _ _ _ _ _ _ _ refl]
  by (simp add: row_source_ok_def demo_rows_def demo_records_def safe_integer_def max_safe_integer_def limit_ok_def matching_def
      row_positions_def upt_rec decoded_def)

end
