(* ===== verification/Threads.thy ===== *)
theory Threads
  imports DurableAtoms
begin

text \<open>
  The life of a thread's journal (\<open>packages/core/src/services/journal/thread.ts\<close>) and the state it may
  start with (\<open>runtime/initialisation.ts\<close>). A journal is its list of records; a conditional append
  applies only to a journal of the expected length. Hosts race: between what a host reads and what it
  appends others may write, so a host is a sequence of steps over the shared journal.
\<close>

section \<open>Initial state\<close>

record destination_atom =
  dn_name :: string
  dn_decodes :: "json \<Rightarrow> bool"

fun collect_codecs :: "destination_atom list \<Rightarrow> (string \<times> destination_atom) list \<Rightarrow> runtime_error + (string \<times> destination_atom) list" where
  "collect_codecs [] acc = Inr acc"
| "collect_codecs (a # as) acc =
     (if js_has acc (dn_name a) then Inl (Error (''Duplicate destination atom: '' @ dn_name a))
      else collect_codecs as (js_set (dn_name a) a acc))"

definition check_entry :: "(string \<times> destination_atom) list \<Rightarrow> string \<times> json \<Rightarrow> unit \<Rightarrow> runtime_error + unit" where
  "check_entry codecs entry u = (case entry of (name, v) \<Rightarrow> (case map_of codecs name of
     None \<Rightarrow> Inl (Error (''Unknown initial state atom: '' @ name))
   | Some a \<Rightarrow> if dn_decodes a v then Inr () else Inl (Error (''Invalid initial state for atom '' @ name))))"

text \<open>\<open>prepareInitialState\<close>; the state is given by its entries.\<close>

definition prepareInitialState :: "destination_atom list \<Rightarrow> (string \<times> json) list \<Rightarrow> json option \<Rightarrow> runtime_error + state_initialised" where
  "prepareInitialState atoms entries origin =
     (if \<not> initial_state_ok (fmap_of_list entries) then Inl SchemaError
      else try_bind (collect_codecs atoms []) (\<lambda>codecs. try_bind (fold_try (check_entry codecs) entries ()) (\<lambda>_.
        Inr \<lparr>si_state = fmap_of_list entries, si_source = origin\<rparr>)))"

fun state_event :: "journal_event \<Rightarrow> state_initialised option" where
  "state_event (Core (StateInitialised e)) = Some e"
| "state_event _ = None"

fun find_state_event :: "recorded list \<Rightarrow> state_initialised option" where
  "find_state_event [] = None"
| "find_state_event (r # rs) = (case state_event (rec_event r) of Some e \<Rightarrow> Some e | None \<Rightarrow> find_state_event rs)"

definition plain_record :: "nat option \<Rightarrow> journal_event \<Rightarrow> recorded" where
  "plain_record recordedAt e = recorded_of \<lparr>rm_message = None, rm_recordedAt = recordedAt\<rparr> e"

text \<open>\<open>initialiseState\<close> with the prepared event: the journal afterwards.\<close>

definition initialiseState :: "state_initialised \<Rightarrow> recorded list \<Rightarrow> runtime_error + recorded list" where
  "initialiseState e records =
     (if find_state_event records = Some e then Inr records
      else if 1 < length records \<or> list_ex (\<lambda>r. \<not> is_created (rec_event r)) records
      then Inl (Error ''State initialisation requires a fresh journal'')
      else Inr (records @ [plain_record None (Core (StateInitialised e))]))"

section \<open>Creation\<close>

fun created_event :: "journal_event \<Rightarrow> thread_created option" where
  "created_event (Core (ThreadCreated c)) = Some c"
| "created_event _ = None"

definition decodeCreation :: "recorded \<Rightarrow> runtime_error + thread_created" where
  "decodeCreation r = (case created_event (rec_event r) of
     Some c \<Rightarrow> if thread_created_ok c \<and> record_metadata_ok r then Inr c else Inl SchemaError
   | None \<Rightarrow> Inl SchemaError)"

definition readThreadCreation :: "recorded list \<Rightarrow> thread_coordinate \<Rightarrow> runtime_error + thread_created" where
  "readThreadCreation records address = (case records of
     [] \<Rightarrow> Inl (Error ''Thread journal has no creation record'')
   | r # _ \<Rightarrow> try_bind (decodeCreation r) (\<lambda>c.
       if created_address c \<noteq> address then Inl (Error ''Thread creation address differs from its journal'') else Inr c))"

definition same_lineage :: "thread_created \<Rightarrow> thread_created \<Rightarrow> bool" where
  "same_lineage c c' \<longleftrightarrow> c\<lparr>created_version := None\<rparr> = c'\<lparr>created_version := None\<rparr>"

definition validateCreation :: "thread_created \<Rightarrow> state_initialised option \<Rightarrow> recorded list \<Rightarrow> runtime_error + unit" where
  "validateCreation created seeded records = (case records of
     [] \<Rightarrow> Inl (Error ''Thread journal has no creation record'')
   | r # rest \<Rightarrow> try_bind (decodeCreation r) (\<lambda>previous.
       if \<not> same_lineage previous created then Inl (Error ''Thread creation lineage differs from its allocation'')
       else (case seeded of
          None \<Rightarrow> Inr ()
        | Some e \<Rightarrow> if (case rest of [] \<Rightarrow> True | r # _ \<Rightarrow> rec_event r \<noteq> Core (StateInitialised e))
            then Inl (Error ''Thread initial state differs from its allocation'') else Inr ())))"

definition creation_records :: "nat \<Rightarrow> thread_created \<Rightarrow> state_initialised option \<Rightarrow> recorded list" where
  "creation_records now created seeded = plain_record (Some now) (Core (ThreadCreated created)) #
     (case seeded of None \<Rightarrow> [] | Some e \<Rightarrow> [plain_record (Some now) (Core (StateInitialised e))])"

text \<open>
  \<open>initializeThread\<close> as the steps of a host: it decodes its input, reads the first record, and either
  validates it or appends to the journal of length 0; a conflict makes it validate what is there.
\<close>

record allocation_input =
  al_created :: thread_created
  al_seeded :: "state_initialised option"

datatype host_phase = HostStart | HostAppends | HostDone "runtime_error + unit"

definition host_step :: "nat \<Rightarrow> allocation_input \<Rightarrow> host_phase \<Rightarrow> recorded list \<Rightarrow> host_phase \<times> recorded list" where
  "host_step now input phase records = (case phase of
     HostStart \<Rightarrow>
       if \<not> thread_created_ok (al_created input) \<or> (case al_seeded input of None \<Rightarrow> False | Some e \<Rightarrow> \<not> initial_state_ok (si_state e))
       then (HostDone (Inl SchemaError), records)
       else if records \<noteq> [] then (HostDone (validateCreation (al_created input) (al_seeded input) records), records)
       else (HostAppends, records)
   | HostAppends \<Rightarrow>
       if records = [] then (HostDone (Inr ()), creation_records now (al_created input) (al_seeded input))
       else (HostDone (validateCreation (al_created input) (al_seeded input) records), records)
   | HostDone r \<Rightarrow> (HostDone r, records))"

text \<open>Reachable states of hosts with the given allocations; a thread that exists may be written by anyone.\<close>

inductive threads_reach :: "(nat \<Rightarrow> allocation_input) \<Rightarrow> (nat \<Rightarrow> host_phase) \<Rightarrow> recorded list \<Rightarrow> bool" for inputs where
  fresh: "threads_reach inputs (\<lambda>_. HostStart) []"
| host: "threads_reach inputs phases records \<Longrightarrow> host_step now (inputs h) (phases h) records = (phase, records') \<Longrightarrow>
     safe_integer (int now) \<Longrightarrow> threads_reach inputs (phases(h := phase)) records'"
| writer: "threads_reach inputs phases records \<Longrightarrow> records \<noteq> [] \<Longrightarrow> threads_reach inputs phases (records @ new)"

section \<open>Versions\<close>

fun version_event :: "journal_event \<Rightarrow> string option" where
  "version_event (Core (ThreadUpdated v)) = Some v"
| "version_event _ = None"

definition read_version :: "thread_created \<Rightarrow> recorded list \<Rightarrow> runtime_error + string option" where
  "read_version created records = fold_try (\<lambda>r v. case version_event (rec_event r) of
     None \<Rightarrow> Inr v
   | Some u \<Rightarrow> if u = [] then Inl SchemaError else Inr (Some u)) records (created_version created)"

text \<open>
  \<open>updateThreadVersion\<close> reads the version and appends the new one when it differs; \<open>written\<close> is the
  journal at the time of the append.
\<close>

definition updateThreadVersion :: "thread_coordinate \<Rightarrow> string \<Rightarrow> nat \<Rightarrow> recorded list \<Rightarrow> recorded list \<Rightarrow> runtime_error + recorded list" where
  "updateThreadVersion address version now records written =
     (if version = [] then Inl SchemaError
      else try_bind (readThreadCreation records address) (\<lambda>created.
        try_bind (read_version created records) (\<lambda>latest.
          if latest = Some version then Inr written
          else if length written \<noteq> length records then Inl (Error ''Journal conflict'')
          else Inr (written @ [plain_record (Some now) (Core (ThreadUpdated version))]))))"

section \<open>Lemmas\<close>

lemma rec_event_plain [simp]: "rec_event (plain_record now e) = e"
  by (simp add: plain_record_def)

lemma metadata_plain [simp]: "record_metadata_ok (plain_record (Some now) e) \<longleftrightarrow> safe_integer (int now)"
  by (simp add: plain_record_def recorded_of_def record_metadata_ok_def)

lemma validate_append:
  assumes "records \<noteq> []" "validateCreation c s records = Inr ()"
  shows "validateCreation c s (records @ new) = Inr ()"
proof -
  obtain r rest where records: "records = r # rest" using assms(1) by (cases records) simp_all
  show ?thesis
  proof (cases s)
    case None
    with assms(2) records show ?thesis by (cases "decodeCreation r") (simp_all add: validateCreation_def split: if_splits)
  next
    case (Some e)
    with assms(2) records show ?thesis
      by (cases rest; cases "decodeCreation r") (simp_all add: validateCreation_def split: if_splits)
  qed
qed

lemma same_lineage_refl [simp]: "same_lineage c c"
  by (simp add: same_lineage_def)

lemma validate_creation: "thread_created_ok c \<Longrightarrow> safe_integer (int now) \<Longrightarrow> validateCreation c s (creation_records now c s @ later) = Inr ()"
  by (simp add: validateCreation_def creation_records_def decodeCreation_def split: option.split)

text \<open>The first records are a host's creation, and a host that completed finds its allocation in them.\<close>

definition created_by :: "(nat \<Rightarrow> allocation_input) \<Rightarrow> (nat \<Rightarrow> host_phase) \<Rightarrow> recorded list \<Rightarrow> nat \<Rightarrow> bool" where
  "created_by inputs phases records h \<longleftrightarrow> phases h = HostDone (Inr ()) \<and> thread_created_ok (al_created (inputs h)) \<and>
     (\<exists>now later. records = creation_records now (al_created (inputs h)) (al_seeded (inputs h)) @ later)"

definition host_ok :: "allocation_input \<Rightarrow> host_phase \<Rightarrow> recorded list \<Rightarrow> bool" where
  "host_ok input phase records \<longleftrightarrow> (phase = HostAppends \<longrightarrow> thread_created_ok (al_created input)) \<and>
     (phase = HostDone (Inr ()) \<longrightarrow> validateCreation (al_created input) (al_seeded input) records = Inr ())"

definition threads_ok :: "(nat \<Rightarrow> allocation_input) \<Rightarrow> (nat \<Rightarrow> host_phase) \<Rightarrow> recorded list \<Rightarrow> bool" where
  "threads_ok inputs phases records \<longleftrightarrow> (records = [] \<or> (\<exists>h. created_by inputs phases records h)) \<and> (\<forall>h. host_ok (inputs h) (phases h) records)"

lemma threads_ok_same:
  assumes "threads_ok inputs phases records" "phases h \<noteq> HostDone (Inr ())" "host_ok (inputs h) phase records"
  shows "threads_ok inputs (phases(h := phase)) records"
  using assms unfolding threads_ok_def created_by_def by (metis fun_upd_apply)

lemma empty_undone: "threads_ok inputs phases [] \<Longrightarrow> phases h \<noteq> HostDone (Inr ())"
  unfolding threads_ok_def host_ok_def by (auto simp: validateCreation_def)

lemma threads_ok_created:
  assumes "threads_ok inputs phases []" "thread_created_ok (al_created (inputs h))" "safe_integer (int now)"
  shows "threads_ok inputs (phases(h := HostDone (Inr ()))) (creation_records now (al_created (inputs h)) (al_seeded (inputs h)))"
proof -
  let ?rs = "creation_records now (al_created (inputs h)) (al_seeded (inputs h))"
  have valid: "validateCreation (al_created (inputs h)) (al_seeded (inputs h)) ?rs = Inr ()"
    using validate_creation [OF assms(2,3), of _ "[]"] by simp
  have "created_by inputs (phases(h := HostDone (Inr ()))) ?rs h" using assms(2) by (auto simp: created_by_def)
  moreover have "host_ok (inputs k) ((phases(h := HostDone (Inr ()))) k) ?rs" for k
    using assms(1) empty_undone [OF assms(1), of k] valid by (auto simp: threads_ok_def host_ok_def)
  ultimately show ?thesis unfolding threads_ok_def by blast
qed

lemma host_step_ok:
  assumes "threads_ok inputs phases records" "host_step now (inputs h) (phases h) records = (phase, records')" "safe_integer (int now)"
  shows "threads_ok inputs (phases(h := phase)) records'"
proof (cases "phases h")
  case (HostDone r)
  with assms(2) have "phase = phases h" "records' = records" by (auto simp: host_step_def)
  with assms(1) show ?thesis by simp
next
  case HostStart
  with assms(2) have "records' = records" "host_ok (inputs h) phase records"
    by (auto simp: host_step_def host_ok_def split: if_splits)
  with threads_ok_same [OF assms(1)] HostStart show ?thesis by simp
next
  case HostAppends
  show ?thesis
  proof (cases "records = []")
    case True
    with assms(1) HostAppends have "thread_created_ok (al_created (inputs h))" by (simp add: threads_ok_def host_ok_def)
    with True assms HostAppends threads_ok_created show ?thesis by (auto simp: host_step_def)
  next
    case False
    with assms(2) HostAppends have "records' = records" "host_ok (inputs h) phase records"
      by (auto simp: host_step_def host_ok_def)
    with threads_ok_same [OF assms(1)] HostAppends show ?thesis by simp
  qed
qed

lemma writer_ok:
  assumes "threads_ok inputs phases records" "records \<noteq> []"
  shows "threads_ok inputs phases (records @ new)"
proof -
  have "created_by inputs phases (records @ new) h" if "created_by inputs phases records h" for h
    using that unfolding created_by_def by (metis append.assoc)
  moreover have "host_ok (inputs h) (phases h) (records @ new)" if "host_ok (inputs h) (phases h) records" for h
    using that validate_append [OF assms(2)] by (simp add: host_ok_def)
  ultimately show ?thesis using assms unfolding threads_ok_def by blast
qed

lemma threads_reach_ok: "threads_reach inputs phases records \<Longrightarrow> threads_ok inputs phases records"
proof (induction rule: threads_reach.induct)
  case fresh
  then show ?case by (simp add: threads_ok_def host_ok_def)
next
  case (host phases records now h phase records')
  show ?case by (rule host_step_ok [OF host.IH host.hyps(2,3)])
next
  case (writer phases records new)
  show ?case by (rule writer_ok [OF writer.IH writer.hyps(2)])
qed

lemma validated_lineage:
  assumes "validateCreation c s records = Inr ()"
  shows "\<exists>r rest c'. records = r # rest \<and> rec_event r = Core (ThreadCreated c') \<and> same_lineage c' c \<and>
    (case s of None \<Rightarrow> True | Some e \<Rightarrow> (\<exists>r' rest'. rest = r' # rest' \<and> rec_event r' = Core (StateInitialised e)))"
proof -
  obtain r rest where records: "records = r # rest" using assms by (cases records) (simp_all add: validateCreation_def)
  obtain c' where c': "decodeCreation r = Inr c'" using assms records by (cases "decodeCreation r") (simp_all add: validateCreation_def)
  then have event: "rec_event r = Core (ThreadCreated c')"
    by (auto simp: decodeCreation_def elim!: created_event.elims split: option.splits if_splits)
  show ?thesis
    using assms records c' event by (cases s; cases rest) (auto simp: validateCreation_def split: if_splits)
qed

section \<open>Properties\<close>

text \<open>
  C11. However hosts that create the same thread interleave with each other and with later writers, the
  journal starts with the creation one of them recorded; a host that succeeds finds its own lineage
  there, and the initial state it asked for as the second record, so two hosts that succeed agree.
\<close>

theorem thread_created_once:
  assumes "threads_reach inputs phases records" "phases h = HostDone (Inr ())" "phases k = HostDone (Inr ())"
  shows "same_lineage (al_created (inputs h)) (al_created (inputs k)) \<and> (\<exists>g. created_by inputs phases records g) \<and>
    (al_seeded (inputs h) = None \<or> initialStateSeed records = map_option (\<lambda>e. (2, si_state e)) (al_seeded (inputs h)))"
proof -
  note ok = threads_reach_ok [OF assms(1)]
  have valid: "validateCreation (al_created (inputs g)) (al_seeded (inputs g)) records = Inr ()" if "phases g = HostDone (Inr ())" for g
    using ok that by (simp add: threads_ok_def host_ok_def)
  from validated_lineage [OF valid [OF assms(2)]] obtain r rest c where r: "records = r # rest" "rec_event r = Core (ThreadCreated c)"
    "same_lineage c (al_created (inputs h))"
    "case al_seeded (inputs h) of None \<Rightarrow> True | Some e \<Rightarrow> (\<exists>r' rest'. rest = r' # rest' \<and> rec_event r' = Core (StateInitialised e))" by blast
  from validated_lineage [OF valid [OF assms(3)]] r(1,2) have "same_lineage c (al_created (inputs k))" by auto
  with r(3) have "same_lineage (al_created (inputs h)) (al_created (inputs k))" by (simp add: same_lineage_def)
  moreover have "\<exists>g. created_by inputs phases records g" using ok r(1) by (auto simp: threads_ok_def)
  moreover have "initialStateSeed records = map_option (\<lambda>e. (2, si_state e)) (al_seeded (inputs h))" if "al_seeded (inputs h) \<noteq> None"
    using r that by (auto simp: initialStateSeed_def marker_index_def Let_def)
  ultimately show ?thesis by blast
qed

lemma find_state_append: "find_state_event (rs @ qs) = (case find_state_event rs of Some e \<Rightarrow> Some e | None \<Rightarrow> find_state_event qs)"
  by (induction rs) (auto split: option.split)

lemma version_append: "read_version c (rs @ [plain_record (Some now) (Core (ThreadUpdated v))]) =
    try_bind (read_version c rs) (\<lambda>_. if v = [] then Inl SchemaError else Inr (Some v))"
  by (cases "read_version c rs") (simp_all add: read_version_def fold_try_append)

text \<open>
  Initialising a journal is idempotent and, when it writes, leaves the journal seeding its atoms with
  the given state; updating a thread's version leaves it at that version, and repeating it changes
  nothing.
\<close>

theorem initialised_and_versioned:
  "(\<forall>rs'. initialiseState e rs = Inr rs' \<longrightarrow> initialiseState e rs' = Inr rs' \<and>
      (rs' = rs \<or> initialStateSeed rs' = Some (length rs', si_state e))) \<and>
   (\<forall>rs'. updateThreadVersion address version now rs rs = Inr rs' \<longrightarrow>
      updateThreadVersion address version later rs' rs' = Inr rs' \<and>
      (\<exists>c. readThreadCreation rs' address = Inr c \<and> read_version c rs' = Inr (Some version)))"
proof (intro conjI allI impI)
  fix rs'
  assume run: "initialiseState e rs = Inr rs'"
  show "initialiseState e rs' = Inr rs'"
  proof (cases "find_state_event rs = Some e")
    case True
    with run show ?thesis by (simp add: initialiseState_def)
  next
    case False
    with run have new: "rs' = rs @ [plain_record None (Core (StateInitialised e))]" "list_all (\<lambda>r. is_created (rec_event r)) rs"
      by (auto simp: initialiseState_def list_all_iff list_ex_iff split: if_splits)
    have "find_state_event rs = None" using new(2) by (induction rs) (auto elim!: is_created.elims)
    with new(1) show ?thesis by (simp add: initialiseState_def find_state_append)
  qed
  show "rs' = rs \<or> initialStateSeed rs' = Some (length rs', si_state e)"
  proof (cases "find_state_event rs = Some e")
    case True
    with run show ?thesis by (simp add: initialiseState_def)
  next
    case False
    with run have "rs' = rs @ [plain_record None (Core (StateInitialised e))]" "length rs \<le> 1" "list_all (\<lambda>r. is_created (rec_event r)) rs"
      by (auto simp: initialiseState_def list_all_iff list_ex_iff split: if_splits)
    then show ?thesis by (cases rs) (auto simp: initialStateSeed_def marker_index_def Let_def)
  qed
next
  fix rs'
  assume run: "updateThreadVersion address version now rs rs = Inr rs'"
  then obtain c latest where c: "version \<noteq> []" "readThreadCreation rs address = Inr c" "read_version c rs = Inr latest"
    by (auto simp: updateThreadVersion_def split: if_splits)
  have "readThreadCreation rs' address = Inr c \<and> read_version c rs' = Inr (Some version)"
  proof (cases "latest = Some version")
    case True
    with run c show ?thesis by (auto simp: updateThreadVersion_def)
  next
    case False
    with run c have new: "rs' = rs @ [plain_record (Some now) (Core (ThreadUpdated version))]" by (auto simp: updateThreadVersion_def)
    from c(2) have "readThreadCreation rs' address = Inr c" unfolding new by (cases rs) (simp_all add: readThreadCreation_def)
    with new version_append c show ?thesis by simp
  qed
  then show "\<exists>c. readThreadCreation rs' address = Inr c \<and> read_version c rs' = Inr (Some version)" by blast
  show "updateThreadVersion address version later rs' rs' = Inr rs'"
    using \<open>readThreadCreation rs' address = Inr c \<and> read_version c rs' = Inr (Some version)\<close> c(1) by (simp add: updateThreadVersion_def)
qed

section \<open>Example\<close>

text \<open>Two hosts that both find no record race to create a thread.\<close>

definition demo_address :: thread_coordinate where
  "demo_address = \<lparr>tc_actor = ''a'', tc_instance = ''i'', tc_thread = ''t''\<rparr>"

definition demo_created :: thread_created where
  "demo_created = \<lparr>created_address = demo_address, created_parent = None, created_depth = 0, created_placement = Colocated, created_version = None\<rparr>"

definition demo_input :: allocation_input where
  "demo_input = \<lparr>al_created = demo_created, al_seeded = None\<rparr>"

definition demo_journal :: "recorded list" where
  "demo_journal = [plain_record (Some 5) (Core (ThreadCreated demo_created))]"

lemma demo_created_ok: "thread_created_ok demo_created"
  by (simp add: demo_created_def thread_created_ok_def coordinate_ok_def demo_address_def safe_integer_def max_safe_integer_def)

lemma demo_steps:
  "host_step 5 demo_input HostStart [] = (HostAppends, [])"
  "host_step 5 demo_input HostAppends [] = (HostDone (Inr ()), demo_journal)"
  "host_step 5 demo_input HostAppends demo_journal = (HostDone (Inr ()), demo_journal)"
proof -
  show "host_step 5 demo_input HostStart [] = (HostAppends, [])"
    using demo_created_ok by (simp add: host_step_def demo_input_def)
  show created: "host_step 5 demo_input HostAppends [] = (HostDone (Inr ()), demo_journal)"
    by (simp add: host_step_def demo_input_def creation_records_def demo_journal_def)
  have "demo_journal = creation_records 5 (al_created demo_input) (al_seeded demo_input) @ []"
    by (simp add: demo_input_def creation_records_def demo_journal_def)
  then have "validateCreation (al_created demo_input) (al_seeded demo_input) demo_journal = Inr ()"
    using validate_creation [OF demo_created_ok, of 5 None "[]"] by (simp add: demo_input_def safe_integer_def max_safe_integer_def)
  then show "host_step 5 demo_input HostAppends demo_journal = (HostDone (Inr ()), demo_journal)"
    by (simp add: host_step_def demo_journal_def)
qed

lemma demo_race: "\<exists>phases. threads_reach (\<lambda>_. demo_input) phases demo_journal \<and> phases 0 = HostDone (Inr ()) \<and> phases 1 = HostDone (Inr ())"
proof -
  have safe: "safe_integer (int 5)" by (simp add: safe_integer_def max_safe_integer_def)
  have a: "threads_reach (\<lambda>_. demo_input) ((\<lambda>_. HostStart)(0 := HostAppends)) []"
    by (rule threads_reach.host [OF threads_reach.fresh _ safe]) (simp add: demo_steps)
  have b: "threads_reach (\<lambda>_. demo_input) ((\<lambda>_. HostStart)(0 := HostAppends, 1 := HostAppends)) []"
    by (rule threads_reach.host [OF a _ safe]) (simp add: demo_steps)
  have c: "threads_reach (\<lambda>_. demo_input) ((\<lambda>_. HostStart)(0 := HostAppends, 1 := HostAppends, 0 := HostDone (Inr ()))) demo_journal"
    by (rule threads_reach.host [OF b _ safe]) (simp add: demo_steps)
  have "threads_reach (\<lambda>_. demo_input) ((\<lambda>_. HostStart)(0 := HostAppends, 1 := HostAppends, 0 := HostDone (Inr ()), 1 := HostDone (Inr ()))) demo_journal"
    by (rule threads_reach.host [OF c _ safe]) (simp add: demo_steps)
  then show ?thesis
    by (intro exI [of _ "(\<lambda>_. HostStart)(0 := HostAppends, 1 := HostAppends, 0 := HostDone (Inr ()), 1 := HostDone (Inr ()))"] conjI)
      (assumption, simp_all)
qed

theorem thread_created_once_witness:
  "\<exists>phases g. phases 0 = HostDone (Inr ()) \<and> phases 1 = HostDone (Inr ()) \<and> created_by (\<lambda>_. demo_input) phases demo_journal g"
  using demo_race thread_created_once [of "\<lambda>_. demo_input" _ demo_journal 0 1] by blast

theorem initialised_and_versioned_witness:
  "(\<exists>rs'. initialiseState \<lparr>si_state = fmempty, si_source = None\<rparr> demo_journal = Inr rs' \<and>
      initialStateSeed rs' = Some (length rs', fmempty)) \<and>
   (\<exists>rs'. updateThreadVersion demo_address ''2'' 7 demo_journal demo_journal = Inr rs' \<and> read_version demo_created rs' = Inr (Some ''2''))"
proof -
  have new: "initialiseState \<lparr>si_state = fmempty, si_source = None\<rparr> demo_journal =
      Inr (demo_journal @ [plain_record None (Core (StateInitialised \<lparr>si_state = fmempty, si_source = None\<rparr>))])"
    by (simp add: initialiseState_def demo_journal_def)
  have decoded: "decodeCreation (plain_record (Some 5) (Core (ThreadCreated demo_created))) = Inr demo_created"
    using demo_created_ok by (simp add: decodeCreation_def safe_integer_def max_safe_integer_def)
  have read: "readThreadCreation demo_journal demo_address = Inr demo_created"
    unfolding readThreadCreation_def demo_journal_def by (simp add: decoded) (simp add: demo_created_def)
  have version: "read_version demo_created demo_journal = Inr None"
    by (simp add: read_version_def demo_journal_def) (simp add: demo_created_def)
  obtain rs' where rs': "updateThreadVersion demo_address ''2'' 7 demo_journal demo_journal = Inr rs'"
    using read version by (simp add: updateThreadVersion_def)
  have "readThreadCreation rs' demo_address = Inr demo_created"
    using rs' read version by (auto simp: updateThreadVersion_def) (simp add: readThreadCreation_def demo_journal_def decoded demo_created_def)
  with rs' new initialised_and_versioned [of "\<lparr>si_state = fmempty, si_source = None\<rparr>" demo_journal demo_address "''2''" 7 7] show ?thesis
    by (auto simp: demo_journal_def)
qed

end
