(* ===== verification/Conversations.thy ===== *)
theory Conversations
  imports AgentEvents PagedLogs
begin

text \<open>
  The conversation of an agent: messages (\<open>packages/agent/src/contracts/events.ts\<close>), their projection from
  the journal (\<open>atoms/durable/trajectory.ts\<close>) and the ownership of old records (\<open>compat/trajectory.ts\<close>).
  A journal is given twice: as the records a typed log reads, and as the agent events they carry, an
  absent event being a record of another kind. The atoms that keep pages are functions of their query,
  and idle retention is not modelled.
\<close>

section \<open>Messages\<close>

record assistant_message =
  am_reasoning :: "string option"
  am_continuation :: "provider_continuation option"
  am_text :: string
  am_toolCalls :: "tool_call list"

record tool_message =
  tm_callId :: string
  tm_providerId :: string
  tm_name :: string
  tm_text :: string
  tm_content :: "content_part list option"
  tm_error :: bool

datatype conversation_message =
    UserText string
  | UserContent "content_part list"
  | AssistantMessage assistant_message
  | ToolMessage tool_message

text \<open>The JSON of a message, whose text \<open>JSON.stringify\<close> gives up to the order of keys.\<close>

definition json_object :: "(string \<times> json) list \<Rightarrow> json" where
  "json_object kvs = JObj (fmap_of_list kvs)"

definition json_field :: "string \<Rightarrow> ('a \<Rightarrow> json) \<Rightarrow> 'a option \<Rightarrow> (string \<times> json) list" where
  "json_field name encode v = (case v of None \<Rightarrow> [] | Some x \<Rightarrow> [(name, encode x)])"

fun content_part_json :: "content_part \<Rightarrow> json" where
  "content_part_json (TextPart t) = json_object [(''type'', JStr ''text''), (''text'', JStr t)]"
| "content_part_json (FilePart media filename bytes obj) = json_object ([(''type'', JStr ''file''), (''mediaType'', JStr media)] @
     json_field ''filename'' JStr filename @ json_field ''byteSize'' (\<lambda>n. JInt (int n)) bytes @ [(''object'', obj)])"

definition continuation_json :: "provider_continuation \<Rightarrow> json" where
  "continuation_json c = json_object [(''provider'', JStr (pc_provider c)), (''protocol'', JStr (pc_protocol c)),
     (''model'', JStr (pc_model c)), (''payload'', pc_payload c)]"

definition tool_call_json :: "tool_call \<Rightarrow> json" where
  "tool_call_json c = json_object [(''callId'', JStr (tk_callId c)), (''name'', JStr (tk_name c)),
     (''input'', tk_input c), (''providerId'', JStr (tk_providerId c))]"

fun message_json :: "conversation_message \<Rightarrow> json" where
  "message_json (UserText t) = json_object [(''role'', JStr ''user''), (''text'', JStr t)]"
| "message_json (UserContent parts) = json_object [(''role'', JStr ''user''), (''content'', JArr (map content_part_json parts))]"
| "message_json (AssistantMessage a) = json_object ([(''role'', JStr ''assistant'')] @ json_field ''reasoning'' JStr (am_reasoning a) @
     json_field ''continuation'' continuation_json (am_continuation a) @
     [(''text'', JStr (am_text a)), (''toolCalls'', JArr (map tool_call_json (am_toolCalls a)))])"
| "message_json (ToolMessage t) = json_object ([(''role'', JStr ''tool''), (''callId'', JStr (tm_callId t)), (''providerId'', JStr (tm_providerId t)),
     (''name'', JStr (tm_name t)), (''text'', JStr (tm_text t))] @
     json_field ''content'' (\<lambda>parts. JArr (map content_part_json parts)) (tm_content t) @ [(''error'', JBool (tm_error t))])"

definition new_line :: string where
  "new_line = [CHR 0x0A]"

fun part_text :: "content_part \<Rightarrow> string list" where
  "part_text (TextPart t) = [t]"
| "part_text (FilePart _ _ _ _) = []"

definition content_text :: "content_part list \<Rightarrow> string" where
  "content_text parts = js_join new_line (concat (map part_text parts))"

section \<open>Owners of tool results\<close>

record tool_owner =
  ow_turnId :: string
  ow_providerId :: string
  ow_name :: string

text \<open>The turns of the model calls in flight, as both scans of an old prefix keep them.\<close>

fun legacy_models :: "(string \<times> string) list \<Rightarrow> agent_event \<Rightarrow> (string \<times> string) list" where
  "legacy_models models (InferenceCalled _ turnId callId) = js_set callId turnId models"
| "legacy_models models (InferenceReturned r) = js_delete (ir_callId r) models"
| "legacy_models models (ModelFailed callId _) = js_delete callId models"
| "legacy_models models (TurnSettled s) = filter (\<lambda>(_, turnId). turnId \<noteq> settled_turn s) models"
| "legacy_models models _ = models"

fun returned_owner :: "string \<Rightarrow> (string \<times> string) list \<Rightarrow> agent_event \<Rightarrow> tool_owner option" where
  "returned_owner callId models (InferenceReturned r) =
     (case (map_of models (ir_callId r), find (\<lambda>c. tk_callId c = callId) (ir_toolCalls r)) of
        (Some turnId, Some c) \<Rightarrow> Some \<lparr>ow_turnId = turnId, ow_providerId = tk_providerId c, ow_name = tk_name c\<rparr>
      | _ \<Rightarrow> None)"
| "returned_owner _ _ _ = None"

fun attribution_step :: "string \<Rightarrow> agent_event option \<Rightarrow> (string \<times> string) list \<times> tool_owner option \<Rightarrow> (string \<times> string) list \<times> tool_owner option" where
  "attribution_step callId None acc = acc"
| "attribution_step callId (Some e) (models, owner) =
     (legacy_models models e, case returned_owner callId models e of Some own \<Rightarrow> Some own | None \<Rightarrow> owner)"

definition legacyToolAttribution :: "agent_event option list \<Rightarrow> string \<Rightarrow> nat \<Rightarrow> tool_owner option" where
  "legacyToolAttribution journal callId bound = snd (fold (attribution_step callId) (take bound journal) ([], None))"

definition toolAttribution :: "agent_event option list \<Rightarrow> tool_returned \<Rightarrow> nat \<Rightarrow> tool_owner option" where
  "toolAttribution journal e position = (case (tr_tool e, tr_turnId e) of
     (Some (name, providerId), Some turnId) \<Rightarrow> Some \<lparr>ow_turnId = turnId, ow_providerId = providerId, ow_name = name\<rparr>
   | _ \<Rightarrow> legacyToolAttribution journal (tr_callId e) position)"

text \<open>\<open>legacyTrajectoryCursor\<close>: the position after the record of the \<open>through\<close>-th message.\<close>

fun legacy_entry :: "agent_event option list \<Rightarrow> (string \<times> string) list \<Rightarrow> nat \<Rightarrow> agent_event \<Rightarrow> bool" where
  "legacy_entry journal models position (TurnRequested _) = True"
| "legacy_entry journal models position (InferenceReturned r) = (map_of models (ir_callId r) \<noteq> None)"
| "legacy_entry journal models position (ToolReturned e) = (toolAttribution journal e position \<noteq> None)"
| "legacy_entry journal models position _ = False"

fun legacy_scan :: "agent_event option list \<Rightarrow> nat \<Rightarrow> (string \<times> string) list \<Rightarrow> nat \<Rightarrow> agent_event option list \<Rightarrow> nat option" where
  "legacy_scan journal position models left [] = None"
| "legacy_scan journal position models left (None # es) = legacy_scan journal (Suc position) models left es"
| "legacy_scan journal position models left (Some e # es) =
     (if legacy_entry journal models position e
      then if left = 1 then Some (Suc position) else legacy_scan journal (Suc position) (legacy_models models e) (left - 1) es
      else legacy_scan journal (Suc position) (legacy_models models e) left es)"

definition legacyTrajectoryCursor :: "agent_event option list \<Rightarrow> nat \<Rightarrow> runtime_error + nat" where
  "legacyTrajectoryCursor journal through =
     (if through = 0 then Inr 0
      else case legacy_scan journal 0 [] through journal of
        None \<Rightarrow> Inl (Error ''Compaction boundary exceeds available trajectory history'')
      | Some p \<Rightarrow> Inr p)"

text \<open>
  \<open>legacyTrajectorySeed\<close>: a seed that holds a conversation, turns or a summary without their messages.
  A number above zero is an integer above zero or any other number whose text has no sign.
\<close>

definition json_member :: "json option \<Rightarrow> string \<Rightarrow> json option" where
  "json_member j k = (case j of Some (JObj m) \<Rightarrow> fmlookup m k | _ \<Rightarrow> None)"

definition seed_has_turns :: "json option \<Rightarrow> bool" where
  "seed_has_turns inference = (case json_member inference ''turns'' of Some (JArr ts) \<Rightarrow> ts \<noteq> [] | _ \<Rightarrow> False)"

definition seed_has_summary :: "json option \<Rightarrow> bool" where
  "seed_has_summary compaction \<longleftrightarrow>
     (case json_member compaction ''origin'' of Some (JInt _) \<Rightarrow> True | Some (JNum _) \<Rightarrow> True | _ \<Rightarrow> False) \<or>
     (case json_member compaction ''through'' of Some (JInt n) \<Rightarrow> 0 < n | Some (JNum t) \<Rightarrow> list_head t \<noteq> Some (CHR ''-'') | _ \<Rightarrow> False) \<or>
     (case json_member compaction ''summary'' of Some (JStr s) \<Rightarrow> s \<noteq> [] | _ \<Rightarrow> False)"

definition legacyTrajectorySeed :: "(string, json) fmap option \<Rightarrow> bool" where
  "legacyTrajectorySeed seed = (case seed of
     None \<Rightarrow> False
   | Some m \<Rightarrow> fmlookup m ''agent.trajectory'' \<noteq> None \<or>
       seed_has_turns (case fmlookup m ''agent.inference.active'' of
         Some j \<Rightarrow> if j = JNull then fmlookup m ''agent.inference.state'' else Some j
       | None \<Rightarrow> fmlookup m ''agent.inference.state'') \<or>
       seed_has_summary (fmlookup m ''agent.compaction.state''))"

section \<open>Entries of the trajectory\<close>

record trajectory_entry =
  te_turnId :: string
  te_message :: conversation_message

fun call_turn :: "string \<Rightarrow> agent_event option \<Rightarrow> string option" where
  "call_turn callId (Some (InferenceCalled _ turnId c)) = (if c = callId then Some turnId else None)"
| "call_turn callId _ = None"

definition model_turn :: "agent_event option list \<Rightarrow> string \<Rightarrow> string option" where
  "model_turn journal callId = fold (\<lambda>e turn. case call_turn callId e of Some t \<Rightarrow> Some t | None \<Rightarrow> turn) journal None"

fun trajectory_entry_of :: "agent_event option list \<Rightarrow> nat \<Rightarrow> agent_event \<Rightarrow> trajectory_entry option" where
  "trajectory_entry_of journal position (TurnRequested q) = Some \<lparr>te_turnId = tq_turnId q,
     te_message = (case tq_content q of None \<Rightarrow> UserText (tq_text q) | Some parts \<Rightarrow> UserContent parts)\<rparr>"
| "trajectory_entry_of journal position (InferenceReturned r) =
     map_option (\<lambda>turnId. \<lparr>te_turnId = turnId, te_message = AssistantMessage
       \<lparr>am_reasoning = ir_reasoning r, am_continuation = ir_continuation r, am_text = ir_text r, am_toolCalls = ir_toolCalls r\<rparr>\<rparr>)
       (case ir_turnId r of Some t \<Rightarrow> Some t | None \<Rightarrow> model_turn journal (ir_callId r))"
| "trajectory_entry_of journal position (ToolReturned e) =
     map_option (\<lambda>own. \<lparr>te_turnId = ow_turnId own, te_message = ToolMessage
       \<lparr>tm_callId = tr_callId e, tm_providerId = ow_providerId own, tm_name = ow_name own,
        tm_text = (case tr_error e of Some err \<Rightarrow> err | None \<Rightarrow> content_text (tr_content e)),
        tm_content = (if tr_error e = None \<and> list_ex (\<lambda>p. part_text p = []) (tr_content e) then Some (tr_content e) else None),
        tm_error = (tr_error e \<noteq> None)\<rparr>\<rparr>)
       (toolAttribution journal e position)"
| "trajectory_entry_of journal position _ = None"

section \<open>Pages of the trajectory\<close>

definition trajectory_events :: "string list" where
  "trajectory_events = [''ModelReturned'', ''ToolReturned'', ''TurnRequested'']"

record 'r trajectory_source =
  xs_log :: "('r, agent_event) typed_log"
  xs_source :: "'r log_source"
  xs_journal :: "agent_event option list"
  xs_seed :: "(string, json) fmap option"

record range_query =
  rg_lower :: "nat option"
  rg_upper :: "nat option"
  rg_limit :: "int option"
  rg_desc :: "bool option"
  rg_after :: "log_cursor option"

text \<open>The rows a page of events adds, until one more than the limit is there.\<close>

fun collect_rows :: "nat \<Rightarrow> (nat \<times> 'v option) list \<Rightarrow> (nat \<times> 'v) list \<Rightarrow> (nat \<times> 'v) list \<times> bool" where
  "collect_rows limit [] rows = (rows, False)"
| "collect_rows limit ((p, None) # es) rows = collect_rows limit es rows"
| "collect_rows limit ((p, Some v) # es) rows =
     (if limit < length (rows @ [(p, v)]) then (rows @ [(p, v)], True) else collect_rows limit es (rows @ [(p, v)]))"

definition page_limit :: "nat \<Rightarrow> 'a list \<Rightarrow> int" where
  "page_limit limit rows = min (int limit - int (length rows) + 1) (max_safe_integer - 1)"

definition event_page :: "'r trajectory_source \<Rightarrow> nat \<Rightarrow> nat \<Rightarrow> int \<Rightarrow> bool \<Rightarrow> log_cursor option \<Rightarrow> runtime_error + (log_cursor, agent_event) log_page" where
  "event_page src lower upper limit desc after =
     atom_log_page (xs_log src) trajectory_events (xs_source src) (Some lower) (Some upper) \<lparr>lq_limit = Some limit, lq_desc = Some desc, lq_after = after\<rparr>"

text \<open>The loop over pages of events ends: the cursor of a page lies within the bounds the last one left.\<close>

lemma row_loop_within:
  assumes "row_loop pe se sel dec limit desc lower upper es previous rows = Inr (rows', full)" "\<forall>x\<in>set rows. lower \<le> fst x \<and> fst x < upper"
  shows "\<forall>x\<in>set rows'. lower \<le> fst x \<and> fst x < upper"
  using assms
proof (induction es arbitrary: previous rows)
  case (Cons e es)
  show ?case
  proof (cases e)
    case (Inr x)
    obtain p r where x: "x = (p, r)" by (cases x)
    from Cons.prems(1) Inr x have ok: "entry_ok desc lower upper previous p" "sel r" by (auto split: if_splits)
    show ?thesis
    proof (cases "length rows = limit")
      case True
      with Cons.prems Inr x ok show ?thesis by simp
    next
      case False
      with Cons.prems(1) Inr x ok obtain v where
        v: "row_loop pe se sel dec limit desc lower upper es (int p) (rows @ [(p, v)]) = Inr (rows', full)" by auto
      have "\<forall>x\<in>set (rows @ [(p, v)]). lower \<le> fst x \<and> fst x < upper"
        using Cons.prems(2) ok(1) by (auto simp: entry_ok_def)
      from Cons.IH [OF v this] show ?thesis .
    qed
  qed (use Cons.prems in simp)
qed simp

lemma row_loop_full: "row_loop pe se sel dec limit desc lower upper es previous rows = Inr (rows', True) \<Longrightarrow> length rows' = limit"
  by (induction pe se sel dec limit desc lower upper es previous rows rule: row_loop.induct) (auto split: if_splits)

lemma atom_page_loop:
  assumes "atom_log_page lg view source (Some lower) (Some upper) \<lparr>lq_limit = Some limit, lq_desc = Some desc, lq_after = after\<rparr> = Inr page"
  shows "\<exists>s rows further. limit_ok limit \<and> page = page_of s desc (rows, further) \<and> (case bounds_after desc (map_option lk_position after) lower upper of (lo, hi) \<Rightarrow>
    row_loop invalid_records invalid_records (selected_type lg (ls_events s)) (\<lambda>_ r. tl_decode lg r) (nat limit) desc lo hi
      (log_entries lg source (ls_events s) desc lo hi) (first_previous desc lo hi) [] = Inr (rows, further))"
proof -
  let ?q = "\<lparr>lq_limit = Some limit, lq_desc = Some desc, lq_after = after\<rparr>"
  define s where "s = \<lparr>ls_events = view, ls_lower = lower, ls_upper = upper\<rparr>"
  have bounds: "ls_lower s = lower" "ls_upper s = upper" by (simp_all add: s_def)
  from assms have read: "read_log lg source s ?q = Inr page"
    unfolding atom_log_page_def readLogViewPage_def view_range_def Let_def s_def by (auto split: if_splits)
  have order: "query_order ?q = desc" by (simp add: query_order_def)
  from read bounds show ?thesis
    unfolding read_log_def order by (intro exI [of _ s]) (auto simp: Let_def split_beta split: if_splits)
qed

lemma atom_page_next:
  assumes "atom_log_page lg view source (Some lower) (Some upper) \<lparr>lq_limit = Some limit, lq_desc = Some desc, lq_after = after\<rparr> = Inr page"
    "lp_next page = Some c"
  shows "case bounds_after desc (map_option lk_position after) lower upper of (lo, hi) \<Rightarrow> lo \<le> lk_position c \<and> lk_position c < hi"
proof -
  obtain lo hi where b: "bounds_after desc (map_option lk_position after) lower upper = (lo, hi)" by fastforce
  with atom_page_loop [OF assms(1)] obtain s rows further where loop: "limit_ok limit" "page = page_of s desc (rows, further)"
      "row_loop invalid_records invalid_records (selected_type lg (ls_events s)) (\<lambda>_ r. tl_decode lg r) (nat limit) desc lo hi
        (log_entries lg source (ls_events s) desc lo hi) (first_previous desc lo hi) [] = Inr (rows, further)" by auto
  from loop(2) assms(2) have further: "further" "lk_position c = fst (last rows)" by (auto simp: page_of_def split: if_splits)
  with loop(1,3) row_loop_full have "rows \<noteq> []" by (fastforce simp: limit_ok_def)
  with row_loop_within [OF loop(3)] have "lo \<le> fst (last rows) \<and> fst (last rows) < hi" by simp
  with b further(2) show ?thesis by simp
qed

definition window_left :: "nat \<Rightarrow> bool \<Rightarrow> log_cursor option \<Rightarrow> nat" where
  "window_left upper desc after = (case after of None \<Rightarrow> Suc upper | Some c \<Rightarrow> if desc then lk_position c else upper - lk_position c)"

function trajectory_loop :: "'r trajectory_source \<Rightarrow> nat \<Rightarrow> nat \<Rightarrow> nat \<Rightarrow> bool \<Rightarrow> log_cursor option \<Rightarrow> (nat \<times> trajectory_entry) list \<Rightarrow>
    runtime_error + (log_cursor, trajectory_entry) log_page" where
  "trajectory_loop src lower upper limit desc after rows =
     (case event_page src lower upper (page_limit limit rows) desc after of
        Inl e \<Rightarrow> Inl e
      | Inr page \<Rightarrow> (case collect_rows limit (map (\<lambda>(p, e). (p, trajectory_entry_of (xs_journal src) p e)) (lp_rows page)) rows of (rows, full) \<Rightarrow>
          if full then Inr \<lparr>lp_rows = take limit rows, lp_snapshot = upper, lp_next = Some \<lparr>lk_events = trajectory_events,
            lk_lower = lower, lk_upper = upper, lk_desc = desc, lk_position = fst (rows ! (limit - 1))\<rparr>\<rparr>
          else (case lp_next page of
              None \<Rightarrow> Inr \<lparr>lp_rows = rows, lp_snapshot = upper, lp_next = None\<rparr>
            | Some c \<Rightarrow> trajectory_loop src lower upper limit desc (Some c) rows)))"
  by pat_completeness auto

termination
proof (relation "measure (\<lambda>(src, lower, upper, limit, desc, after, rows). window_left upper desc after)")
  fix src :: "'r trajectory_source" and lower upper limit desc after and rows rows' :: "(nat \<times> trajectory_entry) list" and page full c p
  assume "event_page src lower upper (page_limit limit rows) desc after = Inr page" "lp_next page = Some c"
  then have "case bounds_after desc (map_option lk_position after) lower upper of (lo, hi) \<Rightarrow> lo \<le> lk_position c \<and> lk_position c < hi"
    unfolding event_page_def by (rule atom_page_next)
  then show "((src, lower, upper, limit, desc, Some c, rows'), (src, lower, upper, limit, desc, after, rows)) \<in>
      measure (\<lambda>(src, lower, upper, limit, desc, after, rows). window_left upper desc after)"
    by (cases after) (auto simp: window_left_def bounds_after_def split: if_splits)
qed simp

declare trajectory_loop.simps [simp del]

text \<open>\<open>trajectory.range\<close>, and \<open>messages.range\<close>, which keeps the messages of its rows.\<close>

definition trajectory_range :: "'r trajectory_source \<Rightarrow> range_query \<Rightarrow> runtime_error + (log_cursor, trajectory_entry) log_page" where
  "trajectory_range src q =
     (if legacyTrajectorySeed (xs_seed src)
      then Inl (Error ''Trajectory logs require journal history; aggregate trajectory initial state is unsupported'')
      else try_bind (view_range trajectory_events (bound_from (map_option lk_lower (rg_after q)) (rg_lower q) 0)
          (bound_from (map_option lk_upper (rg_after q)) (rg_upper q) (nat (so_position (xs_source src))))) (\<lambda>s.
        let limit = (case rg_limit q of None \<Rightarrow> tl_pageSize (xs_log src) | Some n \<Rightarrow> n);
            desc = (case rg_desc q of Some d \<Rightarrow> d | None \<Rightarrow> (case rg_after q of Some c \<Rightarrow> lk_desc c | None \<Rightarrow> False)) in
        if \<not> limit_ok limit then Inl (Error ''Invalid trajectory page limit'')
        else trajectory_loop src (ls_lower s) (ls_upper s) (nat limit) desc (rg_after q) []))"

definition messages_range :: "'r trajectory_source \<Rightarrow> range_query \<Rightarrow> runtime_error + (log_cursor, conversation_message) log_page" where
  "messages_range src q = try_bind (trajectory_range src q) (\<lambda>page. Inr \<lparr>lp_rows = map (\<lambda>(p, e). (p, te_message e)) (lp_rows page),
     lp_snapshot = lp_snapshot page, lp_next = lp_next page\<rparr>)"

section \<open>What a page should hold\<close>

text \<open>\<open>trajectory_rows\<close> lists the entries of a journal between two positions, in the order of a read.\<close>

definition entry_row :: "agent_event option list \<Rightarrow> nat \<Rightarrow> (nat \<times> trajectory_entry) option" where
  "entry_row journal p = (case journal ! p of None \<Rightarrow> None | Some e \<Rightarrow> map_option (Pair p) (trajectory_entry_of journal p e))"

definition trajectory_rows :: "agent_event option list \<Rightarrow> bool \<Rightarrow> nat \<Rightarrow> nat \<Rightarrow> (nat \<times> trajectory_entry) list" where
  "trajectory_rows journal desc lower upper = List.map_filter (entry_row journal) (row_positions desc lower upper)"

fun conversation_event :: "agent_event \<Rightarrow> bool" where
  "conversation_event (TurnRequested _) = True"
| "conversation_event (InferenceReturned _) = True"
| "conversation_event (ToolReturned _) = True"
| "conversation_event _ = False"

definition carries :: "('r, agent_event) typed_log \<Rightarrow> 'r \<Rightarrow> agent_event option \<Rightarrow> bool" where
  "carries lg r e \<longleftrightarrow> (if selected_type lg trajectory_events r then (\<exists>x. e = Some x \<and> tl_decode lg r = Inr x)
     else (case e of None \<Rightarrow> True | Some x \<Rightarrow> \<not> conversation_event x))"

definition trajectory_ok :: "'r trajectory_source \<Rightarrow> 'r list \<Rightarrow> bool" where
  "trajectory_ok src rs \<longleftrightarrow> source_ok (xs_log src) (xs_source src) rs \<and> set trajectory_events \<subseteq> set (tl_keys (xs_log src)) \<and>
     0 < tl_batch (xs_log src) \<and> list_all2 (carries (xs_log src)) rs (xs_journal src) \<and> \<not> legacyTrajectorySeed (xs_seed src)"

lemma trajectory_events_ok: "events_ok trajectory_events"
  by (simp add: trajectory_events_def events_ok_def less_char_def)

lemma collect_rows_spec:
  assumes "length rows \<le> limit" "R = List.map_filter (\<lambda>(p, v). map_option (Pair p) v) es"
  shows "collect_rows limit es rows = (if limit < length (rows @ R) then (take (Suc limit) (rows @ R), True) else (rows @ R, False))"
  using assms
proof (induction limit es rows arbitrary: R rule: collect_rows.induct)
  case (3 limit p v es rows)
  let ?R = "List.map_filter (\<lambda>(p, v). map_option (Pair p) v) es"
  have R: "R = (p, v) # ?R" using 3 by (simp add: List.map_filter_simps)
  show ?case
  proof (cases "limit < length (rows @ [(p, v)])")
    case True
    with 3 have "length rows = limit" by simp
    with True R show ?thesis by simp
  next
    case False
    then have "collect_rows limit es (rows @ [(p, v)]) =
        (if limit < length ((rows @ [(p, v)]) @ ?R) then (take (Suc limit) ((rows @ [(p, v)]) @ ?R), True) else ((rows @ [(p, v)]) @ ?R, False))"
      by (intro 3) simp_all
    with False R show ?thesis by simp
  qed
qed (simp_all add: List.map_filter_simps)

lemma not_conversation: "\<not> conversation_event e \<Longrightarrow> trajectory_entry_of journal p e = None"
  by (cases e) simp_all

text \<open>The entries of a journal are those of the records a view of its log selects.\<close>

definition event_row :: "'r trajectory_source \<Rightarrow> nat \<times> agent_event \<Rightarrow> nat \<times> trajectory_entry option" where
  "event_row src pe = (fst pe, trajectory_entry_of (xs_journal src) (fst pe) (snd pe))"

lemma map_filter_cong: "(\<And>x. x \<in> set xs \<Longrightarrow> f x = g x) \<Longrightarrow> List.map_filter f xs = List.map_filter g xs"
  by (induction xs) (simp_all add: List.map_filter_simps split: option.split)

lemma map_filter_restrict: "(\<And>x. x \<in> set xs \<Longrightarrow> \<not> P x \<Longrightarrow> f x = None) \<Longrightarrow> List.map_filter f (filter P xs) = List.map_filter f xs"
  by (induction xs) (simp_all add: List.map_filter_simps split: option.split)

lemma map_filter_map: "List.map_filter f (map g xs) = List.map_filter (\<lambda>x. f (g x)) xs"
  by (induction xs) (simp_all add: List.map_filter_simps split: option.split)

lemma map_filter_append: "List.map_filter f (xs @ ys) = List.map_filter f xs @ List.map_filter f ys"
  by (induction xs) (simp_all add: List.map_filter_simps split: option.split)

lemma decoded_entries:
  assumes "trajectory_ok src rs" "upper \<le> length rs" "ms = matching (selected_type (xs_log src) trajectory_events) rs desc lower upper"
  shows "decoded (\<lambda>_. tl_decode (xs_log src)) ms = Inr (map (\<lambda>(p, _). (p, the (xs_journal src ! p))) ms) \<and>
    List.map_filter (\<lambda>(p, v). map_option (Pair p) v) (map (event_row src) (map (\<lambda>(p, _). (p, the (xs_journal src ! p))) ms)) =
      trajectory_rows (xs_journal src) desc lower upper"
proof -
  have carries: "carries (xs_log src) (rs ! p) (xs_journal src ! p)" if "p < length rs" for p
    using assms(1) that by (simp add: trajectory_ok_def list_all2_conv_all_nth)
  have entry: "tl_decode (xs_log src) (rs ! p) = Inr (the (xs_journal src ! p)) \<and> xs_journal src ! p = Some (the (xs_journal src ! p))"
    if "p < length rs" "selected_type (xs_log src) trajectory_events (rs ! p)" for p
    using carries [OF that(1)] that(2) by (auto simp: carries_def)
  have none: "entry_row (xs_journal src) p = None"
    if "p < length rs" "\<not> selected_type (xs_log src) trajectory_events (rs ! p)" for p
    using carries [OF that(1)] that(2) not_conversation by (auto simp: carries_def entry_row_def split: option.splits)
  have "decoded (\<lambda>_. tl_decode (xs_log src)) ms = Inr (map (\<lambda>x. (fst x, the (xs_journal src ! fst x))) ms)"
    unfolding decoded_def
  proof (rule map_try_total)
    fix x
    assume "x \<in> set ms"
    obtain p r where x: "x = (p, r)" by (cases x)
    with \<open>x \<in> set ms\<close> have "(p, r) \<in> set (matching (selected_type (xs_log src) trajectory_events) rs desc lower upper)"
      using assms(3) by simp
    then have "p < upper" "r = rs ! p" "selected_type (xs_log src) trajectory_events (rs ! p)"
      unfolding set_matching by (simp, simp, metis)
    then have "p < length rs" "x = (p, rs ! p)" "selected_type (xs_log src) trajectory_events (rs ! p)" using assms(2) x by simp_all
    with entry [of p] show "(case x of (p, r) \<Rightarrow> try_bind (tl_decode (xs_log src) r) (\<lambda>v. Inr (p, v))) =
        (Inr (fst x, the (xs_journal src ! fst x)) :: runtime_error + nat \<times> agent_event)" by simp
  qed
  moreover have "List.map_filter (\<lambda>(p, v). map_option (Pair p) v) (map (event_row src) (map (\<lambda>x. (fst x, the (xs_journal src ! fst x))) ms)) =
      trajectory_rows (xs_journal src) desc lower upper"
  proof -
    have "List.map_filter (\<lambda>(p, v). map_option (Pair p) v) (map (event_row src) (map (\<lambda>x. (fst x, the (xs_journal src ! fst x))) ms)) =
        List.map_filter (entry_row (xs_journal src)) (filter (\<lambda>p. selected_type (xs_log src) trajectory_events (rs ! p)) (row_positions desc lower upper))"
      unfolding assms(3) matching_def map_filter_map
    proof (rule map_filter_cong)
      fix p
      assume "p \<in> set (filter (\<lambda>p. selected_type (xs_log src) trajectory_events (rs ! p)) (row_positions desc lower upper))"
      then have "p < length rs" "selected_type (xs_log src) trajectory_events (rs ! p)" using assms(2) by auto
      from entry [OF this] show "(case event_row src (fst (p, rs ! p), the (xs_journal src ! fst (p, rs ! p))) of (p, v) \<Rightarrow> map_option (Pair p) v) =
          entry_row (xs_journal src) p"
        by (auto simp: event_row_def entry_row_def split: option.split)
    qed
    also have "\<dots> = trajectory_rows (xs_journal src) desc lower upper"
      unfolding trajectory_rows_def
    proof (rule map_filter_restrict)
      fix p
      assume "p \<in> set (row_positions desc lower upper)" "\<not> selected_type (xs_log src) trajectory_events (rs ! p)"
      with none [of p] assms(2) show "entry_row (xs_journal src) p = None" by simp
    qed
    finally show ?thesis .
  qed
  ultimately show ?thesis by (simp add: case_prod_beta')
qed

text \<open>A page of the trajectory holds the first rows of what its bounds leave.\<close>

definition trajectory_page :: "(nat \<times> 'v) list \<Rightarrow> nat \<Rightarrow> nat \<Rightarrow> nat \<Rightarrow> bool \<Rightarrow> (log_cursor, 'v) log_page" where
  "trajectory_page rows limit lower upper desc = \<lparr>lp_rows = take limit rows, lp_snapshot = upper,
     lp_next = (if limit < length rows then Some \<lparr>lk_events = trajectory_events, lk_lower = lower, lk_upper = upper, lk_desc = desc,
       lk_position = fst (rows ! (limit - 1))\<rparr> else None)\<rparr>"

definition trajectory_selection :: "nat \<Rightarrow> nat \<Rightarrow> log_selection" where
  "trajectory_selection lower upper = \<lparr>ls_events = trajectory_events, ls_lower = lower, ls_upper = upper\<rparr>"

lemma trajectory_selection_simps [simp]:
  "ls_events (trajectory_selection lower upper) = trajectory_events" "ls_lower (trajectory_selection lower upper) = lower"
  "ls_upper (trajectory_selection lower upper) = upper"
  by (simp_all add: trajectory_selection_def)

definition page_ready :: "'r trajectory_source \<Rightarrow> 'r list \<Rightarrow> nat \<Rightarrow> nat \<Rightarrow> bool \<Rightarrow> log_cursor option \<Rightarrow> bool" where
  "page_ready src rs lower upper desc after \<longleftrightarrow> trajectory_ok src rs \<and> lower \<le> upper \<and> upper \<le> length rs \<and>
     (case after of None \<Rightarrow> True | Some c \<Rightarrow> cursor_belongs (trajectory_selection lower upper) desc c)"

lemma ready_selection: "page_ready src rs lower upper desc after \<Longrightarrow> selection_ok (trajectory_selection lower upper)"
  by (auto simp: page_ready_def trajectory_ok_def source_ok_def selection_ok_def trajectory_events_ok position_ok_def safe_integer_def)

lemma ready_read:
  assumes "page_ready src rs lower upper desc after" "limit_ok limit"
  shows "read_ready (xs_log src) (xs_source src) rs (trajectory_selection lower upper) \<lparr>lq_limit = Some limit, lq_desc = Some desc, lq_after = after\<rparr>"
proof -
  have order: "query_order \<lparr>lq_limit = Some limit, lq_desc = Some desc, lq_after = after\<rparr> = desc" by (simp add: query_order_def)
  show ?thesis
    unfolding read_ready_def cursor_fits_def order using assms ready_selection [OF assms(1)]
    by (auto simp: page_ready_def trajectory_ok_def log_accepts_def log_limit_def list_all_iff)
qed

lemma event_page_read:
  assumes "page_ready src rs lower upper desc after"
  shows "event_page src lower upper limit desc after =
    read_log (xs_log src) (xs_source src) (trajectory_selection lower upper) \<lparr>lq_limit = Some limit, lq_desc = Some desc, lq_after = after\<rparr>"
proof -
  have "lk_lower c = lower \<and> lk_upper c = upper" if "after = Some c" for c
    using assms that by (simp add: page_ready_def cursor_belongs_def)
  then have "bound_from (map_option lk_lower after) (Some lower) 0 = lower"
      "bound_from (map_option lk_upper after) (Some upper) n = upper" for n
    by (auto simp: bound_from_def split: option.split)
  then show ?thesis
    using ready_selection [OF assms] by (simp add: event_page_def atom_log_page_def view_range_def readLogViewPage_def trajectory_selection_def)
qed

lemma query_matches_page:
  "query_matches lg rs (trajectory_selection lower upper) \<lparr>lq_limit = Some limit, lq_desc = Some desc, lq_after = after\<rparr> =
   (case bounds_after desc (map_option lk_position after) lower upper of (lo, hi) \<Rightarrow> matching (selected_type lg trajectory_events) rs desc lo hi)"
  by (simp add: query_matches_def query_bounds_def query_order_def split_beta)

text \<open>The rows that a list of matching records gives.\<close>

definition rows_of :: "'r trajectory_source \<Rightarrow> (nat \<times> 'r) list \<Rightarrow> (nat \<times> trajectory_entry) list" where
  "rows_of src ms = List.map_filter (\<lambda>(p, _). map_option (Pair p) (trajectory_entry_of (xs_journal src) p (the (xs_journal src ! p)))) ms"

lemma rows_of_append: "rows_of src (xs @ ys) = rows_of src xs @ rows_of src ys"
  by (simp add: rows_of_def map_filter_append)

lemma rows_of_events:
  "List.map_filter (\<lambda>(p, v). map_option (Pair p) v) (map (\<lambda>(p, e). (p, trajectory_entry_of (xs_journal src) p e))
     (map (\<lambda>(p, _). (p, the (xs_journal src ! p))) ms)) = rows_of src ms"
  unfolding rows_of_def map_filter_map by (rule map_filter_cong) auto

lemma matches_rows:
  assumes "trajectory_ok src rs" "upper \<le> length rs" "ms = matching (selected_type (xs_log src) trajectory_events) rs desc lower upper"
  shows "decoded (\<lambda>_. tl_decode (xs_log src)) (take n ms) = Inr (map (\<lambda>(p, _). (p, the (xs_journal src ! p))) (take n ms)) \<and>
    rows_of src ms = trajectory_rows (xs_journal src) desc lower upper"
proof -
  have dec: "decoded (\<lambda>_. tl_decode (xs_log src)) ms = Inr (map (\<lambda>(p, _). (p, the (xs_journal src ! p))) ms)"
    and rows: "List.map_filter (\<lambda>(p, v). map_option (Pair p) v) (map (event_row src) (map (\<lambda>(p, _). (p, the (xs_journal src ! p))) ms)) =
      trajectory_rows (xs_journal src) desc lower upper"
    using decoded_entries [OF assms] by blast+
  have "map f (take n ms) = map Inr (map g (take n ms))" if "map f ms = map Inr (map g ms)" for f :: "nat \<times> 'a \<Rightarrow> runtime_error + nat \<times> agent_event" and g
    using that by (metis take_map)
  with dec have "decoded (\<lambda>_. tl_decode (xs_log src)) (take n ms) = Inr (map (\<lambda>(p, _). (p, the (xs_journal src ! p))) (take n ms))"
    unfolding decoded_def map_try_Inr_iff by blast
  moreover have "event_row src = (\<lambda>(p, e). (p, trajectory_entry_of (xs_journal src) p e))" by (simp add: event_row_def fun_eq_iff)
  ultimately show ?thesis using rows rows_of_events [of src ms] by simp
qed

lemma event_page_rows:
  assumes "page_ready src rs lower upper desc after" "limit_ok limit"
    "ms = (case bounds_after desc (map_option lk_position after) lower upper of (lo, hi) \<Rightarrow> matching (selected_type (xs_log src) trajectory_events) rs desc lo hi)"
  shows "event_page src lower upper limit desc after = Inr (page_of (trajectory_selection lower upper) desc
      (map (\<lambda>(p, _). (p, the (xs_journal src ! p))) (take (nat limit) ms), nat limit < length ms))"
    "limit_ok limit' \<Longrightarrow> nat limit < length ms \<Longrightarrow>
      lp_next (page_of (trajectory_selection lower upper) desc (map (\<lambda>(p, _). (p, the (xs_journal src ! p))) (take (nat limit) ms), True)) = Some c \<Longrightarrow>
      page_ready src rs lower upper desc (Some c) \<and>
      (case bounds_after desc (Some (lk_position c)) lower upper of (lo, hi) \<Rightarrow> matching (selected_type (xs_log src) trajectory_events) rs desc lo hi) = drop (nat limit) ms"
    "rows_of src ms = (case bounds_after desc (map_option lk_position after) lower upper of (lo, hi) \<Rightarrow> trajectory_rows (xs_journal src) desc lo hi)"
proof -
  let ?s = "trajectory_selection lower upper" and ?q = "\<lparr>lq_limit = Some limit, lq_desc = Some desc, lq_after = after\<rparr>"
  let ?b = "bounds_after desc (map_option lk_position after) lower upper"
  have ready: "read_ready (xs_log src) (xs_source src) rs ?s ?q" by (rule ready_read [OF assms(1,2)])
  have ms: "query_matches (xs_log src) rs ?s ?q = ms" by (simp add: query_matches_page assms(3))
  have ok: "trajectory_ok src rs" "upper \<le> length rs" "lower \<le> upper" using assms(1) by (simp_all add: page_ready_def)
  have order: "query_order ?q = desc" by (simp add: query_order_def)
  have "cursor_fits ?s ?q" using ready by (simp add: read_ready_def)
  then have hi: "snd ?b \<le> length rs" using query_bounds_le [of ?s ?q] ok by (simp add: query_bounds_def order)
  have ms': "ms = matching (selected_type (xs_log src) trajectory_events) rs desc (fst ?b) (snd ?b)" using assms(3) by (simp add: split_beta)
  note rows = matches_rows [OF ok(1) hi ms']
  have limit: "log_limit (xs_log src) ?q = limit" by (simp add: log_limit_def)
  show "event_page src lower upper limit desc after = Inr (page_of ?s desc
      (map (\<lambda>(p, _). (p, the (xs_journal src ! p))) (take (nat limit) ms), nat limit < length ms))"
    unfolding event_page_read [OF assms(1)] read_log_page [OF ready] ms order limit using rows by simp
  show "rows_of src ms = (case ?b of (lo, hi) \<Rightarrow> trajectory_rows (xs_journal src) desc lo hi)"
    using rows by (simp add: split_beta)
  assume more: "nat limit < length ms"
    and c: "lp_next (page_of ?s desc (map (\<lambda>(p, _). (p, the (xs_journal src ! p))) (take (nat limit) ms), True)) = Some c"
  have pos: "0 < nat limit" using assms(2) by (simp add: limit_ok_def)
  let ?xs = "map (\<lambda>(p, _). (p, the (xs_journal src ! p))) (take (nat limit) ms)"
  have nonempty: "?xs \<noteq> []" using pos more by (cases ms) auto
  have "last ?xs = ?xs ! (nat limit - 1)" using last_conv_nth [OF nonempty] more by (simp add: min_def)
  also have "\<dots> = (fst (ms ! (nat limit - 1)), the (xs_journal src ! fst (ms ! (nat limit - 1))))"
    using more pos by (simp add: split_beta)
  finally have last: "fst (last ?xs) = fst (ms ! (nat limit - 1))" by simp
  with c have ceq: "c = \<lparr>lk_events = ls_events ?s, lk_lower = ls_lower ?s, lk_upper = ls_upper ?s, lk_desc = query_order ?q,
      lk_position = fst (query_matches (xs_log src) rs ?s ?q ! (nat limit - 1))\<rparr>" by (simp add: page_of_def order ms)
  have "nat limit - 1 < length (query_matches (xs_log src) rs ?s ?q)" using more by (simp add: ms)
  from next_query [OF ready this ceq]
  have nextq: "read_ready (xs_log src) (xs_source src) rs ?s (?q\<lparr>lq_after := Some c\<rparr>)"
      "query_matches (xs_log src) rs ?s (?q\<lparr>lq_after := Some c\<rparr>) = drop (nat limit) ms"
    using pos by (simp_all add: ms)
  have "cursor_belongs ?s desc c" using nextq(1) by (simp add: read_ready_def cursor_fits_def query_order_def)
  with ok have "page_ready src rs lower upper desc (Some c)" by (simp add: page_ready_def)
  with nextq(2) query_matches_page [of "xs_log src" rs lower upper limit desc "Some c"]
  show "page_ready src rs lower upper desc (Some c) \<and>
      (case bounds_after desc (Some (lk_position c)) lower upper of (lo, hi) \<Rightarrow> matching (selected_type (xs_log src) trajectory_events) rs desc lo hi) = drop (nat limit) ms"
    by simp
qed

lemma page_of_simps [simp]:
  "lp_rows (page_of s desc (rows, further)) = rows" "lp_next (page_of s desc (rows, False)) = None"
  "(lp_next (page_of s desc (rows, further)) = None) = (\<not> further)"
  by (simp_all add: page_of_def)

lemma longer_prefix:
  "n < length xs \<Longrightarrow> take n (xs @ ys) = take n xs \<and> n < length (xs @ ys) \<and> (xs @ ys) ! (n - 1) = xs ! (n - 1)"
  by (auto simp: nth_append)

lemma trajectory_loop_page:
  assumes "page_ready src rs lower upper desc after" "length rows \<le> limit" "1 \<le> limit"
  shows "trajectory_loop src lower upper limit desc after rows = Inr (trajectory_page
    (rows @ (case bounds_after desc (map_option lk_position after) lower upper of (lo, hi) \<Rightarrow> trajectory_rows (xs_journal src) desc lo hi)) limit lower upper desc)"
  using assms
proof (induction src lower upper limit desc after rows rule: trajectory_loop.induct)
  case (1 src lower upper limit desc after rows)
  define ms where "ms = (case bounds_after desc (map_option lk_position after) lower upper of (lo, hi) \<Rightarrow> matching (selected_type (xs_log src) trajectory_events) rs desc lo hi)"
  let ?L = "page_limit limit rows"
  let ?all = "rows @ rows_of src ms" and ?some = "rows @ rows_of src (take (nat ?L) ms)"
  have L: "limit_ok ?L" using "1.prems"(2,3) by (auto simp: limit_ok_def page_limit_def safe_integer_def max_safe_integer_def)
  note page = event_page_rows [OF "1.prems"(1) L ms_def]
  let ?evs = "map (\<lambda>(p, _). (p, the (xs_journal src ! p))) (take (nat ?L) ms)"
  have split: "?all = ?some @ rows_of src (drop (nat ?L) ms)" by (simp flip: rows_of_append)
  have collect: "collect_rows limit (map (\<lambda>(p, e). (p, trajectory_entry_of (xs_journal src) p e)) ?evs) rows =
      (if limit < length ?some then (take (Suc limit) ?some, True) else (?some, False))"
    using collect_rows_spec [OF "1.prems"(2) refl] by (simp only: rows_of_events)
  show ?case
  proof (cases "limit < length ?some")
    case True
    have parts: "take limit ?all = take limit ?some" "limit < length ?all" "?all ! (limit - 1) = ?some ! (limit - 1)"
      unfolding split using longer_prefix [OF True] by blast+
    have "trajectory_loop src lower upper limit desc after rows = Inr \<lparr>lp_rows = take limit (take (Suc limit) ?some), lp_snapshot = upper,
        lp_next = Some \<lparr>lk_events = trajectory_events, lk_lower = lower, lk_upper = upper, lk_desc = desc,
          lk_position = fst (take (Suc limit) ?some ! (limit - 1))\<rparr>\<rparr>"
      by (subst trajectory_loop.simps) (simp only: page(1) sum.case page_of_simps collect True if_True prod.case)
    also have "\<dots> = Inr (trajectory_page ?all limit lower upper desc)"
    proof -
      have "take (Suc limit) ?some ! (limit - 1) = ?some ! (limit - 1)" by (rule nth_take) simp
      moreover have "take limit (take (Suc limit) ?some) = take limit ?some" by (simp only: take_take min_def) simp
      ultimately show ?thesis by (simp only: trajectory_page_def parts if_True)
    qed
    finally show ?thesis by (simp only: page(3))
  next
    case short: False
    show ?thesis
    proof (cases "nat ?L < length ms")
      case False
      then have all: "take (nat ?L) ms = ms" by simp
      have "trajectory_loop src lower upper limit desc after rows = Inr \<lparr>lp_rows = ?some, lp_snapshot = upper, lp_next = None\<rparr>"
        by (subst trajectory_loop.simps) (simp only: page(1) sum.case page_of_simps collect short False if_False prod.case option.case)
      also have "\<dots> = Inr (trajectory_page ?all limit lower upper desc)"
        using short by (simp add: all trajectory_page_def)
      finally show ?thesis by (simp only: page(3))
    next
      case True
      then obtain c where c: "lp_next (page_of (trajectory_selection lower upper) desc (?evs, True)) = Some c" by (simp add: page_of_def)
      note rest = page(2) [OF L True c]
      have "rows_of src (drop (nat ?L) ms) = (case bounds_after desc (Some (lk_position c)) lower upper of (lo, hi) \<Rightarrow> trajectory_rows (xs_journal src) desc lo hi)"
        using event_page_rows(3) [of src rs lower upper desc "Some c" ?L] rest L by simp
      moreover have "trajectory_loop src lower upper limit desc (Some c) ?some = Inr (trajectory_page
          (?some @ (case bounds_after desc (map_option lk_position (Some c)) lower upper of (lo, hi) \<Rightarrow> trajectory_rows (xs_journal src) desc lo hi)) limit lower upper desc)"
        using page(1) collect short True c rest "1.prems"(3) by (intro "1.IH") (simp_all add: page(1))
      ultimately have "trajectory_loop src lower upper limit desc (Some c) ?some = Inr (trajectory_page ?all limit lower upper desc)"
        by (simp add: split)
      moreover have "trajectory_loop src lower upper limit desc after rows = trajectory_loop src lower upper limit desc (Some c) ?some"
        by (subst trajectory_loop.simps) (simp only: page(1) sum.case page_of_simps collect short True c if_False prod.case option.case)
      ultimately show ?thesis by (simp only: page(3))
    qed
  qed
qed

section \<open>Pages of messages\<close>

definition message_rows :: "agent_event option list \<Rightarrow> nat \<Rightarrow> nat \<Rightarrow> (nat \<times> conversation_message) list" where
  "message_rows journal lower upper = map (\<lambda>(p, e). (p, te_message e)) (trajectory_rows journal False lower upper)"

definition message_cursor :: "nat \<Rightarrow> nat \<Rightarrow> nat \<Rightarrow> log_cursor" where
  "message_cursor lower upper p = \<lparr>lk_events = trajectory_events, lk_lower = lower, lk_upper = upper, lk_desc = False, lk_position = p\<rparr>"

definition first_query :: "nat \<Rightarrow> nat option \<Rightarrow> int \<Rightarrow> range_query" where
  "first_query lower upper limit = \<lparr>rg_lower = Some lower, rg_upper = upper, rg_limit = Some limit, rg_desc = None, rg_after = None\<rparr>"

definition after_query :: "log_cursor \<Rightarrow> int \<Rightarrow> range_query" where
  "after_query c limit = \<lparr>rg_lower = None, rg_upper = None, rg_limit = Some limit, rg_desc = None, rg_after = Some c\<rparr>"

lemma page_messages:
  assumes "page = trajectory_page rows limit lower upper False" "1 \<le> limit"
  shows "\<lparr>lp_rows = map (\<lambda>(p, e). (p, te_message e)) (lp_rows page), lp_snapshot = lp_snapshot page, lp_next = lp_next page\<rparr> =
    trajectory_page (map (\<lambda>(p, e). (p, te_message e)) rows) limit lower upper False"
  using assms by (auto simp: trajectory_page_def take_map split_beta)

lemma ready_limit: "limit_ok limit \<Longrightarrow> 1 \<le> nat limit"
  by (auto simp: limit_ok_def)

lemma messages_first:
  assumes "trajectory_ok src rs" "lower \<le> upper" "upper \<le> length rs" "limit_ok limit" "u = (if upper = length rs then None else Some upper) \<or> u = Some upper"
  shows "messages_range src (first_query lower u limit) = Inr (trajectory_page (message_rows (xs_journal src) lower upper) (nat limit) lower upper False)"
proof -
  have position: "nat (so_position (xs_source src)) = length rs" using assms(1) by (simp add: trajectory_ok_def source_ok_def)
  have ready: "page_ready src rs lower upper False None" using assms(1-3) by (simp add: page_ready_def)
  from assms(5) position have bounds: "bound_from None u (nat (so_position (xs_source src))) = upper"
    by (auto simp: bound_from_def)
  have "trajectory_range src (first_query lower u limit) = Inr (trajectory_page (trajectory_rows (xs_journal src) False lower upper) (nat limit) lower upper False)"
    using assms(1,4) ready_selection [OF ready] trajectory_loop_page [OF ready _ ready_limit [OF assms(4)], of "[]"] bounds
    by (simp add: trajectory_range_def first_query_def trajectory_ok_def view_range_def Let_def bound_from_def trajectory_selection_def bounds_after_def)
  then show ?thesis
    using page_messages [OF refl ready_limit [OF assms(4)], of "trajectory_rows (xs_journal src) False lower upper" lower upper]
    by (simp add: messages_range_def message_rows_def)
qed

lemma messages_after:
  assumes "trajectory_ok src rs" "lower \<le> p" "p < upper" "upper \<le> length rs" "limit_ok limit"
  shows "messages_range src (after_query (message_cursor lower upper p) limit) =
    Inr (trajectory_page (message_rows (xs_journal src) (Suc p) upper) (nat limit) lower upper False)"
proof -
  have ready0: "page_ready src rs lower upper False None" using assms(1-4) by (simp add: page_ready_def)
  have "position_ok p" using assms(1,3,4) by (simp add: trajectory_ok_def source_ok_def position_ok_def safe_integer_def)
  with ready0 ready_selection [OF ready0] assms(2,3) have ready: "page_ready src rs lower upper False (Some (message_cursor lower upper p))"
    by (simp add: page_ready_def cursor_belongs_def cursor_ok_def message_cursor_def selection_ok_def)
  have "trajectory_range src (after_query (message_cursor lower upper p) limit) =
      Inr (trajectory_page (trajectory_rows (xs_journal src) False (Suc p) upper) (nat limit) lower upper False)"
    using assms(1,5) ready_selection [OF ready] trajectory_loop_page [OF ready _ ready_limit [OF assms(5)], of "[]"]
    by (simp add: trajectory_range_def after_query_def trajectory_ok_def view_range_def Let_def bound_from_def trajectory_selection_def bounds_after_def
        message_cursor_def)
  then show ?thesis
    using page_messages [OF refl ready_limit [OF assms(5)], of "trajectory_rows (xs_journal src) False (Suc p) upper" lower upper]
    by (simp add: messages_range_def message_rows_def)
qed

text \<open>Rows between two positions, and their stability while the journal grows.\<close>

lemma message_rows_split: "lower \<le> m \<Longrightarrow> m \<le> upper \<Longrightarrow> message_rows journal lower upper = message_rows journal lower m @ message_rows journal m upper"
  by (simp add: message_rows_def trajectory_rows_def row_positions_def upt_split [of lower m upper] map_filter_append)

lemma message_rows_empty [simp]: "message_rows journal lower lower = []"
  by (simp add: message_rows_def trajectory_rows_def row_positions_def List.map_filter_simps)

lemma message_rows_Suc: "message_rows journal p (Suc p) =
    (case entry_row journal p of None \<Rightarrow> [] | Some (q, e) \<Rightarrow> [(p, te_message e)])"
  by (auto simp: message_rows_def trajectory_rows_def row_positions_def List.map_filter_simps entry_row_def split: option.split)

lemma positions_message_rows: "map fst (message_rows journal lower upper) = filter (\<lambda>p. entry_row journal p \<noteq> None) [lower..<upper]"
proof -
  have "map fst (map (\<lambda>(p, e). (p, te_message e)) (List.map_filter (entry_row journal) ps)) = filter (\<lambda>p. entry_row journal p \<noteq> None) ps" for ps
    by (induction ps) (auto simp: List.map_filter_simps entry_row_def split: option.splits)
  then show ?thesis by (simp add: message_rows_def trajectory_rows_def row_positions_def)
qed

lemma message_rows_sorted: "sorted_wrt (<) (map fst (message_rows journal lower upper))"
  unfolding positions_message_rows by (rule sorted_wrt_filter) simp

lemma message_rows_bounds: "x \<in> set (message_rows journal lower upper) \<Longrightarrow> lower \<le> fst x \<and> fst x < upper"
proof -
  assume "x \<in> set (message_rows journal lower upper)"
  then have "fst x \<in> set (map fst (message_rows journal lower upper))" by simp
  then show ?thesis unfolding positions_message_rows by simp
qed

text \<open>An old reply names its turn by the call before it.\<close>

definition calls_precede :: "agent_event option list \<Rightarrow> bool" where
  "calls_precede journal \<longleftrightarrow> (\<forall>p < length journal. case journal ! p of
     Some (InferenceReturned r) \<Rightarrow> ir_turnId r \<noteq> None \<or> model_turn (take p journal) (ir_callId r) \<noteq> None
   | _ \<Rightarrow> True)"

definition message_at :: "agent_event option list \<Rightarrow> nat \<Rightarrow> conversation_message option" where
  "message_at journal p = map_option (\<lambda>x. te_message (snd x)) (entry_row journal p)"

lemma model_turn_append: "model_turn (xs @ ys) c = None \<longleftrightarrow> model_turn xs c = None \<and> model_turn ys c = None"
proof -
  let ?f = "\<lambda>e turn. case call_turn c e of Some t \<Rightarrow> Some t | None \<Rightarrow> turn"
  have "fold ?f zs a = None \<longleftrightarrow> a = None \<and> (\<forall>z\<in>set zs. call_turn c z = None)" for zs a
    by (induction zs arbitrary: a) (auto split: option.split)
  then show ?thesis by (auto simp: model_turn_def)
qed

lemma message_at_append:
  assumes "calls_precede journal" "p < length journal"
  shows "message_at (journal @ later) p = message_at journal p"
proof -
  have attribution: "toolAttribution (journal @ later) e p = toolAttribution journal e p" for e
  proof -
    have "take p (journal @ later) = take p journal" using assms(2) by simp
    then show ?thesis unfolding toolAttribution_def legacyToolAttribution_def by metis
  qed
  have known: "model_turn journal (ir_callId r) \<noteq> None" if "journal ! p = Some (InferenceReturned r)" "ir_turnId r = None" for r
  proof -
    have "model_turn (take p journal) (ir_callId r) \<noteq> None" using assms that by (auto simp: calls_precede_def)
    then show ?thesis using model_turn_append [of "take p journal" "drop p journal" "ir_callId r"] by simp
  qed
  show ?thesis
  proof (cases "journal ! p")
    case None
    with assms(2) show ?thesis by (simp add: message_at_def entry_row_def nth_append)
  next
    case (Some e)
    have "map_option te_message (trajectory_entry_of (journal @ later) p e) = map_option te_message (trajectory_entry_of journal p e)"
    proof (cases e)
      case (InferenceReturned r)
      show ?thesis
      proof (cases "ir_turnId r")
        case None
        have "model_turn journal (ir_callId r) \<noteq> None" "model_turn (journal @ later) (ir_callId r) \<noteq> None"
          using known [of r] Some InferenceReturned None model_turn_append [of journal later "ir_callId r"] by simp_all
        with InferenceReturned None show ?thesis by auto
      qed (simp add: InferenceReturned)
    qed (simp_all add: attribution)
    with Some assms(2) show ?thesis by (simp add: message_at_def entry_row_def nth_append option.map_comp comp_def)
  qed
qed

lemma message_rows_at: "message_rows journal lower upper = List.map_filter (\<lambda>p. map_option (Pair p) (message_at journal p)) [lower..<upper]"
proof -
  have "map (\<lambda>(p, e). (p, te_message e)) (List.map_filter (entry_row journal) ps) = List.map_filter (\<lambda>p. map_option (Pair p) (message_at journal p)) ps" for ps
    by (induction ps) (auto simp: List.map_filter_simps message_at_def entry_row_def split: option.splits)
  then show ?thesis by (simp add: message_rows_def trajectory_rows_def row_positions_def)
qed

lemma message_rows_append:
  "calls_precede journal \<Longrightarrow> upper \<le> length journal \<Longrightarrow> message_rows (journal @ later) lower upper = message_rows journal lower upper"
  unfolding message_rows_at by (rule map_filter_cong) (simp add: message_at_append)

end
