(* ===== verification/ContextWindows.thy ===== *)
theory ContextWindows
  imports Compaction
begin

text \<open>
  The bounded window of a conversation is the longest prefix of its messages after the cursor that fits:
  however many pages it is read in, and whether or not it continues the window kept from an earlier read
  of the same source (\<open>windows\<close> of \<open>packages/agent/src/atoms/compact.ts\<close>).
\<close>

section \<open>Taking the rows that fit\<close>

definition limits_ok :: "compact_limits \<Rightarrow> bool" where
  "limits_ok l \<longleftrightarrow> limit_ok (kp_pageSize (kl_policy l)) \<and> 1 \<le> kp_maxContextMessages (kl_policy l) \<and>
     0 \<le> kp_imageTokenEstimate (kl_policy l) \<and> 0 < kp_charsPerToken (kl_policy l)"

lemma size_nonneg: "limits_ok l \<Longrightarrow> 0 \<le> message_size l m"
  by (simp add: message_size_def limits_ok_def)

lemma row_total_simps [simp]: "row_total [] = 0" "row_total (x # xs) = snd (snd x) + row_total xs" "row_total (xs @ ys) = row_total xs + row_total ys"
  by (simp_all add: row_total_def)

lemma row_total_nonneg: "limits_ok l \<Longrightarrow> 0 \<le> row_total (map (sized_row l) pms)"
  by (induction pms) (simp_all add: sized_row_def size_nonneg)

lemma row_fits_budget: "row_fits l summary capacity rows pm \<longleftrightarrow> row_fits l 0 (capacity - summary) rows pm"
  by (auto simp: row_fits_def)

lemma take_rows_budget: "take_rows l summary capacity pms rows = take_rows l 0 (capacity - summary) pms rows"
proof (induction pms arbitrary: rows)
  case (Cons pm pms)
  then show ?case using row_fits_budget [of l summary capacity rows pm] by simp
qed simp

lemma take_rows_append: "take_rows l s c (xs @ ys) rows =
    (case take_rows l s c xs rows of (rows', full) \<Rightarrow> if full then (rows', True) else take_rows l s c ys rows')"
  by (induction l s c xs rows rule: take_rows.induct) auto

text \<open>What is taken is a prefix, and the first row left does not fit.\<close>

lemma take_rows_prefix:
  "take_rows l s c pms rows = (rows', full) \<Longrightarrow>
   \<exists>k \<le> length pms. rows' = rows @ map (sized_row l) (take k pms) \<and> full = (k < length pms) \<and> (full \<longrightarrow> \<not> row_fits l s c rows' (pms ! k))"
proof (induction l s c pms rows rule: take_rows.induct)
  case (2 l s c pm pms rows)
  show ?case
  proof (cases "row_fits l s c rows pm")
    case True
    with "2.prems" have "take_rows l s c pms (rows @ [sized_row l pm]) = (rows', full)" by simp
    from "2.IH" [OF True this] obtain k where "k \<le> length pms" "rows' = (rows @ [sized_row l pm]) @ map (sized_row l) (take k pms)"
        "full = (k < length pms)" "full \<longrightarrow> \<not> row_fits l s c rows' (pms ! k)" by blast
    then show ?thesis by (intro exI [of _ "Suc k"]) simp
  next
    case False
    with "2.prems" show ?thesis by (intro exI [of _ 0]) auto
  qed
qed auto

text \<open>A suffix of rows that fit one after the other fits too.\<close>

lemma take_rows_all_iff:
  "take_rows l s c pms rows = (rows @ map (sized_row l) pms, False) \<longleftrightarrow>
   (\<forall>k < length pms. row_fits l s c (rows @ map (sized_row l) (take k pms)) (pms ! k))"
proof (induction pms arbitrary: rows)
  case (Cons pm pms)
  show ?case
  proof (cases "row_fits l s c rows pm")
    case True
    have "(\<forall>k < length (pm # pms). row_fits l s c (rows @ map (sized_row l) (take k (pm # pms))) ((pm # pms) ! k)) \<longleftrightarrow>
        (\<forall>k < length pms. row_fits l s c ((rows @ [sized_row l pm]) @ map (sized_row l) (take k pms)) (pms ! k))"
      using True by (auto simp: less_Suc_eq_0_disj)
    with True Cons.IH [of "rows @ [sized_row l pm]"] show ?thesis by simp
  next
    case False
    then show ?thesis by auto
  qed
qed simp

lemma row_fits_mono:
  assumes "limits_ok l" "row_fits l s c (map (sized_row l) (xs @ ys)) pm"
  shows "row_fits l s c (map (sized_row l) ys) pm"
  using assms row_total_nonneg [OF assms(1), of xs] by (auto simp: row_fits_def)

lemma take_rows_suffix:
  assumes "limits_ok l" "take_rows l s c (xs @ ys) [] = (map (sized_row l) (xs @ ys), False)"
  shows "take_rows l s c ys [] = (map (sized_row l) ys, False)"
proof -
  have all: "row_fits l s c (map (sized_row l) (take k (xs @ ys))) ((xs @ ys) ! k)" if "k < length (xs @ ys)" for k
    using assms(2) take_rows_all_iff [of l s c "xs @ ys" "[]"] that by simp
  have "row_fits l s c (map (sized_row l) (take k ys)) (ys ! k)" if "k < length ys" for k
    using all [of "length xs + k"] that row_fits_mono [OF assms(1), of s c xs "take k ys"] by simp
  then show ?thesis using take_rows_all_iff [of l s c ys "[]"] by simp
qed

section \<open>Reading pages\<close>

lemma message_rows_drop:
  assumes "i < length (message_rows journal lower upper)" "p = fst (message_rows journal lower upper ! i)"
  shows "message_rows journal lower (Suc p) = take (Suc i) (message_rows journal lower upper)"
    "message_rows journal (Suc p) upper = drop (Suc i) (message_rows journal lower upper)"
proof -
  let ?m = "message_rows journal lower upper"
  have p: "lower \<le> p" "p < upper" using message_rows_bounds [OF nth_mem [OF assms(1)]] assms(2) by auto
  have split: "?m = message_rows journal lower (Suc p) @ message_rows journal (Suc p) upper"
    using p by (intro message_rows_split) simp_all
  have sorted: "fst (?m ! j) < fst (?m ! k)" if "j < k" "k < length ?m" for j k
    using sorted_wrt_nth_less [OF message_rows_sorted [of journal lower upper], of j k] that by simp
  have "length (message_rows journal lower (Suc p)) = Suc i"
  proof (rule antisym)
    let ?n = "length (message_rows journal lower (Suc p))"
    show "?n \<le> Suc i"
    proof (rule ccontr)
      assume "\<not> ?n \<le> Suc i"
      then have n: "Suc i < ?n" by simp
      then have "?m ! Suc i \<in> set (message_rows journal lower (Suc p))" by (subst split) (simp add: nth_append)
      from message_rows_bounds [OF this] have "fst (?m ! Suc i) \<le> p" by simp
      moreover have "?n \<le> length ?m" by (subst split) simp
      with n have "Suc i < length ?m" by simp
      then have "p < fst (?m ! Suc i)" unfolding assms(2) by (intro sorted) simp_all
      ultimately show False by simp
    qed
    show "Suc i \<le> ?n"
    proof (rule ccontr)
      assume "\<not> Suc i \<le> ?n"
      then have "?n \<le> i" by simp
      moreover have "i < ?n + length (message_rows journal (Suc p) upper)" using assms(1) by (subst (asm) split) simp
      ultimately have "?m ! i \<in> set (message_rows journal (Suc p) upper)" by (subst split) (auto simp: nth_append)
      from message_rows_bounds [OF this] assms(2) show False by simp
    qed
  qed
  then show "message_rows journal lower (Suc p) = take (Suc i) ?m" "message_rows journal (Suc p) upper = drop (Suc i) ?m"
    by (subst split, simp)+
qed

lemma window_limit: "limits_ok l \<Longrightarrow> n < max_messages l \<Longrightarrow> limit_ok (min (kp_pageSize (kl_policy l)) (kp_maxContextMessages (kl_policy l) - int n))"
  by (auto simp: limits_ok_def limit_ok_def safe_integer_def max_messages_def max_safe_integer_def)

lemma window_loop_rows:
  assumes "trajectory_ok src rs" "limits_ok l" "lower \<le> start" "start \<le> length rs" "limit_ok limit"
    "messages_range src q = Inr (trajectory_page (message_rows (xs_journal src) start (length rs)) (nat limit) lower (length rs) False)"
  shows "window_loop l s c src q rows = (case take_rows l s c (message_rows (xs_journal src) start (length rs)) rows of (rows', full) \<Rightarrow> Inr (rows', length rs, full))"
  using assms(3-)
proof (induction "max_messages l - length rows" arbitrary: start limit q rows rule: less_induct)
  case less
  let ?m = "message_rows (xs_journal src) start (length rs)" and ?n = "nat limit"
  let ?page = "trajectory_page ?m ?n lower (length rs) False"
  have n: "1 \<le> ?n" using less.prems(3) by (rule ready_limit)
  have page: "lp_rows ?page = take ?n ?m" "lp_snapshot ?page = length rs" by (simp_all add: trajectory_page_def)
  have halves: "take_rows l s c ?m rows = (case take_rows l s c (take ?n ?m) rows of (rows', full) \<Rightarrow> if full then (rows', True) else take_rows l s c (drop ?n ?m) rows')"
    using take_rows_append [of l s c "take ?n ?m" "drop ?n ?m" rows] by simp
  obtain rows' full where taken: "take_rows l s c (take ?n ?m) rows = (rows', full)" by (cases "take_rows l s c (take ?n ?m) rows")
  show ?case
  proof (cases full)
    case True
    with taken halves show ?thesis by (subst window_loop.simps) (simp add: less.prems(4) page)
  next
    case False
    with taken have rows': "rows' = rows @ map (sized_row l) (take ?n ?m)" using take_rows_all by simp
    show ?thesis
    proof (cases "?n < length ?m")
      case more: True
      let ?p = "fst (?m ! (?n - 1))"
      have next_page: "lp_next ?page = Some (message_cursor lower (length rs) ?p)"
        using more by (simp add: trajectory_page_def message_cursor_def)
      have "?n - 1 < length ?m" using more by simp
      note rest = message_rows_drop [OF this refl]
      have suc: "Suc (?n - 1) = ?n" using n by simp
      show ?thesis
      proof (cases "max_messages l \<le> length rows'")
        case True
        obtain x xs where "drop ?n ?m = x # xs" using more by (cases "drop ?n ?m") simp_all
        with True have "take_rows l s c (drop ?n ?m) rows' = (rows', True)" by (simp add: row_fits_def)
        with taken halves False True next_page show ?thesis by (subst window_loop.simps) (simp add: less.prems(4) page)
      next
        case room: False
        let ?limit = "min (kp_pageSize (kl_policy l)) (kp_maxContextMessages (kl_policy l) - int (length rows'))"
        have limit: "limit_ok ?limit" using window_limit [OF assms(2)] room by simp
        have p: "start \<le> ?p" "?p < length rs" using message_rows_bounds [OF nth_mem [of "?n - 1" ?m]] more by auto
        have "window_loop l s c src (after_query (message_cursor lower (length rs) ?p) ?limit) rows' =
            (case take_rows l s c (message_rows (xs_journal src) (Suc ?p) (length rs)) rows' of (rows'', full) \<Rightarrow> Inr (rows'', length rs, full))"
        proof (rule less.hyps [OF _ _ _ limit])
          show "max_messages l - length rows' < max_messages l - length rows"
            using rows' room n more by simp
          show "messages_range src (after_query (message_cursor lower (length rs) ?p) ?limit) =
              Inr (trajectory_page (message_rows (xs_journal src) (Suc ?p) (length rs)) (nat ?limit) lower (length rs) False)"
            using p less.prems(1) by (intro messages_after [OF assms(1)]) (simp_all add: limit)
        qed (use p less.prems in simp_all)
        moreover have "message_rows (xs_journal src) (Suc ?p) (length rs) = drop ?n ?m" using rest(2) suc by simp
        moreover have "window_loop l s c src q rows = window_loop l s c src (after_query (message_cursor lower (length rs) ?p) ?limit) rows'"
          using taken False room next_page by (subst window_loop.simps) (simp add: less.prems(4) page)
        ultimately show ?thesis using taken halves False by simp
      qed
    next
      case less_rows: False
      then have "lp_next ?page = None" "drop ?n ?m = []" by (simp_all add: trajectory_page_def)
      with taken halves False show ?thesis by (subst window_loop.simps) (simp add: less.prems(4) page)
    qed
  qed
qed

section \<open>The window kept between reads\<close>

definition fitted_window :: "compact_limits \<Rightarrow> rat \<Rightarrow> agent_event option list \<Rightarrow> nat \<Rightarrow> nat \<Rightarrow> context_window" where
  "fitted_window l budget journal cursor position = (case take_rows l 0 budget (message_rows journal cursor position) [] of (rows, full) \<Rightarrow>
     \<lparr>win_lower = cursor, win_upper = window_upper cursor (rows, position, full), win_budget = budget, win_rows = rows, win_more = full\<rparr>)"

text \<open>A window is sound for a journal when it is what fits of some prefix of it.\<close>

definition window_sound :: "compact_limits \<Rightarrow> agent_event option list \<Rightarrow> context_window \<Rightarrow> bool" where
  "window_sound l journal w \<longleftrightarrow> (\<exists>n \<le> length journal. win_lower w \<le> n \<and> w = fitted_window l (win_budget w) journal (win_lower w) n)"

lemma fitted_sound: "cursor \<le> position \<Longrightarrow> position \<le> length journal \<Longrightarrow> window_sound l journal (fitted_window l budget journal cursor position)"
  unfolding window_sound_def by (rule exI [of _ position]) (simp add: fitted_window_def split: prod.split)

lemma window_sound_append:
  assumes "calls_precede journal" "window_sound l journal w"
  shows "window_sound l (journal @ later) w"
proof -
  from assms(2) obtain n where "n \<le> length journal" "win_lower w \<le> n" "w = fitted_window l (win_budget w) journal (win_lower w) n"
    unfolding window_sound_def by blast
  moreover from this message_rows_append [OF assms(1), of n later]
  have "fitted_window l (win_budget w) (journal @ later) (win_lower w) n = fitted_window l (win_budget w) journal (win_lower w) n"
    by (simp add: fitted_window_def)
  ultimately show ?thesis unfolding window_sound_def by (intro exI [of _ n]) simp
qed

lemma message_rows_filter:
  assumes "lower \<le> m"
  shows "filter (\<lambda>x. m \<le> fst x) (message_rows journal lower upper) = (if m \<le> upper then message_rows journal m upper else [])"
proof (cases "m \<le> upper")
  case True
  have "filter (\<lambda>x. m \<le> fst x) (message_rows journal lower m) = []" using message_rows_bounds [of _ journal lower m] by (force simp: filter_empty_conv)
  moreover have "filter (\<lambda>x. m \<le> fst x) (message_rows journal m upper) = message_rows journal m upper"
    using message_rows_bounds [of _ journal m upper] by (force simp: filter_id_conv)
  ultimately show ?thesis using True assms message_rows_split [of lower m upper journal] by simp
next
  case False
  then show ?thesis using message_rows_bounds [of _ journal lower upper] by (force simp: filter_empty_conv)
qed

lemma filter_sized: "filter (\<lambda>row. m \<le> fst row) (map (sized_row l) pms) = map (sized_row l) (filter (\<lambda>x. m \<le> fst x) pms)"
  by (simp add: filter_map comp_def sized_row_def)

text \<open>The rows of a sound window are all the messages up to its upper bound; the next one does not fit.\<close>

lemma fitted_rows:
  assumes "limits_ok l" "w = fitted_window l budget journal lower n" "lower \<le> n"
  shows "win_rows w = map (sized_row l) (message_rows journal lower (win_upper w))" "lower \<le> win_upper w" "win_upper w \<le> n"
    "take_rows l 0 budget (message_rows journal lower (win_upper w)) [] = (win_rows w, False)"
    "win_more w \<Longrightarrow> win_rows w \<noteq> [] \<and> message_rows journal (win_upper w) n \<noteq> [] \<and>
       \<not> row_fits l 0 budget (win_rows w) (hd (message_rows journal (win_upper w) n))"
proof -
  let ?m = "message_rows journal lower n"
  obtain rows full where taken: "take_rows l 0 budget ?m [] = (rows, full)" by (cases "take_rows l 0 budget ?m []")
  with assms(2) have w: "win_rows w = rows" "win_more w = full" "win_upper w = window_upper lower (rows, n, full)"
    by (simp_all add: fitted_window_def)
  from take_rows_prefix [OF taken] obtain k where k: "k \<le> length ?m" "rows = map (sized_row l) (take k ?m)" "full = (k < length ?m)"
      "full \<longrightarrow> \<not> row_fits l 0 budget rows (?m ! k)" by auto
  have first: "full \<Longrightarrow> 1 \<le> k"
    using k(2,4) assms(1) by (cases k) (auto simp: row_fits_def max_messages_def limits_ok_def)
  have parts: "take k ?m = message_rows journal lower (win_upper w) \<and> drop k ?m = message_rows journal (win_upper w) n \<and> lower \<le> win_upper w \<and> win_upper w \<le> n"
  proof (cases full)
    case True
    have i: "k - 1 < length ?m" using True k(3) by simp
    have "rows \<noteq> []" using k first [OF True] True by auto
    then have "fst (last rows) = fst (?m ! (k - 1))"
      using k first [OF True] True by (simp add: last_conv_nth sized_row_def min_def)
    with True \<open>rows \<noteq> []\<close> have upper: "win_upper w = Suc (fst (?m ! (k - 1)))" by (simp add: w window_upper_def)
    have "Suc (k - 1) = k" using first [OF True] by simp
    with message_rows_drop [OF i refl] message_rows_bounds [OF nth_mem [OF i]] upper show ?thesis by auto
  next
    case False
    with k assms(3) show ?thesis by (simp add: w window_upper_def)
  qed
  show "win_rows w = map (sized_row l) (message_rows journal lower (win_upper w))" using parts k(2) w(1) by simp
  show "lower \<le> win_upper w" "win_upper w \<le> n" using parts by simp_all
  have "take_rows l 0 budget (take k ?m) [] = (rows, False)"
  proof (cases "take_rows l 0 budget (take k ?m) []")
    case (Pair r f)
    show ?thesis
    proof (cases f)
      case True
      with Pair taken take_rows_append [of l 0 budget "take k ?m" "drop k ?m" "[]"] have "r = rows" by simp
      moreover from take_rows_prefix [OF Pair] True have "length r < k" using k(1) by auto
      ultimately show ?thesis using k(1,2) by simp
    next
      case False
      with Pair take_rows_all [of l 0 budget "take k ?m" "[]" r] k(2) show ?thesis by simp
    qed
  qed
  with parts w(1) show "take_rows l 0 budget (message_rows journal lower (win_upper w)) [] = (win_rows w, False)" by simp
  assume "win_more w"
  then have full by (simp add: w)
  with k first have "rows \<noteq> []" "drop k ?m \<noteq> []" "hd (drop k ?m) = ?m ! k" by (auto simp: hd_drop_conv_nth)
  with k(4) parts w \<open>full\<close> show "win_rows w \<noteq> [] \<and> message_rows journal (win_upper w) n \<noteq> [] \<and>
      \<not> row_fits l 0 budget (win_rows w) (hd (message_rows journal (win_upper w) n))" by simp
qed

lemma window_first_limit: "limits_ok l \<Longrightarrow> limit_ok (min (kp_pageSize (kl_policy l)) (max 1 (kp_maxContextMessages (kl_policy l) - int n)))"
  by (auto simp: limits_ok_def limit_ok_def safe_integer_def max_safe_integer_def)

lemma window_read_rows:
  assumes "trajectory_ok src rs" "limits_ok l" "cursor \<le> length rs" "\<And>w. cached = Some w \<Longrightarrow> window_sound l (xs_journal src) w"
  shows "read_window l summary capacity src cached cursor = Inr (fitted_window l (capacity - summary) (xs_journal src) cursor (length rs))"
proof -
  let ?J = "xs_journal src" and ?b = "capacity - summary"
  have position: "nat (so_position (xs_source src)) = length rs" using assms(1) by (simp add: trajectory_ok_def source_ok_def)
  have len: "length ?J = length rs" using assms(1) by (auto simp: trajectory_ok_def dest: list_all2_lengthD)
  have loop: "window_loop l summary capacity src (first_query start None (min (kp_pageSize (kl_policy l)) (max 1 (kp_maxContextMessages (kl_policy l) - int (length kept))))) kept =
      (case take_rows l 0 ?b (message_rows ?J start (length rs)) kept of (rows', full) \<Rightarrow> Inr (rows', length rs, full))" if "start \<le> length rs" for start kept
  proof -
    note limit = window_first_limit [OF assms(2), of "length kept"]
    have "messages_range src (first_query start None (min (kp_pageSize (kl_policy l)) (max 1 (kp_maxContextMessages (kl_policy l) - int (length kept))))) =
        Inr (trajectory_page (message_rows ?J start (length rs)) (nat (min (kp_pageSize (kl_policy l)) (max 1 (kp_maxContextMessages (kl_policy l) - int (length kept)))))
          start (length rs) False)"
      by (rule messages_first [OF assms(1) that order_refl limit]) simp
    from window_loop_rows [OF assms(1,2) order_refl that limit this] show ?thesis
      by (simp only: take_rows_budget [of l summary capacity])
  qed
  show ?thesis
  proof (cases "reuse_window cursor (length rs) ?b cached")
    case None
    show ?thesis
      using loop [OF assms(3), of "[]"]
      by (cases "take_rows l 0 ?b (message_rows ?J cursor (length rs)) []") (simp add: read_window_def position None fitted_window_def)
  next
    case (Some w)
    then have w: "window_sound l ?J w" "win_lower w \<le> cursor" "win_budget w = ?b"
      using assms(4) by (auto simp: reuse_window_def split: option.splits if_splits)
    then obtain n where n: "n \<le> length rs" "win_lower w \<le> n" "w = fitted_window l ?b ?J (win_lower w) n"
      unfolding window_sound_def by (auto simp: len)
    note rows = fitted_rows [OF assms(2) n(3,2)]
    let ?start = "max cursor (win_upper w)" and ?kept = "kept_rows cursor w"
    have kept: "?kept = map (sized_row l) (message_rows ?J cursor ?start)"
      unfolding kept_rows_def rows(1) filter_sized message_rows_filter [OF w(2)] by (auto simp: max_def)
    have fits: "take_rows l 0 ?b (message_rows ?J cursor ?start) [] = (?kept, False)"
    proof (cases "cursor \<le> win_upper w")
      case True
      with w(2) have "message_rows ?J (win_lower w) (win_upper w) = message_rows ?J (win_lower w) cursor @ message_rows ?J cursor (win_upper w)"
        by (intro message_rows_split)
      with rows(1,4) have "take_rows l 0 ?b (message_rows ?J (win_lower w) cursor @ message_rows ?J cursor (win_upper w)) [] =
          (map (sized_row l) (message_rows ?J (win_lower w) cursor @ message_rows ?J cursor (win_upper w)), False)" by simp
      from take_rows_suffix [OF assms(2) this] True kept show ?thesis by (simp add: max_def)
    next
      case False
      with kept show ?thesis by (simp add: max_def)
    qed
    have start: "cursor \<le> ?start" "?start \<le> length rs" using rows(3) n(1) assms(3) by simp_all
    then have "message_rows ?J cursor (length rs) = message_rows ?J cursor ?start @ message_rows ?J ?start (length rs)"
      by (intro message_rows_split)
    with fits have fresh: "take_rows l 0 ?b (message_rows ?J cursor (length rs)) [] = take_rows l 0 ?b (message_rows ?J ?start (length rs)) ?kept"
      by (simp add: take_rows_append)
    show ?thesis
    proof (cases "win_more w \<and> length ?kept = length (win_rows w)")
      case False
      show ?thesis
        using loop [OF start(2), of ?kept]
        by (cases "take_rows l 0 ?b (message_rows ?J ?start (length rs)) ?kept")
          (simp add: read_window_def position Some fitted_window_def fresh Let_def if_not_P [OF False])
    next
      case True
      then have more: "win_rows w \<noteq> []" "message_rows ?J (win_upper w) n \<noteq> []" "\<not> row_fits l 0 ?b (win_rows w) (hd (message_rows ?J (win_upper w) n))"
        using rows(5) by simp_all
      have same: "?kept = win_rows w" using True unfolding kept_rows_def by (metis filter_id_conv length_filter_less linorder_neq_iff)
      have "last (win_rows w) \<in> set ?kept" unfolding same using more(1) by simp
      then have "cursor \<le> fst (last (win_rows w))" by (simp add: kept_rows_def)
      moreover have "fst (last (win_rows w)) < win_upper w"
      proof -
        have "last (win_rows w) \<in> sized_row l ` set (message_rows ?J (win_lower w) (win_upper w))"
          using more(1) last_in_set [of "win_rows w"] by (simp add: rows(1))
        then show ?thesis using message_rows_bounds by (auto simp: sized_row_def)
      qed
      ultimately have "?start = win_upper w" by simp
      moreover obtain x xs where "message_rows ?J (win_upper w) n = x # xs" using more(2) by (cases "message_rows ?J (win_upper w) n") simp_all
      moreover have "message_rows ?J (win_upper w) (length rs) = message_rows ?J (win_upper w) n @ message_rows ?J n (length rs)"
        using rows(3) n(1) by (intro message_rows_split)
      ultimately have "take_rows l 0 ?b (message_rows ?J ?start (length rs)) ?kept = (?kept, True)" using more(3) same by simp
      then show ?thesis
        by (simp add: read_window_def position Some fitted_window_def fresh window_upper_def Let_def if_P [OF True])
    qed
  qed
qed

end
