(* ===== verification/ModelContexts.thy ===== *)
theory ModelContexts
  imports ContextWindows
begin

text \<open>
  Contexts stored by reference (\<open>packages/agent/src/services/model-context.ts\<close>): the input of an accepted
  model call names a selection of the journal instead of the messages, and \<open>resolveModelInput\<close> reads and
  renders them again and compares the digest. The digest of the input with a context is a parameter.
\<close>

section \<open>Rendering and reading\<close>

definition message_tokens :: "render_policy \<Rightarrow> conversation_message \<Rightarrow> int" where
  "message_tokens p m = (case m of ToolMessage _ \<Rightarrow> lr_toolOutputTokenLimit p | _ \<Rightarrow> lr_userMessageTokenLimit p)"

fun render_clipped :: "nat \<Rightarrow> conversation_message \<Rightarrow> conversation_message" where
  "render_clipped limit (UserText t) = UserText (clip_text limit t)"
| "render_clipped limit (UserContent parts) = UserContent (map (clip_part limit) parts)"
| "render_clipped limit (AssistantMessage a) = AssistantMessage a"
| "render_clipped limit (ToolMessage t) = (case tm_content t of
     None \<Rightarrow> ToolMessage (t\<lparr>tm_text := clip_text limit (tm_text t)\<rparr>)
   | Some parts \<Rightarrow> let content = map (clip_part limit) parts in ToolMessage (t\<lparr>tm_content := Some content, tm_text := content_text content\<rparr>))"

definition renderMessageV1 :: "render_policy \<Rightarrow> conversation_message \<Rightarrow> runtime_error + conversation_message" where
  "renderMessageV1 p m = (let limit = \<lfloor>of_int (message_tokens p m) * lr_charsPerToken p\<rfloor> in
     if \<not> safe_integer limit \<or> limit < int (length TRUNCATION_MARKER) then Inl (Error ''Invalid log context rendering limit'')
     else Inr (render_clipped (nat limit) m))"

text \<open>The loop over the pages of the selection ends: each cursor lies after the one it continues.\<close>

lemma event_page_within:
  assumes "event_page src lower upper limit desc after = Inr page"
  shows "case bounds_after desc (map_option lk_position after) lower upper of (lo, hi) \<Rightarrow> \<forall>x\<in>set (lp_rows page). lo \<le> fst x \<and> fst x < hi"
proof -
  obtain lo hi where b: "bounds_after desc (map_option lk_position after) lower upper = (lo, hi)" by fastforce
  with atom_page_loop [OF assms [unfolded event_page_def]] obtain s rows further where loop: "page = page_of s desc (rows, further)"
      "row_loop invalid_records invalid_records (selected_type (xs_log src) (ls_events s)) (\<lambda>_ r. tl_decode (xs_log src) r) (nat limit) desc lo hi
        (log_entries (xs_log src) (xs_source src) (ls_events s) desc lo hi) (first_previous desc lo hi) [] = Inr (rows, further)" by auto
  from row_loop_within [OF loop(2)] b loop(1) show ?thesis by simp
qed

lemma collect_rows_within:
  assumes "collect_rows limit es rows = (rows', full)" "\<forall>x\<in>set es. P (fst x)" "\<forall>x\<in>set rows. P (fst x)"
  shows "\<forall>x\<in>set rows'. P (fst x)"
  using assms by (induction limit es rows rule: collect_rows.induct) (auto split: if_splits)

lemma trajectory_loop_cursor:
  assumes "trajectory_loop src lower upper limit desc after rows = Inr page" "lp_next page = Some c" "1 \<le> limit"
    "lo \<le> fst (bounds_after desc (map_option lk_position after) lower upper)" "snd (bounds_after desc (map_option lk_position after) lower upper) \<le> hi"
    "\<forall>x\<in>set rows. lo \<le> fst x \<and> fst x < hi"
  shows "lk_lower c = lower \<and> lk_upper c = upper \<and> lk_desc c = desc \<and> lo \<le> lk_position c \<and> lk_position c < hi"
  using assms
proof (induction src lower upper limit desc after rows rule: trajectory_loop.induct)
  case (1 src lower upper limit desc after rows)
  show ?case
  proof (cases "event_page src lower upper (page_limit limit rows) desc after")
    case (Inl e)
    with "1.prems"(1) show ?thesis by (subst (asm) trajectory_loop.simps) simp
  next
    case (Inr p)
    let ?es = "map (\<lambda>(p, e). (p, trajectory_entry_of (xs_journal src) p e)) (lp_rows p)"
    obtain rows' full where coll: "collect_rows limit ?es rows = (rows', full)" by (cases "collect_rows limit ?es rows")
    have "\<forall>x\<in>set ?es. lo \<le> fst x \<and> fst x < hi"
      using event_page_within [OF Inr] "1.prems"(4,5) by (fastforce simp: split_beta)
    from collect_rows_within [OF coll this] "1.prems"(6) have within: "\<forall>x\<in>set rows'. lo \<le> fst x \<and> fst x < hi" by blast
    show ?thesis
    proof (cases full)
      case True
      with "1.prems"(1) Inr coll have page: "lp_next page = Some \<lparr>lk_events = trajectory_events, lk_lower = lower, lk_upper = upper, lk_desc = desc,
          lk_position = fst (rows' ! (limit - 1))\<rparr>" by (subst (asm) trajectory_loop.simps) auto
      have "limit - 1 < length rows'" using collect_rows_full [of limit ?es rows rows'] coll True by simp
      from nth_mem [OF this] within page "1.prems"(2) show ?thesis by auto
    next
      case False
      show ?thesis
      proof (cases "lp_next p")
        case None
        with False "1.prems"(1,2) Inr coll show ?thesis by (subst (asm) trajectory_loop.simps) auto
      next
        case (Some d)
        with False "1.prems"(1) Inr coll have rest: "trajectory_loop src lower upper limit desc (Some d) rows' = Inr page"
          by (subst (asm) trajectory_loop.simps) auto
        have "case bounds_after desc (map_option lk_position after) lower upper of (l', h') \<Rightarrow> l' \<le> lk_position d \<and> lk_position d < h'"
          using atom_page_next [OF Inr [unfolded event_page_def] Some] .
        with "1.prems"(4,5) have "lo \<le> fst (bounds_after desc (map_option lk_position (Some d)) lower upper)"
            "snd (bounds_after desc (map_option lk_position (Some d)) lower upper) \<le> hi"
          by (auto simp: bounds_after_def split: option.splits if_splits)
        from "1.IH" [OF Inr coll [symmetric] False Some rest "1.prems"(2,3) this within] show ?thesis .
      qed
    qed
  qed
qed

lemma messages_range_cursor:
  assumes "messages_range src q = Inr page" "lp_next page = Some c" "rg_desc q = None"
    "upper = bound_from (map_option lk_upper (rg_after q)) (rg_upper q) (nat (so_position (xs_source src)))"
    "desc = (case rg_after q of Some c \<Rightarrow> lk_desc c | None \<Rightarrow> False)"
  shows "\<exists>lower. lk_upper c = upper \<and> lk_desc c = desc \<and>
    (case bounds_after desc (map_option lk_position (rg_after q)) lower upper of (lo, hi) \<Rightarrow> lo \<le> lk_position c \<and> lk_position c < hi)"
proof -
  from assms(1) obtain tp where tp: "trajectory_range src q = Inr tp" "lp_next tp = lp_next page"
    by (auto simp: messages_range_def)
  let ?limit = "case rg_limit q of None \<Rightarrow> tl_pageSize (xs_log src) | Some n \<Rightarrow> n"
  from tp(1) obtain s where s: "view_range trajectory_events (bound_from (map_option lk_lower (rg_after q)) (rg_lower q) 0) upper = Inr s"
    unfolding trajectory_range_def assms(4) by (auto split: if_splits)
  then have upper: "ls_upper s = upper" by (auto simp: view_range_def Let_def split: if_splits)
  have query: "(case rg_desc q of None \<Rightarrow> (case rg_after q of None \<Rightarrow> False | Some c \<Rightarrow> lk_desc c) | Some d \<Rightarrow> d) = desc"
    by (simp add: assms(3,5) split: option.split)
  from tp(1) have "limit_ok ?limit \<and> trajectory_loop src (ls_lower s) (ls_upper s) (nat ?limit) desc (rg_after q) [] = Inr tp"
    unfolding trajectory_range_def Let_def query assms(4) [symmetric] s by (simp split: if_splits)
  with upper have loop: "limit_ok ?limit" "trajectory_loop src (ls_lower s) upper (nat ?limit) desc (rg_after q) [] = Inr tp" by simp_all
  from trajectory_loop_cursor [OF loop(2) _ ready_limit [OF loop(1)] order_refl order_refl, of c] assms(2) tp(2)
  show ?thesis by (auto simp: split_beta)
qed

lemma first_cursor:
  assumes "messages_range src (first_query lower (Some upper) limit) = Inr page" "lp_next page = Some c"
  shows "lk_upper c = upper \<and> \<not> lk_desc c \<and> lk_position c < upper"
  using messages_range_cursor [OF assms _ refl refl] by (auto simp: first_query_def bound_from_def bounds_after_def)

lemma after_cursor:
  assumes "messages_range src (after_query c limit) = Inr page" "lp_next page = Some c'"
  shows "lk_upper c' = lk_upper c \<and> lk_desc c' = lk_desc c \<and>
    (if lk_desc c then lk_position c' < lk_position c else lk_position c < lk_position c' \<and> lk_position c' < lk_upper c)"
  using messages_range_cursor [OF assms _ refl refl] by (auto simp: after_query_def bound_from_def bounds_after_def)

definition context_query :: "log_selection \<Rightarrow> int \<Rightarrow> log_cursor option \<Rightarrow> range_query" where
  "context_query s limit after = (case after of None \<Rightarrow> first_query (ls_lower s) (Some (ls_upper s)) limit | Some c \<Rightarrow> after_query c limit)"

function read_context :: "'r trajectory_source \<Rightarrow> log_model_context \<Rightarrow> log_cursor option \<Rightarrow> conversation_message list \<Rightarrow> runtime_error + conversation_message list" where
  "read_context src recipe after acc =
     (case messages_range src (context_query (lx_messages recipe) (lx_pageSize recipe) after) of
        Inl e \<Rightarrow> Inl e
      | Inr page \<Rightarrow> (case map_try (\<lambda>(_, m). renderMessageV1 (lx_render recipe) m) (lp_rows page) of
          Inl e \<Rightarrow> Inl e
        | Inr messages \<Rightarrow> (case lp_next page of
            None \<Rightarrow> Inr (acc @ messages)
          | Some c \<Rightarrow> read_context src recipe (Some c) (acc @ messages))))"
  by pat_completeness auto

termination
proof (relation "measure (\<lambda>(src, recipe, after, acc). case after of None \<Rightarrow> Suc (ls_upper (lx_messages recipe))
    | Some c \<Rightarrow> if lk_desc c then lk_position c else lk_upper c - lk_position c)", goal_cases)
  case (2 src recipe after acc page messages c)
  show ?case
  proof (cases after)
    case None
    with 2 first_cursor [of src "ls_lower (lx_messages recipe)" "ls_upper (lx_messages recipe)" "lx_pageSize recipe" page c]
    show ?thesis by (simp add: context_query_def)
  next
    case (Some d)
    with 2 after_cursor [of src d "lx_pageSize recipe" page c] show ?thesis by (auto simp: context_query_def)
  qed
qed simp

declare read_context.simps [simp del]

text \<open>
  \<open>resolveModelInput\<close>, for the context of an input. \<open>digest\<close> is that of the input with the context;
  \<open>prepared\<close> is the context the live execution was handed.
\<close>

definition resolve_read :: "(conversation_message list \<Rightarrow> 'd) \<Rightarrow> log_model_context \<Rightarrow> 'd \<Rightarrow> 'r trajectory_source \<Rightarrow> runtime_error + conversation_message list" where
  "resolve_read digest recipe expected src =
     try_bind (if lx_summary recipe = [] then Inr []
         else try_bind (renderMessageV1 (lx_render recipe) (UserText (SUMMARY_HEADING @ lx_summary recipe))) (\<lambda>m. Inr [m])) (\<lambda>summary.
       try_bind (read_context src recipe None summary) (\<lambda>context.
         if digest context = expected then Inr context else Inl (Error ''Log model input hash mismatch'')))"

definition resolve_context :: "(conversation_message list \<Rightarrow> 'd) \<Rightarrow> log_model_context \<Rightarrow> 'd \<Rightarrow> 'r trajectory_source \<Rightarrow> conversation_message list option \<Rightarrow>
    runtime_error + conversation_message list" where
  "resolve_context digest recipe expected src prepared =
     (if \<not> selection_ok (lx_messages recipe) \<or> ls_events (lx_messages recipe) \<noteq> trajectory_events then Inl SchemaError
      else case prepared of
        Some p \<Rightarrow> if digest p = expected then Inr p else resolve_read digest recipe expected src
      | None \<Rightarrow> resolve_read digest recipe expected src)"

end
