(* ===== verification/StoredContexts.thy ===== *)
theory StoredContexts
  imports ModelContexts
begin

text \<open>
  A stored context resolves to the messages that the execution was handed: the policy it captured renders
  every message of a journal as \<open>compact\<close> did, and the pages of its selection stay the same while the
  journal grows.
\<close>

section \<open>Rendering\<close>

definition captured_policy :: "compaction_policy \<Rightarrow> render_policy" where
  "captured_policy p = \<lparr>lr_charsPerToken = kp_charsPerToken p, lr_toolOutputTokenLimit = kp_toolOutputTokenLimit p,
     lr_userMessageTokenLimit = kp_userMessageTokenLimit p\<rparr>"

fun joined_text :: "conversation_message \<Rightarrow> bool" where
  "joined_text (ToolMessage t) = (case tm_content t of None \<Rightarrow> True | Some parts \<Rightarrow> tm_text t = content_text parts)"
| "joined_text _ = True"

lemma char_limit_Inr:
  "char_limit p tokens = Inr n \<Longrightarrow> n = nat \<lfloor>of_int tokens * kp_charsPerToken p\<rfloor> \<and> safe_integer \<lfloor>of_int tokens * kp_charsPerToken p\<rfloor> \<and>
     int (length TRUNCATION_MARKER) \<le> \<lfloor>of_int tokens * kp_charsPerToken p\<rfloor>"
  by (auto simp: char_limit_def Let_def split: if_splits)

lemma compaction_limits_Inr:
  assumes "compaction_limits p = Inr l"
  shows "kl_policy l = p" "char_limit p (kp_toolOutputTokenLimit p) = Inr (kl_tool l)" "char_limit p (kp_userMessageTokenLimit p) = Inr (kl_user l)"
  using assms by (auto simp: compaction_limits_def split: if_splits)

lemma clipped_tool: "tm_text t = content_text parts \<Longrightarrow> map (clip_part limit) parts = parts \<Longrightarrow> tm_content t = Some parts \<Longrightarrow>
    t\<lparr>tm_content := Some (map (clip_part limit) parts), tm_text := content_text (map (clip_part limit) parts)\<rparr> = t"
  by (cases t) simp

lemma render_captured:
  assumes "compaction_limits p = Inr l" "joined_text m"
  shows "renderMessageV1 (captured_policy p) m = Inr (render_message l m)"
proof -
  note limits = compaction_limits_Inr [OF assms(1)]
  note tool = char_limit_Inr [OF limits(2)] and user = char_limit_Inr [OF limits(3)]
  show ?thesis
  proof (cases m)
    case (ToolMessage t)
    with tool assms(2) show ?thesis
      by (auto simp: renderMessageV1_def message_tokens_def captured_policy_def Let_def clipped_tool split: option.splits)
  qed (use user in \<open>simp_all add: renderMessageV1_def message_tokens_def captured_policy_def Let_def\<close>)
qed

lemma message_rows_joined: "x \<in> set (message_rows journal lower upper) \<Longrightarrow> joined_text (snd x)"
proof -
  have "joined_text (te_message e)" if "trajectory_entry_of journal p v = Some e" for p v e
    using that by (cases v) (auto split: option.splits if_splits)
  then have "message_at journal p = Some m \<Longrightarrow> joined_text m" for p m
    by (auto simp: message_at_def entry_row_def split: option.splits)
  moreover assume "x \<in> set (message_rows journal lower upper)"
  then have "\<exists>p. message_at journal p = Some (snd x)"
    by (auto simp: message_rows_at List.map_filter_def)
  ultimately show ?thesis by blast
qed

lemma rows_rendered:
  assumes "compaction_limits p = Inr l"
  shows "map_try (\<lambda>(_, m). renderMessageV1 (captured_policy p) m) (take n (message_rows journal lower upper)) =
    Inr (map (\<lambda>x. render_message l (snd x)) (take n (message_rows journal lower upper)))"
proof (rule map_try_total)
  fix x
  assume "x \<in> set (take n (message_rows journal lower upper))"
  then have "joined_text (snd x)" using message_rows_joined in_set_takeD by fast
  from render_captured [OF assms this] show "(case x of (_, m) \<Rightarrow> renderMessageV1 (captured_policy p) m) = Inr (render_message l (snd x))"
    by (simp add: split_beta)
qed

section \<open>Reading the selection\<close>

lemma read_context_rows:
  assumes "compaction_limits p = Inr l" "trajectory_ok src rs" "ls_lower (lx_messages recipe) = lower" "ls_upper (lx_messages recipe) = upper"
    "lx_render recipe = captured_policy p" "limit_ok (lx_pageSize recipe)" "lower \<le> start" "start \<le> upper" "upper \<le> length rs"
    "messages_range src (context_query (lx_messages recipe) (lx_pageSize recipe) after) =
       Inr (trajectory_page (message_rows (xs_journal src) start upper) (nat (lx_pageSize recipe)) lower upper False)"
  shows "read_context src recipe after acc = Inr (acc @ map (\<lambda>x. render_message l (snd x)) (message_rows (xs_journal src) start upper))"
  using assms(7,8,10)
proof (induction "length (message_rows (xs_journal src) start upper)" arbitrary: start after acc rule: less_induct)
  case less
  let ?m = "message_rows (xs_journal src) start upper" and ?n = "nat (lx_pageSize recipe)"
  let ?page = "trajectory_page ?m ?n lower upper False"
  have n: "1 \<le> ?n" using assms(6) by (rule ready_limit)
  have page: "lp_rows ?page = take ?n ?m" by (simp add: trajectory_page_def)
  note rendered = rows_rendered [OF assms(1), of ?n "xs_journal src" start upper]
  show ?case
  proof (cases "?n < length ?m")
    case True
    let ?p = "fst (?m ! (?n - 1))"
    have next_page: "lp_next ?page = Some (message_cursor lower upper ?p)"
      using True by (simp add: trajectory_page_def message_cursor_def)
    have i: "?n - 1 < length ?m" using True by simp
    note bounds = message_rows_bounds [OF nth_mem [OF i]]
    have rest: "message_rows (xs_journal src) (Suc ?p) upper = drop ?n ?m" using message_rows_drop(2) [OF i refl] n by simp
    have "read_context src recipe (Some (message_cursor lower upper ?p)) (acc @ map (\<lambda>x. render_message l (snd x)) (take ?n ?m)) =
        Inr ((acc @ map (\<lambda>x. render_message l (snd x)) (take ?n ?m)) @ map (\<lambda>x. render_message l (snd x)) (message_rows (xs_journal src) (Suc ?p) upper))"
    proof (rule less.hyps)
      show "length (message_rows (xs_journal src) (Suc ?p) upper) < length ?m" using rest n True by simp
      show "messages_range src (context_query (lx_messages recipe) (lx_pageSize recipe) (Some (message_cursor lower upper ?p))) =
          Inr (trajectory_page (message_rows (xs_journal src) (Suc ?p) upper) ?n lower upper False)"
        unfolding context_query_def option.case using bounds less.prems(1) assms(2,6,9) by (intro messages_after) simp_all
    qed (use bounds less.prems in simp_all)
    then have "read_context src recipe (Some (message_cursor lower upper ?p)) (acc @ map (\<lambda>x. render_message l (snd x)) (take ?n ?m)) =
        Inr (acc @ map (\<lambda>x. render_message l (snd x)) (take ?n ?m @ drop ?n ?m))"
      by (simp only: rest map_append append_assoc)
    then show ?thesis
      by (subst read_context.simps) (simp only: less.prems(3) sum.case page assms(5) rendered next_page option.case append_take_drop_id)
  next
    case False
    then have "lp_next ?page = None" "take ?n ?m = ?m" by (simp_all add: trajectory_page_def)
    with rendered show ?thesis
      by (subst read_context.simps) (simp add: less.prems(3) page assms(5))
  qed
qed

section \<open>The round trip\<close>

lemma log_context_selection:
  assumes "log_context_of l (LogContext src) summary cursor = Inr (Some recipe)" "trajectory_ok src rs" "kl_policy l = p"
  shows "lx_messages recipe = trajectory_selection cursor (length rs)" "cursor \<le> length rs" "lx_summary recipe = summary"
    "lx_pageSize recipe = kp_pageSize p" "lx_render recipe = captured_policy p" "selection_ok (lx_messages recipe)"
proof -
  have position: "nat (so_position (xs_source src)) = length rs" using assms(2) by (simp add: trajectory_ok_def source_ok_def)
  from assms(1) show sel: "lx_messages recipe = trajectory_selection cursor (length rs)"
    by (auto simp: log_context_of_def view_range_def trajectory_selection_def position Let_def split: if_splits)
  from assms(1) show ok: "selection_ok (lx_messages recipe)"
    by (auto simp: log_context_of_def view_range_def position Let_def split: if_splits)
  from ok sel show "cursor \<le> length rs" by (simp add: selection_ok_def)
  from assms(1,3) show "lx_summary recipe = summary" "lx_pageSize recipe = kp_pageSize p" "lx_render recipe = captured_policy p"
    by (auto simp: log_context_of_def captured_policy_def)
qed

lemma decide_ready:
  assumes "fst (decide_compaction l mc trigger retain paged st w logContext) = CompactReady messages context usage"
  shows "messages = summary_message l (cs_summary st) @ map (fst \<circ> snd) (win_rows w)" "context = logContext" "\<not> win_more w"
  using assms by (auto simp: decide_compaction_def Let_def split: if_splits)

lemma fitted_complete: "\<not> win_more (fitted_window l b journal cursor n) \<Longrightarrow>
    win_rows (fitted_window l b journal cursor n) = map (sized_row l) (message_rows journal cursor n)"
  by (auto simp: fitted_window_def dest: take_rows_all split: prod.splits)

lemma compact_ready:
  assumes "compact l (Some mc) (LogContext src) st cached = Inr out" "ko_view out = CompactReady messages (Some recipe) usage"
    "trajectory_ok src rs" "limits_ok l" "\<And>w. cached = Some w \<Longrightarrow> window_sound l (xs_journal src) w"
  shows "\<exists>cursor. log_context_of l (LogContext src) (cs_summary st) cursor = Inr (Some recipe) \<and>
    messages = summary_message l (cs_summary st) @ map (\<lambda>x. render_message l (snd x)) (message_rows (xs_journal src) cursor (length rs)) \<and>
    win_rows (fitted_window l (capacity_of l mc - summary_size l (cs_summary st)) (xs_journal src) cursor (length rs)) =
      map (sized_row l) (message_rows (xs_journal src) cursor (length rs))"
proof -
  from assms(1,2) obtain trigger retain cursor where "compact_selected l mc trigger retain (LogContext src) st cached cursor = Inr out"
    unfolding compact_def by (auto simp: Let_def split: if_splits)
  with assms(2) obtain logContext w where parts: "log_context_of l (LogContext src) (cs_summary st) cursor = Inr logContext"
      "read_window l (summary_size l (cs_summary st)) (capacity_of l mc) src cached cursor = Inr w"
      "fst (decide_compaction l mc trigger retain True st w logContext) = CompactReady messages (Some recipe) usage"
    unfolding compact_selected_def context_window_of_def by (auto simp: Let_def split_beta split: option.splits if_splits)
  note ready = decide_ready [OF parts(3)]
  with parts(1) have picked: "log_context_of l (LogContext src) (cs_summary st) cursor = Inr (Some recipe)" by simp
  from window_read_rows [OF assms(3,4) log_context_selection(2) [OF picked assms(3) refl] assms(5)] parts(2)
  have w: "w = fitted_window l (capacity_of l mc - summary_size l (cs_summary st)) (xs_journal src) cursor (length rs)" by simp
  with ready(3) fitted_complete have "win_rows w = map (sized_row l) (message_rows (xs_journal src) cursor (length rs))" by blast
  with ready(1) picked w show ?thesis by (auto simp: sized_row_def)
qed

end
