(* ===== verification/CompactionProperties.thy ===== *)
theory CompactionProperties
  imports StoredContexts
begin

text \<open>
  The properties of compaction: what is cut, what the durable state accepts of it, how large the context
  may be, and what a stored context gives when it is read again.
\<close>

section \<open>Cuts\<close>

text \<open>The calls that the messages leave open.\<close>

definition calls_after :: "string set \<Rightarrow> conversation_message list \<Rightarrow> string set" where
  "calls_after calls messages = fold (\<lambda>m calls. calls_open calls m) messages calls"

lemma calls_after_simps [simp]: "calls_after calls [] = calls" "calls_after calls (m # ms) = calls_after (calls_open calls m) ms"
  by (simp_all add: calls_after_def)

lemma scan_left: "snd (scan_boundaries i calls ms) = calls_after calls ms"
  by (induction i calls ms rule: scan_boundaries.induct) (simp_all add: split_beta)

lemma scan_cuts:
  "c \<in> set (fst (scan_boundaries i calls ms)) \<longleftrightarrow>
    (\<exists>k < length ms. c = i + k \<and> 0 < c \<and> calls_after calls (take k ms) = {} \<and> starts_exchange (ms ! k))"
proof (induction i calls ms rule: scan_boundaries.induct)
  case (2 i calls m ms)
  have "(\<exists>k < length (m # ms). c = i + k \<and> 0 < c \<and> calls_after calls (take k (m # ms)) = {} \<and> starts_exchange ((m # ms) ! k)) \<longleftrightarrow>
      (0 < i \<and> calls = {} \<and> starts_exchange m \<and> c = i) \<or>
      (\<exists>k < length ms. c = Suc i + k \<and> 0 < c \<and> calls_after (calls_open calls m) (take k ms) = {} \<and> starts_exchange (ms ! k))"
    unfolding Ex_less_Suc2 list.size(4) add.right_neutral add_Suc_right by auto
  with 2 show ?case by (auto simp: split_beta)
qed simp

text \<open>An admissible cut leaves no call open and has an exchange, or nothing, after it.\<close>

definition cut_ok :: "bool \<Rightarrow> conversation_message list \<Rightarrow> nat \<Rightarrow> bool" where
  "cut_ok full messages c \<longleftrightarrow> 0 < c \<and> c \<le> length messages \<and> calls_after {} (take c messages) = {} \<and>
     (if c < length messages then starts_exchange (messages ! c) else full)"

lemma boundaries_ok: "c \<in> set (boundaries full messages) \<longleftrightarrow> cut_ok full messages c"
  using scan_cuts [of c 0 "{}" messages] scan_left [of 0 "{}" messages]
  by (auto simp: boundaries_def cut_ok_def split_beta split: if_splits)

lemma cut_at_chosen:
  assumes "cuts \<noteq> []"
  shows "cut_at l retain tails full cuts \<in> set cuts"
    "\<not> full \<Longrightarrow> \<lceil>tails (cut_at l retain tails full cuts) / kp_charsPerToken (kl_policy l)\<rceil> \<le> retain \<or>
      (\<forall>c\<in>set cuts. retain < \<lceil>tails c / kp_charsPerToken (kl_policy l)\<rceil>)"
proof -
  let ?P = "\<lambda>i. \<lceil>tails i / kp_charsPerToken (kl_policy l)\<rceil> \<le> retain"
  have "x \<in> set cuts \<and> ?P x" if "find ?P cuts = Some x" for x
    using that by (auto simp: find_Some_iff)
  moreover have "\<forall>c\<in>set cuts. \<not> ?P c" if "find ?P cuts = None" using that by (simp add: find_None_iff)
  ultimately show "cut_at l retain tails full cuts \<in> set cuts"
    "\<not> full \<Longrightarrow> ?P (cut_at l retain tails full cuts) \<or> (\<forall>c\<in>set cuts. retain < \<lceil>tails c / kp_charsPerToken (kl_policy l)\<rceil>)"
    using assms by (auto simp: cut_at_def not_le split: option.split)
qed

lemma decide_request:
  assumes "decide_compaction l mc trigger retain paged st w logContext = (view, Some r)"
  shows "\<exists>c. cut_ok (win_more w) (map (fst \<circ> snd) (win_rows w)) c \<and>
    r = summarize_request st mc paged (summary_message l (cs_summary st)) (win_rows w) c \<and>
    (win_more w \<or> (let tails = (\<lambda>c. \<lceil>tail_size l st mc paged (win_rows w) (anchored st mc paged (win_rows w)) c / kp_charsPerToken (kl_policy l)\<rceil>) in
       tails c \<le> retain \<or> (\<forall>d. cut_ok False (map (fst \<circ> snd) (win_rows w)) d \<longrightarrow> retain < tails d)))"
proof -
  let ?cuts = "boundaries (win_more w) (map (fst \<circ> snd) (win_rows w))"
  let ?tails = "tail_size l st mc paged (win_rows w) (anchored st mc paged (win_rows w))"
  from assms have "?cuts \<noteq> []" "r = summarize_request st mc paged (summary_message l (cs_summary st)) (win_rows w)
      (cut_at l retain ?tails (win_more w) ?cuts)"
    by (auto simp: decide_compaction_def Let_def split: if_splits)
  with cut_at_chosen(1) [OF this(1), of l retain ?tails "win_more w"] cut_at_chosen(2) [OF this(1), of "win_more w" ?tails l retain] show ?thesis
    by (intro exI [of _ "cut_at l retain ?tails (win_more w) ?cuts"]) (auto simp: boundaries_ok)
qed

section \<open>The durable state\<close>

text \<open>Tracking usage leaves the fields that a compaction is decided on.\<close>

lemma end_usage_fields:
  "cs_pending (end_usage n pos e st) = cs_pending st" "cs_through (end_usage n pos e st) = cs_through st" "cs_cursor (end_usage n pos e st) = cs_cursor st"
  "cs_attempts (end_usage n pos e st) = cs_attempts st" "cs_summary (end_usage n pos e st) = cs_summary st" "cs_failure (end_usage n pos e st) = cs_failure st"
  by (simp_all add: end_usage_def record_anchor_def Let_def split: prod.split option.split)

lemma age_anchors_fields:
  "cs_pending (age_anchors n e st) = cs_pending st" "cs_through (age_anchors n e st) = cs_through st" "cs_cursor (age_anchors n e st) = cs_cursor st"
  "cs_attempts (age_anchors n e st) = cs_attempts st" "cs_summary (age_anchors n e st) = cs_summary st" "cs_failure (age_anchors n e st) = cs_failure st"
  by (simp_all add: age_anchors_def split: option.split)

lemma track_usage_fields:
  "cs_pending (track_usage n pos e st) = cs_pending st" "cs_through (track_usage n pos e st) = cs_through st" "cs_cursor (track_usage n pos e st) = cs_cursor st"
  "cs_attempts (track_usage n pos e st) = cs_attempts st" "cs_summary (track_usage n pos e st) = cs_summary st" "cs_failure (track_usage n pos e st) = cs_failure st"
  by (cases e; simp add: Let_def end_usage_fields age_anchors_fields)+

definition compact_states :: "nat \<Rightarrow> nat \<Rightarrow> agent_event list \<Rightarrow> compaction_state \<Rightarrow> runtime_error + compaction_state" where
  "compact_states n position es = fold_try (\<lambda>(p, e) st. compactState n (Some p) st e) (enumerate position es)"

lemma state_requested:
  assumes "cs_pending st = None" "safe_integer (kq_through r)" "cs_through st < kq_through r"
    "\<And>c. kq_cursor r = Some c \<Longrightarrow> (case cs_cursor st of None \<Rightarrow> 0 | Some d \<Rightarrow> d) < c"
  shows "\<exists>st'. compact_states n position (compaction_requested r) st = Inr st' \<and> cs_pending st' = Some \<lparr>pn_callId = kq_callId r, pn_through = kq_through r, pn_cursor = kq_cursor r\<rparr> \<and>
    cs_cursor st' = cs_cursor st \<and> cs_through st' = cs_through st \<and> cs_summary st' = cs_summary st \<and> cs_attempts st' = Suc (cs_attempts st)"
proof -
  have "\<not> (case kq_cursor r of None \<Rightarrow> False | Some c \<Rightarrow> c \<le> (case cs_cursor st of None \<Rightarrow> 0 | Some d \<Rightarrow> d))"
    using assms(4) by (cases "kq_cursor r") (simp_all add: not_le)
  with assms(1-3) show ?thesis
    by (cases "kq_cursor r") (simp_all add: compaction_requested_def compact_states_def compactState_def track_usage_fields del: track_usage.simps)
qed

lemma compact_states_append: "compact_states n position (xs @ ys) st = try_bind (compact_states n position xs st) (compact_states n (position + length xs) ys)"
  by (simp add: compact_states_def enumerate_append_eq fold_try_append)

lemma state_settled:
  assumes "cs_pending st = Some \<lparr>pn_callId = kq_callId r, pn_through = through, pn_cursor = cursor\<rparr>"
  shows "\<exists>st'. compact_states n position (compaction_settled r (ActFulfilled reply)) st = Inr st' \<and> cs_pending st' = None \<and> cs_failure st' = None \<and>
      cs_through st' = through \<and> cs_cursor st' = cursor \<and> cs_summary st' = mr_text reply"
    "\<exists>st'. compact_states n position (compaction_settled r (ActRejected reason)) st = Inr st' \<and> cs_pending st' = None \<and>
      cs_failure st' = Some (failureMessage reason) \<and> cs_through st' = cs_through st \<and> cs_cursor st' = cs_cursor st \<and> cs_summary st' = cs_summary st"
  using assms by (simp_all add: compact_states_def compactState_def track_usage_fields del: track_usage.simps)

section \<open>A cycle of compaction\<close>

lemma compact_request_window:
  assumes "compact l (Some mc) (LogContext src) st cached = Inr out" "ko_request out = Some r" "trajectory_ok src rs" "limits_ok l"
    "\<And>w. cached = Some w \<Longrightarrow> window_sound l (xs_journal src) w"
  shows "\<exists>cursor w c. context_cursor (LogContext src) st = Inr cursor \<and> cursor \<le> length rs \<and> cs_pending st = None \<and>
    w = fitted_window l (capacity_of l mc - summary_size l (cs_summary st)) (xs_journal src) cursor (length rs) \<and>
    cut_ok (win_more w) (map (fst \<circ> snd) (win_rows w)) c \<and>
    r = summarize_request st mc True (summary_message l (cs_summary st)) (win_rows w) c"
proof -
  from assms(1,2) obtain trigger retain cursor where first: "context_cursor (LogContext src) st = Inr cursor"
      "compact_selected l mc trigger retain (LogContext src) st cached cursor = Inr out"
    unfolding compact_def by (auto simp: Let_def split: if_splits)
  from this(2) assms(2) obtain logContext w where parts: "log_context_of l (LogContext src) (cs_summary st) cursor = Inr logContext"
      "read_window l (summary_size l (cs_summary st)) (capacity_of l mc) src cached cursor = Inr w"
      "snd (decide_compaction l mc trigger retain True st w logContext) = Some r" "cs_pending st = None"
    unfolding compact_selected_def context_window_of_def by (auto simp: Let_def split_beta split: option.splits if_splits)
  then obtain view where "decide_compaction l mc trigger retain True st w logContext = (view, Some r)" by (metis prod.collapse)
  from decide_request [OF this] obtain c where c: "cut_ok (win_more w) (map (fst \<circ> snd) (win_rows w)) c"
      "r = summarize_request st mc True (summary_message l (cs_summary st)) (win_rows w) c" by blast
  from parts(1) obtain recipe where "log_context_of l (LogContext src) (cs_summary st) cursor = Inr (Some recipe)"
    by (auto simp: log_context_of_def)
  note within = log_context_selection(2) [OF this assms(3) refl]
  from window_read_rows [OF assms(3,4) within assms(5)] parts(2) first(1) within parts(4) c show ?thesis by auto
qed

lemma cut_rows:
  assumes "limits_ok l" "w = fitted_window l budget journal lower n" "lower \<le> n" "cut_ok full (map (fst \<circ> snd) (win_rows w)) c"
  shows "\<exists>m. Suc (fst (win_rows w ! (c - 1))) = m \<and> lower < m \<and> m \<le> n \<and>
    take c (win_rows w) = map (sized_row l) (message_rows journal lower m)"
proof -
  note rows = fitted_rows(1-3) [OF assms(1-3)]
  let ?m = "message_rows journal lower (win_upper w)"
  have c: "0 < c" "c - 1 < length ?m" using assms(4) rows(1) by (auto simp: cut_ok_def)
  have p: "fst (win_rows w ! (c - 1)) = fst (?m ! (c - 1))" using rows(1) c(2) by (simp add: sized_row_def)
  have "take c (win_rows w) = map (sized_row l) (message_rows journal lower (Suc (fst (?m ! (c - 1)))))"
    using message_rows_drop(1) [OF c(2) refl] c(1) by (simp add: rows(1) take_map)
  moreover have "lower \<le> fst (?m ! (c - 1))" "fst (?m ! (c - 1)) < n"
    using message_rows_bounds [OF nth_mem [OF c(2)]] rows(3) by auto
  ultimately show ?thesis using p by simp
qed

text \<open>
  C20. A compaction asks for the summary of all messages from the cursor to a later position, with the
  earlier summary, and no call of a tool is left open there. The state accepts the request and its
  reply, and from then on the context is the new summary and the messages from that position: no
  message is lost between the two or read twice.
\<close>

theorem compaction_cycle:
  assumes "trajectory_ok src rs" "limits_ok l" "\<And>w. cached = Some w \<Longrightarrow> window_sound l (xs_journal src) w"
    "compact l (Some mc) (LogContext src) st cached = Inr out" "ko_request out = Some r" "safe_integer (kq_through r)"
  shows "\<exists>cursor m st'. context_cursor (LogContext src) st = Inr cursor \<and> cursor < m \<and> m \<le> length rs \<and>
    calls_after {} (map (\<lambda>x. render_message l (snd x)) (message_rows (xs_journal src) cursor m)) = {} \<and>
    kq_prompt r = summarize_prompt (summary_message l (cs_summary st) @ map (\<lambda>x. render_message l (snd x)) (message_rows (xs_journal src) cursor m)) \<and>
    compact_states n position (compaction_requested r @ compaction_settled r (ActFulfilled reply)) st = Inr st' \<and>
    cs_summary st' = mr_text reply \<and> cs_pending st' = None \<and> cs_failure st' = None \<and> (\<forall>later. context_cursor (LogContext later) st' = Inr m)"
proof -
  from compact_request_window [OF assms(4,5,1-3)] obtain cursor w c where
    start: "context_cursor (LogContext src) st = Inr cursor" "cursor \<le> length rs" "cs_pending st = None" and
    w: "w = fitted_window l (capacity_of l mc - summary_size l (cs_summary st)) (xs_journal src) cursor (length rs)" and
    c: "cut_ok (win_more w) (map (fst \<circ> snd) (win_rows w)) c" and
    r: "r = summarize_request st mc True (summary_message l (cs_summary st)) (win_rows w) c" by blast
  from cut_rows [OF assms(2) w start(2) c] obtain m where
    m: "Suc (fst (win_rows w ! (c - 1))) = m" "cursor < m" "m \<le> length rs"
      "take c (win_rows w) = map (sized_row l) (message_rows (xs_journal src) cursor m)" by blast
  have rendered: "map (fst \<circ> snd) (take c (win_rows w)) = map (\<lambda>x. render_message l (snd x)) (message_rows (xs_journal src) cursor m)"
    by (simp add: m(4) sized_row_def)
  with c have closed: "calls_after {} (map (\<lambda>x. render_message l (snd x)) (message_rows (xs_journal src) cursor m)) = {}"
    by (simp add: cut_ok_def take_map)
  have request: "kq_cursor r = Some m" "cs_through st < kq_through r"
      "kq_prompt r = summarize_prompt (summary_message l (cs_summary st) @ map (\<lambda>x. render_message l (snd x)) (message_rows (xs_journal src) cursor m))"
    using m(1) c rendered by (simp_all add: r summarize_request_def Let_def cut_ok_def)
  have "(case cs_cursor st of None \<Rightarrow> 0 | Some d \<Rightarrow> d) < m"
    using start(1) m(2) by (cases "cs_cursor st") (simp_all add: context_cursor_def)
  with request(1) state_requested [OF start(3) assms(6) request(2), of n position] obtain st1 where
    st1: "compact_states n position (compaction_requested r) st = Inr st1"
      "cs_pending st1 = Some \<lparr>pn_callId = kq_callId r, pn_through = kq_through r, pn_cursor = kq_cursor r\<rparr>" by auto
  from state_settled(1) [OF st1(2), of n "position + length (compaction_requested r)" reply] obtain st' where
    "compact_states n position (compaction_requested r @ compaction_settled r (ActFulfilled reply)) st = Inr st'"
    "cs_summary st' = mr_text reply" "cs_pending st' = None" "cs_failure st' = None" "cs_cursor st' = Some m"
    using st1(1) request(1) by (auto simp: compact_states_append)
  with start(1) m(2,3) closed request(3) show ?thesis by (auto simp: context_cursor_def)
qed

text \<open>
  C40. A compaction that is refused is recorded as a failure and changes nothing of the context; until
  the failure is cleared the component reports it and asks for nothing.
\<close>

theorem compaction_rejected:
  assumes "trajectory_ok src rs" "limits_ok l" "\<And>w. cached = Some w \<Longrightarrow> window_sound l (xs_journal src) w"
    "compact l (Some mc) (LogContext src) st cached = Inr out" "ko_request out = Some r" "safe_integer (kq_through r)"
  shows "\<exists>st' out'. compact_states n position (compaction_requested r @ compaction_settled r (ActRejected reason)) st = Inr st' \<and>
    cs_cursor st' = cs_cursor st \<and> cs_through st' = cs_through st \<and> cs_summary st' = cs_summary st \<and> cs_pending st' = None \<and>
    compact l (Some mc) (LogContext src) st' cached' = Inr out' \<and> ko_request out' = None \<and>
    (\<exists>usage. ko_view out' = CompactFailed (failureMessage reason) usage)"
proof -
  from compact_request_window [OF assms(4,5,1-3)] obtain cursor w c where
    start: "context_cursor (LogContext src) st = Inr cursor" "cursor \<le> length rs" "cs_pending st = None" and
    w: "w = fitted_window l (capacity_of l mc - summary_size l (cs_summary st)) (xs_journal src) cursor (length rs)" and
    c: "cut_ok (win_more w) (map (fst \<circ> snd) (win_rows w)) c" and
    r: "r = summarize_request st mc True (summary_message l (cs_summary st)) (win_rows w) c" by blast
  from cut_rows [OF assms(2) w start(2) c] have after: "cursor < Suc (fst (win_rows w ! (c - 1)))" by blast
  have request: "kq_cursor r = Some (Suc (fst (win_rows w ! (c - 1))))" "cs_through st < kq_through r"
    using c by (simp_all add: r summarize_request_def Let_def cut_ok_def)
  have "(case cs_cursor st of None \<Rightarrow> 0 | Some d \<Rightarrow> d) < Suc (fst (win_rows w ! (c - 1)))"
    using start(1) after by (cases "cs_cursor st") (simp_all add: context_cursor_def)
  with request(1) state_requested [OF start(3) assms(6) request(2), of n position] obtain st1 where
    st1: "compact_states n position (compaction_requested r) st = Inr st1"
      "cs_pending st1 = Some \<lparr>pn_callId = kq_callId r, pn_through = kq_through r, pn_cursor = kq_cursor r\<rparr>"
      "cs_cursor st1 = cs_cursor st" "cs_through st1 = cs_through st" "cs_summary st1 = cs_summary st" by auto
  from state_settled(2) [OF st1(2), of n "position + length (compaction_requested r)" reason] obtain st' where
    st': "compact_states n position (compaction_requested r @ compaction_settled r (ActRejected reason)) st = Inr st'"
      "cs_pending st' = None" "cs_failure st' = Some (failureMessage reason)" "cs_cursor st' = cs_cursor st" "cs_through st' = cs_through st"
      "cs_summary st' = cs_summary st"
    using st1 by (auto simp: compact_states_append)
  have "context_cursor (LogContext src) st' = context_cursor (LogContext src) st" unfolding context_cursor_def st'(4,5) ..
  with assms(4) st'(3) have "\<exists>out'. compact l (Some mc) (LogContext src) st' cached' = Inr out' \<and> ko_request out' = None \<and>
      (\<exists>usage. ko_view out' = CompactFailed (failureMessage reason) usage)"
    unfolding compact_def by (auto simp: Let_def compact_selected_def split: if_splits)
  with st' show ?thesis by blast
qed

section \<open>The size of a context\<close>






lemma take_rows_bounded:
  "take_rows l s c pms rows = (rows', full) \<Longrightarrow> length rows \<le> max_messages l \<Longrightarrow> length rows \<le> 1 \<or> s + row_total rows \<le> c \<Longrightarrow>
   length rows' \<le> max_messages l \<and> (length rows' \<le> 1 \<or> s + row_total rows' \<le> c)"
  by (induction l s c pms rows rule: take_rows.induct) (auto simp: row_fits_def sized_row_def add.assoc split: if_splits)

lemma fitted_bounded: "length (win_rows (fitted_window l b journal cursor n)) \<le> max_messages l \<and>
    (length (win_rows (fitted_window l b journal cursor n)) \<le> 1 \<or> row_total (win_rows (fitted_window l b journal cursor n)) \<le> b)"
  using take_rows_bounded [of l 0 b "message_rows journal cursor n" "[]"]
  by (auto simp: fitted_window_def split: prod.split)

text \<open>
  C21. The window of the conversation is the longest prefix of the messages after the cursor that fits
  in the number of messages and in what the summary leaves of the context, or one message; it is the
  same read from its pages alone as continued from the window kept of an earlier read.
\<close>

theorem window_read:
  assumes "trajectory_ok src rs" "limits_ok l" "cursor \<le> length rs" "\<And>w. cached = Some w \<Longrightarrow> window_sound l (xs_journal src) w"
    "ms = message_rows (xs_journal src) cursor (length rs)"
  shows "\<exists>w k. read_window l summary capacity src cached cursor = Inr w \<and> read_window l summary capacity src None cursor = Inr w \<and>
    window_sound l (xs_journal src) w \<and> k \<le> length ms \<and> win_rows w = map (sized_row l) (take k ms) \<and>
    k \<le> max_messages l \<and> (k \<le> 1 \<or> summary + row_total (win_rows w) \<le> capacity) \<and> win_more w = (k < length ms) \<and>
    (k < length ms \<longrightarrow> k = max_messages l \<or> capacity < summary + row_total (win_rows w) + message_size l (render_message l (snd (ms ! k))))"
proof -
  let ?w = "fitted_window l (capacity - summary) (xs_journal src) cursor (length rs)"
  have reads: "read_window l summary capacity src cached cursor = Inr ?w" "read_window l summary capacity src None cursor = Inr ?w"
    using window_read_rows [OF assms(1-4)] window_read_rows [OF assms(1-3), of None] by simp_all
  have "length rs \<le> length (xs_journal src)" using assms(1) by (auto simp: trajectory_ok_def dest: list_all2_lengthD)
  from fitted_sound [OF assms(3) this] have sound: "window_sound l (xs_journal src) ?w" .
  obtain rows full where taken: "take_rows l 0 (capacity - summary) ms [] = (rows, full)" by fastforce
  then have w: "win_rows ?w = rows" "win_more ?w = full" by (simp_all add: fitted_window_def assms(5))
  from take_rows_prefix [OF taken] obtain k where k: "k \<le> length ms" "rows = map (sized_row l) (take k ms)" "full = (k < length ms)"
      "full \<longrightarrow> \<not> row_fits l 0 (capacity - summary) rows (ms ! k)" by auto
  have "length rows = k" using k(1,2) by simp
  moreover from this have "k \<le> max_messages l \<and> (k \<le> 1 \<or> summary + row_total rows \<le> capacity)"
    using fitted_bounded [of l "capacity - summary" "xs_journal src" cursor "length rs"] w(1) by auto
  moreover from calculation k(3,4) have "k < length ms \<longrightarrow> k = max_messages l \<or> capacity < summary + row_total rows + message_size l (render_message l (snd (ms ! k)))"
    by (auto simp: row_fits_def)
  ultimately show ?thesis using reads sound w k(1-3) by blast
qed


text \<open>
  C22. A ready context that was stored by reference resolves to the messages it was accepted with, at any
  later revision of the journal, unless the execution was handed other messages with the same digest.
\<close>

theorem stored_context_resolves:
  assumes "compaction_limits p = Inr l" "limits_ok l" "trajectory_ok src rs" "calls_precede (xs_journal src)"
    "\<And>w. cached = Some w \<Longrightarrow> window_sound l (xs_journal src) w"
    "compact l (Some mc) (LogContext src) st cached = Inr out" "ko_view out = CompactReady messages (Some recipe) usage"
    "trajectory_ok src' rs'" "xs_journal src' = xs_journal src @ later"
    "\<And>m. prepared = Some m \<Longrightarrow> digest m = digest messages \<Longrightarrow> m = messages"
  shows "resolve_context digest recipe (digest messages) src' prepared = Inr messages"
proof -
  note policy = compaction_limits_Inr(1) [OF assms(1)]
  from compact_ready [OF assms(6,7,3,2,5)] obtain cursor where
    picked: "log_context_of l (LogContext src) (cs_summary st) cursor = Inr (Some recipe)" and
    messages: "messages = summary_message l (cs_summary st) @ map (\<lambda>x. render_message l (snd x)) (message_rows (xs_journal src) cursor (length rs))"
    by blast
  note recipe = log_context_selection [OF picked assms(3) policy]
  have len: "length rs = length (xs_journal src)" "length rs' = length (xs_journal src')"
    using assms(3,8) by (auto simp: trajectory_ok_def dest: list_all2_lengthD)
  have upper: "length rs \<le> length rs'" using len assms(9) by simp
  have limit: "limit_ok (lx_pageSize recipe)" using assms(2) recipe(4) policy by (simp add: limits_ok_def)
  have stable: "message_rows (xs_journal src') cursor (length rs) = message_rows (xs_journal src) cursor (length rs)"
    unfolding assms(9) by (rule message_rows_append [OF assms(4)]) (simp add: len)
  have "messages_range src' (context_query (lx_messages recipe) (lx_pageSize recipe) None) =
      Inr (trajectory_page (message_rows (xs_journal src') cursor (length rs)) (nat (lx_pageSize recipe)) cursor (length rs) False)"
    unfolding context_query_def option.case recipe(1) trajectory_selection_simps
    by (rule messages_first [OF assms(8) recipe(2) upper limit]) simp
  note read = read_context_rows [OF assms(1,8) _ _ recipe(5) limit order_refl recipe(2) upper this]
  have "resolve_read digest recipe (digest messages) src' = Inr messages"
    using render_captured [OF assms(1), of "UserText (SUMMARY_HEADING @ cs_summary st)"]
    by (simp add: resolve_read_def read recipe(1,3,5) stable messages summary_message_def)
  with assms(10) recipe(1,6) show ?thesis by (auto simp: resolve_context_def split: option.split)
qed

section \<open>Example\<close>

text \<open>A journal of two turns that are requested, and a policy that keeps one message.\<close>

definition talk_turn :: "string \<Rightarrow> agent_event" where
  "talk_turn t = TurnRequested \<lparr>tq_turnId = t, tq_text = t, tq_content = None, tq_invocationRef = None, tq_source = None, tq_promiseRef = None, tq_outcome = None\<rparr>"

definition talk_log :: "(agent_event, agent_event) typed_log" where
  "talk_log = \<lparr>tl_keys = trajectory_events, tl_pageSize = 64, tl_batch = 128, tl_type = (\<lambda>_. Some ''TurnRequested''), tl_decode = Inr\<rparr>"

definition talk :: "agent_event list \<Rightarrow> agent_event trajectory_source" where
  "talk es = \<lparr>xs_log = talk_log, xs_source = \<lparr>so_position = int (length es), so_range = (\<lambda>lo hi. take (hi - lo) (drop lo es)), so_family = None\<rparr>,
     xs_journal = map Some es, xs_seed = None\<rparr>"

lemma talk_simps [simp]: "xs_journal (talk es) = map Some es" "xs_log (talk es) = talk_log" "xs_source (talk es) =
    \<lparr>so_position = int (length es), so_range = (\<lambda>lo hi. take (hi - lo) (drop lo es)), so_family = None\<rparr>"
  by (simp_all add: talk_def)

lemma talk_ok: "length es \<le> 2 \<Longrightarrow> trajectory_ok (talk es) es"
  by (auto simp: trajectory_ok_def talk_log_def source_ok_def reads_range_def safe_integer_def max_safe_integer_def list_all2_conv_all_nth
      carries_def selected_type_def trajectory_events_def talk_def legacyTrajectorySeed_def)

definition talk_limits :: "int \<Rightarrow> compact_limits" where
  "talk_limits n = \<lparr>kl_policy = DEFAULT_COMPACTION_POLICY\<lparr>kp_maxContextMessages := n\<rparr>, kl_tool = 40000, kl_user = 1048576\<rparr>"

lemma talk_limits_ok: "1 \<le> n \<Longrightarrow> n \<le> 512 \<Longrightarrow> limits_ok (talk_limits n)"
  by (simp add: limits_ok_def talk_limits_def DEFAULT_COMPACTION_POLICY_def limit_ok_def safe_integer_def max_safe_integer_def)

lemma talk_policy: "compaction_limits DEFAULT_COMPACTION_POLICY = Inr (talk_limits 512)"
  by (simp add: compaction_limits_def char_limit_def talk_limits_def DEFAULT_COMPACTION_POLICY_def safe_integer_def max_safe_integer_def
      TRUNCATION_MARKER_def new_line_def Let_def)

definition talk_model :: model_configuration where
  "talk_model = \<lparr>mc_model = \<lparr>ml_provider = ''p'', ml_model_id = ''m''\<rparr>, mc_contextWindowTokens = 1000\<rparr>"

lemma talk_rows: "message_rows (map Some (map talk_turn ts)) 0 (length ts) = map (\<lambda>(i, t). (i, UserText t)) (enumerate 0 ts)"
proof -
  have "message_at (map Some (map talk_turn ts)) i = Some (UserText (ts ! i))" if "i < length ts" for i
    using that by (simp add: message_at_def entry_row_def talk_turn_def)
  then have "message_rows (map Some (map talk_turn ts)) 0 (length ts) = List.map_filter (\<lambda>i. Some (i, UserText (ts ! i))) [0..<length ts]"
    unfolding message_rows_at by (intro map_filter_cong) simp
  also have "\<dots> = map (\<lambda>i. (i, UserText (ts ! i))) [0..<length ts]" by (simp add: List.map_filter_def comp_def)
  also have "\<dots> = map (\<lambda>(i, t). (i, UserText t)) (enumerate 0 ts)" by (intro nth_equalityI) (simp_all add: nth_enumerate_eq)
  finally show ?thesis .
qed

lemma talk_selected:
  assumes "length ts \<le> 2" "1 \<le> n" "n \<le> 512"
  shows "compact (talk_limits n) (Some talk_model) (LogContext (talk (map talk_turn ts))) initialCompaction None =
    compact_selected (talk_limits n) talk_model 800 500 (LogContext (talk (map talk_turn ts))) initialCompaction None 0"
proof -
  have ok: "trajectory_ok (talk (map talk_turn ts)) (map talk_turn ts)" using talk_ok assms(1) by simp
  have "declare_input (LogContext (talk (map talk_turn ts))) = Inr ()"
    using messages_first [OF ok, of 0 0 1 "Some 0"] by (simp add: declare_input_def limit_ok_def safe_integer_def max_safe_integer_def)
  then show ?thesis
    by (simp add: compact_def context_cursor_def initialCompaction_def talk_model_def talk_limits_def DEFAULT_COMPACTION_POLICY_def Let_def)
qed

definition talk_recipe :: "nat \<Rightarrow> log_model_context" where
  "talk_recipe n = \<lparr>lx_messages = trajectory_selection 0 n, lx_summary = [], lx_pageSize = 64, lx_render = captured_policy DEFAULT_COMPACTION_POLICY\<rparr>"

lemma talk_decided:
  assumes "length ts \<le> 2" "1 \<le> n" "n \<le> 512" "J = talk (map talk_turn ts)"
    "w = fitted_window (talk_limits n) 4000 (xs_journal J) 0 (length ts)"
  shows "compact (talk_limits n) (Some talk_model) (LogContext J) initialCompaction None =
    (case decide_compaction (talk_limits n) talk_model 800 500 True initialCompaction w (Some (talk_recipe (length ts))) of (view, request) \<Rightarrow>
       Inr \<lparr>ko_view = view, ko_request = request, ko_window = Some w\<rparr>)"
proof -
  have ok: "trajectory_ok J (map talk_turn ts)" using talk_ok assms(1,4) by simp
  have capacity: "capacity_of (talk_limits n) talk_model = 4000" by (simp add: capacity_of_def talk_model_def talk_limits_def DEFAULT_COMPACTION_POLICY_def)
  have "selection_ok (trajectory_selection 0 (length ts))"
    using ready_selection [of J "map talk_turn ts" 0 "length ts" False None] ok by (simp add: page_ready_def)
  then have recipe: "log_context_of (talk_limits n) (LogContext J) [] 0 = Inr (Some (talk_recipe (length ts)))"
    by (simp add: log_context_of_def view_range_def trajectory_selection_def Let_def talk_recipe_def captured_policy_def talk_limits_def
        DEFAULT_COMPACTION_POLICY_def assms(4))
  have "read_window (talk_limits n) 0 4000 J None 0 = Inr w"
    using window_read_rows [OF ok talk_limits_ok [OF assms(2,3)], of 0 None 0 4000] by (simp add: assms(5))
  moreover have "cs_summary initialCompaction = []" "cs_failure initialCompaction = None" "cs_pending initialCompaction = None"
    "summary_size (talk_limits n) [] = 0" by (simp_all add: initialCompaction_def summary_size_def summary_message_def)
  ultimately show ?thesis
    unfolding assms(4) talk_selected [OF assms(1-3)]
    using recipe by (simp add: compact_selected_def context_window_of_def capacity assms(4) split_beta)
qed

lemma talk_initial: "summary_message l (cs_summary initialCompaction) = []" "summary_size l (cs_summary initialCompaction) = 0"
  "anchored initialCompaction mc paged rows = None" "cs_through initialCompaction = 0"
  by (simp_all add: initialCompaction_def summary_message_def summary_size_def anchored_def)

lemma talk_ready: "\<exists>out usage. compact (talk_limits 512) (Some talk_model) (LogContext (talk [talk_turn ''hi''])) initialCompaction None = Inr out \<and>
    ko_view out = CompactReady [UserText ''hi''] (Some (talk_recipe 1)) usage"
proof -
  define w where "w = fitted_window (talk_limits 512) 4000 (xs_journal (talk (map talk_turn [''hi'']))) 0 (length [''hi''])"
  have "w = \<lparr>win_lower = 0, win_upper = 1, win_budget = 4000, win_rows = [sized_row (talk_limits 512) (0, UserText ''hi'')], win_more = False\<rparr>"
    using talk_rows [of "[''hi'']"]
    by (simp add: w_def fitted_window_def row_fits_def max_messages_def talk_limits_def DEFAULT_COMPACTION_POLICY_def window_upper_def)
  moreover have "map (fst \<circ> snd) [sized_row (talk_limits 512) (0, UserText ''hi'')] = [UserText ''hi'']"
    by (simp add: sized_row_def clip_text_def talk_limits_def)
  moreover have "boundaries False [UserText ''hi''] = []" by (simp add: boundaries_def)
  ultimately have "\<exists>usage. decide_compaction (talk_limits 512) talk_model 800 500 True initialCompaction w (Some (talk_recipe 1)) =
      (CompactReady [UserText ''hi''] (Some (talk_recipe 1)) usage, None)"
    by (simp add: decide_compaction_def Let_def talk_initial del: list.map)
  then show ?thesis using talk_decided [of "[''hi'']" 512 _ w] by (auto simp: w_def)
qed

lemma talk_requests: "\<exists>out r. compact (talk_limits 1) (Some talk_model) (LogContext (talk [talk_turn ''hi'', talk_turn ''so''])) initialCompaction None = Inr out \<and>
    ko_request out = Some r \<and> safe_integer (kq_through r)"
proof -
  let ?ts = "[''hi'', ''so'']"
  define w where "w = fitted_window (talk_limits 1) 4000 (xs_journal (talk (map talk_turn ?ts))) 0 (length ?ts)"
  have "w = \<lparr>win_lower = 0, win_upper = 1, win_budget = 4000, win_rows = [sized_row (talk_limits 1) (0, UserText ''hi'')], win_more = True\<rparr>"
    using talk_rows [of ?ts]
    by (simp add: w_def fitted_window_def row_fits_def max_messages_def talk_limits_def DEFAULT_COMPACTION_POLICY_def window_upper_def sized_row_def)
  moreover have "map (fst \<circ> snd) [sized_row (talk_limits 1) (0, UserText ''hi'')] = [UserText ''hi'']"
    by (simp add: sized_row_def clip_text_def talk_limits_def)
  moreover have "boundaries True [UserText ''hi''] = [1]" by (simp add: boundaries_def)
  ultimately have "\<exists>view r. decide_compaction (talk_limits 1) talk_model 800 500 True initialCompaction w (Some (talk_recipe 2)) = (view, Some r) \<and> kq_through r = 1"
    by (simp add: decide_compaction_def Let_def talk_initial cut_at_def summarize_request_def del: list.map)
  then obtain view r where r: "decide_compaction (talk_limits 1) talk_model 800 500 True initialCompaction w (Some (talk_recipe 2)) = (view, Some r)" "kq_through r = 1"
    by blast
  then have "compact (talk_limits 1) (Some talk_model) (LogContext (talk [talk_turn ''hi'', talk_turn ''so''])) initialCompaction None =
      Inr \<lparr>ko_view = view, ko_request = Some r, ko_window = Some w\<rparr>"
    using talk_decided [OF _ _ _ refl w_def] by (simp add: numeral_2_eq_2)
  with r(2) show ?thesis by (simp add: safe_integer_def max_safe_integer_def)
qed

lemma talk_fresh: "None = Some w \<Longrightarrow> window_sound l journal w"
  by simp

theorem compaction_cycle_witness:
  "\<exists>r st'. compact_states 1 2 (compaction_requested r @ compaction_settled r (ActFulfilled
     \<lparr>mr_reasoning = None, mr_continuation = None, mr_text = ''they greet'', mr_toolCalls = [], mr_usage = None, mr_outputErrors = None\<rparr>)) initialCompaction =
   Inr st' \<and> cs_summary st' = ''they greet'' \<and> cs_pending st' = None"
proof -
  from talk_requests obtain out r where r: "compact (talk_limits 1) (Some talk_model) (LogContext (talk [talk_turn ''hi'', talk_turn ''so''])) initialCompaction None = Inr out"
    "ko_request out = Some r" "safe_integer (kq_through r)" by blast
  from compaction_cycle [OF talk_ok talk_limits_ok talk_fresh r, of 1 2 "\<lparr>mr_reasoning = None, mr_continuation = None, mr_text = ''they greet'',
      mr_toolCalls = [], mr_usage = None, mr_outputErrors = None\<rparr>"] show ?thesis by auto
qed

theorem compaction_rejected_witness:
  "\<exists>r st'. compact_states 1 2 (compaction_requested r @ compaction_settled r (ActRejected (JStr ''busy''))) initialCompaction = Inr st' \<and>
     cs_cursor st' = None \<and> cs_pending st' = None"
proof -
  from talk_requests obtain out r where r: "compact (talk_limits 1) (Some talk_model) (LogContext (talk [talk_turn ''hi'', talk_turn ''so''])) initialCompaction None = Inr out"
    "ko_request out = Some r" "safe_integer (kq_through r)" by blast
  have "cs_cursor initialCompaction = None" by (simp add: initialCompaction_def)
  with compaction_rejected [OF talk_ok talk_limits_ok talk_fresh r, of 1 2 "JStr ''busy''" None] show ?thesis by auto
qed

theorem window_read_witness:
  "\<exists>w. read_window (talk_limits 1) 0 4000 (talk [talk_turn ''hi'', talk_turn ''so'']) None 0 = Inr w \<and> length (win_rows w) \<le> 1"
  using window_read [OF talk_ok talk_limits_ok _ talk_fresh refl, of "[talk_turn ''hi'', talk_turn ''so'']" 1 0 None 0 4000]
  by (fastforce simp: max_messages_def talk_limits_def DEFAULT_COMPACTION_POLICY_def)


theorem stored_context_resolves_witness:
  "resolve_context (\<lambda>ms. ms) (talk_recipe 1) [UserText ''hi''] (talk [talk_turn ''hi'', talk_turn ''so'']) None = Inr [UserText ''hi'']"
proof -
  from talk_ready obtain out usage where ready:
    "compact (talk_limits 512) (Some talk_model) (LogContext (talk [talk_turn ''hi''])) initialCompaction None = Inr out"
    "ko_view out = CompactReady [UserText ''hi''] (Some (talk_recipe 1)) usage" by blast
  have precede: "calls_precede (xs_journal (talk [talk_turn ''hi'']))" by (simp add: calls_precede_def talk_turn_def)
  show ?thesis
    using stored_context_resolves [OF talk_policy talk_limits_ok talk_ok precede talk_fresh ready talk_ok,
        of "[talk_turn ''hi'', talk_turn ''so'']" "[Some (talk_turn ''so'')]" None "\<lambda>ms. ms"] by simp
qed

end
