(* ===== verification/Checkpoints.thy ===== *)
theory Checkpoints
  imports DurableAtoms "HOL-Library.Word"
begin

text \<open>
  The payloads of checkpoints (\<open>packages/core/src/services/checkpoint.ts\<close> and \<open>checkpoint/\<close>): the states of atoms at
  positions, alone or together as the checkpoint of an actor, in the layouts 4 and 5, and the manifest that
  refers to them. What \<open>JSON.parse\<close> gives of the bytes, in the shape of the schemas' fields, and the text that
  \<open>JSON.stringify\<close> writes are parameters (\<open>checkpoint_codec\<close>), as is the digest; states are of any type.
\<close>

type_synonym bytes = "8 word list"

section \<open>Atoms\<close>

record 'j stored_atom =
  sa_identity :: atom_identity
  sa_position :: nat
  sa_state :: 'j

text \<open>\<open>CompleteCheckpointIdentity\<close> with the schema of the fields; an atom outside families has a name.\<close>

definition complete_identity :: "atom_identity \<Rightarrow> bool" where
  "complete_identity i \<longleftrightarrow> (ai_family i = None) = (ai_version i = None) \<and> (ai_family i \<noteq> None \<or> \<not> list_all js_space (ai_name i)) \<and>
     ai_family i \<noteq> Some [] \<and> ai_version i \<noteq> Some []"

definition stored_atom_ok :: "'j stored_atom \<Rightarrow> bool" where
  "stored_atom_ok a \<longleftrightarrow> complete_identity (sa_identity a) \<and> safe_integer (int (sa_position a))"

definition reference_entry :: "atom_identity \<times> nat \<Rightarrow> checkpoint_entry" where
  "reference_entry r = \<lparr>ce_identity = fst r, ce_position = Some (snd r), ce_state = JNull\<rparr>"

definition atom_reference :: "'j stored_atom \<Rightarrow> atom_identity \<times> nat" where
  "atom_reference a = (sa_identity a, sa_position a)"

section \<open>Documents\<close>

record 'j actor_state =
  as_position :: nat
  as_durable :: "'j stored_atom list"

text \<open>A parsed payload: an object with a version and, if its other fields have the shape of a state, the state.\<close>

datatype 'j actor_document = VersionedDocument int "'j actor_state option" | OtherDocument

record checkpoint_manifest =
  mf_legacy :: bool
  mf_position :: nat
  mf_atoms :: "(atom_identity \<times> nat) list"

datatype manifest_document = LegacyManifest nat "string list" | Manifest checkpoint_manifest

record 'j checkpoint_codec =
  kc_atomText :: "'j stored_atom \<Rightarrow> bytes"
  kc_atomParse :: "bytes \<Rightarrow> 'j stored_atom option"
  kc_actorText :: "bool \<Rightarrow> 'j actor_state \<Rightarrow> bytes"
  kc_actorParse :: "bytes \<Rightarrow> 'j actor_document option"
  kc_manifestText :: "checkpoint_manifest \<Rightarrow> bytes"
  kc_manifestParse :: "bytes \<Rightarrow> manifest_document option"
  kc_digest :: "bytes \<Rightarrow> string"

datatype checkpoint_error = CheckpointReplayRequired int | CheckpointDecodeFailed

section \<open>Decoding and encoding\<close>

definition encodeAtomCheckpoint :: "'j checkpoint_codec \<Rightarrow> 'j stored_atom \<Rightarrow> runtime_error + bytes" where
  "encodeAtomCheckpoint kc a = (if stored_atom_ok a then Inr (kc_atomText kc a) else Inl SchemaError)"

definition decodeAtomCheckpoint :: "'j checkpoint_codec \<Rightarrow> bytes \<Rightarrow> runtime_error + 'j stored_atom" where
  "decodeAtomCheckpoint kc payload = (case kc_atomParse kc payload of
     None \<Rightarrow> Inl SchemaError
   | Some a \<Rightarrow> if stored_atom_ok a then Inr a else Inl SchemaError)"

definition LEGACY_ACTOR_CHECKPOINT_VERSION :: int where
  "LEGACY_ACTOR_CHECKPOINT_VERSION = 4"

definition ACTOR_CHECKPOINT_VERSION :: int where
  "ACTOR_CHECKPOINT_VERSION = 5"

text \<open>The schema of layout 4 knows no families, and rejects fields that it does not know.\<close>

definition decodeActorCheckpointState :: "bool \<Rightarrow> 'j actor_state \<Rightarrow> runtime_error + 'j actor_state" where
  "decodeActorCheckpointState legacy s =
     (if \<not> safe_integer (int (as_position s)) \<or> \<not> list_all stored_atom_ok (as_durable s) \<or>
         (legacy \<and> list_ex (\<lambda>a. ai_family (sa_identity a) \<noteq> None) (as_durable s)) then Inl SchemaError
      else try_bind (validateCheckpointReferences (as_position s) (map (reference_entry \<circ> atom_reference) (as_durable s)) legacy) (\<lambda>_. Inr s))"

definition encode_actor :: "'j checkpoint_codec \<Rightarrow> bool \<Rightarrow> 'j actor_state \<Rightarrow> runtime_error + bytes" where
  "encode_actor kc legacy s = try_bind (decodeActorCheckpointState legacy s) (\<lambda>s. Inr (kc_actorText kc legacy s))"

definition encodeCheckpoint :: "'j checkpoint_codec \<Rightarrow> 'j actor_state \<Rightarrow> runtime_error + bytes" where
  "encodeCheckpoint kc s = encode_actor kc False s"

definition encodeActorCheckpointV4 :: "'j checkpoint_codec \<Rightarrow> 'j actor_state \<Rightarrow> runtime_error + bytes" where
  "encodeActorCheckpointV4 kc s = encode_actor kc True s"

text \<open>\<open>migrateCheckpoint\<close>, and what decoding makes of the errors.\<close>

definition migrateCheckpoint :: "int \<Rightarrow> 'j actor_state option \<Rightarrow> checkpoint_error + 'j actor_state option" where
  "migrateCheckpoint version s =
     (if version = ACTOR_CHECKPOINT_VERSION then Inr s
      else if version = LEGACY_ACTOR_CHECKPOINT_VERSION
      then (case s of None \<Rightarrow> Inl CheckpointDecodeFailed
          | Some s \<Rightarrow> (case decodeActorCheckpointState True s of Inl _ \<Rightarrow> Inl CheckpointDecodeFailed | Inr s \<Rightarrow> Inr (Some s)))
      else if version = 2 \<or> version = 3 then Inl (CheckpointReplayRequired version)
      else Inl CheckpointDecodeFailed)"

definition decodeCheckpoint :: "'j checkpoint_codec \<Rightarrow> bytes \<Rightarrow> checkpoint_error + 'j actor_state" where
  "decodeCheckpoint kc payload = (case kc_actorParse kc payload of
     Some (VersionedDocument version s) \<Rightarrow> try_bind (migrateCheckpoint version s) (\<lambda>s. case s of
         None \<Rightarrow> Inl CheckpointDecodeFailed
       | Some s \<Rightarrow> (case decodeActorCheckpointState False s of Inl _ \<Rightarrow> Inl CheckpointDecodeFailed | Inr s \<Rightarrow> Inr s))
   | _ \<Rightarrow> Inl CheckpointDecodeFailed)"

section \<open>Manifests\<close>

definition decode_manifest :: "checkpoint_manifest \<Rightarrow> runtime_error + checkpoint_manifest" where
  "decode_manifest m =
     (if \<not> safe_integer (int (mf_position m)) \<or> \<not> list_all (\<lambda>(i, p). complete_identity i \<and> safe_integer (int p)) (mf_atoms m) then Inl SchemaError
      else try_bind (validateCheckpointReferences (mf_position m) (map reference_entry (mf_atoms m)) (mf_legacy m)) (\<lambda>_. Inr m))"

definition encodeCheckpointManifest :: "'j checkpoint_codec \<Rightarrow> 'j actor_state \<Rightarrow> bool \<Rightarrow> runtime_error + bytes" where
  "encodeCheckpointManifest kc s legacy =
     try_bind (decode_manifest \<lparr>mf_legacy = legacy, mf_position = as_position s, mf_atoms = map atom_reference (as_durable s)\<rparr>) (\<lambda>m.
       Inr (kc_manifestText kc m))"

definition decodeCheckpointManifest :: "'j checkpoint_codec \<Rightarrow> bytes \<Rightarrow> runtime_error + checkpoint_manifest" where
  "decodeCheckpointManifest kc payload = (case kc_manifestParse kc payload of
     None \<Rightarrow> Inl SchemaError
   | Some (LegacyManifest position names) \<Rightarrow> if \<not> safe_integer (int position) then Inl SchemaError
       else decode_manifest \<lparr>mf_legacy = True, mf_position = position,
         mf_atoms = map (\<lambda>name. (\<lparr>ai_name = name, ai_family = None, ai_version = None\<rparr>, position)) names\<rparr>
   | Some (Manifest m) \<Rightarrow> decode_manifest m)"

section \<open>Round trips\<close>

text \<open>What is asked of a text: it parses to what it was written from, within the lengths that the code counts.\<close>

definition atom_text_ok :: "'j checkpoint_codec \<Rightarrow> 'j stored_atom \<Rightarrow> bool" where
  "atom_text_ok kc a \<longleftrightarrow> kc_atomParse kc (kc_atomText kc a) = Some a \<and> safe_integer (int (length (kc_atomText kc a)))"

definition manifest_text_ok :: "'j checkpoint_codec \<Rightarrow> checkpoint_manifest \<Rightarrow> bool" where
  "manifest_text_ok kc m \<longleftrightarrow> kc_manifestParse kc (kc_manifestText kc m) = Some (Manifest m) \<and> safe_integer (int (length (kc_manifestText kc m)))"

definition manifest_of :: "'j actor_state \<Rightarrow> bool \<Rightarrow> checkpoint_manifest" where
  "manifest_of s legacy = \<lparr>mf_legacy = legacy, mf_position = as_position s, mf_atoms = map atom_reference (as_durable s)\<rparr>"

lemma decode_manifest_same: "decode_manifest m = Inr m' \<Longrightarrow> m' = m"
  by (auto simp: decode_manifest_def split: if_splits)

lemma manifest_round_trip:
  assumes "manifest_text_ok kc (manifest_of s legacy)" "encodeCheckpointManifest kc s legacy = Inr payload"
  shows "decodeCheckpointManifest kc payload = Inr (manifest_of s legacy)" "payload = kc_manifestText kc (manifest_of s legacy)"
proof -
  from assms(2) obtain m where m: "decode_manifest (manifest_of s legacy) = Inr m" "payload = kc_manifestText kc m"
    by (auto simp: encodeCheckpointManifest_def manifest_of_def)
  with decode_manifest_same [OF m(1)] assms(1)
  show "decodeCheckpointManifest kc payload = Inr (manifest_of s legacy)" "payload = kc_manifestText kc (manifest_of s legacy)"
    by (auto simp: decodeCheckpointManifest_def manifest_text_ok_def)
qed

lemma decode_actor_same: "decodeActorCheckpointState legacy s = Inr s' \<Longrightarrow> s' = s \<and> list_all stored_atom_ok (as_durable s)"
  by (auto simp: decodeActorCheckpointState_def split: if_splits)

lemma decodeCheckpoint_atoms:
  assumes "decodeCheckpoint kc payload = Inr s"
  shows "list_all stored_atom_ok (as_durable s)"
proof -
  from assms obtain y where "(case decodeActorCheckpointState False y of Inl _ \<Rightarrow> Inl CheckpointDecodeFailed | Inr s \<Rightarrow> Inr s) = Inr s"
    unfolding decodeCheckpoint_def by (cases "kc_actorParse kc payload") (auto split: actor_document.split_asm option.split_asm)
  then have "decodeActorCheckpointState False y = Inr s" by (cases "decodeActorCheckpointState False y") simp_all
  then show ?thesis using decode_actor_same by blast
qed

end
