(* ===== verification/SqlTables.thy ===== *)
theory SqlTables
  imports InvocationLookup Checkpoints
begin

text \<open>
  The tables of an SQL journal (\<open>packages/platform/src/shared/sql-journal.ts\<close>) with the chunks in which large
  values are stored (\<open>checkpoint/chunks.ts\<close>). A table of one actor is the list of its rows by primary key, in
  order of insertion: \<open>INSERT\<close> fails on a key that is present, and \<open>SELECT ... ORDER BY\<close> sorts. The JSON text of
  records and of pending inputs, and the digest, are parameters (\<open>journal_codec\<close>). Keys of families are of
  any type with the order of the database.
\<close>

section \<open>Chunks\<close>

definition CHECKPOINT_CHUNK_ROW_OVERHEAD_BYTES :: int where
  "CHECKPOINT_CHUNK_ROW_OVERHEAD_BYTES = 32"

definition DEFAULT_CHECKPOINT_CHUNK_BYTES :: int where
  "DEFAULT_CHECKPOINT_CHUNK_BYTES = 512 * 1024"

record checkpoint_chunk =
  ck_ordinal :: nat
  ck_payload :: bytes

definition validateCheckpointChunkBytes :: "int \<Rightarrow> int option \<Rightarrow> runtime_error + unit" where
  "validateCheckpointChunkBytes chunkBytes maxBytes =
     (if \<not> safe_integer chunkBytes \<or> chunkBytes < 1 then Inl (Error ''Checkpoint chunkBytes must be a positive safe integer'')
      else case maxBytes of
        None \<Rightarrow> Inr ()
      | Some m \<Rightarrow> if \<not> safe_integer m \<or> m < 1 \<or> m < chunkBytes
          then Inl (Error (''Checkpoint chunkBytes exceeds the SQL host capacity of '' @ int_text m @ '' bytes'')) else Inr ())"

text \<open>The loop over offsets; its width was validated to be positive.\<close>

function split_chunks :: "nat \<Rightarrow> nat \<Rightarrow> bytes \<Rightarrow> checkpoint_chunk list" where
  "split_chunks n ordinal payload = (if payload = [] \<or> n = 0 then []
     else \<lparr>ck_ordinal = ordinal, ck_payload = take n payload\<rparr> # split_chunks n (Suc ordinal) (drop n payload))"
  by pat_completeness auto

termination
  by (relation "measure (\<lambda>(n, ordinal, payload). length payload)") auto

declare split_chunks.simps [simp del]

definition encodeCheckpointChunks :: "bytes \<Rightarrow> int \<Rightarrow> runtime_error + checkpoint_chunk list" where
  "encodeCheckpointChunks payload chunkBytes =
     try_bind (validateCheckpointChunkBytes chunkBytes None) (\<lambda>_. Inr (split_chunks (nat chunkBytes) 0 payload))"

fun chunks_size :: "nat \<Rightarrow> checkpoint_chunk list \<Rightarrow> nat \<Rightarrow> runtime_error + nat" where
  "chunks_size ordinal [] bytes = Inr bytes"
| "chunks_size ordinal (c # cs) bytes =
     (if ck_ordinal c \<noteq> ordinal \<or> ck_payload c = [] then Inl (Error ''Invalid checkpoint chunk sequence'')
      else chunks_size (Suc ordinal) cs (bytes + length (ck_payload c)))"

definition decodeCheckpointChunks :: "checkpoint_chunk list \<Rightarrow> nat \<Rightarrow> nat \<Rightarrow> runtime_error + bytes" where
  "decodeCheckpointChunks chunks byteLength chunkCount =
     (if \<not> safe_integer (int byteLength) \<or> \<not> safe_integer (int chunkCount) \<or> length chunks \<noteq> chunkCount
      then Inl (Error ''Invalid checkpoint chunk metadata'')
      else try_bind (chunks_size 0 chunks 0) (\<lambda>bytes.
        if bytes \<noteq> byteLength then Inl (Error ''Checkpoint chunk byte length mismatch'') else Inr (concat (map ck_payload chunks))))"

text \<open>Splitting and joining gives the bytes back, within the lengths that the code can count.\<close>

lemma chunks_size_split:
  "0 < n \<Longrightarrow> chunks_size ordinal (split_chunks n ordinal payload) bytes = Inr (bytes + length payload)"
proof (induction n ordinal payload arbitrary: bytes rule: split_chunks.induct)
  case (1 n ordinal payload)
  then show ?case by (subst split_chunks.simps) auto
qed

lemma concat_split: "0 < n \<Longrightarrow> concat (map ck_payload (split_chunks n ordinal payload)) = payload"
proof (induction n ordinal payload rule: split_chunks.induct)
  case (1 n ordinal payload)
  then show ?case by (subst split_chunks.simps) auto
qed

lemma length_split: "length (split_chunks n ordinal payload) \<le> length payload"
proof (induction n ordinal payload rule: split_chunks.induct)
  case (1 n ordinal payload)
  show ?case
  proof (cases "payload = [] \<or> n = 0")
    case False
    with 1 have "length (split_chunks n (Suc ordinal) (drop n payload)) \<le> length payload - n" by simp
    also have "\<dots> < length payload" using False by simp
    finally show ?thesis using False by (subst split_chunks.simps) simp
  qed (auto simp: split_chunks.simps [of n ordinal payload])
qed

lemma chunks_round_trip:
  assumes "encodeCheckpointChunks payload n = Inr chunks" "safe_integer (int (length payload))"
  shows "decodeCheckpointChunks chunks (length payload) (length chunks) = Inr payload"
proof -
  from assms(1) have n: "0 < nat n" "chunks = split_chunks (nat n) 0 payload"
    by (auto simp: encodeCheckpointChunks_def validateCheckpointChunkBytes_def split: if_splits)
  have "safe_integer (int (length chunks))"
    using assms(2) length_split [of "nat n" 0 payload] n(2) by (simp add: safe_integer_def)
  with n assms(2) show ?thesis by (simp add: decodeCheckpointChunks_def chunks_size_split concat_split)
qed

lemma split_ordinals: "map ck_ordinal (split_chunks n ordinal payload) = [ordinal..<ordinal + length (split_chunks n ordinal payload)]"
proof (induction n ordinal payload rule: split_chunks.induct)
  case (1 n ordinal payload)
  show ?case
  proof (cases "payload = [] \<or> n = 0")
    case False
    with 1 have "map ck_ordinal (split_chunks n (Suc ordinal) (drop n payload)) = [Suc ordinal..<Suc ordinal + length (split_chunks n (Suc ordinal) (drop n payload))]" by blast
    with False show ?thesis by (subst (1 2) split_chunks.simps) (simp add: upt_conv_Cons del: upt_Suc)
  qed (auto simp: split_chunks.simps [of n ordinal payload])
qed

section \<open>Errors\<close>

text \<open>\<open>JournalConflict\<close> names the expected and the found length; a violated key is an error of the database.\<close>

datatype journal_error = Failed runtime_error | JournalConflict int nat | ConstraintViolated | CheckpointFailed checkpoint_error

definition of_runtime :: "runtime_error + 'a \<Rightarrow> journal_error + 'a" where
  "of_runtime r = (case r of Inl e \<Rightarrow> Inl (Failed e) | Inr x \<Rightarrow> Inr x)"

lemma of_runtime_Inr [simp]: "of_runtime r = Inr x \<longleftrightarrow> r = Inr x"
  by (simp add: of_runtime_def split: sum.split)

lemma of_runtime_simps [simp]: "of_runtime (Inl e) = Inl (Failed e)" "of_runtime (Inr x) = Inr x"
  by (simp_all add: of_runtime_def)

section \<open>Tables\<close>

text \<open>The text of a row: a record, or the header of a record in chunks with what queries read of its event.\<close>

datatype row_text = RecordText bytes | ChunkedText "string option" nat nat

record input_row =
  ir_byteLength :: nat
  ir_chunkCount :: nat
  ir_digest :: string

record 'k journal_tables =
  jt_events :: "(nat \<times> row_text) list"
  jt_chunks :: "((nat \<times> nat) \<times> bytes) list"
  jt_messages :: "(string \<times> nat) list"
  jt_requests :: "((string \<times> string \<times> int) \<times> nat) list"
  jt_lifecycle :: "(string \<times> string \<times> nat \<times> nat) list"
  jt_position :: "nat option"
  jt_keys :: "(string \<times> 'k \<times> nat) list"
  jt_families :: "(string \<times> string \<times> nat) list"
  jt_inputs :: "(string \<times> input_row) list"
  jt_inputChunks :: "((string \<times> nat) \<times> bytes) list"

definition empty_tables :: "'k journal_tables" where
  "empty_tables = \<lparr>jt_events = [], jt_chunks = [], jt_messages = [], jt_requests = [], jt_lifecycle = [], jt_position = None,
     jt_keys = [], jt_families = [], jt_inputs = [], jt_inputChunks = []\<rparr>"

definition sql_insert :: "'k \<Rightarrow> 'v \<Rightarrow> ('k \<times> 'v) list \<Rightarrow> journal_error + ('k \<times> 'v) list" where
  "sql_insert k v table = (if map_of table k = None then Inr (table @ [(k, v)]) else Inl ConstraintViolated)"

text \<open>A table all of whose columns are its key.\<close>

definition sql_add :: "'k \<Rightarrow> 'k list \<Rightarrow> journal_error + 'k list" where
  "sql_add k table = (if k \<in> set table then Inl ConstraintViolated else Inr (table @ [k]))"

text \<open>The chunks under a key, \<open>SELECT ordinal, payload ... ORDER BY ordinal\<close>.\<close>

definition chunks_of :: "'k \<Rightarrow> (('k \<times> nat) \<times> bytes) list \<Rightarrow> checkpoint_chunk list" where
  "chunks_of k rows = map (\<lambda>((_, ordinal), payload). \<lparr>ck_ordinal = ordinal, ck_payload = payload\<rparr>)
     (sort_key (\<lambda>((_, ordinal), _). ordinal) (filter (\<lambda>((key, _), _). key = k) rows))"

definition chunk_rows :: "'k \<Rightarrow> checkpoint_chunk list \<Rightarrow> (('k \<times> nat) \<times> bytes) list" where
  "chunk_rows k chunks = map (\<lambda>c. ((k, ck_ordinal c), ck_payload c)) chunks"

lemma sort_key_sorted: "sorted (map f xs) \<Longrightarrow> sort_key f xs = xs"
  by (induction xs) (simp_all add: insort_is_Cons)

lemma chunks_of_other: "j \<noteq> k \<Longrightarrow> chunks_of j (rows @ chunk_rows k chunks) = chunks_of j rows"
proof -
  assume "j \<noteq> k"
  then have "filter (\<lambda>((key, _), _). key = j) (chunk_rows k chunks) = []" by (auto simp: chunk_rows_def filter_empty_conv)
  then show ?thesis by (simp add: chunks_of_def)
qed

lemma chunk_eta: "(\<lambda>c. \<lparr>ck_ordinal = ck_ordinal c, ck_payload = ck_payload c\<rparr>) = (\<lambda>c. c)"
  by (simp add: fun_eq_iff)

lemma chunks_of_new:
  assumes "\<forall>row\<in>set rows. fst (fst row) \<noteq> k" "map ck_ordinal chunks = [0..<length chunks]"
  shows "chunks_of k (rows @ chunk_rows k chunks) = chunks"
proof -
  have "filter (\<lambda>((key, _), _). key = k) rows = []" using assms(1) by (auto simp: filter_empty_conv)
  moreover have "filter (\<lambda>((key, _), _). key = k) (chunk_rows k chunks) = chunk_rows k chunks"
    by (auto simp: chunk_rows_def filter_id_conv)
  moreover have "sort_key (\<lambda>((_, ordinal), _). ordinal) (chunk_rows k chunks) = chunk_rows k chunks"
  proof (rule sort_key_sorted)
    have "map (\<lambda>((_, ordinal), _). ordinal) (chunk_rows k chunks) = map ck_ordinal chunks" by (simp add: chunk_rows_def comp_def)
    then show "sorted (map (\<lambda>((_, ordinal), _). ordinal) (chunk_rows k chunks))" by (simp add: assms(2))
  qed
  ultimately show ?thesis by (simp add: chunks_of_def chunk_rows_def comp_def chunk_eta)
qed

lemma encode_chunks_ordinals: "encodeCheckpointChunks payload n = Inr chunks \<Longrightarrow> map ck_ordinal chunks = [0..<length chunks]"
  by (auto simp: encodeCheckpointChunks_def split_ordinals)

record pending_input =
  pi_ref :: effect_ref
  pi_request :: effect_request

record journal_codec =
  jc_text :: "recorded \<Rightarrow> bytes"
  jc_parse :: "bytes \<Rightarrow> runtime_error + recorded"
  jc_inputText :: "pending_input \<Rightarrow> bytes"
  jc_inputParse :: "bytes \<Rightarrow> runtime_error + pending_input"
  jc_digest :: "bytes \<Rightarrow> string"

text \<open>\<open>SELECT seq ... ORDER BY seq DESC LIMIT 1\<close>, plus one.\<close>

definition table_length :: "'k journal_tables \<Rightarrow> nat" where
  "table_length t = (case rev (sort (map fst (jt_events t))) of [] \<Rightarrow> 0 | seq # _ \<Rightarrow> Suc seq)"

definition select_range :: "nat \<Rightarrow> nat \<Rightarrow> 'k journal_tables \<Rightarrow> (nat \<times> row_text) list" where
  "select_range lower upper t = sort_key fst (filter (\<lambda>row. lower \<le> fst row \<and> fst row < upper) (jt_events t))"

definition record_chunks :: "nat \<Rightarrow> 'k journal_tables \<Rightarrow> checkpoint_chunk list" where
  "record_chunks seq t = chunks_of seq (jt_chunks t)"

fun readSqlJournalRecord :: "journal_codec \<Rightarrow> 'k journal_tables \<Rightarrow> nat \<times> row_text \<Rightarrow> runtime_error + recorded" where
  "readSqlJournalRecord cd t (seq, RecordText text) = jc_parse cd text"
| "readSqlJournalRecord cd t (seq, ChunkedText _ chunkCount byteLength) =
     try_bind (decodeCheckpointChunks (record_chunks seq t) byteLength chunkCount) (jc_parse cd)"

section \<open>The index of invocations\<close>

definition origin_column :: "nat option \<Rightarrow> int" where
  "origin_column origin = (case origin of None \<Rightarrow> -1 | Some p \<Rightarrow> int p)"

definition insert_request :: "effect_ref \<Rightarrow> nat option \<Rightarrow> nat \<Rightarrow> 'k journal_tables \<Rightarrow> journal_error + 'k journal_tables" where
  "insert_request ref origin seq t = (if ref_seq ref \<noteq> seq then Inl (Failed (Error ''Invocation acceptance differs from its journal position''))
     else try_bind (sql_insert (ref_atom ref, ref_act ref, origin_column origin) seq (jt_requests t)) (\<lambda>rows. Inr (t\<lparr>jt_requests := rows\<rparr>)))"

definition insert_lifecycle :: "effect_ref \<Rightarrow> nat \<Rightarrow> 'k journal_tables \<Rightarrow> journal_error + 'k journal_tables" where
  "insert_lifecycle ref seq t =
     try_bind (sql_add (ref_atom ref, ref_act ref, ref_seq ref, seq) (jt_lifecycle t)) (\<lambda>rows. Inr (t\<lparr>jt_lifecycle := rows\<rparr>))"

text \<open>An object that names a core event, carries a reference and is no core event does not decode.\<close>

definition indexInvocationRecord :: "nat \<Rightarrow> recorded \<Rightarrow> 'k journal_tables \<Rightarrow> journal_error + 'k journal_tables" where
  "indexInvocationRecord seq r t = (case rec_event r of
     Core e \<Rightarrow> (case event_ref e of
         None \<Rightarrow> Inr t
       | Some ref \<Rightarrow>
           if \<not> core_event_ok e then Inl (Failed SchemaError)
           else try_bind (case e of EffectRequested q \<Rightarrow> insert_request ref (rq_origin q) seq t | _ \<Rightarrow> Inr t) (insert_lifecycle ref seq))
   | Domain (JObj m) \<Rightarrow> if hasCoreEventType (JObj m) \<and> fmlookup m ''ref'' \<noteq> None then Inl (Failed SchemaError) else Inr t
   | _ \<Rightarrow> Inr t)"

text \<open>One batch of the loop that brings the index up to date when the journal is opened, and the loop.\<close>

definition index_row :: "journal_codec \<Rightarrow> string \<Rightarrow> nat \<Rightarrow> (nat \<Rightarrow> recorded \<Rightarrow> 'k journal_tables \<Rightarrow> journal_error + 'k journal_tables) \<Rightarrow>
    nat \<times> nat \<times> row_text \<Rightarrow> 'k journal_tables \<Rightarrow> journal_error + 'k journal_tables" where
  "index_row cd message position index row t = (case row of (offset, seq, text) \<Rightarrow>
     if seq \<noteq> position + offset then Inl (Failed (Error message))
     else try_bind (of_runtime (readSqlJournalRecord cd t (seq, text))) (\<lambda>r. index seq r t))"

definition invocation_batch :: "journal_codec \<Rightarrow> nat \<Rightarrow> 'k journal_tables \<Rightarrow> journal_error + 'k journal_tables \<times> bool" where
  "invocation_batch cd batch t =
     (let position = (case jt_position t of None \<Rightarrow> 0 | Some p \<Rightarrow> p); n = table_length t; rows = take batch (select_range position n t) in
      if n < position then Inl (Failed (Error ''Invalid invocation index position''))
      else if length rows \<noteq> min batch (n - position) then Inl (Failed (Error ''Invocation index journal range is unavailable''))
      else try_bind (fold_try (index_row cd ''Invalid invocation index journal sequence'' position indexInvocationRecord) (enumerate 0 rows) t) (\<lambda>t.
        Inr (t\<lparr>jt_position := Some (position + length rows)\<rparr>, position + length rows = n)))"

text \<open>What the index writes leaves the other tables alone.\<close>

lemma insert_lifecycle_Inr: "insert_lifecycle ref seq t = Inr t' \<longleftrightarrow> (ref_atom ref, ref_act ref, ref_seq ref, seq) \<notin> set (jt_lifecycle t) \<and>
    t' = t\<lparr>jt_lifecycle := jt_lifecycle t @ [(ref_atom ref, ref_act ref, ref_seq ref, seq)]\<rparr>"
  by (auto simp: insert_lifecycle_def sql_add_def)

lemma insert_request_Inr: "insert_request ref origin seq t = Inr t' \<longleftrightarrow> ref_seq ref = seq \<and>
    map_of (jt_requests t) (ref_atom ref, ref_act ref, origin_column origin) = None \<and>
    t' = t\<lparr>jt_requests := jt_requests t @ [((ref_atom ref, ref_act ref, origin_column origin), seq)]\<rparr>"
  by (auto simp: insert_request_def sql_insert_def)

lemma indexInvocationRecord_only:
  "indexInvocationRecord seq r t = Inr t' \<Longrightarrow> t' = t\<lparr>jt_requests := jt_requests t', jt_lifecycle := jt_lifecycle t'\<rparr>"
  by (auto simp: indexInvocationRecord_def insert_lifecycle_Inr insert_request_Inr split: journal_event.splits option.splits core_event.splits if_splits json.splits)

lemma index_row_Inr: "index_row cd message position index row t = Inr t' \<longleftrightarrow>
    fst (snd row) = position + fst row \<and> (\<exists>r. readSqlJournalRecord cd t (snd row) = Inr r \<and> index (fst (snd row)) r t = Inr t')"
  by (cases row) (auto simp: index_row_def)

lemma index_rows_events:
  assumes "fold_try (index_row cd message position index) rows t = Inr t'" "\<And>seq r u u'. index seq r u = Inr u' \<Longrightarrow> jt_events u' = jt_events u"
  shows "jt_events t' = jt_events t"
  by (rule fold_try_invariant [OF assms(1), of "\<lambda>u. jt_events u = jt_events t"]) (use assms(2) in \<open>auto simp: index_row_Inr\<close>)

lemma indexInvocationRecord_events: "indexInvocationRecord seq r t = Inr t' \<Longrightarrow> jt_events t' = jt_events t"
  using arg_cong [OF indexInvocationRecord_only, of seq r t t' jt_events] by simp

lemma invocation_batch_Inr:
  assumes "invocation_batch cd batch t = Inr (t', complete)" "position = (case jt_position t of None \<Rightarrow> 0 | Some p \<Rightarrow> p)"
    "rows = take batch (select_range position (table_length t) t)"
  shows "position \<le> table_length t" "length rows = min batch (table_length t - position)"
    "\<exists>u. fold_try (index_row cd ''Invalid invocation index journal sequence'' position indexInvocationRecord) (enumerate 0 rows) t = Inr u \<and>
      t' = u\<lparr>jt_position := Some (position + length rows)\<rparr>"
    "complete = (position + length rows = table_length t)"
  using assms by (auto simp: invocation_batch_def Let_def split: if_splits)

lemma invocation_batch_events: "invocation_batch cd batch t = Inr (t', complete) \<Longrightarrow> jt_events t' = jt_events t"
  using invocation_batch_Inr(3) [OF _ refl refl, of cd batch t t' complete] index_rows_events indexInvocationRecord_events by fastforce

lemma invocation_batch_position:
  assumes "invocation_batch cd batch t = Inr (t', complete)" "batch \<noteq> 0" "\<not> complete"
  shows "table_length t' - (case jt_position t' of None \<Rightarrow> 0 | Some p \<Rightarrow> p) < table_length t - (case jt_position t of None \<Rightarrow> 0 | Some p \<Rightarrow> p)"
proof -
  have "table_length t' = table_length t" using invocation_batch_events [OF assms(1)] by (simp add: table_length_def)
  with assms show ?thesis by (auto simp: invocation_batch_def Let_def split: if_splits)
qed

text \<open>
  The loop of \<open>setup\<close>: each batch is a transaction, and those that were committed stay when a later one
  fails. The batch size was validated to be positive.
\<close>

function index_invocations :: "journal_codec \<Rightarrow> nat \<Rightarrow> 'k journal_tables \<Rightarrow> (journal_error + unit) \<times> 'k journal_tables" where
  "index_invocations cd batch t = (if batch = 0 then (Inl (Failed (Error ''invocationIndexBatchSize must be a positive safe integer'')), t)
     else case invocation_batch cd batch t of
       Inl e \<Rightarrow> (Inl e, t)
     | Inr (t', complete) \<Rightarrow> if complete then (Inr (), t') else index_invocations cd batch t')"
  by pat_completeness auto

termination
  by (relation "measure (\<lambda>(cd, batch, t). table_length t - (case jt_position t of None \<Rightarrow> 0 | Some p \<Rightarrow> p))")
    (use invocation_batch_position in \<open>auto simp del: split_paired_All\<close>)

declare index_invocations.simps [simp del]

section \<open>The index of families\<close>

record 'k journal_family =
  jf_name :: string
  jf_version :: string
  jf_key :: "recorded \<Rightarrow> nat \<Rightarrow> runtime_error + 'k option"

definition family_position :: "'k journal_family \<Rightarrow> 'k journal_tables \<Rightarrow> nat option" where
  "family_position f t = (case map_of (jt_families t) (jf_name f) of
     None \<Rightarrow> None
   | Some (version, position) \<Rightarrow> if version = jf_version f then Some position else None)"

definition index_family :: "'k journal_family \<Rightarrow> nat \<Rightarrow> recorded \<Rightarrow> 'k journal_tables \<Rightarrow> journal_error + 'k journal_tables" where
  "index_family f seq r t = try_bind (of_runtime (jf_key f r seq)) (\<lambda>key. case key of
     None \<Rightarrow> Inr t
   | Some k \<Rightarrow> try_bind (sql_add (jf_name f, k, seq) (jt_keys t)) (\<lambda>rows. Inr (t\<lparr>jt_keys := rows\<rparr>)))"

definition set_family :: "'k journal_family \<Rightarrow> nat \<Rightarrow> 'k journal_tables \<Rightarrow> 'k journal_tables" where
  "set_family f position t = t\<lparr>jt_families := js_set (jf_name f) (jf_version f, position) (jt_families t)\<rparr>"

definition clear_keys :: "'k journal_family \<Rightarrow> 'k journal_tables \<Rightarrow> 'k journal_tables" where
  "clear_keys f t = t\<lparr>jt_keys := filter (\<lambda>(name, _). name \<noteq> jf_name f) (jt_keys t)\<rparr>"

text \<open>One transaction of \<open>prepare\<close>: an index of another version starts over.\<close>

definition prepare_batch :: "journal_codec \<Rightarrow> nat \<Rightarrow> 'k journal_family \<Rightarrow> nat \<Rightarrow> 'k journal_tables \<Rightarrow> journal_error + 'k journal_tables \<times> bool" where
  "prepare_batch cd batch f n t =
     (if family_position f t = Some n then Inr (t, True)
      else let position = (case family_position f t of None \<Rightarrow> 0 | Some p \<Rightarrow> p);
          t = (if family_position f t = None then clear_keys f t else t); rows = take batch (select_range position n t) in
        if n < position then Inl (Failed (Error ''Invalid family index position''))
        else if length rows \<noteq> min batch (n - position) then Inl (Failed (Error ''Family index journal range is unavailable''))
        else try_bind (fold_try (index_row cd ''Invalid family index journal sequence'' position (index_family f)) (enumerate 0 rows) t) (\<lambda>t.
          Inr (set_family f (position + length rows) t, position + length rows = n)))"

lemma index_family_only: "index_family f seq r t = Inr t' \<Longrightarrow> t' = t\<lparr>jt_keys := jt_keys t'\<rparr>"
  by (auto simp: index_family_def split: option.splits)

lemma family_position_set [simp]: "family_position f (set_family f p t) = Some p"
  by (simp add: family_position_def set_family_def)

lemma prepare_batch_position:
  assumes "prepare_batch cd batch f n t = Inr (t', complete)" "batch \<noteq> 0" "\<not> complete"
  shows "(case family_position f t' of None \<Rightarrow> Suc n | Some p \<Rightarrow> n - p) < (case family_position f t of None \<Rightarrow> Suc n | Some p \<Rightarrow> n - p)"
  using assms by (auto simp: prepare_batch_def Let_def split: if_splits option.splits)

text \<open>The loop of \<open>prepare\<close>; the batches that were committed stay when a later one fails.\<close>

function prepare_loop :: "journal_codec \<Rightarrow> nat \<Rightarrow> 'k journal_family \<Rightarrow> nat \<Rightarrow> 'k journal_tables \<Rightarrow> (journal_error + unit) \<times> 'k journal_tables" where
  "prepare_loop cd batch f n t = (if batch = 0 then (Inl (Failed (Error ''familyIndexBatchSize must be a positive safe integer'')), t)
     else case prepare_batch cd batch f n t of
       Inl e \<Rightarrow> (Inl e, t)
     | Inr (t', complete) \<Rightarrow> if complete then (Inr (), t') else prepare_loop cd batch f n t')"
  by pat_completeness auto

termination
  by (relation "measure (\<lambda>(cd, batch, f, n, t). case family_position f t of None \<Rightarrow> Suc n | Some p \<Rightarrow> n - p)")
    (use prepare_batch_position in auto)

declare prepare_loop.simps [simp del]

end
