(* ===== verification/SqlCheckpoints.thy ===== *)
theory SqlCheckpoints
  imports SqlTables
begin

text \<open>
  The tables of checkpoints (\<open>packages/platform/src/shared/checkpoint/\<close>): \<open>actor.ts\<close> and \<open>atoms.ts\<close> over the schema of
  \<open>migrations/\<close>, \<open>manifest.ts\<close>. An actor has one checkpoint, stored as a manifest whose atoms are pinned, or as it
  is; beside these each atom keeps its latest snapshot. The statements and their conflicts are those of the
  code; the rows of \<open>atom_checkpoints\<close> are kept in the order of insertion.
\<close>

section \<open>Tables\<close>

record atom_row =
  ar_id :: nat
  ar_identity :: atom_identity
  ar_position :: nat
  ar_byteLength :: nat
  ar_chunkCount :: nat
  ar_digest :: string
  ar_pinned :: bool

record actor_row =
  cr_position :: nat
  cr_byteLength :: nat
  cr_chunkCount :: nat
  cr_digest :: string
  cr_tag :: "string option"
  cr_encoding :: nat
  cr_storageByteLength :: "nat option"
  cr_storageDigest :: "string option"

record checkpoint_tables =
  kt_atoms :: "atom_row list"
  kt_atomChunks :: "((nat \<times> nat) \<times> bytes) list"
  kt_actor :: "actor_row option"
  kt_actorChunks :: "(nat \<times> bytes) list"

definition no_checkpoints :: checkpoint_tables where
  "no_checkpoints = \<lparr>kt_atoms = [], kt_atomChunks = [], kt_actor = None, kt_actorChunks = []\<rparr>"

record stored_checkpoint =
  sc_tag :: "string option"
  sc_position :: nat
  sc_payload :: bytes
  sc_digest :: string

section \<open>Rows of atoms\<close>

text \<open>The condition of \<open>find\<close> on names: outside families the version is not compared.\<close>

definition same_atom :: "atom_identity \<Rightarrow> atom_identity \<Rightarrow> bool" where
  "same_atom i row \<longleftrightarrow> (case ai_family i of
     None \<Rightarrow> ai_name row = ai_name i \<and> ai_family row = None
   | Some _ \<Rightarrow> row = i)"

definition find_atom :: "checkpoint_tables \<Rightarrow> atom_identity \<Rightarrow> nat \<Rightarrow> atom_row option" where
  "find_atom t i position = (case rev (sort_key ar_position (filter (\<lambda>r. same_atom i (ar_identity r) \<and> ar_position r \<le> position) (kt_atoms t))) of
     [] \<Rightarrow> None
   | r # _ \<Rightarrow> Some r)"

text \<open>A row that is not pinned and has a newer one of the same atom.\<close>

definition obsolete :: "atom_identity option \<Rightarrow> checkpoint_tables \<Rightarrow> atom_row \<Rightarrow> bool" where
  "obsolete scope t a \<longleftrightarrow> \<not> ar_pinned a \<and> (case scope of None \<Rightarrow> True | Some i \<Rightarrow> same_atom i (ar_identity a)) \<and>
     (\<exists>newer\<in>set (kt_atoms t). same_atom (ar_identity a) (ar_identity newer) \<and> ar_position a < ar_position newer)"

definition collectAtomCheckpoints :: "atom_identity option \<Rightarrow> checkpoint_tables \<Rightarrow> checkpoint_tables" where
  "collectAtomCheckpoints scope t = (let ids = map ar_id (filter (obsolete scope t) (kt_atoms t)) in
     t\<lparr>kt_atoms := filter (\<lambda>a. ar_id a \<notin> set ids) (kt_atoms t), kt_atomChunks := filter (\<lambda>((i, _), _). i \<notin> set ids) (kt_atomChunks t)\<rparr>)"

text \<open>The \<open>CHECK\<close>s of the table; SQL's \<open>trim\<close> removes spaces.\<close>

definition sql_blank :: "string \<Rightarrow> bool" where
  "sql_blank s \<longleftrightarrow> list_all (\<lambda>c. c = CHR '' '') s"

definition row_allowed :: "atom_identity \<Rightarrow> nat \<Rightarrow> nat \<Rightarrow> bool" where
  "row_allowed i byteLength chunkCount \<longleftrightarrow> 0 < byteLength \<and> 0 < chunkCount \<and>
     (case (ai_family i, ai_version i) of (None, None) \<Rightarrow> \<not> sql_blank (ai_name i) | (Some f, Some v) \<Rightarrow> \<not> sql_blank f \<and> \<not> sql_blank v | _ \<Rightarrow> False)"

definition new_row_id :: "checkpoint_tables \<Rightarrow> nat" where
  "new_row_id t = Suc (fold max (map ar_id (kt_atoms t)) 0)"

text \<open>\<open>INSERT ... ON CONFLICT DO UPDATE ... WHERE\<close>: a pinned row changes only to the same digest.\<close>

definition update_row :: "nat \<Rightarrow> nat \<Rightarrow> string \<Rightarrow> bool \<Rightarrow> atom_row \<Rightarrow> atom_row" where
  "update_row byteLength chunkCount digest pin r =
     (if \<not> ar_pinned r \<or> ar_digest r = digest
      then r\<lparr>ar_byteLength := byteLength, ar_chunkCount := chunkCount, ar_digest := digest, ar_pinned := ar_pinned r \<or> pin\<rparr> else r)"

definition upsert_atom :: "atom_identity \<Rightarrow> nat \<Rightarrow> nat \<Rightarrow> nat \<Rightarrow> string \<Rightarrow> bool \<Rightarrow> checkpoint_tables \<Rightarrow> journal_error + checkpoint_tables" where
  "upsert_atom i position byteLength chunkCount digest pin t =
     (if \<not> row_allowed i byteLength chunkCount then Inl ConstraintViolated
      else if \<exists>r\<in>set (kt_atoms t). same_atom i (ar_identity r) \<and> ar_position r = position
      then Inr (t\<lparr>kt_atoms := map (\<lambda>r. if same_atom i (ar_identity r) \<and> ar_position r = position then update_row byteLength chunkCount digest pin r else r)
          (kt_atoms t)\<rparr>)
      else Inr (t\<lparr>kt_atoms := kt_atoms t @ [\<lparr>ar_id = new_row_id t, ar_identity = i, ar_position = position, ar_byteLength = byteLength,
          ar_chunkCount = chunkCount, ar_digest = digest, ar_pinned = pin\<rparr>]\<rparr>))"

definition insert_atom_chunk :: "nat \<Rightarrow> checkpoint_chunk \<Rightarrow> checkpoint_tables \<Rightarrow> journal_error + checkpoint_tables" where
  "insert_atom_chunk i c t =
     try_bind (sql_insert (i, ck_ordinal c) (ck_payload c) (kt_atomChunks t)) (\<lambda>rows. Inr (t\<lparr>kt_atomChunks := rows\<rparr>))"

section \<open>Writing\<close>

definition write_atom :: "'j checkpoint_codec \<Rightarrow> int \<Rightarrow> bool \<Rightarrow> 'j stored_atom \<Rightarrow> checkpoint_tables \<Rightarrow> journal_error + checkpoint_tables" where
  "write_atom kc chunkBytes pin a t =
     try_bind (of_runtime (encodeAtomCheckpoint kc a)) (\<lambda>payload.
     try_bind (of_runtime (encodeCheckpointChunks payload chunkBytes)) (\<lambda>chunks.
     try_bind (upsert_atom (sa_identity a) (sa_position a) (length payload) (length chunks) (kc_digest kc payload) pin t) (\<lambda>t.
     case find_atom t (sa_identity a) (sa_position a) of
       None \<Rightarrow> Inl (Failed (Error ''Pinned atom checkpoint cannot change''))
     | Some r \<Rightarrow> if ar_position r \<noteq> sa_position a \<or> ar_digest r \<noteq> kc_digest kc payload
         then Inl (Failed (Error ''Pinned atom checkpoint cannot change''))
         else try_bind (fold_try (insert_atom_chunk (ar_id r)) chunks (t\<lparr>kt_atomChunks := filter (\<lambda>((i, _), _). i \<noteq> ar_id r) (kt_atomChunks t)\<rparr>)) (\<lambda>t.
           Inr (if pin then t else collectAtomCheckpoints (Some (sa_identity a)) t)))))"

fun write_atoms :: "'j checkpoint_codec \<Rightarrow> nat \<Rightarrow> int \<Rightarrow> bool \<Rightarrow> string list \<Rightarrow> 'j stored_atom list \<Rightarrow> checkpoint_tables \<Rightarrow> journal_error + checkpoint_tables" where
  "write_atoms kc position chunkBytes pin names [] t = Inr t"
| "write_atoms kc position chunkBytes pin names (a # rest) t =
     (if \<not> safe_integer (int (sa_position a)) \<or> position < sa_position a then Inl (Failed (Error ''Invalid atom checkpoint position''))
      else if atomCheckpointKey (sa_identity a) \<in> set names then Inl (Failed (Error ''Duplicate atom checkpoint''))
      else try_bind (write_atom kc chunkBytes pin a t) (write_atoms kc position chunkBytes pin (atomCheckpointKey (sa_identity a) # names) rest))"

definition writeAtomCheckpoints :: "'j checkpoint_codec \<Rightarrow> 'j stored_atom list \<Rightarrow> nat \<Rightarrow> int \<Rightarrow> bool \<Rightarrow> checkpoint_tables \<Rightarrow> journal_error + checkpoint_tables" where
  "writeAtomCheckpoints kc atoms position chunkBytes pin t = write_atoms kc position chunkBytes pin [] atoms t"

text \<open>\<open>splitActorCheckpoint\<close>: a canonical payload of a known layout is stored as a manifest with its atoms.\<close>

record 'j split_checkpoint =
  sp_payload :: bytes
  sp_atoms :: "'j stored_atom list"
  sp_encoding :: nat

definition whole_checkpoint :: "stored_checkpoint \<Rightarrow> 'j split_checkpoint" where
  "whole_checkpoint c = \<lparr>sp_payload = sc_payload c, sp_atoms = [], sp_encoding = 0\<rparr>"

definition splitActorCheckpoint :: "'j checkpoint_codec \<Rightarrow> stored_checkpoint \<Rightarrow> journal_error + 'j split_checkpoint" where
  "splitActorCheckpoint kc c = (case kc_actorParse kc (sc_payload c) of
     Some (VersionedDocument version _) \<Rightarrow>
       if version \<noteq> ACTOR_CHECKPOINT_VERSION \<and> version \<noteq> LEGACY_ACTOR_CHECKPOINT_VERSION then Inr (whole_checkpoint c)
       else (case decodeCheckpoint kc (sc_payload c) of
           Inl e \<Rightarrow> Inl (CheckpointFailed e)
         | Inr decoded \<Rightarrow>
             let legacy = version = LEGACY_ACTOR_CHECKPOINT_VERSION in
             try_bind (of_runtime (if legacy then encodeActorCheckpointV4 kc decoded else encodeCheckpoint kc decoded)) (\<lambda>canonical.
             if as_position decoded \<noteq> sc_position c \<or> kc_digest kc canonical \<noteq> sc_digest c then Inr (whole_checkpoint c)
             else try_bind (of_runtime (encodeCheckpointManifest kc decoded legacy)) (\<lambda>payload.
               Inr \<lparr>sp_payload = payload, sp_atoms = as_durable decoded, sp_encoding = 1\<rparr>)))
   | _ \<Rightarrow> Inr (whole_checkpoint c))"

definition insert_actor_chunk :: "checkpoint_chunk \<Rightarrow> checkpoint_tables \<Rightarrow> journal_error + checkpoint_tables" where
  "insert_actor_chunk c t = try_bind (sql_insert (ck_ordinal c) (ck_payload c) (kt_actorChunks t)) (\<lambda>rows. Inr (t\<lparr>kt_actorChunks := rows\<rparr>))"

definition unpin_atoms :: "checkpoint_tables \<Rightarrow> checkpoint_tables" where
  "unpin_atoms t = t\<lparr>kt_atoms := map (\<lambda>r. r\<lparr>ar_pinned := False\<rparr>) (kt_atoms t)\<rparr>"

definition actor_row_of :: "'j checkpoint_codec \<Rightarrow> stored_checkpoint \<Rightarrow> 'j split_checkpoint \<Rightarrow> nat \<Rightarrow> actor_row" where
  "actor_row_of kc c split chunks = \<lparr>cr_position = sc_position c, cr_byteLength = length (sc_payload c), cr_chunkCount = chunks, cr_digest = sc_digest c,
     cr_tag = sc_tag c, cr_encoding = sp_encoding split, cr_storageByteLength = Some (length (sp_payload split)),
     cr_storageDigest = Some (kc_digest kc (sp_payload split))\<rparr>"

definition writeActorCheckpoint :: "'j checkpoint_codec \<Rightarrow> stored_checkpoint \<Rightarrow> int \<Rightarrow> checkpoint_tables \<Rightarrow> journal_error + checkpoint_tables" where
  "writeActorCheckpoint kc c chunkBytes t =
     try_bind (splitActorCheckpoint kc c) (\<lambda>split.
     try_bind (of_runtime (encodeCheckpointChunks (sp_payload split) chunkBytes)) (\<lambda>chunks.
     try_bind (writeAtomCheckpoints kc (sp_atoms split) (sc_position c) chunkBytes True (unpin_atoms t)) (\<lambda>t.
     try_bind (fold_try insert_actor_chunk chunks (t\<lparr>kt_actorChunks := [], kt_actor := Some (actor_row_of kc c split (length chunks))\<rparr>)) (\<lambda>t.
     Inr (collectAtomCheckpoints None t)))))"

section \<open>Reading\<close>

definition given_or :: "'a option \<Rightarrow> 'a \<Rightarrow> 'a" where
  "given_or v d = (case v of None \<Rightarrow> d | Some x \<Rightarrow> x)"

definition atom_chunks :: "nat \<Rightarrow> checkpoint_tables \<Rightarrow> checkpoint_chunk list" where
  "atom_chunks i t = chunks_of i (kt_atomChunks t)"

definition read_row :: "'j checkpoint_codec \<Rightarrow> checkpoint_tables \<Rightarrow> atom_row \<Rightarrow> runtime_error + 'j stored_atom" where
  "read_row kc t r =
     try_bind (decodeCheckpointChunks (atom_chunks (ar_id r) t) (ar_byteLength r) (ar_chunkCount r)) (\<lambda>payload.
       if kc_digest kc payload \<noteq> ar_digest r then Inl (Error ''Atom checkpoint digest mismatch'') else decodeAtomCheckpoint kc payload)"

definition readAtomCheckpoint :: "'j checkpoint_codec \<Rightarrow> atom_identity \<Rightarrow> int \<Rightarrow> checkpoint_tables \<Rightarrow> runtime_error + 'j stored_atom option" where
  "readAtomCheckpoint kc i position t =
     (if \<not> safe_integer position \<or> position < 0 \<or> (ai_family i = None) \<noteq> (ai_version i = None) then Inl (Error ''Invalid atom checkpoint read'')
      else case find_atom t i (nat position) of
        None \<Rightarrow> Inr None
      | Some r \<Rightarrow> try_bind (read_row kc t r) (\<lambda>a.
          if sa_position a \<noteq> ar_position r \<or> sa_identity a \<noteq> i then Inl (Error ''Atom checkpoint identity mismatch'') else Inr (Some a)))"

definition actor_chunks :: "checkpoint_tables \<Rightarrow> checkpoint_chunk list" where
  "actor_chunks t = map (\<lambda>(ordinal, payload). \<lparr>ck_ordinal = ordinal, ck_payload = payload\<rparr>) (sort_key fst (kt_actorChunks t))"

definition read_reference :: "'j checkpoint_codec \<Rightarrow> checkpoint_tables \<Rightarrow> atom_identity \<times> nat \<Rightarrow> runtime_error + 'j stored_atom" where
  "read_reference kc t r = (case r of (i, position) \<Rightarrow> try_bind (readAtomCheckpoint kc i (int position) t) (\<lambda>a. case a of
     None \<Rightarrow> Inl (Error ''Actor checkpoint atom is unavailable'')
   | Some a \<Rightarrow> if sa_position a \<noteq> position then Inl (Error ''Actor checkpoint atom is unavailable'') else Inr a))"

definition rebuild_payload :: "'j checkpoint_codec \<Rightarrow> checkpoint_tables \<Rightarrow> actor_row \<Rightarrow> bytes \<Rightarrow> runtime_error + bytes" where
  "rebuild_payload kc t row payload =
     (if cr_encoding row = 1 then
        try_bind (decodeCheckpointManifest kc payload) (\<lambda>m.
        if mf_position m \<noteq> cr_position row then Inl (Error ''Invalid actor checkpoint manifest'')
        else try_bind (map_try (read_reference kc t) (mf_atoms m)) (\<lambda>durable.
          let state = \<lparr>as_position = cr_position row, as_durable = durable\<rparr> in
          if mf_legacy m then encodeActorCheckpointV4 kc state else encodeCheckpoint kc state))
      else if cr_encoding row \<noteq> 0 then Inl (Error ''Unsupported actor checkpoint encoding'')
      else Inr payload)"

definition readActorCheckpoint :: "'j checkpoint_codec \<Rightarrow> string option \<Rightarrow> checkpoint_tables \<Rightarrow> runtime_error + stored_checkpoint option" where
  "readActorCheckpoint kc tag t = (case kt_actor t of
     None \<Rightarrow> Inr None
   | Some row \<Rightarrow> if tag \<noteq> None \<and> cr_tag row \<noteq> tag then Inr None
       else if \<not> safe_integer (int (cr_position row)) then Inl (Error ''Invalid journal checkpoint'')
       else try_bind (decodeCheckpointChunks (actor_chunks t) (given_or (cr_storageByteLength row) (cr_byteLength row)) (cr_chunkCount row)) (\<lambda>payload.
         if kc_digest kc payload \<noteq> given_or (cr_storageDigest row) (cr_digest row) then Inl (Error ''Journal checkpoint digest mismatch'')
         else try_bind (rebuild_payload kc t row payload) (\<lambda>payload.
           if length payload \<noteq> cr_byteLength row \<or> kc_digest kc payload \<noteq> cr_digest row then Inl (Error ''Journal checkpoint digest mismatch'')
           else Inr (Some \<lparr>sc_tag = cr_tag row, sc_position = cr_position row, sc_payload = payload, sc_digest = cr_digest row\<rparr>))))"

end
