(* ===== verification/RetryWakes.thy ===== *)
theory RetryWakes
  imports Scheduler
begin

text \<open>
  The wakes that a journal schedules and cancels with the records it appends
  (\<open>packages/platform/src/shared/retry-wakes.ts\<close>): the retry of an effect, and the deadline of a local promise.
\<close>

definition deadlineWakeId :: "effect_ref \<Rightarrow> string" where
  "deadlineWakeId ref = ''promise:'' @ effectKey ref"

definition retryWakeId :: "effect_ref \<Rightarrow> string" where
  "retryWakeId ref = ''effect:'' @ effectKey ref"

definition effect_target :: "effect_ref \<Rightarrow> json" where
  "effect_target ref = JObj (fmap_of_list [(''owner'', JStr ''effect''), (''ref'', JObj (fmap_of_list
     [(''seq'', JInt (int (ref_seq ref))), (''atom'', JStr (ref_atom ref)), (''act'', JStr (ref_act ref))]))])"

definition cancel_wakes :: "effect_ref \<Rightarrow> scheduler_store \<Rightarrow> scheduler_store" where
  "cancel_wakes ref s = cancelWake (deadlineWakeId ref) (cancelWake (retryWakeId ref) s)"

definition record_settlement :: "effect_settled \<Rightarrow> scheduler_store \<Rightarrow> runtime_error + scheduler_store" where
  "record_settlement e s = (case es_outcome e of
     Rejected _ \<Rightarrow> Inr (cancel_wakes (es_ref e) s)
   | Fulfilled v \<Rightarrow> try_bind (execution_result_of v) (\<lambda>result. case result of
       ValueResult _ \<Rightarrow> Inr (cancel_wakes (es_ref e) s)
     | PromiseResult handle deadline _ \<Rightarrow> (case deadline of
         None \<Rightarrow> Inr s
       | Some due \<Rightarrow> if eh_executor handle = ''local''
           then scheduleWake \<lparr>wr_id = deadlineWakeId (es_ref e), wr_target = effect_target (es_ref e), wr_dueAt = int due\<rparr> s
           else Inr s)))"

text \<open>One record; what is no well formed event of these types is passed over.\<close>

definition record_wake :: "recorded \<Rightarrow> scheduler_store \<Rightarrow> runtime_error + scheduler_store" where
  "record_wake r s = (case rec_event r of
     Core e \<Rightarrow> if \<not> core_event_ok e then Inr s
       else (case e of
           RetryScheduled w \<Rightarrow> scheduleWake \<lparr>wr_id = retryWakeId (rs_ref w), wr_target = effect_target (rs_ref w), wr_dueAt = int (rs_dueAt w)\<rparr> s
         | EffectCancelled c \<Rightarrow> Inr (cancel_wakes (cancel_ref c) s)
         | PromiseSettled p \<Rightarrow> Inr (cancel_wakes (ps_ref p) s)
         | CleanupOutcome c \<Rightarrow> Inr (cancel_wakes (cancellation_ref c) s)
         | EffectSettled e \<Rightarrow> record_settlement e s
         | _ \<Rightarrow> Inr s)
   | _ \<Rightarrow> Inr s)"

definition recordRetryWakes :: "recorded list \<Rightarrow> scheduler_store \<Rightarrow> runtime_error + scheduler_store" where
  "recordRetryWakes rs s = fold_try record_wake rs s"

text \<open>
  The wake of a retry after records: that of the last retry since the work of the reference ended, if any.
  The ids of retries and of deadlines are apart, and those of different references.
\<close>

fun retry_after :: "effect_ref \<Rightarrow> journal_event \<Rightarrow> int option \<Rightarrow> int option" where
  "retry_after ref (Core (RetryScheduled w)) due = (if retry_ok w \<and> rs_ref w = ref then Some (int (rs_dueAt w)) else due)"
| "retry_after ref (Core (EffectCancelled c)) due = (if ref_ok (cancel_ref c) \<and> cancel_ref c = ref then None else due)"
| "retry_after ref (Core (PromiseSettled p)) due = (if ref_ok (ps_ref p) \<and> ps_ref p = ref then None else due)"
| "retry_after ref (Core (CleanupOutcome c)) due = (if ref_ok (cancellation_ref c) \<and> cancellation_ref c = ref then None else due)"
| "retry_after ref (Core (EffectSettled e)) due = (if ref_ok (es_ref e) \<and> es_ref e = ref \<and>
     (case es_outcome e of Rejected _ \<Rightarrow> True | Fulfilled v \<Rightarrow> (\<exists>j. decode_result v = Some (ValueResult j))) then None else due)"
| "retry_after ref _ due = due"

lemma wake_ids [simp]: "retryWakeId ref = retryWakeId ref' \<longleftrightarrow> ref = ref'" "retryWakeId ref \<noteq> deadlineWakeId ref'" "deadlineWakeId ref' \<noteq> retryWakeId ref"
  by (auto simp: retryWakeId_def deadlineWakeId_def)

lemma scheduleWake_get:
  "scheduleWake r s = Inr s' \<Longrightarrow> map_option sw_dueAt (wake_get s' k) = (if k = wr_id r then Some (wr_dueAt r) else map_option sw_dueAt (wake_get s k))"
  by (auto simp: scheduleWake_def allocateGeneration_def wake_defs Let_def split: if_splits)

lemma cancel_wakes_get: "wake_get (cancel_wakes ref s) (retryWakeId ref') = (if ref' = ref then None else wake_get s (retryWakeId ref'))"
  by (simp add: cancel_wakes_def cancelWake_def wake_defs)

lemma record_settlement_retry:
  assumes "record_settlement e s = Inr s'" "ref_ok (es_ref e)"
  shows "map_option sw_dueAt (wake_get s' (retryWakeId ref)) = retry_after ref (Core (EffectSettled e)) (map_option sw_dueAt (wake_get s (retryWakeId ref)))"
proof (cases "es_outcome e")
  case (Rejected v)
  with assms show ?thesis by (auto simp: record_settlement_def cancel_wakes_get)
next
  case settled: (Fulfilled v)
  show ?thesis
  proof (cases "decode_result v")
    case None
    with settled assms show ?thesis by (simp add: record_settlement_def execution_result_of_def)
  next
    case (Some result)
    show ?thesis
    proof (cases result)
      case (ValueResult j)
      with settled Some assms show ?thesis by (auto simp: record_settlement_def execution_result_of_def cancel_wakes_get)
    next
      case (PromiseResult handle deadline unbounded)
      with settled Some assms have "s' = s \<or> (\<exists>r. wr_id r = deadlineWakeId (es_ref e) \<and> scheduleWake r s = Inr s')"
        by (cases deadline) (auto simp: record_settlement_def execution_result_of_def split: if_split_asm)
      then have "map_option sw_dueAt (wake_get s' (retryWakeId ref)) = map_option sw_dueAt (wake_get s (retryWakeId ref))"
        using scheduleWake_get [of _ s s' "retryWakeId ref"] by auto
      with settled Some PromiseResult show ?thesis by simp
    qed
  qed
qed

lemma retry_after_invalid: "\<not> ref_ok (es_ref e) \<Longrightarrow> retry_after ref (Core (EffectSettled e)) due = due"
  by simp

lemma record_wake_retry:
  assumes "record_wake r s = Inr s'"
  shows "map_option sw_dueAt (wake_get s' (retryWakeId ref)) = retry_after ref (rec_event r) (map_option sw_dueAt (wake_get s (retryWakeId ref)))"
proof (cases "rec_event r")
  case (Core e)
  with assms show ?thesis
    by (cases e) (auto simp: record_wake_def cancel_wakes_get retry_after_invalid simp del: retry_after.simps(5) dest: record_settlement_retry scheduleWake_get [of _ s s' "retryWakeId ref"]
      split: if_split_asm)
qed (use assms in \<open>auto simp: record_wake_def\<close>)

lemma retry_wakes_recorded:
  assumes "recordRetryWakes rs s = Inr s'"
  shows "map_option sw_dueAt (wake_get s' (retryWakeId ref)) = fold (retry_after ref \<circ> rec_event) rs (map_option sw_dueAt (wake_get s (retryWakeId ref)))"
  using assms unfolding recordRetryWakes_def
proof (induction rs arbitrary: s)
  case (Cons r rs)
  from Cons.prems obtain u where u: "record_wake r s = Inr u" "fold_try record_wake rs u = Inr s'" by auto
  from Cons.IH [OF u(2)] record_wake_retry [OF u(1), of ref] show ?case by simp
qed simp

end
