(* ===== verification/SqlJournal.thy ===== *)
theory SqlJournal
  imports SqlCheckpoints RetryWakes
begin

text \<open>
  The journal over the tables of \<open>SqlTables\<close> (\<open>packages/platform/src/shared/sql-journal.ts\<close>) with its family index
  (\<open>sql-family-index.ts\<close>): the options, \<open>append\<close> in one transaction, and the reads. A transaction that fails keeps
  nothing. The hook in which a host may run the transaction of an append is left out. Functions of one actor's
  tables; \<open>sj_families\<close> is the map of the families that were read since the journal was opened, \<open>sj_wakes\<close> the
  tables of the scheduler if the journal has one. The digest of checkpoints is that of their codec.
\<close>

section \<open>Options\<close>

definition DEFAULT_FAMILY_INDEX_BATCH_SIZE :: int where
  "DEFAULT_FAMILY_INDEX_BATCH_SIZE = 16"

definition DEFAULT_INVOCATION_INDEX_BATCH_SIZE :: int where
  "DEFAULT_INVOCATION_INDEX_BATCH_SIZE = 16"

definition DEFAULT_EVENT_INLINE_BYTES :: int where
  "DEFAULT_EVENT_INLINE_BYTES = 1500000"

record journal_config =
  jn_actor :: bytes
  jn_familyBatch :: "int option"
  jn_invocationBatch :: "int option"
  jn_chunkBytes :: "int option"
  jn_maxRowBytes :: "int option"
  jn_inlineBytes :: "int option"

record journal_options =
  jo_actorBytes :: nat
  jo_familyBatch :: nat
  jo_invocationBatch :: nat
  jo_chunkBytes :: int
  jo_maxRowBytes :: "int option"
  jo_inlineCapacity :: int
  jo_eventChunkBytes :: int
  jo_inlineBytes :: int

definition given :: "int option \<Rightarrow> int \<Rightarrow> int" where
  "given v d = (case v of None \<Rightarrow> d | Some x \<Rightarrow> x)"

definition positive_option :: "string \<Rightarrow> int \<Rightarrow> runtime_error + nat" where
  "positive_option name n = (if \<not> safe_integer n \<or> n < 1 then Inl (Error (name @ '' must be a positive safe integer'')) else Inr (nat n))"

definition journal_options_of :: "journal_config \<Rightarrow> runtime_error + journal_options" where
  "journal_options_of c =
     (if jn_actor c = [] then Inl (Error ''Journal actor identity must be nonempty'')
      else try_bind (positive_option ''familyIndexBatchSize'' (given (jn_familyBatch c) DEFAULT_FAMILY_INDEX_BATCH_SIZE)) (\<lambda>family.
        try_bind (positive_option ''invocationIndexBatchSize'' (given (jn_invocationBatch c) DEFAULT_INVOCATION_INDEX_BATCH_SIZE)) (\<lambda>invocation.
        let chunk = given (jn_chunkBytes c) DEFAULT_CHECKPOINT_CHUNK_BYTES in
        try_bind (validateCheckpointChunkBytes chunk (map_option (\<lambda>m. m - CHECKPOINT_CHUNK_ROW_OVERHEAD_BYTES) (jn_maxRowBytes c))) (\<lambda>_.
        let capacity = (case jn_maxRowBytes c of None \<Rightarrow> max_safe_integer
              | Some m \<Rightarrow> m - int (length (jn_actor c)) - CHECKPOINT_CHUNK_ROW_OVERHEAD_BYTES);
            eventChunk = min chunk capacity; inline = given (jn_inlineBytes c) (min DEFAULT_EVENT_INLINE_BYTES capacity) in
        try_bind (validateCheckpointChunkBytes eventChunk None) (\<lambda>_.
        if \<not> safe_integer inline \<or> inline < 1 \<or> capacity < inline
        then Inl (Error (''eventInlineBytes must be between 1 and '' @ int_text capacity))
        else Inr \<lparr>jo_actorBytes = length (jn_actor c), jo_familyBatch = family, jo_invocationBatch = invocation, jo_chunkBytes = chunk,
          jo_maxRowBytes = jn_maxRowBytes c, jo_inlineCapacity = capacity, jo_eventChunkBytes = eventChunk, jo_inlineBytes = inline\<rparr>)))))"

section \<open>Families\<close>

record 'k sql_journal =
  sj_tables :: "'k journal_tables"
  sj_families :: "(string \<times> 'k journal_family) list"
  sj_checkpoints :: checkpoint_tables
  sj_wakes :: "scheduler_store option"

text \<open>Opening a journal over existing tables; families are registered anew.\<close>

definition sqlJournal :: "journal_codec \<Rightarrow> journal_config \<Rightarrow> 'k sql_journal \<Rightarrow> (journal_error + journal_options) \<times> 'k sql_journal" where
  "sqlJournal cd c s = (case journal_options_of c of
     Inl e \<Rightarrow> (Inl (Failed e), s\<lparr>sj_families := []\<rparr>)
   | Inr opts \<Rightarrow> (case index_invocations cd (jo_invocationBatch opts) (sj_tables s) of
       (r, t) \<Rightarrow> (try_bind r (\<lambda>_. Inr opts), s\<lparr>sj_tables := t, sj_families := []\<rparr>)))"

text \<open>\<open>prepare\<close> registers the family and indexes the journal up to a length.\<close>

definition prepare :: "journal_codec \<Rightarrow> journal_options \<Rightarrow> 'k journal_family \<Rightarrow> nat \<Rightarrow> 'k sql_journal \<Rightarrow> (journal_error + unit) \<times> 'k sql_journal" where
  "prepare cd opts f n s =
     (if list_all js_space (jf_name f) \<or> list_all js_space (jf_version f)
      then (Inl (Failed (Error ''Journal family name and indexVersion must be nonempty'')), s)
      else case prepare_loop cd (jo_familyBatch opts) f n (sj_tables s) of (r, t) \<Rightarrow>
        (r, s\<lparr>sj_tables := t, sj_families := js_set (jf_name f) f (sj_families s)\<rparr>))"

fun prepare_all :: "journal_codec \<Rightarrow> journal_options \<Rightarrow> 'k journal_family list \<Rightarrow> nat \<Rightarrow> 'k sql_journal \<Rightarrow> (journal_error + unit) \<times> 'k sql_journal" where
  "prepare_all cd opts [] n s = (Inr (), s)"
| "prepare_all cd opts (f # fs) n s = (case prepare cd opts f n s of
     (Inl e, s') \<Rightarrow> (Inl e, s')
   | (Inr _, s') \<Rightarrow> prepare_all cd opts fs n s')"

definition catchUp :: "journal_codec \<Rightarrow> journal_options \<Rightarrow> nat \<Rightarrow> 'k sql_journal \<Rightarrow> (journal_error + unit) \<times> 'k sql_journal" where
  "catchUp cd opts n s = prepare_all cd opts (map snd (sj_families s)) n s"

definition append_family :: "nat \<Rightarrow> recorded list \<Rightarrow> 'k journal_family \<Rightarrow> 'k journal_tables \<Rightarrow> journal_error + 'k journal_tables" where
  "append_family position rs f t =
     (if family_position f t \<noteq> Some position then Inl (Failed (Error ''Family index does not cover the committed journal prefix''))
      else try_bind (fold_try (\<lambda>(offset, r) t. index_family f (position + offset) r t) (enumerate 0 rs) t) (\<lambda>t.
        Inr (set_family f (position + length rs) t)))"

section \<open>Appending\<close>

text \<open>The type of an event, as the text of its row has it.\<close>

fun core_event_type :: "core_event \<Rightarrow> string" where
  "core_event_type (EffectRequested _) = ''EffectRequested''"
| "core_event_type (EffectSettled _) = ''EffectSettled''"
| "core_event_type (EffectDied _) = ''EffectDied''"
| "core_event_type (CleanupOutcome (CancellationSettled _ _)) = ''CancellationSettled''"
| "core_event_type (CleanupOutcome (CancellationDied _ _)) = ''CancellationDied''"
| "core_event_type (PromiseSettled _) = ''PromiseSettled''"
| "core_event_type (RetryScheduled _) = ''RetryScheduled''"
| "core_event_type (EffectCancelled _) = ''EffectCancelled''"
| "core_event_type (ThreadCreated _) = ''ThreadCreated''"
| "core_event_type (ThreadUpdated _) = ''ThreadUpdated''"
| "core_event_type (MessageDelivered _) = ''MessageDelivered''"
| "core_event_type (StateInitialised _) = ''StateInitialised''"

fun event_type :: "journal_event \<Rightarrow> string option" where
  "event_type (Core e) = Some (core_event_type e)"
| "event_type (MessageReceived _) = Some ''MessageReceived''"
| "event_type (Domain (JObj m)) = (case fmlookup m ''type'' of Some (JStr t) \<Rightarrow> Some t | _ \<Rightarrow> None)"
| "event_type (Domain _) = None"

definition chunk_header :: "string option \<Rightarrow> nat \<Rightarrow> nat \<Rightarrow> json" where
  "chunk_header type count bytes = JObj (fmap_of_list ((case type of None \<Rightarrow> [] | Some t \<Rightarrow> [(''event'', JObj (fmap_of_list [(''type'', JStr t)]))]) @
     [(''chunkCount'', JInt (int count)), (''byteLength'', JInt (int bytes))]))"

definition encode_record :: "journal_codec \<Rightarrow> journal_options \<Rightarrow> recorded \<Rightarrow> runtime_error + row_text \<times> checkpoint_chunk list" where
  "encode_record cd opts r =
     (if (case rm_message r of None \<Rightarrow> False | Some m \<Rightarrow> \<not> message_metadata_ok m \<or> \<not> isMessageReceived (rec_event r)) then Inl SchemaError
      else let payload = jc_text cd r in
        if int (length payload) \<le> jo_inlineBytes opts then Inr (RecordText payload, [])
        else try_bind (encodeCheckpointChunks payload (jo_eventChunkBytes opts)) (\<lambda>chunks.
          if jo_inlineCapacity opts < int (length (canonicalInput (chunk_header (event_type (rec_event r)) (length chunks) (length payload))))
          then Inl (Error ''Journal query metadata exceeds the SQL row capacity'')
          else Inr (ChunkedText (event_type (rec_event r)) (length chunks) (length payload), chunks)))"

record encoded_input =
  ei_key :: string
  ei_payload :: bytes
  ei_chunks :: "checkpoint_chunk list"

definition encode_input :: "journal_codec \<Rightarrow> journal_options \<Rightarrow> pending_input \<Rightarrow> runtime_error + encoded_input" where
  "encode_input cd opts i =
     (if \<not> ref_ok (pi_ref i) \<or> er_act (pi_request i) = [] then Inl SchemaError
      else let payload = jc_inputText cd i; key = effectKey (pi_ref i);
          row = int (jo_actorBytes opts) + int (length key) + CHECKPOINT_CHUNK_ROW_OVERHEAD_BYTES in
        try_bind (encodeCheckpointChunks payload (case jo_maxRowBytes opts of None \<Rightarrow> jo_chunkBytes opts | Some m \<Rightarrow> min (jo_chunkBytes opts) (m - row)))
          (\<lambda>chunks. Inr \<lparr>ei_key = key, ei_payload = payload, ei_chunks = chunks\<rparr>))"

definition insert_chunk :: "nat \<Rightarrow> checkpoint_chunk \<Rightarrow> 'k journal_tables \<Rightarrow> journal_error + 'k journal_tables" where
  "insert_chunk seq c t = try_bind (sql_insert (seq, ck_ordinal c) (ck_payload c) (jt_chunks t)) (\<lambda>rows. Inr (t\<lparr>jt_chunks := rows\<rparr>))"

definition insert_message :: "nat \<Rightarrow> recorded \<Rightarrow> 'k journal_tables \<Rightarrow> journal_error + 'k journal_tables" where
  "insert_message seq r t = (case rm_message r of
     None \<Rightarrow> Inr t
   | Some m \<Rightarrow> try_bind (sql_insert (mm_id m) seq (jt_messages t)) (\<lambda>rows. Inr (t\<lparr>jt_messages := rows\<rparr>)))"

definition insert_event :: "nat \<Rightarrow> recorded \<times> row_text \<times> checkpoint_chunk list \<Rightarrow> 'k journal_tables \<Rightarrow> journal_error + 'k journal_tables" where
  "insert_event seq e t = (case e of (r, text, chunks) \<Rightarrow>
     try_bind (sql_insert seq text (jt_events t)) (\<lambda>rows.
     try_bind (fold_try (insert_chunk seq) chunks (t\<lparr>jt_events := rows\<rparr>)) (\<lambda>t.
     try_bind (insert_message seq r t) (indexInvocationRecord seq r))))"

definition insert_input_chunk :: "string \<Rightarrow> checkpoint_chunk \<Rightarrow> 'k journal_tables \<Rightarrow> journal_error + 'k journal_tables" where
  "insert_input_chunk key c t = try_bind (sql_insert (key, ck_ordinal c) (ck_payload c) (jt_inputChunks t)) (\<lambda>rows. Inr (t\<lparr>jt_inputChunks := rows\<rparr>))"

definition put_input :: "journal_codec \<Rightarrow> encoded_input \<Rightarrow> 'k journal_tables \<Rightarrow> journal_error + 'k journal_tables" where
  "put_input cd i t = (case map_of (jt_inputs t) (ei_key i) of
     Some row \<Rightarrow> if ir_digest row \<noteq> jc_digest cd (ei_payload i) then Inl (Failed (Error ''Accepted effect input cannot change'')) else Inr t
   | None \<Rightarrow> fold_try (insert_input_chunk (ei_key i)) (ei_chunks i) (t\<lparr>jt_inputs := jt_inputs t @
       [(ei_key i, \<lparr>ir_byteLength = length (ei_payload i), ir_chunkCount = length (ei_chunks i), ir_digest = jc_digest cd (ei_payload i)\<rparr>)]\<rparr>))"

definition remove_input :: "effect_ref \<Rightarrow> 'k journal_tables \<Rightarrow> 'k journal_tables" where
  "remove_input ref t = t\<lparr>jt_inputChunks := filter (\<lambda>((key, _), _). key \<noteq> effectKey ref) (jt_inputChunks t),
     jt_inputs := js_delete (effectKey ref) (jt_inputs t)\<rparr>"

definition append_work :: "journal_codec \<Rightarrow> nat \<Rightarrow> (recorded \<times> row_text \<times> checkpoint_chunk list) list \<Rightarrow> 'k journal_family list \<Rightarrow>
    encoded_input list \<Rightarrow> effect_ref list \<Rightarrow> 'k journal_tables \<Rightarrow> journal_error + 'k journal_tables" where
  "append_work cd expected events families inputs remove t =
     (if table_length t \<noteq> expected then Inl (JournalConflict (int expected) (table_length t))
      else try_bind (fold_try (\<lambda>(i, e). insert_event (expected + i) e) (enumerate 0 events) t) (\<lambda>t.
        try_bind (fold_try (append_family expected (map fst events)) families
            (t\<lparr>jt_position := map_option (\<lambda>_. expected + length events) (jt_position t)\<rparr>)) (\<lambda>t.
        try_bind (fold_try (put_input cd) inputs t) (\<lambda>t.
        Inr (fold remove_input remove t)))))"

record 'j journal_changes =
  jg_put :: "pending_input list"
  jg_remove :: "effect_ref list"
  jg_atoms :: "'j stored_atom list"

text \<open>What an append writes after the records: snapshots of atoms, wakes, and the checkpoint that comes with it.\<close>

definition append_wakes :: "recorded list \<Rightarrow> scheduler_store option \<Rightarrow> journal_error + scheduler_store option" where
  "append_wakes rs w = (case w of None \<Rightarrow> Inr None | Some s \<Rightarrow> try_bind (of_runtime (recordRetryWakes rs s)) (\<lambda>s. Inr (Some s)))"

definition append_store :: "'j checkpoint_codec \<Rightarrow> int \<Rightarrow> nat \<Rightarrow> recorded list \<Rightarrow> stored_checkpoint option \<Rightarrow> 'j stored_atom list \<Rightarrow>
    checkpoint_tables \<Rightarrow> scheduler_store option \<Rightarrow> journal_error + checkpoint_tables \<times> scheduler_store option" where
  "append_store kc chunkBytes position rs checkpoint atoms ck w =
     try_bind (writeAtomCheckpoints kc atoms position chunkBytes False ck) (\<lambda>ck.
     try_bind (append_wakes rs w) (\<lambda>w.
     try_bind (case checkpoint of None \<Rightarrow> Inr ck | Some c \<Rightarrow> writeActorCheckpoint kc c chunkBytes ck) (\<lambda>ck. Inr (ck, w))))"

text \<open>The checks before the transaction, in the order of the code, around the encoding of the records.\<close>

definition position_checked :: "int \<Rightarrow> nat \<Rightarrow> stored_checkpoint option \<Rightarrow> runtime_error + unit" where
  "position_checked expected n checkpoint =
     (if \<not> safe_integer expected \<or> expected < 0 then Inl (Error ''Invalid expected journal length'')
      else case checkpoint of
        None \<Rightarrow> Inr ()
      | Some c \<Rightarrow> if \<not> safe_integer (int (sc_position c)) \<or> int (sc_position c) \<noteq> expected + int n then Inl (Error ''Invalid checkpoint position'') else Inr ())"

definition checkpoint_checked :: "'j checkpoint_codec \<Rightarrow> stored_checkpoint option \<Rightarrow> runtime_error + unit" where
  "checkpoint_checked kc checkpoint = (case checkpoint of
     None \<Rightarrow> Inr ()
   | Some c \<Rightarrow> if sc_digest c \<noteq> kc_digest kc (sc_payload c) then Inl (Error ''Invalid checkpoint digest'')
       else (case sc_tag c of None \<Rightarrow> Inr () | Some tag \<Rightarrow> if list_all js_space tag then Inl (Error ''Checkpoint tag must be nonempty'') else Inr ()))"

definition append_encoded :: "journal_codec \<Rightarrow> 'j checkpoint_codec \<Rightarrow> journal_options \<Rightarrow> int \<Rightarrow> recorded list \<Rightarrow> stored_checkpoint option \<Rightarrow>
    'j journal_changes \<Rightarrow> runtime_error + (row_text \<times> checkpoint_chunk list) list \<times> encoded_input list" where
  "append_encoded cd kc opts expected rs checkpoint changes =
     try_bind (position_checked expected (length rs) checkpoint) (\<lambda>_.
     try_bind (map_try (encode_record cd opts) rs) (\<lambda>texts.
     try_bind (checkpoint_checked kc checkpoint) (\<lambda>_.
     try_bind (map_try (encode_input cd opts) (jg_put changes)) (\<lambda>inputs. Inr (texts, inputs)))))"

definition append_all :: "journal_codec \<Rightarrow> 'j checkpoint_codec \<Rightarrow> journal_options \<Rightarrow> nat \<Rightarrow> recorded list \<Rightarrow> stored_checkpoint option \<Rightarrow> 'j journal_changes \<Rightarrow>
    (row_text \<times> checkpoint_chunk list) list \<times> encoded_input list \<Rightarrow> 'k sql_journal \<Rightarrow> journal_error + 'k sql_journal" where
  "append_all cd kc opts expected rs checkpoint changes encoded s =
     try_bind (append_work cd expected (zip rs (fst encoded)) (map snd (sj_families s)) (snd encoded) (jg_remove changes) (sj_tables s)) (\<lambda>t.
     try_bind (append_store kc (jo_chunkBytes opts) (expected + length rs) rs checkpoint (jg_atoms changes) (sj_checkpoints s) (sj_wakes s)) (\<lambda>(ck, w).
     Inr (s\<lparr>sj_tables := t, sj_checkpoints := ck, sj_wakes := w\<rparr>)))"

definition sqlAppend :: "journal_codec \<Rightarrow> 'j checkpoint_codec \<Rightarrow> journal_options \<Rightarrow> int \<Rightarrow> recorded list \<Rightarrow> stored_checkpoint option \<Rightarrow> 'j journal_changes \<Rightarrow>
    'k sql_journal \<Rightarrow> (journal_error + unit) \<times> 'k sql_journal" where
  "sqlAppend cd kc opts expected rs checkpoint changes s = (case append_encoded cd kc opts expected rs checkpoint changes of
     Inl e \<Rightarrow> (Inl (Failed e), s)
   | Inr encoded \<Rightarrow> (case (if sj_families s = [] then (Inr (), s) else catchUp cd opts (table_length (sj_tables s)) s) of
       (Inl e, s) \<Rightarrow> (Inl e, s)
     | (Inr _, s) \<Rightarrow> (case append_all cd kc opts (nat expected) rs checkpoint changes encoded s of
         Inl e \<Rightarrow> (Inl e, s)
       | Inr s' \<Rightarrow> (Inr (), s'))))"

section \<open>Reads\<close>

definition readPosition :: "'k journal_tables \<Rightarrow> runtime_error + nat" where
  "readPosition t = (if safe_integer (int (table_length t)) then Inr (table_length t) else Inl (Error ''Invalid journal position''))"

definition readRange :: "journal_codec \<Rightarrow> int \<Rightarrow> int \<Rightarrow> 'k journal_tables \<Rightarrow> runtime_error + recorded list" where
  "readRange cd lower upper t =
     (if \<not> safe_integer lower \<or> \<not> safe_integer upper \<or> lower < 0 \<or> upper < lower then Inl (Error ''Invalid journal range'')
      else try_bind (readPosition t) (\<lambda>n.
        let rows = select_range (nat lower) (nat upper) t in
        if int n < upper \<or> int (length rows) \<noteq> upper - lower then Inl (Error ''Journal range is unavailable'')
        else map_try (\<lambda>(i, row). if fst row \<noteq> nat lower + i then Inl (Error ''Invalid journal sequence'') else readSqlJournalRecord cd t row)
          (enumerate 0 rows)))"

text \<open>A row of an index joined with its event, which may be missing.\<close>

definition joined :: "'k journal_tables \<Rightarrow> nat \<Rightarrow> nat \<times> row_text option" where
  "joined t seq = (seq, map_of (jt_events t) seq)"

definition read_joined :: "journal_codec \<Rightarrow> 'k journal_tables \<Rightarrow> string \<Rightarrow> nat \<times> row_text option \<Rightarrow> runtime_error + recorded" where
  "read_joined cd t message row = (case snd row of
     None \<Rightarrow> Inl (Error message)
   | Some text \<Rightarrow> readSqlJournalRecord cd t (fst row, text))"

definition lifecycle_rows :: "string \<Rightarrow> string \<Rightarrow> nat \<Rightarrow> 'k journal_tables \<Rightarrow> nat list" where
  "lifecycle_rows atom act ref t = sort (map (\<lambda>(_, _, _, seq). seq) (filter (\<lambda>(a, c, r, _). a = atom \<and> c = act \<and> r = ref) (jt_lifecycle t)))"

definition operation_row :: "journal_codec \<Rightarrow> 'k journal_tables \<Rightarrow> effect_ref \<Rightarrow> nat \<times> nat \<Rightarrow> runtime_error + recorded" where
  "operation_row cd t ref row = (case row of (i, seq) \<Rightarrow>
     try_bind (read_joined cd t ''Operation index is missing journal records'' (joined t seq)) (\<lambda>r. case rec_event r of
         Core e \<Rightarrow> if \<not> core_event_ok e then Inl SchemaError
           else if event_ref e \<noteq> Some ref \<or> (i = 0 \<and> (seq \<noteq> ref_seq ref \<or> \<not> is_requested e)) \<or> (0 < i \<and> is_requested e)
           then Inl (Error ''Operation index differs from its acceptance'') else Inr r
       | _ \<Rightarrow> Inl SchemaError))"

definition sqlReadOperation :: "journal_codec \<Rightarrow> effect_ref \<Rightarrow> int \<Rightarrow> 'k journal_tables \<Rightarrow> runtime_error + recorded list" where
  "sqlReadOperation cd ref position t =
     (if \<not> ref_ok ref then Inl SchemaError
      else if \<not> safe_integer position \<or> position < 0 then Inl (Error ''Invalid journal position'')
      else try_bind (readPosition t) (\<lambda>n.
        if int n < position then Inl (Error ''Operation position exceeds journal length'')
        else (case filter (\<lambda>seq. seq < nat position) (lifecycle_rows (ref_atom ref) (ref_act ref) (ref_seq ref) t) of
            [] \<Rightarrow> (case (if ref_seq ref < nat position then map_of (jt_events t) (ref_seq ref) else None) of
                None \<Rightarrow> Inr []
              | Some text \<Rightarrow> try_bind (readSqlJournalRecord cd t (ref_seq ref, text)) (\<lambda>r. case rec_event r of
                  Core (EffectRequested q) \<Rightarrow> if requested_ok q \<and> rq_ref q = ref then Inl (Error ''Operation index is missing journal records'') else Inr []
                | _ \<Rightarrow> Inr []))
          | seq # seqs \<Rightarrow> map_try (operation_row cd t ref) (enumerate 0 (seq # seqs)))))"

definition sqlLookupRows :: "journal_codec \<Rightarrow> invocation_identity \<Rightarrow> 'k journal_tables \<Rightarrow> runtime_error + recorded list" where
  "sqlLookupRows cd i t = (case map_of (jt_requests t) (ii_atom i, ii_act i, origin_column (ii_origin i)) of
     None \<Rightarrow> Inr []
   | Some ref \<Rightarrow> let rows = map (joined t) (lifecycle_rows (ii_atom i) (ii_act i) ref t) in
       if rows = [] \<or> (\<exists>row\<in>set rows. snd row = None) then Inl (Error ''Invocation index is missing journal records'')
       else map_try (read_joined cd t ''Invocation index is missing journal records'') rows)"

definition readMessage :: "journal_codec \<Rightarrow> string \<Rightarrow> 'k journal_tables \<Rightarrow> runtime_error + (nat \<times> recorded) option" where
  "readMessage cd key t = (case Option.bind (map_of (jt_messages t) key) (\<lambda>seq. map_option (Pair seq) (map_of (jt_events t) seq)) of
     None \<Rightarrow> Inr None
   | Some row \<Rightarrow> if \<not> safe_integer (int (fst row)) then Inl (Error ''Invalid message journal sequence'')
       else try_bind (readSqlJournalRecord cd t row) (\<lambda>r.
         if map_option mm_id (rm_message r) \<noteq> Some key then Inl (Error ''Message index differs from its journal record'')
         else Inr (Some (Suc (fst row), r))))"

definition readFirst :: "journal_codec \<Rightarrow> 'k journal_tables \<Rightarrow> runtime_error + recorded option" where
  "readFirst cd t = (case sort_key fst (jt_events t) of
     [] \<Rightarrow> Inr None
   | row # _ \<Rightarrow> if fst row \<noteq> 0 then Inl (Error ''Invalid first journal sequence'') else try_bind (readSqlJournalRecord cd t row) (\<lambda>r. Inr (Some r)))"

text \<open>\<open>json_extract\<close> of the type of a row's event.\<close>

fun row_type :: "journal_codec \<Rightarrow> row_text \<Rightarrow> string option" where
  "row_type cd (RecordText text) = (case jc_parse cd text of Inl _ \<Rightarrow> None | Inr r \<Rightarrow> event_type (rec_event r))"
| "row_type cd (ChunkedText type _ _) = type"

record journal_version =
  jv_position :: nat
  jv_pendingEffects :: nat
  jv_version :: "string option"

fun lifecycle_version :: "journal_event \<Rightarrow> runtime_error + string option" where
  "lifecycle_version (Core (ThreadCreated c)) = (if thread_created_ok c then Inr (created_version c) else Inl SchemaError)"
| "lifecycle_version (Core (ThreadUpdated v)) = (if v \<noteq> [] then Inr (Some v) else Inl SchemaError)"
| "lifecycle_version _ = Inl SchemaError"

definition readVersion :: "journal_codec \<Rightarrow> 'k journal_tables \<Rightarrow> runtime_error + journal_version" where
  "readVersion cd t = try_bind (readPosition t) (\<lambda>n.
     let view = (\<lambda>v. \<lparr>jv_position = n, jv_pendingEffects = length (jt_inputs t), jv_version = v\<rparr>) in
     case rev (sort_key fst (filter (\<lambda>row. row_type cd (snd row) \<in> {Some ''ThreadCreated'', Some ''ThreadUpdated''}) (jt_events t))) of
       [] \<Rightarrow> Inr (view None)
     | row # _ \<Rightarrow> try_bind (readSqlJournalRecord cd t row) (\<lambda>r. try_bind (lifecycle_version (rec_event r)) (\<lambda>v. Inr (view v))))"

definition input_chunks :: "string \<Rightarrow> 'k journal_tables \<Rightarrow> checkpoint_chunk list" where
  "input_chunks key t = chunks_of key (jt_inputChunks t)"

definition read_input :: "journal_codec \<Rightarrow> 'k journal_tables \<Rightarrow> string \<times> input_row \<Rightarrow> runtime_error + pending_input" where
  "read_input cd t row = (case row of (key, r) \<Rightarrow>
     try_bind (decodeCheckpointChunks (input_chunks key t) (ir_byteLength r) (ir_chunkCount r)) (\<lambda>payload.
       if jc_digest cd payload \<noteq> ir_digest r then Inl (Error ''Pending effect input digest mismatch'')
       else try_bind (jc_inputParse cd payload) (\<lambda>i.
         if effectKey (pi_ref i) \<noteq> key \<or> ref_act (pi_ref i) \<noteq> er_act (pi_request i) then Inl (Error ''Pending effect input identity mismatch'')
         else Inr i)))"

definition readInputs :: "journal_codec \<Rightarrow> 'k journal_tables \<Rightarrow> runtime_error + pending_input list" where
  "readInputs cd t = map_try (read_input cd t) (jt_inputs t)"

section \<open>Reads of families\<close>

definition family_covers :: "'k journal_family \<Rightarrow> nat \<Rightarrow> 'k journal_tables \<Rightarrow> bool" where
  "family_covers f n t = (case family_position f t of None \<Rightarrow> False | Some p \<Rightarrow> n \<le> p)"

definition key_rows :: "'k journal_family \<Rightarrow> 'k \<Rightarrow> nat \<Rightarrow> nat \<Rightarrow> bool \<Rightarrow> 'k journal_tables \<Rightarrow> nat list" where
  "key_rows f key lower upper desc t = (let seqs = sort (map (\<lambda>(_, _, seq). seq)
       (filter (\<lambda>(name, k, seq). name = jf_name f \<and> k = key \<and> lower \<le> seq \<and> seq < upper) (jt_keys t))) in
     if desc then rev seqs else seqs)"

definition family_row :: "journal_codec \<Rightarrow> 'k journal_family \<Rightarrow> 'k \<Rightarrow> 'k journal_tables \<Rightarrow> nat \<Rightarrow> runtime_error + nat \<times> recorded" where
  "family_row cd f key t seq =
     try_bind (read_joined cd t ''Family index is missing journal records'' (joined t seq)) (\<lambda>r. try_bind (jf_key f r seq) (\<lambda>k.
       if k \<noteq> Some key then Inl (Error ''Family index differs from its journal record'') else Inr (seq, r)))"

definition readPage :: "journal_codec \<Rightarrow> nat \<Rightarrow> 'k journal_family \<Rightarrow> 'k \<Rightarrow> nat \<Rightarrow> nat \<Rightarrow> bool \<Rightarrow> 'k journal_tables \<Rightarrow> runtime_error + (nat \<times> recorded) list" where
  "readPage cd batch f key lower upper desc t =
     (if \<not> family_covers f upper t then Inl (Error ''Family index does not cover the requested journal range'')
      else map_try (family_row cd f key t) (take batch (key_rows f key lower upper desc t)))"

text \<open>Following the pages of a key: each starts after the last row of the one before.\<close>

lemma readPage_rows:
  assumes "readPage cd batch f key lower upper desc t = Inr page"
  shows "map fst page = take batch (key_rows f key lower upper desc t)"
proof -
  from assms have "map (family_row cd f key t) (take batch (key_rows f key lower upper desc t)) = map Inr page"
    by (auto simp: readPage_def map_try_Inr_iff split: if_splits)
  moreover have "family_row cd f key t seq = Inr x \<Longrightarrow> fst x = seq" for seq x
    by (auto simp: family_row_def split: if_splits)
  ultimately show ?thesis
    by (intro nth_equalityI) (metis length_map, metis length_map nth_map)
qed

lemma key_rows_within: "seq \<in> set (key_rows f key lower upper desc t) \<Longrightarrow> lower \<le> seq \<and> seq < upper"
  by (auto simp: key_rows_def Let_def split: if_splits)

lemma readPage_last:
  assumes "readPage cd batch f key lower upper desc t = Inr page" "page \<noteq> []"
  shows "lower \<le> fst (last page) \<and> fst (last page) < upper"
proof -
  have "fst (last page) \<in> set (map fst page)" using assms(2) by simp
  then have "fst (last page) \<in> set (key_rows f key lower upper desc t)"
    unfolding readPage_rows [OF assms(1)] by (rule in_set_takeD)
  then show ?thesis by (rule key_rows_within)
qed

function family_pages :: "journal_codec \<Rightarrow> nat \<Rightarrow> 'k journal_family \<Rightarrow> 'k \<Rightarrow> nat \<Rightarrow> nat \<Rightarrow> bool \<Rightarrow> 'k journal_tables \<Rightarrow> runtime_error + (nat \<times> recorded) list" where
  "family_pages cd batch f key lower upper desc t = (if lower < upper then (case readPage cd batch f key lower upper desc t of
       Inl e \<Rightarrow> Inl e
     | Inr page \<Rightarrow> if page = [] then Inr [] else
         (case family_pages cd batch f key (if desc then lower else Suc (fst (last page))) (if desc then fst (last page) else upper) desc t of
           Inl e \<Rightarrow> Inl e
         | Inr rest \<Rightarrow> Inr (page @ rest)))
     else Inr [])"
  by pat_completeness auto

termination
  by (relation "measure (\<lambda>(cd, batch, f, key, lower, upper, desc, t). upper - lower)") (use readPage_last in fastforce)+

declare family_pages.simps [simp del]

definition readFamily :: "journal_codec \<Rightarrow> journal_options \<Rightarrow> 'k journal_family \<Rightarrow> 'k \<Rightarrow> int \<Rightarrow> int \<Rightarrow> bool \<Rightarrow> 'k sql_journal \<Rightarrow>
    (journal_error + (nat \<times> recorded) list) \<times> 'k sql_journal" where
  "readFamily cd opts f key lower upper desc s =
     (if \<not> safe_integer lower \<or> \<not> safe_integer upper \<or> lower < 0 \<or> upper < lower then (Inl (Failed (Error ''Invalid journal family range'')), s)
      else case readPosition (sj_tables s) of
        Inl e \<Rightarrow> (Inl (Failed e), s)
      | Inr n \<Rightarrow> if int n < upper then (Inl (Failed (Error ''Journal family range is unavailable'')), s)
          else (case prepare cd opts f n s of
            (Inl e, s) \<Rightarrow> (Inl e, s)
          | (Inr _, s) \<Rightarrow> (of_runtime (family_pages cd (jo_familyBatch opts) f key (nat lower) (nat upper) desc (sj_tables s)), s)))"

definition readKeys :: "('k :: linorder) journal_family \<Rightarrow> 'k option \<Rightarrow> nat \<Rightarrow> nat \<Rightarrow> 'k journal_tables \<Rightarrow> runtime_error + 'k list" where
  "readKeys f after limit position t =
     (if \<not> family_covers f position t then Inl (Error ''Family index does not cover the requested key range'')
      else Inr (take limit (sort (remdups (map (\<lambda>(_, k, _). k) (filter (\<lambda>(name, k, seq). name = jf_name f \<and>
        (case after of None \<Rightarrow> True | Some a \<Rightarrow> a < k) \<and> seq < position) (jt_keys t)))))))"

definition readFamilyKeys :: "journal_codec \<Rightarrow> journal_options \<Rightarrow> ('k :: linorder) journal_family \<Rightarrow> 'k option \<Rightarrow> int \<Rightarrow> int \<Rightarrow> 'k sql_journal \<Rightarrow>
    (journal_error + 'k list) \<times> 'k sql_journal" where
  "readFamilyKeys cd opts f after limit position s =
     (if \<not> safe_integer limit \<or> limit < 1 \<or> \<not> safe_integer position \<or> position < 0 then (Inl (Failed (Error ''Invalid journal family key range'')), s)
      else case readPosition (sj_tables s) of
        Inl e \<Rightarrow> (Inl (Failed e), s)
      | Inr n \<Rightarrow> if int n < position then (Inl (Failed (Error ''Journal family key range is unavailable'')), s)
          else (case prepare cd opts f n s of
            (Inl e, s) \<Rightarrow> (Inl e, s)
          | (Inr _, s) \<Rightarrow> (of_runtime (readKeys f after (nat limit) (nat position) (sj_tables s)), s)))"

end
