(* ===== verification/SqlFacts.thy ===== *)
theory SqlFacts
  imports SqlJournal
begin

text \<open>
  What the tables of an SQL journal hold: \<open>stores\<close> says that they hold a list of records, \<open>indexed\<close> that the
  index of invocations is the one of its prefix, \<open>messages_ok\<close> the same of the index of messages. Appending
  keeps these, and the reads give what the list has.
\<close>

section \<open>Records\<close>

definition stored_row :: "'k journal_tables \<Rightarrow> nat \<Rightarrow> nat \<times> row_text" where
  "stored_row t i = (i, snd (jt_events t ! i))"

definition stores :: "journal_codec \<Rightarrow> 'k journal_tables \<Rightarrow> recorded list \<Rightarrow> bool" where
  "stores cd t rs \<longleftrightarrow> map fst (jt_events t) = [0..<length rs] \<and> (\<forall>i < length rs. readSqlJournalRecord cd t (stored_row t i) = Inr (rs ! i)) \<and>
     (\<forall>row\<in>set (jt_chunks t). fst (fst row) < length rs)"

lemma stores_length: "stores cd t rs \<Longrightarrow> length (jt_events t) = length rs"
  unfolding stores_def by (metis length_map length_upt diff_zero)

lemma stores_rows:
  assumes "stores cd t rs"
  shows "jt_events t = map (stored_row t) [0..<length rs]"
proof (rule nth_equalityI)
  show "length (jt_events t) = length (map (stored_row t) [0..<length rs])" using stores_length [OF assms] by simp
  fix i
  assume i: "i < length (jt_events t)"
  have "map fst (jt_events t) ! i = i" using assms i stores_length [OF assms] by (simp add: stores_def)
  with i have "fst (jt_events t ! i) = i" by simp
  then have "jt_events t ! i = stored_row t i" by (simp add: stored_row_def prod_eq_iff)
  then show "jt_events t ! i = map (stored_row t) [0..<length rs] ! i" using i stores_length [OF assms] by simp
qed

lemma table_length_stores [simp]: "stores cd t rs \<Longrightarrow> table_length t = length rs"
  by (cases "length rs") (simp_all add: stores_def table_length_def sorted_sort_id del: upt_Suc, simp)

lemma fst_stored_row [simp]: "fst (stored_row t i) = i"
  by (simp add: stored_row_def)

lemma select_stores:
  assumes "stores cd t rs" "upper \<le> length rs"
  shows "select_range lower upper t = map (stored_row t) [lower..<upper]"
proof -
  have "filter (\<lambda>i. lower \<le> i \<and> i < upper) [0..<length rs] = [lower..<upper]"
  proof (cases "lower \<le> upper")
    case True
    have "[0..<length rs] = [0..<lower] @ [lower..<upper] @ [upper..<length rs]"
      using True assms(2) by (metis upt_add_eq_append le_add_diff_inverse le0 le_trans)
    then show ?thesis by (simp add: filter_empty_conv)
  next
    case False
    then show ?thesis by (auto simp: filter_empty_conv)
  qed
  then have "filter (\<lambda>row. lower \<le> fst row \<and> fst row < upper) (jt_events t) = map (stored_row t) [lower..<upper]"
    by (subst stores_rows [OF assms(1)]) (simp add: filter_map comp_def)
  moreover have "sort_key fst (map (stored_row t) [lower..<upper]) = map (stored_row t) [lower..<upper]"
    by (rule sort_key_sorted) (simp add: comp_def)
  ultimately show ?thesis by (simp add: select_range_def)
qed

lemma map_of_stores:
  assumes "stores cd t rs"
  shows "map_of (jt_events t) i = (if i < length rs then Some (snd (stored_row t i)) else None)"
proof -
  have "map_of (map (stored_row t) is) i = (if i \<in> set is then Some (snd (stored_row t i)) else None)" for "is"
    by (induction "is") (auto simp: stored_row_def)
  then show ?thesis by (subst stores_rows [OF assms]) simp
qed

lemma read_stores: "stores cd t rs \<Longrightarrow> i < length rs \<Longrightarrow> readSqlJournalRecord cd t (i, snd (stored_row t i)) = Inr (rs ! i)"
  by (simp add: stores_def stored_row_def)

lemma read_joined_stores: "stores cd t rs \<Longrightarrow> i < length rs \<Longrightarrow> read_joined cd t message (joined t i) = Inr (rs ! i)"
  by (simp add: read_joined_def joined_def map_of_stores read_stores)

text \<open>The reads of a range and of single records.\<close>

lemma readPosition_stores: "stores cd t rs \<Longrightarrow> safe_integer (int (length rs)) \<Longrightarrow> readPosition t = Inr (length rs)"
  by (simp add: readPosition_def)

lemma readRange_stores:
  assumes "stores cd t rs" "safe_integer (int (length rs))" "lower \<le> upper" "upper \<le> length rs"
  shows "readRange cd (int lower) (int upper) t = Inr (take (upper - lower) (drop lower rs))"
proof -
  have rows: "map_try (\<lambda>(i, row). if fst row \<noteq> lower + i then Inl (Error ''Invalid journal sequence'') else readSqlJournalRecord cd t row)
      (enumerate 0 (map (stored_row t) [lower..<upper])) = Inr (take (upper - lower) (drop lower rs))"
    unfolding map_try_Inr_iff
  proof (rule nth_equalityI)
    show "length (map (\<lambda>(i, row). if fst row \<noteq> lower + i then Inl (Error ''Invalid journal sequence'') else readSqlJournalRecord cd t row)
        (enumerate 0 (map (stored_row t) [lower..<upper]))) = length (map Inr (take (upper - lower) (drop lower rs)))"
      using assms(3,4) by simp
    fix i
    assume "i < length (map (\<lambda>(i, row). if fst row \<noteq> lower + i then Inl (Error ''Invalid journal sequence'') else readSqlJournalRecord cd t row)
        (enumerate 0 (map (stored_row t) [lower..<upper])))"
    then have "i < upper - lower" by simp
    with assms(3,4) read_stores [OF assms(1), of "lower + i"]
    show "map (\<lambda>(i, row). if fst row \<noteq> lower + i then Inl (Error ''Invalid journal sequence'') else readSqlJournalRecord cd t row)
        (enumerate 0 (map (stored_row t) [lower..<upper])) ! i = map Inr (take (upper - lower) (drop lower rs)) ! i"
      by (simp add: nth_enumerate_eq stored_row_def)
  qed
  have "safe_integer (int lower)" "safe_integer (int upper)" using assms(2-4) by (simp_all add: safe_integer_def)
  with assms rows show ?thesis
    by (simp add: readRange_def readPosition_stores [OF assms(1,2)] select_stores [OF assms(1,4)] Let_def)
qed

section \<open>Inserting a record\<close>

definition lifecycle_entry :: "nat \<Rightarrow> recorded \<Rightarrow> (string \<times> string \<times> nat \<times> nat) list" where
  "lifecycle_entry i r = (case rec_event r of
     Core e \<Rightarrow> (case event_ref e of None \<Rightarrow> [] | Some ref \<Rightarrow> [(ref_atom ref, ref_act ref, ref_seq ref, i)])
   | _ \<Rightarrow> [])"

definition request_entry :: "nat \<Rightarrow> recorded \<Rightarrow> ((string \<times> string \<times> int) \<times> nat) list" where
  "request_entry i r = (case rec_event r of
     Core (EffectRequested q) \<Rightarrow> [((ref_atom (rq_ref q), ref_act (rq_ref q), origin_column (rq_origin q)), i)]
   | _ \<Rightarrow> [])"

definition message_entry :: "nat \<Rightarrow> recorded \<Rightarrow> (string \<times> nat) list" where
  "message_entry i r = (case rm_message r of None \<Rightarrow> [] | Some m \<Rightarrow> [(mm_id m, i)])"

text \<open>What the index accepts at a position.\<close>

definition indexable :: "nat \<Rightarrow> recorded \<Rightarrow> bool" where
  "indexable i r \<longleftrightarrow> (case rec_event r of
     Core e \<Rightarrow> (case event_ref e of None \<Rightarrow> True | Some _ \<Rightarrow> core_event_ok e) \<and> (case e of EffectRequested q \<Rightarrow> ref_seq (rq_ref q) = i | _ \<Rightarrow> True)
   | Domain (JObj m) \<Rightarrow> \<not> (hasCoreEventType (JObj m) \<and> fmlookup m ''ref'' \<noteq> None)
   | _ \<Rightarrow> True)"

lemma index_record_Inr:
  "indexInvocationRecord i r t = Inr t' \<longleftrightarrow> indexable i r \<and> (\<forall>k\<in>set (map fst (request_entry i r)). map_of (jt_requests t) k = None) \<and>
     set (lifecycle_entry i r) \<inter> set (jt_lifecycle t) = {} \<and>
     t' = t\<lparr>jt_requests := jt_requests t @ request_entry i r, jt_lifecycle := jt_lifecycle t @ lifecycle_entry i r\<rparr>"
proof (cases "rec_event r")
  case (Core e)
  then show ?thesis
    by (cases e) (auto simp: indexInvocationRecord_def indexable_def request_entry_def lifecycle_entry_def insert_lifecycle_Inr insert_request_Inr)
next
  case (Domain j)
  then show ?thesis
    by (cases j) (auto simp: indexInvocationRecord_def indexable_def request_entry_def lifecycle_entry_def)
qed (auto simp: indexInvocationRecord_def indexable_def request_entry_def lifecycle_entry_def)

lemma sql_insert_Inr: "sql_insert k v table = Inr table' \<longleftrightarrow> map_of table k = None \<and> table' = table @ [(k, v)]"
  by (auto simp: sql_insert_def)

lemma insert_message_Inr: "insert_message i r t = Inr t' \<longleftrightarrow> (\<forall>k\<in>set (map fst (message_entry i r)). map_of (jt_messages t) k = None) \<and>
    t' = t\<lparr>jt_messages := jt_messages t @ message_entry i r\<rparr>"
  by (auto simp: insert_message_def message_entry_def sql_insert_Inr split: option.split)

lemma insert_chunk_Inr: "insert_chunk seq c t = Inr t' \<longleftrightarrow> map_of (jt_chunks t) (seq, ck_ordinal c) = None \<and>
    t' = t\<lparr>jt_chunks := jt_chunks t @ [((seq, ck_ordinal c), ck_payload c)]\<rparr>"
  by (auto simp: insert_chunk_def sql_insert_Inr)

lemma insert_chunks_Inr: "fold_try (insert_chunk seq) chunks t = Inr t' \<Longrightarrow> t' = t\<lparr>jt_chunks := jt_chunks t @ chunk_rows seq chunks\<rparr>"
proof (induction chunks arbitrary: t)
  case (Cons c chunks)
  then have "fold_try (insert_chunk seq) chunks (t\<lparr>jt_chunks := jt_chunks t @ [((seq, ck_ordinal c), ck_payload c)]\<rparr>) = Inr t'"
    by (auto simp: insert_chunk_Inr)
  from Cons.IH [OF this] show ?case by (simp add: chunk_rows_def)
qed (simp add: chunk_rows_def)

lemma insert_event_Inr:
  assumes "insert_event seq (r, text, chunks) t = Inr t'"
  shows "indexable seq r" "\<forall>k\<in>set (map fst (request_entry seq r)). map_of (jt_requests t) k = None"
    "\<forall>k\<in>set (map fst (message_entry seq r)). map_of (jt_messages t) k = None"
    "t' = t\<lparr>jt_events := jt_events t @ [(seq, text)], jt_chunks := jt_chunks t @ chunk_rows seq chunks, jt_messages := jt_messages t @ message_entry seq r,
      jt_requests := jt_requests t @ request_entry seq r, jt_lifecycle := jt_lifecycle t @ lifecycle_entry seq r\<rparr>"
  using assms by (auto simp: insert_event_def sql_insert_Inr insert_message_Inr index_record_Inr dest!: insert_chunks_Inr)

text \<open>A codec restores the records it wrote, within the sizes that the code can count.\<close>

definition codec_ok :: "journal_codec \<Rightarrow> recorded \<Rightarrow> bool" where
  "codec_ok cd r \<longleftrightarrow> jc_parse cd (jc_text cd r) = Inr r \<and> safe_integer (int (length (jc_text cd r)))"

lemma encode_record_Inr:
  assumes "encode_record cd opts r = Inr (text, chunks)"
  shows "(text = RecordText (jc_text cd r) \<and> chunks = []) \<or>
    (\<exists>type n. text = ChunkedText type (length chunks) (length (jc_text cd r)) \<and> encodeCheckpointChunks (jc_text cd r) n = Inr chunks)"
  using assms by (auto simp: encode_record_def Let_def split: if_splits)

lemma read_record_cong:
  "record_chunks i t' = record_chunks i t \<Longrightarrow> readSqlJournalRecord cd t' (i, stored) = readSqlJournalRecord cd t (i, stored)"
  by (cases stored) simp_all

lemma read_encoded:
  assumes "encode_record cd opts r = Inr (text, chunks)" "codec_ok cd r" "chunks \<noteq> [] \<Longrightarrow> record_chunks seq t = chunks"
    "chunks = [] \<Longrightarrow> record_chunks seq t = []"
  shows "readSqlJournalRecord cd t (seq, text) = Inr r"
  using encode_record_Inr [OF assms(1)]
proof (elim disjE exE conjE)
  fix type n
  assume stored: "text = ChunkedText type (length chunks) (length (jc_text cd r))" and "encodeCheckpointChunks (jc_text cd r) n = Inr chunks"
  with chunks_round_trip [of "jc_text cd r" n chunks] assms(2)
  have "decodeCheckpointChunks chunks (length (jc_text cd r)) (length chunks) = Inr (jc_text cd r)" by (simp add: codec_ok_def)
  moreover have "record_chunks seq t = chunks" using assms(3,4) by (cases chunks) simp_all
  ultimately show ?thesis using assms(2) stored by (simp add: codec_ok_def)
qed (use assms(2) in \<open>simp add: codec_ok_def\<close>)

lemma insert_event_stores:
  assumes "stores cd t rs" "encode_record cd opts r = Inr (text, chunks)" "codec_ok cd r" "insert_event (length rs) (r, text, chunks) t = Inr t'"
  shows "stores cd t' (rs @ [r])"
proof -
  let ?n = "length rs"
  note t' = insert_event_Inr(4) [OF assms(4)]
  have chunks: "record_chunks i t' = chunks_of i (jt_chunks t @ chunk_rows ?n chunks)" "record_chunks i t = chunks_of i (jt_chunks t)" for i
    by (simp_all add: t' record_chunks_def)
  have old: "\<forall>row\<in>set (jt_chunks t). fst (fst row) < ?n" using assms(1) by (simp add: stores_def)
  have ordinals: "map ck_ordinal chunks = [0..<length chunks]"
    using encode_record_Inr [OF assms(2)] encode_chunks_ordinals by auto
  have events: "length (jt_events t) = ?n" by (rule stores_length [OF assms(1)])
  have "readSqlJournalRecord cd t' (stored_row t' i) = Inr ((rs @ [r]) ! i)" if "i < Suc ?n" for i
  proof (cases "i < ?n")
    case True
    then have "record_chunks i t' = record_chunks i t" using chunks_of_other [of i ?n] by (simp add: chunks)
    moreover have "stored_row t' i = (i, snd (jt_events t ! i))" using True events by (simp add: stored_row_def t' nth_append)
    ultimately show ?thesis
      using read_record_cong [of i t' t cd "snd (jt_events t ! i)"] True assms(1) by (simp add: stores_def stored_row_def nth_append)
  next
    case False
    with that have "i = ?n" by simp
    moreover have "record_chunks ?n t' = chunks"
      unfolding chunks(1) using old ordinals by (intro chunks_of_new) auto
    moreover have "stored_row t' ?n = (?n, text)" using events by (simp add: stored_row_def t' nth_append)
    ultimately show ?thesis using read_encoded [OF assms(2,3), of ?n t'] by simp
  qed
  moreover have "\<forall>row\<in>set (jt_chunks t'). fst (fst row) < Suc ?n"
    using old by (auto simp: t' chunk_rows_def)
  moreover have "map fst (jt_events t') = [0..<Suc ?n]" using assms(1) by (simp add: t' stores_def)
  ultimately show ?thesis by (simp add: stores_def)
qed

section \<open>What the indexes hold\<close>

definition entries_of :: "(nat \<Rightarrow> recorded \<Rightarrow> 'a list) \<Rightarrow> recorded list \<Rightarrow> 'a list" where
  "entries_of f rs = concat (map (\<lambda>i. f i (rs ! i)) [0..<length rs])"

lemma entries_of_Nil [simp]: "entries_of f [] = []"
  by (simp add: entries_of_def)

lemma entries_of_snoc [simp]: "entries_of f (rs @ [r]) = entries_of f rs @ f (length rs) r"
proof -
  have "map (\<lambda>i. f i ((rs @ [r]) ! i)) [0..<length rs] = map (\<lambda>i. f i (rs ! i)) [0..<length rs]"
    by (intro map_cong) (simp_all add: nth_append)
  moreover have "entries_of f (rs @ [r]) = concat (map (\<lambda>i. f i ((rs @ [r]) ! i)) [0..<length rs]) @ f (length rs) r"
    by (simp add: entries_of_def)
  ultimately show ?thesis by (simp only: entries_of_def)
qed

lemma entries_of_take_Suc: "p < length rs \<Longrightarrow> entries_of f (take (Suc p) rs) = entries_of f (take p rs) @ f p (rs ! p)"
  by (simp add: take_Suc_conv_app_nth)

lemma set_entries_of: "x \<in> set (entries_of f rs) \<longleftrightarrow> (\<exists>i < length rs. x \<in> set (f i (rs ! i)))"
  by (auto simp: entries_of_def)

definition indexed :: "'k journal_tables \<Rightarrow> recorded list \<Rightarrow> bool" where
  "indexed t rs \<longleftrightarrow> jt_lifecycle t = entries_of lifecycle_entry rs \<and> jt_requests t = entries_of request_entry rs \<and>
     distinct (map fst (jt_requests t)) \<and> (\<forall>i < length rs. indexable i (rs ! i))"

definition messages_ok :: "'k journal_tables \<Rightarrow> recorded list \<Rightarrow> bool" where
  "messages_ok t rs \<longleftrightarrow> jt_messages t = entries_of message_entry rs \<and> distinct (map fst (jt_messages t))"

lemma request_entry_single: "\<exists>x. request_entry i r \<in> {[], [x]}" "\<exists>x. message_entry i r \<in> {[], [x]}"
  by (auto simp: request_entry_def message_entry_def split: journal_event.split core_event.split option.split)

lemma distinct_snoc_entry:
  "\<exists>x. entry \<in> {[], [x]} \<Longrightarrow> distinct (map fst table) \<Longrightarrow> \<forall>k\<in>set (map fst entry). map_of table k = None \<Longrightarrow> distinct (map fst (table @ entry))"
  by (force simp: map_of_eq_None_iff)

lemma index_record_indexed:
  assumes "indexed t (take p rs)" "p < length rs" "indexInvocationRecord p (rs ! p) t = Inr t'"
  shows "indexed t' (take (Suc p) rs)"
  using assms distinct_snoc_entry [OF request_entry_single(1), of "jt_requests t" p "rs ! p"]
  by (auto simp: indexed_def index_record_Inr entries_of_take_Suc less_Suc_eq)

lemma insert_event_indexed:
  assumes "indexed t rs" "messages_ok t rs" "insert_event (length rs) (r, text, chunks) t = Inr t'"
  shows "indexed t' (rs @ [r])" "messages_ok t' (rs @ [r])"
proof -
  note inserted = insert_event_Inr [OF assms(3)]
  have requests: "distinct (map fst (jt_requests t @ request_entry (length rs) r))"
    using assms(1) unfolding indexed_def by (intro distinct_snoc_entry [OF request_entry_single(1) _ inserted(2)]) blast
  have messages: "distinct (map fst (jt_messages t @ message_entry (length rs) r))"
    using assms(2) unfolding messages_ok_def by (intro distinct_snoc_entry [OF request_entry_single(2) _ inserted(3)]) blast
  show "indexed t' (rs @ [r])"
    using assms(1) inserted(1) requests unfolding indexed_def by (simp add: inserted(4) nth_append All_less_Suc)
  show "messages_ok t' (rs @ [r])"
    using assms(2) messages unfolding messages_ok_def by (simp add: inserted(4))
qed

definition journal_core :: "journal_codec \<Rightarrow> 'k journal_tables \<Rightarrow> recorded list \<Rightarrow> bool" where
  "journal_core cd t rs \<longleftrightarrow> stores cd t rs \<and> indexed t rs \<and> messages_ok t rs"

text \<open>The other tables are those of families, inputs and the position of the index.\<close>

definition same_rest :: "'k journal_tables \<Rightarrow> 'k journal_tables \<Rightarrow> bool" where
  "same_rest t t' \<longleftrightarrow> jt_position t' = jt_position t \<and> jt_keys t' = jt_keys t \<and> jt_families t' = jt_families t \<and> jt_inputs t' = jt_inputs t \<and>
     jt_inputChunks t' = jt_inputChunks t"

lemma insert_events_core:
  assumes "journal_core cd t rs" "map_try (encode_record cd opts) new = Inr encoded" "\<forall>r\<in>set new. codec_ok cd r" "length rs = k + j"
    "fold_try (\<lambda>(i, e). insert_event (k + i) e) (enumerate j (zip new encoded)) t = Inr t'"
  shows "journal_core cd t' (rs @ new) \<and> same_rest t t'"
  using assms
proof (induction new arbitrary: rs t j encoded)
  case (Cons r new)
  from Cons.prems(2) obtain stored chunks rest where encoded: "encode_record cd opts r = Inr (stored, chunks)"
      "map_try (encode_record cd opts) new = Inr rest" "encoded = (stored, chunks) # rest" by auto
  with Cons.prems(5) obtain u where u: "insert_event (k + j) (r, stored, chunks) t = Inr u"
      "fold_try (\<lambda>(i, e). insert_event (k + i) e) (enumerate (Suc j) (zip new rest)) u = Inr t'" by auto
  note inserted = u(1) [folded Cons.prems(4)]
  have "journal_core cd u (rs @ [r])"
    using Cons.prems(1,3) insert_event_stores [OF _ encoded(1) _ inserted] insert_event_indexed [OF _ _ inserted]
    by (simp add: journal_core_def)
  from Cons.IH [OF this encoded(2) _ _ u(2)] Cons.prems(3,4) have "journal_core cd t' ((rs @ [r]) @ new) \<and> same_rest u t'" by simp
  moreover have "same_rest t u" by (simp add: insert_event_Inr(4) [OF u(1)] same_rest_def)
  ultimately show ?case by (simp add: same_rest_def)
qed (simp add: same_rest_def)

text \<open>Indexing rows of the table is indexing the records that they store.\<close>

lemma index_rows_fold:
  assumes "stores cd t rs" "q \<le> length rs" "\<And>i r u u'. index i r u = Inr u' \<Longrightarrow> stores cd u rs \<Longrightarrow> stores cd u' rs \<and> (\<forall>i < length rs. stored_row u' i = stored_row u i)"
    "\<forall>i < length rs. stored_row t0 i = stored_row t i" "p + j \<le> q"
  shows "fold_try (index_row cd message p index) (enumerate j (map (stored_row t0) [p + j..<q])) t = Inr t' \<longleftrightarrow>
    fold_try (\<lambda>i. index i (rs ! i)) [p + j..<q] t = Inr t'"
  using assms(1,4,5)
proof (induction "q - (p + j)" arbitrary: j t)
  case (Suc d)
  then have upt: "[p + j..<q] = (p + j) # [p + Suc j..<q]" by (simp add: upt_conv_Cons)
  have read: "readSqlJournalRecord cd t (stored_row t0 (p + j)) = Inr (rs ! (p + j))"
    using Suc assms(2) by (simp add: stores_def)
  show ?case
  proof (cases "index (p + j) (rs ! (p + j)) t")
    case (Inl e)
    with read show ?thesis unfolding upt by (simp add: index_row_def stored_row_def)
  next
    case (Inr u)
    with assms(3) Suc.prems(1) have u: "stores cd u rs" "\<forall>i < length rs. stored_row u i = stored_row t i" by blast+
    have "fold_try (index_row cd message p index) (enumerate (Suc j) (map (stored_row t0) [p + Suc j..<q])) u = Inr t' \<longleftrightarrow>
        fold_try (\<lambda>i. index i (rs ! i)) [p + Suc j..<q] u = Inr t'"
      by (rule Suc.hyps) (use Suc u in auto)
    with Inr read show ?thesis unfolding upt by (simp add: index_row_def stored_row_def)
  qed
qed simp

end
