(* ===== verification/SqlFamilies.thy ===== *)
theory SqlFamilies
  imports SqlFacts
begin

text \<open>
  The index of a family holds the keys of the records that it covers, whatever the batches in which it was
  built, the versions it had before and the families beside it. \<open>declared\<close> says that a family's name and
  version determine its keys, which is what the code asks of them.
\<close>

section \<open>The keys of a family\<close>

definition key_entry :: "'k journal_family \<Rightarrow> nat \<Rightarrow> recorded \<Rightarrow> (string \<times> 'k \<times> nat) list" where
  "key_entry f i r = (case jf_key f r i of Inr (Some k) \<Rightarrow> [(jf_name f, k, i)] | _ \<Rightarrow> [])"

definition keyed :: "'k journal_family \<Rightarrow> nat \<Rightarrow> recorded \<Rightarrow> bool" where
  "keyed f i r \<longleftrightarrow> (\<exists>k. jf_key f r i = Inr k)"

lemma index_family_Inr:
  "index_family f i r t = Inr t' \<longleftrightarrow> keyed f i r \<and> set (key_entry f i r) \<inter> set (jt_keys t) = {} \<and> t' = t\<lparr>jt_keys := jt_keys t @ key_entry f i r\<rparr>"
  by (auto simp: index_family_def key_entry_def keyed_def sql_add_def split: option.splits sum.splits)

lemma index_family_fold:
  assumes "fold_try (\<lambda>i. index_family f i (rs ! i)) [p..<q] t = Inr t'" "p \<le> q"
  shows "t' = t\<lparr>jt_keys := jt_keys t @ concat (map (\<lambda>i. key_entry f i (rs ! i)) [p..<q])\<rparr> \<and> (\<forall>i. p \<le> i \<and> i < q \<longrightarrow> keyed f i (rs ! i))"
  using assms
proof (induction "q - p" arbitrary: p t)
  case (Suc d)
  then have upt: "[p..<q] = p # [Suc p..<q]" by (simp add: upt_conv_Cons)
  with Suc.prems obtain u where u: "index_family f p (rs ! p) t = Inr u" "fold_try (\<lambda>i. index_family f i (rs ! i)) [Suc p..<q] u = Inr t'" by auto
  have "t' = u\<lparr>jt_keys := jt_keys u @ concat (map (\<lambda>i. key_entry f i (rs ! i)) [Suc p..<q])\<rparr> \<and> (\<forall>i. Suc p \<le> i \<and> i < q \<longrightarrow> keyed f i (rs ! i))"
    by (rule Suc.hyps(1)) (use Suc.hyps(2) Suc.prems(2) u(2) in auto)
  then have t': "t' = u\<lparr>jt_keys := jt_keys u @ concat (map (\<lambda>i. key_entry f i (rs ! i)) [Suc p..<q])\<rparr>"
    and rest: "\<And>i. Suc p \<le> i \<Longrightarrow> i < q \<Longrightarrow> keyed f i (rs ! i)" by blast+
  from u(1) have first: "keyed f p (rs ! p)" "u = t\<lparr>jt_keys := jt_keys t @ key_entry f p (rs ! p)\<rparr>" by (simp_all add: index_family_Inr)
  have "keyed f i (rs ! i)" if "p \<le> i" "i < q" for i using first(1) rest [of i] that by (cases "i = p") simp_all
  then show ?case unfolding upt by (simp add: t' first(2))
qed auto

definition family_indexed :: "'k journal_family \<Rightarrow> 'k journal_tables \<Rightarrow> recorded list \<Rightarrow> bool" where
  "family_indexed f t rs \<longleftrightarrow> filter (\<lambda>(name, _). name = jf_name f) (jt_keys t) = entries_of (key_entry f) rs \<and> (\<forall>i < length rs. keyed f i (rs ! i))"

lemma filter_entries: "filter (\<lambda>(name, _). name = n) (concat (map (\<lambda>i. key_entry f i (rs ! i)) is)) =
    (if jf_name f = n then concat (map (\<lambda>i. key_entry f i (rs ! i)) is) else [])"
  by (induction "is") (auto simp: key_entry_def split: sum.split option.split)

lemma entries_of_extend:
  assumes "p \<le> q" "q \<le> length rs"
  shows "entries_of f (take q rs) = entries_of f (take p rs) @ concat (map (\<lambda>i. f i (rs ! i)) [p..<q])"
proof -
  have prefix: "entries_of f (take m rs) = concat (map (\<lambda>i. f i (rs ! i)) [0..<m])" if "m \<le> length rs" for m
    unfolding entries_of_def by (rule arg_cong [where f = concat]) (use that in \<open>simp add: min_def\<close>)
  have "[0..<q] = [0..<p] @ [p..<q]" using assms(1) upt_add_eq_append [of 0 p "q - p"] by simp
  then show ?thesis using assms by (simp add: prefix)
qed

lemma family_indexed_fold:
  assumes "family_indexed f t (take p rs)" "fold_try (\<lambda>i. index_family f i (rs ! i)) [p..<q] t = Inr t'" "p \<le> q" "q \<le> length rs"
  shows "family_indexed f t' (take q rs)"
    "name \<noteq> jf_name f \<Longrightarrow> filter (\<lambda>(n, _). n = name) (jt_keys t') = filter (\<lambda>(n, _). n = name) (jt_keys t)"
    "t' = t\<lparr>jt_keys := jt_keys t'\<rparr>"
proof -
  from index_family_fold [OF assms(2,3)] have
    t': "t' = t\<lparr>jt_keys := jt_keys t @ concat (map (\<lambda>i. key_entry f i (rs ! i)) [p..<q])\<rparr>" and
    keyed: "\<And>i. p \<le> i \<Longrightarrow> i < q \<Longrightarrow> keyed f i (rs ! i)" by blast+
  have old: "i < p \<Longrightarrow> keyed f i (rs ! i)" for i using assms(1,3,4) by (simp add: family_indexed_def)
  have "keyed f i (rs ! i)" if "i < q" for i using old [of i] keyed [of i] that by (cases "i < p") simp_all
  then show "family_indexed f t' (take q rs)"
    using assms(1) by (simp add: family_indexed_def t' filter_entries entries_of_extend [OF assms(3,4)])
  show "name \<noteq> jf_name f \<Longrightarrow> filter (\<lambda>(n, _). n = name) (jt_keys t') = filter (\<lambda>(n, _). n = name) (jt_keys t)"
    by (simp add: t' filter_entries)
  show "t' = t\<lparr>jt_keys := jt_keys t'\<rparr>" by (simp add: t')
qed

text \<open>Every index of the tables covers a prefix with the keys of the family of its name and version.\<close>

type_synonym 'k family_keys = "string \<Rightarrow> string \<Rightarrow> recorded \<Rightarrow> nat \<Rightarrow> runtime_error + 'k option"

definition family_of :: "'k family_keys \<Rightarrow> string \<Rightarrow> string \<Rightarrow> 'k journal_family" where
  "family_of defs name version = \<lparr>jf_name = name, jf_version = version, jf_key = defs name version\<rparr>"

definition declared :: "'k family_keys \<Rightarrow> 'k journal_family \<Rightarrow> bool" where
  "declared defs f \<longleftrightarrow> jf_key f = defs (jf_name f) (jf_version f)"

lemma family_of_declared: "declared defs f \<Longrightarrow> family_of defs (jf_name f) (jf_version f) = f"
  by (simp add: declared_def family_of_def)

lemma family_of_simps [simp]: "jf_name (family_of defs name version) = name" "jf_version (family_of defs name version) = version"
  by (simp_all add: family_of_def)

definition families_ok :: "'k family_keys \<Rightarrow> 'k journal_tables \<Rightarrow> recorded list \<Rightarrow> bool" where
  "families_ok defs t rs \<longleftrightarrow> (\<forall>name version p. map_of (jt_families t) name = Some (version, p) \<longrightarrow>
     p \<le> length rs \<and> family_indexed (family_of defs name version) t (take p rs))"

lemma families_okD:
  "families_ok defs t rs \<Longrightarrow> declared defs f \<Longrightarrow> family_position f t = Some p \<Longrightarrow> p \<le> length rs \<and> family_indexed f t (take p rs)"
proof -
  assume ok: "families_ok defs t rs" and f: "declared defs f" and "family_position f t = Some p"
  then have "map_of (jt_families t) (jf_name f) = Some (jf_version f, p)" by (auto simp: family_position_def split: option.splits if_splits)
  with ok have "p \<le> length rs \<and> family_indexed (family_of defs (jf_name f) (jf_version f)) t (take p rs)" unfolding families_ok_def by blast
  then show ?thesis by (simp only: family_of_declared [OF f])
qed

lemma families_ok_append: "families_ok defs t rs \<Longrightarrow> families_ok defs t (rs @ new)"
  by (force simp: families_ok_def)

lemma families_ok_cong: "jt_keys t' = jt_keys t \<Longrightarrow> jt_families t' = jt_families t \<Longrightarrow> families_ok defs t' rs = families_ok defs t rs"
  by (simp add: families_ok_def family_indexed_def)

text \<open>Indexing a family from its position, or from the start, up to another.\<close>

lemma families_ok_index:
  assumes "families_ok defs t rs" "declared defs f" "family_indexed f u (take p rs)"
    "\<And>name. name \<noteq> jf_name f \<Longrightarrow> filter (\<lambda>(n, _). n = name) (jt_keys u) = filter (\<lambda>(n, _). n = name) (jt_keys t)"
    "jt_families u = jt_families t" "fold_try (\<lambda>i. index_family f i (rs ! i)) [p..<q] u = Inr u'" "p \<le> q" "q \<le> length rs"
  shows "families_ok defs (set_family f q u') rs"
  unfolding families_ok_def
proof (intro allI impI)
  fix name version m
  assume entry: "map_of (jt_families (set_family f q u')) name = Some (version, m)"
  note fold = family_indexed_fold [OF assms(3,6,7,8)]
  have families: "jt_families u' = jt_families t" using arg_cong [OF fold(3), of jt_families] assms(5) by simp
  show "m \<le> length rs \<and> family_indexed (family_of defs name version) (set_family f q u') (take m rs)"
  proof (cases "name = jf_name f")
    case True
    with entry have "version = jf_version f" "m = q" by (simp_all add: set_family_def)
    with True fold(1) assms(2,8) show ?thesis by (simp add: family_of_declared set_family_def family_indexed_def)
  next
    case False
    with entry families have "map_of (jt_families t) name = Some (version, m)" by (simp add: set_family_def)
    with assms(1) have "m \<le> length rs" "family_indexed (family_of defs name version) t (take m rs)" by (auto simp: families_ok_def)
    with False fold(2) assms(4) show ?thesis by (simp add: family_indexed_def set_family_def)
  qed
qed

section \<open>Preparing a family\<close>

lemma index_family_rows:
  assumes "stores cd t rs" "q \<le> length rs" "p \<le> q" "jt_events t0 = jt_events t"
  shows "fold_try (index_row cd message p (index_family f)) (enumerate 0 (map (stored_row t0) [p..<q])) t = Inr t' \<longleftrightarrow>
    fold_try (\<lambda>i. index_family f i (rs ! i)) [p..<q] t = Inr t'"
proof -
  have step: "stores cd u' rs \<and> (\<forall>i < length rs. stored_row u' i = stored_row u i)" if "index_family f i r u = Inr u'" "stores cd u rs" for i r u u'
  proof -
    from that(1) have u': "u' = u\<lparr>jt_keys := jt_keys u @ key_entry f i r\<rparr>" by (simp add: index_family_Inr)
    then have "readSqlJournalRecord cd u' (j, x) = readSqlJournalRecord cd u (j, x)" for j x
      by (intro read_record_cong) (simp add: record_chunks_def)
    with that(2) show ?thesis by (simp add: stores_def stored_row_def u')
  qed
  have "fold_try (index_row cd message p (index_family f)) (enumerate 0 (map (stored_row t0) [p + 0..<q])) t = Inr t' \<longleftrightarrow>
      fold_try (\<lambda>i. index_family f i (rs ! i)) [p + 0..<q] t = Inr t'"
    by (rule index_rows_fold [OF assms(1,2) step]) (use assms(3,4) in \<open>simp_all add: stored_row_def\<close>)
  then show ?thesis by simp
qed

text \<open>Everything of the tables but keys and families stays.\<close>

definition same_journal :: "'k journal_tables \<Rightarrow> 'k journal_tables \<Rightarrow> bool" where
  "same_journal t t' \<longleftrightarrow> jt_events t' = jt_events t \<and> jt_chunks t' = jt_chunks t \<and> jt_messages t' = jt_messages t \<and> jt_requests t' = jt_requests t \<and>
     jt_lifecycle t' = jt_lifecycle t \<and> jt_position t' = jt_position t \<and> jt_inputs t' = jt_inputs t \<and> jt_inputChunks t' = jt_inputChunks t"

lemma same_journal_trans: "same_journal t u \<Longrightarrow> same_journal u v \<Longrightarrow> same_journal t v"
  by (simp add: same_journal_def)

lemma same_journal_simps [simp]: "same_journal t t" "same_journal t (t\<lparr>jt_keys := ks\<rparr>)" "same_journal t (set_family f p t)" "same_journal t (clear_keys f t)"
  by (simp_all add: same_journal_def set_family_def clear_keys_def)

lemma stores_same: "same_journal t t' \<Longrightarrow> stores cd t' rs = stores cd t rs"
proof -
  assume same: "same_journal t t'"
  then have "readSqlJournalRecord cd t' (j, x) = readSqlJournalRecord cd t (j, x)" for j x
    by (intro read_record_cong) (simp add: record_chunks_def same_journal_def)
  with same show ?thesis by (simp add: stores_def stored_row_def same_journal_def)
qed

lemma core_same: "same_journal t t' \<Longrightarrow> journal_core cd t' rs = journal_core cd t rs"
  by (simp add: journal_core_def stores_same) (simp add: indexed_def messages_ok_def same_journal_def)

lemma prepare_batch_ok:
  assumes "stores cd t rs" "families_ok defs t rs" "declared defs f" "prepare_batch cd batch f (length rs) t = Inr (t', complete)"
  shows "same_journal t t'" "families_ok defs t' rs" "complete \<Longrightarrow> family_position f t' = Some (length rs)"
proof -
  define p where "p = (case family_position f t of None \<Rightarrow> 0 | Some p \<Rightarrow> p)"
  define v where "v = (if family_position f t = None then clear_keys f t else t)"
  have "same_journal t t' \<and> families_ok defs t' rs \<and> (complete \<longrightarrow> family_position f t' = Some (length rs))"
  proof (cases "family_position f t = Some (length rs)")
    case True
    with assms(2,4) show ?thesis by (simp add: prepare_batch_def)
  next
    case False
    let ?rows = "take batch (select_range p (length rs) v)"
    let ?q = "p + length ?rows"
    from assms(4) False obtain u' where batch: "p \<le> length rs"
        "fold_try (index_row cd ''Invalid family index journal sequence'' p (index_family f)) (enumerate 0 ?rows) v = Inr u'"
        "t' = set_family f ?q u'" "complete = (?q = length rs)"
      by (auto simp: prepare_batch_def Let_def simp flip: p_def v_def split: if_splits)
    have u: "same_journal t v" by (simp add: v_def)
    then have stores: "stores cd v rs" using assms(1) stores_same by blast
    have rows: "?rows = map (stored_row v) [p..<?q]" and q: "?q \<le> length rs"
      using select_stores [OF stores order_refl, of p] batch(1) by (auto simp: take_map min_def)
    have fold: "fold_try (\<lambda>i. index_family f i (rs ! i)) [p..<?q] v = Inr u'"
      using batch(2) index_family_rows [OF stores q, of p v _ f u'] rows by simp
    have indexed: "family_indexed f v (take p rs)"
    proof (cases "family_position f t")
      case None
      then show ?thesis by (simp add: p_def v_def family_indexed_def clear_keys_def filter_empty_conv split_beta)
    next
      case (Some m)
      with families_okD [OF assms(2,3)] show ?thesis by (simp add: p_def v_def)
    qed
    have others: "filter (\<lambda>(n, _). n = name) (jt_keys v) = filter (\<lambda>(n, _). n = name) (jt_keys t)" if "name \<noteq> jf_name f" for name
      using that by (auto simp: v_def clear_keys_def intro!: filter_cong)
    have families: "jt_families v = jt_families t" by (simp add: v_def clear_keys_def)
    have "families_ok defs t' rs"
      unfolding batch(3) by (rule families_ok_index [OF assms(2,3) indexed others families fold]) (use q in simp_all)
    moreover have "same_journal t t'"
      using family_indexed_fold(3) [OF indexed fold] q u same_journal_simps(2) [of v "jt_keys u'"]
      unfolding batch(3) by (metis same_journal_trans same_journal_simps(3) le_add1)
    ultimately show ?thesis by (simp add: batch(3,4))
  qed
  then show "same_journal t t'" "families_ok defs t' rs" "complete \<Longrightarrow> family_position f t' = Some (length rs)" by simp_all
qed

lemma prepare_loop_ok:
  assumes "stores cd t rs" "families_ok defs t rs" "declared defs f" "prepare_loop cd batch f (length rs) t = (r, t')"
  shows "same_journal t t' \<and> families_ok defs t' rs \<and> (\<forall>u. r = Inr u \<longrightarrow> family_position f t' = Some (length rs))"
  using assms(1,2,4)
proof (induction "case family_position f t of None \<Rightarrow> Suc (length rs) | Some p \<Rightarrow> length rs - p" arbitrary: t rule: less_induct)
  case less
  show ?case
  proof (cases "batch = 0")
    case True
    with less.prems show ?thesis by (subst (asm) prepare_loop.simps) auto
  next
    case batch: False
    show ?thesis
    proof (cases "prepare_batch cd batch f (length rs) t")
      case (Inl e)
      with batch less.prems show ?thesis by (subst (asm) prepare_loop.simps) auto
    next
      case (Inr x)
      obtain u complete where x: "x = (u, complete)" by (cases x)
      note step = prepare_batch_ok [OF less.prems(1,2) assms(3) Inr [unfolded x]]
      show ?thesis
      proof (cases complete)
        case True
        with batch Inr x less.prems(3) have "r = Inr ()" "t' = u" by (subst (asm) prepare_loop.simps, simp)+
        with step True show ?thesis by simp
      next
        case False
        with batch Inr x less.prems(3) have rest: "prepare_loop cd batch f (length rs) u = (r, t')" by (subst (asm) prepare_loop.simps) simp
        have "stores cd u rs" using stores_same [OF step(1)] less.prems(1) by simp
        from less.hyps [OF prepare_batch_position [OF Inr [unfolded x] batch False] this step(2) rest] same_journal_trans [OF step(1)]
        show ?thesis by blast
      qed
    qed
  qed
qed

text \<open>Preparing a family whose keys can be computed succeeds.\<close>

lemma family_fold_total:
  assumes "family_indexed f t (take p rs)" "\<forall>i < length rs. keyed f i (rs ! i)" "p \<le> q" "q \<le> length rs"
  shows "\<exists>t'. fold_try (\<lambda>i. index_family f i (rs ! i)) [p..<q] t = Inr t'"
  using assms(1,3)
proof (induction "q - p" arbitrary: p t)
  case (Suc d)
  then have upt: "[p..<q] = p # [Suc p..<q]" "p < length rs" using assms(4) by (simp_all add: upt_conv_Cons)
  have fresh: "set (key_entry f p (rs ! p)) \<inter> set (jt_keys t) = {}"
  proof (rule ccontr)
    assume "set (key_entry f p (rs ! p)) \<inter> set (jt_keys t) \<noteq> {}"
    then obtain k where "(jf_name f, k, p) \<in> set (jt_keys t)" by (auto simp: key_entry_def split: sum.splits option.splits)
    then have "(jf_name f, k, p) \<in> set (filter (\<lambda>(name, _). name = jf_name f) (jt_keys t))" by simp
    then have "(jf_name f, k, p) \<in> set (entries_of (key_entry f) (take p rs))" using Suc.prems(1) by (simp only: family_indexed_def)
    then show False by (auto simp: set_entries_of key_entry_def split: sum.splits option.splits)
  qed
  with assms(2) upt(2) obtain u where u: "index_family f p (rs ! p) t = Inr u" by (auto simp: index_family_Inr)
  then have "fold_try (\<lambda>i. index_family f i (rs ! i)) [p..<Suc p] t = Inr u" by simp
  from family_indexed_fold(1) [OF Suc.prems(1) this] upt(2) have "family_indexed f u (take (Suc p) rs)" by simp
  then have "\<exists>t'. fold_try (\<lambda>i. index_family f i (rs ! i)) [Suc p..<q] u = Inr t'" by (intro Suc.hyps(1)) (use Suc.hyps(2) Suc.prems(2) in auto)
  with u show ?case unfolding upt(1) by simp
qed simp

lemma prepare_batch_total:
  assumes "stores cd t rs" "families_ok defs t rs" "declared defs f" "\<forall>i < length rs. keyed f i (rs ! i)"
  shows "\<exists>t' complete. prepare_batch cd batch f (length rs) t = Inr (t', complete)"
proof (cases "family_position f t = Some (length rs)")
  case True
  then show ?thesis by (intro exI [of _ t] exI [of _ True]) (simp add: prepare_batch_def)
next
  case False
  define p where "p = (case family_position f t of None \<Rightarrow> 0 | Some p \<Rightarrow> p)"
  define v where "v = (if family_position f t = None then clear_keys f t else t)"
  have p: "p \<le> length rs" using families_okD [OF assms(2,3)] by (simp add: p_def split: option.split)
  have stores: "stores cd v rs" using stores_same [of t v cd rs] assms(1) by (simp add: v_def)
  let ?rows = "take batch (select_range p (length rs) v)"
  let ?q = "p + length ?rows"
  have rows: "?rows = map (stored_row v) [p..<?q]" and q: "?q \<le> length rs" and len: "length ?rows = min batch (length rs - p)"
    using select_stores [OF stores order_refl, of p] p by (auto simp: take_map min_def)
  have indexed: "family_indexed f v (take p rs)"
  proof (cases "family_position f t")
    case None
    then show ?thesis by (simp add: p_def v_def family_indexed_def clear_keys_def filter_empty_conv split_beta)
  next
    case (Some m)
    with families_okD [OF assms(2,3)] show ?thesis by (simp add: p_def v_def)
  qed
  from family_fold_total [OF indexed assms(4) le_add1 q] obtain u where "fold_try (\<lambda>i. index_family f i (rs ! i)) [p..<?q] v = Inr u" by blast
  with index_family_rows [OF stores q, of p v] rows
  have "fold_try (index_row cd ''Invalid family index journal sequence'' p (index_family f)) (enumerate 0 ?rows) v = Inr u" by simp
  with False p len show ?thesis by (simp add: prepare_batch_def Let_def flip: p_def v_def)
qed

lemma prepare_loop_total:
  assumes "stores cd t rs" "families_ok defs t rs" "declared defs f" "\<forall>i < length rs. keyed f i (rs ! i)" "batch \<noteq> 0"
  shows "fst (prepare_loop cd batch f (length rs) t) = Inr ()"
  using assms(1,2)
proof (induction "case family_position f t of None \<Rightarrow> Suc (length rs) | Some p \<Rightarrow> length rs - p" arbitrary: t rule: less_induct)
  case less
  from prepare_batch_total [OF less.prems assms(3,4)] obtain u complete where batch: "prepare_batch cd batch f (length rs) t = Inr (u, complete)" by blast
  note step = prepare_batch_ok [OF less.prems assms(3) batch]
  show ?case
  proof (cases complete)
    case True
    with batch assms(5) show ?thesis by (subst prepare_loop.simps) simp
  next
    case False
    have "stores cd u rs" using stores_same [OF step(1)] less.prems(1) by simp
    from less.hyps [OF prepare_batch_position [OF batch assms(5) False] this step(2)] batch assms(5) False
    show ?thesis by (subst prepare_loop.simps) simp
  qed
qed

section \<open>Reading a family\<close>

definition key_at :: "'k journal_family \<Rightarrow> recorded list \<Rightarrow> 'k \<Rightarrow> nat \<Rightarrow> bool" where
  "key_at f rs key i \<longleftrightarrow> jf_key f (rs ! i) i = Inr (Some key)"

definition key_positions :: "'k journal_family \<Rightarrow> recorded list \<Rightarrow> 'k \<Rightarrow> nat \<Rightarrow> nat \<Rightarrow> bool \<Rightarrow> nat list" where
  "key_positions f rs key lower upper desc = (let ps = filter (key_at f rs key) [lower..<upper] in if desc then rev ps else ps)"

lemma key_entries_positions:
  "map (\<lambda>(_, _, seq). seq) (filter (\<lambda>(_, k, seq). k = key \<and> lower \<le> seq \<and> seq < upper) (entries_of (key_entry f) rs)) =
   filter (\<lambda>i. key_at f rs key i \<and> lower \<le> i \<and> i < upper) [0..<length rs]"
proof (induction rs rule: rev_induct)
  case (snoc r rs)
  have "filter (\<lambda>i. key_at f (rs @ [r]) key i \<and> lower \<le> i \<and> i < upper) [0..<length rs] = filter (\<lambda>i. key_at f rs key i \<and> lower \<le> i \<and> i < upper) [0..<length rs]"
    by (rule filter_cong) (simp_all add: key_at_def nth_append)
  with snoc show ?case by (auto simp: key_at_def key_entry_def split: sum.splits option.splits)
qed simp

lemma filter_upt_within: "upper \<le> n \<Longrightarrow> filter (\<lambda>i. P i \<and> lower \<le> i \<and> i < upper) [0..<n] = filter P [lower..<upper]"
proof (cases "lower \<le> upper")
  case True
  assume "upper \<le> n"
  with True have "[0..<n] = [0..<lower] @ [lower..<upper] @ [upper..<n]"
    by (metis upt_add_eq_append le_add_diff_inverse le0 le_trans)
  then show ?thesis by (auto simp: filter_empty_conv intro: filter_cong)
qed (auto simp: filter_empty_conv)

lemma key_rows_positions:
  assumes "family_indexed f t (take p rs)" "upper \<le> p" "p \<le> length rs"
  shows "key_rows f key lower upper desc t = key_positions f rs key lower upper desc"
proof -
  let ?range = "\<lambda>(_, k, seq). k = key \<and> lower \<le> seq \<and> seq < upper"
  have "filter (\<lambda>(name, k, seq). name = jf_name f \<and> k = key \<and> lower \<le> seq \<and> seq < upper) (jt_keys t) =
      filter ?range (filter (\<lambda>(name, _). name = jf_name f) (jt_keys t))"
    by (auto intro: filter_cong)
  also have "\<dots> = filter ?range (entries_of (key_entry f) (take p rs))" using assms(1) by (simp only: family_indexed_def)
  finally have "map (\<lambda>(_, _, seq). seq) (filter (\<lambda>(name, k, seq). name = jf_name f \<and> k = key \<and> lower \<le> seq \<and> seq < upper) (jt_keys t)) =
      filter (\<lambda>i. key_at f (take p rs) key i \<and> lower \<le> i \<and> i < upper) [0..<p]"
    using key_entries_positions [of key lower upper f "take p rs"] assms(3) by (simp add: min_absorb2)
  also have "\<dots> = filter (\<lambda>i. key_at f rs key i \<and> lower \<le> i \<and> i < upper) [0..<p]"
    by (rule filter_cong) (simp_all add: key_at_def)
  also have "\<dots> = filter (key_at f rs key) [lower..<upper]" by (rule filter_upt_within [OF assms(2)])
  finally show ?thesis by (simp add: key_rows_def key_positions_def Let_def sorted_sort_id sorted_wrt_filter)
qed

lemma readPage_positions:
  assumes "stores cd t rs" "family_indexed f t (take p rs)" "family_position f t = Some p" "upper \<le> p" "p \<le> length rs"
  shows "readPage cd batch f key lower upper desc t = Inr (map (\<lambda>i. (i, rs ! i)) (take batch (key_positions f rs key lower upper desc)))"
proof -
  have "family_row cd f key t i = Inr (i, rs ! i)" if "i \<in> set (take batch (key_positions f rs key lower upper desc))" for i
  proof -
    have "i \<in> set (key_positions f rs key lower upper desc)" using that by (rule in_set_takeD)
    then have "key_at f rs key i" "i < length rs" using assms(4,5) by (auto simp: key_positions_def Let_def split: if_splits)
    then show ?thesis by (simp add: family_row_def read_joined_stores [OF assms(1)] key_at_def)
  qed
  then have "map_try (family_row cd f key t) (take batch (key_positions f rs key lower upper desc)) =
      Inr (map (\<lambda>i. (i, rs ! i)) (take batch (key_positions f rs key lower upper desc)))"
    by (rule map_try_total)
  then show ?thesis
    using assms(3,4) by (simp add: readPage_def family_covers_def key_rows_positions [OF assms(2,4,5)])
qed

text \<open>The pages of a key, one after the other, are all its positions.\<close>

lemma take_until:
  assumes "distinct ps" "ps = pre @ x # rest" "take b ps \<noteq> []" "last (take b ps) = x"
  shows "ps = take b ps @ rest"
proof -
  obtain ys where ys: "take b ps = ys @ [x]" using assms(3,4) append_butlast_last_id by metis
  have "ys @ x # drop b ps = ps" using append_take_drop_id [of b ps] unfolding ys by simp
  then have eq: "pre @ x # rest = ys @ x # drop b ps" using assms(2) by (simp only:)
  have "x \<notin> set pre" "x \<notin> set rest" using assms(1) unfolding assms(2) by simp_all
  from append_Cons_eq_iff [OF this, of ys "drop b ps"] eq have "rest = drop b ps" by blast
  then show ?thesis by (simp only: append_take_drop_id)
qed

lemma key_positions_page:
  assumes "x = last (take b (key_positions f rs key lower upper desc))" "take b (key_positions f rs key lower upper desc) \<noteq> []"
  shows "key_positions f rs key lower upper desc = take b (key_positions f rs key lower upper desc) @
      key_positions f rs key (if desc then lower else Suc x) (if desc then x else upper) desc" "lower \<le> x" "x < upper"
proof -
  let ?ps = "key_positions f rs key lower upper desc"
  have "x \<in> set ?ps" using assms in_set_takeD [OF last_in_set] by metis
  then have x: "lower \<le> x" "x < upper" "key_at f rs key x" by (auto simp: key_positions_def Let_def split: if_splits)
  then have "[lower..<upper] = [lower..<x] @ [x..<upper]" using upt_add_eq_append [of lower x "upper - x"] by simp
  also have "[x..<upper] = x # [Suc x..<upper]" using x by (simp add: upt_conv_Cons)
  finally have upt: "[lower..<upper] = [lower..<x] @ x # [Suc x..<upper]" .
  have split: "\<exists>pre. ?ps = pre @ x # key_positions f rs key (if desc then lower else Suc x) (if desc then x else upper) desc"
    using x by (cases desc) (auto simp: key_positions_def Let_def upt)
  have "distinct ?ps" by (simp add: key_positions_def Let_def)
  with split take_until [OF this _ assms(2) assms(1) [symmetric]]
  show "?ps = take b ?ps @ key_positions f rs key (if desc then lower else Suc x) (if desc then x else upper) desc" by blast
  show "lower \<le> x" "x < upper" using x by simp_all
qed

lemma family_pages_positions:
  assumes "stores cd t rs" "family_indexed f t (take p rs)" "family_position f t = Some p" "p \<le> length rs" "0 < batch" "upper \<le> p"
  shows "family_pages cd batch f key lower upper desc t = Inr (map (\<lambda>i. (i, rs ! i)) (key_positions f rs key lower upper desc))"
  using assms(6)
proof (induction "upper - lower" arbitrary: lower upper rule: less_induct)
  case less
  let ?ps = "key_positions f rs key lower upper desc"
  have page: "readPage cd batch f key lower upper desc t = Inr (map (\<lambda>i. (i, rs ! i)) (take batch ?ps))"
    by (rule readPage_positions [OF assms(1-3) less.prems assms(4)])
  show ?case
  proof (cases "take batch ?ps = []")
    case True
    with assms(5) have "?ps = []" by simp
    then show ?thesis by (subst family_pages.simps) (simp add: page)
  next
    case False
    let ?x = "last (take batch ?ps)"
    note rest = key_positions_page [OF refl False]
    have last: "fst (last (map (\<lambda>i. (i, rs ! i)) (take batch ?ps))) = ?x" using False by (simp add: last_map)
    have "family_pages cd batch f key (if desc then lower else Suc ?x) (if desc then ?x else upper) desc t =
        Inr (map (\<lambda>i. (i, rs ! i)) (key_positions f rs key (if desc then lower else Suc ?x) (if desc then ?x else upper) desc))"
      by (rule less.hyps) (use rest(2,3) less.prems in auto)
    moreover have "map (\<lambda>i. (i, rs ! i)) ?ps = map (\<lambda>i. (i, rs ! i)) (take batch ?ps) @
        map (\<lambda>i. (i, rs ! i)) (key_positions f rs key (if desc then lower else Suc ?x) (if desc then ?x else upper) desc)"
      by (subst rest(1)) simp
    ultimately show ?thesis
      using rest(2,3) False by (subst family_pages.simps) (simp only: page last sum.case map_is_Nil_conv if_False if_True le_less_trans)
  qed
qed

end
