(* ===== verification/SqlCheckpointFacts.thy ===== *)
theory SqlCheckpointFacts
  imports SqlCheckpoints
begin

text \<open>
  What the tables of checkpoints hold: every row reads back to an atom of its identity and position, and a
  row that is pinned keeps what it holds while other snapshots are written and collected.
\<close>

section \<open>The rows\<close>

definition row_key :: "atom_row \<Rightarrow> atom_identity \<times> nat" where
  "row_key r = (ar_identity r, ar_position r)"

definition rows_ok :: "checkpoint_tables \<Rightarrow> bool" where
  "rows_ok t \<longleftrightarrow> distinct (map ar_id (kt_atoms t)) \<and> distinct (map row_key (kt_atoms t)) \<and>
     (\<forall>r\<in>set (kt_atoms t). (ai_family (ar_identity r) = None) = (ai_version (ar_identity r) = None))"

lemma rows_unique:
  assumes "rows_ok t" "r \<in> set (kt_atoms t)" "r' \<in> set (kt_atoms t)"
  shows "row_key r = row_key r' \<Longrightarrow> r = r'" "ar_id r = ar_id r' \<Longrightarrow> r = r'"
  using assms unfolding rows_ok_def distinct_map by (blast dest: inj_onD)+

lemma same_atom_complete:
  "(ai_family i = None) = (ai_version i = None) \<Longrightarrow> (ai_family j = None) = (ai_version j = None) \<Longrightarrow> same_atom i j \<longleftrightarrow> j = i"
  by (cases i; cases j) (auto simp: same_atom_def split: option.splits)

lemma read_row_cong:
  "chunks_of (ar_id r) (kt_atomChunks t') = chunks_of (ar_id r) (kt_atomChunks t) \<Longrightarrow> read_row kc t' r = read_row kc t r"
  by (simp add: read_row_def atom_chunks_def)

lemma read_row_pinned [simp]: "read_row kc t (r\<lparr>ar_pinned := b\<rparr>) = read_row kc t r"
  by (simp add: read_row_def)

lemma chunks_of_filter: "(\<And>key ordinal payload. key = k \<Longrightarrow> P ((key, ordinal), payload)) \<Longrightarrow> chunks_of k (filter P rows) = chunks_of k rows"
proof -
  assume keep: "\<And>key ordinal payload. key = k \<Longrightarrow> P ((key, ordinal), payload)"
  have "filter (\<lambda>((key, _), _). key = k) (filter P rows) = filter (\<lambda>((key, _), _). key = k) rows"
    unfolding filter_filter by (rule filter_cong) (use keep in auto)
  then show ?thesis by (simp add: chunks_of_def)
qed

lemma last_sorted: "sorted xs \<Longrightarrow> x \<in> set xs \<Longrightarrow> x \<le> last xs"
  by (induction xs) auto

text \<open>A row at the position that is asked for is the one found.\<close>

lemma find_row:
  assumes "rows_ok t" "r \<in> set (kt_atoms t)" "ar_identity r = i" "ar_position r = p"
  shows "find_atom t i p = Some r"
proof -
  let ?rows = "sort_key ar_position (filter (\<lambda>r. same_atom i (ar_identity r) \<and> ar_position r \<le> p) (kt_atoms t))"
  have same: "same_atom i (ar_identity r') \<longleftrightarrow> ar_identity r' = i" if "r' \<in> set (kt_atoms t)" for r'
    using assms(1-3) that by (intro same_atom_complete) (auto simp: rows_ok_def)
  have r: "r \<in> set ?rows" using assms(2-4) same [OF assms(2)] by simp
  then have nonempty: "?rows \<noteq> []" by (metis empty_iff empty_set)
  have sorted: "sorted (map ar_position ?rows)" by simp
  have "p \<le> last (map ar_position ?rows)" using r assms(4) by (intro last_sorted [OF sorted]) auto
  then have "p \<le> ar_position (last ?rows)" using nonempty by (simp add: last_map)
  moreover have last: "last ?rows \<in> set ?rows" using nonempty by (rule last_in_set)
  ultimately have "last ?rows \<in> set (kt_atoms t)" "row_key (last ?rows) = row_key r" using assms(3,4) same by (auto simp: row_key_def)
  then have "last ?rows = r" using assms(1,2) by (auto simp: rows_ok_def distinct_map dest: inj_onD)
  then show ?thesis using nonempty by (cases ?rows rule: rev_cases) (simp_all add: find_atom_def)
qed

lemma find_atomD: "find_atom t i p = Some r \<Longrightarrow> r \<in> set (kt_atoms t) \<and> same_atom i (ar_identity r) \<and> ar_position r \<le> p"
proof -
  let ?rows = "sort_key ar_position (filter (\<lambda>r. same_atom i (ar_identity r) \<and> ar_position r \<le> p) (kt_atoms t))"
  assume "find_atom t i p = Some r"
  then have "r \<in> set (rev ?rows)" unfolding find_atom_def by (cases "rev ?rows") (simp_all del: set_rev rev_is_Nil_conv)
  then show ?thesis by simp
qed

section \<open>Collecting\<close>

lemma collect_rows:
  assumes "rows_ok t"
  shows "kt_atoms (collectAtomCheckpoints scope t) = filter (\<lambda>r. \<not> obsolete scope t r) (kt_atoms t)"
proof -
  have "ar_id a \<in> ar_id ` {r \<in> set (kt_atoms t). obsolete scope t r} \<longleftrightarrow> obsolete scope t a" if "a \<in> set (kt_atoms t)" for a
    using assms that by (auto simp: rows_ok_def distinct_map dest: inj_onD)
  then show ?thesis by (auto simp: collectAtomCheckpoints_def Let_def intro!: filter_cong)
qed

lemma collect_ok: "rows_ok t \<Longrightarrow> rows_ok (collectAtomCheckpoints scope t)"
  by (auto simp: rows_ok_def collect_rows distinct_map inj_on_def distinct_filter)

lemma collect_keeps:
  assumes "rows_ok t" "r \<in> set (kt_atoms t)" "\<not> obsolete scope t r"
  shows "r \<in> set (kt_atoms (collectAtomCheckpoints scope t))" "read_row kc (collectAtomCheckpoints scope t) r = read_row kc t r"
proof -
  show "r \<in> set (kt_atoms (collectAtomCheckpoints scope t))" using assms by (simp add: collect_rows)
  have "ar_id r \<notin> ar_id ` {r \<in> set (kt_atoms t). obsolete scope t r}"
    using assms by (auto simp: rows_ok_def distinct_map dest: inj_onD)
  then show "read_row kc (collectAtomCheckpoints scope t) r = read_row kc t r"
    by (intro read_row_cong) (auto simp: collectAtomCheckpoints_def Let_def intro!: chunks_of_filter)
qed

section \<open>Writing an atom\<close>

lemma insert_atom_chunk_Inr: "insert_atom_chunk i c t = Inr t' \<longleftrightarrow> map_of (kt_atomChunks t) (i, ck_ordinal c) = None \<and>
    t' = t\<lparr>kt_atomChunks := kt_atomChunks t @ [((i, ck_ordinal c), ck_payload c)]\<rparr>"
  by (auto simp: insert_atom_chunk_def sql_insert_def)

lemma insert_atom_chunks: "fold_try (insert_atom_chunk i) chunks t = Inr t' \<Longrightarrow> t' = t\<lparr>kt_atomChunks := kt_atomChunks t @ chunk_rows i chunks\<rparr>"
proof (induction chunks arbitrary: t)
  case (Cons c chunks)
  then have "fold_try (insert_atom_chunk i) chunks (t\<lparr>kt_atomChunks := kt_atomChunks t @ [((i, ck_ordinal c), ck_payload c)]\<rparr>) = Inr t'"
    by (auto simp: insert_atom_chunk_Inr)
  from Cons.IH [OF this] show ?case by (simp add: chunk_rows_def)
qed (simp add: chunk_rows_def)

lemma new_row_id: "new_row_id t \<notin> ar_id ` set (kt_atoms t)"
proof -
  have "x \<in> set xs \<Longrightarrow> x \<le> fold max xs m" for x :: nat and xs m
  proof (induction xs arbitrary: m)
    case (Cons y xs)
    have "m' \<le> fold max xs m'" for m' by (induction xs arbitrary: m') (auto intro: order_trans [OF max.cobounded2])
    then have "max y m \<le> fold max xs (max y m)" .
    with Cons show ?case by auto
  qed simp
  then have "ar_id r < new_row_id t" if "r \<in> set (kt_atoms t)" for r
    unfolding new_row_id_def using that by (intro le_imp_less_Suc) auto
  then show ?thesis by fastforce
qed

lemma update_row_simps [simp]: "ar_id (update_row n c d b r) = ar_id r" "ar_identity (update_row n c d b r) = ar_identity r"
    "ar_position (update_row n c d b r) = ar_position r" "row_key (update_row n c d b r) = row_key r"
  by (simp_all add: update_row_def row_key_def)

text \<open>An insertion replaces the row of its key, or adds one.\<close>

definition row_update :: "atom_identity \<Rightarrow> nat \<Rightarrow> nat \<Rightarrow> nat \<Rightarrow> string \<Rightarrow> bool \<Rightarrow> atom_row \<Rightarrow> atom_row" where
  "row_update i p n c d b r = (if row_key r = (i, p) then update_row n c d b r else r)"

lemma row_update_simps [simp]: "ar_id (row_update i p n c d b r) = ar_id r" "ar_identity (row_update i p n c d b r) = ar_identity r"
    "ar_position (row_update i p n c d b r) = ar_position r" "row_key (row_update i p n c d b r) = row_key r"
  by (simp_all add: row_update_def)

lemma upsert_cases:
  assumes "rows_ok t" "(ai_family i = None) = (ai_version i = None)" "upsert_atom i p n c d b t = Inr t'"
  obtains (present) r where "r \<in> set (kt_atoms t)" "row_key r = (i, p)" "t' = t\<lparr>kt_atoms := map (row_update i p n c d b) (kt_atoms t)\<rparr>"
  | (fresh) "(i, p) \<notin> row_key ` set (kt_atoms t)" "t' = t\<lparr>kt_atoms := kt_atoms t @ [\<lparr>ar_id = new_row_id t, ar_identity = i, ar_position = p, ar_byteLength = n,
          ar_chunkCount = c, ar_digest = d, ar_pinned = b\<rparr>]\<rparr>"
proof -
  have same: "same_atom i (ar_identity r) \<and> ar_position r = p \<longleftrightarrow> row_key r = (i, p)" if "r \<in> set (kt_atoms t)" for r
    using assms(1,2) that same_atom_complete [of i "ar_identity r"] by (auto simp: rows_ok_def row_key_def)
  have map: "map (\<lambda>r. if same_atom i (ar_identity r) \<and> ar_position r = p then update_row n c d b r else r) (kt_atoms t) = map (row_update i p n c d b) (kt_atoms t)"
    using same by (auto simp: row_update_def)
  show thesis
  proof (cases "(i, p) \<in> row_key ` set (kt_atoms t)")
    case True
    then obtain r where r: "r \<in> set (kt_atoms t)" "row_key r = (i, p)" by auto
    with same [OF r(1)] assms(3) have "t' = t\<lparr>kt_atoms := map (row_update i p n c d b) (kt_atoms t)\<rparr>"
      unfolding upsert_atom_def map by (auto split: if_splits)
    with r present show thesis by blast
  next
    case False
    then have "\<not> (\<exists>r\<in>set (kt_atoms t). same_atom i (ar_identity r) \<and> ar_position r = p)" using same by (auto simp: image_iff)
    with assms(3) False fresh show thesis unfolding upsert_atom_def by (auto split: if_splits)
  qed
qed

lemma upsert_ok:
  assumes "rows_ok t" "(ai_family i = None) = (ai_version i = None)" "upsert_atom i p n c d b t = Inr t'"
  shows "rows_ok t'"
  using assms
proof (cases rule: upsert_cases)
  case (present r)
  have "ar_id \<circ> row_update i p n c d b = ar_id" "row_key \<circ> row_update i p n c d b = row_key" by (simp_all add: fun_eq_iff)
  with assms(1) show ?thesis by (simp add: rows_ok_def present(3))
next
  case fresh
  with assms(1,2) new_row_id [of t] show ?thesis by (auto simp: rows_ok_def fresh(2) row_key_def image_iff)
qed

text \<open>A pinned row from which an atom is read, with the digest of the atom's text.\<close>

definition pins :: "'j checkpoint_codec \<Rightarrow> checkpoint_tables \<Rightarrow> 'j stored_atom \<Rightarrow> bool" where
  "pins kc t a \<longleftrightarrow> atom_text_ok kc a \<and> (\<exists>r\<in>set (kt_atoms t). row_key r = (sa_identity a, sa_position a) \<and> ar_pinned r \<and>
     ar_digest r = kc_digest kc (kc_atomText kc a) \<and> read_row kc t r = Inr a)"

lemma collect_pins: "rows_ok t \<Longrightarrow> pins kc t a \<Longrightarrow> pins kc (collectAtomCheckpoints scope t) a"
proof -
  assume ok: "rows_ok t" and "pins kc t a"
  then obtain r where sound: "atom_text_ok kc a" and r: "r \<in> set (kt_atoms t)" "row_key r = (sa_identity a, sa_position a)" "ar_pinned r"
      "ar_digest r = kc_digest kc (kc_atomText kc a)" "read_row kc t r = Inr a" by (auto simp: pins_def)
  then have "\<not> obsolete scope t r" by (simp add: obsolete_def)
  from collect_keeps(1) [OF ok r(1) this] collect_keeps(2) [OF ok r(1) this, of kc] r(2-5) sound show ?thesis unfolding pins_def by metis
qed

text \<open>The row that was written: it is found, with the sizes and the digest of the payload.\<close>

lemma upsert_row:
  assumes "rows_ok t" "(ai_family i = None) = (ai_version i = None)" "upsert_atom i p n c d b t = Inr u" "r \<in> set (kt_atoms u)" "row_key r = (i, p)" "ar_digest r = d"
  shows "ar_byteLength r = n" "ar_chunkCount r = c" "b \<Longrightarrow> ar_pinned r"
    "\<And>r0. r0 \<in> set (kt_atoms t) \<Longrightarrow> row_key r0 = (i, p) \<Longrightarrow> ar_pinned r0 \<Longrightarrow> ar_pinned r \<and> ar_id r = ar_id r0 \<and> ar_digest r0 = d"
proof -
  have "ar_byteLength r = n \<and> ar_chunkCount r = c \<and> (b \<longrightarrow> ar_pinned r) \<and>
      (\<forall>r0\<in>set (kt_atoms t). row_key r0 = (i, p) \<and> ar_pinned r0 \<longrightarrow> ar_pinned r \<and> ar_id r = ar_id r0 \<and> ar_digest r0 = d)"
    using assms(1-3)
  proof (cases rule: upsert_cases)
    case (present r1)
    from assms(4) obtain r2 where r2: "r2 \<in> set (kt_atoms t)" "r = row_update i p n c d b r2" by (auto simp: present(3))
    with assms(5) have key: "row_key r2 = (i, p)" by simp
    have only: "r0 = r2" if "r0 \<in> set (kt_atoms t)" "row_key r0 = (i, p)" for r0
      using rows_unique(1) [OF assms(1) that(1) r2(1)] that(2) key by simp
    have "r = update_row n c d b r2" using r2(2) key by (simp add: row_update_def)
    with assms(6) have "\<not> ar_pinned r2 \<or> ar_digest r2 = d" "r = r2\<lparr>ar_byteLength := n, ar_chunkCount := c, ar_digest := d, ar_pinned := ar_pinned r2 \<or> b\<rparr>"
      by (auto simp: update_row_def split: if_splits)
    then show ?thesis using only by auto
  next
    case fresh
    have "r \<notin> set (kt_atoms t)" using fresh(1) assms(5) by (metis image_eqI)
    with assms(4) fresh(2) have "r = \<lparr>ar_id = new_row_id t, ar_identity = i, ar_position = p, ar_byteLength = n, ar_chunkCount = c, ar_digest = d, ar_pinned = b\<rparr>" by simp
    moreover have "row_key r0 \<noteq> (i, p)" if "r0 \<in> set (kt_atoms t)" for r0 using fresh(1) that by (metis image_eqI)
    ultimately show ?thesis by simp
  qed
  then show "ar_byteLength r = n" "ar_chunkCount r = c" "b \<Longrightarrow> ar_pinned r"
    "\<And>r0. r0 \<in> set (kt_atoms t) \<Longrightarrow> row_key r0 = (i, p) \<Longrightarrow> ar_pinned r0 \<Longrightarrow> ar_pinned r \<and> ar_id r = ar_id r0 \<and> ar_digest r0 = d" by blast+
qed

lemma upsert_others:
  assumes "rows_ok t" "(ai_family i = None) = (ai_version i = None)" "upsert_atom i p n c d b t = Inr u" "r0 \<in> set (kt_atoms t)" "row_key r0 \<noteq> (i, p)"
  shows "r0 \<in> set (kt_atoms u)"
  using assms(1-3) by (cases rule: upsert_cases) (use assms(4,5) in \<open>auto simp: row_update_def image_iff intro!: bexI [of _ r0]\<close>)

lemma upsert_chunks: "upsert_atom i p n c d b t = Inr u \<Longrightarrow> kt_atomChunks u = kt_atomChunks t \<and> kt_actor u = kt_actor t \<and> kt_actorChunks u = kt_actorChunks t"
  by (auto simp: upsert_atom_def split: if_splits)

text \<open>
  The digest is SHA-256, which has collisions; that there is none is assumed of the finitely many texts
  whose digests are compared.
\<close>

definition no_collision :: "'j checkpoint_codec \<Rightarrow> bytes set \<Rightarrow> bool" where
  "no_collision kc texts \<longleftrightarrow> inj_on (kc_digest kc) texts"

lemma no_collision_mono: "no_collision kc texts \<Longrightarrow> some \<subseteq> texts \<Longrightarrow> no_collision kc some"
  unfolding no_collision_def by (rule inj_on_subset)

lemma no_collisionD: "no_collision kc {x, y} \<Longrightarrow> kc_digest kc x = kc_digest kc y \<Longrightarrow> x = y"
  unfolding no_collision_def by (erule inj_onD) simp_all

lemma write_atom_ok:
  assumes "rows_ok t" "atom_text_ok kc a" "write_atom kc chunkBytes pin a t = Inr t'"
  shows "rows_ok t'" "\<And>b. pins kc t b \<Longrightarrow> no_collision kc {kc_atomText kc a, kc_atomText kc b} \<Longrightarrow> pins kc t' b" "pin \<Longrightarrow> pins kc t' a" "kt_actor t' = kt_actor t" "kt_actorChunks t' = kt_actorChunks t"
proof -
  let ?payload = "kc_atomText kc a" and ?i = "sa_identity a" and ?p = "sa_position a"
  from assms(3) obtain chunks u r v where
    valid: "stored_atom_ok a" and chunks: "encodeCheckpointChunks ?payload chunkBytes = Inr chunks" and
    u: "upsert_atom ?i ?p (length ?payload) (length chunks) (kc_digest kc ?payload) pin t = Inr u" and
    r: "find_atom u ?i ?p = Some r" "ar_position r = ?p" "ar_digest r = kc_digest kc ?payload" and
    v: "fold_try (insert_atom_chunk (ar_id r)) chunks (u\<lparr>kt_atomChunks := filter (\<lambda>((i, _), _). i \<noteq> ar_id r) (kt_atomChunks u)\<rparr>) = Inr v" and
    t': "t' = (if pin then v else collectAtomCheckpoints (Some ?i) v)"
    by (auto simp: write_atom_def encodeAtomCheckpoint_def split: if_splits option.splits)
  have complete: "(ai_family ?i = None) = (ai_version ?i = None)" using valid by (simp add: stored_atom_ok_def complete_identity_def)
  have ok_u: "rows_ok u" by (rule upsert_ok [OF assms(1) complete u])
  have v_eq: "v = u\<lparr>kt_atomChunks := filter (\<lambda>((i, _), _). i \<noteq> ar_id r) (kt_atomChunks u) @ chunk_rows (ar_id r) chunks\<rparr>"
    using insert_atom_chunks [OF v] by simp
  have ok_v: "rows_ok v" using ok_u by (simp add: v_eq rows_ok_def)
  have r_in: "r \<in> set (kt_atoms u)" "same_atom ?i (ar_identity r)" using find_atomD [OF r(1)] by simp_all
  have "(ai_family (ar_identity r) = None) = (ai_version (ar_identity r) = None)" using ok_u r_in(1) by (simp add: rows_ok_def)
  with r_in(2) complete have key: "row_key r = (?i, ?p)" using same_atom_complete [of ?i "ar_identity r"] r(2) by (simp add: row_key_def)
  note row = upsert_row [OF assms(1) complete u r_in(1) key r(3)]
  have "chunks_of (ar_id r) (kt_atomChunks v) = chunks"
    unfolding v_eq by (simp, rule chunks_of_new [OF _ encode_chunks_ordinals [OF chunks]]) auto
  moreover have "decodeCheckpointChunks chunks (length ?payload) (length chunks) = Inr ?payload"
    using chunks_round_trip [OF chunks] assms(2) by (simp add: atom_text_ok_def)
  ultimately have read: "read_row kc v r = Inr a"
    using row(1,2) r(3) valid assms(2) by (simp add: read_row_def atom_chunks_def decodeAtomCheckpoint_def atom_text_ok_def)
  have kept: "pins kc v b" if pinned: "pins kc t b" and apart: "no_collision kc {?payload, kc_atomText kc b}" for b
  proof -
    from pinned obtain r0 where sound: "atom_text_ok kc b" and r0: "r0 \<in> set (kt_atoms t)" "row_key r0 = (sa_identity b, sa_position b)" "ar_pinned r0"
      "read_row kc t r0 = Inr b" "ar_digest r0 = kc_digest kc (kc_atomText kc b)" by (auto simp: pins_def)
    show ?thesis
    proof (cases "row_key r0 = (?i, ?p)")
      case True
      with row(4) [OF r0(1) True r0(3)] have same: "ar_pinned r" "ar_id r = ar_id r0" "ar_digest r0 = kc_digest kc ?payload" by simp_all
      have "?payload = kc_atomText kc b" using no_collisionD [OF apart] same(3) r0(5) by simp
      then have "b = a" using assms(2) sound by (simp add: atom_text_ok_def)
      with r_in(1) key same(1) r(3) read assms(2) show ?thesis by (auto simp: pins_def v_eq)
    next
      case False
      have r0_in: "r0 \<in> set (kt_atoms u)" by (rule upsert_others [OF assms(1) complete u r0(1) False])
      with rows_unique(2) [OF ok_u r0_in r_in(1)] False key have "ar_id r0 \<noteq> ar_id r" by auto
      then have "chunks_of (ar_id r0) (kt_atomChunks v) = chunks_of (ar_id r0) (kt_atomChunks t)"
        using upsert_chunks [OF u] by (simp add: v_eq chunks_of_other) (rule chunks_of_filter, auto)
      then have "read_row kc v r0 = Inr b" using read_row_cong [of r0 v t kc] r0(4) by simp
      with r0_in r0(2,3,5) sound show ?thesis by (auto simp: pins_def v_eq)
    qed
  qed
  show "rows_ok t'" using ok_v collect_ok by (simp add: t')
  show "pins kc t b \<Longrightarrow> no_collision kc {?payload, kc_atomText kc b} \<Longrightarrow> pins kc t' b" for b
    using kept [of b] collect_pins [OF ok_v, of kc b "Some ?i"] by (simp add: t')
  show "pin \<Longrightarrow> pins kc t' a" using r_in(1) key row(3) r(3) read assms(2) by (auto simp: t' pins_def v_eq)
  show "kt_actor t' = kt_actor t" "kt_actorChunks t' = kt_actorChunks t"
    using upsert_chunks [OF u] by (simp_all add: t' v_eq collectAtomCheckpoints_def Let_def)
qed

lemma write_atoms_ok:
  assumes "rows_ok t" "list_all (atom_text_ok kc) atoms" "write_atoms kc position chunkBytes pin names atoms t = Inr t'"
    "no_collision kc texts" "kc_atomText kc ` set atoms \<subseteq> texts"
  shows "rows_ok t' \<and> (\<forall>b. kc_atomText kc b \<in> texts \<longrightarrow> pins kc t b \<longrightarrow> pins kc t' b) \<and> (pin \<longrightarrow> list_all (pins kc t') atoms) \<and>
    kt_actor t' = kt_actor t \<and> kt_actorChunks t' = kt_actorChunks t"
  using assms
proof (induction atoms arbitrary: names t)
  case (Cons a atoms)
  from Cons.prems(3) obtain u where u: "write_atom kc chunkBytes pin a t = Inr u"
      "write_atoms kc position chunkBytes pin (atomCheckpointKey (sa_identity a) # names) atoms u = Inr t'" by (auto split: if_splits)
  have a: "atom_text_ok kc a" "kc_atomText kc a \<in> texts" using Cons.prems(2,5) by simp_all
  note step = write_atom_ok [OF Cons.prems(1) a(1) u(1)]
  have kept: "pins kc u b" if "pins kc t b" "kc_atomText kc b \<in> texts" for b
    using step(2) [OF that(1) no_collision_mono [OF Cons.prems(4)]] that(2) a(2) by blast
  from Cons.IH [OF step(1) _ u(2) Cons.prems(4)] Cons.prems(2,5)
  have rest: "rows_ok t'" "\<forall>b. kc_atomText kc b \<in> texts \<longrightarrow> pins kc u b \<longrightarrow> pins kc t' b" "pin \<longrightarrow> list_all (pins kc t') atoms"
    "kt_actor t' = kt_actor u" "kt_actorChunks t' = kt_actorChunks u" by simp_all
  with step(3-5) kept a(2) show ?case by auto
qed simp

section \<open>The checkpoint of the actor\<close>

definition saved :: "'j checkpoint_codec \<Rightarrow> checkpoint_tables \<Rightarrow> stored_checkpoint \<Rightarrow> bool" where
  "saved kc t c \<longleftrightarrow> (\<exists>split chunks n. splitActorCheckpoint kc c = Inr split \<and> encodeCheckpointChunks (sp_payload split) n = Inr chunks \<and>
     kt_actor t = Some (actor_row_of kc c split (length chunks)) \<and> actor_chunks t = chunks \<and> list_all (pins kc t) (sp_atoms split))"

text \<open>The texts whose digests are compared where a checkpoint is written and read: its own, that of the state it decodes to, and those of its atoms.\<close>

definition checkpoint_texts :: "'j checkpoint_codec \<Rightarrow> stored_checkpoint \<Rightarrow> bytes set" where
  "checkpoint_texts kc c = insert (sc_payload c) (case decodeCheckpoint kc (sc_payload c) of
     Inl _ \<Rightarrow> {}
   | Inr s \<Rightarrow> (case encodeCheckpoint kc s of Inl _ \<Rightarrow> {} | Inr payload \<Rightarrow> {payload}) \<union>
       (case encodeActorCheckpointV4 kc s of Inl _ \<Rightarrow> {} | Inr payload \<Rightarrow> {payload}) \<union> set (map (kc_atomText kc) (as_durable s)))"

lemma finite_checkpoint_texts: "finite (checkpoint_texts kc c)"
  by (simp add: checkpoint_texts_def split: sum.split)

text \<open>What is asked of a checkpoint: the texts that it is split into are sound, and its digest is the payload's.\<close>

definition checkpoint_texts_ok :: "'j checkpoint_codec \<Rightarrow> stored_checkpoint \<Rightarrow> bool" where
  "checkpoint_texts_ok kc c \<longleftrightarrow> safe_integer (int (length (sc_payload c))) \<and>
     (\<forall>s. decodeCheckpoint kc (sc_payload c) = Inr s \<longrightarrow> list_all (atom_text_ok kc) (as_durable s) \<and> (\<forall>legacy. manifest_text_ok kc (manifest_of s legacy)))"

definition checkpoint_ok :: "'j checkpoint_codec \<Rightarrow> stored_checkpoint \<Rightarrow> bool" where
  "checkpoint_ok kc c \<longleftrightarrow> sc_digest c = kc_digest kc (sc_payload c) \<and> safe_integer (int (sc_position c)) \<and> checkpoint_texts_ok kc c"

lemma split_cases:
  assumes "splitActorCheckpoint kc c = Inr split"
  obtains (whole) "split = whole_checkpoint c"
  | (manifest) s legacy canonical where "decodeCheckpoint kc (sc_payload c) = Inr s" "(if legacy then encodeActorCheckpointV4 kc s else encodeCheckpoint kc s) = Inr canonical"
      "as_position s = sc_position c" "kc_digest kc canonical = sc_digest c" "encodeCheckpointManifest kc s legacy = Inr (sp_payload split)"
      "sp_atoms split = as_durable s" "sp_encoding split = 1"
proof (cases "\<exists>version s. kc_actorParse kc (sc_payload c) = Some (VersionedDocument version s) \<and> (version = ACTOR_CHECKPOINT_VERSION \<or> version = LEGACY_ACTOR_CHECKPOINT_VERSION)")
  case False
  then have "splitActorCheckpoint kc c = Inr (whole_checkpoint c)" by (auto simp: splitActorCheckpoint_def split: option.split actor_document.split)
  with assms whole show thesis by simp
next
  case True
  then obtain version s where parsed: "kc_actorParse kc (sc_payload c) = Some (VersionedDocument version s)" "version = ACTOR_CHECKPOINT_VERSION \<or> version = LEGACY_ACTOR_CHECKPOINT_VERSION" by blast
  show thesis
  proof (cases "decodeCheckpoint kc (sc_payload c)")
    case (Inl e)
    with parsed assms show thesis by (auto simp: splitActorCheckpoint_def)
  next
    case decoded: (Inr s)
    let ?legacy = "version = LEGACY_ACTOR_CHECKPOINT_VERSION"
    let ?text = "if ?legacy then encodeActorCheckpointV4 kc s else encodeCheckpoint kc s"
    have "\<not> (version \<noteq> ACTOR_CHECKPOINT_VERSION \<and> version \<noteq> LEGACY_ACTOR_CHECKPOINT_VERSION)" using parsed(2) by blast
    then have split: "splitActorCheckpoint kc c = try_bind (of_runtime ?text) (\<lambda>canonical.
        if as_position s \<noteq> sc_position c \<or> kc_digest kc canonical \<noteq> sc_digest c then Inr (whole_checkpoint c)
        else try_bind (of_runtime (encodeCheckpointManifest kc s ?legacy)) (\<lambda>payload. Inr \<lparr>sp_payload = payload, sp_atoms = as_durable s, sp_encoding = 1\<rparr>))"
      unfolding splitActorCheckpoint_def parsed(1) option.case actor_document.case decoded sum.case Let_def by (simp only: if_False)
    from assms [unfolded split] obtain canonical where "of_runtime ?text = Inr canonical"
      and rest: "(if as_position s \<noteq> sc_position c \<or> kc_digest kc canonical \<noteq> sc_digest c then Inr (whole_checkpoint c)
        else try_bind (of_runtime (encodeCheckpointManifest kc s ?legacy)) (\<lambda>payload. Inr \<lparr>sp_payload = payload, sp_atoms = as_durable s, sp_encoding = 1\<rparr>)) = Inr split"
      by (cases "of_runtime ?text") simp_all
    then have canonical: "?text = Inr canonical" by (simp only: of_runtime_Inr)
    show thesis
    proof (cases "as_position s \<noteq> sc_position c \<or> kc_digest kc canonical \<noteq> sc_digest c")
      case True
      with rest whole show thesis by auto
    next
      case False
      with rest manifest [OF decoded canonical] show thesis by auto
    qed
  qed
qed

lemma split_texts: "checkpoint_ok kc c \<Longrightarrow> splitActorCheckpoint kc c = Inr split \<Longrightarrow> list_all (atom_text_ok kc) (sp_atoms split) \<and> safe_integer (int (length (sp_payload split)))"
proof -
  assume ok: "checkpoint_ok kc c" and "splitActorCheckpoint kc c = Inr split"
  from this(2) show ?thesis
  proof (cases rule: split_cases)
    case whole
    with ok show ?thesis by (simp add: whole_checkpoint_def checkpoint_ok_def checkpoint_texts_ok_def)
  next
    case (manifest s legacy canonical)
    from ok manifest(1) have texts: "list_all (atom_text_ok kc) (as_durable s)" "manifest_text_ok kc (manifest_of s legacy)" by (simp_all add: checkpoint_ok_def checkpoint_texts_ok_def)
    with manifest_round_trip(2) [OF texts(2) manifest(5)] manifest(6) show ?thesis by (simp add: manifest_text_ok_def)
  qed
qed

lemma split_atom_texts: "splitActorCheckpoint kc c = Inr split \<Longrightarrow> kc_atomText kc ` set (sp_atoms split) \<subseteq> checkpoint_texts kc c"
  by (erule split_cases) (auto simp: whole_checkpoint_def checkpoint_texts_def)

lemma read_pinned:
  assumes "rows_ok t" "pins kc t a" "stored_atom_ok a"
  shows "read_reference kc t (atom_reference a) = Inr a"
proof -
  from assms(2) obtain r where r: "r \<in> set (kt_atoms t)" "ar_identity r = sa_identity a" "ar_position r = sa_position a" "read_row kc t r = Inr a"
    by (auto simp: pins_def row_key_def)
  with find_row [OF assms(1) r(1-3)] assms(3) show ?thesis
    by (auto simp: read_reference_def atom_reference_def readAtomCheckpoint_def stored_atom_ok_def complete_identity_def)
qed

lemma read_saved:
  assumes "rows_ok t" "no_collision kc (checkpoint_texts kc c)" "checkpoint_ok kc c" "saved kc t c"
  shows "readActorCheckpoint kc tag t = Inr (if tag \<noteq> None \<and> sc_tag c \<noteq> tag then None else Some c)"
proof -
  from assms(4) obtain split chunks n where split: "splitActorCheckpoint kc c = Inr split" and chunks: "encodeCheckpointChunks (sp_payload split) n = Inr chunks"
    and row: "kt_actor t = Some (actor_row_of kc c split (length chunks))" and stored: "actor_chunks t = chunks" and pinned: "list_all (pins kc t) (sp_atoms split)"
    by (auto simp: saved_def)
  let ?row = "actor_row_of kc c split (length chunks)"
  have payload: "decodeCheckpointChunks chunks (length (sp_payload split)) (length chunks) = Inr (sp_payload split)"
    using chunks_round_trip [OF chunks] split_texts [OF assms(3) split] by simp
  have "rebuild_payload kc t ?row (sp_payload split) = Inr (sc_payload c)"
    using split
  proof (cases rule: split_cases)
    case whole
    then show ?thesis by (simp add: rebuild_payload_def actor_row_of_def whole_checkpoint_def)
  next
    case (manifest s legacy canonical)
    have "kc_digest kc canonical = kc_digest kc (sc_payload c)" using manifest(4) assms(3) by (simp add: checkpoint_ok_def checkpoint_texts_ok_def)
    moreover have "canonical \<in> checkpoint_texts kc c" "sc_payload c \<in> checkpoint_texts kc c"
      using manifest(1,2) by (auto simp: checkpoint_texts_def split: if_splits)
    ultimately have canonical: "canonical = sc_payload c" using assms(2) unfolding no_collision_def by (blast dest: inj_onD)
    have m: "decodeCheckpointManifest kc (sp_payload split) = Inr (manifest_of s legacy)"
      using manifest_round_trip(1) [OF _ manifest(5)] assms(3) manifest(1) by (simp add: checkpoint_ok_def checkpoint_texts_ok_def)
    have "read_reference kc t (atom_reference a) = Inr a" if "a \<in> set (as_durable s)" for a
      using read_pinned [OF assms(1), of kc a] pinned decodeCheckpoint_atoms [OF manifest(1)] that manifest(6) by (simp add: list_all_iff)
    then have "map_try (read_reference kc t) (map atom_reference (as_durable s)) = Inr (as_durable s)"
      by (simp add: map_try_Inr_iff)
    moreover have state: "\<lparr>as_position = sc_position c, as_durable = as_durable s\<rparr> = s" using manifest(3) by (cases s) simp
    ultimately show ?thesis
      using manifest(2,3,7) m unfolding canonical
      by (cases legacy) (simp_all add: rebuild_payload_def actor_row_of_def manifest_of_def state Let_def)
  qed
  then show ?thesis
    using row payload stored assms(3) by (cases c) (auto simp: readActorCheckpoint_def actor_row_of_def given_or_def checkpoint_ok_def checkpoint_texts_ok_def)
qed

lemma insert_actor_chunk_Inr: "insert_actor_chunk c t = Inr t' \<longleftrightarrow> map_of (kt_actorChunks t) (ck_ordinal c) = None \<and>
    t' = t\<lparr>kt_actorChunks := kt_actorChunks t @ [(ck_ordinal c, ck_payload c)]\<rparr>"
  by (auto simp: insert_actor_chunk_def sql_insert_def)

lemma insert_actor_chunks: "fold_try insert_actor_chunk chunks t = Inr t' \<Longrightarrow> t' = t\<lparr>kt_actorChunks := kt_actorChunks t @ map (\<lambda>c. (ck_ordinal c, ck_payload c)) chunks\<rparr>"
proof (induction chunks arbitrary: t)
  case (Cons c chunks)
  then have "fold_try insert_actor_chunk chunks (t\<lparr>kt_actorChunks := kt_actorChunks t @ [(ck_ordinal c, ck_payload c)]\<rparr>) = Inr t'"
    by (auto simp: insert_actor_chunk_Inr)
  from Cons.IH [OF this] show ?case by simp
qed simp

lemma rows_ok_unpin: "rows_ok t \<Longrightarrow> rows_ok (unpin_atoms t)"
  by (simp add: rows_ok_def unpin_atoms_def row_key_def [abs_def] comp_def)

lemma write_actor_saved:
  assumes "rows_ok t" "no_collision kc (checkpoint_texts kc c)" "checkpoint_ok kc c" "writeActorCheckpoint kc c chunkBytes t = Inr t'"
  shows "rows_ok t'" "saved kc t' c"
proof -
  from assms(4) obtain split chunks u v where split: "splitActorCheckpoint kc c = Inr split" and chunks: "encodeCheckpointChunks (sp_payload split) chunkBytes = Inr chunks"
    and u: "write_atoms kc (sc_position c) chunkBytes True [] (sp_atoms split) (unpin_atoms t) = Inr u"
    and v: "fold_try insert_actor_chunk chunks (u\<lparr>kt_actorChunks := [], kt_actor := Some (actor_row_of kc c split (length chunks))\<rparr>) = Inr v"
    and t': "t' = collectAtomCheckpoints None v"
    by (auto simp: writeActorCheckpoint_def writeAtomCheckpoints_def)
  have texts: "list_all (atom_text_ok kc) (sp_atoms split)" using split_texts [OF assms(3) split] by blast
  have rows: "rows_ok u" "list_all (pins kc u) (sp_atoms split)"
    using write_atoms_ok [OF rows_ok_unpin [OF assms(1)] texts u assms(2) split_atom_texts [OF split]] by blast+
  have v_eq: "v = u\<lparr>kt_actorChunks := map (\<lambda>c. (ck_ordinal c, ck_payload c)) chunks, kt_actor := Some (actor_row_of kc c split (length chunks))\<rparr>"
    using insert_actor_chunks [OF v] by simp
  then have ok_v: "rows_ok v" using rows(1) by (simp add: rows_ok_def)
  then show "rows_ok t'" unfolding t' by (rule collect_ok)
  have "pins kc v a = pins kc u a" for a by (simp add: pins_def v_eq read_row_def atom_chunks_def)
  then have "pins kc u a \<Longrightarrow> pins kc t' a" for a using collect_pins [OF ok_v, of kc a None] by (simp add: t')
  with rows(2) have pinned: "list_all (pins kc t') (sp_atoms split)" by (simp add: list_all_iff)
  have "sort_key fst (map (\<lambda>c. (ck_ordinal c, ck_payload c)) chunks) = map (\<lambda>c. (ck_ordinal c, ck_payload c)) chunks"
    by (rule sort_key_sorted) (simp add: comp_def encode_chunks_ordinals [OF chunks])
  then have "actor_chunks t' = chunks" by (simp add: actor_chunks_def t' collectAtomCheckpoints_def Let_def v_eq comp_def chunk_eta)
  moreover have "kt_actor t' = Some (actor_row_of kc c split (length chunks))" by (simp add: t' collectAtomCheckpoints_def Let_def v_eq)
  ultimately show "saved kc t' c" using split chunks pinned unfolding saved_def by blast
qed

lemma write_atoms_saved:
  assumes "rows_ok t" "list_all (atom_text_ok kc) atoms" "writeAtomCheckpoints kc atoms position chunkBytes pin t = Inr t'"
    "no_collision kc texts" "kc_atomText kc ` set atoms \<subseteq> texts"
  shows "rows_ok t'" "checkpoint_texts kc c \<subseteq> texts \<Longrightarrow> saved kc t c \<Longrightarrow> saved kc t' c"
proof -
  note kept = write_atoms_ok [OF assms(1,2) assms(3) [unfolded writeAtomCheckpoints_def] assms(4,5)]
  then show "rows_ok t'" by blast
  assume within: "checkpoint_texts kc c \<subseteq> texts" and "saved kc t c"
  then obtain split chunks n where split: "splitActorCheckpoint kc c = Inr split" "encodeCheckpointChunks (sp_payload split) n = Inr chunks"
    "kt_actor t = Some (actor_row_of kc c split (length chunks))" "actor_chunks t = chunks" "list_all (pins kc t) (sp_atoms split)" by (auto simp: saved_def)
  have "list_all (pins kc t') (sp_atoms split)"
    using kept split(5) split_atom_texts [OF split(1)] within unfolding list_all_iff by blast
  with split(1-4) kept show "saved kc t' c" unfolding saved_def actor_chunks_def by auto
qed

end
