(* ===== verification/SqlProperties.thy ===== *)
theory SqlProperties
  imports SqlFamilies SqlCheckpointFacts Engine
begin

text \<open>
  An SQL journal is a list of records: appending extends it in one step or not at all, and the reads of
  operations, invocations and families are those of the list. Its checkpoint reads back until it is replaced.
  A journal of two records, with a checkpoint of one atom, runs through the code's steps in the witnesses.
\<close>

section \<open>The invariant\<close>

definition sql_journal_ok :: "journal_codec \<Rightarrow> 'k family_keys \<Rightarrow> 'k sql_journal \<Rightarrow> recorded list \<Rightarrow> bool" where
  "sql_journal_ok cd defs s rs \<longleftrightarrow> journal_core cd (sj_tables s) rs \<and> jt_position (sj_tables s) = Some (length rs) \<and> families_ok defs (sj_tables s) rs \<and>
     list_all (\<lambda>(name, f). jf_name f = name \<and> declared defs f) (sj_families s) \<and> distinct (map fst (sj_families s)) \<and> safe_integer (int (length rs))"

lemma prepare_ok:
  assumes "sql_journal_ok cd defs s rs" "declared defs f" "prepare cd opts f (length rs) s = (r, s')"
  shows "sql_journal_ok cd defs s' rs \<and> same_journal (sj_tables s) (sj_tables s') \<and> (\<forall>u. r = Inr u \<longrightarrow> family_position f (sj_tables s') = Some (length rs))"
proof (cases "list_all js_space (jf_name f) \<or> list_all js_space (jf_version f)")
  case True
  with assms show ?thesis by (auto simp: prepare_def)
next
  case False
  obtain r' t where loop: "prepare_loop cd (jo_familyBatch opts) f (length rs) (sj_tables s) = (r', t)" by fastforce
  with False assms(3) have s': "r = r'" "s' = s\<lparr>sj_tables := t, sj_families := js_set (jf_name f) f (sj_families s)\<rparr>"
    by (auto simp: prepare_def)
  have stores: "stores cd (sj_tables s) rs" and families: "families_ok defs (sj_tables s) rs" using assms(1) by (simp_all add: sql_journal_ok_def journal_core_def)
  note ok = prepare_loop_ok [OF stores families assms(2) loop]
  have "list_all (\<lambda>(name, f). jf_name f = name \<and> declared defs f) (js_set (jf_name f) f (sj_families s))"
    using assms(1,2) set_js_set [of "jf_name f" f "sj_families s"] by (auto simp: sql_journal_ok_def list_all_iff)
  with ok assms(1) core_same [of "sj_tables s" t cd rs] show ?thesis
    by (simp add: sql_journal_ok_def s') (simp add: same_journal_def)
qed

lemma catchUp_ok:
  assumes "sql_journal_ok cd defs s rs" "catchUp cd opts (length rs) s = (r, s')"
  shows "sql_journal_ok cd defs s' rs \<and> same_journal (sj_tables s) (sj_tables s')"
proof -
  have "sql_journal_ok cd defs s' rs \<and> same_journal (sj_tables s) (sj_tables s')"
    if "list_all (declared defs) fs" "sql_journal_ok cd defs s rs" "prepare_all cd opts fs (length rs) s = (r, s')" for fs s
    using that
  proof (induction fs arbitrary: s)
    case (Cons f fs)
    obtain r1 s1 where first: "prepare cd opts f (length rs) s = (r1, s1)" by fastforce
    with prepare_ok [of cd defs s rs f opts r1 s1] Cons.prems have ok: "sql_journal_ok cd defs s1 rs" "same_journal (sj_tables s) (sj_tables s1)" by simp_all
    show ?case
    proof (cases r1)
      case (Inl e)
      with first ok Cons.prems show ?thesis by simp
    next
      case (Inr u)
      with first Cons.prems have "prepare_all cd opts fs (length rs) s1 = (r, s')" by simp
      from Cons.IH [OF _ ok(1) this] Cons.prems(1) ok(2) same_journal_trans show ?thesis by auto
    qed
  qed simp
  moreover have "list_all (declared defs) (map snd (sj_families s))" using assms(1) by (auto simp: sql_journal_ok_def list_all_iff)
  ultimately show ?thesis using assms by (simp add: catchUp_def)
qed

text \<open>Catching up leaves checkpoints and wakes alone.\<close>

definition same_store :: "'k sql_journal \<Rightarrow> 'k sql_journal \<Rightarrow> bool" where
  "same_store s s' \<longleftrightarrow> sj_checkpoints s' = sj_checkpoints s \<and> sj_wakes s' = sj_wakes s"

lemma catchUp_store: "catchUp cd opts n s = (r, s') \<Longrightarrow> same_store s s'"
proof -
  have step: "prepare cd opts f n s = (r, s') \<Longrightarrow> same_store s s'" for f r s and s' :: "'a sql_journal"
    by (auto simp: prepare_def same_store_def split: if_split_asm prod.split_asm)
  have "prepare_all cd opts fs n s = (r, s') \<Longrightarrow> same_store s s'" for fs
  proof (induction fs arbitrary: s)
    case (Cons f fs)
    obtain r1 s1 where first: "prepare cd opts f n s = (r1, s1)" by fastforce
    with Cons.prems Cons.IH [of s1] step [OF first] show ?case by (cases r1) (auto simp: same_store_def)
  qed (simp add: same_store_def)
  then show "catchUp cd opts n s = (r, s') \<Longrightarrow> same_store s s'" by (simp add: catchUp_def)
qed

section \<open>Appending\<close>

lemma fold_try_map: "fold_try f (map g xs) s = fold_try (\<lambda>x. f (g x)) xs s"
proof (induction xs arbitrary: s)
  case (Cons x xs)
  show ?case by (cases "f (g x) s") (simp_all add: Cons.IH)
qed simp

lemma enumerate_appended: "enumerate 0 new = map (\<lambda>i. (i - length rs, (rs @ new) ! i)) [length rs..<length rs + length new]"
  by (rule nth_equalityI) (simp_all add: nth_enumerate_eq nth_append)

lemma fold_try_cong: "(\<And>x. x \<in> set xs \<Longrightarrow> f x = g x) \<Longrightarrow> fold_try f xs s = fold_try g xs s"
proof (induction xs arbitrary: s)
  case (Cons x xs)
  have "try_bind (g x s) (fold_try f xs) = try_bind (g x s) (fold_try g xs)"
    by (rule try_bind_cong) (use Cons in auto)
  with Cons.prems show ?case by simp
qed simp

lemma append_family_ok:
  assumes "families_ok defs t (rs @ new)" "declared defs f" "append_family (length rs) new f t = Inr t'"
  shows "families_ok defs t' (rs @ new)" "same_journal t t'"
proof -
  let ?all = "rs @ new" and ?n = "length rs" and ?m = "length rs + length new"
  from assms(3) obtain u where u: "family_position f t = Some ?n" "t' = set_family f ?m u"
      "fold_try (\<lambda>(offset, r) t. index_family f (?n + offset) r t) (enumerate 0 new) t = Inr u"
    by (auto simp: append_family_def split: if_splits)
  have "fold_try (\<lambda>(offset, r) t. index_family f (?n + offset) r t) (enumerate 0 new) t = fold_try (\<lambda>i. index_family f i (?all ! i)) [?n..<?m] t"
    unfolding enumerate_appended [of new rs] fold_try_map by (rule fold_try_cong) simp
  with u(3) have fold: "fold_try (\<lambda>i. index_family f i (?all ! i)) [?n..<?m] t = Inr u" by simp
  have indexed: "family_indexed f t (take ?n ?all)" using families_okD [OF assms(1,2) u(1)] by simp
  show "families_ok defs t' (rs @ new)"
    unfolding u(2) by (rule families_ok_index [OF assms(1,2) indexed _ _ fold]) simp_all
  have "same_journal t u" using family_indexed_fold(3) [OF indexed fold] same_journal_simps(2) [of t "jt_keys u"] by simp
  then show "same_journal t t'" unfolding u(2) by (rule same_journal_trans) simp
qed

lemma append_families_ok:
  assumes "families_ok defs t (rs @ new)" "list_all (declared defs) fs" "fold_try (append_family (length rs) new) fs t = Inr t'"
  shows "families_ok defs t' (rs @ new) \<and> same_journal t t'"
  using assms
proof (induction fs arbitrary: t)
  case (Cons f fs)
  then obtain u where u: "append_family (length rs) new f t = Inr u" "fold_try (append_family (length rs) new) fs u = Inr t'" by auto
  with Cons.prems append_family_ok [OF Cons.prems(1) _ u(1)] have "families_ok defs u (rs @ new)" "same_journal t u" by simp_all
  with Cons.IH [OF this(1) _ u(2)] Cons.prems(2) same_journal_trans show ?case by auto
qed simp

text \<open>Inputs are stored beside the records.\<close>

definition same_records :: "'k journal_tables \<Rightarrow> 'k journal_tables \<Rightarrow> bool" where
  "same_records t t' \<longleftrightarrow> jt_events t' = jt_events t \<and> jt_chunks t' = jt_chunks t \<and> jt_messages t' = jt_messages t \<and> jt_requests t' = jt_requests t \<and>
     jt_lifecycle t' = jt_lifecycle t \<and> jt_position t' = jt_position t \<and> jt_keys t' = jt_keys t \<and> jt_families t' = jt_families t"

lemma same_records_trans: "same_records t u \<Longrightarrow> same_records u v \<Longrightarrow> same_records t v"
  by (simp add: same_records_def)

lemma put_input_records: "put_input cd i t = Inr t' \<Longrightarrow> same_records t t'"
proof -
  have chunks: "fold_try (insert_input_chunk key) cs u = Inr t' \<Longrightarrow> same_records u t'" for key cs u
    by (induction cs arbitrary: u) (auto simp: insert_input_chunk_def same_records_def)
  show "put_input cd i t = Inr t' \<Longrightarrow> same_records t t'"
    by (auto simp: put_input_def same_records_def dest!: chunks split: option.splits if_splits)
qed

lemma inputs_records:
  assumes "fold_try (put_input cd) inputs t = Inr u"
  shows "same_records t (fold remove_input refs u)"
proof -
  have "same_records t u" by (rule fold_try_invariant [OF assms, of "same_records t"]) (auto simp: same_records_def dest: put_input_records)
  moreover have "same_records u (fold remove_input refs u)" for u
  proof (induction refs arbitrary: u)
    case (Cons ref refs)
    have "same_records u (remove_input ref u)" by (simp add: same_records_def remove_input_def)
    with Cons.IH [of "remove_input ref u"] same_records_trans show ?case by auto
  qed (simp add: same_records_def)
  ultimately show ?thesis by (rule same_records_trans)
qed

lemma core_records: "same_records t t' \<Longrightarrow> journal_core cd t' rs = journal_core cd t rs"
proof -
  assume same: "same_records t t'"
  then have "readSqlJournalRecord cd t' (j, x) = readSqlJournalRecord cd t (j, x)" for j x
    by (intro read_record_cong) (simp add: record_chunks_def same_records_def)
  with same show ?thesis by (simp add: journal_core_def stores_def stored_row_def indexed_def messages_ok_def same_records_def)
qed

lemma core_position: "journal_core cd (t\<lparr>jt_position := p\<rparr>) rs = journal_core cd t rs"
proof -
  have "readSqlJournalRecord cd (t\<lparr>jt_position := p\<rparr>) (j, x) = readSqlJournalRecord cd t (j, x)" for j x
    by (intro read_record_cong) (simp add: record_chunks_def)
  then show ?thesis by (simp add: journal_core_def stores_def stored_row_def indexed_def messages_ok_def)
qed

lemma map_try_length: "map_try f xs = Inr ys \<Longrightarrow> length ys = length xs"
  by (metis map_try_Inr_iff length_map)

lemma append_work_ok:
  assumes "journal_core cd t rs" "families_ok defs t rs" "list_all (declared defs) fs" "map_try (encode_record cd opts) new = Inr encoded"
    "\<forall>r\<in>set new. codec_ok cd r" "append_work cd expected (zip new encoded) fs inputs refs t = Inr t'"
  shows "expected = length rs" "journal_core cd t' (rs @ new)" "families_ok defs t' (rs @ new)"
    "jt_position t' = map_option (\<lambda>_. length (rs @ new)) (jt_position t)"
proof -
  have len: "length encoded = length new" using map_try_length [OF assms(4)] .
  have fst: "map fst (zip new encoded) = new" "length (zip new encoded) = length new" using len by simp_all
  have n: "table_length t = length rs" using assms(1) table_length_stores [of cd t rs] by (simp add: journal_core_def)
  from assms(6) n show expected: "expected = length rs" by (auto simp: append_work_def split: if_splits)
  let ?at = "\<lambda>u. u\<lparr>jt_position := map_option (\<lambda>_. length rs + length new) (jt_position u)\<rparr>"
  from assms(6) n fst obtain u v w where
    u: "fold_try (\<lambda>(i, e). insert_event (length rs + i) e) (enumerate 0 (zip new encoded)) t = Inr u" and
    v: "fold_try (append_family (length rs) new) fs (?at u) = Inr v" and
    w: "fold_try (put_input cd) inputs v = Inr w" "t' = fold remove_input refs w"
    by (auto simp: append_work_def expected split: if_splits)
  from insert_events_core [OF assms(1,4,5) _ u] have core: "journal_core cd u (rs @ new)" and rest: "same_rest t u" by simp_all
  have "families_ok defs (?at u) (rs @ new)"
    using families_ok_append [OF assms(2)] rest families_ok_cong [of "?at u" t] by (simp add: same_rest_def)
  from append_families_ok [OF this assms(3) v] have families: "families_ok defs v (rs @ new)" and same: "same_journal (?at u) v" by simp_all
  have records: "same_records v t'" unfolding w(2) by (rule inputs_records [OF w(1)])
  have "journal_core cd (?at u) (rs @ new)" using core by (simp add: core_position)
  with same records core_same core_records show "journal_core cd t' (rs @ new)" by blast
  show "families_ok defs t' (rs @ new)" using families records families_ok_cong [of t' v] by (simp add: same_records_def)
  show "jt_position t' = map_option (\<lambda>_. length (rs @ new)) (jt_position t)"
    using records same rest by (simp add: same_records_def same_journal_def same_rest_def)
qed

text \<open>The cases of an append.\<close>

lemma sqlAppend_cases:
  assumes "sqlAppend cd kc opts expected rs saving changes s = (result, s')"
  obtains (rejected) e where "result = Inl e" "s' = s"
  | (stopped) e s1 where "result = Inl e" "s' = s1" "catchUp cd opts (table_length (sj_tables s)) s = (Inl e, s1)"
  | (worked) s1 encoded where "append_encoded cd kc opts expected rs saving changes = Inr encoded"
      "s1 = s \<and> sj_families s = [] \<or> catchUp cd opts (table_length (sj_tables s)) s = (Inr (), s1)"
      "case append_all cd kc opts (nat expected) rs saving changes encoded s1 of Inl e \<Rightarrow> result = Inl e \<and> s' = s1 | Inr u \<Rightarrow> result = Inr () \<and> s' = u"
proof (cases "append_encoded cd kc opts expected rs saving changes")
  case (Inl e)
  with assms rejected [of "Failed e"] show thesis by (simp add: sqlAppend_def)
next
  case encoded: (Inr encoded)
  let ?caught = "if sj_families s = [] then (Inr (), s) else catchUp cd opts (table_length (sj_tables s)) s"
  obtain r1 s1 where caught: "?caught = (r1, s1)" by fastforce
  note run = assms [unfolded sqlAppend_def encoded sum.case caught prod.case]
  show thesis
  proof (cases r1)
    case (Inl e)
    with run caught stopped show thesis by (auto split: if_split_asm)
  next
    case (Inr v)
    with caught have "s1 = s \<and> sj_families s = [] \<or> catchUp cd opts (table_length (sj_tables s)) s = (Inr (), s1)" by (auto split: if_split_asm)
    moreover from run Inr have "case append_all cd kc opts (nat expected) rs saving changes encoded s1 of Inl e \<Rightarrow> result = Inl e \<and> s' = s1 | Inr u \<Rightarrow> result = Inr () \<and> s' = u"
      by (simp split: sum.split_asm)
    ultimately show thesis by (rule worked [OF encoded])
  qed
qed

lemma append_encoded_Inr:
  assumes "append_encoded cd kc opts expected rs saving changes = Inr encoded"
  shows "0 \<le> expected" "map_try (encode_record cd opts) rs = Inr (fst encoded)"
    "\<And>c. saving = Some c \<Longrightarrow> sc_digest c = kc_digest kc (sc_payload c) \<and> safe_integer (int (sc_position c)) \<and> int (sc_position c) = expected + int (length rs)"
  using assms by (auto simp: append_encoded_def position_checked_def checkpoint_checked_def split: if_split_asm option.split_asm)

text \<open>
  C14. An append that succeeds was given the length of the journal and adds its records in order; one that
  fails, for any reason, leaves the same records, checkpoints and wakes, even when the indexes of families
  were caught up before.
\<close>

theorem sql_append_atomic:
  assumes "sql_journal_ok cd defs s rs" "\<forall>r\<in>set new. codec_ok cd r" "safe_integer (int (length rs + length new))"
    "sqlAppend cd kc opts expected new saving changes s = (result, s')"
  shows "case result of Inr _ \<Rightarrow> expected = int (length rs) \<and> sql_journal_ok cd defs s' (rs @ new) | Inl _ \<Rightarrow> sql_journal_ok cd defs s' rs \<and> same_store s s'"
proof -
  have n: "table_length (sj_tables s) = length rs" using assms(1) table_length_stores [of cd "sj_tables s" rs] by (simp add: sql_journal_ok_def journal_core_def)
  have caught: "sql_journal_ok cd defs s1 rs \<and> same_store s s1" if "catchUp cd opts (table_length (sj_tables s)) s = (r1, s1)" for r1 s1
    using catchUp_ok [OF assms(1), of opts r1 s1] that catchUp_store [OF that] unfolding n by blast
  from assms(4) show ?thesis
  proof (cases rule: sqlAppend_cases)
    case (rejected e)
    with assms(1) show ?thesis by (simp add: same_store_def)
  next
    case (stopped e s1)
    with caught [OF stopped(3)] show ?thesis by simp
  next
    case (worked s1 encoded)
    have ok: "sql_journal_ok cd defs s1 rs" "same_store s s1" using worked(2) assms(1) caught by (auto simp: same_store_def)
    show ?thesis
    proof (cases "append_all cd kc opts (nat expected) new saving changes encoded s1")
      case (Inl e)
      with worked(3) ok show ?thesis by simp
    next
      case (Inr u)
      then obtain t ck w where t: "append_work cd (nat expected) (zip new (fst encoded)) (map snd (sj_families s1)) (snd encoded) (jg_remove changes) (sj_tables s1) = Inr t"
        and u: "u = s1\<lparr>sj_tables := t, sj_checkpoints := ck, sj_wakes := w\<rparr>" by (auto simp: append_all_def split_beta)
      have core: "journal_core cd (sj_tables s1) rs" "families_ok defs (sj_tables s1) rs" "list_all (declared defs) (map snd (sj_families s1))"
        using ok(1) by (auto simp: sql_journal_ok_def list_all_iff)
      note work = append_work_ok [OF core append_encoded_Inr(2) [OF worked(1)] assms(2) t]
      have "expected = int (length rs)" using work(1) append_encoded_Inr(1) [OF worked(1)] by linarith
      moreover have "result = Inr ()" "s' = u" using worked(3) Inr by simp_all
      ultimately show ?thesis using work ok(1) assms(3) by (simp add: u sql_journal_ok_def)
    qed
  qed
qed

text \<open>What the tables accept, an append adds.\<close>

lemma insert_chunks_total:
  assumes "distinct (map ck_ordinal cs)" "\<forall>c\<in>set cs. map_of (jt_chunks t) (seq, ck_ordinal c) = None"
  shows "\<exists>t'. fold_try (insert_chunk seq) cs t = Inr t'"
  using assms
proof (induction cs arbitrary: t)
  case (Cons c cs)
  let ?u = "t\<lparr>jt_chunks := jt_chunks t @ [((seq, ck_ordinal c), ck_payload c)]\<rparr>"
  have "insert_chunk seq c t = Inr ?u" using Cons.prems(2) by (simp add: insert_chunk_Inr)
  moreover have "\<exists>t'. fold_try (insert_chunk seq) cs ?u = Inr t'"
    using Cons.prems by (intro Cons.IH) (auto simp: map_add_def image_iff)
  ultimately show ?case by simp
qed simp

lemma insert_event_total:
  assumes "journal_core cd t rs" "encode_record cd opts r = Inr (stored, chunks)" "indexable (length rs) r"
    "distinct (map fst (entries_of request_entry (rs @ [r])))" "distinct (map fst (entries_of message_entry (rs @ [r])))"
  shows "\<exists>t'. insert_event (length rs) (r, stored, chunks) t = Inr t'"
proof -
  let ?n = "length rs"
  have ok: "stores cd t rs" "jt_requests t = entries_of request_entry rs" "jt_lifecycle t = entries_of lifecycle_entry rs" "jt_messages t = entries_of message_entry rs"
    using assms(1) by (simp_all add: journal_core_def indexed_def messages_ok_def)
  have chunks: "distinct (map ck_ordinal chunks)" using encode_record_Inr [OF assms(2)] by (auto simp: encode_chunks_ordinals)
  have "map_of (jt_chunks t) (?n, k) = None" for k using ok(1) by (force simp: stores_def map_of_eq_None_iff)
  then obtain u where u: "fold_try (insert_chunk ?n) chunks (t\<lparr>jt_events := jt_events t @ [(?n, stored)]\<rparr>) = Inr u"
    using insert_chunks_total [OF chunks, of "t\<lparr>jt_events := jt_events t @ [(?n, stored)]\<rparr>" ?n] by auto
  have same: "jt_requests u = jt_requests t" "jt_lifecycle u = jt_lifecycle t" "jt_messages u = jt_messages t" using insert_chunks_Inr [OF u] by simp_all
  have messages: "\<forall>k\<in>set (map fst (message_entry ?n r)). map_of (jt_messages u) k = None"
    using assms(5) unfolding same ok map_of_eq_None_iff by auto
  let ?v = "u\<lparr>jt_messages := jt_messages u @ message_entry ?n r\<rparr>"
  have requests: "\<forall>k\<in>set (map fst (request_entry ?n r)). map_of (jt_requests ?v) k = None"
    using assms(4) by (auto simp: same ok map_of_eq_None_iff)
  have "x \<notin> set (entries_of lifecycle_entry rs)" if "x \<in> set (lifecycle_entry ?n r)" for x
    using that by (auto simp: set_entries_of lifecycle_entry_def split: journal_event.splits option.splits)
  then have lifecycle: "set (lifecycle_entry ?n r) \<inter> set (jt_lifecycle ?v) = {}" by (auto simp: same ok)
  have "indexInvocationRecord ?n r ?v = Inr (?v\<lparr>jt_requests := jt_requests ?v @ request_entry ?n r, jt_lifecycle := jt_lifecycle ?v @ lifecycle_entry ?n r\<rparr>)"
    using assms(3) requests lifecycle by (simp only: index_record_Inr simp_thms)
  moreover have "insert_message ?n r u = Inr ?v" using messages by (simp only: insert_message_Inr simp_thms)
  moreover have "map_of (jt_events t) ?n = None" by (simp add: map_of_stores [OF ok(1)])
  ultimately show ?thesis using u by (simp add: insert_event_def sql_insert_def)
qed

lemma distinct_entries_prefix: "distinct (map fst (entries_of f (rs @ new))) \<Longrightarrow> distinct (map fst (entries_of f rs))"
proof (induction new rule: rev_induct)
  case (snoc r new)
  then show ?case by (simp add: append_assoc [symmetric] del: append_assoc)
qed simp

lemma insert_events_total:
  assumes "journal_core cd t rs" "map_try (encode_record cd opts) new = Inr encoded" "\<forall>r\<in>set new. codec_ok cd r" "length rs = k + j"
    "\<forall>i < length (rs @ new). indexable i ((rs @ new) ! i)"
    "distinct (map fst (entries_of request_entry (rs @ new)))" "distinct (map fst (entries_of message_entry (rs @ new)))"
  shows "\<exists>t'. fold_try (\<lambda>(i, e). insert_event (k + i) e) (enumerate j (zip new encoded)) t = Inr t'"
  using assms
proof (induction new arbitrary: rs t j encoded)
  case (Cons r new)
  from Cons.prems(2) obtain stored chunks rest where encoded: "encode_record cd opts r = Inr (stored, chunks)"
      "map_try (encode_record cd opts) new = Inr rest" "encoded = (stored, chunks) # rest" by auto
  have split: "rs @ r # new = (rs @ [r]) @ new" by simp
  have "indexable (length rs) r" using Cons.prems(5) by (auto dest: spec [of _ "length rs"])
  from insert_event_total [OF Cons.prems(1) encoded(1) this] distinct_entries_prefix [OF Cons.prems(6) [unfolded split]]
    distinct_entries_prefix [OF Cons.prems(7) [unfolded split]]
  obtain u where u: "insert_event (length rs) (r, stored, chunks) t = Inr u" by blast
  have "journal_core cd u (rs @ [r])"
    using Cons.prems(1,3) insert_event_stores [OF _ encoded(1) _ u] insert_event_indexed [OF _ _ u] by (simp add: journal_core_def)
  moreover have "length (rs @ [r]) = k + Suc j" using Cons.prems(4) by simp
  ultimately have "\<exists>t'. fold_try (\<lambda>(i, e). insert_event (k + i) e) (enumerate (Suc j) (zip new rest)) u = Inr t'"
    using Cons.prems(3,5-7) encoded(2) unfolding split by (intro Cons.IH) auto
  with u Cons.prems(4) show ?case by (auto simp: encoded(3))
qed simp

text \<open>The indexes of other families are left alone, so after catching up every open family is indexed.\<close>

lemma index_rows_families:
  assumes "fold_try (index_row cd message p (index_family f)) rows t = Inr t'"
  shows "jt_families t' = jt_families t"
proof (rule fold_try_invariant [OF assms, of "\<lambda>u. jt_families u = jt_families t"])
  fix x u u' assume "jt_families u = jt_families t" "index_row cd message p (index_family f) x u = Inr u'"
  then show "jt_families u' = jt_families t" by (auto simp: index_row_def index_family_Inr split: prod.splits if_splits)
qed simp

lemma set_family_other: "name \<noteq> jf_name f \<Longrightarrow> map_of (jt_families (set_family f p t)) name = map_of (jt_families t) name"
  by (simp add: set_family_def)

lemma prepare_loop_other:
  "prepare_loop cd batch f n t = (r, t') \<Longrightarrow> name \<noteq> jf_name f \<Longrightarrow> map_of (jt_families t') name = map_of (jt_families t) name"
proof (induction cd batch f n t rule: prepare_loop.induct)
  case (1 cd batch f n t)
  have step: "map_of (jt_families u) name = map_of (jt_families t) name" if batch: "prepare_batch cd batch f n t = Inr (u, complete)" for u complete
  proof (cases "family_position f t = Some n")
    case True
    with batch show ?thesis by (simp add: prepare_batch_def)
  next
    case False
    let ?t = "if family_position f t = None then clear_keys f t else t"
    from batch False obtain v p rows q where "fold_try (index_row cd ''Invalid family index journal sequence'' p (index_family f)) rows ?t = Inr v" "u = set_family f q v"
      by (auto simp: prepare_batch_def Let_def split: if_splits)
    with index_rows_families [OF this(1)] set_family_other [OF "1.prems"(2)] show ?thesis by (simp add: clear_keys_def split: if_splits)
  qed
  show ?case
  proof (cases "batch = 0")
    case True
    with "1.prems" show ?thesis by (simp add: prepare_loop.simps)
  next
    case False
    show ?thesis
    proof (cases "prepare_batch cd batch f n t")
      case (Inl e)
      with "1.prems" False show ?thesis by (simp add: prepare_loop.simps [of cd batch f n t])
    next
      case (Inr x)
      obtain u complete where x: "x = (u, complete)" by fastforce
      show ?thesis
      proof (cases complete)
        case True
        with "1.prems" False Inr x step show ?thesis by (simp add: prepare_loop.simps [of cd batch f n t])
      next
        case incomplete: False
        with "1.prems" False Inr x have "prepare_loop cd batch f n u = (r, t')" by (simp add: prepare_loop.simps [of cd batch f n t])
        from "1.IH" [OF False Inr x [symmetric] incomplete this "1.prems"(2)] step Inr x show ?thesis by simp
      qed
    qed
  qed
qed

text \<open>An open family can be indexed over a journal: it has a name and a version, and its keys can be computed.\<close>

definition indexes :: "journal_options \<Rightarrow> recorded list \<Rightarrow> 'k journal_family \<Rightarrow> bool" where
  "indexes opts rs f \<longleftrightarrow> 0 < jo_familyBatch opts \<and> \<not> list_all js_space (jf_name f) \<and> \<not> list_all js_space (jf_version f) \<and> (\<forall>i < length rs. keyed f i (rs ! i))"

lemma indexes_prefix: "indexes opts (rs @ new) f \<Longrightarrow> indexes opts rs f"
  unfolding indexes_def by (metis length_append nth_append trans_less_add1)

lemma prepare_total:
  assumes "sql_journal_ok cd defs s rs" "(name, f) \<in> set (sj_families s)" "indexes opts rs f"
  obtains t where "prepare cd opts f (length rs) s = (Inr (), s\<lparr>sj_tables := t\<rparr>)" "family_position f t = Some (length rs)"
    "\<And>name. name \<noteq> jf_name f \<Longrightarrow> map_of (jt_families t) name = map_of (jt_families (sj_tables s)) name"
proof -
  have core: "stores cd (sj_tables s) rs" "families_ok defs (sj_tables s) rs" using assms(1) by (simp_all add: sql_journal_ok_def journal_core_def)
  have f: "jf_name f = name" "declared defs f" "map_of (sj_families s) name = Some f" "distinct (map fst (sj_families s))"
    using assms(1,2) by (auto simp: sql_journal_ok_def list_all_iff)
  have "fst (prepare_loop cd (jo_familyBatch opts) f (length rs) (sj_tables s)) = Inr ()"
    by (rule prepare_loop_total [OF core f(2)]) (use assms(3) in \<open>simp_all add: indexes_def\<close>)
  then obtain t where loop: "prepare_loop cd (jo_familyBatch opts) f (length rs) (sj_tables s) = (Inr (), t)" by (metis prod.collapse)
  have "js_set (jf_name f) f (sj_families s) = sj_families s" unfolding f(1) by (rule js_set_same [OF f(3,4)])
  with loop assms(3) have "prepare cd opts f (length rs) s = (Inr (), s\<lparr>sj_tables := t\<rparr>)" by (simp add: prepare_def indexes_def)
  moreover have "family_position f t = Some (length rs)" using prepare_loop_ok [OF core f(2) loop] by blast
  ultimately show thesis using prepare_loop_other [OF loop] that by blast
qed

lemma family_position_other:
  "jf_name g \<noteq> jf_name f \<Longrightarrow> (\<And>name. name \<noteq> jf_name f \<Longrightarrow> map_of (jt_families t') name = map_of (jt_families t) name) \<Longrightarrow>
    family_position g t' = family_position g t"
  by (simp add: family_position_def)

lemma catchUp_total:
  assumes "sql_journal_ok cd defs s rs" "list_all (indexes opts rs) (map snd (sj_families s))"
  obtains t where "catchUp cd opts (length rs) s = (Inr (), s\<lparr>sj_tables := t\<rparr>)"
    "list_all (\<lambda>f. family_position f t = Some (length rs)) (map snd (sj_families s))"
proof -
  have "\<exists>t. prepare_all cd opts (map snd fs) (length rs) s = (Inr (), s\<lparr>sj_tables := t\<rparr>) \<and>
      list_all (\<lambda>f. family_position f t = Some (length rs)) (map snd fs) \<and>
      (\<forall>name. name \<notin> fst ` set fs \<longrightarrow> map_of (jt_families t) name = map_of (jt_families (sj_tables s)) name)"
    if "set fs \<subseteq> set (sj_families s)" "distinct (map fst fs)" "sql_journal_ok cd defs s rs" "list_all (indexes opts rs) (map snd (sj_families s))" for fs s
    using that
  proof (induction fs arbitrary: s)
    case Nil
    show ?case by (rule exI [of _ "sj_tables s"]) simp
  next
    case (Cons x fs)
    obtain name f where x: "x = (name, f)" by fastforce
    with Cons.prems have entry: "(name, f) \<in> set (sj_families s)" "indexes opts rs f" by (auto simp: list_all_iff)
    then have name: "jf_name f = name" "declared defs f" using Cons.prems(3) by (auto simp: sql_journal_ok_def list_all_iff)
    from prepare_total [OF Cons.prems(3) entry] obtain u where u: "prepare cd opts f (length rs) s = (Inr (), s\<lparr>sj_tables := u\<rparr>)"
      "family_position f u = Some (length rs)" "\<And>name. name \<noteq> jf_name f \<Longrightarrow> map_of (jt_families u) name = map_of (jt_families (sj_tables s)) name" by blast
    from prepare_ok [OF Cons.prems(3) name(2) u(1)] have ok: "sql_journal_ok cd defs (s\<lparr>sj_tables := u\<rparr>) rs" by blast
    from Cons.IH [OF _ _ ok] Cons.prems obtain t where t: "prepare_all cd opts (map snd fs) (length rs) (s\<lparr>sj_tables := u\<rparr>) = (Inr (), s\<lparr>sj_tables := t\<rparr>)"
      "list_all (\<lambda>f. family_position f t = Some (length rs)) (map snd fs)"
      "\<forall>name. name \<notin> fst ` set fs \<longrightarrow> map_of (jt_families t) name = map_of (jt_families u) name" by auto
    have "name \<notin> fst ` set fs" using Cons.prems(2) x by simp
    then have "family_position f t = family_position f u" using t(3) name(1) by (simp add: family_position_def)
    with t u x name(1) show ?case by (intro exI [of _ t]) auto
  qed
  from this [of "sj_families s" s] assms that show thesis unfolding catchUp_def by (auto simp: sql_journal_ok_def)
qed

text \<open>Then every open family takes the new records.\<close>

lemma append_families_total:
  assumes "families_ok defs t (rs @ new)" "list_all (declared defs) fs" "distinct (map jf_name fs)" "list_all (indexes opts (rs @ new)) fs"
    "list_all (\<lambda>f. family_position f t = Some (length rs)) fs"
  shows "\<exists>t'. fold_try (append_family (length rs) new) fs t = Inr t' \<and> list_all (\<lambda>f. family_position f t' = Some (length (rs @ new))) fs \<and>
    (\<forall>g. jf_name g \<notin> jf_name ` set fs \<longrightarrow> family_position g t' = family_position g t)"
  using assms
proof (induction fs arbitrary: t)
  case (Cons f fs)
  let ?all = "rs @ new" and ?n = "length rs" and ?m = "length rs + length new"
  have at: "family_position f t = Some ?n" "declared defs f" "indexes opts ?all f" using Cons.prems by simp_all
  have fresh: "jf_name f \<notin> jf_name ` set fs" using Cons.prems(3) by simp
  have "family_indexed f t (take ?n ?all)" using families_okD [OF Cons.prems(1) at(2,1)] by simp
  from family_fold_total [OF this, of ?m] at(3) obtain u where u: "fold_try (\<lambda>i. index_family f i (?all ! i)) [?n..<?m] t = Inr u"
    unfolding indexes_def by auto
  moreover have "fold_try (\<lambda>(offset, r) t. index_family f (?n + offset) r t) (enumerate 0 new) t = fold_try (\<lambda>i. index_family f i (?all ! i)) [?n..<?m] t"
    unfolding enumerate_appended [of new rs] fold_try_map by (rule fold_try_cong) simp
  ultimately have step: "append_family ?n new f t = Inr (set_family f ?m u)" using at(1) by (simp add: append_family_def)
  have ok: "families_ok defs (set_family f ?m u) ?all" using append_family_ok(1) [OF Cons.prems(1) at(2) step] .
  have same: "jt_families u = jt_families t" using index_family_fold [OF u] by simp
  have others: "family_position g (set_family f ?m u) = family_position g t" if "jf_name g \<noteq> jf_name f" for g
    by (rule family_position_other [OF that]) (simp add: set_family_other same)
  have "list_all (\<lambda>g. family_position g (set_family f ?m u) = Some ?n) fs"
    using Cons.prems(5) fresh others by (auto simp: list_all_iff image_iff)
  with Cons.IH [OF ok] Cons.prems obtain v where v: "fold_try (append_family ?n new) fs (set_family f ?m u) = Inr v"
    "list_all (\<lambda>f. family_position f v = Some (length ?all)) fs"
    "\<And>g. jf_name g \<notin> jf_name ` set fs \<Longrightarrow> family_position g v = family_position g (set_family f ?m u)" by auto
  with step others fresh show ?case by (intro exI [of _ v]) simp
qed simp

lemma declared_families: "sql_journal_ok cd defs s rs \<Longrightarrow> list_all (declared defs) (map snd (sj_families s)) \<and> distinct (map jf_name (map snd (sj_families s)))"
proof -
  assume ok: "sql_journal_ok cd defs s rs"
  then have names: "map jf_name (map snd (sj_families s)) = map fst (sj_families s)" by (auto simp: sql_journal_ok_def list_all_iff)
  have "distinct (map jf_name (map snd (sj_families s)))" unfolding names using ok by (simp add: sql_journal_ok_def)
  moreover have "list_all (declared defs) (map snd (sj_families s))" using ok by (auto simp: sql_journal_ok_def list_all_iff)
  ultimately show ?thesis by blast
qed

lemma caught_up:
  assumes "sql_journal_ok cd defs s rs" "list_all (indexes opts rs) (map snd (sj_families s))"
  obtains t where "(if sj_families s = [] then (Inr (), s) else catchUp cd opts (table_length (sj_tables s)) s) = (Inr (), s\<lparr>sj_tables := t\<rparr>)"
    "list_all (\<lambda>f. family_position f t = Some (length rs)) (map snd (sj_families s))" "sql_journal_ok cd defs (s\<lparr>sj_tables := t\<rparr>) rs"
proof (cases "sj_families s = []")
  case True
  with assms(1) that [of "sj_tables s"] show thesis by simp
next
  case False
  have n: "table_length (sj_tables s) = length rs" using assms(1) table_length_stores [of cd "sj_tables s" rs] by (simp add: sql_journal_ok_def journal_core_def)
  from catchUp_total [OF assms] obtain t where t: "catchUp cd opts (length rs) s = (Inr (), s\<lparr>sj_tables := t\<rparr>)"
    "list_all (\<lambda>f. family_position f t = Some (length rs)) (map snd (sj_families s))" by blast
  with False n catchUp_ok [OF assms(1) t(1)] that show thesis by simp
qed

text \<open>
  C19. An append at the length of the journal that stores no inputs goes through, and indexes its records in
  every open family, when its records encode, are well formed at their positions and repeat no accepted
  invocation and no message, the open families have names and versions and can compute the keys of every
  record, and its checkpoint passes its checks and its snapshots, wakes and checkpoint can be written.
\<close>

theorem sql_append_succeeds:
  assumes "sql_journal_ok cd defs s rs" "list_all (indexes opts (rs @ new)) (map snd (sj_families s))" "jg_put changes = []"
    "map_try (encode_record cd opts) new = Inr encoded"
    "\<forall>r\<in>set new. codec_ok cd r" "\<forall>i < length (rs @ new). indexable i ((rs @ new) ! i)"
    "distinct (map fst (entries_of request_entry (rs @ new)))" "distinct (map fst (entries_of message_entry (rs @ new)))"
    "position_checked (int (length rs)) (length new) saving = Inr ()" "checkpoint_checked kc saving = Inr ()"
    "append_store kc (jo_chunkBytes opts) (length (rs @ new)) new saving (jg_atoms changes) (sj_checkpoints s) (sj_wakes s) = Inr (ck, w)"
  shows "\<exists>s'. sqlAppend cd kc opts (int (length rs)) new saving changes s = (Inr (), s') \<and> journal_core cd (sj_tables s') (rs @ new) \<and>
    families_ok defs (sj_tables s') (rs @ new) \<and> list_all (\<lambda>f. family_position f (sj_tables s') = Some (length (rs @ new))) (map snd (sj_families s')) \<and>
    sj_families s' = sj_families s \<and> sj_checkpoints s' = ck \<and> sj_wakes s' = w"
proof -
  let ?n = "length rs" and ?all = "rs @ new" and ?fs = "map snd (sj_families s)"
  let ?at = "\<lambda>u. u\<lparr>jt_position := map_option (\<lambda>_. ?n + length new) (jt_position u)\<rparr>"
  have fs: "list_all (declared defs) ?fs" "distinct (map jf_name ?fs)" using declared_families [OF assms(1)] by simp_all
  have prefix: "list_all (indexes opts rs) ?fs" using assms(2) by (auto simp: list_all_iff intro: indexes_prefix)
  obtain t1 where caught: "(if sj_families s = [] then (Inr (), s) else catchUp cd opts (table_length (sj_tables s)) s) = (Inr (), s\<lparr>sj_tables := t1\<rparr>)"
    and at: "list_all (\<lambda>f. family_position f t1 = Some ?n) ?fs" and ok: "sql_journal_ok cd defs (s\<lparr>sj_tables := t1\<rparr>) rs"
    using caught_up [OF assms(1) prefix] by blast
  then have t1: "journal_core cd t1 rs" "families_ok defs t1 rs" "safe_integer (int ?n)" "table_length t1 = ?n"
    using table_length_stores [of cd t1 rs] by (simp_all add: sql_journal_ok_def journal_core_def)
  obtain u where u: "fold_try (\<lambda>(i, e). insert_event (?n + i) e) (enumerate 0 (zip new encoded)) t1 = Inr u"
    using insert_events_total [OF t1(1) assms(4,5) _ assms(6-8)] by fastforce
  have rest: "same_rest t1 u" using insert_events_core [OF t1(1) assms(4,5) _ u] by simp
  have len: "length (zip new encoded) = length new" "map fst (zip new encoded) = new" using map_try_length [OF assms(4)] by simp_all
  have families: "families_ok defs (?at u) ?all"
    using families_ok_append [OF t1(2)] rest families_ok_cong [of "?at u" t1] by (simp add: same_rest_def)
  have "list_all (\<lambda>f. family_position f (?at u) = Some ?n) ?fs" using at rest by (simp add: list_all_iff family_position_def same_rest_def)
  from append_families_total [OF families fs assms(2) this] obtain v where
    v: "fold_try (append_family ?n new) ?fs (?at u) = Inr v" and placed: "list_all (\<lambda>f. family_position f v = Some (length ?all)) ?fs" by blast
  let ?t = "fold remove_input (jg_remove changes) v"
  have work: "append_work cd ?n (zip new encoded) ?fs [] (jg_remove changes) t1 = Inr ?t"
    using v by (simp add: append_work_def t1(4) u len del: length_zip)
  have "same_records v ?t" by (rule inputs_records [of cd "[]" v v]) simp
  then have positions: "list_all (\<lambda>f. family_position f ?t = Some (length ?all)) ?fs" using placed by (simp add: list_all_iff family_position_def same_records_def)
  let ?s = "s\<lparr>sj_tables := ?t, sj_checkpoints := ck, sj_wakes := w\<rparr>"
  have encoded: "append_encoded cd kc opts (int ?n) new saving changes = Inr (encoded, [])"
    using assms(3,4,9,10) by (simp add: append_encoded_def)
  have "append_all cd kc opts ?n new saving changes (encoded, []) (s\<lparr>sj_tables := t1\<rparr>) = Inr ?s"
    using work assms(11) by (simp add: append_all_def)
  then have "sqlAppend cd kc opts (int ?n) new saving changes s = (Inr (), ?s)"
    unfolding sqlAppend_def encoded sum.case caught prod.case by simp
  moreover have "journal_core cd ?t ?all" "families_ok defs ?t ?all"
    using append_work_ok(2,3) [OF t1(1,2) fs(1) assms(4,5) work] by simp_all
  ultimately show ?thesis using positions by (intro exI [of _ ?s]) simp
qed

section \<open>Checkpoints\<close>

text \<open>The texts whose digests an append compares: those of the saved checkpoint, of the one it saves, and of the snapshots it writes.\<close>

definition compared_texts :: "'j checkpoint_codec \<Rightarrow> stored_checkpoint \<Rightarrow> stored_checkpoint option \<Rightarrow> 'j stored_atom list \<Rightarrow> bytes set" where
  "compared_texts kc c0 saving atoms = checkpoint_texts kc c0 \<union> (case saving of None \<Rightarrow> {} | Some c \<Rightarrow> checkpoint_texts kc c) \<union> set (map (kc_atomText kc) atoms)"

lemma finite_compared_texts: "finite (compared_texts kc c0 saving atoms)"
  by (simp add: compared_texts_def finite_checkpoint_texts split: option.split)

lemma append_store_saved:
  assumes "append_store kc chunkBytes n rs saving atoms ck w = Inr (ck', w')" "rows_ok ck" "saved kc ck c0" "list_all (atom_text_ok kc) atoms"
    "no_collision kc (compared_texts kc c0 saving atoms)" "\<And>c. saving = Some c \<Longrightarrow> checkpoint_ok kc c"
  shows "rows_ok ck' \<and> saved kc ck' (case saving of None \<Rightarrow> c0 | Some c \<Rightarrow> c)"
proof -
  from assms(1) obtain u where u: "writeAtomCheckpoints kc atoms n chunkBytes False ck = Inr u"
    and ck': "(case saving of None \<Rightarrow> Inr u | Some c \<Rightarrow> writeActorCheckpoint kc c chunkBytes u) = Inr ck'"
    by (auto simp: append_store_def)
  have "kc_atomText kc ` set atoms \<subseteq> compared_texts kc c0 saving atoms" "checkpoint_texts kc c0 \<subseteq> compared_texts kc c0 saving atoms"
    by (auto simp: compared_texts_def)
  note atoms = write_atoms_saved(1) [OF assms(2,4) u assms(5) this(1)] write_atoms_saved(2) [OF assms(2,4) u assms(5) this assms(3)]
  show ?thesis
  proof (cases saving)
    case None
    with ck' atoms show ?thesis by simp
  next
    case (Some c)
    then have "no_collision kc (checkpoint_texts kc c)" by (intro no_collision_mono [OF assms(5)]) (auto simp: compared_texts_def)
    from write_actor_saved [OF atoms(1) this assms(6) [OF Some]] ck' Some show ?thesis by simp
  qed
qed

text \<open>
  C15. The checkpoint of an actor can be read back exactly after every later append until an append replaces
  it, whatever snapshots of its atoms are written and collected in between; reading gives the last one.
  This holds unless two different texts among the finitely many that the append compares by their digest
  (those of the checkpoints and of the snapshots) collide; nothing else is asked of the digest.
\<close>

theorem sql_checkpoint_survives:
  assumes "rows_ok (sj_checkpoints s)" "saved kc (sj_checkpoints s) c0" "checkpoint_ok kc c0" "no_collision kc (compared_texts kc c0 saving (jg_atoms changes))"
    "list_all (atom_text_ok kc) (jg_atoms changes)" "\<And>c. saving = Some c \<Longrightarrow> checkpoint_texts_ok kc c"
    "sqlAppend cd kc opts expected new saving changes s = (Inr (), s')"
  shows "readActorCheckpoint kc None (sj_checkpoints s') = Inr (Some (case saving of None \<Rightarrow> c0 | Some c \<Rightarrow> c)) \<and>
    rows_ok (sj_checkpoints s') \<and> saved kc (sj_checkpoints s') (case saving of None \<Rightarrow> c0 | Some c \<Rightarrow> c)"
  using assms(7)
proof (cases rule: sqlAppend_cases)
  case (worked s1 encoded)
  have same: "sj_checkpoints s1 = sj_checkpoints s" using worked(2) catchUp_store [of cd opts "table_length (sj_tables s)" s "Inr ()" s1] by (auto simp: same_store_def)
  from worked(3) obtain u where u: "append_all cd kc opts (nat expected) new saving changes encoded s1 = Inr u" "s' = u"
    by (auto split: sum.split_asm)
  then obtain t ck w where store: "append_store kc (jo_chunkBytes opts) (nat expected + length new) new saving (jg_atoms changes) (sj_checkpoints s) (sj_wakes s1) = Inr (ck, w)"
    and s': "s' = s1\<lparr>sj_tables := t, sj_checkpoints := ck, sj_wakes := w\<rparr>" by (auto simp: append_all_def split_beta same)
  have saving: "checkpoint_ok kc c" if "saving = Some c" for c
    using assms(6) [OF that] append_encoded_Inr(3) [OF worked(1) that] unfolding checkpoint_ok_def by blast
  let ?c = "case saving of None \<Rightarrow> c0 | Some c \<Rightarrow> c"
  have "rows_ok ck" "saved kc ck ?c" using append_store_saved [OF store assms(1,2,5,4) saving] by simp_all
  moreover have "checkpoint_ok kc ?c" using saving assms(3) by (cases saving) auto
  moreover have "no_collision kc (checkpoint_texts kc ?c)" by (rule no_collision_mono [OF assms(4)]) (cases saving; simp add: compared_texts_def; blast)
  ultimately show ?thesis using read_saved [of ck kc ?c None] by (simp add: s')
qed simp_all

section \<open>Families\<close>

text \<open>
  C16. Reading a family gives the records with the key at their positions, ascending or descending, whatever
  the index held before, however its pages fall, and indexes only what it has to.
\<close>

theorem sql_family_read:
  assumes "sql_journal_ok cd defs s rs" "declared defs f" "\<forall>i < length rs. keyed f i (rs ! i)"
    "\<not> list_all js_space (jf_name f)" "\<not> list_all js_space (jf_version f)" "0 < jo_familyBatch opts" "lower \<le> upper" "upper \<le> length rs"
  shows "\<exists>s'. readFamily cd opts f key (int lower) (int upper) desc s = (Inr (map (\<lambda>i. (i, rs ! i)) (key_positions f rs key lower upper desc)), s') \<and>
    sql_journal_ok cd defs s' rs"
proof -
  have core: "stores cd (sj_tables s) rs" "families_ok defs (sj_tables s) rs" and n: "safe_integer (int (length rs))"
    using assms(1) by (simp_all add: sql_journal_ok_def journal_core_def)
  have loop: "fst (prepare_loop cd (jo_familyBatch opts) f (length rs) (sj_tables s)) = Inr ()"
    by (rule prepare_loop_total [OF core assms(2,3)]) (use assms(6) in simp)
  obtain s' where prepared: "prepare cd opts f (length rs) s = (Inr (), s')"
    using loop assms(4,5) by (cases "prepare_loop cd (jo_familyBatch opts) f (length rs) (sj_tables s)") (simp add: prepare_def)
  from prepare_ok [OF assms(1,2) prepared] have ok: "sql_journal_ok cd defs s' rs" and at: "family_position f (sj_tables s') = Some (length rs)" by simp_all
  then have stores: "stores cd (sj_tables s') rs" and families: "families_ok defs (sj_tables s') rs" by (simp_all add: sql_journal_ok_def journal_core_def)
  have "family_indexed f (sj_tables s') (take (length rs) rs)" using families_okD [OF families assms(2) at] by blast
  note pages = family_pages_positions [OF stores this at order_refl assms(6,8)]
  have "safe_integer (int lower)" "safe_integer (int upper)" using n assms(7,8) by (simp_all add: safe_integer_def)
  then have "readFamily cd opts f key (int lower) (int upper) desc s = (Inr (map (\<lambda>i. (i, rs ! i)) (key_positions f rs key lower upper desc)), s')"
    using assms(7,8) by (simp add: readFamily_def readPosition_stores [OF core(1) n] prepared pages)
  with ok show ?thesis by blast
qed

section \<open>Operations and invocations\<close>

text \<open>The rows of an operation are the positions of the events that carry its reference.\<close>

definition carries :: "effect_ref \<Rightarrow> recorded \<Rightarrow> bool" where
  "carries ref r \<longleftrightarrow> (case rec_event r of Core e \<Rightarrow> event_ref e = Some ref | _ \<Rightarrow> False)"

lemma concerns_carries: "indexable i r \<Longrightarrow> concerns ref r \<longleftrightarrow> carries ref r"
  by (auto simp: concerns_Core carries_def indexable_def split: journal_event.splits)

lemma lifecycle_entry_filter:
  "map (\<lambda>(_, _, _, seq). seq) (filter (\<lambda>(a, c, n, _). a = ref_atom ref \<and> c = ref_act ref \<and> n = ref_seq ref) (lifecycle_entry i r)) = (if carries ref r then [i] else [])"
  by (cases ref) (auto simp: lifecycle_entry_def carries_def split: journal_event.split option.split)

lemma lifecycle_positions:
  assumes "indexed t rs"
  shows "lifecycle_rows (ref_atom ref) (ref_act ref) (ref_seq ref) t = filter (\<lambda>i. concerns ref (rs ! i)) [0..<length rs]"
proof -
  have "map (\<lambda>(_, _, _, seq). seq) (filter (\<lambda>(a, c, n, _). a = ref_atom ref \<and> c = ref_act ref \<and> n = ref_seq ref) (entries_of lifecycle_entry rs)) =
      filter (\<lambda>i. carries ref (rs ! i)) [0..<length rs]"
  proof (induction rs rule: rev_induct)
    case (snoc r rs)
    have "filter (\<lambda>i. carries ref ((rs @ [r]) ! i)) [0..<length rs] = filter (\<lambda>i. carries ref (rs ! i)) [0..<length rs]"
      by (rule filter_cong) (simp_all add: nth_append)
    with snoc show ?case by (simp add: lifecycle_entry_filter [of ref "length rs" r, unfolded case_prod_unfold] case_prod_unfold del: map_is_Nil_conv)
  qed simp
  also have "\<dots> = filter (\<lambda>i. concerns ref (rs ! i)) [0..<length rs]"
    by (rule filter_cong) (use assms concerns_carries in \<open>auto simp: indexed_def\<close>)
  finally show ?thesis using assms by (simp add: lifecycle_rows_def indexed_def sorted_sort_id sorted_wrt_filter)
qed

lemma nth_filter_upt: "map ((!) rs) (filter (\<lambda>i. P (rs ! i)) [0..<length rs]) = filter P rs"
proof (induction rs rule: rev_induct)
  case (snoc r rs)
  have "filter (\<lambda>i. P ((rs @ [r]) ! i)) [0..<length rs] = filter (\<lambda>i. P (rs ! i)) [0..<length rs]"
    by (rule filter_cong) (simp_all add: nth_append)
  moreover have "map ((!) (rs @ [r])) (filter (\<lambda>i. P (rs ! i)) [0..<length rs]) = map ((!) rs) (filter (\<lambda>i. P (rs ! i)) [0..<length rs])"
    by (rule map_cong) (simp_all add: nth_append)
  ultimately show ?case using snoc by simp
qed simp

text \<open>The records of a reference start with its acceptance, as the replay engine writes them.\<close>

definition accepted_first :: "effect_ref \<Rightarrow> recorded list \<Rightarrow> bool" where
  "accepted_first ref rs \<longleftrightarrow> (\<forall>j < length rs. concerns ref (rs ! j) \<longrightarrow>
     ref_seq ref \<le> j \<and> (\<exists>q. rec_event (rs ! ref_seq ref) = Core (EffectRequested q) \<and> rq_ref q = ref))"

lemma operation_rows:
  assumes "stores cd t rs" "indexed t rs" "accepted_first ref rs" "p \<le> length rs" "js = filter (\<lambda>i. concerns ref (rs ! i)) [0..<p]" "i < length js"
  shows "operation_row cd t ref (i, js ! i) = Inr (rs ! (js ! i))"
proof -
  let ?j = "js ! i"
  have ordered: "sorted js" "distinct js" by (simp_all add: assms(5) sorted_wrt_filter)
  have member: "x \<in> set js \<Longrightarrow> x < p \<and> concerns ref (rs ! x)" for x by (simp add: assms(5))
  have "?j \<in> set js" using assms(6) by simp
  from member [OF this] assms(4) have here: "?j < length rs" "concerns ref (rs ! ?j)" "?j < p" by simp_all
  from assms(3) here(1,2) have j: "ref_seq ref \<le> ?j" and accepted: "\<exists>q. rec_event (rs ! ref_seq ref) = Core (EffectRequested q) \<and> rq_ref q = ref"
    unfolding accepted_first_def by blast+
  have index: "x < length rs \<Longrightarrow> indexable x (rs ! x)" for x using assms(2) by (simp add: indexed_def)
  have "concerns ref (rs ! ref_seq ref)" using accepted index [of "ref_seq ref"] j here concerns_carries by (auto simp: carries_def)
  then have "ref_seq ref \<in> set js" using j here by (simp add: assms(5))
  then obtain k where k: "k < length js" "js ! k = ref_seq ref" by (auto simp: in_set_conv_nth)
  have "js ! 0 = ref_seq ref"
  proof -
    have "js ! 0 \<le> js ! k" using ordered(1) k(1) by (intro sorted_nth_mono) auto
    moreover have "js ! 0 \<in> set js" using assms(6) by (intro nth_mem) auto
    then have "ref_seq ref \<le> js ! 0" using member assms(3,4) by (force simp: accepted_first_def)
    ultimately show ?thesis using k(2) by simp
  qed
  then have first: "i = 0 \<longleftrightarrow> ?j = ref_seq ref" using ordered(2) assms(6) nth_eq_iff_index_eq [of js i 0] by force
  from here(2) obtain e where e: "rec_event (rs ! ?j) = Core e" "core_event_ok e" "event_ref e = Some ref" by (auto simp: concerns_Core)
  have "is_requested e \<longleftrightarrow> ?j = ref_seq ref"
    using e index [OF here(1)] accepted by (cases e) (auto simp: indexable_def)
  with first e here(1) show ?thesis by (auto simp: operation_row_def read_joined_stores [OF assms(1)])
qed

lemma requested_concerns: "rec_event r = Core (EffectRequested q) \<Longrightarrow> requested_ok q \<Longrightarrow> concerns (rq_ref q) r"
  by (simp add: concerns_Core)

text \<open>
  C17. The records of an operation are read from its index as a scan of the journal up to a position would
  find them, first its acceptance; a reference that nothing accepted has none.
\<close>

theorem sql_operation_read:
  assumes "sql_journal_ok cd defs s rs" "ref_ok ref" "accepted_first ref rs" "p \<le> length rs"
  shows "sqlReadOperation cd ref (int p) (sj_tables s) = Inr (filter (concerns ref) (take p rs))"
proof -
  let ?t = "sj_tables s" and ?js = "filter (\<lambda>i. concerns ref (rs ! i)) [0..<p]"
  have ok: "stores cd ?t rs" "indexed ?t rs" "safe_integer (int (length rs))" using assms(1) by (simp_all add: sql_journal_ok_def journal_core_def)
  have safe: "safe_integer (int p)" using ok(3) assms(4) by (simp add: safe_integer_def)
  have "filter (\<lambda>seq. seq < p) (filter (\<lambda>i. concerns ref (rs ! i)) [0..<length rs]) = ?js"
    using filter_upt_within [OF assms(4), of "\<lambda>i. concerns ref (rs ! i)" 0] by (simp add: conj_commute)
  then have rows: "filter (\<lambda>seq. seq < p) (lifecycle_rows (ref_atom ref) (ref_act ref) (ref_seq ref) ?t) = ?js"
    by (simp only: lifecycle_positions [OF ok(2)])
  have "filter (\<lambda>i. concerns ref (take p rs ! i)) [0..<p] = ?js" by (rule filter_cong) simp_all
  then have "map ((!) (take p rs)) ?js = filter (concerns ref) (take p rs)"
    using nth_filter_upt [of "take p rs" "concerns ref"] assms(4) by (simp add: min_absorb2)
  moreover have "map ((!) (take p rs)) ?js = map ((!) rs) ?js" by (rule map_cong) simp_all
  ultimately have records: "map ((!) rs) ?js = filter (concerns ref) (take p rs)" by simp
  show ?thesis
  proof (cases "?js")
    case Nil
    have "\<not> (requested_ok q \<and> rq_ref q = ref)" if "ref_seq ref < p" "rec_event (rs ! ref_seq ref) = Core (EffectRequested q)" for q
      using Nil that requested_concerns [OF that(2)] by (auto simp: filter_empty_conv)
    then show ?thesis
      using assms(2,4) safe rows records Nil
      by (auto simp: sqlReadOperation_def readPosition_stores [OF ok(1,3)] map_of_stores [OF ok(1)] read_stores [OF ok(1)]
        split: journal_event.split core_event.split)
  next
    case (Cons j js)
    have "map_try (operation_row cd ?t ref) (enumerate 0 ?js) = Inr (map (\<lambda>(_, j). rs ! j) (enumerate 0 ?js))"
      by (rule map_try_total) (use operation_rows [OF ok(1,2) assms(3,4) refl] in \<open>auto simp: in_set_enumerate_eq\<close>)
    also have "map (\<lambda>(_, j). rs ! j) (enumerate 0 ?js) = map ((!) rs) (map snd (enumerate 0 ?js))"
      by (simp only: map_map comp_def case_prod_unfold)
    finally have "map_try (operation_row cd ?t ref) (enumerate 0 (j # js)) = Inr (filter (concerns ref) (take p rs))"
      by (simp add: records Cons [symmetric] del: enumerate_simps)
    then show ?thesis
      using assms(2,4) safe unfolding sqlReadOperation_def by (simp add: readPosition_stores [OF ok(1,3)] rows Cons del: enumerate_simps)
  qed
qed

text \<open>An invocation is accepted at most once, so its records are those of one reference.\<close>

lemma set_accepted_keys:
  "k \<in> set (accepted_keys i rs) \<longleftrightarrow>
    (\<exists>j q. j < length rs \<and> rec_event (rs ! j) = Core (EffectRequested q) \<and> requested_ok q \<and> accepts_identity i q \<and> k = effectKey (rq_ref q))"
proof -
  have "k \<in> set (accepted_keys i rs) \<longleftrightarrow>
      (\<exists>r\<in>set rs. \<exists>q. rec_event r = Core (EffectRequested q) \<and> requested_ok q \<and> accepts_identity i q \<and> k = effectKey (rq_ref q))"
    by (induction i rs rule: accepted_keys.induct) (auto split: journal_event.splits core_event.splits)
  then show ?thesis by (auto simp: Bex_def in_set_conv_nth)
qed

lemma request_entry_accepts:
  assumes "indexable j r"
  shows "((ii_atom i, ii_act i, origin_column (ii_origin i)), seq) \<in> set (request_entry j r) \<longleftrightarrow>
    seq = j \<and> (\<exists>q. rec_event r = Core (EffectRequested q) \<and> requested_ok q \<and> accepts_identity i q \<and> rq_ref q = \<lparr>ref_seq = j, ref_atom = ii_atom i, ref_act = ii_act i\<rparr>)"
proof -
  have "origin_column a = origin_column b \<longleftrightarrow> a = b" for a b by (auto simp: origin_column_def split: option.splits)
  then show ?thesis using assms
    by (auto simp: request_entry_def indexable_def accepts_identity_def split: journal_event.splits core_event.splits)
qed

text \<open>
  C18. Looking an invocation up in the tables gives the records that a scan of the whole journal selects.
\<close>

theorem sql_lookup_select:
  assumes "sql_journal_ok cd defs s rs"
  shows "sqlLookupRows cd i (sj_tables s) = Inr (selectInvocationRecords rs i)"
proof -
  let ?t = "sj_tables s" and ?key = "(ii_atom i, ii_act i, origin_column (ii_origin i))"
  have ok: "stores cd ?t rs" "indexed ?t rs" using assms by (simp_all add: sql_journal_ok_def journal_core_def)
  then have requests: "jt_requests ?t = entries_of request_entry rs" "distinct (map fst (jt_requests ?t))"
    and index: "\<And>j. j < length rs \<Longrightarrow> indexable j (rs ! j)" unfolding indexed_def by blast+
  have entry: "(?key, seq) \<in> set (jt_requests ?t) \<longleftrightarrow> seq < length rs \<and> (\<exists>q. rec_event (rs ! seq) = Core (EffectRequested q) \<and> requested_ok q \<and>
      accepts_identity i q \<and> rq_ref q = \<lparr>ref_seq = seq, ref_atom = ii_atom i, ref_act = ii_act i\<rparr>)" for seq
  proof -
    have "(?key, seq) \<in> set (jt_requests ?t) \<longleftrightarrow> (\<exists>j < length rs. seq = j \<and> (\<exists>q. rec_event (rs ! j) = Core (EffectRequested q) \<and> requested_ok q \<and>
        accepts_identity i q \<and> rq_ref q = \<lparr>ref_seq = j, ref_atom = ii_atom i, ref_act = ii_act i\<rparr>))"
      unfolding requests(1) set_entries_of by (intro ex_cong1 conj_cong refl request_entry_accepts index)
    then show ?thesis by blast
  qed
  have keys: "k \<in> set (accepted_keys i rs) \<longleftrightarrow> (\<exists>seq. (?key, seq) \<in> set (jt_requests ?t) \<and> k = effectKey \<lparr>ref_seq = seq, ref_atom = ii_atom i, ref_act = ii_act i\<rparr>)" for k
  proof
    assume "k \<in> set (accepted_keys i rs)"
    then obtain j q where q: "j < length rs" "rec_event (rs ! j) = Core (EffectRequested q)" "requested_ok q" "accepts_identity i q" "k = effectKey (rq_ref q)"
      unfolding set_accepted_keys by (elim exE conjE) 
    have "rq_ref q = \<lparr>ref_seq = j, ref_atom = ii_atom i, ref_act = ii_act i\<rparr>"
      using index [OF q(1)] q(2,4) by (simp add: indexable_def accepts_identity_def)
    then show "\<exists>seq. (?key, seq) \<in> set (jt_requests ?t) \<and> k = effectKey \<lparr>ref_seq = seq, ref_atom = ii_atom i, ref_act = ii_act i\<rparr>"
      using q by (intro exI [of _ j]) (simp add: entry)
  next
    assume "\<exists>seq. (?key, seq) \<in> set (jt_requests ?t) \<and> k = effectKey \<lparr>ref_seq = seq, ref_atom = ii_atom i, ref_act = ii_act i\<rparr>"
    then obtain seq where seq: "(?key, seq) \<in> set (jt_requests ?t)" "k = effectKey \<lparr>ref_seq = seq, ref_atom = ii_atom i, ref_act = ii_act i\<rparr>" by (elim exE conjE)
    from seq(1) [unfolded entry] obtain q where q: "seq < length rs" "rec_event (rs ! seq) = Core (EffectRequested q)" "requested_ok q" "accepts_identity i q"
      "rq_ref q = \<lparr>ref_seq = seq, ref_atom = ii_atom i, ref_act = ii_act i\<rparr>" by (elim exE conjE)
    show "k \<in> set (accepted_keys i rs)"
      unfolding set_accepted_keys by (rule exI [of _ seq], rule exI [of _ q]) (simp only: q seq(2) simp_thms)
  qed
  show ?thesis
  proof (cases "map_of (jt_requests ?t) ?key")
    case None
    then have "(?key, seq) \<notin> set (jt_requests ?t)" for seq by (metis map_of_eq_None_iff fst_conv image_eqI set_map)
    then have "\<forall>k. k \<notin> set (accepted_keys i rs)" by (simp only: keys) blast
    then have "accepted_keys i rs = []" by (cases "accepted_keys i rs") (simp, metis list.set_intros(1))
    then have "selectInvocationRecords rs i = []"
      by (simp add: selectInvocationRecords_def filter_empty_conv split: journal_event.split option.split)
    then show ?thesis using None by (simp add: sqlLookupRows_def)
  next
    case (Some seq)
    let ?ref = "\<lparr>ref_seq = seq, ref_atom = ii_atom i, ref_act = ii_act i\<rparr>"
    let ?js = "filter (\<lambda>j. concerns ?ref (rs ! j)) [0..<length rs]"
    have only: "(?key, x) \<in> set (jt_requests ?t) \<longleftrightarrow> x = seq" for x
      unfolding map_of_eq_Some_iff [OF requests(2), symmetric] Some by (simp only: option.inject eq_commute)
    then have "set (accepted_keys i rs) = {effectKey ?ref}" using keys by auto
    then have selected: "selectInvocationRecords rs i = filter (concerns ?ref) rs"
      unfolding selectInvocationRecords_def Let_def concerns_def by (intro filter_cong) (auto split: journal_event.split option.split)
    have rows: "lifecycle_rows (ii_atom i) (ii_act i) seq ?t = ?js" using lifecycle_positions [OF ok(2), of ?ref] by simp
    have "seq \<in> set ?js" using entry [of seq] only [of seq] requested_concerns by fastforce
    then have some: "?js \<noteq> []" by (metis empty_iff empty_set)
    have present: "\<forall>row\<in>set (map (joined ?t) ?js). snd row \<noteq> None" by (auto simp: joined_def map_of_stores [OF ok(1)])
    have read: "map_try (read_joined cd ?t ''Invocation index is missing journal records'') (map (joined ?t) ?js) = Inr (map (\<lambda>row. rs ! fst row) (map (joined ?t) ?js))"
      by (rule map_try_total) (use read_joined_stores [OF ok(1)] in \<open>auto simp: joined_def\<close>)
    have "map (\<lambda>row. rs ! fst row) (map (joined ?t) ?js) = filter (concerns ?ref) rs"
      using nth_filter_upt [of rs "concerns ?ref"] by (simp add: joined_def comp_def)
    with read have read: "map_try (read_joined cd ?t ''Invocation index is missing journal records'') (map (joined ?t) ?js) = Inr (selectInvocationRecords rs i)"
      by (simp only: selected)
    have "\<not> (map (joined ?t) ?js = [] \<or> (\<exists>row\<in>set (map (joined ?t) ?js). snd row = None))" using some present by (simp only: map_is_Nil_conv) blast
    then show ?thesis unfolding sqlLookupRows_def Some option.case rows Let_def by (simp only: if_False read)
  qed
qed

section \<open>A journal of two records\<close>

definition sql_demo_ref :: effect_ref where
  "sql_demo_ref = \<lparr>ref_seq = 0, ref_atom = ''root'', ref_act = ''fetch''\<rparr>"

definition sql_demo_request :: recorded where
  "sql_demo_request = \<lparr>rm_message = None, rm_recordedAt = None,
     rec_event = Core (EffectRequested \<lparr>rq_ref = sql_demo_ref, rq_origin = None, rq_request = \<lparr>sr_act = ''fetch'', sr_input = InlineInput (JInt 7)\<rparr>\<rparr>)\<rparr>"

definition sql_demo_death :: recorded where
  "sql_demo_death = \<lparr>rm_message = None, rm_recordedAt = None, rec_event = Core (EffectDied \<lparr>died_ref = sql_demo_ref, died_diagnostic = ''lost''\<rparr>)\<rparr>"

definition sql_demo_codec :: journal_codec where
  "sql_demo_codec = \<lparr>jc_text = (\<lambda>r. case rec_event r of Core (EffectDied _) \<Rightarrow> [1] | _ \<Rightarrow> [0]),
     jc_parse = (\<lambda>b. Inr (if b = [1] then sql_demo_death else sql_demo_request)),
     jc_inputText = (\<lambda>_. []), jc_inputParse = (\<lambda>_. Inl SchemaError), jc_digest = (\<lambda>_. [])\<rparr>"

definition sql_demo_options :: journal_options where
  "sql_demo_options = \<lparr>jo_actorBytes = 1, jo_familyBatch = 1, jo_invocationBatch = 1, jo_chunkBytes = 64, jo_maxRowBytes = None,
     jo_inlineCapacity = 64, jo_eventChunkBytes = 64, jo_inlineBytes = 64\<rparr>"

definition sql_demo_key :: "recorded \<Rightarrow> nat \<Rightarrow> runtime_error + nat option" where
  "sql_demo_key r i = Inr (case rec_event r of Core (EffectDied _) \<Rightarrow> Some 7 | _ \<Rightarrow> None)"

text \<open>An atom with two snapshots, of which the checkpoint refers to the first.\<close>

definition sql_demo_identity :: atom_identity where
  "sql_demo_identity = \<lparr>ai_name = ''plan'', ai_family = None, ai_version = None\<rparr>"

definition sql_demo_atom :: "nat \<Rightarrow> nat stored_atom" where
  "sql_demo_atom p = \<lparr>sa_identity = sql_demo_identity, sa_position = p, sa_state = p\<rparr>"

definition sql_demo_state :: "nat actor_state" where
  "sql_demo_state = \<lparr>as_position = 2, as_durable = [sql_demo_atom 2]\<rparr>"

text \<open>A digest of fixed length: the sum of the bytes modulo 256, which is far from injective.\<close>

definition sql_demo_digest :: "bytes \<Rightarrow> string" where
  "sql_demo_digest payload = [char_of (sum_list (map unat payload))]"

definition sql_demo_store :: "nat checkpoint_codec" where
  "sql_demo_store = \<lparr>kc_atomText = (\<lambda>a. if sa_position a = 2 then [2] else [3]),
     kc_atomParse = (\<lambda>b. Some (sql_demo_atom (if b = [2] then 2 else 3))),
     kc_actorText = (\<lambda>_ _. [20]), kc_actorParse = (\<lambda>_. Some (VersionedDocument 5 (Some sql_demo_state))),
     kc_manifestText = (\<lambda>m. if mf_legacy m then [31] else [30]), kc_manifestParse = (\<lambda>b. Some (Manifest (manifest_of sql_demo_state (b = [31])))),
     kc_digest = sql_demo_digest\<rparr>"

definition sql_demo_checkpoint :: stored_checkpoint where
  "sql_demo_checkpoint = \<lparr>sc_tag = None, sc_position = 2, sc_payload = [20], sc_digest = sql_demo_digest [20]\<rparr>"

definition sql_demo_changes :: "nat stored_atom list \<Rightarrow> nat journal_changes" where
  "sql_demo_changes atoms = \<lparr>jg_put = [], jg_remove = [], jg_atoms = atoms\<rparr>"

definition sql_demo_checkpoints :: checkpoint_tables where
  "sql_demo_checkpoints = \<lparr>kt_atoms = [\<lparr>ar_id = 1, ar_identity = sql_demo_identity, ar_position = 2, ar_byteLength = 1, ar_chunkCount = 1,
       ar_digest = sql_demo_digest [2], ar_pinned = True\<rparr>], kt_atomChunks = [((1, 0), [2])],
     kt_actor = Some \<lparr>cr_position = 2, cr_byteLength = 1, cr_chunkCount = 1, cr_digest = sql_demo_digest [20], cr_tag = None, cr_encoding = 1,
       cr_storageByteLength = Some 1, cr_storageDigest = Some (sql_demo_digest [30])\<rparr>, kt_actorChunks = [(0, [30])]\<rparr>"

definition sql_demo_family :: "nat journal_family" where
  "sql_demo_family = \<lparr>jf_name = ''deaths'', jf_version = ''1'', jf_key = sql_demo_key\<rparr>"

definition sql_demo_empty :: "nat sql_journal" where
  "sql_demo_empty = \<lparr>sj_tables = empty_tables\<lparr>jt_position := Some 0\<rparr>, sj_families = [], sj_checkpoints = no_checkpoints, sj_wakes = None\<rparr>"

definition sql_demo_journal :: "nat sql_journal" where
  "sql_demo_journal = \<lparr>sj_tables = empty_tables\<lparr>jt_events := [(0, RecordText [0]), (1, RecordText [1])], jt_requests := [((''root'', ''fetch'', -1), 0)],
     jt_lifecycle := [(''root'', ''fetch'', 0, 0), (''root'', ''fetch'', 0, 1)], jt_position := Some 2\<rparr>, sj_families = [], sj_checkpoints = no_checkpoints, sj_wakes = None\<rparr>"

lemmas sql_demo = sql_demo_ref_def sql_demo_request_def sql_demo_death_def sql_demo_codec_def sql_demo_options_def sql_demo_key_def sql_demo_family_def
  sql_demo_empty_def sql_demo_journal_def empty_tables_def

lemmas sql_facts = journal_core_def stores_def indexed_def messages_ok_def entries_of_def families_ok_def stored_row_def upt_rec
  lifecycle_entry_def request_entry_def message_entry_def indexable_def declared_def origin_column_def

lemma sql_demo_requested: "requested_ok \<lparr>rq_ref = sql_demo_ref, rq_origin = None, rq_request = \<lparr>sr_act = ''fetch'', sr_input = InlineInput (JInt 7)\<rparr>\<rparr>" "ref_ok sql_demo_ref"
  by code_simp+

lemma sql_demo_empty_ok: "sql_journal_ok sql_demo_codec (\<lambda>_ _. sql_demo_key) sql_demo_empty []"
  by (simp add: sql_journal_ok_def sql_facts sql_demo_empty_def empty_tables_def safe_integer_def max_safe_integer_def)

lemma sql_demo_ok: "sql_journal_ok sql_demo_codec (\<lambda>_ _. sql_demo_key) sql_demo_journal [sql_demo_request, sql_demo_death]"
  using sql_demo_requested
  by (simp add: sql_journal_ok_def sql_facts sql_demo safe_integer_def max_safe_integer_def less_Suc_eq numeral_2_eq_2)

lemma sql_demo_append:
  "sqlAppend sql_demo_codec sql_demo_store sql_demo_options 0 [sql_demo_request, sql_demo_death] None (sql_demo_changes []) sql_demo_empty = (Inr (), sql_demo_journal)"
  using sql_demo_requested
  by (simp add: sqlAppend_def append_encoded_def position_checked_def checkpoint_checked_def append_all_def append_store_def append_wakes_def
      writeAtomCheckpoints_def sql_demo_changes_def append_work_def encode_record_def table_length_def insert_event_def sql_insert_def insert_message_def
      index_record_Inr indexInvocationRecord_def insert_request_def insert_lifecycle_def sql_add_def origin_column_def sql_demo safe_integer_def max_safe_integer_def)

lemma sql_demo_concerns: "concerns sql_demo_ref sql_demo_request" "concerns sql_demo_ref sql_demo_death"
  using sql_demo_requested by (simp_all add: concerns_Core sql_demo_request_def sql_demo_death_def)

theorem sql_append_atomic_witness:
  "\<exists>s'. sqlAppend sql_demo_codec sql_demo_store sql_demo_options 0 [sql_demo_request, sql_demo_death] None (sql_demo_changes []) sql_demo_empty = (Inr (), s') \<and>
     sql_journal_ok sql_demo_codec (\<lambda>_ _. sql_demo_key) s' [sql_demo_request, sql_demo_death]"
proof -
  have "codec_ok sql_demo_codec sql_demo_request" "codec_ok sql_demo_codec sql_demo_death"
    by (simp_all add: codec_ok_def sql_demo safe_integer_def max_safe_integer_def)
  then have "sql_journal_ok sql_demo_codec (\<lambda>_ _. sql_demo_key) sql_demo_journal ([] @ [sql_demo_request, sql_demo_death])"
    using sql_append_atomic [OF sql_demo_empty_ok _ _ sql_demo_append] by (simp add: safe_integer_def max_safe_integer_def)
  with sql_demo_append show ?thesis by simp
qed

text \<open>With a family open that indexes the deaths.\<close>

definition sql_demo_open :: "nat sql_journal" where
  "sql_demo_open = sql_demo_empty\<lparr>sj_families := [(''deaths'', sql_demo_family)]\<rparr>"

theorem sql_append_succeeds_witness:
  "\<exists>s'. sqlAppend sql_demo_codec sql_demo_store sql_demo_options 0 [sql_demo_request, sql_demo_death] None (sql_demo_changes []) sql_demo_open = (Inr (), s') \<and>
     family_position sql_demo_family (sj_tables s') = Some 2"
proof -
  have "sql_journal_ok sql_demo_codec (\<lambda>_ _. sql_demo_key) sql_demo_open []"
    using sql_demo_empty_ok by (simp add: sql_journal_ok_def sql_demo_open_def sql_demo_family_def declared_def)
  moreover have "list_all (indexes sql_demo_options ([] @ [sql_demo_request, sql_demo_death])) (map snd (sj_families sql_demo_open))"
    by (simp add: sql_demo_open_def indexes_def sql_demo_options_def sql_demo_family_def js_space_def keyed_def sql_demo_key_def)
  moreover have "jg_put (sql_demo_changes []) = []" by (simp add: sql_demo_changes_def)
  moreover have "map_try (encode_record sql_demo_codec sql_demo_options) [sql_demo_request, sql_demo_death] = Inr [(RecordText [0], []), (RecordText [1], [])]"
    by (simp add: encode_record_def sql_demo)
  moreover have "\<forall>r\<in>set [sql_demo_request, sql_demo_death]. codec_ok sql_demo_codec r"
    by (simp add: codec_ok_def sql_demo safe_integer_def max_safe_integer_def)
  moreover have "\<forall>i < length ([] @ [sql_demo_request, sql_demo_death]). indexable i (([] @ [sql_demo_request, sql_demo_death]) ! i)"
    using sql_demo_requested by (simp add: indexable_def sql_demo less_Suc_eq)
  moreover have "distinct (map fst (entries_of request_entry ([] @ [sql_demo_request, sql_demo_death])))"
      "distinct (map fst (entries_of message_entry ([] @ [sql_demo_request, sql_demo_death])))"
    by (simp_all add: entries_of_def upt_rec request_entry_def message_entry_def sql_demo_request_def sql_demo_death_def)
  moreover have "position_checked (int (length ([] :: recorded list))) (length [sql_demo_request, sql_demo_death]) None = Inr ()" "checkpoint_checked sql_demo_store None = Inr ()"
    by (simp_all add: position_checked_def checkpoint_checked_def safe_integer_def max_safe_integer_def)
  moreover have "append_store sql_demo_store (jo_chunkBytes sql_demo_options) (length ([] @ [sql_demo_request, sql_demo_death])) [sql_demo_request, sql_demo_death] None
      (jg_atoms (sql_demo_changes [])) (sj_checkpoints sql_demo_open) (sj_wakes sql_demo_open) = Inr (no_checkpoints, None)"
    by (simp add: append_store_def append_wakes_def writeAtomCheckpoints_def sql_demo_changes_def sql_demo_open_def sql_demo_empty_def)
  ultimately obtain s' where "sqlAppend sql_demo_codec sql_demo_store sql_demo_options (int (length ([] :: recorded list))) [sql_demo_request, sql_demo_death] None
      (sql_demo_changes []) sql_demo_open = (Inr (), s')" "list_all (\<lambda>f. family_position f (sj_tables s') = Some (length ([] @ [sql_demo_request, sql_demo_death])))
      (map snd (sj_families s'))" "sj_families s' = sj_families sql_demo_open"
    using sql_append_succeeds [of sql_demo_codec "\<lambda>_ _. sql_demo_key" sql_demo_open "[]" sql_demo_options "[sql_demo_request, sql_demo_death]" "sql_demo_changes []"] by blast
  then show ?thesis by (simp add: sql_demo_open_def)
qed

theorem sql_family_read_witness:
  "fst (readFamily sql_demo_codec sql_demo_options sql_demo_family 7 0 2 False sql_demo_journal) = Inr [(1, sql_demo_death)]"
proof -
  have "\<forall>i < length [sql_demo_request, sql_demo_death]. keyed sql_demo_family i ([sql_demo_request, sql_demo_death] ! i)"
    by (simp add: keyed_def sql_demo_family_def sql_demo_key_def)
  moreover have "key_positions sql_demo_family [sql_demo_request, sql_demo_death] 7 0 2 False = [1]"
    by (simp add: key_positions_def key_at_def sql_demo_family_def sql_demo_key_def sql_demo_request_def sql_demo_death_def upt_rec)
  ultimately show ?thesis
    using sql_family_read [OF sql_demo_ok, of sql_demo_family sql_demo_options 0 2 7 False]
    by (auto simp: declared_def sql_demo_family_def sql_demo_options_def js_space_def)
qed

theorem sql_operation_read_witness:
  "sqlReadOperation sql_demo_codec sql_demo_ref 2 (sj_tables sql_demo_journal) = Inr [sql_demo_request, sql_demo_death]"
proof -
  have "accepted_first sql_demo_ref [sql_demo_request, sql_demo_death]"
    by (simp add: accepted_first_def sql_demo_ref_def sql_demo_request_def)
  then show ?thesis
    using sql_operation_read [OF sql_demo_ok sql_demo_requested(2), of 2] by (simp add: sql_demo_concerns)
qed

theorem sql_lookup_select_witness:
  "sqlLookupRows sql_demo_codec \<lparr>ii_atom = ''root'', ii_act = ''fetch'', ii_origin = None\<rparr> (sj_tables sql_demo_journal) =
     Inr (selectInvocationRecords [sql_demo_request, sql_demo_death] \<lparr>ii_atom = ''root'', ii_act = ''fetch'', ii_origin = None\<rparr>)"
  by (rule sql_lookup_select [OF sql_demo_ok])

lemma sql_demo_texts: "no_collision sql_demo_store (compared_texts sql_demo_store sql_demo_checkpoint None [sql_demo_atom 3])"
    "atom_text_ok sql_demo_store (sql_demo_atom 2)" "atom_text_ok sql_demo_store (sql_demo_atom 3)" "checkpoint_ok sql_demo_store sql_demo_checkpoint"
proof -
  have "compared_texts sql_demo_store sql_demo_checkpoint None [sql_demo_atom 3] \<subseteq> {[20], [2], [3]}"
    by (auto simp: compared_texts_def checkpoint_texts_def sql_demo_checkpoint_def sql_demo_store_def decodeCheckpoint_def migrateCheckpoint_def
      decodeActorCheckpointState_def sql_demo_state_def encodeCheckpoint_def encodeActorCheckpointV4_def encode_actor_def sql_demo_atom_def
      split: if_split_asm sum.split_asm)
  moreover have "no_collision sql_demo_store {[20], [2], [3]}"
    by (simp add: no_collision_def inj_on_def sql_demo_store_def sql_demo_digest_def)
  ultimately show "no_collision sql_demo_store (compared_texts sql_demo_store sql_demo_checkpoint None [sql_demo_atom 3])"
    by (rule no_collision_mono [rotated])
  show "atom_text_ok sql_demo_store (sql_demo_atom 2)" "atom_text_ok sql_demo_store (sql_demo_atom 3)"
    by (simp_all add: atom_text_ok_def sql_demo_store_def sql_demo_atom_def safe_integer_def max_safe_integer_def)
  then show "checkpoint_ok sql_demo_store sql_demo_checkpoint"
    by (auto simp: checkpoint_ok_def checkpoint_texts_ok_def sql_demo_checkpoint_def sql_demo_store_def safe_integer_def max_safe_integer_def
      manifest_text_ok_def manifest_of_def decodeCheckpoint_def migrateCheckpoint_def decodeActorCheckpointState_def sql_demo_state_def
      split: if_split_asm sum.split_asm)
qed

definition sql_demo_saved :: "nat sql_journal" where
  "sql_demo_saved = sql_demo_journal\<lparr>sj_checkpoints := sql_demo_checkpoints\<rparr>"

lemma sql_demo_saved_ok: "rows_ok (sj_checkpoints sql_demo_saved)" "saved sql_demo_store (sj_checkpoints sql_demo_saved) sql_demo_checkpoint"
proof -
  show "rows_ok (sj_checkpoints sql_demo_saved)" by (simp add: rows_ok_def sql_demo_saved_def sql_demo_checkpoints_def sql_demo_identity_def)
  let ?split = "\<lparr>sp_payload = [30], sp_atoms = [sql_demo_atom 2], sp_encoding = 1\<rparr>"
  have "splitActorCheckpoint sql_demo_store sql_demo_checkpoint = Inr ?split"
    by (simp add: splitActorCheckpoint_def sql_demo_checkpoint_def sql_demo_store_def decodeCheckpoint_def migrateCheckpoint_def decodeActorCheckpointState_def
      ACTOR_CHECKPOINT_VERSION_def LEGACY_ACTOR_CHECKPOINT_VERSION_def sql_demo_state_def sql_demo_atom_def sql_demo_identity_def stored_atom_ok_def
      complete_identity_def js_space_def safe_integer_def max_safe_integer_def validateCheckpointReferences_def reference_entry_def atom_reference_def
      reference_position_def encodeCheckpoint_def encode_actor_def encodeCheckpointManifest_def decode_manifest_def)
  moreover have "encodeCheckpointChunks [30] 64 = Inr [\<lparr>ck_ordinal = 0, ck_payload = [30]\<rparr>]"
    by (simp add: encodeCheckpointChunks_def validateCheckpointChunkBytes_def safe_integer_def max_safe_integer_def split_chunks.simps)
  moreover have "pins sql_demo_store sql_demo_checkpoints (sql_demo_atom 2)"
    by (simp add: pins_def atom_text_ok_def sql_demo_checkpoints_def row_key_def sql_demo_atom_def sql_demo_identity_def read_row_def atom_chunks_def chunks_of_def
      decodeCheckpointChunks_def safe_integer_def max_safe_integer_def sql_demo_store_def decodeAtomCheckpoint_def stored_atom_ok_def complete_identity_def js_space_def)
  ultimately show "saved sql_demo_store (sj_checkpoints sql_demo_saved) sql_demo_checkpoint"
    unfolding saved_def
    by (intro exI [of _ ?split] exI [of _ "[\<lparr>ck_ordinal = 0, ck_payload = [30]\<rparr>]"] exI [of _ 64])
      (simp add: sql_demo_saved_def sql_demo_checkpoints_def actor_row_of_def sql_demo_checkpoint_def sql_demo_store_def sql_demo_digest_def actor_chunks_def)
qed

lemma sql_demo_snapshot: "\<exists>ck. append_store sql_demo_store 64 3 [sql_demo_death] None [sql_demo_atom 3] sql_demo_checkpoints None = Inr (ck, None)"
proof -
  have payload: "encodeAtomCheckpoint sql_demo_store (sql_demo_atom 3) = Inr [3]"
    by (simp add: encodeAtomCheckpoint_def sql_demo_store_def sql_demo_atom_def sql_demo_identity_def stored_atom_ok_def complete_identity_def js_space_def
      safe_integer_def max_safe_integer_def)
  have chunks: "encodeCheckpointChunks [3] 64 = Inr [\<lparr>ck_ordinal = 0, ck_payload = [3]\<rparr>]"
    by (simp add: encodeCheckpointChunks_def validateCheckpointChunkBytes_def safe_integer_def max_safe_integer_def split_chunks.simps)
  have parts: "kc_digest sql_demo_store = sql_demo_digest" "sa_identity (sql_demo_atom 3) = sql_demo_identity" "sa_position (sql_demo_atom 3) = 3"
    by (simp_all add: sql_demo_store_def sql_demo_atom_def)
  have "\<exists>ck. write_atom sql_demo_store 64 False (sql_demo_atom 3) sql_demo_checkpoints = Inr ck"
    by (simp add: write_atom_def payload chunks parts upsert_atom_def row_allowed_def sql_blank_def sql_demo_identity_def sql_demo_checkpoints_def
      same_atom_def find_atom_def new_row_id_def insert_atom_chunk_def sql_insert_def)
  then show ?thesis by (auto simp: append_store_def append_wakes_def writeAtomCheckpoints_def sql_demo_atom_def safe_integer_def max_safe_integer_def)
qed

theorem sql_checkpoint_survives_witness:
  "\<exists>s'. sqlAppend sql_demo_codec sql_demo_store sql_demo_options 2 [sql_demo_death] None (sql_demo_changes [sql_demo_atom 3]) sql_demo_saved = (Inr (), s') \<and>
     readActorCheckpoint sql_demo_store None (sj_checkpoints s') = Inr (Some sql_demo_checkpoint)"
proof -
  obtain ck where store: "append_store sql_demo_store 64 3 [sql_demo_death] None [sql_demo_atom 3] sql_demo_checkpoints None = Inr (ck, None)"
    using sql_demo_snapshot by blast
  have "\<exists>t. append_work sql_demo_codec 2 [(sql_demo_death, RecordText [1], [])] [] [] [] (sj_tables sql_demo_journal) = Inr t"
    using sql_demo_requested
    by (simp add: append_work_def table_length_def insert_event_def sql_insert_def insert_message_def
      indexInvocationRecord_def insert_lifecycle_def sql_add_def sql_demo)
  then obtain t where work: "append_work sql_demo_codec 2 [(sql_demo_death, RecordText [1], [])] [] [] [] (sj_tables sql_demo_journal) = Inr t" by blast
  have encoded: "append_encoded sql_demo_codec sql_demo_store sql_demo_options 2 [sql_demo_death] None (sql_demo_changes [sql_demo_atom 3]) = Inr ([(RecordText [1], [])], [])"
    by (simp add: append_encoded_def position_checked_def checkpoint_checked_def sql_demo_changes_def encode_record_def sql_demo safe_integer_def max_safe_integer_def)
  have "append_all sql_demo_codec sql_demo_store sql_demo_options 2 [sql_demo_death] None (sql_demo_changes [sql_demo_atom 3]) ([(RecordText [1], [])], []) sql_demo_saved =
      Inr (sql_demo_saved\<lparr>sj_tables := t, sj_checkpoints := ck, sj_wakes := None\<rparr>)"
    using work store by (simp add: append_all_def sql_demo_changes_def sql_demo_saved_def sql_demo_journal_def sql_demo_options_def)
  then have appended: "sqlAppend sql_demo_codec sql_demo_store sql_demo_options 2 [sql_demo_death] None (sql_demo_changes [sql_demo_atom 3]) sql_demo_saved =
      (Inr (), sql_demo_saved\<lparr>sj_tables := t, sj_checkpoints := ck, sj_wakes := None\<rparr>)"
    by (simp add: sqlAppend_def encoded) (simp add: sql_demo_saved_def sql_demo_journal_def)
  have atoms: "list_all (atom_text_ok sql_demo_store) (jg_atoms (sql_demo_changes [sql_demo_atom 3]))" using sql_demo_texts(3) by (simp add: sql_demo_changes_def)
  have texts: "no_collision sql_demo_store (compared_texts sql_demo_store sql_demo_checkpoint None (jg_atoms (sql_demo_changes [sql_demo_atom 3])))"
    using sql_demo_texts(1) by (simp add: sql_demo_changes_def)
  have "None = Some c \<Longrightarrow> checkpoint_texts_ok sql_demo_store c" for c by simp
  from sql_checkpoint_survives [OF sql_demo_saved_ok sql_demo_texts(4) texts atoms this appended] appended show ?thesis by simp
qed

end
