(* ===== verification/Spec2Isabelle.thy ===== *)
theory Spec2Isabelle
  imports EngineProperties EncodingProperties LogProperties ServiceProperties RecoveryProperties AgentProperties CodeProperties
    ToolProperties DurableAtoms PagedLogs Threads CompactionProperties SqlProperties
begin

text \<open>
  Tardigrade runs durable actors. An actor is a set of \<^emph>\<open>atoms\<close>, values derived from an append-only
  journal of records, and a schema of events. A runtime folds the journal, asks the atoms which
  events to append and which external \<^emph>\<open>effects\<close> (model calls, tools, messages) to perform, and
  records what becomes of them, so that a crash at any point is repaired by reading the journal again.
  Agents, code execution, supervisors and schedulers are built as actors or as services next to them.
  This development models the logic of the packages core, agent and code, and of the SQL journal and
  scheduler of package platform, as functions and step relations over explicit states.

  \<^bold>\<open>Conventions.\<close> Paths are below \<open>packages/\<close> unless they start with it. A schema is a record or datatype with
  a predicate \<open>..._ok\<close> or a decoder. Code that throws or fails returns \<open>runtime_error + 'a\<close>; \<open>try_bind\<close> and
  \<open>fold_try\<close> chain it. A \<open>Map\<close> or an object is an association list in insertion order or a finite map. A
  mutable store is a state passed along, or a heap where views share it; what may interleave is a step
  relation. JSON text, hashes, clocks, schemas of domain events, sandboxes and providers are parameters.

  \<^bold>\<open>Foundations.\<close> \<open>Prelude\<close> holds the shared lemmas, the error result and the collections of rules; \<open>Json\<close>
  the JSON values with their canonical text; \<open>Effects\<close>, \<open>Events\<close> and \<open>Operation\<close> the data of
  \<open>core/src/runtime/effects.ts\<close>, \<open>events.ts\<close>, \<open>operation.ts\<close>, the messages and threads and the journal's records.
  \<open>InputDigest\<close> models \<open>runtime/input-digest.ts\<close>: canonical text, its cache, the hash streamed over it and the
  array prefixes from which it resumes (\<open>EncodingProperties\<close>: the caches never change a digest, the text
  determines the value).

  \<^bold>\<open>Logs.\<close> \<open>ReadonlyLogs\<close> states the read interface of a log as the locale \<open>readonly_log\<close>, interpreted by the
  shared views (\<open>LogViews\<close>) and the batched ranges (\<open>RangeLogs\<close>) of \<open>core/src/runtime/log-view.ts\<close>; \<open>IndexViews\<close> is
  its map. \<open>FamilyKeys\<close> and \<open>InvocationLookup\<close> are \<open>services/journal/family.ts\<close> and \<open>invocation.ts\<close>. \<open>PagedLogs\<close> models
  the cursors and pages of \<open>experimental/log.ts\<close>, \<open>log-atom.ts\<close> and \<open>durable-atom-log.ts\<close>. The properties say that
  sharing and batching are invisible: every reader sees a plain list, a plain map, or a page of the
  matching records, each once and in order.

  \<^bold>\<open>The replay engine.\<close> \<open>Lifecycle\<close> is the automaton of one accepted operation, \<open>Engine\<close> the engine of
  \<open>core/src/runtime/replay.ts\<close>: recovery, append with its guards, the release of finished operations, the effects
  proposed and the work of a snapshot. \<open>EngineInvariants\<close> proves the invariant \<open>engine_ok\<close> step by step,
  \<open>EngineRecovery\<close> that an engine rebuilt from a journal or a checkpoint satisfies it, \<open>EngineWork\<close> that the work
  lists divide the active operations. \<open>EngineProperties\<close> draws the consequences: recovery agrees with the live
  engine, redelivery is idempotent, settlement and cancellation exclude each other.

  \<^bold>\<open>Atoms and threads.\<close> \<open>DurableAtoms\<close> is the frame of \<open>core/src/atoms/durable.ts\<close>: from whichever start a state is
  continued it is the fold of the journal. \<open>Threads\<close> is the creation, seeding and versioning of a journal by
  hosts that race (\<open>services/journal/thread.ts\<close>, \<open>runtime/initialisation.ts\<close>), a step relation over one journal.

  \<^bold>\<open>SQL journals.\<close> \<open>SqlTables\<close> holds the tables of \<open>platform/src/shared/sql-journal.ts\<close>, the chunks of large values
  (\<open>checkpoint/chunks.ts\<close>) and what is written to the indexes of invocations and of families (\<open>sql-family-index.ts\<close>);
  \<open>Checkpoints\<close> the payloads of checkpoints (\<open>core/src/services/checkpoint.ts\<close>, \<open>checkpoint/\<close>), \<open>SqlCheckpoints\<close> their
  tables (\<open>platform/src/shared/checkpoint/\<close>), \<open>RetryWakes\<close> the wakes of \<open>retry-wakes.ts\<close>, and \<open>SqlJournal\<close> the append
  transaction over all of these and the reads. \<open>SqlFacts\<close> relates the tables to the list of records they store,
  \<open>SqlFamilies\<close> the index of a family to the keys of that list, \<open>SqlCheckpointFacts\<close> the rows to the atoms they hold.
  \<open>SqlProperties\<close>: an append adds its records or nothing, and goes through when what it writes is sound; every
  read through an index gives what a scan of the list gives; and a checkpoint reads back exactly until an
  append replaces it. The digest of rows is a parameter, SHA-256 in the code. That it is injective is never
  assumed: \<open>no_collision\<close> asks only that no two of the finitely many texts that an append compares collide.

  \<^bold>\<open>Services.\<close> \<open>SupervisorGraph\<close> and \<open>Supervisor\<close> model the directory of threads (\<open>core/src/services/supervisor/graph.ts\<close>,
  \<open>supervisor.ts\<close>) in its two forms, an atom per thread and a single state, and their equivalence. \<open>Scheduler\<close> and
  \<open>Watchdog\<close> model the wakes, their SQL tables and the recovery budgets; the locale \<open>keyed_store\<close> is what they
  need of a table. \<open>RecoveryProperties\<close> shows that attempts are bounded, that pending work keeps a wake, and
  that an acknowledgment never deletes a replacement.

  \<^bold>\<open>Agents.\<close> \<open>AgentEvents\<close> holds the events of \<open>agent/src/contracts/events.ts\<close>, \<open>Inference\<close> the state of turns and the
  inference component (\<open>atoms/durable/inference.ts\<close>, \<open>atoms/infer.ts\<close>); \<open>InferenceLoop\<close> closes the loop between them and
  proves its invariant. \<open>AgentState\<close> models the other durable states, \<open>Governance\<close> the permission and budget
  components and the plan of a tool call; the proposals of the one are events of the other, and
  \<open>ToolProperties\<close> composes them: no counted call runs without permission or beyond its budget.

  \<^bold>\<open>Contexts of agents.\<close> \<open>Conversations\<close> reads the messages of a journal in pages (\<open>atoms/durable/trajectory.ts\<close>, with
  \<open>compat/trajectory.ts\<close> for old records) over \<open>PagedLogs\<close>. \<open>Compaction\<close> is the durable state and the component of
  \<open>atoms/durable/compaction.ts\<close> and \<open>atoms/compact.ts\<close>: policies, rendering, the bounded window with its cache, the
  choice of a cut and the request for a summary; \<open>ContextWindows\<close> proves what the window holds. \<open>ModelContexts\<close> is
  the context stored by reference (\<open>services/model-context.ts\<close>), \<open>StoredContexts\<close> that its policy renders alike.
  \<open>CompactionProperties\<close>: a compaction neither loses nor repeats a message and cuts no exchange of tools, its
  events are accepted by the state, the context is within the window of the model unless a single message
  besides the summary already exceeds it, and a stored context gives its messages again.

  \<^bold>\<open>Code threads.\<close> \<open>CodeEvents\<close>, \<open>Turns\<close> and \<open>CodeFacts\<close> model the events, turns and owed work of \<open>code/src/execution\<close>,
  \<open>TurnProjection\<close> the incremental form, \<open>PackageContract\<close> and \<open>PackageCalls\<close> the packages and \<open>CodeExecution\<close> the
  selection of an execution, what a call finds in the log and what a body settles with. \<open>CodeAttempts\<close> models
  the attempts of a body as moves over one log and store: calls in flight together, reading and recording in
  separate steps, the flags that close an attempt, and attempts that overlap; the body is a parameter that
  derives its calls from the answers it has received (\<open>deterministic\<close>, which bodies that ask for calls one at
  a time or together satisfy). \<open>CodeReplay\<close> proves the invariant of every interleaving. \<open>CodeProperties\<close> holds
  the properties; the incremental and the whole reading of turns differ where logs are disorderly, which it
  states.

  \<^bold>\<open>Bounds and fuel.\<close> Positions and counts are natural numbers with the checks for safe integers
  (below \<open>2 ^ 53\<close>) the code makes; code units are 16-bit words. Loops are structural recursion or have a
  termination proof, such as the loops over pages \<open>trajectory_loop\<close>, \<open>window_loop\<close> and \<open>read_context\<close>, whose cursors
  advance within the selection. The exception is \<open>read_pages\<close>, which follows cursors with fuel; one page more
  than the source has records is enough (\<open>log_pages_cover\<close>). Amounts of money and sizes of contexts are
  rationals where the code has floating-point numbers, and times whole milliseconds. Texts of agents are
  lists of characters, without surrogates that a clipped text could split.

  \<^bold>\<open>Not modelled.\<close> The fibers, interruption and streams of \<open>core/src/runtime/execution.ts\<close>, \<open>actors.ts\<close> and \<open>layers.ts\<close>, since
  they are the composition of Effect's runtime, of which the source states no semantics; the reactive
  registry that decides when an atom is read again; the sandbox; the hosts and HTTP surfaces of package
  platform, the hook in which a host runs the append of an SQL journal, and the migrations of its schema;
  model providers, the command line, the web application and the deprecated packages. Of package agent, code mode runs programs in the sandbox and the model services
  stream from providers; \<open>messages.ts\<close> parses JSON text into chat messages, and \<open>system.ts\<close> joins blocks of a prompt.
\<close>

end
